(* ===== verification/Prelude.thy ===== *)
theory Prelude
  imports Main
    "HOL-Library.Word"
    "HOL-Library.List_Lexorder"
    "HOL-Library.Char_ord"
    "HOL-Library.Product_Lexorder"
    "HOL-Library.Option_ord"
    "HOL-Library.Multiset"
begin

text \<open>
  Shared vocabulary of the pktflow development: the machine-integer types of the Rust
  sources, the parts of the Rust standard library the crates rely on (checked and saturating
  arithmetic, slice access, \<open>Result\<close> chaining with the \<open>?\<close> operator, the
  association-list view of a hash map, the min-heap \<open>BinaryHeap<Reverse<_>>\<close>), and the
  generic lemmas about them that every component proof uses.

  Conventions. \<open>usize\<close> values are \<^typ>\<open>nat\<close> with the machine bound written out where the
  code checks it; \<open>u8\<close> to \<open>u64\<close> are words, so \<open>+\<close> wraps as in a release build; a
  \<open>Result<T, E>\<close> is a value of the sum \<open>'e + 'a\<close> with \<^const>\<open>Inl\<close> for \<open>Err\<close>;
  \<open>&'static str\<close> and \<open>CompactString\<close> are \<^typ>\<open>string\<close>, whose characters are the
  bytes of the UTF-8 encoding; \<open>SystemTime\<close> is the \<^typ>\<open>int\<close> number of nanoseconds
  since the epoch and \<open>Duration\<close> a \<^typ>\<open>nat\<close> number of nanoseconds.
\<close>

unbundle bit_operations_syntax

type_synonym u8 = "8 word"
type_synonym u16 = "16 word"
type_synonym u32 = "32 word"
type_synonym u64 = "64 word"
type_synonym byte = "8 word"
type_synonym usize = nat
type_synonym system_time = int
type_synonym duration = nat

text \<open>Collections of facts: \<open>reader_simps\<close> for byte-reader chains, \<open>store_simps\<close> for the
  field projections of the stream store's operations.\<close>

named_theorems reader_simps
named_theorems store_simps

section \<open>Standard-library arithmetic and slices\<close>

definition usize_max :: nat where
  "usize_max = 2 ^ 64 - 1"

definition checked_add :: "usize \<Rightarrow> usize \<Rightarrow> usize option" where
  "checked_add a b = (if a + b \<le> usize_max then Some (a + b) else None)"

text \<open>\<open>u16::try_from(n).unwrap_or(u16::MAX)\<close>, the 32-bit variant, and the conversions back.\<close>

definition clamp_u16 :: "nat \<Rightarrow> u16" where
  "clamp_u16 n = (if n < 2 ^ 16 then of_nat n else - 1)"

definition clamp_u32 :: "nat \<Rightarrow> u32" where
  "clamp_u32 n = (if n < 2 ^ 32 then of_nat n else - 1)"

definition saturating_sub_word :: "'a::len word \<Rightarrow> 'a word \<Rightarrow> 'a word" where
  "saturating_sub_word a b = (if b \<le> a then a - b else 0)"

definition saturating_add_word :: "'a::len word \<Rightarrow> 'a word \<Rightarrow> 'a word" where
  "saturating_add_word a b = (if a \<le> a + b then a + b else - 1)"

text \<open>\<open>slice.get(i..j)\<close>\<close>

definition slice_get :: "'a list \<Rightarrow> nat \<Rightarrow> nat \<Rightarrow> 'a list option" where
  "slice_get xs i j = (if i \<le> j \<and> j \<le> length xs then Some (take (j - i) (drop i xs)) else None)"

text \<open>\<open>slice.get(i)\<close>\<close>

definition elem_get :: "'a list \<Rightarrow> nat \<Rightarrow> 'a option" where
  "elem_get xs i = (if i < length xs then Some (xs ! i) else None)"

lemma unat_byte_less [simp]: "unat (b :: byte) < 256"
  by (rule order_less_le_trans[OF unsigned_less]) simp

lemma unat_u16_less [simp]: "unat (b :: u16) < 65536"
  by (rule order_less_le_trans[OF unsigned_less]) simp

section \<open>Chaining fallible steps\<close>

text \<open>\<open>Result::and_then\<close>: the first error wins.\<close>

definition and_then :: "'e + 'a \<Rightarrow> ('a \<Rightarrow> 'e + 'b) \<Rightarrow> 'e + 'b" where
  "and_then x k = (case x of Inl e \<Rightarrow> Inl e | Inr v \<Rightarrow> k v)"

lemma and_then_simps [simp]:
  "and_then (Inl e) k = Inl e"
  "and_then (Inr v) k = k v"
  by (simp_all add: and_then_def)

lemma and_then_Inr_iff: "and_then x k = Inr y \<longleftrightarrow> (\<exists>v. x = Inr v \<and> k v = Inr y)"
  by (cases x) auto

lemma and_then_assoc: "and_then (and_then x k) h = and_then x (\<lambda>v. and_then (k v) h)"
  by (cases x) auto

section \<open>First minimum\<close>

text \<open>\<open>Iterator::min_by_key\<close>: the first element with the least key.\<close>

fun min_by_key :: "('a \<Rightarrow> 'k::linorder) \<Rightarrow> 'a list \<Rightarrow> 'a option" where
  "min_by_key f [] = None"
| "min_by_key f (x # xs) =
    (case min_by_key f xs of
       None \<Rightarrow> Some x
     | Some y \<Rightarrow> if f x \<le> f y then Some x else Some y)"

lemma min_by_key_None [simp]: "min_by_key f xs = None \<longleftrightarrow> xs = []"
  by (cases xs) (auto split: option.splits)

lemma min_by_key_in: "min_by_key f xs = Some x \<Longrightarrow> x \<in> set xs"
  by (induction xs arbitrary: x) (auto split: option.splits if_splits)

lemma min_by_key_le: "min_by_key f xs = Some x \<Longrightarrow> y \<in> set xs \<Longrightarrow> f x \<le> f y"
  by (induction xs arbitrary: x) (fastforce split: option.splits if_splits)+

section \<open>Hash maps as association lists\<close>

text \<open>
  Maps that the code iterates over are association lists with distinct keys; the list order
  plays the part of the unspecified hash order. \<open>hm_set\<close> is \<open>insert\<close> (or the
  \<open>entry(k).or_insert(..)\<close> assignment) and \<open>hm_del\<close> is \<open>remove\<close>.
\<close>

type_synonym ('k, 'v) hmap = "('k \<times> 'v) list"

definition hm_get :: "('k, 'v) hmap \<Rightarrow> 'k \<Rightarrow> 'v option" where
  "hm_get m k = map_of m k"

fun hm_set :: "'k \<Rightarrow> 'v \<Rightarrow> ('k, 'v) hmap \<Rightarrow> ('k, 'v) hmap" where
  "hm_set k v [] = [(k, v)]"
| "hm_set k v ((k', v') # m) = (if k' = k then (k, v) # m else (k', v') # hm_set k v m)"

definition hm_del :: "'k \<Rightarrow> ('k, 'v) hmap \<Rightarrow> ('k, 'v) hmap" where
  "hm_del k m = filter (\<lambda>e. fst e \<noteq> k) m"

definition hm_wf :: "('k, 'v) hmap \<Rightarrow> bool" where
  "hm_wf m \<longleftrightarrow> distinct (map fst m)"

lemma hm_get_Nil [simp]: "hm_get [] k = None"
  by (simp add: hm_get_def)

lemma hm_get_set [simp]: "hm_get (hm_set k v m) j = (if j = k then Some v else hm_get m j)"
  by (induction k v m rule: hm_set.induct) (auto simp: hm_get_def)

lemma hm_get_del [simp]: "hm_get (hm_del k m) j = (if j = k then None else hm_get m j)"
  by (induction m) (auto simp: hm_get_def hm_del_def)

lemma hm_set_keys: "set (map fst (hm_set k v m)) = insert k (set (map fst m))"
  by (induction k v m rule: hm_set.induct) auto

lemma hm_wf_Nil [simp]: "hm_wf []"
  by (simp add: hm_wf_def)

lemma hm_wf_set [simp]: "hm_wf m \<Longrightarrow> hm_wf (hm_set k v m)"
proof (induction k v m rule: hm_set.induct)
  case (2 k v k' v' m)
  then show ?case using hm_set_keys[of k v m] by (auto simp: hm_wf_def)
qed (simp add: hm_wf_def)

lemma hm_wf_del [simp]: "hm_wf m \<Longrightarrow> hm_wf (hm_del k m)"
  by (simp add: hm_wf_def hm_del_def distinct_map_filter)

lemma hm_get_in: "hm_get m k = Some v \<Longrightarrow> (k, v) \<in> set m"
  by (simp add: hm_get_def map_of_SomeD)

lemma hm_get_iff: "hm_wf m \<Longrightarrow> hm_get m k = Some v \<longleftrightarrow> (k, v) \<in> set m"
  by (auto simp: hm_get_def hm_wf_def dest: map_of_SomeD)

lemma hm_get_None_iff: "hm_get m k = None \<longleftrightarrow> k \<notin> fst ` set m"
  by (simp add: hm_get_def map_of_eq_None_iff)

lemma length_hm_set: "length (hm_set k v m) = (if hm_get m k = None then Suc (length m) else length m)"
  by (induction k v m rule: hm_set.induct) (auto simp: hm_get_def)

lemma length_hm_del:
  assumes "hm_wf m" and "hm_get m k \<noteq> None"
  shows "Suc (length (hm_del k m)) = length m"
  using assms
proof (induction m)
  case (Cons e m)
  show ?case
  proof (cases "fst e = k")
    case True
    with Cons.prems have "k \<notin> fst ` set m" by (simp add: hm_wf_def)
    then have "filter (\<lambda>e. fst e \<noteq> k) m = m" by (auto simp: filter_id_conv)
    with True show ?thesis by (simp add: hm_del_def)
  next
    case False
    with Cons show ?thesis by (cases e) (auto simp: hm_wf_def hm_get_def hm_del_def)
  qed
qed simp

end
