(* ===== verification/Bytes.thy ===== *)
theory Bytes
  imports Prelude
begin

text \<open>
  \<open>pktflow-core/src/bytes.rs\<close>: the checked cursor through which every plugin reads header
  bytes, and the big- and little-endian integer reads built on it. The lemmas show that a read
  succeeds exactly when enough bytes remain, that it returns exactly the bytes at the cursor,
  that it never moves the cursor past the end, and that a failing read reports what it needed
  and what there was.
\<close>

record truncated =
  t_needed :: usize
  t_have :: usize

record byte_reader =
  rbuf :: "byte list"
  rpos :: usize

definition new_reader :: "byte list \<Rightarrow> byte_reader" where
  "new_reader b = \<lparr>rbuf = b, rpos = 0\<rparr>"

definition remaining :: "byte_reader \<Rightarrow> usize" where
  "remaining r = length (rbuf r) - rpos r"

definition take_bytes :: "byte_reader \<Rightarrow> usize \<Rightarrow> truncated + byte list \<times> byte_reader" where
  "take_bytes r n =
    (let t = \<lparr>t_needed = n, t_have = remaining r\<rparr> in
     case checked_add (rpos r) n of
       None \<Rightarrow> Inl t
     | Some e \<Rightarrow>
        (case slice_get (rbuf r) (rpos r) e of
           None \<Rightarrow> Inl t
         | Some s \<Rightarrow> Inr (s, r\<lparr>rpos := e\<rparr>)))"

definition array_read :: "byte_reader \<Rightarrow> usize \<Rightarrow> truncated + byte list \<times> byte_reader" where
  "array_read r n =
    (let available = remaining r in
     and_then (take_bytes r n) (\<lambda>(s, r').
       if length s = n then Inr (s, r') else Inl \<lparr>t_needed = n, t_have = available\<rparr>))"

text \<open>\<open>uN::from_be_bytes\<close>, \<open>uN::from_le_bytes\<close>, \<open>uN::to_be_bytes\<close>.\<close>

definition from_be_bytes :: "byte list \<Rightarrow> 'a::len word" where
  "from_be_bytes bs = foldl (\<lambda>acc b. push_bit 8 acc OR ucast b) 0 bs"

definition from_le_bytes :: "byte list \<Rightarrow> 'a::len word" where
  "from_le_bytes bs = from_be_bytes (rev bs)"

fun be_bytes :: "nat \<Rightarrow> 'a::len word \<Rightarrow> byte list" where
  "be_bytes 0 w = []"
| "be_bytes (Suc n) w = be_bytes n (drop_bit 8 w) @ [ucast w]"

definition map_read :: "('a \<Rightarrow> 'b) \<Rightarrow> 'e + 'a \<times> 'r \<Rightarrow> 'e + 'b \<times> 'r" where
  "map_read f x = and_then x (\<lambda>(s, r). Inr (f s, r))"

definition read_u8 :: "byte_reader \<Rightarrow> truncated + u8 \<times> byte_reader" where
  "read_u8 r = map_read hd (array_read r 1)"

definition read_u16_be :: "byte_reader \<Rightarrow> truncated + u16 \<times> byte_reader" where
  "read_u16_be r = map_read from_be_bytes (array_read r 2)"

definition read_u16_le :: "byte_reader \<Rightarrow> truncated + u16 \<times> byte_reader" where
  "read_u16_le r = map_read from_le_bytes (array_read r 2)"

definition read_u32_be :: "byte_reader \<Rightarrow> truncated + u32 \<times> byte_reader" where
  "read_u32_be r = map_read from_be_bytes (array_read r 4)"

definition read_u32_le :: "byte_reader \<Rightarrow> truncated + u32 \<times> byte_reader" where
  "read_u32_le r = map_read from_le_bytes (array_read r 4)"

definition read_u64_be :: "byte_reader \<Rightarrow> truncated + u64 \<times> byte_reader" where
  "read_u64_be r = map_read from_be_bytes (array_read r 8)"

definition read_u64_le :: "byte_reader \<Rightarrow> truncated + u64 \<times> byte_reader" where
  "read_u64_le r = map_read from_le_bytes (array_read r 8)"

text \<open>An \<open>i32\<close> is its two's-complement word; \<^const>\<open>sint\<close> reads it.\<close>

definition read_i32_be :: "byte_reader \<Rightarrow> truncated + 32 word \<times> byte_reader" where
  "read_i32_be r = map_read from_be_bytes (array_read r 4)"

section \<open>The reader's invariant\<close>

text \<open>Rust guarantees that a slice is at most \<open>isize::MAX\<close> bytes long.\<close>

definition reader_ok :: "byte_reader \<Rightarrow> bool" where
  "reader_ok r \<longleftrightarrow> rpos r \<le> length (rbuf r) \<and> length (rbuf r) < 2 ^ 63"

lemma reader_ok_new [simp]: "reader_ok (new_reader b) \<longleftrightarrow> length b < 2 ^ 63"
  by (simp add: reader_ok_def new_reader_def)

lemma take_bytes_Inr:
  assumes "take_bytes r n = Inr (s, r')"
  shows "rpos r' = rpos r + n" "rbuf r' = rbuf r" "rpos r + n \<le> length (rbuf r)"
    "s = take n (drop (rpos r) (rbuf r))" "length s = n"
  using assms
  by (auto simp: take_bytes_def checked_add_def slice_get_def Let_def split: if_splits option.splits)

lemma take_bytes_Inl:
  assumes "take_bytes r n = Inl t"
  shows "t = \<lparr>t_needed = n, t_have = remaining r\<rparr>"
  using assms
  by (auto simp: take_bytes_def Let_def split: if_splits option.splits)

lemma take_bytes_ok_iff:
  assumes "reader_ok r"
  shows "take_bytes r n =
    (if n \<le> remaining r then Inr (take n (drop (rpos r) (rbuf r)), r\<lparr>rpos := rpos r + n\<rparr>)
     else Inl \<lparr>t_needed = n, t_have = remaining r\<rparr>)"
proof (cases "n \<le> remaining r")
  case True
  with assms have "rpos r + n \<le> length (rbuf r)" and "rpos r + n \<le> usize_max"
    by (auto simp: reader_ok_def remaining_def usize_max_def)
  with True show ?thesis
    by (simp add: take_bytes_def checked_add_def slice_get_def)
next
  case False
  with assms have "\<not> rpos r + n \<le> length (rbuf r)"
    by (auto simp: reader_ok_def remaining_def)
  with False show ?thesis
    by (simp add: take_bytes_def checked_add_def slice_get_def Let_def)
qed

lemma array_read_eq_take: "array_read r n = take_bytes r n"
  by (cases "take_bytes r n") (auto simp: array_read_def Let_def dest: take_bytes_Inr(5))

lemma map_read_Inr: "map_read f x = Inr (v, r) \<longleftrightarrow> (\<exists>s. x = Inr (s, r) \<and> v = f s)"
  by (cases x) (auto simp: map_read_def)

lemma map_read_Inl: "map_read f x = Inl e \<longleftrightarrow> x = Inl e"
  by (cases x) (auto simp: map_read_def)

lemmas read_defs = read_u8_def read_u16_be_def read_u16_le_def read_u32_be_def read_u32_le_def
  read_u64_be_def read_u64_le_def read_i32_be_def array_read_eq_take

lemma map_take_Inr:
  assumes "map_read f (take_bytes r n) = Inr (v, r')"
  shows "rpos r' = rpos r + n \<and> rbuf r' = rbuf r \<and> rpos r + n \<le> length (rbuf r) \<and>
    v = f (take n (drop (rpos r) (rbuf r)))"
proof -
  from assms obtain s where "take_bytes r n = Inr (s, r')" and "v = f s"
    by (auto simp: map_read_Inr)
  from take_bytes_Inr[OF this(1)] this(2) show ?thesis by simp
qed

text \<open>One elimination fact per read: the cursor's advance and the value that was read.\<close>

lemma read_u8_Inr:
  assumes "read_u8 r = Inr (v, r')"
  shows "rpos r' = rpos r + 1 \<and> rbuf r' = rbuf r \<and> rpos r + 1 \<le> length (rbuf r) \<and>
    v = rbuf r ! rpos r"
  using map_take_Inr[of hd r 1] assms
  by (auto simp: read_defs hd_drop_conv_nth)

lemma read_u16_be_Inr:
  assumes "read_u16_be r = Inr (v, r')"
  shows "rpos r' = rpos r + 2 \<and> rbuf r' = rbuf r \<and> rpos r + 2 \<le> length (rbuf r) \<and>
    v = from_be_bytes (take 2 (drop (rpos r) (rbuf r)))"
  using map_take_Inr[of from_be_bytes r 2] assms by (simp add: read_defs)

lemma read_u32_be_Inr:
  assumes "read_u32_be r = Inr (v, r')"
  shows "rpos r' = rpos r + 4 \<and> rbuf r' = rbuf r \<and> rpos r + 4 \<le> length (rbuf r) \<and>
    v = from_be_bytes (take 4 (drop (rpos r) (rbuf r)))"
  using map_take_Inr[of from_be_bytes r 4] assms by (simp add: read_defs)

section \<open>Endianness\<close>

lemma from_be_bytes_snoc:
  "from_be_bytes (bs @ [b]) = push_bit 8 (from_be_bytes bs) OR ucast b"
  by (simp add: from_be_bytes_def)

lemma length_be_bytes [simp]: "length (be_bytes n w) = n"
  by (induction n arbitrary: w) auto

lemma from_be_bytes_be_bytes_take:
  fixes w :: "'a::len word"
  assumes "8 \<le> LENGTH('a)"
  shows "from_be_bytes (be_bytes n w) = take_bit (8 * n) w"
proof (induction n arbitrary: w)
  case 0
  then show ?case by (simp add: from_be_bytes_def)
next
  case (Suc n)
  have "push_bit 8 (take_bit (8 * n) (drop_bit 8 w)) OR ucast (ucast w :: byte)
      = take_bit (8 * Suc n) w"
    using assms by (intro bit_word_eqI) (auto simp: bit_simps)
  then show ?case by (simp add: from_be_bytes_snoc Suc.IH)
qed

end
