(* ===== verification/Values.thy ===== *)
theory Values
  imports Bytes
begin

text \<open>
  \<open>pktflow-core/src/value.rs\<close>: the typed metadata values plugins extract and the
  insertion-ordered field map every layer carries, with the JSON shape of both. The lemmas give
  the map's lookup/insert laws, the preservation of the first-insertion order, and the fact that
  the hexadecimal rendering of byte values is injective.
\<close>

datatype value_t =
    Bytes "byte list"
  | U64 u64
  | I64 u64
  | VBool bool
  | Str string
  | VList "value_t list"

type_synonym field_name = string

type_synonym field_map = "(field_name \<times> value_t) list"

definition fm_new :: field_map where
  "fm_new = []"

text \<open>The first entry with the name is overwritten in place; a new name goes to the end.\<close>

fun fm_insert :: "field_name \<Rightarrow> value_t \<Rightarrow> field_map \<Rightarrow> field_map" where
  "fm_insert n v [] = [(n, v)]"
| "fm_insert n v ((m, w) # es) = (if m = n then (m, v) # es else (m, w) # fm_insert n v es)"

fun fm_get :: "field_map \<Rightarrow> field_name \<Rightarrow> value_t option" where
  "fm_get [] n = None"
| "fm_get ((m, v) # es) n = (if m = n then Some v else fm_get es n)"

definition fm_names :: "field_map \<Rightarrow> field_name list" where
  "fm_names es = map fst es"

definition fm_len :: "field_map \<Rightarrow> usize" where
  "fm_len es = length es"

definition fm_is_empty :: "field_map \<Rightarrow> bool" where
  "fm_is_empty es \<longleftrightarrow> es = []"

text \<open>The serializer's data model, restricted to what the program emits.\<close>

datatype json =
    JNull
  | JStr string
  | JU64 u64
  | JI64 u64
  | JBool bool
  | JSeq "json list"
  | JMap "(string \<times> json) list"

definition hex_digits :: string where
  "hex_digits = ''0123456789abcdef''"

definition hex_byte :: "byte \<Rightarrow> string" where
  "hex_byte b = [hex_digits ! unat (drop_bit 4 b), hex_digits ! unat (b AND 0x0F)]"

definition hex_lower :: "byte list \<Rightarrow> string" where
  "hex_lower bs = concat (map hex_byte bs)"

fun value_json :: "value_t \<Rightarrow> json" where
  "value_json (Bytes b) = JStr (hex_lower b)"
| "value_json (U64 v) = JU64 v"
| "value_json (I64 v) = JI64 v"
| "value_json (VBool v) = JBool v"
| "value_json (Str v) = JStr v"
| "value_json (VList vs) = JSeq (map value_json vs)"

definition field_map_json :: "field_map \<Rightarrow> json" where
  "field_map_json es = JMap (map (\<lambda>(n, v). (n, value_json v)) es)"

section \<open>Field-map laws\<close>

lemma fm_get_new [simp]: "fm_get fm_new n = None"
  by (simp add: fm_new_def)

lemma fm_get_insert [simp]: "fm_get (fm_insert n v es) m = (if m = n then Some v else fm_get es m)"
  by (induction n v es rule: fm_insert.induct) auto

lemma fm_get_None_iff: "fm_get es n = None \<longleftrightarrow> n \<notin> set (fm_names es)"
  by (induction es n rule: fm_get.induct) (auto simp: fm_names_def)

lemma fm_names_insert:
  "fm_names (fm_insert n v es) = (if n \<in> set (fm_names es) then fm_names es else fm_names es @ [n])"
  by (induction n v es rule: fm_insert.induct) (auto simp: fm_names_def)

lemma distinct_fm_insert [simp]: "distinct (fm_names es) \<Longrightarrow> distinct (fm_names (fm_insert n v es))"
  by (simp add: fm_names_insert)

section \<open>Hexadecimal rendering\<close>

lemma hex_digits_nth_inject:
  assumes "i < 16" and "j < 16" and "hex_digits ! i = hex_digits ! j"
  shows "i = j"
proof -
  have "distinct hex_digits" by (simp add: hex_digits_def)
  moreover have "length hex_digits = 16" by (simp add: hex_digits_def)
  ultimately show ?thesis using assms nth_eq_iff_index_eq[of hex_digits i j] by simp
qed

lemma nibble_bounds: "unat (drop_bit 4 (b :: byte)) < 16" "unat (b AND 0x0F) < 16"
proof -
  have "unat (drop_bit 4 b) = unat b div 16"
    unfolding unat_drop_bit_eq by (simp add: drop_bit_eq_div)
  then show "unat (drop_bit 4 b) < 16" using less_mult_imp_div_less[of "unat b" 16 16] by simp
  have "b AND 0x0F = take_bit 4 b" by (simp add: take_bit_eq_mask mask_eq_exp_minus_1)
  then have "unat (b AND 0x0F) = unat b mod 16"
    using unsigned_take_bit_eq[of 4 b, where 'a = nat] by (simp only: take_bit_eq_mod) simp
  then show "unat (b AND 0x0F) < 16" by simp
qed

lemma nibbles_inject:
  assumes "drop_bit 4 (b :: byte) = drop_bit 4 c" and "b AND 0x0F = c AND 0x0F"
  shows "b = c"
proof -
  have "x AND 0x0F = take_bit 4 x" for x :: byte
    by (simp add: take_bit_eq_mask mask_eq_exp_minus_1)
  with assms(2) have "take_bit 4 b = take_bit 4 c" by simp
  with assms(1) show ?thesis by (metis bits_ident)
qed

lemma hex_byte_inject: "hex_byte b = hex_byte c \<Longrightarrow> b = c"
  by (rule nibbles_inject; rule word_unat_eq_iff[THEN iffD2])
     (auto simp: hex_byte_def intro: hex_digits_nth_inject nibble_bounds)

lemma hex_lower_inject: "hex_lower bs = hex_lower cs \<Longrightarrow> bs = cs"
proof (induction bs arbitrary: cs)
  case Nil
  then show ?case by (cases cs) (auto simp: hex_lower_def hex_byte_def)
next
  case (Cons b bs)
  then obtain c cs' where cs: "cs = c # cs'"
    by (cases cs) (auto simp: hex_lower_def hex_byte_def)
  from Cons.prems have "hex_byte b = hex_byte c" and "hex_lower bs = hex_lower cs'"
    by (auto simp: cs hex_lower_def hex_byte_def)
  with Cons.IH show ?case by (auto simp: cs dest: hex_byte_inject)
qed

end
