(* ===== verification/Packet.thy ===== *)
theory Packet
  imports Values
begin

text \<open>
  The protocol-free data of the dissection core: route identifiers (\<open>route.rs\<close>), error and stop
  taxonomies (\<open>error.rs\<close>), extraction depth and session options (\<open>depth.rs\<close>), layer records and
  dissected packets (\<open>packet.rs\<close>), the read-only parse context (\<open>context.rs\<close>), and the data of
  the unknown-occurrence diagnostics (\<open>diagnostics.rs\<close>).
\<close>

section \<open>Route identifiers\<close>

type_synonym protocol_name = string

datatype route_id =
    LinkType u16
  | EtherType u16
  | IpProtocol u8
  | UdpPort u16
  | TcpPort u16
  | Custom string u64

text \<open>The derived \<open>Ord\<close> compares the variant first and the payload second.\<close>

fun route_code :: "route_id \<Rightarrow> nat \<times> string \<times> u64" where
  "route_code (LinkType i) = (0, [], ucast i)"
| "route_code (EtherType i) = (1, [], ucast i)"
| "route_code (IpProtocol i) = (2, [], ucast i)"
| "route_code (UdpPort i) = (3, [], ucast i)"
| "route_code (TcpPort i) = (4, [], ucast i)"
| "route_code (Custom s i) = (5, s, i)"

lemma ucast_up_inject:
  "LENGTH('a::len) \<le> LENGTH('b::len) \<Longrightarrow> (ucast (x :: 'a word) :: 'b word) = ucast y \<longleftrightarrow> x = y"
  by (metis is_up ucast_up_ucast_id)

lemma route_code_inject: "route_code a = route_code b \<Longrightarrow> a = b"
  by (cases a; cases b) (auto simp: ucast_up_inject)

instantiation route_id :: linorder
begin

definition less_eq_route_id :: "route_id \<Rightarrow> route_id \<Rightarrow> bool" where
  "less_eq_route_id a b \<longleftrightarrow> route_code a \<le> route_code b"

definition less_route_id :: "route_id \<Rightarrow> route_id \<Rightarrow> bool" where
  "less_route_id a b \<longleftrightarrow> route_code a < route_code b"

instance
  by standard
    (auto simp: less_eq_route_id_def less_route_id_def intro: route_code_inject)

end

section \<open>Errors and stop reasons\<close>

datatype parse_error = ETruncated truncated | Malformed string

datatype stop_reason =
    Complete
  | StopTerminal
  | UnclaimedRoute route_id
  | UnknownHint
  | StopTruncated u16 u16
  | PluginError
  | DepthCap

datatype stop_class = Clean | UnknownPayload | MalformedClass | Suspicious

fun stop_class_of :: "stop_reason \<Rightarrow> stop_class" where
  "stop_class_of Complete = Clean"
| "stop_class_of StopTerminal = Clean"
| "stop_class_of (UnclaimedRoute _) = UnknownPayload"
| "stop_class_of UnknownHint = UnknownPayload"
| "stop_class_of (StopTruncated _ _) = MalformedClass"
| "stop_class_of PluginError = MalformedClass"
| "stop_class_of DepthCap = Suspicious"

section \<open>Extraction depth and session options\<close>

datatype depth = DNone | Keys | Structural | Full

fun depth_rank :: "depth \<Rightarrow> nat" where
  "depth_rank DNone = 0"
| "depth_rank Keys = 1"
| "depth_rank Structural = 2"
| "depth_rank Full = 3"

lemma depth_rank_inject: "depth_rank a = depth_rank b \<Longrightarrow> a = b"
  by (cases a; cases b) auto

instantiation depth :: linorder
begin

definition less_eq_depth :: "depth \<Rightarrow> depth \<Rightarrow> bool" where
  "less_eq_depth a b \<longleftrightarrow> depth_rank a \<le> depth_rank b"

definition less_depth :: "depth \<Rightarrow> depth \<Rightarrow> bool" where
  "less_depth a b \<longleftrightarrow> depth_rank a < depth_rank b"

instance
  by standard (auto simp: less_eq_depth_def less_depth_def intro: depth_rank_inject)

end

record parse_opts =
  po_depth :: depth
  po_aggregation :: bool
  po_max_layers :: usize
  po_entry :: "protocol_name option"
  po_allow_entry_heuristics :: bool
  po_diagnose_unknown :: bool

definition default_opts :: parse_opts where
  "default_opts = \<lparr>po_depth = Full, po_aggregation = True, po_max_layers = 32, po_entry = None,
     po_allow_entry_heuristics = False, po_diagnose_unknown = False\<rparr>"

definition effective_depth :: "parse_opts \<Rightarrow> depth" where
  "effective_depth opts = (if po_aggregation opts then max (po_depth opts) Keys else po_depth opts)"

section \<open>Packets, layers and the unknown-occurrence evidence\<close>

record packet_meta =
  timestamp :: system_time
  caplen :: usize
  origlen :: usize
  link_type :: u16

record layer_record =
  lr_protocol :: protocol_name
  lr_offset :: usize
  lr_header_len :: usize
  lr_fields :: field_map

datatype unknown_context =
    CtxUnclaimedRoute protocol_name route_id
  | NoHeuristicWinner protocol_name

text \<open>\<open>Confidence\<close> has a private field that only the clamping constructor writes.\<close>

typedef confidence = "{c :: u8. c \<le> 100}"
  morphisms confidence_get Abs_confidence
  by (rule exI[of _ 0]) simp

definition confidence_new :: "u8 \<Rightarrow> confidence" where
  "confidence_new s = Abs_confidence (min s 100)"

instantiation confidence :: equal
begin

definition equal_confidence :: "confidence \<Rightarrow> confidence \<Rightarrow> bool" where
  "equal_confidence a b \<longleftrightarrow> confidence_get a = confidence_get b"

instance
  by standard (simp add: equal_confidence_def confidence_get_inject)

end

record unknown_diagnostics =
  ud_context :: unknown_context
  ud_near_misses :: "(protocol_name \<times> confidence) list"
  ud_sample :: "byte list"

record dissected_packet =
  dp_meta :: packet_meta
  dp_layers :: "layer_record list"
  dp_stop :: stop_reason
  dp_opaque_len :: usize
  dp_unknown :: "unknown_diagnostics option"

section \<open>Parse context\<close>

record parse_ctx =
  ctx_layers :: "layer_record list"
  ctx_depth :: depth
  ctx_meta :: packet_meta

definition ctx_layer :: "parse_ctx \<Rightarrow> protocol_name \<Rightarrow> layer_record option" where
  "ctx_layer ctx n = List.find (\<lambda>l. lr_protocol l = n) (rev (ctx_layers ctx))"

definition ctx_field :: "parse_ctx \<Rightarrow> protocol_name \<Rightarrow> field_name \<Rightarrow> value_t option" where
  "ctx_field ctx n f = Option.bind (ctx_layer ctx n) (\<lambda>l. fm_get (lr_fields l) f)"

definition ctx_prev :: "parse_ctx \<Rightarrow> layer_record option" where
  "ctx_prev ctx = (if ctx_layers ctx = [] then None else Some (last (ctx_layers ctx)))"

section \<open>Lemmas\<close>

lemma confidence_get_new [simp]: "confidence_get (confidence_new s) = min s 100"
  by (simp add: confidence_new_def Abs_confidence_inverse)

lemma confidence_get_le [simp]: "confidence_get c \<le> 100"
  using confidence_get[of c] by simp

lemma effective_depth_floor: "po_aggregation opts \<Longrightarrow> Keys \<le> effective_depth opts"
  by (simp add: effective_depth_def)

lemma effective_depth_ge: "po_depth opts \<le> effective_depth opts"
  by (simp add: effective_depth_def)

lemma depth_le_simps [simp]:
  "DNone \<le> d" "Keys \<le> Keys" "Keys \<le> Structural" "Keys \<le> Full" "Structural \<le> Full"
  "Structural \<le> Structural" "Full \<le> Full" "\<not> Keys \<le> DNone" "\<not> Structural \<le> DNone"
  "\<not> Structural \<le> Keys" "\<not> Full \<le> DNone" "\<not> Full \<le> Keys" "\<not> Full \<le> Structural"
  by (simp_all add: less_eq_depth_def)

lemma find_append: "List.find P (xs @ ys) = (case List.find P xs of None \<Rightarrow> List.find P ys | r \<Rightarrow> r)"
  by (induction xs) auto

text \<open>The context answers with the innermost layer of a name.\<close>

lemma ctx_layer_innermost:
  assumes "ctx_layers ctx = outer @ l # inner" and "lr_protocol l = n"
    and "\<And>k. k \<in> set inner \<Longrightarrow> lr_protocol k \<noteq> n"
  shows "ctx_layer ctx n = Some l"
proof -
  have "List.find (\<lambda>l. lr_protocol l = n) (rev inner) = None"
    using assms(3) by (auto simp: find_None_iff)
  with assms(1,2) show ?thesis by (simp add: ctx_layer_def find_append)
qed

end
