(* ===== verification/Plugin.thy ===== *)
theory Plugin
  imports Packet
begin

text \<open>
  The contract between protocol plugins and the engine: the stream-identity vocabulary of
  \<open>stream.rs\<close> and the \<open>LayerPlugin\<close> trait of \<open>plugin.rs\<close>. A trait object is a record of
  its methods. The locale \<open>layer_plugin\<close> states the contract rules of the trait's documentation
  that a well-behaved plugin keeps; the plugin theories interpret it for the protocols they model.
\<close>

section \<open>Stream identity\<close>

type_synonym flow_key = "byte list"

datatype packet_direction = AtoB | BtoA

datatype key_error = MissingField field_name

type_synonym state_name = string

record key_field =
  kf_a :: field_name
  kf_b :: "field_name option"

datatype canonicalize =
    EndpointSort
  | CustomRule "field_map \<Rightarrow> key_error + flow_key \<times> packet_direction"

record lifecycle_spec =
  lc_initial :: state_name
  lc_advance :: "field_map \<Rightarrow> state_name \<Rightarrow> packet_direction \<Rightarrow> state_name"
  lc_closed_states :: "state_name list"

datatype rollup_kind = Accumulate | Sample | Series usize

record rollup_spec =
  rs_field :: field_name
  rs_kind :: rollup_kind

record condense_spec =
  cs_ephemeral :: key_field

record stream_identity =
  si_key :: "key_field list"
  si_canonicalize :: canonicalize
  si_lifecycle :: "lifecycle_spec option"
  si_rollups :: "rollup_spec list"

section \<open>Plugins\<close>

datatype hint =
    Route route_id
  | Candidates "route_id list"
  | ByProtocol protocol_name
  | UnknownNext
  | Terminal

record parsed_layer =
  pl_header_len :: usize
  pl_fields :: field_map
  pl_hint :: hint

definition header_len_ok :: "parsed_layer \<Rightarrow> usize \<Rightarrow> bool" where
  "header_len_ok pl available \<longleftrightarrow> pl_header_len pl \<le> available"

record plugin =
  pg_name :: protocol_name
  pg_parse :: "byte list \<Rightarrow> parse_ctx \<Rightarrow> parse_error + parsed_layer"
  pg_claims :: "route_id list"
  pg_expected_predecessors :: "protocol_name list"
  pg_has_probe :: bool
  pg_probe :: "byte list \<Rightarrow> parse_ctx \<Rightarrow> confidence option"
  pg_stream_identity :: "stream_identity option"
  pg_condense :: "condense_spec option"

text \<open>The trait's provided methods: everything but \<open>name\<close> and \<open>parse\<close> has a default.\<close>

definition default_plugin ::
  "protocol_name \<Rightarrow> (byte list \<Rightarrow> parse_ctx \<Rightarrow> parse_error + parsed_layer) \<Rightarrow> plugin" where
  "default_plugin n p = \<lparr>pg_name = n, pg_parse = p, pg_claims = [], pg_expected_predecessors = [],
     pg_has_probe = False, pg_probe = (\<lambda>_ _. None), pg_stream_identity = None, pg_condense = None\<rparr>"

text \<open>The \<open>?\<close> operator on a byte read inside \<open>parse\<close>: \<open>Truncated\<close> becomes a \<open>ParseError\<close>.\<close>

definition try_read ::
  "truncated + 'v \<times> byte_reader \<Rightarrow> ('v \<Rightarrow> byte_reader \<Rightarrow> parse_error + 'b) \<Rightarrow> parse_error + 'b" where
  "try_read x k = (case x of Inl t \<Rightarrow> Inl (ETruncated t) | Inr (v, r) \<Rightarrow> k v r)"

text \<open>\<open>if depth >= level { fields.insert(..) .. }\<close>\<close>

definition insert_at :: "depth \<Rightarrow> depth \<Rightarrow> (field_name \<times> value_t) list \<Rightarrow> field_map \<Rightarrow> field_map" where
  "insert_at level d es fm = (if level \<le> d then fold (\<lambda>(n, v). fm_insert n v) es fm else fm)"

section \<open>Reader chains\<close>

lemma try_read_simps [simp]:
  "try_read (Inl t) k = Inl (ETruncated t)"
  "try_read (Inr (v, r)) k = k v r"
  by (simp_all add: try_read_def)

lemma try_read_Inr: "try_read x k = Inr y \<longleftrightarrow> (\<exists>v r. x = Inr (v, r) \<and> k v r = Inr y)"
  by (cases x) (auto simp: try_read_def)

lemma if_malformed_Inr: "(if b then Inl e else x) = Inr y \<longleftrightarrow> \<not> b \<and> x = Inr y"
  by simp

lemmas parse_Inr = try_read_Inr if_malformed_Inr

lemma insert_at_skip [simp]: "\<not> level \<le> d \<Longrightarrow> insert_at level d es fm = fm"
  by (simp add: insert_at_def)

lemma fm_get_fold_insert:
  "fm_get (fold (\<lambda>(n, v). fm_insert n v) es fm) m =
    (case map_of (rev es) m of Some v \<Rightarrow> Some v | None \<Rightarrow> fm_get fm m)"
  by (induction es rule: rev_induct) auto

lemma fm_get_insert_at:
  "fm_get (insert_at level d es fm) m =
    (if level \<le> d then (case map_of (rev es) m of Some v \<Rightarrow> Some v | None \<Rightarrow> fm_get fm m)
     else fm_get fm m)"
  by (simp add: insert_at_def fm_get_fold_insert)

lemma distinct_insert_at [simp]:
  assumes "distinct (fm_names fm)"
  shows "distinct (fm_names (insert_at level d es fm))"
proof -
  have "distinct (fm_names (fold (\<lambda>(n, v). fm_insert n v) es fm))"
    using assms by (induction es arbitrary: fm) auto
  with assms show ?thesis by (simp add: insert_at_def)
qed

section \<open>The plugin contract\<close>

definition key_names :: "stream_identity \<Rightarrow> field_name list" where
  "key_names si = concat (map (\<lambda>kf. kf_a kf # (case kf_b kf of None \<Rightarrow> [] | Some b \<Rightarrow> [b])) (si_key si))"

text \<open>
  Contract rules 3 and 4 of the trait documentation: a successful parse claims no more bytes
  than it was offered and at depth \<open>None\<close> extracts nothing.
\<close>

locale framed_plugin =
  fixes p :: plugin
  assumes header_len_bound:
      "pg_parse p bytes ctx = Inr pl \<Longrightarrow> pl_header_len pl \<le> length bytes"
    and no_fields_at_none:
      "pg_parse p bytes ctx = Inr pl \<Longrightarrow> ctx_depth ctx = DNone \<Longrightarrow> pl_fields pl = []"
begin

lemma header_len_ok_parse: "pg_parse p bytes ctx = Inr pl \<Longrightarrow> header_len_ok pl (length bytes)"
  by (simp add: header_len_ok_def header_len_bound)

end

text \<open>The whole contract: the flow-key fields are always present at depth \<open>Keys\<close> or more.\<close>

locale layer_plugin = framed_plugin +
  assumes key_fields_present:
      "pg_parse p bytes ctx = Inr pl \<Longrightarrow> Keys \<le> ctx_depth ctx \<Longrightarrow> pg_stream_identity p = Some si
        \<Longrightarrow> n \<in> set (key_names si) \<Longrightarrow> fm_get (pl_fields pl) n \<noteq> None"

end
