(* ===== verification/Flow_Key.thy ===== *)
theory Flow_Key
  imports Plugin
begin

text \<open>
  \<open>pktflow-flows/src/key.rs\<close>: the canonical flow key and packet direction of a layer, from the
  fields its plugin extracted and the plugin's stream identity. Encodings of values are proved
  prefix-free (up to the 16-bit length cap), hence two packets share a key exactly when their
  shared values agree and their endpoint pairs agree up to swapping.
\<close>

section \<open>Value encoding\<close>

definition TAG_BYTES :: u8 where "TAG_BYTES = 0"
definition TAG_U64 :: u8 where "TAG_U64 = 1"
definition TAG_I64 :: u8 where "TAG_I64 = 2"
definition TAG_BOOL :: u8 where "TAG_BOOL = 3"
definition TAG_STR :: u8 where "TAG_STR = 4"
definition TAG_LIST :: u8 where "TAG_LIST = 5"

text \<open>\<open>str::as_bytes\<close>\<close>

definition as_bytes :: "string \<Rightarrow> byte list" where
  "as_bytes s = map (\<lambda>c. of_nat (of_char c)) s"

text \<open>The functions that append to the scratch buffer \<open>out\<close> are given by what they append.\<close>

definition encode_len_prefixed :: "u8 \<Rightarrow> byte list \<Rightarrow> byte list" where
  "encode_len_prefixed tag payload =
    (let len = clamp_u16 (length payload) in
     tag # be_bytes 2 len @
       (case slice_get payload 0 (unat len) of Some s \<Rightarrow> s | None \<Rightarrow> payload))"

fun encode_value :: "value_t \<Rightarrow> byte list" where
  "encode_value (Bytes b) = encode_len_prefixed TAG_BYTES b"
| "encode_value (U64 n) = TAG_U64 # be_bytes 8 n"
| "encode_value (I64 n) = TAG_I64 # be_bytes 8 n"
| "encode_value (VBool b) = [TAG_BOOL, of_bool b]"
| "encode_value (Str s) = encode_len_prefixed TAG_STR (as_bytes s)"
| "encode_value (VList vs) =
    (let count = clamp_u16 (length vs) in
     TAG_LIST # be_bytes 2 count @ concat (take (unat count) (map encode_value vs)))"

section \<open>Flow keys\<close>

text \<open>The loop over \<open>identity.key\<close>; the buffers are \<open>shared\<close>, \<open>side_a\<close> and \<open>side_b\<close>.\<close>

fun key_sides :: "key_field list \<Rightarrow> field_map \<Rightarrow> byte list \<Rightarrow> byte list \<Rightarrow> byte list \<Rightarrow>
    key_error + byte list \<times> byte list \<times> byte list" where
  "key_sides [] fm shared a b = Inr (shared, a, b)"
| "key_sides (kf # kfs) fm shared a b =
    (case fm_get fm (kf_a kf) of
       None \<Rightarrow> Inl (MissingField (kf_a kf))
     | Some va \<Rightarrow>
        (case kf_b kf of
           None \<Rightarrow> key_sides kfs fm (shared @ encode_value va) a b
         | Some bn \<Rightarrow>
            (case fm_get fm bn of
               None \<Rightarrow> Inl (MissingField bn)
             | Some vb \<Rightarrow> key_sides kfs fm shared (a @ encode_value va) (b @ encode_value vb))))"

definition direction_of :: "byte list \<Rightarrow> byte list \<Rightarrow> packet_direction" where
  "direction_of a b = (if a \<le> b then AtoB else BtoA)"

definition flow_key :: "stream_identity \<Rightarrow> field_map \<Rightarrow> key_error + flow_key \<times> packet_direction" where
  "flow_key identity fm =
    (case si_canonicalize identity of
       CustomRule f \<Rightarrow> f fm
     | EndpointSort \<Rightarrow>
        and_then (key_sides (si_key identity) fm [] [] []) (\<lambda>(shared, a, b).
          let direction = direction_of a b;
              (lo, hi) = (case direction of AtoB \<Rightarrow> (a, b) | BtoA \<Rightarrow> (b, a))
          in Inr (shared @ lo @ hi, direction)))"

section \<open>Encodings are prefix-free\<close>

text \<open>Values whose variable-length parts fit the 16-bit length prefix.\<close>

fun encodable :: "value_t \<Rightarrow> bool" where
  "encodable (Bytes b) \<longleftrightarrow> length b < 2 ^ 16"
| "encodable (Str s) \<longleftrightarrow> length s < 2 ^ 16"
| "encodable (VList vs) \<longleftrightarrow> length vs < 2 ^ 16 \<and> list_all encodable vs"
| "encodable _ \<longleftrightarrow> True"

lemmas tag_defs = TAG_BYTES_def TAG_U64_def TAG_I64_def TAG_BOOL_def TAG_STR_def TAG_LIST_def

lemma as_bytes_inject [simp]: "as_bytes s = as_bytes t \<longleftrightarrow> s = t"
proof -
  have "inj (\<lambda>c. of_nat (of_char c) :: byte)"
  proof (rule injI)
    fix c d :: char
    assume "(of_nat (of_char c) :: byte) = of_nat (of_char d)"
    then have "unat (of_nat (of_char c) :: byte) = unat (of_nat (of_char d) :: byte)" by simp
    then have "(of_char c :: nat) = of_char d" by (simp add: unat_of_nat take_bit_eq_mod)
    then show "c = d" by simp
  qed
  then show ?thesis by (simp add: as_bytes_def inj_map_eq_map)
qed

lemma length_as_bytes [simp]: "length (as_bytes s) = length s"
  by (simp add: as_bytes_def)

lemma unat_clamp_u16 [simp]: "n < 2 ^ 16 \<Longrightarrow> unat (clamp_u16 n) = n"
  by (simp add: clamp_u16_def unat_of_nat take_bit_eq_mod)

lemma encode_len_prefixed_fits:
  "length p < 2 ^ 16 \<Longrightarrow> encode_len_prefixed tag p = tag # be_bytes 2 (clamp_u16 (length p)) @ p"
  by (simp add: encode_len_prefixed_def Let_def slice_get_def)

lemma be_bytes_inject:
  fixes v w :: "'a::len word"
  assumes "8 \<le> LENGTH('a)" and "LENGTH('a) \<le> 8 * n" and "be_bytes n v = be_bytes n w"
  shows "v = w"
proof -
  have "take_bit (8 * n) v = take_bit (8 * n) w"
    using assms(3) from_be_bytes_be_bytes_take[OF assms(1), of n v] from_be_bytes_be_bytes_take[OF assms(1), of n w]
    by simp
  with assms(2) show ?thesis by (simp add: take_bit_word_eq_self)
qed

lemma be_bytes_2_inject [simp]: "be_bytes 2 (v :: u16) = be_bytes 2 w \<longleftrightarrow> v = w"
  by (auto intro: be_bytes_inject[where n = 2])

lemma be_bytes_8_inject [simp]: "be_bytes 8 (v :: u64) = be_bytes 8 w \<longleftrightarrow> v = w"
  by (auto intro: be_bytes_inject[where n = 8])

lemma clamp_u16_inject:
  assumes "m < 65536" "n < 65536" "clamp_u16 m = clamp_u16 n"
  shows "m = n"
proof -
  have "m < 2 ^ 16" "n < 2 ^ 16" using assms(1,2) by simp_all
  note this[THEN unat_clamp_u16]
  with assms(3) show ?thesis by metis
qed

lemma encode_len_prefixed_prefix:
  assumes "length p < 2 ^ 16" and "length q < 2 ^ 16"
    and "encode_len_prefixed t p @ xs = encode_len_prefixed u q @ ys"
  shows "t = u \<and> p = q \<and> xs = ys"
proof -
  from assms have t: "t = u" and e: "be_bytes 2 (clamp_u16 (length p)) @ p @ xs = be_bytes 2 (clamp_u16 (length q)) @ q @ ys"
    by (simp_all add: encode_len_prefixed_fits)
  from e have "be_bytes 2 (clamp_u16 (length p)) = be_bytes 2 (clamp_u16 (length q))" "p @ xs = q @ ys"
    by (simp_all add: append_eq_append_conv)
  moreover from this(1) assms(1,2) have "length p = length q" by (auto dest: clamp_u16_inject)
  ultimately show ?thesis using t by (simp add: append_eq_append_conv)
qed

lemma encode_VList_fits:
  "length vs < 2 ^ 16 \<Longrightarrow>
    encode_value (VList vs) = TAG_LIST # be_bytes 2 (clamp_u16 (length vs)) @ concat (map encode_value vs)"
  by (simp add: Let_def)

declare encode_value.simps(6) [simp del]

fun tag_of :: "value_t \<Rightarrow> u8" where
  "tag_of (Bytes _) = 0"
| "tag_of (U64 _) = 1"
| "tag_of (I64 _) = 2"
| "tag_of (VBool _) = 3"
| "tag_of (Str _) = 4"
| "tag_of (VList _) = 5"

lemma hd_encode_value: "hd (encode_value v) = tag_of v"
  by (cases v) (simp_all add: encode_len_prefixed_def Let_def encode_value.simps(6) tag_defs)

lemma encode_value_nonempty [simp]: "encode_value v \<noteq> []"
  by (cases v) (simp_all add: encode_len_prefixed_def Let_def encode_value.simps(6))

definition prefix_free_at :: "value_t \<Rightarrow> bool" where
  "prefix_free_at v \<longleftrightarrow> (\<forall>w xs ys. encodable w \<longrightarrow> encode_value v @ xs = encode_value w @ ys \<longrightarrow> v = w \<and> xs = ys)"

lemma concat_prefix_free:
  assumes "\<And>v. v \<in> set vs \<Longrightarrow> prefix_free_at v" and "list_all encodable ws" and "length vs = length ws"
    and "concat (map encode_value vs) @ xs = concat (map encode_value ws) @ ys"
  shows "vs = ws \<and> xs = ys"
  using assms
proof (induction vs arbitrary: ws)
  case (Cons v vs)
  from Cons.prems(3) obtain w ws' where ws: "ws = w # ws'" by (cases ws) auto
  from Cons.prems(1) have "prefix_free_at v" by simp
  moreover from Cons.prems(4) ws
  have "encode_value v @ (concat (map encode_value vs) @ xs) = encode_value w @ (concat (map encode_value ws') @ ys)"
    by simp
  moreover from Cons.prems(2) ws have "encodable w" by simp
  ultimately have "v = w" and "concat (map encode_value vs) @ xs = concat (map encode_value ws') @ ys"
    unfolding prefix_free_at_def by blast+
  with Cons.IH[of ws'] Cons.prems ws show ?case by simp
qed simp

lemma same_tag:
  assumes "encode_value v @ xs = encode_value w @ ys"
  shows "tag_of v = tag_of w"
  using arg_cong[OF assms, of hd] by (simp add: hd_encode_value)

lemma encode_value_prefix_free: "encodable v \<Longrightarrow> prefix_free_at v"
proof (induction v)
  case (Bytes b)
  show ?case unfolding prefix_free_at_def
  proof (intro allI impI)
    fix w xs ys assume a: "encodable w" "encode_value (Bytes b) @ xs = encode_value w @ ys"
    from same_tag[OF a(2)] obtain c where "w = Bytes c" by (cases w) simp_all
    with a Bytes show "Bytes b = w \<and> xs = ys" using encode_len_prefixed_prefix[of b c] by simp
  qed
next
  case (Str s)
  show ?case unfolding prefix_free_at_def
  proof (intro allI impI)
    fix w xs ys assume a: "encodable w" "encode_value (Str s) @ xs = encode_value w @ ys"
    from same_tag[OF a(2)] obtain c where "w = Str c" by (cases w) simp_all
    with a Str show "Str s = w \<and> xs = ys" using encode_len_prefixed_prefix[of "as_bytes s" "as_bytes c"] by simp
  qed
next
  case (VList vs)
  show ?case unfolding prefix_free_at_def
  proof (intro allI impI)
    fix w xs ys assume a: "encodable w" "encode_value (VList vs) @ xs = encode_value w @ ys"
    from same_tag[OF a(2)] obtain ws where w: "w = VList ws" by (cases w) simp_all
    with a VList.prems have "be_bytes 2 (clamp_u16 (length vs)) = be_bytes 2 (clamp_u16 (length ws))"
      and c: "concat (map encode_value vs) @ xs = concat (map encode_value ws) @ ys"
      by (simp_all add: encode_VList_fits append_eq_append_conv)
    with a(1) w VList.prems have "length vs = length ws" by (auto dest: clamp_u16_inject)
    with c a(1) w VList show "VList vs = w \<and> xs = ys"
      using concat_prefix_free[of vs ws xs ys] by (auto simp: list_all_iff)
  qed
next
  case (U64 n)
  show ?case unfolding prefix_free_at_def
  proof (intro allI impI)
    fix w xs ys assume a: "encodable w" "encode_value (U64 n) @ xs = encode_value w @ ys"
    from same_tag[OF a(2)] obtain m where "w = U64 m" by (cases w) simp_all
    with a(2) show "U64 n = w \<and> xs = ys" by (simp add: append_eq_append_conv)
  qed
next
  case (I64 n)
  show ?case unfolding prefix_free_at_def
  proof (intro allI impI)
    fix w xs ys assume a: "encodable w" "encode_value (I64 n) @ xs = encode_value w @ ys"
    from same_tag[OF a(2)] obtain m where "w = I64 m" by (cases w) simp_all
    with a(2) show "I64 n = w \<and> xs = ys" by (simp add: append_eq_append_conv)
  qed
next
  case (VBool n)
  show ?case unfolding prefix_free_at_def
  proof (intro allI impI)
    fix w xs ys assume a: "encodable w" "encode_value (VBool n) @ xs = encode_value w @ ys"
    from same_tag[OF a(2)] obtain m where "w = VBool m" by (cases w) simp_all
    with a(2) show "VBool n = w \<and> xs = ys" by auto
  qed
qed

lemma encode_values_inject:
  assumes "length vs = length ws" "list_all encodable vs" "list_all encodable ws"
    and "concat (map encode_value vs) @ xs = concat (map encode_value ws) @ ys"
  shows "vs = ws \<and> xs = ys"
  using concat_prefix_free[of vs ws xs ys] assms by (auto simp: list_all_iff encode_value_prefix_free)

section \<open>What a key identifies\<close>

definition shared_vals :: "stream_identity \<Rightarrow> field_map \<Rightarrow> value_t list" where
  "shared_vals si fm = map (\<lambda>kf. the (fm_get fm (kf_a kf))) (filter (\<lambda>kf. kf_b kf = None) (si_key si))"

definition a_vals :: "stream_identity \<Rightarrow> field_map \<Rightarrow> value_t list" where
  "a_vals si fm = map (\<lambda>kf. the (fm_get fm (kf_a kf))) (filter (\<lambda>kf. kf_b kf \<noteq> None) (si_key si))"

definition b_vals :: "stream_identity \<Rightarrow> field_map \<Rightarrow> value_t list" where
  "b_vals si fm = map (\<lambda>kf. the (fm_get fm (the (kf_b kf)))) (filter (\<lambda>kf. kf_b kf \<noteq> None) (si_key si))"

definition encode_all :: "value_t list \<Rightarrow> byte list" where
  "encode_all vs = concat (map encode_value vs)"

text \<open>The first key field the layer did not extract, in declaration order.\<close>

definition first_missing :: "stream_identity \<Rightarrow> field_map \<Rightarrow> field_name option" where
  "first_missing si fm = List.find (\<lambda>n. fm_get fm n = None) (key_names si)"

lemma key_sides_spec:
  "key_sides (si_key si) fm s a b =
    (case first_missing si fm of
       Some n \<Rightarrow> Inl (MissingField n)
     | None \<Rightarrow> Inr (s @ encode_all (shared_vals si fm), a @ encode_all (a_vals si fm), b @ encode_all (b_vals si fm)))"
proof -
  have "key_sides key fm s a b =
    (case List.find (\<lambda>n. fm_get fm n = None) (concat (map (\<lambda>kf. kf_a kf # (case kf_b kf of None \<Rightarrow> [] | Some b \<Rightarrow> [b])) key)) of
       Some n \<Rightarrow> Inl (MissingField n)
     | None \<Rightarrow> Inr (s @ encode_all (map (\<lambda>kf. the (fm_get fm (kf_a kf))) (filter (\<lambda>kf. kf_b kf = None) key)),
         a @ encode_all (map (\<lambda>kf. the (fm_get fm (kf_a kf))) (filter (\<lambda>kf. kf_b kf \<noteq> None) key)),
         b @ encode_all (map (\<lambda>kf. the (fm_get fm (the (kf_b kf)))) (filter (\<lambda>kf. kf_b kf \<noteq> None) key))))" for key
  proof (induction key arbitrary: s a b)
    case (Cons kf key)
    then show ?case by (auto simp: encode_all_def find_append split: option.splits)
  qed (simp add: encode_all_def)
  then show ?thesis
    unfolding first_missing_def key_names_def shared_vals_def a_vals_def b_vals_def .
qed

lemma flow_key_spec:
  assumes "si_canonicalize si = EndpointSort"
  shows "flow_key si fm =
    (case first_missing si fm of
       Some n \<Rightarrow> Inl (MissingField n)
     | None \<Rightarrow>
        (let a = encode_all (a_vals si fm); b = encode_all (b_vals si fm) in
         Inr (encode_all (shared_vals si fm) @ min a b @ max a b, direction_of a b)))"
  using assms
  by (auto simp: flow_key_def key_sides_spec direction_of_def min_def max_def Let_def
      split: option.splits packet_direction.splits if_splits)

lemma length_vals [simp]:
  "length (shared_vals si fm) = length (filter (\<lambda>kf. kf_b kf = None) (si_key si))"
  "length (a_vals si fm) = length (filter (\<lambda>kf. kf_b kf \<noteq> None) (si_key si))"
  "length (b_vals si fm) = length (filter (\<lambda>kf. kf_b kf \<noteq> None) (si_key si))"
  by (simp_all add: shared_vals_def a_vals_def b_vals_def)

definition keys_encodable :: "stream_identity \<Rightarrow> field_map \<Rightarrow> bool" where
  "keys_encodable si fm \<longleftrightarrow> (\<forall>n \<in> set (key_names si). list_all encodable (case fm_get fm n of Some v \<Rightarrow> [v] | None \<Rightarrow> []))"

lemma vals_encodable:
  assumes "first_missing si fm = None" and "keys_encodable si fm"
  shows "list_all encodable (shared_vals si fm)" "list_all encodable (a_vals si fm)" "list_all encodable (b_vals si fm)"
proof -
  have "n \<in> set (key_names si) \<Longrightarrow> encodable (the (fm_get fm n))" for n
    using assms by (fastforce simp: first_missing_def find_None_iff keys_encodable_def split: option.splits)
  then show "list_all encodable (shared_vals si fm)" "list_all encodable (a_vals si fm)" "list_all encodable (b_vals si fm)"
    by (fastforce simp: shared_vals_def a_vals_def b_vals_def list_all_iff key_names_def split: option.splits)+
qed

lemma min_max_eq_iff:
  fixes a :: "'a::linorder"
  shows "min a b = min a' b' \<and> max a b = max a' b' \<longleftrightarrow> (a = a' \<and> b = b') \<or> (a = b' \<and> b = a')"
  by (auto simp: min_def max_def)

lemma encode_all_inject:
  assumes "length vs = length ws" "list_all encodable vs" "list_all encodable ws"
  shows "encode_all vs @ xs = encode_all ws @ ys \<longleftrightarrow> vs = ws \<and> xs = ys"
  using encode_values_inject[OF assms] by (auto simp: encode_all_def)

lemma encode_all_eq:
  assumes "length vs = length ws" "list_all encodable vs" "list_all encodable ws"
  shows "encode_all vs = encode_all ws \<longleftrightarrow> vs = ws"
  using encode_all_inject[OF assms, of "[]" "[]"] by simp

lemma min_max_append_inject:
  assumes "length vs = length us" "length ws = length us" "length vs' = length us" "length ws' = length us"
    and "list_all encodable vs" "list_all encodable ws" "list_all encodable vs'" "list_all encodable ws'"
  defines "a \<equiv> encode_all vs" and "b \<equiv> encode_all ws" and "a' \<equiv> encode_all vs'" and "b' \<equiv> encode_all ws'"
  shows "min a b @ max a b = min a' b' @ max a' b' \<longleftrightarrow> (vs = vs' \<and> ws = ws') \<or> (vs = ws' \<and> ws = vs')"
proof -
  have "\<exists>us us'. min a b = encode_all us \<and> min a' b' = encode_all us' \<and> list_all encodable us \<and>
      list_all encodable us' \<and> length us = length us'"
    using assms(1-8) unfolding a_def b_def a'_def b'_def min_def by metis
  then have "min a b @ max a b = min a' b' @ max a' b' \<longleftrightarrow> min a b = min a' b' \<and> max a b = max a' b'"
    using encode_all_inject by fastforce
  also have "\<dots> \<longleftrightarrow> (vs = vs' \<and> ws = ws') \<or> (vs = ws' \<and> ws = vs')"
    unfolding min_max_eq_iff a_def b_def a'_def b'_def using assms(1-8) by (simp add: encode_all_eq)
  finally show ?thesis .
qed

section \<open>The plugin contract gives keys\<close>

lemma first_missing_None:
  "first_missing si fm = None \<longleftrightarrow> (\<forall>n \<in> set (key_names si). fm_get fm n \<noteq> None)"
  by (auto simp: first_missing_def find_None_iff)

context layer_plugin
begin

text \<open>A plugin that keeps its contract never makes key construction fail at an aggregating depth.\<close>

lemma flow_key_succeeds:
  assumes "pg_parse p bytes ctx = Inr pl" and "Keys \<le> ctx_depth ctx" and "pg_stream_identity p = Some si"
    and "si_canonicalize si = EndpointSort"
  shows "\<exists>k d. flow_key si (pl_fields pl) = Inr (k, d)"
  using key_fields_present[OF assms(1-3)] flow_key_spec[OF assms(4)]
  by (simp add: first_missing_None[THEN iffD2] Let_def)

end

section \<open>Properties\<close>

text \<open>C6. Stream identity: under \<open>EndpointSort\<close>, when two layers' key values fit the encoding,
  their flow keys are equal exactly when the shared values agree and the endpoint values agree in
  order or swapped; and between distinct endpoints the two packets go in the same direction exactly
  when they are in the same order. Both orders of a conversation thus share one stream, and
  distinct conversations never do.\<close>

theorem flow_key_identifies:
  assumes "si_canonicalize si = EndpointSort"
    and "flow_key si fm = Inr (k, d)" and "flow_key si fm' = Inr (k', d')"
    and "keys_encodable si fm" and "keys_encodable si fm'"
  shows "(k = k' \<longleftrightarrow> shared_vals si fm = shared_vals si fm' \<and>
        ((a_vals si fm = a_vals si fm' \<and> b_vals si fm = b_vals si fm') \<or>
         (a_vals si fm = b_vals si fm' \<and> b_vals si fm = a_vals si fm'))) \<and>
    (k = k' \<and> a_vals si fm \<noteq> b_vals si fm \<longrightarrow> (d = d' \<longleftrightarrow> a_vals si fm = a_vals si fm'))"
proof -
  let ?a = "encode_all (a_vals si fm)" and ?b = "encode_all (b_vals si fm)"
    and ?a' = "encode_all (a_vals si fm')" and ?b' = "encode_all (b_vals si fm')"
  from assms(1-3) have m: "first_missing si fm = None" "first_missing si fm' = None"
    and k: "k = encode_all (shared_vals si fm) @ min ?a ?b @ max ?a ?b" "k' = encode_all (shared_vals si fm') @ min ?a' ?b' @ max ?a' ?b'"
    and d: "d = direction_of ?a ?b" "d' = direction_of ?a' ?b'"
    by (auto simp: flow_key_spec Let_def split: option.splits)
  note enc = vals_encodable[OF m(1) assms(4)] vals_encodable[OF m(2) assms(5)]
  have iff: "k = k' \<longleftrightarrow> shared_vals si fm = shared_vals si fm' \<and>
        ((a_vals si fm = a_vals si fm' \<and> b_vals si fm = b_vals si fm') \<or>
         (a_vals si fm = b_vals si fm' \<and> b_vals si fm = a_vals si fm'))"
    unfolding k
    by (subst encode_all_inject, simp, rule enc, rule enc, subst min_max_append_inject[where us = "a_vals si fm"]) (simp_all add: enc)
  moreover have "?a \<noteq> ?b" if "a_vals si fm \<noteq> b_vals si fm"
    using encode_all_eq[OF _ enc(2,3)] that by simp
  then have "d = d' \<longleftrightarrow> a_vals si fm = a_vals si fm'" if "k = k'" "a_vals si fm \<noteq> b_vals si fm"
    using that iff unfolding d direction_of_def by (auto split: if_splits)
  ultimately show ?thesis by blast
qed

definition demo_identity :: stream_identity where
  "demo_identity = \<lparr>si_key = [\<lparr>kf_a = ''src'', kf_b = Some ''dst''\<rparr>, \<lparr>kf_a = ''id'', kf_b = None\<rparr>],
     si_canonicalize = EndpointSort, si_lifecycle = None, si_rollups = []\<rparr>"

theorem flow_key_identifies_witness:
  "\<exists>k d k' d'. flow_key demo_identity [(''src'', U64 1), (''dst'', U64 2), (''id'', VBool True)] = Inr (k, d) \<and>
     flow_key demo_identity [(''src'', U64 2), (''dst'', U64 1), (''id'', VBool True)] = Inr (k', d') \<and>
     k = k' \<and> d \<noteq> d'"
proof -
  let ?si = demo_identity
    and ?f = "[(''src'', U64 1), (''dst'', U64 2), (''id'', VBool True)]"
    and ?g = "[(''src'', U64 2), (''dst'', U64 1), (''id'', VBool True)]"
  have e: "si_canonicalize ?si = EndpointSort" by (simp add: demo_identity_def)
  have "\<exists>k d. flow_key ?si ?f = Inr (k, d)" "\<exists>k d. flow_key ?si ?g = Inr (k, d)"
    unfolding flow_key_spec[OF e] by (simp_all add: first_missing_def key_names_def demo_identity_def Let_def)
  then obtain k d k' d' where f: "flow_key ?si ?f = Inr (k, d)" and g: "flow_key ?si ?g = Inr (k', d')" by blast
  have c: "keys_encodable ?si ?f" "keys_encodable ?si ?g"
    by (simp_all add: keys_encodable_def key_names_def demo_identity_def)
  have "shared_vals ?si ?f = shared_vals ?si ?g" "a_vals ?si ?f = b_vals ?si ?g" "b_vals ?si ?f = a_vals ?si ?g"
    "a_vals ?si ?f \<noteq> b_vals ?si ?f" "a_vals ?si ?f \<noteq> a_vals ?si ?g"
    by (simp_all add: shared_vals_def a_vals_def b_vals_def demo_identity_def)
  with flow_key_identifies[OF e f g c] f g show ?thesis by blast
qed

text \<open>Key construction fails exactly when the layer lacks a field its identity names, and then
  it reports the first such field in declaration order.\<close>

theorem flow_key_error_iff:
  assumes "si_canonicalize si = EndpointSort"
  shows "flow_key si fm = Inl err \<longleftrightarrow> (\<exists>n. first_missing si fm = Some n \<and> err = MissingField n)"
  using assms by (auto simp: flow_key_spec Let_def split: option.splits)

theorem flow_key_error_iff_witness:
  "flow_key demo_identity [(''src'', U64 1), (''id'', U64 2)] = Inl (MissingField ''dst'')"
  using flow_key_error_iff[of demo_identity "[(''src'', U64 1), (''id'', U64 2)]"]
  by (simp add: demo_identity_def first_missing_def key_names_def)

end
