(* ===== verification/Reading.thy ===== *)
theory Reading
  imports Flow_Key "HOL-Library.Sublist"
begin

text \<open>
  The library the protocol theories share: what a successful chain of reads over a fresh
  \<open>ByteReader\<close> says of the bytes, the big-endian integer at an offset, and the facts about field
  maps from which the \<open>layer_plugin\<close> contract of each protocol follows.
\<close>

section \<open>Reads as facts about the buffer\<close>

text \<open>Offsets stay numerals.\<close>

declare add_2_eq_Suc [simp del] add_2_eq_Suc' [simp del] One_nat_def [simp del]

text \<open>The bytes at an offset, and the big-endian integer there.\<close>

definition bytes_at :: "byte list \<Rightarrow> nat \<Rightarrow> nat \<Rightarrow> byte list" where
  "bytes_at b i n = take n (drop i b)"

definition be_at :: "byte list \<Rightarrow> nat \<Rightarrow> nat \<Rightarrow> 'a::len word" where
  "be_at b i n = from_be_bytes (bytes_at b i n)"

definition fits :: "byte_reader \<Rightarrow> nat \<Rightarrow> bool" where
  "fits r n \<longleftrightarrow> rpos r + n \<le> usize_max \<and> rpos r + n \<le> length (rbuf r)"

lemma length_bytes_at [simp]: "i + n \<le> length b \<Longrightarrow> length (bytes_at b i n) = n"
  by (simp add: bytes_at_def)

lemma reader_ext: "rbuf r' = rbuf r \<Longrightarrow> rpos r' = n \<Longrightarrow> r' = r\<lparr>rpos := n\<rparr>" for r r' :: byte_reader
  by (cases r, cases r') simp

lemma take_Inr [reader_simps]:
  "take_bytes r n = Inr x \<longleftrightarrow> fits r n \<and> x = (bytes_at (rbuf r) (rpos r) n, r\<lparr>rpos := rpos r + n\<rparr>)"
  by (auto simp: take_bytes_def checked_add_def slice_get_def Let_def fits_def bytes_at_def)

lemma map_read_Inr_pair: "map_read f x = Inr y \<longleftrightarrow> (\<exists>s r. x = Inr (s, r) \<and> y = (f s, r))"
  by (cases x) (auto simp: map_read_def)

lemma u8_Inr [reader_simps]:
  "read_u8 r = Inr x \<longleftrightarrow> fits r 1 \<and> x = (rbuf r ! rpos r, r\<lparr>rpos := rpos r + 1\<rparr>)"
  by (auto simp: read_defs map_read_Inr_pair take_Inr fits_def bytes_at_def hd_drop_conv_nth)

lemma u16_Inr [reader_simps]:
  "read_u16_be r = Inr x \<longleftrightarrow> fits r 2 \<and> x = (be_at (rbuf r) (rpos r) 2, r\<lparr>rpos := rpos r + 2\<rparr>)"
  by (auto simp: read_defs map_read_Inr_pair take_Inr be_at_def)

lemma u32_Inr [reader_simps]:
  "read_u32_be r = Inr x \<longleftrightarrow> fits r 4 \<and> x = (be_at (rbuf r) (rpos r) 4, r\<lparr>rpos := rpos r + 4\<rparr>)"
  by (auto simp: read_defs map_read_Inr_pair take_Inr be_at_def)

lemma u64_Inr [reader_simps]:
  "read_u64_be r = Inr x \<longleftrightarrow> fits r 8 \<and> x = (be_at (rbuf r) (rpos r) 8, r\<lparr>rpos := rpos r + 8\<rparr>)"
  by (auto simp: read_defs map_read_Inr_pair take_Inr be_at_def)

lemma try_Inr [reader_simps]: "try_read x k = Inr y \<longleftrightarrow> (\<exists>v r. x = Inr (v, r) \<and> k v r = Inr y)"
  by (rule try_read_Inr)

lemma new_reader_sel [reader_simps]: "rbuf (new_reader b) = b" "rpos (new_reader b) = 0"
  by (simp_all add: new_reader_def)

text \<open>How a chain continues: a read that fits goes on with its value, one that does not reports it.\<close>

lemma try_take: "try_read (take_bytes r n) k =
    (if fits r n then k (bytes_at (rbuf r) (rpos r) n) (r\<lparr>rpos := rpos r + n\<rparr>)
     else Inl (ETruncated \<lparr>t_needed = n, t_have = remaining r\<rparr>))"
  by (auto simp: take_bytes_def checked_add_def slice_get_def Let_def fits_def bytes_at_def)

lemma try_map_take: "try_read (map_read f (take_bytes r n)) k = try_read (take_bytes r n) (\<lambda>s r'. k (f s) r')"
  by (cases "take_bytes r n") (auto simp: map_read_def)

lemma try_u8: "try_read (read_u8 r) k =
    (if fits r 1 then k (rbuf r ! rpos r) (r\<lparr>rpos := rpos r + 1\<rparr>)
     else Inl (ETruncated \<lparr>t_needed = 1, t_have = remaining r\<rparr>))"
  by (simp add: read_defs try_map_take try_take fits_def bytes_at_def hd_drop_conv_nth)

lemma try_u16: "try_read (read_u16_be r) k =
    (if fits r 2 then k (be_at (rbuf r) (rpos r) 2) (r\<lparr>rpos := rpos r + 2\<rparr>)
     else Inl (ETruncated \<lparr>t_needed = 2, t_have = remaining r\<rparr>))"
  by (simp add: read_defs try_map_take try_take be_at_def)

lemma try_u32: "try_read (read_u32_be r) k =
    (if fits r 4 then k (be_at (rbuf r) (rpos r) 4) (r\<lparr>rpos := rpos r + 4\<rparr>)
     else Inl (ETruncated \<lparr>t_needed = 4, t_have = remaining r\<rparr>))"
  by (simp add: read_defs try_map_take try_take be_at_def)

lemmas try_simps = try_take try_u8 try_u16 try_u32 new_reader_sel

text \<open>A slice has at most \<open>isize::MAX\<close> bytes, so a read inside it never overflows the cursor.\<close>

lemma fits_new: "length b < 2 ^ 63 \<Longrightarrow> fits (new_reader b\<lparr>rpos := i\<rparr>) n \<longleftrightarrow> i + n \<le> length b"
  by (auto simp: fits_def new_reader_def usize_max_def)

lemma fits_at [simp]: "fits (r\<lparr>rpos := i\<rparr>) n \<longleftrightarrow> i + n \<le> usize_max \<and> i + n \<le> length (rbuf r)"
  by (simp add: fits_def)

lemma slice_usize: "length b < 2 ^ 63 \<Longrightarrow> i \<le> length b \<Longrightarrow> i \<le> usize_max"
  by (simp add: usize_max_def)

section \<open>Big-endian integers\<close>

lemma from_be_bytes_Nil [simp]: "from_be_bytes [] = 0"
  by (simp add: from_be_bytes_def)

lemma be_at_2:
  assumes "i + 2 \<le> length b"
  shows "(be_at b i 2 :: u16) = push_bit 8 (ucast (b ! i)) OR ucast (b ! (i + 1))"
proof -
  have "bytes_at b i 2 = [b ! i, b ! (i + 1)]"
    using assms by (intro nth_equalityI) (auto simp: bytes_at_def less_2_cases_iff One_nat_def)
  then show ?thesis by (simp add: be_at_def from_be_bytes_def)
qed

text \<open>Widening (\<open>u64::from\<close>) keeps the value; a shifted or masked field is in its range.\<close>

lemma unat_widen: "LENGTH('a::len) \<le> LENGTH('b::len) \<Longrightarrow> unat (ucast (x :: 'a word) :: 'b word) = unat x"
  by (simp add: unsigned_ucast_eq take_bit_nat_eq_self_iff order_less_le_trans[OF unsigned_less])

lemma widen_narrow: "LENGTH('a::len) \<le> LENGTH('b::len) \<Longrightarrow> ucast (ucast (x :: 'a word) :: 'b word) = x"
  by (simp add: is_up ucast_up_ucast_id)

lemma unat_byte_le: "unat (b :: byte) \<le> 255"
  using unat_byte_less[of b] by linarith

lemma unat_high: "unat (drop_bit n (x :: 'a::len word)) = unat x div 2 ^ n"
  unfolding unat_drop_bit_eq by (simp add: drop_bit_eq_div)

lemma unat_low: "unat (take_bit n (x :: 'a::len word)) = unat x mod 2 ^ n"
  by (metis take_bit_eq_mod unsigned_take_bit_eq)

lemma word_parts:
  "t = push_bit (Suc n) (drop_bit (Suc n) t) OR push_bit n (of_bool (bit t n)) OR take_bit n t" for t :: "'a::len word"
proof (rule bit_word_eqI)
  fix i assume i: "i < LENGTH('a)"
  consider "i < n" | "i = n" | "Suc n \<le> i" by linarith
  then show "bit t i = bit (push_bit (Suc n) (drop_bit (Suc n) t) OR push_bit n (of_bool (bit t n)) OR take_bit n t) i"
    using i by cases (simp_all add: bit_simps del: push_bit_Suc)
qed

section \<open>Field maps of a parse\<close>

lemma fm_names_insert_at:
  "set (fm_names (insert_at level d es fm)) = set (fm_names fm) \<union> (if level \<le> d then fst ` set es else {})"
proof -
  have "set (fm_names (fold (\<lambda>(n, v). fm_insert n v) es fm)) = set (fm_names fm) \<union> fst ` set es"
    by (induction es arbitrary: fm) (auto simp: fm_names_insert split: if_splits)
  then show ?thesis by (simp add: insert_at_def)
qed

lemma fm_names_new [simp]: "fm_names fm_new = []"
  by (simp add: fm_names_def fm_new_def)

lemma fm_get_present: "n \<in> set (fm_names fm) \<Longrightarrow> fm_get fm n \<noteq> None"
  by (simp add: fm_get_None_iff)

lemma depth_trans_simps: "Full \<le> d \<Longrightarrow> Structural \<le> d" "Structural \<le> d \<Longrightarrow> Keys \<le> d" for d :: depth
  by (cases d; simp)+

text \<open>What the contract proofs unfold: the reads, the guards and the names in the map.\<close>

lemmas contract_simps = default_plugin_def key_names_def reader_simps if_malformed_Inr Let_def fm_get_None_iff
  fm_names_insert_at and_then_Inr_iff

text \<open>A context with no outer layers, for the examples.\<close>

definition entry_ctx :: "depth \<Rightarrow> parse_ctx" where
  "entry_ctx d = \<lparr>ctx_layers = [], ctx_depth = d, ctx_meta = \<lparr>timestamp = 0, caplen = 0, origlen = 0, link_type = 1\<rparr>\<rparr>"

lemma entry_ctx_depth [simp]: "ctx_depth (entry_ctx d) = d"
  by (simp add: entry_ctx_def)

end
