(* ===== verification/Link.thy ===== *)
theory Link
  imports Reading
begin

text \<open>
  The link-layer plugins of \<open>pktflow-plugins/src\<close>: Ethernet II (\<open>ethernet.rs\<close>), the 802.1Q tag
  (\<open>vlan.rs\<close>) and ARP (\<open>arp.rs\<close>). Each is a \<open>plugin\<close> record with its \<open>parse\<close> translated read by
  read, and each is an instance of the \<open>layer_plugin\<close> contract.
\<close>

section \<open>Ethernet\<close>

definition MIN_ETHERTYPE :: u16 where
  "MIN_ETHERTYPE = 0x0600"

definition ethernet_identity :: stream_identity where
  "ethernet_identity = \<lparr>si_key = [\<lparr>kf_a = ''src_mac'', kf_b = Some ''dst_mac''\<rparr>],
     si_canonicalize = EndpointSort, si_lifecycle = None,
     si_rollups = [\<lparr>rs_field = ''ethertype'', rs_kind = Accumulate\<rparr>]\<rparr>"

definition ethernet_parse :: "byte list \<Rightarrow> parse_ctx \<Rightarrow> parse_error + parsed_layer" where
  "ethernet_parse bytes ctx =
    (let r = new_reader bytes in
     try_read (take_bytes r 6) (\<lambda>dst r.
     try_read (take_bytes r 6) (\<lambda>src r.
     try_read (read_u16_be r) (\<lambda>ethertype r.
     let fm = fm_new;
         fm = insert_at Keys (ctx_depth ctx) [(''src_mac'', Bytes src), (''dst_mac'', Bytes dst)] fm;
         fm = insert_at Structural (ctx_depth ctx) [(''ethertype'', U64 (ucast ethertype))] fm;
         hint = (if MIN_ETHERTYPE \<le> ethertype then Route (EtherType ethertype)
                 else Route (Custom ''eth_llc_frame'' 0))
     in Inr \<lparr>pl_header_len = 14, pl_fields = fm, pl_hint = hint\<rparr>))))"

definition ethernet :: plugin where
  "ethernet = (default_plugin ''ethernet'' ethernet_parse)
     \<lparr>pg_claims := [LinkType 1], pg_stream_identity := Some ethernet_identity\<rparr>"

section \<open>VLAN\<close>

definition vlan_parse :: "byte list \<Rightarrow> parse_ctx \<Rightarrow> parse_error + parsed_layer" where
  "vlan_parse bytes ctx =
    (let r = new_reader bytes in
     try_read (read_u16_be r) (\<lambda>tci r.
     try_read (read_u16_be r) (\<lambda>inner_ethertype r.
     let fm = fm_new;
         fm = insert_at Keys (ctx_depth ctx) [(''vlan_id'', U64 (ucast (tci AND 0x0FFF)))] fm;
         fm = insert_at Structural (ctx_depth ctx)
           [(''pcp'', U64 (ucast (drop_bit 13 tci))),
            (''dei'', VBool (drop_bit 12 tci AND 1 = 1)),
            (''ethertype'', U64 (ucast inner_ethertype))] fm
     in Inr \<lparr>pl_header_len = 4, pl_fields = fm, pl_hint = Route (EtherType inner_ethertype)\<rparr>)))"

definition vlan :: plugin where
  "vlan = (default_plugin ''vlan'' vlan_parse)\<lparr>pg_claims := [EtherType 0x8100, EtherType 0x88A8]\<rparr>"

section \<open>ARP\<close>

definition arp_parse :: "byte list \<Rightarrow> parse_ctx \<Rightarrow> parse_error + parsed_layer" where
  "arp_parse bytes ctx =
    (let r = new_reader bytes in
     try_read (read_u16_be r) (\<lambda>_ r.
     try_read (read_u16_be r) (\<lambda>_ r.
     try_read (read_u8 r) (\<lambda>hlen r.
     try_read (read_u8 r) (\<lambda>plen r.
     if hlen = 0 \<or> plen = 0 then Inl (Malformed ''zero address length'')
     else
     try_read (read_u16_be r) (\<lambda>opcode r.
     try_read (take_bytes r (unat hlen)) (\<lambda>sender_mac r.
     try_read (take_bytes r (unat plen)) (\<lambda>sender_ip r.
     try_read (take_bytes r (unat hlen)) (\<lambda>target_mac r.
     try_read (take_bytes r (unat plen)) (\<lambda>target_ip r.
     let fm = fm_new;
         fm = insert_at Structural (ctx_depth ctx)
           [(''opcode'', U64 (ucast opcode)), (''sender_mac'', Bytes sender_mac), (''sender_ip'', Bytes sender_ip),
            (''target_mac'', Bytes target_mac), (''target_ip'', Bytes target_ip)] fm
     in Inr \<lparr>pl_header_len = 8 + 2 * (unat hlen + unat plen), pl_fields = fm, pl_hint = Terminal\<rparr>))))))))))"

definition arp :: plugin where
  "arp = (default_plugin ''arp'' arp_parse)\<lparr>pg_claims := [EtherType 0x0806]\<rparr>"

section \<open>The contract\<close>

interpretation ethernet: layer_plugin ethernet
  by unfold_locales (auto simp: ethernet_def ethernet_parse_def ethernet_identity_def contract_simps fm_new_def)

interpretation vlan: layer_plugin vlan
  by unfold_locales (auto simp: vlan_def vlan_parse_def contract_simps fm_new_def)

interpretation arp: layer_plugin arp
  by unfold_locales (auto simp: arp_def arp_parse_def contract_simps fm_new_def)

section \<open>Properties\<close>

text \<open>Ethernet framing: on any frame the parse succeeds exactly from 14 bytes on, claims 14 bytes,
  yields the addresses in key order at depth \<open>Keys\<close>, and always names a route: the EtherType itself from
  \<open>0x0600\<close> on, the 802.3/LLC route below.\<close>

theorem ethernet_parse_spec:
  assumes "length bytes < 2 ^ 63"
  shows "(length bytes < 14 \<longrightarrow> (\<exists>t. pg_parse ethernet bytes ctx = Inl (ETruncated t))) \<and>
    (14 \<le> length bytes \<longrightarrow> (\<exists>fm. pg_parse ethernet bytes ctx = Inr \<lparr>pl_header_len = 14, pl_fields = fm,
         pl_hint = (let t = be_at bytes 12 2 in if 0x0600 \<le> t then Route (EtherType t) else Route (Custom ''eth_llc_frame'' 0))\<rparr> \<and>
       (Keys \<le> ctx_depth ctx \<longrightarrow> fm_get fm ''src_mac'' = Some (Bytes (bytes_at bytes 6 6)) \<and>
          fm_get fm ''dst_mac'' = Some (Bytes (bytes_at bytes 0 6)))))"
  using slice_usize[OF assms]
  by (auto simp: ethernet_def default_plugin_def ethernet_parse_def try_simps fits_def Let_def
      fm_get_insert_at MIN_ETHERTYPE_def)

theorem ethernet_parse_spec_witness:
  "(\<exists>t. pg_parse ethernet (replicate 13 0) (entry_ctx Full) = Inl (ETruncated t)) \<and>
   (\<exists>fm. pg_parse ethernet (replicate 12 0 @ [8, 0]) (entry_ctx Full) =
      Inr \<lparr>pl_header_len = 14, pl_fields = fm, pl_hint = Route (EtherType 0x0800)\<rparr>)"
proof -
  have "be_at (replicate 12 0 @ [8, 0]) 12 2 = (0x0800 :: u16)" by (simp add: be_at_2 nth_append One_nat_def)
  with ethernet_parse_spec[of "replicate 13 0" "entry_ctx Full"] ethernet_parse_spec[of "replicate 12 0 @ [8, 0]" "entry_ctx Full"]
  show ?thesis by (auto simp: Let_def)
qed

text \<open>The tag decode is lossless: at depth \<open>Structural\<close> the extracted priority, drop-eligible bit and
  VLAN id are in range and put together again are the tag control word that was read.\<close>

theorem vlan_tag_lossless:
  assumes "pg_parse vlan bytes ctx = Inr pl" and "Structural \<le> ctx_depth ctx"
  shows "\<exists>p d v. fm_get (pl_fields pl) ''pcp'' = Some (U64 p) \<and> fm_get (pl_fields pl) ''dei'' = Some (VBool d) \<and>
    fm_get (pl_fields pl) ''vlan_id'' = Some (U64 v) \<and> p < 8 \<and> v < 4096 \<and>
    be_at bytes 0 2 = push_bit 13 (ucast p :: u16) OR (if d then 0x1000 else 0) OR ucast v"
proof -
  let ?t = "be_at bytes 0 2 :: u16"
  have m: "?t AND 0x0FFF = take_bit 12 ?t" by (simp add: take_bit_eq_mask mask_eq_exp_minus_1)
  have d: "drop_bit 12 ?t AND 1 = 1 \<longleftrightarrow> bit ?t 12" by (simp add: and_one_eq bit_iff_odd_drop_bit odd_iff_mod_2_eq_one)
  have "?t = push_bit 13 (drop_bit 13 ?t) OR push_bit 12 (of_bool (bit ?t 12)) OR take_bit 12 ?t"
    using word_parts[of ?t 12] by simp
  then have "?t = push_bit 13 (ucast (ucast (drop_bit 13 ?t) :: u64)) OR (if bit ?t 12 then 0x1000 else 0) OR
      ucast (ucast (take_bit 12 ?t) :: u64)"
    by (cases "bit ?t 12") (simp_all add: widen_narrow)
  moreover have "(ucast (drop_bit 13 ?t) :: u64) < 8" "(ucast (take_bit 12 ?t) :: u64) < 4096"
    using less_mult_imp_div_less[of "unat ?t" 8 8192] by (simp_all add: word_less_nat_alt unat_widen unat_high unat_low)
  ultimately show ?thesis using assms depth_trans_simps(2)[OF assms(2)]
    by (intro exI[of _ "ucast (drop_bit 13 ?t)"] exI[of _ "bit ?t 12"] exI[of _ "ucast (take_bit 12 ?t)"])
      (auto simp: vlan_def default_plugin_def vlan_parse_def reader_simps Let_def fm_get_insert_at m d)
qed

theorem vlan_tag_lossless_witness:
  "\<exists>pl p d v. pg_parse vlan [0x30, 5, 8, 0] (entry_ctx Full) = Inr pl \<and> fm_get (pl_fields pl) ''pcp'' = Some (U64 p) \<and>
    fm_get (pl_fields pl) ''dei'' = Some (VBool d) \<and> fm_get (pl_fields pl) ''vlan_id'' = Some (U64 v) \<and>
    be_at [0x30, 5, 8, 0] 0 2 = push_bit 13 (ucast p :: u16) OR (if d then 0x1000 else 0) OR ucast v"
proof -
  have "\<exists>pl. pg_parse vlan [0x30, 5, 8, 0] (entry_ctx Full) = Inr pl"
    by (simp add: vlan_def default_plugin_def vlan_parse_def try_simps fits_def usize_max_def Let_def)
  then obtain pl where "pg_parse vlan [0x30, 5, 8, 0] (entry_ctx Full) = Inr pl" by blast
  with vlan_tag_lossless[OF this] show ?thesis by (metis depth_le_simps(5) entry_ctx_depth)
qed

text \<open>ARP framing: the parse succeeds exactly when both address lengths are non-zero and the four
  addresses fit, and then claims the fixed header and the four addresses, nothing more.\<close>

theorem arp_parse_iff:
  assumes "length bytes < 2 ^ 63"
  shows "(\<exists>fm. pg_parse arp bytes ctx = Inr \<lparr>pl_header_len = n, pl_fields = fm, pl_hint = Terminal\<rparr>) \<longleftrightarrow>
    8 \<le> length bytes \<and> bytes ! 4 \<noteq> 0 \<and> bytes ! 5 \<noteq> 0 \<and>
    n = 8 + 2 * (unat (bytes ! 4) + unat (bytes ! 5)) \<and> n \<le> length bytes"
  using slice_usize[OF assms]
  by (auto simp: arp_def default_plugin_def arp_parse_def reader_simps fits_def Let_def)

theorem arp_parse_iff_witness:
  "\<exists>fm. pg_parse arp ([0, 1, 8, 0, 6, 4, 0, 1] @ replicate 20 9) (entry_ctx Full) =
     Inr \<lparr>pl_header_len = 28, pl_fields = fm, pl_hint = Terminal\<rparr>"
  using arp_parse_iff[of "[0, 1, 8, 0, 6, 4, 0, 1] @ replicate 20 9" "entry_ctx Full" 28] by simp

end
