(* ===== verification/Net.thy ===== *)
theory Net
  imports Reading
begin

text \<open>
  The network-layer plugins of \<open>pktflow-plugins/src\<close>: IPv4 with the RFC 1071 checksum
  (\<open>ipv4.rs\<close>), IPv6 with its bounded extension-header walk (\<open>ipv6.rs\<close>), ICMPv4, ICMPv6 and IGMP.
  The lemmas relate the checksum to one's-complement arithmetic, show that the IPv6 walk keeps
  \<open>header_len\<close> at the read cursor and stays within its bound, and discharge the plugin contract.
\<close>

section \<open>IPv4\<close>

definition ipv4_identity :: stream_identity where
  "ipv4_identity = \<lparr>si_key = [\<lparr>kf_a = ''src_addr'', kf_b = Some ''dst_addr''\<rparr>],
     si_canonicalize = EndpointSort, si_lifecycle = None,
     si_rollups = [\<lparr>rs_field = ''protocol'', rs_kind = Accumulate\<rparr>]\<rparr>"

text \<open>The sum over \<open>chunks_exact(2)\<close> and its remainder; \<open>u32\<close> addition wraps as in a release build.\<close>

fun sum_chunks :: "u32 \<Rightarrow> byte list \<Rightarrow> u32" where
  "sum_chunks acc (x # y # rest) = sum_chunks (acc + ucast (from_be_bytes [x, y] :: u16)) rest"
| "sum_chunks acc [x] = acc + ucast (from_be_bytes [x, 0] :: u16)"
| "sum_chunks acc [] = acc"

text \<open>\<open>while sum > 0xFFFF\<close>\<close>

lemma fold_carry_less: "0xFFFF < s \<Longrightarrow> unat ((s AND 0xFFFF) + drop_bit 16 s) < unat s" for s :: u32
proof -
  assume "0xFFFF < s"
  then have big: "65535 < unat s" by (simp add: word_less_nat_alt)
  have m: "s AND 0xFFFF = take_bit 16 s" by (simp add: take_bit_eq_mask mask_eq_exp_minus_1)
  have "unat (take_bit 16 s + drop_bit 16 s) \<le> unat (take_bit 16 s) + unat (drop_bit 16 s)"
    by (simp add: unat_word_ariths)
  also have "\<dots> = unat s mod 65536 + unat s div 65536" by (simp add: unat_low unat_high)
  also have "\<dots> < unat s mod 65536 + unat s div 65536 * 65536" using big div_greater_zero_iff[of "unat s" 65536] by linarith
  also have "\<dots> = unat s" by simp
  finally show ?thesis by (simp add: m)
qed

function fold_carry :: "u32 \<Rightarrow> u32" where
  "fold_carry acc = (if 0xFFFF < acc then fold_carry ((acc AND 0xFFFF) + drop_bit 16 acc) else acc)"
  by auto
termination by (relation "measure unat") (simp_all add: fold_carry_less)

declare fold_carry.simps [simp del]

definition internet_checksum :: "byte list \<Rightarrow> u16" where
  "internet_checksum header = NOT (ucast (fold_carry (sum_chunks 0 header)))"

definition ipv4_parse :: "byte list \<Rightarrow> parse_ctx \<Rightarrow> parse_error + parsed_layer" where
  "ipv4_parse bytes ctx =
    (let r = new_reader bytes in
     try_read (read_u8 r) (\<lambda>ver_ihl r.
     if drop_bit 4 ver_ihl \<noteq> 4 then Inl (Malformed ''version nibble is not 4'')
     else let ihl = ucast (ver_ihl AND 0x0F) :: u64 in
     if ihl < 5 then Inl (Malformed ''IHL below 5'')
     else let header_len = unat (ihl * 4) in
     try_read (read_u8 r) (\<lambda>dscp_ecn r.
     try_read (read_u16_be r) (\<lambda>total_len r.
     try_read (read_u16_be r) (\<lambda>ident r.
     try_read (read_u16_be r) (\<lambda>flags_frag r.
     try_read (read_u8 r) (\<lambda>ttl r.
     try_read (read_u8 r) (\<lambda>protocol r.
     try_read (read_u16_be r) (\<lambda>checksum r.
     try_read (take_bytes r 4) (\<lambda>src r.
     try_read (take_bytes r 4) (\<lambda>dst r.
     try_read (take_bytes r (header_len - 20)) (\<lambda>options r.
     let frag_offset = flags_frag AND 0x1FFF;
         d = ctx_depth ctx;
         fm = fm_new;
         fm = insert_at Keys d [(''src_addr'', Bytes src), (''dst_addr'', Bytes dst)] fm;
         fm = insert_at Structural d
           [(''protocol'', U64 (ucast protocol)), (''ttl'', U64 (ucast ttl)), (''total_len'', U64 (ucast total_len)),
            (''flags'', U64 (ucast (drop_bit 13 flags_frag))), (''frag_offset'', U64 (ucast frag_offset)),
            (''ihl'', U64 ihl)] fm;
         fm = insert_at Full d
           ([(''dscp'', U64 (ucast (drop_bit 2 dscp_ecn))), (''ecn'', U64 (ucast (dscp_ecn AND 0x03))),
             (''id'', U64 (ucast ident)), (''checksum'', U64 (ucast checksum))] @
            (if options \<noteq> [] then [(''options'', Bytes options)] else [])) fm;
         hint = (if 0 < frag_offset then Terminal else Route (IpProtocol protocol))
     in Inr \<lparr>pl_header_len = header_len, pl_fields = fm, pl_hint = hint\<rparr>))))))))))))"

definition ipv4_probe :: "byte list \<Rightarrow> parse_ctx \<Rightarrow> confidence option" where
  "ipv4_probe bytes ctx =
    Option.bind (elem_get bytes 0) (\<lambda>first.
     if drop_bit 4 first \<noteq> 4 \<or> first AND 0x0F < 5 then None
     else let header_len = unat (first AND 0x0F) * 4 in
     Option.bind (slice_get bytes 0 header_len) (\<lambda>header.
     Option.bind (elem_get bytes 2) (\<lambda>hi. Option.bind (elem_get bytes 3) (\<lambda>lo.
     let total_len = unat (from_be_bytes [hi, lo] :: u16) in
     if length bytes < total_len \<or> total_len < header_len then None
     else if internet_checksum header = 0 then Some (confidence_new 90) else None))))"

definition ipv4 :: plugin where
  "ipv4 = (default_plugin ''ipv4'' ipv4_parse)
     \<lparr>pg_claims := [EtherType 0x0800, IpProtocol 4], pg_has_probe := True, pg_probe := ipv4_probe,
      pg_stream_identity := Some ipv4_identity\<rparr>"

section \<open>IPv6\<close>

definition MAX_EXT_HEADERS :: usize where
  "MAX_EXT_HEADERS = 8"

definition ipv6_identity :: stream_identity where
  "ipv6_identity = \<lparr>si_key = [\<lparr>kf_a = ''src_addr'', kf_b = Some ''dst_addr''\<rparr>],
     si_canonicalize = EndpointSort, si_lifecycle = None,
     si_rollups = [\<lparr>rs_field = ''next_header'', rs_kind = Accumulate\<rparr>]\<rparr>"

definition is_ext_header :: "u8 \<Rightarrow> bool" where
  "is_ext_header nh \<longleftrightarrow> nh = 0 \<or> nh = 43 \<or> nh = 44 \<or> nh = 60"

text \<open>The extension-header loop of \<open>parse\<close>: its variables are the arguments, the values after the
  loop the result.\<close>

function ext_walk :: "byte_reader \<Rightarrow> u8 \<Rightarrow> usize \<Rightarrow> u16 \<Rightarrow> usize \<Rightarrow> parse_error + u8 \<times> usize \<times> u16" where
  "ext_walk r next_header header_len fragment_offset ext_count =
    (if is_ext_header next_header then
       if MAX_EXT_HEADERS < ext_count + 1 then Inl (Malformed ''extension header chain too long'')
       else if next_header = 44 then
         try_read (read_u8 r) (\<lambda>inner_next r.
         try_read (read_u8 r) (\<lambda>_ r.
         try_read (read_u16_be r) (\<lambda>offset_flags r.
         try_read (read_u32_be r) (\<lambda>_ r.
         ext_walk r inner_next (header_len + 8) (drop_bit 3 offset_flags) (ext_count + 1)))))
       else
         try_read (read_u8 r) (\<lambda>inner_next r.
         try_read (read_u8 r) (\<lambda>hdr_ext_len r.
         let ext_len = (unat hdr_ext_len + 1) * 8 in
         try_read (take_bytes r (ext_len - 2)) (\<lambda>_ r.
         ext_walk r inner_next (header_len + ext_len) fragment_offset (ext_count + 1))))
     else Inr (next_header, header_len, fragment_offset))"
  by pat_completeness auto
termination
  by (relation "measure (\<lambda>(r, nh, hl, fo, n). Suc MAX_EXT_HEADERS - n)") auto

declare ext_walk.simps [simp del]

definition ipv6_parse :: "byte list \<Rightarrow> parse_ctx \<Rightarrow> parse_error + parsed_layer" where
  "ipv6_parse bytes ctx =
    (let r = new_reader bytes in
     try_read (read_u32_be r) (\<lambda>ver_tc_fl r.
     if drop_bit 28 ver_tc_fl \<noteq> 6 then Inl (Malformed ''version nibble is not 6'')
     else
     try_read (read_u16_be r) (\<lambda>payload_len r.
     try_read (read_u8 r) (\<lambda>next_header r.
     try_read (read_u8 r) (\<lambda>hop_limit r.
     try_read (take_bytes r 16) (\<lambda>src r.
     try_read (take_bytes r 16) (\<lambda>dst r.
     and_then (ext_walk r next_header 40 0 0) (\<lambda>(next_header, header_len, fragment_offset).
     let d = ctx_depth ctx;
         fm = fm_new;
         fm = insert_at Keys d [(''src_addr'', Bytes src), (''dst_addr'', Bytes dst)] fm;
         fm = insert_at Structural d
           [(''next_header'', U64 (ucast next_header)), (''hop_limit'', U64 (ucast hop_limit)),
            (''payload_len'', U64 (ucast payload_len))] fm;
         fm = insert_at Full d
           [(''traffic_class'', U64 (ucast (drop_bit 20 ver_tc_fl AND 0xFF))),
            (''flow_label'', U64 (ucast (ver_tc_fl AND 0xFFFFF)))] fm;
         hint = (if 0 < fragment_offset then Terminal else Route (IpProtocol next_header))
     in Inr \<lparr>pl_header_len = header_len, pl_fields = fm, pl_hint = hint\<rparr>))))))))"

definition ipv6_probe :: "byte list \<Rightarrow> parse_ctx \<Rightarrow> confidence option" where
  "ipv6_probe bytes ctx =
    Option.bind (elem_get bytes 0) (\<lambda>first.
     if drop_bit 4 first \<noteq> 6 \<or> length bytes < 40 then None
     else Option.bind (elem_get bytes 4) (\<lambda>hi. Option.bind (elem_get bytes 5) (\<lambda>lo.
     let payload_len = from_be_bytes [hi, lo] :: u16 in
     if 40 + unat payload_len \<le> length bytes then Some (confidence_new 75) else None)))"

definition ipv6 :: plugin where
  "ipv6 = (default_plugin ''ipv6'' ipv6_parse)
     \<lparr>pg_claims := [EtherType 0x86DD, IpProtocol 41], pg_has_probe := True, pg_probe := ipv6_probe,
      pg_stream_identity := Some ipv6_identity\<rparr>"

section \<open>ICMP and IGMP\<close>

definition icmpv4_parse :: "byte list \<Rightarrow> parse_ctx \<Rightarrow> parse_error + parsed_layer" where
  "icmpv4_parse bytes ctx =
    (let r = new_reader bytes in
     try_read (read_u8 r) (\<lambda>icmp_type r.
     try_read (read_u8 r) (\<lambda>code r.
     try_read (read_u16_be r) (\<lambda>_ r.
     try_read (take_bytes r 4) (\<lambda>rest r.
     let fm = fm_new;
         fm = insert_at Structural (ctx_depth ctx) [(''type'', U64 (ucast icmp_type)), (''code'', U64 (ucast code))] fm;
         fm = insert_at Full (ctx_depth ctx) [(''rest_of_header'', Bytes rest)] fm
     in Inr \<lparr>pl_header_len = 8, pl_fields = fm, pl_hint = Terminal\<rparr>)))))"

definition icmpv4 :: plugin where
  "icmpv4 = (default_plugin ''icmpv4'' icmpv4_parse)\<lparr>pg_claims := [IpProtocol 1]\<rparr>"

definition icmpv6_hint :: "u8 \<Rightarrow> hint" where
  "icmpv6_hint icmp_type =
    (if icmp_type \<in> {133, 134, 135, 136, 137, 130, 131, 132, 143}
     then Route (Custom ''icmpv6_type'' (ucast icmp_type)) else Terminal)"

definition icmpv6_parse :: "byte list \<Rightarrow> parse_ctx \<Rightarrow> parse_error + parsed_layer" where
  "icmpv6_parse bytes ctx =
    (let r = new_reader bytes in
     try_read (read_u8 r) (\<lambda>icmp_type r.
     try_read (read_u8 r) (\<lambda>code r.
     try_read (read_u16_be r) (\<lambda>_ r.
     try_read (take_bytes r 4) (\<lambda>rest r.
     let fm = fm_new;
         fm = insert_at Structural (ctx_depth ctx)
           [(''type'', U64 (ucast icmp_type)), (''code'', U64 (ucast code)), (''rest_of_header'', Bytes rest)] fm
     in Inr \<lparr>pl_header_len = 8, pl_fields = fm, pl_hint = icmpv6_hint icmp_type\<rparr>)))))"

definition icmpv6 :: plugin where
  "icmpv6 = (default_plugin ''icmpv6'' icmpv6_parse)\<lparr>pg_claims := [IpProtocol 58]\<rparr>"

definition igmp_parse :: "byte list \<Rightarrow> parse_ctx \<Rightarrow> parse_error + parsed_layer" where
  "igmp_parse bytes ctx =
    (let r = new_reader bytes in
     try_read (read_u8 r) (\<lambda>igmp_type r.
     try_read (read_u8 r) (\<lambda>max_resp r.
     try_read (read_u16_be r) (\<lambda>_ r.
     try_read (take_bytes r 4) (\<lambda>group r.
     let fm = fm_new;
         fm = insert_at Structural (ctx_depth ctx)
           [(''type'', U64 (ucast igmp_type)), (''max_resp'', U64 (ucast max_resp)), (''group_addr'', Bytes group)] fm
     in Inr \<lparr>pl_header_len = 8, pl_fields = fm, pl_hint = Terminal\<rparr>)))))"

definition igmp :: plugin where
  "igmp = (default_plugin ''igmp'' igmp_parse)\<lparr>pg_claims := [IpProtocol 2]\<rparr>"

section \<open>The checksum\<close>

text \<open>The 16-bit words of a header as numbers, an odd last byte padded with zero.\<close>

fun word_sum :: "byte list \<Rightarrow> nat" where
  "word_sum (x # y # rest) = 256 * unat x + unat y + word_sum rest"
| "word_sum [x] = 256 * unat x"
| "word_sum [] = 0"

lemma unat_be2: "unat (from_be_bytes [x, y] :: u16) = 256 * unat x + unat y"
proof -
  have d: "push_bit 8 (ucast x) OR ucast y = push_bit 8 (ucast x) + (ucast y :: u16)"
    by (rule disjunctive_add[symmetric]) (auto simp: bit_simps dest: bit_imp_le_length)
  have "unat (push_bit 8 (ucast x :: u16)) = 256 * unat x"
    using unat_byte_less[of x] by (simp add: push_bit_eq_mult unat_word_ariths unat_widen)
  moreover have "256 * unat x + unat y < 65536" using unat_byte_less[of x] unat_byte_less[of y] by linarith
  ultimately show ?thesis by (simp add: from_be_bytes_def d unat_word_ariths unat_widen)
qed

lemma unat_sum_chunks: "unat acc + word_sum bs < 2 ^ 32 \<Longrightarrow> unat (sum_chunks acc bs) = unat acc + word_sum bs"
proof (induction acc bs rule: sum_chunks.induct)
  case (1 acc x y rest)
  have "unat (acc + ucast (from_be_bytes [x, y] :: u16)) = unat acc + (256 * unat x + unat y)"
    using 1(2) by (simp add: unat_word_ariths unat_widen unat_be2)
  with 1 show ?case by simp
qed (simp_all add: unat_word_ariths unat_widen unat_be2)

lemma fold_carry_step: "unat ((s AND 0xFFFF) + drop_bit 16 s) = unat s mod 65536 + unat s div 65536" for s :: u32
proof -
  have m: "s AND 0xFFFF = take_bit 16 s" by (simp add: take_bit_eq_mask mask_eq_exp_minus_1)
  have "unat s < 2 ^ 32" by (rule order_less_le_trans[OF unsigned_less]) simp
  then have "unat s div 65536 < 65536" using less_mult_imp_div_less[of "unat s" 65536 65536] by simp
  moreover have "unat s mod 65536 < 65536" by simp
  ultimately have "unat s mod 65536 + unat s div 65536 < 2 ^ 32" by simp
  then show ?thesis by (simp add: m unat_word_ariths unat_low unat_high)
qed

lemma carry_mod: "(n mod 65536 + n div 65536) mod 65535 = n mod (65535 :: nat)"
proof -
  have "n mod 65535 = (n mod 65536 + 65536 * (n div 65536)) mod 65535" by simp
  also have "\<dots> = (n mod 65536 + n div 65536 + 65535 * (n div 65536)) mod 65535" by simp
  also have "\<dots> = (n mod 65536 + n div 65536) mod 65535" by (rule mod_mult_self2)
  finally show ?thesis ..
qed

lemma fold_carry_spec:
  "unat (fold_carry s) \<le> 65535 \<and> unat (fold_carry s) mod 65535 = unat s mod 65535 \<and> (fold_carry s = 0 \<longleftrightarrow> s = 0)"
proof (induction s rule: fold_carry.induct)
  case (1 s)
  show ?case
  proof (cases "0xFFFF < s")
    case True
    have "(s AND 0xFFFF) + drop_bit 16 s \<noteq> 0"
      using True fold_carry_step[of s] div_greater_zero_iff[of "unat s" 65536] by (auto simp: word_less_nat_alt)
    with 1[OF True] True show ?thesis
      by (subst (1 2 3) fold_carry.simps) (auto simp: fold_carry_step carry_mod)
  next
    case False
    then show ?thesis by (subst (1 2 3) fold_carry.simps) (simp add: word_less_nat_alt)
  qed
qed

lemma unat_not_u16: "unat (NOT x) = 65535 - unat x" for x :: u16
proof -
  have "NOT x = - 1 - x" by (simp add: not_eq_complement)
  then have "unat (NOT x) = unat (- 1 :: u16) - unat x" by (simp only: unat_sub[OF word_order.extremum])
  then show ?thesis by (simp add: unsigned_minus_1_eq_mask mask_eq_exp_minus_1)
qed

lemma checksum_eq:
  assumes w: "word_sum h < 2 ^ 32"
  obtains r where "unat (internet_checksum h) = 65535 - r" "r \<le> 65535" "r mod 65535 = word_sum h mod 65535"
    "r = 0 \<longleftrightarrow> word_sum h = 0"
proof (rule that[of "unat (fold_carry (sum_chunks 0 h))"])
  note f = fold_carry_spec[of "sum_chunks 0 h"]
  have s: "unat (sum_chunks 0 h) = word_sum h" using unat_sum_chunks[of 0 h] w by simp
  have "unat (ucast (fold_carry (sum_chunks 0 h)) :: u16) = unat (fold_carry (sum_chunks 0 h))"
    using f by (simp add: unsigned_ucast_eq take_bit_nat_eq_self_iff)
  then show "unat (internet_checksum h) = 65535 - unat (fold_carry (sum_chunks 0 h))"
    by (simp add: internet_checksum_def unat_not_u16)
  show "unat (fold_carry (sum_chunks 0 h)) \<le> 65535"
    "unat (fold_carry (sum_chunks 0 h)) mod 65535 = word_sum h mod 65535" using f s by simp_all
  have "sum_chunks 0 h = 0 \<longleftrightarrow> word_sum h = 0" using s by (metis unat_0 unat_eq_zero)
  with f show "unat (fold_carry (sum_chunks 0 h)) = 0 \<longleftrightarrow> word_sum h = 0" by (simp add: unat_eq_zero)
qed

section \<open>The extension-header walk\<close>

text \<open>One turn of the loop: the header it consumes is 8 to 2048 bytes long, in units of 8.\<close>

lemma ext_walk_step:
  assumes "ext_walk r nh hl fo n = Inr x" and "is_ext_header nh"
  obtains k nh' fo' where "n < MAX_EXT_HEADERS" "8 dvd k" "k \<le> 2048" "rpos r + k \<le> length (rbuf r)"
    "ext_walk (r\<lparr>rpos := rpos r + k\<rparr>) nh' (hl + k) fo' (n + 1) = Inr x"
proof (cases "nh = 44")
  case True
  with assms have "n < MAX_EXT_HEADERS" "rpos r + 8 \<le> length (rbuf r)"
    "ext_walk (r\<lparr>rpos := rpos r + 8\<rparr>) (rbuf r ! rpos r) (hl + 8) (drop_bit 3 (be_at (rbuf r) (rpos r + 2) 2)) (n + 1) = Inr x"
    by (auto simp: reader_simps ext_walk.simps[of r 44 hl fo n] add.assoc split: if_splits)
  then show ?thesis using that[of 8] by simp
next
  case False
  let ?k = "(unat (rbuf r ! (rpos r + 1)) + 1) * 8"
  from False assms have "n < MAX_EXT_HEADERS" "rpos r + ?k \<le> length (rbuf r)"
    "ext_walk (r\<lparr>rpos := rpos r + ?k\<rparr>) (rbuf r ! rpos r) (hl + ?k) fo (n + 1) = Inr x"
    by (auto simp: reader_simps ext_walk.simps[of r nh hl fo n] add.assoc add.commute[of 8] Let_def split: if_splits)
  moreover have "?k \<le> 2048" using unat_byte_le[of "rbuf r ! (rpos r + 1)"] by simp
  ultimately show ?thesis using that[of ?k] by simp
qed

lemma ext_walk_done: "\<not> is_ext_header nh \<Longrightarrow> ext_walk r nh hl fo n = Inr (nh, hl, fo)"
  by (simp add: ext_walk.simps)

text \<open>\<open>header_len\<close> follows the cursor, so it never leaves the buffer.\<close>

lemma ext_walk_spec:
  assumes "ext_walk r nh hl fo n = Inr (nh', hl', fo')" and "hl = rpos r" and "rpos r \<le> length (rbuf r)"
  shows "\<not> is_ext_header nh' \<and> hl \<le> hl' \<and> hl' \<le> length (rbuf r) \<and> hl' \<le> hl + 2048 * (MAX_EXT_HEADERS - n) \<and>
    (8 dvd hl \<longrightarrow> 8 dvd hl')"
  using assms
proof (induction "MAX_EXT_HEADERS - n" arbitrary: r nh hl fo n rule: less_induct)
  case less
  show ?case
  proof (cases "is_ext_header nh")
    case False
    with less.prems show ?thesis by (auto simp: ext_walk_done)
  next
    case True
    from ext_walk_step[OF less.prems(1) True] obtain k nh'' fo'' where
      k: "n < MAX_EXT_HEADERS" "8 dvd k" "k \<le> 2048" "rpos r + k \<le> length (rbuf r)"
        "ext_walk (r\<lparr>rpos := rpos r + k\<rparr>) nh'' (hl + k) fo'' (n + 1) = Inr (nh', hl', fo')" by metis
    from less.hyps[OF _ k(5)] k(1,4) less.prems(2)
    have "\<not> is_ext_header nh' \<and> hl + k \<le> hl' \<and> hl' \<le> length (rbuf r) \<and>
      hl' \<le> hl + k + 2048 * (MAX_EXT_HEADERS - (n + 1)) \<and> (8 dvd hl + k \<longrightarrow> 8 dvd hl')" by simp
    moreover have "2048 + 2048 * (MAX_EXT_HEADERS - (n + 1)) = 2048 * (MAX_EXT_HEADERS - n)" using k(1) by simp
    ultimately show ?thesis using k(2,3) by auto
  qed
qed

section \<open>The contract\<close>

lemma ihl_less: "unat (x AND 0x0F) < 16" for x :: u8
  by (rule nibble_bounds)

lemma ihl_header_len: "unat ((ucast (x AND 0x0F) :: u64) * 4) = unat (x AND 0x0F) * 4" for x :: u8
  using ihl_less[of x] by (simp add: unat_word_ariths unat_widen)

lemma ihl_min: "\<not> (ucast (x AND 0x0F) :: u64) < 5 \<longleftrightarrow> 5 \<le> unat (x AND 0x0F)" for x :: u8
  by (simp add: word_less_nat_alt unat_widen not_less)

interpretation ipv4: layer_plugin ipv4
  by unfold_locales
    (auto simp: ipv4_def ipv4_parse_def ipv4_identity_def contract_simps fm_new_def ihl_header_len ihl_min)

interpretation ipv6: layer_plugin ipv6
  by unfold_locales
    (auto simp: ipv6_def ipv6_parse_def ipv6_identity_def contract_simps fm_new_def dest!: ext_walk_spec)

interpretation icmpv4: layer_plugin icmpv4
  by unfold_locales (auto simp: icmpv4_def icmpv4_parse_def contract_simps fm_new_def)

interpretation icmpv6: layer_plugin icmpv6
  by unfold_locales (auto simp: icmpv6_def icmpv6_parse_def contract_simps fm_new_def)

interpretation igmp: layer_plugin igmp
  by unfold_locales (auto simp: igmp_def igmp_parse_def contract_simps fm_new_def)

section \<open>Properties\<close>

lemma word_sum_bound: "2 * word_sum h \<le> 65535 * (length h + 1)"
proof (induction h rule: word_sum.induct)
  case (1 x y rest)
  with unat_byte_le[of x] unat_byte_le[of y] show ?case by simp
next
  case (2 x)
  with unat_byte_le[of x] show ?case by simp
qed simp

lemma word_sum_u32: "length h < 2 ^ 17 - 1 \<Longrightarrow> word_sum h < 2 ^ 32"
  using word_sum_bound[of h] by simp

lemma checksum_zero:
  assumes "length h < 2 ^ 17 - 1"
  shows "internet_checksum h = 0 \<longleftrightarrow> 0 < word_sum h \<and> 65535 dvd word_sum h"
proof -
  obtain r where r: "unat (internet_checksum h) = 65535 - r" "r \<le> 65535" "r mod 65535 = word_sum h mod 65535"
      "r = 0 \<longleftrightarrow> word_sum h = 0" by (rule checksum_eq[OF word_sum_u32[OF assms]])
  have "internet_checksum h = 0 \<longleftrightarrow> unat (internet_checksum h) = 0" by (simp only: unat_eq_zero)
  also have "\<dots> \<longleftrightarrow> r = 65535" unfolding r(1) using r(2) by linarith
  also have "\<dots> \<longleftrightarrow> r \<noteq> 0 \<and> r mod 65535 = 0" using r(2) by (cases "r = 65535") auto
  also have "\<dots> \<longleftrightarrow> 0 < word_sum h \<and> 65535 dvd word_sum h" unfolding r(3,4) by (simp add: dvd_eq_mod_eq_0)
  finally show ?thesis .
qed

lemma word_sum_append: "even (length xs) \<Longrightarrow> word_sum (xs @ ys) = word_sum xs + word_sum ys"
  by (induction xs rule: word_sum.induct) auto

lemma be_bytes_2: "be_bytes 2 c = [ucast (drop_bit 8 c), ucast c]"
  by (simp add: numeral_2_eq_2)

lemma word_sum_be: "word_sum (be_bytes 2 c @ ys) = unat c + word_sum ys" for c :: u16
proof -
  have "unat (from_be_bytes (be_bytes 2 c) :: u16) = unat c"
    using from_be_bytes_be_bytes_take[of 2 c] take_bit_word_eq_self[of 16 c] by simp
  then show ?thesis by (simp add: be_bytes_2 unat_be2)
qed

text \<open>The checksum is one's-complement: over any buffer it is zero exactly when the sum of the
  16-bit words is a positive multiple of \<open>0xFFFF\<close> (RFC 1071).\<close>

theorem internet_checksum_zero_iff:
  assumes "length h < 2 ^ 17 - 1"
  shows "internet_checksum h = 0 \<longleftrightarrow> 0 < word_sum h \<and> 65535 dvd word_sum h"
  by (rule checksum_zero[OF assms])

theorem internet_checksum_zero_iff_witness:
  "internet_checksum [0xFF, 0xFF] = 0 \<longleftrightarrow> 0 < word_sum [0xFF, 0xFF] \<and> 65535 dvd word_sum [0xFF, 0xFF]"
  by (rule internet_checksum_zero_iff) simp

text \<open>Emit and verify: filling an aligned, zeroed checksum field with the checksum of the header
  makes the header verify.\<close>

theorem internet_checksum_roundtrip:
  assumes "even (length pre)" and "length (pre @ [0, 0] @ post) < 2 ^ 17 - 1"
  shows "internet_checksum (pre @ be_bytes 2 (internet_checksum (pre @ [0, 0] @ post)) @ post) = 0"
proof -
  let ?h = "pre @ [0, 0] @ post"
  let ?c = "internet_checksum ?h"
  obtain r where r: "unat ?c = 65535 - r" "r \<le> 65535" "r mod 65535 = word_sum ?h mod 65535"
      "r = 0 \<longleftrightarrow> word_sum ?h = 0" by (rule checksum_eq[OF word_sum_u32[OF assms(2)]])
  have s: "word_sum (pre @ be_bytes 2 ?c @ post) = word_sum ?h + unat ?c"
    using assms(1) by (simp add: word_sum_append word_sum_be)
  have "(word_sum ?h + unat ?c) mod 65535 = (r + unat ?c) mod 65535" using r(3) by (metis mod_add_left_eq)
  also have "r + unat ?c = 65535" unfolding r(1) using r(2) by simp
  finally have "65535 dvd word_sum (pre @ be_bytes 2 ?c @ post)" unfolding s dvd_eq_mod_eq_0 by simp
  moreover have "0 < word_sum (pre @ be_bytes 2 ?c @ post)"
    unfolding s r(1) using r(4) by (cases "word_sum ?h = 0") simp_all
  moreover have "length (pre @ be_bytes 2 ?c @ post) < 2 ^ 17 - 1" using assms(2) by simp
  ultimately show ?thesis by (intro checksum_zero[THEN iffD2] conjI)
qed

theorem internet_checksum_roundtrip_witness:
  "internet_checksum ([0x45, 0, 0, 20] @ be_bytes 2 (internet_checksum ([0x45, 0, 0, 20] @ [0, 0] @ [7])) @ [7]) = 0"
  by (rule internet_checksum_roundtrip) simp_all

lemma ipv4_frame:
  assumes "length bytes < 2 ^ 63"
  shows "(\<exists>fm. pg_parse ipv4 bytes ctx = Inr \<lparr>pl_header_len = n, pl_fields = fm, pl_hint = h\<rparr>) \<longleftrightarrow>
    20 \<le> length bytes \<and> drop_bit 4 (bytes ! 0) = 4 \<and> 5 \<le> unat (bytes ! 0 AND 0x0F) \<and>
    n = unat (bytes ! 0 AND 0x0F) * 4 \<and> n \<le> length bytes \<and>
    h = (if 0 < (be_at bytes 6 2 AND 0x1FFF :: u16) then Terminal else Route (IpProtocol (bytes ! 9)))"
  using slice_usize[OF assms]
  by (auto simp: ipv4_def ipv4_parse_def contract_simps fits_def ihl_header_len ihl_min)

text \<open>IPv4 framing: the parse succeeds exactly on version 4, IHL at least 5 and a header that fits; it
  claims \<open>IHL * 4\<close> bytes, and only an unfragmented packet or a first fragment routes on.\<close>

theorem ipv4_parse_iff:
  assumes "length bytes < 2 ^ 63"
  shows "(\<exists>fm. pg_parse ipv4 bytes ctx = Inr \<lparr>pl_header_len = n, pl_fields = fm, pl_hint = h\<rparr>) \<longleftrightarrow>
    20 \<le> length bytes \<and> drop_bit 4 (bytes ! 0) = 4 \<and> 5 \<le> unat (bytes ! 0 AND 0x0F) \<and>
    n = unat (bytes ! 0 AND 0x0F) * 4 \<and> n \<le> length bytes \<and>
    h = (if 0 < (be_at bytes 6 2 AND 0x1FFF :: u16) then Terminal else Route (IpProtocol (bytes ! 9)))"
  by (rule ipv4_frame[OF assms])

definition ipv4_example :: "byte list" where
  "ipv4_example = [0x45, 0, 0, 20, 0, 0, 0, 0, 64, 6, 0x66, 0xE2, 10, 0, 0, 1, 10, 0, 0, 2]"

theorem ipv4_parse_iff_witness:
  "\<exists>fm. pg_parse ipv4 ipv4_example (entry_ctx Full) =
     Inr \<lparr>pl_header_len = 20, pl_fields = fm, pl_hint = Route (IpProtocol 6)\<rparr>"
  using ipv4_parse_iff[of ipv4_example "entry_ctx Full" 20 "Route (IpProtocol 6)"]
  by (simp add: ipv4_example_def be_at_2 One_nat_def)

text \<open>The IPv4 probe is sound: whatever it claims parses, with the header inside the total length,
  the total length inside the bytes offered and a header that verifies; and it never scores above 90.\<close>

theorem ipv4_probe_sound:
  assumes "pg_probe ipv4 bytes ctx = Some c" and "length bytes < 2 ^ 63"
  shows "\<exists>pl. pg_parse ipv4 bytes ctx' = Inr pl \<and> pl_header_len pl \<le> unat (be_at bytes 2 2 :: u16) \<and>
    unat (be_at bytes 2 2 :: u16) \<le> length bytes \<and> internet_checksum (take (pl_header_len pl) bytes) = 0 \<and>
    confidence_get c = 90"
proof -
  let ?ihl = "unat (bytes ! 0 AND 0x0F)"
  from assms(1) have p: "drop_bit 4 (bytes ! 0) = 4" "5 \<le> ?ihl" "?ihl * 4 \<le> length bytes" "20 \<le> length bytes"
    and t: "?ihl * 4 \<le> unat (from_be_bytes [bytes ! 2, bytes ! 3] :: u16)"
      "unat (from_be_bytes [bytes ! 2, bytes ! 3] :: u16) \<le> length bytes"
    and c: "internet_checksum (take (?ihl * 4) bytes) = 0" "c = confidence_new 90"
    by (auto simp: ipv4_def default_plugin_def ipv4_probe_def elem_get_def slice_get_def Let_def word_less_nat_alt
        split: if_splits bind_splits)
  have "be_at bytes 2 2 = (from_be_bytes [bytes ! 2, bytes ! 3] :: u16)"
    using p(4) by (simp add: be_at_2 from_be_bytes_def)
  with ipv4_frame[OF assms(2), of ctx' "?ihl * 4", THEN iffD2] p t c show ?thesis by (auto simp del: One_nat_def)
qed

theorem ipv4_probe_sound_witness:
  "\<exists>pl. pg_parse ipv4 ipv4_example (entry_ctx Full) = Inr pl \<and> pl_header_len pl \<le> unat (be_at ipv4_example 2 2 :: u16) \<and>
    unat (be_at ipv4_example 2 2 :: u16) \<le> length ipv4_example \<and>
    internet_checksum (take (pl_header_len pl) ipv4_example) = 0 \<and> confidence_get (confidence_new 90) = 90"
proof (rule ipv4_probe_sound)
  have l: "length ipv4_example < 2 ^ 17 - 1" by (simp add: ipv4_example_def)
  have "word_sum ipv4_example = 65535" by (simp add: ipv4_example_def One_nat_def)
  then have "internet_checksum ipv4_example = 0" unfolding checksum_zero[OF l] by simp
  then show "pg_probe ipv4 ipv4_example (entry_ctx Full) = Some (confidence_new 90)"
    by (simp add: ipv4_def default_plugin_def ipv4_probe_def elem_get_def slice_get_def Let_def ipv4_example_def unat_be2 One_nat_def)
qed (simp add: ipv4_example_def)

text \<open>The IPv6 header with its extension chain: a successful parse claims 40 to 16424 bytes, a multiple
  of 8 inside the buffer, and never routes to an extension header.\<close>

theorem ipv6_parse_bounds:
  assumes "pg_parse ipv6 bytes ctx = Inr pl"
  shows "40 \<le> pl_header_len pl \<and> pl_header_len pl \<le> min (length bytes) 16424 \<and> 8 dvd pl_header_len pl \<and>
    (pl_hint pl = Terminal \<or> (\<exists>nh. pl_hint pl = Route (IpProtocol nh) \<and> \<not> is_ext_header nh))"
  using assms
  by (auto simp: ipv6_def ipv6_parse_def contract_simps MAX_EXT_HEADERS_def split: if_splits dest!: ext_walk_spec)

theorem ipv6_parse_bounds_witness:
  "\<exists>pl. pg_parse ipv6 ([0x60, 0, 0, 0, 0, 8, 43, 64] @ replicate 32 1 @ [6, 0] @ replicate 6 0) (entry_ctx Full) = Inr pl \<and>
    40 \<le> pl_header_len pl \<and> pl_header_len pl \<le> 16424 \<and> 8 dvd pl_header_len pl"
proof -
  let ?b = "[0x60, 0, 0, 0, 0, 8, 43, 64] @ replicate 32 1 @ [6, 0] @ replicate 6 (0 :: byte)"
  have "\<exists>pl. pg_parse ipv6 ?b (entry_ctx Full) = Inr pl"
    by (simp add: ipv6_def default_plugin_def ipv6_parse_def try_simps fits_def usize_max_def Let_def
        ext_walk.simps is_ext_header_def MAX_EXT_HEADERS_def be_at_def bytes_at_def from_be_bytes_def nth_append One_nat_def)
  then obtain pl where "pg_parse ipv6 ?b (entry_ctx Full) = Inr pl" by blast
  with ipv6_parse_bounds[OF this] show ?thesis by auto
qed

end
