(* ===== verification/Transport.thy ===== *)
theory Transport
  imports Reading
begin

text \<open>
  The transport plugins of \<open>pktflow-plugins/src\<close>: TCP with its session lifecycle (\<open>tcp.rs\<close>) and UDP
  (\<open>udp.rs\<close>). The lifecycle is a transition function on state names; the lemmas give its reachable
  states, show that closed sessions stay closed and that an established session needs the full
  handshake or a capture that began mid-session.
\<close>

section \<open>TCP\<close>

definition FIN :: u64 where "FIN = 0x01"
definition SYN :: u64 where "SYN = 0x02"
definition RST :: u64 where "RST = 0x04"
definition ACK_F :: u64 where "ACK_F = 0x10"

definition advance :: "field_map \<Rightarrow> state_name \<Rightarrow> packet_direction \<Rightarrow> state_name" where
  "advance fm state dir =
    (case fm_get fm ''flags'' of
       Some (U64 flags) \<Rightarrow>
        if flags AND RST \<noteq> 0 then ''reset''
        else let syn = (flags AND SYN \<noteq> 0); ack = (flags AND ACK_F \<noteq> 0); fin = (flags AND FIN \<noteq> 0) in
        if state = ''new'' \<and> syn \<and> \<not> ack then ''syn_sent''
        else if state = ''new'' \<and> \<not> syn then ''established_midstream''
        else if state = ''syn_sent'' \<and> syn \<and> ack then ''syn_received''
        else if state = ''syn_received'' \<and> ack \<and> \<not> syn \<and> \<not> fin then ''established''
        else if (state = ''established'' \<or> state = ''established_midstream'') \<and> fin then ''closing''
        else if state = ''closing'' \<and> fin \<and> ack then ''closed''
        else state
     | _ \<Rightarrow> state)"

definition tcp_lifecycle :: lifecycle_spec where
  "tcp_lifecycle = \<lparr>lc_initial = ''new'', lc_advance = advance, lc_closed_states = [''closed'', ''reset'']\<rparr>"

definition tcp_identity :: stream_identity where
  "tcp_identity = \<lparr>si_key = [\<lparr>kf_a = ''src_port'', kf_b = Some ''dst_port''\<rparr>],
     si_canonicalize = EndpointSort, si_lifecycle = Some tcp_lifecycle,
     si_rollups = [\<lparr>rs_field = ''flags'', rs_kind = Accumulate\<rparr>, \<lparr>rs_field = ''flags'', rs_kind = Series 1024\<rparr>]\<rparr>"

definition port_condense :: condense_spec where
  "port_condense = \<lparr>cs_ephemeral = \<lparr>kf_a = ''src_port'', kf_b = Some ''dst_port''\<rparr>\<rparr>"

definition tcp_parse :: "byte list \<Rightarrow> parse_ctx \<Rightarrow> parse_error + parsed_layer" where
  "tcp_parse bytes ctx =
    (let r = new_reader bytes in
     try_read (read_u16_be r) (\<lambda>src_port r.
     try_read (read_u16_be r) (\<lambda>dst_port r.
     try_read (read_u32_be r) (\<lambda>seq r.
     try_read (read_u32_be r) (\<lambda>ack r.
     try_read (read_u16_be r) (\<lambda>offset_flags r.
     let data_offset = ucast (drop_bit 12 offset_flags) :: u64 in
     if data_offset < 5 then Inl (Malformed ''data offset below 5'')
     else
     try_read (read_u16_be r) (\<lambda>window r.
     try_read (read_u16_be r) (\<lambda>checksum r.
     try_read (read_u16_be r) (\<lambda>urgent r.
     let header_len = unat (data_offset * 4) in
     try_read (take_bytes r (header_len - 20)) (\<lambda>options r.
     let d = ctx_depth ctx;
         fm = fm_new;
         fm = insert_at Keys d [(''src_port'', U64 (ucast src_port)), (''dst_port'', U64 (ucast dst_port))] fm;
         fm = insert_at Structural d
           [(''flags'', U64 (ucast (offset_flags AND 0x01FF))), (''seq'', U64 (ucast seq)), (''ack'', U64 (ucast ack)),
            (''window'', U64 (ucast window)), (''data_offset'', U64 data_offset)] fm;
         fm = insert_at Full d
           ([(''checksum'', U64 (ucast checksum)), (''urgent'', U64 (ucast urgent))] @
            (if options \<noteq> [] then [(''options'', Bytes options)] else [])) fm;
         hint = (if length bytes = header_len then Terminal
                 else Candidates [TcpPort dst_port, TcpPort src_port])
     in Inr \<lparr>pl_header_len = header_len, pl_fields = fm, pl_hint = hint\<rparr>))))))))))"

definition tcp_probe :: "byte list \<Rightarrow> parse_ctx \<Rightarrow> confidence option" where
  "tcp_probe bytes ctx =
    (if length bytes < 20 then None
     else
     Option.bind (elem_get bytes 12) (\<lambda>hi. Option.bind (elem_get bytes 13) (\<lambda>lo.
     let offset_flags = from_be_bytes [hi, lo] :: u16;
         data_offset = unat (drop_bit 12 offset_flags) in
     if \<not> (5 \<le> data_offset \<and> data_offset \<le> 15) \<or> length bytes < data_offset * 4 then None
     else if offset_flags AND 0x0F00 \<noteq> 0 then None
     else
     let f = ucast (offset_flags AND 0xFF) :: u64;
         syn = (f AND SYN \<noteq> 0); rst = (f AND RST \<noteq> 0); fin = (f AND FIN \<noteq> 0) in
     if f = 0 \<or> (syn \<and> fin) \<or> (syn \<and> rst) \<or> (fin \<and> rst) then None
     else
     Option.bind (elem_get bytes 18) (\<lambda>uhi. Option.bind (elem_get bytes 19) (\<lambda>ulo.
     let urgent = from_be_bytes [uhi, ulo] :: u16 in
     if urgent \<noteq> 0 \<and> f AND 0x20 = 0 then None
     else Some (confidence_new 60))))))"

definition tcp :: plugin where
  "tcp = (default_plugin ''tcp'' tcp_parse)
     \<lparr>pg_claims := [IpProtocol 6], pg_expected_predecessors := [''ipv4'', ''ipv6''], pg_has_probe := True,
      pg_probe := tcp_probe, pg_stream_identity := Some tcp_identity, pg_condense := Some port_condense\<rparr>"

section \<open>UDP\<close>

definition udp_identity :: stream_identity where
  "udp_identity = \<lparr>si_key = [\<lparr>kf_a = ''src_port'', kf_b = Some ''dst_port''\<rparr>],
     si_canonicalize = EndpointSort, si_lifecycle = None,
     si_rollups = [\<lparr>rs_field = ''length'', rs_kind = Sample\<rparr>]\<rparr>"

definition udp_parse :: "byte list \<Rightarrow> parse_ctx \<Rightarrow> parse_error + parsed_layer" where
  "udp_parse bytes ctx =
    (let r = new_reader bytes in
     try_read (read_u16_be r) (\<lambda>src_port r.
     try_read (read_u16_be r) (\<lambda>dst_port r.
     try_read (read_u16_be r) (\<lambda>len r.
     try_read (read_u16_be r) (\<lambda>checksum r.
     let d = ctx_depth ctx;
         fm = fm_new;
         fm = insert_at Keys d [(''src_port'', U64 (ucast src_port)), (''dst_port'', U64 (ucast dst_port))] fm;
         fm = insert_at Structural d [(''length'', U64 (ucast len))] fm;
         fm = insert_at Full d [(''checksum'', U64 (ucast checksum))] fm
     in Inr \<lparr>pl_header_len = 8, pl_fields = fm, pl_hint = Candidates [UdpPort dst_port, UdpPort src_port]\<rparr>)))))"

definition udp :: plugin where
  "udp = (default_plugin ''udp'' udp_parse)
     \<lparr>pg_claims := [IpProtocol 17], pg_stream_identity := Some udp_identity, pg_condense := Some port_condense\<rparr>"

section \<open>The contract\<close>

lemma tcp_offset_less: "unat (drop_bit 12 (x :: u16)) < 16"
  using less_mult_imp_div_less[of "unat x" 16 4096] by (simp add: unat_high)

lemma tcp_header_len: "unat ((ucast (drop_bit 12 x) :: u64) * 4) = unat (drop_bit 12 x) * 4" for x :: u16
  using tcp_offset_less[of x] by (simp add: unat_word_ariths unat_widen)

lemma tcp_offset_min: "\<not> (ucast (drop_bit 12 x) :: u64) < 5 \<longleftrightarrow> 5 \<le> unat (drop_bit 12 x)" for x :: u16
  by (simp add: word_less_nat_alt unat_widen not_less)

interpretation tcp: layer_plugin tcp
  by unfold_locales
    (auto simp: tcp_def tcp_parse_def tcp_identity_def contract_simps fm_new_def tcp_header_len tcp_offset_min)

interpretation udp: layer_plugin udp
  by unfold_locales (auto simp: udp_def udp_parse_def udp_identity_def contract_simps fm_new_def)

section \<open>The session lifecycle as a state machine\<close>

text \<open>The states a session reaches over the field maps of its packets, in either direction.\<close>

inductive session :: "field_map list \<Rightarrow> state_name \<Rightarrow> bool" where
  start: "session [] (lc_initial tcp_lifecycle)"
| step: "session fms s \<Longrightarrow> session (fms @ [fm]) (advance fm s d)"

definition flags_of :: "field_map \<Rightarrow> u64 option" where
  "flags_of fm = (case fm_get fm ''flags'' of Some (U64 f) \<Rightarrow> Some f | _ \<Rightarrow> None)"

definition has_flag :: "field_map \<Rightarrow> u64 \<Rightarrow> bool" where
  "has_flag fm b \<longleftrightarrow> (\<exists>f. flags_of fm = Some f \<and> f AND b \<noteq> 0)"

definition tcp_states :: "state_name set" where
  "tcp_states = {''new'', ''syn_sent'', ''syn_received'', ''established'', ''established_midstream'', ''closing'',
     ''closed'', ''reset''}"

lemma advance_cases:
  "advance fm s d =
    (case flags_of fm of None \<Rightarrow> s
     | Some f \<Rightarrow> if has_flag fm RST then ''reset''
        else if s = ''new'' \<and> has_flag fm SYN \<and> \<not> has_flag fm ACK_F then ''syn_sent''
        else if s = ''new'' \<and> \<not> has_flag fm SYN then ''established_midstream''
        else if s = ''syn_sent'' \<and> has_flag fm SYN \<and> has_flag fm ACK_F then ''syn_received''
        else if s = ''syn_received'' \<and> has_flag fm ACK_F \<and> \<not> has_flag fm SYN \<and> \<not> has_flag fm FIN then ''established''
        else if (s = ''established'' \<or> s = ''established_midstream'') \<and> has_flag fm FIN then ''closing''
        else if s = ''closing'' \<and> has_flag fm FIN \<and> has_flag fm ACK_F then ''closed'' else s)"
  by (simp add: advance_def flags_of_def has_flag_def Let_def split: option.split value_t.split)

lemma session_states: "session fms s \<Longrightarrow> s \<in> tcp_states"
  by (induction rule: session.induct)
    (auto simp: tcp_states_def tcp_lifecycle_def advance_cases split: option.split)

lemma subseq_snoc: "subseq xs ys \<Longrightarrow> subseq (xs @ [z]) (ys @ [z])"
  by (rule list_emb_append_mono) simp_all

lemma subseq_more: "subseq xs ys \<Longrightarrow> subseq xs (ys @ [z])"
  by (rule subseq_order.trans[of _ ys]) (simp_all add: subseq_rev_drop_many)

text \<open>The packets that the handshake needs, in their order.\<close>

definition is_syn :: "field_map \<Rightarrow> bool" where
  "is_syn fm \<longleftrightarrow> has_flag fm SYN \<and> \<not> has_flag fm ACK_F"

definition is_syn_ack :: "field_map \<Rightarrow> bool" where
  "is_syn_ack fm \<longleftrightarrow> has_flag fm SYN \<and> has_flag fm ACK_F"

definition is_ack :: "field_map \<Rightarrow> bool" where
  "is_ack fm \<longleftrightarrow> has_flag fm ACK_F \<and> \<not> has_flag fm SYN \<and> \<not> has_flag fm FIN"

lemma session_handshake:
  assumes "session fms s"
  shows "(s = ''syn_sent'' \<longrightarrow> (\<exists>x. subseq [x] fms \<and> is_syn x)) \<and>
    (s = ''syn_received'' \<longrightarrow> (\<exists>x y. subseq [x, y] fms \<and> is_syn x \<and> is_syn_ack y)) \<and>
    (s = ''established'' \<longrightarrow> (\<exists>x y z. subseq [x, y, z] fms \<and> is_syn x \<and> is_syn_ack y \<and> is_ack z))"
  using assms
proof (induction rule: session.induct)
  case start
  then show ?case by (simp add: tcp_lifecycle_def)
next
  case (step fms s fm d)
  have one: "subseq [fm] (fms @ [fm])" using subseq_snoc[of "[]" fms fm] by simp
  have two: "subseq [x, fm] (fms @ [fm])" if "subseq [x] fms" for x using subseq_snoc[OF that] by simp
  have three: "subseq [x, y, fm] (fms @ [fm])" if "subseq [x, y] fms" for x y using subseq_snoc[OF that] by simp
  have keep: "subseq xs fms \<Longrightarrow> subseq xs (fms @ [fm])" for xs by (rule subseq_more)
  show ?case
  proof (intro conjI impI)
    assume "advance fm s d = ''syn_sent''"
    then have "s = ''syn_sent'' \<or> is_syn fm" by (auto simp: advance_cases is_syn_def split: option.splits if_splits)
    with step.IH one keep show "\<exists>x. subseq [x] (fms @ [fm]) \<and> is_syn x" by blast
  next
    assume "advance fm s d = ''syn_received''"
    then have "s = ''syn_received'' \<or> s = ''syn_sent'' \<and> is_syn_ack fm"
      by (auto simp: advance_cases is_syn_ack_def split: option.splits if_splits)
    with step.IH two keep show "\<exists>x y. subseq [x, y] (fms @ [fm]) \<and> is_syn x \<and> is_syn_ack y" by blast
  next
    assume "advance fm s d = ''established''"
    then have "s = ''established'' \<or> s = ''syn_received'' \<and> is_ack fm"
      by (auto simp: advance_cases is_ack_def split: option.splits if_splits)
    with step.IH three keep
    show "\<exists>x y z. subseq [x, y, z] (fms @ [fm]) \<and> is_syn x \<and> is_syn_ack y \<and> is_ack z" by blast
  qed
qed

section \<open>Properties\<close>

text \<open>C29. No established session without its handshake: a session in state \<open>established\<close> has seen, in this
  order, a SYN, a SYN with ACK and an ACK without SYN or FIN (a capture that begins mid-session is in the
  separate state \<open>established_midstream\<close>).\<close>

theorem tcp_established_needs_handshake:
  assumes "session fms ''established''"
  shows "\<exists>x y z. subseq [x, y, z] fms \<and> is_syn x \<and> is_syn_ack y \<and> is_ack z"
  using session_handshake[OF assms] by simp

definition flag_packet :: "u64 \<Rightarrow> field_map" where
  "flag_packet f = [(''flags'', U64 f)]"

lemma handshake_session: "session [flag_packet 2, flag_packet 0x12, flag_packet 0x10] ''established''"
proof -
  have f: "flags_of (flag_packet f) = Some f" for f by (simp add: flags_of_def flag_packet_def)
  have 1: "session [flag_packet 2] (advance (flag_packet 2) ''new'' AtoB)"
    using session.step[OF session.start, of "flag_packet 2" AtoB] by (simp add: tcp_lifecycle_def)
  have "advance (flag_packet 2) ''new'' AtoB = ''syn_sent''" "advance (flag_packet 0x12) ''syn_sent'' BtoA = ''syn_received''"
    "advance (flag_packet 0x10) ''syn_received'' AtoB = ''established''"
    by (simp_all add: advance_cases f has_flag_def SYN_def RST_def ACK_F_def FIN_def)
  with session.step[OF session.step[OF 1, of "flag_packet 0x12" BtoA], of "flag_packet 0x10" AtoB] show ?thesis by simp
qed

theorem tcp_established_needs_handshake_witness:
  "\<exists>x y z. subseq [x, y, z] [flag_packet 2, flag_packet 0x12, flag_packet 0x10] \<and> is_syn x \<and> is_syn_ack y \<and> is_ack z"
  by (rule tcp_established_needs_handshake[OF handshake_session])

text \<open>The lifecycle is total over its states and closing is final: every session is in one of the
  eight states, and from a closed state every further packet leads to a closed state; only an RST moves
  \<open>closed\<close> to \<open>reset\<close>.\<close>

theorem tcp_closed_absorbing:
  assumes "session fms s"
  shows "s \<in> tcp_states \<and> (s \<in> set (lc_closed_states tcp_lifecycle) \<longrightarrow>
    advance fm s d \<in> set (lc_closed_states tcp_lifecycle) \<and> (advance fm s d \<noteq> s \<longrightarrow> has_flag fm RST))"
  using session_states[OF assms] by (auto simp: tcp_lifecycle_def advance_cases split: option.split)

lemma reset_session: "session [flag_packet 4] ''reset''"
proof -
  have "advance (flag_packet 4) ''new'' AtoB = ''reset''"
    by (simp add: advance_cases has_flag_def flags_of_def flag_packet_def RST_def)
  with session.step[OF session.start, of "flag_packet 4" AtoB] show ?thesis by (simp add: tcp_lifecycle_def)
qed

theorem tcp_closed_absorbing_witness: "advance (flag_packet 2) ''reset'' AtoB \<in> {''closed'', ''reset''}"
  using tcp_closed_absorbing[OF reset_session, of "flag_packet 2" AtoB] by (simp add: tcp_lifecycle_def)

lemma tcp_frame:
  assumes "length bytes < 2 ^ 63"
  shows "(\<exists>fm. pg_parse tcp bytes ctx = Inr \<lparr>pl_header_len = n, pl_fields = fm, pl_hint = h\<rparr>) \<longleftrightarrow>
    20 \<le> length bytes \<and> 5 \<le> unat (drop_bit 12 (be_at bytes 12 2 :: u16)) \<and>
    n = unat (drop_bit 12 (be_at bytes 12 2 :: u16)) * 4 \<and> n \<le> length bytes \<and>
    h = (if length bytes = n then Terminal else Candidates [TcpPort (be_at bytes 2 2), TcpPort (be_at bytes 0 2)])"
  using slice_usize[OF assms]
  by (auto simp: tcp_def tcp_parse_def contract_simps fits_def tcp_header_len tcp_offset_min)

text \<open>TCP framing: the parse succeeds exactly when the data offset is at least 5 words and the header
  fits; a bare header is terminal, a payload is offered to the destination port first.\<close>

theorem tcp_parse_iff:
  assumes "length bytes < 2 ^ 63"
  shows "(\<exists>fm. pg_parse tcp bytes ctx = Inr \<lparr>pl_header_len = n, pl_fields = fm, pl_hint = h\<rparr>) \<longleftrightarrow>
    20 \<le> length bytes \<and> 5 \<le> unat (drop_bit 12 (be_at bytes 12 2 :: u16)) \<and>
    n = unat (drop_bit 12 (be_at bytes 12 2 :: u16)) * 4 \<and> n \<le> length bytes \<and>
    h = (if length bytes = n then Terminal else Candidates [TcpPort (be_at bytes 2 2), TcpPort (be_at bytes 0 2)])"
  by (rule tcp_frame[OF assms])

definition tcp_example :: "byte list" where
  "tcp_example = [0, 80, 1, 0, 0, 0, 0, 1, 0, 0, 0, 0, 0x50, 2, 0, 0, 0, 0, 0, 0]"

theorem tcp_parse_iff_witness:
  "\<exists>fm. pg_parse tcp tcp_example (entry_ctx Full) = Inr \<lparr>pl_header_len = 20, pl_fields = fm, pl_hint = Terminal\<rparr>"
  using tcp_parse_iff[of tcp_example "entry_ctx Full" 20 Terminal]
  by (simp add: tcp_example_def be_at_2 One_nat_def)

text \<open>The TCP probe is sound: whatever it claims parses, and carries at most one of SYN, FIN and RST.\<close>

theorem tcp_probe_sound:
  assumes "pg_probe tcp bytes ctx = Some c" and "length bytes < 2 ^ 63"
  shows "(\<exists>pl. pg_parse tcp bytes ctx' = Inr pl) \<and> confidence_get c = 60 \<and>
    (let f = ucast (be_at bytes 12 2 AND 0xFF :: u16) in
      f \<noteq> 0 \<and> \<not> (f AND SYN \<noteq> 0 \<and> f AND FIN \<noteq> 0) \<and> \<not> (f AND SYN \<noteq> 0 \<and> f AND RST \<noteq> 0) \<and>
      \<not> (f AND FIN \<noteq> 0 \<and> f AND RST \<noteq> 0))"
proof -
  let ?w = "from_be_bytes [bytes ! 12, bytes ! 13] :: u16"
  from assms(1) have p: "20 \<le> length bytes" "5 \<le> unat (drop_bit 12 ?w)" "unat (drop_bit 12 ?w) * 4 \<le> length bytes"
    and c: "c = confidence_new 60"
    and f: "let f = ucast (?w AND 0xFF) in f \<noteq> 0 \<and> \<not> (f AND SYN \<noteq> 0 \<and> f AND FIN \<noteq> 0) \<and>
      \<not> (f AND SYN \<noteq> 0 \<and> f AND RST \<noteq> 0) \<and> \<not> (f AND FIN \<noteq> 0 \<and> f AND RST \<noteq> 0)"
    by (auto simp: tcp_def default_plugin_def tcp_probe_def elem_get_def Let_def split: if_splits bind_splits)
  have w: "be_at bytes 12 2 = ?w" using p(1) by (simp add: be_at_2 from_be_bytes_def)
  from p tcp_frame[OF assms(2), of ctx' "unat (drop_bit 12 ?w) * 4", THEN iffD2] have "\<exists>pl. pg_parse tcp bytes ctx' = Inr pl"
    unfolding w by blast
  with c f show ?thesis by (simp add: w)
qed

theorem tcp_probe_sound_witness:
  "(\<exists>pl. pg_parse tcp tcp_example (entry_ctx Full) = Inr pl) \<and> confidence_get (confidence_new 60) = 60"
proof -
  have "from_be_bytes [0x50, 2] = (0x5002 :: u16)" by (simp add: from_be_bytes_def One_nat_def)
  then have p: "pg_probe tcp tcp_example (entry_ctx Full) = Some (confidence_new 60)"
    by (simp add: tcp_def default_plugin_def tcp_probe_def elem_get_def tcp_example_def Let_def SYN_def FIN_def RST_def
        from_be_bytes_def[of "[0, 0]"] One_nat_def)
  show ?thesis using tcp_probe_sound[OF p, of "entry_ctx Full"] by (simp add: tcp_example_def)
qed

end
