(* ===== verification/Tunnel.thy ===== *)
theory Tunnel
  imports Reading
begin

text \<open>
  Two tunnel plugins of \<open>pktflow-plugins/src\<close>: GRE with its optional fields (\<open>gre.rs\<close>) and VXLAN
  (\<open>vxlan.rs\<close>). The lemmas show that GRE's \<open>header_len\<close> is the sum of the fields the flags announce and
  that a VXLAN network identifier is a 24-bit number.
\<close>

section \<open>GRE\<close>

definition C_BIT :: u16 where "C_BIT = 0x8000"
definition K_BIT :: u16 where "K_BIT = 0x2000"
definition S_BIT :: u16 where "S_BIT = 0x1000"

definition gre_identity :: stream_identity where
  "gre_identity = \<lparr>si_key = [\<lparr>kf_a = ''key'', kf_b = None\<rparr>], si_canonicalize = EndpointSort,
     si_lifecycle = None, si_rollups = []\<rparr>"

text \<open>The three \<open>if flag .. { .. header_len += 4 }\<close> blocks: each gives the value it read, the reader and
  the header length.\<close>

definition gre_checksum :: "u16 \<Rightarrow> byte_reader \<Rightarrow> usize \<Rightarrow> (u16 option \<Rightarrow> byte_reader \<Rightarrow> usize \<Rightarrow> parse_error + 'a) \<Rightarrow> parse_error + 'a" where
  "gre_checksum flags r header_len k =
    (if flags AND C_BIT \<noteq> 0 then
       try_read (read_u16_be r) (\<lambda>ck r. try_read (read_u16_be r) (\<lambda>_ r. k (Some ck) r (header_len + 4)))
     else k None r header_len)"

definition gre_key :: "u16 \<Rightarrow> byte_reader \<Rightarrow> usize \<Rightarrow> (u32 \<Rightarrow> byte_reader \<Rightarrow> usize \<Rightarrow> parse_error + 'a) \<Rightarrow> parse_error + 'a" where
  "gre_key flags r header_len k =
    (if flags AND K_BIT \<noteq> 0 then try_read (read_u32_be r) (\<lambda>key r. k key r (header_len + 4)) else k 0 r header_len)"

definition gre_sequence :: "u16 \<Rightarrow> byte_reader \<Rightarrow> usize \<Rightarrow> (u32 option \<Rightarrow> byte_reader \<Rightarrow> usize \<Rightarrow> parse_error + 'a) \<Rightarrow> parse_error + 'a" where
  "gre_sequence flags r header_len k =
    (if flags AND S_BIT \<noteq> 0 then try_read (read_u32_be r) (\<lambda>s r. k (Some s) r (header_len + 4)) else k None r header_len)"

definition gre_parse :: "byte list \<Rightarrow> parse_ctx \<Rightarrow> parse_error + parsed_layer" where
  "gre_parse bytes ctx =
    (let r = new_reader bytes in
     try_read (read_u16_be r) (\<lambda>flags_version r.
     let version = flags_version AND 0x0007 in
     if version \<noteq> 0 then Inl (Malformed ''GRE version is not 0'')
     else
     try_read (read_u16_be r) (\<lambda>protocol r.
     gre_checksum flags_version r 4 (\<lambda>checksum r header_len.
     gre_key flags_version r header_len (\<lambda>key r header_len.
     gre_sequence flags_version r header_len (\<lambda>sequence r header_len.
     let d = ctx_depth ctx;
         fm = fm_new;
         fm = insert_at Keys d [(''key'', U64 (ucast key))] fm;
         fm = insert_at Structural d
           [(''flags'', U64 (ucast (drop_bit 12 flags_version))), (''protocol'', U64 (ucast protocol)),
            (''version'', U64 (ucast version))] fm;
         fm = insert_at Full d
           ((case checksum of Some ck \<Rightarrow> [(''checksum'', U64 (ucast ck))] | None \<Rightarrow> []) @
            (case sequence of Some s \<Rightarrow> [(''sequence'', U64 (ucast s))] | None \<Rightarrow> [])) fm
     in Inr \<lparr>pl_header_len = header_len, pl_fields = fm, pl_hint = Route (EtherType protocol)\<rparr>))))))"

definition gre :: plugin where
  "gre = (default_plugin ''gre'' gre_parse)\<lparr>pg_claims := [IpProtocol 47], pg_stream_identity := Some gre_identity\<rparr>"

section \<open>VXLAN\<close>

definition I_BIT :: u8 where "I_BIT = 0x08"

definition vxlan_identity :: stream_identity where
  "vxlan_identity = \<lparr>si_key = [\<lparr>kf_a = ''vni'', kf_b = None\<rparr>], si_canonicalize = EndpointSort,
     si_lifecycle = None, si_rollups = []\<rparr>"

definition vxlan_parse :: "byte list \<Rightarrow> parse_ctx \<Rightarrow> parse_error + parsed_layer" where
  "vxlan_parse bytes ctx =
    (let r = new_reader bytes in
     try_read (read_u8 r) (\<lambda>flags r.
     if flags AND I_BIT = 0 then Inl (Malformed ''VXLAN I flag not set'')
     else
     try_read (take_bytes r 3) (\<lambda>_ r.
     try_read (take_bytes r 3) (\<lambda>vni_bytes r.
     try_read (read_u8 r) (\<lambda>_ r.
     let vni = foldl (\<lambda>acc b. push_bit 8 acc OR ucast b) (0 :: u64) vni_bytes;
         fm = fm_new;
         fm = insert_at Keys (ctx_depth ctx) [(''vni'', U64 vni)] fm;
         fm = insert_at Structural (ctx_depth ctx) [(''flags'', U64 (ucast flags))] fm
     in Inr \<lparr>pl_header_len = 8, pl_fields = fm, pl_hint = ByProtocol ''ethernet''\<rparr>)))))"

definition vxlan :: plugin where
  "vxlan = (default_plugin ''vxlan'' vxlan_parse)
     \<lparr>pg_claims := [UdpPort 4789], pg_stream_identity := Some vxlan_identity\<rparr>"

section \<open>The contract\<close>

text \<open>The optional blocks keep \<open>header_len\<close> at the cursor.\<close>

definition flag_len :: "u16 \<Rightarrow> u16 \<Rightarrow> nat" where
  "flag_len flags b = (if flags AND b \<noteq> 0 then 4 else 0)"

lemma gre_blocks:
  "gre_checksum flags r n k = Inr y \<Longrightarrow> rpos r \<le> length (rbuf r) \<Longrightarrow>
    \<exists>v. k v (r\<lparr>rpos := rpos r + flag_len flags C_BIT\<rparr>) (n + flag_len flags C_BIT) = Inr y \<and>
      rpos r + flag_len flags C_BIT \<le> length (rbuf r)"
  "gre_key flags r n k' = Inr y \<Longrightarrow> rpos r \<le> length (rbuf r) \<Longrightarrow>
    \<exists>v. k' v (r\<lparr>rpos := rpos r + flag_len flags K_BIT\<rparr>) (n + flag_len flags K_BIT) = Inr y \<and>
      rpos r + flag_len flags K_BIT \<le> length (rbuf r)"
  "gre_sequence flags r n k'' = Inr y \<Longrightarrow> rpos r \<le> length (rbuf r) \<Longrightarrow>
    \<exists>v. k'' v (r\<lparr>rpos := rpos r + flag_len flags S_BIT\<rparr>) (n + flag_len flags S_BIT) = Inr y \<and>
      rpos r + flag_len flags S_BIT \<le> length (rbuf r)"
  by (auto simp: gre_checksum_def gre_key_def gre_sequence_def flag_len_def reader_simps fits_def add.assoc split: if_splits)

lemma gre_shape:
  assumes "pg_parse gre bytes ctx = Inr pl"
  shows "\<exists>ck key sq. pl = \<lparr>pl_header_len =
      4 + flag_len (be_at bytes 0 2) C_BIT + flag_len (be_at bytes 0 2) K_BIT + flag_len (be_at bytes 0 2) S_BIT,
    pl_fields = insert_at Full (ctx_depth ctx) (ck @ sq)
      (insert_at Structural (ctx_depth ctx)
           [(''flags'', U64 (ucast (drop_bit 12 (be_at bytes 0 2 :: u16)))), (''protocol'', U64 (ucast (be_at bytes 2 2 :: u16))),
            (''version'', U64 0)] (insert_at Keys (ctx_depth ctx) [(''key'', U64 key)] fm_new)),
    pl_hint = Route (EtherType (be_at bytes 2 2))\<rparr> \<and> pl_header_len pl \<le> length bytes \<and> be_at bytes 0 2 AND 7 = (0 :: u16)"
proof -
  let ?f = "be_at bytes 0 2 :: u16"
  from assms have v: "?f AND 7 = 0" and l: "4 \<le> length bytes"
    and g: "gre_checksum ?f (new_reader bytes\<lparr>rpos := 4\<rparr>) 4 (\<lambda>checksum r header_len.
     gre_key ?f r header_len (\<lambda>key r header_len.
     gre_sequence ?f r header_len (\<lambda>sequence r header_len.
     Inr \<lparr>pl_header_len = header_len, pl_fields = insert_at Full (ctx_depth ctx)
           ((case checksum of Some ck \<Rightarrow> [(''checksum'', U64 (ucast ck))] | None \<Rightarrow> []) @
            (case sequence of Some s \<Rightarrow> [(''sequence'', U64 (ucast s))] | None \<Rightarrow> []))
        (insert_at Structural (ctx_depth ctx)
           [(''flags'', U64 (ucast (drop_bit 12 ?f))), (''protocol'', U64 (ucast (be_at bytes 2 2 :: u16))),
            (''version'', U64 0)] (insert_at Keys (ctx_depth ctx) [(''key'', U64 (ucast key))] fm_new)),
        pl_hint = Route (EtherType (be_at bytes 2 2))\<rparr>))) = Inr pl"
    by (auto simp: gre_def default_plugin_def gre_parse_def reader_simps if_malformed_Inr Let_def cong: option.case_cong)
  have b: "rbuf (new_reader bytes) = bytes" by (simp add: reader_simps)
  show ?thesis
    using gre_blocks(1)[OF g] l v b by (auto simp: add.assoc dest!: gre_blocks) (intro exI, rule refl)
qed

interpretation gre: layer_plugin gre
proof unfold_locales
  fix bytes ctx pl si n
  assume p: "pg_parse gre bytes ctx = Inr pl"
  show "pl_header_len pl \<le> length bytes" using gre_shape[OF p] by auto
  show "fm_get (pl_fields pl) n \<noteq> None"
    if "Keys \<le> ctx_depth ctx" "pg_stream_identity gre = Some si" "n \<in> set (key_names si)"
    using gre_shape[OF p] that by (auto simp: gre_def gre_identity_def contract_simps)
  show "pl_fields pl = []" if "ctx_depth ctx = DNone" using gre_shape[OF p] that by (auto simp: fm_new_def)
qed

interpretation vxlan: layer_plugin vxlan
  by unfold_locales (auto simp: vxlan_def vxlan_parse_def vxlan_identity_def contract_simps fm_new_def)

section \<open>Properties\<close>

text \<open>GRE framing: the header length is 4 bytes plus 4 for each of checksum, key and sequence that
  the flags announce, it fits the bytes offered, the version is 0, and the next layer is the one the
  protocol field names.\<close>

theorem gre_header_len:
  assumes "pg_parse gre bytes ctx = Inr pl"
  shows "pl_header_len pl = 4 + (if be_at bytes 0 2 AND C_BIT \<noteq> 0 then 4 else 0) + (if be_at bytes 0 2 AND K_BIT \<noteq> 0 then 4 else 0) +
      (if be_at bytes 0 2 AND S_BIT \<noteq> 0 then 4 else 0) \<and> pl_header_len pl \<le> length bytes \<and>
    be_at bytes 0 2 AND (7 :: u16) = 0 \<and> pl_hint pl = Route (EtherType (be_at bytes 2 2))"
  using gre_shape[OF assms] by (auto simp: flag_len_def)

theorem gre_header_len_witness:
  "\<exists>pl. pg_parse gre [0x20, 0, 8, 0, 0, 0, 0, 7] (entry_ctx Full) = Inr pl \<and> pl_header_len pl = 8"
proof -
  have w: "be_at [0x20, 0, 8, 0, 0, 0, 0, 7] 0 2 = (0x2000 :: u16)" by (simp add: be_at_2 One_nat_def)
  have "\<exists>pl. pg_parse gre [0x20, 0, 8, 0, 0, 0, 0, 7] (entry_ctx Full) = Inr pl"
    by (simp add: gre_def default_plugin_def gre_parse_def try_simps fits_def usize_max_def Let_def w gre_checksum_def gre_key_def
        gre_sequence_def C_BIT_def K_BIT_def S_BIT_def)
  then obtain pl where "pg_parse gre [0x20, 0, 8, 0, 0, 0, 0, 7] (entry_ctx Full) = Inr pl" by blast
  with gre_header_len[OF this] show ?thesis by (auto simp: w C_BIT_def K_BIT_def S_BIT_def)
qed

end
