(* ===== verification/Walking.thy ===== *)
theory Walking
  imports Reading
begin

text \<open>
  What the protocol theories with loops and optional fields share: recursion through a read (the
  cursor only moves forward, so a loop that reads terminates), reads whose failure is an absent value,
  optional fields, and text decoding. The rules for \<open>gives\<close> prove a postcondition of a parse along its
  reads.
\<close>

section \<open>Recursion through reads\<close>

lemma try_read_cong [fundef_cong]:
  assumes "x = x'" "\<And>v r. x' = Inr (v, r) \<Longrightarrow> k v r = k' v r"
  shows "try_read x k = try_read x' k'"
  using assms by (cases x') (auto simp: try_read_def)

lemma and_then_cong [fundef_cong]: "x = x' \<Longrightarrow> (\<And>v. x' = Inr v \<Longrightarrow> k v = k' v) \<Longrightarrow> and_then x k = and_then x' k'"
  by (cases x') simp_all

lemma take_shrink: "take_bytes r n = Inr (v, r') \<Longrightarrow> remaining r' = remaining r - n \<and> n \<le> remaining r"
  by (auto simp: reader_simps fits_def remaining_def)

lemma read_shrink:
  "read_u8 r = Inr (b8, r') \<Longrightarrow> remaining r' < remaining r"
  "read_u16_be r = Inr (b16, r') \<Longrightarrow> remaining r' < remaining r"
  "read_u32_be r = Inr (b32, r') \<Longrightarrow> remaining r' < remaining r"
  "read_u64_be r = Inr (b64, r') \<Longrightarrow> remaining r' < remaining r"
  by (auto simp: reader_simps fits_def remaining_def)

lemma read_le_Inr [reader_simps]:
  "read_u16_le r = Inr y16 \<longleftrightarrow> fits r 2 \<and> y16 = (from_le_bytes (bytes_at (rbuf r) (rpos r) 2), r\<lparr>rpos := rpos r + 2\<rparr>)"
  "read_u32_le r = Inr y32 \<longleftrightarrow> fits r 4 \<and> y32 = (from_le_bytes (bytes_at (rbuf r) (rpos r) 4), r\<lparr>rpos := rpos r + 4\<rparr>)"
  "read_u64_le r = Inr y64 \<longleftrightarrow> fits r 8 \<and> y64 = (from_le_bytes (bytes_at (rbuf r) (rpos r) 8), r\<lparr>rpos := rpos r + 8\<rparr>)"
  by (auto simp: read_defs map_read_Inr_pair take_Inr)

lemma read_le:
  "read_u8 r = Inr (b8, r') \<Longrightarrow> remaining r' \<le> remaining r"
  "read_u16_be r = Inr (b16, r') \<Longrightarrow> remaining r' \<le> remaining r"
  "read_u32_be r = Inr (b32, r') \<Longrightarrow> remaining r' \<le> remaining r"
  "take_bytes r n = Inr (v, r') \<Longrightarrow> remaining r' \<le> remaining r"
  using read_shrink take_shrink[of r n v r'] by (simp_all add: less_imp_le)

text \<open>\<open>bytes.len() - r.remaining()\<close>.\<close>

definition consumed :: "byte list \<Rightarrow> byte_reader \<Rightarrow> usize" where
  "consumed bytes r = length bytes - remaining r"

lemma consumed_le [simp]: "consumed bytes r \<le> length bytes"
  by (simp add: consumed_def)

text \<open>\<open>read.ok()?\<close> in a function that returns an option.\<close>

definition ok_read :: "truncated + 'v \<times> byte_reader \<Rightarrow> ('v \<Rightarrow> byte_reader \<Rightarrow> 'b option) \<Rightarrow> 'b option" where
  "ok_read x k = (case x of Inl _ \<Rightarrow> None | Inr (v, r) \<Rightarrow> k v r)"

lemma ok_read_cong [fundef_cong]:
  assumes "x = x'" "\<And>v r. x' = Inr (v, r) \<Longrightarrow> k v r = k' v r"
  shows "ok_read x k = ok_read x' k'"
  using assms by (cases x') (auto simp: ok_read_def)

lemma ok_read_Some: "ok_read x k = Some y \<longleftrightarrow> (\<exists>v r. x = Inr (v, r) \<and> k v r = Some y)"
  by (cases x) (auto simp: ok_read_def)

text \<open>\<open>read.map_err(|_| Malformed(..))?\<close>.\<close>

definition read_or :: "string \<Rightarrow> truncated + 'v \<times> byte_reader \<Rightarrow> ('v \<Rightarrow> byte_reader \<Rightarrow> parse_error + 'b) \<Rightarrow> parse_error + 'b" where
  "read_or msg x k = (case x of Inl _ \<Rightarrow> Inl (Malformed msg) | Inr (v, r) \<Rightarrow> k v r)"

lemma read_or_cong [fundef_cong]:
  assumes "msg = msg'" "x = x'" "\<And>v r. x' = Inr (v, r) \<Longrightarrow> k v r = k' v r"
  shows "read_or msg x k = read_or msg' x' k'"
  using assms by (cases x') (auto simp: read_or_def)

lemma read_or_Inr [reader_simps]: "read_or msg x k = Inr y \<longleftrightarrow> (\<exists>v r. x = Inr (v, r) \<and> k v r = Inr y)"
  by (cases x) (auto simp: read_or_def)

text \<open>\<open>for _ in 0..n { out.push(read?) }\<close>.\<close>

fun read_times :: "nat \<Rightarrow> (byte_reader \<Rightarrow> truncated + 'v \<times> byte_reader) \<Rightarrow> byte_reader \<Rightarrow> parse_error + 'v list \<times> byte_reader" where
  "read_times 0 f r = Inr ([], r)"
| "read_times (Suc n) f r = try_read (f r) (\<lambda>v r. and_then (read_times n f r) (\<lambda>(vs, r). Inr (v # vs, r)))"

text \<open>Reads of a fixed size: their repetition advances the cursor by the product.\<close>

lemma read_times_advance:
  assumes "\<And>r v r'. f r = Inr (v, r') \<Longrightarrow> rbuf r' = rbuf r \<and> rpos r' = rpos r + k \<and> rpos r' \<le> length (rbuf r)"
  shows "read_times n f r = Inr (vs, r') \<Longrightarrow> rpos r \<le> length (rbuf r) \<Longrightarrow>
    length vs = n \<and> rbuf r' = rbuf r \<and> rpos r' = rpos r + n * k \<and> rpos r' \<le> length (rbuf r)"
proof (induction n arbitrary: r vs)
  case (Suc n)
  then show ?case by (fastforce simp: try_read_Inr and_then_Inr_iff dest!: assms)
qed simp

lemma read_times_u32:
  "read_times n read_u32_be r = Inr (vs, r') \<Longrightarrow> rpos r \<le> length (rbuf r) \<Longrightarrow>
    length vs = n \<and> rbuf r' = rbuf r \<and> rpos r' = rpos r + n * 4 \<and> rpos r' \<le> length (rbuf r)"
  by (rule read_times_advance) (auto simp: reader_simps fits_def)

section \<open>Fields and text\<close>

text \<open>\<open>if let Some(v) = .. { fields.insert(name, ..) }\<close>.\<close>

definition opt_field :: "field_name \<Rightarrow> value_t option \<Rightarrow> (field_name \<times> value_t) list" where
  "opt_field name v = (case v of Some x \<Rightarrow> [(name, x)] | None \<Rightarrow> [])"

lemma opt_field_simps [simp]: "opt_field name None = []" "opt_field name (Some x) = [(name, x)]"
  by (simp_all add: opt_field_def)

text \<open>A stream identity keyed by single fields, as most protocols declare it.\<close>

definition keyed :: "field_name list \<Rightarrow> rollup_spec list \<Rightarrow> stream_identity" where
  "keyed names rollups = \<lparr>si_key = map (\<lambda>n. \<lparr>kf_a = n, kf_b = None\<rparr>) names, si_canonicalize = EndpointSort,
     si_lifecycle = None, si_rollups = rollups\<rparr>"

lemma key_names_keyed [simp]: "key_names (keyed ns rs) = ns"
  by (induction ns) (simp_all add: keyed_def key_names_def)

text \<open>One keyed by a pair of endpoint fields.\<close>

definition paired :: "field_name \<Rightarrow> field_name \<Rightarrow> rollup_spec list \<Rightarrow> stream_identity" where
  "paired a b rollups = \<lparr>si_key = [\<lparr>kf_a = a, kf_b = Some b\<rparr>], si_canonicalize = EndpointSort,
     si_lifecycle = None, si_rollups = rollups\<rparr>"

lemma key_names_paired [simp]: "key_names (paired a b rs) = [a, b]"
  by (simp add: paired_def key_names_def)

abbreviation rolled :: "field_name \<Rightarrow> rollup_kind \<Rightarrow> rollup_spec" where
  "rolled n k \<equiv> \<lparr>rs_field = n, rs_kind = k\<rparr>"

definition is_ascii_graphic :: "byte \<Rightarrow> bool" where
  "is_ascii_graphic b \<longleftrightarrow> 0x21 \<le> b \<and> b \<le> 0x7E"

definition char_from :: "byte \<Rightarrow> char" where
  "char_from b = char_of (unat b)"

definition decode_text :: "byte list \<Rightarrow> string" where
  "decode_text bytes = map (\<lambda>b. if is_ascii_graphic b \<or> b = 0x20 then char_from b else CHR ''?'') bytes"

section \<open>Postconditions along the reads\<close>

definition gives :: "('b \<Rightarrow> bool) \<Rightarrow> 'e + 'b \<Rightarrow> bool" where
  "gives P x \<longleftrightarrow> (\<forall>y. x = Inr y \<longrightarrow> P y)"

lemma givesD: "gives P x \<Longrightarrow> x = Inr y \<Longrightarrow> P y"
  by (simp add: gives_def)

lemma gives_Inl [simp]: "gives P (Inl e)"
  by (simp add: gives_def)

lemma gives_Inr [simp]: "gives P (Inr y) \<longleftrightarrow> P y"
  by (simp add: gives_def)

lemma gives_try: "(\<And>v r. x = Inr (v, r) \<Longrightarrow> gives P (k v r)) \<Longrightarrow> gives P (try_read x k)"
  by (auto simp: gives_def try_read_Inr)

lemma gives_then: "(\<And>v. x = Inr v \<Longrightarrow> gives P (k v)) \<Longrightarrow> gives P (and_then x k)"
  by (auto simp: gives_def and_then_Inr_iff)

lemma gives_read_or: "(\<And>v r. x = Inr (v, r) \<Longrightarrow> gives P (k v r)) \<Longrightarrow> gives P (read_or msg x k)"
  by (auto simp: gives_def read_or_Inr)

lemma gives_if: "(b \<Longrightarrow> gives P x) \<Longrightarrow> (\<not> b \<Longrightarrow> gives P y) \<Longrightarrow> gives P (if b then x else y)"
  by simp

lemma gives_let: "(\<And>v. v = e \<Longrightarrow> gives P (f v)) \<Longrightarrow> gives P (let v = e in f v)"
  by (simp add: Let_def)

lemma gives_pair: "(\<And>a b. v = (a, b) \<Longrightarrow> gives P (f a b)) \<Longrightarrow> gives P (case v of (a, b) \<Rightarrow> f a b)"
  by (cases v) simp

lemma gives_option: "(v = None \<Longrightarrow> gives P x) \<Longrightarrow> (\<And>a. v = Some a \<Longrightarrow> gives P (f a)) \<Longrightarrow>
    gives P (case v of None \<Rightarrow> x | Some a \<Rightarrow> f a)"
  by (cases v) simp_all

lemmas gives_intros = gives_try gives_read_or gives_then gives_if gives_let gives_pair gives_option

text \<open>What the contract asks of a result.\<close>

definition meets :: "byte list \<Rightarrow> depth \<Rightarrow> field_name list \<Rightarrow> parsed_layer \<Rightarrow> bool" where
  "meets bytes d keys pl \<longleftrightarrow> pl_header_len pl \<le> length bytes \<and>
     (Keys \<le> d \<longrightarrow> set keys \<subseteq> set (fm_names (pl_fields pl))) \<and> (d = DNone \<longrightarrow> pl_fields pl = [])"

definition identity_keys :: "plugin \<Rightarrow> field_name list" where
  "identity_keys p = (case pg_stream_identity p of Some si \<Rightarrow> key_names si | None \<Rightarrow> [])"

lemma layer_pluginI:
  assumes "\<And>bytes ctx. gives (meets bytes (ctx_depth ctx) (identity_keys p)) (pg_parse p bytes ctx)"
  shows "layer_plugin p"
proof
  fix bytes ctx pl si n
  assume p: "pg_parse p bytes ctx = Inr pl"
  note m = givesD[OF assms p]
  show "pl_header_len pl \<le> length bytes" using m by (simp add: meets_def)
  show "fm_get (pl_fields pl) n \<noteq> None" if "Keys \<le> ctx_depth ctx" "pg_stream_identity p = Some si" "n \<in> set (key_names si)"
    using m that by (auto simp: meets_def identity_keys_def fm_get_None_iff)
  show "pl_fields pl = []" if "ctx_depth ctx = DNone" using m that by (simp add: meets_def)
qed

lemma framed_pluginI:
  assumes "\<And>bytes ctx. gives (meets bytes (ctx_depth ctx) []) (pg_parse p bytes ctx)"
  shows "framed_plugin p"
proof
  fix bytes ctx pl
  assume p: "pg_parse p bytes ctx = Inr pl"
  show "pl_header_len pl \<le> length bytes" "ctx_depth ctx = DNone \<Longrightarrow> pl_fields pl = []"
    using givesD[OF assms p] by (simp_all add: meets_def)
qed

lemmas meets_simps = meets_def fm_names_insert_at fm_new_def fm_names_def

lemma identity_keys_default [simp]: "identity_keys (default_plugin n p\<lparr>pg_stream_identity := s\<rparr>) = (case s of Some si \<Rightarrow> key_names si | None \<Rightarrow> [])"
  by (simp add: identity_keys_def)

text \<open>What a contract proof unfolds besides the protocol's own definitions.\<close>

lemmas plugin_simps = identity_keys_def default_plugin_def meets_def fm_names_insert_at reader_simps

section \<open>Reading back what was written\<close>

text \<open>The bytes ahead of a cursor. Round trips of the encodings follow from what a read does to them.\<close>

definition ahead :: "byte_reader \<Rightarrow> byte list \<Rightarrow> bool" where
  "ahead r bs \<longleftrightarrow> drop (rpos r) (rbuf r) = bs \<and> rpos r \<le> length (rbuf r) \<and> length (rbuf r) < 2 ^ 63"

lemma ahead_new: "length bs < 2 ^ 63 \<Longrightarrow> ahead (new_reader bs) bs"
  by (simp add: ahead_def new_reader_sel)

lemma ahead_remaining: "ahead r bs \<Longrightarrow> remaining r = length bs"
  by (auto simp: ahead_def remaining_def)

lemma ahead_take:
  assumes "ahead r (ds @ bs)"
  obtains r' where "take_bytes r (length ds) = Inr (ds, r')" "ahead r' bs"
proof
  have d: "drop (rpos r) (rbuf r) = ds @ bs" "rpos r \<le> length (rbuf r)" "length (rbuf r) < 2 ^ 63"
    using assms by (simp_all add: ahead_def)
  have l: "rpos r + length ds \<le> length (rbuf r)" using arg_cong[OF d(1), of length] d(2) by simp
  show "take_bytes r (length ds) = Inr (ds, r\<lparr>rpos := rpos r + length ds\<rparr>)"
    using l d by (simp add: take_Inr fits_def usize_max_def bytes_at_def)
  show "ahead (r\<lparr>rpos := rpos r + length ds\<rparr>) bs"
    using d l drop_drop[of "length ds" "rpos r" "rbuf r"] by (simp add: ahead_def add.commute)
qed

lemma ahead_u8:
  assumes "ahead r (b # bs)"
  obtains r' where "read_u8 r = Inr (b, r')" "ahead r' bs"
proof -
  obtain r' where r: "take_bytes r 1 = Inr ([b], r')" "ahead r' bs"
    using ahead_take[of r "[b]" bs] assms by (auto simp: One_nat_def)
  then have "read_u8 r = Inr (b, r')" by (simp add: read_defs map_read_def)
  then show ?thesis using that r(2) by blast
qed

lemma ahead_u16:
  assumes "ahead r (be_bytes 2 w @ bs)"
  obtains r' where "read_u16_be r = Inr (w, r')" "ahead r' bs"
proof -
  obtain r' where r: "take_bytes r 2 = Inr (be_bytes 2 w, r')" "ahead r' bs"
    using ahead_take[of r "be_bytes 2 w" bs] assms by auto
  have "read_u16_be r = Inr (w, r')"
    using r(1) from_be_bytes_be_bytes_take[of 2 w] by (simp add: read_defs map_read_def take_bit_word_eq_self)
  then show ?thesis using that r(2) by blast
qed

end
