(* ===== verification/Lan.thy ===== *)
theory Lan
  imports Walking
begin

text \<open>
  Local-network plugins of \<open>pktflow-plugins/src\<close>: LLC/SNAP (\<open>llc.rs\<close>), spanning tree (\<open>stp.rs\<close>,
  \<open>pvst_plus.rs\<close>), link aggregation (\<open>lacp.rs\<close>), discovery (\<open>lldp.rs\<close>, \<open>cdp.rs\<close>), 802.1X
  (\<open>eapol.rs\<close>), MPLS label stacks (\<open>mpls.rs\<close>) and PPP over Ethernet (\<open>pppoe.rs\<close>, \<open>ppp.rs\<close>).
\<close>

section \<open>LLC\<close>

definition SNAP_SAP :: u8 where "SNAP_SAP = 0xAA"

definition WELL_KNOWN_SAPS :: "u8 list" where "WELL_KNOWN_SAPS = [0x42, 0xAA, 0xE0, 0xF0]"

definition is_ieee_bridge_group :: "byte list \<Rightarrow> bool" where
  "is_ieee_bridge_group mac \<longleftrightarrow> length mac = 6 \<and> take 5 mac = [0x01, 0x80, 0xC2, 0x00, 0x00] \<and> mac ! 5 \<le> 0x0F"

definition is_cisco_multicast :: "byte list \<Rightarrow> bool" where
  "is_cisco_multicast mac \<longleftrightarrow> length mac = 6 \<and> take 5 mac = [0x01, 0x00, 0x0C, 0xCC, 0xCC] \<and> (mac ! 5 = 0xCC \<or> mac ! 5 = 0xCD)"

definition llc_control :: "byte_reader \<Rightarrow> u8 \<Rightarrow> (u64 \<Rightarrow> byte_reader \<Rightarrow> parse_error + 'a) \<Rightarrow> parse_error + 'a" where
  "llc_control r control_first k =
    (if control_first AND 0x03 = 0x03 then k (ucast control_first) r
     else try_read (read_u8 r) (\<lambda>control_second r. k (ucast (from_be_bytes [control_first, control_second] :: u16)) r))"

definition llc_snap :: "byte_reader \<Rightarrow> u8 \<Rightarrow> u8 \<Rightarrow> (u32 option \<Rightarrow> u16 option \<Rightarrow> byte_reader \<Rightarrow> parse_error + 'a) \<Rightarrow> parse_error + 'a" where
  "llc_snap r dsap ssap k =
    (if dsap = SNAP_SAP \<and> ssap = SNAP_SAP then
       try_read (take_bytes r 3) (\<lambda>b r.
       try_read (read_u16_be r) (\<lambda>pid r.
         k (Some (push_bit 16 (ucast (b ! 0)) OR push_bit 8 (ucast (b ! 1)) OR ucast (b ! 2))) (Some pid) r))
     else k None None r)"

definition llc_hint :: "u8 \<Rightarrow> u32 option \<Rightarrow> u16 option \<Rightarrow> hint" where
  "llc_hint dsap oui pid =
    (case (oui, pid) of
       (Some o', Some p) \<Rightarrow> if o' = 0 then Route (EtherType p) else Route (Custom ''snap_pid'' (push_bit 16 (ucast o') OR ucast p))
     | _ \<Rightarrow> Route (Custom ''llc_dsap'' (ucast dsap)))"

definition llc_parse :: "byte list \<Rightarrow> parse_ctx \<Rightarrow> parse_error + parsed_layer" where
  "llc_parse bytes ctx =
    (let r = new_reader bytes in
     try_read (read_u8 r) (\<lambda>dsap r.
     try_read (read_u8 r) (\<lambda>ssap r.
     try_read (read_u8 r) (\<lambda>control_first r.
     llc_control r control_first (\<lambda>control r.
     llc_snap r dsap ssap (\<lambda>oui pid r.
     let fm = fm_new;
         fm = insert_at Structural (ctx_depth ctx)
           [(''dsap'', U64 (ucast dsap)), (''ssap'', U64 (ucast ssap)), (''control'', U64 control)] fm;
         fm = insert_at Full (ctx_depth ctx)
           (opt_field ''oui'' (map_option (\<lambda>x. U64 (ucast x)) oui) @ opt_field ''pid'' (map_option (\<lambda>x. U64 (ucast x)) pid)) fm
     in Inr \<lparr>pl_header_len = consumed bytes r, pl_fields = fm, pl_hint = llc_hint dsap oui pid\<rparr>))))))"

definition llc_probe :: "byte list \<Rightarrow> parse_ctx \<Rightarrow> confidence option" where
  "llc_probe bytes ctx =
    (case bytes of
       dsap # ssap # control_first # _ \<Rightarrow>
        (let base_saps = dsap \<in> set WELL_KNOWN_SAPS \<and> ssap \<in> set WELL_KNOWN_SAPS;
             control_ok = control_first AND 0x03 = 0x03 \<or> 4 \<le> length bytes;
             boosted = (case ctx_field ctx ''ethernet'' ''dst_mac'' of
                 Some (Bytes mac) \<Rightarrow> is_ieee_bridge_group mac \<or> is_cisco_multicast mac
               | _ \<Rightarrow> False)
         in if boosted then Some (confidence_new 90)
            else if base_saps \<and> control_ok then Some (confidence_new 55) else None)
     | _ \<Rightarrow> None)"

definition llc :: plugin where
  "llc = (default_plugin ''llc'' llc_parse)
     \<lparr>pg_claims := [Custom ''eth_llc_frame'' 0], pg_expected_predecessors := [''ethernet'', ''dot11''],
      pg_has_probe := True, pg_probe := llc_probe\<rparr>"

section \<open>Spanning tree\<close>

definition TCN_BPDU_TYPE :: u8 where "TCN_BPDU_TYPE = 0x80"

record config_fields =
  cb_flags :: u8
  cb_root_id :: "byte list"
  cb_root_path_cost :: u32
  cb_bridge_id :: "byte list"
  cb_port_id :: u16
  cb_message_age :: u16
  cb_max_age :: u16
  cb_hello_time :: u16
  cb_forward_delay :: u16

record bpdu =
  bp_protocol_id :: u16
  bp_version :: u8
  bp_type :: u8
  bp_config :: "config_fields option"

definition bpdu_config :: "byte_reader \<Rightarrow> u8 \<Rightarrow> parse_error + config_fields \<times> byte_reader" where
  "bpdu_config r version =
    try_read (read_u8 r) (\<lambda>flags r.
    try_read (take_bytes r 8) (\<lambda>root_id r.
    try_read (read_u32_be r) (\<lambda>root_path_cost r.
    try_read (take_bytes r 8) (\<lambda>bridge_id r.
    try_read (read_u16_be r) (\<lambda>port_id r.
    try_read (read_u16_be r) (\<lambda>message_age r.
    try_read (read_u16_be r) (\<lambda>max_age r.
    try_read (read_u16_be r) (\<lambda>hello_time r.
    try_read (read_u16_be r) (\<lambda>forward_delay r.
    let c = \<lparr>cb_flags = flags, cb_root_id = root_id, cb_root_path_cost = root_path_cost, cb_bridge_id = bridge_id,
      cb_port_id = port_id, cb_message_age = message_age, cb_max_age = max_age, cb_hello_time = hello_time,
      cb_forward_delay = forward_delay\<rparr>
    in if 2 \<le> version then try_read (read_u8 r) (\<lambda>_ r. Inr (c, r)) else Inr (c, r))))))))))"

definition parse_bpdu :: "byte list \<Rightarrow> parse_error + bpdu \<times> usize" where
  "parse_bpdu bytes =
    (let r = new_reader bytes in
     try_read (read_u16_be r) (\<lambda>protocol_id r.
     if protocol_id \<noteq> 0 then Inl (Malformed ''STP: unrecognized protocol identifier'')
     else
     try_read (read_u8 r) (\<lambda>version r.
     try_read (read_u8 r) (\<lambda>bpdu_type r.
     let b = \<lparr>bp_protocol_id = protocol_id, bp_version = version, bp_type = bpdu_type, bp_config = None\<rparr> in
     if bpdu_type \<noteq> TCN_BPDU_TYPE then
       and_then (bpdu_config r version) (\<lambda>(c, r). Inr (b\<lparr>bp_config := Some c\<rparr>, consumed bytes r))
     else Inr (b, consumed bytes r)))))"

definition insert_bpdu_fields :: "depth \<Rightarrow> bpdu \<Rightarrow> field_map \<Rightarrow> field_map" where
  "insert_bpdu_fields d b fm =
    (let fm = insert_at Structural d
           ([(''protocol_id'', U64 (ucast (bp_protocol_id b))), (''version'', U64 (ucast (bp_version b))),
             (''bpdu_type'', U64 (ucast (bp_type b)))] @
            (case bp_config b of
               Some c \<Rightarrow> [(''flags'', U64 (ucast (cb_flags c))), (''root_id'', Bytes (cb_root_id c)),
                 (''bridge_id'', Bytes (cb_bridge_id c))]
             | None \<Rightarrow> [])) fm
     in insert_at Full d
          (case bp_config b of
             Some c \<Rightarrow> [(''root_path_cost'', U64 (ucast (cb_root_path_cost c))), (''port_id'', U64 (ucast (cb_port_id c))),
               (''message_age'', U64 (ucast (cb_message_age c))), (''max_age'', U64 (ucast (cb_max_age c))),
               (''hello_time'', U64 (ucast (cb_hello_time c))), (''forward_delay'', U64 (ucast (cb_forward_delay c)))]
           | None \<Rightarrow> []) fm)"

definition stp_parse :: "byte list \<Rightarrow> parse_ctx \<Rightarrow> parse_error + parsed_layer" where
  "stp_parse bytes ctx =
    and_then (parse_bpdu bytes) (\<lambda>(b, used).
      Inr \<lparr>pl_header_len = used, pl_fields = insert_bpdu_fields (ctx_depth ctx) b fm_new, pl_hint = Terminal\<rparr>)"

definition stp :: plugin where
  "stp = (default_plugin ''stp'' stp_parse)\<lparr>pg_claims := [Custom ''llc_dsap'' 0x42]\<rparr>"

definition OUI_CISCO :: u64 where "OUI_CISCO = 0x00000C"
definition PID_PVST_PLUS :: u64 where "PID_PVST_PLUS = 0x010B"

definition pvst_plus_parse :: "byte list \<Rightarrow> parse_ctx \<Rightarrow> parse_error + parsed_layer" where
  "pvst_plus_parse bytes ctx =
    and_then (parse_bpdu bytes) (\<lambda>(b, used).
    let r = new_reader (drop used bytes) in
    try_read (read_u16_be r) (\<lambda>tlv_type r.
    try_read (read_u16_be r) (\<lambda>tlv_len r.
    if tlv_type \<noteq> 0 \<or> tlv_len \<noteq> 2 then Inl (Malformed ''PVST+: unrecognized originating-VLAN TLV'')
    else
    try_read (read_u16_be r) (\<lambda>originating_vlan r.
    let fm = insert_bpdu_fields (ctx_depth ctx) b fm_new;
        fm = insert_at Full (ctx_depth ctx) [(''originating_vlan'', U64 (ucast originating_vlan))] fm
    in Inr \<lparr>pl_header_len = used + 6, pl_fields = fm, pl_hint = Terminal\<rparr>))))"

definition pvst_plus :: plugin where
  "pvst_plus = (default_plugin ''pvst_plus'' pvst_plus_parse)
     \<lparr>pg_claims := [Custom ''snap_pid'' (push_bit 16 OUI_CISCO OR PID_PVST_PLUS)]\<rparr>"

section \<open>LACP\<close>

definition ACTOR_PARTNER_TLV_LEN :: u8 where "ACTOR_PARTNER_TLV_LEN = 0x14"
definition COLLECTOR_TLV_LEN :: u8 where "COLLECTOR_TLV_LEN = 0x10"
definition RESERVED_TRAILER_LEN :: usize where "RESERVED_TRAILER_LEN = 50"

definition lacp_identity :: stream_identity where
  "lacp_identity = \<lparr>si_key = [\<lparr>kf_a = ''actor_system'', kf_b = Some ''partner_system''\<rparr>], si_canonicalize = EndpointSort,
     si_lifecycle = None, si_rollups = [\<lparr>rs_field = ''actor_state'', rs_kind = Accumulate\<rparr>]\<rparr>"

definition read_endpoint_tlv :: "byte_reader \<Rightarrow> u8 \<Rightarrow> parse_error + (byte list \<times> u16 \<times> u16 \<times> u8) \<times> byte_reader" where
  "read_endpoint_tlv r expected_type =
    try_read (read_u8 r) (\<lambda>tlv_type r.
    if tlv_type \<noteq> expected_type then Inl (Malformed ''LACP: Actor/Partner TLV out of order'')
    else
    try_read (read_u8 r) (\<lambda>tlv_len r.
    if tlv_len \<noteq> ACTOR_PARTNER_TLV_LEN then Inl (Malformed ''LACP: unexpected Actor/Partner TLV length'')
    else
    try_read (read_u16_be r) (\<lambda>_ r.
    try_read (take_bytes r 6) (\<lambda>system r.
    try_read (read_u16_be r) (\<lambda>key r.
    try_read (read_u16_be r) (\<lambda>_ r.
    try_read (read_u16_be r) (\<lambda>port r.
    try_read (read_u8 r) (\<lambda>state r.
    try_read (take_bytes r 3) (\<lambda>_ r. Inr ((system, key, port, state), r))))))))))"

definition lacp_parse :: "byte list \<Rightarrow> parse_ctx \<Rightarrow> parse_error + parsed_layer" where
  "lacp_parse bytes ctx =
    (let r = new_reader bytes in
     try_read (read_u8 r) (\<lambda>subtype r.
     if subtype \<noteq> 0x01 then Inl (Malformed ''LACP: not the LACP Slow Protocols subtype'')
     else
     try_read (read_u8 r) (\<lambda>_ r.
     and_then (read_endpoint_tlv r 0x01) (\<lambda>((actor_system, actor_key, actor_port, actor_state), r).
     and_then (read_endpoint_tlv r 0x02) (\<lambda>((partner_system, partner_key, partner_port, partner_state), r).
     try_read (read_u8 r) (\<lambda>tlv_type r.
     if tlv_type \<noteq> 0x03 then Inl (Malformed ''LACP: Collector TLV out of order'')
     else
     try_read (read_u8 r) (\<lambda>tlv_len r.
     if tlv_len \<noteq> COLLECTOR_TLV_LEN then Inl (Malformed ''LACP: unexpected Collector TLV length'')
     else
     try_read (take_bytes r (unat COLLECTOR_TLV_LEN - 2)) (\<lambda>_ r.
     try_read (read_u8 r) (\<lambda>terminator_type r.
     try_read (read_u8 r) (\<lambda>terminator_len r.
     if terminator_type \<noteq> 0x00 \<or> terminator_len \<noteq> 0 then Inl (Malformed ''LACP: missing Terminator TLV'')
     else
     try_read (take_bytes r RESERVED_TRAILER_LEN) (\<lambda>_ r.
     let fm = fm_new;
         fm = insert_at Keys (ctx_depth ctx) [(''actor_system'', Bytes actor_system), (''partner_system'', Bytes partner_system)] fm;
         fm = insert_at Structural (ctx_depth ctx)
           [(''actor_key'', U64 (ucast actor_key)), (''actor_port'', U64 (ucast actor_port)), (''actor_state'', U64 (ucast actor_state)),
            (''partner_key'', U64 (ucast partner_key)), (''partner_port'', U64 (ucast partner_port)),
            (''partner_state'', U64 (ucast partner_state))] fm
     in Inr \<lparr>pl_header_len = consumed bytes r, pl_fields = fm, pl_hint = Terminal\<rparr>)))))))))))"

definition lacp :: plugin where
  "lacp = (default_plugin ''lacp'' lacp_parse)\<lparr>pg_claims := [EtherType 0x8809], pg_stream_identity := Some lacp_identity\<rparr>"

section \<open>LLDP\<close>

definition read_tlv :: "byte_reader \<Rightarrow> parse_error + (u8 \<times> byte list) \<times> byte_reader" where
  "read_tlv r =
    try_read (read_u16_be r) (\<lambda>header r.
    try_read (take_bytes r (unat (header AND 0x01FF))) (\<lambda>v r. Inr ((ucast (drop_bit 9 header), v), r)))"

record lldp_tlvs =
  ld_system_name :: "string option"
  ld_system_description :: "string option"
  ld_management_address :: "value_t option"
  ld_capabilities :: "u64 option"

definition lldp_record :: "u8 \<Rightarrow> byte list \<Rightarrow> lldp_tlvs \<Rightarrow> lldp_tlvs" where
  "lldp_record t v l =
    (if t = 5 \<and> ld_system_name l = None then l\<lparr>ld_system_name := Some (decode_text v)\<rparr>
     else if t = 6 \<and> ld_system_description l = None then l\<lparr>ld_system_description := Some (decode_text v)\<rparr>
     else if t = 7 \<and> ld_capabilities l = None \<and> length v = 4 then
       l\<lparr>ld_capabilities := Some (ucast (from_be_bytes [v ! 2, v ! 3] :: u16))\<rparr>
     else if t = 8 \<and> ld_management_address l = None then l\<lparr>ld_management_address := Some (Bytes v)\<rparr>
     else l)"

lemma read_tlv_shrink: "read_tlv r = Inr (tv, r') \<Longrightarrow> remaining r' < remaining r"
  unfolding read_tlv_def by (auto simp: try_read_Inr dest!: read_shrink take_shrink)

function lldp_walk :: "byte_reader \<Rightarrow> lldp_tlvs \<Rightarrow> parse_error + lldp_tlvs \<times> byte_reader" where
  "lldp_walk r l = and_then (read_tlv r) (\<lambda>x. if fst (fst x) = 0 then Inr (l, snd x) else lldp_walk (snd x) (lldp_record (fst (fst x)) (snd (fst x)) l))"
  by pat_completeness auto
termination by (relation "measure (\<lambda>(r, l). remaining r)") (auto dest: read_tlv_shrink)

declare lldp_walk.simps [simp del]

definition lldp_parse :: "byte list \<Rightarrow> parse_ctx \<Rightarrow> parse_error + parsed_layer" where
  "lldp_parse bytes ctx =
    (let r = new_reader bytes in
     and_then (read_tlv r) (\<lambda>((t, chassis), r).
     if t \<noteq> 1 \<or> chassis = [] then Inl (Malformed ''LLDP: expected Chassis ID TLV'')
     else
     and_then (read_tlv r) (\<lambda>((t, port), r).
     if t \<noteq> 2 \<or> port = [] then Inl (Malformed ''LLDP: expected Port ID TLV'')
     else
     and_then (read_tlv r) (\<lambda>((t, ttl_bytes), r).
     if t \<noteq> 3 \<or> length ttl_bytes \<noteq> 2 then Inl (Malformed ''LLDP: expected 2-byte TTL TLV'')
     else
     and_then (lldp_walk r \<lparr>ld_system_name = None, ld_system_description = None, ld_management_address = None, ld_capabilities = None\<rparr>) (\<lambda>(l, r).
     let ttl = from_be_bytes [ttl_bytes ! 0, ttl_bytes ! 1] :: u16;
         fm = fm_new;
         fm = insert_at Structural (ctx_depth ctx)
           [(''chassis_id_subtype'', U64 (ucast (chassis ! 0))), (''chassis_id'', Bytes (drop 1 chassis)),
            (''port_id_subtype'', U64 (ucast (port ! 0))), (''port_id'', Bytes (drop 1 port)), (''ttl'', U64 (ucast ttl))] fm;
         fm = insert_at Full (ctx_depth ctx)
           (opt_field ''system_name'' (map_option Str (ld_system_name l)) @
            opt_field ''system_description'' (map_option Str (ld_system_description l)) @
            opt_field ''management_address'' (ld_management_address l) @ opt_field ''capabilities'' (map_option U64 (ld_capabilities l))) fm
     in Inr \<lparr>pl_header_len = consumed bytes r, pl_fields = fm, pl_hint = Terminal\<rparr>)))))"

definition lldp :: plugin where
  "lldp = (default_plugin ''lldp'' lldp_parse)\<lparr>pg_claims := [EtherType 0x88CC]\<rparr>"

section \<open>CDP\<close>

definition PID_CDP :: u64 where "PID_CDP = 0x2000"

definition first_address :: "byte list \<Rightarrow> byte list option" where
  "first_address v =
    (let r = new_reader v in
     ok_read (read_u32_be r) (\<lambda>n r.
     if n = 0 then None
     else
     ok_read (read_u8 r) (\<lambda>protocol_length r.
     ok_read (read_u8 r) (\<lambda>_ r.
     ok_read (take_bytes r (unat protocol_length)) (\<lambda>_ r.
     ok_read (read_u16_be r) (\<lambda>address_length r.
     ok_read (take_bytes r (unat address_length)) (\<lambda>a r. Some a)))))))"

record cdp_tlvs =
  cd_device_id :: "string option"
  cd_port_id :: "string option"
  cd_platform :: "string option"
  cd_capabilities :: "u32 option"
  cd_native_vlan :: "u16 option"
  cd_ip_address :: "byte list option"

definition cdp_none :: cdp_tlvs where
  "cdp_none = \<lparr>cd_device_id = None, cd_port_id = None, cd_platform = None, cd_capabilities = None, cd_native_vlan = None,
     cd_ip_address = None\<rparr>"

definition cdp_record :: "u16 \<Rightarrow> byte list \<Rightarrow> cdp_tlvs \<Rightarrow> cdp_tlvs" where
  "cdp_record t v c =
    (if t = 0x0001 then c\<lparr>cd_device_id := Some (decode_text v)\<rparr>
     else if t = 0x0003 then c\<lparr>cd_port_id := Some (decode_text v)\<rparr>
     else if t = 0x0006 then c\<lparr>cd_platform := Some (decode_text v)\<rparr>
     else if t = 0x0004 \<and> length v = 4 then c\<lparr>cd_capabilities := Some (from_be_bytes [v ! 0, v ! 1, v ! 2, v ! 3])\<rparr>
     else if t = 0x000A \<and> length v = 2 then c\<lparr>cd_native_vlan := Some (from_be_bytes [v ! 0, v ! 1])\<rparr>
     else if t = 0x0002 then (case first_address v of Some a \<Rightarrow> c\<lparr>cd_ip_address := Some a\<rparr> | None \<Rightarrow> c)
     else c)"

definition cdp_full_fields :: "cdp_tlvs \<Rightarrow> (field_name \<times> value_t) list" where
  "cdp_full_fields c =
    opt_field ''device_id'' (map_option Str (cd_device_id c)) @ opt_field ''port_id'' (map_option Str (cd_port_id c)) @
    opt_field ''platform'' (map_option Str (cd_platform c)) @
    opt_field ''capabilities'' (map_option (\<lambda>x. U64 (ucast x)) (cd_capabilities c)) @
    opt_field ''native_vlan'' (map_option (\<lambda>x. U64 (ucast x)) (cd_native_vlan c)) @
    opt_field ''ip_address'' (map_option Bytes (cd_ip_address c))"

text \<open>The TLV loop: it gives the TLVs and the header length after it.\<close>

function cdp_walk :: "byte list \<Rightarrow> byte_reader \<Rightarrow> cdp_tlvs \<Rightarrow> usize \<Rightarrow> parse_error + cdp_tlvs \<times> usize" where
  "cdp_walk bytes r c header_len =
    (if 4 \<le> remaining r then
       try_read (read_u16_be r) (\<lambda>tlv_type r1.
       try_read (read_u16_be r1) (\<lambda>tlv_len r2.
       if tlv_type = 0 \<and> tlv_len = 0 then Inr (c, length bytes - remaining r)
       else if tlv_len < 4 then Inl (Malformed ''CDP: TLV length shorter than its own header'')
       else
       try_read (take_bytes r2 (unat tlv_len - 4)) (\<lambda>v r3. cdp_walk bytes r3 (cdp_record tlv_type v c) (consumed bytes r3))))
     else Inr (c, header_len))"
  by pat_completeness auto
termination by (relation "measure (\<lambda>(b, r, c, n). remaining r)") (auto dest!: read_shrink take_shrink)

declare cdp_walk.simps [simp del]

definition cdp_parse :: "byte list \<Rightarrow> parse_ctx \<Rightarrow> parse_error + parsed_layer" where
  "cdp_parse bytes ctx =
    (let r = new_reader bytes in
     try_read (read_u8 r) (\<lambda>version r.
     try_read (read_u8 r) (\<lambda>ttl r.
     try_read (read_u16_be r) (\<lambda>checksum r.
     and_then (cdp_walk bytes r cdp_none (consumed bytes r)) (\<lambda>(tlvs, header_len).
     if cd_device_id tlvs = None then Inl (Malformed ''CDP: missing Device ID TLV'')
     else
     let fm = fm_new;
         fm = insert_at Structural (ctx_depth ctx)
           [(''version'', U64 (ucast version)), (''ttl'', U64 (ucast ttl)), (''checksum'', U64 (ucast checksum))] fm;
         fm = insert_at Full (ctx_depth ctx) (cdp_full_fields tlvs) fm
     in Inr \<lparr>pl_header_len = header_len, pl_fields = fm, pl_hint = Terminal\<rparr>)))))"

definition cdp :: plugin where
  "cdp = (default_plugin ''cdp'' cdp_parse)\<lparr>pg_claims := [Custom ''snap_pid'' (push_bit 16 OUI_CISCO OR PID_CDP)]\<rparr>"

section \<open>EAPOL\<close>

record key_descriptor =
  kd_type :: u8
  kd_info :: u16
  kd_length :: u16
  kd_replay_counter :: u64
  kd_nonce :: "byte list"
  kd_iv :: "byte list"
  kd_rsc :: u64
  kd_mic :: "byte list"
  kd_data_length :: u16

definition read_key_descriptor :: "byte list \<Rightarrow> parse_error + key_descriptor" where
  "read_key_descriptor body =
    (let r = new_reader body in
     try_read (read_u8 r) (\<lambda>t r.
     try_read (read_u16_be r) (\<lambda>info r.
     try_read (read_u16_be r) (\<lambda>len r.
     try_read (read_u64_be r) (\<lambda>replay r.
     try_read (take_bytes r 32) (\<lambda>nonce r.
     try_read (take_bytes r 16) (\<lambda>iv r.
     try_read (read_u64_be r) (\<lambda>rsc r.
     try_read (take_bytes r 8) (\<lambda>_ r.
     try_read (take_bytes r 16) (\<lambda>mic r.
     try_read (read_u16_be r) (\<lambda>data_len r.
       Inr \<lparr>kd_type = t, kd_info = info, kd_length = len, kd_replay_counter = replay, kd_nonce = nonce, kd_iv = iv,
         kd_rsc = rsc, kd_mic = mic, kd_data_length = data_len\<rparr>)))))))))))"

definition eapol_parse :: "byte list \<Rightarrow> parse_ctx \<Rightarrow> parse_error + parsed_layer" where
  "eapol_parse bytes ctx =
    (let r = new_reader bytes in
     try_read (read_u8 r) (\<lambda>version r.
     try_read (read_u8 r) (\<lambda>packet_type r.
     try_read (read_u16_be r) (\<lambda>body_length r.
     try_read (take_bytes r (unat body_length)) (\<lambda>body r.
     and_then (if packet_type = 3 then and_then (read_key_descriptor body) (\<lambda>k. Inr (Some k)) else Inr None) (\<lambda>key.
     let fm = fm_new;
         fm = insert_at Structural (ctx_depth ctx)
           [(''version'', U64 (ucast version)), (''packet_type'', U64 (ucast packet_type)), (''body_length'', U64 (ucast body_length))] fm;
         fm = insert_at Full (ctx_depth ctx)
           (case key of
              Some k \<Rightarrow> [(''key_descriptor_type'', U64 (ucast (kd_type k))), (''key_info'', U64 (ucast (kd_info k))),
                (''key_length'', U64 (ucast (kd_length k))), (''replay_counter'', U64 (kd_replay_counter k)), (''nonce'', Bytes (kd_nonce k)),
                (''key_iv'', Bytes (kd_iv k)), (''key_rsc'', U64 (kd_rsc k)), (''key_mic'', Bytes (kd_mic k)),
                (''key_data_length'', U64 (ucast (kd_data_length k)))]
            | None \<Rightarrow> []) fm
     in Inr \<lparr>pl_header_len = 4 + unat body_length, pl_fields = fm, pl_hint = Terminal\<rparr>))))))"

definition eapol :: plugin where
  "eapol = (default_plugin ''eapol'' eapol_parse)\<lparr>pg_claims := [EtherType 0x888E]\<rparr>"

section \<open>MPLS\<close>

definition MAX_LABELS :: usize where "MAX_LABELS = 16"

definition mpls_identity :: stream_identity where
  "mpls_identity = \<lparr>si_key = [\<lparr>kf_a = ''label'', kf_b = None\<rparr>], si_canonicalize = EndpointSort, si_lifecycle = None, si_rollups = []\<rparr>"

text \<open>The label loop: the labels read so far are the argument; the result is all of them, the first entry
  and the reader. The first entry is the one read while there are none.\<close>

function label_walk :: "byte_reader \<Rightarrow> u64 list \<Rightarrow> u32 \<Rightarrow> parse_error + (u64 list \<times> u32) \<times> byte_reader" where
  "label_walk r labels te =
    (if length labels = MAX_LABELS then Inl (Malformed ''MPLS: label stack too deep'')
     else try_read (read_u32_be r) (\<lambda>entry r'.
       let label = ucast (drop_bit 12 entry);
           te' = (if labels = [] then entry else te);
           labels' = labels @ [label]
       in if entry AND 0x100 \<noteq> 0 then Inr ((labels', te'), r') else label_walk r' labels' te'))"
  by pat_completeness auto
termination by (relation "measure (\<lambda>(r, _, _). remaining r)") (auto dest: read_shrink)

declare label_walk.simps [simp del]

definition mpls_parse :: "byte list \<Rightarrow> parse_ctx \<Rightarrow> parse_error + parsed_layer" where
  "mpls_parse bytes ctx =
    and_then (label_walk (new_reader bytes) [] 0) (\<lambda>((labels, te), r).
    let bottom_label = last labels;
        fm = fm_new;
        fm = insert_at Keys (ctx_depth ctx) [(''label'', U64 (ucast (drop_bit 12 te)))] fm;
        fm = insert_at Structural (ctx_depth ctx)
          [(''stack_depth'', U64 (of_nat (length labels))), (''tc'', U64 (ucast (drop_bit 9 te AND 0x7))),
           (''ttl'', U64 (ucast (te AND 0xFF)))] fm;
        fm = insert_at Full (ctx_depth ctx) [(''labels'', VList (map U64 labels))] fm
    in Inr \<lparr>pl_header_len = 4 * length labels, pl_fields = fm,
         pl_hint = (if bottom_label = 0 then ByProtocol ''ipv4'' else if bottom_label = 2 then ByProtocol ''ipv6'' else UnknownNext)\<rparr>)"

definition mpls :: plugin where
  "mpls = (default_plugin ''mpls'' mpls_parse)
     \<lparr>pg_claims := [EtherType 0x8847, EtherType 0x8848], pg_stream_identity := Some mpls_identity\<rparr>"

section \<open>PPPoE and PPP\<close>

record pppoe_tags =
  pt_service_name :: "byte list option"
  pt_ac_name :: "byte list option"
  pt_host_uniq :: "byte list option"

definition pppoe_record :: "u16 \<Rightarrow> byte list \<Rightarrow> pppoe_tags \<Rightarrow> pppoe_tags" where
  "pppoe_record t v g =
    (if t = 0x0101 then g\<lparr>pt_service_name := Some v\<rparr>
     else if t = 0x0102 then g\<lparr>pt_ac_name := Some v\<rparr>
     else if t = 0x0103 then g\<lparr>pt_host_uniq := Some v\<rparr>
     else g)"

definition pppoe_full_fields :: "pppoe_tags \<Rightarrow> (field_name \<times> value_t) list" where
  "pppoe_full_fields g =
    opt_field ''service_name'' (map_option (\<lambda>v. Str (decode_text v)) (pt_service_name g)) @
    opt_field ''ac_name'' (map_option (\<lambda>v. Str (decode_text v)) (pt_ac_name g)) @
    opt_field ''host_uniq'' (map_option Bytes (pt_host_uniq g))"

function walk_tags :: "byte_reader \<Rightarrow> pppoe_tags \<Rightarrow> parse_error + pppoe_tags" where
  "walk_tags r g =
    (if 0 < remaining r then
       try_read (read_u16_be r) (\<lambda>tag_type r1.
       try_read (read_u16_be r1) (\<lambda>tag_len r2.
       try_read (take_bytes r2 (unat tag_len)) (\<lambda>v r3. walk_tags r3 (pppoe_record tag_type v g))))
     else Inr g)"
  by pat_completeness auto
termination by (relation "measure (\<lambda>(r, _). remaining r)") (auto dest!: read_shrink take_shrink)

declare walk_tags.simps [simp del]

definition pppoe_identity :: stream_identity where
  "pppoe_identity = \<lparr>si_key = [\<lparr>kf_a = ''session_id'', kf_b = None\<rparr>], si_canonicalize = EndpointSort, si_lifecycle = None,
     si_rollups = [\<lparr>rs_field = ''code'', rs_kind = Accumulate\<rparr>]\<rparr>"

definition pppoe_parse :: "byte list \<Rightarrow> parse_ctx \<Rightarrow> parse_error + parsed_layer" where
  "pppoe_parse bytes ctx =
    (let r = new_reader bytes in
     try_read (read_u8 r) (\<lambda>fb r.
     if fb \<noteq> 0x11 then Inl (Malformed ''PPPoE: VER/TYPE is not 0x1/0x1'')
     else
     try_read (read_u8 r) (\<lambda>code r.
     try_read (read_u16_be r) (\<lambda>session_id r.
     try_read (read_u16_be r) (\<lambda>len r.
     and_then
       (if code = 0 then Inr (None, ByProtocol ''ppp'', consumed bytes r)
        else try_read (take_bytes r (unat len)) (\<lambda>region r.
          and_then (walk_tags (new_reader region) \<lparr>pt_service_name = None, pt_ac_name = None, pt_host_uniq = None\<rparr>) (\<lambda>tags.
            Inr (Some tags, Terminal, consumed bytes r))))
       (\<lambda>(tags, hint, header_len).
     let fm = fm_new;
         fm = insert_at Keys (ctx_depth ctx) [(''session_id'', U64 (ucast session_id))] fm;
         fm = insert_at Structural (ctx_depth ctx)
           [(''version'', U64 (ucast (drop_bit 4 fb))), (''type'', U64 (ucast (fb AND 0x0F))), (''code'', U64 (ucast code))] fm;
         fm = insert_at Full (ctx_depth ctx) (case tags of Some g \<Rightarrow> pppoe_full_fields g | None \<Rightarrow> []) fm
     in Inr \<lparr>pl_header_len = header_len, pl_fields = fm, pl_hint = hint\<rparr>))))))"

definition pppoe :: plugin where
  "pppoe = (default_plugin ''pppoe'' pppoe_parse)
     \<lparr>pg_claims := [EtherType 0x8863, EtherType 0x8864], pg_stream_identity := Some pppoe_identity\<rparr>"

definition ppp_parse :: "byte list \<Rightarrow> parse_ctx \<Rightarrow> parse_error + parsed_layer" where
  "ppp_parse bytes ctx =
    (let r = new_reader bytes in
     try_read (read_u8 r) (\<lambda>fb r.
     and_then
       (if fb AND 0x01 = 1 then Inr (ucast fb, r)
        else try_read (read_u8 r) (\<lambda>second r. Inr (from_be_bytes [0, 0, fb, second] :: u32, r)))
       (\<lambda>(protocol, r).
     let fm = insert_at Structural (ctx_depth ctx) [(''protocol'', U64 (ucast protocol))] fm_new;
         hint = (if protocol = 0x0021 then Route (EtherType 0x0800) else if protocol = 0x0057 then Route (EtherType 0x86DD) else Terminal)
     in Inr \<lparr>pl_header_len = consumed bytes r, pl_fields = fm, pl_hint = hint\<rparr>)))"

definition ppp :: plugin where
  "ppp = default_plugin ''ppp'' ppp_parse"

section \<open>The contract\<close>

interpretation llc: layer_plugin llc
  by unfold_locales (auto simp: llc_def llc_parse_def llc_control_def llc_snap_def contract_simps fm_new_def split: if_splits)

interpretation stp: layer_plugin stp
  by unfold_locales (auto simp: stp_def stp_parse_def parse_bpdu_def insert_bpdu_fields_def contract_simps fm_new_def split: if_splits)

lemma parse_bpdu_used: "parse_bpdu bytes = Inr (b, used) \<Longrightarrow> used \<le> length bytes"
  by (auto simp: parse_bpdu_def contract_simps split: if_splits)

interpretation pvst_plus: layer_plugin pvst_plus
  by unfold_locales
    (auto simp: pvst_plus_def pvst_plus_parse_def insert_bpdu_fields_def contract_simps fm_new_def fits_def dest: parse_bpdu_used)

interpretation lacp: layer_plugin lacp
  by unfold_locales (auto simp: lacp_def lacp_parse_def lacp_identity_def contract_simps fm_new_def)

interpretation lldp: layer_plugin lldp
  by unfold_locales (auto simp: lldp_def lldp_parse_def contract_simps fm_new_def)

lemma cdp_walk_len: "cdp_walk bytes r c n = Inr (c', m) \<Longrightarrow> n \<le> length bytes \<Longrightarrow> m \<le> length bytes"
proof (induction bytes r c n rule: cdp_walk.induct)
  case (1 bytes r c n)
  show ?case using 1(2,3) unfolding cdp_walk.simps[of bytes r]
    by (auto simp: try_read_Inr split: if_splits intro: 1(1))
qed

interpretation cdp: layer_plugin cdp
  by unfold_locales (auto simp: cdp_def cdp_parse_def contract_simps fm_new_def dest!: cdp_walk_len)

interpretation eapol: layer_plugin eapol
  by unfold_locales (auto simp: eapol_def eapol_parse_def contract_simps fm_new_def fits_def split: if_splits)

text \<open>The label loop reads four bytes per label and stops at the first entry with the bottom bit.\<close>

definition entry_at :: "byte list \<Rightarrow> nat \<Rightarrow> u32" where
  "entry_at bytes i = be_at bytes (4 * i) 4"

definition label_of :: "u32 \<Rightarrow> u64" where
  "label_of entry = ucast (drop_bit 12 entry)"

lemma label_walk_step:
  assumes "label_walk r ls te = Inr ((ls', te'), r')" and "rpos r = 4 * length ls"
  defines "e \<equiv> entry_at (rbuf r) (length ls)"
  shows "length ls \<noteq> MAX_LABELS \<and> 4 * Suc (length ls) \<le> length (rbuf r) \<and>
    (if e AND 0x100 \<noteq> 0 then ls' = ls @ [label_of e] \<and> te' = (if ls = [] then e else te)
     else label_walk (r\<lparr>rpos := 4 * length ls + 4\<rparr>) (ls @ [label_of e]) (if ls = [] then e else te) = Inr ((ls', te'), r'))"
  using assms(1,2) unfolding label_walk.simps[of r]
  by (auto simp: reader_simps e_def entry_at_def label_of_def fits_def Let_def split: if_splits)

lemma label_walk_entries:
  assumes "label_walk r ls te = Inr ((ls', te'), r')" and "rpos r = 4 * length ls" and "length ls \<le> MAX_LABELS"
  shows "4 * length ls' \<le> length (rbuf r) \<and> length ls < length ls' \<and> length ls' \<le> MAX_LABELS \<and>
    take (length ls) ls' = ls \<and> (\<forall>i. length ls \<le> i \<and> i < length ls' \<longrightarrow> ls' ! i = label_of (entry_at (rbuf r) i)) \<and>
    entry_at (rbuf r) (length ls' - 1) AND 0x100 \<noteq> 0 \<and>
    (\<forall>i. length ls \<le> i \<and> i < length ls' - 1 \<longrightarrow> entry_at (rbuf r) i AND 0x100 = 0) \<and>
    te' = (if ls = [] then entry_at (rbuf r) 0 else te)"
  using assms
proof (induction "MAX_LABELS - length ls" arbitrary: r ls te rule: less_induct)
  case less
  let ?e = "entry_at (rbuf r) (length ls)"
  note step = label_walk_step[OF less.prems(1,2)]
  show ?case
  proof (cases "?e AND 0x100 \<noteq> 0")
    case True
    then show ?thesis using step less.prems(3) by (auto simp: nth_append less_Suc_eq)
  next
    case False
    let ?r = "r\<lparr>rpos := 4 * length ls + 4\<rparr>" and ?ls = "ls @ [label_of ?e]"
    have lt: "length ls < MAX_LABELS" using step less.prems(3) by (meson le_neq_implies_less)
    then have m: "MAX_LABELS - length ?ls < MAX_LABELS - length ls" "length ?ls \<le> MAX_LABELS" "rpos ?r = 4 * length ?ls"
      by simp_all
    have w: "label_walk ?r ?ls (if ls = [] then ?e else te) = Inr ((ls', te'), r')" using step False by simp
    note ih = less.hyps[OF m(1) w m(3,2)]
    have IH: "4 * length ls' \<le> length (rbuf r)" "Suc (length ls) < length ls'" "length ls' \<le> MAX_LABELS"
      "take (Suc (length ls)) ls' = ?ls" "\<And>i. Suc (length ls) \<le> i \<Longrightarrow> i < length ls' \<Longrightarrow> ls' ! i = label_of (entry_at (rbuf r) i)"
      "entry_at (rbuf r) (length ls' - 1) AND 0x100 \<noteq> 0"
      "\<And>i. Suc (length ls) \<le> i \<Longrightarrow> i < length ls' - 1 \<Longrightarrow> entry_at (rbuf r) i AND 0x100 = 0"
      "te' = (if ls = [] then ?e else te)"
      using ih by simp_all
    have "ls' ! length ls = label_of ?e" using IH(2,4) by (metis lessI nth_append_length nth_take)
    moreover have "take (length ls) ls' = ls" using arg_cong[OF IH(4), of "take (length ls)"] by simp
    moreover have "entry_at (rbuf r) i AND 0x100 = 0" if "length ls \<le> i" "i < length ls' - 1" for i
      using IH(7)[of i] False that by (cases "i = length ls") auto
    moreover have "te' = (if ls = [] then entry_at (rbuf r) 0 else te)" using IH(8) by auto
    moreover have "ls' ! i = label_of (entry_at (rbuf r) i)" if "length ls \<le> i" "i < length ls'" for i
      using IH(5)[of i] calculation(1) that by (cases "i = length ls") auto
    ultimately show ?thesis using IH(1-3,6) by simp
  qed
qed

lemma label_walk_span: "label_walk (new_reader bytes) [] 0 = Inr ((ls, te), r) \<Longrightarrow> 4 * length ls \<le> length bytes"
  using label_walk_entries[of "new_reader bytes" "[]" 0 ls te r] by (simp add: reader_simps)

interpretation mpls: layer_plugin mpls
  by unfold_locales (auto simp: mpls_def mpls_parse_def mpls_identity_def contract_simps fm_new_def dest!: label_walk_span)

interpretation pppoe: layer_plugin pppoe
  by unfold_locales (auto simp: pppoe_def pppoe_parse_def pppoe_identity_def contract_simps fm_new_def split: if_splits)

interpretation ppp: layer_plugin ppp
  by unfold_locales (auto simp: ppp_def ppp_parse_def contract_simps fm_new_def split: if_splits)

section \<open>Properties\<close>

text \<open>MPLS: a label stack ends at the first entry with the bottom bit; the layer is the entries up to and
  including it, at most sixteen, its depth field counts them and its label is that of the first one.\<close>

theorem mpls_stack:
  assumes "pg_parse mpls bytes ctx = Inr pl"
  shows "\<exists>n. 0 < n \<and> n \<le> 16 \<and> pl_header_len pl = 4 * n \<and> 4 * n \<le> length bytes \<and>
    entry_at bytes (n - 1) AND 0x100 \<noteq> 0 \<and> (\<forall>i < n - 1. entry_at bytes i AND 0x100 = 0) \<and>
    (Keys \<le> ctx_depth ctx \<longrightarrow> fm_get (pl_fields pl) ''label'' = Some (U64 (label_of (entry_at bytes 0)))) \<and>
    (Full \<le> ctx_depth ctx \<longrightarrow> fm_get (pl_fields pl) ''labels'' = Some (VList (map (\<lambda>i. U64 (label_of (entry_at bytes i))) [0..<n])))"
proof -
  obtain ls te r where w: "label_walk (new_reader bytes) [] 0 = Inr ((ls, te), r)"
    using assms by (auto simp: mpls_def default_plugin_def mpls_parse_def and_then_Inr_iff)
  have e: "4 * length ls \<le> length bytes \<and> 0 < length ls \<and> length ls \<le> MAX_LABELS \<and>
    (\<forall>i < length ls. ls ! i = label_of (entry_at bytes i)) \<and> entry_at bytes (length ls - 1) AND 0x100 \<noteq> 0 \<and>
    (\<forall>i < length ls - 1. entry_at bytes i AND 0x100 = 0) \<and> te = entry_at bytes 0"
    using label_walk_entries[OF w] by (simp add: reader_simps)
  have l: "map U64 ls = map (\<lambda>i. U64 (label_of (entry_at bytes i))) [0..<length ls]"
    using e by (intro nth_equalityI) auto
  show ?thesis
    using assms e l depth_trans_simps[of "ctx_depth ctx"]
    by (intro exI[of _ "length ls"])
      (auto simp: mpls_def default_plugin_def mpls_parse_def w Let_def MAX_LABELS_def fm_get_insert_at label_of_def)
qed

end
