(* ===== verification/Overlay.thy ===== *)
theory Overlay
  imports Walking
begin

text \<open>
  Tunnel and overlay plugins of \<open>pktflow-plugins/src\<close>: IPsec (\<open>esp.rs\<close>, \<open>ah.rs\<close>), Geneve
  (\<open>geneve.rs\<close>), ERSPAN (\<open>erspan.rs\<close>), L2TPv3 (\<open>l2tpv3.rs\<close>), the GTP user plane (\<open>gtp_u.rs\<close>),
  RoCEv2 (\<open>rocev2.rs\<close>) and WireGuard (\<open>wireguard.rs\<close>).
\<close>

section \<open>IPsec\<close>

definition esp_identity :: stream_identity where
  "esp_identity = keyed [''spi''] [rolled ''sequence'' Sample]"

definition esp_parse :: "byte list \<Rightarrow> parse_ctx \<Rightarrow> parse_error + parsed_layer" where
  "esp_parse bytes ctx =
    (let r = new_reader bytes in
     try_read (read_u32_be r) (\<lambda>spi r.
     try_read (read_u32_be r) (\<lambda>sequence r.
     let fm = fm_new;
         fm = insert_at Keys (ctx_depth ctx) [(''spi'', U64 (ucast spi))] fm;
         fm = insert_at Structural (ctx_depth ctx) [(''sequence'', U64 (ucast sequence))] fm
     in Inr \<lparr>pl_header_len = 8, pl_fields = fm, pl_hint = Terminal\<rparr>)))"

definition esp :: plugin where
  "esp = (default_plugin ''esp'' esp_parse)\<lparr>pg_claims := [IpProtocol 50], pg_stream_identity := Some esp_identity\<rparr>"

definition FIXED_HEADER_LEN :: usize where "FIXED_HEADER_LEN = 12"

definition ah_identity :: stream_identity where
  "ah_identity = keyed [''spi''] [rolled ''sequence'' Sample, rolled ''next_header'' Accumulate]"

definition ah_parse :: "byte list \<Rightarrow> parse_ctx \<Rightarrow> parse_error + parsed_layer" where
  "ah_parse bytes ctx =
    (let r = new_reader bytes in
     try_read (read_u8 r) (\<lambda>next_header r.
     try_read (read_u8 r) (\<lambda>payload_len r.
     try_read (read_u16_be r) (\<lambda>_ r.
     try_read (read_u32_be r) (\<lambda>spi r.
     try_read (read_u32_be r) (\<lambda>sequence r.
     let header_len = unat payload_len * 4 + 8 in
     if header_len < FIXED_HEADER_LEN then Inl (Malformed ''AH payload length too small for the fixed header'')
     else
     try_read (take_bytes r (header_len - FIXED_HEADER_LEN)) (\<lambda>icv r.
     let fm = fm_new;
         fm = insert_at Keys (ctx_depth ctx) [(''spi'', U64 (ucast spi))] fm;
         fm = insert_at Structural (ctx_depth ctx)
           [(''next_header'', U64 (ucast next_header)), (''payload_len'', U64 (ucast payload_len)), (''sequence'', U64 (ucast sequence))] fm;
         fm = insert_at Full (ctx_depth ctx) [(''icv'', Bytes icv)] fm
     in Inr \<lparr>pl_header_len = header_len, pl_fields = fm, pl_hint = Route (IpProtocol next_header)\<rparr>)))))))"

definition ah :: plugin where
  "ah = (default_plugin ''ah'' ah_parse)\<lparr>pg_claims := [IpProtocol 51], pg_stream_identity := Some ah_identity\<rparr>"

section \<open>Geneve\<close>

definition SUPPORTED_VERSION :: u8 where "SUPPORTED_VERSION = 0"
definition O_FLAG :: u8 where "O_FLAG = 0x80"
definition C_FLAG :: u8 where "C_FLAG = 0x40"

definition geneve_identity :: stream_identity where
  "geneve_identity = keyed [''vni''] [rolled ''protocol_type'' Accumulate]"

definition geneve_parse :: "byte list \<Rightarrow> parse_ctx \<Rightarrow> parse_error + parsed_layer" where
  "geneve_parse bytes ctx =
    (let r = new_reader bytes in
     try_read (read_u8 r) (\<lambda>ver_optlen r.
     let version = drop_bit 6 ver_optlen in
     if version \<noteq> SUPPORTED_VERSION then Inl (Malformed ''Geneve version is not 0'')
     else
     let opt_len = ver_optlen AND 0x3F in
     try_read (read_u8 r) (\<lambda>flags r.
     let o_bit = flags AND O_FLAG \<noteq> 0; c_bit = flags AND C_FLAG \<noteq> 0 in
     try_read (read_u16_be r) (\<lambda>protocol_type r.
     try_read (take_bytes r 3) (\<lambda>vni_bytes r.
     let vni = foldl (\<lambda>acc b. push_bit 8 acc OR ucast b) (0 :: u64) vni_bytes in
     try_read (read_u8 r) (\<lambda>_ r.
     try_read (take_bytes r (unat opt_len * 4)) (\<lambda>options r.
     let fm = fm_new;
         fm = insert_at Keys (ctx_depth ctx) [(''vni'', U64 vni)] fm;
         fm = insert_at Structural (ctx_depth ctx)
           [(''version'', U64 (ucast version)), (''opt_len'', U64 (ucast opt_len)), (''o_bit'', VBool o_bit), (''c_bit'', VBool c_bit),
            (''protocol_type'', U64 (ucast protocol_type))] fm;
         fm = insert_at Full (ctx_depth ctx) [(''options'', Bytes options)] fm
     in Inr \<lparr>pl_header_len = 8 + unat opt_len * 4, pl_fields = fm, pl_hint = Route (EtherType protocol_type)\<rparr>)))))))"

definition geneve :: plugin where
  "geneve = (default_plugin ''geneve'' geneve_parse)
     \<lparr>pg_claims := [UdpPort 6081], pg_stream_identity := Some geneve_identity\<rparr>"

section \<open>ERSPAN\<close>

definition erspan_identity :: stream_identity where
  "erspan_identity = keyed [''session_id''] []"

text \<open>The version-specific part: header length, hint, the reader's end and the \<open>Full\<close> fields.\<close>

definition erspan_body :: "byte_reader \<Rightarrow> u16 \<Rightarrow> parse_error + usize \<times> hint \<times> (field_name \<times> value_t) list" where
  "erspan_body r version =
    (if version = 1 then
       try_read (read_u32_be r) (\<lambda>w r. Inr (8, ByProtocol ''ethernet'', [(''index'', U64 (ucast (w AND 0x000FFFFF)))]))
     else if version = 2 then
       try_read (read_u32_be r) (\<lambda>timestamp r.
       try_read (read_u16_be r) (\<lambda>sgt r.
       try_read (read_u16_be r) (\<lambda>last' r.
       let frame_type = drop_bit 10 last' AND 0x1F;
           full = [(''timestamp'', U64 (ucast timestamp)), (''sgt'', U64 (ucast sgt)), (''frame_type'', U64 (ucast frame_type))];
           hint = (if frame_type = 0 then ByProtocol ''ethernet'' else UnknownNext)
       in if last' AND 0x0001 \<noteq> 0 then try_read (take_bytes r 8) (\<lambda>_ r. Inr (12 + 8, hint, full))
          else Inr (12, hint, full))))
     else Inl (Malformed ''ERSPAN: unknown version''))"

definition erspan_parse :: "byte list \<Rightarrow> parse_ctx \<Rightarrow> parse_error + parsed_layer" where
  "erspan_parse bytes ctx =
    (let r = new_reader bytes in
     try_read (read_u16_be r) (\<lambda>ver_vlan r.
     let version = drop_bit 12 ver_vlan in
     try_read (read_u16_be r) (\<lambda>word2 r.
     let session_id = ucast (word2 AND 0x03FF); cos = ucast (drop_bit 13 word2); truncated = word2 AND 0x0400 \<noteq> 0;
         fm = fm_new;
         fm = insert_at Keys (ctx_depth ctx) [(''session_id'', U64 session_id)] fm;
         fm = insert_at Structural (ctx_depth ctx)
           [(''version'', U64 (ucast version)), (''vlan'', U64 (ucast (ver_vlan AND 0x0FFF))), (''cos'', U64 cos)] fm
     in and_then (erspan_body r version) (\<lambda>(header_len, hint, full).
     let fm = insert_at Full (ctx_depth ctx) full fm;
         fm = insert_at Full (ctx_depth ctx) [(''truncated'', VBool truncated)] fm
     in Inr \<lparr>pl_header_len = header_len, pl_fields = fm, pl_hint = hint\<rparr>))))"

definition erspan :: plugin where
  "erspan = (default_plugin ''erspan'' erspan_parse)
     \<lparr>pg_claims := [EtherType 0x88BE, EtherType 0x22EB], pg_stream_identity := Some erspan_identity\<rparr>"

section \<open>L2TPv3\<close>

definition L2TPV3_VERSION :: u32 where "L2TPV3_VERSION = 3"
definition SHARED_WORD_LEN :: usize where "SHARED_WORD_LEN = 4"
definition SESSION_ID_LEN :: usize where "SESSION_ID_LEN = 4"
definition CONTROL_TAIL_LEN :: usize where "CONTROL_TAIL_LEN = 8"

definition l2tpv3_identity :: stream_identity where
  "l2tpv3_identity = keyed [''session_id''] []"

definition l2tpv3_over_udp :: "parse_ctx \<Rightarrow> bool" where
  "l2tpv3_over_udp ctx \<longleftrightarrow> (case ctx_prev ctx of Some l \<Rightarrow> lr_protocol l = ''udp'' | None \<Rightarrow> False)"

definition l2tpv3_t_bit :: "bool \<Rightarrow> byte_reader \<Rightarrow> (bool \<Rightarrow> byte_reader \<Rightarrow> parse_error + 'a) \<Rightarrow> parse_error + 'a" where
  "l2tpv3_t_bit over_udp r k =
    (if over_udp then
       try_read (read_u32_be r) (\<lambda>word1 r.
       if drop_bit 16 word1 AND 0x0F \<noteq> L2TPV3_VERSION then Inl (Malformed ''L2TPv3: unsupported Ver'')
       else k (word1 AND 0x80000000 \<noteq> 0) r)
     else k False r)"

definition l2tpv3_parse :: "byte list \<Rightarrow> parse_ctx \<Rightarrow> parse_error + parsed_layer" where
  "l2tpv3_parse bytes ctx =
    (let over_udp = l2tpv3_over_udp ctx; r = new_reader bytes in
     l2tpv3_t_bit over_udp r (\<lambda>t_bit r.
     if t_bit then
       try_read (read_u32_be r) (\<lambda>control_connection_id r.
       try_read (take_bytes r 4) (\<lambda>_ r.
       let fm = insert_at Structural (ctx_depth ctx)
             [(''t_bit'', VBool t_bit), (''control_connection_id'', U64 (ucast control_connection_id))] fm_new
       in Inr \<lparr>pl_header_len = SHARED_WORD_LEN + CONTROL_TAIL_LEN, pl_fields = fm, pl_hint = Terminal\<rparr>))
     else
       try_read (read_u32_be r) (\<lambda>session_id r.
       let fm = insert_at Keys (ctx_depth ctx) [(''session_id'', U64 (ucast session_id))] fm_new;
           fm = insert_at Structural (ctx_depth ctx) [(''t_bit'', VBool t_bit)] fm
       in Inr \<lparr>pl_header_len = (if over_udp then SHARED_WORD_LEN else 0) + SESSION_ID_LEN, pl_fields = fm,
            pl_hint = ByProtocol ''ethernet''\<rparr>)))"

definition l2tpv3 :: plugin where
  "l2tpv3 = (default_plugin ''l2tpv3'' l2tpv3_parse)
     \<lparr>pg_claims := [UdpPort 1701, IpProtocol 115], pg_stream_identity := Some l2tpv3_identity\<rparr>"

section \<open>GTP user plane\<close>

definition VERSION_MASK :: u8 where "VERSION_MASK = 0xE0"
definition VERSION_SHIFT :: nat where "VERSION_SHIFT = 5"
definition GTP_VERSION_1 :: u8 where "GTP_VERSION_1 = 1"
definition PT_BIT :: u8 where "PT_BIT = 0x10"
definition E_BIT :: u8 where "E_BIT = 0x04"
definition GTPU_S_BIT :: u8 where "GTPU_S_BIT = 0x02"
definition PN_BIT :: u8 where "PN_BIT = 0x01"
definition MSG_GPDU :: u8 where "MSG_GPDU = 255"

definition gtp_u_identity :: stream_identity where
  "gtp_u_identity = keyed [''teid''] [rolled ''message_type'' Accumulate]"

text \<open>The chain of extension headers: each is \<open>4 * length\<close> bytes, of which the last names the next one.\<close>

function gtp_u_ext :: "byte_reader \<Rightarrow> u8 \<Rightarrow> usize \<Rightarrow> parse_error + usize \<times> byte_reader" where
  "gtp_u_ext r next_ext_type header_len =
    (if next_ext_type \<noteq> 0 then
       try_read (read_u8 r) (\<lambda>length_words r1.
       if length_words = 0 then Inl (Malformed ''GTP-U: zero-length extension header'')
       else
       let record_len = unat length_words * 4 in
       try_read (take_bytes r1 (record_len - 2)) (\<lambda>_ r2.
       try_read (read_u8 r2) (\<lambda>next' r3. gtp_u_ext r3 next' (header_len + record_len))))
     else Inr (header_len, r))"
  by pat_completeness auto
termination by (relation "measure (\<lambda>(r, _, _). remaining r)") (auto dest!: read_shrink take_shrink)

declare gtp_u_ext.simps [simp del]

definition gtp_u_options :: "byte_reader \<Rightarrow> u8 \<Rightarrow> parse_error + u16 option \<times> usize \<times> byte_reader" where
  "gtp_u_options r flags_octet =
    (if flags_octet AND (E_BIT OR GTPU_S_BIT OR PN_BIT) \<noteq> 0 then
       try_read (read_u16_be r) (\<lambda>seq r.
       try_read (read_u8 r) (\<lambda>_ r.
       try_read (read_u8 r) (\<lambda>next_ext_type r.
       and_then (gtp_u_ext r next_ext_type (8 + 4)) (\<lambda>(header_len, r).
         Inr (if flags_octet AND GTPU_S_BIT \<noteq> 0 then Some seq else None, header_len, r)))))
     else Inr (None, 8, r))"

definition gtp_u_parse :: "byte list \<Rightarrow> parse_ctx \<Rightarrow> parse_error + parsed_layer" where
  "gtp_u_parse bytes ctx =
    (let r = new_reader bytes in
     try_read (read_u8 r) (\<lambda>flags_octet r.
     let version = drop_bit VERSION_SHIFT (flags_octet AND VERSION_MASK) in
     if version \<noteq> GTP_VERSION_1 then Inl (Malformed ''GTP-U: unsupported version'')
     else if flags_octet AND PT_BIT = 0 then Inl (Malformed (''GTP-U: PT bit selects GTP'' @ [CHR 0x27] @ '', not GTP''))
     else
     try_read (read_u8 r) (\<lambda>message_type r.
     try_read (read_u16_be r) (\<lambda>len r.
     try_read (read_u32_be r) (\<lambda>teid r.
     and_then (gtp_u_options r flags_octet) (\<lambda>(sequence_number, header_len, r).
     let fm = fm_new;
         fm = insert_at Keys (ctx_depth ctx) [(''teid'', U64 (ucast teid))] fm;
         fm = insert_at Structural (ctx_depth ctx)
           [(''message_type'', U64 (ucast message_type)), (''flags'', U64 (ucast flags_octet)), (''length'', U64 (ucast len))] fm;
         fm = insert_at Full (ctx_depth ctx) (opt_field ''sequence_number'' (map_option (\<lambda>s. U64 (ucast s)) sequence_number)) fm;
         hint = (if message_type = MSG_GPDU then UnknownNext else Terminal)
     in Inr \<lparr>pl_header_len = header_len, pl_fields = fm, pl_hint = hint\<rparr>))))))"

definition gtp_u :: plugin where
  "gtp_u = (default_plugin ''gtp_u'' gtp_u_parse)
     \<lparr>pg_claims := [UdpPort 2152], pg_stream_identity := Some gtp_u_identity\<rparr>"

section \<open>RoCEv2\<close>

definition TVER :: u8 where "TVER = 0"

definition rocev2_identity :: stream_identity where
  "rocev2_identity = keyed [''dest_qp''] [rolled ''opcode'' Accumulate]"

definition rocev2_parse :: "byte list \<Rightarrow> parse_ctx \<Rightarrow> parse_error + parsed_layer" where
  "rocev2_parse bytes ctx =
    (let r = new_reader bytes in
     try_read (read_u8 r) (\<lambda>opcode r.
     try_read (read_u8 r) (\<lambda>se_m_pad_tver r.
     if se_m_pad_tver AND 0x0F \<noteq> TVER then Inl (Malformed ''RoCEv2: unknown transport version'')
     else
     try_read (read_u16_be r) (\<lambda>pkey r.
     try_read (read_u8 r) (\<lambda>_ r.
     try_read (take_bytes r 3) (\<lambda>dest_qp r.
     let dest_qp = foldl (\<lambda>acc b. push_bit 8 acc OR ucast b) (0 :: u64) dest_qp in
     try_read (read_u8 r) (\<lambda>ack_reserved r.
     try_read (take_bytes r 3) (\<lambda>psn r.
     let psn = foldl (\<lambda>acc b. push_bit 8 acc OR ucast b) (0 :: u64) psn;
         fm = fm_new;
         fm = insert_at Keys (ctx_depth ctx) [(''dest_qp'', U64 dest_qp)] fm;
         fm = insert_at Structural (ctx_depth ctx) [(''opcode'', U64 (ucast opcode)), (''pkey'', U64 (ucast pkey))] fm;
         fm = insert_at Full (ctx_depth ctx)
           [(''psn'', U64 psn), (''pad_count'', U64 (ucast (drop_bit 4 se_m_pad_tver AND 0x3))),
            (''solicited'', VBool (se_m_pad_tver AND 0x80 \<noteq> 0)), (''mig_req'', VBool (se_m_pad_tver AND 0x40 \<noteq> 0)),
            (''ack_req'', VBool (ack_reserved AND 0x80 \<noteq> 0))] fm
     in Inr \<lparr>pl_header_len = 12, pl_fields = fm, pl_hint = Terminal\<rparr>))))))))"

definition rocev2 :: plugin where
  "rocev2 = (default_plugin ''rocev2'' rocev2_parse)
     \<lparr>pg_claims := [UdpPort 4791], pg_stream_identity := Some rocev2_identity\<rparr>"

section \<open>WireGuard\<close>

definition TYPE_HANDSHAKE_INITIATION :: u8 where "TYPE_HANDSHAKE_INITIATION = 1"
definition TYPE_HANDSHAKE_RESPONSE :: u8 where "TYPE_HANDSHAKE_RESPONSE = 2"
definition TYPE_COOKIE_REPLY :: u8 where "TYPE_COOKIE_REPLY = 3"
definition TYPE_TRANSPORT_DATA :: u8 where "TYPE_TRANSPORT_DATA = 4"
definition HANDSHAKE_INITIATION_LEN :: usize where "HANDSHAKE_INITIATION_LEN = 148"
definition HANDSHAKE_RESPONSE_LEN :: usize where "HANDSHAKE_RESPONSE_LEN = 92"
definition COOKIE_REPLY_LEN :: usize where "COOKIE_REPLY_LEN = 64"
definition TRANSPORT_DATA_HEADER_LEN :: usize where "TRANSPORT_DATA_HEADER_LEN = 16"
definition TRANSPORT_DATA_MIN_LEN :: usize where "TRANSPORT_DATA_MIN_LEN = TRANSPORT_DATA_HEADER_LEN + 16"

definition wireguard_identity :: stream_identity where
  "wireguard_identity = keyed [''app''] [rolled ''msg_type'' Accumulate]"

definition wireguard_body :: "byte_reader \<Rightarrow> u8 \<Rightarrow> parse_error + string \<times> usize \<times> u32 option \<times> u32 option" where
  "wireguard_body r msg_type =
    (if msg_type = TYPE_HANDSHAKE_INITIATION then
       try_read (read_u32_le r) (\<lambda>sender r.
       try_read (take_bytes r (HANDSHAKE_INITIATION_LEN - 8)) (\<lambda>_ r.
         Inr (''handshake_initiation'', HANDSHAKE_INITIATION_LEN, Some sender, None)))
     else if msg_type = TYPE_HANDSHAKE_RESPONSE then
       try_read (read_u32_le r) (\<lambda>sender r.
       try_read (read_u32_le r) (\<lambda>receiver r.
       try_read (take_bytes r (HANDSHAKE_RESPONSE_LEN - 12)) (\<lambda>_ r.
         Inr (''handshake_response'', HANDSHAKE_RESPONSE_LEN, Some sender, Some receiver))))
     else if msg_type = TYPE_COOKIE_REPLY then
       try_read (read_u32_le r) (\<lambda>receiver r.
       try_read (take_bytes r (COOKIE_REPLY_LEN - 8)) (\<lambda>_ r.
         Inr (''cookie_reply'', COOKIE_REPLY_LEN, None, Some receiver)))
     else if msg_type = TYPE_TRANSPORT_DATA then
       try_read (read_u32_le r) (\<lambda>receiver r.
       try_read (take_bytes r 8) (\<lambda>_ r.
         Inr (''transport_data'', TRANSPORT_DATA_HEADER_LEN, None, Some receiver)))
     else Inl (Malformed ''unknown wireguard message type''))"

definition wireguard_parse :: "byte list \<Rightarrow> parse_ctx \<Rightarrow> parse_error + parsed_layer" where
  "wireguard_parse bytes ctx =
    (let r = new_reader bytes in
     try_read (read_u32_le r) (\<lambda>type_and_reserved r.
     let msg_type = ucast (type_and_reserved AND 0xFF) :: u8; reserved = drop_bit 8 type_and_reserved in
     if reserved \<noteq> 0 then Inl (Malformed ''wireguard reserved bytes are not zero'')
     else
     and_then (wireguard_body r msg_type) (\<lambda>(msg_type_str, header_len, sender_index, receiver_index).
     let fm = fm_new;
         fm = insert_at Keys (ctx_depth ctx) [(''app'', Str ''wireguard'')] fm;
         fm = insert_at Structural (ctx_depth ctx) [(''msg_type'', Str msg_type_str)] fm;
         fm = insert_at Full (ctx_depth ctx)
           (opt_field ''sender_index'' (map_option (\<lambda>s. U64 (ucast s)) sender_index) @
            opt_field ''receiver_index'' (map_option (\<lambda>s. U64 (ucast s)) receiver_index)) fm
     in Inr \<lparr>pl_header_len = header_len, pl_fields = fm, pl_hint = Terminal\<rparr>)))"

definition wireguard_probe :: "byte list \<Rightarrow> parse_ctx \<Rightarrow> confidence option" where
  "wireguard_probe bytes ctx =
    ok_read (read_u32_le (new_reader bytes)) (\<lambda>type_and_reserved r.
    let msg_type = ucast (type_and_reserved AND 0xFF) :: u8; reserved = drop_bit 8 type_and_reserved in
    if reserved \<noteq> 0 then None
    else
    let plausible =
      (if msg_type = TYPE_HANDSHAKE_INITIATION then length bytes = HANDSHAKE_INITIATION_LEN
       else if msg_type = TYPE_HANDSHAKE_RESPONSE then length bytes = HANDSHAKE_RESPONSE_LEN
       else if msg_type = TYPE_COOKIE_REPLY then length bytes = COOKIE_REPLY_LEN
       else if msg_type = TYPE_TRANSPORT_DATA then TRANSPORT_DATA_MIN_LEN \<le> length bytes
       else False)
    in if plausible then Some (confidence_new 50) else None)"

definition wireguard :: plugin where
  "wireguard = (default_plugin ''wireguard'' wireguard_parse)
     \<lparr>pg_claims := [UdpPort 51820], pg_has_probe := True, pg_probe := wireguard_probe,
      pg_stream_identity := Some wireguard_identity\<rparr>"

section \<open>The contract\<close>

interpretation esp: layer_plugin esp
  by (rule layer_pluginI)
    (auto simp: esp_def esp_parse_def esp_identity_def plugin_simps fits_def fm_new_def intro!: gives_intros)

interpretation ah: layer_plugin ah
  by (rule layer_pluginI)
    (auto simp: ah_def ah_parse_def ah_identity_def FIXED_HEADER_LEN_def plugin_simps fits_def fm_new_def intro!: gives_intros)

interpretation geneve: layer_plugin geneve
  by (rule layer_pluginI)
    (auto simp: geneve_def geneve_parse_def geneve_identity_def plugin_simps fits_def fm_new_def intro!: gives_intros)

interpretation erspan: layer_plugin erspan
  by (rule layer_pluginI)
    (auto simp: erspan_def erspan_parse_def erspan_body_def erspan_identity_def plugin_simps fits_def fm_new_def Let_def
      intro!: gives_intros split: if_splits)

text \<open>L2TPv3 carries both kinds of message under one identity: a control message has no session.\<close>

interpretation l2tpv3: framed_plugin l2tpv3
  by unfold_locales
    (auto simp: l2tpv3_def l2tpv3_parse_def l2tpv3_t_bit_def contract_simps fits_def fm_new_def SHARED_WORD_LEN_def
      CONTROL_TAIL_LEN_def SESSION_ID_LEN_def split: if_splits)

text \<open>The extension chain counts the bytes it reads.\<close>

lemma gtp_u_ext_len:
  "gtp_u_ext r t n = Inr (m, r') \<Longrightarrow> rpos r \<le> length (rbuf r) \<Longrightarrow>
    rbuf r' = rbuf r \<and> m + rpos r = n + rpos r' \<and> rpos r' \<le> length (rbuf r)"
proof (induction r t n rule: gtp_u_ext.induct)
  case (1 r t n)
  show ?case
  proof (cases "t = 0")
    case True
    then show ?thesis using 1(2,3) unfolding gtp_u_ext.simps[of r] by simp
  next
    case False
    then obtain w r1 x r2 t' r3 where s: "read_u8 r = Inr (w, r1)" "w \<noteq> 0" "take_bytes r1 (unat w * 4 - 2) = Inr (x, r2)"
        "read_u8 r2 = Inr (t', r3)" "gtp_u_ext r3 t' (n + unat w * 4) = Inr (m, r')"
      using 1(2) unfolding gtp_u_ext.simps[of r] by (auto simp: try_read_Inr Let_def split: if_splits)
    have "0 < unat w" using s(2) by (simp add: unat_gt_0)
    then have p: "rbuf r3 = rbuf r" "rpos r3 = rpos r + unat w * 4" "rpos r3 \<le> length (rbuf r)"
      using s(1-4) by (auto simp: reader_simps fits_def)
    then show ?thesis using 1(1)[OF _ s(1) s(2) refl s(3,4)] False s(5) p by simp
  qed
qed

interpretation gtp_u: layer_plugin gtp_u
  by (rule layer_pluginI)
    (auto simp: gtp_u_def gtp_u_parse_def gtp_u_options_def gtp_u_identity_def plugin_simps fits_def fm_new_def
      and_then_Inr_iff intro!: gives_intros split: if_splits dest!: gtp_u_ext_len)

interpretation rocev2: layer_plugin rocev2
  by (rule layer_pluginI)
    (auto simp: rocev2_def rocev2_parse_def rocev2_identity_def plugin_simps fits_def fm_new_def intro!: gives_intros)

lemmas wireguard_lens = HANDSHAKE_INITIATION_LEN_def HANDSHAKE_RESPONSE_LEN_def COOKIE_REPLY_LEN_def
  TRANSPORT_DATA_HEADER_LEN_def TRANSPORT_DATA_MIN_LEN_def

interpretation wireguard: layer_plugin wireguard
  by (rule layer_pluginI)
    (auto simp: wireguard_def wireguard_parse_def wireguard_body_def wireguard_identity_def plugin_simps fits_def fm_new_def
      wireguard_lens intro!: gives_intros split: if_splits)

end
