(* ===== verification/Utf8.thy ===== *)
theory Utf8
  imports Text Walking
begin

text \<open>
  UTF-8 decoding of the Rust standard library, which the text protocols use on packet bytes:
  \<open>str::from_utf8\<close> and \<open>String::from_utf8_lossy\<close>. A string is the list of the bytes of its UTF-8
  encoding. The lossy decoder yields valid UTF-8 and keeps a valid input as it is.
\<close>

definition is_cont :: "byte \<Rightarrow> bool" where
  "is_cont b \<longleftrightarrow> b AND 0xC0 = 0x80"

definition safe_get :: "byte list \<Rightarrow> nat \<Rightarrow> byte" where
  "safe_get s i = (if i < length s then s ! i else 0)"

text \<open>The second byte a leading byte of a three- or four-byte sequence allows: no overlong forms, no
  surrogates, nothing above \<open>U+10FFFF\<close>.\<close>

definition second_ok :: "byte \<Rightarrow> byte \<Rightarrow> bool" where
  "second_ok b c \<longleftrightarrow>
    (if b = 0xE0 then 0xA0 \<le> c \<and> c \<le> 0xBF else if b = 0xED then 0x80 \<le> c \<and> c \<le> 0x9F
     else if b = 0xF0 then 0x90 \<le> c \<and> c \<le> 0xBF else if b = 0xF4 then 0x80 \<le> c \<and> c \<le> 0x8F
     else 0x80 \<le> c \<and> c \<le> 0xBF)"

text \<open>The sequence at the front of a non-empty input: whether it is valid and how many bytes it takes
  (for an invalid one, the bytes that one replacement character stands for).\<close>

definition is_ascii_byte :: "byte \<Rightarrow> bool" where "is_ascii_byte b \<longleftrightarrow> b < 0x80"
definition lead2 :: "byte \<Rightarrow> bool" where "lead2 b \<longleftrightarrow> 0xC2 \<le> b \<and> b \<le> 0xDF"
definition lead3 :: "byte \<Rightarrow> bool" where "lead3 b \<longleftrightarrow> 0xE0 \<le> b \<and> b \<le> 0xEF"
definition lead4 :: "byte \<Rightarrow> bool" where "lead4 b \<longleftrightarrow> 0xF0 \<le> b \<and> b \<le> 0xF4"

definition front4 :: "byte \<Rightarrow> byte \<Rightarrow> byte \<Rightarrow> byte \<Rightarrow> bool \<times> nat" where
  "front4 b c d e =
    (if is_ascii_byte b then (True, 1)
     else if lead2 b then (if is_cont c then (True, 2) else (False, 1))
     else if lead3 b then
       (if \<not> second_ok b c then (False, 1) else if is_cont d then (True, 3) else (False, 2))
     else if lead4 b then
       (if \<not> second_ok b c then (False, 1) else if \<not> is_cont d then (False, 2)
        else if is_cont e then (True, 4) else (False, 3))
     else (False, 1))"

definition utf8_front :: "byte list \<Rightarrow> bool \<times> nat" where
  "utf8_front s = front4 (safe_get s 0) (safe_get s 1) (safe_get s 2) (safe_get s 3)"

lemma utf8_front_pos: "0 < snd (utf8_front s)"
  by (simp add: utf8_front_def front4_def)

definition REPLACEMENT :: "byte list" where
  "REPLACEMENT = [0xEF, 0xBF, 0xBD]"

function utf8_chunks :: "byte list \<Rightarrow> byte list option list" where
  "utf8_chunks s =
    (if s = [] then []
     else (if fst (utf8_front s) then Some (take (snd (utf8_front s)) s) else None) # utf8_chunks (drop (snd (utf8_front s)) s))"
  by pat_completeness auto
termination by (relation "measure length") (auto simp: utf8_front_pos)

declare utf8_chunks.simps [simp del]

definition from_utf8 :: "byte list \<Rightarrow> string option" where
  "from_utf8 s = (if None \<in> set (utf8_chunks s) then None else Some (map char_from s))"

definition lossy_bytes :: "byte list \<Rightarrow> byte list" where
  "lossy_bytes s = concat (map (\<lambda>c. case c of Some x \<Rightarrow> x | None \<Rightarrow> REPLACEMENT) (utf8_chunks s))"

definition from_utf8_lossy :: "byte list \<Rightarrow> string" where
  "from_utf8_lossy s = map char_from (lossy_bytes s)"

section \<open>The lossy decoder\<close>

definition utf8_valid :: "byte list \<Rightarrow> bool" where
  "utf8_valid s \<longleftrightarrow> None \<notin> set (utf8_chunks s)"

lemma utf8_valid_Nil [simp]: "utf8_valid []"
  by (simp add: utf8_valid_def utf8_chunks.simps)

lemma utf8_valid_step:
  "s \<noteq> [] \<Longrightarrow> utf8_valid s \<longleftrightarrow> fst (utf8_front s) \<and> utf8_valid (drop (snd (utf8_front s)) s)"
  unfolding utf8_valid_def utf8_chunks.simps[of s] by auto

lemma not_cont_0 [simp]: "\<not> is_cont 0" "\<not> second_ok b 0"
  by (simp_all add: is_cont_def second_ok_def)

lemma safe_get_cont: "is_cont (safe_get s i) \<Longrightarrow> i < length s" "second_ok b (safe_get s i) \<Longrightarrow> i < length s"
  by (auto simp: safe_get_def split: if_splits)

lemma utf8_front_len: "s \<noteq> [] \<Longrightarrow> snd (utf8_front s) \<le> length s"
  by (auto simp: utf8_front_def front4_def Suc_le_eq One_nat_def numeral_eq_Suc split: if_splits dest: safe_get_cont)

lemma front4_cong:
  "fst (front4 b c d e) \<Longrightarrow> n = snd (front4 b c d e) \<Longrightarrow> (0 < n \<Longrightarrow> b' = b) \<Longrightarrow> (1 < n \<Longrightarrow> c' = c) \<Longrightarrow>
    (2 < n \<Longrightarrow> d' = d) \<Longrightarrow> (3 < n \<Longrightarrow> e' = e) \<Longrightarrow> front4 b' c' d' e' = front4 b c d e"
  unfolding front4_def by (auto split: if_splits)

text \<open>A valid sequence at the front stays one when anything follows it.\<close>

lemma utf8_front_take:
  assumes "s \<noteq> []" "fst (utf8_front s)"
  shows "utf8_front (take (snd (utf8_front s)) s @ t) = utf8_front s"
proof -
  let ?n = "snd (utf8_front s)"
  have g: "safe_get (take ?n s @ t) i = safe_get s i" if "i < ?n" for i
    using that utf8_front_len[OF assms(1)] by (simp add: safe_get_def nth_append)
  show ?thesis using front4_cong[OF _ refl g g g g] assms(2) by (simp add: utf8_front_def)
qed

lemma utf8_valid_append_front:
  assumes "s \<noteq> []" "fst (utf8_front s)" "utf8_valid t"
  shows "utf8_valid (take (snd (utf8_front s)) s @ t)"
proof -
  let ?n = "snd (utf8_front s)"
  have "take ?n s \<noteq> []" using assms(1) utf8_front_pos[of s] by simp
  then show ?thesis using utf8_front_take[OF assms(1,2), of t] assms utf8_front_len[OF assms(1)]
    by (simp add: utf8_valid_step)
qed

lemma utf8_valid_replacement: "utf8_valid t \<Longrightarrow> utf8_valid (REPLACEMENT @ t)"
  using utf8_valid_append_front[of REPLACEMENT t]
  by (simp add: REPLACEMENT_def utf8_front_def front4_def is_ascii_byte_def lead2_def lead3_def safe_get_def is_cont_def second_ok_def numeral_3_eq_3 One_nat_def)

lemma lossy_valid: "utf8_valid (lossy_bytes s)"
proof (induction s rule: utf8_chunks.induct)
  case (1 s)
  show ?case
  proof (cases "s = []")
    case True
    then show ?thesis by (simp add: lossy_bytes_def utf8_chunks.simps)
  next
    case False
    let ?t = "drop (snd (utf8_front s)) s"
    have "lossy_bytes s = (if fst (utf8_front s) then take (snd (utf8_front s)) s else REPLACEMENT) @ lossy_bytes ?t"
      using False by (simp add: lossy_bytes_def utf8_chunks.simps[of s])
    then show ?thesis using 1[OF False] False by (simp add: utf8_valid_append_front utf8_valid_replacement)
  qed
qed

lemma lossy_id: "utf8_valid s \<Longrightarrow> lossy_bytes s = s"
proof (induction s rule: utf8_chunks.induct)
  case (1 s)
  then show ?case
    by (cases "s = []") (auto simp: utf8_valid_step lossy_bytes_def utf8_chunks.simps[of s] utf8_chunks.simps[of "[]"])
qed

text \<open>Lossy decoding always gives valid UTF-8, is the identity on valid UTF-8, and so decoding its
  result again changes nothing.\<close>

theorem lossy_idempotent:
  "utf8_valid (lossy_bytes s) \<and> lossy_bytes (lossy_bytes s) = lossy_bytes s \<and>
   (from_utf8 s = Some t \<longrightarrow> from_utf8_lossy s = t)"
  using lossy_valid[of s] lossy_id[of s] lossy_id[OF lossy_valid[of s]]
  by (auto simp: from_utf8_def utf8_valid_def from_utf8_lossy_def split: if_splits)

text \<open>Offsets stay numerals in the protocol theories.\<close>

declare add_2_eq_Suc [simp del] add_2_eq_Suc' [simp del] One_nat_def [simp del]

end
