(* ===== verification/Naming.thy ===== *)
theory Naming
  imports Utf8
begin

text \<open>
  Name services of \<open>pktflow-plugins/src\<close>: DNS with its compressed names (\<open>dns.rs\<close>), multicast DNS and
  LLMNR on the same message decoder (\<open>mdns.rs\<close>, \<open>llmnr.rs\<close>) and the NetBIOS name service
  (\<open>netbios_ns.rs\<close>). The decoder of names follows pointers, so its loop is not structural: every step
  either moves forward or spends one of the 64 jumps.
\<close>

section \<open>Compressed names\<close>

definition MAX_POINTER_JUMPS :: usize where "MAX_POINTER_JUMPS = 64"
definition MAX_NAME_LEN :: usize where "MAX_NAME_LEN = 255"
definition MAX_RECORDS_PER_SECTION :: u16 where "MAX_RECORDS_PER_SECTION = 128"

definition label_char :: "byte \<Rightarrow> char" where
  "label_char c = (if is_ascii_graphic c \<and> c \<noteq> 0x2E then char_from c else CHR ''?'')"

definition push_label :: "string \<Rightarrow> byte list \<Rightarrow> string" where
  "push_label nm lab = (if nm \<noteq> [] then nm @ ''.'' else nm) @ map label_char lab"

text \<open>The loop: \<open>start\<close> stays, the other arguments are its variables.\<close>

function name_walk :: "byte list \<Rightarrow> usize \<Rightarrow> usize \<Rightarrow> usize option \<Rightarrow> usize \<Rightarrow> string \<Rightarrow> parse_error + string \<times> usize" where
  "name_walk msg start i used jumps nm =
    (case elem_get msg i of
       None \<Rightarrow> Inl (Malformed ''name runs past message'')
     | Some l \<Rightarrow>
        if l = 0 then Inr (nm, (case used of Some c \<Rightarrow> c | None \<Rightarrow> i + 1 - start))
        else if l AND 0xC0 = 0xC0 then
          (case elem_get msg (i + 1) of
             None \<Rightarrow> Inl (Malformed ''pointer runs past message'')
           | Some low \<Rightarrow>
              let used' = (case used of Some c \<Rightarrow> Some c | None \<Rightarrow> Some (i + 2 - start));
                  target = unat (l AND 0x3F) * 256 + unat low
              in if i \<le> target then Inl (Malformed ''forward compression pointer'')
                 else if MAX_POINTER_JUMPS < jumps + 1 then Inl (Malformed ''compression pointer chain too long'')
                 else name_walk msg start target used' (jumps + 1) nm)
        else if l AND 0xC0 = 0 then
          (case slice_get msg (i + 1) (i + 1 + unat l) of
             None \<Rightarrow> Inl (Malformed ''label runs past message'')
           | Some lab \<Rightarrow>
              if MAX_NAME_LEN < length (push_label nm lab) then Inl (Malformed ''name too long'')
              else name_walk msg start (i + 1 + unat l) used jumps (push_label nm lab))
        else Inl (Malformed ''reserved label type''))"
  by pat_completeness auto
termination
  by (relation "measures [\<lambda>(msg, start, i, used, jumps, nm). MAX_POINTER_JUMPS - jumps, \<lambda>(msg, start, i, used, jumps, nm). length msg - i]")
    (auto simp: elem_get_def slice_get_def split: if_splits)

declare name_walk.simps [simp del]

definition decode_name :: "byte list \<Rightarrow> usize \<Rightarrow> parse_error + string \<times> usize" where
  "decode_name msg start = name_walk msg start start None 0 []"

section \<open>Messages\<close>

fun pairs :: "'a list \<Rightarrow> ('a \<times> 'a) list" where
  "pairs (a # b # r) = (a, b) # pairs r"
| "pairs _ = []"

definition render_rdata :: "byte list \<Rightarrow> u16 \<Rightarrow> usize \<Rightarrow> byte list \<Rightarrow> string" where
  "render_rdata msg rtype rdata_offset rdata =
    (let other = ''type'' @ show_nat (unat rtype) in
     if rtype = 1 \<and> length rdata = 4 then join ''.'' (map (\<lambda>b. show_nat (unat b)) rdata)
     else if rtype = 28 \<and> length rdata = 16 then
       join '':'' (map (\<lambda>(a, b). show_hex (unat (from_be_bytes [a, b] :: u16))) (pairs rdata))
     else if rtype = 5 \<or> rtype = 12 then
       (case decode_name msg rdata_offset of Inr (n, _) \<Rightarrow> n | Inl _ \<Rightarrow> other)
     else other)"

record raw_message =
  rm_id :: u16
  rm_flags :: u16
  rm_counts :: "u16 list"
  rm_qname :: "string option"
  rm_qtype :: "u16 option"
  rm_qclass :: "u16 option"
  rm_first_answer_class :: "u16 option"
  rm_answers :: "value_t list"
  rm_header_len :: usize

text \<open>The question loop, then one loop per record section; \<open>rm_header_len\<close> is the loop's \<open>pos\<close>.\<close>

fun question_walk :: "byte list \<Rightarrow> nat \<Rightarrow> raw_message \<Rightarrow> parse_error + raw_message" where
  "question_walk msg 0 m = Inr m"
| "question_walk msg (Suc n) m =
    and_then (decode_name msg (rm_header_len m)) (\<lambda>(nm, used).
    let i = rm_header_len m + used; q = new_reader (drop i msg) in
    try_read (read_u16_be q) (\<lambda>t q.
    try_read (read_u16_be q) (\<lambda>cls q.
    let m = m\<lparr>rm_header_len := i + 4\<rparr>;
        m = (if rm_qname m = None then m\<lparr>rm_qname := Some nm, rm_qtype := Some t, rm_qclass := Some cls\<rparr> else m)
    in question_walk msg n m)))"

fun record_walk :: "byte list \<Rightarrow> bool \<Rightarrow> nat \<Rightarrow> raw_message \<Rightarrow> parse_error + raw_message" where
  "record_walk msg answers 0 m = Inr m"
| "record_walk msg answers (Suc n) m =
    and_then (decode_name msg (rm_header_len m)) (\<lambda>(_, used).
    let i = rm_header_len m + used; q = new_reader (drop i msg) in
    try_read (read_u16_be q) (\<lambda>rtype q.
    try_read (read_u16_be q) (\<lambda>cls q.
    try_read (read_u32_be q) (\<lambda>_ q.
    try_read (read_u16_be q) (\<lambda>rdlength q.
    try_read (take_bytes q (unat rdlength)) (\<lambda>rdata q.
    let m = (if answers then
               m\<lparr>rm_first_answer_class := (case rm_first_answer_class m of None \<Rightarrow> Some cls | Some c \<Rightarrow> Some c),
                 rm_answers := rm_answers m @ [Str (render_rdata msg rtype (i + 10) rdata)]\<rparr>
             else m)
    in record_walk msg answers n (m\<lparr>rm_header_len := i + (10 + unat rdlength)\<rparr>)))))))"

definition parse_message :: "byte list \<Rightarrow> parse_error + raw_message" where
  "parse_message msg =
    (let r = new_reader msg in
     try_read (read_u16_be r) (\<lambda>id r.
     try_read (read_u16_be r) (\<lambda>flags r.
     try_read (read_u16_be r) (\<lambda>qd r.
     try_read (read_u16_be r) (\<lambda>an r.
     try_read (read_u16_be r) (\<lambda>ns r.
     try_read (read_u16_be r) (\<lambda>ar r.
     if \<exists>c \<in> set [qd, an, ns, ar]. MAX_RECORDS_PER_SECTION < c then Inl (Malformed ''implausible section count'')
     else
     let m = \<lparr>rm_id = id, rm_flags = flags, rm_counts = [qd, an, ns, ar], rm_qname = None, rm_qtype = None, rm_qclass = None,
           rm_first_answer_class = None, rm_answers = [], rm_header_len = 12\<rparr>
     in and_then (question_walk msg (unat qd) m) (\<lambda>m.
        and_then (record_walk msg True (unat an) m) (\<lambda>m.
        and_then (record_walk msg False (unat ns) m) (\<lambda>m. record_walk msg False (unat ar) m))))))))))"

section \<open>DNS, mDNS and LLMNR\<close>

definition question_fields :: "raw_message \<Rightarrow> (field_name \<times> value_t) list" where
  "question_fields m =
    (case (rm_qname m, rm_qtype m) of
       (Some nm, Some t) \<Rightarrow> [(''qname'', Str nm), (''qtype'', U64 (ucast t))]
     | _ \<Rightarrow> [])"

definition flag_fields :: "raw_message \<Rightarrow> (field_name \<times> value_t) list" where
  "flag_fields m =
    [(''id'', U64 (ucast (rm_id m))), (''is_response'', VBool (rm_flags m AND 0x8000 \<noteq> 0)),
     (''opcode'', U64 (ucast (drop_bit 11 (rm_flags m) AND 0xF))), (''rcode'', U64 (ucast (rm_flags m AND 0xF)))]"

definition dns_identity :: stream_identity where
  "dns_identity = keyed [''app''] [rolled ''qname'' Accumulate, rolled ''rcode'' Accumulate]"

definition dns_frame :: "byte list \<Rightarrow> parse_ctx \<Rightarrow> parse_error + byte list \<times> usize" where
  "dns_frame bytes ctx =
    (if (case ctx_prev ctx of Some l \<Rightarrow> lr_protocol l = ''tcp'' | None \<Rightarrow> False) then
       try_read (read_u16_be (new_reader bytes)) (\<lambda>msg_len r.
       try_read (take_bytes r (unat msg_len)) (\<lambda>msg r. Inr (msg, 2)))
     else Inr (bytes, 0))"

definition dns_parse :: "byte list \<Rightarrow> parse_ctx \<Rightarrow> parse_error + parsed_layer" where
  "dns_parse bytes ctx =
    and_then (dns_frame bytes ctx) (\<lambda>(msg, prefix).
    and_then (parse_message msg) (\<lambda>raw.
    let fm = fm_new;
        fm = insert_at Keys (ctx_depth ctx) [(''app'', Str ''dns'')] fm;
        fm = insert_at Structural (ctx_depth ctx) (flag_fields raw @ question_fields raw) fm;
        fm = insert_at Full (ctx_depth ctx)
          [(''answers'', VList (rm_answers raw)), (''qdcount'', U64 (ucast (rm_counts raw ! 0))), (''ancount'', U64 (ucast (rm_counts raw ! 1))),
           (''nscount'', U64 (ucast (rm_counts raw ! 2))), (''arcount'', U64 (ucast (rm_counts raw ! 3)))] fm
    in Inr \<lparr>pl_header_len = prefix + rm_header_len raw, pl_fields = fm, pl_hint = Terminal\<rparr>))"

definition dns :: plugin where
  "dns = (default_plugin ''dns'' dns_parse)
     \<lparr>pg_claims := [UdpPort 53, TcpPort 53], pg_stream_identity := Some dns_identity\<rparr>"

definition TOP_BIT :: u16 where "TOP_BIT = 0x8000"

definition mdns_identity :: stream_identity where
  "mdns_identity = keyed [''app''] [rolled ''qname'' Accumulate]"

definition mdns_parse :: "byte list \<Rightarrow> parse_ctx \<Rightarrow> parse_error + parsed_layer" where
  "mdns_parse bytes ctx =
    and_then (parse_message bytes) (\<lambda>raw.
    let fm = fm_new;
        fm = insert_at Keys (ctx_depth ctx) [(''app'', Str ''mdns'')] fm;
        fm = insert_at Structural (ctx_depth ctx)
          (flag_fields raw @ question_fields raw @
           opt_field ''is_multicast_query'' (map_option (\<lambda>c. VBool (c AND TOP_BIT \<noteq> 0)) (rm_qclass raw)) @
           opt_field ''cache_flush'' (map_option (\<lambda>c. VBool (c AND TOP_BIT \<noteq> 0)) (rm_first_answer_class raw))) fm;
        fm = insert_at Full (ctx_depth ctx) [(''answers'', VList (rm_answers raw))] fm
    in Inr \<lparr>pl_header_len = rm_header_len raw, pl_fields = fm, pl_hint = Terminal\<rparr>)"

definition mdns :: plugin where
  "mdns = (default_plugin ''mdns'' mdns_parse)\<lparr>pg_claims := [UdpPort 5353], pg_stream_identity := Some mdns_identity\<rparr>"

definition CONFLICT_BIT :: u16 where "CONFLICT_BIT = 0x0400"
definition TENTATIVE_BIT :: u16 where "TENTATIVE_BIT = 0x0100"

definition llmnr_identity :: stream_identity where
  "llmnr_identity = keyed [''app''] [rolled ''qname'' Accumulate]"

definition llmnr_parse :: "byte list \<Rightarrow> parse_ctx \<Rightarrow> parse_error + parsed_layer" where
  "llmnr_parse bytes ctx =
    and_then (parse_message bytes) (\<lambda>raw.
    let fm = fm_new;
        fm = insert_at Keys (ctx_depth ctx) [(''app'', Str ''llmnr'')] fm;
        fm = insert_at Structural (ctx_depth ctx)
          (flag_fields raw @
           [(''conflict'', VBool (rm_flags raw AND CONFLICT_BIT \<noteq> 0)), (''tentative'', VBool (rm_flags raw AND TENTATIVE_BIT \<noteq> 0))] @
           question_fields raw) fm;
        fm = insert_at Full (ctx_depth ctx) [(''answers'', VList (rm_answers raw))] fm
    in Inr \<lparr>pl_header_len = rm_header_len raw, pl_fields = fm, pl_hint = Terminal\<rparr>)"

definition llmnr :: plugin where
  "llmnr = (default_plugin ''llmnr'' llmnr_parse)\<lparr>pg_claims := [UdpPort 5355], pg_stream_identity := Some llmnr_identity\<rparr>"

section \<open>NetBIOS names\<close>

definition FIRST_LEVEL_LEN :: usize where "FIRST_LEVEL_LEN = 32"

definition nibble :: "byte \<Rightarrow> parse_error + byte" where
  "nibble c =
    (if 0x41 \<le> c \<and> c \<le> 0x50 then Inr (c - 0x41)
     else Inl (Malformed ''netbios_ns: byte outside first-level encoding alphabet''))"

fun decode_nibbles :: "byte list \<Rightarrow> parse_error + byte list" where
  "decode_nibbles (a # b # r) =
    and_then (nibble a) (\<lambda>h. and_then (nibble b) (\<lambda>l. and_then (decode_nibbles r) (\<lambda>t. Inr ((push_bit 4 h OR l) # t))))"
| "decode_nibbles _ = Inr []"

definition decode_first_level :: "byte list \<Rightarrow> parse_error + byte list" where
  "decode_first_level encoded =
    (if length encoded \<noteq> FIRST_LEVEL_LEN then Inl (Malformed ''netbios_ns: first-level name is not 32 characters'')
     else decode_nibbles encoded)"

definition render_name :: "byte list \<Rightarrow> string" where
  "render_name name_bytes =
    map (\<lambda>c. if is_ascii_graphic c then char_from c else CHR ''?'') (rev (dropWhile (\<lambda>b. b = 0x20) (rev name_bytes)))"

definition netbios_ns_identity :: stream_identity where
  "netbios_ns_identity = keyed [''app''] [rolled ''name'' Accumulate]"

definition netbios_name :: "byte_reader \<Rightarrow> parse_error + (string \<times> u64 \<times> u64) \<times> byte_reader" where
  "netbios_name r =
    try_read (read_u8 r) (\<lambda>label_len r.
    if unat label_len \<noteq> FIRST_LEVEL_LEN then Inl (Malformed ''netbios_ns: name label is not the 32-char first-level form'')
    else
    try_read (take_bytes r FIRST_LEVEL_LEN) (\<lambda>encoded r.
    and_then (decode_first_level encoded) (\<lambda>decoded.
    try_read (read_u8 r) (\<lambda>terminator r.
    if terminator \<noteq> 0 then Inl (Malformed ''netbios_ns: scoped names are not supported'')
    else
    try_read (read_u16_be r) (\<lambda>ty r.
    try_read (read_u16_be r) (\<lambda>_ r.
      Inr ((render_name (take 15 decoded), ucast (decoded ! 15), ucast ty), r)))))))"

definition netbios_ns_parse :: "byte list \<Rightarrow> parse_ctx \<Rightarrow> parse_error + parsed_layer" where
  "netbios_ns_parse bytes ctx =
    (let r = new_reader bytes in
     try_read (read_u16_be r) (\<lambda>_ r.
     try_read (read_u16_be r) (\<lambda>flags r.
     let opcode = ucast (drop_bit 11 flags AND 0x0F); nm_flags = ucast (drop_bit 4 flags AND 0x7F); rcode = ucast (flags AND 0x0F) in
     try_read (read_u16_be r) (\<lambda>qdcount r.
     try_read (read_u16_be r) (\<lambda>ancount r.
     try_read (read_u16_be r) (\<lambda>_ r.
     try_read (read_u16_be r) (\<lambda>_ r.
     and_then (if 1 \<le> qdcount \<or> 1 \<le> ancount then and_then (netbios_name r) (\<lambda>(x, r). Inr (Some x, r)) else Inr (None, r)) (\<lambda>(x, r).
     let fm = fm_new;
         fm = insert_at Keys (ctx_depth ctx) [(''app'', Str ''netbios_ns'')] fm;
         fm = insert_at Structural (ctx_depth ctx)
           [(''opcode'', U64 opcode), (''nm_flags'', U64 nm_flags), (''rcode'', U64 rcode),
            (''question_count'', U64 (ucast qdcount)), (''answer_count'', U64 (ucast ancount))] fm;
         fm = insert_at Full (ctx_depth ctx)
           (case x of Some (n, t, rr) \<Rightarrow> [(''name'', Str n), (''name_type'', U64 t), (''rr_type'', U64 rr)] | None \<Rightarrow> []) fm
     in Inr \<lparr>pl_header_len = consumed bytes r, pl_fields = fm, pl_hint = Terminal\<rparr>))))))))"

definition netbios_ns :: plugin where
  "netbios_ns = (default_plugin ''netbios_ns'' netbios_ns_parse)
     \<lparr>pg_claims := [UdpPort 137], pg_stream_identity := Some netbios_ns_identity\<rparr>"

section \<open>The name decoder stays in bounds\<close>

definition name_char :: "char \<Rightarrow> bool" where
  "name_char c \<longleftrightarrow> 0x21 \<le> code c \<and> code c \<le> 0x7E"

lemma label_char_ok: "name_char (label_char b)"
  by (auto simp: label_char_def name_char_def is_ascii_graphic_def char_from_def code_def word_le_nat_alt)

lemma push_label_ok: "list_all name_char nm \<Longrightarrow> list_all name_char (push_label nm lab)"
  using label_char_ok by (auto simp: push_label_def list_all_iff) (simp_all add: name_char_def code_def)

lemma name_walk_bounds:
  "name_walk msg start i used jumps nm = Inr (n, c) \<Longrightarrow>
   (case used of None \<Rightarrow> start \<le> i | Some u \<Rightarrow> 0 < u \<and> start + u \<le> length msg) \<Longrightarrow> length nm \<le> MAX_NAME_LEN \<Longrightarrow> list_all name_char nm \<Longrightarrow>
    0 < c \<and> start + c \<le> length msg \<and> length n \<le> MAX_NAME_LEN \<and> list_all name_char n"
proof (induction msg start i used jumps nm rule: name_walk.induct)
  case (1 msg start i used jumps nm)
  obtain l where l: "elem_get msg i = Some l" using 1(3) unfolding name_walk.simps[of msg start i]
    by (auto split: option.splits)
  have i: "i < length msg" using l by (simp add: elem_get_def split: if_splits)
  consider (stop) "l = 0" | (jump) "l \<noteq> 0" "l AND 0xC0 = 0xC0" | (lab) "l \<noteq> 0" "l AND 0xC0 \<noteq> 0xC0" "l AND 0xC0 = 0"
    using 1(3) l unfolding name_walk.simps[of msg start i] by (auto split: if_splits)
  then show ?case
  proof cases
    case stop
    then show ?thesis using 1(3-6) l i unfolding name_walk.simps[of msg start i] by (auto split: option.splits)
  next
    case jump
    then obtain low where low: "elem_get msg (i + 1) = Some low"
      using 1(3) l unfolding name_walk.simps[of msg start i] by (auto split: option.splits)
    have i1: "i + 1 < length msg" using low by (simp add: elem_get_def split: if_splits)
    show ?thesis
      using 1(1)[OF l jump(1,2) low refl refl] 1(3-6) jump l low i1 unfolding name_walk.simps[of msg start i]
      by (auto simp: Let_def split: option.splits if_splits)
  next
    case lab
    then obtain x where x: "slice_get msg (i + 1) (i + 1 + unat l) = Some x"
      using 1(3) l unfolding name_walk.simps[of msg start i] by (auto split: option.splits)
    show ?thesis
      using 1(2)[OF l lab x] 1(3-6) lab l x push_label_ok unfolding name_walk.simps[of msg start i]
      by (auto split: option.splits if_splits)
  qed
qed

lemma decode_name_used: "decode_name msg i = Inr (n, c) \<Longrightarrow> 0 < c \<and> i + c \<le> length msg"
  unfolding decode_name_def by (drule name_walk_bounds) auto

lemma question_walk_len:
  "question_walk msg n m = Inr m' \<Longrightarrow> rm_header_len m \<le> length msg \<Longrightarrow> rm_header_len m' \<le> length msg"
proof (induction n arbitrary: m)
  case (Suc n)
  then show ?case
    by (fastforce simp: and_then_Inr_iff reader_simps Let_def fits_def split: if_splits dest!: decode_name_used)
qed simp

lemma record_walk_len:
  "record_walk msg a n m = Inr m' \<Longrightarrow> rm_header_len m \<le> length msg \<Longrightarrow> rm_header_len m' \<le> length msg"
proof (induction n arbitrary: m)
  case (Suc n)
  then show ?case
    by (fastforce simp: and_then_Inr_iff reader_simps Let_def fits_def split: if_splits dest!: decode_name_used)
qed simp

lemma parse_message_len: "parse_message msg = Inr m \<Longrightarrow> rm_header_len m \<le> length msg"
  by (fastforce simp: parse_message_def and_then_Inr_iff reader_simps Let_def fits_def if_malformed_Inr
      dest!: question_walk_len record_walk_len)

section \<open>What a name is\<close>

text \<open>Names as RFC 1035 has them: labels of 1 to 63 bytes up to the zero byte, where the rest may stand
  at an earlier offset that a pointer names. The numbers count the pointers and the bytes the name takes
  where it starts.\<close>

inductive name_at :: "byte list \<Rightarrow> nat \<Rightarrow> nat \<Rightarrow> byte list list \<Rightarrow> nat \<Rightarrow> bool" for msg where
  name_end: "i < length msg \<Longrightarrow> msg ! i = 0 \<Longrightarrow> name_at msg i 0 [] 1"
| name_label: "i + 1 + unat (msg ! i) \<le> length msg \<Longrightarrow> msg ! i \<noteq> 0 \<Longrightarrow> msg ! i AND 0xC0 = 0 \<Longrightarrow>
    name_at msg (i + 1 + unat (msg ! i)) j ls c \<Longrightarrow>
    name_at msg i j (bytes_at msg (i + 1) (unat (msg ! i)) # ls) (1 + unat (msg ! i) + c)"
| name_pointer: "i + 1 < length msg \<Longrightarrow> msg ! i AND 0xC0 = 0xC0 \<Longrightarrow>
    t = unat (msg ! i AND 0x3F) * 256 + unat (msg ! (i + 1)) \<Longrightarrow> t < i \<Longrightarrow> name_at msg t j ls c \<Longrightarrow> name_at msg i (Suc j) ls 2"

text \<open>The text of a name: its labels joined by dots, each byte that is not printable shown as \<open>?\<close>.\<close>

definition dotted :: "byte list list \<Rightarrow> string" where
  "dotted ls = join ''.'' (map (map label_char) ls)"

lemma push_label_len: "length nm \<le> length (push_label nm lab)"
  by (simp add: push_label_def)

lemma push_labels_len: "length nm \<le> length (foldl push_label nm ls)"
  by (induction ls arbitrary: nm) (auto intro: order_trans[OF push_label_len])

lemma name_at_labels: "name_at msg i j ls c \<Longrightarrow> lab \<in> set ls \<Longrightarrow> lab \<noteq> []"
proof (induction rule: name_at.induct)
  case (name_label i j ls c)
  then have "0 < length (bytes_at msg (i + 1) (unat (msg ! i)))" by (simp add: unat_gt_0)
  then have "bytes_at msg (i + 1) (unat (msg ! i)) \<noteq> []" by blast
  then show ?case using name_label by auto
qed simp_all

lemma push_labels: "(\<And>lab. lab \<in> set ls \<Longrightarrow> lab \<noteq> []) \<Longrightarrow> nm \<noteq> [] \<Longrightarrow> ls \<noteq> [] \<Longrightarrow> foldl push_label nm ls = nm @ ''.'' @ dotted ls"
proof (induction ls arbitrary: nm)
  case (Cons l ls)
  have "foldl push_label nm (l # ls) = foldl push_label (nm @ ''.'' @ map label_char l) ls"
    using Cons.prems(2) by (simp add: push_label_def)
  also have "\<dots> = nm @ ''.'' @ dotted (l # ls)"
    using Cons.IH[of "nm @ ''.'' @ map label_char l"] Cons.prems by (cases ls) (simp_all add: dotted_def)
  finally show ?case .
qed simp

lemma push_labels_dotted: "(\<And>lab. lab \<in> set ls \<Longrightarrow> lab \<noteq> []) \<Longrightarrow> foldl push_label [] ls = dotted ls"
proof (cases ls)
  case (Cons l ls')
  assume "\<And>lab. lab \<in> set ls \<Longrightarrow> lab \<noteq> []"
  then show ?thesis using push_labels[of ls' "map label_char l"] Cons by (cases ls') (auto simp: push_label_def dotted_def)
qed (simp add: dotted_def)

lemma slice_bytes_at: "slice_get msg i (i + n) = (if i + n \<le> length msg then Some (bytes_at msg i n) else None)"
  by (simp add: slice_get_def bytes_at_def)

definition used_or :: "nat option \<Rightarrow> nat \<Rightarrow> nat" where
  "used_or used c = (case used of Some u \<Rightarrow> u | None \<Rightarrow> c)"

lemma name_walk_sound:
  "name_walk msg start i used jumps nm = Inr (n, c) \<Longrightarrow> length nm \<le> MAX_NAME_LEN \<Longrightarrow> jumps \<le> MAX_POINTER_JUMPS \<Longrightarrow>
    (used = None \<longrightarrow> start \<le> i) \<Longrightarrow>
    \<exists>j ls c'. name_at msg i j ls c' \<and> jumps + j \<le> MAX_POINTER_JUMPS \<and> n = foldl push_label nm ls \<and> length n \<le> MAX_NAME_LEN \<and>
      c = used_or used (i + c' - start)"
proof (induction msg start i used jumps nm rule: name_walk.induct)
  case (1 msg start i used jumps nm)
  obtain l where l: "elem_get msg i = Some l" using 1(3) unfolding name_walk.simps[of msg start i]
    by (auto split: option.splits)
  have i: "i < length msg" "msg ! i = l" using l by (simp_all add: elem_get_def split: if_splits)
  consider (stop) "l = 0" | (jump) "l \<noteq> 0" "l AND 0xC0 = 0xC0" | (lab) "l \<noteq> 0" "l AND 0xC0 \<noteq> 0xC0" "l AND 0xC0 = 0"
    using 1(3) l unfolding name_walk.simps[of msg start i] by (auto split: if_splits)
  then show ?case
  proof cases
    case stop
    then have "name_at msg i 0 [] 1" using i by (simp add: name_end)
    then show ?thesis using 1(3-6) l stop unfolding name_walk.simps[of msg start i]
      by (intro exI[of _ 0] exI[of _ "[]"] exI[of _ 1]) (auto simp: used_or_def split: option.splits)
  next
    case jump
    then obtain low where low: "elem_get msg (i + 1) = Some low"
      using 1(3) l unfolding name_walk.simps[of msg start i] by (auto split: option.splits)
    let ?t = "unat (l AND 0x3F) * 256 + unat low"
    have i1: "i + 1 < length msg" "msg ! (i + 1) = low" using low by (simp_all add: elem_get_def split: if_splits)
    have t: "?t < i" "jumps + 1 \<le> MAX_POINTER_JUMPS"
      using 1(3) l low jump unfolding name_walk.simps[of msg start i] by (auto simp: Let_def split: if_splits)
    have w: "name_walk msg start ?t (case used of None \<Rightarrow> Some (i + 2 - start) | Some x \<Rightarrow> Some x) (jumps + 1) nm = Inr (n, c)"
      using 1(3) l low jump t unfolding name_walk.simps[of msg start i] by (simp add: Let_def)
    obtain j ls c' where "name_at msg ?t j ls c'" "jumps + 1 + j \<le> MAX_POINTER_JUMPS" "n = foldl push_label nm ls" "length n \<le> MAX_NAME_LEN"
        "c = used_or used (i + 2 - start)"
      using 1(1)[OF l jump low refl refl _ _ w] t 1(4) by (cases used) (auto simp: used_or_def)
    then show ?thesis using name_pointer[OF i1(1), of ?t j ls c'] i i1 jump t
      by (intro exI[of _ "Suc j"] exI[of _ ls] exI[of _ 2]) simp
  next
    case lab
    then obtain x where x: "slice_get msg (i + 1) (i + 1 + unat l) = Some x"
      using 1(3) l unfolding name_walk.simps[of msg start i] by (auto split: option.splits)
    have xs: "i + 1 + unat l \<le> length msg" "x = bytes_at msg (i + 1) (unat l)"
      using x by (simp_all add: slice_bytes_at split: if_splits)
    have w: "name_walk msg start (i + 1 + unat l) used jumps (push_label nm x) = Inr (n, c)" "\<not> MAX_NAME_LEN < length (push_label nm x)"
      using 1(3) l lab x unfolding name_walk.simps[of msg start i] by (auto split: if_splits)
    obtain j ls c' where "name_at msg (i + 1 + unat l) j ls c'" "jumps + j \<le> MAX_POINTER_JUMPS" "n = foldl push_label (push_label nm x) ls"
        "length n \<le> MAX_NAME_LEN" "c = used_or used (i + 1 + unat l + c' - start)"
      using 1(2)[OF l lab x w(2,1)] 1(5,6) w(2) by (auto simp: trans_le_add1)
    then show ?thesis using name_label[of i msg j ls c'] i lab xs
      by (intro exI[of _ j] exI[of _ "x # ls"] exI[of _ "1 + unat l + c'"]) (simp add: add.assoc)
  qed
qed

lemma name_walk_complete:
  "name_at msg i j ls c \<Longrightarrow> jumps + j \<le> MAX_POINTER_JUMPS \<Longrightarrow> length (foldl push_label nm ls) \<le> MAX_NAME_LEN \<Longrightarrow>
    name_walk msg start i used jumps nm = Inr (foldl push_label nm ls, used_or used (i + c - start))"
proof (induction arbitrary: used jumps nm rule: name_at.induct)
  case (name_end i)
  then show ?case by (simp add: name_walk.simps[of msg start i] elem_get_def used_or_def)
next
  case (name_label i j ls c)
  let ?lab = "bytes_at msg (i + 1) (unat (msg ! i))"
  have "length (push_label nm ?lab) \<le> MAX_NAME_LEN"
    using name_label.prems(2) push_labels_len[of "push_label nm ?lab" ls] by simp
  moreover have "i < length msg" "msg ! i AND 0xC0 \<noteq> 0xC0" using name_label.hyps by simp_all
  moreover have "i + (1 + unat (msg ! i) + c) = i + 1 + unat (msg ! i) + c" by simp
  ultimately show ?case
    using name_label by (simp only: name_walk.simps[of msg start i]) (simp add: elem_get_def slice_bytes_at)
next
  case (name_pointer i t j ls c)
  then have "i < length msg" "msg ! i \<noteq> 0" by auto
  then show ?case using name_pointer
    by (cases used) (simp_all add: name_walk.simps[of msg start i] elem_get_def Let_def used_or_def)
qed

text \<open>C27. DNS names: decoding succeeds exactly on the names of RFC 1035 that use at most 64 pointers and
  whose text is at most 255 characters; the result is the dotted text of the name and the number of bytes it takes
  where it starts. So the loop always returns, whatever the pointers.\<close>

theorem decode_name_iff:
  "decode_name msg i = Inr (n, c) \<longleftrightarrow>
    (\<exists>j ls. name_at msg i j ls c \<and> j \<le> 64 \<and> n = dotted ls \<and> length n \<le> 255)" (is "?L \<longleftrightarrow> ?R")
proof
  assume ?L
  then have "name_walk msg i i None 0 [] = Inr (n, c)" by (simp add: decode_name_def)
  from name_walk_sound[OF this] obtain j ls
    where *: "name_at msg i j ls c" "j \<le> MAX_POINTER_JUMPS" "n = foldl push_label [] ls" "length n \<le> MAX_NAME_LEN"
    by (auto simp: used_or_def)
  then have "n = dotted ls" using push_labels_dotted[OF name_at_labels[OF *(1)]] by simp
  with *(1,2,4) show ?R by (intro exI[of _ j] exI[of _ ls]) (simp add: MAX_POINTER_JUMPS_def MAX_NAME_LEN_def)
next
  assume ?R
  then obtain j ls where *: "name_at msg i j ls c" "j \<le> 64" "n = dotted ls" "length n \<le> 255" by blast
  have "foldl push_label [] ls = n" using push_labels_dotted[OF name_at_labels[OF *(1)]] *(3) by simp
  then show ?L using name_walk_complete[OF *(1), of 0 "[]" i None] *
    by (simp add: decode_name_def MAX_POINTER_JUMPS_def MAX_NAME_LEN_def used_or_def)
qed

section \<open>The contract\<close>

interpretation dns: layer_plugin dns
  by (rule layer_pluginI)
    (auto simp: dns_def dns_parse_def dns_frame_def dns_identity_def plugin_simps fits_def fm_new_def
      intro!: gives_intros split: if_splits dest!: parse_message_len)

interpretation mdns: layer_plugin mdns
  by (rule layer_pluginI)
    (auto simp: mdns_def mdns_parse_def mdns_identity_def plugin_simps fm_new_def intro!: gives_intros dest!: parse_message_len)

interpretation llmnr: layer_plugin llmnr
  by (rule layer_pluginI)
    (auto simp: llmnr_def llmnr_parse_def llmnr_identity_def plugin_simps fm_new_def intro!: gives_intros dest!: parse_message_len)

interpretation netbios_ns: layer_plugin netbios_ns
  by (rule layer_pluginI)
    (auto simp: netbios_ns_def netbios_ns_parse_def netbios_ns_identity_def plugin_simps fm_new_def intro!: gives_intros)

end
