(* ===== verification/Hosts.thy ===== *)
theory Hosts
  imports Utf8
begin

text \<open>
  Host configuration, time, file transfer and media plugins of \<open>pktflow-plugins/src\<close>: \<open>dhcp.rs\<close>,
  \<open>dhcpv6.rs\<close>, \<open>ntp.rs\<close>, \<open>ptp.rs\<close>, \<open>tftp.rs\<close>, \<open>rtp.rs\<close>, \<open>rtcp.rs\<close>, \<open>radius.rs\<close>.
\<close>

section \<open>DHCP\<close>

definition MAGIC_COOKIE :: u32 where "MAGIC_COOKIE = 0x63825363"

definition dhcp_identity :: stream_identity where
  "dhcp_identity = keyed [''app''] [rolled ''msg_type'' (Series 64), rolled ''client_mac'' Accumulate]"

record dhcp_options =
  dh_msg_type :: "u8 option"
  dh_requested_ip :: "value_t option"
  dh_server_id :: "value_t option"
  dh_hostname :: "value_t option"

definition dhcp_record :: "u8 \<Rightarrow> byte list \<Rightarrow> dhcp_options \<Rightarrow> dhcp_options" where
  "dhcp_record option_code data opts =
    (if option_code = 53 \<and> length data = 1 then opts\<lparr>dh_msg_type := Some (data ! 0)\<rparr>
     else if option_code = 50 \<and> length data = 4 then opts\<lparr>dh_requested_ip := Some (Bytes data)\<rparr>
     else if option_code = 54 \<and> length data = 4 then opts\<lparr>dh_server_id := Some (Bytes data)\<rparr>
     else if option_code = 12 then
       opts\<lparr>dh_hostname := Some (Str (map (\<lambda>c. if is_ascii_graphic c then char_from c else CHR ''?'') data))\<rparr>
     else opts)"

function dhcp_walk :: "byte_reader \<Rightarrow> usize \<Rightarrow> dhcp_options \<Rightarrow> parse_error + dhcp_options \<times> usize" where
  "dhcp_walk r used opts =
    try_read (read_u8 r) (\<lambda>c r1.
    if c = 0 then dhcp_walk r1 (used + 1) opts
    else if c = 255 then Inr (opts, used + 1)
    else
    try_read (read_u8 r1) (\<lambda>len r2.
    try_read (take_bytes r2 (unat len)) (\<lambda>data r3. dhcp_walk r3 (used + 1 + (1 + unat len)) (dhcp_record c data opts))))"
  by pat_completeness auto
termination by (relation "measure (\<lambda>(r, _, _). remaining r)") (auto dest!: read_shrink take_shrink)

declare dhcp_walk.simps [simp del]

definition dhcp_parse :: "byte list \<Rightarrow> parse_ctx \<Rightarrow> parse_error + parsed_layer" where
  "dhcp_parse bytes ctx =
    (let r = new_reader bytes in
     try_read (read_u8 r) (\<lambda>op r.
     try_read (read_u8 r) (\<lambda>_ r.
     try_read (read_u8 r) (\<lambda>hlen r.
     try_read (read_u8 r) (\<lambda>_ r.
     try_read (read_u32_be r) (\<lambda>xid r.
     try_read (read_u32_be r) (\<lambda>_ r.
     try_read (take_bytes r 4) (\<lambda>_ r.
     try_read (take_bytes r 4) (\<lambda>_ r.
     try_read (take_bytes r 4) (\<lambda>_ r.
     try_read (take_bytes r 4) (\<lambda>_ r.
     try_read (take_bytes r 16) (\<lambda>chaddr r.
     try_read (take_bytes r 64) (\<lambda>_ r.
     try_read (take_bytes r 128) (\<lambda>_ r.
     try_read (read_u32_be r) (\<lambda>cookie r.
     if cookie \<noteq> MAGIC_COOKIE then Inl (Malformed ''missing DHCP magic cookie'')
     else
     let client_mac = take (min (unat hlen) 16) chaddr in
     and_then (dhcp_walk r 240 \<lparr>dh_msg_type = None, dh_requested_ip = None, dh_server_id = None, dh_hostname = None\<rparr>) (\<lambda>(opts, used).
     let fm = fm_new;
         fm = insert_at Keys (ctx_depth ctx) [(''app'', Str ''dhcp'')] fm;
         fm = insert_at Structural (ctx_depth ctx)
           ([(''op'', U64 (ucast op))] @ opt_field ''msg_type'' (map_option (\<lambda>t. U64 (ucast t)) (dh_msg_type opts)) @
            [(''xid'', U64 (ucast xid)), (''client_mac'', Bytes client_mac)]) fm;
         fm = insert_at Full (ctx_depth ctx)
           (opt_field ''requested_ip'' (dh_requested_ip opts) @ opt_field ''server_id'' (dh_server_id opts) @
            opt_field ''hostname'' (dh_hostname opts)) fm
     in Inr \<lparr>pl_header_len = used, pl_fields = fm, pl_hint = Terminal\<rparr>))))))))))))))))"

definition dhcp :: plugin where
  "dhcp = (default_plugin ''dhcp'' dhcp_parse)
     \<lparr>pg_claims := [UdpPort 67, UdpPort 68], pg_stream_identity := Some dhcp_identity\<rparr>"

section \<open>DHCPv6\<close>

definition dhcpv6_identity :: stream_identity where
  "dhcpv6_identity = keyed [''app''] [rolled ''msg_type'' (Series 64)]"

text \<open>The section sign of the messages, in UTF-8.\<close>

definition section_sign :: string where "section_sign = [CHR 0xC2, CHR 0xA7]"

function ia_walk :: "byte_reader \<Rightarrow> (byte list \<times> u32 \<times> u32) option \<Rightarrow> parse_error + (byte list \<times> u32 \<times> u32) option" where
  "ia_walk r found =
    (if 0 < remaining r then
       try_read (read_u16_be r) (\<lambda>c r1.
       try_read (read_u16_be r1) (\<lambda>len r2.
       try_read (take_bytes r2 (unat len)) (\<lambda>sub r3.
       if c = 5 \<and> found = None then
         try_read (take_bytes (new_reader sub) 16) (\<lambda>addr sr.
         try_read (read_u32_be sr) (\<lambda>preferred sr.
         try_read (read_u32_be sr) (\<lambda>valid sr. ia_walk r3 (Some (addr, preferred, valid)))))
       else ia_walk r3 found)))
     else Inr found)"
  by pat_completeness auto
termination by (relation "measure (\<lambda>(r, _). remaining r)") (auto dest!: read_shrink take_shrink)

declare ia_walk.simps [simp del]

definition first_ia_address :: "byte list \<Rightarrow> parse_error + (byte list \<times> u32 \<times> u32) option" where
  "first_ia_address data = ia_walk (new_reader data) None"

record dhcpv6_options =
  d6_client_duid :: "value_t option"
  d6_server_duid :: "value_t option"
  d6_address :: "(byte list \<times> u32 \<times> u32) option"

text \<open>An identity association with \<open>skip\<close> bytes before its options.\<close>

definition dhcpv6_ia :: "usize \<Rightarrow> string \<Rightarrow> byte list \<Rightarrow> dhcpv6_options \<Rightarrow> parse_error + dhcpv6_options" where
  "dhcpv6_ia skip msg data opts =
    (if length data < skip then Inl (Malformed msg)
     else and_then (first_ia_address (drop skip data)) (\<lambda>a.
       Inr (case a of Some x \<Rightarrow> opts\<lparr>d6_address := Some x\<rparr> | None \<Rightarrow> opts)))"

definition dhcpv6_record :: "u16 \<Rightarrow> byte list \<Rightarrow> dhcpv6_options \<Rightarrow> parse_error + dhcpv6_options" where
  "dhcpv6_record c data opts =
    (if c = 1 \<and> d6_client_duid opts = None then Inr (opts\<lparr>d6_client_duid := Some (Bytes data)\<rparr>)
     else if c = 2 \<and> d6_server_duid opts = None then Inr (opts\<lparr>d6_server_duid := Some (Bytes data)\<rparr>)
     else if c = 3 \<and> d6_address opts = None then
       dhcpv6_ia 12 (''DHCPv6: IA_NA shorter than IAID+T1+T2 (RFC 8415 '' @ section_sign @ ''21.4)'') data opts
     else if c = 4 \<and> d6_address opts = None then
       dhcpv6_ia 4 (''DHCPv6: IA_TA shorter than IAID (RFC 8415 '' @ section_sign @ ''21.5)'') data opts
     else Inr opts)"

function dhcpv6_walk :: "byte_reader \<Rightarrow> dhcpv6_options \<Rightarrow> parse_error + dhcpv6_options" where
  "dhcpv6_walk r opts =
    (if 0 < remaining r then
       try_read (read_u16_be r) (\<lambda>c r1.
       try_read (read_u16_be r1) (\<lambda>len r2.
       try_read (take_bytes r2 (unat len)) (\<lambda>data r3.
       and_then (dhcpv6_record c data opts) (\<lambda>opts. dhcpv6_walk r3 opts))))
     else Inr opts)"
  by pat_completeness auto
termination by (relation "measure (\<lambda>(r, _). remaining r)") (auto dest!: read_shrink take_shrink)

declare dhcpv6_walk.simps [simp del]

definition dhcpv6_parse :: "byte list \<Rightarrow> parse_ctx \<Rightarrow> parse_error + parsed_layer" where
  "dhcpv6_parse bytes ctx =
    (let r = new_reader bytes in
     try_read (read_u8 r) (\<lambda>msg_type r.
     if msg_type = 12 \<or> msg_type = 13 then
       Inl (Malformed (''DHCPv6: relay message layout not supported (RFC 8415 '' @ section_sign @ ''7.2)''))
     else
     try_read (take_bytes r 3) (\<lambda>xid r.
     let transaction_id = push_bit 16 (ucast (xid ! 0)) OR push_bit 8 (ucast (xid ! 1)) OR ucast (xid ! 2) :: u32 in
     and_then (dhcpv6_walk r \<lparr>d6_client_duid = None, d6_server_duid = None, d6_address = None\<rparr>) (\<lambda>opts.
     let fm = fm_new;
         fm = insert_at Keys (ctx_depth ctx) [(''app'', Str ''dhcpv6'')] fm;
         fm = insert_at Structural (ctx_depth ctx)
           [(''msg_type'', U64 (ucast msg_type)), (''transaction_id'', U64 (ucast transaction_id))] fm;
         fm = insert_at Full (ctx_depth ctx)
           (opt_field ''client_duid'' (d6_client_duid opts) @ opt_field ''server_duid'' (d6_server_duid opts) @
            (case d6_address opts of
               Some (addr, preferred, valid) \<Rightarrow>
                 [(''requested_ip'', Bytes addr), (''preferred_lifetime'', U64 (ucast preferred)), (''valid_lifetime'', U64 (ucast valid))]
             | None \<Rightarrow> [])) fm
     in Inr \<lparr>pl_header_len = length bytes, pl_fields = fm, pl_hint = Terminal\<rparr>))))"

definition dhcpv6 :: plugin where
  "dhcpv6 = (default_plugin ''dhcpv6'' dhcpv6_parse)
     \<lparr>pg_claims := [UdpPort 547, UdpPort 546], pg_stream_identity := Some dhcpv6_identity\<rparr>"

section \<open>Time\<close>

definition ntp_identity :: stream_identity where
  "ntp_identity = keyed [''app''] [rolled ''mode'' Accumulate, rolled ''stratum'' Sample]"

definition ntp_parse :: "byte list \<Rightarrow> parse_ctx \<Rightarrow> parse_error + parsed_layer" where
  "ntp_parse bytes ctx =
    (let r = new_reader bytes in
     try_read (read_u8 r) (\<lambda>li_vn_mode r.
     let mode = li_vn_mode AND 0x07 in
     if mode = 0 then Inl (Malformed ''reserved NTP mode 0'')
     else
     try_read (read_u8 r) (\<lambda>stratum r.
     try_read (read_u8 r) (\<lambda>_ r.
     try_read (read_u8 r) (\<lambda>_ r.
     try_read (read_u32_be r) (\<lambda>_ r.
     try_read (read_u32_be r) (\<lambda>_ r.
     try_read (take_bytes r 4) (\<lambda>ref_id r.
     try_read (read_u64_be r) (\<lambda>ref_ts r.
     try_read (read_u64_be r) (\<lambda>orig_ts r.
     try_read (read_u64_be r) (\<lambda>recv_ts r.
     try_read (read_u64_be r) (\<lambda>xmit_ts r.
     let fm = fm_new;
         fm = insert_at Keys (ctx_depth ctx) [(''app'', Str ''ntp'')] fm;
         fm = insert_at Structural (ctx_depth ctx)
           [(''version'', U64 (ucast (drop_bit 3 li_vn_mode AND 0x07))), (''mode'', U64 (ucast mode)), (''stratum'', U64 (ucast stratum))] fm;
         fm = insert_at Full (ctx_depth ctx)
           [(''ref_id'', Bytes ref_id), (''ref_ts'', U64 ref_ts), (''orig_ts'', U64 orig_ts), (''recv_ts'', U64 recv_ts),
            (''xmit_ts'', U64 xmit_ts)] fm
     in Inr \<lparr>pl_header_len = 48, pl_fields = fm, pl_hint = Terminal\<rparr>))))))))))))"

definition ntp :: plugin where
  "ntp = (default_plugin ''ntp'' ntp_parse)\<lparr>pg_claims := [UdpPort 123], pg_stream_identity := Some ntp_identity\<rparr>"

definition COMMON_HEADER_LEN :: usize where "COMMON_HEADER_LEN = 34"

definition message_type_defined :: "u8 \<Rightarrow> bool" where
  "message_type_defined t \<longleftrightarrow> t \<le> 3 \<or> 8 \<le> t \<and> t \<le> 13"

definition ptp_identity :: stream_identity where
  "ptp_identity = keyed [''domain''] [rolled ''msg_type'' Accumulate]"

definition ptp_parse :: "byte list \<Rightarrow> parse_ctx \<Rightarrow> parse_error + parsed_layer" where
  "ptp_parse bytes ctx =
    (let r = new_reader bytes in
     try_read (read_u8 r) (\<lambda>transport_type r.
     let msg_type = transport_type AND 0x0F in
     if \<not> message_type_defined msg_type then Inl (Malformed ''PTP: reserved message type'')
     else
     try_read (read_u8 r) (\<lambda>v r.
     let version = v AND 0x0F in
     if version \<noteq> 2 then Inl (Malformed ''PTP: version is not 2'')
     else
     try_read (read_u16_be r) (\<lambda>len r.
     let message_length = unat len in
     if message_length < COMMON_HEADER_LEN then Inl (Malformed ''PTP: length below common header'')
     else
     try_read (read_u8 r) (\<lambda>domain r.
     try_read (read_u8 r) (\<lambda>_ r.
     try_read (read_u16_be r) (\<lambda>flags r.
     try_read (read_u64_be r) (\<lambda>correction r.
     try_read (read_u32_be r) (\<lambda>_ r.
     try_read (take_bytes r 8) (\<lambda>clock_identity r.
     try_read (read_u16_be r) (\<lambda>source_port_id r.
     try_read (read_u16_be r) (\<lambda>sequence_id r.
     try_read (read_u8 r) (\<lambda>_ r.
     try_read (read_u8 r) (\<lambda>log_message_interval r.
     try_read (take_bytes r (message_length - COMMON_HEADER_LEN)) (\<lambda>_ r.
     let fm = fm_new;
         fm = insert_at Keys (ctx_depth ctx) [(''domain'', U64 (ucast domain))] fm;
         fm = insert_at Structural (ctx_depth ctx)
           [(''msg_type'', U64 (ucast msg_type)), (''version'', U64 (ucast version)), (''sequence_id'', U64 (ucast sequence_id)),
            (''clock_identity'', Bytes clock_identity)] fm;
         fm = insert_at Full (ctx_depth ctx)
           [(''source_port_id'', U64 (ucast source_port_id)), (''message_length'', U64 (of_nat message_length)),
            (''flags'', U64 (ucast flags)), (''correction'', U64 correction), (''log_message_interval'', I64 (scast log_message_interval))] fm
     in Inr \<lparr>pl_header_len = message_length, pl_fields = fm, pl_hint = Terminal\<rparr>)))))))))))))))"

definition ptp :: plugin where
  "ptp = (default_plugin ''ptp'' ptp_parse)
     \<lparr>pg_claims := [UdpPort 319, UdpPort 320, EtherType 0x88F7], pg_stream_identity := Some ptp_identity\<rparr>"

section \<open>TFTP\<close>

function cstring_walk :: "byte_reader \<Rightarrow> byte list \<Rightarrow> parse_error + byte list \<times> byte_reader" where
  "cstring_walk r out = try_read (read_u8 r) (\<lambda>b r1. if b = 0 then Inr (out, r1) else cstring_walk r1 (out @ [b]))"
  by pat_completeness auto
termination by (relation "measure (\<lambda>(r, _). remaining r)") (auto dest!: read_shrink)

declare cstring_walk.simps [simp del]

definition read_cstring :: "byte_reader \<Rightarrow> parse_error + byte list \<times> byte_reader" where
  "read_cstring r = cstring_walk r []"

definition tftp_parse :: "byte list \<Rightarrow> parse_ctx \<Rightarrow> parse_error + parsed_layer" where
  "tftp_parse bytes ctx =
    (let r = new_reader bytes in
     try_read (read_u16_be r) (\<lambda>opcode r.
     let fm = insert_at Structural (ctx_depth ctx) [(''opcode'', U64 (ucast opcode))] fm_new;
         done = (\<lambda>header_len fm. Inr \<lparr>pl_header_len = header_len, pl_fields = fm, pl_hint = Terminal\<rparr>)
     in
     if opcode = 1 \<or> opcode = 2 then
       and_then (read_cstring r) (\<lambda>(filename, r).
       and_then (read_cstring r) (\<lambda>(mode, r).
         done (consumed bytes r)
           (insert_at Structural (ctx_depth ctx) [(''filename'', Str (from_utf8_lossy filename)), (''mode'', Str (from_utf8_lossy mode))] fm)))
     else if opcode = 3 \<or> opcode = 4 then
       try_read (read_u16_be r) (\<lambda>block_num r.
         done 4 (insert_at Full (ctx_depth ctx) [(''block_num'', U64 (ucast block_num))] fm))
     else if opcode = 5 then
       try_read (read_u16_be r) (\<lambda>error_code r.
       and_then (read_cstring r) (\<lambda>(error_msg, r).
         done (consumed bytes r)
           (insert_at Full (ctx_depth ctx) [(''error_code'', U64 (ucast error_code)), (''error_msg'', Str (from_utf8_lossy error_msg))] fm)))
     else Inl (Malformed ''unrecognized TFTP opcode'')))"

definition tftp :: plugin where
  "tftp = (default_plugin ''tftp'' tftp_parse)\<lparr>pg_claims := [UdpPort 69]\<rparr>"

section \<open>RTP and RTCP\<close>

definition RTP_FIXED_HEADER_LEN :: usize where "RTP_FIXED_HEADER_LEN = 12"
definition EXTENSION_BIT :: u8 where "EXTENSION_BIT = 0x10"

definition rtp_identity :: stream_identity where
  "rtp_identity = keyed [''ssrc''] [rolled ''payload_type'' Accumulate]"

definition rtp_extension :: "byte_reader \<Rightarrow> u8 \<Rightarrow> parse_error + usize \<times> byte_reader" where
  "rtp_extension r byte0 =
    (if byte0 AND EXTENSION_BIT \<noteq> 0 then
       try_read (read_u16_be r) (\<lambda>_ r.
       try_read (read_u16_be r) (\<lambda>words r.
       try_read (take_bytes r (unat words * 4)) (\<lambda>_ r. Inr (4 + unat words * 4, r))))
     else Inr (0, r))"

definition rtp_parse :: "byte list \<Rightarrow> parse_ctx \<Rightarrow> parse_error + parsed_layer" where
  "rtp_parse bytes ctx =
    (let r = new_reader bytes in
     try_read (read_u8 r) (\<lambda>byte0 r.
     let version = drop_bit 6 (byte0 AND 0xC0) in
     if version \<noteq> 2 then Inl (Malformed ''unsupported RTP version'')
     else
     let cc = byte0 AND 0x0F in
     try_read (read_u8 r) (\<lambda>byte1 r.
     let marker_bit = byte1 AND 0x80 \<noteq> 0; payload_type = byte1 AND 0x7F in
     try_read (read_u16_be r) (\<lambda>sequence_number r.
     try_read (read_u32_be r) (\<lambda>timestamp r.
     try_read (read_u32_be r) (\<lambda>ssrc r.
     and_then (read_times (unat cc) read_u32_be r) (\<lambda>(csrc_list, r).
     and_then (rtp_extension r byte0) (\<lambda>(extension_len, r).
     let header_len = RTP_FIXED_HEADER_LEN + unat cc * 4 + extension_len;
         fm = fm_new;
         fm = insert_at Keys (ctx_depth ctx) [(''ssrc'', U64 (ucast ssrc))] fm;
         fm = insert_at Structural (ctx_depth ctx)
           [(''version'', U64 (ucast version)), (''payload_type'', U64 (ucast payload_type)), (''sequence_number'', U64 (ucast sequence_number)),
            (''timestamp'', U64 (ucast timestamp)), (''marker_bit'', VBool marker_bit)] fm;
         fm = insert_at Full (ctx_depth ctx) [(''csrc_list'', VList (map (\<lambda>c. U64 (ucast c)) csrc_list))] fm
     in Inr \<lparr>pl_header_len = header_len, pl_fields = fm, pl_hint = Terminal\<rparr>))))))))"

definition rtp :: plugin where
  "rtp = (default_plugin ''rtp'' rtp_parse)\<lparr>pg_stream_identity := Some rtp_identity\<rparr>"

definition rtcp_identity :: stream_identity where
  "rtcp_identity = keyed [''ssrc''] [rolled ''packet_type'' Accumulate]"

function cname_walk :: "byte_reader \<Rightarrow> string option" where
  "cname_walk r =
    ok_read (read_u8 r) (\<lambda>item_type r1.
    if item_type = 0 then None
    else
    ok_read (read_u8 r1) (\<lambda>item_len r2.
    ok_read (take_bytes r2 (unat item_len)) (\<lambda>txt r3.
    if item_type = 1 then Some (from_utf8_lossy txt) else cname_walk r3)))"
  by pat_completeness auto
termination by (relation "measure remaining") (auto dest!: read_shrink take_shrink)

declare cname_walk.simps [simp del]

definition read_first_cname :: "byte list \<Rightarrow> string option" where
  "read_first_cname chunk_after_ssrc = cname_walk (new_reader chunk_after_ssrc)"

text \<open>The counters of a sender report.\<close>

definition sender_info :: "byte_reader \<Rightarrow> (u64 \<times> u32 \<times> u32 \<times> u32) option" where
  "sender_info r =
    ok_read (read_u32_be r) (\<lambda>ntp_sec r.
    ok_read (read_u32_be r) (\<lambda>ntp_frac r.
    ok_read (read_u32_be r) (\<lambda>rtp_ts r.
    ok_read (read_u32_be r) (\<lambda>pkt_cnt r.
    ok_read (read_u32_be r) (\<lambda>oct_cnt r.
      Some (push_bit 32 (ucast ntp_sec) OR ucast ntp_frac, rtp_ts, pkt_cnt, oct_cnt))))))"

definition rtcp_parse :: "byte list \<Rightarrow> parse_ctx \<Rightarrow> parse_error + parsed_layer" where
  "rtcp_parse bytes ctx =
    (let r = new_reader bytes in
     try_read (read_u8 r) (\<lambda>byte0 r.
     let version = drop_bit 6 (byte0 AND 0xC0) in
     if version \<noteq> 2 then Inl (Malformed ''unsupported RTCP version'')
     else
     try_read (read_u8 r) (\<lambda>packet_type r.
     try_read (read_u16_be r) (\<lambda>length_words r.
     let total_len = (unat length_words + 1) * 4 in
     try_read (take_bytes r (total_len - 4)) (\<lambda>body r.
     try_read (read_u32_be (new_reader body)) (\<lambda>ssrc br.
     if packet_type \<notin> {200, 201, 202, 203, 204} then Inl (Malformed ''unrecognized RTCP packet type'')
     else
     let info = (if packet_type = 200 then sender_info br else None);
         cname = (if packet_type = 202 then read_first_cname (drop (min 4 (length body)) body) else None);
         fm = fm_new;
         fm = insert_at Keys (ctx_depth ctx) [(''ssrc'', U64 (ucast ssrc))] fm;
         fm = insert_at Structural (ctx_depth ctx) [(''packet_type'', U64 (ucast packet_type))] fm;
         fm = insert_at Full (ctx_depth ctx)
           ((case info of
               Some (ntp_ts, rtp_ts, pkts, octets) \<Rightarrow>
                 [(''ntp_timestamp'', U64 ntp_ts), (''rtp_timestamp'', U64 (ucast rtp_ts)), (''packet_count'', U64 (ucast pkts)),
                  (''octet_count'', U64 (ucast octets))]
             | None \<Rightarrow> []) @ opt_field ''cname'' (map_option Str cname)) fm
     in Inr \<lparr>pl_header_len = total_len, pl_fields = fm, pl_hint = Terminal\<rparr>))))))"

definition rtcp :: plugin where
  "rtcp = (default_plugin ''rtcp'' rtcp_parse)\<lparr>pg_stream_identity := Some rtcp_identity\<rparr>"

section \<open>RADIUS\<close>

definition RADIUS_FIXED_HEADER_LEN :: usize where "RADIUS_FIXED_HEADER_LEN = 20"
definition RADIUS_MIN_LENGTH :: u16 where "RADIUS_MIN_LENGTH = 20"
definition RADIUS_MAX_LENGTH :: u16 where "RADIUS_MAX_LENGTH = 4096"

definition radius_identity :: stream_identity where
  "radius_identity = keyed [''app''] [rolled ''code'' Accumulate, rolled ''user_name'' Sample]"

record radius_attrs =
  ra_user_name :: "byte list option"
  ra_nas_ip_address :: "byte list option"
  ra_calling_station_id :: "byte list option"
  ra_acct_status_type :: "u32 option"

definition radius_record :: "u8 \<Rightarrow> byte list \<Rightarrow> radius_attrs \<Rightarrow> radius_attrs" where
  "radius_record t v a =
    (if t = 1 then a\<lparr>ra_user_name := Some v\<rparr>
     else if t = 4 \<and> length v = 4 then a\<lparr>ra_nas_ip_address := Some v\<rparr>
     else if t = 31 then a\<lparr>ra_calling_station_id := Some v\<rparr>
     else if t = 40 \<and> length v = 4 then a\<lparr>ra_acct_status_type := Some (from_be_bytes v)\<rparr>
     else a)"

function radius_walk :: "byte_reader \<Rightarrow> radius_attrs \<Rightarrow> parse_error + radius_attrs" where
  "radius_walk r a =
    (if 0 < remaining r then
       read_or ''RADIUS attribute stream ends mid-attribute'' (read_u8 r) (\<lambda>t r1.
       read_or ''RADIUS attribute stream ends mid-attribute'' (read_u8 r1) (\<lambda>len r2.
       if unat len < 2 then Inl (Malformed ''RADIUS attribute Length must be at least 2'')
       else
       read_or ''RADIUS attribute overruns the message Length'' (take_bytes r2 (unat len - 2)) (\<lambda>v r3.
         radius_walk r3 (radius_record t v a))))
     else Inr a)"
  by pat_completeness auto
termination by (relation "measure (\<lambda>(r, _). remaining r)") (auto dest!: read_shrink take_shrink)

declare radius_walk.simps [simp del]

definition radius_parse :: "byte list \<Rightarrow> parse_ctx \<Rightarrow> parse_error + parsed_layer" where
  "radius_parse bytes ctx =
    (let r = new_reader bytes in
     try_read (read_u8 r) (\<lambda>radius_code r.
     try_read (read_u8 r) (\<lambda>identifier r.
     try_read (read_u16_be r) (\<lambda>len r.
     try_read (take_bytes r 16) (\<lambda>_ r.
     if \<not> (RADIUS_MIN_LENGTH \<le> len \<and> len \<le> RADIUS_MAX_LENGTH) then
       Inl (Malformed (''RADIUS Length field outside the RFC 2865 '' @ section_sign @ ''3 20..=4096 range''))
     else
     let total_length = unat len in
     try_read (take_bytes r (total_length - RADIUS_FIXED_HEADER_LEN)) (\<lambda>_ r.
     let attrs = new_reader (bytes_at bytes RADIUS_FIXED_HEADER_LEN (total_length - RADIUS_FIXED_HEADER_LEN)) in
     and_then (radius_walk attrs \<lparr>ra_user_name = None, ra_nas_ip_address = None, ra_calling_station_id = None, ra_acct_status_type = None\<rparr>) (\<lambda>a.
     let fm = fm_new;
         fm = insert_at Keys (ctx_depth ctx) [(''app'', Str ''radius'')] fm;
         fm = insert_at Structural (ctx_depth ctx) [(''code'', U64 (ucast radius_code)), (''identifier'', U64 (ucast identifier))] fm;
         fm = insert_at Full (ctx_depth ctx)
           (opt_field ''user_name'' (map_option (\<lambda>v. Str (from_utf8_lossy v)) (ra_user_name a)) @
            opt_field ''nas_ip_address'' (map_option Bytes (ra_nas_ip_address a)) @
            opt_field ''calling_station_id'' (map_option (\<lambda>v. Str (from_utf8_lossy v)) (ra_calling_station_id a)) @
            (if radius_code = 4 \<or> radius_code = 5 then opt_field ''acct_status_type'' (map_option (\<lambda>v. U64 (ucast v)) (ra_acct_status_type a))
             else [])) fm
     in Inr \<lparr>pl_header_len = total_length, pl_fields = fm, pl_hint = Terminal\<rparr>)))))))"

definition radius :: plugin where
  "radius = (default_plugin ''radius'' radius_parse)
     \<lparr>pg_claims := [UdpPort 1812, UdpPort 1813], pg_stream_identity := Some radius_identity\<rparr>"

section \<open>The contract\<close>

text \<open>The option walk of DHCP counts the bytes it reads.\<close>

lemma dhcp_walk_len:
  "dhcp_walk r used opts = Inr (opts', n) \<Longrightarrow> used = rpos r \<Longrightarrow> n \<le> length (rbuf r)"
proof (induction r used opts rule: dhcp_walk.induct)
  case (1 r used opts)
  obtain c r1 where c: "read_u8 r = Inr (c, r1)" using 1(3) unfolding dhcp_walk.simps[of r] by (auto simp: try_read_Inr)
  have r1: "rbuf r1 = rbuf r" "rpos r1 = rpos r + 1" "rpos r1 \<le> length (rbuf r)" using c by (auto simp: reader_simps fits_def)
  consider (pad) "c = 0" | (stop) "c \<noteq> 0" "c = 255" | (opt) "c \<noteq> 0" "c \<noteq> 255" by blast
  then show ?case
  proof cases
    case pad
    then have "dhcp_walk r1 (used + 1) opts = Inr (opts', n)" using 1(3) c unfolding dhcp_walk.simps[of r] by simp
    from 1(1)[OF c pad this] 1(4) r1 show ?thesis by simp
  next
    case stop
    then have "n = used + 1" using 1(3) c unfolding dhcp_walk.simps[of r] by simp
    then show ?thesis using 1(4) r1 by simp
  next
    case opt
    then obtain len r2 data r3 where s: "read_u8 r1 = Inr (len, r2)" "take_bytes r2 (unat len) = Inr (data, r3)"
        "dhcp_walk r3 (used + 1 + (1 + unat len)) (dhcp_record c data opts) = Inr (opts', n)"
      using 1(3) c unfolding dhcp_walk.simps[of r] by (auto simp: try_read_Inr)
    then have "rbuf r3 = rbuf r" "rpos r3 = rpos r + 1 + (1 + unat len)" using r1 by (auto simp: reader_simps)
    then show ?thesis using 1(2)[OF c opt s(1,2,3)] 1(4) by simp
  qed
qed

interpretation dhcp: layer_plugin dhcp
  by (rule layer_pluginI)
    (auto simp: dhcp_def dhcp_parse_def dhcp_identity_def plugin_simps fm_new_def intro!: gives_intros dest!: dhcp_walk_len)

interpretation dhcpv6: layer_plugin dhcpv6
  by (rule layer_pluginI)
    (auto simp: dhcpv6_def dhcpv6_parse_def dhcpv6_identity_def plugin_simps fm_new_def intro!: gives_intros)

interpretation ntp: layer_plugin ntp
  by (rule layer_pluginI)
    (auto simp: ntp_def ntp_parse_def ntp_identity_def plugin_simps fits_def fm_new_def intro!: gives_intros)

interpretation ptp: layer_plugin ptp
  by (rule layer_pluginI)
    (auto simp: ptp_def ptp_parse_def ptp_identity_def COMMON_HEADER_LEN_def plugin_simps fits_def fm_new_def intro!: gives_intros)

interpretation tftp: layer_plugin tftp
  by (rule layer_pluginI)
    (auto simp: tftp_def tftp_parse_def plugin_simps fits_def fm_new_def intro!: gives_intros)

interpretation rtp: layer_plugin rtp
  by (rule layer_pluginI)
    (auto simp: rtp_def rtp_parse_def rtp_extension_def rtp_identity_def RTP_FIXED_HEADER_LEN_def plugin_simps fits_def fm_new_def
      intro!: gives_intros split: if_splits dest!: read_times_u32)

interpretation rtcp: layer_plugin rtcp
  by (rule layer_pluginI)
    (auto simp: rtcp_def rtcp_parse_def rtcp_identity_def plugin_simps fits_def fm_new_def intro!: gives_intros)

interpretation radius: layer_plugin radius
  by (rule layer_pluginI)
    (auto simp: radius_def radius_parse_def radius_identity_def RADIUS_FIXED_HEADER_LEN_def RADIUS_MIN_LENGTH_def plugin_simps fits_def
      fm_new_def word_le_nat_alt intro!: gives_intros)

end
