(* ===== verification/Control.thy ===== *)
theory Control
  imports Utf8
begin

text \<open>
  Routing and neighbour protocols of \<open>pktflow-plugins/src\<close>: first-hop redundancy (\<open>vrrp.rs\<close>,
  \<open>hsrp.rs\<close>), \<open>bfd.rs\<close>, \<open>ospf.rs\<close> with its link-state update walk, and the two layers that refine
  ICMPv6 from the fields of the layer before them (\<open>ndp.rs\<close>, \<open>mld.rs\<close>).
\<close>

section \<open>VRRP and HSRP\<close>

definition V2_AUTH_DATA_LEN :: usize where "V2_AUTH_DATA_LEN = 8"

definition vrrp_identity :: stream_identity where
  "vrrp_identity = keyed [''vrid''] [rolled ''priority'' Accumulate]"

definition address_len :: "u8 \<Rightarrow> parse_ctx \<Rightarrow> usize" where
  "address_len version ctx = (if version = 3 \<and> map_option lr_protocol (ctx_prev ctx) = Some ''ipv6'' then 16 else 4)"

definition vrrp_adver_int :: "u8 \<Rightarrow> byte_reader \<Rightarrow> (u64 \<Rightarrow> byte_reader \<Rightarrow> parse_error + 'a) \<Rightarrow> parse_error + 'a" where
  "vrrp_adver_int version r k =
    (if version = 2 then try_read (read_u8 r) (\<lambda>_ r. try_read (read_u8 r) (\<lambda>v r. k (ucast v) r))
     else try_read (read_u16_be r) (\<lambda>word r. k (ucast (word AND 0x0FFF)) r))"

definition vrrp_parse :: "byte list \<Rightarrow> parse_ctx \<Rightarrow> parse_error + parsed_layer" where
  "vrrp_parse bytes ctx =
    (let r = new_reader bytes in
     try_read (read_u8 r) (\<lambda>version_type r.
     let version = drop_bit 4 version_type; vrrp_type = version_type AND 0x0F in
     if version \<noteq> 2 \<and> version \<noteq> 3 then Inl (Malformed ''VRRP: unsupported version'')
     else if vrrp_type \<noteq> 1 then Inl (Malformed ''VRRP: unknown packet type'')
     else
     try_read (read_u8 r) (\<lambda>vrid r.
     try_read (read_u8 r) (\<lambda>priority r.
     try_read (read_u8 r) (\<lambda>count_ip_addrs r.
     vrrp_adver_int version r (\<lambda>adver_int r.
     try_read (read_u16_be r) (\<lambda>_ r.
     and_then (read_times (unat count_ip_addrs) (\<lambda>r. take_bytes r (address_len version ctx)) r) (\<lambda>(ip_addresses, r).
     and_then (if version = 2 then try_read (take_bytes r V2_AUTH_DATA_LEN) (\<lambda>_ r. Inr r) else Inr r) (\<lambda>r.
     let fm = fm_new;
         fm = insert_at Keys (ctx_depth ctx) [(''vrid'', U64 (ucast vrid))] fm;
         fm = insert_at Structural (ctx_depth ctx)
           [(''version'', U64 (ucast version)), (''type'', U64 (ucast vrrp_type)), (''priority'', U64 (ucast priority)),
            (''count_ip_addrs'', U64 (ucast count_ip_addrs)), (''adver_int'', U64 adver_int)] fm;
         fm = insert_at Full (ctx_depth ctx) [(''ip_addresses'', VList (map Bytes ip_addresses))] fm
     in Inr \<lparr>pl_header_len = consumed bytes r, pl_fields = fm, pl_hint = Terminal\<rparr>)))))))))"

definition vrrp :: plugin where
  "vrrp = (default_plugin ''vrrp'' vrrp_parse)\<lparr>pg_claims := [IpProtocol 112], pg_stream_identity := Some vrrp_identity\<rparr>"

definition HEADER_LEN :: usize where "HEADER_LEN = 20"
definition AUTH_DATA_LEN :: usize where "AUTH_DATA_LEN = 8"
definition VIRTUAL_IP_LEN :: usize where "VIRTUAL_IP_LEN = 4"

definition hsrp_identity :: stream_identity where
  "hsrp_identity = keyed [''group''] [rolled ''state'' Accumulate, rolled ''priority'' Accumulate]"

definition hsrp_parse :: "byte list \<Rightarrow> parse_ctx \<Rightarrow> parse_error + parsed_layer" where
  "hsrp_parse bytes ctx =
    (let r = new_reader bytes in
     try_read (read_u8 r) (\<lambda>version r.
     if version \<noteq> 0 then Inl (Malformed ''HSRP: unsupported version'')
     else
     try_read (read_u8 r) (\<lambda>opcode r.
     try_read (read_u8 r) (\<lambda>state r.
     try_read (read_u8 r) (\<lambda>hellotime r.
     try_read (read_u8 r) (\<lambda>holdtime r.
     try_read (read_u8 r) (\<lambda>priority r.
     try_read (read_u8 r) (\<lambda>grp r.
     try_read (read_u8 r) (\<lambda>_ r.
     try_read (take_bytes r AUTH_DATA_LEN) (\<lambda>auth_data r.
     try_read (take_bytes r VIRTUAL_IP_LEN) (\<lambda>virtual_ip r.
     let fm = fm_new;
         fm = insert_at Keys (ctx_depth ctx) [(''group'', U64 (ucast grp))] fm;
         fm = insert_at Structural (ctx_depth ctx)
           [(''version'', U64 (ucast version)), (''opcode'', U64 (ucast opcode)), (''state'', U64 (ucast state)),
            (''priority'', U64 (ucast priority)), (''hellotime'', U64 (ucast hellotime)), (''holdtime'', U64 (ucast holdtime))] fm;
         fm = insert_at Full (ctx_depth ctx) [(''virtual_ip'', Bytes virtual_ip), (''auth_data'', Bytes auth_data)] fm
     in Inr \<lparr>pl_header_len = HEADER_LEN, pl_fields = fm, pl_hint = Terminal\<rparr>)))))))))))"

definition hsrp :: plugin where
  "hsrp = (default_plugin ''hsrp'' hsrp_parse)\<lparr>pg_claims := [UdpPort 1985], pg_stream_identity := Some hsrp_identity\<rparr>"

section \<open>BFD\<close>

definition MANDATORY_LEN :: usize where "MANDATORY_LEN = 24"
definition A_BIT :: u8 where "A_BIT = 0x04"

definition bfd_identity :: stream_identity where
  "bfd_identity = paired ''my_discriminator'' ''your_discriminator'' [rolled ''state'' Accumulate]"

definition bfd_parse :: "byte list \<Rightarrow> parse_ctx \<Rightarrow> parse_error + parsed_layer" where
  "bfd_parse bytes ctx =
    (let r = new_reader bytes in
     try_read (read_u8 r) (\<lambda>vers_diag r.
     let version = drop_bit 5 vers_diag in
     if version \<noteq> 1 then Inl (Malformed ''BFD: version is not 1'')
     else
     try_read (read_u8 r) (\<lambda>state_flags r.
     let flags = state_flags AND 0x3F in
     try_read (read_u8 r) (\<lambda>detect_mult r.
     if detect_mult = 0 then Inl (Malformed ''BFD: Detect Mult is zero'')
     else
     try_read (read_u8 r) (\<lambda>len r.
     let min_len = (if flags AND A_BIT \<noteq> 0 then MANDATORY_LEN + 2 else MANDATORY_LEN) in
     if unat len < min_len then Inl (Malformed ''BFD: length below mandatory section'')
     else
     try_read (read_u32_be r) (\<lambda>my_discriminator r.
     if my_discriminator = 0 then Inl (Malformed ''BFD: My Discriminator is zero'')
     else
     try_read (read_u32_be r) (\<lambda>your_discriminator r.
     try_read (read_u32_be r) (\<lambda>desired_min_tx r.
     try_read (read_u32_be r) (\<lambda>required_min_rx r.
     try_read (read_u32_be r) (\<lambda>required_min_echo_rx r.
     try_read (take_bytes r (unat len - MANDATORY_LEN)) (\<lambda>_ r.
     let fm = fm_new;
         fm = insert_at Keys (ctx_depth ctx)
           [(''my_discriminator'', U64 (ucast my_discriminator)), (''your_discriminator'', U64 (ucast your_discriminator))] fm;
         fm = insert_at Structural (ctx_depth ctx)
           [(''version'', U64 (ucast version)), (''diag'', U64 (ucast (vers_diag AND 0x1F))), (''state'', U64 (ucast (drop_bit 6 state_flags))),
            (''flags'', U64 (ucast flags)), (''detect_mult'', U64 (ucast detect_mult)), (''length'', U64 (ucast len))] fm;
         fm = insert_at Full (ctx_depth ctx)
           [(''desired_min_tx'', U64 (ucast desired_min_tx)), (''required_min_rx'', U64 (ucast required_min_rx)),
            (''required_min_echo_rx'', U64 (ucast required_min_echo_rx))] fm
     in Inr \<lparr>pl_header_len = unat len, pl_fields = fm, pl_hint = Terminal\<rparr>)))))))))))"

definition bfd :: plugin where
  "bfd = (default_plugin ''bfd'' bfd_parse)
     \<lparr>pg_claims := [UdpPort 3784, UdpPort 4784], pg_stream_identity := Some bfd_identity\<rparr>"

section \<open>OSPF\<close>

definition V2_AUTH_LEN :: usize where "V2_AUTH_LEN = 8"
definition LSA_HEADER_LEN :: usize where "LSA_HEADER_LEN = 20"

text \<open>\<open>while r.remaining() > 0 { neighbors.push(r.take(4)?) }\<close>.\<close>

function neighbor_walk :: "byte_reader \<Rightarrow> byte list list \<Rightarrow> parse_error + byte list list" where
  "neighbor_walk r ns =
    (if 0 < remaining r then try_read (take_bytes r 4) (\<lambda>n r1. neighbor_walk r1 (ns @ [n])) else Inr ns)"
  by pat_completeness auto
termination by (relation "measure (\<lambda>(r, _). remaining r)") (auto dest!: take_shrink)

declare neighbor_walk.simps [simp del]

definition lsa_length :: "byte list \<Rightarrow> parse_error + usize" where
  "lsa_length header =
    (let hr = new_reader header in
     try_read (read_u16_be hr) (\<lambda>_ hr.
     try_read (read_u16_be hr) (\<lambda>_ hr.
     try_read (take_bytes hr 4) (\<lambda>_ hr.
     try_read (take_bytes hr 4) (\<lambda>_ hr.
     try_read (read_u32_be hr) (\<lambda>_ hr.
     try_read (read_u16_be hr) (\<lambda>_ hr.
     try_read (read_u16_be hr) (\<lambda>len hr. Inr (unat len)))))))))"

fun lsa_walk :: "nat \<Rightarrow> byte_reader \<Rightarrow> byte list list \<Rightarrow> parse_error + byte list list" where
  "lsa_walk 0 r hs = Inr hs"
| "lsa_walk (Suc n) r hs =
    try_read (take_bytes r LSA_HEADER_LEN) (\<lambda>header r.
    and_then (lsa_length header) (\<lambda>len.
    if len < LSA_HEADER_LEN then Inl (Malformed ''OSPF: LSA length shorter than its own header'')
    else try_read (take_bytes r (len - LSA_HEADER_LEN)) (\<lambda>_ r. lsa_walk n r (hs @ [header]))))"

record ospf_body =
  ob_hello_interval :: "u64 option"
  ob_router_dead_interval :: "u64 option"
  ob_designated_router :: "byte list option"
  ob_neighbors :: "byte list list"
  ob_interface_mtu :: "u64 option"
  ob_dd_sequence :: "u64 option"
  ob_lsa_headers :: "byte list list"

definition ospf_nothing :: ospf_body where
  "ospf_nothing = \<lparr>ob_hello_interval = None, ob_router_dead_interval = None, ob_designated_router = None, ob_neighbors = [],
     ob_interface_mtu = None, ob_dd_sequence = None, ob_lsa_headers = []\<rparr>"

definition ospf_hello_v2 :: "byte_reader \<Rightarrow> parse_error + ospf_body" where
  "ospf_hello_v2 r =
    try_read (take_bytes r 4) (\<lambda>_ r.
    try_read (read_u16_be r) (\<lambda>hello_interval r.
    try_read (read_u8 r) (\<lambda>_ r.
    try_read (read_u8 r) (\<lambda>_ r.
    try_read (read_u32_be r) (\<lambda>router_dead_interval r.
    try_read (take_bytes r 4) (\<lambda>designated_router r.
    try_read (take_bytes r 4) (\<lambda>_ r.
    and_then (neighbor_walk r []) (\<lambda>neighbors.
      Inr (ospf_nothing\<lparr>ob_hello_interval := Some (ucast hello_interval), ob_router_dead_interval := Some (ucast router_dead_interval),
        ob_designated_router := Some designated_router, ob_neighbors := neighbors\<rparr>)))))))))"

definition ospf_hello_v3 :: "byte_reader \<Rightarrow> parse_error + ospf_body" where
  "ospf_hello_v3 r =
    try_read (read_u32_be r) (\<lambda>_ r.
    try_read (read_u8 r) (\<lambda>_ r.
    try_read (take_bytes r 3) (\<lambda>_ r.
    try_read (read_u16_be r) (\<lambda>hello_interval r.
    try_read (read_u16_be r) (\<lambda>router_dead_interval r.
    try_read (take_bytes r 4) (\<lambda>designated_router r.
    try_read (take_bytes r 4) (\<lambda>_ r.
    and_then (neighbor_walk r []) (\<lambda>neighbors.
      Inr (ospf_nothing\<lparr>ob_hello_interval := Some (ucast hello_interval), ob_router_dead_interval := Some (ucast router_dead_interval),
        ob_designated_router := Some designated_router, ob_neighbors := neighbors\<rparr>)))))))))"

definition ospf_dd_v2 :: "byte_reader \<Rightarrow> parse_error + ospf_body" where
  "ospf_dd_v2 r =
    try_read (read_u16_be r) (\<lambda>interface_mtu r.
    try_read (read_u8 r) (\<lambda>_ r.
    try_read (read_u8 r) (\<lambda>_ r.
    try_read (read_u32_be r) (\<lambda>dd_sequence r.
      Inr (ospf_nothing\<lparr>ob_interface_mtu := Some (ucast interface_mtu), ob_dd_sequence := Some (ucast dd_sequence)\<rparr>)))))"

definition ospf_dd_v3 :: "byte_reader \<Rightarrow> parse_error + ospf_body" where
  "ospf_dd_v3 r =
    try_read (read_u8 r) (\<lambda>_ r.
    try_read (take_bytes r 3) (\<lambda>_ r.
    try_read (read_u16_be r) (\<lambda>interface_mtu r.
    try_read (read_u8 r) (\<lambda>_ r.
    try_read (read_u8 r) (\<lambda>_ r.
    try_read (read_u32_be r) (\<lambda>dd_sequence r.
      Inr (ospf_nothing\<lparr>ob_interface_mtu := Some (ucast interface_mtu), ob_dd_sequence := Some (ucast dd_sequence)\<rparr>)))))))"

definition ospf_message :: "u8 \<Rightarrow> u8 \<Rightarrow> byte_reader \<Rightarrow> parse_error + ospf_body" where
  "ospf_message msg_type version r =
    (if msg_type = 1 \<and> version = 2 then ospf_hello_v2 r
     else if msg_type = 1 then ospf_hello_v3 r
     else if msg_type = 2 \<and> version = 2 then ospf_dd_v2 r
     else if msg_type = 2 then ospf_dd_v3 r
     else if msg_type = 4 then
       try_read (read_u32_be r) (\<lambda>num_lsas r.
       and_then (lsa_walk (unat num_lsas) r []) (\<lambda>hs. Inr (ospf_nothing\<lparr>ob_lsa_headers := hs\<rparr>)))
     else Inr ospf_nothing)"

definition ospf_parse :: "byte list \<Rightarrow> parse_ctx \<Rightarrow> parse_error + parsed_layer" where
  "ospf_parse bytes ctx =
    (let r = new_reader bytes in
     try_read (read_u8 r) (\<lambda>version r.
     if version \<noteq> 2 \<and> version \<noteq> 3 then Inl (Malformed ''OSPF: unsupported version'')
     else
     try_read (read_u8 r) (\<lambda>msg_type r.
     try_read (read_u16_be r) (\<lambda>packet_length_word r.
     let packet_length = unat packet_length_word in
     if packet_length < 4 then Inl (Malformed ''OSPF: packet_length shorter than the common header prefix'')
     else
     try_read (take_bytes r (packet_length - 4)) (\<lambda>body _.
     let r = new_reader body in
     try_read (take_bytes r 4) (\<lambda>router_id r.
     try_read (take_bytes r 4) (\<lambda>area_id r.
     try_read (read_u16_be r) (\<lambda>_ r.
     and_then
       (if version = 2 then try_read (read_u16_be r) (\<lambda>_ r. try_read (take_bytes r V2_AUTH_LEN) (\<lambda>_ r. Inr r))
        else try_read (read_u8 r) (\<lambda>_ r. try_read (read_u8 r) (\<lambda>_ r. Inr r))) (\<lambda>r.
     and_then (ospf_message msg_type version r) (\<lambda>b.
     let fm = fm_new;
         fm = insert_at Structural (ctx_depth ctx)
           [(''version'', U64 (ucast version)), (''type'', U64 (ucast msg_type)), (''packet_length'', U64 (ucast packet_length_word)),
            (''router_id'', Bytes router_id), (''area_id'', Bytes area_id)] fm;
         fm = insert_at Full (ctx_depth ctx)
           (opt_field ''hello_interval'' (map_option U64 (ob_hello_interval b)) @
            opt_field ''router_dead_interval'' (map_option U64 (ob_router_dead_interval b)) @
            opt_field ''designated_router'' (map_option Bytes (ob_designated_router b)) @
            (if msg_type = 1 then [(''neighbors'', VList (map Bytes (ob_neighbors b)))] else []) @
            opt_field ''interface_mtu'' (map_option U64 (ob_interface_mtu b)) @
            opt_field ''dd_sequence'' (map_option U64 (ob_dd_sequence b)) @
            (if msg_type = 4 then [(''lsa_headers'', VList (map Bytes (ob_lsa_headers b)))] else [])) fm
     in Inr \<lparr>pl_header_len = packet_length, pl_fields = fm, pl_hint = Terminal\<rparr>))))))))))"

definition ospf :: plugin where
  "ospf = (default_plugin ''ospf'' ospf_parse)\<lparr>pg_claims := [IpProtocol 89]\<rparr>"

section \<open>The layers above ICMPv6\<close>

text \<open>What both read from the ICMPv6 layer before them.\<close>

definition icmpv6_rest :: "parse_ctx \<Rightarrow> byte list option" where
  "icmpv6_rest ctx =
    (case ctx_field ctx ''icmpv6'' ''rest_of_header'' of
       Some (Bytes b) \<Rightarrow> if length b = 4 then Some b else None
     | _ \<Rightarrow> None)"

definition icmpv6_msg_type :: "parse_ctx \<Rightarrow> u8 option" where
  "icmpv6_msg_type ctx =
    (case ctx_field ctx ''icmpv6'' ''type'' of
       Some (U64 t) \<Rightarrow> if t \<le> 255 then Some (ucast t) else None
     | _ \<Rightarrow> None)"

record ndp_options =
  nd_source_link_addr :: "value_t option"
  nd_target_link_addr :: "value_t option"
  nd_prefix_info :: "value_t option"

definition ndp_record :: "u8 \<Rightarrow> byte list \<Rightarrow> ndp_options \<Rightarrow> ndp_options" where
  "ndp_record t v opts =
    (if t = 1 \<and> nd_source_link_addr opts = None then opts\<lparr>nd_source_link_addr := Some (Bytes v)\<rparr>
     else if t = 2 \<and> nd_target_link_addr opts = None then opts\<lparr>nd_target_link_addr := Some (Bytes v)\<rparr>
     else if t = 3 \<and> nd_prefix_info opts = None then opts\<lparr>nd_prefix_info := Some (Bytes v)\<rparr>
     else opts)"

text \<open>The option loop; a zero type and length is frame padding and ends it.\<close>

function ndp_walk :: "byte list \<Rightarrow> byte_reader \<Rightarrow> ndp_options \<Rightarrow> usize \<Rightarrow> parse_error + ndp_options \<times> usize" where
  "ndp_walk bytes r opts header_len =
    (if 2 \<le> remaining r then
       try_read (read_u8 r) (\<lambda>opt_type r1.
       try_read (read_u8 r1) (\<lambda>opt_len r2.
       if opt_type = 0 \<and> opt_len = 0 then Inr (opts, consumed bytes r)
       else if opt_len = 0 then Inl (Malformed (''NDP: option length is zero (RFC 4861 '' @ [CHR 0xC2, CHR 0xA7] @ ''4.6)''))
       else
       try_read (take_bytes r2 (unat opt_len * 8 - 2)) (\<lambda>v r3. ndp_walk bytes r3 (ndp_record opt_type v opts) (consumed bytes r3))))
     else Inr (opts, header_len))"
  by pat_completeness auto
termination by (relation "measure (\<lambda>(_, r, _, _). remaining r)") (auto dest!: read_shrink take_shrink)

declare ndp_walk.simps [simp del]

definition ndp_target :: "u8 \<Rightarrow> byte_reader \<Rightarrow> parse_error + byte list option \<times> byte_reader" where
  "ndp_target msg_type r =
    (if msg_type \<in> {135, 136, 137} then
       try_read (take_bytes r 16) (\<lambda>target_address r.
       if msg_type = 137 then try_read (take_bytes r 16) (\<lambda>_ r. Inr (Some target_address, r)) else Inr (Some target_address, r))
     else Inr (None, r))"

definition ndp_timers :: "u8 \<Rightarrow> byte_reader \<Rightarrow> parse_error + (u32 \<times> u32) option \<times> byte_reader" where
  "ndp_timers msg_type r =
    (if msg_type = 134 then
       try_read (read_u32_be r) (\<lambda>reachable r. try_read (read_u32_be r) (\<lambda>retrans r. Inr (Some (reachable, retrans), r)))
     else Inr (None, r))"

definition ndp_flags :: "u8 \<Rightarrow> byte list option \<Rightarrow> u64 option" where
  "ndp_flags msg_type rest' =
    (if msg_type = 134 then map_option (\<lambda>w. ucast (w ! 1)) rest'
     else if msg_type = 136 then map_option (\<lambda>w. ucast (w ! 0)) rest'
     else None)"

definition ndp_parse :: "byte list \<Rightarrow> parse_ctx \<Rightarrow> parse_error + parsed_layer" where
  "ndp_parse bytes ctx =
    (case icmpv6_msg_type ctx of
       None \<Rightarrow> Inr \<lparr>pl_header_len = length bytes, pl_fields = fm_new, pl_hint = Terminal\<rparr>
     | Some msg_type \<Rightarrow>
        let r = new_reader bytes in
        and_then (ndp_target msg_type r) (\<lambda>(target_address, r).
        and_then (ndp_timers msg_type r) (\<lambda>(ra_timers, r).
        and_then (ndp_walk bytes r \<lparr>nd_source_link_addr = None, nd_target_link_addr = None, nd_prefix_info = None\<rparr> (consumed bytes r))
          (\<lambda>(opts, header_len).
        let rest' = icmpv6_rest ctx;
            router_lifetime = (if msg_type = 134 then map_option (\<lambda>w. ucast (from_be_bytes [w ! 2, w ! 3] :: u16)) rest' else None);
            fm = fm_new;
            fm = insert_at Structural (ctx_depth ctx)
              ([(''msg_type'', U64 (ucast msg_type))] @ opt_field ''flags'' (map_option U64 (ndp_flags msg_type rest')) @
               opt_field ''target_address'' (map_option Bytes target_address)) fm;
            fm = insert_at Full (ctx_depth ctx)
              (opt_field ''source_link_addr'' (nd_source_link_addr opts) @ opt_field ''target_link_addr'' (nd_target_link_addr opts) @
               opt_field ''prefix_info'' (nd_prefix_info opts) @ opt_field ''router_lifetime'' (map_option U64 router_lifetime) @
               (case ra_timers of
                  Some (reachable, retrans) \<Rightarrow> [(''reachable_time'', U64 (ucast reachable)), (''retrans_timer'', U64 (ucast retrans))]
                | None \<Rightarrow> [])) fm
        in Inr \<lparr>pl_header_len = header_len, pl_fields = fm, pl_hint = Terminal\<rparr>))))"

definition ndp :: plugin where
  "ndp = (default_plugin ''ndp'' ndp_parse)
     \<lparr>pg_claims := map (Custom ''icmpv6_type'') [133, 134, 135, 136, 137]\<rparr>"

text \<open>The group records of a version 2 report: the first one's address, source number and sources.\<close>

fun mld_records :: "nat \<Rightarrow> byte_reader \<Rightarrow> (byte list \<times> u16 \<times> byte list list) option \<Rightarrow>
    parse_error + (byte list \<times> u16 \<times> byte list list) option \<times> byte_reader" where
  "mld_records 0 r fst_rec = Inr (fst_rec, r)"
| "mld_records (Suc m) r fst_rec =
    try_read (read_u8 r) (\<lambda>_ r.
    try_read (read_u8 r) (\<lambda>aux_data_len r.
    try_read (read_u16_be r) (\<lambda>num_sources r.
    try_read (take_bytes r 16) (\<lambda>addr r.
    and_then (read_times (unat num_sources) (\<lambda>r. take_bytes r 16) r) (\<lambda>(sources, r).
    try_read (take_bytes r (unat aux_data_len * 4)) (\<lambda>_ r.
      mld_records m r (case fst_rec of None \<Rightarrow> Some (addr, num_sources, sources) | Some x \<Rightarrow> Some x)))))))"

definition mld_report :: "byte list \<Rightarrow> parse_ctx \<Rightarrow> byte_reader \<Rightarrow> field_map \<Rightarrow> parse_error + parsed_layer" where
  "mld_report bytes ctx r fm =
    (case icmpv6_rest ctx of
       None \<Rightarrow> Inr \<lparr>pl_header_len = length bytes, pl_fields = fm, pl_hint = Terminal\<rparr>
     | Some word \<Rightarrow>
        and_then (mld_records (unat (from_be_bytes [word ! 2, word ! 3] :: u16)) r None) (\<lambda>(fst_rec, r).
        let fm = insert_at Structural (ctx_depth ctx)
              (case fst_rec of Some (addr, _) \<Rightarrow> [(''multicast_addr'', Bytes addr)] | None \<Rightarrow> []) fm;
            fm = insert_at Full (ctx_depth ctx)
              (case fst_rec of
                 Some (_, n, sources) \<Rightarrow> [(''num_sources'', U64 (ucast n)), (''source_addrs'', VList (map Bytes sources))]
               | None \<Rightarrow> []) fm
        in Inr \<lparr>pl_header_len = consumed bytes r, pl_fields = fm, pl_hint = Terminal\<rparr>))"

definition mld_query_tail :: "u8 \<Rightarrow> byte_reader \<Rightarrow> parse_error + byte_reader" where
  "mld_query_tail msg_type r =
    (if msg_type = 130 \<and> 4 \<le> remaining r then
       try_read (read_u8 r) (\<lambda>_ r.
       try_read (read_u8 r) (\<lambda>_ r.
       try_read (read_u16_be r) (\<lambda>n r.
       try_read (take_bytes r (unat n * 16)) (\<lambda>_ r. Inr r))))
     else Inr r)"

definition mld_parse :: "byte list \<Rightarrow> parse_ctx \<Rightarrow> parse_error + parsed_layer" where
  "mld_parse bytes ctx =
    (case icmpv6_msg_type ctx of
       None \<Rightarrow> Inr \<lparr>pl_header_len = length bytes, pl_fields = fm_new, pl_hint = Terminal\<rparr>
     | Some msg_type \<Rightarrow>
        let r = new_reader bytes;
            fm = insert_at Structural (ctx_depth ctx) [(''msg_type'', U64 (ucast msg_type))] fm_new
        in
        if msg_type = 143 then mld_report bytes ctx r fm
        else
        try_read (take_bytes r 16) (\<lambda>multicast_addr r.
        and_then (mld_query_tail msg_type r) (\<lambda>r.
        let fm = insert_at Structural (ctx_depth ctx)
              (opt_field ''max_resp_delay'' (map_option (\<lambda>w. U64 (ucast (from_be_bytes [w ! 0, w ! 1] :: u16))) (icmpv6_rest ctx)) @
               [(''multicast_addr'', Bytes multicast_addr)]) fm
        in Inr \<lparr>pl_header_len = consumed bytes r, pl_fields = fm, pl_hint = Terminal\<rparr>)))"

definition mld :: plugin where
  "mld = (default_plugin ''mld'' mld_parse)
     \<lparr>pg_claims := map (Custom ''icmpv6_type'') [130, 131, 132, 143]\<rparr>"

section \<open>The contract\<close>

interpretation vrrp: layer_plugin vrrp
  by (rule layer_pluginI)
    (auto simp: vrrp_def vrrp_parse_def vrrp_adver_int_def vrrp_identity_def plugin_simps fm_new_def intro!: gives_intros)

interpretation hsrp: layer_plugin hsrp
  by (rule layer_pluginI)
    (auto simp: hsrp_def hsrp_parse_def hsrp_identity_def HEADER_LEN_def AUTH_DATA_LEN_def VIRTUAL_IP_LEN_def plugin_simps fits_def
      fm_new_def intro!: gives_intros)

interpretation bfd: layer_plugin bfd
  by (rule layer_pluginI)
    (auto simp: bfd_def bfd_parse_def bfd_identity_def MANDATORY_LEN_def plugin_simps fits_def fm_new_def intro!: gives_intros split: if_splits)

interpretation ospf: layer_plugin ospf
  by (rule layer_pluginI)
    (auto simp: ospf_def ospf_parse_def plugin_simps fits_def fm_new_def intro!: gives_intros)

lemma ndp_walk_len: "ndp_walk bytes r opts n = Inr (opts', m) \<Longrightarrow> n \<le> length bytes \<Longrightarrow> m \<le> length bytes"
proof (induction bytes r opts n rule: ndp_walk.induct)
  case (1 bytes r opts n)
  show ?case using 1(2,3) unfolding ndp_walk.simps[of bytes r]
    by (auto simp: try_read_Inr split: if_splits intro: 1(1))
qed

interpretation ndp: layer_plugin ndp
  by (rule layer_pluginI)
    (auto simp: ndp_def ndp_parse_def plugin_simps fm_new_def intro!: gives_intros dest!: ndp_walk_len)

interpretation mld: layer_plugin mld
  by (rule layer_pluginI)
    (auto simp: mld_def mld_parse_def mld_report_def plugin_simps fm_new_def intro!: gives_intros)

end
