(* ===== verification/Industrial.thy ===== *)
theory Industrial
  imports Utf8
begin

text \<open>
  Industrial and messaging plugins of \<open>pktflow-plugins/src\<close>: \<open>modbus.rs\<close>, \<open>dnp3.rs\<close>, \<open>enip.rs\<close>,
  \<open>bacnet_ip.rs\<close> and \<open>mqtt.rs\<close> with its variable byte integers.
\<close>

section \<open>Modbus\<close>

definition EXCEPTION_BIT :: u8 where "EXCEPTION_BIT = 0x80"

definition modbus_identity :: stream_identity where
  "modbus_identity = keyed [''unit_id''] [rolled ''function_code'' Accumulate]"

record modbus_pdu =
  mp_exception_code :: "u8 option"
  mp_start_address :: "u16 option"
  mp_quantity :: "u16 option"
  mp_register_value :: "u16 option"
  mp_coil_value :: "u16 option"

definition modbus_nothing :: modbus_pdu where
  "modbus_nothing = \<lparr>mp_exception_code = None, mp_start_address = None, mp_quantity = None, mp_register_value = None, mp_coil_value = None\<rparr>"

definition modbus_body :: "u8 \<Rightarrow> usize \<Rightarrow> byte_reader \<Rightarrow> parse_error + modbus_pdu \<times> byte_reader" where
  "modbus_body function_code data_len r =
    (if function_code AND EXCEPTION_BIT \<noteq> 0 then
       if data_len \<noteq> 1 then Inl (Malformed ''exception PDU must carry exactly one data byte'')
       else try_read (read_u8 r) (\<lambda>c r. Inr (modbus_nothing\<lparr>mp_exception_code := Some c\<rparr>, r))
     else if function_code \<in> {0x01, 0x02, 0x03, 0x04} \<and> data_len = 4 then
       try_read (read_u16_be r) (\<lambda>a r. try_read (read_u16_be r) (\<lambda>q r.
         Inr (modbus_nothing\<lparr>mp_start_address := Some a, mp_quantity := Some q\<rparr>, r)))
     else if function_code = 0x05 \<and> data_len = 4 then
       try_read (read_u16_be r) (\<lambda>a r. try_read (read_u16_be r) (\<lambda>v r.
         Inr (modbus_nothing\<lparr>mp_start_address := Some a, mp_coil_value := Some v\<rparr>, r)))
     else if function_code = 0x06 \<and> data_len = 4 then
       try_read (read_u16_be r) (\<lambda>a r. try_read (read_u16_be r) (\<lambda>v r.
         Inr (modbus_nothing\<lparr>mp_start_address := Some a, mp_register_value := Some v\<rparr>, r)))
     else if function_code \<in> {0x0F, 0x10} \<and> 5 \<le> data_len then
       try_read (read_u16_be r) (\<lambda>a r. try_read (read_u16_be r) (\<lambda>q r. try_read (read_u8 r) (\<lambda>_ r.
       try_read (take_bytes r (data_len - 5)) (\<lambda>_ r.
         Inr (modbus_nothing\<lparr>mp_start_address := Some a, mp_quantity := Some q\<rparr>, r)))))
     else try_read (take_bytes r data_len) (\<lambda>_ r. Inr (modbus_nothing, r)))"

definition modbus_parse :: "byte list \<Rightarrow> parse_ctx \<Rightarrow> parse_error + parsed_layer" where
  "modbus_parse bytes ctx =
    (let r = new_reader bytes in
     try_read (read_u16_be r) (\<lambda>_ r.
     try_read (read_u16_be r) (\<lambda>protocol_id r.
     if protocol_id \<noteq> 0 then Inl (Malformed ''non-zero Modbus protocol id'')
     else
     try_read (read_u16_be r) (\<lambda>len r.
     if unat len < 2 then Inl (Malformed ''MBAP length too short for unit id + function code'')
     else
     try_read (read_u8 r) (\<lambda>unit_id r.
     try_read (read_u8 r) (\<lambda>function_code r.
     and_then (modbus_body function_code (unat len - 2) r) (\<lambda>(pdu, r).
     let fm = fm_new;
         fm = insert_at Keys (ctx_depth ctx) [(''unit_id'', U64 (ucast unit_id))] fm;
         fm = insert_at Structural (ctx_depth ctx)
           ([(''function_code'', U64 (ucast function_code)), (''is_exception'', VBool (function_code AND EXCEPTION_BIT \<noteq> 0))] @
            opt_field ''exception_code'' (map_option (\<lambda>v. U64 (ucast v)) (mp_exception_code pdu))) fm;
         fm = insert_at Full (ctx_depth ctx)
           (opt_field ''start_address'' (map_option (\<lambda>v. U64 (ucast v)) (mp_start_address pdu)) @
            opt_field ''quantity'' (map_option (\<lambda>v. U64 (ucast v)) (mp_quantity pdu)) @
            opt_field ''register_value'' (map_option (\<lambda>v. U64 (ucast v)) (mp_register_value pdu)) @
            opt_field ''coil_value'' (map_option (\<lambda>v. U64 (ucast v)) (mp_coil_value pdu))) fm
     in Inr \<lparr>pl_header_len = consumed bytes r, pl_fields = fm, pl_hint = Terminal\<rparr>)))))))"

definition modbus :: plugin where
  "modbus = (default_plugin ''modbus'' modbus_parse)\<lparr>pg_claims := [TcpPort 502], pg_stream_identity := Some modbus_identity\<rparr>"

section \<open>DNP3\<close>

definition SYNC :: u16 where "SYNC = 0x0564"
definition MIN_LENGTH :: u8 where "MIN_LENGTH = 5"

definition dnp3_identity :: stream_identity where
  "dnp3_identity = paired ''source'' ''destination'' [rolled ''function_code'' Accumulate]"

definition dnp3_parse :: "byte list \<Rightarrow> parse_ctx \<Rightarrow> parse_error + parsed_layer" where
  "dnp3_parse bytes ctx =
    (let r = new_reader bytes in
     try_read (read_u16_be r) (\<lambda>sync r.
     if sync \<noteq> SYNC then Inl (Malformed ''DNP3 start bytes are not 0x0564'')
     else
     try_read (read_u8 r) (\<lambda>len r.
     if len < MIN_LENGTH then Inl (Malformed ''DNP3 length field too small'')
     else
     try_read (read_u8 r) (\<lambda>control r.
     try_read (read_u16_le r) (\<lambda>destination r.
     try_read (read_u16_le r) (\<lambda>source r.
     try_read (take_bytes r 2) (\<lambda>_ r.
     and_then
       (if 3 \<le> unat len - 5 then try_read (take_bytes r 2) (\<lambda>_ r. try_read (read_u8 r) (\<lambda>fc r. Inr (Some fc, 10 + 3)))
        else Inr (None, 10)) (\<lambda>(function_code, used).
     let fm = fm_new;
         fm = insert_at Keys (ctx_depth ctx) [(''source'', U64 (ucast source)), (''destination'', U64 (ucast destination))] fm;
         fm = insert_at Structural (ctx_depth ctx)
           [(''start_bytes'', U64 (ucast SYNC)), (''length'', U64 (ucast len)), (''control'', U64 (ucast control))] fm;
         fm = insert_at Full (ctx_depth ctx) (opt_field ''function_code'' (map_option (\<lambda>f. U64 (ucast f)) function_code)) fm
     in Inr \<lparr>pl_header_len = used, pl_fields = fm, pl_hint = Terminal\<rparr>))))))))"

definition dnp3_probe :: "byte list \<Rightarrow> parse_ctx \<Rightarrow> confidence option" where
  "dnp3_probe bytes ctx =
    ok_read (read_u16_be (new_reader bytes)) (\<lambda>sync r.
    ok_read (read_u8 r) (\<lambda>len r.
    if sync = SYNC \<and> MIN_LENGTH \<le> len then Some (confidence_new 90) else None))"

definition dnp3 :: plugin where
  "dnp3 = (default_plugin ''dnp3'' dnp3_parse)
     \<lparr>pg_claims := [TcpPort 20000, UdpPort 20000], pg_has_probe := True, pg_probe := dnp3_probe, pg_stream_identity := Some dnp3_identity\<rparr>"

section \<open>EtherNet/IP\<close>

definition enip_identity :: stream_identity where
  "enip_identity = keyed [''session_handle''] [rolled ''command'' Accumulate]"

text \<open>The items of the common packet format: the service byte of the first data item.\<close>

fun cip_items :: "nat \<Rightarrow> byte_reader \<Rightarrow> u8 option" where
  "cip_items 0 r = None"
| "cip_items (Suc n) r =
    ok_read (read_u16_le r) (\<lambda>type_id r.
    ok_read (read_u16_le r) (\<lambda>item_len r.
    ok_read (take_bytes r (unat item_len)) (\<lambda>data r.
    if type_id = 0x00B2 then elem_get data 0
    else if type_id = 0x00B1 then elem_get data 2
    else cip_items n r)))"

definition leading_cip_service :: "byte list \<Rightarrow> u8 option" where
  "leading_cip_service body =
    ok_read (read_u32_le (new_reader body)) (\<lambda>_ r.
    ok_read (read_u16_le r) (\<lambda>_ r.
    ok_read (read_u16_le r) (\<lambda>item_count r. cip_items (unat item_count) r)))"

definition enip_parse :: "byte list \<Rightarrow> parse_ctx \<Rightarrow> parse_error + parsed_layer" where
  "enip_parse bytes ctx =
    (let r = new_reader bytes in
     try_read (read_u16_le r) (\<lambda>command r.
     try_read (read_u16_le r) (\<lambda>len r.
     try_read (read_u32_le r) (\<lambda>session_handle r.
     try_read (read_u32_le r) (\<lambda>status r.
     try_read (take_bytes r 8) (\<lambda>_ r.
     try_read (read_u32_le r) (\<lambda>options r.
     if options \<noteq> 0 then Inl (Malformed ''Encapsulation Options is reserved and must be 0'')
     else
     try_read (take_bytes r (unat len)) (\<lambda>body r.
     let cip_service = (if command = 0x006F \<or> command = 0x0070 then leading_cip_service body else None);
         fm = fm_new;
         fm = insert_at Keys (ctx_depth ctx) [(''session_handle'', U64 (ucast session_handle))] fm;
         fm = insert_at Structural (ctx_depth ctx)
           [(''command'', U64 (ucast command)), (''length'', U64 (ucast len)), (''status'', U64 (ucast status))] fm;
         fm = insert_at Full (ctx_depth ctx) (opt_field ''cip_service'' (map_option (\<lambda>s. U64 (ucast s)) cip_service)) fm
     in Inr \<lparr>pl_header_len = consumed bytes r, pl_fields = fm, pl_hint = Terminal\<rparr>))))))))"

definition enip :: plugin where
  "enip = (default_plugin ''enip'' enip_parse)\<lparr>pg_claims := [TcpPort 44818], pg_stream_identity := Some enip_identity\<rparr>"

section \<open>BACnet/IP\<close>

definition BVLC_TYPE :: u8 where "BVLC_TYPE = 0x81"
definition KNOWN_FUNCTIONS :: "u8 list" where "KNOWN_FUNCTIONS = [0, 1, 2, 3, 4, 5, 6, 7, 8, 9, 0x0A, 0x0B]"
definition CONTROL_NETWORK_LAYER_MSG :: u8 where "CONTROL_NETWORK_LAYER_MSG = 0x80"
definition CONTROL_DEST_PRESENT :: u8 where "CONTROL_DEST_PRESENT = 0x20"
definition CONTROL_SRC_PRESENT :: u8 where "CONTROL_SRC_PRESENT = 0x08"
definition APDU_SEG_FLAG :: u8 where "APDU_SEG_FLAG = 0x08"

definition bacnet_ip_identity :: stream_identity where
  "bacnet_ip_identity = keyed [''app''] [rolled ''service_choice'' Accumulate]"

text \<open>A network number and an address of announced length.\<close>

definition bacnet_address :: "byte_reader \<Rightarrow> parse_error + byte_reader" where
  "bacnet_address r =
    try_read (read_u16_be r) (\<lambda>_ r. try_read (read_u8 r) (\<lambda>len r. try_read (take_bytes r (unat len)) (\<lambda>_ r. Inr r)))"

definition bacnet_segment :: "u8 \<Rightarrow> byte_reader \<Rightarrow> parse_error + byte_reader" where
  "bacnet_segment apdu_byte0 r =
    (if apdu_byte0 AND APDU_SEG_FLAG \<noteq> 0 then try_read (read_u8 r) (\<lambda>_ r. try_read (read_u8 r) (\<lambda>_ r. Inr r)) else Inr r)"

definition bacnet_apdu :: "byte_reader \<Rightarrow> parse_error + (u8 \<times> u8 option) \<times> byte_reader" where
  "bacnet_apdu r =
    try_read (read_u8 r) (\<lambda>apdu_byte0 r.
    let pdu_type = drop_bit 4 apdu_byte0; service = (\<lambda>r. try_read (read_u8 r) (\<lambda>s r. Inr ((pdu_type, Some s), r))) in
    if pdu_type = 0 then
      try_read (read_u8 r) (\<lambda>_ r. try_read (read_u8 r) (\<lambda>_ r. and_then (bacnet_segment apdu_byte0 r) service))
    else if pdu_type = 1 then service r
    else if pdu_type = 2 then try_read (read_u8 r) (\<lambda>_ r. service r)
    else if pdu_type = 3 then try_read (read_u8 r) (\<lambda>_ r. and_then (bacnet_segment apdu_byte0 r) service)
    else Inr ((pdu_type, None), r))"

definition bacnet_npdu :: "u8 \<Rightarrow> byte_reader \<Rightarrow> parse_error + (u8 \<times> u8 option \<times> u8 option) \<times> byte_reader" where
  "bacnet_npdu bvlc_function r =
    and_then (if bvlc_function = 0x04 then try_read (take_bytes r 6) (\<lambda>_ r. Inr r) else Inr r) (\<lambda>r.
    try_read (read_u8 r) (\<lambda>version r.
    if version \<noteq> 1 then Inl (Malformed ''NPDU version is not 1'')
    else
    try_read (read_u8 r) (\<lambda>control r.
    and_then (if control AND CONTROL_DEST_PRESENT \<noteq> 0 then bacnet_address r else Inr r) (\<lambda>r.
    and_then (if control AND CONTROL_SRC_PRESENT \<noteq> 0 then bacnet_address r else Inr r) (\<lambda>r.
    and_then (if control AND CONTROL_DEST_PRESENT \<noteq> 0 then try_read (read_u8 r) (\<lambda>_ r. Inr r) else Inr r) (\<lambda>r.
    if control AND CONTROL_NETWORK_LAYER_MSG \<noteq> 0 then
      try_read (read_u8 r) (\<lambda>message_type r.
      if 0x80 \<le> message_type then try_read (read_u16_be r) (\<lambda>_ r. Inr ((control, None, None), r))
      else Inr ((control, None, None), r))
    else and_then (bacnet_apdu r) (\<lambda>((t, s), r). Inr ((control, Some t, s), r))))))))"

definition bacnet_ip_parse :: "byte list \<Rightarrow> parse_ctx \<Rightarrow> parse_error + parsed_layer" where
  "bacnet_ip_parse bytes ctx =
    (let r = new_reader bytes in
     try_read (read_u8 r) (\<lambda>bvlc_type r.
     if bvlc_type \<noteq> BVLC_TYPE then Inl (Malformed ''BVLC type is not 0x81 (BACnet/IP)'')
     else
     try_read (read_u8 r) (\<lambda>bvlc_function r.
     try_read (read_u16_be r) (\<lambda>len r.
     let declared_len = unat len in
     if declared_len < 4 then Inl (Malformed ''BVLC length smaller than the BVLC header itself'')
     else
     and_then
       (if bvlc_function \<in> {0x0A, 0x0B, 0x04} then and_then (bacnet_npdu bvlc_function r) (\<lambda>((c, t, s), r). Inr ((Some c, t, s), r))
        else Inr ((None, None, None), r)) (\<lambda>((npdu_control, apdu_type, service_choice), r).
     if declared_len < consumed bytes r then Inl (Malformed ''BVLC length shorter than the fields it must contain'')
     else
     try_read (take_bytes r (declared_len - consumed bytes r)) (\<lambda>_ r.
     let fm = fm_new;
         fm = insert_at Keys (ctx_depth ctx) [(''app'', Str ''bacnet'')] fm;
         fm = insert_at Structural (ctx_depth ctx)
           ([(''bvlc_function'', U64 (ucast bvlc_function))] @ opt_field ''npdu_control'' (map_option (\<lambda>c. U64 (ucast c)) npdu_control)) fm;
         fm = insert_at Full (ctx_depth ctx)
           (opt_field ''apdu_type'' (map_option (\<lambda>t. U64 (ucast t)) apdu_type) @
            opt_field ''service_choice'' (map_option (\<lambda>s. U64 (ucast s)) service_choice)) fm
     in Inr \<lparr>pl_header_len = consumed bytes r, pl_fields = fm, pl_hint = Terminal\<rparr>))))))"

definition bacnet_ip_probe :: "byte list \<Rightarrow> parse_ctx \<Rightarrow> confidence option" where
  "bacnet_ip_probe bytes ctx =
    ok_read (read_u8 (new_reader bytes)) (\<lambda>bvlc_type r.
    ok_read (read_u8 r) (\<lambda>f r.
    ok_read (read_u16_be r) (\<lambda>len r.
    if bvlc_type = BVLC_TYPE \<and> f \<in> set KNOWN_FUNCTIONS \<and> 4 \<le> unat len then Some (confidence_new 60) else None)))"

definition bacnet_ip :: plugin where
  "bacnet_ip = (default_plugin ''bacnet_ip'' bacnet_ip_parse)
     \<lparr>pg_claims := [UdpPort 47808], pg_has_probe := True, pg_probe := bacnet_ip_probe, pg_stream_identity := Some bacnet_ip_identity\<rparr>"

section \<open>MQTT\<close>

definition MAX_TOPICS :: usize where "MAX_TOPICS = 128"

definition mqtt_identity :: stream_identity where
  "mqtt_identity = keyed [''app''] [rolled ''message_type'' Accumulate, rolled ''topic'' Accumulate]"

text \<open>The loop over at most four bytes; \<open>usize\<close> holds every \<open>u32\<close>.\<close>

fun vbi_walk :: "nat \<Rightarrow> byte_reader \<Rightarrow> u32 \<Rightarrow> u32 \<Rightarrow> parse_error + usize \<times> byte_reader" where
  "vbi_walk 0 r v multiplier = Inl (Malformed ''variable byte integer exceeds 4 bytes'')"
| "vbi_walk (Suc n) r v multiplier =
    try_read (read_u8 r) (\<lambda>b r.
    let v = v + ucast (b AND 0x7F) * multiplier in
    if b AND 0x80 = 0 then Inr (unat v, r) else vbi_walk n r v (multiplier * 128))"

definition variable_byte_int :: "byte_reader \<Rightarrow> parse_error + usize \<times> byte_reader" where
  "variable_byte_int r = vbi_walk 4 r 0 1"

definition utf8_string :: "byte_reader \<Rightarrow> parse_error + string \<times> byte_reader" where
  "utf8_string r =
    try_read (read_u16_be r) (\<lambda>len r.
    try_read (take_bytes r (unat len)) (\<lambda>b r.
    case from_utf8 b of Some s \<Rightarrow> Inr (s, r) | None \<Rightarrow> Inl (Malformed ''invalid UTF-8 encoded string'')))"

definition connect_fields :: "byte list \<Rightarrow> parse_error + string \<times> u16" where
  "connect_fields body =
    and_then (utf8_string (new_reader body)) (\<lambda>(_, r).
    try_read (read_u8 r) (\<lambda>protocol_version r.
    try_read (read_u8 r) (\<lambda>_ r.
    try_read (read_u16_be r) (\<lambda>keep_alive r.
    and_then
      (if protocol_version = 5 then
         and_then (variable_byte_int r) (\<lambda>(property_len, r). try_read (take_bytes r property_len) (\<lambda>_ r. Inr r))
       else Inr r) (\<lambda>r.
    and_then (utf8_string r) (\<lambda>(client_id, r). Inr (client_id, keep_alive)))))))"

definition publish_topic :: "byte list \<Rightarrow> parse_error + string" where
  "publish_topic body = and_then (utf8_string (new_reader body)) (\<lambda>(t, _). Inr t)"

lemma utf8_string_shrink: "utf8_string r = Inr (s, r') \<Longrightarrow> remaining r' < remaining r"
  unfolding utf8_string_def by (auto simp: try_read_Inr split: option.splits dest!: read_shrink take_shrink)

function topic_walk :: "byte_reader \<Rightarrow> string list \<Rightarrow> parse_error + string list" where
  "topic_walk r ts =
    (if 0 < remaining r \<and> length ts < MAX_TOPICS then
       and_then (utf8_string r) (\<lambda>x. try_read (read_u8 (snd x)) (\<lambda>_ r2. topic_walk r2 (ts @ [fst x])))
     else Inr ts)"
  by pat_completeness auto
termination by (relation "measure (\<lambda>(r, _). remaining r)") (auto dest!: read_shrink utf8_string_shrink)

declare topic_walk.simps [simp del]

definition subscribe_topics :: "byte list \<Rightarrow> parse_error + string list" where
  "subscribe_topics body = try_read (read_u16_be (new_reader body)) (\<lambda>_ r. topic_walk r [])"

definition mqtt_full :: "u8 \<Rightarrow> u8 \<Rightarrow> u64 \<Rightarrow> byte list \<Rightarrow> (field_name \<times> value_t) list" where
  "mqtt_full message_type flags qos body =
    (if message_type = 1 then
       (case connect_fields body of
          Inr (client_id, keep_alive) \<Rightarrow> [(''client_id'', Str client_id), (''keep_alive'', U64 (ucast keep_alive))]
        | Inl _ \<Rightarrow> [])
     else if message_type = 3 then
       (case publish_topic body of Inr topic \<Rightarrow> [(''topic'', Str topic)] | Inl _ \<Rightarrow> []) @
       [(''qos'', U64 qos), (''retain'', VBool (flags AND 0x01 \<noteq> 0))]
     else if message_type = 8 then
       (case subscribe_topics body of Inr topics \<Rightarrow> [(''topics'', VList (map Str topics))] | Inl _ \<Rightarrow> [])
     else [])"

definition mqtt_parse :: "byte list \<Rightarrow> parse_ctx \<Rightarrow> parse_error + parsed_layer" where
  "mqtt_parse bytes ctx =
    (let r = new_reader bytes in
     try_read (read_u8 r) (\<lambda>fb r.
     let message_type = drop_bit 4 fb in
     if message_type = 0 then Inl (Malformed ''reserved MQTT control packet type'')
     else
     let flags = fb AND 0x0F in
     and_then (variable_byte_int r) (\<lambda>(remaining_length, r).
     try_read (take_bytes r remaining_length) (\<lambda>body r.
     let qos = ucast (drop_bit 1 (flags AND 0x06)) :: u64 in
     if message_type = 3 \<and> qos = 3 then Inl (Malformed ''PUBLISH QoS value 3 is reserved'')
     else
     let fm = fm_new;
         fm = insert_at Keys (ctx_depth ctx) [(''app'', Str ''mqtt'')] fm;
         fm = insert_at Structural (ctx_depth ctx)
           [(''message_type'', U64 (ucast message_type)), (''remaining_length'', U64 (of_nat remaining_length))] fm;
         fm = insert_at Full (ctx_depth ctx) (mqtt_full message_type flags qos body) fm
     in Inr \<lparr>pl_header_len = consumed bytes r, pl_fields = fm, pl_hint = Terminal\<rparr>))))"

definition mqtt :: plugin where
  "mqtt = (default_plugin ''mqtt'' mqtt_parse)\<lparr>pg_claims := [TcpPort 1883], pg_stream_identity := Some mqtt_identity\<rparr>"

section \<open>The contract\<close>

interpretation modbus: layer_plugin modbus
  by (rule layer_pluginI)
    (auto simp: modbus_def modbus_parse_def modbus_identity_def plugin_simps fm_new_def intro!: gives_intros)

interpretation dnp3: layer_plugin dnp3
  by (rule layer_pluginI)
    (auto simp: dnp3_def dnp3_parse_def dnp3_identity_def plugin_simps fits_def fm_new_def intro!: gives_intros split: if_splits)

interpretation enip: layer_plugin enip
  by (rule layer_pluginI)
    (auto simp: enip_def enip_parse_def enip_identity_def plugin_simps fm_new_def intro!: gives_intros)

interpretation bacnet_ip: layer_plugin bacnet_ip
  by (rule layer_pluginI)
    (auto simp: bacnet_ip_def bacnet_ip_parse_def bacnet_ip_identity_def plugin_simps fm_new_def intro!: gives_intros)

interpretation mqtt: layer_plugin mqtt
  by (rule layer_pluginI)
    (auto simp: mqtt_def mqtt_parse_def mqtt_identity_def plugin_simps fm_new_def intro!: gives_intros)

section \<open>Variable byte integers\<close>

text \<open>The encoding the standard gives: seven bits per byte, least significant first, the high bit on all but
  the last.\<close>

fun vbi_encode :: "nat \<Rightarrow> byte list" where
  "vbi_encode n = (if n < 128 then [of_nat n] else of_nat (128 + n mod 128) # vbi_encode (n div 128))"

declare vbi_encode.simps [simp del]

lemma vbi_byte: "m < 256 \<Longrightarrow> unat ((of_nat m :: byte) AND 0x7F) = m mod 128"
proof -
  assume m: "m < 256"
  have "(of_nat m :: byte) AND 0x7F = take_bit 7 (of_nat m)"
    using take_bit_eq_mask[of 7 "of_nat m :: byte"] by (simp add: mask_eq_exp_minus_1)
  then show ?thesis using m by (simp add: unat_low unat_of_nat)
qed

lemma vbi_high: "m < 256 \<Longrightarrow> (of_nat m :: byte) AND 0x80 = 0 \<longleftrightarrow> m < 128"
proof -
  assume m: "m < 256"
  have "(of_nat m :: byte) AND 0x80 = 0 \<longleftrightarrow> \<not> bit (of_nat m :: byte) 7"
    using and_exp_eq_0_iff_not_bit[of "of_nat m :: byte" 7] by simp
  also have "\<dots> \<longleftrightarrow> \<not> bit (unat (of_nat m :: byte)) 7" by (simp add: bit_unsigned_iff)
  also have "\<dots> \<longleftrightarrow> m < 128"
  proof (cases "m < 128")
    case False
    with m have "m div 128 = 1" by (simp add: div_nat_eqI)
    with False m show ?thesis by (simp add: bit_iff_odd unat_of_nat)
  qed (use m in \<open>simp add: bit_iff_odd unat_of_nat\<close>)
  finally show ?thesis .
qed

lemma read_at: "pre @ b # post = rbuf r \<Longrightarrow> rpos r = length pre \<Longrightarrow> length (rbuf r) < 2 ^ 63 \<Longrightarrow>
    read_u8 r = Inr (b, r\<lparr>rpos := rpos r + 1\<rparr>)"
  by (auto simp: u8_Inr fits_def usize_max_def nth_append dest!: sym[of "pre @ b # post"])

lemma vbi_walk_encode:
  assumes "m < 128 ^ n" "0 < n" "pre @ vbi_encode m @ post = rbuf r" "rpos r = length pre" "length (rbuf r) < 2 ^ 63"
    "unat v + m * unat mul < 2 ^ 32"
  shows "vbi_walk n r v mul = Inr (unat v + m * unat mul, r\<lparr>rpos := rpos r + length (vbi_encode m)\<rparr>)"
  using assms
proof (induction n arbitrary: m r v mul pre)
  case (Suc n)
  have add: "unat (v + ucast ((of_nat k :: byte) AND 0x7F) * mul) = unat v + (k mod 128) * unat mul"
    if "k < 256" "k mod 128 \<le> m" for k
  proof -
    have "(k mod 128) * unat mul \<le> m * unat mul" using that(2) by simp
    then have "unat v + (k mod 128) * unat mul < 2 ^ 32" using Suc.prems(6) by linarith
    then show ?thesis
      using vbi_byte[OF that(1)] by (simp add: unat_word_ariths unat_widen)
  qed
  show ?case
  proof (cases "m < 128")
    case True
    then have e: "vbi_encode m = [of_nat m]" by (simp add: vbi_encode.simps)
    have "read_u8 r = Inr (of_nat m, r\<lparr>rpos := rpos r + 1\<rparr>)"
      using read_at[of pre "of_nat m" post r] Suc.prems e by simp
    then show ?thesis using add[of m] True e vbi_high[of m] by simp
  next
    case False
    let ?d = "m div 128" and ?c = "128 + m mod 128"
    have e: "vbi_encode m = of_nat ?c # vbi_encode ?d" using False by (simp add: vbi_encode.simps[of m])
    have c: "?c < 256" "?c mod 128 = m mod 128" "m mod 128 \<le> m" by simp_all
    have rd: "read_u8 r = Inr (of_nat ?c, r\<lparr>rpos := rpos r + 1\<rparr>)"
      using read_at[of pre "of_nat ?c" "vbi_encode ?d @ post" r] Suc.prems e by simp
    have hi: "(of_nat ?c :: byte) AND 0x80 \<noteq> 0" using vbi_high[OF c(1)] by simp
    let ?v = "v + ucast ((of_nat ?c :: byte) AND 0x7F) * mul"
    have v: "unat ?v = unat v + (m mod 128) * unat mul" using add[OF c(1)] c by simp
    have d: "0 < ?d" using False by simp
    have md: "m = m mod 128 + ?d * 128" by simp
    have split: "m * unat mul = (m mod 128) * unat mul + ?d * (128 * unat mul)"
      using md by (metis add_mult_distrib mult.assoc)
    have "128 * unat mul \<le> ?d * (128 * unat mul)" using d by simp
    then have m32: "128 * unat mul < 2 ^ 32" using split Suc.prems(6) by linarith
    then have um: "unat (mul * 128) = unat mul * 128" by (simp add: unat_word_ariths)
    have n: "0 < n" using Suc.prems(1) False by (cases n) auto
    have "m < 128 ^ n * 128" using Suc.prems(1) by simp
    then have dn: "?d < 128 ^ n" by (simp add: less_mult_imp_div_less)
    have sum: "unat ?v + ?d * unat (mul * 128) = unat v + m * unat mul" using v um split by simp
    let ?r = "r\<lparr>rpos := rpos r + 1\<rparr>"
    have "vbi_walk n ?r ?v (mul * 128) = Inr (unat ?v + ?d * unat (mul * 128), ?r\<lparr>rpos := rpos ?r + length (vbi_encode ?d)\<rparr>)"
      by (rule Suc.IH[of ?d "pre @ [of_nat ?c]"]) (use Suc.prems e dn n sum in simp_all)
    then show ?thesis using rd hi sum e by (simp add: Let_def)
  qed
qed simp

text \<open>MQTT remaining lengths: every length the standard can encode, up to \<open>2^28 - 1\<close>, is read back from its
  encoding, and the cursor stops right after it.\<close>

theorem variable_byte_int_roundtrip:
  assumes "n < 2 ^ 28" "length (vbi_encode n @ rest') < 2 ^ 63"
  shows "\<exists>r. variable_byte_int (new_reader (vbi_encode n @ rest')) = Inr (n, r) \<and> drop (rpos r) (rbuf r) = rest'"
proof -
  have "n < 128 ^ 4" using assms(1) by simp
  then have "variable_byte_int (new_reader (vbi_encode n @ rest')) =
      Inr (unat (0 :: u32) + n * unat (1 :: u32), (new_reader (vbi_encode n @ rest'))\<lparr>rpos := 0 + length (vbi_encode n)\<rparr>)"
    unfolding variable_byte_int_def
    by (subst vbi_walk_encode[where pre = "[]" and post = rest' and m = n]) (use assms in \<open>simp_all add: new_reader_sel\<close>)
  then show ?thesis by (simp add: new_reader_sel)
qed

theorem variable_byte_int_roundtrip_witness:
  "(321 :: nat) < 2 ^ 28 \<and>
   (\<exists>r. variable_byte_int (new_reader (vbi_encode 321 @ [7])) = Inr (321, r) \<and> drop (rpos r) (rbuf r) = [7])"
  using variable_byte_int_roundtrip[of 321 "[7]"] by (simp add: vbi_encode.simps)

end
