(* ===== verification/Ber.thy ===== *)
theory Ber
  imports Utf8
begin

text \<open>
  The plugins over ASN.1 basic encoding of \<open>pktflow-plugins/src\<close>: \<open>snmp.rs\<close>, \<open>ldap.rs\<close>,
  \<open>kerberos.rs\<close>. Each has its own reader of tag, length and content; the lemmas show that the length
  forms the three accept are the definite ones, and that short and long forms give the length they encode.
\<close>

section \<open>SNMP\<close>

definition be_fold :: "byte list \<Rightarrow> u64" where
  "be_fold bs = foldl (\<lambda>acc b. push_bit 8 acc OR ucast b) 0 bs"

text \<open>A length is at most eight bytes, so \<open>usize::try_from\<close> never fails on a 64-bit target.\<close>

definition ber_length :: "byte_reader \<Rightarrow> parse_error + usize \<times> byte_reader" where
  "ber_length r =
    try_read (read_u8 r) (\<lambda>fb r.
    if fb AND 0x80 = 0 then Inr (unat fb, r)
    else
    let n = unat (fb AND 0x7F) in
    if n = 0 then Inl (Malformed ''indefinite-length BER not supported'')
    else if 8 < n then Inl (Malformed ''BER length field too wide'')
    else try_read (take_bytes r n) (\<lambda>octets r. Inr (unat (be_fold octets), r)))"

definition snmp_tlv :: "byte_reader \<Rightarrow> parse_error + (u8 \<times> byte list) \<times> byte_reader" where
  "snmp_tlv r =
    try_read (read_u8 r) (\<lambda>tag r.
    and_then (ber_length r) (\<lambda>(len, r).
    try_read (take_bytes r len) (\<lambda>v r. Inr ((tag, v), r))))"

definition ber_uint :: "byte list \<Rightarrow> parse_error + u64" where
  "ber_uint bs =
    (case bs of
       [] \<Rightarrow> Inl (Malformed ''empty BER INTEGER'')
     | fb # _ \<Rightarrow>
        if fb AND 0x80 \<noteq> 0 then Inl (Malformed ''negative SNMP INTEGER not supported'')
        else if 8 < length bs then Inl (Malformed ''SNMP INTEGER wider than 64 bits'')
        else Inr (be_fold bs))"

definition snmp_identity :: stream_identity where
  "snmp_identity = keyed [''app''] [rolled ''pdu_type'' Accumulate, rolled ''community'' Sample]"

definition snmp_request_id :: "byte list \<Rightarrow> u64 option" where
  "snmp_request_id pdu_body =
    (case snmp_tlv (new_reader pdu_body) of
       Inr ((t, v), _) \<Rightarrow> if t = 0x02 then (case ber_uint v of Inr i \<Rightarrow> Some i | Inl _ \<Rightarrow> None) else None
     | Inl _ \<Rightarrow> None)"

text \<open>The community and PDU of versions 1 and 2c; the reader is dropped after them.\<close>

definition snmp_pdu :: "byte_reader \<Rightarrow> parse_error + byte list \<times> u8 \<times> u64 option" where
  "snmp_pdu r =
    and_then (snmp_tlv r) (\<lambda>((community_tag, community), r).
    if community_tag \<noteq> 0x04 then Inl (Malformed ''SNMP community must be an OCTET STRING'')
    else
    and_then (snmp_tlv r) (\<lambda>((pdu_tag, pdu_body), r).
    if pdu_tag AND 0xE0 \<noteq> 0xA0 then Inl (Malformed ''SNMP PDU tag is not context-specific constructed'')
    else Inr (community, pdu_tag AND 0x1F, snmp_request_id pdu_body)))"

definition snmp_parse :: "byte list \<Rightarrow> parse_ctx \<Rightarrow> parse_error + parsed_layer" where
  "snmp_parse bytes ctx =
    and_then (snmp_tlv (new_reader bytes)) (\<lambda>((msg_tag, msg_body), r).
    if msg_tag \<noteq> 0x30 then Inl (Malformed ''SNMP message must be a BER SEQUENCE'')
    else
    let header_len = consumed bytes r in
    and_then (snmp_tlv (new_reader msg_body)) (\<lambda>((version_tag, version_bytes), body).
    if version_tag \<noteq> 0x02 then Inl (Malformed ''SNMP version must be an INTEGER'')
    else
    and_then (ber_uint version_bytes) (\<lambda>version.
    and_then (if version = 0 \<or> version = 1 then and_then (snmp_pdu body) (\<lambda>x. Inr (Some x)) else Inr None) (\<lambda>pdu.
    let fm = fm_new;
        fm = insert_at Keys (ctx_depth ctx) [(''app'', Str ''snmp'')] fm;
        fm = insert_at Structural (ctx_depth ctx)
          ([(''version'', U64 version)] @
           (case pdu of Some (c, t, _) \<Rightarrow> [(''community'', Str (from_utf8_lossy c)), (''pdu_type'', U64 (ucast t))] | None \<Rightarrow> [])) fm;
        fm = insert_at Full (ctx_depth ctx)
          (case pdu of Some (_, _, i) \<Rightarrow> opt_field ''request_id'' (map_option U64 i) | None \<Rightarrow> []) fm
    in Inr \<lparr>pl_header_len = header_len, pl_fields = fm, pl_hint = Terminal\<rparr>))))"

definition snmp :: plugin where
  "snmp = (default_plugin ''snmp'' snmp_parse)
     \<lparr>pg_claims := [UdpPort 161, UdpPort 162], pg_stream_identity := Some snmp_identity\<rparr>"

section \<open>Kerberos and LDAP\<close>

definition read_der_length :: "byte_reader \<Rightarrow> parse_error + u64 \<times> byte_reader" where
  "read_der_length r =
    try_read (read_u8 r) (\<lambda>fb r.
    if fb AND 0x80 = 0 then Inr (ucast fb, r)
    else
    let width = fb AND 0x7F in
    if width = 0 then Inl (Malformed ''indefinite-length BER encoding is not valid DER'')
    else if 8 < width then Inl (Malformed ''DER length wider than 8 octets'')
    else try_read (take_bytes r (unat width)) (\<lambda>octets r. Inr (be_fold octets, r)))"

definition is_recognized_msg_type :: "u8 \<Rightarrow> bool" where
  "is_recognized_msg_type t \<longleftrightarrow> t \<in> {10, 11, 12, 13, 14, 15, 30}"

definition kerberos_identity :: stream_identity where
  "kerberos_identity = keyed [''app''] [rolled ''msg_type'' Accumulate]"

definition kerberos_parse :: "byte list \<Rightarrow> parse_ctx \<Rightarrow> parse_error + parsed_layer" where
  "kerberos_parse bytes ctx =
    (let r = new_reader bytes in
     try_read (read_u8 r) (\<lambda>tag r.
     if tag AND 0xE0 \<noteq> 0x60 then Inl (Malformed ''not a Kerberos [APPLICATION n] SEQUENCE tag'')
     else
     let msg_type = tag AND 0x1F in
     if \<not> is_recognized_msg_type msg_type then Inl (Malformed ''unrecognized Kerberos msg-type'')
     else
     and_then (read_der_length r) (\<lambda>(len, r).
     try_read (take_bytes r (unat len)) (\<lambda>_ r.
     let header_len = consumed bytes r;
         fm = fm_new;
         fm = insert_at Keys (ctx_depth ctx) [(''app'', Str ''kerberos'')] fm;
         fm = insert_at Structural (ctx_depth ctx) [(''msg_type'', U64 (ucast msg_type)), (''der_length'', U64 len)] fm
     in Inr \<lparr>pl_header_len = header_len, pl_fields = fm, pl_hint = Terminal\<rparr>))))"

definition kerberos :: plugin where
  "kerberos = (default_plugin ''kerberos'' kerberos_parse)
     \<lparr>pg_claims := [UdpPort 88, TcpPort 88], pg_stream_identity := Some kerberos_identity\<rparr>"

record ldap_tlv =
  lt_tag :: u8
  lt_content :: "byte list"

definition read_ldap_tlv :: "byte_reader \<Rightarrow> parse_error + ldap_tlv \<times> byte_reader" where
  "read_ldap_tlv r =
    try_read (read_u8 r) (\<lambda>tag r.
    and_then (read_der_length r) (\<lambda>(len, r).
    try_read (take_bytes r (unat len)) (\<lambda>content r. Inr (\<lparr>lt_tag = tag, lt_content = content\<rparr>, r))))"

definition decode_uint :: "byte list \<Rightarrow> u64 option" where
  "decode_uint bs = (if bs = [] \<or> 8 < length bs then None else Some (be_fold bs))"

definition read_bind_dn :: "byte list \<Rightarrow> string option" where
  "read_bind_dn op_content =
    (case read_ldap_tlv (new_reader op_content) of
       Inl _ \<Rightarrow> None
     | Inr (version, r) \<Rightarrow>
        if lt_tag version \<noteq> 0x02 then None
        else (case read_ldap_tlv r of
            Inl _ \<Rightarrow> None
          | Inr (nm, _) \<Rightarrow> if lt_tag nm \<noteq> 0x04 then None else from_utf8 (lt_content nm)))"

definition ldap_identity :: stream_identity where
  "ldap_identity = keyed [''app''] [rolled ''protocol_op'' Accumulate, rolled ''bind_dn'' Sample]"

definition ldap_parse :: "byte list \<Rightarrow> parse_ctx \<Rightarrow> parse_error + parsed_layer" where
  "ldap_parse bytes ctx =
    and_then (read_ldap_tlv (new_reader bytes)) (\<lambda>(outer, r).
    if lt_tag outer \<noteq> 0x30 then Inl (Malformed ''not an LDAPMessage SEQUENCE'')
    else
    let header_len = consumed bytes r in
    and_then (read_ldap_tlv (new_reader (lt_content outer))) (\<lambda>(msg_id, cr).
    if lt_tag msg_id \<noteq> 0x02 then Inl (Malformed ''LDAPMessage missing messageID'')
    else
    case decode_uint (lt_content msg_id) of
      None \<Rightarrow> Inl (Malformed ''messageID too wide'')
    | Some message_id \<Rightarrow>
       and_then (read_ldap_tlv cr) (\<lambda>(op, cr).
       if lt_tag op AND 0xC0 \<noteq> 0x40 then Inl (Malformed ''protocolOp is not an APPLICATION-tagged CHOICE'')
       else
       let protocol_op = lt_tag op AND 0x1F;
           fm = fm_new;
           fm = insert_at Keys (ctx_depth ctx) [(''app'', Str ''ldap'')] fm;
           fm = insert_at Structural (ctx_depth ctx) [(''message_id'', U64 message_id), (''protocol_op'', U64 (ucast protocol_op))] fm;
           fm = insert_at Full (ctx_depth ctx)
             (if protocol_op = 0 then opt_field ''bind_dn'' (map_option Str (read_bind_dn (lt_content op))) else []) fm
       in Inr \<lparr>pl_header_len = header_len, pl_fields = fm, pl_hint = Terminal\<rparr>)))"

definition ldap :: plugin where
  "ldap = (default_plugin ''ldap'' ldap_parse)\<lparr>pg_claims := [TcpPort 389], pg_stream_identity := Some ldap_identity\<rparr>"

section \<open>The contract\<close>

interpretation snmp: layer_plugin snmp
  by (rule layer_pluginI)
    (auto simp: snmp_def snmp_parse_def snmp_identity_def plugin_simps fm_new_def intro!: gives_intros)

interpretation kerberos: layer_plugin kerberos
  by (rule layer_pluginI)
    (auto simp: kerberos_def kerberos_parse_def kerberos_identity_def plugin_simps fm_new_def intro!: gives_intros)

interpretation ldap: layer_plugin ldap
  by (rule layer_pluginI)
    (auto simp: ldap_def ldap_parse_def ldap_identity_def plugin_simps fm_new_def intro!: gives_intros)

section \<open>Definite lengths\<close>

text \<open>The definite length forms of X.690: one byte below 128, or the number of length bytes with the high bit
  set followed by the length, big-endian, in that many bytes.\<close>

definition definite_length :: "byte list \<Rightarrow> nat \<Rightarrow> bool" where
  "definite_length bs n \<longleftrightarrow>
    (\<exists>b. bs = [b] \<and> b AND 0x80 = 0 \<and> n = unat b) \<or>
    (\<exists>b os. bs = b # os \<and> b AND 0x80 \<noteq> 0 \<and> length os = unat (b AND 0x7F) \<and> 0 < length os \<and> length os \<le> 8 \<and>
      n = unat (be_fold os))"

lemma bytes_at_Cons: "i < length b \<Longrightarrow> bytes_at b i (Suc n) = b ! i # bytes_at b (Suc i) n"
  by (simp add: bytes_at_def Cons_nth_drop_Suc[symmetric])

lemma ber_length_eq: "ber_length r = Inr (n, r') \<Longrightarrow>
    \<exists>k. 0 < k \<and> rpos r + k \<le> length (rbuf r) \<and> r' = r\<lparr>rpos := rpos r + k\<rparr> \<and> definite_length (bytes_at (rbuf r) (rpos r) k) n"
proof -
  assume a: "ber_length r = Inr (n, r')"
  let ?b = "rbuf r ! rpos r"
  have f: "rpos r < length (rbuf r)" using a by (auto simp: ber_length_def reader_simps fits_def)
  show ?thesis
  proof (cases "?b AND 0x80 = 0")
    case True
    then have "n = unat ?b" "r' = r\<lparr>rpos := rpos r + 1\<rparr>" using a by (auto simp: ber_length_def reader_simps)
    then show ?thesis using True f bytes_at_Cons[OF f, of 0]
      by (intro exI[of _ 1]) (auto simp: definite_length_def One_nat_def bytes_at_def)
  next
    case False
    let ?w = "unat (?b AND 0x7F)"
    have w: "0 < ?w" "?w \<le> 8" and s: "rpos r + 1 + ?w \<le> length (rbuf r)"
      and n: "n = unat (be_fold (bytes_at (rbuf r) (rpos r + 1) ?w))" and r': "r' = r\<lparr>rpos := rpos r + 1 + ?w\<rparr>"
      using a False by (auto simp: ber_length_def reader_simps Let_def fits_def split: if_splits)
    have "bytes_at (rbuf r) (rpos r) (1 + ?w) = ?b # bytes_at (rbuf r) (rpos r + 1) ?w"
      using bytes_at_Cons[OF f, of ?w] by (simp add: One_nat_def)
    moreover have "length (bytes_at (rbuf r) (rpos r + 1) ?w) = ?w" using s by simp
    ultimately have "definite_length (bytes_at (rbuf r) (rpos r) (1 + ?w)) n"
      unfolding definite_length_def using False w n by (intro disjI2 exI conjI) (assumption | simp)+
    then show ?thesis using w s r' by (intro exI[of _ "1 + ?w"]) (auto simp: add.assoc)
  qed
qed

lemma der_length_ber: "read_der_length r = Inr (len, r') \<Longrightarrow> ber_length r = Inr (unat len, r')"
proof -
  have "unat x < 8 \<or> unat x \<le> 8 \<longleftrightarrow> \<not> 8 < x" for x :: byte by (auto simp: word_less_nat_alt)
  then show "read_der_length r = Inr (len, r') \<Longrightarrow> ber_length r = Inr (unat len, r')"
    by (auto simp: read_der_length_def ber_length_def try_simps Let_def unat_widen unat_eq_zero word_less_nat_alt split: if_splits)
qed

text \<open>BER framing: a layer that the SNMP, Kerberos or LDAP plugin accepts is exactly one element: a tag byte, a definite
  length and as many content bytes as the length says, which all lie in the bytes offered.\<close>

definition ber_element :: "byte list \<Rightarrow> nat \<Rightarrow> bool" where
  "ber_element bytes n \<longleftrightarrow> (\<exists>k len. 0 < k \<and> n = 1 + k + len \<and> n \<le> length bytes \<and> definite_length (bytes_at bytes 1 k) len)"

lemma snmp_tlv_element:
  assumes "snmp_tlv (new_reader bytes) = Inr (x, r)"
  shows "ber_element bytes (consumed bytes r)"
proof -
  obtain len r2 where l: "ber_length (new_reader bytes\<lparr>rpos := 1\<rparr>) = Inr (len, r2)" and t: "take_bytes r2 len = Inr (snd x, r)"
    using assms by (auto simp: snmp_tlv_def reader_simps and_then_Inr_iff)
  from ber_length_eq[OF l] t show ?thesis
    by (fastforce simp: ber_element_def reader_simps fits_def consumed_def remaining_def)
qed

theorem ber_layers_framed:
  assumes "p \<in> {snmp, kerberos, ldap}" "pg_parse p bytes ctx = Inr pl"
  shows "ber_element bytes (pl_header_len pl)"
proof -
  have "\<exists>x r. snmp_tlv (new_reader bytes) = Inr (x, r) \<and> pl_header_len pl = consumed bytes r"
    using assms
    by (auto simp: snmp_def kerberos_def ldap_def default_plugin_def snmp_parse_def kerberos_parse_def ldap_parse_def and_then_Inr_iff
        reader_simps Let_def snmp_tlv_def read_ldap_tlv_def split: if_splits option.splits dest!: der_length_ber)
  then show ?thesis using snmp_tlv_element by auto
qed

end
