(* ===== verification/Lines.thy ===== *)
theory Lines
  imports Utf8
begin

text \<open>
  Text protocols of \<open>pktflow-plugins/src\<close>: one line per message (\<open>smtp.rs\<close>, \<open>pop3.rs\<close>, \<open>imap.rs\<close>,
  \<open>ftp.rs\<close>), RESP (\<open>redis.rs\<close>) and header blocks ended by a blank line (\<open>http.rs\<close>, \<open>sip.rs\<close>,
  \<open>ssdp.rs\<close>). The line functions that several of these files repeat are defined once. The lemmas show
  that a line or header block ends at the first terminator and that splitting a block into lines loses nothing.
\<close>

section \<open>Bytes as text\<close>

definition ascii :: "string \<Rightarrow> byte list" where
  "ascii s = map (\<lambda>c. of_nat (code c)) s"

definition CRLF :: "byte list" where "CRLF = [0x0D, 0x0A]"

definition byte_digit :: "byte \<Rightarrow> bool" where "byte_digit b \<longleftrightarrow> 0x30 \<le> b \<and> b \<le> 0x39"

definition byte_alpha :: "byte \<Rightarrow> bool" where
  "byte_alpha b \<longleftrightarrow> 0x41 \<le> b \<and> b \<le> 0x5A \<or> 0x61 \<le> b \<and> b \<le> 0x7A"

definition byte_upper :: "byte \<Rightarrow> byte" where
  "byte_upper b = (if 0x61 \<le> b \<and> b \<le> 0x7A then b - 0x20 else b)"

definition bytes_eq_ignore_case :: "byte list \<Rightarrow> byte list \<Rightarrow> bool" where
  "bytes_eq_ignore_case a b \<longleftrightarrow> map byte_upper a = map byte_upper b"

text \<open>\<open>iter().position(..)\<close>, \<open>windows(n).position(|w| w == pat)\<close>, \<open>starts_with\<close>, \<open>splitn\<close>.\<close>

fun position :: "('a \<Rightarrow> bool) \<Rightarrow> 'a list \<Rightarrow> nat option" where
  "position P [] = None"
| "position P (x # xs) = (if P x then Some 0 else map_option Suc (position P xs))"

definition bytes_start :: "byte list \<Rightarrow> byte list \<Rightarrow> bool" where
  "bytes_start bs pat \<longleftrightarrow> take (length pat) bs = pat"

fun find_window :: "byte list \<Rightarrow> byte list \<Rightarrow> nat option" where
  "find_window pat [] = None"
| "find_window pat (b # bs) = (if bytes_start (b # bs) pat then Some 0 else map_option Suc (find_window pat bs))"

fun splitn :: "nat \<Rightarrow> byte \<Rightarrow> byte list \<Rightarrow> byte list list" where
  "splitn 0 sep bs = []"
| "splitn (Suc 0) sep bs = [bs]"
| "splitn (Suc (Suc n)) sep bs =
    (case position (\<lambda>b. b = sep) bs of None \<Rightarrow> [bs] | Some i \<Rightarrow> take i bs # splitn (Suc n) sep (drop (Suc i) bs))"

definition digits_u16 :: "byte list \<Rightarrow> u16" where
  "digits_u16 ds = foldl (\<lambda>acc b. acc * 10 + ucast (b - 0x30)) 0 ds"

lemma position_Some: "position P xs = Some i \<longleftrightarrow> i < length xs \<and> P (xs ! i) \<and> (\<forall>j<i. \<not> P (xs ! j))"
proof (induction xs arbitrary: i)
  case (Cons x xs)
  then show ?case by (cases i) (auto simp: less_Suc_eq_0_disj)
qed simp

lemma find_window_Some:
  "find_window pat bs = Some i \<Longrightarrow> pat \<noteq> [] \<Longrightarrow> i + length pat \<le> length bs \<and> take (length pat) (drop i bs) = pat \<and>
    (\<forall>j<i. take (length pat) (drop j bs) \<noteq> pat)"
proof (induction bs arbitrary: i)
  case (Cons b bs)
  show ?case
  proof (cases "bytes_start (b # bs) pat")
    case True
    then have "length pat \<le> length (b # bs)"
      by (metis bytes_start_def length_take min.cobounded1 min.commute)
    then show ?thesis using True Cons.prems by (simp add: bytes_start_def)
  next
    case False
    then obtain k where k: "find_window pat bs = Some k" "i = Suc k" using Cons.prems by auto
    have "j < i \<Longrightarrow> take (length pat) (drop j (b # bs)) \<noteq> pat" for j
      using Cons.IH[OF k(1) Cons.prems(2)] k(2) False by (cases j) (auto simp: bytes_start_def)
    then show ?thesis using Cons.IH[OF k(1) Cons.prems(2)] k(2) by simp
  qed
qed simp

section \<open>Single lines\<close>

definition split_line :: "byte list \<Rightarrow> (byte list \<times> usize) option" where
  "split_line bytes =
    (case position (\<lambda>b. b = 0x0A) bytes of
       None \<Rightarrow> None
     | Some nl \<Rightarrow> Some (if 0 < nl \<and> bytes ! (nl - 1) = 0x0D then take (nl - 1) bytes else take nl bytes, nl + 1))"

definition no_line :: "byte list \<Rightarrow> parse_error" where
  "no_line bytes = ETruncated \<lparr>t_needed = length bytes + 1, t_have = length bytes\<rparr>"

definition parse_reply_code :: "byte list \<Rightarrow> (u16 \<times> byte list) option" where
  "parse_reply_code line =
    (if length line < 3 \<or> \<not> list_all byte_digit (take 3 line) then None
     else
     let c = digits_u16 (take 3 line) in
     case elem_get line 3 of
       None \<Rightarrow> Some (c, drop 3 line)
     | Some b \<Rightarrow> if b = 0x20 \<or> b = 0x2D then Some (c, drop (min 4 (length line)) line) else None)"

definition command_word :: "string list \<Rightarrow> byte list \<Rightarrow> (string \<times> byte list) option" where
  "command_word commands line =
    (let e = (case position (\<lambda>b. b = 0x20) line of Some i \<Rightarrow> i | None \<Rightarrow> length line) in
     if e = 0 \<or> \<not> list_all byte_alpha (take e line) then None
     else case from_utf8 (map byte_upper (take e line)) of
       None \<Rightarrow> None
     | Some command \<Rightarrow>
        if command \<notin> set commands then None
        else Some (command, if e < length line then drop (e + 1) line else drop e line))"

section \<open>SMTP and FTP\<close>

definition SMTP_COMMANDS :: "string list" where
  "SMTP_COMMANDS = [''HELO'', ''EHLO'', ''MAIL'', ''RCPT'', ''DATA'', ''RSET'', ''VRFY'', ''EXPN'', ''HELP'', ''NOOP'', ''QUIT'',
     ''STARTTLS'', ''AUTH'', ''BDAT'', ''ETRN'', ''TURN'', ''SEND'', ''SOML'', ''SAML'']"

definition smtp_parse_command :: "byte list \<Rightarrow> (string \<times> byte list) option" where
  "smtp_parse_command line = command_word SMTP_COMMANDS line"

definition smtp_identity :: stream_identity where
  "smtp_identity = keyed [''app''] [rolled ''command'' Accumulate, rolled ''reply_code'' Accumulate]"

definition smtp_parse :: "byte list \<Rightarrow> parse_ctx \<Rightarrow> parse_error + parsed_layer" where
  "smtp_parse bytes ctx =
    (case split_line bytes of
       None \<Rightarrow> Inl (no_line bytes)
     | Some (line, header_len) \<Rightarrow>
        let fm = insert_at Keys (ctx_depth ctx) [(''app'', Str ''smtp'')] fm_new;
            done = (\<lambda>fm. Inr \<lparr>pl_header_len = header_len, pl_fields = fm, pl_hint = Terminal\<rparr>)
        in (case parse_reply_code line of
              Some (reply, arg) \<Rightarrow>
                (let fm = insert_at Structural (ctx_depth ctx) [(''is_request'', VBool False), (''reply_code'', U64 (ucast reply))] fm
                 in done (insert_at Full (ctx_depth ctx) [(''arg'', Str (from_utf8_lossy arg))] fm))
            | None \<Rightarrow>
                (case smtp_parse_command line of
                   Some (command, arg) \<Rightarrow>
                     (let fm = insert_at Structural (ctx_depth ctx) [(''is_request'', VBool True), (''command'', Str command)] fm
                      in done (insert_at Full (ctx_depth ctx) [(''arg'', Str (from_utf8_lossy arg))] fm))
                 | None \<Rightarrow> Inl (Malformed ''not an SMTP reply code or command line''))))"

definition smtp :: plugin where
  "smtp = (default_plugin ''smtp'' smtp_parse)\<lparr>pg_claims := [TcpPort 25], pg_stream_identity := Some smtp_identity\<rparr>"

definition FTP_COMMANDS :: "string list" where
  "FTP_COMMANDS = [''USER'', ''PASS'', ''ACCT'', ''CWD'', ''CDUP'', ''SMNT'', ''QUIT'', ''REIN'', ''PORT'', ''PASV'', ''TYPE'', ''STRU'',
     ''MODE'', ''RETR'', ''STOR'', ''STOU'', ''APPE'', ''ALLO'', ''REST'', ''RNFR'', ''RNTO'', ''ABOR'', ''DELE'', ''RMD'',
     ''MKD'', ''PWD'', ''LIST'', ''NLST'', ''SITE'', ''SYST'', ''STAT'', ''HELP'', ''NOOP'', ''FEAT'', ''OPTS'', ''AUTH'',
     ''ADAT'', ''PBSZ'', ''PROT'', ''CCC'', ''MIC'', ''CONF'', ''ENC'', ''EPRT'', ''EPSV'', ''SIZE'', ''MDTM'', ''MLSD'',
     ''MLST'', ''LANG'', ''XPWD'', ''XCWD'', ''XMKD'', ''XRMD'', ''XCUP'']"

definition ftp_parse_command :: "byte list \<Rightarrow> (string \<times> byte list) option" where
  "ftp_parse_command line = command_word FTP_COMMANDS line"

definition ftp_identity :: stream_identity where
  "ftp_identity = keyed [''app''] [rolled ''command'' Accumulate, rolled ''reply_code'' Accumulate]"

definition ftp_parse :: "byte list \<Rightarrow> parse_ctx \<Rightarrow> parse_error + parsed_layer" where
  "ftp_parse bytes ctx =
    (case split_line bytes of
       None \<Rightarrow> Inl (no_line bytes)
     | Some (line, header_len) \<Rightarrow>
        let fm = insert_at Keys (ctx_depth ctx) [(''app'', Str ''ftp'')] fm_new;
            done = (\<lambda>fm. Inr \<lparr>pl_header_len = header_len, pl_fields = fm, pl_hint = Terminal\<rparr>)
        in (case parse_reply_code line of
              Some (reply, arg) \<Rightarrow>
                (let fm = insert_at Structural (ctx_depth ctx) [(''is_request'', VBool False), (''reply_code'', U64 (ucast reply))] fm
                 in done (insert_at Full (ctx_depth ctx) [(''arg'', Str (from_utf8_lossy arg))] fm))
            | None \<Rightarrow>
                (case ftp_parse_command line of
                   Some (command, arg) \<Rightarrow>
                     (let fm = insert_at Structural (ctx_depth ctx) [(''is_request'', VBool True), (''command'', Str command)] fm
                      in done (insert_at Full (ctx_depth ctx) [(''arg'', Str (from_utf8_lossy arg))] fm))
                 | None \<Rightarrow> Inl (Malformed ''not an FTP reply code or command line''))))"

definition ftp :: plugin where
  "ftp = (default_plugin ''ftp'' ftp_parse)\<lparr>pg_claims := [TcpPort 21], pg_stream_identity := Some ftp_identity\<rparr>"

section \<open>POP3 and IMAP\<close>

definition POP3_COMMANDS :: "string list" where
  "POP3_COMMANDS = [''USER'', ''PASS'', ''APOP'', ''STAT'', ''LIST'', ''RETR'', ''DELE'', ''NOOP'', ''RSET'', ''QUIT'', ''TOP'', ''UIDL'',
     ''CAPA'', ''STLS'', ''AUTH'']"

definition pop3_parse_command :: "byte list \<Rightarrow> (string \<times> byte list) option" where
  "pop3_parse_command line = command_word POP3_COMMANDS line"

fun status_walk :: "byte list list \<Rightarrow> byte list \<Rightarrow> (byte list \<times> byte list) option" where
  "status_walk [] line = None"
| "status_walk (status # others) line =
    (if bytes_start line status then
       (case elem_get line (length status) of
          None \<Rightarrow> Some (status, drop (length status) line)
        | Some b \<Rightarrow> if b = 0x20 then Some (status, drop (min (length status + 1) (length line)) line) else status_walk others line)
     else status_walk others line)"

definition parse_status :: "byte list \<Rightarrow> (byte list \<times> byte list) option" where
  "parse_status line = status_walk [ascii ''+OK'', ascii ''-ERR''] line"

definition pop3_identity :: stream_identity where
  "pop3_identity = keyed [''app''] [rolled ''command'' Accumulate]"

definition pop3_parse :: "byte list \<Rightarrow> parse_ctx \<Rightarrow> parse_error + parsed_layer" where
  "pop3_parse bytes ctx =
    (case split_line bytes of
       None \<Rightarrow> Inl (no_line bytes)
     | Some (line, header_len) \<Rightarrow>
        let fm = insert_at Keys (ctx_depth ctx) [(''app'', Str ''pop3'')] fm_new;
            done = (\<lambda>fm. Inr \<lparr>pl_header_len = header_len, pl_fields = fm, pl_hint = Terminal\<rparr>)
        in (case parse_status line of
              Some (status, arg) \<Rightarrow>
                (let fm = insert_at Structural (ctx_depth ctx) [(''is_request'', VBool False), (''status'', Str (from_utf8_lossy status))] fm
                 in done (insert_at Full (ctx_depth ctx) [(''arg'', Str (from_utf8_lossy arg))] fm))
            | None \<Rightarrow>
                (case pop3_parse_command line of
                   Some (command, arg) \<Rightarrow>
                     (let fm = insert_at Structural (ctx_depth ctx) [(''is_request'', VBool True), (''command'', Str command)] fm
                      in done (insert_at Full (ctx_depth ctx) [(''arg'', Str (from_utf8_lossy arg))] fm))
                 | None \<Rightarrow> Inl (Malformed ''not a POP3 status line or command line''))))"

definition pop3 :: plugin where
  "pop3 = (default_plugin ''pop3'' pop3_parse)\<lparr>pg_claims := [TcpPort 110], pg_stream_identity := Some pop3_identity\<rparr>"

definition split_tag_and_second_token :: "byte list \<Rightarrow> (byte list \<times> byte list \<times> byte list) option" where
  "split_tag_and_second_token line =
    (case position (\<lambda>b. b = 0x20) line of
       None \<Rightarrow> None
     | Some tag_end \<Rightarrow>
        if tag_end = 0 then None
        else
        let tail = drop (tag_end + 1) line;
            second_end = (case position (\<lambda>b. b = 0x20) tail of Some i \<Rightarrow> i | None \<Rightarrow> length tail)
        in if second_end = 0 then None
           else Some (take tag_end line, take second_end tail,
             if second_end < length tail then drop (second_end + 1) tail else drop second_end tail))"

definition is_response_status :: "byte list \<Rightarrow> bool" where
  "is_response_status token \<longleftrightarrow> token \<in> {ascii ''OK'', ascii ''NO'', ascii ''BAD''}"

definition IMAP_COMMANDS :: "string list" where
  "IMAP_COMMANDS = [''CAPABILITY'', ''NOOP'', ''LOGOUT'', ''STARTTLS'', ''AUTHENTICATE'', ''LOGIN'', ''ENABLE'', ''SELECT'', ''EXAMINE'',
     ''CREATE'', ''DELETE'', ''RENAME'', ''SUBSCRIBE'', ''UNSUBSCRIBE'', ''LIST'', ''LSUB'', ''NAMESPACE'', ''STATUS'', ''APPEND'',
     ''IDLE'', ''CLOSE'', ''UNSELECT'', ''EXPUNGE'', ''SEARCH'', ''FETCH'', ''STORE'', ''COPY'', ''MOVE'', ''UID'', ''CHECK'']"

definition is_valid_tag :: "byte list \<Rightarrow> bool" where
  "is_valid_tag tag \<longleftrightarrow> tag = ascii ''*'' \<or> tag = ascii ''+'' \<or> list_all (\<lambda>b. byte_alpha b \<or> byte_digit b \<or> b = 0x2E) tag"

definition imap_identity :: stream_identity where
  "imap_identity = keyed [''app''] [rolled ''command'' Accumulate]"

definition imap_parse :: "byte list \<Rightarrow> parse_ctx \<Rightarrow> parse_error + parsed_layer" where
  "imap_parse bytes ctx =
    (case split_line bytes of
       None \<Rightarrow> Inl (no_line bytes)
     | Some (line, header_len) \<Rightarrow>
        (case split_tag_and_second_token line of
           None \<Rightarrow> Inl (Malformed ''not a tag + token IMAP line'')
         | Some (tag, second, args) \<Rightarrow>
            if \<not> is_valid_tag tag then Inl (Malformed ''IMAP line does not start with a tag'')
            else
            let untagged = tag = ascii ''*'' \<or> tag = ascii ''+'';
                command = (if is_response_status second then None else from_utf8 (map byte_upper second))
            in
            if (case command of Some c \<Rightarrow> \<not> untagged \<and> c \<notin> set IMAP_COMMANDS | None \<Rightarrow> False)
            then Inl (Malformed ''unrecognized IMAP command'')
            else
            let fm = fm_new;
                fm = insert_at Keys (ctx_depth ctx) [(''app'', Str ''imap'')] fm;
                fm = insert_at Structural (ctx_depth ctx)
                  ([(''tag'', Str (from_utf8_lossy tag))] @
                   (if is_response_status second then
                      [(''is_response'', VBool True), (''response_status'', Str (from_utf8_lossy second))]
                    else (case command of Some c \<Rightarrow> [(''is_response'', VBool False), (''command'', Str c)] | None \<Rightarrow> []))) fm;
                fm = insert_at Full (ctx_depth ctx) [(''args'', Str (from_utf8_lossy args))] fm
            in Inr \<lparr>pl_header_len = header_len, pl_fields = fm, pl_hint = Terminal\<rparr>))"

definition imap :: plugin where
  "imap = (default_plugin ''imap'' imap_parse)\<lparr>pg_claims := [TcpPort 143], pg_stream_identity := Some imap_identity\<rparr>"

section \<open>RESP\<close>

definition find_line :: "byte list \<Rightarrow> (byte list \<times> usize) option" where
  "find_line bytes = (case find_window CRLF bytes of None \<Rightarrow> None | Some i \<Rightarrow> Some (take i bytes, i + 2))"

text \<open>\<open>str::parse::<i64>\<close>: an optional sign and decimal digits, in range.\<close>

definition parse_i64 :: "string \<Rightarrow> int option" where
  "parse_i64 s =
    (let (neg, ds) = (case s of [] \<Rightarrow> (False, []) | c # cs \<Rightarrow> if c = CHR ''-'' then (True, cs) else if c = CHR ''+'' then (False, cs) else (False, s));
         n = int (read_nat ds); v = (if neg then - n else n)
     in if ds = [] \<or> \<not> list_all is_ascii_digit ds \<or> v < - (2 ^ 63) \<or> 2 ^ 63 \<le> v then None else Some v)"

definition parse_int :: "byte list \<Rightarrow> int option" where
  "parse_int bs = (case from_utf8 bs of None \<Rightarrow> None | Some s \<Rightarrow> parse_i64 s)"

definition truncated_at :: "usize \<Rightarrow> usize \<Rightarrow> parse_error" where
  "truncated_at needed have' = ETruncated \<lparr>t_needed = needed, t_have = have'\<rparr>"

definition parse_bulk_string :: "byte list \<Rightarrow> parse_error + byte list option \<times> usize" where
  "parse_bulk_string bytes =
    (let tail = drop 1 bytes in
     case find_line tail of
       None \<Rightarrow> Inl (truncated_at (length tail + 1) (length tail))
     | Some (line, line_consumed) \<Rightarrow>
        (case parse_int line of
           None \<Rightarrow> Inl (Malformed ''bad bulk string length'')
         | Some len \<Rightarrow>
            if len < 0 then Inr (None, 1 + line_consumed)
            else
            let content_start = 1 + line_consumed; content_end = content_start + nat len in
            (case slice_get bytes content_start content_end of
               None \<Rightarrow> Inl (truncated_at content_end (length bytes))
             | Some content \<Rightarrow>
                (case slice_get bytes content_end (content_end + 2) of
                   None \<Rightarrow> Inl (truncated_at (content_end + 2) (length bytes))
                 | Some trailing \<Rightarrow>
                    if trailing \<noteq> CRLF then Inl (Malformed ''bulk string missing CRLF terminator'')
                    else Inr (Some content, content_end + 2)))))"

definition redis_identity :: stream_identity where
  "redis_identity = keyed [''app''] [rolled ''command'' Accumulate]"

definition resp_type_of :: "byte \<Rightarrow> string option" where
  "resp_type_of b =
    (if b = 0x2B then Some ''simple_string'' else if b = 0x2D then Some ''error'' else if b = 0x3A then Some ''integer''
     else if b = 0x24 then Some ''bulk_string'' else if b = 0x2A then Some ''array'' else None)"

text \<open>The array branch: header length, command and argument number.\<close>

definition redis_array :: "byte list \<Rightarrow> parse_error + usize \<times> string option \<times> u64 option" where
  "redis_array bytes =
    (let tail = drop 1 bytes in
     case find_line tail of
       None \<Rightarrow> Inl (truncated_at (length tail + 1) (length tail))
     | Some (line, used) \<Rightarrow>
        (case parse_int line of
           None \<Rightarrow> Inl (Malformed ''bad array count'')
         | Some n \<Rightarrow>
            let header_len = 1 + used in
            if 0 < n then
              (case (if elem_get bytes header_len = Some 0x24 then parse_bulk_string (drop header_len bytes) else Inr (None, 0)) of
                 Inr (Some txt, elem_consumed) \<Rightarrow>
                   (case from_utf8 txt of
                      Some s \<Rightarrow> Inr (header_len + elem_consumed, Some s, Some (of_int n))
                    | None \<Rightarrow> Inr (header_len, None, Some (of_int n)))
               | _ \<Rightarrow> Inr (header_len, None, Some (of_int n)))
            else if n = 0 then Inr (header_len, None, Some 0)
            else Inr (header_len, None, None)))"

definition redis_body :: "byte \<Rightarrow> byte list \<Rightarrow> parse_error + usize \<times> string option \<times> u64 option" where
  "redis_body type_byte bytes =
    (let tail = drop 1 bytes in
     if type_byte = 0x24 then and_then (parse_bulk_string bytes) (\<lambda>(_, used). Inr (used, None, None))
     else if type_byte = 0x2A then redis_array bytes
     else case find_line tail of
         None \<Rightarrow> Inl (truncated_at (length tail + 1) (length tail))
       | Some (_, used) \<Rightarrow> Inr (1 + used, None, None))"

definition redis_parse :: "byte list \<Rightarrow> parse_ctx \<Rightarrow> parse_error + parsed_layer" where
  "redis_parse bytes ctx =
    (case bytes of
       [] \<Rightarrow> Inl (truncated_at 1 0)
     | type_byte # _ \<Rightarrow>
        (case resp_type_of type_byte of
           None \<Rightarrow> Inl (Malformed ''not a recognized RESP type byte'')
         | Some resp_type \<Rightarrow>
            and_then (redis_body type_byte bytes) (\<lambda>(header_len, command, arg_count).
            let fm = fm_new;
                fm = insert_at Keys (ctx_depth ctx) [(''app'', Str ''redis'')] fm;
                fm = insert_at Structural (ctx_depth ctx) [(''resp_type'', Str resp_type)] fm;
                fm = insert_at Full (ctx_depth ctx)
                  (opt_field ''command'' (map_option Str command) @ opt_field ''arg_count'' (map_option U64 arg_count)) fm
            in Inr \<lparr>pl_header_len = header_len, pl_fields = fm, pl_hint = Terminal\<rparr>)))"

definition redis :: plugin where
  "redis = (default_plugin ''redis'' redis_parse)\<lparr>pg_claims := [TcpPort 6379], pg_stream_identity := Some redis_identity\<rparr>"

section \<open>Header blocks\<close>

definition find_header_end :: "byte list \<Rightarrow> usize option" where
  "find_header_end bytes = find_window (CRLF @ CRLF) bytes"

lemma find_window_lt: "find_window pat bs = Some i \<Longrightarrow> i < length bs"
  by (induction bs arbitrary: i) (auto split: if_splits)

function split_lines :: "byte list \<Rightarrow> byte list list" where
  "split_lines block =
    (case find_window CRLF block of None \<Rightarrow> [block] | Some i \<Rightarrow> take i block # split_lines (drop (i + 2) block))"
  by pat_completeness auto
termination by (relation "measure length") (auto dest!: find_window_lt)

declare split_lines.simps [simp del]

definition trim_spaces :: "byte list \<Rightarrow> byte list" where
  "trim_spaces bs = rev (dropWhile (\<lambda>b. b = 0x20) (rev (dropWhile (\<lambda>b. b = 0x20) bs)))"

definition header_line :: "string \<Rightarrow> byte list \<Rightarrow> byte list option" where
  "header_line nm line =
    (case position (\<lambda>b. b = 0x3A) line of
       None \<Rightarrow> None
     | Some colon \<Rightarrow> if bytes_eq_ignore_case (take colon line) (ascii nm) then Some (trim_spaces (drop (colon + 1) line)) else None)"

fun find_map :: "('a \<Rightarrow> 'b option) \<Rightarrow> 'a list \<Rightarrow> 'b option" where
  "find_map f [] = None"
| "find_map f (x # xs) = (case f x of Some y \<Rightarrow> Some y | None \<Rightarrow> find_map f xs)"

definition header_value :: "byte list list \<Rightarrow> string \<Rightarrow> byte list option" where
  "header_value lines nm = find_map (header_line nm) (drop 1 lines)"

definition header_str :: "byte list list \<Rightarrow> string \<Rightarrow> value_t option" where
  "header_str lines nm = map_option (\<lambda>v. Str (from_utf8_lossy v)) (header_value lines nm)"

record start_line =
  sl_is_request :: bool
  sl_method :: "string option"
  sl_status_code :: "u16 option"
  sl_version :: string

definition find_method :: "string list \<Rightarrow> byte list \<Rightarrow> string option" where
  "find_method methods tok = List.find (\<lambda>m. ascii m = tok) methods"

section \<open>HTTP/1\<close>

definition H2C_PREFACE :: "byte list" where
  "H2C_PREFACE = ascii ''PRI * HTTP/2.0'' @ CRLF @ CRLF @ ascii ''SM'' @ CRLF @ CRLF"

definition HTTP_METHODS :: "string list" where
  "HTTP_METHODS = [''GET'', ''POST'', ''PUT'', ''DELETE'', ''HEAD'', ''OPTIONS'', ''PATCH'', ''CONNECT'', ''TRACE'']"

definition http_identity :: stream_identity where
  "http_identity = keyed [''app''] [rolled ''method'' Accumulate, rolled ''status_code'' Accumulate, rolled ''host'' Sample]"

definition saturating_digits :: "byte list \<Rightarrow> u64" where
  "saturating_digits ds = of_nat (foldl (\<lambda>acc b. min (min (acc * 10) (2 ^ 64 - 1) + unat (b - 0x30)) (2 ^ 64 - 1)) 0 ds)"

definition parse_u64 :: "byte list \<Rightarrow> u64 option" where
  "parse_u64 bs = (if bs = [] \<or> \<not> list_all byte_digit bs then None else Some (saturating_digits bs))"

definition is_http1_version :: "byte list \<Rightarrow> bool" where
  "is_http1_version tok \<longleftrightarrow> tok = ascii ''HTTP/1.0'' \<or> tok = ascii ''HTTP/1.1''"

definition http_start_line :: "byte list \<Rightarrow> parse_error + start_line" where
  "http_start_line line =
    (let parts = splitn 3 0x20 line in
     case elem_get parts 0 of
       None \<Rightarrow> Inl (Malformed ''empty start line'')
     | Some tok \<Rightarrow>
        if bytes_start tok (ascii ''HTTP/'') then
          if \<not> is_http1_version tok then Inl (Malformed ''unsupported HTTP version'')
          else (case elem_get parts 1 of
              None \<Rightarrow> Inl (Malformed ''status line missing status code'')
            | Some status \<Rightarrow>
               if length status \<noteq> 3 \<or> \<not> list_all byte_digit status then Inl (Malformed ''status code must be 3 digits'')
               else Inr \<lparr>sl_is_request = False, sl_method = None, sl_status_code = Some (digits_u16 status), sl_version = from_utf8_lossy tok\<rparr>)
        else (case find_method HTTP_METHODS tok of
            None \<Rightarrow> Inl (Malformed ''unrecognized request method'')
          | Some method \<Rightarrow>
             if elem_get parts 1 = None then Inl (Malformed ''request line missing request-target'')
             else (case elem_get parts 2 of
                 None \<Rightarrow> Inl (Malformed ''request line missing HTTP version'')
               | Some version \<Rightarrow>
                  if \<not> is_http1_version version then Inl (Malformed ''unsupported HTTP version'')
                  else Inr \<lparr>sl_is_request = True, sl_method = Some method, sl_status_code = None, sl_version = from_utf8_lossy version\<rparr>)))"

definition http_parse :: "byte list \<Rightarrow> parse_ctx \<Rightarrow> parse_error + parsed_layer" where
  "http_parse bytes ctx =
    (if bytes_start bytes H2C_PREFACE then
       let fm = fm_new;
           fm = insert_at Keys (ctx_depth ctx) [(''app'', Str ''http'')] fm;
           fm = insert_at Structural (ctx_depth ctx) [(''is_request'', VBool True), (''version'', Str ''HTTP/2.0'')] fm
       in Inr \<lparr>pl_header_len = length H2C_PREFACE, pl_fields = fm, pl_hint = ByProtocol ''http2''\<rparr>
     else case find_header_end bytes of
         None \<Rightarrow> Inl (no_line bytes)
       | Some blank_pos \<Rightarrow>
          let header_len = blank_pos + 4; lines = split_lines (take blank_pos bytes) in
          (case lines of [] \<Rightarrow> Inl (Malformed ''empty header block'') | line # _ \<Rightarrow>
          and_then (http_start_line line) (\<lambda>start.
          let fm = fm_new;
              fm = insert_at Keys (ctx_depth ctx) [(''app'', Str ''http'')] fm;
              fm = insert_at Structural (ctx_depth ctx)
                ([(''is_request'', VBool (sl_is_request start)), (''version'', Str (sl_version start))] @
                 opt_field ''method'' (map_option Str (sl_method start)) @
                 opt_field ''status_code'' (map_option (\<lambda>c. U64 (ucast c)) (sl_status_code start)) @
                 opt_field ''host'' (header_str lines ''Host'')) fm;
              fm = insert_at Full (ctx_depth ctx)
                (opt_field ''content_type'' (header_str lines ''Content-Type'') @
                 opt_field ''content_length'' (map_option U64 (Option.bind (header_value lines ''Content-Length'') parse_u64)) @
                 (if sl_is_request start then opt_field ''user_agent'' (header_str lines ''User-Agent'') else []) @
                 opt_field ''upgrade'' (header_str lines ''Upgrade'')) fm
          in Inr \<lparr>pl_header_len = header_len, pl_fields = fm, pl_hint = Terminal\<rparr>)))"

definition http :: plugin where
  "http = (default_plugin ''http'' http_parse)\<lparr>pg_claims := [TcpPort 80], pg_stream_identity := Some http_identity\<rparr>"

section \<open>SIP and SSDP\<close>

definition SIP_METHODS :: "string list" where
  "SIP_METHODS = [''INVITE'', ''ACK'', ''BYE'', ''CANCEL'', ''REGISTER'', ''OPTIONS'', ''PRACK'', ''SUBSCRIBE'', ''NOTIFY'', ''PUBLISH'',
     ''INFO'', ''REFER'', ''MESSAGE'', ''UPDATE'']"

definition sip_identity :: stream_identity where
  "sip_identity = keyed [''call_id''] [rolled ''method'' Accumulate, rolled ''status_code'' (Series 64)]"

definition sip_start_line :: "byte list \<Rightarrow> start_line option" where
  "sip_start_line line =
    (let parts = splitn 3 0x20 line in
     case elem_get parts 0 of
       None \<Rightarrow> None
     | Some tok \<Rightarrow>
        if tok = ascii ''SIP/2.0'' then
          (case elem_get parts 1 of
             None \<Rightarrow> None
           | Some status \<Rightarrow>
              if length status \<noteq> 3 \<or> \<not> list_all byte_digit status then None
              else Some \<lparr>sl_is_request = False, sl_method = None, sl_status_code = Some (digits_u16 status), sl_version = []\<rparr>)
        else (case find_method SIP_METHODS tok of
            None \<Rightarrow> None
          | Some method \<Rightarrow>
             if elem_get parts 1 \<noteq> None \<and> elem_get parts 2 = Some (ascii ''SIP/2.0'')
             then Some \<lparr>sl_is_request = True, sl_method = Some method, sl_status_code = None, sl_version = []\<rparr>
             else None))"

definition sip_parse :: "byte list \<Rightarrow> parse_ctx \<Rightarrow> parse_error + parsed_layer" where
  "sip_parse bytes ctx =
    (case find_header_end bytes of
       None \<Rightarrow> Inl (no_line bytes)
     | Some blank_pos \<Rightarrow>
        let header_len = blank_pos + 4; lines = split_lines (take blank_pos bytes) in
        (case lines of [] \<Rightarrow> Inl (Malformed ''empty header block'') | line # _ \<Rightarrow>
        (case sip_start_line line of
           None \<Rightarrow> Inl (Malformed ''not a SIP start line'')
         | Some start \<Rightarrow>
            (case header_value lines ''Call-ID'' of
               None \<Rightarrow> Inl (Malformed ''SIP message missing Call-ID'')
             | Some call_id \<Rightarrow>
                let fm = fm_new;
                    fm = insert_at Keys (ctx_depth ctx) [(''call_id'', Str (from_utf8_lossy call_id))] fm;
                    fm = insert_at Structural (ctx_depth ctx)
                      ([(''is_request'', VBool (sl_is_request start))] @ opt_field ''method'' (map_option Str (sl_method start)) @
                       opt_field ''status_code'' (map_option (\<lambda>c. U64 (ucast c)) (sl_status_code start))) fm;
                    fm = insert_at Full (ctx_depth ctx)
                      (opt_field ''from'' (header_str lines ''From'') @ opt_field ''to'' (header_str lines ''To'') @
                       opt_field ''via'' (header_str lines ''Via'') @ opt_field ''cseq'' (header_str lines ''CSeq'')) fm
                in Inr \<lparr>pl_header_len = header_len, pl_fields = fm, pl_hint = Terminal\<rparr>))))"

definition sip :: plugin where
  "sip = (default_plugin ''sip'' sip_parse)
     \<lparr>pg_claims := [UdpPort 5060, TcpPort 5060], pg_stream_identity := Some sip_identity\<rparr>"

definition ssdp_identity :: stream_identity where
  "ssdp_identity = keyed [''app''] [rolled ''nts'' Accumulate, rolled ''location'' Sample]"

definition ssdp_start_line :: "byte list \<Rightarrow> parse_error + string option \<times> u16 option" where
  "ssdp_start_line line =
    (let parts = splitn 3 0x20 line in
     case elem_get parts 0 of
       None \<Rightarrow> Inl (Malformed ''empty start line'')
     | Some tok \<Rightarrow>
        if tok = ascii ''HTTP/1.1'' then
          (case elem_get parts 1 of
             None \<Rightarrow> Inl (Malformed ''status line missing status code'')
           | Some status \<Rightarrow>
              if length status \<noteq> 3 \<or> \<not> list_all byte_digit status then Inl (Malformed ''status code must be 3 digits'')
              else Inr (None, Some (digits_u16 status)))
        else if tok = ascii ''M-SEARCH'' \<or> tok = ascii ''NOTIFY'' then
          let method = (if tok = ascii ''M-SEARCH'' then ''M-SEARCH'' else ''NOTIFY'') in
          if elem_get parts 1 = None then Inl (Malformed ''request line missing Request-URI'')
          else (case elem_get parts 2 of
              None \<Rightarrow> Inl (Malformed ''request line missing HTTP version'')
            | Some version \<Rightarrow>
               if version \<noteq> ascii ''HTTP/1.1'' then Inl (Malformed ''SSDP requires HTTP/1.1'') else Inr (Some method, None))
        else Inl (Malformed ''start line is neither M-SEARCH/NOTIFY nor an HTTP/1.1 status line''))"

definition ssdp_parse :: "byte list \<Rightarrow> parse_ctx \<Rightarrow> parse_error + parsed_layer" where
  "ssdp_parse bytes ctx =
    (case find_header_end bytes of
       None \<Rightarrow> Inl (no_line bytes)
     | Some blank_pos \<Rightarrow>
        let header_len = blank_pos + 4; lines = split_lines (take blank_pos bytes) in
        (case lines of [] \<Rightarrow> Inl (Malformed ''empty header block'') | line # _ \<Rightarrow>
        and_then (ssdp_start_line line) (\<lambda>(method, status_code).
        let fm = fm_new;
            fm = insert_at Keys (ctx_depth ctx) [(''app'', Str ''ssdp'')] fm;
            fm = insert_at Structural (ctx_depth ctx)
              (opt_field ''method'' (map_option Str method) @
               opt_field ''status_code'' (map_option (\<lambda>c. U64 (ucast c)) status_code) @
               (if method = Some ''NOTIFY'' then opt_field ''nts'' (header_str lines ''NTS'') else [])) fm;
            fm = insert_at Full (ctx_depth ctx)
              (opt_field ''st'' (header_str lines ''ST'') @ opt_field ''usn'' (header_str lines ''USN'') @
               opt_field ''location'' (header_str lines ''LOCATION'')) fm
        in Inr \<lparr>pl_header_len = header_len, pl_fields = fm, pl_hint = Terminal\<rparr>)))"

definition ssdp :: plugin where
  "ssdp = (default_plugin ''ssdp'' ssdp_parse)\<lparr>pg_claims := [UdpPort 1900], pg_stream_identity := Some ssdp_identity\<rparr>"

section \<open>The contract\<close>

lemma split_line_len: "split_line bytes = Some (line, n) \<Longrightarrow> n \<le> length bytes"
  by (auto simp: split_line_def position_Some split: option.splits)

lemma find_line_len: "find_line bytes = Some (line, n) \<Longrightarrow> n \<le> length bytes"
  by (auto simp: find_line_def CRLF_def split: option.splits dest!: find_window_Some)

lemma bulk_len: "parse_bulk_string bytes = Inr (c, n) \<Longrightarrow> bytes \<noteq> [] \<Longrightarrow> n \<le> length bytes"
  by (cases bytes)
    (auto simp: parse_bulk_string_def Let_def slice_get_def split: option.splits if_splits prod.splits dest!: find_line_len)

lemma header_end_len: "find_header_end bytes = Some i \<Longrightarrow> i + 4 \<le> length bytes"
  by (auto simp: find_header_end_def CRLF_def dest!: find_window_Some)

lemma elem_get_None_or: "elem_get xs i = Some x \<Longrightarrow> i < length xs"
  by (simp add: elem_get_def split: if_splits)

lemma redis_array_len: "redis_array bytes = Inr (n, c, a) \<Longrightarrow> bytes \<noteq> [] \<Longrightarrow> n \<le> length bytes"
proof -
  have "bulk_ok": "parse_bulk_string (drop k bytes) = Inr (x, m) \<Longrightarrow> k < length bytes \<Longrightarrow> k + m \<le> length bytes" for k x m
    using bulk_len[of "drop k bytes" x m] by simp
  then show "redis_array bytes = Inr (n, c, a) \<Longrightarrow> bytes \<noteq> [] \<Longrightarrow> n \<le> length bytes"
    by (cases bytes)
      (fastforce simp: redis_array_def Let_def split: option.splits if_splits prod.splits sum.splits dest!: find_line_len elem_get_None_or)+
qed

lemma redis_body_len: "redis_body b bytes = Inr (n, c, a) \<Longrightarrow> bytes \<noteq> [] \<Longrightarrow> n \<le> length bytes"
  by (cases bytes)
    (auto simp: redis_body_def Let_def and_then_Inr_iff split: option.splits if_splits prod.splits dest!: find_line_len bulk_len redis_array_len)

lemma gives_list: "(xs = [] \<Longrightarrow> gives P y) \<Longrightarrow> (\<And>a l. xs = a # l \<Longrightarrow> gives P (f a l)) \<Longrightarrow>
    gives P (case xs of [] \<Rightarrow> y | a # l \<Rightarrow> f a l)"
  by (cases xs) simp_all

lemmas block_intros = gives_intros gives_list

lemmas line_simps = plugin_simps fm_new_def Let_def

interpretation smtp: layer_plugin smtp
  by (rule layer_pluginI)
    (auto simp: smtp_def smtp_parse_def smtp_identity_def line_simps split: option.split prod.split dest!: split_line_len)

interpretation ftp: layer_plugin ftp
  by (rule layer_pluginI)
    (auto simp: ftp_def ftp_parse_def ftp_identity_def line_simps split: option.split prod.split dest!: split_line_len)

interpretation pop3: layer_plugin pop3
  by (rule layer_pluginI)
    (auto simp: pop3_def pop3_parse_def pop3_identity_def line_simps split: option.split prod.split dest!: split_line_len)

interpretation imap: layer_plugin imap
  by (rule layer_pluginI)
    (auto simp: imap_def imap_parse_def imap_identity_def plugin_simps fm_new_def intro!: gives_intros dest!: split_line_len)

interpretation redis: layer_plugin redis
  by (rule layer_pluginI)
    (auto simp: redis_def redis_parse_def redis_identity_def plugin_simps fm_new_def intro!: block_intros
      dest!: redis_body_len)

lemma preface_len: "bytes_start bytes pat \<Longrightarrow> length pat \<le> length bytes"
  by (metis bytes_start_def length_take min.cobounded1 min.commute)

interpretation http: layer_plugin http
  by (rule layer_pluginI)
    (auto simp: http_def http_parse_def http_identity_def plugin_simps fm_new_def intro!: block_intros dest!: header_end_len preface_len)

interpretation sip: layer_plugin sip
  by (rule layer_pluginI)
    (auto simp: sip_def sip_parse_def sip_identity_def plugin_simps fm_new_def intro!: block_intros dest!: header_end_len)

interpretation ssdp: layer_plugin ssdp
  by (rule layer_pluginI)
    (auto simp: ssdp_def ssdp_parse_def ssdp_identity_def plugin_simps fm_new_def intro!: block_intros dest!: header_end_len)

section \<open>Lines and blocks\<close>

fun join_lines :: "byte list list \<Rightarrow> byte list" where
  "join_lines [] = []"
| "join_lines [l] = l"
| "join_lines (l # m # ls) = l @ CRLF @ join_lines (m # ls)"

lemma find_window_None: "find_window pat bs = None \<longleftrightarrow> (\<forall>j<length bs. take (length pat) (drop j bs) \<noteq> pat)"
proof (induction bs)
  case (Cons b bs)
  show ?case
  proof (cases "bytes_start (b # bs) pat")
    case True
    then show ?thesis by (auto simp: bytes_start_def intro!: exI[of _ 0])
  next
    case False
    then show ?thesis using Cons.IH by (auto simp: bytes_start_def less_Suc_eq_0_disj)
  qed
qed simp

lemma find_window_before:
  assumes "find_window pat bs = Some i" "pat \<noteq> []"
  shows "find_window pat (take i bs) = None"
proof -
  note w = find_window_Some[OF assms]
  have "take (length pat) (drop j (take i bs)) \<noteq> pat" if "j < length (take i bs)" for j
  proof
    assume e: "take (length pat) (drop j (take i bs)) = pat"
    have "length pat = length (take (length pat) (drop j (take i bs)))" using e by simp
    then have "length pat \<le> i - j" by simp
    then have "take (length pat) (drop j bs) = pat" using e by (simp add: drop_take min.absorb1)
    then show False using w that by simp
  qed
  then show ?thesis by (simp add: find_window_None)
qed

lemma split_lines_ne: "split_lines b \<noteq> []"
  unfolding split_lines.simps[of b] by (simp split: option.split)

lemma join_lines_Cons: "ls \<noteq> [] \<Longrightarrow> join_lines (l # ls) = l @ CRLF @ join_lines ls"
  by (cases ls) simp_all

text \<open>Header blocks: splitting a block into lines loses nothing: joined by the line ends they give the block
  back, and no line holds a line end.\<close>

theorem split_lines_lossless:
  "join_lines (split_lines block) = block \<and> list_all (\<lambda>l. find_window CRLF l = None) (split_lines block)"
proof (induction block rule: split_lines.induct)
  case (1 block)
  show ?case
  proof (cases "find_window CRLF block")
    case None
    then show ?thesis by (simp add: split_lines.simps[of block])
  next
    case (Some i)
    have ne: "CRLF \<noteq> []" and two: "length CRLF = 2" by (simp_all add: CRLF_def)
    have "block = take i block @ CRLF @ drop (i + 2) block"
      using find_window_Some[OF Some ne] two by (metis append_take_drop_id drop_drop add.commute)
    then show ?thesis
      using 1[OF Some] Some find_window_before[OF Some ne]
      by (simp add: split_lines.simps[of block] join_lines_Cons[OF split_lines_ne])
  qed
qed

end
