(* ===== verification/Sessions.thy ===== *)
theory Sessions
  imports Lines
begin

text \<open>
  The plugins \<open>syslog.rs\<close> and \<open>ssh.rs\<close> of \<open>pktflow-plugins/src\<close>: both forms of a syslog message with
  its structured data, the SSH identification line and the key exchange lists. The lemmas bound what each
  form consumes.
\<close>

section \<open>Syslog\<close>

definition LEGACY_TIMESTAMP_LEN :: usize where "LEGACY_TIMESTAMP_LEN = 15"
definition MAX_TAG_LEN :: usize where "MAX_TAG_LEN = 32"

definition syslog_identity :: stream_identity where
  "syslog_identity = keyed [''app''] [rolled ''severity'' Accumulate]"

definition digits_u32 :: "byte list \<Rightarrow> u32" where
  "digits_u32 ds = foldl (\<lambda>acc b. acc * 10 + ucast (b - 0x30)) 0 ds"

text \<open>The end of the run of bytes satisfying \<open>P\<close> from \<open>i\<close>, of at most \<open>limit\<close> bytes.\<close>

definition run_end :: "(byte \<Rightarrow> bool) \<Rightarrow> usize \<Rightarrow> byte list \<Rightarrow> usize \<Rightarrow> usize" where
  "run_end P limit bytes i = i + length (takeWhile P (take limit (drop i bytes)))"

definition read_pri :: "byte list \<Rightarrow> parse_error + u8 \<times> usize" where
  "read_pri bytes =
    (if elem_get bytes 0 \<noteq> Some 0x3C then Inl (Malformed ''missing PRI open bracket'')
     else
     let e = run_end byte_digit 3 bytes 1 in
     if e = 1 then Inl (Malformed ''PRI has no digits'')
     else if elem_get bytes e \<noteq> Some 0x3E then Inl (Malformed ''missing PRI close bracket'')
     else case slice_get bytes 1 e of
         None \<Rightarrow> Inl (Malformed ''PRI digit slice out of range'')
       | Some ds \<Rightarrow>
          let v = digits_u32 ds in
          if 191 < v then Inl (Malformed ''PRI exceeds facility*8+severity max'')
          else Inr (ucast v, e + 1))"

definition read_version :: "byte list \<Rightarrow> usize \<Rightarrow> (u8 \<times> usize) option" where
  "read_version bytes p =
    (case elem_get bytes p of
       None \<Rightarrow> None
     | Some fb \<Rightarrow>
        if \<not> byte_digit fb \<or> fb = 0x30 then None
        else
        let e = run_end byte_digit 2 bytes (p + 1) in
        if elem_get bytes e \<noteq> Some 0x20 then None
        else map_option (\<lambda>ds. (ucast (min (digits_u32 ds) 255), e + 1)) (slice_get bytes p e))"

definition read_field :: "byte list \<Rightarrow> usize \<Rightarrow> parse_error + usize \<times> usize \<times> usize" where
  "read_field bytes p =
    (case position (\<lambda>b. b = 0x20) (drop p bytes) of
       None \<Rightarrow> Inl (Malformed ''expected SP-delimited header field'')
     | Some rel \<Rightarrow>
        let e = p + rel in
        if e = p then Inl (Malformed ''empty header field'') else Inr (p, e, e + 1))"

function sd_walk :: "byte list \<Rightarrow> usize \<Rightarrow> parse_error + usize" where
  "sd_walk bytes p =
    (case elem_get bytes p of
       None \<Rightarrow> Inl (Malformed ''unterminated structured-data element'')
     | Some b \<Rightarrow>
        if b = 0x5D then Inr (p + 1)
        else if b = 0x5C then
          if elem_get bytes (p + 1) = None then Inl (Malformed ''dangling escape in structured data'')
          else sd_walk bytes (p + 2)
        else sd_walk bytes (p + 1))"
  by pat_completeness auto
termination by (relation "measure (\<lambda>(bytes, p). length bytes - p)") (auto simp: elem_get_def split: if_splits)

declare sd_walk.simps [simp del]

definition skip_sd_element :: "byte list \<Rightarrow> usize \<Rightarrow> parse_error + usize" where
  "skip_sd_element bytes open_at = sd_walk bytes (open_at + 1)"

lemma sd_walk_len: "sd_walk bytes p = Inr e \<Longrightarrow> p < e \<and> e \<le> length bytes"
proof (induction bytes p rule: sd_walk.induct)
  case (1 bytes p)
  then show ?case
    by (subst (asm) sd_walk.simps) (fastforce simp: elem_get_def split: if_splits)
qed

function sd_elements :: "byte list \<Rightarrow> usize \<Rightarrow> parse_error + usize" where
  "sd_elements bytes p =
    (if elem_get bytes p = Some 0x5B then and_then (skip_sd_element bytes p) (sd_elements bytes) else Inr p)"
  by pat_completeness auto
termination
  by (relation "measure (\<lambda>(bytes, p). length bytes - p)")
    (auto simp: skip_sd_element_def elem_get_def split: if_splits dest!: sd_walk_len)

declare sd_elements.simps [simp del]

definition skip_structured_data :: "byte list \<Rightarrow> usize \<Rightarrow> parse_error + usize" where
  "skip_structured_data bytes p =
    (if elem_get bytes p = Some 0x2D then Inr (p + 1)
     else if elem_get bytes p = Some 0x5B then sd_elements bytes p
     else Inl (Malformed ''invalid structured-data marker''))"

definition trailing_msg :: "byte list \<Rightarrow> usize \<Rightarrow> parse_error + (usize \<times> usize) option" where
  "trailing_msg bytes p =
    (case elem_get bytes p of
       None \<Rightarrow> Inr None
     | Some b \<Rightarrow>
        if b = 0x20 then
          if length bytes \<le> p + 1 then Inl (Malformed ''dangling separator with empty message'')
          else Inr (Some (p + 1, length bytes))
        else Inl (Malformed ''expected SP before message''))"

definition slice_str :: "byte list \<Rightarrow> usize \<Rightarrow> usize \<Rightarrow> string option" where
  "slice_str bytes s e = map_option from_utf8_lossy (slice_get bytes s e)"

text \<open>The two message forms: version, host name, application name, message, header length.\<close>

type_synonym syslog_head = "u8 option \<times> string option \<times> string option \<times> string option \<times> usize"

definition msg_tail :: "byte list \<Rightarrow> u8 option \<Rightarrow> string option \<Rightarrow> string option \<Rightarrow> usize \<Rightarrow> parse_error + syslog_head" where
  "msg_tail bytes version hostname app_name e =
    and_then (trailing_msg bytes e) (\<lambda>msg_range.
    Inr (version, hostname, app_name, Option.bind msg_range (\<lambda>(s, e). slice_str bytes s e),
         case msg_range of None \<Rightarrow> e | Some (_, e') \<Rightarrow> e'))"

definition syslog_rfc5424 :: "byte list \<Rightarrow> u8 \<Rightarrow> usize \<Rightarrow> parse_error + syslog_head" where
  "syslog_rfc5424 bytes version p =
    and_then (read_field bytes p) (\<lambda>(_, _, p).
    and_then (read_field bytes p) (\<lambda>(hn_s, hn_e, p).
    and_then (read_field bytes p) (\<lambda>(an_s, an_e, p).
    and_then (read_field bytes p) (\<lambda>(_, _, p).
    and_then (read_field bytes p) (\<lambda>(_, _, p).
    and_then (skip_structured_data bytes p) (\<lambda>sd_end.
    msg_tail bytes (Some version) (slice_str bytes hn_s hn_e) (slice_str bytes an_s an_e) sd_end))))))"

definition byte_alnum :: "byte \<Rightarrow> bool" where "byte_alnum b \<longleftrightarrow> byte_digit b \<or> byte_alpha b"

definition legacy_pid :: "byte list \<Rightarrow> usize \<Rightarrow> parse_error + usize" where
  "legacy_pid bytes p =
    (if elem_get bytes p = Some 0x5B then
       let e = run_end byte_digit (length bytes) bytes (p + 1) in
       if e = p + 1 \<or> elem_get bytes e \<noteq> Some 0x5D then Inl (Malformed ''malformed legacy PID suffix'')
       else Inr (e + 1)
     else Inr p)"

definition syslog_legacy :: "byte list \<Rightarrow> usize \<Rightarrow> parse_error + syslog_head" where
  "syslog_legacy bytes p =
    try_read (take_bytes (new_reader (drop p bytes)) LEGACY_TIMESTAMP_LEN) (\<lambda>_ _.
    let ts_end = p + LEGACY_TIMESTAMP_LEN in
    if elem_get bytes ts_end \<noteq> Some 0x20 then Inl (Malformed ''missing SP after legacy timestamp'')
    else
    and_then (read_field bytes (ts_end + 1)) (\<lambda>(hn_s, hn_e, tag_start).
    let tag_end = run_end byte_alnum MAX_TAG_LEN bytes tag_start in
    if tag_end = tag_start then Inl (Malformed ''empty legacy TAG'')
    else
    and_then (legacy_pid bytes tag_end) (\<lambda>p.
    if elem_get bytes p \<noteq> Some 0x3A then Inl (Malformed ''missing legacy TAG terminator'')
    else msg_tail bytes None (slice_str bytes hn_s hn_e) (slice_str bytes tag_start tag_end) (p + 1))))"

definition syslog_parse :: "byte list \<Rightarrow> parse_ctx \<Rightarrow> parse_error + parsed_layer" where
  "syslog_parse bytes ctx =
    and_then (read_pri bytes) (\<lambda>(pri, p).
    let facility = drop_bit 3 pri; severity = pri AND 0x07 in
    and_then (case read_version bytes p of Some (version, p) \<Rightarrow> syslog_rfc5424 bytes version p | None \<Rightarrow> syslog_legacy bytes p)
      (\<lambda>(version, hostname, app_name, msg, header_len).
    let fm = fm_new;
        fm = insert_at Keys (ctx_depth ctx) [(''app'', Str ''syslog'')] fm;
        fm = insert_at Structural (ctx_depth ctx)
          [(''facility'', U64 (ucast facility)), (''severity'', U64 (ucast severity)),
           (''version'', U64 (ucast (case version of Some v \<Rightarrow> v | None \<Rightarrow> 0)))] fm;
        fm = insert_at Full (ctx_depth ctx)
          (opt_field ''hostname'' (map_option Str hostname) @ opt_field ''app_name'' (map_option Str app_name) @
           opt_field ''msg'' (map_option Str msg)) fm
    in Inr \<lparr>pl_header_len = header_len, pl_fields = fm, pl_hint = Terminal\<rparr>))"

definition syslog :: plugin where
  "syslog = (default_plugin ''syslog'' syslog_parse)\<lparr>pg_claims := [UdpPort 514], pg_stream_identity := Some syslog_identity\<rparr>"

section \<open>SSH\<close>

definition SSH_MSG_KEXINIT :: u8 where "SSH_MSG_KEXINIT = 20"
definition COOKIE_LEN :: usize where "COOKIE_LEN = 16"

definition ssh_identity :: stream_identity where
  "ssh_identity = keyed [''app''] [rolled ''banner'' Sample]"

definition strip_last :: "byte \<Rightarrow> byte list \<Rightarrow> byte list" where
  "strip_last b line = (if line \<noteq> [] \<and> last line = b then butlast line else line)"

definition trim_line_ending :: "byte list \<Rightarrow> byte list" where
  "trim_line_ending line = strip_last 0x0D (strip_last 0x0A line)"

fun split_on :: "'a \<Rightarrow> 'a list \<Rightarrow> 'a list list" where
  "split_on c [] = [[]]"
| "split_on c (x # xs) = (if x = c then [] # split_on c xs else (x # hd (split_on c xs)) # tl (split_on c xs))"

definition read_name_list :: "byte_reader \<Rightarrow> (value_t list \<times> byte_reader) option" where
  "read_name_list r =
    ok_read (read_u32_be r) (\<lambda>len r.
    ok_read (take_bytes r (unat len)) (\<lambda>data r.
    case from_utf8 data of
      None \<Rightarrow> None
    | Some s \<Rightarrow> if s = [] then Some ([], r) else Some (map Str (split_on (CHR '','') s), r)))"

record kexinit =
  kx_kex_algorithms :: "value_t list"
  kx_server_host_key_algorithms :: "value_t list"
  kx_enc_c2s :: "value_t list"
  kx_enc_s2c :: "value_t list"
  kx_mac_c2s :: "value_t list"

definition parse_kexinit :: "byte list \<Rightarrow> kexinit option" where
  "parse_kexinit payload =
    ok_read (read_u8 (new_reader payload)) (\<lambda>_ r.
    ok_read (take_bytes r COOKIE_LEN) (\<lambda>_ r.
    Option.bind (read_name_list r) (\<lambda>(kex, r).
    Option.bind (read_name_list r) (\<lambda>(host, r).
    Option.bind (read_name_list r) (\<lambda>(c2s, r).
    Option.bind (read_name_list r) (\<lambda>(s2c, r).
    Option.bind (read_name_list r) (\<lambda>(mac, r).
    Some \<lparr>kx_kex_algorithms = kex, kx_server_host_key_algorithms = host, kx_enc_c2s = c2s, kx_enc_s2c = s2c, kx_mac_c2s = mac\<rparr>)))))))"

definition ssh_parse :: "byte list \<Rightarrow> parse_ctx \<Rightarrow> parse_error + parsed_layer" where
  "ssh_parse bytes ctx =
    (let fm0 = insert_at Keys (ctx_depth ctx) [(''app'', Str ''ssh'')] fm_new in
     if bytes_start bytes (ascii ''SSH-'') then
       (case position (\<lambda>b. b = 0x0A) bytes of
          None \<Rightarrow> Inl (no_line bytes)
        | Some nl \<Rightarrow>
           let header_len = nl + 1;
               fm = insert_at Structural (ctx_depth ctx) [(''banner'', Str (from_utf8_lossy (trim_line_ending (take header_len bytes))))] fm0
           in Inr \<lparr>pl_header_len = header_len, pl_fields = fm, pl_hint = Terminal\<rparr>)
     else
     try_read (read_u32_be (new_reader bytes)) (\<lambda>packet_length r.
     if packet_length < 2 then Inl (Malformed ''SSH packet_length too small for padding_length + payload'')
     else
     try_read (read_u8 r) (\<lambda>padding_length r.
     try_read (take_bytes r (unat packet_length - 1)) (\<lambda>body r.
     if length body \<le> unat padding_length then Inl (Malformed ''SSH padding_length leaves no room for payload'')
     else
     let payload = take (length body - unat padding_length) body in
     read_or ''SSH payload is empty'' (read_u8 (new_reader payload)) (\<lambda>msg_type _.
     if msg_type \<noteq> SSH_MSG_KEXINIT then Inl (Malformed ''not an SSH identification line or a KEXINIT packet'')
     else
     let header_len = 4 + unat packet_length;
         fm = insert_at Structural (ctx_depth ctx) [(''msg_type'', U64 (ucast msg_type))] fm0;
         fm = insert_at Full (ctx_depth ctx)
           (case parse_kexinit payload of
              None \<Rightarrow> []
            | Some k \<Rightarrow>
               [(''kex_algorithms'', VList (kx_kex_algorithms k)),
                (''server_host_key_algorithms'', VList (kx_server_host_key_algorithms k)),
                (''encryption_algorithms_client_to_server'', VList (kx_enc_c2s k)),
                (''encryption_algorithms_server_to_client'', VList (kx_enc_s2c k)),
                (''mac_algorithms_client_to_server'', VList (kx_mac_c2s k))]) fm
     in Inr \<lparr>pl_header_len = header_len, pl_fields = fm, pl_hint = Terminal\<rparr>)))))"

definition ssh :: plugin where
  "ssh = (default_plugin ''ssh'' ssh_parse)\<lparr>pg_claims := [TcpPort 22], pg_stream_identity := Some ssh_identity\<rparr>"

section \<open>The contract\<close>

lemma sd_elements_len: "sd_elements bytes p = Inr e \<Longrightarrow> p \<le> length bytes \<Longrightarrow> e \<le> length bytes"
proof (induction bytes p rule: sd_elements.induct)
  case (1 bytes p)
  show ?case
  proof (cases "elem_get bytes p = Some 0x5B")
    case True
    then obtain q where "skip_sd_element bytes p = Inr q" "sd_elements bytes q = Inr e"
      using 1(2) sd_elements.simps[of bytes p] by (auto simp: and_then_Inr_iff)
    then show ?thesis using 1(1)[OF True] by (auto simp: skip_sd_element_def dest!: sd_walk_len)
  next
    case False
    then show ?thesis using 1(2,3) sd_elements.simps[of bytes p] by simp
  qed
qed

lemma elem_get_len: "elem_get xs i = Some x \<Longrightarrow> i < length xs"
  by (simp add: elem_get_def split: if_splits)

lemma structured_len: "skip_structured_data bytes p = Inr e \<Longrightarrow> e \<le> length bytes"
  by (auto simp: skip_structured_data_def split: if_splits dest: elem_get_len intro: sd_elements_len[OF _ less_imp_le[OF elem_get_len]])

lemma msg_tail_len: "msg_tail bytes v h a e = Inr (v', h', a', m, n) \<Longrightarrow> e \<le> length bytes \<Longrightarrow> n \<le> length bytes"
  by (auto simp: msg_tail_def trailing_msg_def and_then_Inr_iff split: option.splits if_splits)

lemma rfc5424_len: "syslog_rfc5424 bytes v p = Inr (v', h, a, m, n) \<Longrightarrow> n \<le> length bytes"
  by (auto simp: syslog_rfc5424_def and_then_Inr_iff dest!: structured_len msg_tail_len)

lemma legacy_len: "syslog_legacy bytes p = Inr (v, h, a, m, n) \<Longrightarrow> n \<le> length bytes"
  by (auto simp: syslog_legacy_def try_read_Inr and_then_Inr_iff Let_def split: if_splits dest!: elem_get_len msg_tail_len)

interpretation syslog: layer_plugin syslog
  by (rule layer_pluginI)
    (auto simp: syslog_def syslog_parse_def syslog_identity_def plugin_simps fm_new_def
      intro!: gives_intros split: option.splits dest!: rfc5424_len legacy_len)

interpretation ssh: layer_plugin ssh
  by (rule layer_pluginI)
    (auto simp: ssh_def ssh_parse_def ssh_identity_def plugin_simps fits_def fm_new_def position_Some
      intro!: gives_intros)

end
