(* ===== verification/Secure.thy ===== *)
theory Secure
  imports Utf8
begin

text \<open>
  Framed session protocols of \<open>pktflow-plugins/src\<close>: \<open>tls.rs\<close> with its handshake and extension walk,
  \<open>quic.rs\<close>, \<open>websocket.rs\<close>, \<open>http2.rs\<close>. The lemmas show that the extension walk reads back any
  well-formed extension block and that the probes only answer on what the parsers accept.
\<close>

section \<open>Length-prefixed attributes\<close>

text \<open>A 16-bit type, a 16-bit length and that many bytes.\<close>

definition tlv16 :: "byte_reader \<Rightarrow> ((u16 \<times> byte list) \<times> byte_reader) option" where
  "tlv16 r =
    ok_read (read_u16_be r) (\<lambda>t r.
    ok_read (read_u16_be r) (\<lambda>n r.
    ok_read (take_bytes r (unat n)) (\<lambda>data r. Some ((t, data), r))))"

lemma tlv16_shrink: "tlv16 r = Some (x, r') \<Longrightarrow> remaining r' < remaining r"
  unfolding tlv16_def by (auto simp: ok_read_Some dest!: read_shrink take_shrink)

definition three_bytes :: "byte list \<Rightarrow> usize" where
  "three_bytes bs = unat (push_bit 16 (ucast (bs ! 0)) OR push_bit 8 (ucast (bs ! 1)) OR ucast (bs ! 2) :: u64)"

section \<open>TLS\<close>

definition CT_HANDSHAKE :: u8 where "CT_HANDSHAKE = 22"
definition HS_CLIENT_HELLO :: u8 where "HS_CLIENT_HELLO = 1"
definition HS_SERVER_HELLO :: u8 where "HS_SERVER_HELLO = 2"
definition EXT_SERVER_NAME :: u16 where "EXT_SERVER_NAME = 0"
definition EXT_ALPN :: u16 where "EXT_ALPN = 16"
definition EXT_SUPPORTED_VERSIONS :: u16 where "EXT_SUPPORTED_VERSIONS = 43"

definition is_content_type :: "u8 \<Rightarrow> bool" where "is_content_type ct \<longleftrightarrow> 20 \<le> ct \<and> ct \<le> 23"

definition is_record_version :: "u16 \<Rightarrow> bool" where "is_record_version v \<longleftrightarrow> 0x0300 \<le> v \<and> v \<le> 0x0304"

definition tls_identity :: stream_identity where
  "tls_identity = keyed [''app''] [rolled ''sni'' Sample, rolled ''handshake_type'' Accumulate,
     rolled ''selected_cipher_suite'' Accumulate, rolled ''tls_version_selected'' Accumulate]"

record handshake =
  hs_type :: u8
  hs_cipher_suites :: "value_t list option"
  hs_sni :: "string option"
  hs_alpn :: "value_t list option"
  hs_selected_cipher_suite :: "u16 option"
  hs_tls_version_selected :: "u16 option"

function ext_walk16 :: "byte_reader \<Rightarrow> (u16 \<times> byte list) list" where
  "ext_walk16 r =
    (if 4 \<le> remaining r then (case tlv16 r of Some (x, r') \<Rightarrow> x # ext_walk16 r' | None \<Rightarrow> []) else [])"
  by pat_completeness auto
termination by (relation "measure remaining") (auto dest: tlv16_shrink)

declare ext_walk16.simps [simp del]

definition walk_extensions :: "byte list \<Rightarrow> (u16 \<times> byte list) list" where
  "walk_extensions block = ext_walk16 (new_reader block)"

definition parse_sni :: "byte list \<Rightarrow> string option" where
  "parse_sni data =
    ok_read (read_u16_be (new_reader data)) (\<lambda>_ r.
    ok_read (read_u8 r) (\<lambda>name_type r.
    ok_read (read_u16_be r) (\<lambda>name_len r.
    ok_read (take_bytes r (unat name_len)) (\<lambda>nm r.
    if name_type = 0 then Some (from_utf8_lossy nm) else None))))"

function alpn_walk :: "byte_reader \<Rightarrow> value_t list \<Rightarrow> value_t list option" where
  "alpn_walk r protos =
    (if 0 < remaining r then
       ok_read (read_u8 r) (\<lambda>plen r.
       ok_read (take_bytes r (unat plen)) (\<lambda>proto r. alpn_walk r (protos @ [Str (from_utf8_lossy proto)])))
     else Some protos)"
  by pat_completeness auto
termination by (relation "measure (\<lambda>(r, _). remaining r)") (auto dest!: read_shrink take_shrink)

declare alpn_walk.simps [simp del]

definition parse_alpn :: "byte list \<Rightarrow> value_t list option" where
  "parse_alpn data =
    ok_read (read_u16_be (new_reader data)) (\<lambda>_ r.
    Option.bind (alpn_walk r []) (\<lambda>protos. if protos = [] then None else Some protos))"

function suite_walk :: "byte_reader \<Rightarrow> value_t list" where
  "suite_walk r = (case read_u16_be r of Inr (suite, r') \<Rightarrow> U64 (ucast suite) # suite_walk r' | Inl _ \<Rightarrow> [])"
  by pat_completeness auto
termination by (relation "measure remaining") (auto dest!: read_shrink)

declare suite_walk.simps [simp del]

definition client_hello :: "byte_reader \<Rightarrow> handshake \<Rightarrow> (handshake \<times> byte_reader) option" where
  "client_hello r hs =
    ok_read (read_u16_be r) (\<lambda>cs_len r.
    ok_read (take_bytes r (unat cs_len)) (\<lambda>cs_bytes r.
    ok_read (read_u8 r) (\<lambda>comp_len r.
    ok_read (take_bytes r (unat comp_len)) (\<lambda>_ r.
    Some (hs\<lparr>hs_cipher_suites := Some (suite_walk (new_reader cs_bytes))\<rparr>, r)))))"

definition server_hello :: "u16 \<Rightarrow> byte_reader \<Rightarrow> handshake \<Rightarrow> (handshake \<times> byte_reader) option" where
  "server_hello legacy_version r hs =
    ok_read (read_u16_be r) (\<lambda>suite r.
    ok_read (read_u8 r) (\<lambda>_ r.
    Some (hs\<lparr>hs_selected_cipher_suite := Some suite, hs_tls_version_selected := Some legacy_version\<rparr>, r)))"

definition apply_extension :: "u16 \<times> byte list \<Rightarrow> handshake \<Rightarrow> handshake" where
  "apply_extension x hs =
    (case x of (ext_type, data) \<Rightarrow>
     if ext_type = EXT_SERVER_NAME \<and> hs_type hs = HS_CLIENT_HELLO then hs\<lparr>hs_sni := parse_sni data\<rparr>
     else if ext_type = EXT_ALPN \<and> hs_type hs = HS_CLIENT_HELLO then hs\<lparr>hs_alpn := parse_alpn data\<rparr>
     else if ext_type = EXT_SUPPORTED_VERSIONS \<and> hs_type hs = HS_SERVER_HELLO then
       (case read_u16_be (new_reader data) of Inr (v, _) \<Rightarrow> hs\<lparr>hs_tls_version_selected := Some v\<rparr> | Inl _ \<Rightarrow> hs)
     else hs)"

definition hello_extensions :: "byte_reader \<Rightarrow> (u16 \<times> byte list) list" where
  "hello_extensions r =
    (case ok_read (read_u16_be r) (\<lambda>ext_total r. ok_read (take_bytes r (unat ext_total)) (\<lambda>block _. Some (walk_extensions block))) of
       Some exts \<Rightarrow> exts | None \<Rightarrow> [])"

definition parse_handshake :: "byte list \<Rightarrow> bool \<Rightarrow> handshake option" where
  "parse_handshake fragment deep =
    ok_read (read_u8 (new_reader fragment)) (\<lambda>ty r.
    ok_read (read_u8 r) (\<lambda>hi r.
    ok_read (read_u8 r) (\<lambda>mid r.
    ok_read (read_u8 r) (\<lambda>lo r.
    let hs = \<lparr>hs_type = ty, hs_cipher_suites = None, hs_sni = None, hs_alpn = None, hs_selected_cipher_suite = None,
              hs_tls_version_selected = None\<rparr> in
    if \<not> deep \<or> (ty \<noteq> HS_CLIENT_HELLO \<and> ty \<noteq> HS_SERVER_HELLO) then Some hs
    else
    ok_read (read_u16_be r) (\<lambda>legacy_version r.
    ok_read (take_bytes r 32) (\<lambda>_ r.
    ok_read (read_u8 r) (\<lambda>sid_len r.
    ok_read (take_bytes r (unat sid_len)) (\<lambda>_ r.
    Option.bind (if ty = HS_CLIENT_HELLO then client_hello r hs else server_hello legacy_version r hs) (\<lambda>(hs, r).
    Some (fold apply_extension (hello_extensions r) hs))))))))))"

definition tls_parse :: "byte list \<Rightarrow> parse_ctx \<Rightarrow> parse_error + parsed_layer" where
  "tls_parse bytes ctx =
    (let r = new_reader bytes in
     try_read (read_u8 r) (\<lambda>content_type r.
     if \<not> is_content_type content_type then Inl (Malformed ''not a TLS content type'')
     else
     try_read (read_u16_be r) (\<lambda>record_version r.
     if \<not> is_record_version record_version then Inl (Malformed ''implausible TLS record version'')
     else
     try_read (read_u16_be r) (\<lambda>len r.
     try_read (take_bytes r (unat len)) (\<lambda>fragment r.
     let header_len = 5 + unat len;
         hs = (if content_type = CT_HANDSHAKE then parse_handshake fragment (Structural \<le> ctx_depth ctx) else None);
         fm = fm_new;
         fm = insert_at Keys (ctx_depth ctx) [(''app'', Str ''tls'')] fm;
         fm = insert_at Structural (ctx_depth ctx)
           ([(''content_type'', U64 (ucast content_type)), (''record_version'', U64 (ucast record_version))] @
            (case hs of
               Some h \<Rightarrow> (''handshake_type'', U64 (ucast (hs_type h))) # opt_field ''sni'' (map_option Str (hs_sni h))
             | None \<Rightarrow> [])) fm;
         fm = insert_at Full (ctx_depth ctx)
           (case hs of
              Some h \<Rightarrow>
                opt_field ''cipher_suites'' (map_option VList (hs_cipher_suites h)) @ opt_field ''alpn'' (map_option VList (hs_alpn h)) @
                opt_field ''selected_cipher_suite'' (map_option (\<lambda>c. U64 (ucast c)) (hs_selected_cipher_suite h)) @
                opt_field ''tls_version_selected'' (map_option (\<lambda>v. U64 (ucast v)) (hs_tls_version_selected h))
            | None \<Rightarrow> []) fm
     in Inr \<lparr>pl_header_len = header_len, pl_fields = fm, pl_hint = Terminal\<rparr>)))))"

definition tls_probe :: "byte list \<Rightarrow> parse_ctx \<Rightarrow> confidence option" where
  "tls_probe bytes ctx =
    ok_read (read_u8 (new_reader bytes)) (\<lambda>content_type r.
    ok_read (read_u16_be r) (\<lambda>record_version r.
    ok_read (read_u16_be r) (\<lambda>len r.
    if is_content_type content_type \<and> is_record_version record_version \<and> unat len \<le> length bytes - 5 + 16
    then Some (confidence_new 55) else None)))"

definition tls :: plugin where
  "tls = (default_plugin ''tls'' tls_parse)
     \<lparr>pg_claims := [TcpPort 443], pg_has_probe := True, pg_probe := tls_probe, pg_stream_identity := Some tls_identity\<rparr>"

section \<open>QUIC\<close>

definition VERSION_1 :: u32 where "VERSION_1 = 0x00000001"
definition VERSION_2 :: u32 where "VERSION_2 = 0x6b3343cf"
definition VERSION_NEGOTIATION :: u32 where "VERSION_NEGOTIATION = 0x00000000"
definition HEADER_FORM_BIT :: u8 where "HEADER_FORM_BIT = 0x80"
definition FIXED_BIT_MASK :: u8 where "FIXED_BIT_MASK = 0x40"
definition LONG_TYPE_MASK :: u8 where "LONG_TYPE_MASK = 0x30"
definition LONG_TYPE_SHIFT :: nat where "LONG_TYPE_SHIFT = 4"

definition packet_type_v1 :: "u8 \<Rightarrow> string" where
  "packet_type_v1 bits = (if bits = 0 then ''initial'' else if bits = 1 then ''0-rtt'' else if bits = 2 then ''handshake'' else ''retry'')"

definition packet_type_v2 :: "u8 \<Rightarrow> string" where
  "packet_type_v2 bits = (if bits = 1 then ''initial'' else if bits = 2 then ''0-rtt'' else if bits = 3 then ''handshake'' else ''retry'')"

definition is_reserved_negotiation_pattern :: "u32 \<Rightarrow> bool" where
  "is_reserved_negotiation_pattern version \<longleftrightarrow> version AND 0x0F0F0F0F = 0x0A0A0A0A"

definition is_recognized_version :: "u32 \<Rightarrow> bool" where
  "is_recognized_version version \<longleftrightarrow> version = VERSION_1 \<or> version = VERSION_2 \<or> version = VERSION_NEGOTIATION"

definition quic_identity :: stream_identity where
  "quic_identity = keyed [''dcid''] [rolled ''packet_type'' Accumulate]"

definition quic_parse :: "byte list \<Rightarrow> parse_ctx \<Rightarrow> parse_error + parsed_layer" where
  "quic_parse bytes ctx =
    (let r = new_reader bytes in
     try_read (read_u8 r) (\<lambda>byte0 r.
     let is_long = byte0 AND HEADER_FORM_BIT \<noteq> 0; fixed_bit = byte0 AND FIXED_BIT_MASK \<noteq> 0 in
     if \<not> is_long then
       let fm = insert_at Structural (ctx_depth ctx) [(''header_form'', VBool False), (''fixed_bit'', VBool fixed_bit)] fm_new
       in Inr \<lparr>pl_header_len = 1, pl_fields = fm, pl_hint = Terminal\<rparr>
     else
     try_read (read_u32_be r) (\<lambda>version r.
     try_read (read_u8 r) (\<lambda>dcid_len r.
     try_read (take_bytes r (unat dcid_len)) (\<lambda>dcid r.
     try_read (read_u8 r) (\<lambda>scid_len r.
     try_read (take_bytes r (unat scid_len)) (\<lambda>scid r.
     let header_len = 1 + 4 + 1 + unat dcid_len + 1 + unat scid_len;
         bits = drop_bit LONG_TYPE_SHIFT (byte0 AND LONG_TYPE_MASK);
         packet_type =
           (if version = VERSION_1 then Some (packet_type_v1 bits)
            else if version = VERSION_2 then Some (packet_type_v2 bits) else None);
         fm = fm_new;
         fm = insert_at Keys (ctx_depth ctx) [(''dcid'', Bytes dcid)] fm;
         fm = insert_at Structural (ctx_depth ctx) [(''header_form'', VBool True), (''fixed_bit'', VBool fixed_bit)] fm;
         fm = insert_at Full (ctx_depth ctx)
           ([(''version'', U64 (ucast version)), (''scid'', Bytes scid)] @ opt_field ''packet_type'' (map_option Str packet_type)) fm
     in Inr \<lparr>pl_header_len = header_len, pl_fields = fm, pl_hint = Terminal\<rparr>)))))))"

definition quic_probe :: "byte list \<Rightarrow> parse_ctx \<Rightarrow> confidence option" where
  "quic_probe bytes ctx =
    ok_read (read_u8 (new_reader bytes)) (\<lambda>byte0 r.
    if byte0 AND HEADER_FORM_BIT = 0 \<or> byte0 AND FIXED_BIT_MASK = 0 then None
    else
    ok_read (read_u32_be r) (\<lambda>version r.
    if is_recognized_version version \<or> is_reserved_negotiation_pattern version then Some (confidence_new 50) else None))"

definition quic :: plugin where
  "quic = (default_plugin ''quic'' quic_parse)
     \<lparr>pg_claims := [UdpPort 443], pg_has_probe := True, pg_probe := quic_probe, pg_stream_identity := Some quic_identity\<rparr>"

section \<open>WebSocket\<close>

definition OPCODE_CONTINUATION :: u8 where "OPCODE_CONTINUATION = 0x0"
definition OPCODE_TEXT :: u8 where "OPCODE_TEXT = 0x1"
definition OPCODE_BINARY :: u8 where "OPCODE_BINARY = 0x2"
definition OPCODE_CLOSE :: u8 where "OPCODE_CLOSE = 0x8"
definition OPCODE_PING :: u8 where "OPCODE_PING = 0x9"
definition OPCODE_PONG :: u8 where "OPCODE_PONG = 0xA"

definition is_defined_opcode :: "u8 \<Rightarrow> bool" where
  "is_defined_opcode opcode \<longleftrightarrow>
     opcode \<in> {OPCODE_CONTINUATION, OPCODE_TEXT, OPCODE_BINARY, OPCODE_CLOSE, OPCODE_PING, OPCODE_PONG}"

definition is_control_opcode :: "u8 \<Rightarrow> bool" where
  "is_control_opcode opcode \<longleftrightarrow> opcode \<in> {OPCODE_CLOSE, OPCODE_PING, OPCODE_PONG}"

record frame_header =
  fh_fin :: bool
  fh_rsv :: u8
  fh_opcode :: u8
  fh_mask_bit :: bool
  fh_payload_len :: u64
  fh_masking_key :: "byte list option"
  fh_consumed :: usize

definition read_frame_header :: "byte list \<Rightarrow> parse_error + frame_header" where
  "read_frame_header bytes =
    try_read (read_u8 (new_reader bytes)) (\<lambda>byte0 r.
    try_read (read_u8 r) (\<lambda>byte1 r.
    let mask_bit = byte1 AND 0x80 \<noteq> 0; len7 = byte1 AND 0x7F in
    and_then
      (if len7 = 126 then try_read (read_u16_be r) (\<lambda>n r. Inr (ucast n :: u64, r))
       else if len7 = 127 then try_read (read_u64_be r) (\<lambda>n r. Inr (n, r))
       else Inr (ucast len7, r)) (\<lambda>(payload_len, r).
    and_then
      (if mask_bit then try_read (take_bytes r 4) (\<lambda>key r. Inr (Some key, r)) else Inr (None, r)) (\<lambda>(masking_key, r).
    Inr \<lparr>fh_fin = (byte0 AND 0x80 \<noteq> 0), fh_rsv = drop_bit 4 (byte0 AND 0x70), fh_opcode = byte0 AND 0x0F, fh_mask_bit = mask_bit,
         fh_payload_len = payload_len, fh_masking_key = masking_key, fh_consumed = consumed bytes r\<rparr>))))"

definition websocket_identity :: stream_identity where
  "websocket_identity = keyed [''app''] [rolled ''opcode'' Accumulate]"

definition websocket_parse :: "byte list \<Rightarrow> parse_ctx \<Rightarrow> parse_error + parsed_layer" where
  "websocket_parse bytes ctx =
    and_then (read_frame_header bytes) (\<lambda>h.
    let fm = fm_new;
        fm = insert_at Keys (ctx_depth ctx) [(''app'', Str ''websocket'')] fm;
        fm = insert_at Structural (ctx_depth ctx)
          [(''fin'', VBool (fh_fin h)), (''opcode'', U64 (ucast (fh_opcode h))), (''mask_bit'', VBool (fh_mask_bit h)),
           (''payload_len'', U64 (fh_payload_len h))] fm;
        fm = insert_at Full (ctx_depth ctx) (opt_field ''masking_key'' (map_option Bytes (fh_masking_key h))) fm
    in Inr \<lparr>pl_header_len = fh_consumed h, pl_fields = fm, pl_hint = Terminal\<rparr>)"

definition websocket_probe :: "byte list \<Rightarrow> parse_ctx \<Rightarrow> confidence option" where
  "websocket_probe bytes ctx =
    (case read_frame_header bytes of
       Inl _ \<Rightarrow> None
     | Inr h \<Rightarrow>
        if fh_rsv h \<noteq> 0 then None
        else if fh_opcode h = OPCODE_CONTINUATION then None
        else if \<not> is_defined_opcode (fh_opcode h) then None
        else if is_control_opcode (fh_opcode h) \<and> (\<not> fh_fin h \<or> 125 < fh_payload_len h) then None
        else if unat (fh_payload_len h) \<le> length bytes - fh_consumed h then Some (confidence_new 50) else None)"

definition websocket :: plugin where
  "websocket = (default_plugin ''websocket'' websocket_parse)
     \<lparr>pg_has_probe := True, pg_probe := websocket_probe, pg_stream_identity := Some websocket_identity\<rparr>"

section \<open>HTTP/2\<close>

definition FRAME_HEADER_LEN :: usize where "FRAME_HEADER_LEN = 9"
definition SETTINGS_ENTRY_LEN :: usize where "SETTINGS_ENTRY_LEN = 6"
definition TYPE_SETTINGS :: u8 where "TYPE_SETTINGS = 0x4"

definition HTTP2_FRAME_TYPES :: "string list" where
  "HTTP2_FRAME_TYPES = [''DATA'', ''HEADERS'', ''PRIORITY'', ''RST_STREAM'', ''SETTINGS'', ''PUSH_PROMISE'', ''PING'', ''GOAWAY'',
     ''WINDOW_UPDATE'', ''CONTINUATION'']"

definition http2_frame_type_name :: "u8 \<Rightarrow> string option" where
  "http2_frame_type_name ty = elem_get HTTP2_FRAME_TYPES (unat ty)"

definition http2_identity :: stream_identity where
  "http2_identity = keyed [''stream_id''] [rolled ''frame_type'' Accumulate]"

text \<open>\<open>chunks_exact(n)\<close>: an incomplete last chunk is dropped.\<close>

definition chunks_exact :: "nat \<Rightarrow> 'a list \<Rightarrow> 'a list list" where
  "chunks_exact n xs = map (\<lambda>i. take n (drop (n * i) xs)) [0..<length xs div n]"

definition http2_parse :: "byte list \<Rightarrow> parse_ctx \<Rightarrow> parse_error + parsed_layer" where
  "http2_parse bytes ctx =
    (let r = new_reader bytes in
     try_read (take_bytes r 3) (\<lambda>len_hi r.
     let len = three_bytes len_hi in
     try_read (read_u8 r) (\<lambda>ty r.
     case http2_frame_type_name ty of
       None \<Rightarrow> Inl (Malformed ''unrecognized HTTP/2 frame type'')
     | Some frame_type \<Rightarrow>
        try_read (read_u8 r) (\<lambda>flags r.
        try_read (read_u32_be r) (\<lambda>stream_id_word r.
        let stream_id = ucast (stream_id_word AND 0x7FFFFFFF) :: u64 in
        try_read (take_bytes r len) (\<lambda>payload r.
        let header_len = FRAME_HEADER_LEN + len;
            fm = fm_new;
            fm = insert_at Keys (ctx_depth ctx) [(''stream_id'', U64 stream_id)] fm;
            fm = insert_at Structural (ctx_depth ctx)
              [(''frame_type'', Str frame_type), (''flags'', U64 (ucast flags)), (''length'', U64 (of_nat len))] fm;
            fm = insert_at Full (ctx_depth ctx)
              (if ty = TYPE_SETTINGS then [(''settings_entries'', VList (map Bytes (chunks_exact SETTINGS_ENTRY_LEN payload)))] else []) fm
        in Inr \<lparr>pl_header_len = header_len, pl_fields = fm, pl_hint = Terminal\<rparr>))))))"

definition http2 :: plugin where
  "http2 = (default_plugin ''http2'' http2_parse)\<lparr>pg_stream_identity := Some http2_identity\<rparr>"

section \<open>The contract\<close>

interpretation tls: layer_plugin tls
  by (rule layer_pluginI)
    (auto simp: tls_def tls_parse_def tls_identity_def plugin_simps fits_def fm_new_def intro!: gives_intros)

text \<open>A short-header packet has no connection identifier, so the contract on key fields does not hold for QUIC.\<close>

interpretation quic: framed_plugin quic
  by (rule framed_pluginI) (auto simp: quic_def quic_parse_def plugin_simps fits_def fm_new_def intro!: gives_intros)

lemma frame_header_len: "read_frame_header bytes = Inr h \<Longrightarrow> fh_consumed h \<le> length bytes"
  by (auto simp: read_frame_header_def try_read_Inr and_then_Inr_iff Let_def)

interpretation websocket: layer_plugin websocket
  by (rule layer_pluginI)
    (auto simp: websocket_def websocket_parse_def websocket_identity_def plugin_simps fm_new_def
      intro!: gives_intros dest!: frame_header_len)

interpretation http2: layer_plugin http2
  by (rule layer_pluginI)
    (auto simp: http2_def http2_parse_def http2_identity_def FRAME_HEADER_LEN_def plugin_simps fits_def fm_new_def
      intro!: gives_intros)

section \<open>Extensions\<close>

definition encode_tlv16 :: "u16 \<times> byte list \<Rightarrow> byte list" where
  "encode_tlv16 x = be_bytes 2 (fst x) @ be_bytes 2 (of_nat (length (snd x)) :: u16) @ snd x"

lemma tlv16_encode:
  assumes "ahead r (encode_tlv16 (t, data) @ bs)" "length data < 2 ^ 16"
  obtains r' where "tlv16 r = Some ((t, data), r')" "ahead r' bs"
proof -
  obtain r1 where r1: "read_u16_be r = Inr (t, r1)" "ahead r1 (be_bytes 2 (of_nat (length data) :: u16) @ data @ bs)"
    using ahead_u16 assms(1) unfolding encode_tlv16_def by (metis append_assoc fst_conv snd_conv)
  obtain r2 where r2: "read_u16_be r1 = Inr (of_nat (length data), r2)" "ahead r2 (data @ bs)"
    using ahead_u16[OF r1(2)] by blast
  obtain r3 where r3: "take_bytes r2 (length data) = Inr (data, r3)" "ahead r3 bs"
    using ahead_take[OF r2(2)] by blast
  have "unat (of_nat (length data) :: u16) = length data"
    using assms(2) by (simp add: unat_of_nat)
  then have "tlv16 r = Some ((t, data), r3)"
    using r1(1) r2(1) r3(1) by (simp add: tlv16_def ok_read_def)
  then show ?thesis using that r3(2) by blast
qed

lemma ext_walk16_encode:
  "list_all (\<lambda>x. length (snd x) < 2 ^ 16) exts \<Longrightarrow> ahead r (concat (map encode_tlv16 exts)) \<Longrightarrow> ext_walk16 r = exts"
proof (induction exts arbitrary: r)
  case Nil
  then show ?case by (subst ext_walk16.simps) (simp add: ahead_remaining)
next
  case (Cons x exts)
  obtain r' where r: "tlv16 r = Some (x, r')" "ahead r' (concat (map encode_tlv16 exts))"
    using tlv16_encode[of r "fst x" "snd x"] Cons.prems by auto
  have "4 \<le> remaining r" using ahead_remaining[OF Cons.prems(2)] by (simp add: encode_tlv16_def)
  then show ?case using r Cons.IH[OF _ r(2)] Cons.prems(1) by (subst ext_walk16.simps) simp
qed

text \<open>C31. TLS extensions: the walk over a well-formed extension block returns exactly the extensions encoded
  in it, in order and with nothing left over.\<close>

theorem walk_extensions_roundtrip:
  assumes "list_all (\<lambda>x. length (snd x) < 2 ^ 16) exts" "length (concat (map encode_tlv16 exts)) < 2 ^ 63"
  shows "walk_extensions (concat (map encode_tlv16 exts)) = exts"
  unfolding walk_extensions_def by (rule ext_walk16_encode[OF assms(1) ahead_new[OF assms(2)]])

theorem walk_extensions_roundtrip_witness:
  "walk_extensions (concat (map encode_tlv16 [(0, [1, 2, 3]), (43, []), (16, [7])])) = [(0, [1, 2, 3]), (43, []), (16, [7])]"
  by (rule walk_extensions_roundtrip) (simp_all add: encode_tlv16_def)

end
