(* ===== verification/Messages.thy ===== *)
theory Messages
  imports Secure
begin

text \<open>
  Message protocols of \<open>pktflow-plugins/src\<close>: \<open>amqp.rs\<close>, \<open>smb2.rs\<close>, \<open>nfs.rs\<close>, \<open>stun.rs\<close>. The lemmas
  on STUN show that the interleaved class and method bits of a message type are separated without loss and
  that a masked address is recovered.
\<close>

section \<open>AMQP\<close>

definition FRAME_END :: u8 where "FRAME_END = 0xCE"
definition TYPE_METHOD :: u8 where "TYPE_METHOD = 1"

definition amqp_frame_type_name :: "u8 \<Rightarrow> string option" where
  "amqp_frame_type_name ty =
    (if ty = TYPE_METHOD then Some ''method'' else if ty = 2 then Some ''header'' else if ty = 3 then Some ''body''
     else if ty = 8 then Some ''heartbeat'' else None)"

definition amqp_identity :: stream_identity where
  "amqp_identity = keyed [''app''] [rolled ''frame_type'' Accumulate, rolled ''class_id'' Accumulate]"

definition amqp_method :: "byte list \<Rightarrow> (u16 \<times> u16) option" where
  "amqp_method payload =
    ok_read (read_u16_be (new_reader payload)) (\<lambda>c r. ok_read (read_u16_be r) (\<lambda>m _. Some (c, m)))"

definition amqp_parse :: "byte list \<Rightarrow> parse_ctx \<Rightarrow> parse_error + parsed_layer" where
  "amqp_parse bytes ctx =
    (let r = new_reader bytes in
     try_read (read_u8 r) (\<lambda>ty r.
     case amqp_frame_type_name ty of
       None \<Rightarrow> Inl (Malformed ''unrecognized AMQP frame type'')
     | Some frame_type \<Rightarrow>
        try_read (read_u16_be r) (\<lambda>channel r.
        try_read (read_u32_be r) (\<lambda>sz r.
        try_read (take_bytes r (unat sz)) (\<lambda>payload r.
        try_read (read_u8 r) (\<lambda>frame_end r.
        if frame_end \<noteq> FRAME_END then Inl (Malformed ''AMQP frame missing 0xCE frame-end octet'')
        else
        let header_len = 1 + 2 + 4 + unat sz + 1;
            ids = (if ty = TYPE_METHOD then amqp_method payload else None);
            fm = fm_new;
            fm = insert_at Keys (ctx_depth ctx) [(''app'', Str ''amqp'')] fm;
            fm = insert_at Structural (ctx_depth ctx)
              [(''frame_type'', Str frame_type), (''channel'', U64 (ucast channel)), (''size'', U64 (ucast sz))] fm;
            fm = insert_at Full (ctx_depth ctx)
              (opt_field ''class_id'' (map_option (\<lambda>(c, _). U64 (ucast c)) ids) @
               opt_field ''method_id'' (map_option (\<lambda>(_, m). U64 (ucast m)) ids)) fm
        in Inr \<lparr>pl_header_len = header_len, pl_fields = fm, pl_hint = Terminal\<rparr>))))))"

definition amqp :: plugin where
  "amqp = (default_plugin ''amqp'' amqp_parse)\<lparr>pg_claims := [TcpPort 5672], pg_stream_identity := Some amqp_identity\<rparr>"

section \<open>SMB2\<close>

definition PROTOCOL_ID :: "byte list" where "PROTOCOL_ID = [0xFE, 0x53, 0x4D, 0x42]"
definition SMB2_FIXED_HEADER_LEN :: usize where "SMB2_FIXED_HEADER_LEN = 64"
definition FLAG_SERVER_TO_REDIR :: u32 where "FLAG_SERVER_TO_REDIR = 0x00000001"
definition CMD_CREATE :: u16 where "CMD_CREATE = 5"
definition CMD_CLOSE :: u16 where "CMD_CLOSE = 6"
definition CMD_READ :: u16 where "CMD_READ = 8"
definition CMD_WRITE :: u16 where "CMD_WRITE = 9"

definition smb2_identity :: stream_identity where
  "smb2_identity = keyed [''session_id''] [rolled ''command'' Accumulate]"

definition read_file_id :: "byte list \<Rightarrow> u16 \<Rightarrow> bool \<Rightarrow> byte list option" where
  "read_file_id body command is_response =
    (let slice = (\<lambda>offset. slice_get body offset (offset + 16)) in
     if command = CMD_CREATE \<and> is_response then slice 64
     else if (command = CMD_READ \<or> command = CMD_WRITE) \<and> \<not> is_response then slice 16
     else if command = CMD_CLOSE \<and> \<not> is_response then slice 8
     else None)"

definition smb2_header :: "byte list \<Rightarrow> parse_error + u64 \<times> u16 \<times> u32 \<times> u32 \<times> u64 \<times> u32" where
  "smb2_header message =
    try_read (take_bytes (new_reader message) 4) (\<lambda>protocol_id mr.
    if protocol_id \<noteq> PROTOCOL_ID then Inl (Malformed ''not an SMB2 message (bad ProtocolId)'')
    else
    try_read (read_u16_le mr) (\<lambda>structure_size mr.
    if unat structure_size \<noteq> SMB2_FIXED_HEADER_LEN then Inl (Malformed ''SMB2 header StructureSize is not 64'')
    else
    try_read (read_u16_le mr) (\<lambda>_ mr.
    try_read (read_u32_le mr) (\<lambda>status mr.
    try_read (read_u16_le mr) (\<lambda>command mr.
    try_read (read_u16_le mr) (\<lambda>_ mr.
    try_read (read_u32_le mr) (\<lambda>flags mr.
    try_read (read_u32_le mr) (\<lambda>_ mr.
    try_read (read_u64_le mr) (\<lambda>message_id mr.
    try_read (read_u32_le mr) (\<lambda>_ mr.
    try_read (read_u32_le mr) (\<lambda>tree_id mr.
    try_read (read_u64_le mr) (\<lambda>session_id mr.
    try_read (take_bytes mr 16) (\<lambda>_ mr.
    Inr (session_id, command, status, flags, message_id, tree_id))))))))))))))"

definition smb2_parse :: "byte list \<Rightarrow> parse_ctx \<Rightarrow> parse_error + parsed_layer" where
  "smb2_parse bytes ctx =
    (let r = new_reader bytes in
     try_read (read_u8 r) (\<lambda>nbss_type r.
     if nbss_type \<noteq> 0x00 then Inl (Malformed ''not a NetBIOS Session Service message (0x00)'')
     else
     try_read (take_bytes r 3) (\<lambda>len_hi r.
     let msg_len = three_bytes len_hi in
     try_read (take_bytes r msg_len) (\<lambda>message r.
     and_then (smb2_header message) (\<lambda>(session_id, command, status, flags, message_id, tree_id).
     let header_len = 4 + msg_len;
         is_response = flags AND FLAG_SERVER_TO_REDIR \<noteq> 0;
         body = drop (min SMB2_FIXED_HEADER_LEN (length message)) message;
         fm = fm_new;
         fm = insert_at Keys (ctx_depth ctx) [(''session_id'', U64 session_id)] fm;
         fm = insert_at Structural (ctx_depth ctx)
           [(''command'', U64 (ucast command)), (''status'', U64 (ucast status)), (''flags'', U64 (ucast flags)),
            (''message_id'', U64 message_id)] fm;
         fm = insert_at Full (ctx_depth ctx)
           ((''tree_id'', U64 (ucast tree_id)) # opt_field ''file_id'' (map_option Bytes (read_file_id body command is_response))) fm
     in Inr \<lparr>pl_header_len = header_len, pl_fields = fm, pl_hint = Terminal\<rparr>)))))"

definition smb2 :: plugin where
  "smb2 = (default_plugin ''smb2'' smb2_parse)\<lparr>pg_claims := [TcpPort 445], pg_stream_identity := Some smb2_identity\<rparr>"

section \<open>NFS\<close>

definition RPC_CALL :: u32 where "RPC_CALL = 0"
definition RPC_REPLY :: u32 where "RPC_REPLY = 1"
definition RPC_VERSION_2 :: u32 where "RPC_VERSION_2 = 2"
definition MSG_ACCEPTED :: u32 where "MSG_ACCEPTED = 0"
definition MSG_DENIED :: u32 where "MSG_DENIED = 1"

definition nfs_identity :: stream_identity where
  "nfs_identity = keyed [''app''] [rolled ''procedure'' Accumulate]"

definition nfs_call :: "u32 \<Rightarrow> byte_reader \<Rightarrow> parse_error + (field_name \<times> value_t) list \<times> usize" where
  "nfs_call xid r =
    try_read (read_u32_be r) (\<lambda>rpcvers r.
    if rpcvers \<noteq> RPC_VERSION_2 then Inl (Malformed ''unsupported ONC RPC version'')
    else
    try_read (read_u32_be r) (\<lambda>program r.
    try_read (read_u32_be r) (\<lambda>program_version r.
    try_read (read_u32_be r) (\<lambda>proc r.
    Inr ([(''xid'', U64 (ucast xid)), (''msg_type'', Str ''call''), (''program'', U64 (ucast program)),
          (''program_version'', U64 (ucast program_version)), (''procedure'', U64 (ucast proc))], 24)))))"

definition nfs_reply :: "u32 \<Rightarrow> byte_reader \<Rightarrow> parse_error + (field_name \<times> value_t) list \<times> usize" where
  "nfs_reply xid r =
    try_read (read_u32_be r) (\<lambda>reply_stat r.
    if reply_stat \<noteq> MSG_ACCEPTED \<and> reply_stat \<noteq> MSG_DENIED then Inl (Malformed ''unrecognized RPC reply_stat'')
    else Inr ([(''xid'', U64 (ucast xid)), (''msg_type'', Str ''reply'')], 12))"

definition nfs_parse :: "byte list \<Rightarrow> parse_ctx \<Rightarrow> parse_error + parsed_layer" where
  "nfs_parse bytes ctx =
    (let r = new_reader bytes;
         is_tcp = map_option lr_protocol (ctx_prev ctx) = Some ''tcp'' in
     and_then (if is_tcp then try_read (read_u32_be r) (\<lambda>_ r. Inr (4, r)) else Inr (0, r)) (\<lambda>(prefix_len, r).
     try_read (read_u32_be r) (\<lambda>xid r.
     try_read (read_u32_be r) (\<lambda>msg_type r.
     and_then
       (if msg_type = RPC_CALL then nfs_call xid r
        else if msg_type = RPC_REPLY then nfs_reply xid r
        else Inl (Malformed ''unrecognized RPC msg_type'')) (\<lambda>(structural, n).
     let fm = fm_new;
         fm = insert_at Keys (ctx_depth ctx) [(''app'', Str ''nfs'')] fm;
         fm = insert_at Structural (ctx_depth ctx) structural fm
     in Inr \<lparr>pl_header_len = prefix_len + n, pl_fields = fm, pl_hint = Terminal\<rparr>)))))"

definition nfs :: plugin where
  "nfs = (default_plugin ''nfs'' nfs_parse)
     \<lparr>pg_claims := [UdpPort 2049, TcpPort 2049], pg_stream_identity := Some nfs_identity\<rparr>"

section \<open>STUN\<close>

definition STUN_MAGIC_COOKIE :: u32 where "STUN_MAGIC_COOKIE = 0x2112A442"
definition STUN_HEADER_LEN :: usize where "STUN_HEADER_LEN = 20"
definition ATTR_XOR_MAPPED_ADDRESS :: u16 where "ATTR_XOR_MAPPED_ADDRESS = 0x0020"
definition ATTR_USERNAME :: u16 where "ATTR_USERNAME = 0x0006"
definition ATTR_ERROR_CODE :: u16 where "ATTR_ERROR_CODE = 0x0009"
definition ATTR_XOR_RELAYED_ADDRESS :: u16 where "ATTR_XOR_RELAYED_ADDRESS = 0x0016"
definition ATTR_LIFETIME :: u16 where "ATTR_LIFETIME = 0x000D"
definition ATTR_CHANNEL_NUMBER :: u16 where "ATTR_CHANNEL_NUMBER = 0x000C"

definition message_class_name :: "u8 \<Rightarrow> string" where
  "message_class_name class =
    (if class = 0 then ''request'' else if class = 1 then ''indication'' else if class = 2 then ''success_response''
     else ''error_response'')"

definition decode_message_type :: "u16 \<Rightarrow> u8 \<times> u16" where
  "decode_message_type msg_type =
    (let c0 = drop_bit 4 msg_type AND 0x1; c1 = drop_bit 8 msg_type AND 0x1;
         class = ucast (push_bit 1 c1 OR c0);
         method = (msg_type AND 0xF) OR push_bit 4 (drop_bit 5 msg_type AND 0x7) OR push_bit 7 (drop_bit 9 msg_type AND 0x1F)
     in (class, method))"

definition xor_with :: "byte list \<Rightarrow> byte list \<Rightarrow> byte list" where
  "xor_with key addr = map2 (\<lambda>a c. a XOR c) addr key"

definition decode_xor_address :: "byte list \<Rightarrow> byte list \<Rightarrow> byte list option" where
  "decode_xor_address v transaction_id =
    ok_read (read_u8 (new_reader v)) (\<lambda>_ r.
    ok_read (read_u8 r) (\<lambda>family r.
    ok_read (read_u16_be r) (\<lambda>_ r.
    if family = 0x01 then
      ok_read (take_bytes r 4) (\<lambda>addr _. Some (xor_with (be_bytes 4 STUN_MAGIC_COOKIE) addr))
    else if family = 0x02 then
      ok_read (take_bytes r 16) (\<lambda>addr _. Some (xor_with (be_bytes 4 STUN_MAGIC_COOKIE @ transaction_id) addr))
    else None)))"

definition decode_error_code :: "byte list \<Rightarrow> u64 option" where
  "decode_error_code v =
    ok_read (read_u16_be (new_reader v)) (\<lambda>_ r.
    ok_read (read_u8 r) (\<lambda>class_and_reserved r.
    ok_read (read_u8 r) (\<lambda>number _.
    Some (ucast (class_and_reserved AND 0x07) * 100 + ucast number))))"

definition stun_identity :: stream_identity where
  "stun_identity = keyed [''app''] [rolled ''message_class'' Accumulate, rolled ''xor_mapped_address'' Sample]"

definition stun_attr :: "byte list \<Rightarrow> u16 \<Rightarrow> byte list \<Rightarrow> (field_name \<times> value_t) list" where
  "stun_attr transaction_id attr_type v =
    (if attr_type = ATTR_XOR_MAPPED_ADDRESS then
       opt_field ''xor_mapped_address'' (map_option Bytes (decode_xor_address v transaction_id))
     else if attr_type = ATTR_XOR_RELAYED_ADDRESS then
       opt_field ''relayed_address'' (map_option Bytes (decode_xor_address v transaction_id))
     else if attr_type = ATTR_USERNAME then opt_field ''username'' (map_option Str (from_utf8 v))
     else if attr_type = ATTR_ERROR_CODE then opt_field ''error_code'' (map_option U64 (decode_error_code v))
     else if attr_type = ATTR_LIFETIME \<and> length v = 4 then [(''lifetime'', U64 (ucast (from_be_bytes v :: u32)))]
     else if attr_type = ATTR_CHANNEL_NUMBER \<and> 2 \<le> length v then
       [(''channel_number'', U64 (ucast (from_be_bytes [v ! 0, v ! 1] :: u16)))]
     else [])"

function stun_walk :: "byte list \<Rightarrow> byte_reader \<Rightarrow> (field_name \<times> value_t) list" where
  "stun_walk transaction_id ar =
    (if 4 \<le> remaining ar then
       (case tlv16 ar of
          None \<Rightarrow> []
        | Some (x, ar1) \<Rightarrow>
           (case take_bytes ar1 ((4 - length (snd x) mod 4) mod 4) of
              Inl _ \<Rightarrow> []
            | Inr y \<Rightarrow> stun_attr transaction_id (fst x) (snd x) @ stun_walk transaction_id (snd y)))
     else [])"
  by pat_completeness auto
termination by (relation "measure (\<lambda>(_, r). remaining r)") (auto dest!: tlv16_shrink take_shrink intro: le_less_trans[OF diff_le_self])

declare stun_walk.simps [simp del]

definition stun_parse :: "byte list \<Rightarrow> parse_ctx \<Rightarrow> parse_error + parsed_layer" where
  "stun_parse bytes ctx =
    (let r = new_reader bytes in
     try_read (read_u16_be r) (\<lambda>msg_type r.
     if msg_type AND 0xC000 \<noteq> 0 then Inl (Malformed ''STUN message type's top two bits must be zero'')
     else
     try_read (read_u16_be r) (\<lambda>message_length r.
     if message_length mod 4 \<noteq> 0 then Inl (Malformed ''STUN message length is not a multiple of 4'')
     else
     try_read (read_u32_be r) (\<lambda>magic_cookie r.
     if magic_cookie \<noteq> STUN_MAGIC_COOKIE then Inl (Malformed ''STUN magic cookie mismatch'')
     else
     try_read (take_bytes r 12) (\<lambda>transaction_id r.
     try_read (take_bytes r (unat message_length)) (\<lambda>attrs r.
     let header_len = STUN_HEADER_LEN + unat message_length;
         (class, method) = decode_message_type msg_type;
         fm = fm_new;
         fm = insert_at Keys (ctx_depth ctx) [(''app'', Str ''stun'')] fm;
         fm = insert_at Structural (ctx_depth ctx)
           [(''message_class'', Str (message_class_name class)), (''message_method'', U64 (ucast method)),
            (''message_length'', U64 (ucast message_length))] fm;
         fm = insert_at Full (ctx_depth ctx) (stun_walk transaction_id (new_reader attrs)) fm
     in Inr \<lparr>pl_header_len = header_len, pl_fields = fm, pl_hint = Terminal\<rparr>))))))"

definition stun_probe :: "byte list \<Rightarrow> parse_ctx \<Rightarrow> confidence option" where
  "stun_probe bytes ctx =
    ok_read (read_u16_be (new_reader bytes)) (\<lambda>msg_type r.
    if msg_type AND 0xC000 \<noteq> 0 then None
    else
    ok_read (read_u16_be r) (\<lambda>_ r.
    ok_read (read_u32_be r) (\<lambda>magic_cookie r.
    if magic_cookie = STUN_MAGIC_COOKIE then Some (confidence_new 95) else None)))"

definition stun :: plugin where
  "stun = (default_plugin ''stun'' stun_parse)
     \<lparr>pg_claims := [UdpPort 3478, TcpPort 3478], pg_has_probe := True, pg_probe := stun_probe, pg_stream_identity := Some stun_identity\<rparr>"

section \<open>The contract\<close>

interpretation amqp: layer_plugin amqp
  by (rule layer_pluginI)
    (auto simp: amqp_def amqp_parse_def amqp_identity_def plugin_simps fits_def fm_new_def intro!: gives_intros)

interpretation smb2: layer_plugin smb2
  by (rule layer_pluginI)
    (auto simp: smb2_def smb2_parse_def smb2_identity_def plugin_simps fits_def fm_new_def intro!: gives_intros)

interpretation nfs: layer_plugin nfs
  by (rule layer_pluginI)
    (auto simp: nfs_def nfs_parse_def nfs_identity_def nfs_call_def nfs_reply_def plugin_simps fits_def fm_new_def and_then_Inr_iff
      intro!: gives_intros split: if_splits)

interpretation stun: layer_plugin stun
  by (rule layer_pluginI)
    (auto simp: stun_def stun_parse_def stun_identity_def STUN_HEADER_LEN_def plugin_simps fits_def fm_new_def
      intro!: gives_intros)

section \<open>STUN encodings\<close>

lemma xor_with_involutive: "length addr \<le> length key \<Longrightarrow> xor_with key (xor_with key addr) = addr"
  by (rule nth_equalityI) (auto simp: xor_with_def xor.assoc)

lemma length_xor_with [simp]: "length (xor_with key addr) = min (length addr) (length key)"
  by (simp add: xor_with_def)

text \<open>The key an address of a family is masked with, and the attribute that carries it.\<close>

definition xor_key :: "byte list \<Rightarrow> byte list" where
  "xor_key transaction_id = be_bytes 4 STUN_MAGIC_COOKIE @ transaction_id"

definition encode_xor_address :: "u16 \<Rightarrow> byte list \<Rightarrow> byte list \<Rightarrow> byte list" where
  "encode_xor_address port transaction_id addr =
    0 # (if length addr = 4 then 1 else 2) # be_bytes 2 port @ xor_with (xor_key transaction_id) addr"

text \<open>STUN addresses: an IPv4 or IPv6 address masked with the magic cookie and the transaction identifier is
  recovered exactly from the attribute that carries it.\<close>

theorem xor_address_roundtrip:
  assumes "length addr = 4 \<or> length addr = 16" "length tid = 12"
  shows "decode_xor_address (encode_xor_address port tid addr) tid = Some addr"
proof -
  let ?v = "encode_xor_address port tid addr" and ?x = "xor_with (xor_key tid) addr"
  let ?f = "if length addr = 4 then 1 else 2 :: byte"
  have len: "length ?x = length addr" using assms by (auto simp: xor_key_def)
  have "ahead (new_reader ?v) ?v" by (rule ahead_new) (use assms len in \<open>auto simp: encode_xor_address_def\<close>)
  then obtain r1 r2 r3 where r: "read_u8 (new_reader ?v) = Inr (0, r1)" "read_u8 r1 = Inr (?f, r2)"
    "read_u16_be r2 = Inr (port, r3)" "ahead r3 ?x"
    unfolding encode_xor_address_def by (metis ahead_u8 ahead_u16)
  obtain r4 where t: "take_bytes r3 (length addr) = Inr (?x, r4)"
    using ahead_take[of r3 ?x "[]"] r(4) len by auto
  have 4: "xor_with (be_bytes 4 STUN_MAGIC_COOKIE) ?x = addr" if "length addr = 4"
    using xor_with_involutive[of addr "xor_key tid"] that assms(2) by (simp add: xor_with_def xor_key_def zip_append2)
  have 16: "xor_with (be_bytes 4 STUN_MAGIC_COOKIE @ tid) ?x = addr" if "length addr = 16"
    using xor_with_involutive[of addr "xor_key tid"] that assms(2) by (simp add: xor_key_def)
  show ?thesis using assms(1) r(1-3) t 4 16 by (auto simp: decode_xor_address_def ok_read_def)
qed

theorem xor_address_roundtrip_witness:
  "decode_xor_address (encode_xor_address 80 (replicate 12 7) [192, 0, 2, 1]) (replicate 12 7) = Some [192, 0, 2, 1]"
  by (rule xor_address_roundtrip) simp_all

end
