(* ===== verification/Wireless.thy ===== *)
theory Wireless
  imports Walking
begin

text \<open>
  The link-layer entry points beside Ethernet in \<open>pktflow-plugins/src\<close>: the radiotap wrapper
  (\<open>radiotap.rs\<close>), 802.11 frames (\<open>dot11.rs\<close>), and the worked example of a plugin (\<open>template.rs\<close>). A
  control frame without a transmitter address has no key, so 802.11 only meets the framing half of the
  contract.
\<close>

section \<open>The worked example\<close>

definition template_identity :: stream_identity where
  "template_identity = paired ''src'' ''dst'' [rolled ''type'' Accumulate]"

definition template_parse :: "byte list \<Rightarrow> parse_ctx \<Rightarrow> parse_error + parsed_layer" where
  "template_parse bytes ctx =
    (let r = new_reader bytes in
     try_read (read_u16_be r) (\<lambda>src r.
     try_read (read_u16_be r) (\<lambda>dst r.
     try_read (read_u16_be r) (\<lambda>ty r.
     try_read (read_u16_be r) (\<lambda>len r.
     let fm = fm_new;
         fm = insert_at Keys (ctx_depth ctx) [(''src'', U64 (ucast src)), (''dst'', U64 (ucast dst))] fm;
         fm = insert_at Structural (ctx_depth ctx) [(''type'', U64 (ucast ty)), (''len'', U64 (ucast len))] fm;
         hint = (if ty = 0x0001 then ByProtocol ''template'' else Terminal)
     in Inr \<lparr>pl_header_len = 8, pl_fields = fm, pl_hint = hint\<rparr>)))))"

definition template_probe :: "byte list \<Rightarrow> parse_ctx \<Rightarrow> confidence option" where
  "template_probe bytes ctx =
    ok_read (take_bytes (new_reader bytes) 6) (\<lambda>_ r.
    ok_read (read_u16_be r) (\<lambda>len r.
    if 8 \<le> unat len \<and> unat len \<le> length bytes then Some (confidence_new 60) else None))"

definition template :: plugin where
  "template = (default_plugin ''template'' template_parse)
     \<lparr>pg_claims := [Custom ''pktt'' 0], pg_has_probe := True, pg_probe := template_probe,
      pg_stream_identity := Some template_identity\<rparr>"

section \<open>Radiotap\<close>

definition PRESENT_EXTENSION_BIT :: u32 where "PRESENT_EXTENSION_BIT = push_bit 31 1"
definition MAX_PRESENT_WORDS :: nat where "MAX_PRESENT_WORDS = 8"
definition BIT_RATE :: nat where "BIT_RATE = 2"
definition BIT_CHANNEL :: nat where "BIT_CHANNEL = 3"
definition BIT_ANTENNA_SIGNAL :: nat where "BIT_ANTENNA_SIGNAL = 5"

text \<open>Alignment and size of the fields of bits 0 to 5.\<close>

definition FIELD_LAYOUT :: "(usize \<times> usize) list" where
  "FIELD_LAYOUT = [(8, 8), (1, 1), (1, 1), (2, 4), (1, 2), (1, 1)]"

text \<open>The chain of presence words: each one with bit 31 set announces another, eight at most.\<close>

function present_walk :: "u32 \<Rightarrow> nat \<Rightarrow> byte_reader \<Rightarrow> parse_error + byte_reader" where
  "present_walk word words_read r =
    (if word AND PRESENT_EXTENSION_BIT = 0 then Inr r
     else if MAX_PRESENT_WORDS \<le> words_read then Inl (Malformed ''radiotap: present-word chain exceeds the 8-word bound'')
     else try_read (read_u32_le r) (\<lambda>word r. present_walk word (words_read + 1) r))"
  by pat_completeness auto
termination by (relation "measure (\<lambda>(_, n, _). MAX_PRESENT_WORDS - n)") auto

declare present_walk.simps [simp del]

record radio_fields =
  rf_rate :: "u64 option"
  rf_channel_freq :: "u64 option"
  rf_antenna_signal :: "u64 option"

definition radio_record :: "nat \<Rightarrow> byte list \<Rightarrow> radio_fields \<Rightarrow> radio_fields" where
  "radio_record b v rf =
    (if b = BIT_RATE then rf\<lparr>rf_rate := Some (ucast (v ! 0))\<rparr>
     else if b = BIT_CHANNEL then rf\<lparr>rf_channel_freq := Some (ucast (from_le_bytes [v ! 0, v ! 1] :: u16))\<rparr>
     else if b = BIT_ANTENNA_SIGNAL then rf\<lparr>rf_antenna_signal := Some (scast (v ! 0))\<rparr>
     else rf)"

fun radio_walk :: "byte list \<Rightarrow> u32 \<Rightarrow> (nat \<times> usize \<times> usize) list \<Rightarrow> byte_reader \<Rightarrow> radio_fields \<Rightarrow>
    parse_error + radio_fields \<times> byte_reader" where
  "radio_walk bytes it_present [] r rf = Inr (rf, r)"
| "radio_walk bytes it_present ((b, align, sz) # layout) r rf =
    (if \<not> bit it_present b then radio_walk bytes it_present layout r rf
     else
     let offset = consumed bytes r; pad = align - offset mod align; pad = (if pad = align then 0 else pad) in
     and_then (if 0 < pad then try_read (take_bytes r pad) (\<lambda>_ r. Inr r) else Inr r) (\<lambda>r.
     try_read (take_bytes r sz) (\<lambda>v r. radio_walk bytes it_present layout r (radio_record b v rf))))"

definition radiotap_parse :: "byte list \<Rightarrow> parse_ctx \<Rightarrow> parse_error + parsed_layer" where
  "radiotap_parse bytes ctx =
    (let r = new_reader bytes in
     try_read (read_u8 r) (\<lambda>it_version r.
     try_read (read_u8 r) (\<lambda>_ r.
     try_read (read_u16_le r) (\<lambda>it_len r.
     let header_len = unat it_len in
     if length bytes < header_len then Inl (Malformed ''radiotap: it_len exceeds captured bytes'')
     else
     try_read (read_u32_le r) (\<lambda>it_present r.
     and_then (present_walk it_present 1 r) (\<lambda>r.
     and_then (radio_walk bytes it_present (enumerate 0 FIELD_LAYOUT) r \<lparr>rf_rate = None, rf_channel_freq = None, rf_antenna_signal = None\<rparr>)
       (\<lambda>(rf, r).
     if header_len < consumed bytes r then Inl (Malformed ''radiotap: present fields overrun it_len'')
     else
     let fm = fm_new;
         fm = insert_at Structural (ctx_depth ctx)
           [(''it_version'', U64 (ucast it_version)), (''it_len'', U64 (ucast it_len)), (''it_present'', U64 (ucast it_present))] fm;
         fm = insert_at Full (ctx_depth ctx)
           (opt_field ''rate'' (map_option U64 (rf_rate rf)) @ opt_field ''channel_freq'' (map_option U64 (rf_channel_freq rf)) @
            opt_field ''antenna_signal'' (map_option I64 (rf_antenna_signal rf))) fm
     in Inr \<lparr>pl_header_len = header_len, pl_fields = fm, pl_hint = ByProtocol ''dot11''\<rparr>)))))))"

definition radiotap :: plugin where
  "radiotap = (default_plugin ''radiotap'' radiotap_parse)\<lparr>pg_claims := [LinkType 127]\<rparr>"

section \<open>802.11\<close>

definition TYPE_MANAGEMENT :: u8 where "TYPE_MANAGEMENT = 0"
definition TYPE_CONTROL :: u8 where "TYPE_CONTROL = 1"
definition TYPE_DATA :: u8 where "TYPE_DATA = 2"
definition SUBTYPE_PROBE_REQUEST :: u8 where "SUBTYPE_PROBE_REQUEST = 0x4"
definition SUBTYPE_PROBE_RESPONSE :: u8 where "SUBTYPE_PROBE_RESPONSE = 0x5"
definition SUBTYPE_BEACON :: u8 where "SUBTYPE_BEACON = 0x8"
definition CONTROL_SUBTYPES_WITH_ADDR2 :: "u8 list" where "CONTROL_SUBTYPES_WITH_ADDR2 = [0x8, 0x9, 0xA, 0xB]"
definition DATA_SUBTYPE_QOS_BIT :: u8 where "DATA_SUBTYPE_QOS_BIT = 0x08"
definition DATA_SUBTYPE_NO_BODY_BIT :: u8 where "DATA_SUBTYPE_NO_BODY_BIT = 0x04"
definition SSID_ELEMENT_ID :: u8 where "SSID_ELEMENT_ID = 0"
definition BEACON_FIXED_FIELDS_LEN :: usize where "BEACON_FIXED_FIELDS_LEN = 12"

definition dot11_identity :: stream_identity where
  "dot11_identity = paired ''addr1'' ''addr2'' [rolled ''frame_subtype'' Accumulate]"

definition decode_ssid :: "byte list \<Rightarrow> string" where "decode_ssid bytes = decode_text bytes"

definition dot11_control :: "byte list \<Rightarrow> depth \<Rightarrow> u8 \<Rightarrow> byte_reader \<Rightarrow> field_map \<Rightarrow> parse_error + parsed_layer" where
  "dot11_control bytes d frame_subtype r fm =
    and_then
      (if frame_subtype \<in> set CONTROL_SUBTYPES_WITH_ADDR2 then try_read (take_bytes r 6) (\<lambda>a r. Inr (Some a, r)) else Inr (None, r))
      (\<lambda>(addr2, r).
    Inr \<lparr>pl_header_len = consumed bytes r, pl_fields = insert_at Keys d (opt_field ''addr2'' (map_option Bytes addr2)) fm,
         pl_hint = Terminal\<rparr>)"

definition ssid_element :: "u8 \<Rightarrow> byte_reader \<Rightarrow> parse_error + string option \<times> byte_reader" where
  "ssid_element frame_subtype r =
    (if frame_subtype \<in> {SUBTYPE_BEACON, SUBTYPE_PROBE_REQUEST, SUBTYPE_PROBE_RESPONSE} then
       and_then
         (if frame_subtype \<in> {SUBTYPE_BEACON, SUBTYPE_PROBE_RESPONSE} then try_read (take_bytes r BEACON_FIXED_FIELDS_LEN) (\<lambda>_ r. Inr r)
          else Inr r) (\<lambda>r.
       try_read (read_u8 r) (\<lambda>el_id r.
       try_read (read_u8 r) (\<lambda>el_len r.
       try_read (take_bytes r (unat el_len)) (\<lambda>v r.
       Inr (if el_id = SSID_ELEMENT_ID then Some (decode_ssid v) else None, r)))))
     else Inr (None, r))"

definition dot11_management :: "byte list \<Rightarrow> depth \<Rightarrow> u8 \<Rightarrow> byte_reader \<Rightarrow> field_map \<Rightarrow> parse_error + parsed_layer" where
  "dot11_management bytes d frame_subtype r fm =
    try_read (take_bytes r 6) (\<lambda>addr2 r.
    try_read (take_bytes r 6) (\<lambda>addr3 r.
    try_read (read_u16_le r) (\<lambda>seq_ctrl r.
    let seq_num = ucast (drop_bit 4 seq_ctrl);
        fm = insert_at Keys d [(''addr2'', Bytes addr2)] fm;
        fm = insert_at Structural d [(''addr3'', Bytes addr3), (''seq_num'', U64 seq_num)] fm in
    and_then (ssid_element frame_subtype r) (\<lambda>(ssid, r).
    let fm = insert_at Full d (opt_field ''ssid'' (map_option Str ssid)) fm
    in Inr \<lparr>pl_header_len = consumed bytes r, pl_fields = fm, pl_hint = Terminal\<rparr>))))"

definition dot11_data :: "byte list \<Rightarrow> depth \<Rightarrow> u8 \<Rightarrow> u8 \<Rightarrow> byte_reader \<Rightarrow> field_map \<Rightarrow> parse_error + parsed_layer" where
  "dot11_data bytes d frame_subtype fc1 r fm =
    try_read (take_bytes r 6) (\<lambda>addr2 r.
    try_read (take_bytes r 6) (\<lambda>addr3 r.
    try_read (read_u16_le r) (\<lambda>seq_ctrl r.
    let seq_num = ucast (drop_bit 4 seq_ctrl); to_ds = fc1 AND 0x01 \<noteq> 0; from_ds = fc1 AND 0x02 \<noteq> 0; protected = fc1 AND 0x40 \<noteq> 0 in
    and_then (if to_ds \<and> from_ds then try_read (take_bytes r 6) (\<lambda>a r. Inr (Some a, r)) else Inr (None, r)) (\<lambda>(addr4, r).
    let has_qos = frame_subtype AND DATA_SUBTYPE_QOS_BIT \<noteq> 0 in
    and_then (if has_qos then try_read (read_u16_le r) (\<lambda>q r. Inr (Some q, r)) else Inr (None, r)) (\<lambda>(qos_control, r).
    let fm = insert_at Keys d [(''addr2'', Bytes addr2)] fm;
        fm = insert_at Structural d [(''addr3'', Bytes addr3), (''seq_num'', U64 seq_num)] fm;
        fm = insert_at Full d
          (opt_field ''addr4'' (map_option Bytes addr4) @ opt_field ''qos_control'' (map_option (\<lambda>q. U64 (ucast q)) qos_control)) fm;
        no_body = frame_subtype AND DATA_SUBTYPE_NO_BODY_BIT \<noteq> 0
    in Inr \<lparr>pl_header_len = consumed bytes r, pl_fields = fm,
            pl_hint = if protected \<or> no_body then Terminal else ByProtocol ''llc''\<rparr>)))))"

definition dot11_parse :: "byte list \<Rightarrow> parse_ctx \<Rightarrow> parse_error + parsed_layer" where
  "dot11_parse bytes ctx =
    (let r = new_reader bytes in
     try_read (read_u8 r) (\<lambda>fc0 r.
     try_read (read_u8 r) (\<lambda>fc1 r.
     let frame_type = drop_bit 2 fc0 AND 0x03; frame_subtype = drop_bit 4 fc0 AND 0x0F in
     try_read (read_u16_le r) (\<lambda>dur r.
     try_read (take_bytes r 6) (\<lambda>addr1 r.
     let d = ctx_depth ctx;
         fm = fm_new;
         fm = insert_at Structural d
           [(''frame_type'', U64 (ucast frame_type)), (''frame_subtype'', U64 (ucast frame_subtype)),
            (''flags'', U64 (ucast fc1)), (''duration'', U64 (ucast dur))] fm;
         fm = insert_at Keys d [(''addr1'', Bytes addr1)] fm in
     if frame_type = TYPE_CONTROL then dot11_control bytes d frame_subtype r fm
     else if frame_type = TYPE_MANAGEMENT then dot11_management bytes d frame_subtype r fm
     else if frame_type = TYPE_DATA then dot11_data bytes d frame_subtype fc1 r fm
     else Inl (Malformed ''dot11: unsupported frame type (Extension/reserved)''))))))"

definition dot11 :: plugin where
  "dot11 = (default_plugin ''dot11'' dot11_parse)\<lparr>pg_claims := [LinkType 105], pg_stream_identity := Some dot11_identity\<rparr>"

section \<open>The contract\<close>

interpretation template: layer_plugin template
  by (rule layer_pluginI)
    (auto simp: template_def template_parse_def template_identity_def plugin_simps fits_def fm_new_def intro!: gives_intros)

interpretation radiotap: layer_plugin radiotap
  by (rule layer_pluginI)
    (auto simp: radiotap_def radiotap_parse_def plugin_simps fits_def fm_new_def intro!: gives_intros)

interpretation dot11: framed_plugin dot11
  by (rule framed_pluginI)
    (auto simp: dot11_def dot11_parse_def dot11_control_def dot11_management_def dot11_data_def plugin_simps fm_new_def
      intro!: gives_intros)

end
