(* ===== verification/Carrier.thy ===== *)
theory Carrier
  imports Transport Utf8
begin

text \<open>
  Carrier protocols of \<open>pktflow-plugins/src\<close>: \<open>sctp.rs\<close> with its association lifecycle, \<open>bgp.rs\<close>
  and \<open>gtp_c.rs\<close>. The locale \<open>lifecycle\<close> states what the aggregator relies on in a lifecycle; TCP and
  SCTP are interpretations of it. An established association has seen its four-way handshake.
\<close>

section \<open>Lifecycles\<close>

text \<open>The state after a sequence of packets, each a field map with its direction.\<close>

definition lc_run :: "lifecycle_spec \<Rightarrow> (field_map \<times> packet_direction) list \<Rightarrow> state_name" where
  "lc_run spec pkts = foldl (\<lambda>s (fm, d). lc_advance spec fm s d) (lc_initial spec) pkts"

lemma lc_run_simps [simp]:
  "lc_run spec [] = lc_initial spec"
  "lc_run spec (pkts @ [(fm, d)]) = lc_advance spec fm (lc_run spec pkts) d"
  by (simp_all add: lc_run_def)

locale lifecycle =
  fixes spec :: lifecycle_spec and states :: "state_name set"
  assumes initial_in: "lc_initial spec \<in> states"
    and initial_open: "lc_initial spec \<notin> set (lc_closed_states spec)"
    and advance_in: "s \<in> states \<Longrightarrow> lc_advance spec fm s d \<in> states"
    and closed_final: "s \<in> set (lc_closed_states spec) \<Longrightarrow> lc_advance spec fm s d \<in> set (lc_closed_states spec)"
begin

lemma run_in: "lc_run spec pkts \<in> states"
  by (induction pkts rule: rev_induct) (auto intro: initial_in advance_in)

lemma closed_stays:
  "lc_run spec pkts \<in> set (lc_closed_states spec) \<Longrightarrow> lc_run spec (pkts @ later) \<in> set (lc_closed_states spec)"
proof (induction later rule: rev_induct)
  case (snoc x later)
  then show ?case using closed_final lc_run_simps(2)[of spec "pkts @ later" "fst x" "snd x"] by simp
qed simp

end

lemmas tcp_lifecycle_simps = tcp_lifecycle_def tcp_states_def advance_cases

interpretation tcp_life: lifecycle tcp_lifecycle tcp_states
  by unfold_locales (auto simp: tcp_lifecycle_simps split: option.split)

section \<open>SCTP\<close>

definition SCTP_COMMON_HEADER_LEN :: usize where "SCTP_COMMON_HEADER_LEN = 12"
definition CHUNK_HEADER_LEN :: usize where "CHUNK_HEADER_LEN = 4"
definition INIT_FIXED_LEN :: usize where "INIT_FIXED_LEN = 16"
definition TYPE_INIT :: u8 where "TYPE_INIT = 1"
definition TYPE_INIT_ACK :: u8 where "TYPE_INIT_ACK = 2"
definition TYPE_ABORT :: u8 where "TYPE_ABORT = 6"
definition TYPE_SHUTDOWN :: u8 where "TYPE_SHUTDOWN = 7"
definition TYPE_SHUTDOWN_ACK :: u8 where "TYPE_SHUTDOWN_ACK = 8"
definition TYPE_COOKIE_ECHO :: u8 where "TYPE_COOKIE_ECHO = 10"
definition TYPE_COOKIE_ACK :: u8 where "TYPE_COOKIE_ACK = 11"
definition TYPE_SHUTDOWN_COMPLETE :: u8 where "TYPE_SHUTDOWN_COMPLETE = 14"

definition sctp_advance :: "field_map \<Rightarrow> state_name \<Rightarrow> packet_direction \<Rightarrow> state_name" where
  "sctp_advance fm state dir =
    (case fm_get fm ''first_chunk_type'' of
       Some (U64 ct) \<Rightarrow>
        (let chunk_type = (if ct \<le> 255 then ucast ct else 255 :: u8) in
         if chunk_type = TYPE_ABORT then ''aborted''
         else if state = ''new'' \<and> chunk_type = TYPE_INIT then ''init_sent''
         else if state = ''new'' then ''established_midstream''
         else if state = ''init_sent'' \<and> chunk_type = TYPE_INIT_ACK then ''cookie_wait''
         else if state = ''cookie_wait'' \<and> chunk_type = TYPE_COOKIE_ECHO then ''cookie_echoed''
         else if state = ''cookie_echoed'' \<and> chunk_type = TYPE_COOKIE_ACK then ''established''
         else if (state = ''established'' \<or> state = ''established_midstream'') \<and> chunk_type = TYPE_SHUTDOWN then ''shutdown_pending''
         else if state = ''shutdown_pending'' \<and> (chunk_type = TYPE_SHUTDOWN_ACK \<or> chunk_type = TYPE_SHUTDOWN_COMPLETE) then ''closed''
         else state)
     | _ \<Rightarrow> state)"

definition sctp_lifecycle :: lifecycle_spec where
  "sctp_lifecycle = \<lparr>lc_initial = ''new'', lc_advance = sctp_advance, lc_closed_states = [''closed'', ''aborted'']\<rparr>"

definition sctp_identity :: stream_identity where
  "sctp_identity = \<lparr>si_key = [\<lparr>kf_a = ''src_port'', kf_b = Some ''dst_port''\<rparr>], si_canonicalize = EndpointSort,
     si_lifecycle = Some sctp_lifecycle, si_rollups = [rolled ''first_chunk_type'' Accumulate]\<rparr>"

type_synonym init_fixed = "u32 \<times> u32 \<times> u16 \<times> u16 \<times> u32"

definition sctp_init :: "u8 \<Rightarrow> byte list \<Rightarrow> parse_error + init_fixed option" where
  "sctp_init chunk_type v =
    (if chunk_type = TYPE_INIT \<or> chunk_type = TYPE_INIT_ACK then
       if length v < INIT_FIXED_LEN then Inl (Malformed ''INIT/INIT-ACK chunk shorter than its fixed fields'')
       else
       try_read (read_u32_be (new_reader v)) (\<lambda>initiate_tag r.
       try_read (read_u32_be r) (\<lambda>a_rwnd r.
       try_read (read_u16_be r) (\<lambda>num_outbound r.
       try_read (read_u16_be r) (\<lambda>num_inbound r.
       try_read (read_u32_be r) (\<lambda>initial_tsn r.
       Inr (Some (initiate_tag, a_rwnd, num_outbound, num_inbound, initial_tsn)))))))
     else Inr None)"

definition sctp_parse :: "byte list \<Rightarrow> parse_ctx \<Rightarrow> parse_error + parsed_layer" where
  "sctp_parse bytes ctx =
    (let r = new_reader bytes in
     try_read (read_u16_be r) (\<lambda>src_port r.
     try_read (read_u16_be r) (\<lambda>dst_port r.
     try_read (read_u32_be r) (\<lambda>verification_tag r.
     try_read (read_u32_be r) (\<lambda>_ r.
     try_read (read_u8 r) (\<lambda>chunk_type r.
     try_read (read_u8 r) (\<lambda>_ r.
     try_read (read_u16_be r) (\<lambda>chunk_length r.
     if unat chunk_length < CHUNK_HEADER_LEN then Inl (Malformed ''chunk length below the 4-byte chunk header'')
     else
     try_read (take_bytes r (unat chunk_length - CHUNK_HEADER_LEN)) (\<lambda>v r.
     and_then (sctp_init chunk_type v) (\<lambda>init_fixed.
     let fm = fm_new;
         fm = insert_at Keys (ctx_depth ctx) [(''src_port'', U64 (ucast src_port)), (''dst_port'', U64 (ucast dst_port))] fm;
         fm = insert_at Structural (ctx_depth ctx)
           [(''verification_tag'', U64 (ucast verification_tag)), (''first_chunk_type'', U64 (ucast chunk_type))] fm;
         fm = insert_at Full (ctx_depth ctx)
           (case init_fixed of
              Some (initiate_tag, a_rwnd, num_outbound, num_inbound, initial_tsn) \<Rightarrow>
                [(''initiate_tag'', U64 (ucast initiate_tag)), (''a_rwnd'', U64 (ucast a_rwnd)),
                 (''num_outbound_streams'', U64 (ucast num_outbound)), (''num_inbound_streams'', U64 (ucast num_inbound)),
                 (''initial_tsn'', U64 (ucast initial_tsn))]
            | None \<Rightarrow> []) fm
     in Inr \<lparr>pl_header_len = SCTP_COMMON_HEADER_LEN + unat chunk_length, pl_fields = fm, pl_hint = Terminal\<rparr>))))))))))"

definition sctp :: plugin where
  "sctp = (default_plugin ''sctp'' sctp_parse)
     \<lparr>pg_claims := [IpProtocol 132], pg_expected_predecessors := [''ipv4'', ''ipv6''], pg_stream_identity := Some sctp_identity\<rparr>"

section \<open>BGP\<close>

definition MARKER_LEN :: usize where "MARKER_LEN = 16"
definition BGP_HEADER_LEN :: usize where "BGP_HEADER_LEN = 19"
definition BGP_MAX_LENGTH :: usize where "BGP_MAX_LENGTH = 4096"
definition TYPE_OPEN :: u8 where "TYPE_OPEN = 1"
definition TYPE_UPDATE :: u8 where "TYPE_UPDATE = 2"
definition BGP_VERSION_4 :: u8 where "BGP_VERSION_4 = 4"
definition ATTR_EXTENDED_LENGTH :: u8 where "ATTR_EXTENDED_LENGTH = 0x10"
definition ATTR_NEXT_HOP :: u8 where "ATTR_NEXT_HOP = 3"
definition ATTR_MP_REACH_NLRI :: u8 where "ATTR_MP_REACH_NLRI = 14"

definition bgp_identity :: stream_identity where
  "bgp_identity = keyed [''app''] [rolled ''msg_type'' Accumulate, rolled ''my_as'' Sample]"

text \<open>\<open>usize::div_ceil(8)\<close>.\<close>

definition prefix_bytes :: "u8 \<Rightarrow> usize" where
  "prefix_bytes bits = (unat bits + 7) div 8"

function prefix_walk :: "byte_reader \<Rightarrow> value_t list \<Rightarrow> parse_error + value_t list" where
  "prefix_walk r out =
    (if 0 < remaining r then
       try_read (read_u8 r) (\<lambda>prefix_len_bits r.
       if 4 < prefix_bytes prefix_len_bits then Inl (Malformed ''BGP: prefix length exceeds 32 bits'')
       else
       try_read (take_bytes r (prefix_bytes prefix_len_bits)) (\<lambda>addr r. prefix_walk r (out @ [Bytes (prefix_len_bits # addr)])))
     else Inr out)"
  by pat_completeness auto
termination by (relation "measure (\<lambda>(r, _). remaining r)") (auto dest!: read_shrink take_shrink)

declare prefix_walk.simps [simp del]

definition parse_prefix_list :: "byte list \<Rightarrow> parse_error + value_t list" where
  "parse_prefix_list bytes = prefix_walk (new_reader bytes) []"

definition mp_reach_next_hop :: "byte list \<Rightarrow> byte list option" where
  "mp_reach_next_hop v =
    ok_read (read_u16_be (new_reader v)) (\<lambda>_ r.
    ok_read (read_u8 r) (\<lambda>_ r.
    ok_read (read_u8 r) (\<lambda>nh_len r.
    ok_read (take_bytes r (unat nh_len)) (\<lambda>nh _. Some nh))))"

definition attr_header :: "byte_reader \<Rightarrow> parse_error + (u8 \<times> byte list) \<times> byte_reader" where
  "attr_header r =
    try_read (read_u8 r) (\<lambda>flags r.
    try_read (read_u8 r) (\<lambda>type_code r.
    and_then
      (if flags AND ATTR_EXTENDED_LENGTH \<noteq> 0 then try_read (read_u16_be r) (\<lambda>n r. Inr (unat n, r))
       else try_read (read_u8 r) (\<lambda>n r. Inr (unat n, r))) (\<lambda>(len, r).
    try_read (take_bytes r len) (\<lambda>v r. Inr ((type_code, v), r)))))"

lemma attr_header_shrink: "attr_header r = Inr (x, r') \<Longrightarrow> remaining r' < remaining r"
  unfolding attr_header_def
  by (auto simp: try_read_Inr and_then_Inr_iff split: if_splits dest!: read_shrink take_shrink)

function next_hop_walk :: "byte_reader \<Rightarrow> byte list option \<Rightarrow> parse_error + byte list option" where
  "next_hop_walk r next_hop =
    (if 0 < remaining r then
       and_then (attr_header r) (\<lambda>x.
       let type_code = fst (fst x); v = snd (fst x) in
       next_hop_walk (snd x)
         (if next_hop = None then
            if type_code = ATTR_NEXT_HOP then Some v else if type_code = ATTR_MP_REACH_NLRI then mp_reach_next_hop v else None
          else next_hop))
     else Inr next_hop)"
  by pat_completeness auto
termination by (relation "measure (\<lambda>(r, _). remaining r)") (auto dest: attr_header_shrink)

declare next_hop_walk.simps [simp del]

definition extract_next_hop :: "byte list \<Rightarrow> parse_error + byte list option" where
  "extract_next_hop bytes = next_hop_walk (new_reader bytes) None"

text \<open>What OPEN and UPDATE messages add at full depth.\<close>

definition bgp_open :: "byte list \<Rightarrow> parse_error + (field_name \<times> value_t) list" where
  "bgp_open body =
    try_read (read_u8 (new_reader body)) (\<lambda>version br.
    if version \<noteq> BGP_VERSION_4 then Inl (Malformed ''BGP: unsupported OPEN version'')
    else
    try_read (read_u16_be br) (\<lambda>as_num br.
    try_read (read_u16_be br) (\<lambda>ht br.
    try_read (take_bytes br 4) (\<lambda>identifier br.
    try_read (read_u8 br) (\<lambda>opt_parm_len br.
    try_read (take_bytes br (unat opt_parm_len)) (\<lambda>_ _.
    Inr [(''my_as'', U64 (ucast as_num)), (''hold_time'', U64 (ucast ht)), (''bgp_identifier'', Bytes identifier)]))))))"

definition bgp_update :: "byte list \<Rightarrow> parse_error + (field_name \<times> value_t) list" where
  "bgp_update body =
    try_read (read_u16_be (new_reader body)) (\<lambda>withdrawn_len br.
    try_read (take_bytes br (unat withdrawn_len)) (\<lambda>withdrawn_bytes br.
    and_then (parse_prefix_list withdrawn_bytes) (\<lambda>withdrawn_routes.
    try_read (read_u16_be br) (\<lambda>path_attr_len br.
    try_read (take_bytes br (unat path_attr_len)) (\<lambda>path_attrs br.
    and_then (extract_next_hop path_attrs) (\<lambda>next_hop.
    try_read (take_bytes br (remaining br)) (\<lambda>nlri_bytes _.
    and_then (parse_prefix_list nlri_bytes) (\<lambda>nlri.
    Inr ([(''withdrawn_routes'', VList withdrawn_routes), (''nlri'', VList nlri)] @
         opt_field ''next_hop'' (map_option Bytes next_hop))))))))))"

definition bgp_parse :: "byte list \<Rightarrow> parse_ctx \<Rightarrow> parse_error + parsed_layer" where
  "bgp_parse bytes ctx =
    (let r = new_reader bytes in
     try_read (take_bytes r MARKER_LEN) (\<lambda>_ r.
     try_read (read_u16_be r) (\<lambda>len r.
     try_read (read_u8 r) (\<lambda>msg_type r.
     if unat len < BGP_HEADER_LEN \<or> BGP_MAX_LENGTH < unat len then Inl (Malformed ''BGP: length out of range'')
     else
     try_read (take_bytes r (unat len - BGP_HEADER_LEN)) (\<lambda>body r.
     and_then (if msg_type = TYPE_OPEN then bgp_open body else if msg_type = TYPE_UPDATE then bgp_update body else Inr []) (\<lambda>extra.
     let fm = fm_new;
         fm = insert_at Keys (ctx_depth ctx) [(''app'', Str ''bgp'')] fm;
         fm = insert_at Structural (ctx_depth ctx) [(''msg_type'', U64 (ucast msg_type)), (''length'', U64 (ucast len))] fm;
         fm = insert_at Full (ctx_depth ctx) extra fm
     in Inr \<lparr>pl_header_len = unat len, pl_fields = fm, pl_hint = Terminal\<rparr>))))))"

definition bgp :: plugin where
  "bgp = (default_plugin ''bgp'' bgp_parse)\<lparr>pg_claims := [TcpPort 179], pg_stream_identity := Some bgp_identity\<rparr>"

section \<open>GTP control plane\<close>

definition GTPC_VERSION_MASK :: u8 where "GTPC_VERSION_MASK = 0xE0"
definition GTPC_VERSION_SHIFT :: nat where "GTPC_VERSION_SHIFT = 5"
definition V1_PT_BIT :: u8 where "V1_PT_BIT = 0x10"
definition V1_E_BIT :: u8 where "V1_E_BIT = 0x04"
definition V1_S_BIT :: u8 where "V1_S_BIT = 0x02"
definition V1_PN_BIT :: u8 where "V1_PN_BIT = 0x01"
definition V2_T_BIT :: u8 where "V2_T_BIT = 0x08"
definition V1_IMSI_TYPE :: u8 where "V1_IMSI_TYPE = 0x02"
definition V1_APN_TYPE :: u8 where "V1_APN_TYPE = 0x83"
definition V2_IMSI_TYPE :: u8 where "V2_IMSI_TYPE = 1"
definition V2_APN_TYPE :: u8 where "V2_APN_TYPE = 71"

definition V1_TV_LENGTHS :: "(u8 \<times> usize) list" where
  "V1_TV_LENGTHS = [(0x01, 1), (0x02, 8), (0x03, 6), (0x0E, 1), (0x0F, 1), (0x10, 4), (0x11, 4), (0x12, 5), (0x14, 1), (0x1A, 2)]"

definition nibbles_of :: "byte list \<Rightarrow> u8 list" where
  "nibbles_of bs = concat (map (\<lambda>b. [b AND 0x0F, drop_bit 4 b AND 0x0F]) bs)"

fun bcd_walk :: "u8 list \<Rightarrow> string \<Rightarrow> string option" where
  "bcd_walk [] ds = (if ds = [] then None else Some ds)"
| "bcd_walk (n # ns) ds =
    (if n = 0xF then (if ds = [] then None else Some ds)
     else if 9 < n then None
     else bcd_walk ns (ds @ [char_from (0x30 + n)]))"

definition decode_bcd_digits :: "byte list \<Rightarrow> string option" where
  "decode_bcd_digits bytes = bcd_walk (nibbles_of bytes) []"

function apn_walk :: "byte_reader \<Rightarrow> string list \<Rightarrow> string list option" where
  "apn_walk r labels =
    (if 0 < remaining r then
       ok_read (read_u8 r) (\<lambda>len r.
       ok_read (take_bytes r (unat len)) (\<lambda>l r.
       case from_utf8 l of None \<Rightarrow> None | Some s \<Rightarrow> apn_walk r (labels @ [s])))
     else Some labels)"
  by pat_completeness auto
termination by (relation "measure (\<lambda>(r, _). remaining r)") (auto dest!: read_shrink take_shrink)

declare apn_walk.simps [simp del]

fun join_dots :: "string list \<Rightarrow> string" where
  "join_dots [] = []"
| "join_dots [l] = l"
| "join_dots (l # ls) = l @ ''.'' @ join_dots ls"

definition decode_apn_labels :: "byte list \<Rightarrow> string option" where
  "decode_apn_labels bytes =
    Option.bind (apn_walk (new_reader bytes) []) (\<lambda>labels. if labels = [] then None else Some (join_dots labels))"

type_synonym gtp_ids = "string option \<times> string option"

definition v1_ie :: "byte_reader \<Rightarrow> ((u8 \<times> byte list) \<times> byte_reader) option" where
  "v1_ie r =
    ok_read (read_u8 r) (\<lambda>ty r.
    if ty < 0x80 then
      (case List.find (\<lambda>p. fst p = ty) V1_TV_LENGTHS of
         None \<Rightarrow> None
       | Some p \<Rightarrow> ok_read (take_bytes r (snd p)) (\<lambda>v r. Some ((ty, v), r)))
    else ok_read (read_u16_be r) (\<lambda>len r. ok_read (take_bytes r (unat len)) (\<lambda>v r. Some ((ty, v), r))))"

definition v2_ie :: "byte_reader \<Rightarrow> ((u8 \<times> byte list) \<times> byte_reader) option" where
  "v2_ie r =
    ok_read (read_u8 r) (\<lambda>ty r.
    ok_read (read_u16_be r) (\<lambda>len r.
    ok_read (read_u8 r) (\<lambda>_ r.
    ok_read (take_bytes r (unat len)) (\<lambda>v r. Some ((ty, v), r)))))"

lemma ie_shrink:
  "v1_ie r = Some (x, r') \<Longrightarrow> remaining r' < remaining r"
  "v2_ie r = Some (x, r') \<Longrightarrow> remaining r' < remaining r"
  unfolding v1_ie_def v2_ie_def
  by (auto simp: ok_read_Some split: if_splits option.splits dest!: read_shrink take_shrink)

function v1_walk :: "byte_reader \<Rightarrow> gtp_ids \<Rightarrow> gtp_ids" where
  "v1_walk r ids =
    (if 0 < remaining r then
       (case v1_ie r of
          None \<Rightarrow> ids
        | Some x \<Rightarrow>
           v1_walk (snd x)
             (if fst (fst x) = V1_IMSI_TYPE then (decode_bcd_digits (snd (fst x)), snd ids)
              else if fst (fst x) = V1_APN_TYPE then (fst ids, decode_apn_labels (snd (fst x)))
              else ids))
     else ids)"
  by pat_completeness auto
termination by (relation "measure (\<lambda>(r, _). remaining r)") (auto dest: ie_shrink)

function v2_walk :: "byte_reader \<Rightarrow> gtp_ids \<Rightarrow> gtp_ids" where
  "v2_walk r ids =
    (if 0 < remaining r then
       (case v2_ie r of
          None \<Rightarrow> ids
        | Some x \<Rightarrow>
           v2_walk (snd x)
             (if fst (fst x) = V2_IMSI_TYPE then (decode_bcd_digits (snd (fst x)), snd ids)
              else if fst (fst x) = V2_APN_TYPE then (fst ids, decode_apn_labels (snd (fst x)))
              else ids))
     else ids)"
  by pat_completeness auto
termination by (relation "measure (\<lambda>(r, _). remaining r)") (auto dest: ie_shrink)

declare v1_walk.simps [simp del] v2_walk.simps [simp del]

definition walk_v1_ies :: "byte list \<Rightarrow> gtp_ids" where "walk_v1_ies ies = v1_walk (new_reader ies) (None, None)"
definition walk_v2_ies :: "byte list \<Rightarrow> gtp_ids" where "walk_v2_ies ies = v2_walk (new_reader ies) (None, None)"

definition gtp_c_identity :: stream_identity where
  "gtp_c_identity = keyed [''teid''] [rolled ''message_type'' Accumulate]"

text \<open>The fixed part of each version: tunnel endpoint, message type, length, start of the elements, and the reader there.\<close>

definition gtp_c_fixed :: "u8 \<Rightarrow> u8 \<Rightarrow> byte_reader \<Rightarrow> parse_error + (u32 \<times> u8 \<times> u16 \<times> usize) \<times> byte_reader" where
  "gtp_c_fixed flags version r =
    (if version = 1 then
       if flags AND V1_PT_BIT = 0 then Inl (Malformed ''GTPv1-C: PT bit selects GTP', not GTP'')
       else
       try_read (read_u8 r) (\<lambda>message_type r.
       try_read (read_u16_be r) (\<lambda>len r.
       try_read (read_u32_be r) (\<lambda>teid r.
       if flags AND (V1_E_BIT OR V1_S_BIT OR V1_PN_BIT) \<noteq> 0 then
         try_read (take_bytes r 4) (\<lambda>_ r. Inr ((teid, message_type, len, 12), r))
       else Inr ((teid, message_type, len, 8), r))))
     else if version = 2 then
       try_read (read_u8 r) (\<lambda>message_type r.
       try_read (read_u16_be r) (\<lambda>len r.
       if flags AND V2_T_BIT \<noteq> 0 then
         try_read (read_u32_be r) (\<lambda>teid r. try_read (take_bytes r 4) (\<lambda>_ r. Inr ((teid, message_type, len, 12), r)))
       else try_read (take_bytes r 4) (\<lambda>_ r. Inr ((0, message_type, len, 8), r))))
     else Inl (Malformed ''unsupported GTP-C version''))"

definition gtp_c_parse :: "byte list \<Rightarrow> parse_ctx \<Rightarrow> parse_error + parsed_layer" where
  "gtp_c_parse bytes ctx =
    (let r = new_reader bytes in
     try_read (read_u8 r) (\<lambda>flags r.
     let version = drop_bit GTPC_VERSION_SHIFT (flags AND GTPC_VERSION_MASK) in
     and_then (gtp_c_fixed flags version r) (\<lambda>((teid, message_type, len, ie_start), r).
     let fixed_prefix_len = (if version = 1 then 8 else 4); header_len = fixed_prefix_len + unat len in
     if header_len < ie_start then Inl (Malformed ''GTP-C length shorter than the header it must contain'')
     else
     try_read (take_bytes r (header_len - ie_start)) (\<lambda>ies r.
     let fm = fm_new;
         fm = insert_at Keys (ctx_depth ctx) [(''teid'', U64 (ucast teid))] fm;
         fm = insert_at Structural (ctx_depth ctx)
           [(''version'', U64 (ucast version)), (''message_type'', U64 (ucast message_type)), (''length'', U64 (ucast len))] fm;
         (imsi, apn) = (if version = 1 then walk_v1_ies ies else walk_v2_ies ies);
         fm = insert_at Full (ctx_depth ctx) (opt_field ''imsi'' (map_option Str imsi) @ opt_field ''apn'' (map_option Str apn)) fm
     in Inr \<lparr>pl_header_len = header_len, pl_fields = fm, pl_hint = Terminal\<rparr>))))"

definition gtp_c :: plugin where
  "gtp_c = (default_plugin ''gtp_c'' gtp_c_parse)\<lparr>pg_claims := [UdpPort 2123], pg_stream_identity := Some gtp_c_identity\<rparr>"

section \<open>The contract\<close>

interpretation sctp: layer_plugin sctp
  by (rule layer_pluginI)
    (auto simp: sctp_def sctp_parse_def sctp_identity_def key_names_def SCTP_COMMON_HEADER_LEN_def CHUNK_HEADER_LEN_def plugin_simps fits_def fm_new_def
      intro!: gives_intros)

interpretation bgp: layer_plugin bgp
  by (rule layer_pluginI)
    (auto simp: bgp_def bgp_parse_def bgp_identity_def BGP_HEADER_LEN_def MARKER_LEN_def plugin_simps fits_def fm_new_def intro!: gives_intros)

lemma gtp_c_fixed_len:
  "gtp_c_fixed flags v r = Inr ((t, m, n, k), r') \<Longrightarrow> rpos r = 1 \<Longrightarrow> rbuf r' = rbuf r \<and> rpos r' = k"
  by (auto simp: gtp_c_fixed_def reader_simps split: if_splits)

interpretation gtp_c: layer_plugin gtp_c
  by (rule layer_pluginI)
    (auto simp: gtp_c_def gtp_c_parse_def gtp_c_identity_def plugin_simps fits_def fm_new_def
      intro!: gives_intros dest!: gtp_c_fixed_len)

section \<open>The association lifecycle\<close>

definition sctp_states :: "state_name set" where
  "sctp_states = {''new'', ''init_sent'', ''established_midstream'', ''cookie_wait'', ''cookie_echoed'', ''established'',
     ''shutdown_pending'', ''closed'', ''aborted''}"

text \<open>The chunk type a packet's fields report, and the chunks each state of the handshake has seen.\<close>

definition chunk_of :: "field_map \<Rightarrow> u8 option" where
  "chunk_of fm = (case fm_get fm ''first_chunk_type'' of Some (U64 ct) \<Rightarrow> Some (if ct \<le> 255 then ucast ct else 255) | _ \<Rightarrow> None)"

lemma sctp_advance_cases:
  "sctp_advance fm s d =
    (case chunk_of fm of
       None \<Rightarrow> s
     | Some c \<Rightarrow>
        if c = TYPE_ABORT then ''aborted''
        else if s = ''new'' \<and> c = TYPE_INIT then ''init_sent''
        else if s = ''new'' then ''established_midstream''
        else if s = ''init_sent'' \<and> c = TYPE_INIT_ACK then ''cookie_wait''
        else if s = ''cookie_wait'' \<and> c = TYPE_COOKIE_ECHO then ''cookie_echoed''
        else if s = ''cookie_echoed'' \<and> c = TYPE_COOKIE_ACK then ''established''
        else if (s = ''established'' \<or> s = ''established_midstream'') \<and> c = TYPE_SHUTDOWN then ''shutdown_pending''
        else if s = ''shutdown_pending'' \<and> (c = TYPE_SHUTDOWN_ACK \<or> c = TYPE_SHUTDOWN_COMPLETE) then ''closed''
        else s)"
  unfolding sctp_advance_def chunk_of_def Let_def
  by (cases "fm_get fm ''first_chunk_type''"; cases "the (fm_get fm ''first_chunk_type'')") (simp_all split del: if_split)

interpretation sctp_life: lifecycle sctp_lifecycle sctp_states
  by unfold_locales (auto simp: sctp_lifecycle_def sctp_states_def sctp_advance_cases split: option.split)

definition chunks_seen :: "(field_map \<times> packet_direction) list \<Rightarrow> u8 list" where
  "chunks_seen pkts = List.map_filter (\<lambda>x. chunk_of (fst x)) pkts"

definition handshake_of :: "state_name \<Rightarrow> u8 list" where
  "handshake_of s =
    (if s = ''init_sent'' then [TYPE_INIT] else if s = ''cookie_wait'' then [TYPE_INIT, TYPE_INIT_ACK]
     else if s = ''cookie_echoed'' then [TYPE_INIT, TYPE_INIT_ACK, TYPE_COOKIE_ECHO]
     else if s = ''established'' then [TYPE_INIT, TYPE_INIT_ACK, TYPE_COOKIE_ECHO, TYPE_COOKIE_ACK] else [])"

lemma chunks_seen_snoc: "chunks_seen (pkts @ [(fm, d)]) = chunks_seen pkts @ (case chunk_of fm of Some c \<Rightarrow> [c] | None \<Rightarrow> [])"
  by (simp add: chunks_seen_def map_filter_def split: option.split)

lemma handshake_states:
  "handshake_of ''new'' = []" "handshake_of ''aborted'' = []" "handshake_of ''closed'' = []"
  "handshake_of ''shutdown_pending'' = []" "handshake_of ''established_midstream'' = []"
  "handshake_of ''init_sent'' = [TYPE_INIT]" "handshake_of ''cookie_wait'' = [TYPE_INIT, TYPE_INIT_ACK]"
  "handshake_of ''cookie_echoed'' = [TYPE_INIT, TYPE_INIT_ACK, TYPE_COOKIE_ECHO]"
  "handshake_of ''established'' = [TYPE_INIT, TYPE_INIT_ACK, TYPE_COOKIE_ECHO, TYPE_COOKIE_ACK]"
  by (simp_all add: handshake_of_def)

lemma handshake_step:
  "handshake_of (sctp_advance fm s d) = handshake_of s \<or> handshake_of (sctp_advance fm s d) = [] \<or>
   (\<exists>c. chunk_of fm = Some c \<and> handshake_of (sctp_advance fm s d) = handshake_of s @ [c])"
  by (cases "chunk_of fm") (auto simp: sctp_advance_cases handshake_states)

lemma handshake_seen: "subseq (handshake_of (lc_run sctp_lifecycle pkts)) (chunks_seen pkts)"
proof (induction pkts rule: rev_induct)
  case Nil
  then show ?case by (simp add: sctp_lifecycle_def handshake_of_def)
next
  case (snoc x pkts)
  obtain fm d where x: "x = (fm, d)" by fastforce
  let ?s = "lc_run sctp_lifecycle pkts"
  have step: "lc_run sctp_lifecycle (pkts @ [(fm, d)]) = sctp_advance fm ?s d" by (simp add: sctp_lifecycle_def)
  consider "handshake_of (sctp_advance fm ?s d) = handshake_of ?s" | "handshake_of (sctp_advance fm ?s d) = []"
    | c where "chunk_of fm = Some c" "handshake_of (sctp_advance fm ?s d) = handshake_of ?s @ [c]"
    using handshake_step[of fm ?s d] by blast
  then show ?case
    using snoc unfolding x step chunks_seen_snoc
    by cases (auto intro: subseq_snoc subseq_more split: option.split)
qed

text \<open>No established association without its handshake: an SCTP stream in state \<open>established\<close> has
  seen, in this order, an INIT, an INIT ACK, a COOKIE ECHO and a COOKIE ACK chunk.\<close>

theorem sctp_established_needs_handshake:
  assumes "lc_run sctp_lifecycle pkts = ''established''"
  shows "subseq [TYPE_INIT, TYPE_INIT_ACK, TYPE_COOKIE_ECHO, TYPE_COOKIE_ACK] (chunks_seen pkts)"
  using handshake_seen[of pkts] assms by (simp add: handshake_of_def)

definition chunk_packet :: "u64 \<Rightarrow> field_map \<times> packet_direction" where
  "chunk_packet c = ([(''first_chunk_type'', U64 c)], AtoB)"

lemma chunk_session: "lc_run sctp_lifecycle [chunk_packet 1, chunk_packet 2, chunk_packet 10, chunk_packet 11] = ''established''"
  by (simp add: lc_run_def sctp_lifecycle_def sctp_advance_def chunk_packet_def Let_def TYPE_ABORT_def TYPE_INIT_def
      TYPE_INIT_ACK_def TYPE_COOKIE_ECHO_def TYPE_COOKIE_ACK_def)

theorem sctp_established_needs_handshake_witness:
  "subseq [TYPE_INIT, TYPE_INIT_ACK, TYPE_COOKIE_ECHO, TYPE_COOKIE_ACK]
    (chunks_seen [chunk_packet 1, chunk_packet 2, chunk_packet 10, chunk_packet 11])"
  by (rule sctp_established_needs_handshake[OF chunk_session])

text \<open>A closed association stays closed, whatever packets follow.\<close>

theorem sctp_closed_final:
  assumes "lc_run sctp_lifecycle pkts \<in> set (lc_closed_states sctp_lifecycle)"
  shows "lc_run sctp_lifecycle (pkts @ later) \<in> set (lc_closed_states sctp_lifecycle)"
  by (rule sctp_life.closed_stays[OF assms])

end
