(* ===== verification/Export.thy ===== *)
theory Export
  imports Walking
begin

text \<open>
  The flow export plugins of \<open>pktflow-plugins/src\<close>: \<open>netflow9.rs\<close> and \<open>ipfix.rs\<close>. Both walk a message
  of length-prefixed sets and decode the template sets among them; the sets read back from any
  well-formed message.
\<close>

section \<open>NetFlow version 9\<close>

definition TEMPLATE_FLOWSET_ID :: u16 where "TEMPLATE_FLOWSET_ID = 0"

definition netflow9_identity :: stream_identity where
  "netflow9_identity = keyed [''app''] [rolled ''source_id'' Accumulate]"

definition read_pair16 :: "byte_reader \<Rightarrow> truncated + (u16 \<times> u16) \<times> byte_reader" where
  "read_pair16 r = and_then (read_u16_be r) (\<lambda>(a, r). and_then (read_u16_be r) (\<lambda>(b, r). Inr ((a, b), r)))"

definition template_record :: "u16 \<Rightarrow> u16 \<Rightarrow> value_t list \<Rightarrow> value_t" where
  "template_record template_id field_count field_defs = VList [U64 (ucast template_id), U64 (ucast field_count), VList field_defs]"

text \<open>One template record; \<open>defs\<close> reads the definitions of a given number of fields.\<close>

definition read_template :: "(nat \<Rightarrow> byte_reader \<Rightarrow> parse_error + value_t list \<times> byte_reader) \<Rightarrow> byte_reader \<Rightarrow>
    parse_error + value_t \<times> byte_reader" where
  "read_template defs r =
    try_read (read_u16_be r) (\<lambda>template_id r.
    try_read (read_u16_be r) (\<lambda>field_count r.
    and_then (defs (unat field_count) r) (\<lambda>(field_defs, r).
    Inr (template_record template_id field_count field_defs, r))))"

definition netflow_fields :: "nat \<Rightarrow> byte_reader \<Rightarrow> parse_error + value_t list \<times> byte_reader" where
  "netflow_fields n r =
    and_then (read_times n read_pair16 r) (\<lambda>(ps, r).
    Inr (concat (map (\<lambda>(t, l). [U64 (ucast t), U64 (ucast l)]) ps), r))"

lemma read_times_keeps:
  assumes "\<And>r v r'. f r = Inr (v, r') \<Longrightarrow> remaining r' \<le> remaining r"
  shows "read_times n f r = Inr (vs, r') \<Longrightarrow> remaining r' \<le> remaining r"
proof (induction n arbitrary: r vs)
  case (Suc n)
  then show ?case by (fastforce simp: try_read_Inr and_then_Inr_iff dest!: assms dest: order_trans)
qed simp

lemma read_pair16_keeps: "read_pair16 r = Inr (v, r') \<Longrightarrow> remaining r' \<le> remaining r"
  unfolding read_pair16_def by (fastforce simp: and_then_Inr_iff dest!: read_shrink)

lemma netflow_fields_keeps: "netflow_fields n r = Inr (v, r') \<Longrightarrow> remaining r' \<le> remaining r"
  unfolding netflow_fields_def by (auto simp: and_then_Inr_iff dest!: read_times_keeps[OF read_pair16_keeps, rotated])

lemma read_template_shrink:
  assumes "\<And>n r v r'. f n r = Inr (v, r') \<Longrightarrow> remaining r' \<le> remaining r"
  shows "read_template f r = Inr (v, r') \<Longrightarrow> remaining r' < remaining r"
  unfolding read_template_def by (fastforce simp: try_read_Inr and_then_Inr_iff dest!: read_shrink assms)

function netflow_templates :: "byte_reader \<Rightarrow> value_t list \<Rightarrow> parse_error + value_t list" where
  "netflow_templates r records =
    (if 4 \<le> remaining r then
       and_then (read_template netflow_fields r) (\<lambda>x. netflow_templates (snd x) (records @ [fst x]))
     else Inr records)"
  by pat_completeness auto
termination
  by (relation "measure (\<lambda>(r, _). remaining r)") (auto intro: read_template_shrink[where f = netflow_fields, OF netflow_fields_keeps])

declare netflow_templates.simps [simp del]

definition netflow_decode_template_records :: "byte list \<Rightarrow> parse_error + value_t list" where
  "netflow_decode_template_records body = netflow_templates (new_reader body) []"

definition set_entry :: "u16 \<Rightarrow> u16 \<Rightarrow> value_t \<Rightarrow> value_t" where
  "set_entry set_id len payload = VList [U64 (ucast set_id), U64 (ucast len), payload]"

text \<open>One set: its identifier, its length with the four bytes of its header, and its body.\<close>

definition read_set :: "string \<Rightarrow> byte_reader \<Rightarrow> parse_error + (u16 \<times> u16 \<times> byte list) \<times> byte_reader" where
  "read_set short r =
    try_read (read_u16_be r) (\<lambda>set_id r.
    try_read (read_u16_be r) (\<lambda>len r.
    if unat len < 4 then Inl (Malformed short)
    else try_read (take_bytes r (unat len - 4)) (\<lambda>body r. Inr ((set_id, len, body), r))))"

lemma read_set_shrink: "read_set m r = Inr (x, r') \<Longrightarrow> remaining r' < remaining r"
  unfolding read_set_def by (auto simp: try_read_Inr split: if_splits dest!: read_shrink take_shrink)

function netflow_sets :: "byte_reader \<Rightarrow> value_t list \<Rightarrow> parse_error + value_t list" where
  "netflow_sets r flowsets =
    (if 4 \<le> remaining r then
       and_then (read_set ''NetFlow: FlowSet length under 4'' r) (\<lambda>x.
       let flowset_id = fst (fst x); len = fst (snd (fst x)); body = snd (snd (fst x)) in
       and_then
         (if flowset_id = TEMPLATE_FLOWSET_ID then and_then (netflow_decode_template_records body) (\<lambda>ts. Inr (VList ts))
          else Inr (Bytes body)) (\<lambda>payload.
       netflow_sets (snd x) (flowsets @ [set_entry flowset_id len payload])))
     else Inr flowsets)"
  by pat_completeness auto
termination by (relation "measure (\<lambda>(r, _). remaining r)") (auto dest: read_set_shrink)

declare netflow_sets.simps [simp del]

definition netflow9_parse :: "byte list \<Rightarrow> parse_ctx \<Rightarrow> parse_error + parsed_layer" where
  "netflow9_parse bytes ctx =
    (let r = new_reader bytes in
     try_read (read_u16_be r) (\<lambda>version r.
     if version \<noteq> 9 then Inl (Malformed ''NetFlow: version is not 9'')
     else
     try_read (read_u16_be r) (\<lambda>cnt r.
     try_read (read_u32_be r) (\<lambda>_ r.
     try_read (read_u32_be r) (\<lambda>_ r.
     try_read (read_u32_be r) (\<lambda>seq_no r.
     try_read (read_u32_be r) (\<lambda>source_id r.
     let header_len = consumed bytes r in
     and_then (netflow_sets r []) (\<lambda>flowsets.
     let fm = fm_new;
         fm = insert_at Keys (ctx_depth ctx) [(''app'', Str ''netflow9'')] fm;
         fm = insert_at Structural (ctx_depth ctx)
           [(''version'', U64 (ucast version)), (''count'', U64 (ucast cnt)), (''sequence'', U64 (ucast seq_no)),
            (''source_id'', U64 (ucast source_id))] fm;
         fm = insert_at Full (ctx_depth ctx) [(''flowsets'', VList flowsets)] fm
     in Inr \<lparr>pl_header_len = header_len, pl_fields = fm, pl_hint = Terminal\<rparr>))))))))"

definition netflow9 :: plugin where
  "netflow9 = (default_plugin ''netflow9'' netflow9_parse)\<lparr>pg_claims := [UdpPort 2055], pg_stream_identity := Some netflow9_identity\<rparr>"

section \<open>IPFIX\<close>

definition IPFIX_HEADER_LEN :: usize where "IPFIX_HEADER_LEN = 16"
definition TEMPLATE_SET_ID :: u16 where "TEMPLATE_SET_ID = 2"
definition ENTERPRISE_BIT :: u16 where "ENTERPRISE_BIT = 0x8000"

definition ipfix_identity :: stream_identity where
  "ipfix_identity = keyed [''app''] [rolled ''domain_id'' Accumulate]"

definition read_ie :: "byte_reader \<Rightarrow> truncated + value_t \<times> byte_reader" where
  "read_ie r =
    and_then (read_u16_be r) (\<lambda>(raw_ie_id, r).
    and_then (read_u16_be r) (\<lambda>(field_length, r).
    and_then
      (if raw_ie_id AND ENTERPRISE_BIT \<noteq> 0 then
         and_then (read_u32_be r) (\<lambda>(n, r). Inr ((raw_ie_id AND NOT ENTERPRISE_BIT, n), r))
       else Inr ((raw_ie_id, 0), r)) (\<lambda>((ie_id, enterprise_number), r).
    Inr (VList [U64 (ucast ie_id), U64 (ucast field_length), U64 (ucast enterprise_number)], r))))"

definition ipfix_fields :: "nat \<Rightarrow> byte_reader \<Rightarrow> parse_error + value_t list \<times> byte_reader" where
  "ipfix_fields n r = read_times n read_ie r"

lemma read_ie_keeps: "read_ie r = Inr (v, r') \<Longrightarrow> remaining r' \<le> remaining r"
  unfolding read_ie_def by (fastforce simp: and_then_Inr_iff split: if_splits dest!: read_shrink)

lemma ipfix_fields_keeps: "ipfix_fields n r = Inr (v, r') \<Longrightarrow> remaining r' \<le> remaining r"
  unfolding ipfix_fields_def by (rule read_times_keeps[OF read_ie_keeps])

function ipfix_templates :: "byte_reader \<Rightarrow> value_t list \<Rightarrow> parse_error + value_t list" where
  "ipfix_templates r records =
    (if 4 \<le> remaining r then
       and_then (read_template ipfix_fields r) (\<lambda>x. ipfix_templates (snd x) (records @ [fst x]))
     else Inr records)"
  by pat_completeness auto
termination
  by (relation "measure (\<lambda>(r, _). remaining r)") (auto intro: read_template_shrink[where f = ipfix_fields, OF ipfix_fields_keeps])

declare ipfix_templates.simps [simp del]

definition ipfix_decode_template_records :: "byte list \<Rightarrow> parse_error + value_t list" where
  "ipfix_decode_template_records body = ipfix_templates (new_reader body) []"

function ipfix_sets :: "byte_reader \<Rightarrow> value_t list \<Rightarrow> parse_error + value_t list" where
  "ipfix_sets sr sets =
    (if 4 \<le> remaining sr then
       and_then (read_set ''IPFIX: Set length under 4'' sr) (\<lambda>x.
       let set_id = fst (fst x); len = fst (snd (fst x)); body = snd (snd (fst x)) in
       and_then
         (if set_id = TEMPLATE_SET_ID then and_then (ipfix_decode_template_records body) (\<lambda>ts. Inr (VList ts))
          else Inr (Bytes body)) (\<lambda>payload.
       ipfix_sets (snd x) (sets @ [set_entry set_id len payload])))
     else Inr sets)"
  by pat_completeness auto
termination by (relation "measure (\<lambda>(r, _). remaining r)") (auto dest: read_set_shrink)

declare ipfix_sets.simps [simp del]

definition ipfix_parse :: "byte list \<Rightarrow> parse_ctx \<Rightarrow> parse_error + parsed_layer" where
  "ipfix_parse bytes ctx =
    (let r = new_reader bytes in
     try_read (read_u16_be r) (\<lambda>version r.
     if version \<noteq> 10 then Inl (Malformed ''IPFIX: version is not 10'')
     else
     try_read (read_u16_be r) (\<lambda>len r.
     try_read (read_u32_be r) (\<lambda>_ r.
     try_read (read_u32_be r) (\<lambda>seq_no r.
     try_read (read_u32_be r) (\<lambda>domain_id r.
     if unat len < IPFIX_HEADER_LEN then Inl (Malformed ''IPFIX: length below fixed header'')
     else
     try_read (take_bytes r (unat len - IPFIX_HEADER_LEN)) (\<lambda>body r.
     and_then (ipfix_sets (new_reader body) []) (\<lambda>sets.
     let fm = fm_new;
         fm = insert_at Keys (ctx_depth ctx) [(''app'', Str ''ipfix'')] fm;
         fm = insert_at Structural (ctx_depth ctx)
           [(''version'', U64 (ucast version)), (''length'', U64 (ucast len)), (''sequence'', U64 (ucast seq_no)),
            (''domain_id'', U64 (ucast domain_id))] fm;
         fm = insert_at Full (ctx_depth ctx) [(''sets'', VList sets)] fm
     in Inr \<lparr>pl_header_len = unat len, pl_fields = fm, pl_hint = Terminal\<rparr>))))))))"

definition ipfix :: plugin where
  "ipfix = (default_plugin ''ipfix'' ipfix_parse)\<lparr>pg_claims := [UdpPort 4739], pg_stream_identity := Some ipfix_identity\<rparr>"

section \<open>The contract\<close>

interpretation netflow9: layer_plugin netflow9
  by (rule layer_pluginI)
    (auto simp: netflow9_def netflow9_parse_def netflow9_identity_def plugin_simps fm_new_def intro!: gives_intros)

interpretation ipfix: layer_plugin ipfix
  by (rule layer_pluginI)
    (auto simp: ipfix_def ipfix_parse_def ipfix_identity_def IPFIX_HEADER_LEN_def plugin_simps fits_def fm_new_def intro!: gives_intros)

end
