(* ===== verification/Engine.thy ===== *)
theory Engine
  imports Plugin
begin

text \<open>
  \<open>pktflow-core/src/engine.rs\<close>: the registry builder with its build-time validation and the
  immutable engine it produces. The main results: \<open>build\<close> succeeds exactly on the registries
  that satisfy the declarative condition \<open>registry_ok\<close>, and the route table of a built engine
  is the one of the specification \<open>spec_route\<close> (last manual override, else unrouted, else the
  unique claimer).
\<close>

datatype registry_error =
    DuplicateName protocol_name
  | ClaimCollision route_id protocol_name protocol_name
  | DanglingOverride route_id protocol_name
  | InvalidIdentity protocol_name string

record engine_builder =
  eb_plugins :: "plugin list"
  eb_overrides :: "(route_id \<times> protocol_name) list"
  eb_unroutes :: "route_id list"

definition builder_new :: engine_builder where
  "builder_new = \<lparr>eb_plugins = [], eb_overrides = [], eb_unroutes = []\<rparr>"

definition add_plugin :: "plugin \<Rightarrow> engine_builder \<Rightarrow> engine_builder" where
  "add_plugin p b = b\<lparr>eb_plugins := eb_plugins b @ [p]\<rparr>"

definition add_route :: "route_id \<Rightarrow> protocol_name \<Rightarrow> engine_builder \<Rightarrow> engine_builder" where
  "add_route i n b = b\<lparr>eb_overrides := eb_overrides b @ [(i, n)]\<rparr>"

definition add_unroute :: "route_id \<Rightarrow> engine_builder \<Rightarrow> engine_builder" where
  "add_unroute i b = b\<lparr>eb_unroutes := eb_unroutes b @ [i]\<rparr>"

record engine =
  en_plugins :: "plugin list"
  en_by_name :: "protocol_name \<rightharpoonup> nat"
  en_routes :: "route_id \<rightharpoonup> nat"
  en_fallback_pool :: "nat list"

text \<open>Step 1: duplicate plugin names.\<close>

fun build_names :: "plugin list \<Rightarrow> nat \<Rightarrow> (protocol_name \<rightharpoonup> nat) \<Rightarrow> registry_error + (protocol_name \<rightharpoonup> nat)" where
  "build_names [] idx m = Inr m"
| "build_names (p # ps) idx m =
    (if m (pg_name p) \<noteq> None then Inl (DuplicateName (pg_name p))
     else build_names ps (Suc idx) (m(pg_name p \<mapsto> idx)))"

text \<open>Step 2: install the claims in registration order, recording collisions.\<close>

type_synonym collisions = "(route_id \<times> nat \<times> nat) list"
type_synonym route_state = "(route_id \<rightharpoonup> nat) \<times> collisions"

definition install_claim :: "nat \<Rightarrow> route_id \<Rightarrow> route_state \<Rightarrow> route_state" where
  "install_claim idx i s =
    (case s of (routes, coll) \<Rightarrow>
      (case routes i of
         Some other \<Rightarrow> (routes, coll @ [(i, other, idx)])
       | None \<Rightarrow> (routes(i \<mapsto> idx), coll)))"

fun install_claims :: "plugin list \<Rightarrow> nat \<Rightarrow> route_state \<Rightarrow> route_state" where
  "install_claims [] idx s = s"
| "install_claims (p # ps) idx s = install_claims ps (Suc idx) (fold (install_claim idx) (pg_claims p) s)"

definition settle :: "route_id \<Rightarrow> collisions \<Rightarrow> collisions" where
  "settle i coll = filter (\<lambda>(c, _, _). c \<noteq> i) coll"

definition apply_unroute :: "route_id \<Rightarrow> route_state \<Rightarrow> route_state" where
  "apply_unroute i s = (case s of (routes, coll) \<Rightarrow> (routes(i := None), settle i coll))"

text \<open>Step 3: manual routes, in order; a dangling name is an error.\<close>

fun apply_overrides ::
  "(protocol_name \<rightharpoonup> nat) \<Rightarrow> (route_id \<times> protocol_name) list \<Rightarrow> route_state \<Rightarrow> registry_error + route_state" where
  "apply_overrides by_name [] s = Inr s"
| "apply_overrides by_name ((i, n) # os) s =
    (case by_name n of
       None \<Rightarrow> Inl (DanglingOverride i n)
     | Some idx \<Rightarrow> (case s of (routes, coll) \<Rightarrow>
         apply_overrides by_name os (routes(i \<mapsto> idx), settle i coll)))"

text \<open>Step 4: static sanity of the stream identities.\<close>

definition key_field_bad :: "key_field \<Rightarrow> bool" where
  "key_field_bad kf \<longleftrightarrow> kf_a kf = [] \<or> kf_b kf = Some []"

fun check_keys :: "protocol_name \<Rightarrow> key_field list \<Rightarrow> registry_error + unit" where
  "check_keys n [] = Inr ()"
| "check_keys n (kf # kfs) =
    (if key_field_bad kf then Inl (InvalidIdentity n ''empty key field name'') else check_keys n kfs)"

fun check_rollups :: "protocol_name \<Rightarrow> rollup_spec list \<Rightarrow> registry_error + unit" where
  "check_rollups n [] = Inr ()"
| "check_rollups n (r # rs) =
    (if rs_field r = [] then Inl (InvalidIdentity n ''empty rollup field name'')
     else if rs_kind r = Series 0 then Inl (InvalidIdentity n ''Series rollup cap must be nonzero'')
     else check_rollups n rs)"

fun check_identities :: "plugin list \<Rightarrow> registry_error + unit" where
  "check_identities [] = Inr ()"
| "check_identities (p # ps) =
    (case pg_stream_identity p of
       None \<Rightarrow> check_identities ps
     | Some si \<Rightarrow>
        and_then (check_keys (pg_name p) (si_key si)) (\<lambda>_.
        and_then (check_rollups (pg_name p) (si_rollups si)) (\<lambda>_.
        check_identities ps)))"

text \<open>Step 5: condensation declarations.\<close>

definition is_endpoint_sort :: "canonicalize \<Rightarrow> bool" where
  "is_endpoint_sort c = (case c of EndpointSort \<Rightarrow> True | CustomRule _ \<Rightarrow> False)"

definition pair_in_key :: "key_field \<Rightarrow> key_field list \<Rightarrow> bool" where
  "pair_in_key e kfs = list_ex (\<lambda>kf. kf_a kf = kf_a e \<and> kf_b kf = kf_b e) kfs"

fun check_condense :: "plugin list \<Rightarrow> registry_error + unit" where
  "check_condense [] = Inr ()"
| "check_condense (p # ps) =
    (case pg_condense p of
       None \<Rightarrow> check_condense ps
     | Some spec \<Rightarrow>
        (case pg_stream_identity p of
           None \<Rightarrow> Inl (InvalidIdentity (pg_name p) ''condense requires a stream identity'')
         | Some si \<Rightarrow>
            if \<not> is_endpoint_sort (si_canonicalize si) then
              Inl (InvalidIdentity (pg_name p) ''condense requires EndpointSort canonicalization'')
            else if \<not> pair_in_key (cs_ephemeral spec) (si_key si) \<or> kf_b (cs_ephemeral spec) = None then
              Inl (InvalidIdentity (pg_name p) ''condense ephemeral must be a paired key component'')
            else check_condense ps))"

definition build :: "engine_builder \<Rightarrow> registry_error + engine" where
  "build b =
    (let plugins = eb_plugins b in
     and_then (build_names plugins 0 Map.empty) (\<lambda>by_name.
     let s = install_claims plugins 0 (Map.empty, []);
         s = fold apply_unroute (eb_unroutes b) s in
     and_then (apply_overrides by_name (eb_overrides b) s) (\<lambda>(routes, coll).
     case coll of
       c # _ \<Rightarrow> (case c of (i, first, second) \<Rightarrow>
         Inl (ClaimCollision i (pg_name (plugins ! first)) (pg_name (plugins ! second))))
     | [] \<Rightarrow>
         and_then (check_identities plugins) (\<lambda>_.
         and_then (check_condense plugins) (\<lambda>_.
         Inr \<lparr>en_plugins = plugins, en_by_name = by_name, en_routes = routes,
           en_fallback_pool = filter (\<lambda>i. pg_has_probe (plugins ! i)) [0..<length plugins]\<rparr>)))))"

definition plugin_for_route :: "engine \<Rightarrow> route_id \<Rightarrow> plugin option" where
  "plugin_for_route e i = map_option (\<lambda>idx. en_plugins e ! idx) (en_routes e i)"

definition plugin_by_name :: "engine \<Rightarrow> protocol_name \<Rightarrow> plugin option" where
  "plugin_by_name e n = map_option (\<lambda>idx. en_plugins e ! idx) (en_by_name e n)"

definition fallback_pool :: "engine \<Rightarrow> plugin list" where
  "fallback_pool e = map (\<lambda>idx. en_plugins e ! idx) (en_fallback_pool e)"

section \<open>The declarative registry specification\<close>

definition manual :: "engine_builder \<Rightarrow> route_id set" where
  "manual b = set (eb_unroutes b) \<union> fst ` set (eb_overrides b)"

definition identity_ok :: "plugin \<Rightarrow> bool" where
  "identity_ok p = (case pg_stream_identity p of None \<Rightarrow> True | Some si \<Rightarrow>
     (\<forall>kf \<in> set (si_key si). \<not> key_field_bad kf) \<and>
     (\<forall>r \<in> set (si_rollups si). rs_field r \<noteq> [] \<and> rs_kind r \<noteq> Series 0))"

definition condense_ok :: "plugin \<Rightarrow> bool" where
  "condense_ok p = (case pg_condense p of None \<Rightarrow> True | Some spec \<Rightarrow>
     (case pg_stream_identity p of None \<Rightarrow> False | Some si \<Rightarrow>
        is_endpoint_sort (si_canonicalize si) \<and> pair_in_key (cs_ephemeral spec) (si_key si) \<and>
        kf_b (cs_ephemeral spec) \<noteq> None))"

definition registry_ok :: "engine_builder \<Rightarrow> bool" where
  "registry_ok b \<longleftrightarrow>
     distinct (map pg_name (eb_plugins b)) \<and>
     (\<forall>(i, n) \<in> set (eb_overrides b). n \<in> pg_name ` set (eb_plugins b)) \<and>
     (\<forall>i. i \<notin> manual b \<longrightarrow> count_list (concat (map pg_claims (eb_plugins b))) i \<le> 1) \<and>
     (\<forall>p \<in> set (eb_plugins b). identity_ok p \<and> condense_ok p)"

definition spec_by_name :: "engine_builder \<Rightarrow> protocol_name \<Rightarrow> plugin option" where
  "spec_by_name b n = List.find (\<lambda>p. pg_name p = n) (eb_plugins b)"

definition spec_route :: "engine_builder \<Rightarrow> route_id \<Rightarrow> plugin option" where
  "spec_route b i =
    (case map_of (rev (eb_overrides b)) i of
       Some n \<Rightarrow> spec_by_name b n
     | None \<Rightarrow> if i \<in> set (eb_unroutes b) then None
               else List.find (\<lambda>p. i \<in> set (pg_claims p)) (eb_plugins b))"

section \<open>Proofs about the build steps\<close>

fun first_idx :: "('a \<Rightarrow> bool) \<Rightarrow> 'a list \<Rightarrow> nat option" where
  "first_idx P [] = None"
| "first_idx P (x # xs) = (if P x then Some 0 else map_option Suc (first_idx P xs))"

lemma first_idx_find: "map_option (\<lambda>i. xs ! i) (first_idx P xs) = List.find P xs"
proof (induction xs)
  case (Cons x xs)
  then show ?case by (cases "first_idx P xs") auto
qed simp

lemma first_idx_less: "first_idx P xs = Some i \<Longrightarrow> i < length xs"
  by (induction xs arbitrary: i) (auto split: if_splits)

lemma first_idx_None_iff: "first_idx P xs = None \<longleftrightarrow> (\<forall>x \<in> set xs. \<not> P x)"
  by (induction xs) auto

definition orelse :: "'a option \<Rightarrow> 'a option \<Rightarrow> 'a option" where
  "orelse a b = (case a of None \<Rightarrow> b | Some x \<Rightarrow> Some x)"

lemma orelse_simps [simp]: "orelse None b = b" "orelse (Some x) b = Some x" "orelse a None = a"
  by (simp_all add: orelse_def split: option.split)

lemma build_names_Inr_iff:
  "build_names ps k m = Inr m' \<longleftrightarrow>
     distinct (map pg_name ps) \<and> (\<forall>p \<in> set ps. m (pg_name p) = None) \<and>
     m' = (\<lambda>n. orelse (m n) (map_option (\<lambda>i. k + i) (first_idx (\<lambda>p. pg_name p = n) ps)))"
proof (induction ps k m arbitrary: m' rule: build_names.induct)
  case (1 idx m)
  then show ?case by auto
next
  case (2 p ps idx m)
  show ?case
  proof (cases "m (pg_name p)")
    case None
    let ?m = "m(pg_name p \<mapsto> idx)"
    have dom: "(\<forall>q \<in> set ps. ?m (pg_name q) = None) \<longleftrightarrow>
        pg_name p \<notin> pg_name ` set ps \<and> (\<forall>q \<in> set ps. m (pg_name q) = None)"
      by (auto simp: image_iff split: if_splits)
    have "(\<lambda>n. orelse (?m n) (map_option (\<lambda>i. Suc idx + i) (first_idx (\<lambda>p. pg_name p = n) ps)))
        = (\<lambda>n. orelse (m n) (map_option (\<lambda>i. idx + i) (first_idx (\<lambda>p. pg_name p = n) (p # ps))))"
      using None by (auto simp: option.map_comp comp_def fun_eq_iff)
    note eq = this
    have "\<not> m (pg_name p) \<noteq> None" using None by simp
    note IH = 2[OF this, of m', unfolded dom eq]
    show ?thesis using None IH by (auto simp del: fun_upd_apply first_idx.simps)
  next
    case (Some i)
    then show ?thesis by auto
  qed
qed

lemma fold_install_claim:
  assumes "fold (install_claim idx) is (r, c) = (r', c')"
  shows "r' i = orelse (r i) (if i \<in> set is then Some idx else None)"
    and "i \<in> fst ` set c' \<longleftrightarrow>
      i \<in> fst ` set c \<or> (if r i = None then 2 else 1) \<le> count_list is i"
  using assms
proof (induction "is" arbitrary: r c)
  case (Cons j js)
  {
    case 1
    obtain r1 c1 where s1: "install_claim idx j (r, c) = (r1, c1)" by fastforce
    from s1 have "r1 i = orelse (r i) (if i = j then Some idx else None)"
      by (auto simp: install_claim_def split: option.splits)
    with Cons.IH(1)[of r1 c1] s1 1 show ?case by (cases "r i") (auto split: if_splits)
  next
    case 2
    obtain r1 c1 where s1: "install_claim idx j (r, c) = (r1, c1)" by fastforce
    from s1 have "r1 i = orelse (r i) (if i = j then Some idx else None)"
      and "i \<in> fst ` set c1 \<longleftrightarrow> i \<in> fst ` set c \<or> (i = j \<and> r i \<noteq> None)"
      by (force simp: install_claim_def split: option.splits)+
    with Cons.IH(2)[of r1 c1] s1 2 show ?case by (cases "r i") (auto split: if_splits)
  }
qed auto

lemma count_list_pos_iff: "1 \<le> count_list xs x \<longleftrightarrow> x \<in> set xs"
  using count_list_0_iff[of xs x] by (cases "count_list xs x") auto

lemma install_claims_spec:
  assumes "install_claims ps k (r, c) = (r', c')"
  shows "r' i = orelse (r i) (map_option (\<lambda>j. k + j) (first_idx (\<lambda>p. i \<in> set (pg_claims p)) ps))"
    and "i \<in> fst ` set c' \<longleftrightarrow>
      i \<in> fst ` set c \<or> (if r i = None then 2 else 1) \<le> count_list (concat (map pg_claims ps)) i"
  using assms
proof (induction ps arbitrary: k r c)
  case (Cons p ps)
  {
    case 1
    obtain r1 c1 where s1: "fold (install_claim k) (pg_claims p) (r, c) = (r1, c1)" by fastforce
    from Cons.IH(1)[of "Suc k" r1 c1] 1 s1
    have "r' i = orelse (r1 i) (map_option (\<lambda>j. Suc k + j) (first_idx (\<lambda>p. i \<in> set (pg_claims p)) ps))"
      by simp
    with fold_install_claim(1)[OF s1, of i] show ?case
      by (cases "r i") (auto simp: option.map_comp comp_def)
  next
    case 2
    obtain r1 c1 where s1: "fold (install_claim k) (pg_claims p) (r, c) = (r1, c1)" by fastforce
    from Cons.IH(2)[of "Suc k" r1 c1] 2 s1
    have "i \<in> fst ` set c' \<longleftrightarrow> i \<in> fst ` set c1 \<or>
        (if r1 i = None then 2 else 1) \<le> count_list (concat (map pg_claims ps)) i"
      by simp
    with fold_install_claim[OF s1, of i] count_list_pos_iff[of "pg_claims p" i] show ?case
      by (cases "r i") (auto simp: Suc_le_eq split: if_splits)
  }
qed auto

lemma settle_fst [simp]: "fst ` set (settle i c) = fst ` set c - {i}"
  by (force simp: settle_def)

lemma fold_apply_unroute:
  assumes "fold apply_unroute us (r, c) = (r', c')"
  shows "r' i = (if i \<in> set us then None else r i)" and "fst ` set c' = fst ` set c - set us"
  using assms by (induction us arbitrary: r c) (auto simp: apply_unroute_def)

lemma apply_overrides_spec:
  "(apply_overrides bn os (r, c) = Inr (r', c')) \<Longrightarrow>
     (\<forall>(i, n) \<in> set os. bn n \<noteq> None) \<and>
     r' i = (case map_of (rev os) i of Some n \<Rightarrow> bn n | None \<Rightarrow> r i) \<and>
     fst ` set c' = fst ` set c - fst ` set os"
proof (induction os arbitrary: r c)
  case (Cons e os)
  obtain j n where e: "e = (j, n)" by fastforce
  with Cons.prems obtain idx where n: "bn n = Some idx"
    and rest: "apply_overrides bn os (r(j \<mapsto> idx), settle j c) = Inr (r', c')"
    by (auto split: option.splits)
  from Cons.IH[OF rest] n e show ?case
    by (auto simp: map_add_def split: option.splits)
qed auto

lemma apply_overrides_total:
  "(\<forall>(i, n) \<in> set os. bn n \<noteq> None) \<Longrightarrow> \<exists>s'. apply_overrides bn os s = Inr s'"
  by (induction bn os s rule: apply_overrides.induct) (auto split: option.splits)

lemma check_keys_iff: "check_keys n kfs = Inr () \<longleftrightarrow> (\<forall>kf \<in> set kfs. \<not> key_field_bad kf)"
  by (induction n kfs rule: check_keys.induct) auto

lemma check_rollups_iff:
  "check_rollups n rs = Inr () \<longleftrightarrow> (\<forall>r \<in> set rs. rs_field r \<noteq> [] \<and> rs_kind r \<noteq> Series 0)"
  by (induction n rs rule: check_rollups.induct) auto

lemma check_identities_iff: "check_identities ps = Inr () \<longleftrightarrow> (\<forall>p \<in> set ps. identity_ok p)"
  by (induction ps rule: check_identities.induct)
    (auto simp: identity_ok_def and_then_Inr_iff check_keys_iff check_rollups_iff split: option.splits)

lemma check_condense_iff: "check_condense ps = Inr () \<longleftrightarrow> (\<forall>p \<in> set ps. condense_ok p)"
  by (induction ps rule: check_condense.induct)
    (auto simp: condense_ok_def split: option.splits if_splits)

text \<open>All steps together.\<close>

definition final_routes :: "engine_builder \<Rightarrow> route_id \<rightharpoonup> nat" where
  "final_routes b i =
    (case map_of (rev (eb_overrides b)) i of
       Some n \<Rightarrow> first_idx (\<lambda>p. pg_name p = n) (eb_plugins b)
     | None \<Rightarrow> if i \<in> set (eb_unroutes b) then None
               else first_idx (\<lambda>p. i \<in> set (pg_claims p)) (eb_plugins b))"

definition build_result :: "engine_builder \<Rightarrow> engine" where
  "build_result b = \<lparr>en_plugins = eb_plugins b,
     en_by_name = (\<lambda>n. first_idx (\<lambda>p. pg_name p = n) (eb_plugins b)),
     en_routes = final_routes b,
     en_fallback_pool = filter (\<lambda>i. pg_has_probe (eb_plugins b ! i)) [0..<length (eb_plugins b)]\<rparr>"

lemma route_stage:
  assumes bn: "bn = (\<lambda>n. first_idx (\<lambda>p. pg_name p = n) (eb_plugins b))"
    and ov: "apply_overrides bn (eb_overrides b)
      (fold apply_unroute (eb_unroutes b) (install_claims (eb_plugins b) 0 (Map.empty, []))) = Inr (r, c)"
  shows "r = final_routes b"
    and "c = [] \<longleftrightarrow> (\<forall>i. i \<notin> manual b \<longrightarrow> count_list (concat (map pg_claims (eb_plugins b))) i \<le> 1)"
proof -
  obtain r1 c1 where s1: "install_claims (eb_plugins b) 0 (Map.empty, []) = (r1, c1)" by fastforce
  obtain r2 c2 where s2: "fold apply_unroute (eb_unroutes b) (r1, c1) = (r2, c2)" by fastforce
  note i1 = install_claims_spec[OF s1] and i2 = fold_apply_unroute[OF s2]
  from ov s1 s2 have ov': "apply_overrides bn (eb_overrides b) (r2, c2) = Inr (r, c)" by simp
  note i3 = apply_overrides_spec[OF ov']
  show "r = final_routes b"
    using i1(1) i2(1) i3 bn by (auto simp: fun_eq_iff final_routes_def option.map_ident split: option.splits)
  have "c = [] \<longleftrightarrow> fst ` set c = {}" by simp
  also have "\<dots> \<longleftrightarrow> (\<forall>i. i \<notin> manual b \<longrightarrow> i \<notin> fst ` set c1)"
    using i2(2) i3 by (auto simp: manual_def)
  finally show "c = [] \<longleftrightarrow>
      (\<forall>i. i \<notin> manual b \<longrightarrow> count_list (concat (map pg_claims (eb_plugins b))) i \<le> 1)"
    using i1(2) by (auto simp: Suc_le_eq numeral_2_eq_2 linorder_not_less)
qed

lemma no_collision_Inr:
  "(case coll of c # _ \<Rightarrow> (case c of (i, f, s) \<Rightarrow> Inl (k i f s)) | [] \<Rightarrow> x) = Inr e \<longleftrightarrow>
     coll = [] \<and> x = Inr e"
  by (cases coll) (auto split: prod.splits)

lemma build_Inr_iff: "build b = Inr e \<longleftrightarrow> registry_ok b \<and> e = build_result b"
proof -
  let ?bn = "\<lambda>n. first_idx (\<lambda>p. pg_name p = n) (eb_plugins b)"
  let ?s = "fold apply_unroute (eb_unroutes b) (install_claims (eb_plugins b) 0 (Map.empty, []))"
  have names: "build_names (eb_plugins b) 0 Map.empty = Inr bn \<longleftrightarrow>
      distinct (map pg_name (eb_plugins b)) \<and> bn = ?bn" for bn
    by (simp add: build_names_Inr_iff option.map_ident)
  have dangling: "(\<forall>(i, n) \<in> set (eb_overrides b). ?bn n \<noteq> None) \<longleftrightarrow>
      (\<forall>(i, n) \<in> set (eb_overrides b). n \<in> pg_name ` set (eb_plugins b))"
    by (force simp: first_idx_None_iff)
  have steps: "build b = Inr e \<longleftrightarrow>
      distinct (map pg_name (eb_plugins b)) \<and>
      (\<exists>r. apply_overrides ?bn (eb_overrides b) ?s = Inr (r, []) \<and>
        check_identities (eb_plugins b) = Inr () \<and> check_condense (eb_plugins b) = Inr () \<and>
        e = (build_result b)\<lparr>en_routes := r\<rparr>)"
    by (auto simp: build_def Let_def and_then_Inr_iff names build_result_def no_collision_Inr)
  show ?thesis
  proof
    assume "build b = Inr e"
    with steps obtain r where d: "distinct (map pg_name (eb_plugins b))"
      and ov: "apply_overrides ?bn (eb_overrides b) ?s = Inr (r, [])"
      and ci: "check_identities (eb_plugins b) = Inr ()" and cc: "check_condense (eb_plugins b) = Inr ()"
      and e: "e = (build_result b)\<lparr>en_routes := r\<rparr>"
      by blast
    obtain s1 s2 where "?s = (s1, s2)" by fastforce
    with apply_overrides_spec ov have "\<forall>(i, n) \<in> set (eb_overrides b). ?bn n \<noteq> None" by metis
    with d ci cc route_stage[OF refl ov] e dangling show "registry_ok b \<and> e = build_result b"
      by (simp add: registry_ok_def check_identities_iff check_condense_iff build_result_def)
  next
    assume ok: "registry_ok b \<and> e = build_result b"
    then have "\<forall>(i, n) \<in> set (eb_overrides b). ?bn n \<noteq> None"
      using dangling by (auto simp: registry_ok_def)
    from apply_overrides_total[OF this] obtain s' where "apply_overrides ?bn (eb_overrides b) ?s = Inr s'"
      by blast
    then obtain r c where ov: "apply_overrides ?bn (eb_overrides b) ?s = Inr (r, c)" by (cases s') auto
    with ok route_stage[OF refl ov] have "c = []" and "r = final_routes b"
      by (auto simp: registry_ok_def)
    with ok ov show "build b = Inr e"
      unfolding steps
      by (auto simp: registry_ok_def check_identities_iff check_condense_iff build_result_def)
  qed
qed

section \<open>Well-formed engines\<close>

text \<open>Every index of a built engine is in range, so the \<open>plugins[idx]\<close> accesses never panic.\<close>

definition engine_ok :: "engine \<Rightarrow> bool" where
  "engine_ok e \<longleftrightarrow>
     (\<forall>n i. en_by_name e n = Some i \<longrightarrow> i < length (en_plugins e) \<and> pg_name (en_plugins e ! i) = n) \<and>
     (\<forall>r i. en_routes e r = Some i \<longrightarrow> i < length (en_plugins e)) \<and>
     (\<forall>i \<in> set (en_fallback_pool e). i < length (en_plugins e)) \<and>
     distinct (map pg_name (en_plugins e))"

lemma first_idx_sat: "first_idx P xs = Some i \<Longrightarrow> P (xs ! i)"
  by (induction xs arbitrary: i) (auto split: if_splits)

lemma engine_ok_build_result: "registry_ok b \<Longrightarrow> engine_ok (build_result b)"
  by (auto simp: engine_ok_def build_result_def final_routes_def registry_ok_def
      dest: first_idx_less first_idx_sat split: option.splits if_splits)

lemma fallback_pool_result: "fallback_pool (build_result b) = filter pg_has_probe (eb_plugins b)"
proof -
  have "map (\<lambda>i. xs ! i) (filter (\<lambda>i. P (xs ! i)) [0..<length xs]) = filter P xs" for xs :: "plugin list" and P
  proof -
    have "filter P xs = filter P (map (\<lambda>i. xs ! i) [0..<length xs])" by (simp only: map_nth)
    then show ?thesis by (simp add: filter_map comp_def)
  qed
  then show ?thesis by (simp add: fallback_pool_def build_result_def)
qed

lemma plugin_by_name_result: "plugin_by_name (build_result b) n = spec_by_name b n"
  by (simp add: plugin_by_name_def build_result_def spec_by_name_def first_idx_find)

lemma plugin_for_route_result: "plugin_for_route (build_result b) i = spec_route b i"
  by (simp add: plugin_for_route_def build_result_def final_routes_def spec_route_def
      spec_by_name_def first_idx_find split: option.splits)

lemma engine_ok_by_name:
  assumes "engine_ok e" and "plugin_by_name e n = Some p"
  shows "pg_name p = n" and "p \<in> set (en_plugins e)"
  using assms by (auto simp: engine_ok_def plugin_by_name_def)

section \<open>Properties\<close>

text \<open>C13. The builder accepts exactly the registries that are unambiguous: distinct plugin names,
  no manual route to an unregistered name, at most one claim on every route id that no manual
  \<open>route\<close>/\<open>unroute\<close> settles, well-formed stream identities and condensation declarations.\<close>

theorem build_succeeds_iff: "(\<exists>e. build b = Inr e) \<longleftrightarrow> registry_ok b"
  by (auto simp: build_Inr_iff)

text \<open>C8. A built engine dispatches as specified: a route id goes to the plugin named by its last
  manual override, else nowhere if it was unrouted, else to its claimer; names resolve to the
  plugin that bears them; the fallback pool is the probing plugins in registration order; and
  every stored index is in range.\<close>

theorem build_refines_spec:
  assumes "build b = Inr e"
  shows "plugin_for_route e i = spec_route b i \<and> plugin_by_name e n = spec_by_name b n \<and>
    fallback_pool e = filter pg_has_probe (eb_plugins b) \<and> engine_ok e"
  using assms
  by (simp add: build_Inr_iff plugin_for_route_result plugin_by_name_result fallback_pool_result
      engine_ok_build_result)

definition demo_parse :: "byte list \<Rightarrow> parse_ctx \<Rightarrow> parse_error + parsed_layer" where
  "demo_parse bytes ctx =
    try_read (read_u8 (new_reader bytes)) (\<lambda>b r.
      Inr \<lparr>pl_header_len = 1, pl_fields = fm_new, pl_hint = UnknownNext\<rparr>)"

definition demo_builder :: engine_builder where
  "demo_builder =
     add_route (UdpPort 53) ''b'' (add_unroute (UdpPort 99)
      (add_plugin ((default_plugin ''b'' demo_parse)\<lparr>pg_claims := [UdpPort 99], pg_has_probe := True\<rparr>)
      (add_plugin ((default_plugin ''a'' demo_parse)\<lparr>pg_claims := [UdpPort 53, UdpPort 99, LinkType 1]\<rparr>)
       builder_new)))"

lemmas demo_builder_simps = demo_builder_def add_route_def add_unroute_def add_plugin_def
  builder_new_def default_plugin_def

lemma demo_builder_ok: "registry_ok demo_builder"
  by (auto simp: registry_ok_def demo_builder_simps manual_def identity_ok_def condense_ok_def)

theorem build_refines_spec_witness:
  "\<exists>e. build demo_builder = Inr e \<and>
     map_option pg_name (plugin_for_route e (UdpPort 53)) = Some ''b'' \<and>
     plugin_for_route e (UdpPort 99) = None \<and>
     map_option pg_name (plugin_for_route e (LinkType 1)) = Some ''a'' \<and> engine_ok e"
proof -
  have b: "build demo_builder = Inr (build_result demo_builder)"
    by (simp add: build_Inr_iff demo_builder_ok)
  have "map_option pg_name (spec_route demo_builder (UdpPort 53)) = Some ''b''"
    "spec_route demo_builder (UdpPort 99) = None"
    "map_option pg_name (spec_route demo_builder (LinkType 1)) = Some ''a''"
    by (simp_all add: spec_route_def spec_by_name_def demo_builder_simps)
  with build_refines_spec[OF b] b show ?thesis by metis
qed

end
