(* ===== verification/Router.thy ===== *)
theory Router
  imports Engine
begin

text \<open>
  \<open>pktflow-core/src/router.rs\<close>: resolution of a layer's hint (gated termination) and the
  heuristic fallback. The lemmas show that the fallback's select-and-drop loop returns exactly
  the best-scoring plugin that parses, ties going to the earlier registration, and that every
  other hint is resolved without consulting any probe.
\<close>

definition PRIOR_BOOST :: u8 where
  "PRIOR_BOOST = 15"

definition MIN_CONFIDENCE :: u8 where
  "MIN_CONFIDENCE = 50"

datatype step_outcome =
    Layer protocol_name parsed_layer bool
  | Stop stop_reason

fun route_failure :: "parse_error \<Rightarrow> stop_reason" where
  "route_failure (ETruncated t) = StopTruncated (clamp_u16 (t_needed t)) (clamp_u16 (t_have t))"
| "route_failure (Malformed m) = PluginError"

definition dispatch_explicit :: "plugin \<Rightarrow> byte list \<Rightarrow> parse_ctx \<Rightarrow> step_outcome" where
  "dispatch_explicit p bytes ctx =
    (case pg_parse p bytes ctx of
       Inr parsed \<Rightarrow>
         if header_len_ok parsed (length bytes) then Layer (pg_name p) parsed False
         else Stop PluginError
     | Inl err \<Rightarrow> Stop (route_failure err))"

text \<open>One fallback candidate's score: the probe's confidence with the predecessor prior.\<close>

definition boosted :: "protocol_name option \<Rightarrow> plugin \<Rightarrow> confidence \<Rightarrow> u8" where
  "boosted prev p c =
    (case prev of
       Some n \<Rightarrow> if n \<in> set (pg_expected_predecessors p)
                 then min (saturating_add_word (confidence_get c) PRIOR_BOOST) 100
                 else confidence_get c
     | None \<Rightarrow> confidence_get c)"

definition score_fallback_pool :: "engine \<Rightarrow> byte list \<Rightarrow> parse_ctx \<Rightarrow> (u8 \<times> plugin) list" where
  "score_fallback_pool e bytes ctx =
    (let prev = map_option lr_protocol (ctx_prev ctx) in
     List.map_filter (\<lambda>p. map_option (\<lambda>c. (boosted prev p c, p)) (pg_probe p bytes ctx))
       (fallback_pool e))"

text \<open>The inner \<open>for (i, ..) in candidates.iter().enumerate()\<close> scan for the best index.\<close>

fun scan_best :: "(u8 \<times> 'a) list \<Rightarrow> nat \<Rightarrow> (u8 \<times> 'a) list \<Rightarrow> nat \<Rightarrow> nat" where
  "scan_best cands i [] best = best"
| "scan_best cands i (c # rest) best =
    scan_best cands (Suc i) rest (if fst (cands ! best) < fst c then i else best)"

definition best_index :: "(u8 \<times> 'a) list \<Rightarrow> nat" where
  "best_index cands = scan_best cands 0 cands 0"

definition remove_at :: "nat \<Rightarrow> 'a list \<Rightarrow> 'a list" where
  "remove_at i xs = take i xs @ drop (Suc i) xs"

definition accepts :: "byte list \<Rightarrow> parse_ctx \<Rightarrow> plugin \<Rightarrow> (protocol_name \<times> parsed_layer) option" where
  "accepts bytes ctx p =
    (case pg_parse p bytes ctx of
       Inr parsed \<Rightarrow> if header_len_ok parsed (length bytes) then Some (pg_name p, parsed) else None
     | Inl _ \<Rightarrow> None)"

lemma scan_best_less: "best < length cands \<Longrightarrow> i + length rest \<le> length cands \<Longrightarrow>
    scan_best cands i rest best < length cands"
  by (induction cands i rest best rule: scan_best.induct) auto

lemma best_index_less: "cands \<noteq> [] \<Longrightarrow> best_index cands < length cands"
  by (simp add: best_index_def scan_best_less)

lemma length_remove_at: "i < length xs \<Longrightarrow> length (remove_at i xs) = length xs - 1"
  by (simp add: remove_at_def)

function pick_winner ::
  "byte list \<Rightarrow> parse_ctx \<Rightarrow> (u8 \<times> plugin) list \<Rightarrow> (protocol_name \<times> parsed_layer) option" where
  "pick_winner bytes ctx cands =
    (if cands = [] then None
     else let best = best_index cands; p = snd (cands ! best) in
       (case accepts bytes ctx p of
          Some r \<Rightarrow> Some r
        | None \<Rightarrow> pick_winner bytes ctx (remove_at best cands)))"
  by pat_completeness auto
termination
  by (relation "measure (\<lambda>(_, _, cands). length cands)")
    (auto simp: length_remove_at best_index_less)

declare pick_winner.simps [simp del]

definition heuristic_fallback ::
  "engine \<Rightarrow> byte list \<Rightarrow> parse_ctx \<Rightarrow> (protocol_name \<times> parsed_layer) option" where
  "heuristic_fallback e bytes ctx =
    pick_winner bytes ctx (filter (\<lambda>(score, _). MIN_CONFIDENCE \<le> score) (score_fallback_pool e bytes ctx))"

text \<open>The \<open>Candidates\<close> row: claimed plugins in rank order, first accepted parse wins.\<close>

fun try_claimed :: "byte list \<Rightarrow> parse_ctx \<Rightarrow> (route_id \<times> plugin) list \<Rightarrow> step_outcome" where
  "try_claimed bytes ctx [] = Stop PluginError"
| "try_claimed bytes ctx ((i, p) # ps) =
    (case accepts bytes ctx p of
       Some (n, parsed) \<Rightarrow> Layer n parsed False
     | None \<Rightarrow> try_claimed bytes ctx ps)"

definition resolve_next :: "engine \<Rightarrow> hint \<Rightarrow> byte list \<Rightarrow> parse_ctx \<Rightarrow> step_outcome" where
  "resolve_next e hnt bytes ctx =
    (if bytes = [] then Stop Complete
     else case hnt of
       Terminal \<Rightarrow> Stop StopTerminal
     | Route i \<Rightarrow>
        (case plugin_for_route e i of
           None \<Rightarrow> Stop (UnclaimedRoute i)
         | Some p \<Rightarrow> dispatch_explicit p bytes ctx)
     | Candidates ids \<Rightarrow>
        (let claimed = List.map_filter (\<lambda>i. map_option (Pair i) (plugin_for_route e i)) ids in
         if claimed = [] then
           (case ids of first # _ \<Rightarrow> Stop (UnclaimedRoute first) | [] \<Rightarrow> Stop PluginError)
         else try_claimed bytes ctx claimed)
     | ByProtocol n \<Rightarrow>
        (case plugin_by_name e n of
           None \<Rightarrow> Stop (UnclaimedRoute (Custom n 0))
         | Some p \<Rightarrow>
            (case accepts bytes ctx p of
               Some (n', parsed) \<Rightarrow> Layer n' parsed False
             | None \<Rightarrow> Stop PluginError))
     | UnknownNext \<Rightarrow>
        (case heuristic_fallback e bytes ctx of
           Some (n, parsed) \<Rightarrow> Layer n parsed True
         | None \<Rightarrow> Stop UnknownHint))"

section \<open>The scan and the select-and-drop loop\<close>

text \<open>The scan keeps the earliest maximum of what it has seen.\<close>

lemma scan_best_invariant:
  assumes "best < length cands" and "drop i cands = rest" and "i \<le> length cands"
    and "\<forall>j < i. fst (cands ! j) \<le> fst (cands ! best)"
    and "\<forall>j < best. fst (cands ! j) < fst (cands ! best)" and "best < i \<or> best = 0"
  shows "(\<forall>j < length cands. fst (cands ! j) \<le> fst (cands ! scan_best cands i rest best)) \<and>
    (\<forall>j < scan_best cands i rest best. fst (cands ! j) < fst (cands ! scan_best cands i rest best))"
  using assms
proof (induction cands i rest best rule: scan_best.induct)
  case (2 cands i c rest best)
  from "2.prems"(2) have i: "i < length cands" by (cases "i < length cands") auto
  with "2.prems"(2) Cons_nth_drop_Suc[OF i] have c: "cands ! i = c" and r: "drop (Suc i) cands = rest"
    by auto
  show ?case
  proof (cases "fst (cands ! best) < fst c")
    case True
    then have lt: "\<forall>j < i. fst (cands ! j) < fst (cands ! i)"
      using "2.prems"(4) c by (auto intro: order.strict_trans1)
    then have le: "\<forall>j < Suc i. fst (cands ! j) \<le> fst (cands ! i)"
      by (auto simp: less_Suc_eq)
    from True have eq: "(if fst (cands ! best) < fst c then i else best) = i" by simp
    show ?thesis
      unfolding scan_best.simps eq by (rule "2.IH"[unfolded eq]) (use i r lt le in auto)
  next
    case False
    with "2.prems" c have "\<forall>j < Suc i. fst (cands ! j) \<le> fst (cands ! best)"
      by (auto simp: less_Suc_eq)
    note le = this
    from False have eq: "(if fst (cands ! best) < fst c then i else best) = best" by simp
    show ?thesis
      unfolding scan_best.simps eq by (rule "2.IH"[unfolded eq]) (use i r le "2.prems" in auto)
  qed
qed auto

lemma best_index_max:
  assumes "cands \<noteq> []"
  shows "j < length cands \<Longrightarrow> fst (cands ! j) \<le> fst (cands ! best_index cands)"
    and "j < best_index cands \<Longrightarrow> fst (cands ! j) < fst (cands ! best_index cands)"
  using scan_best_invariant[of 0 cands 0 cands] assms by (auto simp: best_index_def)

text \<open>Reference definition of the winner: the first candidate that parses and that no other
  parsing candidate outscores.\<close>

definition spec_winner :: "('p \<Rightarrow> 'r option) \<Rightarrow> (u8 \<times> 'p) list \<Rightarrow> (u8 \<times> 'p) option" where
  "spec_winner acc cands =
    List.find (\<lambda>(s, p). acc p \<noteq> None \<and> (\<forall>(s', p') \<in> set cands. acc p' \<noteq> None \<longrightarrow> s' \<le> s)) cands"

lemma spec_winner_at:
  assumes "b < length cands" and "acc (snd (cands ! b)) \<noteq> None"
    and "\<And>j. j < length cands \<Longrightarrow> fst (cands ! j) \<le> fst (cands ! b)"
    and "\<And>j. j < b \<Longrightarrow> fst (cands ! j) < fst (cands ! b)"
  shows "spec_winner acc cands = Some (cands ! b)"
proof -
  have "\<forall>(s', p') \<in> set cands. s' \<le> fst (cands ! b)"
    using assms(3) by (auto simp: in_set_conv_nth) (metis fst_conv)
  moreover have "cands ! b \<in> set cands" using assms(1) by simp
  ultimately show ?thesis
    unfolding spec_winner_def find_Some_iff
    using assms(1,2,4) by (intro exI[of _ b]) (auto simp: split_beta not_le dest!: assms(4))
qed

lemma find_Some_in: "List.find P xs = Some x \<Longrightarrow> x \<in> set xs"
  by (auto simp: find_Some_iff)

lemma find_remove_at:
  assumes "i < length xs" and "\<not> P (xs ! i)"
  shows "List.find P (remove_at i xs) = List.find P xs"
proof -
  have "xs = take i xs @ xs ! i # drop (Suc i) xs" using assms(1) by (simp add: id_take_nth_drop)
  then have "List.find P xs = List.find P (take i xs @ xs ! i # drop (Suc i) xs)" by simp
  with assms(2) show ?thesis by (simp add: remove_at_def find_append find.simps(2) del: append_take_drop_id split: option.split)
qed

lemma set_remove_at: "i < length xs \<Longrightarrow> insert (xs ! i) (set (remove_at i xs)) = set xs"
  by (metis Un_insert_right id_take_nth_drop list.simps(15) remove_at_def set_append)

lemma spec_winner_remove:
  assumes "i < length cands" and "acc (snd (cands ! i)) = None"
  shows "spec_winner acc (remove_at i cands) = spec_winner acc cands"
proof -
  have "(\<forall>(s', p') \<in> set (remove_at i cands). acc p' \<noteq> None \<longrightarrow> s' \<le> s) \<longleftrightarrow>
      (\<forall>(s', p') \<in> set cands. acc p' \<noteq> None \<longrightarrow> s' \<le> s)" for s
    unfolding set_remove_at[OF assms(1), symmetric] using assms(2) by (auto split: prod.splits)
  then show ?thesis
    unfolding spec_winner_def using assms by (subst find_remove_at[symmetric, of i cands]) (auto split: prod.splits)
qed

lemma pick_winner_spec:
  "pick_winner bytes ctx cands =
    Option.bind (spec_winner (accepts bytes ctx) cands) (\<lambda>(_, p). accepts bytes ctx p)"
proof (induction bytes ctx cands rule: pick_winner.induct)
  case (1 bytes ctx cands)
  show ?case
  proof (cases "cands = []")
    case True
    then show ?thesis by (simp add: pick_winner.simps spec_winner_def)
  next
    case False
    let ?b = "best_index cands"
    show ?thesis
    proof (cases "accepts bytes ctx (snd (cands ! ?b))")
      case None
      with False 1 show ?thesis
        by (subst pick_winner.simps) (simp add: Let_def spec_winner_remove best_index_less)
    next
      case (Some r)
      with False have "spec_winner (accepts bytes ctx) cands = Some (cands ! ?b)"
        by (intro spec_winner_at) (auto simp: best_index_less best_index_max)
      with Some False show ?thesis
        by (subst pick_winner.simps) (simp add: Let_def split_beta)
    qed
  qed
qed

lemma try_claimed_Layer:
  assumes "try_claimed bytes ctx ps = Layer n pl via"
  shows "\<not> via \<and> (\<exists>(i, p) \<in> set ps. accepts bytes ctx p = Some (n, pl))"
  using assms by (induction bytes ctx ps rule: try_claimed.induct) (auto split: option.splits)

lemma accepts_Some:
  "accepts bytes ctx p = Some (n, pl) \<longleftrightarrow>
     pg_parse p bytes ctx = Inr pl \<and> pl_header_len pl \<le> length bytes \<and> n = pg_name p"
  by (auto simp: accepts_def header_len_ok_def split: sum.splits)

lemma dispatch_explicit_Layer:
  "dispatch_explicit p bytes ctx = Layer n pl via \<longleftrightarrow>
     accepts bytes ctx p = Some (n, pl) \<and> \<not> via"
  by (auto simp: dispatch_explicit_def accepts_def split: sum.splits)

lemma heuristic_fallback_Some:
  assumes "heuristic_fallback e bytes ctx = Some (n, pl)"
  shows "\<exists>p \<in> set (fallback_pool e). accepts bytes ctx p = Some (n, pl)"
proof -
  let ?cands = "filter (\<lambda>(score, _). MIN_CONFIDENCE \<le> score) (score_fallback_pool e bytes ctx)"
  from assms obtain s p where w: "spec_winner (accepts bytes ctx) ?cands = Some (s, p)"
    and acc: "accepts bytes ctx p = Some (n, pl)"
    by (auto simp: heuristic_fallback_def pick_winner_spec split: Option.bind_splits)
  from w have "(s, p) \<in> set ?cands"
    unfolding spec_winner_def by (rule find_Some_in)
  then have "p \<in> set (fallback_pool e)"
    by (auto simp: score_fallback_pool_def Let_def map_filter_def)
  with acc show ?thesis by blast
qed

text \<open>Which plugin may answer a hint: the one a named id or name dispatches to, or, for an unknown
  hint only, one of the fallback pool.\<close>

fun may_answer :: "engine \<Rightarrow> hint \<Rightarrow> plugin \<Rightarrow> bool" where
  "may_answer e (Route i) p \<longleftrightarrow> plugin_for_route e i = Some p"
| "may_answer e (Candidates ids) p \<longleftrightarrow> (\<exists>i \<in> set ids. plugin_for_route e i = Some p)"
| "may_answer e (ByProtocol n) p \<longleftrightarrow> plugin_by_name e n = Some p"
| "may_answer e UnknownNext p \<longleftrightarrow> p \<in> set (fallback_pool e)"
| "may_answer e Terminal p \<longleftrightarrow> False"

lemma resolve_next_Layer:
  assumes "resolve_next e hnt bytes ctx = Layer n pl via"
  shows "bytes \<noteq> [] \<and> via = (hnt = UnknownNext) \<and>
    (\<exists>p. may_answer e hnt p \<and> accepts bytes ctx p = Some (n, pl))"
proof (cases hnt)
  case (Candidates ids)
  let ?claimed = "List.map_filter (\<lambda>i. map_option (Pair i) (plugin_for_route e i)) ids"
  from assms Candidates have "bytes \<noteq> []" and "try_claimed bytes ctx ?claimed = Layer n pl via"
    by (auto simp: resolve_next_def Let_def split: if_splits list.splits)
  from this(1) try_claimed_Layer[OF this(2)] Candidates show ?thesis
    by (fastforce simp: map_filter_def)
next
  case UnknownNext
  with assms show ?thesis
    by (auto simp: resolve_next_def split: if_splits option.splits dest: heuristic_fallback_Some)
qed (use assms in \<open>auto simp: resolve_next_def dispatch_explicit_Layer split: if_splits option.splits\<close>)

section \<open>Non-interference of the probes\<close>

definition reprobe :: "(plugin \<Rightarrow> byte list \<Rightarrow> parse_ctx \<Rightarrow> confidence option) \<Rightarrow> nat list \<Rightarrow> engine \<Rightarrow> engine" where
  "reprobe f pool e = e\<lparr>en_plugins := map (\<lambda>p. p\<lparr>pg_probe := f p\<rparr>) (en_plugins e), en_fallback_pool := pool\<rparr>"

lemma accepts_reprobe [simp]: "accepts bytes ctx (p\<lparr>pg_probe := g\<rparr>) = accepts bytes ctx p"
  by (simp add: accepts_def split: sum.split)

lemma dispatch_reprobe [simp]:
  "dispatch_explicit (p\<lparr>pg_probe := g\<rparr>) bytes ctx = dispatch_explicit p bytes ctx"
  by (simp add: dispatch_explicit_def split: sum.split)

lemma reprobe_route:
  "engine_ok e \<Longrightarrow> plugin_for_route (reprobe f pool e) i =
    map_option (\<lambda>p. p\<lparr>pg_probe := f p\<rparr>) (plugin_for_route e i)"
  by (cases "en_routes e i") (auto simp: plugin_for_route_def reprobe_def engine_ok_def)

lemma reprobe_name:
  "engine_ok e \<Longrightarrow> plugin_by_name (reprobe f pool e) n =
    map_option (\<lambda>p. p\<lparr>pg_probe := f p\<rparr>) (plugin_by_name e n)"
  by (cases "en_by_name e n") (auto simp: plugin_by_name_def reprobe_def engine_ok_def)

lemma try_claimed_map:
  "(\<And>p. accepts bytes ctx (g p) = accepts bytes ctx p) \<Longrightarrow>
    try_claimed bytes ctx (map (\<lambda>(i, p). (i, g p)) ps) = try_claimed bytes ctx ps"
  by (induction ps) (auto split: option.splits)

lemma resolve_next_reprobe:
  assumes ok: "engine_ok e" and h: "hnt \<noteq> UnknownNext"
  shows "resolve_next (reprobe f pool e) hnt bytes ctx = resolve_next e hnt bytes ctx"
proof (cases hnt)
  case (Candidates ids)
  let ?g = "\<lambda>p. p\<lparr>pg_probe := f p\<rparr>"
  have "List.map_filter (\<lambda>i. map_option (Pair i) (plugin_for_route (reprobe f pool e) i)) ids =
      map (\<lambda>(i, p). (i, ?g p)) (List.map_filter (\<lambda>i. map_option (Pair i) (plugin_for_route e i)) ids)"
    by (induction ids) (auto simp: map_filter_simps reprobe_route[OF ok] split: option.splits)
  with Candidates show ?thesis
    by (simp add: resolve_next_def Let_def try_claimed_map)
qed (use h in \<open>auto simp: resolve_next_def reprobe_route[OF ok] reprobe_name[OF ok] split: option.splits\<close>)

section \<open>Properties\<close>

text \<open>C5. No phantom streams: when a header names what follows (any hint but \<open>Unknown\<close>), the
  resolution does not depend on the heuristics at all. Replacing every plugin's probe and the
  whole fallback pool leaves the outcome of \<open>resolve_next\<close> unchanged.\<close>

theorem gate_ignores_heuristics:
  assumes "engine_ok e" and "hnt \<noteq> UnknownNext"
  shows "resolve_next (reprobe f pool e) hnt bytes ctx = resolve_next e hnt bytes ctx"
  using assms by (rule resolve_next_reprobe)

theorem gate_ignores_heuristics_witness:
  "resolve_next (reprobe (\<lambda>_ _ _. Some (confidence_new 100)) [0, 1] (build_result demo_builder))
     (Route (UdpPort 99)) [1] \<lparr>ctx_layers = [], ctx_depth = Full,
       ctx_meta = \<lparr>timestamp = 0, caplen = 1, origlen = 1, link_type = 1\<rparr>\<rparr> = Stop (UnclaimedRoute (UdpPort 99))"
proof -
  let ?ctx = "\<lparr>ctx_layers = [], ctx_depth = Full,
       ctx_meta = \<lparr>timestamp = 0, caplen = 1, origlen = 1, link_type = 1\<rparr>\<rparr>"
  have "plugin_for_route (build_result demo_builder) (UdpPort 99) = None"
    by (simp add: plugin_for_route_result spec_route_def demo_builder_simps)
  then have "resolve_next (build_result demo_builder) (Route (UdpPort 99)) [1] ?ctx =
      Stop (UnclaimedRoute (UdpPort 99))"
    by (simp add: resolve_next_def)
  then show ?thesis
    by (subst gate_ignores_heuristics[OF engine_ok_build_result[OF demo_builder_ok]]) simp_all
qed

text \<open>A layer is emitted only by a plugin entitled to answer the hint (the claimer of a named
  route, the bearer of the name, or a fallback plugin for an unknown hint), that plugin's parse
  succeeded on a non-empty payload within its bounds, and the layer is marked heuristic exactly
  when the hint was unknown.\<close>

theorem resolve_next_sound:
  assumes "resolve_next e hnt bytes ctx = Layer n pl via"
  shows "bytes \<noteq> [] \<and> via = (hnt = UnknownNext) \<and> pl_header_len pl \<le> length bytes \<and>
    (\<exists>p. may_answer e hnt p \<and> pg_name p = n \<and> pg_parse p bytes ctx = Inr pl)"
  using resolve_next_Layer[OF assms] by (auto simp: accepts_Some)

theorem resolve_next_sound_witness:
  "resolve_next (build_result demo_builder) (Route (UdpPort 53)) [7] \<lparr>ctx_layers = [], ctx_depth = Full,
     ctx_meta = \<lparr>timestamp = 0, caplen = 1, origlen = 1, link_type = 1\<rparr>\<rparr>
     = Layer ''b'' \<lparr>pl_header_len = 1, pl_fields = [], pl_hint = UnknownNext\<rparr> False \<and>
   (\<exists>p. may_answer (build_result demo_builder) (Route (UdpPort 53)) p \<and> pg_name p = ''b'')"
proof -
  let ?ctx = "\<lparr>ctx_layers = [], ctx_depth = Full,
     ctx_meta = \<lparr>timestamp = 0, caplen = 1, origlen = 1, link_type = 1\<rparr>\<rparr>"
  let ?pl = "\<lparr>pl_header_len = 1, pl_fields = [], pl_hint = UnknownNext\<rparr>"
  have p: "plugin_for_route (build_result demo_builder) (UdpPort 53) = Some
      ((default_plugin ''b'' demo_parse)\<lparr>pg_claims := [UdpPort 99], pg_has_probe := True\<rparr>)"
    by (simp add: plugin_for_route_result spec_route_def spec_by_name_def demo_builder_simps)
  have parse: "demo_parse [7] ?ctx = Inr ?pl"
    by (simp add: demo_parse_def read_defs map_read_def take_bytes_def new_reader_def checked_add_def
        usize_max_def slice_get_def fm_new_def)
  have r: "resolve_next (build_result demo_builder) (Route (UdpPort 53)) [7] ?ctx = Layer ''b'' ?pl False"
    by (simp add: resolve_next_def p dispatch_explicit_def default_plugin_def parse header_len_ok_def
        del: One_nat_def)
  with resolve_next_sound[OF r] show ?thesis by blast
qed

text \<open>C28. The heuristic fallback computes its specification: among the pool's plugins scoring at
  least \<open>MIN_CONFIDENCE\<close> (prior included), the winner is the first in registration order that
  parses and that no other parsing candidate outscores; there is no layer exactly when none parses.\<close>

theorem heuristic_fallback_spec:
  "heuristic_fallback e bytes ctx =
    Option.bind
      (spec_winner (accepts bytes ctx)
        (filter (\<lambda>(score, _). MIN_CONFIDENCE \<le> score) (score_fallback_pool e bytes ctx)))
      (\<lambda>(_, p). accepts bytes ctx p)"
  by (simp add: heuristic_fallback_def pick_winner_spec)

end
