(* ===== verification/Parser.thy ===== *)
theory Parser
  imports Router
begin

text \<open>
  \<open>pktflow-core/src/parser.rs\<close> (the layer-at-a-time iterator, entry resolution, eager
  dissection) and \<open>diagnostics.rs\<close> (the evidence captured at an unknown stop). The walk is
  proved total under its layer cap, to account for every captured byte, and to be exactly the
  run of a step relation in which each layer is justified by its predecessor's hint.
\<close>

section \<open>Unknown-occurrence diagnostics\<close>

definition SAMPLE_CAP :: usize where
  "SAMPLE_CAP = 256"

definition rank_scores :: "(u8 \<times> 'a) list \<Rightarrow> (u8 \<times> 'a) list" where
  "rank_scores = sort_key (\<lambda>(score, _). - int (unat score))"

definition unknown_context_of :: "stop_reason \<Rightarrow> parse_ctx \<Rightarrow> unknown_context option" where
  "unknown_context_of stop ctx =
    (case stop of
       UnclaimedRoute route \<Rightarrow> map_option (\<lambda>l. CtxUnclaimedRoute (lr_protocol l) route) (ctx_prev ctx)
     | UnknownHint \<Rightarrow> map_option (\<lambda>l. NoHeuristicWinner (lr_protocol l)) (ctx_prev ctx)
     | _ \<Rightarrow> None)"

definition diagnose_unknown ::
  "engine \<Rightarrow> stop_reason \<Rightarrow> byte list \<Rightarrow> parse_ctx \<Rightarrow> unknown_diagnostics option" where
  "diagnose_unknown e stop bytes ctx =
    map_option (\<lambda>c. \<lparr>ud_context = c,
        ud_near_misses = map (\<lambda>(score, p). (pg_name p, confidence_new score))
          (take 5 (rank_scores (score_fallback_pool e bytes ctx))),
        ud_sample = take (min (length bytes) SAMPLE_CAP) bytes\<rparr>)
      (unknown_context_of stop ctx)"

section \<open>The iterator\<close>

record layer_step =
  ls_record :: layer_record
  ls_payload :: "byte list"
  ls_via_heuristic :: bool

record layer_iter =
  li_engine :: engine
  li_bytes :: "byte list"
  li_meta :: packet_meta
  li_opts :: parse_opts
  li_records :: "layer_record list"
  li_cursor :: usize
  li_pending :: "hint option"
  li_started :: bool
  li_stop :: "stop_reason option"
  li_unknown :: "unknown_diagnostics option"

text \<open>\<open>None\<close> is the panic of \<open>layers\<close> on an unregistered forced entry.\<close>

definition layers :: "engine \<Rightarrow> byte list \<Rightarrow> packet_meta \<Rightarrow> parse_opts \<Rightarrow> layer_iter option" where
  "layers e bytes meta opts =
    (if (case po_entry opts of Some n \<Rightarrow> plugin_by_name e n = None | None \<Rightarrow> False) then None
     else Some \<lparr>li_engine = e, li_bytes = bytes, li_meta = meta, li_opts = opts, li_records = [],
       li_cursor = 0, li_pending = None, li_started = False, li_stop = None, li_unknown = None\<rparr>)"

definition resolve_entry ::
  "engine \<Rightarrow> byte list \<Rightarrow> parse_ctx \<Rightarrow> parse_opts \<Rightarrow> u16 \<Rightarrow> step_outcome" where
  "resolve_entry e bytes ctx opts link =
    (if bytes = [] then Stop Complete
     else case po_entry opts of
       Some n \<Rightarrow>
        (case plugin_by_name e n of
           Some p \<Rightarrow> dispatch_explicit p bytes ctx
         | None \<Rightarrow> Stop PluginError)
     | None \<Rightarrow>
        (case plugin_for_route e (LinkType link) of
           Some p \<Rightarrow> dispatch_explicit p bytes ctx
         | None \<Rightarrow>
            if po_allow_entry_heuristics opts then
              (case heuristic_fallback e bytes ctx of
                 Some (n, parsed) \<Rightarrow> Layer n parsed True
               | None \<Rightarrow> Stop UnknownHint)
            else Stop (UnclaimedRoute (LinkType link))))"

definition remaining_payload :: "layer_iter \<Rightarrow> byte list" where
  "remaining_payload it =
    (case slice_get (li_bytes it) (li_cursor it) (length (li_bytes it)) of Some s \<Rightarrow> s | None \<Rightarrow> [])"

definition iter_ctx :: "layer_iter \<Rightarrow> parse_ctx" where
  "iter_ctx it = \<lparr>ctx_layers = li_records it, ctx_depth = effective_depth (li_opts it), ctx_meta = li_meta it\<rparr>"

text \<open>The \<open>match outcome\<close> at the end of \<open>next\<close>; \<open>it\<close> is the iterator with \<open>pending\<close> taken
  and \<open>started\<close> set, \<open>via_resolve_next\<close> the value \<open>started\<close> had before.\<close>

definition apply_outcome ::
  "bool \<Rightarrow> byte list \<Rightarrow> parse_ctx \<Rightarrow> layer_iter \<Rightarrow> step_outcome \<Rightarrow> layer_step option \<times> layer_iter" where
  "apply_outcome via_resolve_next rem ctx it outcome =
    (case outcome of
       Layer n parsed via \<Rightarrow>
        (let rec = \<lparr>lr_protocol = n, lr_offset = li_cursor it,
               lr_header_len = pl_header_len parsed, lr_fields = pl_fields parsed\<rparr>;
             it' = it\<lparr>li_cursor := li_cursor it + pl_header_len parsed,
               li_pending := Some (pl_hint parsed), li_records := li_records it @ [rec]\<rparr>
         in (Some \<lparr>ls_record = rec, ls_payload = remaining_payload it', ls_via_heuristic = via\<rparr>, it'))
     | Stop reason \<Rightarrow>
        (None, it\<lparr>li_stop := Some reason,
           li_unknown := (if via_resolve_next \<and> po_diagnose_unknown (li_opts it)
             then diagnose_unknown (li_engine it) reason rem ctx else li_unknown it)\<rparr>))"

definition next_layer :: "layer_iter \<Rightarrow> layer_step option \<times> layer_iter" where
  "next_layer it =
    (if li_stop it \<noteq> None then (None, it)
     else let rem = remaining_payload it in
       if po_max_layers (li_opts it) \<le> length (li_records it) then
         (None, it\<lparr>li_stop := Some (if rem = [] then Complete else DepthCap)\<rparr>)
       else let ctx = iter_ctx it in
         if li_started it then
           (case li_pending it of
              None \<Rightarrow> (None, it\<lparr>li_stop := Some PluginError\<rparr>)
            | Some h \<Rightarrow> apply_outcome True rem ctx (it\<lparr>li_pending := None\<rparr>)
                (resolve_next (li_engine it) h rem ctx))
         else apply_outcome False rem ctx (it\<lparr>li_started := True\<rparr>)
           (resolve_entry (li_engine it) rem ctx (li_opts it) (link_type (li_meta it))))"

text \<open>A step that yields a layer happened below the cap and pushed exactly one record.\<close>

lemma next_layer_grows:
  assumes "next_layer it = (Some s, it')"
  shows "length (li_records it) < po_max_layers (li_opts it) \<and> li_opts it' = li_opts it \<and>
    length (li_records it') = Suc (length (li_records it))"
  using assms
  by (auto simp: next_layer_def apply_outcome_def Let_def
      split: if_splits option.splits step_outcome.splits)

text \<open>\<open>while self.next().is_some() {}\<close>\<close>

function drain :: "layer_iter \<Rightarrow> layer_iter" where
  "drain it = (case next_layer it of (None, it') \<Rightarrow> it' | (Some s, it') \<Rightarrow> drain it')"
  by pat_completeness auto
termination
  by (relation "measure (\<lambda>it. po_max_layers (li_opts it) - length (li_records it))")
    (auto dest!: sym[of _ "next_layer _"] next_layer_grows)

declare drain.simps [simp del]

definition into_packet :: "layer_iter \<Rightarrow> packet_meta \<Rightarrow> dissected_packet" where
  "into_packet it meta =
    (let fin = drain it in
     \<lparr>dp_meta = meta, dp_layers = li_records fin,
      dp_stop = (case li_stop fin of Some r \<Rightarrow> r | None \<Rightarrow> Complete),
      dp_opaque_len = length (li_bytes fin) - li_cursor fin,
      dp_unknown = li_unknown fin\<rparr>)"

definition dissect :: "engine \<Rightarrow> byte list \<Rightarrow> packet_meta \<Rightarrow> parse_opts \<Rightarrow> dissected_packet option" where
  "dissect e bytes meta opts = map_option (\<lambda>it. into_packet it meta) (layers e bytes meta opts)"

section \<open>The walk as a step relation\<close>

definition consumed :: "layer_record list \<Rightarrow> usize" where
  "consumed recs = sum_list (map lr_header_len recs)"

definition ctx_at :: "packet_meta \<Rightarrow> parse_opts \<Rightarrow> layer_record list \<Rightarrow> parse_ctx" where
  "ctx_at meta opts recs = \<lparr>ctx_layers = recs, ctx_depth = effective_depth opts, ctx_meta = meta\<rparr>"

text \<open>What resolution answers after the layers \<open>recs\<close>, the last of which gave the hint \<open>h\<close>
  (no hint before the first layer).\<close>

definition outcome_at ::
  "engine \<Rightarrow> byte list \<Rightarrow> packet_meta \<Rightarrow> parse_opts \<Rightarrow> layer_record list \<Rightarrow> hint option \<Rightarrow> step_outcome" where
  "outcome_at e bytes meta opts recs h =
    (case h of
       None \<Rightarrow> resolve_entry e (drop (consumed recs) bytes) (ctx_at meta opts recs) opts (link_type meta)
     | Some hnt \<Rightarrow> resolve_next e hnt (drop (consumed recs) bytes) (ctx_at meta opts recs))"

definition record_of :: "layer_record list \<Rightarrow> protocol_name \<Rightarrow> parsed_layer \<Rightarrow> layer_record" where
  "record_of recs n pl = \<lparr>lr_protocol = n, lr_offset = consumed recs,
     lr_header_len = pl_header_len pl, lr_fields = pl_fields pl\<rparr>"

inductive walk ::
  "engine \<Rightarrow> byte list \<Rightarrow> packet_meta \<Rightarrow> parse_opts \<Rightarrow> layer_record list \<Rightarrow> hint option \<Rightarrow> bool"
  for e bytes meta opts where
  walk_start: "walk e bytes meta opts [] None"
| walk_layer: "walk e bytes meta opts recs h \<Longrightarrow> length recs < po_max_layers opts \<Longrightarrow>
    outcome_at e bytes meta opts recs h = Layer n pl via \<Longrightarrow>
    walk e bytes meta opts (recs @ [record_of recs n pl]) (Some (pl_hint pl))"

inductive_cases walk_NoneE: "walk e bytes meta opts recs None"

definition stops_with ::
  "engine \<Rightarrow> byte list \<Rightarrow> packet_meta \<Rightarrow> parse_opts \<Rightarrow> layer_record list \<Rightarrow> hint option \<Rightarrow> stop_reason \<Rightarrow> bool" where
  "stops_with e bytes meta opts recs h r \<longleftrightarrow>
    (if length recs < po_max_layers opts then outcome_at e bytes meta opts recs h = Stop r
     else r = (if drop (consumed recs) bytes = [] then Complete else DepthCap))"

definition packet_at ::
  "engine \<Rightarrow> byte list \<Rightarrow> packet_meta \<Rightarrow> parse_opts \<Rightarrow> layer_record list \<Rightarrow> hint option \<Rightarrow> stop_reason
    \<Rightarrow> dissected_packet" where
  "packet_at e bytes meta opts recs h r =
    \<lparr>dp_meta = meta, dp_layers = recs, dp_stop = r, dp_opaque_len = length bytes - consumed recs,
     dp_unknown = (if h \<noteq> None \<and> po_diagnose_unknown opts
       then diagnose_unknown e r (drop (consumed recs) bytes) (ctx_at meta opts recs) else None)\<rparr>"

definition iter_at ::
  "engine \<Rightarrow> byte list \<Rightarrow> packet_meta \<Rightarrow> parse_opts \<Rightarrow> layer_record list \<Rightarrow> hint option \<Rightarrow> layer_iter" where
  "iter_at e bytes meta opts recs h =
    \<lparr>li_engine = e, li_bytes = bytes, li_meta = meta, li_opts = opts, li_records = recs,
     li_cursor = consumed recs, li_pending = h, li_started = (h \<noteq> None), li_stop = None, li_unknown = None\<rparr>"

lemma consumed_simps [simp]:
  "consumed [] = 0"
  "consumed (recs @ recs') = consumed recs + consumed recs'"
  "consumed [rec] = lr_header_len rec"
  by (simp_all add: consumed_def)

lemma record_of_sel [simp]:
  "lr_header_len (record_of recs n pl) = pl_header_len pl"
  "lr_offset (record_of recs n pl) = consumed recs"
  "lr_protocol (record_of recs n pl) = n"
  "lr_fields (record_of recs n pl) = pl_fields pl"
  by (simp_all add: record_of_def)

lemma packet_at_sel [simp]:
  "dp_layers (packet_at e bytes meta opts recs h r) = recs"
  "dp_stop (packet_at e bytes meta opts recs h r) = r"
  "dp_meta (packet_at e bytes meta opts recs h r) = meta"
  "dp_opaque_len (packet_at e bytes meta opts recs h r) = length bytes - consumed recs"
  by (simp_all add: packet_at_def)

lemma remaining_payload_drop: "remaining_payload it = drop (li_cursor it) (li_bytes it)"
  by (auto simp: remaining_payload_def slice_get_def)

lemma layers_iter_at: "layers e bytes meta opts =
    (if (case po_entry opts of Some n \<Rightarrow> plugin_by_name e n = None | None \<Rightarrow> False) then None
     else Some (iter_at e bytes meta opts [] None))"
  by (simp add: layers_def iter_at_def)

lemma next_layer_iter_at:
  "next_layer (iter_at e bytes meta opts recs h) =
    (let it = iter_at e bytes meta opts recs h; rem = drop (consumed recs) bytes in
     if length recs < po_max_layers opts then
       apply_outcome (h \<noteq> None) rem (ctx_at meta opts recs) (it\<lparr>li_pending := None, li_started := True\<rparr>)
         (outcome_at e bytes meta opts recs h)
     else (None, it\<lparr>li_stop := Some (if rem = [] then Complete else DepthCap)\<rparr>))"
  by (cases h) (simp_all add: next_layer_def iter_at_def Let_def remaining_payload_drop iter_ctx_def
      ctx_at_def outcome_at_def)

text \<open>A layer moves the iterator from one state of the walk to the next.\<close>

lemma drain_layer:
  assumes "length recs < po_max_layers opts" and "outcome_at e bytes meta opts recs h = Layer n pl via"
  shows "drain (iter_at e bytes meta opts recs h) =
    drain (iter_at e bytes meta opts (recs @ [record_of recs n pl]) (Some (pl_hint pl)))"
proof -
  have "\<exists>s. next_layer (iter_at e bytes meta opts recs h) =
      (Some s, iter_at e bytes meta opts (recs @ [record_of recs n pl]) (Some (pl_hint pl)))"
    unfolding next_layer_iter_at using assms
    by (simp add: Let_def apply_outcome_def iter_at_def record_of_def)
  then show ?thesis by (subst drain.simps) auto
qed

lemma into_packet_stop:
  assumes "stops_with e bytes meta opts recs h r"
  shows "into_packet (iter_at e bytes meta opts recs h) meta = packet_at e bytes meta opts recs h r"
proof -
  obtain it where n: "next_layer (iter_at e bytes meta opts recs h) = (None, it)"
    and it: "li_records it = recs" "li_stop it = Some r" "li_bytes it = bytes" "li_cursor it = consumed recs"
      "li_unknown it = dp_unknown (packet_at e bytes meta opts recs h r)"
    unfolding next_layer_iter_at using assms
    by (simp add: Let_def apply_outcome_def iter_at_def packet_at_def stops_with_def
        diagnose_unknown_def unknown_context_of_def split: if_splits)
  then have "drain (iter_at e bytes meta opts recs h) = it" by (subst drain.simps) simp
  then show ?thesis by (simp add: into_packet_def it packet_at_def)
qed

lemma into_packet_walk:
  "walk e bytes meta opts recs h \<Longrightarrow>
    drain (iter_at e bytes meta opts [] None) = drain (iter_at e bytes meta opts recs h)"
  by (induction rule: walk.induct) (auto simp: drain_layer)

text \<open>From every state of the walk a stop is reached: the cap bounds the number of steps.\<close>

lemma walk_reaches_stop:
  assumes "walk e bytes meta opts recs h"
  shows "\<exists>ext h' r. walk e bytes meta opts (recs @ ext) h' \<and> stops_with e bytes meta opts (recs @ ext) h' r"
  using assms
proof (induction "po_max_layers opts - length recs" arbitrary: recs h rule: less_induct)
  case less
  show ?case
  proof (cases "length recs < po_max_layers opts")
    case False
    with less.prems show ?thesis by (intro exI[of _ "[]"]) (auto simp: stops_with_def)
  next
    case True
    show ?thesis
    proof (cases "outcome_at e bytes meta opts recs h")
      case (Stop r)
      with less.prems True show ?thesis by (intro exI[of _ "[]"]) (auto simp: stops_with_def)
    next
      case (Layer n pl via)
      from less.hyps[OF _ walk_layer[OF less.prems True Layer]] True
      show ?thesis by (fastforce simp: append_assoc)
    qed
  qed
qed

text \<open>A stopped walk is the only one: it determines the packet.\<close>

lemma walk_final:
  assumes "walk e bytes meta opts recs h" and "stops_with e bytes meta opts recs h r"
  shows "into_packet (iter_at e bytes meta opts [] None) meta = packet_at e bytes meta opts recs h r"
  using into_packet_stop[OF assms(2)] into_packet_walk[OF assms(1)] by (simp add: into_packet_def)

definition entry_ok :: "engine \<Rightarrow> parse_opts \<Rightarrow> bool" where
  "entry_ok e opts \<longleftrightarrow> (\<forall>n. po_entry opts = Some n \<longrightarrow> plugin_by_name e n \<noteq> None)"

lemma dissect_iff_walk:
  "dissect e bytes meta opts = Some pkt \<longleftrightarrow>
    entry_ok e opts \<and>
    (\<exists>recs h r. walk e bytes meta opts recs h \<and> stops_with e bytes meta opts recs h r \<and>
       pkt = packet_at e bytes meta opts recs h r)"
proof -
  obtain recs h r where w: "walk e bytes meta opts recs h" "stops_with e bytes meta opts recs h r"
    using walk_reaches_stop[OF walk_start] by fastforce
  have "dissect e bytes meta opts = (if entry_ok e opts then Some (packet_at e bytes meta opts recs h r) else None)"
    by (auto simp: dissect_def layers_iter_at entry_ok_def walk_final[OF w] split: option.splits)
  with w walk_final[OF w] show ?thesis by (auto dest: walk_final)
qed

lemma dissect_walkE:
  assumes "dissect e bytes meta opts = Some pkt"
  obtains recs h r where "walk e bytes meta opts recs h" "stops_with e bytes meta opts recs h r"
    "pkt = packet_at e bytes meta opts recs h r"
  using assms by (auto simp: dissect_iff_walk)

section \<open>Invariants of the walk\<close>

lemma dispatch_bound: "dispatch_explicit p bytes ctx = Layer n pl via \<Longrightarrow> pl_header_len pl \<le> length bytes"
  by (auto simp: dispatch_explicit_Layer accepts_Some)

lemma resolve_entry_Layer:
  assumes "resolve_entry e bytes ctx opts link = Layer n pl via"
  shows "bytes \<noteq> [] \<and> (via \<longrightarrow> po_allow_entry_heuristics opts \<and> po_entry opts = None \<and>
      plugin_for_route e (LinkType link) = None) \<and>
    (\<exists>p. (if via then p \<in> set (fallback_pool e)
          else case po_entry opts of Some m \<Rightarrow> plugin_by_name e m = Some p
                                   | None \<Rightarrow> plugin_for_route e (LinkType link) = Some p) \<and>
       accepts bytes ctx p = Some (n, pl))"
  using assms
  by (auto simp: resolve_entry_def dispatch_explicit_Layer
      split: if_splits option.splits dest: heuristic_fallback_Some)

lemma outcome_at_bound:
  assumes "outcome_at e bytes meta opts recs h = Layer n pl via"
  shows "consumed recs < length bytes \<and> consumed recs + pl_header_len pl \<le> length bytes"
proof -
  have "drop (consumed recs) bytes \<noteq> [] \<and> pl_header_len pl \<le> length (drop (consumed recs) bytes)"
    using assms
    by (auto simp: outcome_at_def accepts_Some split: option.splits
        dest!: resolve_entry_Layer resolve_next_Layer)
  then show ?thesis by auto
qed

definition contiguous :: "layer_record list \<Rightarrow> bool" where
  "contiguous recs \<longleftrightarrow> (\<forall>i < length recs. lr_offset (recs ! i) = consumed (take i recs))"

lemma walk_invariant:
  assumes "walk e bytes meta opts recs h"
  shows "contiguous recs \<and> consumed recs \<le> length bytes \<and> length recs \<le> po_max_layers opts \<and>
    (h = None \<longleftrightarrow> recs = [])"
  using assms
proof (induction rule: walk.induct)
  case (walk_layer recs h n pl via)
  then have "contiguous (recs @ [record_of recs n pl])"
    by (auto simp: contiguous_def nth_append less_Suc_eq)
  with walk_layer outcome_at_bound[OF walk_layer.hyps(3)] show ?case by auto
qed (simp add: contiguous_def)

lemma contiguous_covers:
  assumes "contiguous recs" and "i < length recs"
  shows "lr_offset (recs ! i) + lr_header_len (recs ! i) = consumed (take (Suc i) recs)"
  using assms by (simp add: contiguous_def take_Suc_conv_app_nth)

lemma evidence_iff:
  assumes "walk e bytes meta opts recs h"
  shows "dp_unknown (packet_at e bytes meta opts recs h r) \<noteq> None \<longleftrightarrow>
    po_diagnose_unknown opts \<and> stop_class_of r = UnknownPayload \<and> recs \<noteq> []"
  using walk_invariant[OF assms]
  by (auto simp: packet_at_def diagnose_unknown_def unknown_context_of_def ctx_prev_def ctx_at_def
      split: stop_reason.splits)

text \<open>Two configurations that agree on every reachable outcome take the same walk.\<close>

lemma walk_cong:
  assumes "walk e bytes meta opts recs h"
    and "\<And>recs h. walk e bytes meta opts recs h \<Longrightarrow> length recs < po_max_layers opts \<Longrightarrow>
      outcome_at e' bytes meta opts' recs h = outcome_at e bytes meta opts recs h"
    and "po_max_layers opts \<le> po_max_layers opts'"
  shows "walk e' bytes meta opts' recs h"
  using assms(1)
proof (induction rule: walk.induct)
  case (walk_layer recs h n pl via)
  then show ?case using assms(2)[OF walk_layer.hyps(1,2)] assms(3) by (auto intro!: walk.walk_layer)
qed (rule walk.walk_start)

lemma stops_cong:
  "stops_with e bytes meta opts recs h r \<Longrightarrow>
    (length recs < po_max_layers opts \<Longrightarrow>
      outcome_at e' bytes meta opts' recs h = outcome_at e bytes meta opts recs h) \<Longrightarrow>
    po_max_layers opts' = po_max_layers opts \<Longrightarrow> stops_with e' bytes meta opts' recs h r"
  by (auto simp: stops_with_def split: if_splits)

lemma outcome_at_diagnose [simp]:
  "outcome_at e bytes meta (opts\<lparr>po_diagnose_unknown := d\<rparr>) recs h = outcome_at e bytes meta opts recs h"
  by (simp add: outcome_at_def ctx_at_def effective_depth_def resolve_entry_def split: option.splits)

lemma outcome_at_cap [simp]:
  "outcome_at e bytes meta (opts\<lparr>po_max_layers := m\<rparr>) recs h = outcome_at e bytes meta opts recs h"
  by (simp add: outcome_at_def ctx_at_def effective_depth_def resolve_entry_def split: option.splits)

lemma entry_ok_update [simp]:
  "entry_ok e (opts\<lparr>po_diagnose_unknown := d\<rparr>) = entry_ok e opts"
  "entry_ok e (opts\<lparr>po_max_layers := m\<rparr>) = entry_ok e opts"
  by (simp_all add: entry_ok_def)

lemma walk_unique_prefix:
  assumes "walk e bytes meta opts recs h" "walk e bytes meta opts recs' h'" "stops_with e bytes meta opts recs' h' r'"
  shows "take (length recs) recs' = recs"
proof -
  obtain ext h2 r2 where "walk e bytes meta opts (recs @ ext) h2" "stops_with e bytes meta opts (recs @ ext) h2 r2"
    using walk_reaches_stop[OF assms(1)] by blast
  from walk_final[OF this] walk_final[OF assms(2,3)]
  have "recs' = recs @ ext" by (metis packet_at_sel(1))
  then show ?thesis by simp
qed

section \<open>A small engine for the examples\<close>

text \<open>One plugin whose one-byte header names the port that claims the rest.\<close>

definition hop_parse :: "byte list \<Rightarrow> parse_ctx \<Rightarrow> parse_error + parsed_layer" where
  "hop_parse bytes ctx =
    try_read (read_u8 (new_reader bytes)) (\<lambda>b r.
      Inr \<lparr>pl_header_len = 1, pl_fields = fm_new, pl_hint = Route (UdpPort (ucast b))\<rparr>)"

definition hop_engine :: engine where
  "hop_engine = \<lparr>en_plugins = [default_plugin ''hop'' hop_parse], en_by_name = [''hop'' \<mapsto> 0],
     en_routes = [LinkType 1 \<mapsto> 0, UdpPort 7 \<mapsto> 0], en_fallback_pool = []\<rparr>"

definition hop_meta :: packet_meta where
  "hop_meta = \<lparr>timestamp = 0, caplen = 4, origlen = 4, link_type = 1\<rparr>"

definition hop_record :: "usize \<Rightarrow> layer_record" where
  "hop_record i = \<lparr>lr_protocol = ''hop'', lr_offset = i, lr_header_len = 1, lr_fields = []\<rparr>"

definition hop_opts :: parse_opts where
  "hop_opts = default_opts\<lparr>po_diagnose_unknown := True\<rparr>"

definition hop_packet :: "bool \<Rightarrow> dissected_packet" where
  "hop_packet d = \<lparr>dp_meta = hop_meta, dp_layers = [hop_record 0, hop_record 1, hop_record 2],
     dp_stop = UnclaimedRoute (UdpPort 9), dp_opaque_len = 1,
     dp_unknown = (if d then Some \<lparr>ud_context = CtxUnclaimedRoute ''hop'' (UdpPort 9), ud_near_misses = [],
       ud_sample = [5]\<rparr> else None)\<rparr>"

lemma hop_engine_ok: "engine_ok hop_engine"
  by (simp add: engine_ok_def hop_engine_def default_plugin_def)

lemma hop_parse_Cons: "hop_parse (b # bs) ctx =
    Inr \<lparr>pl_header_len = 1, pl_fields = [], pl_hint = Route (UdpPort (ucast b))\<rparr>"
  by (simp add: hop_parse_def read_defs map_read_def take_bytes_def new_reader_def checked_add_def
      usize_max_def slice_get_def fm_new_def)

lemma hop_dissect: "dissect hop_engine [7, 7, 9, 5] hop_meta (hop_opts\<lparr>po_diagnose_unknown := d\<rparr>) = Some (hop_packet d)"
  by (simp add: dissect_def layers_def into_packet_def drain.simps next_layer_def apply_outcome_def
      remaining_payload_drop resolve_entry_def resolve_next_def dispatch_explicit_def hop_parse_Cons
      plugin_for_route_def hop_engine_def hop_meta_def hop_opts_def hop_packet_def hop_record_def default_plugin_def
      default_opts_def header_len_ok_def Let_def diagnose_unknown_def unknown_context_of_def ctx_prev_def
      iter_ctx_def score_fallback_pool_def fallback_pool_def rank_scores_def map_filter_simps SAMPLE_CAP_def)

section \<open>Properties\<close>

text \<open>C1. Dissection refines the step relation: \<open>dissect\<close> returns a packet exactly when a forced
  entry (if any) is registered, and the packet is the one of the walk that starts with no layers,
  adds one layer per resolution of the previous layer's hint, and stops at the first resolution
  that stops or at the layer cap. In particular the walk ends for every input and plugin set,
  and it is unique.\<close>

theorem dissect_refines_walk:
  "dissect e bytes meta opts = Some pkt \<longleftrightarrow>
    entry_ok e opts \<and>
    (\<exists>recs h r. walk e bytes meta opts recs h \<and> stops_with e bytes meta opts recs h r \<and>
       pkt = packet_at e bytes meta opts recs h r)"
  by (rule dissect_iff_walk)

text \<open>C7. Byte accounting: the layers of a dissected packet tile a prefix of the capture without
  gaps or overlaps (each starts where the previous ended), the opaque remainder is exactly what
  they leave, and there are at most \<open>max_layers\<close> of them.\<close>

theorem dissect_accounts_bytes:
  assumes "dissect e bytes meta opts = Some pkt"
  shows "(\<forall>i < length (dp_layers pkt).
        lr_offset (dp_layers pkt ! i) = consumed (take i (dp_layers pkt)) \<and>
        lr_offset (dp_layers pkt ! i) + lr_header_len (dp_layers pkt ! i) \<le> length bytes) \<and>
    consumed (dp_layers pkt) + dp_opaque_len pkt = length bytes \<and>
    length (dp_layers pkt) \<le> po_max_layers opts"
proof -
  from assms obtain recs h r where w: "walk e bytes meta opts recs h" and p: "pkt = packet_at e bytes meta opts recs h r"
    by (rule dissect_walkE)
  note inv = walk_invariant[OF w]
  have "consumed (take (Suc i) recs) \<le> consumed recs" for i
    by (metis append_take_drop_id consumed_simps(2) le_add1)
  with inv have "\<forall>i < length recs. lr_offset (recs ! i) + lr_header_len (recs ! i) \<le> length bytes"
    by (metis contiguous_covers order.trans)
  with inv p show ?thesis by (auto simp: contiguous_def)
qed

theorem dissect_accounts_bytes_witness:
  "\<exists>pkt. dissect hop_engine [7, 7, 9, 5] hop_meta hop_opts = Some pkt \<and> length (dp_layers pkt) = 3 \<and>
    consumed (dp_layers pkt) + dp_opaque_len pkt = 4"
proof -
  have "dissect hop_engine [7, 7, 9, 5] hop_meta hop_opts = Some (hop_packet True)"
    using hop_dissect[of True] by (simp add: hop_opts_def)
  with dissect_accounts_bytes[OF this] show ?thesis by (simp add: hop_packet_def)
qed

text \<open>Diagnostics are reporting only: with \<open>diagnose_unknown\<close> on, the packet is the one
  dissected with it off, but for the evidence field.\<close>

theorem diagnostics_never_route:
  "map_option (\<lambda>pkt. pkt\<lparr>dp_unknown := None\<rparr>) (dissect e bytes meta (opts\<lparr>po_diagnose_unknown := d\<rparr>)) =
   dissect e bytes meta (opts\<lparr>po_diagnose_unknown := False\<rparr>)"
proof (cases "dissect e bytes meta (opts\<lparr>po_diagnose_unknown := d\<rparr>)")
  case None
  then show ?thesis by (auto simp: dissect_def layers_def split: if_splits option.splits)
next
  case (Some pkt)
  let ?o = "opts\<lparr>po_diagnose_unknown := d\<rparr>" and ?o' = "opts\<lparr>po_diagnose_unknown := False\<rparr>"
  from Some obtain recs h r where w: "walk e bytes meta ?o recs h" "stops_with e bytes meta ?o recs h r"
    and p: "pkt = packet_at e bytes meta ?o recs h r" by (rule dissect_walkE)
  have "walk e bytes meta ?o' recs h" by (rule walk_cong[OF w(1)]) simp_all
  moreover have "stops_with e bytes meta ?o' recs h r" by (rule stops_cong[OF w(2)]) simp_all
  moreover from Some have "entry_ok e ?o'" by (simp add: dissect_iff_walk)
  ultimately have "dissect e bytes meta ?o' = Some (packet_at e bytes meta ?o' recs h r)"
    by (auto simp: dissect_iff_walk)
  with Some p show ?thesis by (simp add: packet_at_def)
qed

text \<open>C37. Evidence is captured exactly at an unknown stop with at least one layer before it, when
  the caller asked for it. (The doc comment of \<open>DissectedPacket.unknown\<close> omits the last condition:
  an entry-tier unknown stop carries no evidence.)\<close>

theorem unknown_evidence_iff:
  assumes "dissect e bytes meta opts = Some pkt"
  shows "dp_unknown pkt \<noteq> None \<longleftrightarrow>
    po_diagnose_unknown opts \<and> stop_class_of (dp_stop pkt) = UnknownPayload \<and> dp_layers pkt \<noteq> []"
proof -
  from assms obtain recs h r where "walk e bytes meta opts recs h" and "pkt = packet_at e bytes meta opts recs h r"
    by (rule dissect_walkE)
  then show ?thesis using evidence_iff by simp
qed

theorem unknown_evidence_iff_witness:
  "dp_unknown (hop_packet True) \<noteq> None \<and> dissect hop_engine [7, 7, 9, 5] hop_meta hop_opts = Some (hop_packet True)"
proof -
  have h: "dissect hop_engine [7, 7, 9, 5] hop_meta hop_opts = Some (hop_packet True)"
    using hop_dissect[of True] by (simp add: hop_opts_def)
  moreover have "po_diagnose_unknown hop_opts \<and> stop_class_of (dp_stop (hop_packet True)) = UnknownPayload \<and>
      dp_layers (hop_packet True) \<noteq> []"
    by (simp add: hop_opts_def hop_packet_def)
  ultimately show ?thesis using unknown_evidence_iff[OF h] by blast
qed

text \<open>The layer cap only truncates: lowering \<open>max_layers\<close> to \<open>m\<close> yields the first \<open>m\<close>
  layers of the uncapped dissection, never different ones.\<close>

theorem layer_cap_truncates:
  assumes "m \<le> po_max_layers opts" and "dissect e bytes meta opts = Some pkt"
  shows "map_option dp_layers (dissect e bytes meta (opts\<lparr>po_max_layers := m\<rparr>)) =
    Some (take m (dp_layers pkt))"
proof -
  let ?o = "opts\<lparr>po_max_layers := m\<rparr>"
  from assms(2) obtain recs h r where w: "walk e bytes meta opts recs h" "stops_with e bytes meta opts recs h r"
    and p: "pkt = packet_at e bytes meta opts recs h r" by (rule dissect_walkE)
  obtain recs' h' r' where w': "walk e bytes meta ?o recs' h'" "stops_with e bytes meta ?o recs' h' r'"
    using walk_reaches_stop[OF walk_start] by fastforce
  from assms(2) w' have d: "dissect e bytes meta ?o = Some (packet_at e bytes meta ?o recs' h' r')"
    by (auto simp: dissect_iff_walk)
  have ww: "walk e bytes meta opts recs' h'" by (rule walk_cong[OF w'(1)]) (use assms(1) in simp_all)
  have pre: "take (length recs') recs = recs'" by (rule walk_unique_prefix[OF ww w])
  show ?thesis
  proof (cases "length recs' < m")
    case False
    with walk_invariant[OF w'(1)] have "length recs' = m" by simp
    with d p pre show ?thesis by simp
  next
    case True
    with w'(2) assms(1) have "stops_with e bytes meta opts recs' h' r'" by (simp add: stops_with_def)
    from walk_unique_prefix[OF w(1) ww this] pre have "recs = recs'"
      by (metis nat_le_linear take_all)
    with True d p show ?thesis by simp
  qed
qed

theorem layer_cap_truncates_witness:
  "map_option dp_layers (dissect hop_engine [7, 7, 9, 5] hop_meta (hop_opts\<lparr>po_max_layers := 2\<rparr>)) =
    Some [hop_record 0, hop_record 1]"
proof -
  have h: "dissect hop_engine [7, 7, 9, 5] hop_meta hop_opts = Some (hop_packet True)"
    using hop_dissect[of True] by (simp add: hop_opts_def)
  have "2 \<le> po_max_layers hop_opts" by (simp add: hop_opts_def default_opts_def)
  from layer_cap_truncates[OF this h] show ?thesis by (simp add: hop_packet_def numeral_2_eq_2)
qed

lemma plugin_lookup_in:
  "engine_ok e \<Longrightarrow> plugin_for_route e i = Some p \<Longrightarrow> p \<in> set (en_plugins e)"
  "engine_ok e \<Longrightarrow> plugin_by_name e n = Some p \<Longrightarrow> p \<in> set (en_plugins e)"
  "engine_ok e \<Longrightarrow> p \<in> set (fallback_pool e) \<Longrightarrow> p \<in> set (en_plugins e)"
  by (auto simp: plugin_for_route_def plugin_by_name_def fallback_pool_def engine_ok_def)

definition never_unknown :: "engine \<Rightarrow> bool" where
  "never_unknown e \<longleftrightarrow> (\<forall>p \<in> set (en_plugins e). \<forall>bytes ctx pl. pg_parse p bytes ctx = Inr pl \<longrightarrow> pl_hint pl \<noteq> UnknownNext)"

lemma may_answer_in: "engine_ok e \<Longrightarrow> may_answer e h p \<Longrightarrow> p \<in> set (en_plugins e)"
  by (cases h) (auto dest: plugin_lookup_in)

lemma outcome_at_accepts:
  assumes "outcome_at e bytes meta opts recs h = Layer n pl via" and "engine_ok e"
  shows "\<exists>p \<in> set (en_plugins e). pg_name p = n \<and>
    pg_parse p (drop (consumed recs) bytes) (ctx_at meta opts recs) = Inr pl"
proof (cases h)
  case None
  with assms(1) show ?thesis
    by (auto simp: outcome_at_def accepts_Some dest!: resolve_entry_Layer
        dest: plugin_lookup_in[OF assms(2)] split: if_splits option.splits) (blast dest: plugin_lookup_in[OF assms(2)])+
next
  case (Some hnt)
  with assms(1) show ?thesis
    using resolve_next_Layer[of e hnt "drop (consumed recs) bytes" "ctx_at meta opts recs" n pl via]
    by (simp add: outcome_at_def accepts_Some) (blast dest: may_answer_in[OF assms(2)])
qed

text \<open>Every record of a walk is what a registered plugin of that name parsed from the bytes at the record's offset,
  with the records before it as its context.\<close>

lemma walk_records:
  assumes "walk e bytes meta opts recs h" and "engine_ok e" and "i < length recs"
  shows "\<exists>p \<in> set (en_plugins e). pg_name p = lr_protocol (recs ! i) \<and>
    (\<exists>pl. pg_parse p (drop (lr_offset (recs ! i)) bytes) (ctx_at meta opts (take i recs)) = Inr pl \<and>
       lr_fields (recs ! i) = pl_fields pl)"
  using assms
proof (induction rule: walk.induct)
  case (walk_layer recs h n pl via)
  show ?case
  proof (cases "i < length recs")
    case False
    with walk_layer.prems have "i = length recs" by simp
    moreover obtain p where "p \<in> set (en_plugins e)" "pg_name p = n"
      "pg_parse p (drop (consumed recs) bytes) (ctx_at meta opts recs) = Inr pl"
      using outcome_at_accepts[OF walk_layer.hyps(3)] walk_layer.prems(1) by blast
    ultimately show ?thesis by (auto simp: record_of_def)
  qed (use walk_layer in \<open>simp add: nth_append\<close>)
qed simp

lemma walk_hint_known:
  assumes "walk e bytes meta opts recs h" and "engine_ok e" and "never_unknown e"
  shows "h \<noteq> Some UnknownNext"
  using assms by (induction rule: walk.induct) (auto simp: never_unknown_def dest: outcome_at_accepts)

lemma resolve_entry_reprobe:
  assumes "engine_ok e" and "\<not> po_allow_entry_heuristics opts"
  shows "resolve_entry (reprobe f pool e) bytes ctx opts link = resolve_entry e bytes ctx opts link"
  using assms by (simp add: resolve_entry_def reprobe_route reprobe_name split: option.splits)

lemma outcome_at_reprobe:
  assumes "engine_ok e" and "\<not> po_allow_entry_heuristics opts" and "h \<noteq> Some UnknownNext"
  shows "outcome_at (reprobe f pool e) bytes meta opts recs h = outcome_at e bytes meta opts recs h"
  using assms
  by (cases h) (simp_all add: outcome_at_def resolve_entry_reprobe resolve_next_reprobe)

text \<open>No phantom layers over a whole packet: when entry heuristics are off and no registered
  plugin ever answers \<open>Hint::Unknown\<close>, the dissected packet does not depend on any plugin's
  probe or on the fallback pool.\<close>

theorem dissect_ignores_probes:
  assumes "engine_ok e" and "never_unknown e" and "\<not> po_allow_entry_heuristics opts" and "\<not> po_diagnose_unknown opts"
  shows "dissect (reprobe f pool e) bytes meta opts = dissect e bytes meta opts"
proof (cases "dissect e bytes meta opts")
  case None
  with assms(1) show ?thesis by (auto simp: dissect_def layers_def reprobe_name split: if_splits option.splits)
next
  case (Some pkt)
  let ?e = "reprobe f pool e"
  from Some obtain recs h r where w: "walk e bytes meta opts recs h" "stops_with e bytes meta opts recs h r"
    and p: "pkt = packet_at e bytes meta opts recs h r" by (rule dissect_walkE)
  note eq = outcome_at_reprobe[OF assms(1,3) walk_hint_known[OF _ assms(1,2)]]
  have "walk ?e bytes meta opts recs h" by (rule walk_cong[OF w(1) eq]) simp_all
  moreover have "stops_with ?e bytes meta opts recs h r" by (rule stops_cong[OF w(2) eq[OF w(1)]]) simp
  moreover from Some assms(1) have "entry_ok ?e opts" by (auto simp: dissect_iff_walk entry_ok_def reprobe_name)
  ultimately have "dissect ?e bytes meta opts = Some (packet_at ?e bytes meta opts recs h r)"
    by (auto simp: dissect_iff_walk)
  with Some p assms(4) show ?thesis by (simp add: packet_at_def)
qed

theorem dissect_ignores_probes_witness:
  "dissect (reprobe (\<lambda>_ _ _. Some (confidence_new 100)) [0] hop_engine) [7, 7, 9, 5] hop_meta
     (hop_opts\<lparr>po_diagnose_unknown := False\<rparr>) = Some (hop_packet False)"
proof -
  have "never_unknown hop_engine"
    by (auto simp: never_unknown_def hop_engine_def default_plugin_def hop_parse_def parse_Inr)
  then show ?thesis
    by (subst dissect_ignores_probes[OF hop_engine_ok])
      (simp_all only: hop_dissect, simp_all add: hop_opts_def default_opts_def)
qed

end
