(* ===== verification/Registry.thy ===== *)
theory Registry
  imports Link Net Transport Tunnel Lan Overlay Naming Hosts Control Industrial Ber Lines Sessions Secure Messages
    Wireless Carrier Export Parser
begin

text \<open>
  \<open>pktflow-plugins/src/lib.rs\<close>: the one registration list and the engine built from it. Everything the
  core proves of a collision-free registry of contract-keeping plugins is instantiated here on the plugins
  the program ships: the list builds, every plugin frames its layer, and every layer of a dissected packet
  carries the fields its protocol's streams are keyed by, but for the messages of three protocols that
  have no such fields on the wire.
\<close>

section \<open>The registration list\<close>

definition default_plugins :: "plugin list" where
  "default_plugins =
    [template, ethernet, vlan, ipv4, ipv6, arp, cdp, icmpv4, icmpv6, ndp, mld, igmp, vrrp, hsrp, ospf, bfd, tcp, udp,
     sctp, quic, bgp, gre, erspan, mpls, vxlan, gtp_u, gtp_c, geneve, esp, ah, wireguard, l2tpv3, pppoe, ppp, dns,
     mdns, llmnr, netbios_ns, dhcp, dhcpv6, ntp, ptp, rocev2, lldp, llc, lacp, stp, pvst_plus, eapol, radiotap, dot11,
     modbus, mqtt, dnp3, enip, bacnet_ip, syslog, snmp, radius, kerberos, ldap, ssdp, http, http2, tls, ssh,
     websocket, stun, ftp, tftp, smtp, imap, pop3, smb2, nfs, sip, rtp, rtcp, amqp, redis, netflow9, ipfix]"

definition default_engine :: "registry_error + engine" where
  "default_engine = build (fold add_plugin default_plugins builder_new)"

lemmas default_plugin_defs =
  template_def ethernet_def vlan_def ipv4_def ipv6_def arp_def cdp_def icmpv4_def icmpv6_def ndp_def mld_def igmp_def
  vrrp_def hsrp_def ospf_def bfd_def tcp_def udp_def sctp_def quic_def bgp_def gre_def erspan_def mpls_def vxlan_def
  gtp_u_def gtp_c_def geneve_def esp_def ah_def wireguard_def l2tpv3_def pppoe_def ppp_def dns_def mdns_def llmnr_def
  netbios_ns_def dhcp_def dhcpv6_def ntp_def ptp_def rocev2_def lldp_def llc_def lacp_def stp_def pvst_plus_def
  eapol_def radiotap_def dot11_def modbus_def mqtt_def dnp3_def enip_def bacnet_ip_def syslog_def snmp_def radius_def
  kerberos_def ldap_def ssdp_def http_def http2_def tls_def ssh_def websocket_def stun_def ftp_def tftp_def smtp_def
  imap_def pop3_def smb2_def nfs_def sip_def rtp_def rtcp_def amqp_def redis_def netflow9_def ipfix_def

lemmas default_identity_defs =
  template_identity_def ethernet_identity_def ipv4_identity_def ipv6_identity_def vrrp_identity_def hsrp_identity_def
  bfd_identity_def tcp_identity_def udp_identity_def sctp_identity_def quic_identity_def bgp_identity_def
  gre_identity_def erspan_identity_def mpls_identity_def vxlan_identity_def gtp_u_identity_def gtp_c_identity_def
  geneve_identity_def esp_identity_def ah_identity_def wireguard_identity_def l2tpv3_identity_def pppoe_identity_def
  dns_identity_def mdns_identity_def llmnr_identity_def netbios_ns_identity_def dhcp_identity_def dhcpv6_identity_def
  ntp_identity_def ptp_identity_def rocev2_identity_def lacp_identity_def dot11_identity_def modbus_identity_def
  mqtt_identity_def dnp3_identity_def enip_identity_def bacnet_ip_identity_def syslog_identity_def snmp_identity_def
  radius_identity_def kerberos_identity_def ldap_identity_def ssdp_identity_def http_identity_def http2_identity_def
  tls_identity_def ssh_identity_def websocket_identity_def stun_identity_def ftp_identity_def smtp_identity_def
  imap_identity_def pop3_identity_def smb2_identity_def nfs_identity_def sip_identity_def rtp_identity_def
  rtcp_identity_def amqp_identity_def redis_identity_def netflow9_identity_def ipfix_identity_def

section \<open>The list builds\<close>

lemma eb_fold_add: "eb_plugins (fold add_plugin ps b) = eb_plugins b @ ps \<and>
    eb_overrides (fold add_plugin ps b) = eb_overrides b \<and> eb_unroutes (fold add_plugin ps b) = eb_unroutes b"
  by (induction ps arbitrary: b) (simp_all add: add_plugin_def)

lemma default_names:
  "map pg_name default_plugins =
    [''template'', ''ethernet'', ''vlan'', ''ipv4'', ''ipv6'', ''arp'', ''cdp'', ''icmpv4'', ''icmpv6'', ''ndp'',
     ''mld'', ''igmp'', ''vrrp'', ''hsrp'', ''ospf'', ''bfd'', ''tcp'', ''udp'', ''sctp'', ''quic'', ''bgp'', ''gre'',
     ''erspan'', ''mpls'', ''vxlan'', ''gtp_u'', ''gtp_c'', ''geneve'', ''esp'', ''ah'', ''wireguard'', ''l2tpv3'',
     ''pppoe'', ''ppp'', ''dns'', ''mdns'', ''llmnr'', ''netbios_ns'', ''dhcp'', ''dhcpv6'', ''ntp'', ''ptp'',
     ''rocev2'', ''lldp'', ''llc'', ''lacp'', ''stp'', ''pvst_plus'', ''eapol'', ''radiotap'', ''dot11'', ''modbus'',
     ''mqtt'', ''dnp3'', ''enip'', ''bacnet_ip'', ''syslog'', ''snmp'', ''radius'', ''kerberos'', ''ldap'', ''ssdp'',
     ''http'', ''http2'', ''tls'', ''ssh'', ''websocket'', ''stun'', ''ftp'', ''tftp'', ''smtp'', ''imap'', ''pop3'',
     ''smb2'', ''nfs'', ''sip'', ''rtp'', ''rtcp'', ''amqp'', ''redis'', ''netflow9'', ''ipfix'']"
  by (simp add: default_plugins_def default_plugin_defs default_plugin_def)

lemma default_claims_distinct: "distinct (concat (map pg_claims default_plugins))"
  by (simp add: default_plugins_def default_plugin_defs default_plugin_def OUI_CISCO_def PID_CDP_def PID_PVST_PLUS_def)

lemma default_names_distinct: "distinct (map pg_name default_plugins)"
  unfolding default_names by code_simp

lemma default_identities: "list_all identity_ok default_plugins"
  by (simp add: default_plugins_def default_plugin_defs default_plugin_def identity_ok_def default_identity_defs keyed_def paired_def
      key_field_bad_def)

lemma default_condense: "list_all condense_ok default_plugins"
  by (simp add: default_plugins_def default_plugin_defs default_plugin_def condense_ok_def tcp_identity_def udp_identity_def
      port_condense_def is_endpoint_sort_def pair_in_key_def)

lemma distinct_count: "distinct xs \<Longrightarrow> count_list xs x \<le> 1"
  by (induction xs) (auto simp: count_notin)

lemma default_registry_ok: "registry_ok (fold add_plugin default_plugins builder_new)"
proof -
  have "count_list (concat (map pg_claims default_plugins)) i \<le> 1" for i
    using distinct_count[OF default_claims_distinct] .
  then show ?thesis
    using default_names_distinct default_identities default_condense eb_fold_add[of default_plugins builder_new]
    by (simp add: registry_ok_def builder_new_def list_all_iff)
qed

lemma default_engine_eq: "default_engine = Inr e \<longleftrightarrow> e = build_result (fold add_plugin default_plugins builder_new)"
  by (auto simp: default_engine_def build_Inr_iff default_registry_ok)

lemma default_engine_sel:
  assumes "default_engine = Inr e"
  shows "en_plugins e = default_plugins" "engine_ok e"
    "plugin_by_name e n = List.find (\<lambda>p. pg_name p = n) default_plugins"
  using assms eb_fold_add[of default_plugins builder_new] engine_ok_build_result[OF default_registry_ok]
  by (simp_all add: default_engine_eq plugin_by_name_result spec_by_name_def builder_new_def)
    (simp add: build_result_def)

text \<open>C14. The shipped registration list builds: no duplicate name, no claim collision, no malformed identity or
  condense rule among the 82 plugins, so \<open>default_engine\<close> never panics; the engine holds them in the order of the
  list and every index it stores is in range.\<close>

theorem default_engine_builds: "\<exists>e. default_engine = Inr e \<and> en_plugins e = default_plugins \<and> engine_ok e"
  using default_engine_sel by (metis default_engine_eq)

section \<open>The contract of the shipped plugins\<close>

text \<open>The messages without the fields their protocol's streams are keyed by, told apart by the first bytes on
  the wire: an L2TPv3 control message (over UDP, with the T bit), a QUIC short header, and an 802.11 control
  frame of a subtype with no second address.\<close>

definition l2tpv3_control :: "parse_ctx \<Rightarrow> byte list \<Rightarrow> bool" where
  "l2tpv3_control ctx bytes \<longleftrightarrow> l2tpv3_over_udp ctx \<and> 4 \<le> length bytes \<and> (be_at bytes 0 4 :: 32 word) AND 0x80000000 \<noteq> 0"

definition quic_short_header :: "byte list \<Rightarrow> bool" where
  "quic_short_header bytes \<longleftrightarrow> bytes \<noteq> [] \<and> bytes ! 0 AND HEADER_FORM_BIT = 0"

definition dot11_without_addr2 :: "byte list \<Rightarrow> bool" where
  "dot11_without_addr2 bytes \<longleftrightarrow> bytes \<noteq> [] \<and> drop_bit 2 (bytes ! 0) AND 0x03 = TYPE_CONTROL \<and>
     drop_bit 4 (bytes ! 0) AND 0x0F \<notin> set CONTROL_SUBTYPES_WITH_ADDR2"

definition keyless :: "protocol_name \<Rightarrow> byte list \<Rightarrow> parse_ctx \<Rightarrow> bool" where
  "keyless n bytes ctx \<longleftrightarrow> n = ''l2tpv3'' \<and> l2tpv3_control ctx bytes \<or> n = ''quic'' \<and> quic_short_header bytes \<or>
     n = ''dot11'' \<and> dot11_without_addr2 bytes"

lemmas default_contracts =
  template.layer_plugin_axioms ethernet.layer_plugin_axioms vlan.layer_plugin_axioms ipv4.layer_plugin_axioms
  ipv6.layer_plugin_axioms arp.layer_plugin_axioms cdp.layer_plugin_axioms icmpv4.layer_plugin_axioms
  icmpv6.layer_plugin_axioms ndp.layer_plugin_axioms mld.layer_plugin_axioms igmp.layer_plugin_axioms
  vrrp.layer_plugin_axioms hsrp.layer_plugin_axioms ospf.layer_plugin_axioms bfd.layer_plugin_axioms
  tcp.layer_plugin_axioms udp.layer_plugin_axioms sctp.layer_plugin_axioms bgp.layer_plugin_axioms
  gre.layer_plugin_axioms erspan.layer_plugin_axioms mpls.layer_plugin_axioms vxlan.layer_plugin_axioms
  gtp_u.layer_plugin_axioms gtp_c.layer_plugin_axioms geneve.layer_plugin_axioms esp.layer_plugin_axioms
  ah.layer_plugin_axioms wireguard.layer_plugin_axioms pppoe.layer_plugin_axioms ppp.layer_plugin_axioms
  dns.layer_plugin_axioms mdns.layer_plugin_axioms llmnr.layer_plugin_axioms netbios_ns.layer_plugin_axioms
  dhcp.layer_plugin_axioms dhcpv6.layer_plugin_axioms ntp.layer_plugin_axioms ptp.layer_plugin_axioms
  rocev2.layer_plugin_axioms lldp.layer_plugin_axioms llc.layer_plugin_axioms lacp.layer_plugin_axioms
  stp.layer_plugin_axioms pvst_plus.layer_plugin_axioms eapol.layer_plugin_axioms radiotap.layer_plugin_axioms
  modbus.layer_plugin_axioms mqtt.layer_plugin_axioms dnp3.layer_plugin_axioms enip.layer_plugin_axioms
  bacnet_ip.layer_plugin_axioms syslog.layer_plugin_axioms snmp.layer_plugin_axioms radius.layer_plugin_axioms
  kerberos.layer_plugin_axioms ldap.layer_plugin_axioms ssdp.layer_plugin_axioms http.layer_plugin_axioms
  http2.layer_plugin_axioms tls.layer_plugin_axioms ssh.layer_plugin_axioms websocket.layer_plugin_axioms
  stun.layer_plugin_axioms ftp.layer_plugin_axioms tftp.layer_plugin_axioms smtp.layer_plugin_axioms
  imap.layer_plugin_axioms pop3.layer_plugin_axioms smb2.layer_plugin_axioms nfs.layer_plugin_axioms
  sip.layer_plugin_axioms rtp.layer_plugin_axioms rtcp.layer_plugin_axioms amqp.layer_plugin_axioms
  redis.layer_plugin_axioms netflow9.layer_plugin_axioms ipfix.layer_plugin_axioms

lemma layer_framed: "layer_plugin p \<Longrightarrow> framed_plugin p"
  by (rule layer_plugin.axioms(1))

text \<open>A plugin that reports the fields of its key on exactly the messages that have them.\<close>

definition keyed_unless :: "plugin \<Rightarrow> bool" where
  "keyed_unless p \<longleftrightarrow> (\<forall>bytes ctx pl si. pg_parse p bytes ctx = Inr pl \<longrightarrow> Keys \<le> ctx_depth ctx \<longrightarrow>
     pg_stream_identity p = Some si \<longrightarrow>
     (set (key_names si) \<subseteq> set (fm_names (pl_fields pl)) \<longleftrightarrow> \<not> keyless (pg_name p) bytes ctx))"

lemma keyed_unlessI:
  assumes "\<And>bytes ctx. gives (\<lambda>pl. Keys \<le> ctx_depth ctx \<longrightarrow>
      (set (identity_keys p) \<subseteq> set (fm_names (pl_fields pl)) \<longleftrightarrow> \<not> keyless (pg_name p) bytes ctx)) (pg_parse p bytes ctx)"
  shows "keyed_unless p"
  unfolding keyed_unless_def
proof (intro allI impI)
  fix bytes ctx pl si
  assume "pg_parse p bytes ctx = Inr pl" "Keys \<le> ctx_depth ctx" "pg_stream_identity p = Some si"
  then show "set (key_names si) \<subseteq> set (fm_names (pl_fields pl)) \<longleftrightarrow> \<not> keyless (pg_name p) bytes ctx"
    using givesD[OF assms, of bytes ctx pl] by (simp add: identity_keys_def)
qed

lemma layer_keyed_unless:
  assumes "layer_plugin p" and "pg_name p \<notin> {''l2tpv3'', ''quic'', ''dot11''}"
  shows "keyed_unless p"
  unfolding keyed_unless_def keyless_def
  using layer_plugin.key_fields_present[OF assms(1)] assms(2) by (auto simp: fm_get_None_iff)

lemma fm_names_Nil [simp]: "fm_names [] = []"
  by (simp add: fm_names_def)

lemma quic_keyed_unless: "keyed_unless quic"
  by (rule keyed_unlessI)
    (auto simp: quic_def quic_parse_def quic_identity_def keyless_def quic_short_header_def plugin_simps fits_def new_reader_sel fm_new_def
      intro!: gives_intros)

lemma l2tpv3_keyed_unless: "keyed_unless l2tpv3"
  by (rule keyed_unlessI)
    (auto simp: l2tpv3_def l2tpv3_parse_def l2tpv3_t_bit_def l2tpv3_identity_def keyless_def l2tpv3_control_def plugin_simps
      fits_def new_reader_sel fm_new_def intro!: gives_intros)

lemma dot11_keyed_unless: "keyed_unless dot11"
  by (rule keyed_unlessI)
    (auto simp: dot11_def dot11_parse_def dot11_control_def dot11_management_def dot11_data_def dot11_identity_def keyless_def
      dot11_without_addr2_def plugin_simps fits_def new_reader_sel fm_new_def intro!: gives_intros)

lemma default_keyed: "list_all keyed_unless default_plugins"
proof -
  have "list_all (\<lambda>p. keyed_unless p \<or> layer_plugin p) default_plugins"
    by (simp add: default_plugins_def default_contracts quic_keyed_unless l2tpv3_keyed_unless dot11_keyed_unless)
  moreover have "list_all (\<lambda>p. pg_name p \<in> {''l2tpv3'', ''quic'', ''dot11''} \<longrightarrow> keyed_unless p) default_plugins"
    by (simp add: default_plugins_def quic_keyed_unless l2tpv3_keyed_unless dot11_keyed_unless)
      (simp add: default_plugin_defs default_plugin_def)
  ultimately show ?thesis using layer_keyed_unless by (auto simp: list_all_iff)
qed

text \<open>C16. Every shipped plugin frames its layer inside the bytes it was given and reports nothing at depth
  none, on every input.\<close>

theorem default_plugins_framed: "list_all framed_plugin default_plugins"
  by (simp add: default_plugins_def default_contracts[THEN layer_framed]
      l2tpv3.framed_plugin_axioms quic.framed_plugin_axioms dot11.framed_plugin_axioms)

lemma default_canonicalize:
  "list_all (\<lambda>p. case pg_stream_identity p of Some si \<Rightarrow> si_canonicalize si = EndpointSort | None \<Rightarrow> True) default_plugins"
  by (simp add: default_plugins_def default_plugin_defs default_plugin_def default_identity_defs keyed_def paired_def)

lemma find_unique: "distinct (map f xs) \<Longrightarrow> x \<in> set xs \<Longrightarrow> List.find (\<lambda>y. f y = f x) xs = Some x"
  by (induction xs) auto

lemma default_flow_key:
  assumes "p \<in> set default_plugins" "pg_parse p bs ctx = Inr pl" "Keys \<le> ctx_depth ctx" "pg_stream_identity p = Some si"
  shows "(\<exists>key. flow_key si (pl_fields pl) = Inr key) \<longleftrightarrow> \<not> keyless (pg_name p) bs ctx"
proof -
  have k: "keyed_unless p" and c: "si_canonicalize si = EndpointSort"
    using default_keyed default_canonicalize assms(1,4) by (auto simp: list_all_iff split: option.splits)
  have "first_missing si (pl_fields pl) = None \<longleftrightarrow> set (key_names si) \<subseteq> set (fm_names (pl_fields pl))"
    by (auto simp: first_missing_None fm_get_None_iff)
  with k assms(2-4) have "first_missing si (pl_fields pl) = None \<longleftrightarrow> \<not> keyless (pg_name p) bs ctx"
    unfolding keyed_unless_def by blast
  moreover have "(\<exists>key. flow_key si (pl_fields pl) = Inr key) \<longleftrightarrow> first_missing si (pl_fields pl) = None"
    by (simp add: flow_key_spec[OF c] Let_def split: option.split)
  ultimately show ?thesis by simp
qed

text \<open>C15. Layers are typed for their streams: whatever the bytes, every layer the default engine reports at depth
  \<open>Keys\<close> or more comes from the registered plugin of its name, and if that protocol has streams the layer carries
  every field their key is built from, so the flow key exists, exactly unless its first bytes on the wire make it an
  L2TPv3 control message, a QUIC short header or an 802.11 control frame of a subtype without a second address.\<close>

theorem default_layers_typed:
  assumes "default_engine = Inr e" "dissect e bytes meta opts = Some pkt" "i < length (dp_layers pkt)"
    "lr = dp_layers pkt ! i" "Keys \<le> effective_depth opts"
  shows "\<exists>p. plugin_by_name e (lr_protocol lr) = Some p \<and>
    (\<forall>si. pg_stream_identity p = Some si \<longrightarrow> ((\<exists>key. flow_key si (lr_fields lr) = Inr key) \<longleftrightarrow>
       \<not> keyless (lr_protocol lr) (drop (lr_offset lr) bytes) (ctx_at meta opts (take i (dp_layers pkt)))))"
proof -
  note e = default_engine_sel[OF assms(1)]
  obtain recs h r where w: "walk e bytes meta opts recs h" "pkt = packet_at e bytes meta opts recs h r"
    using assms(2) by (rule dissect_walkE)
  then obtain p pl where p: "p \<in> set default_plugins" "pg_name p = lr_protocol lr"
    "pg_parse p (drop (lr_offset lr) bytes) (ctx_at meta opts (take i (dp_layers pkt))) = Inr pl" "lr_fields lr = pl_fields pl"
    using walk_records[OF w(1) e(2), of i] assms(3,4) e(1) by auto
  have "List.find (\<lambda>q. pg_name q = lr_protocol lr) default_plugins = Some p"
    using find_unique[OF default_names_distinct p(1)] p(2) by simp
  then show ?thesis using e(3) default_flow_key[OF p(1,3)] p(2,4) assms(5) by (auto simp: ctx_at_def)
qed

definition sample_packet :: "byte list" where "sample_packet = [0, 1, 0, 2, 0, 0, 0, 8]"

definition sample_opts :: parse_opts where
  "sample_opts = default_opts\<lparr>po_entry := Some ''template'', po_depth := Full\<rparr>"

definition sample_meta :: packet_meta where
  "sample_meta = \<lparr>timestamp = 0, caplen = 8, origlen = 8, link_type = 1\<rparr>"

definition sample_record :: layer_record where
  "sample_record = \<lparr>lr_protocol = ''template'', lr_offset = 0, lr_header_len = 8,
     lr_fields = [(''src'', U64 1), (''dst'', U64 2), (''type'', U64 0), (''len'', U64 8)]\<rparr>"

lemma sample_dissect:
  assumes "default_engine = Inr e"
  shows "\<exists>pkt. dissect e sample_packet sample_meta sample_opts = Some pkt \<and> dp_layers pkt = [sample_record]"
proof -
  have t: "plugin_by_name e ''template'' = Some template"
    by (simp add: default_engine_sel[OF assms] default_plugins_def template_def default_plugin_def)
  have parse: "pg_parse template sample_packet (ctx_at sample_meta sample_opts []) =
      Inr \<lparr>pl_header_len = 8, pl_fields = lr_fields sample_record, pl_hint = Terminal\<rparr>"
    by (simp add: template_def default_plugin_def template_parse_def sample_packet_def sample_record_def sample_opts_def ctx_at_def
        effective_depth_def default_opts_def try_simps fits_def usize_max_def be_at_2 insert_at_def fm_new_def Let_def)
  have layer: "outcome_at e sample_packet sample_meta sample_opts [] None =
      Layer ''template'' \<lparr>pl_header_len = 8, pl_fields = lr_fields sample_record, pl_hint = Terminal\<rparr> False"
    using t parse
    by (simp add: outcome_at_def resolve_entry_def dispatch_explicit_def sample_opts_def header_len_ok_def sample_packet_def)
      (simp add: template_def default_plugin_def)
  have room: "2 \<le> po_max_layers sample_opts" by (simp add: sample_opts_def default_opts_def)
  have "record_of [] ''template'' \<lparr>pl_header_len = 8, pl_fields = lr_fields sample_record, pl_hint = Terminal\<rparr> = sample_record"
    by (simp add: record_of_def sample_record_def)
  then have w: "walk e sample_packet sample_meta sample_opts [sample_record] (Some Terminal)"
    using walk_layer[OF walk_start _ layer] room by simp
  have "stops_with e sample_packet sample_meta sample_opts [sample_record] (Some Terminal) Complete"
    using room by (simp add: stops_with_def outcome_at_def resolve_next_def sample_packet_def sample_record_def)
  moreover have "entry_ok e sample_opts" using t by (simp add: entry_ok_def sample_opts_def)
  ultimately have "dissect e sample_packet sample_meta sample_opts =
      Some (packet_at e sample_packet sample_meta sample_opts [sample_record] (Some Terminal) Complete)"
    using w unfolding dissect_iff_walk by blast
  then show ?thesis by simp
qed

theorem default_layers_typed_witness:
  "\<exists>e pkt key. default_engine = Inr e \<and> dissect e sample_packet sample_meta sample_opts = Some pkt \<and>
    dp_layers pkt = [sample_record] \<and> flow_key template_identity (lr_fields sample_record) = Inr key"
proof -
  obtain e where e: "default_engine = Inr e" by (simp add: default_engine_eq)
  obtain pkt where p: "dissect e sample_packet sample_meta sample_opts = Some pkt" "dp_layers pkt = [sample_record]"
    using sample_dissect[OF e] by blast
  have "plugin_by_name e ''template'' = Some template"
    by (simp add: default_engine_sel[OF e] default_plugins_def template_def default_plugin_def)
  moreover have "\<exists>p. plugin_by_name e ''template'' = Some p \<and>
      (\<forall>si. pg_stream_identity p = Some si \<longrightarrow> (\<exists>key. flow_key si (lr_fields sample_record) = Inr key))"
    using default_layers_typed[OF e p(1), of 0 sample_record] p(2)
    by (simp add: sample_record_def keyless_def sample_opts_def effective_depth_def default_opts_def)
  ultimately show ?thesis using e p by (auto simp: template_def default_plugin_def)
qed

end
