(* ===== verification/Fmt.thy ===== *)
theory Fmt
  imports Text Plugin
begin

text \<open>
  \<open>pktflow-view/src/fmt.rs\<close>: rendering of field values, addresses, flags and counts. The resolver of
  route names is the value of the crate's global slot; Unicode case mapping is a parameter. The
  time-stamp rendering of the external \<open>time\<close> crate and the floating-point \<open>human_bytes\<close> are left out.
\<close>

record view_env =
  ve_resolver :: "(route_id \<Rightarrow> string option) option"
  ve_upper :: "string \<Rightarrow> string"
  ve_lower :: "string \<Rightarrow> string"

section \<open>Route names\<close>

definition register_route_resolver :: "(route_id \<Rightarrow> string option) \<Rightarrow> view_env \<Rightarrow> view_env" where
  "register_route_resolver f env = env\<lparr>ve_resolver := Some f\<rparr>"

definition resolve_route_name :: "view_env \<Rightarrow> route_id \<Rightarrow> string option" where
  "resolve_route_name env i = Option.bind (ve_resolver env) (\<lambda>r. r i)"

fun get_u64 :: "value_t \<Rightarrow> u64 option" where
  "get_u64 (U64 v) = Some v"
| "get_u64 (I64 v) = (if 0 \<le> sint v then Some v else None)"
| "get_u64 _ = None"

definition format_protocol_display_name :: "view_env \<Rightarrow> string \<Rightarrow> string" where
  "format_protocol_display_name env name =
    (if name = ''ipv4'' then ''IPv4'' else if name = ''ipv6'' then ''IPv6''
     else if name = ''icmpv4'' then ''ICMPv4'' else if name = ''icmpv6'' then ''ICMPv6''
     else if name = ''dhcpv6'' then ''DHCPv6'' else if name = ''bacnet_ip'' then ''BACnet/IP''
     else if name = ''pvst_plus'' then ''PVST+'' else if name = ''netflow9'' then ''NetFlow 9''
     else ve_upper env name)"

definition resolve_field_route_id :: "string \<Rightarrow> string \<Rightarrow> u64 \<Rightarrow> route_id option" where
  "resolve_field_route_id protocol name val =
    (let portish = name \<in> {''src_port'', ''dst_port'', ''port''} in
     if (name = ''ethertype'' \<or> protocol = ''gre'' \<and> name = ''protocol'' \<or> protocol = ''llc'' \<and> name = ''pid'')
        \<and> unat val < 2 ^ 16 then Some (EtherType (ucast val))
     else if (name = ''next_header'' \<or> protocol = ''ipv4'' \<and> name = ''protocol'') \<and> unat val < 2 ^ 8
       then Some (IpProtocol (ucast val))
     else if protocol = ''udp'' \<and> portish \<and> unat val < 2 ^ 16 then Some (UdpPort (ucast val))
     else if protocol = ''tcp'' \<and> portish \<and> unat val < 2 ^ 16 then Some (TcpPort (ucast val))
     else if protocol = ''llc'' \<and> (name = ''dsap'' \<or> name = ''ssap'') then Some (Custom ''llc_dsap'' val)
     else if protocol = ''icmpv6'' \<and> name = ''type'' then Some (Custom ''icmpv6_type'' val)
     else None)"

fun format_unresolved_value :: "route_id \<Rightarrow> string" where
  "format_unresolved_value (EtherType v) = ''0x'' @ pad 4 (show_hex (unat v))"
| "format_unresolved_value (Custom sp i) =
    (if sp = ''snap_pid'' then ''0x'' @ pad 4 (show_hex (unat i))
     else if sp = ''llc_dsap'' then ''0x'' @ pad 2 (show_hex (unat i)) else show_nat (unat i))"
| "format_unresolved_value (IpProtocol v) = show_nat (unat v)"
| "format_unresolved_value (UdpPort v) = show_nat (unat v)"
| "format_unresolved_value (TcpPort v) = show_nat (unat v)"
| "format_unresolved_value (LinkType v) = show_nat (unat v)"

text \<open>Every arm is the display name followed by the unresolved rendering in parentheses.\<close>

definition format_resolved_value :: "view_env \<Rightarrow> route_id \<Rightarrow> string \<Rightarrow> string" where
  "format_resolved_value env i name =
    format_protocol_display_name env name @ '' ('' @ format_unresolved_value i @ '')''"

section \<open>Values\<close>

text \<open>The zero-run scan of \<open>ipv6_compressed_str\<close>: the inner and the outer loop.\<close>

function skip_zeros :: "u16 list \<Rightarrow> nat \<Rightarrow> nat" where
  "skip_zeros g i = (if i < length g \<and> g ! i = 0 then skip_zeros g (i + 1) else i)"
  by auto
termination by (relation "measure (\<lambda>(g, i). length g - i)") auto

declare skip_zeros.simps [simp del]

lemma skip_zeros_ge: "i \<le> skip_zeros g i"
  by (induction g i rule: skip_zeros.induct) (subst skip_zeros.simps, auto)

lemma skip_zeros_gt: "i < length g \<Longrightarrow> g ! i = 0 \<Longrightarrow> i < skip_zeros g i"
  using skip_zeros_ge[of "i + 1" g] by (subst skip_zeros.simps) simp

function best_run :: "u16 list \<Rightarrow> nat \<Rightarrow> (nat \<times> nat) option \<Rightarrow> (nat \<times> nat) option" where
  "best_run g i best =
    (if i < length g then
       if g ! i = 0 then
         let j = skip_zeros g i; len = j - i in
         best_run g j (if 2 \<le> len \<and> (case best of None \<Rightarrow> True | Some (_, best_len) \<Rightarrow> best_len < len)
           then Some (i, len) else best)
       else best_run g (i + 1) best
     else best)"
  by auto
termination
  by (relation "measure (\<lambda>(g, i, b). length g - i)") (auto simp: skip_zeros_gt diff_less_mono2)

declare best_run.simps [simp del]

definition groups_of :: "byte list \<Rightarrow> u16 list" where
  "groups_of b = map (\<lambda>i. from_be_bytes [b ! (2 * i), b ! (2 * i + 1)]) [0..<8]"

definition hex_group :: "u16 \<Rightarrow> string" where
  "hex_group g = show_hex (unat g)"

definition dotted :: "byte list \<Rightarrow> string" where
  "dotted bs = join ''.'' (map (\<lambda>b. show_nat (unat b)) bs)"

definition ipv6_compressed_str :: "byte list \<Rightarrow> string" where
  "ipv6_compressed_str b =
    (let groups = groups_of b in
     if take 5 groups = [0, 0, 0, 0, 0] \<and> groups ! 5 = 0xffff then ''::ffff:'' @ dotted (take 4 (drop 12 b))
     else case best_run groups 0 None of
       Some (start, len) \<Rightarrow>
        join '':'' (map hex_group (take start groups)) @ ''::'' @ join '':'' (map hex_group (drop (start + len) groups))
     | None \<Rightarrow> join '':'' (map hex_group groups))"

definition hex2 :: "byte \<Rightarrow> string" where
  "hex2 b = pad 2 (show_hex (unat b))"

text \<open>The ellipsis is the three bytes of its UTF-8 encoding.\<close>

definition ellipsis :: string where
  "ellipsis = map char_of [0xE2, 0x80, 0xA6 :: nat]"

definition bytes_str :: "string \<Rightarrow> byte list \<Rightarrow> string" where
  "bytes_str name b =
    (let mac_like = ends_with name ''_mac'' \<or> length b = 6;
         addr_like = ends_with name ''_addr'' \<or> ends_with name ''_ip'' in
     if length b = 4 \<and> addr_like then dotted b
     else if length b = 16 \<and> addr_like then ipv6_compressed_str b
     else if length b = 6 \<and> mac_like then join '':'' (map hex2 b)
     else concat (map hex2 (take 32 b)) @ (if 32 < length b then ellipsis else []))"

fun value_str :: "string \<Rightarrow> value_t \<Rightarrow> string" where
  "value_str name (Bytes b) = bytes_str name b"
| "value_str name (U64 v) = show_nat (unat v)"
| "value_str name (I64 v) = show_int (sint v)"
| "value_str name (VBool v) = (if v then ''true'' else ''false'')"
| "value_str name (Str s) = s"
| "value_str name (VList items) = join '','' (map (value_str name) items)"

definition FLAG_NAMES :: "(u64 \<times> string) list" where
  "FLAG_NAMES = [(0x02, ''SYN''), (0x01, ''FIN''), (0x04, ''RST''), (0x08, ''PSH''), (0x20, ''URG''), (0x40, ''ECE''),
     (0x80, ''CWR''), (0x10, ''ACK'')]"

definition tcp_flags_str :: "u64 \<Rightarrow> string" where
  "tcp_flags_str bits =
    (let parts = map snd (filter (\<lambda>(b, _). bits AND b \<noteq> 0) FLAG_NAMES) in
     if parts = [] then ''none'' else join ''+'' parts)"

definition field_value_str :: "view_env \<Rightarrow> string \<Rightarrow> string \<Rightarrow> value_t \<Rightarrow> string" where
  "field_value_str env protocol name v =
    (case (if protocol = ''tcp'' \<and> name = ''flags'' then (case v of U64 bits \<Rightarrow> Some bits | _ \<Rightarrow> None) else None) of
       Some bits \<Rightarrow> tcp_flags_str bits
     | None \<Rightarrow>
        (case Option.bind (get_u64 v) (resolve_field_route_id protocol name) of
           Some i \<Rightarrow>
            (case resolve_route_name env i of
               Some resolved \<Rightarrow> format_resolved_value env i resolved
             | None \<Rightarrow> format_unresolved_value i)
         | None \<Rightarrow> value_str name v))"

definition fields_str :: "field_map \<Rightarrow> string" where
  "fields_str fm = join '' '' (map (\<lambda>(name, v). name @ ''='' @ value_str name v) fm)"

section \<open>Times and counts\<close>

definition two :: "nat \<Rightarrow> string" where
  "two n = pad 2 (show_nat n)"

definition human_duration :: "duration \<Rightarrow> string" where
  "human_duration d = (let s = d div 10 ^ 9 in two (s div 3600) @ '':'' @ two (s div 60 mod 60) @ '':'' @ two (s mod 60))"

definition time_of_day :: "system_time \<Rightarrow> string" where
  "time_of_day t =
    (let since = nat t; s = since div 10 ^ 9 mod 86400 in
     two (s div 3600) @ '':'' @ two (s div 60 mod 60) @ '':'' @ two (s mod 60) @ ''.'' @
       pad 3 (show_nat (since mod 10 ^ 9 div 10 ^ 6)))"

function chunks :: "nat \<Rightarrow> 'a list \<Rightarrow> 'a list list" where
  "chunks n xs = (if xs = [] \<or> n = 0 then [] else take n xs # chunks n (drop n xs))"
  by auto
termination by (relation "measure (\<lambda>(n, xs). length xs)") auto

declare chunks.simps [simp del]

definition hex_dump_lines :: "byte list \<Rightarrow> string list" where
  "hex_dump_lines bytes =
    map (\<lambda>(i, chunk). pad 4 (show_hex (i * 16)) @ ''  '' @ join '' '' (map hex2 chunk)) (enumerate 0 (chunks 16 bytes))"

definition thousands :: "u64 \<Rightarrow> string" where
  "thousands n =
    (let digits = show_nat (unat n) in
     concat (map (\<lambda>(i, c). (if 0 < i \<and> (length digits - i) mod 3 = 0 then '','' else []) @ [c]) (enumerate 0 digits)))"

section \<open>Separators only separate\<close>

lemma filter_concat_map: "filter P (concat (map f xs)) = concat (map (\<lambda>x. filter P (f x)) xs)"
  by (induction xs) auto

lemma map_snd_enumerate: "map snd (enumerate n xs) = xs"
  by (induction xs arbitrary: n) auto

text \<open>Without its commas the thousands rendering is the plain decimal.\<close>

lemma thousands_digits: "filter (\<lambda>c. c \<noteq> CHR '','') (thousands n) = show_nat (unat n)"
proof -
  let ?d = "show_nat (unat n)"
  let ?f = "\<lambda>(i, c). (if 0 < i \<and> (length ?d - i) mod 3 = 0 then '','' else []) @ [c]"
  have c: "snd e \<noteq> CHR '',''" if "e \<in> set (enumerate 0 ?d)" for e
    using show_nat_digits[of "snd e" "unat n"] in_set_enumerate_eq[of e 0 ?d] that
    nth_mem[of "fst e" ?d] by (auto simp: is_ascii_digit_def code_def)
  have "filter (\<lambda>c. c \<noteq> CHR '','') (thousands n) =
    concat (map (\<lambda>e. filter (\<lambda>c. c \<noteq> CHR '','') (?f e)) (enumerate 0 ?d))"
    by (simp add: thousands_def Let_def filter_concat_map)
  also have "\<dots> = concat (map (\<lambda>e. [snd e]) (enumerate 0 ?d))"
    using c by (intro arg_cong[of _ _ concat] map_cong) (fastforce split: prod.split)+
  also have "\<dots> = map snd (enumerate 0 ?d)" by (induction ?d rule: rev_induct) (simp_all add: map_concat[symmetric] concat_map_singleton)
  finally show ?thesis by (simp add: map_snd_enumerate)
qed

section \<open>The zero run that is collapsed\<close>

definition zero_run :: "u16 list \<Rightarrow> nat \<Rightarrow> nat \<Rightarrow> bool" where
  "zero_run g a n \<longleftrightarrow> a + n \<le> length g \<and> (\<forall>j < n. g ! (a + j) = 0)"

lemma skip_zeros_run: "i \<le> length g \<Longrightarrow> zero_run g i (skip_zeros g i - i) \<and> skip_zeros g i \<le> length g \<and>
    (skip_zeros g i < length g \<longrightarrow> g ! skip_zeros g i \<noteq> 0)"
proof (induction g i rule: skip_zeros.induct)
  case (1 g i)
  show ?case
  proof (cases "i < length g \<and> g ! i = 0")
    case True
    with 1 have IH: "zero_run g (i + 1) (skip_zeros g (i + 1) - (i + 1))" "skip_zeros g (i + 1) \<le> length g"
      "skip_zeros g (i + 1) < length g \<longrightarrow> g ! skip_zeros g (i + 1) \<noteq> 0" by auto
    have e: "skip_zeros g i = skip_zeros g (i + 1)" using True by (subst skip_zeros.simps) simp
    have le: "i + 1 \<le> skip_zeros g (i + 1)" by (rule skip_zeros_ge)
    have "g ! (i + j) = 0" if "j < skip_zeros g (i + 1) - i" for j
      using that IH(1) True by (cases j) (auto simp: zero_run_def)
    with IH le show ?thesis by (auto simp: e zero_run_def)
  next
    case False
    with 1(2) show ?thesis by (subst (1 2 3 4) skip_zeros.simps) (auto simp: zero_run_def)
  qed
qed

text \<open>What the scan knows: no run crosses its position, and \<open>best\<close> is the longest run before it, the
  leftmost of that length.\<close>

definition no_crossing :: "u16 list \<Rightarrow> nat \<Rightarrow> bool" where
  "no_crossing g i \<longleftrightarrow> (\<forall>a n. zero_run g a n \<longrightarrow> 0 < n \<longrightarrow> a + n \<le> i \<or> i \<le> a)"

definition known :: "u16 list \<Rightarrow> nat \<Rightarrow> (nat \<times> nat) option \<Rightarrow> bool" where
  "known g i best \<longleftrightarrow>
    (case best of
       None \<Rightarrow> \<forall>a n. zero_run g a n \<longrightarrow> a + n \<le> i \<longrightarrow> n < 2
     | Some (s, l) \<Rightarrow> zero_run g s l \<and> 2 \<le> l \<and> s + l \<le> i \<and>
        (\<forall>a n. zero_run g a n \<longrightarrow> a + n \<le> i \<longrightarrow> 2 \<le> n \<longrightarrow> n \<le> l \<and> (n = l \<longrightarrow> s \<le> a)))"

lemma zero_runD: "zero_run g a n \<Longrightarrow> a \<le> k \<Longrightarrow> k < a + n \<Longrightarrow> g ! k = 0"
  unfolding zero_run_def by (metis le_add_diff_inverse nat_add_left_cancel_less)

lemma scan_nonzero:
  assumes "no_crossing g i" "known g i best" "i < length g" "g ! i \<noteq> 0"
  shows "no_crossing g (i + 1)" "known g (i + 1) best"
proof -
  have no: "a + n \<le> i \<or> i + 1 \<le> a" if "zero_run g a n" "0 < n" for a n
    using zero_runD[OF that(1), of i] assms(4) that(2) by fastforce
  then show "no_crossing g (i + 1)" unfolding no_crossing_def by fastforce
  have "a + n \<le> i" if "zero_run g a n" "2 \<le> n" "a + n \<le> i + 1" for a n using no[OF that(1)] that(2,3) by auto
  with assms(2) show "known g (i + 1) best" unfolding known_def by (fastforce split: option.splits)
qed

lemma scan_run:
  assumes "no_crossing g i" "known g i best" "i < length g" "g ! i = 0"
  defines "j \<equiv> skip_zeros g i"
  defines "len \<equiv> j - i"
  shows "no_crossing g j"
    "known g j (if 2 \<le> len \<and> (case best of None \<Rightarrow> True | Some (_, best_len) \<Rightarrow> best_len < len) then Some (i, len) else best)"
proof -
  have r: "zero_run g i len" "j \<le> length g" "j < length g \<longrightarrow> g ! j \<noteq> 0" "i < j"
    using skip_zeros_run[of i g] skip_zeros_gt[OF assms(3,4)] assms(3) by (simp_all add: j_def len_def)
  have no: "a + n \<le> j \<or> j \<le> a" if "zero_run g a n" "0 < n" for a n
  proof (rule ccontr)
    assume "\<not> ?thesis"
    then have c: "a < j" "j < a + n" by auto
    with that have "j < length g" by (simp add: zero_run_def)
    with zero_runD[OF that(1), of j] c r(3) show False by simp
  qed
  then show "no_crossing g j" by (simp add: no_crossing_def)
  have inside: "a + n \<le> i \<or> (i \<le> a \<and> n \<le> len \<and> (n = len \<longrightarrow> a = i))" if "zero_run g a n" "2 \<le> n" "a + n \<le> j" for a n
    using assms(1) that r(4) unfolding no_crossing_def len_def by fastforce
  show "known g j (if 2 \<le> len \<and> (case best of None \<Rightarrow> True | Some (_, best_len) \<Rightarrow> best_len < len) then Some (i, len) else best)"
  proof (cases best)
    case None
    with assms(2) have old: "zero_run g a n \<Longrightarrow> a + n \<le> i \<Longrightarrow> n < 2" for a n by (simp add: known_def)
    show ?thesis
    proof (cases "2 \<le> len")
      case True
      have "n \<le> len \<and> (n = len \<longrightarrow> i \<le> a)" if "zero_run g a n" "a + n \<le> j" "2 \<le> n" for a n
        using inside[OF that(1,3,2)] old[OF that(1)] that(3) by auto
      with True r(1,4) None show ?thesis by (auto simp: known_def len_def)
    next
      case False
      have "n < 2" if "zero_run g a n" "a + n \<le> j" for a n
        using inside[OF that(1) _ that(2)] old[OF that(1)] False by (cases "2 \<le> n") auto
      with False None show ?thesis by (simp add: known_def)
    qed
  next
    case (Some b)
    obtain s l where b: "b = (s, l)" by (cases b)
    with Some assms(2) have old: "zero_run g s l" "2 \<le> l" "s + l \<le> i"
      "\<And>a n. zero_run g a n \<Longrightarrow> a + n \<le> i \<Longrightarrow> 2 \<le> n \<Longrightarrow> n \<le> l \<and> (n = l \<longrightarrow> s \<le> a)" by (auto simp: known_def)
    show ?thesis
    proof (cases "l < len")
      case True
      have "n \<le> len \<and> (n = len \<longrightarrow> i \<le> a)" if "zero_run g a n" "a + n \<le> j" "2 \<le> n" for a n
        using inside[OF that(1,3,2)] old(4)[OF that(1)] that(3) True by auto
      with True old(2) r(1,4) Some b show ?thesis by (auto simp: known_def len_def)
    next
      case False
      have "n \<le> l \<and> (n = l \<longrightarrow> s \<le> a)" if "zero_run g a n" "a + n \<le> j" "2 \<le> n" for a n
        using inside[OF that(1,3,2)] old(3) old(4)[OF that(1)] that(3) False by auto
      with False old(1-3) r(4) Some b show ?thesis by (auto simp: known_def)
    qed
  qed
qed

lemma best_run_known: "no_crossing g i \<Longrightarrow> known g i best \<Longrightarrow> i \<le> length g \<Longrightarrow> known g (length g) (best_run g i best)"
proof (induction g i best rule: best_run.induct)
  case (1 g i best)
  show ?case
  proof (cases "i < length g")
    case True
    then show ?thesis
    proof (cases "g ! i = 0")
      case z: True
      have "skip_zeros g i \<le> length g" using skip_zeros_run[of i g] True by simp
      with 1(1)[OF True z refl refl scan_run[OF 1(3,4) True z]] True z show ?thesis
        by (subst best_run.simps) (simp add: Let_def)
    next
      case False
      with 1(2)[OF True False scan_nonzero[OF 1(3,4) True False]] True show ?thesis by (subst best_run.simps) simp
    qed
  next
    case False
    with 1(4,5) show ?thesis by (subst best_run.simps) simp
  qed
qed

section \<open>Properties\<close>

text \<open>RFC 5952 compression: the collapsed run of an IPv6 address is the longest run of zero groups, at
  least two long, and the leftmost of that length; nothing is collapsed exactly when there is none.\<close>

theorem ipv6_run_longest_leftmost:
  "case best_run g 0 None of
     None \<Rightarrow> \<not> (\<exists>a n. zero_run g a n \<and> 2 \<le> n)
   | Some (s, l) \<Rightarrow> zero_run g s l \<and> 2 \<le> l \<and>
      \<not> (\<exists>a n. zero_run g a n \<and> (l < n \<or> n = l \<and> a < s))"
proof -
  have known: "known g (length g) (best_run g 0 None)"
    by (rule best_run_known) (auto simp: no_crossing_def known_def)
  have b: "a + n \<le> length g" if "zero_run g a n" for a n using that by (simp add: zero_run_def)
  show ?thesis
  proof (cases "best_run g 0 None")
    case None
    with known have "n < 2" if "zero_run g a n" for a n using b[OF that] that by (simp add: known_def)
    then show ?thesis using None by (auto simp: not_le)
  next
    case (Some r)
    obtain s l where r: "r = (s, l)" by (cases r)
    with Some known have k: "zero_run g s l" "2 \<le> l"
      "\<And>a n. zero_run g a n \<Longrightarrow> a + n \<le> length g \<Longrightarrow> 2 \<le> n \<Longrightarrow> n \<le> l \<and> (n = l \<longrightarrow> s \<le> a)" by (auto simp: known_def)
    have "\<not> (l < n \<or> n = l \<and> a < s)" if "zero_run g a n" for a n using k(2) k(3)[OF that b[OF that]] by auto
    with k r Some show ?thesis by auto
  qed
qed

end
