(* ===== verification/Rollup.thy ===== *)
theory Rollup
  imports Plugin
begin

text \<open>
  \<open>pktflow-flows/src/rollup.rs\<close>: per-stream retention of the fields a plugin nominates. The main
  lemma gives, for every declared field and every history of packets, the exact retained state as a
  function of the observed values: the first 64 distinct values, the first and last value, or the
  most recent points of a bounded series.
\<close>

definition ACCUMULATE_SET_CAP :: usize where
  "ACCUMULATE_SET_CAP = 64"

section \<open>Series points\<close>

text \<open>\<open>i64\<close> offsets are integers in the signed 64-bit range.\<close>

definition i64_max :: int where
  "i64_max = 2 ^ 63 - 1"

definition i64_min :: int where
  "i64_min = - (2 ^ 63)"

record series_point =
  ts_offset_nanos :: int
  sp_dir :: packet_direction
  sp_value :: "value_t"

definition series_point_new :: "system_time \<Rightarrow> system_time \<Rightarrow> packet_direction \<Rightarrow> value_t \<Rightarrow> series_point" where
  "series_point_new base ts dir v =
    \<lparr>ts_offset_nanos =
       (if base \<le> ts then (let after = ts - base in if after \<le> i64_max then after else i64_max)
        else (let before = base - ts in if before \<le> i64_max then - before else i64_min)),
     sp_dir = dir, sp_value = v\<rparr>"

definition sp_ts :: "series_point \<Rightarrow> system_time \<Rightarrow> system_time" where
  "sp_ts p base =
    (if 0 \<le> ts_offset_nanos p then base + ts_offset_nanos p else base - \<bar>ts_offset_nanos p\<bar>)"

section \<open>Rollups\<close>

datatype rollup =
    RAccumulate "value_t list" u64 bool
  | RSample "value_t option" "value_t option"
  | RSeries "series_point list" usize bool

type_synonym rollup_set = "(field_name \<times> rollup) list"

definition rollup_new :: "usize \<Rightarrow> usize option \<Rightarrow> rollup_kind \<Rightarrow> rollup" where
  "rollup_new series_default_cap series_max_cap kind =
    (case kind of
       Accumulate \<Rightarrow> RAccumulate [] 0 False
     | Sample \<Rightarrow> RSample None None
     | Series cap \<Rightarrow>
        (let cap = if cap = 0 then series_default_cap else cap in
         RSeries [] (case series_max_cap of None \<Rightarrow> cap | Some clamp \<Rightarrow> min cap (max clamp 1)) False))"

definition rollup_set_new :: "rollup_spec list \<Rightarrow> usize \<Rightarrow> usize option \<Rightarrow> rollup_set" where
  "rollup_set_new specs series_default_cap series_max_cap =
    map (\<lambda>spec. (rs_field spec, rollup_new series_default_cap series_max_cap (rs_kind spec))) specs"

fun rollup_observe :: "value_t \<Rightarrow> system_time \<Rightarrow> system_time \<Rightarrow> packet_direction \<Rightarrow> rollup \<Rightarrow> rollup" where
  "rollup_observe v base ts dir (RAccumulate vs cnt overflow) =
    (if v \<in> set vs then RAccumulate vs (cnt + 1) overflow
     else if length vs < ACCUMULATE_SET_CAP then RAccumulate (vs @ [v]) (cnt + 1) overflow
     else RAccumulate vs (cnt + 1) True)"
| "rollup_observe v base ts dir (RSample fst_v lst_v) =
    RSample (if fst_v = None then Some v else fst_v) (Some v)"
| "rollup_observe v base ts dir (RSeries ring cap truncated) =
    (if cap \<le> length ring
     then RSeries (tl ring @ [series_point_new base ts dir v]) cap True
     else RSeries (ring @ [series_point_new base ts dir v]) cap truncated)"

definition rollup_apply ::
  "field_map \<Rightarrow> system_time \<Rightarrow> system_time \<Rightarrow> packet_direction \<Rightarrow> rollup_set \<Rightarrow> rollup_set" where
  "rollup_apply fm base ts dir entries =
    map (\<lambda>(field, r).
      (field, case fm_get fm field of None \<Rightarrow> r | Some v \<Rightarrow> rollup_observe v base ts dir r)) entries"

definition rollup_get :: "rollup_set \<Rightarrow> field_name \<Rightarrow> rollup option" where
  "rollup_get entries field = map_option snd (List.find (\<lambda>(n, _). n = field) entries)"

definition rollup_is_empty :: "rollup_set \<Rightarrow> bool" where
  "rollup_is_empty entries \<longleftrightarrow> entries = []"

section \<open>What a rollup retains\<close>

type_synonym observation = "field_map \<times> system_time \<times> packet_direction"

text \<open>The values of one field over a packet history, oldest first.\<close>

definition observed :: "field_name \<Rightarrow> observation list \<Rightarrow> (value_t \<times> system_time \<times> packet_direction) list" where
  "observed field hist = List.map_filter (\<lambda>(fm, ts, dir). map_option (\<lambda>v. (v, ts, dir)) (fm_get fm field)) hist"

text \<open>Distinct elements in the order of their first occurrence.\<close>

definition nub :: "'a list \<Rightarrow> 'a list" where
  "nub xs = rev (remdups (rev xs))"

definition series_cap :: "usize \<Rightarrow> usize option \<Rightarrow> usize \<Rightarrow> usize" where
  "series_cap dflt max_cap cap =
    (case max_cap of None \<Rightarrow> (if cap = 0 then dflt else cap)
      | Some clamp \<Rightarrow> min (if cap = 0 then dflt else cap) (max clamp 1))"

definition point_of :: "system_time \<Rightarrow> value_t \<times> system_time \<times> packet_direction \<Rightarrow> series_point" where
  "point_of base = (\<lambda>(v, ts, dir). series_point_new base ts dir v)"

definition last_points :: "nat \<Rightarrow> 'a list \<Rightarrow> 'a list" where
  "last_points n xs = drop (length xs - n) xs"

fun retained :: "usize \<Rightarrow> usize option \<Rightarrow> system_time \<Rightarrow> rollup_kind \<Rightarrow>
    (value_t \<times> system_time \<times> packet_direction) list \<Rightarrow> rollup" where
  "retained dc mc base Accumulate obs =
    RAccumulate (take 64 (nub (map fst obs))) (of_nat (length obs)) (64 < length (nub (map fst obs)))"
| "retained dc mc base Sample obs =
    (if obs = [] then RSample None None else RSample (Some (fst (hd obs))) (Some (fst (last obs))))"
| "retained dc mc base (Series cap) obs =
    RSeries (last_points (max (series_cap dc mc cap) 1) (map (point_of base) obs)) (series_cap dc mc cap)
      (series_cap dc mc cap < length obs)"

lemma nub_snoc: "nub (xs @ [x]) = (if x \<in> set xs then nub xs else nub xs @ [x])"
  by (simp add: nub_def)

lemma set_nub [simp]: "set (nub xs) = set xs"
  by (simp add: nub_def)

lemma nub_Nil [simp]: "nub [] = []"
  by (simp add: nub_def)

lemma distinct_nub [simp]: "distinct (nub xs)"
  by (simp add: nub_def)

lemma last_points_Nil [simp]: "last_points n [] = []"
  by (simp add: last_points_def)

lemma last_points_snoc:
  "0 < n \<Longrightarrow> last_points n (xs @ [x]) =
    (if length xs < n then last_points n xs @ [x] else tl (last_points n xs) @ [x])"
  by (auto simp: last_points_def tl_drop drop_Suc[symmetric] Suc_diff_le)

lemma length_last_points [simp]: "length (last_points n xs) = min n (length xs)"
  by (simp add: last_points_def)

text \<open>One observation more extends the retained state.\<close>

lemma rollup_observe_retained:
  "rollup_observe v base ts dir (retained dc mc base kind obs) = retained dc mc base kind (obs @ [(v, ts, dir)])"
proof (cases kind)
  case Accumulate
  let ?n = "nub (map fst obs)"
  show ?thesis
  proof (cases "length ?n < 64")
    case True
    then have t: "take 64 ?n = ?n" by simp
    show ?thesis
      using True by (simp add: Accumulate t nub_snoc ACCUMULATE_SET_CAP_def)
  next
    case False
    have "v \<in> set (take 64 ?n) \<Longrightarrow> v \<in> set (map fst obs)" by (metis set_nub in_set_takeD)
    moreover have "64 < length ?n" if "v \<in> set (map fst obs)" "v \<notin> set (take 64 ?n)"
      using False that by (metis linorder_neqE_nat order_refl set_nub take_all)
    ultimately show ?thesis
      using False by (auto simp: Accumulate nub_snoc ACCUMULATE_SET_CAP_def)
  qed
next
  case (Series cap)
  show ?thesis
  proof (cases "obs = []")
    case True
    with Series show ?thesis by (auto simp: last_points_def point_of_def)
  next
    case False
    then have "0 < length obs" by simp
    then have "length obs < max (series_cap dc mc cap) 1 \<longleftrightarrow> \<not> series_cap dc mc cap \<le> length obs"
      by linarith
    with Series show ?thesis by (auto simp: last_points_snoc point_of_def)
  qed
qed auto

lemma rollup_apply_map:
  "rollup_apply fm base ts dir (map (\<lambda>s. (rs_field s, f s)) specs) =
    map (\<lambda>s. (rs_field s, case fm_get fm (rs_field s) of None \<Rightarrow> f s | Some v \<Rightarrow> rollup_observe v base ts dir (f s))) specs"
  by (simp add: rollup_apply_def)

definition rollup_run :: "system_time \<Rightarrow> observation list \<Rightarrow> rollup_set \<Rightarrow> rollup_set" where
  "rollup_run base hist rs = fold (\<lambda>(fm, ts, dir). rollup_apply fm base ts dir) hist rs"

lemma rollup_new_retained: "rollup_new dc mc kind = retained dc mc base kind []"
  by (cases kind) (simp_all add: rollup_new_def series_cap_def Let_def split: option.split)

lemma observed_snoc:
  "observed f (hist @ [(fm, ts, dir)]) =
    observed f hist @ (case fm_get fm f of None \<Rightarrow> [] | Some v \<Rightarrow> [(v, ts, dir)])"
  by (simp add: observed_def map_filter_def split: option.split)

section \<open>Properties\<close>

text \<open>Over any packet history, each declared field's rollup is exactly the retained summary of
  the values observed for it: an accumulating rollup keeps the first 64 distinct values in order of
  first sight, counts every observation (modulo \<open>2^64\<close>) and flags overflow exactly when a 65th
  distinct value was seen; a sample keeps the first and the last value; a series keeps the most
  recent points up to its configured cap (one point when the cap is zero) and flags truncation
  exactly when more were observed than the cap.\<close>

theorem rollup_run_retained:
  "rollup_run base hist (rollup_set_new specs dc mc) =
    map (\<lambda>spec. (rs_field spec, retained dc mc base (rs_kind spec) (observed (rs_field spec) hist))) specs"
proof (induction hist rule: rev_induct)
  case Nil
  then show ?case
    by (simp add: rollup_run_def rollup_set_new_def observed_def map_filter_simps rollup_new_retained[of _ _ _ base])
next
  case (snoc o' hist)
  obtain fm ts dir where o: "o' = (fm, ts, dir)" by (cases o') auto
  have "rollup_run base (hist @ [o']) (rollup_set_new specs dc mc) =
      rollup_apply fm base ts dir (rollup_run base hist (rollup_set_new specs dc mc))"
    by (simp add: rollup_run_def o)
  also have "\<dots> = map (\<lambda>spec. (rs_field spec,
      retained dc mc base (rs_kind spec) (observed (rs_field spec) (hist @ [o'])))) specs"
    unfolding snoc.IH rollup_apply_map o observed_snoc
    by (simp add: rollup_observe_retained split: option.split)
  finally show ?case .
qed

text \<open>A series point's timestamp survives the 64-bit offset encoding: resolving it against the
  stream's base gives the original time, clamped to the range the offset can express.\<close>

theorem series_point_ts_clamped:
  "sp_ts (series_point_new base ts dir v) base = max (base + i64_min) (min (base + i64_max) ts)"
  by (simp add: sp_ts_def series_point_new_def i64_max_def i64_min_def Let_def)

end
