(* ===== verification/Unknown.thy ===== *)
theory Unknown
  imports Rollup
begin

text \<open>
  \<open>pktflow-flows/src/unknown.rs\<close>: the capture-wide registry of unknown-occurrence evidence, one
  group per shape of unknown, capped by least-recent update. The lemmas give the registry's
  invariant, the bound on every part of it, that eviction keeps exactly the most recently updated
  groups, and that the listing does not depend on the hash map's iteration order.
\<close>

record endpoint_key =
  ep_protocol :: protocol_name
  ep_key :: flow_key

datatype unknown_key = UnknownKey (uk_predecessor: protocol_name) (uk_route: "route_id option")

text \<open>The derived order: predecessor first, then the route with \<open>None\<close> least.\<close>

instantiation unknown_key :: linorder
begin

definition less_eq_unknown_key :: "unknown_key \<Rightarrow> unknown_key \<Rightarrow> bool" where
  "less_eq_unknown_key a b \<longleftrightarrow> (uk_predecessor a, uk_route a) \<le> (uk_predecessor b, uk_route b)"

definition less_unknown_key :: "unknown_key \<Rightarrow> unknown_key \<Rightarrow> bool" where
  "less_unknown_key a b \<longleftrightarrow> (uk_predecessor a, uk_route a) < (uk_predecessor b, uk_route b)"

instance
proof
  fix x y z :: unknown_key
  show "x < y \<longleftrightarrow> x \<le> y \<and> \<not> y \<le> x" unfolding less_eq_unknown_key_def less_unknown_key_def by (rule less_le_not_le)
  show "x \<le> x" unfolding less_eq_unknown_key_def by (rule order_refl)
  show "x \<le> y \<Longrightarrow> y \<le> z \<Longrightarrow> x \<le> z" unfolding less_eq_unknown_key_def by (rule order_trans)
  show "x \<le> y \<Longrightarrow> y \<le> x \<Longrightarrow> x = y"
    unfolding less_eq_unknown_key_def by (drule (1) order_antisym) (cases x, cases y, simp)
  show "x \<le> y \<or> y \<le> x" unfolding less_eq_unknown_key_def by (rule linear)
qed

end

fun unknown_key_of :: "unknown_context \<Rightarrow> unknown_key" where
  "unknown_key_of (CtxUnclaimedRoute predecessor route) = UnknownKey predecessor (Some route)"
| "unknown_key_of (NoHeuristicWinner predecessor) = UnknownKey predecessor None"

record unknown_group =
  ug_key :: unknown_key
  ug_count :: u64
  ug_bytes_total :: u64
  ug_bytes_min :: u32
  ug_bytes_max :: u32
  ug_first_seen :: system_time
  ug_last_seen :: system_time
  ug_endpoints :: "endpoint_key list"
  ug_endpoints_overflow :: bool
  ug_near_misses :: "(protocol_name \<times> confidence) list"
  ug_samples :: "byte list list"

record unknown_registry_config =
  urc_max_groups :: usize
  urc_samples_per_group :: usize

definition default_registry_config :: unknown_registry_config where
  "default_registry_config = \<lparr>urc_max_groups = 500, urc_samples_per_group = 5\<rparr>"

record unknown_registry =
  ur_groups :: "(unknown_key, unknown_group) hmap"
  ur_seqs :: "unknown_key \<rightharpoonup> u64"
  ur_next_seq :: u64

definition unknown_registry_new :: unknown_registry where
  "unknown_registry_new = \<lparr>ur_groups = [], ur_seqs = Map.empty, ur_next_seq = 0\<rparr>"

definition new_group :: "unknown_key \<Rightarrow> system_time \<Rightarrow> unknown_group" where
  "new_group k ts = \<lparr>ug_key = k, ug_count = 0, ug_bytes_total = 0, ug_bytes_min = - 1, ug_bytes_max = 0,
     ug_first_seen = ts, ug_last_seen = ts, ug_endpoints = [], ug_endpoints_overflow = False,
     ug_near_misses = [], ug_samples = []\<rparr>"

definition top_score :: "(protocol_name \<times> confidence) list \<Rightarrow> u8 option" where
  "top_score nms = (case nms of [] \<Rightarrow> None | (_, c) # _ \<Rightarrow> Some (confidence_get c))"

definition add_endpoint :: "endpoint_key option \<Rightarrow> unknown_group \<Rightarrow> unknown_group" where
  "add_endpoint endpoint g =
    (case endpoint of
       None \<Rightarrow> g
     | Some ep \<Rightarrow>
        if ep \<in> set (ug_endpoints g) then g
        else if length (ug_endpoints g) < ACCUMULATE_SET_CAP
        then g\<lparr>ug_endpoints := ug_endpoints g @ [ep]\<rparr>
        else g\<lparr>ug_endpoints_overflow := True\<rparr>)"

definition fold_group :: "unknown_diagnostics \<Rightarrow> u32 \<Rightarrow> system_time \<Rightarrow> endpoint_key option \<Rightarrow>
    unknown_registry_config \<Rightarrow> unknown_group \<Rightarrow> unknown_group" where
  "fold_group diag bytes ts endpoint config g0 =
    (let g1 = g0\<lparr>ug_count := ug_count g0 + 1,
           ug_bytes_total := ug_bytes_total g0 + ucast bytes,
           ug_bytes_min := min (ug_bytes_min g0) bytes,
           ug_bytes_max := max (ug_bytes_max g0) bytes,
           ug_first_seen := min (ug_first_seen g0) ts,
           ug_last_seen := max (ug_last_seen g0) ts\<rparr>;
         g2 = add_endpoint endpoint g1;
         candidate_top = top_score (ud_near_misses diag);
         current_top = top_score (ug_near_misses g2);
         g3 = (if candidate_top \<noteq> None \<and> current_top \<le> candidate_top
               then g2\<lparr>ug_near_misses := ud_near_misses diag\<rparr> else g2);
         popped = (if urc_samples_per_group config \<le> length (ug_samples g3)
                   then tl (ug_samples g3) else ug_samples g3)
     in g3\<lparr>ug_samples := popped @ [ud_sample diag]\<rparr>)"

text \<open>The eviction rank of a group: last update, then insertion sequence.\<close>

definition coldness :: "(unknown_key \<rightharpoonup> u64) \<Rightarrow> unknown_group \<Rightarrow> system_time \<times> u64" where
  "coldness seqs g = (ug_last_seen g, case seqs (ug_key g) of Some s \<Rightarrow> s | None \<Rightarrow> 0)"

definition evict_group :: "unknown_key \<Rightarrow> unknown_registry \<Rightarrow> unknown_registry" where
  "evict_group k r = r\<lparr>ur_groups := hm_del k (ur_groups r), ur_seqs := (ur_seqs r)(k := None)\<rparr>"

text \<open>The \<open>while\<close> loop of \<open>enforce_max_groups\<close>. In a well-formed registry each round removes a
  group; the guard on the map's size makes the function total on the others too.\<close>

function enforce_max_groups :: "usize \<Rightarrow> unknown_registry \<Rightarrow> unknown_registry" where
  "enforce_max_groups max_groups r =
    (if length (ur_groups r) \<le> max_groups then r
     else case min_by_key (coldness (ur_seqs r)) (map snd (ur_groups r)) of
       None \<Rightarrow> r
     | Some g \<Rightarrow>
        (let r' = evict_group (ug_key g) r in
         if length (ur_groups r') < length (ur_groups r) then enforce_max_groups max_groups r' else r'))"
  by pat_completeness auto
termination
  by (relation "measure (\<lambda>(_, r). length (ur_groups r))") auto

declare enforce_max_groups.simps [simp del]

definition registry_ingest :: "unknown_diagnostics \<Rightarrow> u32 \<Rightarrow> system_time \<Rightarrow> endpoint_key option \<Rightarrow>
    unknown_registry_config \<Rightarrow> unknown_registry \<Rightarrow> unknown_registry" where
  "registry_ingest diag bytes ts endpoint config r0 =
    (let key = unknown_key_of (ud_context diag);
         r1 = (if ur_seqs r0 key = None
               then r0\<lparr>ur_seqs := (ur_seqs r0)(key \<mapsto> ur_next_seq r0), ur_next_seq := ur_next_seq r0 + 1\<rparr>
               else r0);
         g = (case hm_get (ur_groups r1) key of Some g \<Rightarrow> g | None \<Rightarrow> new_group key ts)
     in enforce_max_groups (urc_max_groups config)
          (r1\<lparr>ur_groups := hm_set key (fold_group diag bytes ts endpoint config g) (ur_groups r1)\<rparr>))"

text \<open>\<open>sort_by\<close> with count descending, then key.\<close>

definition registry_groups :: "unknown_registry \<Rightarrow> unknown_group list" where
  "registry_groups r = sort_key (\<lambda>g. (- int (unat (ug_count g)), ug_key g)) (map snd (ur_groups r))"

definition registry_group :: "unknown_registry \<Rightarrow> unknown_key \<Rightarrow> unknown_group option" where
  "registry_group r k = hm_get (ur_groups r) k"

section \<open>The registry invariant\<close>

definition group_ok :: "unknown_registry_config \<Rightarrow> unknown_group \<Rightarrow> bool" where
  "group_ok config g \<longleftrightarrow>
    distinct (ug_endpoints g) \<and> length (ug_endpoints g) \<le> ACCUMULATE_SET_CAP \<and>
    ug_samples g \<noteq> [] \<and> length (ug_samples g) \<le> max 1 (urc_samples_per_group config) \<and>
    ug_bytes_min g \<le> ug_bytes_max g \<and> ug_first_seen g \<le> ug_last_seen g"

definition registry_wf :: "unknown_registry \<Rightarrow> bool" where
  "registry_wf r \<longleftrightarrow> hm_wf (ur_groups r) \<and> dom (ur_seqs r) = fst ` set (ur_groups r) \<and>
    (\<forall>k g. hm_get (ur_groups r) k = Some g \<longrightarrow> ug_key g = k)"

definition registry_ok :: "unknown_registry_config \<Rightarrow> unknown_registry \<Rightarrow> bool" where
  "registry_ok config r \<longleftrightarrow> registry_wf r \<and> (\<forall>k g. hm_get (ur_groups r) k = Some g \<longrightarrow> group_ok config g)"

lemma add_endpoint_sel [simp]:
  "ug_key (add_endpoint ep g) = ug_key g" "ug_samples (add_endpoint ep g) = ug_samples g"
  "ug_bytes_min (add_endpoint ep g) = ug_bytes_min g" "ug_bytes_max (add_endpoint ep g) = ug_bytes_max g"
  "ug_first_seen (add_endpoint ep g) = ug_first_seen g" "ug_last_seen (add_endpoint ep g) = ug_last_seen g"
  "ug_near_misses (add_endpoint ep g) = ug_near_misses g"
  by (simp_all add: add_endpoint_def split: option.split)

lemma add_endpoint_ok:
  "distinct (ug_endpoints g) \<Longrightarrow> length (ug_endpoints g) \<le> ACCUMULATE_SET_CAP \<Longrightarrow>
    distinct (ug_endpoints (add_endpoint ep g)) \<and> length (ug_endpoints (add_endpoint ep g)) \<le> ACCUMULATE_SET_CAP"
  by (simp add: add_endpoint_def split: option.split)

lemma fold_group_key [simp]: "ug_key (fold_group diag bytes ts ep config g) = ug_key g"
  by (simp add: fold_group_def Let_def)

lemma fold_group_samples: "ug_samples (fold_group diag bytes ts ep config g) =
    (if urc_samples_per_group config \<le> length (ug_samples g) then tl (ug_samples g) else ug_samples g) @ [ud_sample diag]"
  by (simp add: fold_group_def Let_def)

lemma ring_bound:
  "length xs \<le> max 1 n \<Longrightarrow> length ((if n \<le> length xs then tl xs else xs) @ [x]) \<le> max 1 n"
  by (cases xs) auto

lemma group_ok_fold:
  assumes "distinct (ug_endpoints g)" and "length (ug_endpoints g) \<le> ACCUMULATE_SET_CAP"
    and "length (ug_samples g) \<le> max 1 (urc_samples_per_group config)"
    and "ug_first_seen g \<le> ug_last_seen g"
  shows "group_ok config (fold_group diag bytes ts ep config g)"
proof -
  let ?g = "fold_group diag bytes ts ep config g"
  have "length (ug_samples ?g) \<le> max 1 (urc_samples_per_group config)" "ug_samples ?g \<noteq> []"
    unfolding fold_group_samples using ring_bound[OF assms(3)] by simp_all
  moreover have "distinct (ug_endpoints ?g) \<and> length (ug_endpoints ?g) \<le> ACCUMULATE_SET_CAP"
    unfolding fold_group_def Let_def using assms(1,2)
    by (simp add: add_endpoint_ok)
  moreover have "ug_bytes_min ?g \<le> ug_bytes_max ?g" "ug_first_seen ?g \<le> ug_last_seen ?g"
    using assms(4) by (auto simp: fold_group_def Let_def min_le_iff_disj le_max_iff_disj)
  ultimately show ?thesis by (simp add: group_ok_def)
qed

lemma group_ok_start: "group_ok config (fold_group diag bytes ts ep config (new_group k ts))"
  by (rule group_ok_fold) (simp_all add: new_group_def)

lemma group_ok_update: "group_ok config g \<Longrightarrow> group_ok config (fold_group diag bytes ts ep config g)"
  by (rule group_ok_fold) (simp_all add: group_ok_def)

lemma registry_wf_hm: "registry_wf r \<Longrightarrow> hm_wf (ur_groups r)"
  by (simp add: registry_wf_def)

lemma registry_wf_key: "registry_wf r \<Longrightarrow> hm_get (ur_groups r) k = Some g \<Longrightarrow> ug_key g = k"
  by (simp add: registry_wf_def)

lemma hm_del_keys: "fst ` set (hm_del k m) = fst ` set m - {k}"
  by (auto simp: hm_del_def)

lemma evict_group_wf: "registry_wf r \<Longrightarrow> registry_wf (evict_group k r)"
  by (auto simp: registry_wf_def evict_group_def hm_del_keys split: if_splits)

text \<open>In a well-formed registry every round removes exactly the coldest group.\<close>

lemma coldest_present:
  assumes "registry_wf r" and "min_by_key (coldness (ur_seqs r)) (map snd (ur_groups r)) = Some g"
  shows "hm_get (ur_groups r) (ug_key g) = Some g"
    and "Suc (length (ur_groups (evict_group (ug_key g) r))) = length (ur_groups r)"
proof -
  from min_by_key_in[OF assms(2)] obtain k where "(k, g) \<in> set (ur_groups r)" by auto
  then have k: "hm_get (ur_groups r) k = Some g" by (simp add: hm_get_iff registry_wf_hm[OF assms(1)])
  with registry_wf_key[OF assms(1) k] show *: "hm_get (ur_groups r) (ug_key g) = Some g" by simp
  then show "Suc (length (ur_groups (evict_group (ug_key g) r))) = length (ur_groups r)"
    using length_hm_del[OF registry_wf_hm[OF assms(1)], of "ug_key g"] by (simp add: evict_group_def)
qed

lemma enforce_unfold:
  assumes "registry_wf r"
  shows "enforce_max_groups m r =
    (if length (ur_groups r) \<le> m then r
     else case min_by_key (coldness (ur_seqs r)) (map snd (ur_groups r)) of
       None \<Rightarrow> r
     | Some g \<Rightarrow> enforce_max_groups m (evict_group (ug_key g) r))"
proof (cases "min_by_key (coldness (ur_seqs r)) (map snd (ur_groups r))")
  case (Some g)
  from coldest_present(2)[OF assms Some]
  have "length (ur_groups (evict_group (ug_key g) r)) < length (ur_groups r)" by linarith
  with Some show ?thesis by (subst enforce_max_groups.simps) (simp add: Let_def)
qed (subst enforce_max_groups.simps, simp)

lemma enforce_induct [consumes 1, case_names under over]:
  assumes "registry_wf r"
    and "\<And>r. registry_wf r \<Longrightarrow> length (ur_groups r) \<le> m \<Longrightarrow> P r r"
    and "\<And>r g. registry_wf r \<Longrightarrow> m < length (ur_groups r) \<Longrightarrow>
      min_by_key (coldness (ur_seqs r)) (map snd (ur_groups r)) = Some g \<Longrightarrow>
      hm_get (ur_groups r) (ug_key g) = Some g \<Longrightarrow>
      P (evict_group (ug_key g) r) (enforce_max_groups m (evict_group (ug_key g) r)) \<Longrightarrow>
      P r (enforce_max_groups m (evict_group (ug_key g) r))"
  shows "P r (enforce_max_groups m r)"
  using assms(1)
proof (induction "length (ur_groups r)" arbitrary: r rule: less_induct)
  case less
  show ?case
  proof (cases "length (ur_groups r) \<le> m")
    case True
    with less.prems assms(2) show ?thesis by (simp add: enforce_unfold)
  next
    case False
    then have "ur_groups r \<noteq> []" by auto
    then obtain g where g: "min_by_key (coldness (ur_seqs r)) (map snd (ur_groups r)) = Some g"
      by (cases "min_by_key (coldness (ur_seqs r)) (map snd (ur_groups r))") auto
    from less.hyps[OF _ evict_group_wf[OF less.prems]] coldest_present[OF less.prems g]
    have "P (evict_group (ug_key g) r) (enforce_max_groups m (evict_group (ug_key g) r))" by (metis lessI)
    with assms(3)[OF less.prems _ g] coldest_present(1)[OF less.prems g] False less.prems show ?thesis
      by (simp add: enforce_unfold g)
  qed
qed

lemma enforce_wf: "registry_wf r \<Longrightarrow> registry_wf (enforce_max_groups m r)"
  by (induction r rule: enforce_induct) auto

lemma enforce_length: "registry_wf r \<Longrightarrow> length (ur_groups (enforce_max_groups m r)) = min m (length (ur_groups r))"
proof (induction r rule: enforce_induct)
  case (over r g)
  then show ?case using coldest_present(2)[OF over(1,3)] by simp
qed simp

lemma enforce_get: "registry_wf r \<Longrightarrow> hm_get (ur_groups (enforce_max_groups m r)) k = Some g \<Longrightarrow>
    hm_get (ur_groups r) k = Some g"
proof (induction r rule: enforce_induct)
  case (over r g)
  then show ?case by (auto simp: evict_group_def split: if_splits)
qed simp

lemma coldness_upd: "ug_key g \<noteq> k \<Longrightarrow> coldness (seqs(k := x)) g = coldness seqs g"
  by (simp add: coldness_def)

lemma enforce_coldest:
  "registry_wf r \<Longrightarrow> hm_get (ur_groups r) k = Some g \<Longrightarrow>
    hm_get (ur_groups (enforce_max_groups m r)) k = None \<Longrightarrow>
    hm_get (ur_groups (enforce_max_groups m r)) j = Some h \<Longrightarrow>
    coldness (ur_seqs r) g \<le> coldness (ur_seqs r) h"
proof (induction r rule: enforce_induct)
  case (over r c)
  have h: "hm_get (ur_groups (evict_group (ug_key c) r)) j = Some h"
    by (rule enforce_get[OF evict_group_wf[OF over(1)] over(8)])
  then have hr: "hm_get (ur_groups r) j = Some h" and jc: "j \<noteq> ug_key c"
    by (auto simp: evict_group_def split: if_splits)
  with over(1) have kh: "ug_key h \<noteq> ug_key c" by (auto simp: registry_wf_def)
  show ?case
  proof (cases "k = ug_key c")
    case True
    with over(4,6) have "g = c" by simp
    with hr hm_get_in[OF hr] min_by_key_le[OF over(3), of h] show ?thesis by force
  next
    case False
    with over(6) have "hm_get (ur_groups (evict_group (ug_key c) r)) k = Some g" by (simp add: evict_group_def)
    from over(5)[OF this over(7,8)] have "coldness ((ur_seqs r)(ug_key c := None)) g \<le> coldness ((ur_seqs r)(ug_key c := None)) h"
      by (simp add: evict_group_def fun_upd_def)
    moreover from False over(1,6) have "ug_key g \<noteq> ug_key c" by (auto simp: registry_wf_def)
    ultimately show ?thesis using kh by (simp add: coldness_upd)
  qed
qed simp

lemma registry_wf_set:
  assumes "registry_wf r" and "ug_key g = k"
  shows "registry_wf (r\<lparr>ur_seqs := (ur_seqs r)(k \<mapsto> s), ur_next_seq := n, ur_groups := hm_set k g (ur_groups r)\<rparr>)"
  using assms hm_set_keys[of k g "ur_groups r"] by (auto simp: registry_wf_def)

section \<open>Properties\<close>

text \<open>Ingesting evidence keeps the registry invariant and every bound: distinct keys that match
  their groups, a sequence number for exactly the live groups, at most 64 distinct endpoints and a
  bounded non-empty sample ring per group, consistent extremes, and at most \<open>max_groups\<close> groups.\<close>

theorem registry_ingest_ok:
  assumes "registry_ok config r"
  shows "registry_ok config (registry_ingest diag bytes ts endpoint config r) \<and>
    length (ur_groups (registry_ingest diag bytes ts endpoint config r)) \<le> urc_max_groups config"
proof -
  define k where "k = unknown_key_of (ud_context diag)"
  define g where "g = (case hm_get (ur_groups r) k of Some g \<Rightarrow> g | None \<Rightarrow> new_group k ts)"
  define g' where "g' = fold_group diag bytes ts endpoint config g"
  obtain s n where r2: "registry_ingest diag bytes ts endpoint config r = enforce_max_groups (urc_max_groups config)
      (r\<lparr>ur_seqs := (ur_seqs r)(k \<mapsto> s), ur_next_seq := n, ur_groups := hm_set k g' (ur_groups r)\<rparr>)"
    (is "_ = enforce_max_groups _ ?r2")
  proof (cases "ur_seqs r k")
    case None
    then show ?thesis using that[where s = "ur_next_seq r" and n = "ur_next_seq r + 1"]
      by (simp add: registry_ingest_def Let_def k_def[symmetric] g_def[symmetric] g'_def)
  next
    case (Some s)
    then have "(ur_seqs r)(k \<mapsto> s) = ur_seqs r" by auto
    with Some show ?thesis using that[where s = s and n = "ur_next_seq r"]
      by (simp add: registry_ingest_def Let_def k_def[symmetric] g_def[symmetric] g'_def)
  qed
  have kg: "ug_key g' = k"
    using assms by (auto simp: g'_def g_def new_group_def registry_ok_def registry_wf_def split: option.split)
  have ok: "group_ok config g'"
    using assms unfolding g'_def g_def
    by (auto simp: registry_ok_def group_ok_start group_ok_update split: option.split)
  from assms kg have wf: "registry_wf ?r2" by (simp add: registry_wf_set registry_ok_def)
  have "hm_get (ur_groups ?r2) j = Some h \<Longrightarrow> group_ok config h" for j h
    using assms ok by (auto simp: registry_ok_def split: if_splits)
  with enforce_wf[OF wf] enforce_length[OF wf] enforce_get[OF wf] show ?thesis
    unfolding r2 registry_ok_def by (metis min.cobounded1)
qed

definition demo_diag :: "u16 \<Rightarrow> unknown_diagnostics" where
  "demo_diag p = \<lparr>ud_context = CtxUnclaimedRoute ''udp'' (UdpPort p), ud_near_misses = [], ud_sample = [1]\<rparr>"

lemma registry_ok_new: "registry_ok config unknown_registry_new"
  by (simp add: registry_ok_def registry_wf_def unknown_registry_new_def)

theorem registry_ingest_ok_witness:
  "registry_ok default_registry_config (registry_ingest (demo_diag 9) 40 5 None default_registry_config unknown_registry_new)"
  using registry_ingest_ok[OF registry_ok_new] by blast

text \<open>Eviction is least-recently-updated: enforcing the cap leaves exactly \<open>min max_groups n\<close>
  groups, changes none of them, and every evicted group's last update (ties by insertion sequence)
  is no later than that of every group kept.\<close>

theorem enforce_max_groups_lru:
  assumes "registry_wf r"
  shows "length (ur_groups (enforce_max_groups m r)) = min m (length (ur_groups r)) \<and>
    (\<forall>k g. registry_group (enforce_max_groups m r) k = Some g \<longrightarrow> registry_group r k = Some g) \<and>
    (\<forall>k g j h. registry_group r k = Some g \<longrightarrow> registry_group (enforce_max_groups m r) k = None \<longrightarrow>
       registry_group (enforce_max_groups m r) j = Some h \<longrightarrow>
       coldness (ur_seqs r) g \<le> coldness (ur_seqs r) h)"
  using enforce_length[OF assms] enforce_get[OF assms] enforce_coldest[OF assms]
  by (simp add: registry_group_def)

definition demo_registry :: unknown_registry where
  "demo_registry = \<lparr>ur_groups = [(UnknownKey ''a'' None, new_group (UnknownKey ''a'' None) 7),
      (UnknownKey ''b'' None, new_group (UnknownKey ''b'' None) 3)],
     ur_seqs = [UnknownKey ''a'' None \<mapsto> 0, UnknownKey ''b'' None \<mapsto> 1], ur_next_seq = 2\<rparr>"

theorem enforce_max_groups_lru_witness:
  "registry_wf demo_registry \<and> length (ur_groups (enforce_max_groups 1 demo_registry)) = 1"
proof -
  have "registry_wf demo_registry"
    by (auto simp: registry_wf_def demo_registry_def hm_wf_def hm_get_def new_group_def split: if_splits)
  with enforce_max_groups_lru[OF this, of 1] show ?thesis by (simp add: demo_registry_def)
qed

text \<open>The listing is deterministic: two registries holding the same groups list them in the
  same order, whatever order their hash maps iterate in; the listing holds exactly the live groups,
  by descending count and then by key.\<close>

theorem registry_groups_deterministic:
  assumes "registry_wf r" and "registry_wf r'" and "\<And>k. registry_group r k = registry_group r' k"
  shows "registry_groups r = registry_groups r' \<and>
    set (registry_groups r) = {g. \<exists>k. registry_group r k = Some g} \<and>
    sorted (map (\<lambda>g. (- int (unat (ug_count g)), ug_key g)) (registry_groups r))"
proof -
  let ?f = "\<lambda>g. (- int (unat (ug_count g)), ug_key g)"
  have wf: "hm_wf (ur_groups r)" "hm_wf (ur_groups r')" using assms(1,2) by (simp_all add: registry_wf_def)
  have "set (ur_groups r) = set (ur_groups r')"
    using assms(3) wf by (auto simp: registry_group_def hm_get_iff[symmetric])
  moreover have d: "distinct (ur_groups r)" "distinct (ur_groups r')"
    using wf by (auto simp: hm_wf_def distinct_map)
  ultimately have m: "mset (map snd (ur_groups r)) = mset (map snd (ur_groups r'))"
    by (simp add: set_eq_iff_mset_eq_distinct mset_map)
  have mem: "g \<in> set (map snd (ur_groups r)) \<longleftrightarrow> hm_get (ur_groups r) (ug_key g) = Some g" for g
  proof
    assume "g \<in> set (map snd (ur_groups r))"
    then obtain k where k: "hm_get (ur_groups r) k = Some g" by (auto simp: hm_get_iff[OF wf(1)])
    with registry_wf_key[OF assms(1) k] show "hm_get (ur_groups r) (ug_key g) = Some g" by simp
  qed (force dest: hm_get_in)
  then have "inj_on ?f (set (map snd (ur_groups r)))" by (intro inj_onI) (metis option.inject prod.inject)
  then have "registry_groups r = registry_groups r'"
    unfolding registry_groups_def by (intro sort_key_inj_key_eq) (use m in simp_all)
  moreover have "set (registry_groups r) = {g. \<exists>k. registry_group r k = Some g}"
    using wf(1) by (force simp: registry_groups_def registry_group_def hm_get_iff)
  ultimately show ?thesis by (simp add: registry_groups_def)
qed

theorem registry_groups_deterministic_witness:
  "registry_groups (demo_registry\<lparr>ur_groups := rev (ur_groups demo_registry)\<rparr>) = registry_groups demo_registry"
proof -
  let ?r = "demo_registry\<lparr>ur_groups := rev (ur_groups demo_registry)\<rparr>"
  have "registry_wf demo_registry" "registry_wf ?r" "registry_group ?r k = registry_group demo_registry k" for k
    by (auto simp: registry_wf_def demo_registry_def hm_wf_def hm_get_def new_group_def registry_group_def split: if_splits)
  then show ?thesis using registry_groups_deterministic[of ?r demo_registry] by blast
qed

end
