(* ===== verification/Arena.thy ===== *)
theory Arena
  imports Prelude
begin

text \<open>
  The slot arena inside \<open>pktflow-flows/src/store.rs\<close>: \<open>slots\<close>, the \<open>free\<close> list and
  \<open>live_count\<close> of the aggregator, grouped in one record, with the generation-checked handle
  discipline of \<open>get\<close>, \<open>get_mut\<close>, \<open>create_stream_raw\<close> and \<open>evict\<close>. The locale
  \<open>handle_store\<close> states what the stream store relies on; it is interpreted on the arena.
\<close>

section \<open>Slots and handles\<close>

record stream_id =
  sid_index :: u32
  sid_generation :: u32

record 's slot =
  sl_generation :: u32
  sl_stream :: "'s option"

record 's arena =
  ar_slots :: "'s slot list"
  ar_free :: "u32 list"
  ar_live_count :: usize

definition arena_new :: "'s arena" where
  "arena_new = \<lparr>ar_slots = [], ar_free = [], ar_live_count = 0\<rparr>"

definition arena_get :: "'s arena \<Rightarrow> stream_id \<Rightarrow> 's option" where
  "arena_get ar h =
    (case elem_get (ar_slots ar) (unat (sid_index h)) of
       None \<Rightarrow> None
     | Some sl \<Rightarrow> if sl_generation sl \<noteq> sid_generation h then None else sl_stream sl)"

text \<open>A mutation through \<open>get_mut\<close>: no effect on a stale handle.\<close>

definition arena_modify :: "stream_id \<Rightarrow> ('s \<Rightarrow> 's) \<Rightarrow> 's arena \<Rightarrow> 's arena" where
  "arena_modify h f ar =
    (case elem_get (ar_slots ar) (unat (sid_index h)) of
       None \<Rightarrow> ar
     | Some sl \<Rightarrow>
        if sl_generation sl \<noteq> sid_generation h then ar
        else ar\<lparr>ar_slots := (ar_slots ar)[unat (sid_index h) := sl\<lparr>sl_stream := map_option f (sl_stream sl)\<rparr>]\<rparr>)"

text \<open>The handle the next creation gets: the last freed slot, or a new one
  (\<open>u32::try_from(len).unwrap_or(u32::MAX)\<close>).\<close>

definition arena_fresh :: "'s arena \<Rightarrow> stream_id" where
  "arena_fresh ar =
    (case ar_free ar of
       i # _ \<Rightarrow> \<lparr>sid_index = i,
         sid_generation = (case elem_get (ar_slots ar) (unat i) of Some sl \<Rightarrow> sl_generation sl | None \<Rightarrow> 0)\<rparr>
     | [] \<Rightarrow> \<lparr>sid_index = clamp_u32 (length (ar_slots ar)), sid_generation = 0\<rparr>)"

definition arena_insert :: "'s \<Rightarrow> 's arena \<Rightarrow> 's arena" where
  "arena_insert s ar =
    (let i = unat (sid_index (arena_fresh ar)) in
     \<lparr>ar_slots = (case elem_get (ar_slots ar) i of
          Some sl \<Rightarrow> (ar_slots ar)[i := sl\<lparr>sl_stream := Some s\<rparr>]
        | None \<Rightarrow> ar_slots ar @ [\<lparr>sl_generation = 0, sl_stream = Some s\<rparr>]),
      ar_free = tl (ar_free ar),
      ar_live_count = ar_live_count ar + 1\<rparr>)"

text \<open>The head of \<open>evict\<close>: take the stream out, bump the generation, recycle the slot.\<close>

definition arena_remove :: "stream_id \<Rightarrow> 's arena \<Rightarrow> 's arena" where
  "arena_remove h ar =
    (case arena_get ar h of
       None \<Rightarrow> ar
     | Some s \<Rightarrow>
        \<lparr>ar_slots = (ar_slots ar)[unat (sid_index h) :=
           \<lparr>sl_generation = sid_generation h + 1, sl_stream = None\<rparr>],
         ar_free = sid_index h # ar_free ar,
         ar_live_count = ar_live_count ar - 1\<rparr>)"

text \<open>\<open>self.slots.iter().filter_map(|s| s.stream)\<close>\<close>

definition arena_streams :: "'s arena \<Rightarrow> 's list" where
  "arena_streams ar = List.map_filter sl_stream (ar_slots ar)"

section \<open>Invariant and laws\<close>

definition arena_ok :: "'s arena \<Rightarrow> bool" where
  "arena_ok ar \<longleftrightarrow>
    length (ar_slots ar) < 2 ^ 32 \<and> distinct (ar_free ar) \<and>
    (\<forall>i. i \<in> set (ar_free ar) \<longleftrightarrow> unat i < length (ar_slots ar) \<and> sl_stream (ar_slots ar ! unat i) = None) \<and>
    ar_live_count ar = length (arena_streams ar)"

definition arena_room :: "'s arena \<Rightarrow> bool" where
  "arena_room ar \<longleftrightarrow> length (ar_slots ar) + 1 < 2 ^ 32"

lemma arena_get_Some:
  "arena_get ar h = Some s \<longleftrightarrow>
    unat (sid_index h) < length (ar_slots ar) \<and>
    sl_generation (ar_slots ar ! unat (sid_index h)) = sid_generation h \<and>
    sl_stream (ar_slots ar ! unat (sid_index h)) = Some s"
  by (auto simp: arena_get_def elem_get_def)

lemma length_map_filter_upd:
  assumes "i < length xs"
  shows "length (List.map_filter f (xs[i := y])) + (if f (xs ! i) = None then 0 else 1) =
    length (List.map_filter f xs) + (if f y = None then 0 else 1)"
proof -
  have xs: "xs = take i xs @ xs ! i # drop (Suc i) xs" using assms by (simp add: id_take_nth_drop)
  have "xs[i := y] = take i xs @ y # drop (Suc i) xs" using assms by (rule upd_conv_take_nth_drop)
  moreover have "length (List.map_filter f xs) = length (List.map_filter f (take i xs @ xs ! i # drop (Suc i) xs))"
    using xs by simp
  ultimately show ?thesis by (simp add: map_filter_def)
qed

lemma unat_of_nat_u32: "n < 2 ^ 32 \<Longrightarrow> unat (of_nat n :: u32) = n"
  by (simp add: unat_of_nat take_bit_eq_mod)

lemma unat_clamp_u32: "n < 2 ^ 32 \<Longrightarrow> unat (clamp_u32 n) = n"
  by (simp add: clamp_u32_def unat_of_nat take_bit_eq_mod)

lemma arena_fresh_cases:
  assumes "arena_ok ar"
  shows "(\<exists>i fs. ar_free ar = i # fs \<and> unat i < length (ar_slots ar) \<and> sl_stream (ar_slots ar ! unat i) = None \<and>
      arena_fresh ar = \<lparr>sid_index = i, sid_generation = sl_generation (ar_slots ar ! unat i)\<rparr>) \<or>
    (ar_free ar = [] \<and> arena_fresh ar = \<lparr>sid_index = clamp_u32 (length (ar_slots ar)), sid_generation = 0\<rparr> \<and>
      unat (clamp_u32 (length (ar_slots ar))) = length (ar_slots ar))"
proof (cases "ar_free ar")
  case Nil
  with assms show ?thesis by (simp add: arena_fresh_def arena_ok_def unat_clamp_u32)
next
  case (Cons i fs)
  with assms have "unat i < length (ar_slots ar) \<and> sl_stream (ar_slots ar ! unat i) = None"
    by (auto simp: arena_ok_def)
  with Cons show ?thesis by (simp add: arena_fresh_def elem_get_def)
qed

lemma arena_get_fresh: "arena_ok ar \<Longrightarrow> arena_get ar (arena_fresh ar) = None"
  by (drule arena_fresh_cases) (auto simp: arena_get_def elem_get_def)

lemma arena_get_insert:
  assumes "arena_ok ar"
  shows "arena_get (arena_insert s ar) h = (if h = arena_fresh ar then Some s else arena_get ar h)"
  using arena_fresh_cases[OF assms]
proof (elim disjE exE conjE)
  fix i fs assume i: "unat i < length (ar_slots ar)" "sl_stream (ar_slots ar ! unat i) = None"
    and f: "arena_fresh ar = \<lparr>sid_index = i, sid_generation = sl_generation (ar_slots ar ! unat i)\<rparr>"
  then show ?thesis
    by (auto simp: arena_get_def arena_insert_def elem_get_def nth_list_update Let_def word_unat_eq_iff)
next
  assume f: "arena_fresh ar = \<lparr>sid_index = clamp_u32 (length (ar_slots ar)), sid_generation = 0\<rparr>"
    and u: "unat (clamp_u32 (length (ar_slots ar))) = length (ar_slots ar)"
  have "unat (sid_index h) = length (ar_slots ar) \<longleftrightarrow> sid_index h = clamp_u32 (length (ar_slots ar))"
    using u by (metis word_unat_eq_iff)
  with f u show ?thesis
    by (auto simp: arena_get_def arena_insert_def elem_get_def nth_append Let_def less_Suc_eq)
qed

lemma arena_insert_ok:
  assumes ok: "arena_ok ar" and room: "arena_room ar"
  shows "arena_ok (arena_insert s ar)"
  using arena_fresh_cases[OF ok]
proof (elim disjE exE conjE)
  fix i fs assume i: "unat i < length (ar_slots ar)" "sl_stream (ar_slots ar ! unat i) = None"
    and fs: "ar_free ar = i # fs"
    and f: "arena_fresh ar = \<lparr>sid_index = i, sid_generation = sl_generation (ar_slots ar ! unat i)\<rparr>"
  have sl: "ar_slots (arena_insert s ar) = (ar_slots ar)[unat i := (ar_slots ar ! unat i)\<lparr>sl_stream := Some s\<rparr>]"
    using i f by (simp add: arena_insert_def elem_get_def Let_def)
  have "length (arena_streams (arena_insert s ar)) = Suc (length (arena_streams ar))"
    using length_map_filter_upd[OF i(1), of sl_stream "(ar_slots ar ! unat i)\<lparr>sl_stream := Some s\<rparr>"] i(2)
    by (simp add: arena_streams_def sl)
  moreover have "j \<in> set fs \<longleftrightarrow> unat j < length (ar_slots ar) \<and>
      sl_stream (ar_slots (arena_insert s ar) ! unat j) = None" for j
  proof (cases "j = i")
    case True
    with ok fs i(1) show ?thesis by (auto simp: arena_ok_def sl)
  next
    case False
    then have "unat j \<noteq> unat i" by (simp add: word_unat_eq_iff)
    with False ok fs show ?thesis by (simp add: arena_ok_def sl) (metis set_ConsD list.set_intros(2))
  qed
  ultimately show ?thesis
    using ok fs by (simp add: arena_ok_def arena_insert_def Let_def f sl elem_get_def i)
next
  assume fs: "ar_free ar = []"
    and f: "arena_fresh ar = \<lparr>sid_index = clamp_u32 (length (ar_slots ar)), sid_generation = 0\<rparr>"
    and u: "unat (clamp_u32 (length (ar_slots ar))) = length (ar_slots ar)"
  have "sl_stream (ar_slots ar ! unat j) \<noteq> None" if "unat j < length (ar_slots ar)" for j :: u32
    using ok fs that by (auto simp: arena_ok_def)
  with ok room fs f u show ?thesis
    by (auto simp: arena_ok_def arena_insert_def arena_room_def Let_def elem_get_def arena_streams_def
        map_filter_def nth_append less_Suc_eq)
qed

lemma arena_get_modify:
  "arena_get (arena_modify h f ar) j = (if j = h then map_option f (arena_get ar h) else arena_get ar j)"
  by (auto simp: arena_get_def arena_modify_def elem_get_def nth_list_update word_unat_eq_iff)

lemma arena_modify_shape:
  "length (ar_slots (arena_modify h f ar)) = length (ar_slots ar)"
  "ar_free (arena_modify h f ar) = ar_free ar"
  "ar_live_count (arena_modify h f ar) = ar_live_count ar"
  "i < length (ar_slots ar) \<Longrightarrow>
    sl_stream (ar_slots (arena_modify h f ar) ! i) = None \<longleftrightarrow> sl_stream (ar_slots ar ! i) = None"
  by (auto simp: arena_modify_def elem_get_def nth_list_update)

lemma length_arena_streams_modify: "length (arena_streams (arena_modify h f ar)) = length (arena_streams ar)"
proof (cases "unat (sid_index h) < length (ar_slots ar)")
  case True
  let ?sl = "ar_slots ar ! unat (sid_index h)"
  show ?thesis
    using length_map_filter_upd[OF True, of sl_stream "?sl\<lparr>sl_stream := map_option f (sl_stream ?sl)\<rparr>"] True
    by (auto simp: arena_streams_def arena_modify_def elem_get_def split: if_splits)
qed (simp add: arena_modify_def elem_get_def)

lemma arena_modify_ok: "arena_ok (arena_modify h f ar) \<longleftrightarrow> arena_ok ar"
proof -
  have "unat i < length (ar_slots ar) \<and> sl_stream (ar_slots (arena_modify h f ar) ! unat i) = None \<longleftrightarrow>
      unat i < length (ar_slots ar) \<and> sl_stream (ar_slots ar ! unat i) = None" for i :: u32
    using arena_modify_shape(4) by blast
  then show ?thesis
    unfolding arena_ok_def arena_modify_shape(1-3) length_arena_streams_modify by simp
qed

lemma arena_get_remove:
  "arena_get (arena_remove h ar) j = (if j = h then None else arena_get ar j)"
proof (cases "arena_get ar h")
  case (Some s)
  have "sid_generation h + 1 \<noteq> sid_generation h" by simp
  with Some show ?thesis
    by (auto simp: arena_remove_def arena_get_def elem_get_def nth_list_update word_unat_eq_iff
        split: if_splits)
qed (simp add: arena_remove_def)

lemma arena_remove_live:
  assumes "arena_get ar h = Some s"
  shows "Suc (length (arena_streams (arena_remove h ar))) = length (arena_streams ar)"
proof -
  let ?i = "unat (sid_index h)"
  from assms have i: "?i < length (ar_slots ar)" and "sl_stream (ar_slots ar ! ?i) = Some s"
    by (auto simp: arena_get_Some)
  then show ?thesis
    using length_map_filter_upd[OF i, of sl_stream "\<lparr>sl_generation = sid_generation h + 1, sl_stream = None\<rparr>"] assms
    by (simp add: arena_streams_def arena_remove_def)
qed

lemma arena_remove_ok:
  assumes ok: "arena_ok ar"
  shows "arena_ok (arena_remove h ar)"
proof (cases "arena_get ar h")
  case (Some s)
  then have i: "unat (sid_index h) < length (ar_slots ar)" "sl_stream (ar_slots ar ! unat (sid_index h)) = Some s"
    by (auto simp: arena_get_Some)
  have fr: "ar_free (arena_remove h ar) = sid_index h # ar_free ar"
    and sl: "ar_slots (arena_remove h ar) = (ar_slots ar)[unat (sid_index h) := \<lparr>sl_generation = sid_generation h + 1, sl_stream = None\<rparr>]"
    and lc: "ar_live_count (arena_remove h ar) = ar_live_count ar - 1"
    using Some by (simp_all add: arena_remove_def)
  have "sid_index h \<notin> set (ar_free ar)" using ok i by (simp add: arena_ok_def)
  moreover have "j \<in> set (sid_index h # ar_free ar) \<longleftrightarrow> unat j < length (ar_slots ar) \<and>
      sl_stream (ar_slots (arena_remove h ar) ! unat j) = None" for j
    using ok i by (auto simp: sl arena_ok_def nth_list_update word_unat_eq_iff)
  ultimately show ?thesis
    using ok arena_remove_live[OF Some] by (simp add: arena_ok_def fr sl lc)
qed (simp add: arena_remove_def ok)

text \<open>The listing holds exactly the values under a live handle.\<close>

lemma arena_streams_iff: 
  assumes "arena_ok ar"
  shows "s \<in> set (arena_streams ar) \<longleftrightarrow> (\<exists>h. arena_get ar h = Some s)"
proof
  assume "s \<in> set (arena_streams ar)"
  then obtain i where i: "i < length (ar_slots ar)" "sl_stream (ar_slots ar ! i) = Some s"
    by (auto simp: arena_streams_def map_filter_def in_set_conv_nth)
  with assms have "unat (of_nat i :: u32) = i" by (intro unat_of_nat_u32) (simp add: arena_ok_def)
  with i show "\<exists>h. arena_get ar h = Some s"
    by (intro exI[of _ "\<lparr>sid_index = of_nat i, sid_generation = sl_generation (ar_slots ar ! i)\<rparr>"])
      (simp add: arena_get_Some)
next
  assume "\<exists>h. arena_get ar h = Some s"
  then show "s \<in> set (arena_streams ar)"
    by (force simp: arena_get_Some arena_streams_def map_filter_def)
qed

lemma arena_new_ok: "arena_ok arena_new"
  by (simp add: arena_ok_def arena_new_def arena_streams_def map_filter_def)

section \<open>The interface of a handle store\<close>

locale handle_store =
  fixes ok :: "'st \<Rightarrow> bool"
    and room :: "'st \<Rightarrow> bool"
    and lookup :: "'st \<Rightarrow> 'h \<Rightarrow> 'v option"
    and fresh :: "'st \<Rightarrow> 'h"
    and insrt :: "'v \<Rightarrow> 'st \<Rightarrow> 'st"
    and remov :: "'h \<Rightarrow> 'st \<Rightarrow> 'st"
    and modif :: "'h \<Rightarrow> ('v \<Rightarrow> 'v) \<Rightarrow> 'st \<Rightarrow> 'st"
    and live :: "'st \<Rightarrow> nat"
  assumes lookup_fresh: "ok st \<Longrightarrow> lookup st (fresh st) = None"
    and lookup_insrt: "ok st \<Longrightarrow> lookup (insrt v st) h = (if h = fresh st then Some v else lookup st h)"
    and lookup_remov: "lookup (remov h st) j = (if j = h then None else lookup st j)"
    and lookup_modif: "lookup (modif h f st) j = (if j = h then map_option f (lookup st h) else lookup st j)"
    and ok_insrt: "ok st \<Longrightarrow> room st \<Longrightarrow> ok (insrt v st)"
    and ok_remov: "ok st \<Longrightarrow> ok (remov h st)"
    and ok_modif: "ok st \<Longrightarrow> ok (modif h f st)"
    and live_insrt: "ok st \<Longrightarrow> room st \<Longrightarrow> live (insrt v st) = Suc (live st)"
    and live_remov: "ok st \<Longrightarrow> lookup st h = Some v \<Longrightarrow> Suc (live (remov h st)) = live st"
    and live_modif: "live (modif h f st) = live st"
begin

text \<open>What a client derives from the laws: an insert undone by a removal leaves every lookup as it
  was, and successive inserts get different handles.\<close>

lemma insrt_remov_lookup: "ok st \<Longrightarrow> lookup (remov (fresh st) (insrt v st)) h = lookup st h"
  by (simp add: lookup_remov lookup_insrt lookup_fresh)

lemma fresh_distinct:
  assumes "ok st" "room st"
  shows "fresh (insrt v st) \<noteq> fresh st"
proof
  assume "fresh (insrt v st) = fresh st"
  with lookup_fresh[OF ok_insrt[OF assms], of v] show False by (simp add: lookup_insrt[OF assms(1)])
qed

lemma insrt_keeps: "ok st \<Longrightarrow> lookup st h = Some w \<Longrightarrow> lookup (insrt v st) h = Some w"
  by (auto simp: lookup_insrt lookup_fresh)

end

interpretation arena: handle_store arena_ok arena_room arena_get arena_fresh arena_insert arena_remove
    arena_modify "\<lambda>ar. length (arena_streams ar)"
proof
  fix ar :: "'s arena" and v :: 's and h
  assume ok: "arena_ok ar"
  show "arena_get ar (arena_fresh ar) = None" by (rule arena_get_fresh[OF ok])
  show "arena_get (arena_insert v ar) h = (if h = arena_fresh ar then Some v else arena_get ar h)"
    by (rule arena_get_insert[OF ok])
  show "arena_ok (arena_remove h ar)" by (rule arena_remove_ok[OF ok])
  show "arena_ok (arena_modify h f ar)" for f using ok by (simp add: arena_modify_ok)
  show "Suc (length (arena_streams (arena_remove h ar))) = length (arena_streams ar)" if "arena_get ar h = Some v"
    by (rule arena_remove_live[OF that])
  show "arena_ok (arena_insert v ar)" if "arena_room ar" by (rule arena_insert_ok[OF ok that])
  show "length (arena_streams (arena_insert v ar)) = Suc (length (arena_streams ar))" if "arena_room ar"
    using arena_insert_ok[OF ok that, of v] ok by (simp add: arena_ok_def arena_insert_def Let_def)
qed (simp_all add: arena_get_remove arena_get_modify length_arena_streams_modify)

section \<open>Stale handles\<close>

datatype 's arena_op = AInsert 's | ARemove stream_id | AModify stream_id "'s \<Rightarrow> 's"

fun arena_step :: "'s arena_op \<Rightarrow> 's arena \<Rightarrow> 's arena" where
  "arena_step (AInsert s) ar = arena_insert s ar"
| "arena_step (ARemove h) ar = arena_remove h ar"
| "arena_step (AModify h f) ar = arena_modify h f ar"

fun is_remove :: "'s arena_op \<Rightarrow> bool" where
  "is_remove (ARemove _) = True"
| "is_remove _ = False"

text \<open>How many generations a handle's slot is ahead of it.\<close>

definition age :: "stream_id \<Rightarrow> 's arena \<Rightarrow> nat" where
  "age h ar = unat (sl_generation (ar_slots ar ! unat (sid_index h)) - sid_generation h)"

lemma unat_succ_u32: "unat (w :: u32) + 1 < 2 ^ 32 \<Longrightarrow> unat (w + 1) = unat w + 1"
  by (simp add: unat_word_ariths)

lemma arena_step_age:
  assumes "unat (sid_index h) < length (ar_slots ar)" and "age h ar + 1 < 2 ^ 32"
  shows "unat (sid_index h) < length (ar_slots (arena_step op ar)) \<and> age h ar \<le> age h (arena_step op ar) \<and>
    age h (arena_step op ar) \<le> age h ar + (if is_remove op then 1 else 0)"
proof (cases op)
  case (AInsert s)
  with assms show ?thesis
    by (auto simp: age_def arena_insert_def Let_def elem_get_def nth_list_update nth_append split: option.splits)
next
  case (AModify j f)
  with assms show ?thesis
    by (auto simp: age_def arena_modify_def elem_get_def nth_list_update split: option.splits)
next
  case (ARemove j)
  show ?thesis
  proof (cases "arena_get ar j")
    case None
    with ARemove assms show ?thesis by (simp add: arena_remove_def)
  next
    case (Some s)
    have "unat (sl_generation (ar_slots ar ! unat (sid_index h)) + 1 - sid_generation h) = age h ar + 1"
      using assms(2) unat_succ_u32[of "sl_generation (ar_slots ar ! unat (sid_index h)) - sid_generation h"]
      by (simp add: age_def algebra_simps)
    with ARemove assms(1) Some[unfolded arena_get_Some] show ?thesis
      by (auto simp add: age_def arena_remove_def Some nth_list_update)
  qed
qed

lemma arena_run_age:
  assumes "unat (sid_index h) < length (ar_slots ar)" and "age h ar + length (filter is_remove ops) + 1 < 2 ^ 32"
  shows "unat (sid_index h) < length (ar_slots (fold arena_step ops ar)) \<and> age h ar \<le> age h (fold arena_step ops ar)"
  using assms
proof (induction ops arbitrary: ar)
  case (Cons op ops)
  from Cons.prems have "age h ar + 1 < 2 ^ 32" by simp
  note st = arena_step_age[OF Cons.prems(1) this, of op]
  with Cons.prems have "age h (arena_step op ar) + length (filter is_remove ops) + 1 < 2 ^ 32"
    by (auto split: if_splits)
  with Cons.IH[of "arena_step op ar"] st show ?case by auto
qed simp

lemma age_removed:
  assumes "arena_get ar h = Some s"
  shows "unat (sid_index h) < length (ar_slots (arena_remove h ar))" "age h (arena_remove h ar) = 1"
  using assms[unfolded arena_get_Some] by (simp_all add: age_def arena_remove_def assms)

section \<open>Properties\<close>

text \<open>C30. No ABA: once a stream is evicted its handle stays dead. Whatever inserts, evictions and
  mutations follow, as long as fewer than \<open>2^32 - 2\<close> evictions happen (the point where the wrapping
  32-bit generation of the slot could come round), the stale handle never resolves to anything.\<close>

theorem stale_handle_dead:
  assumes "arena_get ar h = Some s" and "length (filter is_remove ops) < 2 ^ 32 - 2"
  shows "arena_get (fold arena_step ops (arena_remove h ar)) h = None"
proof -
  let ?ar = "fold arena_step ops (arena_remove h ar)"
  from assms(2) have "age h (arena_remove h ar) + length (filter is_remove ops) + 1 < 2 ^ 32"
    by (simp add: age_removed[OF assms(1)])
  from arena_run_age[OF age_removed(1)[OF assms(1)] this] have "1 \<le> age h ?ar"
    by (simp add: age_removed[OF assms(1)])
  then show ?thesis by (auto simp: age_def arena_get_def elem_get_def)
qed

theorem stale_handle_dead_witness:
  "arena_get (fold arena_step [AInsert (7 :: nat), AModify \<lparr>sid_index = 0, sid_generation = 0\<rparr> Suc]
     (arena_remove \<lparr>sid_index = 0, sid_generation = 0\<rparr> (arena_insert 5 arena_new)))
     \<lparr>sid_index = 0, sid_generation = 0\<rparr> = None"
proof -
  have "arena_get (arena_insert (5 :: nat) arena_new) \<lparr>sid_index = 0, sid_generation = 0\<rparr> = Some 5"
    by (simp add: arena_get_insert[OF arena_new_ok]) (simp add: arena_fresh_def arena_new_def clamp_u32_def)
  from stale_handle_dead[OF this, of "[AInsert 7, AModify \<lparr>sid_index = 0, sid_generation = 0\<rparr> Suc]"] show ?thesis
    by simp
qed

end
