(* ===== verification/Min_Heap.thy ===== *)
theory Min_Heap
  imports Prelude
begin

text \<open>
  \<open>BinaryHeap<Reverse<T>>\<close> of the standard library as the stream store uses it: a min-queue with
  \<open>push\<close>, \<open>peek\<close>, \<open>pop\<close> and \<open>collect\<close>. The heap is represented by the ascending list
  of its elements; the locale \<open>min_queue\<close> states the contract the store relies on.
\<close>

type_synonym 'a heap = "'a list"

definition heap_empty :: "'a heap" where
  "heap_empty = []"

definition heap_push :: "'a::linorder \<Rightarrow> 'a heap \<Rightarrow> 'a heap" where
  "heap_push x h = insort x h"

definition heap_peek :: "'a heap \<Rightarrow> 'a option" where
  "heap_peek h = (case h of [] \<Rightarrow> None | x # _ \<Rightarrow> Some x)"

definition heap_pop :: "'a heap \<Rightarrow> 'a heap" where
  "heap_pop h = tl h"

definition heap_collect :: "'a::linorder list \<Rightarrow> 'a heap" where
  "heap_collect xs = sort xs"

locale min_queue =
  fixes ok :: "'q \<Rightarrow> bool"
    and elems :: "'q \<Rightarrow> 'a::linorder multiset"
    and empty :: 'q
    and push :: "'a \<Rightarrow> 'q \<Rightarrow> 'q"
    and peek :: "'q \<Rightarrow> 'a option"
    and pop :: "'q \<Rightarrow> 'q"
  assumes ok_empty: "ok empty" and elems_empty: "elems empty = {#}"
    and ok_push: "ok q \<Longrightarrow> ok (push x q)"
    and elems_push: "elems (push x q) = add_mset x (elems q)"
    and peek_None: "peek q = None \<longleftrightarrow> elems q = {#}"
    and peek_Some: "ok q \<Longrightarrow> peek q = Some x \<Longrightarrow> x \<in># elems q \<and> (\<forall>y \<in># elems q. x \<le> y)"
    and ok_pop: "ok q \<Longrightarrow> ok (pop q)"
    and elems_pop: "peek q = Some x \<Longrightarrow> elems q = add_mset x (elems (pop q))"
begin

text \<open>Popping shrinks the queue and leaves nothing below the element that was popped.\<close>

lemma size_pop: "peek q = Some x \<Longrightarrow> size (elems q) = Suc (size (elems (pop q)))"
  by (simp add: elems_pop)

lemma pop_above: "ok q \<Longrightarrow> peek q = Some x \<Longrightarrow> y \<in># elems (pop q) \<Longrightarrow> x \<le> y"
  using peek_Some[of q x] elems_pop[of q x] by simp

lemma elem_cases: "peek q = Some x \<Longrightarrow> y \<in># elems q \<Longrightarrow> y = x \<or> y \<in># elems (pop q)"
  using elems_pop[of q x] by auto

end

interpretation heap: min_queue sorted mset heap_empty heap_push heap_peek heap_pop
proof
  fix q :: "'a::linorder list" and x :: 'a
  assume "sorted q"
  then show "sorted (heap_push x q)" "sorted (heap_pop q)"
    by (simp_all add: heap_push_def sorted_insort heap_pop_def sorted_tl)
  show "x \<in># mset q \<and> (\<forall>y \<in># mset q. x \<le> y)" if "heap_peek q = Some x"
    using \<open>sorted q\<close> that by (cases q) (auto simp: heap_peek_def)
qed (auto simp: heap_empty_def heap_push_def heap_peek_def heap_pop_def split: list.splits)

lemma set_heap_push [simp]: "set (heap_push x h) = insert x (set h)"
  by (simp add: heap_push_def set_insort_key)

lemma length_heap_push [simp]: "length (heap_push x h) = Suc (length h)"
  by (simp add: heap_push_def)

lemma set_heap_collect [simp]: "set (heap_collect xs) = set xs"
  by (simp add: heap_collect_def)

lemma heap_peek_Some: "heap_peek h = Some x \<Longrightarrow> h = x # heap_pop h"
  by (cases h) (simp_all add: heap_peek_def heap_pop_def)

lemma length_filter_heap_push: "length (filter P (heap_push x h)) = (if P x then Suc else id) (length (filter P h))"
proof -
  have "mset (filter P (heap_push x h)) = mset (filter P (x # h))"
    by (simp add: heap_push_def mset_filter)
  then have "length (filter P (heap_push x h)) = length (filter P (x # h))" by (rule mset_eq_length)
  then show ?thesis by simp
qed

end
