(* ===== verification/Store.thy ===== *)
theory Store
  imports Parser Flow_Key Rollup Unknown Arena Min_Heap
begin

text \<open>
  \<open>pktflow-flows/src/store.rs\<close>: the single-writer stream aggregator. This theory holds its data
  and operations in the order of the source; \<open>Store_Inv\<close> and the theories above it prove them
  correct.

  Correspondence. The fields \<open>slots\<close>, \<open>free\<close> and \<open>live_count\<close> are the record \<open>ag_arena\<close>.
  \<open>Arc<Stream>\<close> is the stream itself (copy on write is not observable). The sink closure is the
  log of what it was called with, \<open>ag_emitted\<close>. The deterministic \<open>DefaultHasher\<close> is two
  functions of the aggregator, the digest of a flow key and of an encoded value; nothing is assumed
  of them, so every result holds under collisions too.
\<close>

section \<open>Data\<close>

datatype close_reason = ProtocolClose | IdleTimeout | LruEvicted | CaptureEnd

datatype eviction_policy =
    EvictNone
  | Live (idle_timeout: duration) (close_linger: duration) (max_streams: usize)

definition DEFAULT_CONDENSE_THRESHOLD :: usize where
  "DEFAULT_CONDENSE_THRESHOLD = 256"

definition CONDENSE_MEMBER_CAP :: usize where
  "CONDENSE_MEMBER_CAP = 65536"

definition CONDENSED_KEY_SENTINEL :: u8 where
  "CONDENSED_KEY_SENTINEL = 0xFE"

record aggregator_config =
  cf_eviction :: eviction_policy
  cf_sink :: bool
  cf_condense_threshold :: usize
  cf_series_default_cap :: usize
  cf_series_max_cap :: "usize option"
  cf_unknown :: unknown_registry_config

definition default_config :: aggregator_config where
  "default_config = \<lparr>cf_eviction = EvictNone, cf_sink = False,
     cf_condense_threshold = DEFAULT_CONDENSE_THRESHOLD, cf_series_default_cap = 1024,
     cf_series_max_cap = None, cf_unknown = default_registry_config\<rparr>"

record dir_stats =
  ds_packets :: u64
  ds_bytes :: u64

record condensed_info =
  ci_member_flows :: u64
  ci_ephemeral_field :: field_name
  ci_overflow :: bool

record stream =
  st_id :: stream_id
  st_protocol :: protocol_name
  st_key :: flow_key
  st_key_fields :: field_map
  st_parent :: "stream_id option"
  st_children :: "stream_id list"
  st_initiator :: packet_direction
  st_first_seen :: system_time
  st_last_seen :: system_time
  st_stats :: "dir_stats list"
  st_opaque_bytes :: u64
  st_state :: "state_name option"
  st_rollups :: rollup_set
  st_closed :: "close_reason option"
  st_close_eligible :: bool
  st_close_eligible_since :: "system_time option"
  st_created_seq :: u64
  st_condensed :: "condensed_info option"

record evicted_stream =
  ev_stream :: stream
  ev_reason :: close_reason

fun dir_index :: "packet_direction \<Rightarrow> nat" where
  "dir_index AtoB = 0"
| "dir_index BtoA = 1"

definition STOP_CLASSES :: "stop_class list" where
  "STOP_CLASSES = [Clean, UnknownPayload, MalformedClass, Suspicious]"

fun stop_class_index :: "stop_class \<Rightarrow> nat" where
  "stop_class_index Clean = 0"
| "stop_class_index UnknownPayload = 1"
| "stop_class_index MalformedClass = 2"
| "stop_class_index Suspicious = 3"

record totals =
  tt_packets :: u64
  tt_bytes :: u64
  tt_streams_created :: u64
  tt_flows_condensed :: u64
  tt_key_errors :: u64

record condense_group =
  cg_expanded :: u32
  cg_node :: "stream_id option"
  cg_members :: "u64 list"

definition empty_group :: condense_group where
  "empty_group = \<lparr>cg_expanded = 0, cg_node = None, cg_members = []\<rparr>"

type_synonym condense_key = "stream_id option \<times> protocol_name \<times> byte list"
type_synonym index_key = "stream_id option \<times> protocol_name \<times> u64"
type_synonym expiry_entry = "system_time \<times> u32 \<times> u32"
type_synonym lru_entry = "system_time \<times> u64 \<times> u32 \<times> u32"

record condense_candidate =
  cc_anchor :: "byte list"
  cc_anchor_field :: field_name
  cc_anchor_value :: "value_t"
  cc_varying_digest :: u64
  cc_fold_dir :: packet_direction

record aggregator =
  ag_engine :: engine
  ag_config :: aggregator_config
  ag_key_hash :: "flow_key \<Rightarrow> u64"
  ag_digest :: "byte list \<Rightarrow> u64"
  ag_arena :: "stream arena"
  ag_index :: "index_key \<rightharpoonup> stream_id list"
  ag_roots :: "stream_id list"
  ag_totals :: totals
  ag_clock :: system_time
  ag_next_seq :: u64
  ag_stop_classes :: "u64 list"
  ag_created_pp :: "(protocol_name, u64) hmap"
  ag_live_pp :: "protocol_name \<rightharpoonup> u64"
  ag_live_bytes_pp :: "protocol_name \<rightharpoonup> u64"
  ag_expiry :: "expiry_entry heap"
  ag_lru :: "lru_entry heap"
  ag_unknowns :: unknown_registry
  ag_condense :: "condense_key \<rightharpoonup> condense_group"
  ag_emitted :: "evicted_stream list"

definition aggregator_new ::
  "(flow_key \<Rightarrow> u64) \<Rightarrow> (byte list \<Rightarrow> u64) \<Rightarrow> engine \<Rightarrow> aggregator_config \<Rightarrow> aggregator" where
  "aggregator_new key_hash digest e cfg =
    \<lparr>ag_engine = e, ag_config = cfg, ag_key_hash = key_hash, ag_digest = digest, ag_arena = arena_new,
     ag_index = Map.empty, ag_roots = [],
     ag_totals = \<lparr>tt_packets = 0, tt_bytes = 0, tt_streams_created = 0, tt_flows_condensed = 0, tt_key_errors = 0\<rparr>,
     ag_clock = 0, ag_next_seq = 0, ag_stop_classes = [0, 0, 0, 0], ag_created_pp = [],
     ag_live_pp = Map.empty, ag_live_bytes_pp = Map.empty, ag_expiry = heap_empty, ag_lru = heap_empty,
     ag_unknowns = unknown_registry_new, ag_condense = Map.empty, ag_emitted = []\<rparr>"

section \<open>Handles\<close>

definition get :: "aggregator \<Rightarrow> stream_id \<Rightarrow> stream option" where
  "get a h = arena_get (ag_arena a) h"

definition get_mut :: "stream_id \<Rightarrow> (stream \<Rightarrow> stream) \<Rightarrow> aggregator \<Rightarrow> aggregator" where
  "get_mut h f a = a\<lparr>ag_arena := arena_modify h f (ag_arena a)\<rparr>"

definition streams :: "aggregator \<Rightarrow> stream list" where
  "streams a = arena_streams (ag_arena a)"

definition live_count :: "aggregator \<Rightarrow> usize" where
  "live_count a = ar_live_count (ag_arena a)"

section \<open>Condensation candidates\<close>

fun condense_prefix :: "key_field \<Rightarrow> key_field list \<Rightarrow> field_map \<Rightarrow> byte list \<Rightarrow> byte list option" where
  "condense_prefix eph [] fm prefix = Some prefix"
| "condense_prefix eph (kf # kfs) fm prefix =
    (if kf_a kf = kf_a eph \<and> kf_b kf = kf_b eph then condense_prefix eph kfs fm prefix
     else case kf_b kf of
       None \<Rightarrow>
        (case fm_get fm (kf_a kf) of
           None \<Rightarrow> None
         | Some v \<Rightarrow> condense_prefix eph kfs fm (prefix @ encode_value v))
     | Some b \<Rightarrow>
        (case (fm_get fm (kf_a kf), fm_get fm b) of
           (Some v, Some w) \<Rightarrow>
             (let ea = encode_value v; eb = encode_value w;
                  (lo, hi) = (if ea \<le> eb then (ea, eb) else (eb, ea))
              in condense_prefix eph kfs fm (prefix @ lo @ hi))
         | _ \<Rightarrow> None))"

definition condense_candidates ::
  "(byte list \<Rightarrow> u64) \<Rightarrow> stream_identity \<Rightarrow> condense_spec \<Rightarrow> field_map \<Rightarrow> condense_candidate list option" where
  "condense_candidates digest identity spec fm =
    (let eph = cs_ephemeral spec in
     case kf_b eph of
       None \<Rightarrow> None
     | Some b_name \<Rightarrow>
        (case (fm_get fm (kf_a eph), fm_get fm b_name) of
           (Some va, Some vb) \<Rightarrow>
            (case condense_prefix eph (si_key identity) fm [] of
               None \<Rightarrow> None
             | Some prefix \<Rightarrow>
                (let enc_a = encode_value va; enc_b = encode_value vb;
                     c1 = \<lparr>cc_anchor = prefix @ enc_a, cc_anchor_field = kf_a eph, cc_anchor_value = va,
                       cc_varying_digest = digest enc_b, cc_fold_dir = AtoB\<rparr>;
                     c2 = \<lparr>cc_anchor = prefix @ enc_b, cc_anchor_field = b_name, cc_anchor_value = vb,
                       cc_varying_digest = digest enc_a, cc_fold_dir = BtoA\<rparr>
                 in Some (if enc_a = enc_b then [c1] else [c1, c2])))
         | _ \<Rightarrow> None))"

section \<open>Deadlines and heap entries\<close>

definition deadline_of :: "aggregator \<Rightarrow> stream_id \<Rightarrow> system_time option" where
  "deadline_of a h =
    (case cf_eviction (ag_config a) of
       EvictNone \<Rightarrow> None
     | Live idle linger _ \<Rightarrow>
        map_option (\<lambda>s. let idle_at = st_last_seen s + int idle in
            case st_close_eligible_since s of
              Some entered \<Rightarrow> min idle_at (entered + int linger)
            | None \<Rightarrow> idle_at) (get a h))"

definition push_expiry :: "system_time \<Rightarrow> stream_id \<Rightarrow> aggregator \<Rightarrow> aggregator" where
  "push_expiry t h a = a\<lparr>ag_expiry := heap_push (t, sid_index h, sid_generation h) (ag_expiry a)\<rparr>"

definition push_lru :: "system_time \<Rightarrow> u64 \<Rightarrow> stream_id \<Rightarrow> aggregator \<Rightarrow> aggregator" where
  "push_lru t seq h a = a\<lparr>ag_lru := heap_push (t, seq, sid_index h, sid_generation h) (ag_lru a)\<rparr>"

text \<open>\<open>*map.entry(k).or_insert(0) += n\<close>\<close>

definition add_at :: "'k \<Rightarrow> u64 \<Rightarrow> ('k \<rightharpoonup> u64) \<Rightarrow> ('k \<rightharpoonup> u64)" where
  "add_at k n m = m(k \<mapsto> (case m k of Some v \<Rightarrow> v | None \<Rightarrow> 0) + n)"

definition hm_add :: "'k \<Rightarrow> u64 \<Rightarrow> ('k, u64) hmap \<Rightarrow> ('k, u64) hmap" where
  "hm_add k n m = hm_set k ((case hm_get m k of Some v \<Rightarrow> v | None \<Rightarrow> 0) + n) m"

section \<open>Creation\<close>

definition new_stream :: "stream_id \<Rightarrow> stream_id option \<Rightarrow> flow_key \<Rightarrow> field_map \<Rightarrow> state_name option \<Rightarrow>
    rollup_set \<Rightarrow> condensed_info option \<Rightarrow> packet_direction \<Rightarrow> protocol_name \<Rightarrow> system_time \<Rightarrow> u64 \<Rightarrow> stream" where
  "new_stream h parent key key_fields state rollups condensed dir protocol ts seq =
    \<lparr>st_id = h, st_protocol = protocol, st_key = key, st_key_fields = key_fields, st_parent = parent,
     st_children = [], st_initiator = dir, st_first_seen = ts, st_last_seen = ts,
     st_stats = [\<lparr>ds_packets = 0, ds_bytes = 0\<rparr>, \<lparr>ds_packets = 0, ds_bytes = 0\<rparr>], st_opaque_bytes = 0,
     st_state = state, st_rollups = rollups, st_closed = None, st_close_eligible = False,
     st_close_eligible_since = None, st_created_seq = seq, st_condensed = condensed\<rparr>"

text \<open>\<open>match parent.and_then(|p| self.get_mut(p))\<close>: link under a live parent, else as a root.\<close>

definition link_stream :: "stream_id option \<Rightarrow> stream_id \<Rightarrow> aggregator \<Rightarrow> aggregator" where
  "link_stream parent h a =
    (case parent of
       None \<Rightarrow> a\<lparr>ag_roots := ag_roots a @ [h]\<rparr>
     | Some p \<Rightarrow>
        (case get a p of
           None \<Rightarrow> a\<lparr>ag_roots := ag_roots a @ [h]\<rparr>
         | Some _ \<Rightarrow> get_mut p (\<lambda>s. s\<lparr>st_children := st_children s @ [h]\<rparr>) a))"

definition arm_new :: "stream_id \<Rightarrow> system_time \<Rightarrow> u64 \<Rightarrow> aggregator \<Rightarrow> aggregator" where
  "arm_new h ts seq a =
    (case cf_eviction (ag_config a) of
       EvictNone \<Rightarrow> a
     | Live idle _ _ \<Rightarrow> push_lru ts seq h (push_expiry (ts + int idle) h a))"

definition create_stream_raw :: "stream_id option \<Rightarrow> flow_key \<Rightarrow> field_map \<Rightarrow> state_name option \<Rightarrow>
    rollup_set \<Rightarrow> condensed_info option \<Rightarrow> packet_direction \<Rightarrow> protocol_name \<Rightarrow> system_time \<Rightarrow>
    aggregator \<Rightarrow> stream_id \<times> aggregator" where
  "create_stream_raw parent key key_fields state rollups condensed dir protocol ts a =
    (let h = arena_fresh (ag_arena a);
         seq = ag_next_seq a;
         s = new_stream h parent key key_fields state rollups condensed dir protocol ts seq;
         bucket_key = (parent, protocol, ag_key_hash a key);
         a1 = a\<lparr>ag_next_seq := seq + 1,
            ag_totals := (ag_totals a)\<lparr>tt_streams_created := tt_streams_created (ag_totals a) + 1\<rparr>,
            ag_created_pp := hm_add protocol 1 (ag_created_pp a),
            ag_live_pp := add_at protocol 1 (ag_live_pp a),
            ag_arena := arena_insert s (ag_arena a),
            ag_index := (ag_index a)(bucket_key \<mapsto>
              (case ag_index a bucket_key of Some bucket \<Rightarrow> bucket | None \<Rightarrow> []) @ [h])\<rparr>
     in (h, arm_new h ts seq (link_stream parent h a1)))"

definition display_fields :: "stream_identity \<Rightarrow> field_map \<Rightarrow> field_map" where
  "display_fields identity fm =
    fold (\<lambda>n acc. case fm_get fm n of Some v \<Rightarrow> fm_insert n v acc | None \<Rightarrow> acc) (key_names identity) fm_new"

definition new_rollups :: "stream_identity \<Rightarrow> aggregator \<Rightarrow> rollup_set" where
  "new_rollups identity a = rollup_set_new (si_rollups identity)
     (cf_series_default_cap (ag_config a)) (cf_series_max_cap (ag_config a))"

definition create_stream :: "stream_id option \<Rightarrow> flow_key \<Rightarrow> stream_identity \<Rightarrow> layer_record \<Rightarrow>
    packet_direction \<Rightarrow> system_time \<Rightarrow> aggregator \<Rightarrow> stream_id \<times> aggregator" where
  "create_stream parent key identity layer dir ts a =
    create_stream_raw parent key (display_fields identity (lr_fields layer))
      (map_option lc_initial (si_lifecycle identity)) (new_rollups identity a) None dir (lr_protocol layer) ts a"

section \<open>Condensed groups\<close>

definition group_triggered :: "aggregator \<Rightarrow> condense_group \<Rightarrow> bool" where
  "group_triggered a g \<longleftrightarrow> cg_node g \<noteq> None \<or> cf_condense_threshold (ag_config a) \<le> unat (cg_expanded g)"

definition live_node :: "aggregator \<Rightarrow> condense_group \<Rightarrow> stream_id option" where
  "live_node a g = Option.bind (cg_node g) (\<lambda>h. if get a h \<noteq> None then Some h else None)"

text \<open>Lazy creation of the group's node, with the creation counters taken back.\<close>

definition create_node :: "stream_id option \<Rightarrow> protocol_name \<Rightarrow> stream_identity \<Rightarrow> condense_candidate \<Rightarrow>
    system_time \<Rightarrow> aggregator \<Rightarrow> stream_id \<times> aggregator" where
  "create_node parent protocol identity cand ts a =
    (let ckey = (parent, protocol, cc_anchor cand);
         (h, a1) = create_stream_raw parent (CONDENSED_KEY_SENTINEL # cc_anchor cand)
            (fm_insert (cc_anchor_field cand) (cc_anchor_value cand) fm_new) None (new_rollups identity a)
            (Some \<lparr>ci_member_flows = 0, ci_ephemeral_field = cc_anchor_field cand, ci_overflow = False\<rparr>)
            (cc_fold_dir cand) protocol ts a
     in (h, a1\<lparr>ag_totals := (ag_totals a1)\<lparr>tt_streams_created := tt_streams_created (ag_totals a1) - 1\<rparr>,
           ag_created_pp := (case hm_get (ag_created_pp a1) protocol of
               Some ever \<Rightarrow> hm_set protocol (ever - 1) (ag_created_pp a1) | None \<Rightarrow> ag_created_pp a1),
           ag_condense := (case ag_condense a1 ckey of
               Some g \<Rightarrow> (ag_condense a1)(ckey \<mapsto> g\<lparr>cg_node := Some h\<rparr>) | None \<Rightarrow> ag_condense a1)\<rparr>))"

text \<open>The member tally: whether the member is new, whether it overflowed, and the new state.\<close>

definition tally_member :: "condense_key \<Rightarrow> u64 \<Rightarrow> aggregator \<Rightarrow> bool \<times> bool \<times> aggregator" where
  "tally_member ckey digest a =
    (case ag_condense a ckey of
       None \<Rightarrow> (False, False, a)
     | Some g \<Rightarrow>
        if length (cg_members g) < CONDENSE_MEMBER_CAP then
          (if digest \<in> set (cg_members g) then (False, False, a)
           else (True, False, a\<lparr>ag_condense := (ag_condense a)(ckey \<mapsto> g\<lparr>cg_members := cg_members g @ [digest]\<rparr>)\<rparr>))
        else (False, digest \<notin> set (cg_members g), a))"

definition note_member :: "stream_id \<Rightarrow> protocol_name \<Rightarrow> bool \<Rightarrow> bool \<Rightarrow> aggregator \<Rightarrow> aggregator" where
  "note_member node protocol new_member overflowed a =
    (let a1 = (if new_member
               then a\<lparr>ag_totals := (ag_totals a)\<lparr>tt_streams_created := tt_streams_created (ag_totals a) + 1,
                      tt_flows_condensed := tt_flows_condensed (ag_totals a) + 1\<rparr>,
                    ag_created_pp := hm_add protocol 1 (ag_created_pp a)\<rparr>
               else a)
     in if new_member \<or> overflowed then
          get_mut node (\<lambda>s. s\<lparr>st_condensed := map_option (\<lambda>info.
            info\<lparr>ci_member_flows := (if new_member then ci_member_flows info + 1 else ci_member_flows info),
                 ci_overflow := ci_overflow info \<or> overflowed\<rparr>) (st_condensed s)\<rparr>) a1
        else a1)"

definition condense_fold :: "stream_id option \<Rightarrow> protocol_name \<Rightarrow> stream_identity \<Rightarrow> condense_candidate \<Rightarrow>
    system_time \<Rightarrow> aggregator \<Rightarrow> ((stream_id \<times> packet_direction) \<times> aggregator) option" where
  "condense_fold parent protocol identity cand ts a =
    (let ckey = (parent, protocol, cc_anchor cand) in
     case ag_condense a ckey of
       None \<Rightarrow> None
     | Some g \<Rightarrow>
        if \<not> group_triggered a g then None
        else
          (let (node, a1) = (case live_node a g of
                 Some h \<Rightarrow> (h, a)
               | None \<Rightarrow> create_node parent protocol identity cand ts a);
               (new_member, overflowed, a2) = tally_member ckey (cc_varying_digest cand) a1
           in Some ((node, cc_fold_dir cand), note_member node protocol new_member overflowed a2)))"

fun fold_first :: "stream_id option \<Rightarrow> protocol_name \<Rightarrow> stream_identity \<Rightarrow> condense_candidate list \<Rightarrow>
    system_time \<Rightarrow> aggregator \<Rightarrow> ((stream_id \<times> packet_direction) \<times> aggregator) option" where
  "fold_first parent protocol identity [] ts a = None"
| "fold_first parent protocol identity (c # cs) ts a =
    (case condense_fold parent protocol identity c ts a of
       Some r \<Rightarrow> Some r
     | None \<Rightarrow> fold_first parent protocol identity cs ts a)"

definition tally_anchor :: "stream_id option \<Rightarrow> protocol_name \<Rightarrow> condense_candidate \<Rightarrow> aggregator \<Rightarrow> aggregator" where
  "tally_anchor parent protocol cand a =
    (let ckey = (parent, protocol, cc_anchor cand);
         g = (case ag_condense a ckey of Some g \<Rightarrow> g | None \<Rightarrow> empty_group)
     in a\<lparr>ag_condense := (ag_condense a)(ckey \<mapsto> g\<lparr>cg_expanded := cg_expanded g + 1\<rparr>)\<rparr>)"

section \<open>Resolution of a layer to its stream\<close>

definition find_stream :: "stream_id option \<Rightarrow> protocol_name \<Rightarrow> flow_key \<Rightarrow> aggregator \<Rightarrow> stream_id option" where
  "find_stream parent protocol key a =
    (case ag_index a (parent, protocol, ag_key_hash a key) of
       None \<Rightarrow> None
     | Some bucket \<Rightarrow> List.find (\<lambda>h. case get a h of Some s \<Rightarrow> st_key s = key | None \<Rightarrow> False) bucket)"

definition get_or_insert :: "stream_id option \<Rightarrow> flow_key \<Rightarrow> stream_identity \<Rightarrow> condense_spec option \<Rightarrow>
    layer_record \<Rightarrow> packet_direction \<Rightarrow> system_time \<Rightarrow> aggregator \<Rightarrow> (stream_id \<times> packet_direction) \<times> aggregator" where
  "get_or_insert parent key identity condense layer dir ts a =
    (case find_stream parent (lr_protocol layer) key a of
       Some h \<Rightarrow> ((h, dir), a)
     | None \<Rightarrow>
        (let plain = (\<lambda>(h, a'). ((h, dir), a')) (create_stream parent key identity layer dir ts a) in
         case condense of
           None \<Rightarrow> plain
         | Some spec \<Rightarrow>
            if cf_condense_threshold (ag_config a) = 0 then plain
            else
              (case condense_candidates (ag_digest a) identity spec (lr_fields layer) of
                 None \<Rightarrow> plain
               | Some cands \<Rightarrow>
                  (case fold_first parent (lr_protocol layer) identity cands ts a of
                     Some r \<Rightarrow> r
                   | None \<Rightarrow>
                      (let (h, a1) = create_stream parent key identity layer dir ts a
                       in ((h, dir), fold (tally_anchor parent (lr_protocol layer)) cands a1))))))"

section \<open>Eviction\<close>

definition untally_anchor :: "stream_id option \<Rightarrow> protocol_name \<Rightarrow> condense_candidate \<Rightarrow>
    (condense_key \<rightharpoonup> condense_group) \<Rightarrow> (condense_key \<rightharpoonup> condense_group)" where
  "untally_anchor parent protocol cand m =
    (let ckey = (parent, protocol, cc_anchor cand) in
     case m ckey of
       None \<Rightarrow> m
     | Some g \<Rightarrow>
        (let g' = g\<lparr>cg_expanded := saturating_sub_word (cg_expanded g) 1\<rparr> in
         if cg_expanded g' = 0 \<and> cg_node g' = None then m(ckey := None) else m(ckey \<mapsto> g')))"

definition condense_evict :: "stream \<Rightarrow> aggregator \<Rightarrow> aggregator" where
  "condense_evict s a =
    (if cf_condense_threshold (ag_config a) = 0 then a
     else if st_condensed s \<noteq> None then
       a\<lparr>ag_condense := (ag_condense a)((st_parent s, st_protocol s, drop 1 (st_key s)) := None)\<rparr>
     else case plugin_by_name (ag_engine a) (st_protocol s) of
       None \<Rightarrow> a
     | Some p \<Rightarrow>
        (case (pg_condense p, pg_stream_identity p) of
           (Some spec, Some identity) \<Rightarrow>
            (case condense_candidates (ag_digest a) identity spec (st_key_fields s) of
               None \<Rightarrow> a
             | Some cands \<Rightarrow>
                 a\<lparr>ag_condense := fold (untally_anchor (st_parent s) (st_protocol s)) cands (ag_condense a)\<rparr>)
         | _ \<Rightarrow> a))"

definition unindex :: "stream_id \<Rightarrow> index_key \<Rightarrow> aggregator \<Rightarrow> aggregator" where
  "unindex h bucket_key a =
    (case ag_index a bucket_key of
       None \<Rightarrow> a
     | Some bucket \<Rightarrow>
        (let bucket' = filter (\<lambda>c. c \<noteq> h) bucket in
         a\<lparr>ag_index := (ag_index a)(bucket_key := (if bucket' = [] then None else Some bucket'))\<rparr>))"

definition rearm_parent :: "stream_id \<Rightarrow> aggregator \<Rightarrow> aggregator" where
  "rearm_parent p a =
    (let a1 = (case deadline_of a p of Some t \<Rightarrow> push_expiry t p a | None \<Rightarrow> a)
     in case get a1 p of
          Some s \<Rightarrow> push_lru (st_last_seen s) (st_created_seq s) p a1
        | None \<Rightarrow> a1)"

definition unlink :: "stream_id option \<Rightarrow> stream_id \<Rightarrow> aggregator \<Rightarrow> aggregator" where
  "unlink parent h a =
    (case parent of
       Some p \<Rightarrow> rearm_parent p (get_mut p (\<lambda>s. s\<lparr>st_children := filter (\<lambda>c. c \<noteq> h) (st_children s)\<rparr>) a)
     | None \<Rightarrow> a\<lparr>ag_roots := filter (\<lambda>r. r \<noteq> h) (ag_roots a)\<rparr>)"

definition sub_at :: "'k \<Rightarrow> u64 \<Rightarrow> ('k \<rightharpoonup> u64) \<Rightarrow> ('k \<rightharpoonup> u64)" where
  "sub_at k n m = (case m k of Some v \<Rightarrow> m(k \<mapsto> saturating_sub_word v n) | None \<Rightarrow> m)"

definition emit :: "stream \<Rightarrow> close_reason \<Rightarrow> aggregator \<Rightarrow> aggregator" where
  "emit s reason a =
    (if cf_sink (ag_config a)
     then a\<lparr>ag_emitted := ag_emitted a @ [\<lparr>ev_stream = s, ev_reason = reason\<rparr>]\<rparr> else a)"

definition evict :: "stream_id \<Rightarrow> close_reason \<Rightarrow> aggregator \<Rightarrow> aggregator" where
  "evict h reason a =
    (case get a h of
       None \<Rightarrow> a
     | Some s \<Rightarrow>
        (let a1 = a\<lparr>ag_arena := arena_remove h (ag_arena a),
                    ag_live_pp := sub_at (st_protocol s) 1 (ag_live_pp a),
                    ag_live_bytes_pp := sub_at (st_protocol s)
                      (ds_bytes (st_stats s ! 0) + ds_bytes (st_stats s ! 1)) (ag_live_bytes_pp a)\<rparr>;
             a2 = condense_evict s a1;
             a3 = unindex h (st_parent s, st_protocol s, ag_key_hash a (st_key s)) a2;
             a4 = unlink (st_parent s) h a3
         in emit (s\<lparr>st_closed := Some reason\<rparr>) reason a4))"

section \<open>Frames of the operations\<close>

text \<open>What each operation leaves alone; the loops below need it to terminate, and
  \<open>store_simps\<close> carries it through the proofs.\<close>

lemma arena_frames [store_simps]:
  "ag_arena (push_expiry t h a) = ag_arena a" "ag_arena (push_lru t seq h a) = ag_arena a"
  "ag_arena (condense_evict s a) = ag_arena a" "ag_arena (unindex h k a) = ag_arena a"
  "ag_arena (emit s r a) = ag_arena a" "ag_arena (rearm_parent p a) = ag_arena a"
  "ag_arena (tally_anchor parent protocol c a) = ag_arena a"
  by (simp_all add: push_expiry_def push_lru_def condense_evict_def unindex_def emit_def rearm_parent_def
      tally_anchor_def Let_def split: option.splits)

lemma config_frames [store_simps]:
  "ag_config (push_expiry t h a) = ag_config a" "ag_config (push_lru t seq h a) = ag_config a"
  "ag_config (condense_evict s a) = ag_config a" "ag_config (unindex h k a) = ag_config a"
  "ag_config (emit s r a) = ag_config a" "ag_config (rearm_parent p a) = ag_config a"
  "ag_config (unlink parent h a) = ag_config a" "ag_config (get_mut h f a) = ag_config a"
  "ag_config (link_stream parent h a) = ag_config a"
  "ag_config (tally_anchor parent protocol c a) = ag_config a"
  by (simp_all add: push_expiry_def push_lru_def condense_evict_def unindex_def emit_def rearm_parent_def
      unlink_def get_mut_def link_stream_def tally_anchor_def Let_def split: option.splits)

lemma clock_frames [store_simps]:
  "ag_clock (push_expiry t h a) = ag_clock a" "ag_clock (push_lru t seq h a) = ag_clock a"
  "ag_clock (condense_evict s a) = ag_clock a" "ag_clock (unindex h k a) = ag_clock a"
  "ag_clock (emit s r a) = ag_clock a" "ag_clock (rearm_parent p a) = ag_clock a"
  "ag_clock (unlink parent h a) = ag_clock a" "ag_clock (get_mut h f a) = ag_clock a"
  by (simp_all add: push_expiry_def push_lru_def condense_evict_def unindex_def emit_def rearm_parent_def
      unlink_def get_mut_def Let_def split: option.splits)

lemma evict_clock_config [store_simps]:
  "ag_clock (evict h reason a) = ag_clock a" "ag_config (evict h reason a) = ag_config a"
  by (simp_all add: evict_def Let_def store_simps split: option.split)

lemma streams_unlink [store_simps]: "length (streams (unlink parent h a)) = length (streams a)"
  by (simp add: unlink_def streams_def store_simps get_mut_def length_arena_streams_modify split: option.split)

lemma evict_shrinks: "get a h = Some s \<Longrightarrow> Suc (length (streams (evict h reason a))) = length (streams a)"
  by (simp add: evict_def Let_def streams_def arena_frames)
    (simp add: streams_unlink[unfolded streams_def] arena_frames get_def arena_remove_live)

section \<open>The lazy-heap loops\<close>

text \<open>\<open>sweep\<close>: pop due expiry entries. The number of live streams, then the number of due entries,
  decreases with every round.\<close>

definition close_reason_at :: "duration \<Rightarrow> system_time \<Rightarrow> stream \<Rightarrow> close_reason" where
  "close_reason_at linger now s =
    (case st_close_eligible_since s of
       Some entered \<Rightarrow> if entered + int linger \<le> now then ProtocolClose else IdleTimeout
     | None \<Rightarrow> IdleTimeout)"

definition due :: "system_time \<Rightarrow> expiry_entry list \<Rightarrow> nat" where
  "due now es = length (filter (\<lambda>(t, _, _). t \<le> now) es)"

lemma due_pop: "heap_peek es = Some (t, i, g) \<Longrightarrow> \<not> now < t \<Longrightarrow> due now es = Suc (due now (heap_pop es))"
  by (cases es) (auto simp: heap_peek_def heap_pop_def due_def)

lemma due_push [simp]: "due now (heap_push (t, i, g) es) = (if t \<le> now then Suc (due now es) else due now es)"
  by (simp add: due_def length_filter_heap_push)

lemma streams_heap_upd [simp]:
  "streams (a\<lparr>ag_expiry := es\<rparr>) = streams a" "streams (a\<lparr>ag_lru := ls\<rparr>) = streams a"
  "get (a\<lparr>ag_expiry := es\<rparr>) h = get a h" "get (a\<lparr>ag_lru := ls\<rparr>) h = get a h"
  by (simp_all add: streams_def get_def)

lemma streams_push [simp]: "streams (push_expiry t h a) = streams a" "streams (push_lru t seq h a) = streams a"
  by (simp_all add: push_expiry_def push_lru_def)

lemma evict_less:
  "get a h = Some s \<Longrightarrow> length (streams (evict h r (a\<lparr>ag_expiry := es\<rparr>))) < length (streams a)"
  "get a h = Some s \<Longrightarrow> length (streams (evict h r (a\<lparr>ag_lru := ls\<rparr>))) < length (streams a)"
  using evict_shrinks[of "a\<lparr>ag_expiry := es\<rparr>" h s r] evict_shrinks[of "a\<lparr>ag_lru := ls\<rparr>" h s r] by simp_all

function sweep_loop :: "duration \<Rightarrow> aggregator \<Rightarrow> aggregator" where
  "sweep_loop linger a =
    (case heap_peek (ag_expiry a) of
       None \<Rightarrow> a
     | Some (entry_deadline, index, generation) \<Rightarrow>
        if ag_clock a < entry_deadline then a
        else
          (let a1 = a\<lparr>ag_expiry := heap_pop (ag_expiry a)\<rparr>;
               h = \<lparr>sid_index = index, sid_generation = generation\<rparr>
           in case deadline_of a1 h of
             None \<Rightarrow> sweep_loop linger a1
           | Some actual \<Rightarrow>
              if ag_clock a < actual then sweep_loop linger (push_expiry actual h a1)
              else case get a1 h of
                None \<Rightarrow> sweep_loop linger a1
              | Some s \<Rightarrow>
                  if st_children s \<noteq> [] then sweep_loop linger a1
                  else sweep_loop linger (evict h (close_reason_at linger (ag_clock a) s) a1)))"
  by pat_completeness auto
termination
  by (relation "measures [\<lambda>(_, a). length (streams a), \<lambda>(_, a). due (ag_clock a) (ag_expiry a)]")
    (auto simp: due_pop push_expiry_def evict_less)

declare sweep_loop.simps [simp del]

definition sweep :: "aggregator \<Rightarrow> aggregator" where
  "sweep a = (case cf_eviction (ag_config a) of EvictNone \<Rightarrow> a | Live _ linger _ \<Rightarrow> sweep_loop linger a)"

text \<open>\<open>enforce_max_streams\<close>: the number of live streams, then of stale entries (whose ordering
  values are not the stream's), then the heap's size, decreases.\<close>

definition stale :: "aggregator \<Rightarrow> lru_entry \<Rightarrow> bool" where
  "stale a = (\<lambda>(t, seq, i, g).
     case get a \<lparr>sid_index = i, sid_generation = g\<rparr> of
       Some s \<Rightarrow> (st_last_seen s, st_created_seq s) \<noteq> (t, seq)
     | None \<Rightarrow> False)"

lemma stale_lru_upd [simp]: "stale (a\<lparr>ag_lru := ls\<rparr>) = stale a"
  by (simp add: stale_def)

lemma lru_pop:
  "heap_peek ls = Some x \<Longrightarrow> length ls = Suc (length (heap_pop ls)) \<and>
    length (filter P ls) = (if P x then Suc (length (filter P (heap_pop ls))) else length (filter P (heap_pop ls)))"
  by (cases ls) (auto simp: heap_peek_def heap_pop_def)

function enforce_loop :: "usize \<Rightarrow> aggregator \<Rightarrow> aggregator" where
  "enforce_loop cap a =
    (if live_count a \<le> cap then a
     else case heap_peek (ag_lru a) of
       None \<Rightarrow> a
     | Some (entry_seen, entry_seq, index, generation) \<Rightarrow>
        (let a1 = a\<lparr>ag_lru := heap_pop (ag_lru a)\<rparr>;
             h = \<lparr>sid_index = index, sid_generation = generation\<rparr>
         in case get a1 h of
           None \<Rightarrow> enforce_loop cap a1
         | Some s \<Rightarrow>
            if st_children s \<noteq> [] then enforce_loop cap a1
            else if (st_last_seen s, st_created_seq s) \<noteq> (entry_seen, entry_seq) then
              enforce_loop cap (push_lru (st_last_seen s) (st_created_seq s) h a1)
            else enforce_loop cap (evict h LruEvicted a1)))"
  by pat_completeness auto
termination
proof (relation "measures [\<lambda>(_, a). length (streams a),
    \<lambda>(_, a). length (filter (stale a) (ag_lru a)), \<lambda>(_, a). length (ag_lru a)]", goal_cases)
  case (2 cap a x e y seq z i g a1 h)
  then show ?case using lru_pop[of "ag_lru a" x "stale a"] by auto
next
  case (3 cap a x e y seq z i g a1 h s)
  then show ?case using lru_pop[of "ag_lru a" x "stale a"] by auto
next
  case (4 cap a x e y seq z i g a1 h s)
  then have "stale a x" "\<not> stale a (st_last_seen s, st_created_seq s, i, g)" by (auto simp: stale_def)
  with 4 show ?case using lru_pop[of "ag_lru a" x "stale a"]
    by (auto simp: push_lru_def length_filter_heap_push)
next
  case (5 cap a x e y seq z i g a1 h s)
  then show ?case by (simp add: evict_less)
qed simp

declare enforce_loop.simps [simp del]

definition enforce_max_streams :: "aggregator \<Rightarrow> aggregator" where
  "enforce_max_streams a =
    (case cf_eviction (ag_config a) of EvictNone \<Rightarrow> a | Live _ _ cap \<Rightarrow> enforce_loop cap a)"

definition lru_entry_of :: "stream \<Rightarrow> lru_entry" where
  "lru_entry_of s = (st_last_seen s, st_created_seq s, sid_index (st_id s), sid_generation (st_id s))"

definition compact_lru :: "aggregator \<Rightarrow> aggregator" where
  "compact_lru a =
    (if length (ag_lru a) \<le> 2 * live_count a + 1024 then a
     else a\<lparr>ag_lru := heap_collect (map lru_entry_of (filter (\<lambda>s. st_children s = []) (streams a)))\<rparr>)"

section \<open>Ingest\<close>

text \<open>The lifecycle block: the updated stream and whether it has just become close-eligible.\<close>

definition advance_lifecycle ::
  "stream_identity \<Rightarrow> field_map \<Rightarrow> packet_direction \<Rightarrow> system_time \<Rightarrow> stream \<Rightarrow> stream \<times> bool" where
  "advance_lifecycle identity fm dir ts s =
    (case (si_lifecycle identity, st_state s) of
       (Some spec, Some current) \<Rightarrow>
        (let nxt = lc_advance spec fm current dir;
             eligible = nxt \<in> set (lc_closed_states spec);
             became = eligible \<and> \<not> st_close_eligible s
         in (s\<lparr>st_state := Some nxt,
               st_close_eligible_since := (if became then Some ts
                 else if \<not> eligible then None else st_close_eligible_since s),
               st_close_eligible := eligible\<rparr>, became))
     | _ \<Rightarrow> (s, False))"

definition touch_stream :: "stream_identity \<Rightarrow> field_map \<Rightarrow> packet_direction \<Rightarrow> u64 \<Rightarrow> system_time \<Rightarrow>
    stream \<Rightarrow> stream \<times> bool" where
  "touch_stream identity fm dir wire ts s =
    (let i = dir_index dir;
         slot = st_stats s ! i;
         s1 = s\<lparr>st_last_seen := ts,
            st_stats := (st_stats s)[i := \<lparr>ds_packets = ds_packets slot + 1, ds_bytes = ds_bytes slot + wire\<rparr>]\<rparr>;
         (s2, became) = advance_lifecycle identity fm dir ts s1
     in (s2\<lparr>st_rollups := rollup_apply fm (st_first_seen s2) ts dir (st_rollups s2)\<rparr>, became))"

record ingest_state =
  is_agg :: aggregator
  is_parent :: "stream_id option"
  is_endpoint :: "endpoint_key option"

text \<open>The body of the layer loop for a layer that has an identity and a key.\<close>

definition attribute_layer :: "stream_identity \<Rightarrow> condense_spec option \<Rightarrow> packet_meta \<Rightarrow> layer_record \<Rightarrow>
    flow_key \<Rightarrow> packet_direction \<Rightarrow> stream_id option \<Rightarrow> aggregator \<Rightarrow> stream_id \<times> aggregator" where
  "attribute_layer identity condense meta layer key dir parent a =
    (let ts = timestamp meta;
         wire = of_nat (origlen meta);
         ((h, dir'), a1) = get_or_insert parent key identity condense layer dir ts a;
         a2 = a1\<lparr>ag_live_bytes_pp := add_at (lr_protocol layer) wire (ag_live_bytes_pp a1)\<rparr>;
         (a3, became) = (case get a2 h of
             Some s \<Rightarrow> (let (s', b) = touch_stream identity (lr_fields layer) dir' wire ts s
                        in (get_mut h (\<lambda>_. s') a2, b))
           | None \<Rightarrow> (a2, False));
         a4 = (case cf_eviction (ag_config a3) of
             Live _ linger _ \<Rightarrow> if became then push_expiry (ts + int linger) h a3 else a3
           | EvictNone \<Rightarrow> a3)
     in (h, a4))"

definition ingest_layer :: "packet_meta \<Rightarrow> layer_record \<Rightarrow> ingest_state \<Rightarrow> ingest_state" where
  "ingest_layer meta layer st =
    (let a = is_agg st in
     case plugin_by_name (ag_engine a) (lr_protocol layer) of
       None \<Rightarrow> st
     | Some p \<Rightarrow>
        (case pg_stream_identity p of
           None \<Rightarrow> st
         | Some identity \<Rightarrow>
            (case flow_key identity (lr_fields layer) of
               Inl _ \<Rightarrow> st\<lparr>is_agg := a\<lparr>ag_totals := (ag_totals a)\<lparr>tt_key_errors := tt_key_errors (ag_totals a) + 1\<rparr>\<rparr>\<rparr>
             | Inr (key, dir) \<Rightarrow>
                (let (h, a') = attribute_layer identity (pg_condense p) meta layer key dir (is_parent st) a
                 in \<lparr>is_agg = a', is_parent = Some h,
                     is_endpoint = Some \<lparr>ep_protocol = lr_protocol layer, ep_key = key\<rparr>\<rparr>))))"

definition count_packet :: "dissected_packet \<Rightarrow> aggregator \<Rightarrow> aggregator" where
  "count_packet pkt a =
    (let i = stop_class_index (stop_class_of (dp_stop pkt)) in
     a\<lparr>ag_clock := max (ag_clock a) (timestamp (dp_meta pkt)),
       ag_totals := (ag_totals a)\<lparr>tt_packets := tt_packets (ag_totals a) + 1,
         tt_bytes := tt_bytes (ag_totals a) + of_nat (origlen (dp_meta pkt))\<rparr>,
       ag_stop_classes := (ag_stop_classes a)[i := ag_stop_classes a ! i + 1]\<rparr>)"

definition ingest :: "dissected_packet \<Rightarrow> aggregator \<Rightarrow> aggregator" where
  "ingest pkt a =
    (let a1 = compact_lru (sweep (count_packet pkt a));
         st = fold (ingest_layer (dp_meta pkt)) (dp_layers pkt)
           \<lparr>is_agg = a1, is_parent = None, is_endpoint = None\<rparr>;
         a2 = (case is_parent st of
             Some h \<Rightarrow> get_mut h (\<lambda>s. s\<lparr>st_opaque_bytes := st_opaque_bytes s + of_nat (dp_opaque_len pkt)\<rparr>) (is_agg st)
           | None \<Rightarrow> is_agg st);
         a3 = (case dp_unknown pkt of
             Some diag \<Rightarrow> a2\<lparr>ag_unknowns := registry_ingest diag (clamp_u32 (dp_opaque_len pkt))
                 (timestamp (dp_meta pkt)) (is_endpoint st) (cf_unknown (ag_config a2)) (ag_unknowns a2)\<rparr>
           | None \<Rightarrow> a2)
     in enforce_max_streams a3)"

section \<open>End of capture\<close>

text \<open>The \<open>while let Some(pid) = cursor\<close> loop; the fuel bounds the length of a parent chain.\<close>

fun chain_depth :: "nat \<Rightarrow> aggregator \<Rightarrow> stream_id option \<Rightarrow> nat" where
  "chain_depth 0 a cursor = 0"
| "chain_depth (Suc n) a cursor =
    (case cursor of
       None \<Rightarrow> 0
     | Some p \<Rightarrow> Suc (chain_depth n a (Option.bind (get a p) st_parent)))"

definition depth_of :: "aggregator \<Rightarrow> stream \<Rightarrow> nat" where
  "depth_of a s = chain_depth (Suc (length (ar_slots (ag_arena a)))) a (st_parent s)"

definition finish_order :: "aggregator \<Rightarrow> stream_id list" where
  "finish_order a = map st_id (sort_key (\<lambda>s. (- int (depth_of a s), st_created_seq s)) (streams a))"

definition finish_one :: "stream_id \<Rightarrow> aggregator \<Rightarrow> aggregator" where
  "finish_one h a =
    (case cf_eviction (ag_config a) of
       Live _ _ _ \<Rightarrow> evict h CaptureEnd a
     | EvictNone \<Rightarrow>
        (case get a h of
           None \<Rightarrow> a
         | Some s \<Rightarrow> emit (s\<lparr>st_closed := Some CaptureEnd\<rparr>) CaptureEnd
             (get_mut h (\<lambda>s. s\<lparr>st_closed := Some CaptureEnd\<rparr>) a)))"

definition finish :: "aggregator \<Rightarrow> aggregator" where
  "finish a = fold finish_one (finish_order a) a"

section \<open>Queries\<close>

definition roots :: "aggregator \<Rightarrow> stream list" where
  "roots a = List.map_filter (get a) (ag_roots a)"

definition children :: "aggregator \<Rightarrow> stream_id \<Rightarrow> stream list" where
  "children a h = List.map_filter (get a) (case get a h of Some s \<Rightarrow> st_children s | None \<Rightarrow> [])"

definition len :: "aggregator \<Rightarrow> usize" where
  "len a = length (streams a)"

definition is_empty :: "aggregator \<Rightarrow> bool" where
  "is_empty a \<longleftrightarrow> streams a = []"

definition at_layer :: "aggregator \<Rightarrow> protocol_name \<Rightarrow> stream list" where
  "at_layer a protocol = sort_key st_created_seq (filter (\<lambda>s. st_protocol s = protocol) (streams a))"

record merged_stream_view =
  mv_protocol :: protocol_name
  mv_key :: flow_key
  mv_key_fields :: field_map
  mv_stats :: "dir_stats list"
  mv_first_seen :: system_time
  mv_last_seen :: system_time
  mv_nodes :: "stream_id list"

definition add_stats :: "dir_stats list \<Rightarrow> dir_stats list \<Rightarrow> dir_stats list" where
  "add_stats xs ys = map2 (\<lambda>x y. \<lparr>ds_packets = ds_packets x + ds_packets y, ds_bytes = ds_bytes x + ds_bytes y\<rparr>) xs ys"

definition view_of :: "stream \<Rightarrow> merged_stream_view" where
  "view_of s = \<lparr>mv_protocol = st_protocol s, mv_key = st_key s, mv_key_fields = st_key_fields s,
     mv_stats = st_stats s, mv_first_seen = st_first_seen s, mv_last_seen = st_last_seen s, mv_nodes = [st_id s]\<rparr>"

definition merge_into :: "stream \<Rightarrow> merged_stream_view \<Rightarrow> merged_stream_view" where
  "merge_into s row = row\<lparr>mv_stats := add_stats (mv_stats row) (st_stats s),
     mv_first_seen := min (mv_first_seen row) (st_first_seen s),
     mv_last_seen := max (mv_last_seen row) (st_last_seen s), mv_nodes := mv_nodes row @ [st_id s]\<rparr>"

text \<open>The first row with the node's key absorbs it; otherwise it starts a row at the end.\<close>

fun merge_row :: "stream \<Rightarrow> merged_stream_view list \<Rightarrow> merged_stream_view list" where
  "merge_row s [] = [view_of s]"
| "merge_row s (row # rows) =
    (if mv_key row = st_key s then merge_into s row # rows else row # merge_row s rows)"

definition at_layer_merged :: "aggregator \<Rightarrow> protocol_name \<Rightarrow> merged_stream_view list" where
  "at_layer_merged a protocol = fold merge_row (at_layer a protocol) []"

record protocol_counts =
  pc_protocol :: protocol_name
  pc_ever :: u64
  pc_live :: u64
  pc_bytes :: u64

record aggregate_summary =
  sm_packets :: u64
  sm_bytes :: u64
  sm_streams_created :: u64
  sm_streams_live :: u64
  sm_flows_condensed :: u64
  sm_key_errors :: u64
  sm_per_protocol :: "protocol_counts list"
  sm_stop_classes :: "(stop_class \<times> u64) list"

definition protocol_counts_of :: "aggregator \<Rightarrow> protocol_name \<times> u64 \<Rightarrow> protocol_counts" where
  "protocol_counts_of a = (\<lambda>(p, ever). \<lparr>pc_protocol = p, pc_ever = ever,
     pc_live = (case ag_live_pp a p of Some v \<Rightarrow> v | None \<Rightarrow> 0),
     pc_bytes = (case ag_live_bytes_pp a p of Some v \<Rightarrow> v | None \<Rightarrow> 0)\<rparr>)"

definition summary :: "aggregator \<Rightarrow> aggregate_summary" where
  "summary a =
    \<lparr>sm_packets = tt_packets (ag_totals a), sm_bytes = tt_bytes (ag_totals a),
     sm_streams_created = tt_streams_created (ag_totals a), sm_streams_live = of_nat (live_count a),
     sm_flows_condensed = tt_flows_condensed (ag_totals a), sm_key_errors = tt_key_errors (ag_totals a),
     sm_per_protocol = sort_key pc_protocol (map (protocol_counts_of a) (ag_created_pp a)),
     sm_stop_classes = map (\<lambda>c. (c, ag_stop_classes a ! stop_class_index c)) STOP_CLASSES\<rparr>"

record aggregator_snapshot =
  sn_streams :: "stream list"
  sn_roots :: "stream_id list"
  sn_summary :: aggregate_summary
  sn_clock :: system_time
  sn_unknowns :: "unknown_group list"

definition snapshot :: "aggregator \<Rightarrow> aggregator_snapshot" where
  "snapshot a =
    \<lparr>sn_streams = sort_key st_created_seq (streams a), sn_roots = ag_roots a, sn_summary = summary a,
     sn_clock = ag_clock a, sn_unknowns = registry_groups (ag_unknowns a)\<rparr>"

end
