(* ===== verification/Stream_View.thy ===== *)
theory Stream_View
  imports Fmt Store
begin

text \<open>
  \<open>pktflow-view/src/stream_view.rs\<close>: what the views derive from one stream of a snapshot. The map from
  identifiers to streams is an association list; a walk up the parents visits at most as many streams
  as the map has, which is what bounds the loops here, and \<open>chain_complete\<close> shows that the bound never
  cuts a walk short when parents are created before their children.
\<close>

type_synonym id_map = "(stream_id, stream) hmap"

definition by_id :: "aggregator_snapshot \<Rightarrow> id_map" where
  "by_id snap = fold (\<lambda>s. hm_set (st_id s) s) (sn_streams snap) []"

definition total_packets :: "stream \<Rightarrow> u64" where
  "total_packets s = ds_packets (st_stats s ! 0) + ds_packets (st_stats s ! 1)"

definition total_bytes :: "stream \<Rightarrow> u64" where
  "total_bytes s = ds_bytes (st_stats s ! 0) + ds_bytes (st_stats s ! 1)"

section \<open>Endpoints\<close>

definition port_prefix :: "string \<Rightarrow> string \<Rightarrow> string" where
  "port_prefix name t = (if ends_with name ''port'' then CHR '':'' # t else t)"

text \<open>One key field of the loop in \<open>endpoint_sides\<close>, accumulating the two sides and the extras.\<close>

definition add_side :: "stream \<Rightarrow> string \<times> value_t \<Rightarrow> string list \<times> string list \<times> string list \<Rightarrow>
    string list \<times> string list \<times> string list" where
  "add_side s = (\<lambda>(name, v) (a_side, b_side, extras).
    (case Option.bind (strip_prefix name ''src_'')
        (\<lambda>suf. map_option (Pair suf) (fm_get (st_key_fields s) (''dst_'' @ suf))) of
       Some (suf, dst) \<Rightarrow>
        (let src_str = port_prefix suf (value_str name v); dst_str = port_prefix suf (value_str (''dst_'' @ suf) dst) in
         case st_initiator s of
           AtoB \<Rightarrow> (a_side @ [src_str], b_side @ [dst_str], extras)
         | BtoA \<Rightarrow> (a_side @ [dst_str], b_side @ [src_str], extras))
     | None \<Rightarrow>
        if starts_with name ''dst_'' \<and> fm_get (st_key_fields s) (''src_'' @ drop 4 name) \<noteq> None then (a_side, b_side, extras)
        else if name \<noteq> ''app'' then (a_side, b_side, extras @ [name @ ''='' @ value_str name v])
        else (a_side, b_side, extras)))"

definition endpoint_sides :: "stream \<Rightarrow> string \<times> string \<times> string list" where
  "endpoint_sides s =
    (case st_condensed s of
       Some info \<Rightarrow>
        (let f = ci_ephemeral_field info;
             anchor = (case fm_get (st_key_fields s) f of Some v \<Rightarrow> port_prefix f (value_str f v) | None \<Rightarrow> [])
         in (anchor, (if ends_with f ''port'' then '':*'' else ''*''), []))
     | None \<Rightarrow>
        (case fold (add_side s) (st_key_fields s) ([], [], []) of
           (a_side, b_side, extras) \<Rightarrow> (join '','' a_side, join '','' b_side, extras)))"

definition arrow :: string where
  "arrow = map char_of [0x20, 0xE2, 0x86, 0x94, 0x20 :: nat]"

definition endpoints_str :: "stream \<Rightarrow> string" where
  "endpoints_str s =
    (case endpoint_sides s of (a, b, extras) \<Rightarrow>
     let out = (if a \<noteq> [] then a @ arrow @ b else []) in
     if extras \<noteq> [] then out @ (if out \<noteq> [] then '' '' else []) @ join '' '' extras else out)"

definition condensed_marker :: "stream \<Rightarrow> string option" where
  "condensed_marker s =
    map_option (\<lambda>info. map char_of [0xC3, 0x97, 0x20 :: nat] @ (if ci_overflow info then map char_of [0xE2, 0x89, 0xA5 :: nat] else []) @
      thousands (ci_member_flows info) @ '' flows'') (st_condensed s)"

section \<open>Lineage\<close>

text \<open>The walk from a stream identifier towards the root.\<close>

fun chain :: "nat \<Rightarrow> id_map \<Rightarrow> stream_id option \<Rightarrow> stream list" where
  "chain 0 ids cursor = []"
| "chain (Suc n) ids None = []"
| "chain (Suc n) ids (Some p) = (case hm_get ids p of None \<Rightarrow> [] | Some s \<Rightarrow> s # chain n ids (st_parent s))"

definition ancestors :: "id_map \<Rightarrow> stream \<Rightarrow> stream list" where
  "ancestors ids s = chain (length ids) ids (st_parent s)"

definition label :: "stream \<Rightarrow> string" where
  "label s = st_protocol s @ '' #'' @ show_nat (unat (st_created_seq s)) @
     (if endpoints_str s = [] then [] else '' ('' @ endpoints_str s @ '')'')"

definition pointer :: string where
  "pointer = map char_of [0x20, 0xE2, 0x96, 0xB8, 0x20 :: nat]"

definition lineage_str :: "stream \<Rightarrow> id_map \<Rightarrow> string" where
  "lineage_str s ids = join pointer (rev (map label (ancestors ids s)))"

fun only_children :: "nat \<Rightarrow> id_map \<Rightarrow> stream option \<Rightarrow> stream list" where
  "only_children 0 ids cursor = []"
| "only_children (Suc n) ids None = []"
| "only_children (Suc n) ids (Some s) =
    s # only_children n ids (case st_children s of [only] \<Rightarrow> hm_get ids only | _ \<Rightarrow> None)"

definition child_chain_str :: "stream \<Rightarrow> id_map \<Rightarrow> string" where
  "child_chain_str child ids = join pointer (map label (only_children (Suc (length ids)) ids (Some child)))"

definition capture_span :: "aggregator_snapshot \<Rightarrow> (system_time \<times> system_time) option" where
  "capture_span snap =
    (if sn_streams snap = [] then None
     else Some (Min (set (map st_first_seen (sn_streams snap))), Max (set (map st_last_seen (sn_streams snap)))))"

fun close_reason_str :: "close_reason \<Rightarrow> string" where
  "close_reason_str ProtocolClose = ''protocol-close''"
| "close_reason_str IdleTimeout = ''idle-timeout''"
| "close_reason_str LruEvicted = ''lru-evicted''"
| "close_reason_str CaptureEnd = ''capture-end''"

section \<open>Walks are complete\<close>

text \<open>A map in which a stream is filed under its identifier and created after its parent.\<close>

definition ids_ok :: "id_map \<Rightarrow> bool" where
  "ids_ok ids \<longleftrightarrow> hm_wf ids \<and> (\<forall>h s. hm_get ids h = Some s \<longrightarrow> st_id s = h) \<and>
    (\<forall>h s p ps. hm_get ids h = Some s \<longrightarrow> st_parent s = Some p \<longrightarrow> hm_get ids p = Some ps \<longrightarrow>
       st_created_seq ps < st_created_seq s)"

lemma ids_ok_parent:
  "ids_ok ids \<Longrightarrow> hm_get ids h = Some s \<Longrightarrow> st_parent s = Some p \<Longrightarrow> hm_get ids p = Some ps \<Longrightarrow>
    st_created_seq ps < st_created_seq s"
  unfolding ids_ok_def by blast

lemma chain_Suc_mem: "t \<in> set (chain (Suc n) ids c) \<longleftrightarrow>
    (\<exists>p s. c = Some p \<and> hm_get ids p = Some s \<and> (t = s \<or> t \<in> set (chain n ids (st_parent s))))"
  by (cases c; cases "hm_get ids (the c)") auto

lemma chain_members: "s \<in> set (chain n ids c) \<Longrightarrow> \<exists>h. hm_get ids h = Some s"
  by (induction n arbitrary: c) (auto simp: chain_Suc_mem simp del: chain.simps(2,3))

lemma chain_below:
  assumes "ids_ok ids" and "hm_get ids h = Some s" and "t \<in> set (chain n ids (st_parent s))"
  shows "st_created_seq t < st_created_seq s"
  using assms(2,3)
proof (induction n arbitrary: h s)
  case (Suc n)
  then obtain p ps where p: "st_parent s = Some p" "hm_get ids p = Some ps"
    and t: "t = ps \<or> t \<in> set (chain n ids (st_parent ps))"
    unfolding chain_Suc_mem by blast
  have ps: "st_created_seq ps < st_created_seq s" by (rule ids_ok_parent[OF assms(1) Suc.prems(1) p])
  from t show ?case using ps Suc.IH[OF p(2)] by auto
qed simp

lemma chain_sorted: "ids_ok ids \<Longrightarrow> distinct (chain n ids c)"
proof (induction n arbitrary: c)
  case (Suc n)
  show ?case
  proof (cases c)
    case (Some p)
    show ?thesis
    proof (cases "hm_get ids p")
      case (Some s)
      have "s \<notin> set (chain n ids (st_parent s))" using chain_below[OF Suc.prems Some] by blast
      with Suc Some \<open>c = _\<close> show ?thesis by simp
    qed (simp add: Some)
  qed simp
qed simp

lemma chain_length: "ids_ok ids \<Longrightarrow> length (chain n ids c) \<le> length ids"
proof -
  assume ok: "ids_ok ids"
  have "set (chain n ids c) \<subseteq> snd ` set ids" using chain_members hm_get_in by (fastforce intro: rev_image_eqI)
  then have "card (set (chain n ids c)) \<le> card (snd ` set ids)" by (intro card_mono) simp_all
  also have "\<dots> \<le> length ids" by (metis card_image_le card_length finite_set le_trans)
  finally show ?thesis using distinct_card[OF chain_sorted[OF ok]] by metis
qed

text \<open>A walk shorter than its fuel is the whole walk.\<close>

lemma chain_stable: "length (chain n ids c) < n \<Longrightarrow> n \<le> m \<Longrightarrow> chain m ids c = chain n ids c"
proof (induction n arbitrary: m c)
  case (Suc n)
  then obtain m' where m: "m = Suc m'" "n \<le> m'" by (cases m) auto
  show ?case
  proof (cases c)
    case (Some p)
    show ?thesis
    proof (cases "hm_get ids p")
      case h: (Some s)
      with Suc.prems(1) Some have "length (chain n ids (st_parent s)) < n" by simp
      from Suc.IH[OF this m(2)] h Some m(1) show ?thesis by simp
    qed (simp add: Some m(1))
  qed (simp add: m(1))
qed simp

lemma chain_prefix: "chain n ids c = take n (chain (Suc n) ids c)"
proof (induction n arbitrary: c)
  case (Suc n)
  show ?case
  proof (cases c)
    case (Some p)
    with Suc.IH show ?thesis by (cases "hm_get ids p") (simp_all del: chain.simps(3) add: chain.simps(3)[of n] chain.simps(3)[of "Suc n"])
  qed simp
qed simp

lemma chain_complete:
  assumes "ids_ok ids" and "length ids \<le> n"
  shows "chain n ids c = chain (length ids) ids c"
proof -
  have "chain (length ids) ids c = take (length ids) (chain (Suc (length ids)) ids c)" by (rule chain_prefix)
  also have "\<dots> = chain (Suc (length ids)) ids c" using chain_length[OF assms(1), of "Suc (length ids)" c] by simp
  finally have e: "chain (Suc (length ids)) ids c = chain (length ids) ids c" ..
  show ?thesis
  proof (cases "n = length ids")
    case False
    with assms(2) have "Suc (length ids) \<le> n" by simp
    from chain_stable[OF _ this, of ids c] chain_length[OF assms(1), of "Suc (length ids)" c] e show ?thesis by simp
  qed simp
qed

text \<open>So the walk satisfies the loop's equation without the bound.\<close>

lemma ancestors_unfold:
  assumes "ids_ok ids"
  shows "ancestors ids s =
    (case Option.bind (st_parent s) (hm_get ids) of None \<Rightarrow> [] | Some p \<Rightarrow> p # ancestors ids p)"
proof -
  have "ancestors ids s = chain (Suc (length ids)) ids (st_parent s)"
    using chain_complete[OF assms, of "Suc (length ids)"] by (simp add: ancestors_def)
  then show ?thesis by (cases "st_parent s") (auto simp: ancestors_def split: option.split)
qed

end
