(* ===== verification/F64.thy ===== *)
theory F64
  imports Text Complex_Main
begin

text \<open>
  The IEEE 754 double-precision numbers as far as the query language uses them: conversion from
  integers, decimal parsing, multiplication, addition and division with rounding to nearest even,
  comparison, and the shortest decimal rendering of \<open>Display\<close>. A finite number is its rational value;
  no operation used produces a NaN and none distinguishes the two zeros.
\<close>

datatype f64 = Fin rat | Inf bool

section \<open>Rounding\<close>

fun ilog2 :: "nat \<Rightarrow> nat" where
  "ilog2 n = (if n < 2 then 0 else Suc (ilog2 (n div 2)))"

declare ilog2.simps [simp del]

text \<open>\<open>pow b k\<close> is \<open>b ^ k\<close> for an integer exponent.\<close>

definition pow :: "rat \<Rightarrow> int \<Rightarrow> rat" where
  "pow b k = (if 0 \<le> k then b ^ nat k else 1 / b ^ nat (- k))"

text \<open>The exponent of the leading bit of a positive number.\<close>

definition exponent2 :: "rat \<Rightarrow> int" where
  "exponent2 x = (case quotient_of x of (n, d) \<Rightarrow>
     let l = int (ilog2 (nat n)) - int (ilog2 (nat d)) in if pow 2 l \<le> x then l else l - 1)"

definition round_even :: "rat \<Rightarrow> int" where
  "round_even r = (let f = \<lfloor>r\<rfloor>; t = r - of_int f in
     if t < 1 / 2 then f else if 1 / 2 < t then f + 1 else if even f then f else f + 1)"

definition round_pos :: "rat \<Rightarrow> f64" where
  "round_pos x =
    (if x = 0 then Fin 0
     else let q = pow 2 (max (exponent2 x - 52) (- 1074)); y = of_int (round_even (x / q)) * q in
       if pow 2 1024 \<le> y then Inf True else Fin y)"

fun neg_f64 :: "f64 \<Rightarrow> f64" where
  "neg_f64 (Fin x) = Fin (- x)"
| "neg_f64 (Inf s) = Inf (\<not> s)"

definition round_f64 :: "rat \<Rightarrow> f64" where
  "round_f64 x = (if x < 0 then neg_f64 (round_pos (- x)) else round_pos x)"

section \<open>Operations\<close>

definition f64_of_nat :: "nat \<Rightarrow> f64" where
  "f64_of_nat n = round_f64 (of_nat n)"

definition f64_of_int :: "int \<Rightarrow> f64" where
  "f64_of_int i = round_f64 (of_int i)"

text \<open>Multiplication by a positive finite number, the only use of the operator.\<close>

fun f64_scale :: "f64 \<Rightarrow> rat \<Rightarrow> f64" where
  "f64_scale (Fin x) c = round_f64 (x * c)"
| "f64_scale (Inf s) c = Inf s"

fun f64_less :: "f64 \<Rightarrow> f64 \<Rightarrow> bool" where
  "f64_less (Fin x) (Fin y) \<longleftrightarrow> x < y"
| "f64_less (Fin x) (Inf s) \<longleftrightarrow> s"
| "f64_less (Inf s) (Fin y) \<longleftrightarrow> \<not> s"
| "f64_less (Inf s) (Inf t) \<longleftrightarrow> \<not> s \<and> t"

definition f64_le :: "f64 \<Rightarrow> f64 \<Rightarrow> bool" where
  "f64_le x y \<longleftrightarrow> f64_less x y \<or> x = y"

text \<open>\<open>Duration::as_secs_f64\<close>: the seconds plus the nanoseconds over \<open>1e9\<close>, each step rounded.\<close>

fun f64_add :: "f64 \<Rightarrow> f64 \<Rightarrow> f64" where
  "f64_add (Fin x) (Fin y) = round_f64 (x + y)"
| "f64_add (Fin x) (Inf s) = Inf s"
| "f64_add (Inf s) y = Inf s"

fun f64_div_by :: "f64 \<Rightarrow> rat \<Rightarrow> f64" where
  "f64_div_by (Fin x) c = round_f64 (x / c)"
| "f64_div_by (Inf s) c = Inf s"

definition as_secs_f64 :: "duration \<Rightarrow> f64" where
  "as_secs_f64 d = f64_add (f64_of_nat (d div 10 ^ 9)) (f64_div_by (f64_of_nat (d mod 10 ^ 9)) (10 ^ 9))"

section \<open>Decimal text\<close>

text \<open>\<open>str::parse::<f64>\<close> on a string over digits, dot and signs: an optional sign, then digits with an
  optional fraction, with at least one digit.\<close>

definition split_sign :: "string \<Rightarrow> bool \<times> string" where
  "split_sign s = (case s of c # r \<Rightarrow> if c = CHR ''-'' then (True, r) else if c = CHR ''+'' then (False, r) else (False, s)
     | [] \<Rightarrow> (False, []))"

definition parse_f64 :: "string \<Rightarrow> f64 option" where
  "parse_f64 s =
    (case split_sign s of (neg, r) \<Rightarrow>
     let ip = takeWhile is_ascii_digit r; rest = dropWhile is_ascii_digit r;
         fp = (case rest of c # t \<Rightarrow> if c = CHR ''.'' then takeWhile is_ascii_digit t else [] | [] \<Rightarrow> []);
         left = (case rest of c # t \<Rightarrow> if c = CHR ''.'' then dropWhile is_ascii_digit t else rest | [] \<Rightarrow> [])
     in if left \<noteq> [] \<or> ip @ fp = [] then None
        else let x = of_nat (read_nat (ip @ fp)) / 10 ^ length fp in
          Some (if neg then neg_f64 (round_f64 x) else round_f64 x))"

text \<open>\<open>Display\<close>: the fewest significant digits that read back as the same number, the closest such
  decimal, written without an exponent.\<close>

definition exponent10 :: "rat \<Rightarrow> int" where
  "exponent10 x = (case quotient_of x of (n, d) \<Rightarrow>
     let l = int (length (show_nat (nat n))) - int (length (show_nat (nat d))) in if pow 10 l \<le> x then l else l - 1)"

definition digits_at :: "rat \<Rightarrow> nat \<Rightarrow> (nat \<times> int) option" where
  "digits_at x k =
    (let e = exponent10 x + 1 - int k; q = pow 10 e; lo = \<lfloor>x / q\<rfloor>; hi = lo + 1;
         ok = (\<lambda>m. round_pos (of_int m * q) = Fin x)
     in if ok lo \<and> (\<not> ok hi \<or> x - of_int lo * q \<le> of_int hi * q - x) then Some (nat lo, e)
        else if ok hi then Some (nat hi, e) else None)"

definition decimal :: "nat \<Rightarrow> int \<Rightarrow> string" where
  "decimal m e =
    (if 0 \<le> e then show_nat m @ replicate (nat e) (CHR ''0'')
     else let f = nat (- e); s = pad (f + 1) (show_nat m) in take (length s - f) s @ ''.'' @ drop (length s - f) s)"

definition show_pos :: "rat \<Rightarrow> string" where
  "show_pos x =
    (if x = 0 then ''0''
     else case List.find (\<lambda>k. digits_at x k \<noteq> None) [1..<18] of
       Some k \<Rightarrow> (case digits_at x k of Some (m, e) \<Rightarrow> decimal m e | None \<Rightarrow> [])
     | None \<Rightarrow> [])"

fun show_f64 :: "f64 \<Rightarrow> string" where
  "show_f64 (Fin x) = (if x < 0 then CHR ''-'' # show_pos (- x) else show_pos x)"
| "show_f64 (Inf s) = (if s then ''inf'' else ''-inf'')"

section \<open>Exactness\<close>

lemma ilog2_less: "0 < m \<Longrightarrow> n < 2 ^ m \<Longrightarrow> ilog2 n < m"
proof (induction n arbitrary: m rule: ilog2.induct)
  case (1 n)
  show ?case
  proof (cases "n < 2")
    case True
    with 1(2) show ?thesis by (simp add: ilog2.simps[of n])
  next
    case False
    with 1(2,3) obtain k where m: "m = Suc k" "0 < k" by (cases m; cases "m - 1") auto
    with 1(3) have "n div 2 < 2 ^ k" by (simp add: less_mult_imp_div_less)
    from 1(1)[OF False m(2) this] False m(1) show ?thesis by (simp add: ilog2.simps[of n])
  qed
qed

lemma exponent2_nat_less:
  assumes "0 < n" and "n < 2 ^ 53"
  shows "exponent2 (of_nat n) \<le> 52"
proof -
  have q: "quotient_of (of_nat n) = (int n, 1)"
    by (simp add: of_nat_rat quotient_of_Fract normalize_def)
  have "ilog2 n < 53" using ilog2_less[of 53 n] assms by simp
  moreover have "ilog2 1 = 0" by (simp add: ilog2.simps)
  ultimately show ?thesis by (simp add: exponent2_def q Let_def)
qed

lemma round_even_int [simp]: "round_even (of_int i) = i"
  by (simp add: round_even_def)

text \<open>Integers below \<open>2^53\<close> convert exactly.\<close>

lemma f64_of_nat_exact:
  assumes "n < 2 ^ 53"
  shows "f64_of_nat n = Fin (of_nat n)"
proof (cases "n = 0")
  case False
  let ?k = "max (exponent2 (of_nat n) - 52) (- 1074)"
  have k: "?k \<le> 0" using exponent2_nat_less[of n] False assms by simp
  then have q: "pow 2 ?k = 1 / 2 ^ nat (- ?k)" by (cases "?k = 0") (simp_all add: pow_def)
  have "of_nat n / pow 2 ?k = of_int (int n * 2 ^ nat (- ?k))" unfolding q by simp
  then have "of_int (round_even (of_nat n / pow 2 ?k)) * pow 2 ?k = of_nat n"
    unfolding q by (simp only: round_even_int) simp
  moreover have "(of_nat n :: rat) < pow 2 1024"
  proof -
    have "(of_nat n :: rat) < of_nat (2 ^ 53)" using assms by (simp only: of_nat_less_iff)
    also have "\<dots> \<le> pow 2 1024" by (simp add: pow_def)
    finally show ?thesis .
  qed
  ultimately show ?thesis using False by (simp add: f64_of_nat_def round_f64_def round_pos_def Let_def)
qed (simp add: f64_of_nat_def round_f64_def round_pos_def)

lemma f64_less_nat:
  assumes "m < 2 ^ 53" and "n < 2 ^ 53"
  shows "f64_less (f64_of_nat m) (f64_of_nat n) \<longleftrightarrow> m < n" "f64_of_nat m = f64_of_nat n \<longleftrightarrow> m = n"
  using assms by (simp_all add: f64_of_nat_exact)

end
