(* ===== verification/Query.thy ===== *)
theory Query
  imports Stream_View F64
begin

text \<open>
  \<open>pktflow-view/src/query.rs\<close>: the stream query language, its lexer, recursive-descent parser and
  evaluator. A query is the bytes of a UTF-8 string; slicing one at an offset inside a character panics
  in Rust, which is the failure \<open>Panic\<close> here. The regular-expression engine is the parameter
  \<open>regex_env\<close>. The parser's functions carry fuel; \<open>Query_Grammar\<close> shows that \<open>stream_query_parse\<close>
  supplies enough for every input.
\<close>

section \<open>Syntax\<close>

datatype query_fail = QueryError string nat | Panic | OutOfFuel

record 'r regex_env =
  re_build :: "string \<Rightarrow> string + 'r"
  re_is_match :: "'r \<Rightarrow> string \<Rightarrow> bool"

datatype flag = FClosed | FLive | FRoot | FLeaf | FCondensed

datatype qfield =
    FProto | FId | FPackets | FBytes | FOpaque | FDuration | FDepth | FChildren | FState | FReason
  | FEndpoint | FPort | FParent | FUnder | FCustom string

datatype cmp_op = OpEq | OpNe | OpRe | OpNotRe | OpGt | OpGe | OpLt | OpLe | OpContains

record 'r literal =
  li_raw :: string
  li_number :: "(f64 \<times> string) option"
  li_regex :: "'r option"

datatype 'r expr =
    EOr "'r expr" "'r expr"
  | EAnd "'r expr" "'r expr"
  | ENot "'r expr"
  | FreeText string
  | FreeRegex 'r
  | EFlag flag
  | ECmp qfield cmp_op "'r literal"

definition resolve_field :: "string \<Rightarrow> qfield" where
  "resolve_field name =
    (let n = to_ascii_lowercase name in
     if n \<in> {''proto'', ''protocol''} then FProto
     else if n = ''id'' then FId
     else if n \<in> {''packets'', ''pkts''} then FPackets
     else if n = ''bytes'' then FBytes
     else if n = ''opaque'' then FOpaque
     else if n \<in> {''duration'', ''dur''} then FDuration
     else if n = ''depth'' then FDepth
     else if n = ''children'' then FChildren
     else if n = ''state'' then FState
     else if n \<in> {''reason'', ''close_reason''} then FReason
     else if n \<in> {''endpoint'', ''ep'', ''host'', ''addr''} then FEndpoint
     else if n = ''port'' then FPort
     else if n = ''parent'' then FParent
     else if n \<in> {''under'', ''ancestor'', ''in''} then FUnder
     else FCustom name)"

text \<open>The double nearest to \<open>0.001\<close>; the other scale factors are integers.\<close>

definition milli :: rat where
  "milli = (case round_f64 (1 / 1000) of Fin x \<Rightarrow> x | Inf _ \<Rightarrow> 0)"

definition suffix_scale :: "qfield \<Rightarrow> string \<Rightarrow> rat option" where
  "suffix_scale f suffix =
    (let s = to_ascii_lowercase suffix in
     if s = [] then Some 1
     else if f = FDuration then
       (if s = ''ms'' then Some milli else if s = ''s'' then Some 1 else if s = ''m'' then Some 60
        else if s = ''h'' then Some 3600 else None)
     else if s \<in> {''k'', ''kb''} then Some (10 ^ 3)
     else if s \<in> {''m'', ''mb''} then Some (10 ^ 6)
     else if s \<in> {''g'', ''gb''} then Some (10 ^ 9)
     else if s \<in> {''t'', ''tb''} then Some (10 ^ 12)
     else None)"

section \<open>Lexer\<close>

datatype tok = LParen | RParen | TAnd | TOr | TNot | TOp cmp_op | TWord string | TStr string | TRegex string

definition WORD_OPS :: "(string \<times> cmp_op) list" where
  "WORD_OPS = [(''=='', OpEq), (''!='', OpNe), (''=~'', OpRe), (''!~'', OpNotRe), (''>='', OpGe), (''<='', OpLe),
     (''>'', OpGt), (''<'', OpLt)]"

text \<open>\<open>str\<close> indices must fall on character boundaries: not on a continuation byte.\<close>

definition is_char_boundary :: "string \<Rightarrow> nat \<Rightarrow> bool" where
  "is_char_boundary s i \<longleftrightarrow> i = length s \<or> i < length s \<and> \<not> (0x80 \<le> code (s ! i) \<and> code (s ! i) < 0xC0)"

definition str_slice :: "string \<Rightarrow> nat \<Rightarrow> nat \<Rightarrow> string option" where
  "str_slice s i j =
    (if i \<le> j \<and> is_char_boundary s i \<and> is_char_boundary s j then Some (take (j - i) (drop i s)) else None)"

definition quote_char :: "char \<Rightarrow> bool" where
  "quote_char c \<longleftrightarrow> c = CHR 0x22 \<or> c = CHR 0x27"

definition word_stop :: "char \<Rightarrow> bool" where
  "word_stop c \<longleftrightarrow> is_whitespace c \<or> c = CHR ''('' \<or> c = CHR '')'' \<or> quote_char c"

text \<open>The inner \<open>while\<close> loops: the first index at or after \<open>i\<close> whose character satisfies the test.\<close>

definition scan_to :: "(char \<Rightarrow> bool) \<Rightarrow> string \<Rightarrow> nat \<Rightarrow> nat" where
  "scan_to P s i = i + length (takeWhile (\<lambda>c. \<not> P c) (drop i s))"

text \<open>\<open>pattern.push(byte as char)\<close> writes the UTF-8 encoding of the Latin-1 character.\<close>

definition push_byte :: "char \<Rightarrow> string" where
  "push_byte c = (if code c < 0x80 then [c] else [char_of (0xC0 + code c div 64), char_of (0x80 + code c mod 64)])"

text \<open>The body of a regex literal: the pattern and the number of bytes before the closing slash.\<close>

fun regex_body :: "string \<Rightarrow> (string \<times> nat) option" where
  "regex_body [] = None"
| "regex_body [c] = (if c = CHR ''/'' then Some ([], 0) else None)"
| "regex_body (c # d # s) =
    (if c = CHR 0x5C \<and> d = CHR ''/'' then map_option (\<lambda>(p, n). (CHR ''/'' # p, n + 2)) (regex_body s)
     else if c = CHR ''/'' then Some ([], 0)
     else map_option (\<lambda>(p, n). (push_byte c @ p, n + 1)) (regex_body (d # s)))"

definition better_split :: "string \<Rightarrow> string \<times> cmp_op \<Rightarrow> (nat \<times> cmp_op \<times> nat) option \<Rightarrow> (nat \<times> cmp_op \<times> nat) option" where
  "better_split word = (\<lambda>(sym, op) split.
    (case find_sub word sym of
       None \<Rightarrow> split
     | Some p \<Rightarrow>
        (case split of
           Some (q, _, existing_len) \<Rightarrow>
            if p < q \<or> p = q \<and> existing_len < length sym then Some (p, op, length sym) else split
         | None \<Rightarrow> Some (p, op, length sym))))"

definition find_split :: "string \<Rightarrow> (nat \<times> cmp_op \<times> nat) option" where
  "find_split word = fold (better_split word) WORD_OPS None"

definition push_word :: "string \<Rightarrow> nat \<Rightarrow> (tok \<times> nat) list" where
  "push_word word pos =
    (let w = to_ascii_lowercase word in
     if w \<in> {''and'', ''&&''} then [(TAnd, pos)]
     else if w \<in> {''or'', ''||''} then [(TOr, pos)]
     else if w \<in> {''not'', ''!''} then [(TNot, pos)]
     else if w = ''where'' then []
     else if w \<in> {''='', ''=='', ''is''} then [(TOp OpEq, pos)]
     else if w \<in> {''contains'', ''has''} then [(TOp OpContains, pos)]
     else [(TWord word, pos)])"

definition lex_word :: "string \<Rightarrow> nat \<Rightarrow> (tok \<times> nat) list" where
  "lex_word word start =
    (case find_split word of
       Some (p, op, sym_len) \<Rightarrow>
        (if 0 < p then push_word (take p word) start else []) @ [(TOp op, start + p)] @
        (let rest = drop (p + sym_len) word in if rest \<noteq> [] then [(TStr rest, start + p + sym_len)] else [])
     | None \<Rightarrow> push_word word start)"

lemma scan_to_gt: "i < length s \<Longrightarrow> \<not> P (s ! i) \<Longrightarrow> i < scan_to P s i"
  by (simp add: scan_to_def Cons_nth_drop_Suc[symmetric])

lemma scan_to_le: "i \<le> length s \<Longrightarrow> i \<le> scan_to P s i \<and> scan_to P s i \<le> length s"
  using length_takeWhile_le[of "\<lambda>c. \<not> P c" "drop i s"] by (simp add: scan_to_def)

function lex_from :: "string \<Rightarrow> nat \<Rightarrow> query_fail + (tok \<times> nat) list" where
  "lex_from input i =
    (if i < length input then
       let c = input ! i in
       if is_whitespace c then lex_from input (i + 1)
       else if c = CHR ''('' then and_then (lex_from input (i + 1)) (\<lambda>ts. Inr ((LParen, i) # ts))
       else if c = CHR '')'' then and_then (lex_from input (i + 1)) (\<lambda>ts. Inr ((RParen, i) # ts))
       else if quote_char c then
         let j = scan_to (\<lambda>d. d = c) input (i + 1) in
         if length input \<le> j then Inl (QueryError (''unclosed '' @ [c] @ '' quote'') i)
         else case str_slice input (i + 1) j of
             None \<Rightarrow> Inl Panic
           | Some s \<Rightarrow> and_then (lex_from input (j + 1)) (\<lambda>ts. Inr ((TStr s, i) # ts))
       else if c = CHR ''/'' then
         (case regex_body (drop (i + 1) input) of
            None \<Rightarrow> Inl (QueryError ''unclosed /regex/ literal'' i)
          | Some (pattern, n) \<Rightarrow> and_then (lex_from input (i + 1 + n + 1)) (\<lambda>ts. Inr ((TRegex pattern, i) # ts)))
       else
         let j = scan_to word_stop input i in
         case str_slice input i j of
           None \<Rightarrow> Inl Panic
         | Some word \<Rightarrow> and_then (lex_from input j) (\<lambda>ts. Inr (lex_word word i @ ts))
     else Inr [])"
  by pat_completeness auto
termination
proof (relation "measure (\<lambda>(s, i). length s - i)", goal_cases)
  case (5 input i c j s)
  then have "i + 1 \<le> j" using scan_to_le[of "i + 1" input] by simp
  with 5 show ?case by simp
next
  case (7 input i c j word)
  then have "i < j" using scan_to_gt[of i input word_stop] by (simp add: word_stop_def)
  with 7 show ?case by simp
qed auto

declare lex_from.simps [simp del]

definition lex :: "string \<Rightarrow> query_fail + (tok \<times> nat) list" where
  "lex input = lex_from input 0"

section \<open>Parser\<close>

record parser =
  pr_toks :: "(tok \<times> nat) list"
  pr_at :: nat
  pr_input_len :: nat

definition peek :: "parser \<Rightarrow> tok option" where
  "peek p = map_option fst (elem_get (pr_toks p) (pr_at p))"

definition peek2 :: "parser \<Rightarrow> tok option" where
  "peek2 p = map_option fst (elem_get (pr_toks p) (pr_at p + 1))"

definition pos :: "parser \<Rightarrow> nat" where
  "pos p = (case elem_get (pr_toks p) (pr_at p) of Some (_, i) \<Rightarrow> i | None \<Rightarrow> pr_input_len p)"

definition bump :: "parser \<Rightarrow> parser" where
  "bump p = p\<lparr>pr_at := pr_at p + 1\<rparr>"

definition perr :: "parser \<Rightarrow> string \<Rightarrow> query_fail" where
  "perr p message = QueryError message (pos p)"

definition compile :: "'r regex_env \<Rightarrow> parser \<Rightarrow> string \<Rightarrow> query_fail + 'r" where
  "compile env p pattern =
    (case re_build env pattern of
       Inr r \<Rightarrow> Inr r
     | Inl e \<Rightarrow> Inl (QueryError (''bad regex: '' @ e)
         (case elem_get (pr_toks p) (pr_at p - 1) of Some (_, i) \<Rightarrow> i | None \<Rightarrow> 0)))"

definition number_char :: "char \<Rightarrow> bool" where
  "number_char c \<longleftrightarrow> is_ascii_digit c \<or> c = CHR ''.'' \<or> c = CHR ''-'' \<or> c = CHR ''+''"

definition parse_number :: "string \<Rightarrow> (f64 \<times> string) option" where
  "parse_number raw =
    (let mag = takeWhile number_char raw; suffix = dropWhile number_char raw in
     if mag = [] then None
     else Option.bind (parse_f64 mag) (\<lambda>m. if list_all is_ascii_alphabetic suffix then Some (m, suffix) else None))"

definition ordering_op :: "cmp_op \<Rightarrow> bool" where
  "ordering_op op \<longleftrightarrow> op \<in> {OpGt, OpGe, OpLt, OpLe}"

text \<open>The value of a comparison whose field and operator have been read.\<close>

definition parse_value :: "'r regex_env \<Rightarrow> string \<Rightarrow> cmp_op \<Rightarrow> parser \<Rightarrow> query_fail + 'r expr \<times> parser" where
  "parse_value env name op p =
    (let field = resolve_field name; value_pos = pos p; p' = bump p;
         finish = (\<lambda>raw. let number = parse_number raw in
           if ordering_op op \<and> number = None then
             Inl (QueryError (CHR 0x27 # raw @ [CHR 0x27] @ '' is not a number (>, >=, <, <= compare numbers)'') value_pos)
           else if op = OpRe \<or> op = OpNotRe then
             and_then (compile env p' raw) (\<lambda>r. Inr (ECmp field op \<lparr>li_raw = raw, li_number = number, li_regex = Some r\<rparr>, p'))
           else Inr (ECmp field op \<lparr>li_raw = raw, li_number = number, li_regex = None\<rparr>, p'))
     in case peek p of
       Some (TWord w) \<Rightarrow> finish w
     | Some (TStr w) \<Rightarrow> finish w
     | Some (TRegex pattern) \<Rightarrow>
        and_then (compile env p' pattern) (\<lambda>r.
          Inr (ECmp field (if op = OpNe \<or> op = OpNotRe then OpNotRe else OpRe)
            \<lparr>li_raw = pattern, li_number = None, li_regex = Some r\<rparr>, p'))
     | _ \<Rightarrow> Inl (QueryError (CHR 0x27 # name @ [CHR 0x27] @ '' comparison is missing its value'') value_pos))"

definition parse_comparison :: "'r regex_env \<Rightarrow> parser \<Rightarrow> query_fail + 'r expr \<times> parser" where
  "parse_comparison env p =
    (case peek p of
       Some (TWord name) \<Rightarrow>
        (case peek (bump p) of
           Some (TOp op) \<Rightarrow> parse_value env name op (bump (bump p))
         | _ \<Rightarrow> Inl (perr (bump (bump p)) ''expected a comparison operator''))
     | _ \<Rightarrow> Inl (perr (bump p) ''expected a field name''))"

definition word_term :: "(string \<Rightarrow> string) \<Rightarrow> string \<Rightarrow> 'r expr" where
  "word_term lower w =
    (let l = to_ascii_lowercase w in
     if l = ''closed'' then EFlag FClosed
     else if l \<in> {''live'', ''open''} then EFlag FLive
     else if l = ''root'' then EFlag FRoot
     else if l = ''leaf'' then EFlag FLeaf
     else if l = ''condensed'' then EFlag FCondensed
     else FreeText (lower w))"

definition starts_term :: "tok option \<Rightarrow> bool" where
  "starts_term t \<longleftrightarrow> (case t of Some (TWord _) \<Rightarrow> True | Some (TStr _) \<Rightarrow> True | Some (TRegex _) \<Rightarrow> True | Some LParen \<Rightarrow> True
     | Some TNot \<Rightarrow> True | _ \<Rightarrow> False)"

text \<open>The recursive descent. The six modes are the methods \<open>parse_or\<close>, \<open>parse_and\<close>, \<open>parse_unary\<close>,
  \<open>parse_primary\<close> and the loops of the first two, which carry the left operand read so far.\<close>

datatype 'r descent = POr | POrLoop "'r expr" | PAnd | PAndLoop "'r expr" | PUnary | PPrimary

primrec descend :: "nat \<Rightarrow> (string \<Rightarrow> string) \<Rightarrow> 'r regex_env \<Rightarrow> 'r descent \<Rightarrow> parser \<Rightarrow> query_fail + 'r expr \<times> parser" where
  "descend 0 lower env m p = Inl OutOfFuel"
| "descend (Suc n) lower env m p =
    (case m of
       POr \<Rightarrow> and_then (descend n lower env PAnd p) (\<lambda>(left, p). descend n lower env (POrLoop left) p)
     | POrLoop left \<Rightarrow>
        if peek p = Some TOr then
          and_then (descend n lower env PAnd (bump p)) (\<lambda>(right, p). descend n lower env (POrLoop (EOr left right)) p)
        else Inr (left, p)
     | PAnd \<Rightarrow> and_then (descend n lower env PUnary p) (\<lambda>(left, p). descend n lower env (PAndLoop left) p)
     | PAndLoop left \<Rightarrow>
        if peek p = Some TAnd \<or> starts_term (peek p) then
          and_then (descend n lower env PUnary (if peek p = Some TAnd then bump p else p))
            (\<lambda>(right, p). descend n lower env (PAndLoop (EAnd left right)) p)
        else Inr (left, p)
     | PUnary \<Rightarrow>
        if peek p = Some TNot then and_then (descend n lower env PUnary (bump p)) (\<lambda>(e, p). Inr (ENot e, p))
        else descend n lower env PPrimary p
     | PPrimary \<Rightarrow>
        (case peek p of
           Some LParen \<Rightarrow>
            and_then (descend n lower env POr (bump p)) (\<lambda>(inner, p).
              if peek p = Some RParen then Inr (inner, bump p)
              else Inl (perr (bump p) (''expected '' @ [CHR 0x27] @ '')'' @ [CHR 0x27])))
         | Some (TRegex pattern) \<Rightarrow> and_then (compile env (bump p) pattern) (\<lambda>r. Inr (FreeRegex r, bump p))
         | Some (TStr s) \<Rightarrow> Inr (FreeText (lower s), bump p)
         | Some (TWord w) \<Rightarrow>
            (case peek2 p of
               Some (TOp _) \<Rightarrow> parse_comparison env p
             | _ \<Rightarrow> Inr (word_term lower w, bump p))
         | Some (TOp _) \<Rightarrow> Inl (perr p ''comparison operator needs a field on its left'')
         | Some RParen \<Rightarrow> Inl (perr p (''unexpected '' @ [CHR 0x27] @ '')'' @ [CHR 0x27]))
         | Some TAnd \<Rightarrow> Inl (perr p ''AND/OR needs a term on both sides'')
         | Some TOr \<Rightarrow> Inl (perr p ''AND/OR needs a term on both sides'')
         | Some TNot \<Rightarrow> Inl (perr p ''internal: NOT handled in parse_unary'')
         | None \<Rightarrow> Inl (perr p ''expected a search term'')))"

definition stream_query_parse :: "(string \<Rightarrow> string) \<Rightarrow> 'r regex_env \<Rightarrow> string \<Rightarrow> query_fail + 'r expr" where
  "stream_query_parse lower env input =
    and_then (lex input) (\<lambda>toks.
      if toks = [] then Inl (QueryError ''empty query'' 0)
      else and_then (descend (6 * length toks + 6) lower env POr \<lparr>pr_toks = toks, pr_at = 0, pr_input_len = length input\<rparr>)
        (\<lambda>(root, p). if peek p \<noteq> None then Inl (perr p ''unexpected trailing input'') else Inr root))"

section \<open>Evaluation\<close>

record candidate =
  ca_text :: string
  ca_number :: "f64 option"

definition text_candidate :: "string \<Rightarrow> candidate" where
  "text_candidate t = \<lparr>ca_text = t, ca_number = None\<rparr>"

definition num_candidate :: "f64 \<Rightarrow> candidate" where
  "num_candidate n = \<lparr>ca_text = show_f64 n, ca_number = Some n\<rparr>"

definition searchable_text :: "stream \<Rightarrow> string" where
  "searchable_text s = st_protocol s @ '' #'' @ show_nat (unat (st_created_seq s)) @ '' '' @ endpoints_str s @
     (case st_state s of Some state \<Rightarrow> '' '' @ state | None \<Rightarrow> [])"

fun value_as_number :: "value_t \<Rightarrow> f64 option" where
  "value_as_number (U64 v) = Some (f64_of_nat (unat v))"
| "value_as_number (I64 v) = Some (f64_of_int (sint v))"
| "value_as_number _ = None"

definition candidate_of :: "view_env \<Rightarrow> string \<Rightarrow> string \<Rightarrow> value_t \<Rightarrow> candidate" where
  "candidate_of ve protocol name v = \<lparr>ca_text = field_value_str ve protocol name v, ca_number = value_as_number v\<rparr>"

definition custom_candidates :: "view_env \<Rightarrow> string \<Rightarrow> stream \<Rightarrow> candidate list" where
  "custom_candidates ve name s =
    map (candidate_of ve (st_protocol s) name)
      ((case fm_get (st_key_fields s) name of Some v \<Rightarrow> [v] | None \<Rightarrow> []) @
       (case rollup_get (st_rollups s) name of
          Some (RAccumulate vs _ _) \<Rightarrow> vs
        | Some (RSample fst_v lst_v) \<Rightarrow> List.map_filter id [fst_v, lst_v]
        | Some (RSeries ring _ _) \<Rightarrow> map sp_value ring
        | None \<Rightarrow> []))"

definition port_numbers :: "stream \<Rightarrow> f64 list" where
  "port_numbers s = List.map_filter (\<lambda>(name, v). if ends_with name ''port'' then value_as_number v else None) (st_key_fields s)"

definition word_num :: "u64 \<Rightarrow> candidate" where
  "word_num w = num_candidate (f64_of_nat (unat w))"

definition field_candidates :: "view_env \<Rightarrow> qfield \<Rightarrow> stream \<Rightarrow> id_map \<Rightarrow> candidate list" where
  "field_candidates ve field s ids =
    (case field of
       FProto \<Rightarrow> [text_candidate (st_protocol s)]
     | FId \<Rightarrow> [word_num (st_created_seq s)]
     | FPackets \<Rightarrow> [word_num (ds_packets (st_stats s ! 0) + ds_packets (st_stats s ! 1))]
     | FBytes \<Rightarrow> [word_num (ds_bytes (st_stats s ! 0) + ds_bytes (st_stats s ! 1))]
     | FOpaque \<Rightarrow> [word_num (st_opaque_bytes s)]
     | FDuration \<Rightarrow> [num_candidate (as_secs_f64 (nat (st_last_seen s - st_first_seen s)))]
     | FDepth \<Rightarrow> [num_candidate (f64_of_nat (length (ancestors ids s)))]
     | FChildren \<Rightarrow> [num_candidate (f64_of_nat (length (st_children s)))]
     | FState \<Rightarrow> [text_candidate (case st_state s of Some state \<Rightarrow> state | None \<Rightarrow> [])]
     | FReason \<Rightarrow> [text_candidate (case st_closed s of Some r \<Rightarrow> close_reason_str r | None \<Rightarrow> [])]
     | FEndpoint \<Rightarrow> (case endpoint_sides s of (a, b, extras) \<Rightarrow> map text_candidate (a # b # extras))
     | FPort \<Rightarrow> map num_candidate (concat (map port_numbers (s # ancestors ids s)))
     | FParent \<Rightarrow> [text_candidate (case Option.bind (st_parent s) (hm_get ids) of Some p \<Rightarrow> st_protocol p | None \<Rightarrow> [])]
     | FUnder \<Rightarrow> map (\<lambda>a. text_candidate (st_protocol a)) (ancestors ids s)
     | FCustom name \<Rightarrow> custom_candidates ve name s)"

definition compare :: "view_env \<Rightarrow> 'r regex_env \<Rightarrow> candidate \<Rightarrow> cmp_op \<Rightarrow> 'r literal \<Rightarrow> qfield \<Rightarrow> bool" where
  "compare ve env c op v field =
    (let rhs_num = Option.bind (li_number v) (\<lambda>(mag, suffix). map_option (f64_scale mag) (suffix_scale field suffix));
         ordered = (\<lambda>test. case (ca_number c, rhs_num) of (Some lhs, Some rhs) \<Rightarrow> test lhs rhs | _ \<Rightarrow> False);
         eq_hit = (case (ca_number c, rhs_num) of (Some lhs, Some rhs) \<Rightarrow> lhs = rhs
                   | _ \<Rightarrow> eq_ignore_ascii_case (ca_text c) (li_raw v));
         re_hit = (case li_regex v of Some re \<Rightarrow> re_is_match env re (ca_text c) | None \<Rightarrow> False)
     in case op of
       OpGt \<Rightarrow> ordered (\<lambda>l r. f64_less r l)
     | OpGe \<Rightarrow> ordered (\<lambda>l r. f64_le r l)
     | OpLt \<Rightarrow> ordered f64_less
     | OpLe \<Rightarrow> ordered f64_le
     | OpEq \<Rightarrow> eq_hit
     | OpNe \<Rightarrow> \<not> eq_hit
     | OpContains \<Rightarrow> contains (ve_lower ve (ca_text c)) (ve_lower ve (li_raw v))
     | OpRe \<Rightarrow> re_hit
     | OpNotRe \<Rightarrow> \<not> re_hit)"

fun eval_flag :: "flag \<Rightarrow> stream \<Rightarrow> bool" where
  "eval_flag FClosed s \<longleftrightarrow> st_closed s \<noteq> None"
| "eval_flag FLive s \<longleftrightarrow> st_closed s = None"
| "eval_flag FRoot s \<longleftrightarrow> st_parent s = None"
| "eval_flag FLeaf s \<longleftrightarrow> st_children s = []"
| "eval_flag FCondensed s \<longleftrightarrow> st_condensed s \<noteq> None"

primrec eval :: "view_env \<Rightarrow> 'r regex_env \<Rightarrow> 'r expr \<Rightarrow> stream \<Rightarrow> id_map \<Rightarrow> bool" where
  "eval ve env (EOr l r) s ids \<longleftrightarrow> eval ve env l s ids \<or> eval ve env r s ids"
| "eval ve env (EAnd l r) s ids \<longleftrightarrow> eval ve env l s ids \<and> eval ve env r s ids"
| "eval ve env (ENot e) s ids \<longleftrightarrow> \<not> eval ve env e s ids"
| "eval ve env (FreeText needle) s ids \<longleftrightarrow> contains (ve_lower ve (searchable_text s)) needle"
| "eval ve env (FreeRegex re) s ids \<longleftrightarrow> re_is_match env re (searchable_text s)"
| "eval ve env (EFlag f) s ids \<longleftrightarrow> eval_flag f s"
| "eval ve env (ECmp field op v) s ids \<longleftrightarrow> list_ex (\<lambda>c. compare ve env c op v field) (field_candidates ve field s ids)"

section \<open>Matches with their ancestors\<close>

text \<open>The loop that marks the ancestors of a match; it stops at the first one already marked.\<close>

function mark_up :: "id_map \<Rightarrow> stream_id option \<Rightarrow> u64 set \<Rightarrow> u64 set" where
  "mark_up ids cursor keep =
    (case cursor of
       None \<Rightarrow> keep
     | Some pid \<Rightarrow>
        (case hm_get ids pid of
           None \<Rightarrow> keep
         | Some parent \<Rightarrow>
            if st_created_seq parent \<in> keep then keep
            else mark_up ids (st_parent parent) (insert (st_created_seq parent) keep)))"
  by pat_completeness auto
termination
proof (relation "measure (\<lambda>(ids, c, keep). card ((st_created_seq \<circ> snd) ` set ids - keep))", goal_cases)
  case (2 ids cursor keep pid parent)
  let ?S = "(st_created_seq \<circ> snd) ` set ids"
  have m: "st_created_seq parent \<in> ?S - keep" using hm_get_in[OF 2(2)] 2(3) by force
  have "?S - insert (st_created_seq parent) keep = ?S - keep - {st_created_seq parent}" by auto
  then have "card (?S - insert (st_created_seq parent) keep) < card (?S - keep)"
    using m by (metis card_Diff1_less finite_Diff finite_imageI finite_set)
  then show ?case by simp
qed simp

declare mark_up.simps [simp del]

definition matching_with_ancestors :: "view_env \<Rightarrow> 'r regex_env \<Rightarrow> stream list \<Rightarrow> id_map \<Rightarrow> 'r expr \<Rightarrow> u64 set" where
  "matching_with_ancestors ve env ss ids query =
    fold (\<lambda>s keep. if eval ve env query s ids then mark_up ids (st_parent s) (insert (st_created_seq s) keep) else keep) ss {}"

end
