(* ===== verification/Query_Grammar.thy ===== *)
theory Query_Grammar
  imports Query
begin

text \<open>
  The query parser against its grammar. The grammar of the module documentation is an inductive
  definition on token lists; the recursive descent accepts exactly its sentences and builds the tree of
  the derivation, and the fuel \<open>stream_query_parse\<close> supplies is enough for every input.
\<close>

section \<open>The grammar\<close>

inductive g_value :: "'r regex_env \<Rightarrow> string \<Rightarrow> cmp_op \<Rightarrow> tok \<Rightarrow> 'r expr \<Rightarrow> bool" for env where
  plain: "t = TWord raw \<or> t = TStr raw \<Longrightarrow> op \<noteq> OpRe \<Longrightarrow> op \<noteq> OpNotRe \<Longrightarrow> (ordering_op op \<Longrightarrow> parse_number raw \<noteq> None) \<Longrightarrow>
    g_value env name op t (ECmp (resolve_field name) op \<lparr>li_raw = raw, li_number = parse_number raw, li_regex = None\<rparr>)"
| pattern: "t = TWord raw \<or> t = TStr raw \<Longrightarrow> op = OpRe \<or> op = OpNotRe \<Longrightarrow> re_build env raw = Inr r \<Longrightarrow>
    g_value env name op t (ECmp (resolve_field name) op \<lparr>li_raw = raw, li_number = parse_number raw, li_regex = Some r\<rparr>)"
| regex: "re_build env pat = Inr r \<Longrightarrow>
    g_value env name op (TRegex pat) (ECmp (resolve_field name) (if op = OpNe \<or> op = OpNotRe then OpNotRe else OpRe)
      \<lparr>li_raw = pat, li_number = None, li_regex = Some r\<rparr>)"

inductive g_or :: "(string \<Rightarrow> string) \<Rightarrow> 'r regex_env \<Rightarrow> tok list \<Rightarrow> 'r expr \<Rightarrow> bool"
  and g_and :: "(string \<Rightarrow> string) \<Rightarrow> 'r regex_env \<Rightarrow> tok list \<Rightarrow> 'r expr \<Rightarrow> bool"
  and g_unary :: "(string \<Rightarrow> string) \<Rightarrow> 'r regex_env \<Rightarrow> tok list \<Rightarrow> 'r expr \<Rightarrow> bool"
  and g_primary :: "(string \<Rightarrow> string) \<Rightarrow> 'r regex_env \<Rightarrow> tok list \<Rightarrow> 'r expr \<Rightarrow> bool"
  for lower env where
  or_one: "g_and lower env xs e \<Longrightarrow> g_or lower env xs e"
| or_more: "g_or lower env xs l \<Longrightarrow> g_and lower env ys r \<Longrightarrow> g_or lower env (xs @ TOr # ys) (EOr l r)"
| and_one: "g_unary lower env xs e \<Longrightarrow> g_and lower env xs e"
| and_word: "g_and lower env xs l \<Longrightarrow> g_unary lower env ys r \<Longrightarrow> g_and lower env (xs @ TAnd # ys) (EAnd l r)"
| and_next: "g_and lower env xs l \<Longrightarrow> g_unary lower env ys r \<Longrightarrow> g_and lower env (xs @ ys) (EAnd l r)"
| not_more: "g_unary lower env xs e \<Longrightarrow> g_unary lower env (TNot # xs) (ENot e)"
| not_none: "g_primary lower env xs e \<Longrightarrow> g_unary lower env xs e"
| group: "g_or lower env xs e \<Longrightarrow> g_primary lower env (LParen # xs @ [RParen]) e"
| free_regex: "re_build env pat = Inr r \<Longrightarrow> g_primary lower env [TRegex pat] (FreeRegex r)"
| free_text: "g_primary lower env [TStr s] (FreeText (lower s))"
| word: "g_primary lower env [TWord w] (word_term lower w)"
| cmp: "g_value env name op t e \<Longrightarrow> g_primary lower env [TWord name, TOp op, t] e"

section \<open>The parser's state as a token list\<close>

definition rest :: "parser \<Rightarrow> tok list" where
  "rest p = map fst (drop (pr_at p) (pr_toks p))"

definition adv :: "nat \<Rightarrow> parser \<Rightarrow> parser" where
  "adv n p = p\<lparr>pr_at := pr_at p + n\<rparr>"

lemma adv_simps [simp]: "adv 0 p = p" "adv m (adv n p) = adv (n + m) p" "rest (adv n p) = drop n (rest p)" "bump p = adv 1 p"
  by (simp_all add: adv_def rest_def bump_def drop_map ac_simps)

lemma peek_rest: "peek p = (case rest p of [] \<Rightarrow> None | t # _ \<Rightarrow> Some t)"
  by (auto simp: peek_def rest_def elem_get_def Cons_nth_drop_Suc[symmetric] not_less split: list.split)

lemma peek2_rest: "peek2 p = (case drop 1 (rest p) of [] \<Rightarrow> None | t # _ \<Rightarrow> Some t)"
proof -
  have "peek2 p = peek (adv 1 p)" by (simp add: peek2_def peek_def adv_def)
  then show ?thesis by (simp add: peek_rest)
qed

lemma compile_iff: "compile env p pat = Inr r \<longleftrightarrow> re_build env pat = Inr r"
  by (simp add: compile_def split: sum.split)

lemma compile_fuel: "compile env p pat \<noteq> Inl OutOfFuel"
  by (simp add: compile_def split: sum.split)

section \<open>Comparisons\<close>

lemma parse_value_iff:
  "parse_value env name op p = Inr (e, p') \<longleftrightarrow> (\<exists>t ts. rest p = t # ts \<and> g_value env name op t e \<and> p' = adv 1 p)"
proof (cases "rest p")
  case Nil
  then show ?thesis by (simp add: parse_value_def peek_rest Let_def)
next
  case (Cons t ts)
  show ?thesis
    unfolding parse_value_def peek_rest Cons
    by (cases t; cases "op = OpRe \<or> op = OpNotRe")
      (auto simp: Let_def and_then_Inr_iff compile_iff g_value.simps ordering_op_def)
qed

lemma parse_value_fuel: "parse_value env name op p \<noteq> Inl OutOfFuel"
  using compile_fuel[of env "bump p"]
  by (auto simp: parse_value_def Let_def and_then_def split: option.splits tok.splits sum.splits)

lemma parse_comparison_iff:
  "parse_comparison env p = Inr (e, p') \<longleftrightarrow>
    (\<exists>name op t ts. rest p = TWord name # TOp op # t # ts \<and> g_value env name op t e \<and> p' = adv 3 p)"
proof -
  have "parse_comparison env p = Inr (e, p') \<longleftrightarrow>
    (\<exists>name op ts. rest p = TWord name # TOp op # ts \<and> parse_value env name op (adv 2 p) = Inr (e, p'))"
    by (cases "rest p"; cases "tl (rest p)"; cases "hd (rest p)"; cases "hd (tl (rest p))")
      (auto simp: parse_comparison_def peek_rest numeral_2_eq_2)
  then show ?thesis by (auto simp: parse_value_iff numeral_2_eq_2 numeral_3_eq_3)
qed

lemma parse_comparison_fuel: "parse_comparison env p \<noteq> Inl OutOfFuel"
  by (auto simp: parse_comparison_def perr_def parse_value_fuel split: option.splits tok.splits)

section \<open>Fuel\<close>

text \<open>The rank of a mode orders the calls that read nothing.\<close>

primrec rank :: "'r descent \<Rightarrow> nat" where
  "rank POr = 6"
| "rank (POrLoop _) = 5"
| "rank PAnd = 4"
| "rank (PAndLoop _) = 3"
| "rank PUnary = 2"
| "rank PPrimary = 1"

primrec is_loop :: "'r descent \<Rightarrow> bool" where
  "is_loop POr \<longleftrightarrow> False"
| "is_loop (POrLoop _) \<longleftrightarrow> True"
| "is_loop PAnd \<longleftrightarrow> False"
| "is_loop (PAndLoop _) \<longleftrightarrow> True"
| "is_loop PUnary \<longleftrightarrow> False"
| "is_loop PPrimary \<longleftrightarrow> False"

text \<open>What a result may be when the fuel covers the rest of the input: no lack of fuel, and progress.\<close>

definition advances :: "'r descent \<Rightarrow> parser \<Rightarrow> query_fail + 'r expr \<times> parser \<Rightarrow> bool" where
  "advances m p res \<longleftrightarrow>
    (case res of
       Inl e \<Rightarrow> e \<noteq> OutOfFuel
     | Inr (_, p') \<Rightarrow> (\<exists>k. p' = adv k p \<and> k \<le> length (rest p) \<and> (is_loop m \<or> 0 < k)))"

lemma advances_Inl [simp]: "advances m p (Inl e) \<longleftrightarrow> e \<noteq> OutOfFuel"
  by (simp add: advances_def)

lemma advances_Inr: "advances m p (Inr (e, p')) \<longleftrightarrow> (\<exists>k. p' = adv k p \<and> k \<le> length (rest p) \<and> (is_loop m \<or> 0 < k))"
  by (simp add: advances_def)

lemma advances_adv:
  "j \<le> length (rest p) \<Longrightarrow> advances m (adv j p) res \<Longrightarrow> is_loop m' \<or> 0 < j \<or> \<not> is_loop m \<Longrightarrow> advances m' p res"
  by (fastforce simp: advances_def split: sum.splits)

lemma advances_and_then:
  assumes r: "advances m p res" and f: "\<And>e k. k \<le> length (rest p) \<Longrightarrow> is_loop m \<or> 0 < k \<Longrightarrow> advances m' p (f (e, adv k p))"
  shows "advances m' p (and_then res f)"
proof (cases res)
  case (Inl e)
  with r show ?thesis by simp
next
  case (Inr b)
  with r obtain e k where "b = (e, adv k p)" "k \<le> length (rest p)" "is_loop m \<or> 0 < k"
    by (cases b) (auto simp: advances_Inr)
  with Inr f show ?thesis by simp
qed

lemma advances_comparison: "advances PPrimary p (parse_comparison env p)"
proof (cases "parse_comparison env p")
  case (Inl e)
  then show ?thesis using parse_comparison_fuel[of env p] by auto
next
  case (Inr b)
  then obtain e p' where b: "b = (e, p')" by (cases b)
  with Inr obtain name op t ts where "rest p = TWord name # TOp op # t # ts" "p' = adv 3 p"
    by (auto simp: parse_comparison_iff)
  then show ?thesis by (auto simp: Inr b advances_Inr intro: exI[of _ 3])
qed

lemma descend_advances: "6 * length (rest p) + rank m \<le> n \<Longrightarrow> advances m p (descend n lower env m p)"
proof (induction n arbitrary: m p)
  case 0
  then show ?case by (cases m) simp_all
next
  case (Suc n)
  have IH: "advances m' p (descend n lower env m (adv k p))"
    if "k \<le> length (rest p)" "is_loop m' \<or> 0 < k \<or> \<not> is_loop m" "6 * (length (rest p) - k) + rank m \<le> n" for m m' k
    using Suc.IH[where m = m and p = "adv k p"] that by (auto intro: advances_adv)
  note IH0 = IH[of 0, simplified]
  have pk: "peek p = Some t \<Longrightarrow> 0 < length (rest p)" for t by (auto simp: peek_rest split: list.splits)
  show ?case
  proof (cases m)
    case POr
    show ?thesis unfolding POr using Suc.prems POr
      by (auto intro!: advances_and_then[where m = PAnd] IH0 IH)
  next
    case (POrLoop l)
    show ?thesis
    proof (cases "peek p = Some TOr")
      case True
      have "advances (POrLoop l) p (and_then (descend n lower env PAnd (adv 1 p)) (\<lambda>(r, p). descend n lower env (POrLoop (EOr l r)) p))"
        using Suc.prems POrLoop pk[OF True] by (auto simp: Suc_le_eq intro!: advances_and_then[where m = PAnd] IH)
      then show ?thesis by (simp add: POrLoop True)
    qed (simp add: POrLoop advances_Inr exI[of _ 0])
  next
    case PAnd
    show ?thesis unfolding PAnd using Suc.prems PAnd
      by (auto intro!: advances_and_then[where m = PUnary] IH0 IH)
  next
    case (PAndLoop l)
    have *: "advances (PAndLoop l) p (and_then (descend n lower env PUnary (adv k p)) (\<lambda>(r, p). descend n lower env (PAndLoop (EAnd l r)) p))"
      if "k \<le> length (rest p)" for k
      using Suc.prems PAndLoop that by (auto simp: Suc_le_eq intro!: advances_and_then[where m = PUnary] IH)
    show ?thesis
    proof (cases "peek p = Some TAnd")
      case True
      then show ?thesis using *[of 1] pk[OF True] by (simp add: PAndLoop Suc_le_eq)
    next
      case False
      then show ?thesis using *[of 0] by (simp add: PAndLoop advances_Inr exI[of _ 0])
    qed
  next
    case PUnary
    show ?thesis
    proof (cases "peek p = Some TNot")
      case True
      have "advances PUnary p (and_then (descend n lower env PUnary (adv 1 p)) (\<lambda>(e, p). Inr (ENot e, p)))"
        using Suc.prems PUnary pk[OF True]
        by (cases "rest p") (auto simp: advances_Inr intro!: advances_and_then[where m = PUnary] IH)
      then show ?thesis by (simp add: PUnary True)
    next
      case False
      then show ?thesis using Suc.prems IH0 by (simp add: PUnary)
    qed
  next
    case PPrimary
    show ?thesis
    proof (cases "peek p")
      case (Some t)
      note r = pk[OF Some]
      have g: "advances PPrimary p (and_then (descend n lower env POr (adv 1 p)) (\<lambda>(i, p).
              if peek p = Some RParen then Inr (i, bump p) else Inl (perr (bump p) msg)))" for msg
      proof (rule advances_and_then[where m = POr])
        show "advances POr p (descend n lower env POr (adv 1 p))"
          using Suc.prems PPrimary r by (cases "rest p") (auto intro!: IH)
        show "advances PPrimary p (case (e, adv k p) of (i, p) \<Rightarrow> if peek p = Some RParen then Inr (i, bump p) else Inl (perr (bump p) msg))"
          for e k
          by (cases "k < length (rest p)") (auto simp: advances_Inr perr_def peek_rest intro!: exI[of _ "Suc k"])
      qed
      have c: "advances PPrimary p (and_then (compile env q pat) (\<lambda>x. Inr (f x, adv 1 p)))" for q pat and f :: "'a \<Rightarrow> 'a expr"
        using compile_fuel[of env q pat] r by (cases "compile env q pat") (auto simp: advances_Inr Suc_le_eq exI[of _ 1])
      show ?thesis using r g c advances_comparison[of p env]
        by (cases t) (auto simp: PPrimary Some advances_Inr perr_def Suc_le_eq exI[of _ 1] split: option.split tok.split)
    qed (simp add: PPrimary perr_def)
  qed
qed

section \<open>The parser builds derivations of the grammar\<close>

text \<open>What each mode derives from the tokens it reads. A loop extends the sentence of its left operand.\<close>

primrec derives :: "(string \<Rightarrow> string) \<Rightarrow> 'r regex_env \<Rightarrow> 'r descent \<Rightarrow> tok list \<Rightarrow> 'r expr \<Rightarrow> bool" where
  "derives lower env POr xs e \<longleftrightarrow> g_or lower env xs e"
| "derives lower env (POrLoop l) xs e \<longleftrightarrow> (\<forall>zs. g_or lower env zs l \<longrightarrow> g_or lower env (zs @ xs) e)"
| "derives lower env PAnd xs e \<longleftrightarrow> g_and lower env xs e"
| "derives lower env (PAndLoop l) xs e \<longleftrightarrow> (\<forall>zs. g_and lower env zs l \<longrightarrow> g_and lower env (zs @ xs) e)"
| "derives lower env PUnary xs e \<longleftrightarrow> g_unary lower env xs e"
| "derives lower env PPrimary xs e \<longleftrightarrow> g_primary lower env xs e"

definition spans :: "(tok list \<Rightarrow> bool) \<Rightarrow> parser \<Rightarrow> parser \<Rightarrow> bool" where
  "spans P p p' \<longleftrightarrow> (\<exists>xs ys. rest p = xs @ ys \<and> p' = adv (length xs) p \<and> P xs)"

lemma spansI: "rest p = xs @ ys \<Longrightarrow> P xs \<Longrightarrow> p' = adv (length xs) p \<Longrightarrow> spans P p p'"
  by (auto simp: spans_def)

lemma spans_mono: "spans P p p' \<Longrightarrow> (\<And>xs. P xs \<Longrightarrow> Q xs) \<Longrightarrow> spans Q p p'"
  by (auto simp: spans_def)

lemma spans_none: "P [] \<Longrightarrow> spans P p p"
  by (auto intro: spansI[of _ "[]"])

lemma peek_SomeE: "peek p = Some t \<Longrightarrow> (\<And>ts. rest p = t # ts \<Longrightarrow> R) \<Longrightarrow> R"
  by (auto simp: peek_rest split: list.splits)

lemma spans_one: "peek p = Some t \<Longrightarrow> P [t] \<Longrightarrow> spans P p (adv (Suc 0) p)"
  by (erule peek_SomeE) (auto intro: spansI[of _ "[t]"])

lemma spans_seq:
  assumes "spans P p q" "spans Q q p'" "\<And>xs ys. P xs \<Longrightarrow> Q ys \<Longrightarrow> R (xs @ ys)"
  shows "spans R p p'"
proof -
  obtain xs zs where xs: "rest p = xs @ zs" "q = adv (length xs) p" "P xs" using assms(1) by (auto simp: spans_def)
  obtain ys us where ys: "zs = ys @ us" "p' = adv (length ys) q" "Q ys" using assms(2) xs(1,2) by (auto simp: spans_def)
  show ?thesis using xs ys assms(3) by (intro spansI[of _ "xs @ ys" us]) simp_all
qed

lemma spans_bump: "peek p = Some t \<Longrightarrow> spans P (adv (Suc 0) p) p' \<Longrightarrow> (\<And>xs. P xs \<Longrightarrow> Q (t # xs)) \<Longrightarrow> spans Q p p'"
  by (rule spans_seq[OF spans_one[of p t "\<lambda>xs. xs = [t]"], of P]) auto

abbreviation reads :: "(string \<Rightarrow> string) \<Rightarrow> 'r regex_env \<Rightarrow> 'r descent \<Rightarrow> parser \<Rightarrow> 'r expr \<Rightarrow> parser \<Rightarrow> bool" where
  "reads lower env m p e p' \<equiv> spans (\<lambda>xs. derives lower env m xs e) p p'"

lemma or_step:
  assumes "peek p = Some TOr" "spans (\<lambda>xs. g_and lower env xs r) (adv (Suc 0) p) q" "reads lower env (POrLoop (EOr l r)) q e p'"
  shows "reads lower env (POrLoop l) p e p'"
proof -
  have "spans (\<lambda>xs. derives lower env (POrLoop l) (TOr # xs) e) (adv (Suc 0) p) p'"
    using or_more[of lower env _ l _ r] by (intro spans_seq[OF assms(2,3)]) fastforce
  with assms(1) show ?thesis by (rule spans_bump)
qed

lemma and_step:
  assumes "reads lower env (PAndLoop (EAnd l r)) q e p'"
  shows "spans (\<lambda>xs. g_unary lower env xs r) p q \<Longrightarrow> reads lower env (PAndLoop l) p e p'"
    and "peek p = Some TAnd \<Longrightarrow> spans (\<lambda>xs. g_unary lower env xs r) (adv (Suc 0) p) q \<Longrightarrow> reads lower env (PAndLoop l) p e p'"
proof -
  show "reads lower env (PAndLoop l) p e p'" if "spans (\<lambda>xs. g_unary lower env xs r) p q"
    using and_next[of lower env _ l _ r] by (intro spans_seq[OF that assms]) fastforce
  assume a: "peek p = Some TAnd" "spans (\<lambda>xs. g_unary lower env xs r) (adv (Suc 0) p) q"
  have "spans (\<lambda>xs. derives lower env (PAndLoop l) (TAnd # xs) e) (adv (Suc 0) p) p'"
    using and_word[of lower env _ l _ r] by (intro spans_seq[OF a(2) assms]) fastforce
  with a(1) show "reads lower env (PAndLoop l) p e p'" by (rule spans_bump)
qed

lemma comparison_reads:
  assumes "parse_comparison env p = Inr (e, p')"
  shows "reads lower env PPrimary p e p'"
proof -
  obtain name op t ts where r: "rest p = [TWord name, TOp op, t] @ ts" "g_value env name op t e" "p' = adv 3 p"
    using assms by (auto simp: parse_comparison_iff)
  show ?thesis using r(2,3) by (intro spansI[OF r(1)]) (simp_all add: cmp eval_nat_numeral)
qed

lemma primary_sound:
  assumes IH: "\<And>q e p'. descend n lower env POr q = Inr (e, p') \<Longrightarrow> reads lower env POr q e p'"
    and d: "descend (Suc n) lower env PPrimary p = Inr (e, p')"
  shows "reads lower env PPrimary p e p'"
proof -
  obtain t where t: "peek p = Some t" using d by (cases "peek p") simp_all
  have one: "p' = adv (Suc 0) p \<Longrightarrow> g_primary lower env [t] e \<Longrightarrow> spans (\<lambda>xs. g_primary lower env xs e) p p'"
    using spans_one[OF t] by simp
  show ?thesis
  proof (cases t)
    case LParen
    with d t obtain q where q: "descend n lower env POr (adv 1 p) = Inr (e, q)" "peek q = Some RParen" "p' = adv (Suc 0) q"
      by (auto simp: and_then_Inr_iff split: if_splits)
    have "spans (\<lambda>xs. \<exists>zs. xs = zs @ [RParen] \<and> g_or lower env zs e) (adv 1 p) p'"
      unfolding q(3) by (rule spans_seq[OF IH[OF q(1)] spans_one[OF q(2), of "\<lambda>xs. xs = [RParen]"]]) auto
    then show ?thesis using t LParen by (auto intro!: spans_bump[of p] group)
  next
    case (TWord w)
    show ?thesis
    proof (cases "\<exists>op. peek2 p = Some (TOp op)")
      case True
      with d t TWord have "parse_comparison env p = Inr (e, p')" by auto
      then show ?thesis by (rule comparison_reads)
    next
      case False
      with d t TWord have "e = word_term lower w \<and> p' = adv (Suc 0) p" by (auto split: option.splits tok.splits)
      with one show ?thesis by (simp add: TWord word)
    qed
  qed (use d t one in \<open>auto simp: and_then_Inr_iff compile_iff free_regex free_text\<close>)
qed

lemma descend_sound: "descend n lower env m p = Inr (e, p') \<Longrightarrow> reads lower env m p e p'"
proof (induction n arbitrary: m p e p')
  case 0
  then show ?case by simp
next
  case (Suc n)
  show ?case
  proof (cases m)
    case POr
    with Suc.prems obtain l q where "descend n lower env PAnd p = Inr (l, q)" "descend n lower env (POrLoop l) q = Inr (e, p')"
      by (auto simp: and_then_Inr_iff)
    from Suc.IH[OF this(1)] Suc.IH[OF this(2)] show ?thesis unfolding POr by (rule spans_seq) (simp add: or_one)
  next
    case (POrLoop l)
    show ?thesis
    proof (cases "peek p = Some TOr")
      case True
      with Suc.prems obtain r q where "descend n lower env PAnd (adv 1 p) = Inr (r, q)"
          "descend n lower env (POrLoop (EOr l r)) q = Inr (e, p')"
        by (auto simp: POrLoop and_then_Inr_iff)
      note or_step[OF True this(1)[THEN Suc.IH, simplified] this(2)[THEN Suc.IH]]
      then show ?thesis by (simp only: POrLoop)
    next
      case False
      with Suc.prems show ?thesis by (auto simp: POrLoop intro: spans_none)
    qed
  next
    case PAnd
    with Suc.prems obtain l q where "descend n lower env PUnary p = Inr (l, q)" "descend n lower env (PAndLoop l) q = Inr (e, p')"
      by (auto simp: and_then_Inr_iff)
    from Suc.IH[OF this(1)] Suc.IH[OF this(2)] show ?thesis unfolding PAnd by (rule spans_seq) (simp add: and_one)
  next
    case (PAndLoop l)
    consider "peek p = Some TAnd" | "peek p \<noteq> Some TAnd" "starts_term (peek p)" | "e = l" "p' = p"
      using Suc.prems by (auto simp: PAndLoop split: if_splits)
    then show ?thesis
    proof cases
      case 1
      with Suc.prems obtain r q where "descend n lower env PUnary (adv 1 p) = Inr (r, q)"
          "descend n lower env (PAndLoop (EAnd l r)) q = Inr (e, p')"
        by (auto simp: PAndLoop and_then_Inr_iff)
      note and_step(2)[OF this(2)[THEN Suc.IH] 1 this(1)[THEN Suc.IH, simplified]]
      then show ?thesis by (simp only: PAndLoop)
    next
      case 2
      with Suc.prems obtain r q where "descend n lower env PUnary p = Inr (r, q)"
          "descend n lower env (PAndLoop (EAnd l r)) q = Inr (e, p')"
        by (auto simp: PAndLoop and_then_Inr_iff)
      note and_step(1)[OF this(2)[THEN Suc.IH] this(1)[THEN Suc.IH, simplified]]
      then show ?thesis by (simp only: PAndLoop)
    next
      case 3
      then show ?thesis by (auto simp: PAndLoop intro: spans_none)
    qed
  next
    case PUnary
    show ?thesis
    proof (cases "peek p = Some TNot")
      case True
      with Suc.prems obtain i where "descend n lower env PUnary (adv 1 p) = Inr (i, p')" "e = ENot i"
        by (auto simp: PUnary and_then_Inr_iff)
      with Suc.IH[OF this(1)] show ?thesis by (auto simp: PUnary intro: spans_bump[OF True] not_more)
    next
      case False
      with Suc.prems have "descend n lower env PPrimary p = Inr (e, p')" by (simp add: PUnary)
      from Suc.IH[OF this] show ?thesis by (rule spans_mono) (simp add: PUnary not_none)
    qed
  next
    case PPrimary
    have "reads lower env POr q e p'" if "descend n lower env POr q = Inr (e, p')" for q e p' using Suc.IH[OF that] .
    from primary_sound[OF this Suc.prems[unfolded PPrimary]] show ?thesis unfolding PPrimary .
  qed
qed

section \<open>Every sentence is accepted\<close>

lemma descend_mono:
  "descend n lower env m p \<noteq> Inl OutOfFuel \<Longrightarrow> n \<le> k \<Longrightarrow> descend k lower env m p = descend n lower env m p"
proof (induction n arbitrary: m p k)
  case 0
  then show ?case by simp
next
  case (Suc n)
  then obtain k' where k: "k = Suc k'" "n \<le> k'" by (cases k) auto
  have IH: "descend k' lower env m p = descend n lower env m p" if "descend n lower env m p \<noteq> Inl OutOfFuel" for m p
    using Suc.IH[OF that k(2)] .
  have step: "and_then (descend k' lower env m p) f = and_then (descend n lower env m p) g"
    if "and_then (descend n lower env m p) g \<noteq> Inl OutOfFuel"
      "\<And>e q. g (e, q) \<noteq> Inl OutOfFuel \<Longrightarrow> f (e, q) = g (e, q)" for m p and f g :: "'a expr \<times> parser \<Rightarrow> query_fail + 'a expr \<times> parser"
    using that IH[of m p] by (cases "descend n lower env m p") auto
  show ?case using Suc.prems(1) unfolding k(1)
    by (cases m) (auto split: option.splits tok.splits intro!: step IH)
qed

definition runs :: "(string \<Rightarrow> string) \<Rightarrow> 'r regex_env \<Rightarrow> 'r descent \<Rightarrow> parser \<Rightarrow> query_fail + 'r expr \<times> parser \<Rightarrow> bool" where
  "runs lower env m p res \<longleftrightarrow> res \<noteq> Inl OutOfFuel \<and> (\<exists>n. descend n lower env m p = res)"

lemma runs_fuel: "runs lower env m p res \<Longrightarrow> 6 * length (rest p) + rank m \<le> n \<Longrightarrow> descend n lower env m p = res"
proof -
  assume r: "runs lower env m p res" and n: "6 * length (rest p) + rank m \<le> n"
  from r obtain k where k: "descend k lower env m p = res" "res \<noteq> Inl OutOfFuel" by (auto simp: runs_def)
  have "descend n lower env m p \<noteq> Inl OutOfFuel" using descend_advances[OF n, of lower env] by auto
  with k show ?thesis by (metis descend_mono nat_le_linear)
qed

lemma runs_then:
  assumes "\<And>n. descend n lower env m p = Inr (e, q) \<Longrightarrow> descend (Suc n) lower env m' p' = res" "res \<noteq> Inl OutOfFuel"
    "runs lower env m p (Inr (e, q))"
  shows "runs lower env m' p' res"
  using assms unfolding runs_def by blast

lemma runs_seq:
  assumes "\<And>n. descend n lower env m p = Inr (e, q) \<Longrightarrow> descend n lower env m' q = res \<Longrightarrow> descend (Suc n) lower env m'' p' = res"
    "runs lower env m p (Inr (e, q))" "runs lower env m' q res"
  shows "runs lower env m'' p' res"
proof -
  obtain i j where ij: "descend i lower env m p = Inr (e, q)" "descend j lower env m' q = res" "res \<noteq> Inl OutOfFuel"
    using assms(2,3) by (auto simp: runs_def)
  have "descend (max i j) lower env m p = Inr (e, q)" "descend (max i j) lower env m' q = res"
    using ij descend_mono[of i lower env m p "max i j"] descend_mono[of j lower env m' q "max i j"] by simp_all
  from assms(1)[OF this] ij(3) show ?thesis unfolding runs_def by blast
qed

lemma runs_or: "runs lower env PAnd p (Inr (l, q)) \<Longrightarrow> runs lower env (POrLoop l) q res \<Longrightarrow> runs lower env POr p res"
  by (rule runs_seq[where m = PAnd and p = p]) simp_all

lemma runs_or_loop:
  "peek p = Some TOr \<Longrightarrow> runs lower env PAnd (adv 1 p) (Inr (r, q)) \<Longrightarrow> runs lower env (POrLoop (EOr l r)) q res \<Longrightarrow>
    runs lower env (POrLoop l) p res"
  by (rule runs_seq[where m = PAnd and p = "adv 1 p"]) simp_all

lemma runs_loop_end:
  "peek p \<noteq> Some TOr \<Longrightarrow> runs lower env (POrLoop l) p (Inr (l, p))"
  "peek p \<noteq> Some TAnd \<Longrightarrow> \<not> starts_term (peek p) \<Longrightarrow> runs lower env (PAndLoop l) p (Inr (l, p))"
  by (auto simp: runs_def intro: exI[of _ "Suc 0"])

lemma runs_and: "runs lower env PUnary p (Inr (l, q)) \<Longrightarrow> runs lower env (PAndLoop l) q res \<Longrightarrow> runs lower env PAnd p res"
  by (rule runs_seq[where m = PUnary and p = p]) simp_all

lemma runs_and_loop:
  "peek p = Some TAnd \<Longrightarrow> runs lower env PUnary (adv 1 p) (Inr (r, q)) \<Longrightarrow> runs lower env (PAndLoop (EAnd l r)) q res \<Longrightarrow>
    runs lower env (PAndLoop l) p res"
  by (rule runs_seq[where m = PUnary and p = "adv 1 p"]) simp_all

lemma runs_and_next:
  "peek p \<noteq> Some TAnd \<Longrightarrow> starts_term (peek p) \<Longrightarrow> runs lower env PUnary p (Inr (r, q)) \<Longrightarrow>
    runs lower env (PAndLoop (EAnd l r)) q res \<Longrightarrow> runs lower env (PAndLoop l) p res"
  by (rule runs_seq[where m = PUnary and p = p]) simp_all

lemma runs_not: "peek p = Some TNot \<Longrightarrow> runs lower env PUnary (adv 1 p) (Inr (e, q)) \<Longrightarrow> runs lower env PUnary p (Inr (ENot e, q))"
  by (rule runs_then[where m = PUnary and p = "adv 1 p"]) simp_all

lemma runs_unary: "peek p \<noteq> Some TNot \<Longrightarrow> runs lower env PPrimary p (Inr (e, q)) \<Longrightarrow> runs lower env PUnary p (Inr (e, q))"
  by (rule runs_then[where m = PPrimary and p = p]) simp_all

lemma runs_group:
  "peek p = Some LParen \<Longrightarrow> runs lower env POr (adv 1 p) (Inr (e, q)) \<Longrightarrow> peek q = Some RParen \<Longrightarrow>
    runs lower env PPrimary p (Inr (e, adv 1 q))"
  by (rule runs_then[where m = POr and p = "adv 1 p"]) simp_all

lemma runs_primary: "descend (Suc 0) lower env PPrimary p = Inr (e, q) \<Longrightarrow> runs lower env PPrimary p (Inr (e, q))"
  unfolding runs_def by blast

text \<open>The token after a sentence: never an operator, which would make a word a field.\<close>

definition no_op :: "tok list \<Rightarrow> bool" where
  "no_op ys \<longleftrightarrow> (case ys of TOp _ # _ \<Rightarrow> False | _ \<Rightarrow> True)"

definition and_ends :: "tok list \<Rightarrow> bool" where
  "and_ends ys \<longleftrightarrow> (case ys of [] \<Rightarrow> True | t # _ \<Rightarrow> t = TOr \<or> t = RParen)"

lemma and_ends_follow:
  assumes "and_ends (rest p)"
  shows "peek p \<noteq> Some TAnd" "\<not> starts_term (peek p)" "no_op (rest p)"
  using assms by (auto simp: peek_rest and_ends_def starts_term_def no_op_def split: list.splits tok.splits)

lemma unary_starts:
  "g_or lower env xs e \<Longrightarrow> True"
  "g_and lower env xs e \<Longrightarrow> True"
  "g_unary lower env xs e \<Longrightarrow> xs \<noteq> [] \<and> starts_term (Some (hd xs))"
  "g_primary lower env xs e \<Longrightarrow> xs \<noteq> [] \<and> starts_term (Some (hd xs)) \<and> hd xs \<noteq> TNot"
  by (induction rule: g_or_g_and_g_unary_g_primary.inducts) (auto simp: starts_term_def)

lemma sentence_nonempty:
  "g_or lower env xs e \<Longrightarrow> xs \<noteq> []"
  "g_and lower env xs e \<Longrightarrow> xs \<noteq> []"
  "g_unary lower env xs e \<Longrightarrow> xs \<noteq> []"
  "g_primary lower env xs e \<Longrightarrow> xs \<noteq> []"
  by (induction rule: g_or_g_and_g_unary_g_primary.inducts) auto

lemma and_complete_ends:
  assumes "\<And>p ys res. rest p = xs @ ys \<Longrightarrow> no_op ys \<Longrightarrow> runs lower env (PAndLoop e) (adv (length xs) p) res \<Longrightarrow> runs lower env PAnd p res"
    and p: "rest p = xs @ ys" "and_ends ys"
  shows "runs lower env PAnd p (Inr (e, adv (length xs) p))"
proof (rule assms(1)[OF p(1)])
  have q: "rest (adv (length xs) p) = ys" by (simp add: p(1))
  note ends = and_ends_follow[of "adv (length xs) p", unfolded q, OF p(2)]
  show "no_op ys" by (rule ends(3))
  show "runs lower env (PAndLoop e) (adv (length xs) p) (Inr (e, adv (length xs) p))" by (rule runs_loop_end(2)[OF ends(1,2)])
qed

lemma sentences_run:
  "g_or lower env xs e \<Longrightarrow> (\<And>p ys res. rest p = xs @ ys \<Longrightarrow> and_ends ys \<Longrightarrow>
     runs lower env (POrLoop e) (adv (length xs) p) res \<Longrightarrow> runs lower env POr p res)"
  "g_and lower env xs e \<Longrightarrow> (\<And>p ys res. rest p = xs @ ys \<Longrightarrow> no_op ys \<Longrightarrow>
     runs lower env (PAndLoop e) (adv (length xs) p) res \<Longrightarrow> runs lower env PAnd p res)"
  "g_unary lower env xs e \<Longrightarrow> (\<And>p ys. rest p = xs @ ys \<Longrightarrow> no_op ys \<Longrightarrow> runs lower env PUnary p (Inr (e, adv (length xs) p)))"
  "g_primary lower env xs e \<Longrightarrow> (\<And>p ys. rest p = xs @ ys \<Longrightarrow> no_op ys \<Longrightarrow> runs lower env PPrimary p (Inr (e, adv (length xs) p)))"
proof (induction rule: g_or_g_and_g_unary_g_primary.inducts)
  case (or_one xs e)
  then show ?case by (blast intro: runs_or and_complete_ends)
next
  case (or_more xs l ys r p zs res)
  let ?q = "adv (length xs) p"
  have q: "rest ?q = TOr # ys @ zs" using or_more.prems(1) by simp
  have "runs lower env PAnd (adv 1 ?q) (Inr (r, adv (length ys) (adv 1 ?q)))"
    using or_more.prems(1,2) by (intro and_complete_ends[OF or_more(4)]) simp_all
  then have "runs lower env (POrLoop l) ?q res"
    using or_more.prems(3) by (intro runs_or_loop[of ?q]) (simp_all add: peek_rest q del: adv_simps(3))
  with or_more.prems(1) show ?case by (intro or_more(2)[of p "TOr # ys @ zs"]) (simp_all add: and_ends_def)
next
  case (and_one xs e)
  then show ?case by (blast intro: runs_and)
next
  case (and_word xs l ys r p zs res)
  let ?q = "adv (length xs) p"
  have q: "rest ?q = TAnd # ys @ zs" using and_word.prems(1) by simp
  have "runs lower env PUnary (adv 1 ?q) (Inr (r, adv (length ys) (adv 1 ?q)))"
    using and_word.prems(1,2) by (intro and_word(4)) simp_all
  then have "runs lower env (PAndLoop l) ?q res"
    using and_word.prems(3) by (intro runs_and_loop[of ?q]) (simp_all add: peek_rest q del: adv_simps(3))
  with and_word.prems(1) show ?case by (intro and_word(2)[of p "TAnd # ys @ zs"]) (simp_all add: no_op_def)
next
  case (and_next xs l ys r p zs res)
  let ?q = "adv (length xs) p"
  have q: "rest ?q = ys @ zs" using and_next.prems(1) by simp
  have ys: "ys \<noteq> []" "starts_term (Some (hd ys))" using unary_starts(3)[OF and_next(3)] by auto
  then have h: "peek ?q = Some (hd ys)" "no_op (ys @ zs)"
    by (cases ys; simp add: peek_rest q no_op_def starts_term_def del: adv_simps(3) split: tok.splits)+
  have "runs lower env PUnary ?q (Inr (r, adv (length ys) ?q))"
    using and_next.prems(2) by (intro and_next(4)[OF q])
  then have "runs lower env (PAndLoop l) ?q res"
    using and_next.prems(3) ys(2) h(1) by (intro runs_and_next[of ?q]) (auto simp: starts_term_def)
  with and_next.prems(1) h(2) show ?case by (intro and_next(2)[of p "ys @ zs"]) simp_all
next
  case (not_more xs e p zs)
  then have "runs lower env PUnary (adv 1 p) (Inr (e, adv (length xs) (adv 1 p)))" by (intro not_more(2)) simp_all
  with not_more.prems(1) show ?case by (simp add: peek_rest runs_not)
next
  case (not_none xs e p zs)
  then have "peek p \<noteq> Some TNot" using unary_starts(4)[OF not_none(1)] by (cases xs) (auto simp: peek_rest)
  with not_none show ?case by (blast intro: runs_unary)
next
  case (group xs e p zs)
  let ?q = "adv 1 p" and ?r = "adv (length xs) (adv 1 p)"
  have q: "rest ?q = xs @ RParen # zs" using group.prems(1) by simp
  have r: "peek ?r = Some RParen" using group.prems(1) by (simp add: peek_rest)
  have "runs lower env POr ?q (Inr (e, ?r))"
    using r by (intro group(2)[OF q] runs_loop_end(1)) (simp_all add: and_ends_def)
  from runs_group[OF _ this r] group.prems(1) show ?case by (simp add: peek_rest)
next
  case (free_regex pat r)
  then show ?case by (intro runs_primary) (simp add: peek_rest compile_def)
next
  case (free_text s)
  then show ?case by (intro runs_primary) (simp add: peek_rest)
next
  case (word w)
  then show ?case by (intro runs_primary) (auto simp: peek_rest peek2_rest no_op_def split: list.splits tok.splits)
next
  case (cmp name op t e p zs)
  then have "parse_comparison env p = Inr (e, adv 3 p)" by (auto simp: parse_comparison_iff)
  with cmp.prems(1) show ?case by (intro runs_primary) (simp add: peek_rest peek2_rest eval_nat_numeral)
qed

section \<open>The parser accepts exactly the grammar\<close>

lemma parse_iff_grammar:
  "stream_query_parse lower env input = Inr e \<longleftrightarrow> (\<exists>toks. lex input = Inr toks \<and> g_or lower env (map fst toks) e)"
proof (cases "lex input")
  case (Inr toks)
  let ?p = "\<lparr>pr_toks = toks, pr_at = 0, pr_input_len = length input\<rparr>" and ?n = "6 * length toks + 6"
  have p: "rest ?p = map fst toks" by (simp add: rest_def)
  have ends: "peek (adv (length toks) ?p) = None" by (simp add: peek_rest p)
  have "g_or lower env (map fst toks) e" if "descend ?n lower env POr ?p = Inr (e, q)" "peek q = None" for q
  proof -
    from descend_sound[OF that(1)]
    obtain xs ys where xs: "rest ?p = xs @ ys" "q = adv (length xs) ?p" "g_or lower env xs e"
       by (auto simp: spans_def)
    then have "ys = []" using that(2) by (auto simp: peek_rest split: list.splits)
    with xs p show ?thesis by simp
  qed
  moreover have "descend ?n lower env POr ?p = Inr (e, adv (length toks) ?p)" if g: "g_or lower env (map fst toks) e"
    using sentences_run(1)[OF g, of ?p "[]"] runs_loop_end(1)[of "adv (length toks) ?p" lower env e] ends p
    by (intro runs_fuel) (simp_all add: and_ends_def)
  moreover note sentence_nonempty(1)[of lower env "map fst toks" e]
  ultimately show ?thesis using Inr ends
    by (auto simp: stream_query_parse_def and_then_Inr_iff split: if_splits)
qed (simp add: stream_query_parse_def)

text \<open>C32. A query parses to a tree if and only if its tokens form a sentence of the documented
  grammar whose derivation is that tree: OR binds looser than AND, juxtaposition is AND, both associate to
  the left, NOT binds tightest, and the right-hand side of a comparison is a number for an ordering
  operator and a pattern that compiles for a regex one.\<close>

theorem query_parse_iff_grammar:
  "stream_query_parse lower env input = Inr e \<longleftrightarrow> (\<exists>toks. lex input = Inr toks \<and> g_or lower env (map fst toks) e)"
  by (rule parse_iff_grammar)

section \<open>Failures of the parser\<close>

lemma descend_no_panic: "descend n lower env m p \<noteq> Inl Panic"
proof (induction n arbitrary: m p)
  case 0
  then show ?case by simp
next
  case (Suc n)
  have step: "and_then (descend n lower env m p) f \<noteq> Inl Panic" if "\<And>x. f x \<noteq> Inl Panic"
    for m p and f :: "'a expr \<times> parser \<Rightarrow> query_fail + 'a expr \<times> parser"
    using Suc.IH[of m p] that by (cases "descend n lower env m p") auto
  have c: "and_then (compile env p pat) f \<noteq> Inl Panic" if "\<And>x. f x \<noteq> Inl Panic"
    for p pat and f :: "'a \<Rightarrow> query_fail + 'a expr \<times> parser"
    using that by (auto simp: compile_def split: sum.split)
  have v: "parse_value env name op p \<noteq> Inl Panic" for name op p
    using c by (auto simp: parse_value_def Let_def split: option.split tok.split)
  have pc: "parse_comparison env p \<noteq> Inl Panic"
    using v by (auto simp: parse_comparison_def perr_def split: option.split tok.split)
  show ?case
    using Suc.IH by (cases m) (auto simp: perr_def pc split: option.split tok.split if_splits intro!: step c)
qed

text \<open>A byte of a multi-byte character never follows an ASCII byte and never comes first.\<close>

definition continuation :: "char \<Rightarrow> bool" where
  "continuation c \<longleftrightarrow> 0x80 \<le> code c \<and> code c < 0xC0"

definition utf8_text :: "string \<Rightarrow> bool" where
  "utf8_text s \<longleftrightarrow> (\<forall>i < length s. continuation (s ! i) \<longrightarrow> 0 < i \<and> 0x80 \<le> code (s ! (i - 1)))"

definition latin1_blank :: "char \<Rightarrow> bool" where
  "latin1_blank c \<longleftrightarrow> code c = 0x85 \<or> code c = 0xA0"

lemma boundary_start: "utf8_text s \<Longrightarrow> is_char_boundary s 0"
  by (cases s) (auto simp: is_char_boundary_def utf8_text_def continuation_def)

lemma boundary_after: "utf8_text s \<Longrightarrow> i < length s \<Longrightarrow> code (s ! i) < 0x80 \<Longrightarrow> is_char_boundary s (i + 1)"
  by (auto simp: is_char_boundary_def utf8_text_def continuation_def dest!: spec[of _ "i + 1"])

lemma boundary_at: "i < length s \<Longrightarrow> code (s ! i) < 0x80 \<Longrightarrow> is_char_boundary s i"
  by (simp add: is_char_boundary_def)

lemma scan_to_hit: "i \<le> length s \<Longrightarrow> scan_to P s i < length s \<Longrightarrow> P (s ! scan_to P s i)"
  using nth_length_takeWhile[of "\<lambda>c. \<not> P c" "drop i s"] by (simp add: scan_to_def)

lemma scan_to_boundary:
  assumes "i \<le> length s" "\<And>c. c \<in> set s \<Longrightarrow> P c \<Longrightarrow> code c < 0x80"
  shows "is_char_boundary s (scan_to P s i)"
proof (cases "scan_to P s i < length s")
  case True
  then show ?thesis using assms scan_to_hit[OF assms(1) True] by (intro boundary_at) auto
next
  case False
  then show ?thesis using scan_to_le[OF assms(1), of P] by (simp add: is_char_boundary_def)
qed

lemma str_slice_ok: "i \<le> j \<Longrightarrow> is_char_boundary s i \<Longrightarrow> is_char_boundary s j \<Longrightarrow> str_slice s i j \<noteq> None"
  by (simp add: str_slice_def)

lemma regex_body_slash: "regex_body s = Some (p, n) \<Longrightarrow> n < length s \<and> s ! n = CHR ''/''"
  by (induction s arbitrary: p n rule: regex_body.induct) (auto split: if_splits)

lemma blank_ascii: "is_whitespace c \<Longrightarrow> \<not> latin1_blank c \<Longrightarrow> code c < 0x80"
  by (auto simp: is_whitespace_def latin1_blank_def)

lemma stop_ascii: "word_stop c \<Longrightarrow> \<not> latin1_blank c \<Longrightarrow> code c < 0x80"
  using blank_ascii[of c] by (auto simp: word_stop_def quote_char_def code_def)

lemma lex_from_no_panic:
  assumes "utf8_text s" "\<not> list_ex latin1_blank s"
  shows "i \<le> length s \<Longrightarrow> is_char_boundary s i \<Longrightarrow> lex_from s i \<noteq> Inl Panic"
proof (induction "length s - i" arbitrary: i rule: less_induct)
  case less
  have nb: "c \<in> set s \<Longrightarrow> \<not> latin1_blank c" for c using assms(2) by (auto simp: list_ex_iff)
  have seq: "and_then (lex_from s k) f \<noteq> Inl Panic" if "i < k" "k \<le> length s" "is_char_boundary s k" "\<And>ts. f ts \<noteq> Inl Panic"
    for k and f :: "(tok \<times> nat) list \<Rightarrow> query_fail + (tok \<times> nat) list"
    using less.hyps[of k] less.prems that by (cases "lex_from s k") auto
  show ?case
  proof (cases "i < length s")
    case True
    let ?c = "s ! i"
    have mem: "?c \<in> set s" using True by simp
    consider "is_whitespace ?c" | "\<not> is_whitespace ?c" "?c = CHR ''('' \<or> ?c = CHR '')''" | "\<not> is_whitespace ?c" "quote_char ?c"
      | "\<not> is_whitespace ?c" "?c = CHR ''/''" | "\<not> word_stop ?c" "?c \<noteq> CHR ''/''"
      unfolding word_stop_def by blast
    then show ?thesis
    proof cases
      case 1
      then have "is_char_boundary s (i + 1)" using boundary_after[OF assms(1) True] blank_ascii[OF 1 nb[OF mem]] by simp
      then show ?thesis using 1 True less.hyps[of "i + 1"] by (simp add: lex_from.simps[of s i])
    next
      case 2
      then have "is_char_boundary s (i + 1)" using boundary_after[OF assms(1) True] by (auto simp: code_def)
      then show ?thesis using 2 True seq[of "i + 1"] by (auto simp: lex_from.simps[of s i])
    next
      case 3
      let ?j = "scan_to (\<lambda>d. d = ?c) s (i + 1)"
      have q: "code ?c < 0x80" "?c \<noteq> CHR ''(''" "?c \<noteq> CHR '')''" using 3(2) by (auto simp: quote_char_def code_def)
      have j: "i + 1 \<le> ?j" using scan_to_le[of "i + 1" s] True by auto
      have "is_char_boundary s (i + 1)" by (rule boundary_after[OF assms(1) True q(1)])
      moreover have "is_char_boundary s ?j" by (rule scan_to_boundary) (use True q(1) in auto)
      ultimately obtain w where w: "str_slice s (i + 1) ?j = Some w" using str_slice_ok[OF j] by blast
      have "and_then (lex_from s (?j + 1)) (\<lambda>ts. Inr ((TStr w, i) # ts)) \<noteq> Inl Panic" if "?j < length s"
        using that j q(1) scan_to_hit[of "i + 1" s "\<lambda>d. d = ?c"] True
        by (intro seq boundary_after[OF assms(1)]) auto
      then show ?thesis using 3 True q w by (auto simp: lex_from.simps[of s i] Let_def)
    next
      case 4
      show ?thesis
      proof (cases "regex_body (drop (i + 1) s)")
        case None
        then show ?thesis using 4 True by (simp add: lex_from.simps[of s i] quote_char_def Let_def)
      next
        case (Some r)
        then obtain pat n where r: "regex_body (drop (i + 1) s) = Some (pat, n)" by (cases r) simp
        from regex_body_slash[OF r] have n: "i + 1 + n < length s" "s ! (i + 1 + n) = CHR ''/''" by auto
        have "and_then (lex_from s (i + 1 + n + 1)) (\<lambda>ts. Inr ((TRegex pat, i) # ts)) \<noteq> Inl Panic"
          using n by (intro seq boundary_after[OF assms(1)]) (auto simp: code_def)
        then show ?thesis using 4 True r by (simp add: lex_from.simps[of s i] quote_char_def Let_def)
      qed
    next
      case 5
      let ?j = "scan_to word_stop s i"
      have j: "i < ?j" "?j \<le> length s" using scan_to_gt[of i s word_stop] scan_to_le[of i s word_stop] True 5 by auto
      have jb: "is_char_boundary s ?j" by (rule scan_to_boundary) (use True stop_ascii nb in auto)
      then obtain w where w: "str_slice s i ?j = Some w" using str_slice_ok[of i ?j s] less.prems j by fastforce
      have "and_then (lex_from s ?j) (\<lambda>ts. Inr (lex_word w i @ ts)) \<noteq> Inl Panic" using j jb by (intro seq) auto
      then show ?thesis using 5 True w by (simp add: lex_from.simps[of s i] word_stop_def Let_def)
    qed
  qed (simp add: lex_from.simps[of s i])
qed

lemma lex_from_fuel: "lex_from s i \<noteq> Inl OutOfFuel"
proof (induction "length s - i" arbitrary: i rule: less_induct)
  case less
  have IH: "and_then (lex_from s k) (\<lambda>ts. Inr (g ts)) \<noteq> Inl OutOfFuel" "lex_from s k \<noteq> Inl OutOfFuel" if "i < k" "i < length s"
    for k and g :: "(tok \<times> nat) list \<Rightarrow> (tok \<times> nat) list"
    using less[of k] that by (cases "lex_from s k"; simp)+
  have q: "i < scan_to P s (i + 1) + 1" for P by (simp add: scan_to_def)
  have w: "i < scan_to word_stop s i" if "\<not> (is_whitespace (s ! i) \<or> s ! i = CHR ''('' \<or> s ! i = CHR '')'' \<or> quote_char (s ! i))"
    "i < length s" using scan_to_gt[of i s word_stop] that by (simp add: word_stop_def)
  show ?case
    unfolding lex_from.simps[of s i] Let_def
    by (intro if_split[where P = "\<lambda>x. x \<noteq> _", THEN iffD2] conjI impI option.split[where P = "\<lambda>x. x \<noteq> _", THEN iffD2] allI
        prod.split[where P = "\<lambda>x. x \<noteq> _", THEN iffD2] IH) (use q w in auto)
qed

text \<open>The fuel never runs out: every input makes the parser return a tree, an error, or panic.\<close>

theorem query_parse_terminates: "stream_query_parse lower env input \<noteq> Inl OutOfFuel"
proof (cases "lex input")
  case (Inl e)
  then show ?thesis using lex_from_fuel[of input 0] by (simp add: stream_query_parse_def lex_def)
next
  case (Inr toks)
  let ?p = "\<lparr>pr_toks = toks, pr_at = 0, pr_input_len = length input\<rparr>" and ?n = "6 * length toks + 6"
  have "advances POr ?p (descend ?n lower env POr ?p)" by (rule descend_advances) (simp add: rest_def)
  then show ?thesis using Inr
    by (cases "descend ?n lower env POr ?p") (auto simp: stream_query_parse_def perr_def split: prod.split)
qed

text \<open>A query whose bytes are UTF-8 and hold neither the byte 0x85 nor the byte 0xA0 never makes the
  parser panic: every slice the lexer takes is at character boundaries.\<close>

theorem query_parse_no_panic:
  assumes "utf8_text input" "\<not> list_ex latin1_blank input"
  shows "stream_query_parse lower env input \<noteq> Inl Panic"
proof (cases "lex input")
  case (Inl e)
  then show ?thesis
    using lex_from_no_panic[OF assms, of 0] boundary_start[OF assms(1)] by (simp add: stream_query_parse_def lex_def)
next
  case (Inr toks)
  let ?p = "\<lparr>pr_toks = toks, pr_at = 0, pr_input_len = length input\<rparr>" and ?n = "6 * length toks + 6"
  show ?thesis using Inr descend_no_panic[of ?n lower env POr ?p]
    by (cases "descend ?n lower env POr ?p") (auto simp: stream_query_parse_def perr_def split: prod.split)
qed

section \<open>White space around a query\<close>

text \<open>ASCII white space around a query does not change what it parses to.\<close>

definition blank :: "char \<Rightarrow> bool" where
  "blank c \<longleftrightarrow> is_whitespace c \<and> code c < 0x80"

lemma blank_word_stop: "blank c \<Longrightarrow> word_stop c"
  by (simp add: blank_def word_stop_def)

lemma drop_inside: "i \<le> length s \<Longrightarrow> drop (length p + i) (p @ s @ w) = drop i s @ w"
  by simp

lemma scan_inside:
  assumes "i \<le> length s" "scan_to P s i < length s"
  shows "scan_to P (p @ s @ w) (length p + i) = length p + scan_to P s i"
proof -
  have "P (s ! scan_to P s i)" by (rule scan_to_hit[OF assms])
  moreover have "s ! scan_to P s i \<in> set (drop i s)"
    using nth_mem[of "scan_to P s i - i" "drop i s"] scan_to_le[OF assms(1), of P] assms by simp
  ultimately have "takeWhile (\<lambda>c. \<not> P c) (drop i s @ w) = takeWhile (\<lambda>c. \<not> P c) (drop i s)"
    by (intro takeWhile_append1[of "s ! scan_to P s i"]) simp_all
  then show ?thesis by (simp only: scan_to_def drop_inside[OF assms(1)])
qed

lemma scan_word_inside:
  assumes "i \<le> length s" "list_all blank w"
  shows "scan_to word_stop (p @ s @ w) (length p + i) = length p + scan_to word_stop s i"
proof (cases "scan_to word_stop s i < length s")
  case False
  then have l: "length (takeWhile (\<lambda>c. \<not> word_stop c) (drop i s)) = length (drop i s)"
    using scan_to_le[OF assms(1), of word_stop] assms(1) by (simp add: scan_to_def)
  then have "\<forall>c \<in> set (drop i s). \<not> word_stop c" by (metis set_takeWhileD takeWhile_eq_take take_all_iff order_refl)
  then have "takeWhile (\<lambda>c. \<not> word_stop c) (drop i s @ w) = drop i s @ takeWhile (\<lambda>c. \<not> word_stop c) w" by simp
  moreover have "takeWhile (\<lambda>c. \<not> word_stop c) w = []" using assms(2) blank_word_stop by (cases w) simp_all
  ultimately show ?thesis using l by (simp only: scan_to_def drop_inside[OF assms(1)]) simp
qed (rule scan_inside[OF assms(1)])

lemma slice_inside:
  assumes "str_slice s i j = Some x" "list_all blank w"
  shows "str_slice (p @ s @ w) (length p + i) (length p + j) = Some x"
proof -
  have b: "is_char_boundary (p @ s @ w) (length p + k)" if "is_char_boundary s k" for k
    using that assms(2) by (cases w) (auto simp: is_char_boundary_def nth_append blank_def)
  have "j \<le> length s" "i \<le> j" using assms(1) by (auto simp: str_slice_def is_char_boundary_def split: if_splits)
  then show ?thesis using assms(1) b by (auto simp: str_slice_def split: if_splits)
qed

lemma regex_body_append: "regex_body s = Some r \<Longrightarrow> regex_body (s @ w) = Some r"
proof (induction s arbitrary: r rule: regex_body.induct)
  case (2 c)
  then show ?case by (cases w) (auto split: if_splits)
next
  case (3 c d s)
  then show ?case by (auto split: if_splits)
qed simp

lemma push_word_toks: "map fst (push_word word i) = map fst (push_word word k)"
  unfolding push_word_def Let_def if_distrib[of "map fst"] list.map fst_conv by (rule refl)

lemma lex_word_toks: "map fst (lex_word word i) = map fst (lex_word word k)"
proof (cases "find_split word")
  case None
  then show ?thesis by (simp add: lex_word_def push_word_toks[of word i k])
next
  case (Some r)
  obtain n c l where "r = (n, c, l)" by (cases r)
  then show ?thesis using Some push_word_toks[of "take n word" i k] by (simp add: lex_word_def Let_def)
qed

lemma lex_blank: "list_all blank (drop i s) \<Longrightarrow> lex_from s i = Inr []"
proof (induction "length s - i" arbitrary: i rule: less_induct)
  case less
  show ?case
  proof (cases "i < length s")
    case True
    then have "blank (s ! i)" "list_all blank (drop (i + 1) s)" using less.prems by (simp_all add: Cons_nth_drop_Suc[symmetric])
    then show ?thesis using True less.hyps[of "i + 1"] by (simp add: lex_from.simps[of s i] blank_def)
  qed (simp add: lex_from.simps[of s i])
qed

lemma lex_inside:
  assumes w: "list_all blank w"
  shows "i \<le> length s \<Longrightarrow> lex_from s i = Inr ts \<Longrightarrow> \<exists>ts'. lex_from (p @ s @ w) (length p + i) = Inr ts' \<and> map fst ts' = map fst ts"
proof (induction "length s - i" arbitrary: i ts rule: less_induct)
  case less
  let ?S = "p @ s @ w" and ?I = "length p + i"
  show ?case
  proof (cases "i < length s")
    case False
    then have "drop ?I ?S = w" using less.prems(1) by simp
    moreover have "ts = []" using False less.prems(2) by (simp add: lex_from.simps[of s i])
    ultimately show ?thesis using w lex_blank[of ?I ?S] by simp
  next
    case True
    let ?c = "s ! i"
    have c: "?S ! ?I = ?c" "?I < length ?S" using True by (simp_all add: nth_append)
    have later: "\<exists>ts'. lex_from ?S (length p + k) = Inr ts' \<and> map fst ts' = map fst us"
      if "i < k" "k \<le> length s" "lex_from s k = Inr us" for k us using less.hyps[of k us] that True by simp
    have step: "\<exists>ts'. lex_from ?S ?I = Inr ts' \<and> map fst ts' = map fst ts"
      if "lex_from s i = and_then (lex_from s k) (\<lambda>us. Inr (f us))" "i < k" "k \<le> length s"
        "lex_from ?S ?I = and_then (lex_from ?S (length p + k)) (\<lambda>us. Inr (g us))"
        "\<And>us vs. map fst us = map fst vs \<Longrightarrow> map fst (g us) = map fst (f vs)" for k f g
    proof -
      note goes = that
      have "and_then (lex_from s k) (\<lambda>us. Inr (f us)) = Inr ts" using goes(1) less.prems(2) by simp
      then obtain us where us: "lex_from s k = Inr us" "ts = f us" by (auto simp: and_then_Inr_iff)
      then obtain us' where "lex_from ?S (length p + k) = Inr us'" "map fst us' = map fst us" using later[OF goes(2,3) us(1)] by blast
      then show ?thesis using goes(4,5) us(2) by auto
    qed
    note defs = lex_from.simps[of s i] lex_from.simps[of ?S ?I]
    consider (ws) "is_whitespace ?c" | (lp) "\<not> is_whitespace ?c" "?c = CHR ''(''" | (rp) "\<not> is_whitespace ?c" "?c = CHR '')''"
      | (quote) "\<not> is_whitespace ?c" "?c \<noteq> CHR ''(''" "?c \<noteq> CHR '')''" "quote_char ?c"
      | (regex) "\<not> is_whitespace ?c" "?c = CHR ''/''" | (word) "\<not> word_stop ?c" "?c \<noteq> CHR ''/''"
      unfolding word_stop_def by blast
    then show ?thesis
    proof cases
      case ws
      then have "lex_from s (i + 1) = Inr ts" "lex_from ?S ?I = lex_from ?S (length p + (i + 1))"
        using less.prems(2) True c by (simp_all add: defs)
      then show ?thesis using later[of "i + 1" ts] True by simp
    next
      case lp
      then show ?thesis using step[of "i + 1" "\<lambda>us. (LParen, i) # us" "\<lambda>us. (LParen, ?I) # us"] True c by (simp add: defs Let_def add.assoc)
    next
      case rp
      then show ?thesis using step[of "i + 1" "\<lambda>us. (RParen, i) # us" "\<lambda>us. (RParen, ?I) # us"] True c by (simp add: defs Let_def add.assoc)
    next
      case quote
      let ?j = "scan_to (\<lambda>d. d = ?c) s (i + 1)"
      obtain x where j: "?j < length s" "str_slice s (i + 1) ?j = Some x"
        using less.prems(2) quote True by (auto simp: defs(1) Let_def not_le split: if_splits option.splits)
      have J: "scan_to (\<lambda>d. d = ?c) ?S (?I + 1) = length p + ?j" using scan_inside[OF _ j(1), of p w] True by (simp add: add.assoc)
      have S: "str_slice ?S (?I + 1) (length p + ?j) = Some x" using slice_inside[OF j(2) w, of p] by (simp add: add.assoc)
      have "i < ?j + 1" using scan_to_le[of "i + 1" s "\<lambda>d. d = ?c"] True by simp
      then show ?thesis using step[of "?j + 1" "\<lambda>us. (TStr x, i) # us" "\<lambda>us. (TStr x, ?I) # us"] True c quote j J S
        by (simp add: defs Let_def not_le add.assoc)
    next
      case regex
      obtain pat n where r: "regex_body (drop (i + 1) s) = Some (pat, n)"
        using less.prems(2) regex True by (auto simp: defs(1) Let_def quote_char_def split: option.splits)
      have n: "i + 1 + n + 1 \<le> length s" using regex_body_slash[OF r] by (simp, linarith)
      have R: "regex_body (drop (?I + 1) ?S) = Some (pat, n)"
        using regex_body_append[OF r, of w] drop_inside[of "i + 1" s p w] True by (simp add: add.assoc)
      show ?thesis using step[of "i + 1 + n + 1" "\<lambda>us. (TRegex pat, i) # us" "\<lambda>us. (TRegex pat, ?I) # us"] True c regex r R n
        by (simp add: defs Let_def quote_char_def add.assoc)
    next
      case word
      let ?j = "scan_to word_stop s i"
      obtain x where j: "str_slice s i ?j = Some x"
        using less.prems(2) word True by (auto simp: defs(1) Let_def word_stop_def split: option.splits)
      have J: "scan_to word_stop ?S ?I = length p + ?j" using scan_word_inside[OF _ w, of i s p] True by simp
      have S: "str_slice ?S ?I (length p + ?j) = Some x" by (rule slice_inside[OF j w])
      have "i < ?j" "?j \<le> length s" using scan_to_gt[of i s word_stop] scan_to_le[of i s word_stop] True word by auto
      then show ?thesis using step[of ?j "\<lambda>us. lex_word x i @ us" "\<lambda>us. lex_word x ?I @ us"] True c word j J S lex_word_toks[of x i ?I]
        by (simp add: defs Let_def word_stop_def)
    qed
  qed
qed

lemma lex_skip: "list_all blank p \<Longrightarrow> i \<le> length p \<Longrightarrow> lex_from (p @ s) i = lex_from (p @ s) (length p)"
proof (induction "length p - i" arbitrary: i rule: less_induct)
  case less
  show ?case
  proof (cases "i < length p")
    case True
    then have "blank ((p @ s) ! i)" using less.prems(1) by (simp add: nth_append list_all_length)
    then show ?thesis using True less.hyps[of "i + 1"] less.prems(1) by (simp add: lex_from.simps[of "p @ s" i] blank_def)
  qed (use less.prems in simp)
qed

lemma parse_blank_margins:
  assumes "list_all blank u" "list_all blank w" "stream_query_parse lower env t = Inr q"
  shows "stream_query_parse lower env (u @ t @ w) = Inr q"
proof -
  obtain toks where t: "lex t = Inr toks" "g_or lower env (map fst toks) q" using assms(3) by (auto simp: parse_iff_grammar)
  obtain toks' where "lex_from (u @ t @ w) (length u) = Inr toks'" "map fst toks' = map fst toks"
    using lex_inside[OF assms(2), of 0 t toks u] t(1) by (auto simp: lex_def)
  then show ?thesis using t(2) lex_skip[OF assms(1), of 0 "t @ w"] by (auto simp: parse_iff_grammar lex_def)
qed

definition no_regex :: "unit regex_env" where
  "no_regex = \<lparr>re_build = (\<lambda>_. Inl []), re_is_match = (\<lambda>_ _. False)\<rparr>"

lemma query_parse_no_panic_witness:
  "utf8_text [CHR 0x63, CHR 0xC3, CHR 0xA9, CHR 0x21] \<and> \<not> list_ex latin1_blank [CHR 0x63, CHR 0xC3, CHR 0xA9, CHR 0x21] \<and>
   stream_query_parse id no_regex [CHR 0x63, CHR 0xC3, CHR 0xA9, CHR 0x21] \<noteq> Inl Panic"
proof -
  have u: "utf8_text [CHR 0x63, CHR 0xC3, CHR 0xA9, CHR 0x21]" by code_simp
  have b: "\<not> list_ex latin1_blank [CHR 0x63, CHR 0xC3, CHR 0xA9, CHR 0x21]" by code_simp
  show ?thesis using u b query_parse_no_panic[OF u b, of id no_regex] by blast
qed

text \<open>The converse: what is lexed before the first such byte, up to a word that runs into it.\<close>

lemma blank_stop: "latin1_blank c \<Longrightarrow> word_stop c"
  by (auto simp: latin1_blank_def word_stop_def is_whitespace_def)

lemma blank_no_boundary: "i < length s \<Longrightarrow> latin1_blank (s ! i) \<Longrightarrow> \<not> is_char_boundary s i"
  by (auto simp: latin1_blank_def is_char_boundary_def)

definition literal_free :: "string \<Rightarrow> bool" where
  "literal_free s \<longleftrightarrow> \<not> list_ex quote_char s \<and>
     (\<forall>k < length s. s ! k = CHR ''/'' \<longrightarrow> 0 < k \<and> \<not> word_stop (s ! (k - 1)))"

lemma lex_from_panics:
  assumes u: "utf8_text s" and s: "s = pre @ b # suf" and b: "latin1_blank b" and nb: "\<not> list_ex latin1_blank pre" and q: "literal_free pre"
  shows "i \<le> length pre \<Longrightarrow> is_char_boundary s i \<Longrightarrow> i = 0 \<or> word_stop (s ! (i - 1)) \<or> word_stop (s ! i) \<Longrightarrow> lex_from s i = Inl Panic"
proof (induction "length s - i" arbitrary: i rule: less_induct)
  case less
  have "\<not> is_char_boundary s (length pre)" using blank_no_boundary[of "length pre" s] s b by simp
  then have lt: "i < length pre" using less.prems(1,2) by (cases "i = length pre") auto
  have len: "i < length s" "length pre < length s" using lt s by simp_all
  have at: "s ! k = pre ! k" if "k < length pre" for k using that s by (simp add: nth_append)
  have ascii: "code (s ! k) < 0x80" if "k < length pre" "word_stop (s ! k)" for k
    using stop_ascii[OF that(2)] nb that(1) at by (auto simp: list_ex_iff)
  have quote: "\<not> quote_char (s ! i)" using q lt at by (auto simp: literal_free_def list_ex_iff)
  have slash: "s ! i \<noteq> CHR ''/''" if "\<not> word_stop (s ! i)"
    using q lt less.prems(3) that at[of i] at[of "i - 1"] unfolding literal_free_def by fastforce
  have skip: "lex_from s (i + 1) = Inl Panic" if "word_stop (s ! i)"
    using less.hyps[of "i + 1"] len lt that boundary_after[OF u len(1) ascii[OF lt that]] by simp
  show ?case
  proof (cases "word_stop (s ! i)")
    case True
    then show ?thesis using skip[OF True] len(1) quote by (auto simp: lex_from.simps[of s i] word_stop_def Let_def)
  next
    case False
    let ?j = "scan_to word_stop s i"
    have j: "i < ?j" using scan_to_gt[of i s word_stop] len(1) False by simp
    have "?j \<le> length pre"
    proof (rule ccontr)
      assume "\<not> ?j \<le> length pre"
      then have "length pre - i < length (takeWhile (\<lambda>c. \<not> word_stop c) (drop i s))" using lt by (simp add: scan_to_def)
      then have "\<not> word_stop (drop i s ! (length pre - i))" by (metis nth_mem set_takeWhileD takeWhile_nth)
      then show False using lt len s blank_stop[OF b] by (simp add: nth_append)
    qed
    then consider (cut) "?j = length pre" | (word) "?j < length pre" by linarith
    then show ?thesis
    proof cases
      case cut
      then have "str_slice s i ?j = None" using \<open>\<not> is_char_boundary s (length pre)\<close> by (simp add: str_slice_def)
      then show ?thesis using len(1) False slash by (simp add: lex_from.simps[of s i] word_stop_def Let_def)
    next
      case word
      have stop: "word_stop (s ! ?j)" using scan_to_hit[of i s word_stop] len word by simp
      have jb: "is_char_boundary s ?j" using boundary_at[of ?j s] ascii[OF word stop] word len by simp
      then obtain w where w: "str_slice s i ?j = Some w" using str_slice_ok[of i ?j s] less.prems(2) j by fastforce
      have "lex_from s ?j = Inl Panic" using less.hyps[of ?j] j len word jb stop by simp
      then show ?thesis using len(1) False slash w by (simp add: lex_from.simps[of s i] word_stop_def Let_def)
    qed
  qed
qed

text \<open>C38. The lexer classifies bytes as if each were a character, so a continuation byte 0xA0 or 0x85 (the second byte of
  the letter \<open>a\<close> with a grave accent is 0xA0) counts as white space, the word is cut inside the character and the
  slice panics. Every query in which the first such byte comes before any quote and any regex literal (a slash that
  begins a word) makes the parser panic, whatever follows.\<close>

theorem query_parse_panics:
  assumes "utf8_text (pre @ b # suf)" and "latin1_blank b" and "\<not> list_ex latin1_blank pre" and "literal_free pre"
  shows "stream_query_parse lower env (pre @ b # suf) = Inl Panic"
  using lex_from_panics[OF assms(1) refl assms(2-4), of 0] boundary_start[OF assms(1)] by (simp add: stream_query_parse_def lex_def)

theorem query_parse_panics_witness:
  "stream_query_parse id no_regex (''tcp (voil'' @ [CHR 0xC3] @ CHR 0xA0 # '')'') = Inl Panic"
proof -
  have "utf8_text ((''tcp (voil'' @ [CHR 0xC3]) @ CHR 0xA0 # '')'')" "latin1_blank (CHR 0xA0)"
    "\<not> list_ex latin1_blank (''tcp (voil'' @ [CHR 0xC3])" by code_simp+
  moreover have "literal_free (''tcp (voil'' @ [CHR 0xC3])" by (simp add: literal_free_def quote_char_def less_Suc_eq)
  ultimately show ?thesis using query_parse_panics[of "''tcp (voil'' @ [CHR 0xC3]" "CHR 0xA0" "'')''" id no_regex] by simp
qed

end
