(* ===== verification/Forest.thy ===== *)
theory Forest
  imports Arena Plugin
begin

text \<open>
  Abstract specification of the stream store: a forest of conversation nodes under handles, with
  its roots, its creation counter and its hashed lookup index. Inserting a node and removing a leaf
  are the only changes of shape; the theory shows that both keep the forest invariant and what they
  do to lookups. \<open>Store_Inv\<close> proves that the aggregator of \<open>store.rs\<close> refines it.
\<close>

record node =
  nd_protocol :: protocol_name
  nd_key :: flow_key
  nd_parent :: "stream_id option"
  nd_children :: "stream_id list"
  nd_seq :: u64

type_synonym node_index_key = "stream_id option \<times> protocol_name \<times> u64"

record forest =
  fo_nodes :: "stream_id \<rightharpoonup> node"
  fo_roots :: "stream_id list"
  fo_next :: u64
  fo_index :: "node_index_key \<rightharpoonup> stream_id list"

definition forest_empty :: forest where
  "forest_empty = \<lparr>fo_nodes = Map.empty, fo_roots = [], fo_next = 0, fo_index = Map.empty\<rparr>"

definition bucket :: "(node_index_key \<rightharpoonup> stream_id list) \<Rightarrow> node_index_key \<Rightarrow> stream_id list" where
  "bucket m k = (case m k of Some hs \<Rightarrow> hs | None \<Rightarrow> [])"

definition set_children :: "stream_id \<Rightarrow> (stream_id list \<Rightarrow> stream_id list) \<Rightarrow>
    (stream_id \<rightharpoonup> node) \<Rightarrow> (stream_id \<rightharpoonup> node)" where
  "set_children p f m = m(p := map_option (\<lambda>n. n\<lparr>nd_children := f (nd_children n)\<rparr>) (m p))"

definition forest_insert :: "(flow_key \<Rightarrow> u64) \<Rightarrow> stream_id \<Rightarrow> stream_id option \<Rightarrow> protocol_name \<Rightarrow>
    flow_key \<Rightarrow> forest \<Rightarrow> forest" where
  "forest_insert hash h parent protocol key f =
    (let m = (fo_nodes f)(h \<mapsto> \<lparr>nd_protocol = protocol, nd_key = key, nd_parent = parent,
           nd_children = [], nd_seq = fo_next f\<rparr>);
         k = (parent, protocol, hash key)
     in \<lparr>fo_nodes = (case parent of Some p \<Rightarrow> set_children p (\<lambda>cs. cs @ [h]) m | None \<Rightarrow> m),
         fo_roots = (if parent = None then fo_roots f @ [h] else fo_roots f),
         fo_next = fo_next f + 1,
         fo_index = (fo_index f)(k \<mapsto> bucket (fo_index f) k @ [h])\<rparr>)"

definition forest_remove :: "(flow_key \<Rightarrow> u64) \<Rightarrow> stream_id \<Rightarrow> forest \<Rightarrow> forest" where
  "forest_remove hash h f =
    (case fo_nodes f h of
       None \<Rightarrow> f
     | Some n \<Rightarrow>
        (let k = (nd_parent n, nd_protocol n, hash (nd_key n));
             m = (fo_nodes f)(h := None);
             hs = filter (\<lambda>c. c \<noteq> h) (bucket (fo_index f) k)
         in f\<lparr>fo_nodes := (case nd_parent n of Some p \<Rightarrow> set_children p (filter (\<lambda>c. c \<noteq> h)) m | None \<Rightarrow> m),
              fo_roots := (if nd_parent n = None then filter (\<lambda>r. r \<noteq> h) (fo_roots f) else fo_roots f),
              fo_index := (fo_index f)(k := (if hs = [] then None else Some hs))\<rparr>))"

section \<open>Invariant\<close>

definition seq_of :: "forest \<Rightarrow> stream_id \<Rightarrow> u64" where
  "seq_of f h = (case fo_nodes f h of Some n \<Rightarrow> nd_seq n | None \<Rightarrow> 0)"

text \<open>Handles in creation order (hence distinct).\<close>

definition in_order :: "forest \<Rightarrow> stream_id list \<Rightarrow> bool" where
  "in_order f hs \<longleftrightarrow> sorted_wrt (\<lambda>c d. seq_of f c < seq_of f d) hs"

definition parents_ok :: "forest \<Rightarrow> bool" where
  "parents_ok f \<longleftrightarrow> (\<forall>h n p. fo_nodes f h = Some n \<longrightarrow> nd_parent n = Some p \<longrightarrow>
     (\<exists>pn. fo_nodes f p = Some pn \<and> nd_seq pn < nd_seq n \<and> h \<in> set (nd_children pn)))"

definition children_ok :: "forest \<Rightarrow> bool" where
  "children_ok f \<longleftrightarrow> (\<forall>h n. fo_nodes f h = Some n \<longrightarrow> in_order f (nd_children n) \<and>
     (\<forall>c \<in> set (nd_children n). \<exists>cn. fo_nodes f c = Some cn \<and> nd_parent cn = Some h))"

definition roots_ok :: "forest \<Rightarrow> bool" where
  "roots_ok f \<longleftrightarrow> in_order f (fo_roots f) \<and>
     (\<forall>h. h \<in> set (fo_roots f) \<longleftrightarrow> (\<exists>n. fo_nodes f h = Some n \<and> nd_parent n = None))"

definition seqs_ok :: "forest \<Rightarrow> bool" where
  "seqs_ok f \<longleftrightarrow> (\<forall>h n. fo_nodes f h = Some n \<longrightarrow> nd_seq n < fo_next f) \<and>
     (\<forall>h n h' n'. fo_nodes f h = Some n \<longrightarrow> fo_nodes f h' = Some n' \<longrightarrow> nd_seq n = nd_seq n' \<longrightarrow> h = h')"

definition index_ok :: "(flow_key \<Rightarrow> u64) \<Rightarrow> forest \<Rightarrow> bool" where
  "index_ok hash f \<longleftrightarrow> (\<forall>k h. h \<in> set (bucket (fo_index f) k) \<longleftrightarrow>
     (\<exists>n. fo_nodes f h = Some n \<and> k = (nd_parent n, nd_protocol n, hash (nd_key n))))"

definition unique_ok :: "forest \<Rightarrow> bool" where
  "unique_ok f \<longleftrightarrow> (\<forall>h n h' n'. fo_nodes f h = Some n \<longrightarrow> fo_nodes f h' = Some n' \<longrightarrow>
     nd_parent n = nd_parent n' \<longrightarrow> nd_protocol n = nd_protocol n' \<longrightarrow> nd_key n = nd_key n' \<longrightarrow> h = h')"

definition forest_ok :: "(flow_key \<Rightarrow> u64) \<Rightarrow> forest \<Rightarrow> bool" where
  "forest_ok hash f \<longleftrightarrow> parents_ok f \<and> children_ok f \<and> roots_ok f \<and> seqs_ok f \<and> index_ok hash f \<and> unique_ok f"

lemmas forest_ok_defs = parents_ok_def children_ok_def roots_ok_def seqs_ok_def index_ok_def unique_ok_def

lemma forest_empty_ok: "forest_ok hash forest_empty"
  by (simp add: forest_ok_def forest_ok_defs forest_empty_def in_order_def bucket_def)

lemma in_order_distinct: "in_order f hs \<Longrightarrow> distinct hs"
  unfolding in_order_def by (induction hs) auto

lemma in_order_filter: "in_order f hs \<Longrightarrow> in_order f (filter P hs)"
  unfolding in_order_def by (rule sorted_wrt_filter)

lemma in_order_cong: "(\<And>h. h \<in> set hs \<Longrightarrow> seq_of f' h = seq_of f h) \<Longrightarrow> in_order f hs \<Longrightarrow> in_order f' hs"
  unfolding in_order_def by (induction hs) auto

section \<open>Insertion\<close>

text \<open>What an insertion may do: a fresh handle, a live parent, a key new under that parent, and a
  counter that does not wrap.\<close>

definition insertable :: "stream_id \<Rightarrow> stream_id option \<Rightarrow> protocol_name \<Rightarrow> flow_key \<Rightarrow> forest \<Rightarrow> bool" where
  "insertable h parent protocol key f \<longleftrightarrow>
    fo_nodes f h = None \<and> (\<forall>p. parent = Some p \<longrightarrow> fo_nodes f p \<noteq> None) \<and>
    (\<forall>j n. fo_nodes f j = Some n \<longrightarrow> \<not> (nd_parent n = parent \<and> nd_protocol n = protocol \<and> nd_key n = key)) \<and>
    unat (fo_next f) + 1 < 2 ^ 64"

lemma insert_nodes:
  assumes "insertable h parent protocol key f"
  shows "fo_nodes (forest_insert hash h parent protocol key f) j =
    (if j = h then Some \<lparr>nd_protocol = protocol, nd_key = key, nd_parent = parent, nd_children = [], nd_seq = fo_next f\<rparr>
     else if parent = Some j then map_option (\<lambda>n. n\<lparr>nd_children := nd_children n @ [h]\<rparr>) (fo_nodes f j)
     else fo_nodes f j)"
  using assms by (auto simp: forest_insert_def insertable_def Let_def set_children_def split: option.splits)

lemma insert_other:
  "fo_next (forest_insert hash h parent protocol key f) = fo_next f + 1"
  "fo_roots (forest_insert hash h parent protocol key f) = (if parent = None then fo_roots f @ [h] else fo_roots f)"
  by (simp_all add: forest_insert_def Let_def)

lemma insert_bucket:
  "bucket (fo_index (forest_insert hash h parent protocol key f)) k =
    (if k = (parent, protocol, hash key) then bucket (fo_index f) k @ [h] else bucket (fo_index f) k)"
  by (simp add: forest_insert_def Let_def bucket_def)

lemma insert_seq_of:
  "insertable h parent protocol key f \<Longrightarrow> seq_of (forest_insert hash h parent protocol key f) j =
    (if j = h then fo_next f else seq_of f j)"
  by (simp add: seq_of_def insert_nodes split: option.split)

lemma next_above: "seqs_ok f \<Longrightarrow> fo_nodes f h = Some n \<Longrightarrow> seq_of f h < fo_next f"
  by (auto simp: seqs_ok_def seq_of_def)

lemma insert_in_order:
  assumes "insertable h parent protocol key f" and "seqs_ok f" and "in_order f hs" and "\<forall>j \<in> set hs. fo_nodes f j \<noteq> None"
  shows "in_order (forest_insert hash h parent protocol key f) hs"
    and "in_order (forest_insert hash h parent protocol key f) (hs @ [h])"
proof -
  have h: "h \<notin> set hs" using assms(1,4) by (auto simp: insertable_def)
  show *: "in_order (forest_insert hash h parent protocol key f) hs"
    by (rule in_order_cong[OF _ assms(3)]) (use h in \<open>auto simp: insert_seq_of[OF assms(1)]\<close>)
  with h assms(2,4) show "in_order (forest_insert hash h parent protocol key f) (hs @ [h])"
    by (auto simp: in_order_def sorted_wrt_append insert_seq_of[OF assms(1)] intro: next_above)
qed

lemma word_less_succ:
  fixes x y :: u64
  assumes "unat y + 1 < 2 ^ 64"
  shows "y < y + 1" and "x < y \<Longrightarrow> x < y + 1"
proof -
  have "unat (y + 1) = unat y + 1" using assms by (simp add: unat_word_ariths)
  then show "y < y + 1" by (simp add: word_less_nat_alt)
  then show "x < y \<Longrightarrow> x < y + 1" by simp
qed

lemma insert_ok:
  assumes ins: "insertable h parent protocol key f" and ok: "forest_ok hash f"
  shows "forest_ok hash (forest_insert hash h parent protocol key f)"
proof -
  let ?f = "forest_insert hash h parent protocol key f"
  note N = insert_nodes[OF ins, of hash]
  from ok have P: "parents_ok f" and C: "children_ok f" and R: "roots_ok f" and S: "seqs_ok f"
    and I: "index_ok hash f" and U: "unique_ok f" by (simp_all add: forest_ok_def)
  from ins have fresh: "fo_nodes f h = None" and room: "unat (fo_next f) + 1 < 2 ^ 64"
    by (simp_all add: insertable_def)
  have "parents_ok ?f"
    unfolding parents_ok_def
  proof (intro allI impI)
    fix j n p assume n: "fo_nodes ?f j = Some n" "nd_parent n = Some p"
    show "\<exists>pn. fo_nodes ?f p = Some pn \<and> nd_seq pn < nd_seq n \<and> j \<in> set (nd_children pn)"
    proof (cases "j = h")
      case True
      with n N have p: "parent = Some p" and sq: "nd_seq n = fo_next f" by auto
      with ins obtain pn where "fo_nodes f p = Some pn" by (auto simp: insertable_def)
      moreover from this fresh have "p \<noteq> h" by auto
      ultimately have "fo_nodes ?f p = Some (pn\<lparr>nd_children := nd_children pn @ [h]\<rparr>)" and "nd_seq pn < fo_next f"
        using p S by (simp_all add: N[unfolded p] seqs_ok_def)
      with sq True show ?thesis by simp
    next
      case False
      with n N obtain n0 where n0: "fo_nodes f j = Some n0" "nd_parent n0 = Some p" "nd_seq n0 = nd_seq n"
        by (auto split: if_splits)
      with P obtain pn where "fo_nodes f p = Some pn" "nd_seq pn < nd_seq n0" "j \<in> set (nd_children pn)"
        unfolding parents_ok_def by blast
      moreover from this fresh have "p \<noteq> h" by auto
      ultimately show ?thesis using n0 by (simp add: N)
    qed
  qed
  moreover have "children_ok ?f"
    unfolding children_ok_def
  proof (intro allI impI)
    fix j n assume n: "fo_nodes ?f j = Some n"
    have keep: "\<exists>cn'. fo_nodes ?f c = Some cn' \<and> nd_parent cn' = Some i"
      if "fo_nodes f c = Some cn" "nd_parent cn = Some i" for c cn i
      using that fresh by (auto simp: N)
    show "in_order ?f (nd_children n) \<and> (\<forall>c \<in> set (nd_children n). \<exists>cn. fo_nodes ?f c = Some cn \<and> nd_parent cn = Some j)"
    proof (cases "j = h")
      case True
      with n have "nd_children n = []" by (auto simp: N)
      then show ?thesis by (simp add: in_order_def)
    next
      case False
      with n obtain n0 where n0: "fo_nodes f j = Some n0"
        and cs: "nd_children n = (if parent = Some j then nd_children n0 @ [h] else nd_children n0)"
        by (auto simp: N split: if_splits)
      from C n0 have c0: "in_order f (nd_children n0)" "\<forall>c \<in> set (nd_children n0). \<exists>cn. fo_nodes f c = Some cn \<and> nd_parent cn = Some j"
        by (auto simp: children_ok_def)
      then have "\<forall>c \<in> set (nd_children n0). fo_nodes f c \<noteq> None" by auto
      note io = insert_in_order[OF ins S c0(1) this, of hash]
      then have "in_order ?f (nd_children n)" unfolding cs by (auto simp del: insert_other)
      moreover have "\<exists>cn. fo_nodes ?f c = Some cn \<and> nd_parent cn = Some j" if "c \<in> set (nd_children n)" for c
      proof (cases "c \<in> set (nd_children n0)")
        case True
        with c0(2) keep show ?thesis by blast
      next
        case False
        with that have "c = h" "parent = Some j" by (auto simp: cs split: if_splits)
        then show ?thesis unfolding N by simp
      qed
      ultimately show ?thesis by blast
    qed
  qed
  moreover have "roots_ok ?f"
  proof -
    from R have "in_order f (fo_roots f)" "\<forall>j \<in> set (fo_roots f). fo_nodes f j \<noteq> None"
      by (auto simp: roots_ok_def)
    from insert_in_order[OF ins S this] R fresh show ?thesis
      by (auto simp: roots_ok_def insert_other N)
  qed
  moreover have "seqs_ok ?f"
  proof -
    have "nd_seq m \<noteq> fo_next f" if "fo_nodes f j = Some m" for j m
      using S that by (fastforce simp: seqs_ok_def)
    with S show ?thesis
      by (auto simp: seqs_ok_def N insert_other word_less_succ[OF room] split: if_splits) metis+
  qed
  moreover have "index_ok hash ?f"
    using I fresh by (auto simp: index_ok_def N insert_bucket split: if_splits)
  moreover have "unique_ok ?f"
    using U ins by (auto simp: unique_ok_def insertable_def N split: if_splits) metis+
  ultimately show ?thesis by (simp add: forest_ok_def)
qed

section \<open>Removal of a leaf\<close>

lemma remove_nodes:
  assumes "fo_nodes f h = Some n" and "nd_parent n \<noteq> Some h"
  shows "fo_nodes (forest_remove hash h f) j =
    (if j = h then None
     else if nd_parent n = Some j then map_option (\<lambda>m. m\<lparr>nd_children := filter (\<lambda>c. c \<noteq> h) (nd_children m)\<rparr>) (fo_nodes f j)
     else fo_nodes f j)"
  using assms by (auto simp: forest_remove_def Let_def set_children_def split: option.splits)

lemma remove_other:
  assumes "fo_nodes f h = Some n"
  shows "fo_next (forest_remove hash h f) = fo_next f"
    and "fo_roots (forest_remove hash h f) = (if nd_parent n = None then filter (\<lambda>r. r \<noteq> h) (fo_roots f) else fo_roots f)"
    and "bucket (fo_index (forest_remove hash h f)) k =
      (if k = (nd_parent n, nd_protocol n, hash (nd_key n)) then filter (\<lambda>c. c \<noteq> h) (bucket (fo_index f) k)
       else bucket (fo_index f) k)"
  using assms by (simp_all add: forest_remove_def Let_def bucket_def)

lemma not_own_parent: "parents_ok f \<Longrightarrow> fo_nodes f h = Some n \<Longrightarrow> nd_parent n \<noteq> Some h"
  unfolding parents_ok_def by (metis option.inject order_less_irrefl)

lemma remove_ok:
  assumes ok: "forest_ok hash f" and n: "fo_nodes f h = Some n" and leaf: "nd_children n = []"
  shows "forest_ok hash (forest_remove hash h f)"
proof -
  let ?f = "forest_remove hash h f"
  from ok have P: "parents_ok f" and C: "children_ok f" and R: "roots_ok f" and S: "seqs_ok f"
    and I: "index_ok hash f" and U: "unique_ok f" by (simp_all add: forest_ok_def)
  note N = remove_nodes[OF n not_own_parent[OF P n], of hash]
  have seq: "seq_of ?f j = seq_of f j" if "j \<noteq> h" for j
    using that by (simp add: seq_of_def N split: option.split)
  have ord: "in_order ?f hs" if "in_order f hs" "h \<notin> set hs" for hs
    by (rule in_order_cong[OF _ that(1)]) (use that(2) in \<open>auto intro: seq\<close>)
  have noparent: "nd_parent m \<noteq> Some h" if "fo_nodes f j = Some m" for j m
    using P that n leaf unfolding parents_ok_def by fastforce
  have "parents_ok ?f"
    unfolding parents_ok_def
  proof (intro allI impI)
    fix j m p assume m: "fo_nodes ?f j = Some m" "nd_parent m = Some p"
    then obtain m0 where m0: "fo_nodes f j = Some m0" "nd_parent m0 = Some p" "nd_seq m0 = nd_seq m" "j \<noteq> h"
      by (auto simp: N split: if_splits)
    with P obtain pn where pn: "fo_nodes f p = Some pn" "nd_seq pn < nd_seq m" "j \<in> set (nd_children pn)"
      unfolding parents_ok_def by metis
    from noparent[OF m0(1)] m0(2) have "p \<noteq> h" by auto
    with pn m0(4) show "\<exists>pn. fo_nodes ?f p = Some pn \<and> nd_seq pn < nd_seq m \<and> j \<in> set (nd_children pn)"
      by (simp add: N)
  qed
  moreover have "children_ok ?f"
    unfolding children_ok_def
  proof (intro allI impI)
    fix j m assume m: "fo_nodes ?f j = Some m"
    then obtain m0 where m0: "fo_nodes f j = Some m0" "j \<noteq> h"
      and cs: "nd_children m = (if nd_parent n = Some j then filter (\<lambda>c. c \<noteq> h) (nd_children m0) else nd_children m0)"
      by (auto simp: N split: if_splits)
    from C m0 have c0: "in_order f (nd_children m0)"
        "\<And>c. c \<in> set (nd_children m0) \<Longrightarrow> \<exists>cn. fo_nodes f c = Some cn \<and> nd_parent cn = Some j"
      by (auto simp: children_ok_def)
    from c0(2) n have hc: "h \<in> set (nd_children m0) \<Longrightarrow> nd_parent n = Some j" by fastforce
    then have h: "h \<notin> set (nd_children m)" by (auto simp: cs)
    moreover have "in_order f (nd_children m)" using c0(1) by (simp add: cs in_order_filter)
    ultimately have "in_order ?f (nd_children m)" by (intro ord)
    moreover have "\<exists>cn. fo_nodes ?f c = Some cn \<and> nd_parent cn = Some j" if "c \<in> set (nd_children m)" for c
    proof -
      from that h have "c \<noteq> h" "c \<in> set (nd_children m0)" by (auto simp: cs split: if_splits)
      with c0(2) show ?thesis by (fastforce simp: N)
    qed
    ultimately show "in_order ?f (nd_children m) \<and>
        (\<forall>c \<in> set (nd_children m). \<exists>cn. fo_nodes ?f c = Some cn \<and> nd_parent cn = Some j)" by blast
  qed
  moreover have "roots_ok ?f"
  proof -
    have h: "h \<notin> set (fo_roots ?f)" using R n by (auto simp: remove_other[OF n] roots_ok_def)
    moreover have "in_order f (fo_roots ?f)" using R by (simp add: remove_other[OF n] roots_ok_def in_order_filter)
    ultimately have "in_order ?f (fo_roots ?f)" by (intro ord)
    moreover have "j \<in> set (fo_roots ?f) \<longleftrightarrow> (\<exists>m. fo_nodes ?f j = Some m \<and> nd_parent m = None)" for j
      using R h n by (cases "j = h") (auto simp: roots_ok_def N remove_other[OF n])
    ultimately show ?thesis by (simp add: roots_ok_def)
  qed
  moreover have "seqs_ok ?f"
    using S unfolding seqs_ok_def N remove_other[OF n] by (auto split: if_splits)
  moreover have "index_ok hash ?f"
    using I n unfolding index_ok_def N remove_other[OF n] by (auto split: if_splits)
  moreover have "unique_ok ?f"
    using U unfolding unique_ok_def N by (auto split: if_splits)
  ultimately show ?thesis by (simp add: forest_ok_def)
qed

section \<open>Leaves\<close>

text \<open>A non-empty finite forest has a leaf: its most recent node has no child.\<close>

lemma leaf_exists:
  assumes ok: "forest_ok hash f" and fin: "finite (dom (fo_nodes f))" and ne: "fo_nodes f h = Some n"
  shows "\<exists>h n. fo_nodes f h = Some n \<and> nd_children n = []"
proof -
  have "dom (fo_nodes f) \<noteq> {}" using ne by auto
  then have "Max (seq_of f ` dom (fo_nodes f)) \<in> seq_of f ` dom (fo_nodes f)" using fin by (intro Max_in) auto
  then obtain h where h: "h \<in> dom (fo_nodes f)" and "Max (seq_of f ` dom (fo_nodes f)) = seq_of f h" by auto
  then have mx: "\<forall>j \<in> dom (fo_nodes f). seq_of f j \<le> seq_of f h" using fin by (metis Max_ge finite_imageI imageI)
  from h obtain n where n: "fo_nodes f h = Some n" by auto
  have "nd_children n = []"
  proof (rule ccontr)
    assume "nd_children n \<noteq> []"
    then obtain c where "c \<in> set (nd_children n)" by (cases "nd_children n") auto
    with ok n obtain cn where cn: "fo_nodes f c = Some cn" "nd_parent cn = Some h"
      unfolding forest_ok_def children_ok_def by blast
    with ok n have "nd_seq n < nd_seq cn" unfolding forest_ok_def parents_ok_def by fastforce
    moreover from mx cn(1) have "seq_of f c \<le> seq_of f h" by (metis domI)
    ultimately show False using cn(1) n by (simp add: seq_of_def)
  qed
  with n show ?thesis by blast
qed

end
