(* ===== verification/Store_Inv.thy ===== *)
theory Store_Inv
  imports Store Forest
begin

text \<open>
  The aggregator of \<open>store.rs\<close> refines the abstract stream forest, operation by operation, and
  keeps its invariant through every packet: creation is an insertion, eviction the removal of a leaf,
  everything else leaves the forest alone. On top of the refinement: the bound on live streams and
  the uniqueness of the stream of a (parent, protocol, key).
\<close>

section \<open>Abstraction\<close>

definition node_of :: "stream \<Rightarrow> node" where
  "node_of s = \<lparr>nd_protocol = st_protocol s, nd_key = st_key s, nd_parent = st_parent s,
     nd_children = st_children s, nd_seq = st_created_seq s\<rparr>"

definition abs_forest :: "aggregator \<Rightarrow> forest" where
  "abs_forest a = \<lparr>fo_nodes = (\<lambda>h. map_option node_of (get a h)), fo_roots = ag_roots a,
     fo_next = ag_next_seq a, fo_index = ag_index a\<rparr>"

lemma node_of_sel [simp]:
  "nd_protocol (node_of s) = st_protocol s" "nd_key (node_of s) = st_key s" "nd_parent (node_of s) = st_parent s"
  "nd_children (node_of s) = st_children s" "nd_seq (node_of s) = st_created_seq s"
  by (simp_all add: node_of_def)

lemma node_of_children [simp]: "node_of (s\<lparr>st_children := cs\<rparr>) = (node_of s)\<lparr>nd_children := cs\<rparr>"
  by (simp add: node_of_def)

lemma node_of_new [simp]: "node_of (new_stream h parent key kf st rs cond dir protocol ts seq) =
    \<lparr>nd_protocol = protocol, nd_key = key, nd_parent = parent, nd_children = [], nd_seq = seq\<rparr>"
  by (simp add: node_of_def new_stream_def)

lemma abs_sel [simp]:
  "fo_nodes (abs_forest a) h = map_option node_of (get a h)" "fo_roots (abs_forest a) = ag_roots a"
  "fo_next (abs_forest a) = ag_next_seq a" "fo_index (abs_forest a) = ag_index a"
  by (simp_all add: abs_forest_def)

lemma abs_eqI:
  "(\<And>h. map_option node_of (get a' h) = fo_nodes f h) \<Longrightarrow> ag_roots a' = fo_roots f \<Longrightarrow>
    ag_next_seq a' = fo_next f \<Longrightarrow> ag_index a' = fo_index f \<Longrightarrow> abs_forest a' = f"
  by (cases f) (simp add: abs_forest_def fun_eq_iff)

lemma get_get_mut: "get (get_mut h f a) j = (if j = h then map_option f (get a h) else get a j)"
  by (simp add: get_def get_mut_def arena_get_modify)

lemma get_frames [store_simps]:
  "get (push_expiry t h a) j = get a j" "get (push_lru t seq h a) j = get a j"
  "get (condense_evict s a) j = get a j" "get (unindex h k a) j = get a j"
  "get (emit s r a) j = get a j" "get (rearm_parent p a) j = get a j"
  "get (tally_anchor parent protocol c a) j = get a j"
  by (simp_all add: get_def store_simps)

lemma get_upd [simp]:
  "get (a\<lparr>ag_roots := r\<rparr>) = get a" "get (a\<lparr>ag_index := i\<rparr>) = get a" "get (a\<lparr>ag_totals := t\<rparr>) = get a"
  "get (a\<lparr>ag_condense := c\<rparr>) = get a" "get (a\<lparr>ag_live_bytes_pp := l\<rparr>) = get a" "get (a\<lparr>ag_clock := k\<rparr>) = get a"
  "get (a\<lparr>ag_created_pp := p\<rparr>) = get a" "get (a\<lparr>ag_stop_classes := sc\<rparr>) = get a"
  "get (a\<lparr>ag_unknowns := u\<rparr>) = get a" "get (a\<lparr>ag_next_seq := q\<rparr>) = get a" "get (a\<lparr>ag_live_pp := l'\<rparr>) = get a"
  by (simp_all add: get_def fun_eq_iff)

text \<open>Roots, counter and hash across the operations that do not change the shape.\<close>

lemma shape_frames [store_simps]:
  "ag_roots (push_expiry t h a) = ag_roots a" "ag_roots (push_lru t seq h a) = ag_roots a"
  "ag_roots (condense_evict s a) = ag_roots a" "ag_roots (unindex h k a) = ag_roots a"
  "ag_roots (emit s r a) = ag_roots a" "ag_roots (rearm_parent p a) = ag_roots a"
  "ag_roots (get_mut h f a) = ag_roots a" "ag_roots (tally_anchor parent protocol c a) = ag_roots a"
  "ag_next_seq (push_expiry t h a) = ag_next_seq a" "ag_next_seq (push_lru t seq h a) = ag_next_seq a"
  "ag_next_seq (condense_evict s a) = ag_next_seq a" "ag_next_seq (unindex h k a) = ag_next_seq a"
  "ag_next_seq (emit s r a) = ag_next_seq a" "ag_next_seq (rearm_parent p a) = ag_next_seq a"
  "ag_next_seq (get_mut h f a) = ag_next_seq a" "ag_next_seq (unlink parent h a) = ag_next_seq a"
  "ag_next_seq (link_stream parent h a) = ag_next_seq a" "ag_next_seq (arm_new h ts seq a) = ag_next_seq a"
  "ag_next_seq (tally_anchor parent protocol c a) = ag_next_seq a"
  by (simp_all add: push_expiry_def push_lru_def condense_evict_def unindex_def emit_def rearm_parent_def
      get_mut_def unlink_def link_stream_def arm_new_def tally_anchor_def Let_def
      split: option.splits eviction_policy.splits)

lemma index_frames [store_simps]:
  "ag_index (push_expiry t h a) = ag_index a" "ag_index (push_lru t seq h a) = ag_index a"
  "ag_index (condense_evict s a) = ag_index a" "ag_index (emit s r a) = ag_index a"
  "ag_index (rearm_parent p a) = ag_index a" "ag_index (get_mut h f a) = ag_index a"
  "ag_index (unlink parent h a) = ag_index a" "ag_index (link_stream parent h a) = ag_index a"
  "ag_index (arm_new h ts seq a) = ag_index a" "ag_index (tally_anchor parent protocol c a) = ag_index a"
  by (simp_all add: push_expiry_def push_lru_def condense_evict_def emit_def rearm_parent_def
      get_mut_def unlink_def link_stream_def arm_new_def tally_anchor_def Let_def
      split: option.splits eviction_policy.splits)

lemma const_frames [store_simps]:
  "ag_key_hash (push_expiry t h a) = ag_key_hash a" "ag_key_hash (push_lru t seq h a) = ag_key_hash a"
  "ag_key_hash (condense_evict s a) = ag_key_hash a" "ag_key_hash (unindex h k a) = ag_key_hash a"
  "ag_key_hash (emit s r a) = ag_key_hash a" "ag_key_hash (rearm_parent p a) = ag_key_hash a"
  "ag_key_hash (get_mut h f a) = ag_key_hash a" "ag_key_hash (unlink parent h a) = ag_key_hash a"
  "ag_key_hash (link_stream parent h a) = ag_key_hash a" "ag_key_hash (arm_new h ts seq a) = ag_key_hash a"
  "ag_key_hash (tally_anchor parent protocol c a) = ag_key_hash a"
  "ag_engine (push_expiry t h a) = ag_engine a" "ag_engine (push_lru t seq h a) = ag_engine a"
  "ag_engine (condense_evict s a) = ag_engine a" "ag_engine (unindex h k a) = ag_engine a"
  "ag_engine (emit s r a) = ag_engine a" "ag_engine (rearm_parent p a) = ag_engine a"
  "ag_engine (get_mut h f a) = ag_engine a" "ag_engine (unlink parent h a) = ag_engine a"
  "ag_engine (link_stream parent h a) = ag_engine a" "ag_engine (arm_new h ts seq a) = ag_engine a"
  "ag_engine (tally_anchor parent protocol c a) = ag_engine a"
  "ag_config (arm_new h ts seq a) = ag_config a" "ag_arena (arm_new h ts seq a) = ag_arena a"
  "get (arm_new h ts seq a) j = get a j" "ag_roots (arm_new h ts seq a) = ag_roots a"
  by (simp_all add: push_expiry_def push_lru_def condense_evict_def emit_def rearm_parent_def unindex_def
      get_mut_def get_def unlink_def link_stream_def arm_new_def tally_anchor_def Let_def
      split: option.splits eviction_policy.splits)

section \<open>What creation and eviction do\<close>

text \<open>The state of a creation before the new stream is linked and armed.\<close>

definition created :: "stream_id \<Rightarrow> stream \<Rightarrow> aggregator \<Rightarrow> aggregator" where
  "created h s a =
    (let k = (st_parent s, st_protocol s, ag_key_hash a (st_key s)) in
     a\<lparr>ag_next_seq := ag_next_seq a + 1,
       ag_totals := (ag_totals a)\<lparr>tt_streams_created := tt_streams_created (ag_totals a) + 1\<rparr>,
       ag_created_pp := hm_add (st_protocol s) 1 (ag_created_pp a),
       ag_live_pp := add_at (st_protocol s) 1 (ag_live_pp a),
       ag_arena := arena_insert s (ag_arena a),
       ag_index := (ag_index a)(k \<mapsto> bucket (ag_index a) k @ [h])\<rparr>)"

lemma create_stream_raw_eq:
  "create_stream_raw parent key kf st rs cond dir protocol ts a =
    (let h = arena_fresh (ag_arena a); s = new_stream h parent key kf st rs cond dir protocol ts (ag_next_seq a)
     in (h, arm_new h ts (ag_next_seq a) (link_stream parent h (created h s a))))"
  by (simp add: create_stream_raw_def created_def new_stream_def bucket_def Let_def)

lemma created_sel [simp]:
  "ag_next_seq (created h s a) = ag_next_seq a + 1" "ag_roots (created h s a) = ag_roots a"
  "ag_condense (created h s a) = ag_condense a" "ag_config (created h s a) = ag_config a"
  "ag_key_hash (created h s a) = ag_key_hash a" "ag_engine (created h s a) = ag_engine a"
  "ag_digest (created h s a) = ag_digest a" "ag_lru (created h s a) = ag_lru a"
  "ag_arena (created h s a) = arena_insert s (ag_arena a)"
  by (simp_all add: created_def Let_def)

lemma get_created:
  "arena_ok (ag_arena a) \<Longrightarrow> h = arena_fresh (ag_arena a) \<Longrightarrow>
    get (created h s a) j = (if j = h then Some s else get a j)"
  by (simp add: get_def arena.lookup_insrt)

lemma link_condense [store_simps]:
  "ag_condense (link_stream parent h a) = ag_condense a" "ag_condense (arm_new h ts seq a) = ag_condense a"
  "ag_digest (link_stream parent h a) = ag_digest a" "ag_digest (arm_new h ts seq a) = ag_digest a"
  "ag_lru (link_stream parent h a) = ag_lru a"
  by (simp_all add: link_stream_def arm_new_def push_lru_def push_expiry_def get_mut_def
      split: option.splits eviction_policy.splits)

lemma link_arena_ok [store_simps]: "arena_ok (ag_arena (link_stream parent h a)) \<longleftrightarrow> arena_ok (ag_arena a)"
  by (simp add: link_stream_def get_mut_def arena_modify_ok split: option.split)

lemma link_arena_slots [store_simps]:
  "length (ar_slots (ag_arena (link_stream parent h a))) = length (ar_slots (ag_arena a))"
  by (simp add: link_stream_def get_mut_def arena_modify_shape split: option.split)

lemma lru_arm_new:
  "set (ag_lru (arm_new h ts seq a)) =
    (if cf_eviction (ag_config a) = EvictNone then set (ag_lru a)
     else insert (ts, seq, sid_index h, sid_generation h) (set (ag_lru a)))"
  by (simp add: arm_new_def push_lru_def push_expiry_def split: eviction_policy.split)

definition parent_live :: "stream_id option \<Rightarrow> aggregator \<Rightarrow> bool" where
  "parent_live parent a \<longleftrightarrow> (\<forall>p. parent = Some p \<longrightarrow> get a p \<noteq> None)"

definition key_new :: "stream_id option \<Rightarrow> protocol_name \<Rightarrow> flow_key \<Rightarrow> aggregator \<Rightarrow> bool" where
  "key_new parent protocol key a \<longleftrightarrow>
    (\<forall>h s. get a h = Some s \<longrightarrow> \<not> (st_parent s = parent \<and> st_protocol s = protocol \<and> st_key s = key))"

lemma get_link:
  assumes "parent_live parent a"
  shows "get (link_stream parent h a) j =
    (if parent = Some j then map_option (\<lambda>s. s\<lparr>st_children := st_children s @ [h]\<rparr>) (get a j) else get a j)"
    and "ag_roots (link_stream parent h a) = (if parent = None then ag_roots a @ [h] else ag_roots a)"
  using assms by (cases parent; force simp: parent_live_def link_stream_def get_get_mut store_simps split: option.split)+

lemma length_arena_insert: "length (ar_slots (arena_insert s ar)) \<le> Suc (length (ar_slots ar))"
  by (simp add: arena_insert_def Let_def split: option.split)

lemma create_facts:
  assumes ok: "arena_ok (ag_arena a)" and live: "parent_live parent a"
    and c: "create_stream_raw parent key kf st rs cond dir protocol ts a = (h, a')"
  defines "s \<equiv> new_stream h parent key kf st rs cond dir protocol ts (ag_next_seq a)"
  shows "h = arena_fresh (ag_arena a)" and "get a h = None"
    and "get a' j = (if j = h then Some s else if parent = Some j then
      map_option (\<lambda>s. s\<lparr>st_children := st_children s @ [h]\<rparr>) (get a j) else get a j)"
    and "arena_room (ag_arena a) \<Longrightarrow> arena_ok (ag_arena a')"
    and "length (ar_slots (ag_arena a')) \<le> Suc (length (ar_slots (ag_arena a)))"
    and "ag_roots a' = (if parent = None then ag_roots a @ [h] else ag_roots a)"
    and "ag_next_seq a' = ag_next_seq a + 1"
    and "ag_index a' = (ag_index a)((parent, protocol, ag_key_hash a key) \<mapsto>
      bucket (ag_index a) (parent, protocol, ag_key_hash a key) @ [h])"
    and "ag_condense a' = ag_condense a" "ag_config a' = ag_config a" "ag_key_hash a' = ag_key_hash a"
      "ag_engine a' = ag_engine a" "ag_digest a' = ag_digest a"
    and "set (ag_lru a') = (if cf_eviction (ag_config a) = EvictNone then set (ag_lru a)
      else insert (ts, ag_next_seq a, sid_index h, sid_generation h) (set (ag_lru a)))"
proof -
  from c show h: "h = arena_fresh (ag_arena a)" by (simp add: create_stream_raw_eq Let_def)
  show fresh: "get a h = None" unfolding h get_def by (rule arena.lookup_fresh[OF ok])
  from c have a': "a' = arm_new h ts (ag_next_seq a) (link_stream parent h (created h s a))"
    by (auto simp: create_stream_raw_eq Let_def s_def)
  have sp: "st_parent s = parent" "st_protocol s = protocol" "st_key s = key" by (simp_all add: s_def new_stream_def)
  have lv: "parent_live parent (created h s a)"
    using live by (simp add: parent_live_def get_created[OF ok h])
  have "parent \<noteq> Some h" using live fresh by (auto simp: parent_live_def)
  then show "get a' j = (if j = h then Some s else if parent = Some j then
      map_option (\<lambda>s. s\<lparr>st_children := st_children s @ [h]\<rparr>) (get a j) else get a j)"
    unfolding a' const_frames get_link(1)[OF lv] get_created[OF ok h] by auto
  show "arena_room (ag_arena a) \<Longrightarrow> arena_ok (ag_arena a')"
    unfolding a' by (simp add: store_simps arena.ok_insrt[OF ok])
  show "length (ar_slots (ag_arena a')) \<le> Suc (length (ar_slots (ag_arena a)))"
    unfolding a' by (simp add: store_simps length_arena_insert)
  show "ag_roots a' = (if parent = None then ag_roots a @ [h] else ag_roots a)"
    unfolding a' const_frames get_link(2)[OF lv] by simp
  show "ag_index a' = (ag_index a)((parent, protocol, ag_key_hash a key) \<mapsto>
      bucket (ag_index a) (parent, protocol, ag_key_hash a key) @ [h])"
    unfolding a' by (simp add: store_simps created_def sp Let_def)
  show "set (ag_lru a') = (if cf_eviction (ag_config a) = EvictNone then set (ag_lru a)
      else insert (ts, ag_next_seq a, sid_index h, sid_generation h) (set (ag_lru a)))"
    unfolding a' by (simp add: lru_arm_new store_simps)
qed (use c in \<open>auto simp: create_stream_raw_eq Let_def store_simps\<close>)

text \<open>Creating a stream inserts its node.\<close>

lemma create_stream_raw_refines:
  assumes "arena_ok (ag_arena a)" and "parent_live parent a"
    and "create_stream_raw parent key kf st rs cond dir protocol ts a = (h, a')"
  shows "abs_forest a' = forest_insert (ag_key_hash a) h parent protocol key (abs_forest a)"
proof -
  note f = create_facts[OF assms]
  have "parent \<noteq> Some h" using assms(2) f(2) by (auto simp: parent_live_def)
  then show ?thesis
    by (intro abs_eqI) (auto simp: f(2-) forest_insert_def Let_def set_children_def option.map_comp o_def split: option.split)
qed

lemma evict_facts:
  assumes g: "get a h = Some s" and np: "st_parent s \<noteq> Some h"
  shows "get (evict h r a) j = (if j = h then None else if st_parent s = Some j then
      map_option (\<lambda>s. s\<lparr>st_children := filter (\<lambda>c. c \<noteq> h) (st_children s)\<rparr>) (get a j) else get a j)"
    and "ag_roots (evict h r a) = (if st_parent s = None then filter (\<lambda>r. r \<noteq> h) (ag_roots a) else ag_roots a)"
    and "ag_index (evict h r a) = ag_index (unindex h (st_parent s, st_protocol s, ag_key_hash a (st_key s)) a)"
    and "arena_ok (ag_arena a) \<Longrightarrow> arena_ok (ag_arena (evict h r a))"
    and "length (ar_slots (ag_arena (evict h r a))) = length (ar_slots (ag_arena a))"
    and "ag_condense (evict h r a) = ag_condense (condense_evict s a)"
    and "ag_emitted (evict h r a) = ag_emitted a @
      (if cf_sink (ag_config a) then [\<lparr>ev_stream = s\<lparr>st_closed := Some r\<rparr>, ev_reason = r\<rparr>] else [])"
proof -
  define a1 where "a1 = a\<lparr>ag_arena := arena_remove h (ag_arena a), ag_live_pp := sub_at (st_protocol s) 1 (ag_live_pp a),
      ag_live_bytes_pp := sub_at (st_protocol s) (ds_bytes (st_stats s ! 0) + ds_bytes (st_stats s ! 1)) (ag_live_bytes_pp a)\<rparr>"
  define k where "k = (st_parent s, st_protocol s, ag_key_hash a (st_key s))"
  have e: "evict h r a = emit (s\<lparr>st_closed := Some r\<rparr>) r (unlink (st_parent s) h (unindex h k (condense_evict s a1)))"
    using g by (simp add: evict_def a1_def k_def Let_def)
  have g1: "get a1 j = (if j = h then None else get a j)" for j
    by (simp add: a1_def get_def arena.lookup_remov)
  show "get (evict h r a) j = (if j = h then None else if st_parent s = Some j then
      map_option (\<lambda>s. s\<lparr>st_children := filter (\<lambda>c. c \<noteq> h) (st_children s)\<rparr>) (get a j) else get a j)"
    unfolding e using np by (auto simp: store_simps unlink_def g1 get_get_mut split: option.split)
  show "ag_roots (evict h r a) = (if st_parent s = None then filter (\<lambda>r. r \<noteq> h) (ag_roots a) else ag_roots a)"
    unfolding e by (auto simp: store_simps unlink_def a1_def split: option.split)
  show "ag_index (evict h r a) = ag_index (unindex h (st_parent s, st_protocol s, ag_key_hash a (st_key s)) a)"
    unfolding e k_def by (simp add: store_simps unindex_def a1_def Let_def split: option.split)
  show "arena_ok (ag_arena (evict h r a))" if "arena_ok (ag_arena a)"
    unfolding e using that
    by (auto simp: store_simps unlink_def a1_def get_mut_def arena_modify_ok arena.ok_remov split: option.split)
  show "length (ar_slots (ag_arena (evict h r a))) = length (ar_slots (ag_arena a))"
    unfolding e using g
    by (auto simp: store_simps unlink_def a1_def get_mut_def arena_modify_shape arena_remove_def get_def split: option.split)
  have cf: "ag_condense (unlink p h b) = ag_condense b" "ag_condense (emit x r b) = ag_condense b"
    "ag_condense (unindex h i b) = ag_condense b" for p b x i
    by (simp_all add: unlink_def rearm_parent_def push_lru_def push_expiry_def get_mut_def emit_def unindex_def Let_def
        split: option.split)
  show "ag_condense (evict h r a) = ag_condense (condense_evict s a)"
    unfolding e cf by (simp add: condense_evict_def a1_def split: option.split)
  have ef: "ag_emitted (unlink p h b) = ag_emitted b" "ag_emitted (unindex h i b) = ag_emitted b"
    "ag_emitted (condense_evict s b) = ag_emitted b" for p b i
    by (simp_all add: unlink_def rearm_parent_def push_lru_def push_expiry_def get_mut_def unindex_def condense_evict_def
        Let_def split: option.split)
  show "ag_emitted (evict h r a) = ag_emitted a @
      (if cf_sink (ag_config a) then [\<lparr>ev_stream = s\<lparr>st_closed := Some r\<rparr>, ev_reason = r\<rparr>] else [])"
    unfolding e emit_def by (simp add: ef store_simps a1_def)
qed

lemma evict_const [store_simps]:
  "ag_next_seq (evict h r a) = ag_next_seq a" "ag_key_hash (evict h r a) = ag_key_hash a"
  "ag_engine (evict h r a) = ag_engine a"
  by (simp_all add: evict_def Let_def store_simps split: option.split)

lemma lru_unlink: "set (ag_lru (unlink parent h a)) \<supseteq> set (ag_lru a)"
  by (auto simp: unlink_def rearm_parent_def push_lru_def push_expiry_def get_mut_def Let_def split: option.split)

lemma lru_frames [store_simps]:
  "ag_lru (condense_evict s a) = ag_lru a" "ag_lru (unindex h k a) = ag_lru a" "ag_lru (emit s r a) = ag_lru a"
  "ag_lru (push_expiry t h a) = ag_lru a" "ag_lru (get_mut h f a) = ag_lru a"
  "ag_lru (tally_anchor parent protocol c a) = ag_lru a"
  by (simp_all add: condense_evict_def unindex_def emit_def push_expiry_def get_mut_def tally_anchor_def Let_def split: option.split)

text \<open>Eviction keeps the LRU candidates and makes the parent one.\<close>

lemma lru_evict:
  "set (ag_lru a) \<subseteq> set (ag_lru (evict h r a))"
  "get a h = Some s \<Longrightarrow> st_parent s = Some p \<Longrightarrow> get (evict h r a) p = Some ps \<Longrightarrow>
    (st_last_seen ps, st_created_seq ps, sid_index p, sid_generation p) \<in> set (ag_lru (evict h r a))"
proof -
  show "set (ag_lru a) \<subseteq> set (ag_lru (evict h r a))"
  proof (cases "get a h")
    case (Some s)
    then show ?thesis
      by (simp add: evict_def Let_def lru_frames) (rule subset_trans[OF _ lru_unlink], simp add: lru_frames)
  qed (simp add: evict_def)
  assume "get a h = Some s" "st_parent s = Some p" "get (evict h r a) p = Some ps"
  then show "(st_last_seen ps, st_created_seq ps, sid_index p, sid_generation p) \<in> set (ag_lru (evict h r a))"
    by (auto simp: evict_def Let_def store_simps unlink_def rearm_parent_def push_lru_def split: option.splits)
qed

text \<open>Evicting a stream removes its node.\<close>

lemma evict_refines:
  assumes "get a h = Some s" and "st_parent s \<noteq> Some h"
  shows "abs_forest (evict h r a) = forest_remove (ag_key_hash a) h (abs_forest a)"
proof -
  note f = evict_facts[OF assms, of r]
  have "ag_index (evict h r a) = fo_index (forest_remove (ag_key_hash a) h (abs_forest a))"
    using assms(1) by (auto simp: f(3) unindex_def forest_remove_def Let_def bucket_def fun_eq_iff split: option.split)
  with assms show ?thesis
    by (intro abs_eqI) (auto simp: f store_simps forest_remove_def Let_def set_children_def option.map_comp o_def
        split: option.split)
qed

section \<open>The store invariant\<close>

definition handles_ok :: "aggregator \<Rightarrow> bool" where
  "handles_ok a \<longleftrightarrow> (\<forall>h s. get a h = Some s \<longrightarrow> st_id s = h)"

text \<open>Keys of ordinary streams never start with the sentinel of condensed nodes.\<close>

definition plain_key :: "flow_key \<Rightarrow> bool" where
  "plain_key k \<longleftrightarrow> (\<forall>b bs. k = b # bs \<longrightarrow> b \<noteq> CONDENSED_KEY_SENTINEL)"

text \<open>A condensed node is the node its group knows.\<close>

definition condense_inv :: "aggregator \<Rightarrow> bool" where
  "condense_inv a \<longleftrightarrow> (\<forall>h s. get a h = Some s \<longrightarrow>
     (if st_condensed s = None then plain_key (st_key s)
      else \<exists>anchor g. st_key s = CONDENSED_KEY_SENTINEL # anchor \<and>
        ag_condense a (st_parent s, st_protocol s, anchor) = Some g \<and> cg_node g = Some h))"

definition base_inv :: "aggregator \<Rightarrow> bool" where
  "base_inv a \<longleftrightarrow> arena_ok (ag_arena a) \<and> handles_ok a \<and> forest_ok (ag_key_hash a) (abs_forest a)"

definition core_inv :: "aggregator \<Rightarrow> bool" where
  "core_inv a \<longleftrightarrow> base_inv a \<and> condense_inv a"

text \<open>Under the live policy every leaf but those in \<open>X\<close> is an eviction candidate.\<close>

definition lru_covers :: "stream_id set \<Rightarrow> aggregator \<Rightarrow> bool" where
  "lru_covers X a \<longleftrightarrow> (cf_eviction (ag_config a) \<noteq> EvictNone \<longrightarrow>
     (\<forall>h s. get a h = Some s \<longrightarrow> h \<notin> X \<longrightarrow> st_children s = [] \<longrightarrow>
       (\<exists>t q. (t, q, sid_index h, sid_generation h) \<in> set (ag_lru a))))"

definition store_inv :: "aggregator \<Rightarrow> bool" where
  "store_inv a \<longleftrightarrow> core_inv a \<and> lru_covers {} a"

text \<open>What the invariant reads of a stream.\<close>

definition sig :: "stream \<Rightarrow> stream_id \<times> node \<times> bool" where
  "sig s = (st_id s, node_of s, st_condensed s = None)"

definition same_shape :: "aggregator \<Rightarrow> aggregator \<Rightarrow> bool" where
  "same_shape a a' \<longleftrightarrow> (\<forall>j. map_option sig (get a' j) = map_option sig (get a j)) \<and>
     (arena_ok (ag_arena a) \<longrightarrow> arena_ok (ag_arena a')) \<and>
     length (ar_slots (ag_arena a')) = length (ar_slots (ag_arena a)) \<and>
     ag_roots a' = ag_roots a \<and> ag_next_seq a' = ag_next_seq a \<and> ag_index a' = ag_index a \<and>
     ag_key_hash a' = ag_key_hash a \<and> ag_config a' = ag_config a \<and> ag_engine a' = ag_engine a"

lemma same_shape_refl [simp]: "same_shape a a"
  by (simp add: same_shape_def)

lemma same_shape_trans: "same_shape a b \<Longrightarrow> same_shape b c \<Longrightarrow> same_shape a c"
  by (simp add: same_shape_def)

lemma same_shape_get:
  assumes "same_shape a a'" and "get a' j = Some s'"
  shows "\<exists>s. get a j = Some s \<and> sig s = sig s'"
proof -
  from assms have "map_option sig (get a j) = Some (sig s')" unfolding same_shape_def by (metis option.simps(9))
  then show ?thesis by auto
qed

lemma same_shape_live: "same_shape a a' \<Longrightarrow> get a' j = None \<longleftrightarrow> get a j = None"
  unfolding same_shape_def by (metis option.map_disc_iff)

lemma sig_sel:
  "sig s = sig s' \<Longrightarrow> st_id s = st_id s' \<and> node_of s = node_of s' \<and> (st_condensed s = None \<longleftrightarrow> st_condensed s' = None)"
  by (simp add: sig_def)

lemma sig_fields:
  assumes "sig s = sig s'"
  shows "st_key s = st_key s'" "st_parent s = st_parent s'" "st_protocol s = st_protocol s'"
    "st_children s = st_children s'" "st_created_seq s = st_created_seq s'"
  using assms by (simp_all add: sig_def node_of_def)

lemma same_shape_abs: "same_shape a a' \<Longrightarrow> abs_forest a' = abs_forest a"
proof (rule abs_eqI)
  assume sh: "same_shape a a'"
  fix h
  have "map_option (fst \<circ> snd) (map_option sig (get a' h)) = map_option (fst \<circ> snd) (map_option sig (get a h))"
    using sh by (simp add: same_shape_def)
  then show "map_option node_of (get a' h) = fo_nodes (abs_forest a) h"
    by (simp add: option.map_comp o_def sig_def)
qed (simp_all add: same_shape_def)

lemma base_inv_cong: "same_shape a a' \<Longrightarrow> base_inv a \<Longrightarrow> base_inv a'"
  using same_shape_abs[of a a'] same_shape_get[of a a']
  unfolding base_inv_def handles_ok_def by (metis same_shape_def sig_sel)

lemma condense_inv_plain:
  "condense_inv a \<Longrightarrow> get a h = Some s \<Longrightarrow> st_condensed s = None \<Longrightarrow> plain_key (st_key s)"
  by (simp add: condense_inv_def)

lemma condense_inv_node:
  "condense_inv a \<Longrightarrow> get a h = Some s \<Longrightarrow> st_condensed s \<noteq> None \<Longrightarrow>
    \<exists>anchor g. st_key s = CONDENSED_KEY_SENTINEL # anchor \<and>
      ag_condense a (st_parent s, st_protocol s, anchor) = Some g \<and> cg_node g = Some h"
  unfolding condense_inv_def by meson

lemma condense_inv_cong:
  assumes "same_shape a a'" and "condense_inv a" and "\<And>k g. ag_condense a k = Some g \<Longrightarrow> cg_node g \<noteq> None \<Longrightarrow>
      \<exists>g'. ag_condense a' k = Some g' \<and> cg_node g' = cg_node g"
  shows "condense_inv a'"
  unfolding condense_inv_def
proof (intro allI impI)
  fix h s' assume "get a' h = Some s'"
  from same_shape_get[OF assms(1) this] obtain s where s: "get a h = Some s" "sig s = sig s'" by blast
  note eq = sig_sel[OF s(2)] sig_fields[OF s(2)]
  show "if st_condensed s' = None then plain_key (st_key s')
      else \<exists>anchor g. st_key s' = CONDENSED_KEY_SENTINEL # anchor \<and>
        ag_condense a' (st_parent s', st_protocol s', anchor) = Some g \<and> cg_node g = Some h"
  proof (cases "st_condensed s' = None")
    case True
    with eq have "plain_key (st_key s)" by (intro condense_inv_plain[OF assms(2) s(1)]) simp
    with True eq show ?thesis by simp
  next
    case False
    with eq obtain anchor g where k: "st_key s = CONDENSED_KEY_SENTINEL # anchor"
      "ag_condense a (st_parent s, st_protocol s, anchor) = Some g" "cg_node g = Some h"
      by (metis condense_inv_node[OF assms(2) s(1)])
    then have "st_key s' = CONDENSED_KEY_SENTINEL # anchor" using eq by simp
    moreover from k(3) assms(3)[OF k(2)] obtain g' where
      "ag_condense a' (st_parent s', st_protocol s', anchor) = Some g'" "cg_node g' = Some h" using eq by auto
    ultimately show ?thesis using False by auto
  qed
qed

lemma core_inv_cong: "same_shape a a' \<Longrightarrow> ag_condense a' = ag_condense a \<Longrightarrow> core_inv a \<Longrightarrow> core_inv a'"
  unfolding core_inv_def using base_inv_cong condense_inv_cong by metis

lemma lru_covers_cong:
  "same_shape a a' \<Longrightarrow> set (ag_lru a) \<subseteq> set (ag_lru a') \<Longrightarrow> lru_covers X a \<Longrightarrow> lru_covers X a'"
  unfolding lru_covers_def
proof (intro impI allI)
  fix h s'
  assume sh: "same_shape a a'" and sub: "set (ag_lru a) \<subseteq> set (ag_lru a')"
    and cov: "cf_eviction (ag_config a) \<noteq> EvictNone \<longrightarrow> (\<forall>h s. get a h = Some s \<longrightarrow> h \<notin> X \<longrightarrow> st_children s = [] \<longrightarrow>
       (\<exists>t q. (t, q, sid_index h, sid_generation h) \<in> set (ag_lru a)))"
    and "cf_eviction (ag_config a') \<noteq> EvictNone" "get a' h = Some s'" "h \<notin> X" "st_children s' = []"
  moreover from this(5) same_shape_get[OF sh] obtain s where "get a h = Some s" "sig s = sig s'" by blast
  moreover from sh have "ag_config a' = ag_config a" by (simp add: same_shape_def)
  ultimately have "\<exists>t q. (t, q, sid_index h, sid_generation h) \<in> set (ag_lru a)" by (auto dest: sig_fields(4))
  with sub show "\<exists>t q. (t, q, sid_index h, sid_generation h) \<in> set (ag_lru a')" by blast
qed

lemma store_inv_cong:
  "same_shape a a' \<Longrightarrow> ag_condense a' = ag_condense a \<Longrightarrow> set (ag_lru a) \<subseteq> set (ag_lru a') \<Longrightarrow>
    store_inv a \<Longrightarrow> store_inv a'"
  unfolding store_inv_def using core_inv_cong lru_covers_cong by blast

lemma same_shape_get_mut:
  assumes "\<And>s. get a h = Some s \<Longrightarrow> sig (f s) = sig s"
  shows "same_shape a (get_mut h f a)"
proof -
  have "map_option sig (get (get_mut h f a) j) = map_option sig (get a j)" for j
    using assms by (cases "get a h") (auto simp: get_get_mut)
  then show ?thesis
    unfolding same_shape_def by (simp add: store_simps) (simp add: get_mut_def arena_modify_ok arena_modify_shape)
qed

section \<open>Preservation by creation and eviction\<close>

lemma finite_handles: "finite (A :: stream_id set)"
proof -
  have "inj (\<lambda>h :: stream_id. (sid_index h, sid_generation h))" by (rule injI) simp
  then have "finite (UNIV :: stream_id set)" by (rule finite_imageD[rotated]) simp
  then show ?thesis by (rule finite_subset[OF subset_UNIV])
qed

lemma base_parent_live:
  "base_inv a \<Longrightarrow> get a h = Some s \<Longrightarrow> st_parent s = Some p \<Longrightarrow> p \<noteq> h \<and> (\<exists>ps. get a p = Some ps \<and> h \<in> set (st_children ps))"
  using not_own_parent[of "abs_forest a" h "node_of s"]
  unfolding base_inv_def forest_ok_def by (fastforce simp: parents_ok_def)

lemma create_base:
  assumes b: "base_inv a" and room: "arena_room (ag_arena a)" "unat (ag_next_seq a) + 1 < 2 ^ 64"
    and live: "parent_live parent a"
    and new: "key_new parent protocol key a"
    and c: "create_stream_raw parent key kf st rs cond dir protocol ts a = (h, a')"
  shows "base_inv a'"
proof -
  from b have ok: "arena_ok (ag_arena a)" by (simp add: base_inv_def)
  note f = create_facts[OF ok live c]
  have "insertable h parent protocol key (abs_forest a)"
    using f(2) live room(2) new by (auto simp: insertable_def parent_live_def key_new_def) metis
  with b have "forest_ok (ag_key_hash a) (abs_forest a')"
    by (simp add: create_stream_raw_refines[OF ok live c] insert_ok base_inv_def)
  moreover have "handles_ok a'"
    using b unfolding handles_ok_def base_inv_def f(3) by (auto simp: new_stream_def split: if_splits)
  ultimately show ?thesis using f(4)[OF room(1)] f(11) by (simp add: base_inv_def)
qed

lemma evict_base:
  assumes b: "base_inv a" and g: "get a h = Some s" and leaf: "st_children s = []"
  shows "base_inv (evict h r a)"
proof -
  have np: "st_parent s \<noteq> Some h" using base_parent_live[OF b g] by blast
  note f = evict_facts[OF g np, of r]
  have "forest_ok (ag_key_hash a) (abs_forest (evict h r a))"
    unfolding evict_refines[OF g np]
    by (rule remove_ok[where n = "node_of s"]) (use b g leaf in \<open>simp_all add: base_inv_def\<close>)
  moreover have "handles_ok (evict h r a)"
    using b unfolding handles_ok_def base_inv_def f(1) by (auto split: if_splits)
  ultimately show ?thesis using b f(4) by (simp add: base_inv_def store_simps)
qed

lemma untally_keeps:
  "m k = Some g \<Longrightarrow> cg_node g \<noteq> None \<Longrightarrow> \<exists>g'. untally_anchor p q c m k = Some g' \<and> cg_node g' = cg_node g"
  by (auto simp: untally_anchor_def Let_def split: option.split)

lemma fold_untally_keeps:
  "m k = Some g \<Longrightarrow> cg_node g \<noteq> None \<Longrightarrow> \<exists>g'. fold (untally_anchor p q) cs m k = Some g' \<and> cg_node g' = cg_node g"
proof (induction cs arbitrary: m g)
  case (Cons c cs)
  from untally_keeps[of m k g, OF Cons.prems] obtain g1 where g1: "untally_anchor p q c m k = Some g1" "cg_node g1 = cg_node g"
    by blast
  with Cons.IH[of "untally_anchor p q c m" g1] Cons.prems(2) show ?case by simp
qed simp

text \<open>Evicting a stream drops at most its own group's node.\<close>

lemma condense_evict_keeps:
  assumes "ag_condense a k = Some g" and "cg_node g \<noteq> None"
    and "st_condensed s \<noteq> None \<Longrightarrow> k \<noteq> (st_parent s, st_protocol s, drop 1 (st_key s))"
  shows "\<exists>g'. ag_condense (condense_evict s a) k = Some g' \<and> cg_node g' = cg_node g"
  using assms fold_untally_keeps[of "ag_condense a" k g, OF assms(1,2)]
  by (auto simp: condense_evict_def split: option.split)

lemma base_unique:
  "base_inv a \<Longrightarrow> get a h = Some s \<Longrightarrow> get a h' = Some s' \<Longrightarrow> st_parent s = st_parent s' \<Longrightarrow>
    st_protocol s = st_protocol s' \<Longrightarrow> st_key s = st_key s' \<Longrightarrow> h = h'"
  unfolding base_inv_def forest_ok_def unique_ok_def by fastforce

lemma evict_condense:
  assumes c: "core_inv a" and g: "get a h = Some s"
  shows "condense_inv (evict h r a)"
  unfolding condense_inv_def
proof (intro allI impI)
  from c have b: "base_inv a" and ci: "condense_inv a" by (simp_all add: core_inv_def)
  have np: "st_parent s \<noteq> Some h" using base_parent_live[OF b g] by blast
  note f = evict_facts[OF g np, of r]
  fix j s' assume s': "get (evict h r a) j = Some s'"
  then obtain s0 where s0: "get a j = Some s0" "j \<noteq> h" "st_condensed s0 = st_condensed s'" "st_key s0 = st_key s'"
    "st_parent s0 = st_parent s'" "st_protocol s0 = st_protocol s'"
    by (auto simp: f(1) split: if_splits)
  show "if st_condensed s' = None then plain_key (st_key s')
      else \<exists>anchor g. st_key s' = CONDENSED_KEY_SENTINEL # anchor \<and>
        ag_condense (evict h r a) (st_parent s', st_protocol s', anchor) = Some g \<and> cg_node g = Some j"
  proof (cases "st_condensed s' = None")
    case True
    with condense_inv_plain[OF ci s0(1)] s0 show ?thesis by simp
  next
    case False
    with condense_inv_node[OF ci s0(1)] s0 obtain anchor gr where k: "st_key s' = CONDENSED_KEY_SENTINEL # anchor"
      "ag_condense a (st_parent s', st_protocol s', anchor) = Some gr" "cg_node gr = Some j" by auto
    have "(st_parent s', st_protocol s', anchor) \<noteq> (st_parent s, st_protocol s, drop 1 (st_key s))"
      if cs: "st_condensed s \<noteq> None"
    proof
      assume eq: "(st_parent s', st_protocol s', anchor) = (st_parent s, st_protocol s, drop 1 (st_key s))"
      from condense_inv_node[OF ci g cs] eq k(1) have "st_key s = st_key s'" by auto
      with base_unique[OF b g s0(1)] eq s0 show False by simp
    qed
    from condense_evict_keeps[OF k(2) _ this] k(3) obtain gr' where
      "ag_condense (evict h r a) (st_parent s', st_protocol s', anchor) = Some gr'" "cg_node gr' = Some j"
      by (auto simp: f(6))
    with False k(1) show ?thesis by auto
  qed
qed

lemma evict_lru_covers:
  assumes b: "base_inv a" and g: "get a h = Some s" and cov: "lru_covers {h} a"
  shows "lru_covers {} (evict h r a)"
  unfolding lru_covers_def
proof (intro impI allI)
  have np: "st_parent s \<noteq> Some h" using base_parent_live[OF b g] by blast
  note f = evict_facts[OF g np, of r]
  fix j s' assume pol: "cf_eviction (ag_config (evict h r a)) \<noteq> EvictNone" and s': "get (evict h r a) j = Some s'"
    and leaf: "st_children s' = []"
  show "\<exists>t q. (t, q, sid_index j, sid_generation j) \<in> set (ag_lru (evict h r a))"
  proof (cases "st_parent s = Some j")
    case True
    from lru_evict(2)[OF g True s'] show ?thesis by blast
  next
    case False
    with s' have "get a j = Some s'" "j \<noteq> h" by (auto simp: f(1) split: if_splits)
    with cov pol leaf have "\<exists>t q. (t, q, sid_index j, sid_generation j) \<in> set (ag_lru a)"
      by (auto simp: lru_covers_def store_simps)
    with lru_evict(1) show ?thesis by blast
  qed
qed

lemma evict_store_inv:
  assumes "core_inv a" and "lru_covers {h} a" and "get a h = Some s" and "st_children s = []"
  shows "store_inv (evict h r a)"
  using assms evict_base evict_condense evict_lru_covers unfolding store_inv_def core_inv_def by blast

section \<open>The loops\<close>

text \<open>What the loops leave alone.\<close>

definition frame :: "aggregator \<Rightarrow> aggregator \<Rightarrow> bool" where
  "frame a a' \<longleftrightarrow> length (ar_slots (ag_arena a')) = length (ar_slots (ag_arena a)) \<and>
     ag_next_seq a' = ag_next_seq a \<and> ag_key_hash a' = ag_key_hash a \<and> ag_engine a' = ag_engine a \<and>
     ag_config a' = ag_config a \<and> ag_clock a' = ag_clock a"

lemma frame_refl [simp]: "frame a a"
  by (simp add: frame_def)

lemma frame_trans: "frame a b \<Longrightarrow> frame b c \<Longrightarrow> frame a c"
  by (simp add: frame_def)

lemma frame_evict: "base_inv a \<Longrightarrow> get a h = Some s \<Longrightarrow> frame a (evict h r a)"
  using evict_facts(5)[of a h s r] base_parent_live[of a h s] by (auto simp: frame_def store_simps)

lemma same_shape_heaps [simp]:
  "same_shape a (a\<lparr>ag_expiry := es\<rparr>)" "same_shape a (a\<lparr>ag_lru := ls\<rparr>)" "same_shape a (push_expiry t h a)"
  by (simp_all add: same_shape_def push_expiry_def)

lemma frame_heaps [simp]:
  "frame (a\<lparr>ag_expiry := es\<rparr>) c \<longleftrightarrow> frame a c" "frame (a\<lparr>ag_lru := ls\<rparr>) c \<longleftrightarrow> frame a c"
  "frame (push_expiry t h a) c \<longleftrightarrow> frame a c" "frame (push_lru t q h a) c \<longleftrightarrow> frame a c"
  by (simp_all add: frame_def push_expiry_def push_lru_def)

lemma store_inv_expiry:
  "store_inv a \<Longrightarrow> store_inv (a\<lparr>ag_expiry := es\<rparr>)" "store_inv a \<Longrightarrow> store_inv (push_expiry t h a)"
  by (rule store_inv_cong[rotated 3], assumption, simp_all add: push_expiry_def)+

lemma sweep_loop_inv: "store_inv a \<Longrightarrow> store_inv (sweep_loop linger a) \<and> frame a (sweep_loop linger a)"
proof (induction linger a rule: sweep_loop.induct)
  case (1 linger a)
  show ?case
  proof (cases "heap_peek (ag_expiry a)")
    case None
    with "1.prems" show ?thesis by (simp add: sweep_loop.simps)
  next
    case (Some e)
    obtain t i g where e: "e = (t, i, g)" by (cases e) auto
    let ?a1 = "a\<lparr>ag_expiry := heap_pop (ag_expiry a)\<rparr>" and ?h = "\<lparr>sid_index = i, sid_generation = g\<rparr>"
    show ?thesis
    proof (cases "ag_clock a < t")
      case True
      with "1.prems" Some e show ?thesis by (simp add: sweep_loop.simps)
    next
      case False
      note IH = "1.IH"[OF Some[unfolded e] refl refl False refl refl]
      have i1: "store_inv ?a1" by (rule store_inv_expiry[OF "1.prems"])
      note unf = sweep_loop.simps[of linger a] Some e False Let_def
      show ?thesis
      proof (cases "deadline_of ?a1 ?h")
        case None
        from IH(1)[OF None i1] None show ?thesis by (simp add: unf)
      next
        case (Some actual)
        note d = this
        show ?thesis
        proof (cases "ag_clock a < actual")
          case True
          from IH(2)[OF d True store_inv_expiry(2)[OF i1]]
          show ?thesis using True d by (simp add: unf)
        next
          case nd: False
          show ?thesis
          proof (cases "get ?a1 ?h")
            case None
            from IH(3)[OF d nd None i1] None d nd show ?thesis by (simp add: unf)
          next
            case (Some s)
            show ?thesis
            proof (cases "st_children s = []")
              case False
              from IH(4)[OF d nd Some _ i1] False Some d nd show ?thesis by (simp add: unf)
            next
              case True
              let ?r = "close_reason_at linger (ag_clock a) s"
              from i1 have c: "core_inv ?a1" "lru_covers {?h} ?a1" by (auto simp: store_inv_def lru_covers_def)
              from evict_store_inv[OF c Some True] have "store_inv (evict ?h ?r ?a1)" .
              from IH(5)[OF d nd Some _ this] True
              have "store_inv (sweep_loop linger (evict ?h ?r ?a1)) \<and>
                  frame (evict ?h ?r ?a1) (sweep_loop linger (evict ?h ?r ?a1))" by simp
              moreover have "frame ?a1 (evict ?h ?r ?a1)"
                using c(1) Some by (intro frame_evict) (simp_all add: core_inv_def)
              ultimately show ?thesis
                using True Some d nd by (auto simp add: unf intro: frame_trans)
            qed
          qed
        qed
      qed
    qed
  qed
qed

lemma live_count_pos:
  assumes "base_inv a" and "0 < live_count a"
  shows "\<exists>h s. get a h = Some s \<and> st_children s = []"
proof -
  have ok: "arena_ok (ag_arena a)" using assms(1) by (simp add: base_inv_def)
  with assms(2) have "arena_streams (ag_arena a) \<noteq> []" by (auto simp: live_count_def arena_ok_def)
  then obtain s where "s \<in> set (arena_streams (ag_arena a))" by (cases "arena_streams (ag_arena a)") auto
  with arena_streams_iff[OF ok] obtain h where "get a h = Some s" by (auto simp: get_def)
  then have "fo_nodes (abs_forest a) h = Some (node_of s)" by simp
  from leaf_exists[OF _ finite_handles this] assms(1) obtain j n where "fo_nodes (abs_forest a) j = Some n" "nd_children n = []"
    unfolding base_inv_def by blast
  then obtain z where "get a j = Some z" "st_children z = []" by auto
  then show ?thesis by blast
qed

lemma lru_covers_pop:
  assumes "lru_covers {} a" and "heap_peek (ag_lru a) = Some (t, q, i, g)"
  shows "lru_covers {\<lparr>sid_index = i, sid_generation = g\<rparr>} (a\<lparr>ag_lru := heap_pop (ag_lru a)\<rparr>)"
proof -
  have "set (ag_lru a) = insert (t, q, i, g) (set (heap_pop (ag_lru a)))"
    using arg_cong[OF heap_peek_Some[OF assms(2)], of set] by simp
  with assms(1) show ?thesis unfolding lru_covers_def by fastforce
qed

lemma lru_covers_drop:
  assumes "lru_covers {h} a" and "\<And>s. get a h = Some s \<Longrightarrow> st_children s \<noteq> []"
  shows "lru_covers {} a"
  using assms unfolding lru_covers_def by (metis empty_iff singletonD)

lemma core_inv_lru [simp]: "core_inv (a\<lparr>ag_lru := ls\<rparr>) \<longleftrightarrow> core_inv a" "core_inv (push_lru t q h a) \<longleftrightarrow> core_inv a"
proof -
  have sh: "same_shape (a\<lparr>ag_lru := ls\<rparr>) a" for ls by (simp add: same_shape_def)
  show 1: "core_inv (a\<lparr>ag_lru := ls\<rparr>) \<longleftrightarrow> core_inv a" for ls
    using core_inv_cong[OF sh[of ls]] core_inv_cong[OF same_shape_heaps(2)[of a ls]] by auto
  show "core_inv (push_lru t q h a) \<longleftrightarrow> core_inv a" by (simp add: push_lru_def 1)
qed

lemma lru_covers_push: "lru_covers {h} a \<Longrightarrow> lru_covers {} (push_lru t q h a)"
  unfolding lru_covers_def push_lru_def by simp (metis stream_id.surjective)

lemma enforce_loop_inv:
  assumes "store_inv a" and "cf_eviction (ag_config a) \<noteq> EvictNone"
  shows "store_inv (enforce_loop cap a) \<and> frame a (enforce_loop cap a) \<and> live_count (enforce_loop cap a) \<le> cap"
  using assms
proof (induction cap a rule: enforce_loop.induct)
  case (1 cap a)
  show ?case
  proof (cases "live_count a \<le> cap")
    case True
    with "1.prems" show ?thesis by (simp add: enforce_loop.simps)
  next
    case over: False
    from "1.prems" obtain h0 s0 where l0: "get a h0 = Some s0" "st_children s0 = []"
      using live_count_pos[of a] over by (auto simp: store_inv_def core_inv_def)
    with "1.prems" have "set (ag_lru a) \<noteq> {}" by (fastforce simp: store_inv_def lru_covers_def)
    then obtain t q i g where pk: "heap_peek (ag_lru a) = Some (t, q, i, g)"
      by (cases "ag_lru a") (auto simp: heap_peek_def)
    let ?a1 = "a\<lparr>ag_lru := heap_pop (ag_lru a)\<rparr>" and ?h = "\<lparr>sid_index = i, sid_generation = g\<rparr>"
    note IH = "1.IH"[OF over pk refl refl refl refl refl]
    note unf = enforce_loop.simps[of cap a] pk over Let_def
    have c: "core_inv ?a1" and cov: "lru_covers {?h} ?a1" and pol: "cf_eviction (ag_config ?a1) \<noteq> EvictNone"
      using "1.prems" lru_covers_pop[OF _ pk] by (simp_all add: store_inv_def)
    show ?thesis
    proof (cases "get ?a1 ?h")
      case None
      then have "store_inv ?a1" using c lru_covers_drop[OF cov] by (simp add: store_inv_def)
      from IH(1)[OF None this pol] None show ?thesis by (simp add: unf)
    next
      case (Some s)
      show ?thesis
      proof (cases "st_children s = []")
        case False
        with Some have "store_inv ?a1" using c lru_covers_drop[OF cov] by (simp add: store_inv_def)
        from IH(2)[OF Some False this pol] False Some show ?thesis by (simp add: unf)
      next
        case leaf: True
        show ?thesis
        proof (cases "(st_last_seen s, st_created_seq s) = (t, q)")
          case False
          let ?b = "push_lru (st_last_seen s) (st_created_seq s) ?h ?a1"
          have "store_inv ?b" using c lru_covers_push[OF cov] by (simp add: store_inv_def)
          moreover have "cf_eviction (ag_config ?b) \<noteq> EvictNone" using pol by (simp add: push_lru_def)
          ultimately have "store_inv (enforce_loop cap ?b) \<and> frame ?b (enforce_loop cap ?b) \<and> live_count (enforce_loop cap ?b) \<le> cap"
            using IH(3)[OF Some _ _] leaf False by simp
          with False leaf Some show ?thesis by (simp add: unf)
        next
          case True
          let ?b = "evict ?h LruEvicted ?a1"
          have "store_inv ?b" by (rule evict_store_inv[OF c cov Some leaf])
          moreover have "cf_eviction (ag_config ?b) \<noteq> EvictNone" using pol by (simp add: store_simps)
          ultimately have "store_inv (enforce_loop cap ?b) \<and> frame ?b (enforce_loop cap ?b) \<and> live_count (enforce_loop cap ?b) \<le> cap"
            using IH(4)[OF Some _ _] leaf True by simp
          moreover have "frame ?a1 ?b" using c Some by (intro frame_evict) (simp_all add: core_inv_def)
          ultimately show ?thesis using True leaf Some by (auto simp add: unf intro: frame_trans)
        qed
      qed
    qed
  qed
qed

lemma compact_lru_inv: "store_inv a \<Longrightarrow> store_inv (compact_lru a) \<and> frame a (compact_lru a)"
proof -
  assume inv: "store_inv a"
  let ?ls = "heap_collect (map lru_entry_of (filter (\<lambda>s. st_children s = []) (streams a)))"
  have "lru_covers {} (a\<lparr>ag_lru := ?ls\<rparr>)"
    unfolding lru_covers_def
  proof (intro impI allI)
    fix h s assume "get (a\<lparr>ag_lru := ?ls\<rparr>) h = Some s" "st_children s = []"
    moreover from this inv have "st_id s = h" "s \<in> set (streams a)"
      using arena_streams_iff[of "ag_arena a"]
      by (auto simp: store_inv_def core_inv_def base_inv_def handles_ok_def streams_def get_def)
    ultimately have "lru_entry_of s \<in> set ?ls" "lru_entry_of s = (st_last_seen s, st_created_seq s, sid_index h, sid_generation h)"
      by (auto simp: lru_entry_of_def)
    then show "\<exists>t q. (t, q, sid_index h, sid_generation h) \<in> set (ag_lru (a\<lparr>ag_lru := ?ls\<rparr>))" by auto
  qed
  with inv show ?thesis by (simp add: compact_lru_def store_inv_def) (simp add: frame_def)
qed

section \<open>Resolution of a layer\<close>

text \<open>Room for \<open>n\<close> more creations before a 32-bit slot index or the 64-bit sequence counter wraps.\<close>

definition room :: "nat \<Rightarrow> aggregator \<Rightarrow> bool" where
  "room n a \<longleftrightarrow> length (ar_slots (ag_arena a)) + n < 2 ^ 32 \<and> unat (ag_next_seq a) + n < 2 ^ 64"

definition grows :: "nat \<Rightarrow> aggregator \<Rightarrow> aggregator \<Rightarrow> bool" where
  "grows n a a' \<longleftrightarrow> length (ar_slots (ag_arena a')) \<le> length (ar_slots (ag_arena a)) + n \<and>
     unat (ag_next_seq a') \<le> unat (ag_next_seq a) + n \<and>
     ag_engine a' = ag_engine a \<and> ag_config a' = ag_config a \<and> (\<forall>j. get a j \<noteq> None \<longrightarrow> get a' j \<noteq> None)"

lemma grows_refl [simp]: "grows n a a"
  by (simp add: grows_def)

lemma grows_trans: "grows m a b \<Longrightarrow> grows n b c \<Longrightarrow> grows (m + n) a c"
  unfolding grows_def by fastforce

lemma room_grows: "room (m + n) a \<Longrightarrow> grows m a a' \<Longrightarrow> room n a'"
  by (auto simp: room_def grows_def)

lemma grows_same_shape: "same_shape a a' \<Longrightarrow> grows 0 a a'"
  using same_shape_live[of a a'] by (simp add: grows_def) (simp add: same_shape_def)

lemma unat_succ_le: "unat ((x :: u64) + 1) \<le> unat x + 1"
  by (simp add: unat_word_ariths)

lemma create_grows:
  assumes "arena_ok (ag_arena a)" "parent_live parent a"
    and "create_stream_raw parent key kf st rs cond dir protocol ts a = (h, a')"
  shows "grows 1 a a'"
proof -
  note f = create_facts[OF assms]
  have "get a' j \<noteq> None" if "get a j \<noteq> None" for j
    using that by (simp add: f(3))
  then show ?thesis unfolding grows_def using f(5) f(10,12) unat_succ_le by (simp add: f(7))
qed

lemma create_lru_covers:
  assumes "arena_ok (ag_arena a)" "parent_live parent a"
    and "create_stream_raw parent key kf st rs cond dir protocol ts a = (h, a')" and "lru_covers {} a"
  shows "lru_covers {} a'"
  unfolding lru_covers_def
proof (intro impI allI)
  note f = create_facts[OF assms(1-3)]
  fix j s assume pol: "cf_eviction (ag_config a') \<noteq> EvictNone" and s: "get a' j = Some s" "st_children s = []"
  show "\<exists>t q. (t, q, sid_index j, sid_generation j) \<in> set (ag_lru a')"
  proof (cases "j = h")
    case True
    with pol show ?thesis by (auto simp: f(14) f(10))
  next
    case False
    with s have "get a j = Some s" by (auto simp: f(3) split: if_splits)
    with assms(4) pol s have "\<exists>t q. (t, q, sid_index j, sid_generation j) \<in> set (ag_lru a)"
      by (auto simp: lru_covers_def f(10))
    with pol show ?thesis by (auto simp: f(14) f(10))
  qed
qed

lemma room_arena: "room (Suc n) a \<Longrightarrow> arena_room (ag_arena a) \<and> unat (ag_next_seq a) + 1 < 2 ^ 64"
  by (simp add: room_def arena_room_def)

lemma store_invD:
  assumes "store_inv a"
  shows "arena_ok (ag_arena a)" "base_inv a" "condense_inv a" "lru_covers {} a" "core_inv a"
  using assms by (simp_all add: store_inv_def core_inv_def base_inv_def)

text \<open>An ordinary stream.\<close>

lemma create_stream_inv:
  assumes inv: "store_inv a" and rm: "room (Suc n) a" and live: "parent_live parent a"
    and new: "key_new parent (lr_protocol layer) key a" and plain: "plain_key key"
    and c: "create_stream parent key identity layer dir ts a = (h, a')"
  shows "store_inv a' \<and> get a' h \<noteq> None \<and> grows 1 a a'"
proof -
  note i = store_invD[OF inv]
  note c' = c[unfolded create_stream_def]
  note f = create_facts[OF i(1) live c']
  have b: "base_inv a'" using room_arena[OF rm] by (intro create_base[OF i(2) _ _ live new c']) auto
  have "condense_inv a'"
    unfolding condense_inv_def
  proof (intro allI impI)
    fix j s' assume s': "get a' j = Some s'"
    show "if st_condensed s' = None then plain_key (st_key s')
      else \<exists>anchor g. st_key s' = CONDENSED_KEY_SENTINEL # anchor \<and>
        ag_condense a' (st_parent s', st_protocol s', anchor) = Some g \<and> cg_node g = Some j"
    proof (cases "j = h")
      case True
      with s' plain show ?thesis by (auto simp: f(3) new_stream_def)
    next
      case False
      with s' obtain s0 where s0: "get a j = Some s0" "st_condensed s0 = st_condensed s'" "st_key s0 = st_key s'"
        "st_parent s0 = st_parent s'" "st_protocol s0 = st_protocol s'"
        by (auto simp: f(3) split: if_splits)
      with i(3) show ?thesis unfolding condense_inv_def f(9) by metis
    qed
  qed
  with b create_lru_covers[OF i(1) live c' i(4)] create_grows[OF i(1) live c'] show ?thesis
    by (simp add: store_inv_def core_inv_def f(3))
qed

text \<open>No live stream carries the key of a group whose node is gone.\<close>

lemma node_key_new:
  assumes ci: "condense_inv a" and g: "ag_condense a (parent, protocol, anchor) = Some g" and dead: "live_node a g = None"
  shows "key_new parent protocol (CONDENSED_KEY_SENTINEL # anchor) a"
  unfolding key_new_def
proof (intro allI impI notI)
  fix h s assume s: "get a h = Some s"
    and eq: "st_parent s = parent \<and> st_protocol s = protocol \<and> st_key s = CONDENSED_KEY_SENTINEL # anchor"
  have "st_condensed s \<noteq> None" using condense_inv_plain[OF ci s] eq by (auto simp: plain_key_def)
  from condense_inv_node[OF ci s this] eq g have "cg_node g = Some h" by auto
  with s dead show False by (simp add: live_node_def)
qed

lemma create_node_inv:
  assumes inv: "store_inv a" and rm: "room (Suc n) a" and live: "parent_live parent a"
    and g: "ag_condense a (parent, protocol, cc_anchor cand) = Some g" and dead: "live_node a g = None"
    and c: "create_node parent protocol identity cand ts a = (h, a')"
  shows "store_inv a' \<and> get a' h \<noteq> None \<and> grows 1 a a'"
proof -
  note i = store_invD[OF inv]
  let ?k = "(parent, protocol, cc_anchor cand)"
  obtain a1 where raw: "create_stream_raw parent (CONDENSED_KEY_SENTINEL # cc_anchor cand)
            (fm_insert (cc_anchor_field cand) (cc_anchor_value cand) fm_new) None (new_rollups identity a)
            (Some \<lparr>ci_member_flows = 0, ci_ephemeral_field = cc_anchor_field cand, ci_overflow = False\<rparr>)
            (cc_fold_dir cand) protocol ts a = (h, a1)"
    and get1: "\<And>j. get a' j = get a1 j" and shape: "same_shape a1 a'"
    and cond: "ag_condense a' = (case ag_condense a1 ?k of
               Some g \<Rightarrow> (ag_condense a1)(?k \<mapsto> g\<lparr>cg_node := Some h\<rparr>) | None \<Rightarrow> ag_condense a1)"
    and lru: "ag_lru a' = ag_lru a1"
    using c by (auto simp: create_node_def Let_def same_shape_def split: prod.splits)
  note f = create_facts[OF i(1) live raw]
  have cond': "ag_condense a' = (ag_condense a)(?k \<mapsto> g\<lparr>cg_node := Some h\<rparr>)" using g by (simp add: cond f(9))
  have "base_inv a1"
    using room_arena[OF rm] node_key_new[OF i(3) g dead] by (intro create_base[OF i(2) _ _ live _ raw]) auto
  then have b: "base_inv a'" by (rule base_inv_cong[OF shape])
  have "condense_inv a'"
    unfolding condense_inv_def
  proof (intro allI impI)
    fix j s' assume s': "get a' j = Some s'"
    show "if st_condensed s' = None then plain_key (st_key s')
      else \<exists>anchor g. st_key s' = CONDENSED_KEY_SENTINEL # anchor \<and>
        ag_condense a' (st_parent s', st_protocol s', anchor) = Some g \<and> cg_node g = Some j"
    proof (cases "j = h")
      case True
      with s' show ?thesis by (auto simp: get1 f(3) new_stream_def cond')
    next
      case False
      with s' obtain s0 where s0: "get a j = Some s0" "st_condensed s0 = st_condensed s'" "st_key s0 = st_key s'"
        "st_parent s0 = st_parent s'" "st_protocol s0 = st_protocol s'"
        by (auto simp: get1 f(3) split: if_splits)
      show ?thesis
      proof (cases "st_condensed s' = None")
        case True
        with condense_inv_plain[OF i(3) s0(1)] s0 show ?thesis by simp
      next
        case nc: False
        with condense_inv_node[OF i(3) s0(1)] s0 obtain anchor gr where k: "st_key s' = CONDENSED_KEY_SENTINEL # anchor"
          "ag_condense a (st_parent s', st_protocol s', anchor) = Some gr" "cg_node gr = Some j" by auto
        have "(st_parent s', st_protocol s', anchor) \<noteq> ?k" using k(2,3) g dead s0(1) by (auto simp: live_node_def)
        with k nc show ?thesis by (auto simp: cond')
      qed
    qed
  qed
  moreover have "lru_covers {} a'"
    by (rule lru_covers_cong[OF shape _ create_lru_covers[OF i(1) live raw i(4)]]) (simp add: lru)
  moreover have "grows (1 + 0) a a'" by (rule grows_trans[OF create_grows[OF i(1) live raw] grows_same_shape[OF shape]])
  ultimately show ?thesis using b by (simp add: store_inv_def core_inv_def get1 f(3))
qed

text \<open>Tallying members and anchors changes no node of a group.\<close>

lemma tally_member_shape:
  assumes "tally_member k d a = (nm, ov, a')"
  shows "same_shape a a'" "ag_lru a' = ag_lru a"
    "ag_condense a j = Some g \<Longrightarrow> \<exists>g'. ag_condense a' j = Some g' \<and> cg_node g' = cg_node g"
  using assms by (auto simp: tally_member_def same_shape_def split: option.splits if_splits)

lemma note_member_shape:
  "same_shape a (note_member node protocol nm ov a)" "ag_lru (note_member node protocol nm ov a) = ag_lru a"
  "ag_condense (note_member node protocol nm ov a) = ag_condense a"
proof -
  let ?a1 = "if nm then a\<lparr>ag_totals := (ag_totals a)\<lparr>tt_streams_created := tt_streams_created (ag_totals a) + 1,
      tt_flows_condensed := tt_flows_condensed (ag_totals a) + 1\<rparr>, ag_created_pp := hm_add protocol 1 (ag_created_pp a)\<rparr> else a"
  have s1: "same_shape a ?a1" by (simp add: same_shape_def)
  have "same_shape ?a1 (get_mut node (\<lambda>s. s\<lparr>st_condensed := map_option F (st_condensed s)\<rparr>) ?a1)" for F
    by (rule same_shape_get_mut) (simp add: sig_def node_of_def)
  note s2 = same_shape_trans[OF s1 this]
  show "same_shape a (note_member node protocol nm ov a)"
    unfolding note_member_def Let_def by (cases "nm \<or> ov") (simp_all only: if_True if_False s1 s2)
qed (simp_all add: note_member_def Let_def get_mut_def)

lemma store_inv_cong':
  assumes "same_shape a a'" "ag_lru a' = ag_lru a" "store_inv a"
    "\<And>k g. ag_condense a k = Some g \<Longrightarrow> \<exists>g'. ag_condense a' k = Some g' \<and> cg_node g' = cg_node g"
  shows "store_inv a'"
  using base_inv_cong[OF assms(1)] condense_inv_cong[OF assms(1) _ assms(4)] lru_covers_cong[OF assms(1)] assms(2,3)
  by (simp add: store_inv_def core_inv_def)

lemma condense_fold_inv:
  assumes inv: "store_inv a" and rm: "room (Suc n) a" and live: "parent_live parent a"
    and c: "condense_fold parent protocol identity cand ts a = Some ((h, d), a')"
  shows "store_inv a' \<and> get a' h \<noteq> None \<and> grows 1 a a'"
proof -
  from c obtain g where g: "ag_condense a (parent, protocol, cc_anchor cand) = Some g"
    by (auto simp: condense_fold_def Let_def split: option.splits)
  obtain a1 where a1: "(case live_node a g of Some h \<Rightarrow> (h, a) | None \<Rightarrow> create_node parent protocol identity cand ts a) = (h, a1)"
    and t: "\<exists>nm ov a2. tally_member (parent, protocol, cc_anchor cand) (cc_varying_digest cand) a1 = (nm, ov, a2) \<and>
      a' = note_member h protocol nm ov a2"
    using c g by (auto simp: condense_fold_def Let_def split: if_splits prod.splits)
  have 1: "store_inv a1 \<and> get a1 h \<noteq> None \<and> grows 1 a a1"
  proof (cases "live_node a g")
    case None
    with a1 show ?thesis by (intro create_node_inv[OF inv rm live g None]) simp
  next
    case (Some h')
    with a1 have "h' = h" "a1 = a" by auto
    with Some inv show ?thesis by (auto simp: live_node_def split: Option.bind_splits if_splits)
  qed
  from t obtain nm ov a2 where t': "tally_member (parent, protocol, cc_anchor cand) (cc_varying_digest cand) a1 = (nm, ov, a2)"
    and a': "a' = note_member h protocol nm ov a2" by blast
  note ts = tally_member_shape[OF t'] and ns = note_member_shape[where a = a2 and node = h and protocol = protocol and nm = nm and ov = ov]
  have sh: "same_shape a1 a'" unfolding a' by (rule same_shape_trans[OF ts(1) ns(1)])
  have "store_inv a'" by (rule store_inv_cong'[OF sh]) (use 1 ts ns in \<open>auto simp: a'\<close>)
  moreover have "grows (1 + 0) a a'" using 1 by (intro grows_trans[OF _ grows_same_shape[OF sh]]) simp
  ultimately show ?thesis using 1 same_shape_live[OF sh] by simp
qed

lemma fold_first_inv:
  assumes "store_inv a" "room (Suc n) a" "parent_live parent a"
    and "fold_first parent protocol identity cands ts a = Some ((h, d), a')"
  shows "store_inv a' \<and> get a' h \<noteq> None \<and> grows 1 a a'"
  using assms
  by (induction cands) (auto split: option.splits dest: condense_fold_inv simp del: not_None_eq)

lemma tally_anchor_shape:
  "same_shape a (tally_anchor parent protocol c a)" "ag_lru (tally_anchor parent protocol c a) = ag_lru a"
  "ag_condense a k = Some g \<Longrightarrow> \<exists>g'. ag_condense (tally_anchor parent protocol c a) k = Some g' \<and> cg_node g' = cg_node g"
  by (simp_all add: same_shape_def store_simps) (auto simp: tally_anchor_def Let_def)

lemma fold_tally_inv:
  "store_inv a \<Longrightarrow> store_inv (fold (tally_anchor parent protocol) cands a) \<and>
    same_shape a (fold (tally_anchor parent protocol) cands a)"
proof (induction cands arbitrary: a)
  case (Cons c cands)
  have "store_inv (tally_anchor parent protocol c a)"
    by (rule store_inv_cong'[OF tally_anchor_shape(1,2) Cons.prems tally_anchor_shape(3)])
  from Cons.IH[OF this] show ?case by (auto intro: same_shape_trans[OF tally_anchor_shape(1)])
qed simp

lemma find_stream_Some:
  assumes "base_inv a" and "find_stream parent protocol key a = Some h"
  shows "\<exists>s. get a h = Some s \<and> st_parent s = parent \<and> st_protocol s = protocol \<and> st_key s = key"
proof -
  from assms(2) obtain b where "ag_index a (parent, protocol, ag_key_hash a key) = Some b" "h \<in> set b"
    and k: "case get a h of Some s \<Rightarrow> st_key s = key | None \<Rightarrow> False"
    by (cases "ag_index a (parent, protocol, ag_key_hash a key)") (auto simp: find_stream_def find_Some_iff)
  then have "h \<in> set (bucket (fo_index (abs_forest a)) (parent, protocol, ag_key_hash a key))"
    by (simp add: bucket_def)
  with assms(1) k show ?thesis by (fastforce simp: base_inv_def forest_ok_def index_ok_def split: option.splits)
qed

lemma find_stream_None:
  assumes "base_inv a" and "find_stream parent protocol key a = None"
  shows "key_new parent protocol key a"
  unfolding key_new_def
proof (intro allI impI notI)
  fix h s assume s: "get a h = Some s" and eq: "st_parent s = parent \<and> st_protocol s = protocol \<and> st_key s = key"
  from assms(1) s eq have "h \<in> set (bucket (fo_index (abs_forest a)) (parent, protocol, ag_key_hash a key))"
    unfolding base_inv_def forest_ok_def index_ok_def by auto
  then obtain b where "ag_index a (parent, protocol, ag_key_hash a key) = Some b" "h \<in> set b"
    by (cases "ag_index a (parent, protocol, ag_key_hash a key)") (auto simp: bucket_def)
  with assms(2) s eq show False by (auto simp: find_stream_def find_None_iff)
qed

lemma get_or_insert_inv:
  assumes inv: "store_inv a" and rm: "room (Suc n) a" and live: "parent_live parent a" and plain: "plain_key key"
    and r: "get_or_insert parent key identity condense layer dir ts a = ((h, d), a')"
  shows "store_inv a' \<and> get a' h \<noteq> None \<and> grows 1 a a'"
proof (cases "find_stream parent (lr_protocol layer) key a")
  case (Some h')
  with r have "h' = h" "a' = a" by (auto simp: get_or_insert_def)
  with inv find_stream_Some[OF store_invD(2)[OF inv] Some] show ?thesis by auto
next
  case None
  note new = find_stream_None[OF store_invD(2)[OF inv] None]
  obtain h1 a1 where c: "create_stream parent key identity layer dir ts a = (h1, a1)"
    by (cases "create_stream parent key identity layer dir ts a")
  note ci = create_stream_inv[OF inv rm live new plain c]
  consider "h = h1" "a' = a1"
    | cands where "fold_first parent (lr_protocol layer) identity cands ts a = Some ((h, d), a')"
    | cands where "h = h1" "a' = fold (tally_anchor parent (lr_protocol layer)) cands a1"
    using r None c by (auto simp: get_or_insert_def Let_def split: option.splits if_splits)
  then show ?thesis
  proof cases
    case 1
    with ci show ?thesis by simp
  next
    case 2
    then show ?thesis by (rule fold_first_inv[OF inv rm live])
  next
    case (3 cands)
    have "store_inv a1" using ci by simp
    from fold_tally_inv[OF this, of parent "lr_protocol layer" cands] 3
    have sh: "same_shape a1 a'" and "store_inv a'" by simp_all
    moreover have "grows (1 + 0) a a'" using ci by (intro grows_trans[OF _ grows_same_shape[OF sh]]) simp
    ultimately show ?thesis using ci 3(1) same_shape_live[OF sh] by simp
  qed
qed

section \<open>Ingest keeps the invariant\<close>

lemma touch_sig: "sig (fst (touch_stream identity fm dir wire ts s)) = sig s"
  by (simp add: touch_stream_def advance_lifecycle_def Let_def sig_def node_of_def split: option.split prod.split)

lemma attribute_layer_inv:
  assumes inv: "store_inv a" and rm: "room (Suc n) a" and live: "parent_live parent a" and plain: "plain_key key"
    and r: "attribute_layer identity condense meta layer key dir parent a = (h, a')"
  shows "store_inv a' \<and> get a' h \<noteq> None \<and> grows 1 a a'"
proof -
  let ?ts = "timestamp meta" and ?w = "of_nat (origlen meta)"
  obtain d a1 where g: "get_or_insert parent key identity condense layer dir ?ts a = ((h, d), a1)"
    and r': "let a2 = a1\<lparr>ag_live_bytes_pp := add_at (lr_protocol layer) ?w (ag_live_bytes_pp a1)\<rparr>;
         (a3, became) = (case get a2 h of
             Some s \<Rightarrow> (let (s', b) = touch_stream identity (lr_fields layer) d ?w ?ts s in (get_mut h (\<lambda>_. s') a2, b))
           | None \<Rightarrow> (a2, False))
       in (case cf_eviction (ag_config a3) of
             Live _ linger _ \<Rightarrow> if became then push_expiry (?ts + int linger) h a3 else a3
           | EvictNone \<Rightarrow> a3) = a'"
    using r by (auto simp: attribute_layer_def Let_def split: prod.splits)
  note i = get_or_insert_inv[OF inv rm live plain g]
  define a2 where "a2 = a1\<lparr>ag_live_bytes_pp := add_at (lr_protocol layer) ?w (ag_live_bytes_pp a1)\<rparr>"
  have s2: "same_shape a1 a2" "ag_condense a2 = ag_condense a1" "ag_lru a2 = ag_lru a1"
    by (simp_all add: a2_def same_shape_def)
  from i obtain s where s: "get a1 h = Some s" by auto
  obtain s' b where t: "touch_stream identity (lr_fields layer) d ?w ?ts s = (s', b)"
    by (cases "touch_stream identity (lr_fields layer) d ?w ?ts s")
  then have sg: "sig s' = sig s" using touch_sig[of identity "lr_fields layer" d ?w ?ts s] by simp
  have s3: "same_shape a2 (get_mut h (\<lambda>_. s') a2)"
    using s sg by (intro same_shape_get_mut) (simp add: a2_def)
  have "same_shape (get_mut h (\<lambda>_. s') a2) a' \<and> ag_condense a' = ag_condense a1 \<and> ag_lru a' = ag_lru a1"
    using r' s t s2 unfolding a2_def[symmetric]
    by (auto simp: a2_def store_simps get_mut_def push_expiry_def same_shape_def Let_def
        split: eviction_policy.splits if_splits)
  then have sh: "same_shape a1 a'" and "ag_condense a' = ag_condense a1" "ag_lru a' = ag_lru a1"
    using same_shape_trans[OF s2(1) same_shape_trans[OF s3]] by auto
  moreover from this i have "store_inv a'" by (intro store_inv_cong[OF sh]) auto
  moreover have "grows (1 + 0) a a'" using i by (intro grows_trans[OF _ grows_same_shape[OF sh]]) simp
  ultimately show ?thesis using i same_shape_live[OF sh] by simp
qed

text \<open>Engines whose stream keys keep clear of the sentinel. \<open>EndpointSort\<close> keys always do: their
  first byte, if any, is a value tag.\<close>

definition plain_identity :: "stream_identity \<Rightarrow> bool" where
  "plain_identity si \<longleftrightarrow> (\<forall>fm k d. flow_key si fm = Inr (k, d) \<longrightarrow> plain_key k)"

definition plain_engine :: "engine \<Rightarrow> bool" where
  "plain_engine e \<longleftrightarrow> (\<forall>n p si. plugin_by_name e n = Some p \<longrightarrow> pg_stream_identity p = Some si \<longrightarrow> plain_identity si)"

lemma plain_key_append: "plain_key k \<Longrightarrow> plain_key k' \<Longrightarrow> plain_key (k @ k')"
  by (cases k) (auto simp: plain_key_def)

lemma plain_key_value: "plain_key (encode_value v)"
proof -
  have "tag_of v \<noteq> CONDENSED_KEY_SENTINEL" by (cases v) (simp_all add: CONDENSED_KEY_SENTINEL_def)
  then show ?thesis using hd_encode_value[of v] by (auto simp: plain_key_def)
qed

lemma plain_key_values: "plain_key (encode_all vs)"
  by (induction vs) (auto simp: encode_all_def plain_key_append plain_key_value, simp add: plain_key_def)

lemma endpoint_plain: "si_canonicalize si = EndpointSort \<Longrightarrow> plain_identity si"
  unfolding plain_identity_def
  by (auto simp: flow_key_spec Let_def min_def max_def plain_key_append plain_key_values split: option.splits)

definition ingest_ok :: "nat \<Rightarrow> ingest_state \<Rightarrow> bool" where
  "ingest_ok n st \<longleftrightarrow> store_inv (is_agg st) \<and> parent_live (is_parent st) (is_agg st) \<and> room n (is_agg st) \<and>
     plain_engine (ag_engine (is_agg st))"

lemma room_le: "room n a \<Longrightarrow> m \<le> n \<Longrightarrow> room m a"
  by (simp add: room_def)

lemma ingest_layer_ok:
  assumes ok: "ingest_ok (Suc n) st"
  shows "ingest_ok n (ingest_layer meta layer st) \<and>
    ag_config (is_agg (ingest_layer meta layer st)) = ag_config (is_agg st)"
proof -
  let ?a = "is_agg st"
  from ok have inv: "store_inv ?a" and live: "parent_live (is_parent st) ?a" and rm: "room (Suc n) ?a"
    and pe: "plain_engine (ag_engine ?a)" by (simp_all add: ingest_ok_def)
  have skip: "ingest_ok n st" using ok by (auto simp: ingest_ok_def intro: room_le)
  show ?thesis
  proof (cases "plugin_by_name (ag_engine ?a) (lr_protocol layer)")
    case None
    with skip show ?thesis by (simp add: ingest_layer_def)
  next
    case (Some p)
    show ?thesis
    proof (cases "pg_stream_identity p")
      case None
      with skip Some show ?thesis by (simp add: ingest_layer_def)
    next
      case (Some si)
      note p = \<open>plugin_by_name (ag_engine ?a) (lr_protocol layer) = Some p\<close> and si = Some
      show ?thesis
      proof (cases "flow_key si (lr_fields layer)")
        case (Inl e)
        let ?b = "?a\<lparr>ag_totals := (ag_totals ?a)\<lparr>tt_key_errors := tt_key_errors (ag_totals ?a) + 1\<rparr>\<rparr>"
        have sh: "same_shape ?a ?b" by (simp add: same_shape_def)
        have "store_inv ?b" by (rule store_inv_cong[OF sh]) (simp_all add: inv)
        moreover have "parent_live (is_parent st) ?b" using live by (simp add: parent_live_def)
        moreover have "room n ?b" using rm by (simp add: room_def)
        ultimately show ?thesis using Inl p si pe by (simp add: ingest_layer_def ingest_ok_def Let_def)
      next
        case (Inr kd)
        obtain key dir where kd: "kd = (key, dir)" by (cases kd)
        have "plain_key key" using pe p si Inr kd unfolding plain_engine_def plain_identity_def by blast
        obtain h a' where r: "attribute_layer si (pg_condense p) meta layer key dir (is_parent st) ?a = (h, a')"
          by (cases "attribute_layer si (pg_condense p) meta layer key dir (is_parent st) ?a")
        note i = attribute_layer_inv[OF inv rm live \<open>plain_key key\<close> r]
        then have "room n a'" using rm room_grows[of 1 n ?a a'] by simp
        moreover have "ag_engine a' = ag_engine ?a" "ag_config a' = ag_config ?a" using i by (simp_all add: grows_def)
        ultimately show ?thesis using Inr kd p si r i pe
          by (auto simp: ingest_layer_def ingest_ok_def parent_live_def Let_def)
      qed
    qed
  qed
qed

lemma ingest_layers_ok:
  "ingest_ok (length ls) st \<Longrightarrow>
    ingest_ok 0 (fold (ingest_layer meta) ls st) \<and>
    ag_config (is_agg (fold (ingest_layer meta) ls st)) = ag_config (is_agg st)"
proof (induction ls arbitrary: st)
  case (Cons l ls)
  then have "ingest_ok (length ls) (ingest_layer meta l st) \<and>
      ag_config (is_agg (ingest_layer meta l st)) = ag_config (is_agg st)" by (intro ingest_layer_ok) simp
  with Cons.IH show ?case by simp
qed simp

lemma sweep_inv: "store_inv a \<Longrightarrow> store_inv (sweep a) \<and> frame a (sweep a)"
  by (simp add: sweep_def sweep_loop_inv split: eviction_policy.split)

lemma enforce_inv:
  "store_inv a \<Longrightarrow> store_inv (enforce_max_streams a) \<and> frame a (enforce_max_streams a) \<and>
    (cf_eviction (ag_config a) \<noteq> EvictNone \<longrightarrow> live_count (enforce_max_streams a) \<le> max_streams (cf_eviction (ag_config a)))"
  using enforce_loop_inv[of a] by (auto simp: enforce_max_streams_def split: eviction_policy.split)

lemma ingest_inv:
  assumes inv: "store_inv a" and pe: "plain_engine (ag_engine a)" and rm: "room (length (dp_layers pkt)) a"
  shows "store_inv (ingest pkt a) \<and> ag_config (ingest pkt a) = ag_config a \<and>
    plain_engine (ag_engine (ingest pkt a)) \<and>
    (cf_eviction (ag_config a) \<noteq> EvictNone \<longrightarrow> live_count (ingest pkt a) \<le> max_streams (cf_eviction (ag_config a)))"
proof -
  have sh: "same_shape a (count_packet pkt a)" by (simp add: same_shape_def count_packet_def Let_def)
  have "store_inv (count_packet pkt a)"
    by (rule store_inv_cong[OF sh]) (simp_all add: count_packet_def Let_def inv)
  with sweep_inv compact_lru_inv have i1: "store_inv (compact_lru (sweep (count_packet pkt a)))"
    and "frame (count_packet pkt a) (compact_lru (sweep (count_packet pkt a)))" by (blast intro: frame_trans)+
  with sh have f1: "ag_config (compact_lru (sweep (count_packet pkt a))) = ag_config a"
    "ag_engine (compact_lru (sweep (count_packet pkt a))) = ag_engine a"
    "room (length (dp_layers pkt)) (compact_lru (sweep (count_packet pkt a)))"
    using rm by (simp_all add: frame_def same_shape_def room_def)
  define st where "st = fold (ingest_layer (dp_meta pkt)) (dp_layers pkt)
      \<lparr>is_agg = compact_lru (sweep (count_packet pkt a)), is_parent = None, is_endpoint = None\<rparr>"
  have "ingest_ok (length (dp_layers pkt)) \<lparr>is_agg = compact_lru (sweep (count_packet pkt a)), is_parent = None, is_endpoint = None\<rparr>"
    using i1 f1 pe by (simp add: ingest_ok_def parent_live_def)
  from ingest_layers_ok[OF this] have ok: "ingest_ok 0 st" "ag_config (is_agg st) = ag_config a"
    by (simp_all add: st_def f1)
  define a2 where "a2 = (case is_parent st of
      Some h \<Rightarrow> get_mut h (\<lambda>s. s\<lparr>st_opaque_bytes := st_opaque_bytes s + of_nat (dp_opaque_len pkt)\<rparr>) (is_agg st)
    | None \<Rightarrow> is_agg st)"
  define a3 where "a3 = (case dp_unknown pkt of
      Some diag \<Rightarrow> a2\<lparr>ag_unknowns := registry_ingest diag (clamp_u32 (dp_opaque_len pkt))
          (timestamp (dp_meta pkt)) (is_endpoint st) (cf_unknown (ag_config a2)) (ag_unknowns a2)\<rparr>
    | None \<Rightarrow> a2)"
  have "same_shape (is_agg st) a2"
    unfolding a2_def by (auto split: option.split intro!: same_shape_get_mut simp: sig_def node_of_def)
  moreover have "same_shape a2 a3" unfolding a3_def by (simp add: same_shape_def split: option.split)
  ultimately have sh3: "same_shape (is_agg st) a3" by (rule same_shape_trans)
  have "ag_lru a2 = ag_lru (is_agg st) \<and> ag_condense a2 = ag_condense (is_agg st)"
    unfolding a2_def by (simp add: get_mut_def split: option.split)
  then have fr: "ag_lru a3 = ag_lru (is_agg st)" "ag_condense a3 = ag_condense (is_agg st)"
    unfolding a3_def by (simp_all split: option.split)
  have i3: "store_inv a3" by (rule store_inv_cong[OF sh3]) (use ok fr in \<open>simp_all add: ingest_ok_def\<close>)
  have c3: "ag_config a3 = ag_config a" "plain_engine (ag_engine a3)"
    using sh3 ok by (simp_all add: same_shape_def ingest_ok_def)
  have "ingest pkt a = enforce_max_streams a3"
    unfolding ingest_def Let_def a3_def a2_def st_def ..
  with enforce_inv[OF i3] c3 show ?thesis by (simp add: frame_def)
qed

lemma new_inv: "store_inv (aggregator_new H D e cfg)"
proof -
  have g: "get (aggregator_new H D e cfg) h = None" for h
    by (simp add: get_def aggregator_new_def arena_get_def arena_new_def elem_get_def)
  have "abs_forest (aggregator_new H D e cfg) = forest_empty"
    by (rule abs_eqI) (simp add: g forest_empty_def, simp_all add: forest_empty_def aggregator_new_def)
  then show ?thesis
    by (simp add: store_inv_def core_inv_def base_inv_def handles_ok_def condense_inv_def lru_covers_def g forest_empty_ok)
      (simp add: aggregator_new_def arena_new_ok)
qed

end
