(* ===== verification/Finish.thy ===== *)
theory Finish
  imports Store_Inv
begin

text \<open>
  End of capture (\<open>Aggregator::finish\<close>): the depth loop is proved to have enough fuel, the order
  lists every live stream once with children before their parents, and closing the streams in that
  order empties a live store through the sink and marks every stream of an offline one. The reachable
  stores, before and after the end of the capture, keep the invariant.
\<close>

section \<open>The depth of a stream\<close>

text \<open>Streams created before \<open>s\<close>: what bounds the length of its parent chain.\<close>

definition older :: "aggregator \<Rightarrow> stream \<Rightarrow> stream_id set" where
  "older a s = {h. \<exists>t. get a h = Some t \<and> st_created_seq t < st_created_seq s}"

lemma parent_older:
  assumes "base_inv a" "get a h = Some s" "st_parent s = Some p"
  obtains ps where "get a p = Some ps" "st_created_seq ps < st_created_seq s" "h \<in> set (st_children ps)"
  using assms unfolding base_inv_def forest_ok_def parents_ok_def by fastforce

lemma older_less:
  assumes "get a p = Some ps" "st_created_seq ps < st_created_seq s"
  shows "Suc (card (older a ps)) \<le> card (older a s)"
proof -
  have "insert p (older a ps) \<subseteq> older a s" using assms by (auto simp: older_def)
  then have "card (insert p (older a ps)) \<le> card (older a s)" by (intro card_mono finite_handles)
  moreover have "p \<notin> older a ps" using assms(1) by (simp add: older_def)
  ultimately show ?thesis by (simp add: finite_handles)
qed

lemma chain_depth_bounded:
  assumes b: "base_inv a" and s: "get a h = Some s"
  shows "\<exists>d \<le> card (older a s). \<forall>n > d. chain_depth n a (st_parent s) = d"
  using s
proof (induction "unat (st_created_seq s)" arbitrary: h s rule: less_induct)
  case less
  show ?case
  proof (cases "st_parent s")
    case None
    have "chain_depth n a None = 0" for n by (cases n) simp_all
    with None show ?thesis by (intro exI[of _ 0]) simp
  next
    case (Some p)
    from parent_older[OF b less.prems Some] obtain ps where
      ps: "get a p = Some ps" "st_created_seq ps < st_created_seq s" by metis
    with less.hyps[OF _ ps(1)] obtain d where d: "d \<le> card (older a ps)" "\<forall>n > d. chain_depth n a (st_parent ps) = d"
      by (auto simp: word_less_nat_alt)
    have "chain_depth n a (Some p) = Suc d" if "Suc d < n" for n
      using that d(2) ps(1) by (cases n) auto
    with d(1) older_less[OF ps] Some show ?thesis by (intro exI[of _ "Suc d"]) auto
  qed
qed

lemma length_streams_slots: "length (streams a) \<le> length (ar_slots (ag_arena a))"
  by (simp add: streams_def arena_streams_def map_filter_def)

lemma card_live:
  assumes "base_inv a"
  shows "card {h. get a h \<noteq> None} \<le> length (streams a)"
proof -
  from assms have ok: "arena_ok (ag_arena a)" and ids: "handles_ok a" by (simp_all add: base_inv_def)
  have "{h. get a h \<noteq> None} \<subseteq> st_id ` set (streams a)"
    using arena_streams_iff[OF ok] ids by (fastforce simp: get_def streams_def handles_ok_def)
  then have "card {h. get a h \<noteq> None} \<le> card (st_id ` set (streams a))" by (rule card_mono[rotated]) simp
  also have "\<dots> \<le> length (streams a)" by (metis card_image_le card_length finite_set le_trans)
  finally show ?thesis .
qed

text \<open>The fuel is enough: the depth is the length of the parent chain.\<close>

lemma depth_of_root: "st_parent s = None \<Longrightarrow> depth_of a s = 0"
  by (simp add: depth_of_def)

lemma depth_of_child:
  assumes b: "base_inv a" and s: "get a h = Some s" and p: "st_parent s = Some p" and ps: "get a p = Some ps"
  shows "depth_of a s = Suc (depth_of a ps)"
proof -
  let ?n = "length (ar_slots (ag_arena a))"
  from chain_depth_bounded[OF b ps] obtain d where
    d: "d \<le> card (older a ps)" "\<forall>n > d. chain_depth n a (st_parent ps) = d" by blast
  from parent_older[OF b s p] ps have "st_created_seq ps < st_created_seq s" by auto
  from older_less[OF ps this] have "card (older a ps) < card (older a s)" by simp
  also have "\<dots> \<le> card {h. get a h \<noteq> None}" by (intro card_mono finite_handles) (auto simp: older_def)
  also have "\<dots> \<le> ?n" using card_live[OF b] length_streams_slots[of a] by simp
  finally have "d < ?n" using d(1) by simp
  with d(2) have "chain_depth ?n a (st_parent ps) = d" "depth_of a ps = d"
    unfolding depth_of_def by (simp_all del: chain_depth.simps)
  moreover have "depth_of a s = Suc (chain_depth ?n a (st_parent ps))" using p ps by (simp add: depth_of_def)
  ultimately show ?thesis by simp
qed

section \<open>The closing order\<close>

lemma distinct_streams:
  assumes "base_inv a"
  shows "distinct (map st_id (streams a))"
proof -
  from assms have ok: "arena_ok (ag_arena a)" and ids: "handles_ok a" by (simp_all add: base_inv_def)
  let ?sl = "ar_slots (ag_arena a)"
  have id: "st_id s = \<lparr>sid_index = of_nat i, sid_generation = sl_generation (?sl ! i)\<rparr>"
    if "i < length ?sl" "sl_stream (?sl ! i) = Some s" for i s
  proof -
    have u: "unat (of_nat i :: u32) = i" using ok that by (intro unat_of_nat_u32) (simp add: arena_ok_def)
    with that have "get a \<lparr>sid_index = of_nat i, sid_generation = sl_generation (?sl ! i)\<rparr> = Some s"
      by (simp add: get_def arena_get_Some)
    with ids show ?thesis by (simp add: handles_ok_def)
  qed
  define ixs where "ixs = filter (\<lambda>i. sl_stream (?sl ! i) \<noteq> None) [0..<length ?sl]"
  have eq: "map st_id (streams a) = map (\<lambda>i. \<lparr>sid_index = of_nat i, sid_generation = sl_generation (?sl ! i)\<rparr>) ixs"
  proof -
    have "streams a = map (\<lambda>i. the (sl_stream (?sl ! i))) ixs"
      unfolding streams_def arena_streams_def map_filter_def ixs_def
      by (subst map_nth[of ?sl, symmetric]) (simp add: filter_map o_def)
    then show ?thesis by (auto simp: ixs_def id)
  qed
  have "inj_on (\<lambda>i. \<lparr>sid_index = of_nat i :: u32, sid_generation = sl_generation (?sl ! i)\<rparr>) (set ixs)"
  proof (rule inj_onI)
    fix i j assume "i \<in> set ixs" "j \<in> set ixs"
      "\<lparr>sid_index = of_nat i :: u32, sid_generation = sl_generation (?sl ! i)\<rparr> =
       \<lparr>sid_index = of_nat j, sid_generation = sl_generation (?sl ! j)\<rparr>"
    then have ij: "i < 2 ^ 32" "j < 2 ^ 32" "(of_nat i :: u32) = of_nat j"
      using ok by (auto simp: ixs_def arena_ok_def)
    from arg_cong[OF ij(3), of unat] unat_of_nat_u32[OF ij(1)] unat_of_nat_u32[OF ij(2)] show "i = j" by metis
  qed
  then show ?thesis unfolding eq by (simp add: distinct_map ixs_def)
qed

lemma stream_handle:
  "base_inv a \<Longrightarrow> s \<in> set (streams a) \<longleftrightarrow> get a (st_id s) = Some s"
  using arena_streams_iff[of "ag_arena a" s] by (auto simp: base_inv_def handles_ok_def streams_def get_def)

lemma finish_order_live:
  assumes "base_inv a"
  shows "set (finish_order a) = {h. get a h \<noteq> None}" and "distinct (finish_order a)"
proof -
  have "st_id ` set (streams a) = {h. get a h \<noteq> None}"
  proof (intro equalityI subsetI)
    fix h assume "h \<in> st_id ` set (streams a)"
    then show "h \<in> {h. get a h \<noteq> None}" by (auto simp: stream_handle[OF assms])
  next
    fix h assume "h \<in> {h. get a h \<noteq> None}"
    then obtain s where s: "get a h = Some s" by auto
    with assms have "st_id s = h" by (simp add: base_inv_def handles_ok_def)
    with s stream_handle[OF assms, of s] show "h \<in> st_id ` set (streams a)" by auto
  qed
  then show "set (finish_order a) = {h. get a h \<noteq> None}" by (simp add: finish_order_def)
  let ?f = "\<lambda>s. (- int (depth_of a s), st_created_seq s)"
  have "mset (map st_id (sort_key ?f (streams a))) = mset (map st_id (streams a))" by simp
  then show "distinct (finish_order a)"
    unfolding finish_order_def using distinct_streams[OF assms] mset_eq_imp_distinct_iff by metis
qed

text \<open>A child is listed before its parent.\<close>

definition children_first :: "aggregator \<Rightarrow> stream_id list \<Rightarrow> bool" where
  "children_first a hs \<longleftrightarrow> (\<forall>i j s. i < length hs \<longrightarrow> j < length hs \<longrightarrow> get a (hs ! i) = Some s \<longrightarrow>
     st_parent s = Some (hs ! j) \<longrightarrow> i < j)"

lemma finish_order_children_first:
  assumes b: "base_inv a"
  shows "children_first a (finish_order a)"
  unfolding children_first_def
proof (intro allI impI)
  fix i j s
  assume i: "i < length (finish_order a)" and j: "j < length (finish_order a)"
    and s: "get a (finish_order a ! i) = Some s" and p: "st_parent s = Some (finish_order a ! j)"
  let ?f = "\<lambda>s. (- int (depth_of a s), st_created_seq s)"
  let ?ss = "sort_key ?f (streams a)"
  have mem: "get a (finish_order a ! k) = Some (?ss ! k)" if "k < length (finish_order a)" for k
  proof -
    have k: "k < length ?ss" using that by (simp add: finish_order_def)
    from nth_mem[OF k] have "?ss ! k \<in> set (streams a)" by simp
    then have "get a (st_id (?ss ! k)) = Some (?ss ! k)" by (rule stream_handle[OF b, THEN iffD1])
    with k show ?thesis by (simp add: finish_order_def)
  qed
  from mem[OF i] s have si: "?ss ! i = s" by simp
  from depth_of_child[OF b s p mem[OF j]] have d: "depth_of a s = Suc (depth_of a (?ss ! j))" .
  show "i < j"
  proof (rule ccontr)
    assume "\<not> i < j"
    then have "j \<le> i" by simp
    moreover have "sorted (map ?f ?ss)" by simp
    ultimately have "?f (?ss ! j) \<le> ?f (?ss ! i)"
      using i j by (simp add: sorted_iff_nth_mono finish_order_def)
    with d si show False by simp
  qed
qed

section \<open>Closing in order\<close>

lemma evict_parent:
  assumes "base_inv a" "get a h = Some s" "get (evict h r a) j = Some t'"
  shows "\<exists>t. get a j = Some t \<and> j \<noteq> h \<and> st_parent t = st_parent t'"
proof -
  have np: "st_parent s \<noteq> Some h" using base_parent_live[OF assms(1,2)] by blast
  from assms(3) show ?thesis unfolding evict_facts(1)[OF assms(2) np] by (auto split: if_splits)
qed

text \<open>Evicting the handles of such an order one by one: each is a leaf when its turn comes.\<close>

lemma evict_all:
  assumes "store_inv b" and "distinct hs" and "set hs = {h. get b h \<noteq> None}" and "children_first b hs"
    and "cf_eviction (ag_config b) \<noteq> EvictNone"
  shows "store_inv (fold finish_one hs b) \<and> (\<forall>h. get (fold finish_one hs b) h = None) \<and>
    (cf_sink (ag_config b) \<longrightarrow> (\<exists>es. ag_emitted (fold finish_one hs b) = ag_emitted b @ es \<and>
       map (\<lambda>e. st_id (ev_stream e)) es = hs \<and> (\<forall>e \<in> set es. ev_reason e = CaptureEnd)))"
  using assms
proof (induction hs arbitrary: b)
  case Nil
  then show ?case by auto
next
  case (Cons h hs)
  note i = store_invD[OF Cons.prems(1)]
  from Cons.prems(3) obtain s where s: "get b h = Some s" by auto
  have np: "st_parent s \<noteq> Some h" using base_parent_live[OF i(2) s] by blast
  note f = evict_facts[OF s np, of CaptureEnd]
  have leaf: "st_children s = []"
  proof (rule ccontr)
    assume "st_children s \<noteq> []"
    then obtain c where "c \<in> set (st_children s)" by (cases "st_children s") auto
    with i(2) s obtain cs where cs: "get b c = Some cs" "st_parent cs = Some h"
      unfolding base_inv_def forest_ok_def children_ok_def by fastforce
    with Cons.prems(3) obtain k where k: "k < length (h # hs)" "(h # hs) ! k = c"
      by (metis (mono_tags, lifting) in_set_conv_nth mem_Collect_eq option.discI)
    have "k < 0" using Cons.prems(4) k cs unfolding children_first_def by fastforce
    then show False by simp
  qed
  let ?b = "evict h CaptureEnd b"
  have fo: "finish_one h b = ?b" using Cons.prems(5) by (simp add: finish_one_def split: eviction_policy.split)
  from i(4) have "lru_covers {h} b" by (auto simp: lru_covers_def)
  with i(5) s leaf have inv: "store_inv ?b" by (intro evict_store_inv)
  have live: "set hs = {j. get ?b j \<noteq> None}" using Cons.prems(2,3) by (auto simp: f(1))
  have "children_first ?b hs"
    unfolding children_first_def
  proof (intro allI impI)
    fix x y :: nat and t'
    assume x: "x < length hs" and y: "y < length hs" and t': "get ?b (hs ! x) = Some t'" "st_parent t' = Some (hs ! y)"
    from evict_parent[OF i(2) s t'(1)] t'(2) obtain t where "get b (hs ! x) = Some t" "st_parent t = Some (hs ! y)" by auto
    with Cons.prems(4)[unfolded children_first_def, rule_format, of "Suc x" "Suc y" t] x y show "x < y" by simp
  qed
  moreover have "cf_eviction (ag_config ?b) \<noteq> EvictNone" using Cons.prems(5) by (simp add: store_simps)
  ultimately have IH: "store_inv (fold finish_one hs ?b) \<and> (\<forall>h. get (fold finish_one hs ?b) h = None) \<and>
    (cf_sink (ag_config ?b) \<longrightarrow> (\<exists>es. ag_emitted (fold finish_one hs ?b) = ag_emitted ?b @ es \<and>
       map (\<lambda>e. st_id (ev_stream e)) es = hs \<and> (\<forall>e \<in> set es. ev_reason e = CaptureEnd)))"
    using Cons.IH[OF inv _ live] Cons.prems(2) by simp
  have sid: "st_id s = h" using i(2) s by (simp add: base_inv_def handles_ok_def)
  show ?case
  proof (intro conjI impI)
    assume sink: "cf_sink (ag_config b)"
    then have "cf_sink (ag_config ?b)" by (simp add: store_simps)
    with IH obtain es where es: "ag_emitted (fold finish_one hs ?b) = ag_emitted ?b @ es"
      "map (\<lambda>e. st_id (ev_stream e)) es = hs" "\<forall>e \<in> set es. ev_reason e = CaptureEnd" by blast
    with sink sid show "\<exists>es. ag_emitted (fold finish_one (h # hs) b) = ag_emitted b @ es \<and>
       map (\<lambda>e. st_id (ev_stream e)) es = h # hs \<and> (\<forall>e \<in> set es. ev_reason e = CaptureEnd)"
      by (intro exI[of _ "\<lparr>ev_stream = s\<lparr>st_closed := Some CaptureEnd\<rparr>, ev_reason = CaptureEnd\<rparr> # es"]) (simp add: fo f(7))
  qed (use IH fo in simp_all)
qed

text \<open>Offline, closing marks each listed stream and keeps it.\<close>

lemma mark_all:
  assumes "cf_eviction (ag_config b) = EvictNone"
  shows "get (fold finish_one hs b) h =
    (if h \<in> set hs then map_option (\<lambda>s. s\<lparr>st_closed := Some CaptureEnd\<rparr>) (get b h) else get b h)"
  using assms
proof (induction hs arbitrary: b)
  case (Cons j hs)
  have g: "get (finish_one j b) i = (if i = j then map_option (\<lambda>s. s\<lparr>st_closed := Some CaptureEnd\<rparr>) (get b i) else get b i)"
    for i using Cons.prems by (auto simp: finish_one_def store_simps get_get_mut split: option.split)
  have "cf_eviction (ag_config (finish_one j b)) = EvictNone"
    using Cons.prems by (simp add: finish_one_def store_simps split: option.split)
  from Cons.IH[OF this] show ?case by (auto simp: g option.map_comp o_def)
qed simp

section \<open>Reachable stores\<close>

lemma same_shape_emit: "same_shape a (emit s r a)"
  by (simp add: same_shape_def emit_def get_def)

text \<open>Marking a stream closed changes nothing the invariant reads.\<close>

lemma finish_one_offline:
  assumes "cf_eviction (ag_config a) = EvictNone" and "store_inv a"
  shows "store_inv (finish_one h a) \<and> same_shape a (finish_one h a)"
proof (cases "get a h")
  case None
  with assms show ?thesis by (simp add: finish_one_def)
next
  case (Some s)
  let ?m = "get_mut h (\<lambda>s. s\<lparr>st_closed := Some CaptureEnd\<rparr>) a"
  let ?e = "emit (s\<lparr>st_closed := Some CaptureEnd\<rparr>) CaptureEnd ?m"
  have "same_shape a ?m" by (rule same_shape_get_mut) (simp add: sig_def node_of_def)
  then have sh: "same_shape a ?e" by (rule same_shape_trans) (rule same_shape_emit)
  have "ag_condense ?e = ag_condense a" "ag_lru ?e = ag_lru a" by (simp_all add: emit_def get_mut_def)
  with sh assms(2) have "store_inv ?e" by (intro store_inv_cong[of a ?e]) simp_all
  with sh Some assms(1) show ?thesis by (simp add: finish_one_def)
qed

lemma finish_offline_inv:
  "cf_eviction (ag_config a) = EvictNone \<Longrightarrow> store_inv a \<Longrightarrow>
    store_inv (fold finish_one hs a) \<and> same_shape a (fold finish_one hs a)"
proof (induction hs arbitrary: a)
  case (Cons h hs)
  from finish_one_offline[OF Cons.prems, of h] have i: "store_inv (finish_one h a)" and sh: "same_shape a (finish_one h a)"
    by simp_all
  from sh Cons.prems(1) have "cf_eviction (ag_config (finish_one h a)) = EvictNone" by (simp add: same_shape_def)
  from Cons.IH[OF this i] show ?case by (auto intro: same_shape_trans[OF sh])
qed simp

lemma finish_one_frame: "ag_config (finish_one h a) = ag_config a" "ag_engine (finish_one h a) = ag_engine a"
  by (simp_all add: finish_one_def store_simps split: eviction_policy.split option.split)

lemma finish_frame: "ag_config (finish a) = ag_config a" "ag_engine (finish a) = ag_engine a"
proof -
  have "ag_config (fold finish_one hs a) = ag_config a \<and> ag_engine (fold finish_one hs a) = ag_engine a" for hs
    by (induction hs arbitrary: a) (simp_all add: finish_one_frame)
  then show "ag_config (finish a) = ag_config a" "ag_engine (finish a) = ag_engine a" by (simp_all add: finish_def)
qed

lemma finish_inv:
  assumes "store_inv a"
  shows "store_inv (finish a)"
proof (cases "cf_eviction (ag_config a) = EvictNone")
  case True
  with assms show ?thesis by (simp add: finish_def finish_offline_inv)
next
  case False
  note b = store_invD(2)[OF assms]
  note fo = finish_order_live[OF b] finish_order_children_first[OF b]
  from evict_all[OF assms fo(2,1,3) False] show ?thesis by (simp add: finish_def)
qed

text \<open>The aggregators a run of the program can reach: a fresh one, then packets, as long as the
  32-bit slot index and the 64-bit sequence counter have room for the packet's layers, and the end of
  the capture. The last snapshot of every run is taken after \<open>finish\<close>.\<close>

inductive reachable :: "engine \<Rightarrow> aggregator_config \<Rightarrow> aggregator \<Rightarrow> bool" for e cfg where
  reach_new: "reachable e cfg (aggregator_new H D e cfg)"
| reach_ingest: "reachable e cfg a \<Longrightarrow> room (length (dp_layers pkt)) a \<Longrightarrow> reachable e cfg (ingest pkt a)"
| reach_finish: "reachable e cfg a \<Longrightarrow> reachable e cfg (finish a)"

lemma reachable_inv:
  assumes "reachable e cfg a" and "plain_engine e"
  shows "store_inv a \<and> ag_config a = cfg \<and> plain_engine (ag_engine a)"
  using assms
proof (induction rule: reachable.induct)
  case (reach_new H D)
  then show ?case using new_inv by (simp add: aggregator_new_def)
next
  case (reach_ingest a pkt)
  then show ?case using ingest_inv[of a pkt] by simp
next
  case (reach_finish a)
  then show ?case using finish_inv[of a] by (simp add: finish_frame)
qed

end
