(* ===== verification/Store_Props.thy ===== *)
theory Store_Props
  imports Finish
begin

text \<open>
  The properties of the stream aggregator, over every state a run can reach.
\<close>

section \<open>A small run for the examples\<close>

definition pair_engine :: engine where
  "pair_engine = \<lparr>en_plugins = [(default_plugin ''pair'' hop_parse)\<lparr>pg_stream_identity := Some demo_identity\<rparr>],
     en_by_name = [''pair'' \<mapsto> 0], en_routes = Map.empty, en_fallback_pool = []\<rparr>"

definition pair_packet :: "u64 \<Rightarrow> u64 \<Rightarrow> dissected_packet" where
  "pair_packet x y = \<lparr>dp_meta = hop_meta, dp_layers = [\<lparr>lr_protocol = ''pair'', lr_offset = 0, lr_header_len = 4,
     lr_fields = [(''src'', U64 x), (''dst'', U64 y), (''id'', VBool True)]\<rparr>], dp_stop = Complete, dp_opaque_len = 0,
     dp_unknown = None\<rparr>"

definition live_config :: aggregator_config where
  "live_config = default_config\<lparr>cf_eviction := Live 1000 10 1, cf_sink := True\<rparr>"

definition pair_run :: "aggregator_config \<Rightarrow> aggregator" where
  "pair_run cfg = ingest (pair_packet 2 1) (aggregator_new (\<lambda>_. 0) (\<lambda>_. 0) pair_engine cfg)"

lemma pair_engine_plain: "plain_engine pair_engine"
  by (auto simp: plain_engine_def plugin_by_name_def pair_engine_def demo_identity_def intro: endpoint_plain split: if_splits)

lemma pair_run_reachable: "reachable pair_engine cfg (pair_run cfg)"
  unfolding pair_run_def
  by (intro reach_ingest reach_new) (simp add: room_def aggregator_new_def arena_new_def pair_packet_def)

section \<open>Packet counters\<close>

definition counters :: "aggregator \<Rightarrow> u64 \<times> u64 \<times> u64 list" where
  "counters a = (tt_packets (ag_totals a), tt_bytes (ag_totals a), ag_stop_classes a)"

lemma counters_frames:
  "counters (push_expiry t h a) = counters a" "counters (push_lru t seq h a) = counters a"
  "counters (condense_evict s a) = counters a" "counters (unindex h k a) = counters a"
  "counters (emit s r a) = counters a" "counters (rearm_parent p a) = counters a"
  "counters (unlink parent h a) = counters a" "counters (get_mut h f a) = counters a"
  "counters (link_stream parent h a) = counters a" "counters (arm_new h ts seq a) = counters a"
  "counters (tally_anchor parent protocol c a) = counters a"
  "counters (note_member node protocol nm ov a) = counters a"
  by (simp_all add: counters_def push_expiry_def push_lru_def condense_evict_def unindex_def emit_def rearm_parent_def
      unlink_def get_mut_def link_stream_def arm_new_def tally_anchor_def note_member_def Let_def
      split: option.splits eviction_policy.splits)

lemma counters_create: "counters (snd (create_stream_raw parent key kf st rs cond dir protocol ts a)) = counters a"
  by (simp add: create_stream_raw_def Let_def counters_frames) (simp add: counters_def)

lemma counters_evict: "counters (evict h r a) = counters a"
  by (simp add: evict_def Let_def counters_frames split: option.split) (simp add: counters_def)

lemma counters_sweep_loop: "counters (sweep_loop linger a) = counters a"
proof (induction linger a rule: sweep_loop.induct)
  case (1 linger a)
  have pop: "counters (a\<lparr>ag_expiry := es\<rparr>) = counters a" for es by (simp add: counters_def)
  show ?case
    by (subst sweep_loop.simps) (auto simp: Let_def 1 pop counters_frames counters_evict split: option.split prod.split)
qed

lemma counters_enforce_loop: "counters (enforce_loop cap a) = counters a"
proof (induction cap a rule: enforce_loop.induct)
  case (1 cap a)
  have pop: "counters (a\<lparr>ag_lru := es\<rparr>) = counters a" for es by (simp add: counters_def)
  show ?case
    by (subst enforce_loop.simps) (auto simp: Let_def 1 pop counters_frames counters_evict split: option.split prod.split)
qed

lemma counters_node: "counters (snd (create_node parent protocol identity cand ts a)) = counters a"
proof -
  obtain h a1 where c: "create_stream_raw parent (CONDENSED_KEY_SENTINEL # cc_anchor cand)
            (fm_insert (cc_anchor_field cand) (cc_anchor_value cand) fm_new) None (new_rollups identity a)
            (Some \<lparr>ci_member_flows = 0, ci_ephemeral_field = cc_anchor_field cand, ci_overflow = False\<rparr>)
            (cc_fold_dir cand) protocol ts a = (h, a1)" by (rule prod.exhaust)
  then have "counters a1 = counters a" by (metis counters_create snd_conv)
  then show ?thesis by (simp add: create_node_def Let_def c counters_def)
qed

lemma counters_tally: "counters (snd (snd (tally_member k d a))) = counters a"
  by (simp add: tally_member_def counters_def split: option.split)

lemma counters_fold: "condense_fold parent protocol identity cand ts a = Some (r, a') \<Longrightarrow> counters a' = counters a"
  using counters_node[of parent protocol identity cand ts a]
  by (auto simp: condense_fold_def Let_def counters_frames split: option.splits if_splits prod.splits)
    (metis counters_tally snd_conv)+

lemma counters_fold_first: "fold_first parent protocol identity cands ts a = Some (r, a') \<Longrightarrow> counters a' = counters a"
  by (induction cands) (auto split: option.splits dest: counters_fold)

lemma counters_tally_fold: "counters (fold (tally_anchor parent protocol) cands a) = counters a"
  by (induction cands arbitrary: a) (simp_all add: counters_frames)

lemma counters_get_or_insert:
  "counters (snd (get_or_insert parent key identity condense layer dir ts a)) = counters a"
  using counters_create
  by (auto simp: get_or_insert_def create_stream_def Let_def counters_tally_fold split_beta
      split: option.split dest: counters_fold_first)

lemma counters_attribute: "counters (snd (attribute_layer identity condense meta layer key dir parent a)) = counters a"
proof -
  obtain h d a1 where g: "get_or_insert parent key identity condense layer dir (timestamp meta) a = ((h, d), a1)"
    by (metis prod.exhaust)
  then have "counters a1 = counters a" by (metis counters_get_or_insert snd_conv)
  moreover have "counters (b\<lparr>ag_live_bytes_pp := l\<rparr>) = counters b" for b l by (simp add: counters_def)
  ultimately show ?thesis
    by (auto simp: attribute_layer_def Let_def g counters_frames split: option.split prod.split eviction_policy.split)
qed

lemma counters_ingest_layer: "counters (is_agg (ingest_layer meta layer st)) = counters (is_agg st)"
proof -
  have "counters (a\<lparr>ag_totals := (ag_totals a)\<lparr>tt_key_errors := k\<rparr>\<rparr>) = counters a" for a k by (simp add: counters_def)
  then show ?thesis
    by (simp add: ingest_layer_def Let_def split_beta counters_attribute split: option.split sum.split)
qed

lemma counters_ingest: "counters (ingest pkt a) = counters (count_packet pkt a)"
proof -
  have l: "counters (is_agg (fold (ingest_layer meta) ls st)) = counters (is_agg st)" for meta ls st
    by (induction ls arbitrary: st) (simp_all add: counters_ingest_layer)
  have u: "counters (b\<lparr>ag_unknowns := x\<rparr>) = counters b" "counters (b\<lparr>ag_lru := y\<rparr>) = counters b" for b x y
    by (simp_all add: counters_def)
  have "counters (enforce_max_streams b) = counters b" for b
    by (simp add: enforce_max_streams_def counters_enforce_loop split: eviction_policy.split)
  moreover have "counters (compact_lru (sweep b)) = counters b" for b
    by (simp add: compact_lru_def u sweep_def counters_sweep_loop split: eviction_policy.split)
  ultimately show ?thesis
    by (simp add: ingest_def Let_def u counters_frames l split: option.split)
qed

definition class_count :: "stop_class \<Rightarrow> dissected_packet list \<Rightarrow> nat" where
  "class_count c pkts = length (filter (\<lambda>p. stop_class_of (dp_stop p) = c) pkts)"

lemma counters_run:
  "counters (fold ingest pkts (aggregator_new H D e cfg)) =
    (of_nat (length pkts), of_nat (sum_list (map (\<lambda>p. origlen (dp_meta p)) pkts)),
     map (\<lambda>c. of_nat (class_count c pkts)) STOP_CLASSES)"
proof (induction pkts rule: rev_induct)
  case Nil
  then show ?case by (simp add: counters_def aggregator_new_def STOP_CLASSES_def class_count_def)
next
  case (snoc p pkts)
  let ?a = "fold ingest pkts (aggregator_new H D e cfg)"
  from snoc have tt: "tt_packets (ag_totals ?a) = of_nat (length pkts)"
    "tt_bytes (ag_totals ?a) = of_nat (sum_list (map (\<lambda>p. origlen (dp_meta p)) pkts))"
    "ag_stop_classes ?a = map (\<lambda>c. of_nat (class_count c pkts)) STOP_CLASSES" by (simp_all add: counters_def)
  have "counters (ingest p ?a) = counters (count_packet p ?a)" by (rule counters_ingest)
  also have "\<dots> = (of_nat (length (pkts @ [p])), of_nat (sum_list (map (\<lambda>p. origlen (dp_meta p)) (pkts @ [p]))),
     map (\<lambda>c. of_nat (class_count c (pkts @ [p]))) STOP_CLASSES)"
    by (cases "stop_class_of (dp_stop p)")
      (simp_all add: counters_def count_packet_def Let_def tt STOP_CLASSES_def class_count_def algebra_simps)
  finally show ?case by simp
qed

section \<open>Properties\<close>

text \<open>C2. One stream per conversation: in every reachable store, before and after the end of the capture, no two
  live handles share parent, protocol and key, whatever the hash function. The engine is one whose keys
  never begin with the mark of a condensed node, as the default one's.\<close>

theorem reachable_streams_unique:
  assumes "reachable e cfg a" and "plain_engine e"
  shows "\<forall>h s h' s'. get a h = Some s \<and> get a h' = Some s' \<and> st_parent s = st_parent s' \<and>
    st_protocol s = st_protocol s' \<and> st_key s = st_key s' \<longrightarrow> h = h'"
  using base_unique store_invD(2) reachable_inv[OF assms] by blast

theorem reachable_streams_unique_witness:
  "\<nexists>h s h' s'. get (pair_run default_config) h = Some s \<and> get (pair_run default_config) h' = Some s' \<and>
    st_parent s = st_parent s' \<and> st_protocol s = st_protocol s' \<and> st_key s = st_key s' \<and> h \<noteq> h'"
  using reachable_streams_unique[OF pair_run_reachable pair_engine_plain] by blast

text \<open>C4. Bounded memory: under the live policy, after every ingested packet at most
  \<open>max_streams\<close> streams are live. The engine is one whose keys
  never begin with the mark of a condensed node, as the default one's.\<close>

theorem ingest_bounds_streams:
  assumes "reachable e cfg a" and "plain_engine e" and "room (length (dp_layers pkt)) a"
    and "cf_eviction cfg = Live idle linger cap"
  shows "len (ingest pkt a) \<le> cap"
proof -
  note r = reachable_inv[OF assms(1,2)]
  from ingest_inv[of a pkt] r assms(3,4) have "store_inv (ingest pkt a)" "live_count (ingest pkt a) \<le> cap" by simp_all
  moreover from this(1) have "live_count (ingest pkt a) = len (ingest pkt a)"
    using store_invD(1) by (simp add: live_count_def len_def streams_def arena_ok_def)
  ultimately show ?thesis by simp
qed

lemma room_enough: "length (ar_slots (ag_arena a)) < 1000 \<Longrightarrow> unat (ag_next_seq a) < 1000 \<Longrightarrow> n < 1000 \<Longrightarrow> room n a"
  by (simp add: room_def)

theorem ingest_bounds_streams_witness:
  "len (ingest (pair_packet 2 1) (aggregator_new (\<lambda>_. 0) (\<lambda>_. 0) pair_engine live_config)) \<le> 1"
proof -
  have rm: "room (length (dp_layers (pair_packet 2 1))) (aggregator_new (\<lambda>_. 0) (\<lambda>_. 0) pair_engine live_config)"
    by (rule room_enough) (simp_all add: aggregator_new_def arena_new_def pair_packet_def)
  have "cf_eviction live_config = Live 1000 10 1" by (simp add: live_config_def)
  from ingest_bounds_streams[OF reach_new pair_engine_plain rm this] show ?thesis .
qed

text \<open>C3. The live streams of a reachable store, before and after the end of the capture, form a forest: every stream's parent is live, was
  created before it and lists it among its children; every listed child is live under its parent; the
  roots are exactly the streams without a parent; children and roots are in creation order; the index
  holds each live stream exactly under its own key. The engine is one whose keys
  never begin with the mark of a condensed node, as the default one's.\<close>

theorem reachable_forest:
  assumes "reachable e cfg a" and "plain_engine e"
  shows "forest_ok (ag_key_hash a) (abs_forest a)"
  using store_invD(2) reachable_inv[OF assms] by (simp add: base_inv_def)

theorem reachable_forest_witness: "forest_ok (ag_key_hash (pair_run live_config)) (abs_forest (pair_run live_config))"
  by (rule reachable_forest[OF pair_run_reachable pair_engine_plain])

text \<open>C12. Lookup is exact under hash collisions: in a reachable store \<open>find_stream\<close> returns a handle
  exactly when it is live with that parent, protocol and key. The engine is one whose keys
  never begin with the mark of a condensed node, as the default one's.\<close>

theorem find_stream_exact:
  assumes "reachable e cfg a" and "plain_engine e"
  shows "find_stream parent protocol key a = Some h \<longleftrightarrow>
    (\<exists>s. get a h = Some s \<and> st_parent s = parent \<and> st_protocol s = protocol \<and> st_key s = key)"
proof -
  have b: "base_inv a" using store_invD(2) reachable_inv[OF assms] by blast
  show ?thesis
  proof (cases "find_stream parent protocol key a")
    case None
    with find_stream_None[OF b None] show ?thesis by (auto simp: key_new_def)
  next
    case (Some h')
    with find_stream_Some[OF b Some] base_unique[OF b] show ?thesis by auto
  qed
qed

theorem find_stream_exact_witness:
  "\<forall>h. find_stream None ''pair'' [] (pair_run live_config) = Some h \<longleftrightarrow>
    (\<exists>s. get (pair_run live_config) h = Some s \<and> st_parent s = None \<and> st_protocol s = ''pair'' \<and> st_key s = [])"
  by (intro allI find_stream_exact[OF pair_run_reachable pair_engine_plain])

text \<open>Counters survive eviction: after any sequence of packets, whatever was evicted, the packet
  and byte totals and the per-class counts are those of the packets ingested (modulo \<open>2^64\<close>).\<close>

theorem totals_count_packets:
  "tt_packets (ag_totals (fold ingest pkts (aggregator_new H D e cfg))) = of_nat (length pkts) \<and>
   tt_bytes (ag_totals (fold ingest pkts (aggregator_new H D e cfg))) =
     of_nat (sum_list (map (\<lambda>p. origlen (dp_meta p)) pkts)) \<and>
   sm_stop_classes (summary (fold ingest pkts (aggregator_new H D e cfg))) =
     map (\<lambda>c. (c, of_nat (class_count c pkts))) STOP_CLASSES"
  using counters_run[of pkts H D e cfg] by (simp add: counters_def summary_def STOP_CLASSES_def)

text \<open>C9. End of a live capture: \<open>finish\<close> leaves no live stream, and the sink receives each stream
  that was live exactly once, closed with \<open>CaptureEnd\<close>, children before their parents. The engine is one whose keys
  never begin with the mark of a condensed node, as the default one's.\<close>

theorem finish_live:
  assumes "reachable e cfg a" and "plain_engine e" and "cf_eviction cfg = Live idle linger cap" and "cf_sink cfg"
  shows "is_empty (finish a) \<and> (\<exists>es. ag_emitted (finish a) = ag_emitted a @ es \<and>
    (\<forall>x \<in> set es. ev_reason x = CaptureEnd) \<and> distinct (map (\<lambda>x. st_id (ev_stream x)) es) \<and>
    (\<forall>h. h \<in> set (map (\<lambda>x. st_id (ev_stream x)) es) \<longleftrightarrow> get a h \<noteq> None) \<and>
    children_first a (map (\<lambda>x. st_id (ev_stream x)) es))"
proof -
  from reachable_inv[OF assms(1,2)] have inv: "store_inv a" and cfg: "ag_config a = cfg" by simp_all
  note b = store_invD(2)[OF inv]
  note o = finish_order_live[OF b] finish_order_children_first[OF b]
  from evict_all[OF inv o(2,1,3)] cfg assms(3,4) obtain es where
    es: "ag_emitted (finish a) = ag_emitted a @ es" "map (\<lambda>x. st_id (ev_stream x)) es = finish_order a"
      "\<forall>x \<in> set es. ev_reason x = CaptureEnd"
    and none: "\<forall>h. get (finish a) h = None" and inv': "store_inv (finish a)" by (auto simp: finish_def)
  have "is_empty (finish a)"
    using stream_handle[OF store_invD(2)[OF inv']] none by (cases "streams (finish a)") (auto simp: is_empty_def)
  moreover have "\<forall>h. h \<in> set (finish_order a) \<longleftrightarrow> get a h \<noteq> None" using o(1) by auto
  ultimately show ?thesis using es(1,3) o(2,3) unfolding es(2)[symmetric] by blast
qed

theorem finish_live_witness:
  "is_empty (finish (pair_run live_config)) \<and> (\<exists>es. ag_emitted (finish (pair_run live_config)) =
      ag_emitted (pair_run live_config) @ es \<and>
    set (map ev_reason es) \<subseteq> {CaptureEnd} \<and> distinct (map (\<lambda>x. st_id (ev_stream x)) es) \<and>
    set (map (\<lambda>x. st_id (ev_stream x)) es) = {h. get (pair_run live_config) h \<noteq> None})"
proof -
  have "cf_eviction live_config = Live 1000 10 1" "cf_sink live_config" by (simp_all add: live_config_def)
  from finish_live[OF pair_run_reachable pair_engine_plain this] show ?thesis by fastforce
qed

text \<open>End of an offline capture: every live stream stays in the store under its handle, marked
  closed with \<open>CaptureEnd\<close> and otherwise unchanged.\<close>

theorem finish_offline:
  assumes "reachable e cfg a" and "plain_engine e" and "cf_eviction cfg = EvictNone"
  shows "get (finish a) h = map_option (\<lambda>s. s\<lparr>st_closed := Some CaptureEnd\<rparr>) (get a h)"
proof -
  from reachable_inv[OF assms(1,2)] have inv: "store_inv a" and cfg: "ag_config a = cfg" by simp_all
  from finish_order_live(1)[OF store_invD(2)[OF inv]] mark_all[of a "finish_order a" h] cfg assms(3)
  show ?thesis by (auto simp: finish_def)
qed

theorem finish_offline_witness:
  "\<forall>h. get (finish (pair_run default_config)) h =
    map_option (\<lambda>s. s\<lparr>st_closed := Some CaptureEnd\<rparr>) (get (pair_run default_config) h)"
  by (intro allI finish_offline[OF pair_run_reachable pair_engine_plain]) (simp add: default_config_def)

end
