(* ===== verification/Query_Match.thy ===== *)
theory Query_Match
  imports Query_Grammar Store_Props
begin

text \<open>
  The snapshot of a reachable store as the views see it, and what filtering it by a query keeps. The
  identifier map agrees with the store, parents are in it and older than their children, so the walks
  of \<open>Stream_View\<close> are never cut short; and although the marking loop of \<open>matching_with_ancestors\<close>
  stops at the first stream already marked, the set it returns holds every ancestor of every match.
\<close>

section \<open>Snapshots of reachable stores\<close>

lemma by_id_wf: "hm_wf (by_id snap)"
proof -
  have "hm_wf m \<Longrightarrow> hm_wf (fold (\<lambda>s. hm_set (st_id s) s) ss m)" for ss :: "stream list" and m by (induction ss arbitrary: m) auto
  then show ?thesis by (simp add: by_id_def)
qed

lemma by_id_get:
  assumes "inj_on st_id (set (sn_streams snap))"
  shows "hm_get (by_id snap) h = Some s \<longleftrightarrow> s \<in> set (sn_streams snap) \<and> st_id s = h"
proof -
  have "inj_on st_id (set ss \<union> set us) \<Longrightarrow> (\<And>h s. hm_get m h = Some s \<longleftrightarrow> s \<in> set us \<and> st_id s = h) \<Longrightarrow>
    hm_get (fold (\<lambda>s. hm_set (st_id s) s) ss m) h = Some s \<longleftrightarrow> s \<in> set ss \<union> set us \<and> st_id s = h" for ss us m
  proof (induction ss arbitrary: m us)
    case (Cons x ss)
    have "hm_get (fold (\<lambda>s. hm_set (st_id s) s) ss (hm_set (st_id x) x m)) h = Some s \<longleftrightarrow> s \<in> set ss \<union> set (x # us) \<and> st_id s = h"
      using Cons.prems by (intro Cons.IH) (auto simp: inj_on_def)
    then show ?case by auto
  qed simp
  from this[of "sn_streams snap" "[]" "[]"] assms show ?thesis by (simp add: by_id_def)
qed

lemma snapshot_streams: "base_inv a \<Longrightarrow> s \<in> set (sn_streams (snapshot a)) \<longleftrightarrow> get a (st_id s) = Some s"
  by (simp add: snapshot_def stream_handle)

lemma snapshot_ids:
  assumes "base_inv a"
  shows "hm_get (by_id (snapshot a)) h = get a h"
proof -
  have "inj_on st_id (set (sn_streams (snapshot a)))"
    by (rule inj_onI) (metis snapshot_streams[OF assms] option.inject)
  from by_id_get[OF this] snapshot_streams[OF assms] have "hm_get (by_id (snapshot a)) h = Some s \<longleftrightarrow> get a h = Some s" for s
    using assms by (auto simp: base_inv_def handles_ok_def)
  then show ?thesis by (metis not_None_eq)
qed

text \<open>A map in which, besides, creation numbers are distinct.\<close>

definition seqs_distinct :: "id_map \<Rightarrow> bool" where
  "seqs_distinct ids \<longleftrightarrow> (\<forall>h s h' s'. hm_get ids h = Some s \<longrightarrow> hm_get ids h' = Some s' \<longrightarrow>
     st_created_seq s = st_created_seq s' \<longrightarrow> s = s')"

lemma snapshot_ids_ok:
  assumes "base_inv a"
  shows "ids_ok (by_id (snapshot a))" "seqs_distinct (by_id (snapshot a))"
proof -
  have f: "parents_ok (abs_forest a)" "seqs_ok (abs_forest a)" and h: "handles_ok a"
    using assms by (auto simp: base_inv_def forest_ok_def)
  show "ids_ok (by_id (snapshot a))"
    unfolding ids_ok_def snapshot_ids[OF assms]
  proof (intro conjI allI impI by_id_wf)
    show "st_id s = j" if "get a j = Some s" for j s using h that by (simp add: handles_ok_def)
    show "st_created_seq ps < st_created_seq s" if "get a j = Some s" "st_parent s = Some p" "get a p = Some ps" for j s p ps
      using f(1) that by (fastforce simp: parents_ok_def abs_forest_def)
  qed
  show "seqs_distinct (by_id (snapshot a))"
    unfolding seqs_distinct_def snapshot_ids[OF assms]
    using f(2) by (fastforce simp: seqs_ok_def abs_forest_def)
qed

section \<open>The marking loop\<close>

definition seqs :: "stream list \<Rightarrow> u64 set" where
  "seqs ss = st_created_seq ` set ss"

definition closed_up :: "id_map \<Rightarrow> u64 set \<Rightarrow> bool" where
  "closed_up ids K \<longleftrightarrow> (\<forall>h s. hm_get ids h = Some s \<longrightarrow> st_created_seq s \<in> K \<longrightarrow> seqs (ancestors ids s) \<subseteq> K)"

abbreviation up :: "id_map \<Rightarrow> stream_id option \<Rightarrow> stream list" where
  "up ids c \<equiv> chain (length ids) ids c"

lemma up_unfold:
  assumes "ids_ok ids"
  shows "up ids c = (case Option.bind c (hm_get ids) of None \<Rightarrow> [] | Some s \<Rightarrow> s # ancestors ids s)"
proof -
  have "up ids c = chain (Suc (length ids)) ids c" using chain_complete[OF assms, of "Suc (length ids)"] by simp
  then show ?thesis by (cases c) (auto simp: ancestors_def split: option.split)
qed

lemma mark_up_eq:
  assumes ok: "ids_ok ids" and K: "closed_up ids K"
  shows "keep = K \<union> E \<Longrightarrow> (\<And>x t. x \<in> E \<Longrightarrow> t \<in> set (up ids c) \<Longrightarrow> st_created_seq t < x) \<Longrightarrow>
    mark_up ids c keep = keep \<union> seqs (up ids c)"
  using assms
proof (induction ids c keep arbitrary: E rule: mark_up.induct)
  case (1 ids c keep)
  show ?case
  proof (cases "Option.bind c (hm_get ids)")
    case None
    then show ?thesis by (cases c) (simp_all add: up_unfold[OF 1(4)] seqs_def mark_up.simps[of ids])
  next
    case (Some s)
    then obtain p where p: "c = Some p" "hm_get ids p = Some s" by (cases c) auto
    have u: "up ids c = s # up ids (st_parent s)" using Some by (simp add: up_unfold[OF 1(4)] ancestors_def)
    show ?thesis
    proof (cases "st_created_seq s \<in> keep")
      case True
      have "st_created_seq s \<notin> E" using 1(3)[of _ s] u by auto
      then have "seqs (ancestors ids s) \<subseteq> K" using True 1(2,5) p(2) unfolding closed_up_def by blast
      moreover have "mark_up ids c keep = keep" using True p by (simp add: mark_up.simps[of ids "Some p"])
      ultimately show ?thesis using True 1(2) unfolding u by (auto simp: seqs_def ancestors_def)
    next
      case False
      have lt: "st_created_seq t < x" if "x \<in> insert (st_created_seq s) E" "t \<in> set (up ids (st_parent s))" for x t
        using that 1(3)[of x t] u chain_below[OF 1(4) p(2), of t] by auto
      have "mark_up ids (st_parent s) (insert (st_created_seq s) keep) =
        insert (st_created_seq s) keep \<union> seqs (up ids (st_parent s))"
        by (rule 1(1)[OF p False, of "insert (st_created_seq s) E"]) (use 1(2,4,5) lt in auto)
      moreover have "mark_up ids c keep = mark_up ids (st_parent s) (insert (st_created_seq s) keep)"
        using False p by (simp add: mark_up.simps[of ids "Some p"])
      ultimately show ?thesis unfolding u by (auto simp: seqs_def)
    qed
  qed
qed

lemma ancestors_trans:
  assumes "ids_ok ids" "t \<in> set (up ids c)"
  shows "set (ancestors ids t) \<subseteq> set (up ids c)"
proof -
  have "t \<in> set (chain n ids c) \<Longrightarrow> set (ancestors ids t) \<subseteq> set (up ids c)" for n
  proof (induction n arbitrary: c)
    case (Suc n)
    then obtain p s where s: "c = Some p" "hm_get ids p = Some s" "t = s \<or> t \<in> set (chain n ids (st_parent s))"
      unfolding chain_Suc_mem by blast
    have "up ids c = s # ancestors ids s" using s(1,2) by (simp add: up_unfold[OF assms(1)])
    then show ?case using s(3) Suc.IH[of "st_parent s"] by (auto simp: ancestors_def)
  qed simp
  with assms(2) show ?thesis by blast
qed

text \<open>Marking a stream and its ancestors keeps the marked set closed.\<close>

lemma closed_up_mark:
  assumes "ids_ok ids" "seqs_distinct ids" "closed_up ids K" "hm_get ids h = Some s"
  shows "closed_up ids (K \<union> seqs (s # ancestors ids s))"
  unfolding closed_up_def
proof (intro allI impI)
  fix j t assume t: "hm_get ids j = Some t" "st_created_seq t \<in> K \<union> seqs (s # ancestors ids s)"
  consider "st_created_seq t \<in> K" | u i where "u \<in> set (s # ancestors ids s)" "st_created_seq t = st_created_seq u" "hm_get ids i = Some u"
    using t(2) assms(4) chain_members[of _ "length ids" ids "st_parent s"] by (fastforce simp: seqs_def ancestors_def)
  then show "seqs (ancestors ids t) \<subseteq> K \<union> seqs (s # ancestors ids s)"
  proof cases
    case 1
    with assms(3) t(1) show ?thesis by (auto simp: closed_up_def)
  next
    case 2
    with t(1) assms(2) have "t = u" unfolding seqs_distinct_def by blast
    with 2(1) show ?thesis using ancestors_trans[OF assms(1), of t "st_parent s"] by (auto simp: seqs_def ancestors_def)
  qed
qed

lemma mark_stream:
  assumes "ids_ok ids" "closed_up ids K" "hm_get ids h = Some s"
  shows "mark_up ids (st_parent s) (insert (st_created_seq s) K) = K \<union> seqs (s # ancestors ids s)"
  using mark_up_eq[OF assms(1,2), of "insert (st_created_seq s) K" "{st_created_seq s}" "st_parent s"]
    chain_below[OF assms(1,3)] by (auto simp: seqs_def ancestors_def)

lemma matching_fold:
  assumes "ids_ok ids" "seqs_distinct ids" "closed_up ids K" "\<And>s. s \<in> set ss \<Longrightarrow> hm_get ids (st_id s) = Some s"
  shows "fold (\<lambda>s keep. if eval ve env q s ids then mark_up ids (st_parent s) (insert (st_created_seq s) keep) else keep) ss K =
    K \<union> (\<Union>s \<in> {s \<in> set ss. eval ve env q s ids}. seqs (s # ancestors ids s))"
  using assms(3,4)
proof (induction ss arbitrary: K)
  case (Cons s ss)
  have s: "hm_get ids (st_id s) = Some s" using Cons.prems(2) by simp
  show ?case
  proof (cases "eval ve env q s ids")
    case True
    have "closed_up ids (K \<union> seqs (s # ancestors ids s))" by (rule closed_up_mark[OF assms(1,2) Cons.prems(1) s])
    from Cons.IH[OF this] Cons.prems(2) True show ?thesis by (auto simp: mark_stream[OF assms(1) Cons.prems(1) s])
  next
    case False
    then have e: "{t \<in> set (s # ss). eval ve env q t ids} = {t \<in> set ss. eval ve env q t ids}" by auto
    show ?thesis unfolding e using Cons.IH[OF Cons.prems(1)] Cons.prems(2) False by simp
  qed
qed simp

lemma matching_set:
  assumes "reachable e cfg a" and "plain_engine e"
  shows "matching_with_ancestors ve env (sn_streams (snapshot a)) (by_id (snapshot a)) q =
    {x. \<exists>s t. s \<in> set (sn_streams (snapshot a)) \<and> eval ve env q s (by_id (snapshot a)) \<and>
      t \<in> set (s # ancestors (by_id (snapshot a)) s) \<and> x = st_created_seq t}"
proof -
  have b: "base_inv a" using store_invD(2) reachable_inv[OF assms] by blast
  have "closed_up (by_id (snapshot a)) {}" by (simp add: closed_up_def)
  note fold = matching_fold[OF snapshot_ids_ok[OF b] this, of "sn_streams (snapshot a)"]
  have "matching_with_ancestors ve env (sn_streams (snapshot a)) (by_id (snapshot a)) q =
    {} \<union> (\<Union>s \<in> {s \<in> set (sn_streams (snapshot a)). eval ve env q s (by_id (snapshot a))}. seqs (s # ancestors (by_id (snapshot a)) s))"
    unfolding matching_with_ancestors_def by (rule fold) (simp add: snapshot_streams[OF b] snapshot_ids[OF b])
  then show ?thesis by (auto simp: seqs_def)
qed

text \<open>What a filtered view shows: on the snapshot of a reachable store, the set returned for a
  query holds exactly the creation numbers of the matching streams and of all their ancestors.\<close>

theorem matching_with_ancestors_exact:
  assumes "reachable e cfg a" and "plain_engine e"
  shows "matching_with_ancestors ve env (sn_streams (snapshot a)) (by_id (snapshot a)) q =
    {x. \<exists>s t. s \<in> set (sn_streams (snapshot a)) \<and> eval ve env q s (by_id (snapshot a)) \<and>
      t \<in> set (s # ancestors (by_id (snapshot a)) s) \<and> x = st_created_seq t}"
  by (rule matching_set[OF assms])

definition plain_view :: view_env where
  "plain_view = \<lparr>ve_resolver = None, ve_upper = id, ve_lower = to_ascii_lowercase\<rparr>"

theorem matching_with_ancestors_exact_witness:
  "matching_with_ancestors plain_view no_regex
      (sn_streams (snapshot (pair_run live_config))) (by_id (snapshot (pair_run live_config))) (EFlag FLive) =
    {x. \<exists>s t. s \<in> set (sn_streams (snapshot (pair_run live_config))) \<and>
      eval plain_view no_regex (EFlag FLive) s (by_id (snapshot (pair_run live_config))) \<and>
      t \<in> set (s # ancestors (by_id (snapshot (pair_run live_config))) s) \<and> x = st_created_seq t}"
  by (rule matching_with_ancestors_exact[OF pair_run_reachable pair_engine_plain])

end
