(* ===== verification/View_Index.thy ===== *)
theory View_Index
  imports Query_Match
begin

text \<open>
  \<open>pktflow-view/src/index.rs\<close>: the per-snapshot index behind every view. A \<open>OnceLock\<close> is an optional
  value filled by the first operation that needs it and the query memo is one optional slot; each
  operation returns its answer with the index it leaves. The invariant \<open>cache_ok\<close> says that what is
  cached is what the snapshot determines, so an answer never depends on which questions came before.
  Queries go through \<open>stream_query_parse\<close>, whose panic is the failure \<open>Panic\<close> of an operation.
\<close>

datatype sort_key = SortBytes | SortPackets | FirstSeen | SortDuration

definition sort_key_parse :: "string \<Rightarrow> sort_key option" where
  "sort_key_parse name =
    (if name = ''bytes'' then Some SortBytes
     else if name = ''packets'' then Some SortPackets
     else if name = ''first'' \<or> name = ''first-seen'' \<or> name = ''first_seen'' then Some FirstSeen
     else if name = ''duration'' then Some SortDuration
     else None)"

fun sort_slot :: "sort_key \<Rightarrow> nat" where
  "sort_slot SortBytes = 0"
| "sort_slot SortPackets = 1"
| "sort_slot FirstSeen = 2"
| "sort_slot SortDuration = 3"

datatype scope = Roots | ChildrenOf u64 | Flat

record window_spec =
  ws_scope :: scope
  ws_query :: "string option"
  ws_sort :: sort_key
  ws_descending :: bool
  ws_offset :: nat
  ws_limit :: nat

record window_result =
  wr_total :: nat
  wr_match_total :: "nat option"
  wr_rows :: "stream list"

record timeline_spec =
  ts_bins :: nat
  ts_lanes :: nat
  ts_query :: "string option"

record timeline_lane =
  tl_seq :: "u64 option"
  tl_active :: "u32 list"

record timeline_bins =
  tb_start :: system_time
  tb_end :: system_time
  tb_lanes :: "timeline_lane list"

type_synonym seq_sets = "u64 set \<times> u64 set"

record query_cache =
  qc_raw :: string
  qc_sets :: "seq_sets option"

record snapshot_index =
  si_snap :: aggregator_snapshot
  si_by_id :: "(stream_id, u32) hmap option"
  si_by_seq :: "(u64, u32) hmap option"
  si_orders :: "u32 list option list"
  si_query :: "query_cache option"

definition snapshot_index_new :: "aggregator_snapshot \<Rightarrow> snapshot_index" where
  "snapshot_index_new snap = \<lparr>si_snap = snap, si_by_id = None, si_by_seq = None, si_orders = replicate 4 None, si_query = None\<rparr>"

section \<open>Lookup\<close>

definition get_or_init :: "'a option \<Rightarrow> 'a \<Rightarrow> 'a" where
  "get_or_init cell v = (case cell of Some x \<Rightarrow> x | None \<Rightarrow> v)"

text \<open>Collecting the pairs of a key and the position of its stream into a map: the last one wins.\<close>

definition collect_positions :: "(stream \<Rightarrow> 'k) \<Rightarrow> stream list \<Rightarrow> ('k, u32) hmap" where
  "collect_positions f ss = fold (\<lambda>(i, s). hm_set (f s) (of_nat i)) (enumerate 0 ss) []"

definition positions_by_id :: "snapshot_index \<Rightarrow> (stream_id, u32) hmap \<times> snapshot_index" where
  "positions_by_id idx =
    (let m = get_or_init (si_by_id idx) (collect_positions st_id (sn_streams (si_snap idx))) in (m, idx\<lparr>si_by_id := Some m\<rparr>))"

definition positions_by_seq :: "snapshot_index \<Rightarrow> (u64, u32) hmap \<times> snapshot_index" where
  "positions_by_seq idx =
    (let m = get_or_init (si_by_seq idx) (collect_positions st_created_seq (sn_streams (si_snap idx))) in (m, idx\<lparr>si_by_seq := Some m\<rparr>))"

definition index_by_id :: "stream_id \<Rightarrow> snapshot_index \<Rightarrow> stream option \<times> snapshot_index" where
  "index_by_id h idx =
    (case positions_by_id idx of (m, idx') \<Rightarrow>
      (Option.bind (hm_get m h) (\<lambda>pos. elem_get (sn_streams (si_snap idx)) (unat pos)), idx'))"

definition index_by_seq :: "u64 \<Rightarrow> snapshot_index \<Rightarrow> stream option \<times> snapshot_index" where
  "index_by_seq seq idx =
    (case positions_by_seq idx of (m, idx') \<Rightarrow>
      (Option.bind (hm_get m seq) (\<lambda>pos. elem_get (sn_streams (si_snap idx)) (unat pos)), idx'))"

definition index_id_map :: "snapshot_index \<Rightarrow> id_map \<times> snapshot_index" where
  "index_id_map idx =
    (case positions_by_id idx of (m, idx') \<Rightarrow> (map (\<lambda>(h, pos). (h, sn_streams (si_snap idx) ! unat pos)) m, idx'))"

section \<open>Orders\<close>

definition sort_value :: "sort_key \<Rightarrow> stream \<Rightarrow> nat" where
  "sort_value key s =
    (case key of
       SortBytes \<Rightarrow> unat (total_bytes s)
     | SortPackets \<Rightarrow> unat (total_packets s)
     | FirstSeen \<Rightarrow> 2 ^ 128 - 1 - nat (st_first_seen s)
     | SortDuration \<Rightarrow> nat (st_last_seen s - st_first_seen s))"

text \<open>\<open>(Reverse(value), created_seq)\<close>.\<close>

definition row_key :: "sort_key \<Rightarrow> stream \<Rightarrow> int \<times> u64" where
  "row_key key s = (- int (sort_value key s), st_created_seq s)"

definition order_rows :: "sort_key \<Rightarrow> stream list \<Rightarrow> u32 list" where
  "order_rows key ss = List.sort_key (\<lambda>pos. row_key key (ss ! unat pos)) (map of_nat [0..<length ss mod 2 ^ 32])"

definition order :: "sort_key \<Rightarrow> snapshot_index \<Rightarrow> u32 list \<times> snapshot_index" where
  "order key idx =
    (let o' = get_or_init (si_orders idx ! sort_slot key) (order_rows key (sn_streams (si_snap idx)))
     in (o', idx\<lparr>si_orders := (si_orders idx)[sort_slot key := Some o']\<rparr>))"

section \<open>Queries\<close>

text \<open>\<open>trim().is_empty()\<close> on the UTF-8 bytes: every character is white space.\<close>

fun all_blank :: "nat list \<Rightarrow> bool" where
  "all_blank [] = True"
| "all_blank (a # s) =
    (if a \<in> {9, 10, 11, 12, 13, 32} then all_blank s
     else case s of
       b # s' \<Rightarrow>
        if a = 0xC2 \<and> (b = 0x85 \<or> b = 0xA0) then all_blank s'
        else (case s' of
          c # s'' \<Rightarrow>
           if a = 0xE1 \<and> b = 0x9A \<and> c = 0x80 \<or> a = 0xE2 \<and> b = 0x80 \<and> (0x80 \<le> c \<and> c \<le> 0x8A \<or> c \<in> {0xA8, 0xA9, 0xAF}) \<or>
              a = 0xE2 \<and> b = 0x81 \<and> c = 0x9F \<or> a = 0xE3 \<and> b = 0x80 \<and> c = 0x80
           then all_blank s'' else False
        | [] \<Rightarrow> False)
     | [] \<Rightarrow> False)"

definition is_blank :: "string \<Rightarrow> bool" where
  "is_blank s = all_blank (map code s)"

definition eval_sets :: "view_env \<Rightarrow> 'r regex_env \<Rightarrow> stream list \<Rightarrow> id_map \<Rightarrow> 'r expr \<Rightarrow> seq_sets" where
  "eval_sets ve env ss ids query =
    (st_created_seq ` set (filter (\<lambda>s. eval ve env query s ids) ss), matching_with_ancestors ve env ss ids query)"

definition query_sets_miss :: "view_env \<Rightarrow> 'r regex_env \<Rightarrow> string \<Rightarrow> snapshot_index \<Rightarrow>
    query_fail + seq_sets option \<times> snapshot_index" where
  "query_sets_miss ve env raw idx =
    (case stream_query_parse (ve_lower ve) env raw of
       Inr query \<Rightarrow>
        (case index_id_map idx of (ids, idx') \<Rightarrow>
          let sets = Some (eval_sets ve env (sn_streams (si_snap idx')) ids query)
          in Inr (sets, idx'\<lparr>si_query := Some \<lparr>qc_raw = raw, qc_sets = sets\<rparr>\<rparr>))
     | Inl (QueryError _ _) \<Rightarrow> Inr (None, idx\<lparr>si_query := Some \<lparr>qc_raw = raw, qc_sets = None\<rparr>\<rparr>)
     | Inl f \<Rightarrow> Inl f)"

definition query_sets :: "view_env \<Rightarrow> 'r regex_env \<Rightarrow> string \<Rightarrow> snapshot_index \<Rightarrow> query_fail + seq_sets option \<times> snapshot_index" where
  "query_sets ve env raw idx =
    (case si_query idx of
       Some cache \<Rightarrow> if qc_raw cache = raw then Inr (qc_sets cache, idx) else query_sets_miss ve env raw idx
     | None \<Rightarrow> query_sets_miss ve env raw idx)"

text \<open>\<open>query.filter(non-blank).and_then(query_sets)\<close>.\<close>

definition sets_for :: "view_env \<Rightarrow> 'r regex_env \<Rightarrow> string option \<Rightarrow> snapshot_index \<Rightarrow> query_fail + seq_sets option \<times> snapshot_index" where
  "sets_for ve env query idx =
    (case query of
       Some q \<Rightarrow> if is_blank q then Inr (None, idx) else query_sets ve env q idx
     | None \<Rightarrow> Inr (None, idx))"

section \<open>Windows\<close>

definition scope_parent :: "scope \<Rightarrow> snapshot_index \<Rightarrow> stream_id option \<times> snapshot_index" where
  "scope_parent sc idx =
    (case sc of
       ChildrenOf seq \<Rightarrow> (case index_by_seq seq idx of (s, idx') \<Rightarrow> (map_option st_id s, idx'))
     | _ \<Rightarrow> (None, idx))"

definition in_scope :: "scope \<Rightarrow> stream_id option \<Rightarrow> stream \<Rightarrow> bool" where
  "in_scope sc parent_id s =
    (case sc of
       Roots \<Rightarrow> st_parent s = None
     | ChildrenOf _ \<Rightarrow> st_parent s = parent_id \<and> parent_id \<noteq> None
     | Flat \<Rightarrow> True)"

definition keep_of :: "scope \<Rightarrow> seq_sets option \<Rightarrow> u64 set option" where
  "keep_of sc sets = map_option (\<lambda>p. if sc = Flat then fst p else snd p) sets"

definition kept :: "u64 set option \<Rightarrow> stream \<Rightarrow> bool" where
  "kept keep s = (case keep of Some k \<Rightarrow> st_created_seq s \<in> k | None \<Rightarrow> True)"

text \<open>One row of the loop over the order.\<close>

definition window_row :: "window_spec \<Rightarrow> (stream \<Rightarrow> bool) \<Rightarrow> u64 set option \<Rightarrow> stream \<Rightarrow> nat \<times> nat \<times> stream list \<Rightarrow> nat \<times> nat \<times> stream list" where
  "window_row spec scoped keep s = (\<lambda>(total, matched, rows).
    if \<not> scoped s then (total, matched, rows)
    else if \<not> kept keep s then (total + 1, matched, rows)
    else (total + 1, matched + 1,
      if ws_offset spec < matched + 1 \<and> length rows < ws_limit spec then rows @ [s] else rows))"

definition window :: "view_env \<Rightarrow> 'r regex_env \<Rightarrow> window_spec \<Rightarrow> snapshot_index \<Rightarrow> query_fail + window_result \<times> snapshot_index" where
  "window ve env spec idx =
    and_then (sets_for ve env (ws_query spec) idx) (\<lambda>(sets, idx1).
      let keep = keep_of (ws_scope spec) sets;
          (parent_id, idx2) = scope_parent (ws_scope spec) idx1;
          (positions, idx3) = order (ws_sort spec) idx2;
          it = (if ws_descending spec then positions else rev positions);
          (total, matched, rows) =
            fold (\<lambda>pos. window_row spec (in_scope (ws_scope spec) parent_id) keep (sn_streams (si_snap idx3) ! unat pos)) it (0, 0, [])
      in Inr (\<lparr>wr_total = total, wr_match_total = (if sets \<noteq> None then Some matched else None), wr_rows = rows\<rparr>, idx3))"

section \<open>The timeline\<close>

definition clamp :: "nat \<Rightarrow> nat \<Rightarrow> nat \<Rightarrow> nat" where
  "clamp lo hi x = (if x < lo then lo else if hi < x then hi else x)"

definition bin_of :: "system_time \<Rightarrow> nat \<Rightarrow> nat \<Rightarrow> system_time \<Rightarrow> nat" where
  "bin_of start width bins ts = min (nat (ts - start) * bins div width) (bins - 1)"

definition active_row :: "nat \<Rightarrow> nat \<Rightarrow> nat \<Rightarrow> u32 list" where
  "active_row bins from to = map (\<lambda>i. if from \<le> i \<and> i < to + 1 then 1 else 0) [0..<bins]"

definition add_rows :: "u32 list \<Rightarrow> u32 list \<Rightarrow> u32 list" where
  "add_rows xs ys = map2 (+) xs ys"

text \<open>One stream of the loop: a lane of its own while there is room for the aggregate after it.\<close>

definition add_lane :: "nat \<Rightarrow> nat \<Rightarrow> (system_time \<Rightarrow> nat) \<Rightarrow> u64 set option \<Rightarrow> stream \<Rightarrow>
    timeline_lane list \<times> u32 list \<times> bool \<Rightarrow> timeline_lane list \<times> u32 list \<times> bool" where
  "add_lane bins lanes bin keep s = (\<lambda>(out, others, used).
    if \<not> kept keep s then (out, others, used)
    else (let row = active_row bins (bin (st_first_seen s)) (bin (st_last_seen s)) in
      if length out + 1 < lanes then (out @ [\<lparr>tl_seq = Some (st_created_seq s), tl_active = row\<rparr>], others, used)
      else (out, add_rows others row, True)))"

definition timeline :: "view_env \<Rightarrow> 'r regex_env \<Rightarrow> timeline_spec \<Rightarrow> snapshot_index \<Rightarrow> query_fail + timeline_bins option \<times> snapshot_index" where
  "timeline ve env spec idx =
    (let bins = clamp 1 2048 (ts_bins spec); lanes = clamp 1 512 (ts_lanes spec) in
     case capture_span (si_snap idx) of
       None \<Rightarrow> Inr (None, idx)
     | Some (start, fin) \<Rightarrow>
        if fin < start then Inr (None, idx)
        else and_then (sets_for ve env (ts_query spec) idx) (\<lambda>(sets, idx1).
          let keep = map_option snd sets;
              width = max (nat (fin - start)) 1;
              (positions, idx2) = order SortBytes idx1;
              (out, others, used) = fold (\<lambda>pos. add_lane bins lanes (bin_of start width bins) keep (sn_streams (si_snap idx2) ! unat pos))
                positions ([], replicate bins 0, False)
          in Inr (Some \<lparr>tb_start = start, tb_end = fin,
              tb_lanes = out @ (if used then [\<lparr>tl_seq = None, tl_active = others\<rparr>] else [])\<rparr>, idx2)))"

end
