(* ===== verification/View_Index_Props.thy ===== *)
theory View_Index_Props
  imports View_Index
begin

text \<open>
  The index answers from the snapshot alone. A reference definition computes each answer from the
  snapshot's streams by filtering and sorting lists; every operation agrees with it in every state the
  index can be in, pages of one window put together give the whole listing, and the timeline stays
  within its bounds and counts every stream in every bin it is active in.
\<close>

section \<open>Reference answers\<close>

definition sets_ref :: "view_env \<Rightarrow> 'r regex_env \<Rightarrow> aggregator_snapshot \<Rightarrow> string \<Rightarrow> query_fail + seq_sets option" where
  "sets_ref ve env snap raw =
    (case stream_query_parse (ve_lower ve) env raw of
       Inr query \<Rightarrow> Inr (Some (eval_sets ve env (sn_streams snap) (by_id snap) query))
     | Inl (QueryError _ _) \<Rightarrow> Inr None
     | Inl f \<Rightarrow> Inl f)"

definition sets_for_ref :: "view_env \<Rightarrow> 'r regex_env \<Rightarrow> aggregator_snapshot \<Rightarrow> string option \<Rightarrow> query_fail + seq_sets option" where
  "sets_for_ref ve env snap query =
    (case query of Some q \<Rightarrow> if is_blank q then Inr None else sets_ref ve env snap q | None \<Rightarrow> Inr None)"

definition scope_ref :: "aggregator_snapshot \<Rightarrow> scope \<Rightarrow> stream \<Rightarrow> bool" where
  "scope_ref snap sc s =
    (case sc of
       Roots \<Rightarrow> st_parent s = None
     | ChildrenOf seq \<Rightarrow> list_ex (\<lambda>p. st_created_seq p = seq \<and> st_parent s = Some (st_id p)) (sn_streams snap)
     | Flat \<Rightarrow> True)"

definition listed :: "aggregator_snapshot \<Rightarrow> window_spec \<Rightarrow> stream list" where
  "listed snap spec =
    (let sorted = List.sort_key (row_key (ws_sort spec)) (sn_streams snap)
     in filter (scope_ref snap (ws_scope spec)) (if ws_descending spec then sorted else rev sorted))"

definition hits :: "aggregator_snapshot \<Rightarrow> window_spec \<Rightarrow> seq_sets option \<Rightarrow> stream list" where
  "hits snap spec sets = filter (kept (keep_of (ws_scope spec) sets)) (listed snap spec)"

definition window_ref :: "view_env \<Rightarrow> 'r regex_env \<Rightarrow> window_spec \<Rightarrow> aggregator_snapshot \<Rightarrow> query_fail + window_result" where
  "window_ref ve env spec snap =
    and_then (sets_for_ref ve env snap (ws_query spec)) (\<lambda>sets.
      Inr \<lparr>wr_total = length (listed snap spec),
           wr_match_total = (if sets = None then None else Some (length (hits snap spec sets))),
           wr_rows = take (ws_limit spec) (drop (ws_offset spec) (hits snap spec sets))\<rparr>)"

section \<open>Positions\<close>

definition snap_ok :: "aggregator_snapshot \<Rightarrow> bool" where
  "snap_ok snap \<longleftrightarrow> length (sn_streams snap) < 2 ^ 32 \<and> distinct (map st_id (sn_streams snap)) \<and>
     distinct (map st_created_seq (sn_streams snap))"

lemma unat_position: "n < 2 ^ 32 \<Longrightarrow> unat (of_nat n :: u32) = n"
  by (simp add: unat_of_nat take_bit_eq_mod)

lemma collect_positions_snoc:
  "collect_positions f (ss @ [s]) = hm_set (f s) (of_nat (length ss)) (collect_positions f ss)"
  by (simp add: collect_positions_def enumerate_append_eq)

lemma collect_positions_get:
  assumes "length ss < 2 ^ 32" "distinct (map f ss)"
  shows "hm_get (collect_positions f ss) k = Some ix \<longleftrightarrow> unat ix < length ss \<and> f (ss ! unat ix) = k"
  using assms
proof (induction ss rule: rev_induct)
  case Nil
  then show ?case by (simp add: collect_positions_def)
next
  case (snoc s ss)
  have IH: "hm_get (collect_positions f ss) k = Some ix \<longleftrightarrow> unat ix < length ss \<and> f (ss ! unat ix) = k"
    using snoc.prems by (intro snoc.IH) auto
  have u: "unat (of_nat (length ss) :: u32) = length ss" using snoc.prems(1) by (intro unat_position) simp
  have p: "of_nat (length ss) = ix \<longleftrightarrow> unat ix = length ss" using u by (metis of_nat_unat ucast_id)
  have d: "i < length ss \<Longrightarrow> f (ss ! i) \<noteq> f s" for i
    using snoc.prems(2) by simp (metis imageI nth_mem)
  show ?case
    using IH p d[of "unat ix"] by (auto simp: collect_positions_snoc nth_append less_Suc_eq)
qed

lemma collect_positions_streams:
  assumes "length ss < 2 ^ 32"
  shows "map (\<lambda>(h, ix). (h, ss ! unat ix)) (collect_positions f ss) = fold (\<lambda>s. hm_set (f s) s) ss []"
proof -
  have set: "map (\<lambda>(h, ix). (h, g ix)) (hm_set k v m) = hm_set k (g v) (map (\<lambda>(h, ix). (h, g ix)) m)"
    for g :: "u32 \<Rightarrow> stream" and k :: 'a and v m by (induction k v m rule: hm_set.induct) auto
  have in_set: "(h, ix) \<in> set (hm_set k v m) \<Longrightarrow> ix = v \<or> (h, ix) \<in> set m" for h k :: 'a and ix v :: u32 and m
    by (induction k v m rule: hm_set.induct) (auto split: if_splits)
  have "(\<forall>(h, ix) \<in> set (collect_positions f ss). unat ix < length ss) \<and>
    map (\<lambda>(h, ix). (h, ss ! unat ix)) (collect_positions f ss) = fold (\<lambda>s. hm_set (f s) s) ss []"
    using assms
  proof (induction ss rule: rev_induct)
    case Nil
    then show ?case by (simp add: collect_positions_def)
  next
    case (snoc s ss)
    then have u: "unat (of_nat (length ss) :: u32) = length ss" by (intro unat_position) simp
    have IH: "\<forall>(h, ix) \<in> set (collect_positions f ss). unat ix < length ss"
      "map (\<lambda>(h, ix). (h, ss ! unat ix)) (collect_positions f ss) = fold (\<lambda>s. hm_set (f s) s) ss []"
      using snoc by auto
    have "map (\<lambda>(h, ix). (h, (ss @ [s]) ! unat ix)) (collect_positions f ss) = fold (\<lambda>s. hm_set (f s) s) ss []"
      unfolding IH(2)[symmetric] using IH(1) by (intro map_cong) (auto simp: nth_append)
    then show ?case using IH(1) u in_set by (fastforce simp: collect_positions_snoc set)
  qed
  then show ?thesis ..
qed

lemma map_insort_key: "map f (insort_key (\<lambda>x. g (f x)) a xs) = insort_key g (f a) (map f xs)"
  by (induction xs) auto

lemma map_sort_key: "map f (List.sort_key (\<lambda>x. g (f x)) xs) = List.sort_key g (map f xs)"
  by (induction xs) (simp_all add: map_insort_key)

lemma order_rows_streams:
  assumes "length ss < 2 ^ 32"
  shows "map (\<lambda>ix. ss ! unat ix) (order_rows key ss) = List.sort_key (row_key key) ss"
proof -
  have "map (\<lambda>ix. ss ! unat ix) (map of_nat [0..<length ss mod 2 ^ 32] :: u32 list) = map ((!) ss) [0..<length ss]"
    using assms unat_position by (auto simp: intro!: map_cong)
  also have "\<dots> = ss" by (simp add: map_nth)
  finally show ?thesis unfolding order_rows_def map_sort_key[of "\<lambda>ix. ss ! unat ix" "row_key key"] by simp
qed

section \<open>What is cached is what the snapshot determines\<close>

definition cache_ok :: "view_env \<Rightarrow> 'r regex_env \<Rightarrow> aggregator_snapshot \<Rightarrow> snapshot_index \<Rightarrow> bool" where
  "cache_ok ve env snap idx \<longleftrightarrow> si_snap idx = snap \<and>
     (\<forall>m. si_by_id idx = Some m \<longrightarrow> m = collect_positions st_id (sn_streams snap)) \<and>
     (\<forall>m. si_by_seq idx = Some m \<longrightarrow> m = collect_positions st_created_seq (sn_streams snap)) \<and>
     length (si_orders idx) = 4 \<and>
     (\<forall>key xs. si_orders idx ! sort_slot key = Some xs \<longrightarrow> xs = order_rows key (sn_streams snap)) \<and>
     (\<forall>c. si_query idx = Some c \<longrightarrow> sets_ref ve env snap (qc_raw c) = Inr (qc_sets c))"

lemma index_new_ok: "cache_ok ve env snap (snapshot_index_new snap)"
proof -
  have "sort_slot key < 4" for key by (cases key) simp_all
  then show ?thesis by (simp add: cache_ok_def snapshot_index_new_def)
qed

lemma slot_lt: "sort_slot key < 4"
  by (cases key) simp_all

lemma slot_inj: "sort_slot key = sort_slot key' \<longleftrightarrow> key = key'"
  by (cases key; cases key') simp_all

lemma positions_by_id_ok:
  assumes "cache_ok ve env snap idx"
  shows "fst (positions_by_id idx) = collect_positions st_id (sn_streams snap)" "cache_ok ve env snap (snd (positions_by_id idx))"
  using assms by (auto simp: cache_ok_def positions_by_id_def get_or_init_def Let_def split: option.splits)

lemma positions_by_seq_ok:
  assumes "cache_ok ve env snap idx"
  shows "fst (positions_by_seq idx) = collect_positions st_created_seq (sn_streams snap)" "cache_ok ve env snap (snd (positions_by_seq idx))"
  using assms by (auto simp: cache_ok_def positions_by_seq_def get_or_init_def Let_def split: option.splits)

lemma order_ok:
  assumes "cache_ok ve env snap idx"
  shows "fst (order key idx) = order_rows key (sn_streams snap)" "cache_ok ve env snap (snd (order key idx))"
proof -
  show o: "fst (order key idx) = order_rows key (sn_streams snap)"
    using assms by (auto simp: cache_ok_def order_def get_or_init_def Let_def split: option.splits)
  have "si_orders (snd (order key idx)) = (si_orders idx)[sort_slot key := Some (order_rows key (sn_streams snap))]"
    using o by (simp add: order_def Let_def)
  moreover have "snd (order key idx) = idx\<lparr>si_orders := si_orders (snd (order key idx))\<rparr>" by (simp add: order_def Let_def)
  ultimately show "cache_ok ve env snap (snd (order key idx))"
    using assms by (auto simp: cache_ok_def nth_list_update slot_lt slot_inj split: if_splits)
qed

lemma index_id_map_ok:
  assumes "cache_ok ve env snap idx" "snap_ok snap"
  shows "fst (index_id_map idx) = by_id snap" "cache_ok ve env snap (snd (index_id_map idx))"
  using positions_by_id_ok[OF assms(1)] assms collect_positions_streams[of "sn_streams snap" st_id]
  by (auto simp: index_id_map_def by_id_def cache_ok_def snap_ok_def split: prod.split)

lemma find_position:
  assumes "length ss < 2 ^ 32" "distinct (map f ss)"
  shows "Option.bind (hm_get (collect_positions f ss) k) (\<lambda>ix. elem_get ss (unat ix)) = Some s \<longleftrightarrow> s \<in> set ss \<and> f s = k"
proof
  assume "Option.bind (hm_get (collect_positions f ss) k) (\<lambda>ix. elem_get ss (unat ix)) = Some s"
  then show "s \<in> set ss \<and> f s = k"
    by (auto simp: bind_eq_Some_conv collect_positions_get[OF assms] elem_get_def split: if_splits)
next
  assume "s \<in> set ss \<and> f s = k"
  then obtain i where i: "i < length ss" "ss ! i = s" "f s = k" by (auto simp: in_set_conv_nth)
  then have "unat (of_nat i :: u32) = i" using assms(1) by (intro unat_position) simp
  then show "Option.bind (hm_get (collect_positions f ss) k) (\<lambda>ix. elem_get ss (unat ix)) = Some s"
    using i by (auto simp: bind_eq_Some_conv collect_positions_get[OF assms] elem_get_def intro!: exI[of _ "of_nat i"])
qed

lemma index_by_seq_ok:
  assumes "cache_ok ve env snap idx" "snap_ok snap"
  shows "fst (index_by_seq seq idx) = Some s \<longleftrightarrow> s \<in> set (sn_streams snap) \<and> st_created_seq s = seq"
    "cache_ok ve env snap (snd (index_by_seq seq idx))"
  using positions_by_seq_ok[OF assms(1)] find_position[of "sn_streams snap" st_created_seq seq s] assms
  by (auto simp: index_by_seq_def cache_ok_def snap_ok_def split: prod.split)

lemma index_by_id_ok:
  assumes "cache_ok ve env snap idx" "snap_ok snap"
  shows "fst (index_by_id h idx) = Some s \<longleftrightarrow> s \<in> set (sn_streams snap) \<and> st_id s = h"
    "cache_ok ve env snap (snd (index_by_id h idx))"
  using positions_by_id_ok[OF assms(1)] find_position[of "sn_streams snap" st_id h s] assms
  by (auto simp: index_by_id_def cache_ok_def snap_ok_def split: prod.split)

text \<open>An operation that can fail agrees with its reference and keeps the invariant.\<close>

definition answers :: "view_env \<Rightarrow> 'r regex_env \<Rightarrow> aggregator_snapshot \<Rightarrow> query_fail + 'b \<times> snapshot_index \<Rightarrow> query_fail + 'b \<Rightarrow> bool" where
  "answers ve env snap res expected \<longleftrightarrow>
    (case res of Inl f \<Rightarrow> expected = Inl f | Inr (r, idx) \<Rightarrow> expected = Inr r \<and> cache_ok ve env snap idx)"

lemma answers_simps [simp]:
  "answers ve env snap (Inl f) expected \<longleftrightarrow> expected = Inl f"
  "answers ve env snap (Inr (r, idx)) expected \<longleftrightarrow> expected = Inr r \<and> cache_ok ve env snap idx"
  by (simp_all add: answers_def)

lemma answers_and_then:
  assumes "answers ve env snap res expected"
    and "\<And>r idx. cache_ok ve env snap idx \<Longrightarrow> answers ve env snap (f (r, idx)) (g r)"
  shows "answers ve env snap (and_then res f) (and_then expected g)"
  using assms by (cases res) auto

lemma query_sets_ok:
  assumes "cache_ok ve env snap idx" "snap_ok snap"
  shows "answers ve env snap (query_sets ve env raw idx) (sets_ref ve env snap raw)"
proof -
  have set_query: "cache_ok ve env snap (idx\<lparr>si_query := Some \<lparr>qc_raw = raw, qc_sets = sets\<rparr>\<rparr>)"
    if "cache_ok ve env snap idx" "sets_ref ve env snap raw = Inr sets" for idx sets
    using that by (simp add: cache_ok_def)
  have snap: "si_snap (snd (index_id_map idx)) = snap" using index_id_map_ok(2)[OF assms] by (simp add: cache_ok_def)
  have miss: "answers ve env snap (query_sets_miss ve env raw idx) (sets_ref ve env snap raw)"
  proof (cases "stream_query_parse (ve_lower ve) env raw")
    case (Inl f)
    then show ?thesis using set_query[OF assms(1), of None]
      by (cases f) (simp_all add: query_sets_miss_def sets_ref_def)
  next
    case (Inr query)
    then have r: "sets_ref ve env snap raw = Inr (Some (eval_sets ve env (sn_streams snap) (by_id snap) query))"
      by (simp add: sets_ref_def)
    show ?thesis using Inr r set_query[OF index_id_map_ok(2)[OF assms] r] index_id_map_ok(1)[OF assms] snap
      by (auto simp: query_sets_miss_def Let_def split: prod.split)
  qed
  show ?thesis using miss assms(1) by (auto simp: query_sets_def cache_ok_def split: option.splits)
qed

lemma sets_for_ok:
  assumes "cache_ok ve env snap idx" "snap_ok snap"
  shows "answers ve env snap (sets_for ve env query idx) (sets_for_ref ve env snap query)"
  using query_sets_ok[OF assms] assms(1) by (simp add: sets_for_def sets_for_ref_def split: option.split)

section \<open>Windows\<close>

lemma scope_parent_ok:
  assumes "cache_ok ve env snap idx" "snap_ok snap"
  shows "in_scope sc (fst (scope_parent sc idx)) = scope_ref snap sc" "cache_ok ve env snap (snd (scope_parent sc idx))"
proof -
  show "cache_ok ve env snap (snd (scope_parent sc idx))"
    using index_by_seq_ok(2)[OF assms] assms(1) by (cases sc) (simp_all add: scope_parent_def case_prod_unfold)
  show "in_scope sc (fst (scope_parent sc idx)) = scope_ref snap sc"
  proof (cases sc)
    case (ChildrenOf seq)
    have "fst (scope_parent sc idx) = map_option st_id (fst (index_by_seq seq idx))"
      by (simp add: ChildrenOf scope_parent_def split: prod.split)
    then show ?thesis using index_by_seq_ok(1)[OF assms, of seq]
      by (cases "fst (index_by_seq seq idx)") (auto simp: ChildrenOf in_scope_def scope_ref_def list_ex_iff fun_eq_iff, metis not_None_eq)
  qed (simp_all add: in_scope_def scope_ref_def fun_eq_iff)
qed

text \<open>The loop computes the totals and the page of a list of rows.\<close>

lemma window_row_apply:
  "window_row spec scoped keep s (t, m, rows) =
    (if \<not> scoped s then (t, m, rows) else if \<not> kept keep s then (t + 1, m, rows)
     else (t + 1, m + 1, if ws_offset spec < m + 1 \<and> length rows < ws_limit spec then rows @ [s] else rows))"
  by (simp add: window_row_def)

lemma window_loop:
  "fold (window_row spec scoped keep) xs (t, m, rows) =
    (t + length (filter scoped xs), m + length (filter (kept keep) (filter scoped xs)),
     rows @ take (ws_limit spec - length rows) (drop (ws_offset spec - m) (filter (kept keep) (filter scoped xs))))"
  (is "_ = (_, _, rows @ ?page m rows xs)")
proof (induction xs arbitrary: t m rows)
  case (Cons x xs)
  show ?case
  proof (cases "scoped x \<and> kept keep x")
    case True
    show ?thesis
    proof (cases "ws_offset spec < m + 1 \<and> length rows < ws_limit spec")
      case c: True
      then have "ws_offset spec - m = 0" "ws_limit spec - length rows = Suc (ws_limit spec - Suc (length rows))" by linarith+
      then show ?thesis using True c by (simp add: window_row_apply Cons.IH)
    next
      case False
      then have "take (ws_limit spec - length rows) (drop (ws_offset spec - m) (x # ys)) =
        take (ws_limit spec - length rows) (drop (ws_offset spec - (m + 1)) ys)" for ys :: "stream list"
      proof (cases "ws_offset spec \<le> m")
        case o: False
        then have "ws_offset spec - m = Suc (ws_offset spec - (m + 1))" by linarith
        then show ?thesis by simp
      qed auto
      then show ?thesis using True False by (auto simp: window_row_apply Cons.IH)
    qed
  qed (auto simp: window_row_apply Cons.IH)
qed simp

lemma fold_positions: "fold (\<lambda>ix. f (ss ! unat ix)) ixs = fold f (map (\<lambda>ix. ss ! unat ix) ixs)"
  by (simp add: fold_map o_def)

lemma window_ok:
  assumes "cache_ok ve env snap idx" "snap_ok snap"
  shows "answers ve env snap (window ve env spec idx) (window_ref ve env spec snap)"
  unfolding window_def window_ref_def
proof (rule answers_and_then[OF sets_for_ok[OF assms]], simp only: prod.case)
  fix sets idx1 assume i1: "cache_ok ve env snap idx1"
  obtain par idx2 where p: "scope_parent (ws_scope spec) idx1 = (par, idx2)" by fastforce
  note i2 = scope_parent_ok[OF i1 assms(2), of "ws_scope spec", unfolded p fst_conv snd_conv]
  obtain ixs idx3 where o: "order (ws_sort spec) idx2 = (ixs, idx3)" by fastforce
  note i3 = order_ok[OF i2(2), of "ws_sort spec", unfolded o fst_conv snd_conv]
  have snap: "si_snap idx3 = snap" using i3(2) by (simp add: cache_ok_def)
  have "map (\<lambda>ix. sn_streams snap ! unat ix) (if ws_descending spec then ixs else rev ixs) =
    (let xs = List.sort_key (row_key (ws_sort spec)) (sn_streams snap) in if ws_descending spec then xs else rev xs)"
    using order_rows_streams[of "sn_streams snap" "ws_sort spec"] assms(2) i3(1) by (simp add: snap_ok_def rev_map[symmetric])
  then have "fold (\<lambda>ix. window_row spec (in_scope (ws_scope spec) par) keep (sn_streams snap ! unat ix))
      (if ws_descending spec then ixs else rev ixs) (0, 0, []) =
    (length (listed snap spec), length (filter (kept keep) (listed snap spec)),
     take (ws_limit spec) (drop (ws_offset spec) (filter (kept keep) (listed snap spec))))" for keep
    unfolding fold_positions i2(1) by (simp add: window_loop listed_def Let_def)
  then show "answers ve env snap
      (let keep = keep_of (ws_scope spec) sets; (parent_id, idx2) = scope_parent (ws_scope spec) idx1;
           (positions, idx3) = order (ws_sort spec) idx2; it = if ws_descending spec then positions else rev positions;
           (total, matched, rows) = fold (\<lambda>ix. window_row spec (in_scope (ws_scope spec) parent_id) keep (sn_streams (si_snap idx3) ! unat ix)) it (0, 0, [])
       in Inr (\<lparr>wr_total = total, wr_match_total = if sets \<noteq> None then Some matched else None, wr_rows = rows\<rparr>, idx3))
      (Inr \<lparr>wr_total = length (listed snap spec), wr_match_total = if sets = None then None else Some (length (hits snap spec sets)),
         wr_rows = take (ws_limit spec) (drop (ws_offset spec) (hits snap spec sets))\<rparr>)"
    using i3(2) by (simp add: p o snap hits_def Let_def)
qed

section \<open>The timeline\<close>

definition covers :: "(system_time \<Rightarrow> nat) \<Rightarrow> nat \<Rightarrow> stream \<Rightarrow> bool" where
  "covers bin i s \<longleftrightarrow> bin (st_first_seen s) \<le> i \<and> i \<le> bin (st_last_seen s)"

definition density :: "timeline_lane list \<Rightarrow> nat \<Rightarrow> nat" where
  "density lanes i = sum_list (map (\<lambda>l. unat (tl_active l ! i)) lanes)"

definition lanes_ok :: "nat \<Rightarrow> nat \<Rightarrow> (system_time \<Rightarrow> nat) \<Rightarrow> stream list \<Rightarrow> timeline_lane list \<times> u32 list \<times> bool \<Rightarrow> bool" where
  "lanes_ok bins lanes bin xs = (\<lambda>(out, others, used).
    length out \<le> lanes - 1 \<and> length others = bins \<and> list_all (\<lambda>l. length (tl_active l) = bins) out \<and>
    (\<not> used \<longrightarrow> others = replicate bins 0) \<and>
    (\<forall>i < bins. density out i + unat (others ! i) = length (filter (covers bin i) xs)))"

lemma active_row_nth: "i < bins \<Longrightarrow> unat (active_row bins (bin (st_first_seen s)) (bin (st_last_seen s)) ! i) = (if covers bin i s then 1 else 0)"
  by (simp add: active_row_def covers_def less_Suc_eq_le)

lemma add_lane_step:
  assumes "lanes_ok bins lanes bin (filter (kept keep) xs) st" "length xs + 1 < 2 ^ 32"
  shows "lanes_ok bins lanes bin (filter (kept keep) (xs @ [s])) (add_lane bins lanes bin keep s st)"
proof (cases "kept keep s")
  case False
  then show ?thesis using assms(1) by (cases st) (simp add: add_lane_def)
next
  case True
  obtain out others used where st: "st = (out, others, used)" by (cases st)
  let ?row = "active_row bins (bin (st_first_seen s)) (bin (st_last_seen s))"
  have o: "length out \<le> lanes - 1" "length others = bins" "list_all (\<lambda>l. length (tl_active l) = bins) out"
    "\<And>i. i < bins \<Longrightarrow> density out i + unat (others ! i) = length (filter (covers bin i) (filter (kept keep) xs))"
    using assms(1) by (auto simp: lanes_ok_def st)
  have row: "length ?row = bins" by (simp add: active_row_def)
  show ?thesis
  proof (cases "length out + 1 < lanes")
    case c: True
    have "density (out @ [\<lparr>tl_seq = Some (st_created_seq s), tl_active = ?row\<rparr>]) i + unat (others ! i) =
        length (filter (covers bin i) (filter (kept keep) (xs @ [s])))" if "i < bins" for i
      using o(4)[OF that] active_row_nth[OF that, of bin s] True by (simp add: density_def)
    then show ?thesis using assms(1) o c True row by (simp add: add_lane_def st lanes_ok_def Let_def)
  next
    case False
    have "density out i + unat (add_rows others ?row ! i) = length (filter (covers bin i) (filter (kept keep) (xs @ [s])))"
      if "i < bins" for i
    proof -
      have "unat (others ! i) \<le> length xs" using o(4)[OF that] length_filter_le[of _ "filter (kept keep) xs"] length_filter_le[of "kept keep" xs]
        by (metis add_leD2 le_trans)
      then have "unat (others ! i + ?row ! i) = unat (others ! i) + unat (?row ! i)"
        using assms(2) active_row_nth[OF that, of bin s] by (subst unat_word_ariths) (auto simp: split: if_splits)
      moreover have "add_rows others ?row ! i = others ! i + ?row ! i" using that o(2) row by (simp add: add_rows_def)
      ultimately show ?thesis using o(4)[OF that] active_row_nth[OF that, of bin s] True by simp
    qed
    then show ?thesis using o False True row by (simp add: add_lane_def st lanes_ok_def Let_def add_rows_def)
  qed
qed

lemma lanes_run:
  "length xs < 2 ^ 32 \<Longrightarrow> lanes_ok bins lanes bin (filter (kept keep) xs) (fold (add_lane bins lanes bin keep) xs ([], replicate bins 0, False))"
proof (induction xs rule: rev_induct)
  case Nil
  then show ?case by (simp add: lanes_ok_def density_def)
next
  case (snoc s xs)
  then show ?case using add_lane_step[of bins lanes bin keep xs] by simp
qed

text \<open>What a timeline answers: bounded lanes of bounded width, and in every bin the kept streams active there.\<close>

definition timeline_fits :: "view_env \<Rightarrow> 'r regex_env \<Rightarrow> timeline_spec \<Rightarrow> aggregator_snapshot \<Rightarrow> timeline_bins \<Rightarrow> bool" where
  "timeline_fits ve env spec snap tb \<longleftrightarrow>
    (let bins = clamp 1 2048 (ts_bins spec); bin = bin_of (tb_start tb) (max (nat (tb_end tb - tb_start tb)) 1) bins in
     length (tb_lanes tb) \<le> clamp 1 512 (ts_lanes spec) \<and> list_all (\<lambda>l. length (tl_active l) = bins) (tb_lanes tb) \<and>
     (\<exists>sets. sets_for_ref ve env snap (ts_query spec) = Inr sets \<and>
       (\<forall>i < bins. density (tb_lanes tb) i =
          length (filter (\<lambda>s. kept (map_option snd sets) s \<and> covers bin i s) (sn_streams snap)))))"

lemma filter_sort_length: "length (filter P (List.sort_key f xs)) = length (filter P xs)"
proof -
  have "mset (filter P (List.sort_key f xs)) = mset (filter P xs)" by (simp add: mset_filter)
  then show ?thesis by (metis size_mset)
qed

lemma timeline_build:
  assumes "cache_ok ve env snap idx1" "snap_ok snap" "sets_for_ref ve env snap (ts_query spec) = Inr sets"
  defines "bins \<equiv> clamp 1 2048 (ts_bins spec)" and "lanes \<equiv> clamp 1 512 (ts_lanes spec)"
  obtains ixs idx2 out others used where "order SortBytes idx1 = (ixs, idx2)" "cache_ok ve env snap idx2" "si_snap idx2 = snap"
    "fold (\<lambda>ix. add_lane bins lanes (bin_of st (max (nat (en - st)) 1) bins) (map_option snd sets) (sn_streams snap ! unat ix)) ixs
      ([], replicate bins 0, False) = (out, others, used)"
    "timeline_fits ve env spec snap \<lparr>tb_start = st, tb_end = en, tb_lanes = out @ (if used then [\<lparr>tl_seq = None, tl_active = others\<rparr>] else [])\<rparr>"
proof -
  let ?bin = "bin_of st (max (nat (en - st)) 1) bins"
  obtain ixs idx2 where o: "order SortBytes idx1 = (ixs, idx2)" by fastforce
  note i2 = order_ok[OF assms(1), of SortBytes, unfolded o fst_conv snd_conv]
  have snap2: "si_snap idx2 = snap" using i2(2) by (simp add: cache_ok_def)
  let ?xs = "List.sort_key (row_key SortBytes) (sn_streams snap)"
  have xs: "map (\<lambda>ix. sn_streams snap ! unat ix) ixs = ?xs"
    using order_rows_streams[of "sn_streams snap" SortBytes] assms(2) i2(1) by (simp add: snap_ok_def)
  obtain out others used where f: "fold (add_lane bins lanes ?bin (map_option snd sets)) ?xs ([], replicate bins 0, False) = (out, others, used)"
    by (metis prod_cases3)
  have lo: "lanes_ok bins lanes ?bin (filter (kept (map_option snd sets)) ?xs) (out, others, used)"
    unfolding f[symmetric] using assms(2) by (intro lanes_run) (simp add: snap_ok_def)
  let ?out = "out @ (if used then [\<lparr>tl_seq = None, tl_active = others\<rparr>] else [])"
  have "density ?out i = length (filter (\<lambda>s. kept (map_option snd sets) s \<and> covers ?bin i s) (sn_streams snap))" if "i < bins" for i
  proof -
    have "density out i + unat (others ! i) = length (filter (\<lambda>s. kept (map_option snd sets) s \<and> covers ?bin i s) (sn_streams snap))"
      using lo that by (auto simp: lanes_ok_def filter_sort_length)
    moreover have "\<not> used \<Longrightarrow> unat (others ! i) = 0" using lo that unfolding lanes_ok_def by (simp del: length_replicate)
    ultimately show ?thesis by (auto simp: density_def)
  qed
  moreover have "1 \<le> lanes" by (simp add: lanes_def clamp_def)
  ultimately have "timeline_fits ve env spec snap \<lparr>tb_start = st, tb_end = en, tb_lanes = ?out\<rparr>"
    using lo assms(3) unfolding bins_def lanes_def by (auto simp: timeline_fits_def Let_def lanes_ok_def)
  with that[OF o i2(2) snap2] f show ?thesis by (simp add: fold_positions xs)
qed

definition timeline_answer :: "view_env \<Rightarrow> 'r regex_env \<Rightarrow> timeline_spec \<Rightarrow> aggregator_snapshot \<Rightarrow>
    query_fail + timeline_bins option \<times> snapshot_index \<Rightarrow> bool" where
  "timeline_answer ve env spec snap res \<longleftrightarrow>
    (case res of
       Inl f \<Rightarrow> sets_for_ref ve env snap (ts_query spec) = Inl f
     | Inr (None, _) \<Rightarrow> (case capture_span snap of None \<Rightarrow> True | Some (st, en) \<Rightarrow> en < st)
     | Inr (Some tb, _) \<Rightarrow> capture_span snap = Some (tb_start tb, tb_end tb) \<and> timeline_fits ve env spec snap tb)"

lemma timeline_ok:
  assumes "cache_ok ve env snap idx" "snap_ok snap"
  shows "timeline_answer ve env spec snap (timeline ve env spec idx)"
    and "timeline ve env spec idx = Inr (r, idx') \<Longrightarrow> cache_ok ve env snap idx'"
proof -
  have snap: "si_snap idx = snap" using assms(1) by (simp add: cache_ok_def)
  let ?t = "timeline ve env spec idx"
  have "timeline_answer ve env spec snap ?t \<and> (\<forall>r idx'. ?t = Inr (r, idx') \<longrightarrow> cache_ok ve env snap idx')"
  proof (cases "capture_span snap")
    case None
    then show ?thesis using assms(1) snap by (auto simp: timeline_def timeline_answer_def Let_def)
  next
    case (Some se)
    then obtain st en where se: "capture_span snap = Some (st, en)" by (cases se) auto
    show ?thesis
    proof (cases "en < st")
      case True
      then show ?thesis using assms(1) snap se by (auto simp: timeline_def timeline_answer_def Let_def)
    next
      case False
      show ?thesis
      proof (cases "sets_for ve env (ts_query spec) idx")
        case (Inl f)
        then have "?t = Inl f" using False snap se by (simp add: timeline_def Let_def)
        then show ?thesis using Inl sets_for_ok[OF assms, of "ts_query spec"] by (simp add: timeline_answer_def)
      next
        case (Inr si)
        then obtain sets idx1 where s: "sets_for ve env (ts_query spec) idx = Inr (sets, idx1)" by (cases si) auto
        have i1: "sets_for_ref ve env snap (ts_query spec) = Inr sets" "cache_ok ve env snap idx1"
          using sets_for_ok[OF assms, of "ts_query spec"] s by simp_all
        obtain ixs idx2 out others used where t: "order SortBytes idx1 = (ixs, idx2)" "cache_ok ve env snap idx2" "si_snap idx2 = snap"
          "fold (\<lambda>ix. add_lane (clamp 1 2048 (ts_bins spec)) (clamp 1 512 (ts_lanes spec))
              (bin_of st (max (nat (en - st)) 1) (clamp 1 2048 (ts_bins spec))) (map_option snd sets) (sn_streams snap ! unat ix)) ixs
            ([], replicate (clamp 1 2048 (ts_bins spec)) 0, False) = (out, others, used)"
          "timeline_fits ve env spec snap \<lparr>tb_start = st, tb_end = en, tb_lanes = out @ (if used then [\<lparr>tl_seq = None, tl_active = others\<rparr>] else [])\<rparr>"
          by (rule timeline_build[OF i1(2) assms(2) i1(1)])
        then have "?t = Inr (Some \<lparr>tb_start = st, tb_end = en, tb_lanes = out @ (if used then [\<lparr>tl_seq = None, tl_active = others\<rparr>] else [])\<rparr>, idx2)"
          using False snap se s by (simp add: timeline_def Let_def)
        then show ?thesis using se t(2,5) by (simp add: timeline_answer_def)
      qed
    qed
  qed
  then show "timeline_answer ve env spec snap ?t" "?t = Inr (r, idx') \<Longrightarrow> cache_ok ve env snap idx'" by blast+
qed

section \<open>Every state of an index\<close>

inductive index_state :: "view_env \<Rightarrow> 'r regex_env \<Rightarrow> aggregator_snapshot \<Rightarrow> snapshot_index \<Rightarrow> bool" for ve env snap where
  index_new: "index_state ve env snap (snapshot_index_new snap)"
| index_id: "index_state ve env snap idx \<Longrightarrow> index_state ve env snap (snd (index_by_id h idx))"
| index_seq: "index_state ve env snap idx \<Longrightarrow> index_state ve env snap (snd (index_by_seq seq idx))"
| index_order: "index_state ve env snap idx \<Longrightarrow> index_state ve env snap (snd (order key idx))"
| index_query: "index_state ve env snap idx \<Longrightarrow> query_sets ve env raw idx = Inr (r, idx') \<Longrightarrow> index_state ve env snap idx'"
| index_window: "index_state ve env snap idx \<Longrightarrow> window ve env ws idx = Inr (w, idx') \<Longrightarrow> index_state ve env snap idx'"
| index_timeline: "index_state ve env snap idx \<Longrightarrow> timeline ve env ts idx = Inr (t, idx') \<Longrightarrow> index_state ve env snap idx'"

lemma index_state_ok: "index_state ve env snap idx \<Longrightarrow> snap_ok snap \<Longrightarrow> cache_ok ve env snap idx"
proof (induction rule: index_state.induct)
  case (index_query idx raw r idx')
  then show ?case using query_sets_ok[of ve env snap idx raw] by simp
next
  case (index_window idx ws w idx')
  then show ?case using window_ok[of ve env snap idx ws] by simp
next
  case (index_timeline idx ts t idx')
  then show ?case using timeline_ok(2) by blast
qed (simp_all add: index_new_ok index_by_id_ok index_by_seq_ok order_ok)

lemma snapshot_ok:
  assumes "reachable e cfg a" "plain_engine e"
  shows "snap_ok (snapshot a)"
proof -
  have b: "base_inv a" using store_invD(2) reachable_inv[OF assms] by blast
  let ?ss = "sn_streams (snapshot a)"
  have m: "mset ?ss = mset (streams a)" by (simp add: snapshot_def)
  have d: "distinct (map st_id ?ss)"
    using distinct_streams[OF b] mset_eq_imp_distinct_iff[of "map st_id ?ss" "map st_id (streams a)"] m by (simp add: mset_map)
  have "inj_on st_created_seq (set ?ss)"
    using snapshot_ids_ok(2)[OF b] snapshot_streams[OF b] snapshot_ids[OF b] unfolding seqs_distinct_def inj_on_def by metis
  then have q: "distinct (map st_created_seq ?ss)" using d by (simp add: distinct_map)
  have "length (streams a) \<le> length (ar_slots (ag_arena a))"
    unfolding streams_def arena_streams_def map_filter_def by simp
  then have "length ?ss < 2 ^ 32" using b by (simp add: snapshot_def base_inv_def arena_ok_def)
  with d q show ?thesis by (simp add: snap_ok_def)
qed

lemma window_answer:
  assumes "reachable e cfg a" and "plain_engine e" and "index_state ve env (snapshot a) idx"
  shows "map_sum id fst (window ve env spec idx) = window_ref ve env spec (snapshot a)"
  using window_ok[OF index_state_ok[OF assms(3) snapshot_ok[OF assms(1,2)]] snapshot_ok[OF assms(1,2)], of spec]
  by (cases "window ve env spec idx") auto

text \<open>C33. Every window of every index over the snapshot of a reachable store (an empty one, one taken on the way, or the
  final one after the end of the capture) is the page of the reference listing: the scope's streams sorted
  by the key with ties by creation, filtered by the query, cut at offset and limit, with the totals before
  the cut. What was asked of the index before never matters. The engine is one whose keys
  never begin with the mark of a condensed node, as the default one's.\<close>

theorem window_refines:
  assumes "reachable e cfg a" and "plain_engine e" and "index_state ve env (snapshot a) idx"
  shows "map_sum id fst (window ve env spec idx) = window_ref ve env spec (snapshot a)"
  by (rule window_answer[OF assms])

definition demo_window :: window_spec where
  "demo_window = \<lparr>ws_scope = Roots, ws_query = Some ''live'', ws_sort = SortBytes, ws_descending = True, ws_offset = 0, ws_limit = 10\<rparr>"

theorem window_refines_witness:
  "map_sum id fst (window plain_view no_regex demo_window (snapshot_index_new (snapshot (finish (pair_run default_config))))) =
    window_ref plain_view no_regex demo_window (snapshot (finish (pair_run default_config)))"
  by (rule window_refines[OF reach_finish[OF pair_run_reachable] pair_engine_plain index_new])

text \<open>The timeline is bounded by the request and loses no stream: at most the clamped number of lanes,
  each with the clamped number of bins, and in every bin the lanes together count exactly the streams
  kept by the query that are active in it. It fails only as the query does, and is absent only when the
  snapshot spans no time.\<close>

theorem timeline_counts:
  assumes "reachable e cfg a" and "plain_engine e" and "index_state ve env (snapshot a) idx"
  shows "timeline_answer ve env spec (snapshot a) (timeline ve env spec idx)"
  using timeline_ok(1)[OF index_state_ok[OF assms(3) snapshot_ok[OF assms(1,2)]] snapshot_ok[OF assms(1,2)]] .

theorem timeline_counts_witness:
  "timeline_answer plain_view no_regex \<lparr>ts_bins = 4, ts_lanes = 2, ts_query = Some ''live''\<rparr> (snapshot (pair_run live_config))
    (timeline plain_view no_regex \<lparr>ts_bins = 4, ts_lanes = 2, ts_query = Some ''live''\<rparr> (snapshot_index_new (snapshot (pair_run live_config))))"
  by (rule timeline_counts[OF pair_run_reachable pair_engine_plain index_new])

text \<open>Paging through a window: consecutive pages of the same size, each asked in whatever state the
  index then has, put together are the beginning of one listing, without gap or repetition.\<close>

theorem window_pages_tile:
  assumes "reachable e cfg a" and "plain_engine e" and "\<And>i. index_state ve env (snapshot a) (idx i)"
    and "\<And>i. i < Suc k \<Longrightarrow> window ve env (spec\<lparr>ws_offset := i * n, ws_limit := n\<rparr>) (idx i) = Inr (r i, idx' i)"
  shows "\<exists>sets. sets_for_ref ve env (snapshot a) (ws_query spec) = Inr sets \<and>
    concat (map (\<lambda>i. wr_rows (r i)) [0..<Suc k]) = take (Suc k * n) (hits (snapshot a) spec sets)"
proof -
  have ref: "window_ref ve env (spec\<lparr>ws_offset := i * n, ws_limit := n\<rparr>) (snapshot a) = Inr (r i)" if "i < Suc k" for i
    using window_answer[OF assms(1,2,3), of "spec\<lparr>ws_offset := i * n, ws_limit := n\<rparr>" i] assms(4)[OF that] by simp
  have h: "hits (snapshot a) (spec\<lparr>ws_offset := x, ws_limit := y\<rparr>) sets = hits (snapshot a) spec sets" for x y sets
    by (simp add: hits_def listed_def)
  obtain sets where s: "sets_for_ref ve env (snapshot a) (ws_query spec) = Inr sets"
    using ref[of 0] by (auto simp: window_ref_def and_then_Inr_iff)
  have rows: "wr_rows (r i) = take n (drop (i * n) (hits (snapshot a) spec sets))" if "i < Suc k" for i
    using ref[OF that] s by (auto simp: window_ref_def h dest!: sym[of _ "r i"])
  have tile: "concat (map (\<lambda>i. take n (drop (i * n) xs)) [0..<m]) = take (m * n) xs" for m and xs :: "stream list"
    by (induction m) (simp_all add: take_add[symmetric] add.commute)
  have "concat (map (\<lambda>i. wr_rows (r i)) [0..<Suc k]) = concat (map (\<lambda>i. take n (drop (i * n) (hits (snapshot a) spec sets))) [0..<Suc k])"
    using rows by (intro arg_cong[where f = concat] map_cong) auto
  with s tile[of "hits (snapshot a) spec sets" "Suc k"] show ?thesis by (intro exI[of _ sets]) (simp only: simp_thms)
qed

definition demo_page :: "nat \<Rightarrow> query_fail + window_result \<times> snapshot_index" where
  "demo_page i = window plain_view no_regex (demo_window\<lparr>ws_query := None, ws_offset := i * 2, ws_limit := 2\<rparr>)
     (snapshot_index_new (snapshot (pair_run live_config)))"

theorem window_pages_tile_witness:
  "concat (map (\<lambda>i. wr_rows (fst (projr (demo_page i)))) [0..<Suc 3]) =
    take (Suc 3 * 2) (hits (snapshot (pair_run live_config)) (demo_window\<lparr>ws_query := None\<rparr>) None)"
proof -
  have ok: "demo_page i = Inr (fst (projr (demo_page i)), snd (projr (demo_page i)))" for i
    unfolding demo_page_def
    using window_answer[OF pair_run_reachable[of live_config] pair_engine_plain index_new[of plain_view no_regex],
        of "demo_window\<lparr>ws_query := None, ws_offset := i * 2, ws_limit := 2\<rparr>"]
    by (cases "window plain_view no_regex (demo_window\<lparr>ws_query := None, ws_offset := i * 2, ws_limit := 2\<rparr>)
          (snapshot_index_new (snapshot (pair_run live_config)))") (auto simp: window_ref_def sets_for_ref_def)
  obtain sets where "sets_for_ref plain_view no_regex (snapshot (pair_run live_config)) (ws_query (demo_window\<lparr>ws_query := None\<rparr>)) = Inr sets"
    "concat (map (\<lambda>i. wr_rows (fst (projr (demo_page i)))) [0..<Suc 3]) =
      take (Suc 3 * 2) (hits (snapshot (pair_run live_config)) (demo_window\<lparr>ws_query := None\<rparr>) sets)"
    using window_pages_tile[OF pair_run_reachable pair_engine_plain index_new ok[unfolded demo_page_def], folded demo_page_def] by blast
  then show ?thesis by (simp add: sets_for_ref_def)
qed

end
