(* ===== verification/Hub.thy ===== *)
theory Hub
  imports Store_Props
begin

text \<open>
  \<open>pktflow-view/src/hub.rs\<close>: the bridge between the aggregation thread and its readers. The hub has one
  writer, so what a reader can observe is determined by how many of the writer's atomic actions have
  happened when each of its loads executes. A call of the writer is the list of its atomic actions in
  program order; a reader's loads see the states after non-decreasing numbers of actions, which is what
  the release stores, the acquire loads and the lock around the snapshot provide.
\<close>

record hub =
  hb_snapshot :: aggregator_snapshot
  hb_generation :: u64
  hb_finished :: bool
  hb_error :: "string option"
  hb_source :: string
  hb_mode :: string
  hb_progress_read :: u64
  hb_progress_total :: u64

definition empty_snapshot :: aggregator_snapshot where
  "empty_snapshot =
    \<lparr>sn_streams = [], sn_roots = [],
     sn_summary = \<lparr>sm_packets = 0, sm_bytes = 0, sm_streams_created = 0, sm_streams_live = 0, sm_flows_condensed = 0,
       sm_key_errors = 0, sm_per_protocol = [], sm_stop_classes = map (\<lambda>c. (c, 0)) STOP_CLASSES\<rparr>,
     sn_clock = 0, sn_unknowns = []\<rparr>"

definition hub_new :: "string \<Rightarrow> string \<Rightarrow> hub" where
  "hub_new source mode =
    \<lparr>hb_snapshot = empty_snapshot, hb_generation = 0, hb_finished = False, hb_error = None, hb_source = source,
     hb_mode = mode, hb_progress_read = 0, hb_progress_total = 0\<rparr>"

section \<open>The writer\<close>

text \<open>The stores of the writer's methods.\<close>

datatype hub_act = WriteSnapshot aggregator_snapshot | BumpGeneration | StoreFinished | WriteError string
  | StoreRead u64 | StoreTotal u64

fun act :: "hub_act \<Rightarrow> hub \<Rightarrow> hub" where
  "act (WriteSnapshot snap) h = h\<lparr>hb_snapshot := snap\<rparr>"
| "act BumpGeneration h = h\<lparr>hb_generation := hb_generation h + 1\<rparr>"
| "act StoreFinished h = h\<lparr>hb_finished := True\<rparr>"
| "act (WriteError m) h = h\<lparr>hb_error := Some m\<rparr>"
| "act (StoreRead r) h = h\<lparr>hb_progress_read := r\<rparr>"
| "act (StoreTotal t) h = h\<lparr>hb_progress_total := t\<rparr>"

definition publish :: "aggregator_snapshot \<Rightarrow> hub_act list" where
  "publish snap = [WriteSnapshot snap, BumpGeneration]"

definition mark_finished :: "hub_act list" where
  "mark_finished = [StoreFinished]"

definition set_error :: "string \<Rightarrow> hub_act list" where
  "set_error message = WriteError message # mark_finished"

definition set_progress :: "u64 \<Rightarrow> u64 \<Rightarrow> hub_act list" where
  "set_progress r t = [StoreRead r, StoreTotal t]"

datatype hub_call = Publish aggregator_snapshot | MarkFinished | SetError string | SetProgress u64 u64

fun call_acts :: "hub_call \<Rightarrow> hub_act list" where
  "call_acts (Publish snap) = publish snap"
| "call_acts MarkFinished = mark_finished"
| "call_acts (SetError m) = set_error m"
| "call_acts (SetProgress r t) = set_progress r t"

text \<open>The hub after the first \<open>n\<close> atomic actions of a sequence of calls.\<close>

definition hub_at :: "hub \<Rightarrow> hub_call list \<Rightarrow> nat \<Rightarrow> hub" where
  "hub_at h calls n = fold act (take n (concat (map call_acts calls))) h"

section \<open>Readers\<close>

definition latest :: "hub \<Rightarrow> aggregator_snapshot" where
  "latest h = hb_snapshot h"

definition generation :: "hub \<Rightarrow> u64" where
  "generation h = hb_generation h"

definition is_finished :: "hub \<Rightarrow> bool" where
  "is_finished h = hb_finished h"

definition error :: "hub \<Rightarrow> string option" where
  "error h = hb_error h"

text \<open>\<open>progress\<close> loads the total first and the count of bytes read later.\<close>

definition progress :: "hub \<Rightarrow> hub \<Rightarrow> (u64 \<times> u64) option" where
  "progress h h' = (let total = hb_progress_total h in if 0 < total then Some (min (hb_progress_read h') total, total) else None)"

section \<open>What readers observe\<close>

fun act_snaps :: "hub_act list \<Rightarrow> aggregator_snapshot list" where
  "act_snaps [] = []"
| "act_snaps (WriteSnapshot s # xs) = s # act_snaps xs"
| "act_snaps (_ # xs) = act_snaps xs"

definition bumps :: "hub_act list \<Rightarrow> nat" where
  "bumps xs = length (filter (\<lambda>x. x = BumpGeneration) xs)"

text \<open>The snapshot a hub starts with is that of a fresh store.\<close>

lemma empty_snapshot_new: "snapshot (aggregator_new H D e cfg) = empty_snapshot"
  by (simp add: snapshot_def summary_def streams_def arena_streams_def map_filter_def aggregator_new_def arena_new_def
      empty_snapshot_def STOP_CLASSES_def live_count_def registry_groups_def unknown_registry_new_def)

lemma act_snaps_append: "act_snaps (xs @ ys) = act_snaps xs @ act_snaps ys"
  by (induction xs rule: act_snaps.induct) simp_all

lemma fold_act_snapshot: "hb_snapshot (fold act xs h) = last (hb_snapshot h # act_snaps xs)"
  by (induction xs arbitrary: h rule: act_snaps.induct) simp_all

lemma fold_act_generation: "hb_generation (fold act xs h) = hb_generation h + of_nat (bumps xs)"
proof (induction xs arbitrary: h)
  case (Cons x xs)
  then show ?case by (cases x) (simp_all add: bumps_def)
qed (simp add: bumps_def)

definition call_snaps :: "hub_call list \<Rightarrow> aggregator_snapshot list" where
  "call_snaps calls = List.map_filter (\<lambda>c. case c of Publish s \<Rightarrow> Some s | _ \<Rightarrow> None) calls"

lemma snaps_calls: "act_snaps (concat (map call_acts calls)) = call_snaps calls"
proof (induction calls)
  case (Cons c cs)
  then show ?case
    by (cases c) (simp_all add: call_snaps_def publish_def mark_finished_def set_error_def set_progress_def map_filter_simps)
qed (simp add: call_snaps_def map_filter_simps)

text \<open>In every prefix of the actions, the snapshots written are at least the increments made.\<close>

lemma bumps_le_snaps: "bumps (take n (concat (map call_acts calls))) \<le> length (act_snaps (take n (concat (map call_acts calls))))"
proof (induction calls arbitrary: n)
  case (Cons c cs)
  note IH = Cons.IH[of "n - length (call_acts c)"]
  have one: "bumps (take n (call_acts c)) \<le> length (act_snaps (take n (call_acts c)))"
    by (cases c) (auto simp: publish_def mark_finished_def set_error_def set_progress_def bumps_def take_Cons split: nat.splits)
  show ?case using one IH by (simp add: bumps_def act_snaps_append)
qed (simp add: bumps_def)

lemma act_snaps_take_mono: "m \<le> n \<Longrightarrow> length (act_snaps (take m xs)) \<le> length (act_snaps (take n xs))"
  by (metis act_snaps_append append_take_drop_id le_add1 length_append min.absorb1 take_take)

lemma act_snaps_take: "act_snaps (take n xs) = take (length (act_snaps (take n xs))) (act_snaps xs)"
  by (metis act_snaps_append append_eq_conv_conj append_take_drop_id)

lemma reader_index:
  assumes "n \<le> m" and "length (call_snaps calls) < 2 ^ 64"
  shows "\<exists>k. unat (generation (hub_at (hub_new source mode) calls n)) \<le> k \<and> k \<le> length (call_snaps calls) \<and>
    latest (hub_at (hub_new source mode) calls m) = (empty_snapshot # call_snaps calls) ! k"
proof -
  let ?acts = "concat (map call_acts calls)" and ?h = "hub_new source mode"
  let ?k = "length (act_snaps (take m ?acts))"
  have le: "?k \<le> length (call_snaps calls)" by (metis act_snaps_take length_take min.cobounded1 min.commute snaps_calls)
  have b: "bumps (take n ?acts) \<le> ?k" using bumps_le_snaps[of n calls] act_snaps_take_mono[OF assms(1), of ?acts] by simp
  have "generation (hub_at ?h calls n) = of_nat (bumps (take n ?acts))"
    by (simp add: generation_def hub_at_def fold_act_generation hub_new_def)
  then have g: "unat (generation (hub_at ?h calls n)) \<le> ?k"
    using b le assms(2) by (simp add: unat_of_nat take_bit_eq_mod)
  have "latest (hub_at ?h calls m) = last (empty_snapshot # act_snaps (take m ?acts))"
    by (simp add: latest_def hub_at_def fold_act_snapshot hub_new_def)
  also have "\<dots> = (empty_snapshot # act_snaps (take m ?acts)) ! ?k" by (simp add: last_conv_nth)
  also have "\<dots> = (empty_snapshot # call_snaps calls) ! ?k"
    by (subst act_snaps_take) (simp add: snaps_calls nth_Cons' del: act_snaps.simps)
  finally show ?thesis using g le by blast
qed

text \<open>A reader that loads the generation and afterwards the snapshot never gets one older than the
  generation says: with generation \<open>g\<close> seen, the snapshot is that of publish number \<open>g\<close> or a later one.\<close>

theorem hub_reader_not_behind:
  assumes "n \<le> m" and "length (call_snaps calls) < 2 ^ 64"
  shows "\<exists>k. unat (generation (hub_at (hub_new source mode) calls n)) \<le> k \<and> k \<le> length (call_snaps calls) \<and>
    latest (hub_at (hub_new source mode) calls m) = (empty_snapshot # call_snaps calls) ! k"
  by (rule reader_index[OF assms])

theorem hub_reader_not_behind_witness:
  "\<exists>k. unat (generation (hub_at (hub_new [] ''live'') [Publish empty_snapshot, MarkFinished] 2)) \<le> k \<and> k \<le> 1 \<and>
    latest (hub_at (hub_new [] ''live'') [Publish empty_snapshot, MarkFinished] 3) = [empty_snapshot, empty_snapshot] ! k"
  using hub_reader_not_behind[of 2 3 "[Publish empty_snapshot, MarkFinished]" "[]" "''live''"]
  by (simp add: call_snaps_def map_filter_simps)

lemma fold_act_finished: "hb_finished (fold act xs h) \<longleftrightarrow> hb_finished h \<or> StoreFinished \<in> set xs"
proof (induction xs arbitrary: h)
  case (Cons x xs)
  then show ?case by (cases x) auto
qed simp

lemma fold_act_error: "list_all (\<lambda>x. case x of WriteError _ \<Rightarrow> False | _ \<Rightarrow> True) xs \<Longrightarrow> hb_error (fold act xs h) = hb_error h"
proof (induction xs arbitrary: h)
  case (Cons x xs)
  then show ?case by (cases x) auto
qed simp

definition ends_run :: "hub_call \<Rightarrow> bool" where
  "ends_run c \<longleftrightarrow> (case c of MarkFinished \<Rightarrow> True | SetError _ \<Rightarrow> True | _ \<Rightarrow> False)"

definition call_error :: "hub_call \<Rightarrow> string option" where
  "call_error c = (case c of SetError m \<Rightarrow> Some m | _ \<Rightarrow> None)"

lemma running_acts:
  "list_all (\<lambda>c. \<not> ends_run c) calls \<Longrightarrow>
    StoreFinished \<notin> set (concat (map call_acts calls)) \<and>
    list_all (\<lambda>x. case x of WriteError _ \<Rightarrow> False | _ \<Rightarrow> True) (concat (map call_acts calls))"
proof (induction calls)
  case (Cons c cs)
  then show ?case by (cases c) (auto simp: ends_run_def publish_def set_progress_def)
qed simp

text \<open>A reader that sees the run finished sees its end: every later load of the snapshot gives the
  last one published, of the generation the number of publishes, and of the error the message with
  which the writer ended the run, if it did so with one.\<close>

theorem hub_finished_final:
  assumes "list_all (\<lambda>c. \<not> ends_run c) calls" and "ends_run c"
    and "is_finished (hub_at (hub_new source mode) (calls @ [c]) n)" and "n \<le> m"
  shows "latest (hub_at (hub_new source mode) (calls @ [c]) m) = last (empty_snapshot # call_snaps calls) \<and>
    generation (hub_at (hub_new source mode) (calls @ [c]) m) = of_nat (length (call_snaps calls)) \<and>
    error (hub_at (hub_new source mode) (calls @ [c]) m) = call_error c"
proof -
  let ?acts = "concat (map call_acts calls)"
  note run = running_acts[OF assms(1)]
  have fin: "StoreFinished \<in> set (take n (?acts @ call_acts c))"
    using assms(3) by (simp add: is_finished_def hub_at_def fold_act_finished hub_new_def)
  have "length (?acts @ call_acts c) \<le> n"
  proof (rule ccontr)
    assume "\<not> length (?acts @ call_acts c) \<le> n"
    then have "set (take n (?acts @ call_acts c)) \<subseteq> set (butlast (?acts @ call_acts c))"
      by (metis butlast_conv_take le_simps(2) set_take_subset_set_take leI Suc_diff_1 length_greater_0_conv list.size(3) not_less_zero less_Suc_eq_le)
    moreover have "StoreFinished \<notin> set (butlast (?acts @ call_acts c))"
      using run assms(2) by (cases c) (auto simp: ends_run_def mark_finished_def set_error_def butlast_append)
    ultimately show False using fin by blast
  qed
  with assms(4) have all: "hub_at (hub_new source mode) (calls @ [c]) m = fold act (?acts @ call_acts c) (hub_new source mode)"
    by (simp add: hub_at_def)
  have b: "bumps ?acts = length (call_snaps calls)"
  proof (induction calls)
    case (Cons d ds)
    then show ?case
      by (cases d) (simp_all add: bumps_def call_snaps_def publish_def mark_finished_def set_error_def set_progress_def map_filter_simps)
  qed (simp add: bumps_def call_snaps_def map_filter_simps)
  have "hb_error (fold act ?acts (hub_new source mode)) = None" using run fold_act_error by (simp add: hub_new_def)
  moreover have "hb_snapshot (fold act ?acts (hub_new source mode)) = last (empty_snapshot # call_snaps calls)"
    by (simp add: fold_act_snapshot snaps_calls hub_new_def)
  moreover have "hb_generation (fold act ?acts (hub_new source mode)) = of_nat (length (call_snaps calls))"
    by (simp add: fold_act_generation b hub_new_def)
  ultimately show ?thesis using assms(2) unfolding all latest_def generation_def error_def
    by (cases c) (simp_all add: ends_run_def call_error_def mark_finished_def set_error_def)
qed

theorem hub_finished_final_witness:
  "latest (hub_at (hub_new [] ''live'') ([Publish empty_snapshot] @ [SetError ''gone'']) 4) = empty_snapshot \<and>
   generation (hub_at (hub_new [] ''live'') ([Publish empty_snapshot] @ [SetError ''gone'']) 4) = 1 \<and>
   error (hub_at (hub_new [] ''live'') ([Publish empty_snapshot] @ [SetError ''gone'']) 4) = Some ''gone''"
proof -
  have "is_finished (hub_at (hub_new [] ''live'') ([Publish empty_snapshot] @ [SetError ''gone'']) 4)"
    by (simp add: is_finished_def hub_at_def publish_def set_error_def mark_finished_def)
  from hub_finished_final[of "[Publish empty_snapshot]" "SetError ''gone''" "[]" "''live''" 4 4, OF _ _ this]
  show ?thesis by (simp add: ends_run_def call_snaps_def map_filter_simps call_error_def)
qed

end
