(* ===== verification/Json_View.thy ===== *)
theory Json_View
  imports Stream_View
begin

text \<open>
  \<open>pktflow-view/src/json.rs\<close>: the JSON record of a stream shared by the command line and the web
  interface. An object is an association list updated by key. The formatter of time stamps, a function of
  the \<open>time\<close> crate, is the parameter \<open>rfc3339\<close>. No key field is lost or duplicated by the split
  into endpoints and qualifiers.
\<close>

type_synonym json_map = "(string, json) hmap"

fun direction_json :: "packet_direction \<Rightarrow> string" where
  "direction_json AtoB = ''a_to_b''"
| "direction_json BtoA = ''b_to_a''"

fun close_reason_json :: "close_reason \<Rightarrow> string" where
  "close_reason_json ProtocolClose = ''protocol_close''"
| "close_reason_json IdleTimeout = ''idle_timeout''"
| "close_reason_json LruEvicted = ''lru_evicted''"
| "close_reason_json CaptureEnd = ''capture_end''"

text \<open>\<open>json!\<close> of an optional value.\<close>

definition json_opt :: "('a \<Rightarrow> json) \<Rightarrow> 'a option \<Rightarrow> json" where
  "json_opt f x = (case x of Some v \<Rightarrow> f v | None \<Rightarrow> JNull)"

fun field_value_json :: "view_env \<Rightarrow> string \<Rightarrow> string \<Rightarrow> value_t \<Rightarrow> json" where
  "field_value_json ve protocol name (U64 v) = JU64 v"
| "field_value_json ve protocol name (I64 v) = JI64 v"
| "field_value_json ve protocol name (VBool v) = JBool v"
| "field_value_json ve protocol name (Str s) = JStr s"
| "field_value_json ve protocol name (Bytes b) = JStr (field_value_str ve protocol name (Bytes b))"
| "field_value_json ve protocol name (VList items) = JSeq (map (field_value_json ve protocol name) items)"

section \<open>Endpoints\<close>

text \<open>One key field of the loop.\<close>

definition file_key_field :: "view_env \<Rightarrow> stream \<Rightarrow> string \<times> value_t \<Rightarrow> json_map \<times> json_map \<times> json_map \<Rightarrow> json_map \<times> json_map \<times> json_map" where
  "file_key_field ve s = (\<lambda>(name, v) (a, b, key).
    let js = field_value_json ve (st_protocol s) in
    case Option.bind (strip_prefix name ''src_'')
        (\<lambda>suffix. map_option (Pair (''dst_'' @ suffix)) (fm_get (st_key_fields s) (''dst_'' @ suffix))) of
      Some (dst_name, dst_value) \<Rightarrow>
        (case st_initiator s of
           AtoB \<Rightarrow> (hm_set name (js name v) a, hm_set dst_name (js dst_name dst_value) b, key)
         | BtoA \<Rightarrow> (hm_set dst_name (js dst_name dst_value) a, hm_set name (js name v) b, key))
    | None \<Rightarrow>
        if starts_with name ''dst_'' \<and> fm_get (st_key_fields s) (''src_'' @ drop 4 name) \<noteq> None then (a, b, key)
        else if name \<noteq> ''app'' then (a, b, hm_set name (js name v) key)
        else (a, b, key))"

definition endpoint_maps :: "view_env \<Rightarrow> stream \<Rightarrow> json_map \<times> json_map \<times> json_map" where
  "endpoint_maps ve s =
    (case st_condensed s of
       Some info \<Rightarrow>
        (let f = ci_ephemeral_field info in
         case fm_get (st_key_fields s) f of
           Some v \<Rightarrow> (hm_set f (field_value_json ve (st_protocol s) f v) [], hm_set f (JStr ''*'') [], [])
         | None \<Rightarrow> ([], [], []))
     | None \<Rightarrow> fold (file_key_field ve s) (st_key_fields s) ([], [], []))"

definition endpoint_json :: "view_env \<Rightarrow> stream \<Rightarrow> json \<times> json \<times> json" where
  "endpoint_json ve s = (case endpoint_maps ve s of (a, b, key) \<Rightarrow> (JMap a, JMap b, JMap key))"

section \<open>Rollups and records\<close>

definition rollup_json :: "view_env \<Rightarrow> (system_time \<Rightarrow> string) \<Rightarrow> system_time \<Rightarrow> string \<Rightarrow> string \<Rightarrow> rollup \<Rightarrow> json" where
  "rollup_json ve rfc3339 base protocol field r =
    (let render = (\<lambda>v. JStr (field_value_str ve protocol field v)) in
     case r of
       RAccumulate vs n overflow \<Rightarrow>
        JMap [(''kind'', JStr ''accumulate''), (''values'', JSeq (map render vs)), (''distinct'', JU64 (of_nat (length vs))),
          (''observations'', JU64 n), (''overflow'', JBool overflow)]
     | RSample fst_v lst_v \<Rightarrow>
        JMap [(''kind'', JStr ''sample''), (''first'', json_opt render fst_v), (''last'', json_opt render lst_v)]
     | RSeries ring _ truncated \<Rightarrow>
        JMap [(''kind'', JStr ''series''),
          (''points'', JSeq (map (\<lambda>p. JMap [(''ts'', JStr (rfc3339 (sp_ts p base))), (''dir'', JStr (direction_json (sp_dir p))),
            (''value'', render (sp_value p))]) ring)),
          (''truncated'', JBool truncated)])"

definition stream_record :: "view_env \<Rightarrow> (system_time \<Rightarrow> string) \<Rightarrow> (stream_id \<Rightarrow> u64 option) \<Rightarrow> stream \<Rightarrow> json_map" where
  "stream_record ve rfc3339 seq_of s =
    (case endpoint_json ve s of (endpoint_a, endpoint_b, key) \<Rightarrow>
     [(''id'', JU64 (st_created_seq s)),
      (''protocol'', JStr (st_protocol s)),
      (''parent'', json_opt JU64 (Option.bind (st_parent s) seq_of)),
      (''children'', JSeq (map JU64 (List.map_filter seq_of (st_children s)))),
      (''endpoint_a'', endpoint_a),
      (''endpoint_b'', endpoint_b),
      (''key'', key),
      (''initiator'', JStr (direction_json (st_initiator s))),
      (''state'', json_opt JStr (st_state s)),
      (''closed'', json_opt (\<lambda>r. JStr (close_reason_json r)) (st_closed s)),
      (''first_seen'', JStr (rfc3339 (st_first_seen s))),
      (''last_seen'', JStr (rfc3339 (st_last_seen s))),
      (''packets'', JMap [(''a_to_b'', JU64 (ds_packets (st_stats s ! 0))), (''b_to_a'', JU64 (ds_packets (st_stats s ! 1)))]),
      (''bytes'', JMap [(''a_to_b'', JU64 (ds_bytes (st_stats s ! 0))), (''b_to_a'', JU64 (ds_bytes (st_stats s ! 1)))]),
      (''opaque_bytes'', JU64 (st_opaque_bytes s)),
      (''rollups'', JMap (fold (\<lambda>(field, r). hm_set field (rollup_json ve rfc3339 (st_first_seen s) (st_protocol s) field r)) (st_rollups s) []))] @
     (case st_condensed s of
        Some info \<Rightarrow> [(''condensed'', JMap [(''member_flows'', JU64 (ci_member_flows info)),
          (''ephemeral_field'', JStr (ci_ephemeral_field info)), (''overflow'', JBool (ci_overflow info))])]
      | None \<Rightarrow> []))"

section \<open>The split into endpoints loses nothing\<close>

text \<open>The fields that go to one of the sides: those whose partner is in the key.\<close>

definition paired :: "field_map \<Rightarrow> string \<Rightarrow> bool" where
  "paired fm n \<longleftrightarrow> (\<exists>suf. n = ''src_'' @ suf \<and> fm_get fm (''dst_'' @ suf) \<noteq> None \<or> n = ''dst_'' @ suf \<and> fm_get fm (''src_'' @ suf) \<noteq> None)"

text \<open>The field of the loop that files \<open>n\<close>.\<close>

definition filer :: "field_map \<Rightarrow> string \<Rightarrow> string" where
  "filer fm n = (if paired fm n \<and> starts_with n ''dst_'' then ''src_'' @ drop 4 n else n)"

definition merged :: "json_map \<times> json_map \<times> json_map \<Rightarrow> string \<Rightarrow> json list" where
  "merged = (\<lambda>(a, b, key) n. List.map_filter (\<lambda>m. hm_get m n) [a, b, key])"

lemma merged_apply: "merged (a, b, key) n =
    (case hm_get a n of Some j \<Rightarrow> [j] | None \<Rightarrow> []) @ (case hm_get b n of Some j \<Rightarrow> [j] | None \<Rightarrow> []) @
    (case hm_get key n of Some j \<Rightarrow> [j] | None \<Rightarrow> [])"
  by (simp add: merged_def map_filter_def split: option.split)

definition filed :: "view_env \<Rightarrow> stream \<Rightarrow> string \<Rightarrow> json list" where
  "filed ve s n =
    (case fm_get (st_key_fields s) n of
       Some v \<Rightarrow> if n = ''app'' then [] else [field_value_json ve (st_protocol s) n v]
     | None \<Rightarrow> [])"

lemma strip_prefix_Some: "strip_prefix s p = Some r \<longleftrightarrow> s = p @ r"
  by (auto simp: strip_prefix_def starts_with_iff)

lemma file_key_field_step:
  assumes v: "fm_get (st_key_fields s) name = Some v"
    and fresh: "\<And>n. filer (st_key_fields s) n = name \<Longrightarrow> merged st n = []"
  shows "merged (file_key_field ve s (name, v) st) n =
    (if filer (st_key_fields s) n = name then filed ve s n else merged st n)"
proof -
  let ?F = "st_key_fields s" and ?js = "field_value_json ve (st_protocol s)"
  obtain a b key where st: "st = (a, b, key)" by (cases st)
  consider (src) suf d where "name = ''src_'' @ suf" "fm_get ?F (''dst_'' @ suf) = Some d"
    | (dst) suf where "name = ''dst_'' @ suf" "fm_get ?F (''src_'' @ suf) \<noteq> None"
    | (other) "\<not> paired ?F name"
    unfolding paired_def by blast
  then show ?thesis
  proof cases
    case src
    then have b: "Option.bind (strip_prefix name ''src_'') (\<lambda>t. map_option (Pair (''dst_'' @ t)) (fm_get ?F (''dst_'' @ t))) =
        Some (''dst_'' @ suf, d)"
      by (simp add: strip_prefix_def starts_with_def)
    have f: "filer ?F m = name \<longleftrightarrow> m = name \<or> m = ''dst_'' @ suf" for m
      using src v by (auto simp: filer_def paired_def starts_with_iff)
    define dn where "dn = ''dst_'' @ suf"
    have "merged st name = []" "merged st dn = []" using fresh f unfolding dn_def by blast+
    then have none: "hm_get a name = None" "hm_get b name = None" "hm_get key name = None"
      "hm_get a dn = None" "hm_get b dn = None" "hm_get key dn = None"
      by (simp_all add: st merged_apply split: option.splits)
    have ne: "name \<noteq> dn" "name \<noteq> ''app''" "dn \<noteq> ''app''" using src(1) by (simp_all add: dn_def)
    have e: "file_key_field ve s (name, v) st =
      (case st_initiator s of AtoB \<Rightarrow> (hm_set name (?js name v) a, hm_set dn (?js dn d) b, key)
       | BtoA \<Rightarrow> (hm_set dn (?js dn d) a, hm_set name (?js name v) b, key))"
      unfolding file_key_field_def st dn_def by (simp only: prod.case Let_def b option.case)
    have fl: "filed ve s name = [?js name v]" "filed ve s dn = [?js dn d]"
      using src(2) v ne(2,3) unfolding filed_def dn_def[symmetric] by simp_all
    show ?thesis unfolding e f dn_def[symmetric] using none ne(1) fl
      by (cases "st_initiator s") (auto simp: merged_apply st)
  next
    case dst
    have b: "strip_prefix name ''src_'' = None" using dst(1) by (simp add: strip_prefix_def starts_with_def)
    have f: "filer ?F m \<noteq> name" for m using dst v by (auto simp: filer_def paired_def starts_with_iff)
    have "starts_with name ''dst_'' \<and> fm_get ?F (''src_'' @ drop 4 name) \<noteq> None" using dst by (simp add: starts_with_def)
    then have "file_key_field ve s (name, v) st = st" by (simp add: file_key_field_def st b)
    with f show ?thesis by simp
  next
    case other
    have b: "Option.bind (strip_prefix name ''src_'') (\<lambda>t. map_option (Pair (''dst_'' @ t)) (fm_get ?F (''dst_'' @ t))) = None"
    proof (cases "strip_prefix name ''src_''")
      case (Some t)
      then have "fm_get ?F (''dst_'' @ t) = None" using other unfolding strip_prefix_Some paired_def by blast
      with Some show ?thesis by simp
    qed simp
    have nd: "\<not> (starts_with name ''dst_'' \<and> fm_get ?F (''src_'' @ drop 4 name) \<noteq> None)"
      using other by (auto simp: starts_with_iff paired_def)
    have f: "m = name" if m: "filer ?F m = name" "filed ve s m \<noteq> []" for m
    proof (rule ccontr)
      assume "m \<noteq> name"
      then obtain t where t: "m = ''dst_'' @ t" using m(1) unfolding filer_def starts_with_iff by (auto split: if_splits)
      have "fm_get ?F m \<noteq> None" using m(2) unfolding filed_def by (auto split: option.splits)
      moreover have "name = ''src_'' @ t" using m(1) \<open>m \<noteq> name\<close> t unfolding filer_def by (auto split: if_splits)
      ultimately show False using other t unfolding paired_def by blast
    qed
    have fn: "filer ?F name = name" using other by (simp add: filer_def)
    have name: "merged (file_key_field ve s (name, v) st) name = filed ve s name"
      using fresh[OF fn] v nd b by (auto simp: file_key_field_def st filed_def merged_apply Let_def split: option.splits)
    have "merged (file_key_field ve s (name, v) st) m = merged st m" if "m \<noteq> name" for m
      using that nd b by (auto simp: file_key_field_def st merged_apply Let_def)
    with name fresh f fn show ?thesis by metis
  qed
qed

lemma endpoints_fold:
  assumes "distinct (fm_names (st_key_fields s))" "set xs \<subseteq> set (st_key_fields s)" "distinct (map fst xs)"
  shows "merged (fold (file_key_field ve s) xs ([], [], [])) n =
    (if filer (st_key_fields s) n \<in> fst ` set xs then filed ve s n else [])"
  using assms(2,3)
proof (induction xs arbitrary: n rule: rev_induct)
  case Nil
  then show ?case by (simp add: merged_apply)
next
  case (snoc x xs)
  obtain name v where x: "x = (name, v)" by (cases x)
  have get: "distinct (fm_names es) \<Longrightarrow> (name, v) \<in> set es \<Longrightarrow> fm_get es name = Some v" for es
    by (induction es) (auto simp: fm_names_def rev_image_eqI)
  have "fm_get (st_key_fields s) name = Some v" using snoc.prems(1) x get[OF assms(1)] by simp
  moreover have "merged (fold (file_key_field ve s) xs ([], [], [])) m = []" if "filer (st_key_fields s) m = name" for m
    using snoc.IH[of m] snoc.prems that x by auto
  ultimately show ?case using file_key_field_step[of s name v "fold (file_key_field ve s) xs ([], [], [])" ve n] snoc x by auto
qed

lemma filer_mem: "fm_get fm n \<noteq> None \<Longrightarrow> filer fm n \<in> fst ` set fm"
proof -
  assume "fm_get fm n \<noteq> None"
  then have "fm_get fm (filer fm n) \<noteq> None" by (auto simp: filer_def paired_def starts_with_iff)
  then show ?thesis using fm_get_None_iff[of fm "filer fm n"] by (auto simp: fm_names_def)
qed

text \<open>The endpoint split of a stream's record is a partition of its key fields: looked up in the two
  endpoint objects and the qualifier object together, every key field but the redundant \<open>app\<close> is found
  exactly once, with its value, and nothing else is found.\<close>

theorem endpoint_json_partition:
  assumes "st_condensed s = None" and "distinct (fm_names (st_key_fields s))"
  shows "merged (endpoint_maps ve s) n =
    (case fm_get (st_key_fields s) n of
       Some v \<Rightarrow> if n = ''app'' then [] else [field_value_json ve (st_protocol s) n v]
     | None \<Rightarrow> [])"
proof -
  have "merged (endpoint_maps ve s) n = (if filer (st_key_fields s) n \<in> fst ` set (st_key_fields s) then filed ve s n else [])"
    using endpoints_fold[OF assms(2) order_refl, of ve n] assms by (simp add: endpoint_maps_def fm_names_def)
  also have "\<dots> = filed ve s n" using filer_mem[of "st_key_fields s" n] by (auto simp: filed_def split: option.splits)
  finally show ?thesis by (simp add: filed_def)
qed

definition demo_stream :: stream where
  "demo_stream = \<lparr>st_id = \<lparr>sid_index = 0, sid_generation = 0\<rparr>, st_protocol = ''udp'', st_key = [],
     st_key_fields = [(''src_port'', U64 5000), (''dst_port'', U64 53), (''app'', Str ''dns''), (''vni'', U64 7)],
     st_parent = None, st_children = [], st_initiator = BtoA, st_first_seen = 0, st_last_seen = 0,
     st_stats = [\<lparr>ds_packets = 1, ds_bytes = 60\<rparr>, \<lparr>ds_packets = 0, ds_bytes = 0\<rparr>], st_opaque_bytes = 0,
     st_state = None, st_rollups = [], st_closed = None, st_close_eligible = False, st_close_eligible_since = None,
     st_created_seq = 1, st_condensed = None\<rparr>"

theorem endpoint_json_partition_witness:
  "merged (endpoint_maps \<lparr>ve_resolver = None, ve_upper = id, ve_lower = id\<rparr> demo_stream) ''dst_port'' = [JU64 53] \<and>
   merged (endpoint_maps \<lparr>ve_resolver = None, ve_upper = id, ve_lower = id\<rparr> demo_stream) ''app'' = []"
proof -
  have c: "st_condensed demo_stream = None" "distinct (fm_names (st_key_fields demo_stream))"
    by (simp_all add: demo_stream_def fm_names_def)
  show ?thesis unfolding endpoint_json_partition[OF c] by (simp add: demo_stream_def)
qed

end
