(* ===== verification/Stream_Tree.thy ===== *)
theory Stream_Tree
  imports View_Index_Props
begin

text \<open>
  \<open>pktflow-tui/src/tree.rs\<close>: the stream hierarchy flattened to the visible rows of the tree pane, under a
  sort order, a set of collapsed streams and a query. The index is threaded through as the code does. The
  recursion over children runs on fuel, the row cap: every level pushes a row before it descends, so the
  cap stops the walk before the fuel does. The rows are the capped preorder of the visible forest, whatever the
  index had cached, and every stream a query keeps is shown while the cap is not reached.
\<close>

section \<open>Sorting siblings\<close>

datatype tree_sort = ByBytes | ByPackets | ByFirstSeen | ByDuration

fun sort_next :: "tree_sort \<Rightarrow> tree_sort" where
  "sort_next ByBytes = ByPackets"
| "sort_next ByPackets = ByFirstSeen"
| "sort_next ByFirstSeen = ByDuration"
| "sort_next ByDuration = ByBytes"

fun sort_label :: "tree_sort \<Rightarrow> string" where
  "sort_label ByBytes = ''bytes''"
| "sort_label ByPackets = ''packets''"
| "sort_label ByFirstSeen = ''first-seen''"
| "sort_label ByDuration = ''duration''"

record tree_row =
  tr_stream :: stream
  tr_prefix :: string
  tr_has_children :: bool
  tr_expanded :: bool

definition sort_siblings :: "tree_sort \<Rightarrow> stream list \<Rightarrow> stream list" where
  "sort_siblings srt ss =
    (case srt of
       ByBytes \<Rightarrow> List.sort_key (\<lambda>s. - int (unat (total_bytes s))) ss
     | ByPackets \<Rightarrow> List.sort_key (\<lambda>s. - int (unat (total_packets s))) ss
     | ByFirstSeen \<Rightarrow> List.sort_key st_created_seq ss
     | ByDuration \<Rightarrow> List.sort_key (\<lambda>s. - int (nat (st_last_seen s - st_first_seen s))) ss)"

section \<open>Flattening\<close>

definition MAX_ROWS :: nat where "MAX_ROWS = 10000"

text \<open>\<open>str::replace\<close>, and the glyphs of a prefix as the bytes of their UTF-8 encoding.\<close>

function str_replace :: "string \<Rightarrow> string \<Rightarrow> string \<Rightarrow> string" where
  "str_replace pat new s =
    (case s of
       [] \<Rightarrow> []
     | c # cs \<Rightarrow>
        if pat \<noteq> [] \<and> take (length pat) s = pat then new @ str_replace pat new (drop (length pat) s)
        else c # str_replace pat new cs)"
  by pat_completeness auto
termination by (relation "measure (\<lambda>(_, _, s). length s)") auto

declare str_replace.simps [simp del]

definition dash :: string where "dash = [CHR 0xE2, CHR 0x94, CHR 0x80]"
definition branch_glyph :: string where "branch_glyph = [CHR 0xE2, CHR 0x94, CHR 0x9C] @ dash @ '' ''"
definition last_glyph :: string where "last_glyph = [CHR 0xE2, CHR 0x94, CHR 0x94] @ dash @ '' ''"
definition bar_glyph :: string where "bar_glyph = [CHR 0xE2, CHR 0x94, CHR 0x82] @ ''  ''"
definition blank_glyph :: string where "blank_glyph = ''   ''"

definition bare_prefix :: "string \<Rightarrow> string" where
  "bare_prefix prefix = str_replace last_glyph blank_glyph (str_replace branch_glyph bar_glyph prefix)"

text \<open>\<open>ids.iter().filter_map(by_id).filter(visible)\<close> and the sort.\<close>

fun resolve_all :: "stream_id list \<Rightarrow> snapshot_index \<Rightarrow> stream list \<times> snapshot_index" where
  "resolve_all [] idx = ([], idx)"
| "resolve_all (h # hs) idx =
    (case index_by_id h idx of (s, idx1) \<Rightarrow>
     case resolve_all hs idx1 of (ss, idx2) \<Rightarrow> ((case s of Some x \<Rightarrow> x # ss | None \<Rightarrow> ss), idx2))"

definition siblings :: "tree_sort \<Rightarrow> u64 set option \<Rightarrow> stream_id list \<Rightarrow> snapshot_index \<Rightarrow> stream list \<times> snapshot_index" where
  "siblings srt visible hs idx =
    (case resolve_all hs idx of (ss, idx') \<Rightarrow> (sort_siblings srt (filter (kept visible) ss), idx'))"

definition is_expanded :: "u64 set \<Rightarrow> u64 set option \<Rightarrow> stream \<Rightarrow> bool" where
  "is_expanded collapsed visible s \<longleftrightarrow> visible \<noteq> None \<or> st_created_seq s \<notin> collapsed"

type_synonym flat_state = "tree_row list \<times> snapshot_index"

function push_subtree :: "nat \<Rightarrow> tree_sort \<Rightarrow> u64 set \<Rightarrow> u64 set option \<Rightarrow> string \<Rightarrow> stream \<Rightarrow> flat_state \<Rightarrow> flat_state"
  and push_children :: "nat \<Rightarrow> tree_sort \<Rightarrow> u64 set \<Rightarrow> u64 set option \<Rightarrow> string \<Rightarrow> stream list \<Rightarrow> flat_state \<Rightarrow> flat_state" where
  "push_subtree 0 srt collapsed visible prefix s st = st"
| "push_subtree (Suc n) srt collapsed visible prefix s (rows, idx) =
    (if MAX_ROWS \<le> length rows then (rows, idx)
     else
     case siblings srt visible (st_children s) idx of (kids, idx1) \<Rightarrow>
     let expanded = is_expanded collapsed visible s;
         rows1 = rows @ [\<lparr>tr_stream = s, tr_prefix = prefix, tr_has_children = (kids \<noteq> []), tr_expanded = expanded\<rparr>] in
     if \<not> expanded then (rows1, idx1)
     else push_children n srt collapsed visible (bare_prefix prefix) kids (rows1, idx1))"
| "push_children n srt collapsed visible bare [] st = st"
| "push_children n srt collapsed visible bare (c # cs) (rows, idx) =
    (if MAX_ROWS \<le> length rows then (rows, idx)
     else push_children n srt collapsed visible bare cs
       (push_subtree n srt collapsed visible (bare @ (if cs = [] then last_glyph else branch_glyph)) c (rows, idx)))"
  by pat_completeness auto
termination
  by (relation "measures [\<lambda>x. case x of Inl (n, _) \<Rightarrow> n | Inr (n, _) \<Rightarrow> n,
       \<lambda>x. case x of Inl _ \<Rightarrow> 0 | Inr (_, _, _, _, _, cs, _) \<Rightarrow> Suc (length cs)]") auto

fun push_roots :: "tree_sort \<Rightarrow> u64 set \<Rightarrow> u64 set option \<Rightarrow> stream list \<Rightarrow> flat_state \<Rightarrow> flat_state" where
  "push_roots srt collapsed visible [] st = st"
| "push_roots srt collapsed visible (s # ss) (rows, idx) =
    (if MAX_ROWS \<le> length rows then (rows, idx)
     else push_roots srt collapsed visible ss (push_subtree MAX_ROWS srt collapsed visible [] s (rows, idx)))"

definition flatten :: "view_env \<Rightarrow> 'r regex_env \<Rightarrow> tree_sort \<Rightarrow> u64 set \<Rightarrow> string option \<Rightarrow> snapshot_index \<Rightarrow>
    query_fail + flat_state" where
  "flatten ve env srt collapsed query idx =
    and_then (sets_for ve env query idx) (\<lambda>(sets, idx1).
      let visible = map_option snd sets in
      case siblings srt visible (sn_roots (si_snap idx1)) idx1 of (tops, idx2) \<Rightarrow>
      Inr (push_roots srt collapsed visible tops ([], idx2)))"

section \<open>The rows are the capped preorder\<close>

definition look :: "aggregator_snapshot \<Rightarrow> stream_id \<Rightarrow> stream option" where
  "look snap h = List.find (\<lambda>s. st_id s = h) (sn_streams snap)"

definition kids_ref :: "tree_sort \<Rightarrow> u64 set option \<Rightarrow> aggregator_snapshot \<Rightarrow> stream_id list \<Rightarrow> stream list" where
  "kids_ref srt visible snap hs = sort_siblings srt (filter (kept visible) (List.map_filter (look snap) hs))"

fun preorder :: "nat \<Rightarrow> (stream \<Rightarrow> bool) \<Rightarrow> (stream \<Rightarrow> stream list) \<Rightarrow> stream \<Rightarrow> stream list" where
  "preorder 0 open_node kids s = []"
| "preorder (Suc n) open_node kids s = s # (if open_node s then concat (map (preorder n open_node kids) (kids s)) else [])"

lemma look_Some: "distinct (map st_id (sn_streams snap)) \<Longrightarrow> look snap h = Some s \<longleftrightarrow> s \<in> set (sn_streams snap) \<and> st_id s = h"
proof -
  assume d: "distinct (map st_id (sn_streams snap))"
  have "List.find (\<lambda>s. st_id s = h) xs = Some s \<longleftrightarrow> s \<in> set xs \<and> st_id s = h" if "distinct (map st_id xs)" for xs
    using that by (induction xs) auto
  then show ?thesis using d by (simp add: look_def)
qed

lemma index_by_id_look:
  assumes "cache_ok ve env snap idx" "snap_ok snap"
  shows "fst (index_by_id h idx) = look snap h" "cache_ok ve env snap (snd (index_by_id h idx))"
proof -
  have "fst (index_by_id h idx) = Some s \<longleftrightarrow> look snap h = Some s" for s
    using index_by_id_ok(1)[OF assms] assms(2) by (simp add: look_Some snap_ok_def)
  then show "fst (index_by_id h idx) = look snap h" by (metis not_None_eq)
qed (rule index_by_id_ok(2)[OF assms])

lemma resolve_all_ok:
  assumes "snap_ok snap"
  shows "cache_ok ve env snap idx \<Longrightarrow> fst (resolve_all hs idx) = List.map_filter (look snap) hs \<and>
    cache_ok ve env snap (snd (resolve_all hs idx))"
proof (induction hs arbitrary: idx)
  case (Cons h hs)
  note 1 = index_by_id_look[OF Cons.prems assms, of h]
  show ?case using 1 Cons.IH[OF 1(2)] by (simp add: case_prod_unfold map_filter_simps split: option.split)
qed (simp add: map_filter_simps)

lemma siblings_ok:
  assumes "cache_ok ve env snap idx" "snap_ok snap"
  shows "fst (siblings srt visible hs idx) = kids_ref srt visible snap hs" "cache_ok ve env snap (snd (siblings srt visible hs idx))"
  using resolve_all_ok[OF assms(2,1), of hs] by (simp_all add: siblings_def kids_ref_def case_prod_unfold)

definition shows_rows :: "view_env \<Rightarrow> 'r regex_env \<Rightarrow> aggregator_snapshot \<Rightarrow> flat_state \<Rightarrow> stream list \<Rightarrow> bool" where
  "shows_rows ve env snap st ss \<longleftrightarrow> map tr_stream (fst st) = take MAX_ROWS ss \<and> cache_ok ve env snap (snd st)"

lemma shows_rows_full:
  assumes "shows_rows ve env snap st ss" "MAX_ROWS \<le> length (fst st)"
  shows "shows_rows ve env snap st (ss @ ts)"
proof -
  have "length (take MAX_ROWS ss) = length (fst st)" using assms(1) by (metis shows_rows_def length_map)
  then have "MAX_ROWS \<le> length ss" using assms(2) by simp
  then show ?thesis using assms(1) by (simp add: shows_rows_def)
qed

lemma shows_rows_room:
  assumes "shows_rows ve env snap st ss" "length (fst st) < MAX_ROWS"
  shows "map tr_stream (fst st) = ss" "length ss < MAX_ROWS"
proof -
  have "length (take MAX_ROWS ss) = length (fst st)" using assms(1) by (metis shows_rows_def length_map)
  then show "length ss < MAX_ROWS" using assms(2) by (auto simp: min_def split: if_splits)
  then show "map tr_stream (fst st) = ss" using assms(1) by (simp add: shows_rows_def)
qed

lemma push_preorder:
  fixes ve :: view_env and env :: "'r regex_env"
  assumes "snap_ok snap"
  defines "ex \<equiv> \<lambda>c v. is_expanded c v" and "kids \<equiv> \<lambda>o' v s. kids_ref o' v snap (st_children s)"
  shows "shows_rows ve env snap st ss \<Longrightarrow>
      shows_rows ve env snap (push_subtree n srt c v prefix s st) (ss @ preorder n (ex c v) (kids srt v) s)"
    and "shows_rows ve env snap st ss \<Longrightarrow>
      shows_rows ve env snap (push_children n srt c v bare cs st) (ss @ concat (map (preorder n (ex c v) (kids srt v)) cs))"
proof (induction n srt c v prefix s st and n srt c v bare cs st arbitrary: ss and ss rule: push_subtree_push_children.induct)
  case (2 n srt c v prefix s rows idx)
  show ?case
  proof (cases "MAX_ROWS \<le> length rows")
    case True
    then show ?thesis using shows_rows_full[OF 2(2)] by simp
  next
    case False
    obtain ks idx1 where sib: "siblings srt v (st_children s) idx = (ks, idx1)" by fastforce
    let ?rows = "rows @ [\<lparr>tr_stream = s, tr_prefix = prefix, tr_has_children = (ks \<noteq> []), tr_expanded = is_expanded c v s\<rparr>]"
    have cache: "cache_ok ve env snap idx" using 2(2) by (simp add: shows_rows_def)
    have kids: "ks = kids srt v s" using siblings_ok(1)[OF cache assms(1), of srt v "st_children s"] sib by (simp add: kids_def)
    have row: "shows_rows ve env snap (?rows, idx1) (ss @ [s])"
      using shows_rows_room[OF 2(2)] False siblings_ok(2)[OF cache assms(1), of srt v "st_children s"] sib
      by (simp add: shows_rows_def)
    show ?thesis
    proof (cases "is_expanded c v s")
      case True
      then show ?thesis using 2(1)[OF False sib[symmetric] refl refl _ row] False sib kids by (simp add: ex_def)
    next
      case closed: False
      then show ?thesis using row False sib by (simp add: ex_def)
    qed
  qed
next
  case (4 n srt c v bare ch cs rows idx)
  show ?case
  proof (cases "MAX_ROWS \<le> length rows")
    case True
    then show ?thesis using shows_rows_full[OF 4(3)] by simp
  next
    case False
    note 1 = 4(1)[OF False 4(3)]
    show ?thesis using 4(2)[OF False 1] False by simp
  qed
qed (auto simp: shows_rows_def)

definition tree_ref :: "view_env \<Rightarrow> 'r regex_env \<Rightarrow> tree_sort \<Rightarrow> u64 set \<Rightarrow> string option \<Rightarrow> aggregator_snapshot \<Rightarrow> query_fail + stream list" where
  "tree_ref ve env srt collapsed query snap =
    and_then (sets_for_ref ve env snap query) (\<lambda>sets.
      let visible = map_option snd sets; kids = kids_ref srt visible snap in
      Inr (take MAX_ROWS (concat (map (preorder MAX_ROWS (is_expanded collapsed visible) (\<lambda>s. kids (st_children s))) (kids (sn_roots snap))))))"

lemma push_roots_rows:
  assumes "snap_ok snap"
  shows "shows_rows ve env snap st ss \<Longrightarrow>
    shows_rows ve env snap (push_roots srt c v tops st)
      (ss @ concat (map (preorder MAX_ROWS (is_expanded c v) (\<lambda>s. kids_ref srt v snap (st_children s))) tops))"
proof (induction tops arbitrary: st ss)
  case (Cons t tops)
  obtain rows idx where st: "st = (rows, idx)" by fastforce
  show ?case
  proof (cases "MAX_ROWS \<le> length rows")
    case True
    then show ?thesis using shows_rows_full[OF Cons.prems] st by simp
  next
    case False
    show ?thesis
      using Cons.IH[OF push_preorder(1)[OF assms Cons.prems, of MAX_ROWS srt c v "[]" t]] False st by simp
  qed
qed simp

lemma flatten_ok:
  assumes "cache_ok ve env snap idx" "snap_ok snap"
  shows "case flatten ve env srt collapsed query idx of
      Inl f \<Rightarrow> tree_ref ve env srt collapsed query snap = Inl f
    | Inr (rows, idx') \<Rightarrow> tree_ref ve env srt collapsed query snap = Inr (map tr_stream rows) \<and> cache_ok ve env snap idx'"
proof (cases "sets_for ve env query idx")
  case (Inl f)
  then show ?thesis using sets_for_ok[OF assms, of query] by (simp add: flatten_def tree_ref_def)
next
  case (Inr x)
  obtain sets idx1 where x: "x = (sets, idx1)" by fastforce
  have 1: "sets_for_ref ve env snap query = Inr sets" "cache_ok ve env snap idx1"
    using sets_for_ok[OF assms, of query] Inr x by simp_all
  have snap: "si_snap idx1 = snap" using 1(2) by (simp add: cache_ok_def)
  let ?v = "map_option snd sets"
  obtain tops idx2 where t: "siblings srt ?v (sn_roots snap) idx1 = (tops, idx2)" by fastforce
  have tops: "tops = kids_ref srt ?v snap (sn_roots snap)" "cache_ok ve env snap idx2"
    using siblings_ok[OF 1(2) assms(2), of srt ?v "sn_roots snap"] t by simp_all
  have "shows_rows ve env snap ([], idx2) []" using tops(2) by (simp add: shows_rows_def)
  from push_roots_rows[OF assms(2) this, of srt collapsed ?v tops] show ?thesis
    using 1(1) Inr x t tops(1) snap
    by (auto simp: flatten_def tree_ref_def shows_rows_def Let_def split: prod.split)
qed

text \<open>C36. The tree pane refines the forest: on the snapshot of a reachable store, before or after the end of the capture,
  whatever the index was asked before,
  the rows are the preorder walk of the visible forest with siblings in the chosen order, cut at the row cap; the
  walk fails only as the query's parser does. The engine is one whose keys
  never begin with the mark of a condensed node, as the default one's.\<close>

theorem flatten_refines:
  assumes "reachable e cfg a" "plain_engine e" "index_state ve env (snapshot a) idx"
  shows "map_sum id (\<lambda>st. map tr_stream (fst st)) (flatten ve env srt collapsed query idx) =
    tree_ref ve env srt collapsed query (snapshot a)"
  using flatten_ok[OF index_state_ok[OF assms(3) snapshot_ok[OF assms(1,2)]] snapshot_ok[OF assms(1,2)], of srt collapsed query]
  by (cases "flatten ve env srt collapsed query idx") auto

theorem flatten_refines_witness:
  "map_sum id (\<lambda>st. map tr_stream (fst st)) (flatten plain_view no_regex ByFirstSeen {0} (Some ''live'')
      (snapshot_index_new (snapshot (pair_run live_config)))) =
    tree_ref plain_view no_regex ByFirstSeen {0} (Some ''live'') (snapshot (pair_run live_config))"
  by (rule flatten_refines[OF pair_run_reachable pair_engine_plain index_new])

section \<open>Every match is on the screen\<close>

lemma set_map_filter: "set (List.map_filter f xs) = {y. \<exists>x \<in> set xs. f x = Some y}"
  by (induction xs) (auto simp: map_filter_simps split: option.split)

lemma set_kids_ref: "set (kids_ref srt v snap hs) = {s. kept v s \<and> (\<exists>h \<in> set hs. look snap h = Some s)}"
  by (cases srt) (auto simp: kids_ref_def sort_siblings_def set_map_filter)

text \<open>A stream reached through children is in the preorder, unless the walk ran out of rows.\<close>

lemma preorder_reaches:
  assumes "(s, t) \<in> {(x, y). y \<in> set (kids x)}\<^sup>*" and "\<And>x. open_node x"
  shows "t \<in> set (preorder n open_node kids s) \<or> n \<le> length (preorder n open_node kids s)"
  using assms(1)
proof (induction arbitrary: n rule: converse_rtrancl_induct)
  case base
  then show ?case by (cases n) simp_all
next
  case (step s y)
  show ?case
  proof (cases n)
    case (Suc m)
    have y: "y \<in> set (kids s)" using step.hyps(1) by simp
    then have "length (preorder m open_node kids y) \<le> length (concat (map (preorder m open_node kids) (kids s)))"
      by (auto simp: length_concat comp_def intro: member_le_sum_list)
    then show ?thesis using step.IH[of m] y Suc assms(2)[of s] by auto
  qed simp
qed

definition parents_in :: "aggregator \<Rightarrow> u64 set \<Rightarrow> bool" where
  "parents_in a K \<longleftrightarrow> (\<forall>s p ps. get a (st_id s) = Some s \<longrightarrow> st_created_seq s \<in> K \<longrightarrow> st_parent s = Some p \<longrightarrow> get a p = Some ps \<longrightarrow>
     st_created_seq ps \<in> K)"

lemma rooted:
  fixes srt :: tree_sort
  assumes b: "base_inv a" and up: "parents_in a K"
    and s: "get a (st_id s) = Some s" "st_created_seq s \<in> K"
  defines "kids \<equiv> kids_ref srt (Some K) (snapshot a)"
  shows "\<exists>r \<in> set (kids (sn_roots (snapshot a))). (r, s) \<in> {(x, y). y \<in> set (kids (st_children x))}\<^sup>*"
  using s
proof (induction "unat (st_created_seq s)" arbitrary: s rule: less_induct)
  case less
  have d: "distinct (map st_id (sn_streams (snapshot a)))"
    using distinct_streams[OF b] mset_eq_imp_distinct_iff[of "map st_id (sn_streams (snapshot a))" "map st_id (streams a)"]
    by (simp add: snapshot_def mset_map)
  have look: "look (snapshot a) (st_id x) = Some x" if "get a (st_id x) = Some x" for x
    using that snapshot_streams[OF b] by (simp add: look_Some[OF d])
  have kept: "kept (Some K) s" using less.prems(2) by (simp add: kept_def)
  show ?case
  proof (cases "st_parent s")
    case None
    then have "st_id s \<in> set (sn_roots (snapshot a))"
      using b less.prems(1) by (auto simp: base_inv_def forest_ok_def roots_ok_def snapshot_def)
    then have "s \<in> set (kids (sn_roots (snapshot a)))"
      using look[OF less.prems(1)] kept by (auto simp: kids_def set_kids_ref)
    then show ?thesis by blast
  next
    case (Some p)
    obtain ps where ps: "get a p = Some ps" "st_created_seq ps < st_created_seq s" "st_id s \<in> set (st_children ps)"
      using parent_older[OF b less.prems(1) Some] .
    then have id: "st_id ps = p" using b by (auto simp: base_inv_def handles_ok_def)
    obtain r where r: "r \<in> set (kids (sn_roots (snapshot a)))" "(r, ps) \<in> {(x, y). y \<in> set (kids (st_children x))}\<^sup>*"
      using less.hyps[of ps] ps id up less.prems Some unfolding parents_in_def by (metis word_less_nat_alt)
    have "s \<in> set (kids (st_children ps))"
      using look[OF less.prems(1)] kept ps(3) by (auto simp: kids_def set_kids_ref)
    then show ?thesis using r by (auto intro: rtrancl_into_rtrancl)
  qed
qed

lemma matches_closed:
  assumes r: "reachable e cfg a" "plain_engine e" and s: "get a (st_id s) = Some s" "st_parent s = Some p" "get a p = Some ps"
    and k: "st_created_seq s \<in> matching_with_ancestors ve env (sn_streams (snapshot a)) (by_id (snapshot a)) q"
  shows "st_created_seq ps \<in> matching_with_ancestors ve env (sn_streams (snapshot a)) (by_id (snapshot a)) q"
proof -
  let ?ids = "by_id (snapshot a)"
  have b: "base_inv a" using store_invD(2) reachable_inv[OF r] by blast
  note ok = snapshot_ids_ok[OF b]
  obtain m t where m: "m \<in> set (sn_streams (snapshot a))" "eval ve env q m ?ids" "t \<in> set (m # ancestors ?ids m)"
    "st_created_seq t = st_created_seq s"
    using k unfolding matching_set[OF r] mem_Collect_eq by metis
  have gm: "hm_get ?ids (st_id m) = Some m" using m(1) snapshot_streams[OF b] snapshot_ids[OF b] by simp
  have upm: "up ?ids (Some (st_id m)) = m # ancestors ?ids m" using gm by (simp add: up_unfold[OF ok(1)])
  have tin: "t \<in> set (up ?ids (Some (st_id m)))" using m(3) upm by simp
  have tm: "set (ancestors ?ids t) \<subseteq> set (m # ancestors ?ids m)"
    using ancestors_trans[OF ok(1) tin] unfolding upm .
  have "t = s"
  proof -
    obtain h where "hm_get ?ids h = Some t" using tin chain_members by blast
    then show ?thesis using ok(2) s(1) m(4) snapshot_ids[OF b] unfolding seqs_distinct_def by metis
  qed
  moreover have "ps \<in> set (ancestors ?ids s)"
    using s(2,3) snapshot_ids[OF b] up_unfold[OF ok(1), of "Some p"] by (simp add: ancestors_def)
  ultimately show ?thesis using tm m(1,2) unfolding matching_set[OF r] by blast
qed

text \<open>A query never hides a match: on the snapshot of a reachable store, whatever is collapsed and in any order,
  either every matching stream has a row in the tree pane or the pane is full at its cap of rows.\<close>

theorem flatten_shows_matches:
  assumes r: "reachable e cfg a" "plain_engine e" "index_state ve env (snapshot a) idx"
    and q: "stream_query_parse (ve_lower ve) env raw = Inr q" "\<not> is_blank raw"
    and f: "flatten ve env srt collapsed (Some raw) idx = Inr (rows, idx')"
    and m: "s \<in> set (sn_streams (snapshot a))" "eval ve env q s (by_id (snapshot a))"
  shows "s \<in> set (map tr_stream rows) \<or> length rows = MAX_ROWS"
proof -
  let ?snap = "snapshot a"
  define K where "K = matching_with_ancestors ve env (sn_streams ?snap) (by_id ?snap) q"
  define kids where "kids = kids_ref srt (Some K) ?snap"
  have b: "base_inv a" using store_invD(2) reachable_inv[OF r(1,2)] by blast
  have "tree_ref ve env srt collapsed (Some raw) ?snap = Inr (map tr_stream rows)"
    using flatten_ok[OF index_state_ok[OF r(3) snapshot_ok[OF r(1,2)]] snapshot_ok[OF r(1,2)], of srt collapsed "Some raw"] f
    by simp
  then have rows: "map tr_stream rows = take MAX_ROWS
      (concat (map (preorder MAX_ROWS (is_expanded collapsed (Some K)) (\<lambda>s. kids (st_children s))) (kids (sn_roots ?snap))))"
    using q by (simp add: tree_ref_def sets_for_ref_def sets_ref_def eval_sets_def kids_def K_def Let_def)
  have s: "get a (st_id s) = Some s" using m(1) snapshot_streams[OF b] by simp
  have sK: "st_created_seq s \<in> K" using m matching_set[OF r(1,2)] unfolding K_def by fastforce
  have up: "parents_in a K"
    using matches_closed[OF r(1,2)] unfolding K_def parents_in_def by blast
  obtain t where t: "t \<in> set (kids (sn_roots ?snap))" "(t, s) \<in> {(x, y). y \<in> set (kids (st_children x))}\<^sup>*"
    using rooted[OF b up s sK, of srt] unfolding kids_def by blast
  let ?pre = "preorder MAX_ROWS (is_expanded collapsed (Some K)) (\<lambda>s. kids (st_children s))"
  have "s \<in> set (?pre t) \<or> MAX_ROWS \<le> length (?pre t)"
    by (rule preorder_reaches[OF t(2)]) (simp add: is_expanded_def)
  moreover have "length (?pre t) \<le> length (concat (map ?pre (kids (sn_roots ?snap))))"
    using t(1) by (auto simp: length_concat comp_def intro: member_le_sum_list)
  moreover have "s \<in> set (?pre t) \<Longrightarrow> s \<in> set (concat (map ?pre (kids (sn_roots ?snap))))" using t(1) by auto
  ultimately show ?thesis using rows length_map[of tr_stream rows] by (cases "MAX_ROWS \<le> length (concat (map ?pre (kids (sn_roots ?snap))))") simp_all
qed

lemma live_query: "stream_query_parse (ve_lower plain_view) no_regex ''live'' = Inr (EFlag FLive)" "\<not> is_blank ''live''"
  by code_simp+

theorem flatten_shows_matches_witness:
  "\<exists>rows idx'. flatten plain_view no_regex ByBytes {0} (Some ''live'') (snapshot_index_new (snapshot (pair_run live_config))) = Inr (rows, idx') \<and>
    list_all (\<lambda>s. s \<in> set (map tr_stream rows) \<or> length rows = MAX_ROWS)
      (filter (\<lambda>s. eval plain_view no_regex (EFlag FLive) s (by_id (snapshot (pair_run live_config)))) (sn_streams (snapshot (pair_run live_config))))"
proof -
  let ?snap = "snapshot (pair_run live_config)"
  have ok: "snap_ok ?snap" by (rule snapshot_ok[OF pair_run_reachable pair_engine_plain])
  have "tree_ref plain_view no_regex ByBytes {0} (Some ''live'') ?snap \<noteq> Inl f" for f
    using live_query by (simp add: tree_ref_def sets_for_ref_def sets_ref_def Let_def)
  then obtain rows idx' where f: "flatten plain_view no_regex ByBytes {0} (Some ''live'') (snapshot_index_new ?snap) = Inr (rows, idx')"
    using flatten_ok[OF index_new_ok ok, of plain_view no_regex ByBytes "{0}" "Some ''live''"]
    by (cases "flatten plain_view no_regex ByBytes {0} (Some ''live'') (snapshot_index_new ?snap)") auto
  show ?thesis
    using f flatten_shows_matches[OF pair_run_reachable pair_engine_plain index_new live_query f] by (auto simp: list_all_iff)
qed

end
