(* ===== verification/App.thy ===== *)
theory App
  imports Stream_Tree Hub
begin

text \<open>
  \<open>pktflow-tui/src/app.rs\<close> and the event loop of \<open>pktflow-tui/src/lib.rs\<close>: the state of the terminal
  interface, the effect of a key press and of an animation tick on it, what drawing a frame writes back
  into it, and the loop that refreshes the view from the hub. A Rust string that is edited is the list of
  its Unicode scalar values; its bytes are their UTF-8 encoding. A panic of the query parser is the failure
  of the handler.
\<close>

section \<open>Strings of scalar values\<close>

type_synonym rune = nat

definition utf8_encode :: "rune \<Rightarrow> string" where
  "utf8_encode c = map char_of
    (if c < 0x80 then [c]
     else if c < 0x800 then [0xC0 + c div 64, 0x80 + c mod 64]
     else if c < 0x10000 then [0xE0 + c div 4096, 0x80 + c div 64 mod 64, 0x80 + c mod 64]
     else [0xF0 + c div 262144, 0x80 + c div 4096 mod 64, 0x80 + c div 64 mod 64, 0x80 + c mod 64])"

definition as_str :: "rune list \<Rightarrow> string" where
  "as_str cs = concat (map utf8_encode cs)"

definition white :: "rune \<Rightarrow> bool" where
  "white c \<longleftrightarrow> c \<in> {9, 10, 11, 12, 13, 0x20, 0x85, 0xA0, 0x1680, 0x2028, 0x2029, 0x202F, 0x205F, 0x3000} \<or>
     0x2000 \<le> c \<and> c \<le> 0x200A"

definition trim :: "rune list \<Rightarrow> rune list" where
  "trim cs = rev (dropWhile white (rev (dropWhile white cs)))"

section \<open>State\<close>

datatype tab = Streams | Timeline | Unknown | Summary

fun tab_next :: "tab \<Rightarrow> tab" where
  "tab_next Streams = Timeline"
| "tab_next Timeline = Unknown"
| "tab_next Unknown = Summary"
| "tab_next Summary = Streams"

record 'r app =
  ap_tab :: tab
  ap_sort :: tree_sort
  ap_collapsed :: "u64 set"
  ap_selected :: "u64 option"
  ap_filter :: "rune list"
  ap_filter_editing :: bool
  ap_query :: "'r expr option"
  ap_query_error :: "string option"
  ap_detail_scroll :: u16
  ap_unknown_index :: nat
  ap_unknown_open :: bool
  ap_popup_scroll :: u16
  ap_help :: bool
  ap_paused :: bool
  ap_timeline_t :: f64
  ap_timeline_playing :: bool
  ap_quit :: bool

definition app_default :: "'r app" where
  "app_default =
    \<lparr>ap_tab = Streams, ap_sort = ByBytes, ap_collapsed = {}, ap_selected = None, ap_filter = [], ap_filter_editing = False,
     ap_query = None, ap_query_error = None, ap_detail_scroll = 0, ap_unknown_index = 0, ap_unknown_open = False,
     ap_popup_scroll = 0, ap_help = False, ap_paused = False, ap_timeline_t = Fin 1, ap_timeline_playing = False,
     ap_quit = False\<rparr>"

text \<open>The key codes of the terminal library that the handler names, and all others.\<close>

datatype key_code = KeyChar rune | KeyEsc | KeyEnter | KeyBackspace | KeyTab | KeyUp | KeyDown | KeyLeft | KeyRight
  | KeyPageUp | KeyPageDown | KeyHome | KeyEnd | KeyOther

record key_event =
  ke_code :: key_code
  ke_control :: bool

definition key :: "char \<Rightarrow> key_code" where
  "key c = KeyChar (of_char c)"

section \<open>Rows and queries\<close>

definition active_query :: "'r app \<Rightarrow> string option" where
  "active_query app = (if ap_query app \<noteq> None then Some (as_str (ap_filter app)) else None)"

fun show_query_error :: "string \<Rightarrow> nat \<Rightarrow> string" where
  "show_query_error message position = message @ '' (at column '' @ show_nat (position + 1) @ '')''"

definition refresh_query :: "view_env \<Rightarrow> 'r regex_env \<Rightarrow> 'r app \<Rightarrow> query_fail + 'r app" where
  "refresh_query ve env app =
    (let trimmed = trim (ap_filter app) in
     if trimmed = [] then Inr (app\<lparr>ap_query := None, ap_query_error := None\<rparr>)
     else case stream_query_parse (ve_lower ve) env (as_str trimmed) of
       Inr q \<Rightarrow> Inr (app\<lparr>ap_query := Some q, ap_query_error := None\<rparr>)
     | Inl (QueryError m p) \<Rightarrow> Inr (app\<lparr>ap_query := None, ap_query_error := Some (show_query_error m p)\<rparr>)
     | Inl f \<Rightarrow> Inl f)"

text \<open>\<open>Iterator::position\<close>.\<close>

fun position :: "('a \<Rightarrow> bool) \<Rightarrow> 'a list \<Rightarrow> nat option" where
  "position p [] = None"
| "position p (x # xs) = (if p x then Some 0 else map_option Suc (position p xs))"

definition selected_index :: "'r app \<Rightarrow> tree_row list \<Rightarrow> nat" where
  "selected_index app rows =
    (case Option.bind (ap_selected app) (\<lambda>seq. position (\<lambda>r. st_created_seq (tr_stream r) = seq) rows) of
       Some i \<Rightarrow> i | None \<Rightarrow> 0)"

definition select_row :: "tree_row list \<Rightarrow> nat \<Rightarrow> 'r app \<Rightarrow> 'r app" where
  "select_row rows i app =
    (if rows = [] then app\<lparr>ap_selected := None\<rparr>
     else case elem_get rows (min i (length rows - 1)) of
       Some row \<Rightarrow>
        let seq = st_created_seq (tr_stream row);
            app1 = (if ap_selected app \<noteq> Some seq then app\<lparr>ap_detail_scroll := 0\<rparr> else app)
        in app1\<lparr>ap_selected := Some seq\<rparr>
     | None \<Rightarrow> app)"

section \<open>The streams tab\<close>

definition fold_left :: "tree_row list \<Rightarrow> tree_row \<Rightarrow> 'r app \<Rightarrow> 'r app" where
  "fold_left rows row app =
    (if tr_has_children row \<and> tr_expanded row \<and> trim (ap_filter app) = [] then
       app\<lparr>ap_collapsed := insert (st_created_seq (tr_stream row)) (ap_collapsed app)\<rparr>
     else case st_parent (tr_stream row) of
       None \<Rightarrow> app
     | Some parent_id \<Rightarrow>
        (case position (\<lambda>r. st_id (tr_stream r) = parent_id) rows of
           Some i \<Rightarrow> select_row rows i app
         | None \<Rightarrow> app))"

definition toggle_fold :: "tree_row \<Rightarrow> 'r app \<Rightarrow> 'r app" where
  "toggle_fold row app =
    (let seq = st_created_seq (tr_stream row) in
     if \<not> tr_has_children row then app
     else if seq \<in> ap_collapsed app then app\<lparr>ap_collapsed := ap_collapsed app - {seq}\<rparr>
     else app\<lparr>ap_collapsed := insert seq (ap_collapsed app)\<rparr>)"

definition unfold_row :: "tree_row \<Rightarrow> 'r app \<Rightarrow> 'r app" where
  "unfold_row row app = app\<lparr>ap_collapsed := ap_collapsed app - {st_created_seq (tr_stream row)}\<rparr>"

definition streams_action :: "key_code \<Rightarrow> tree_row list \<Rightarrow> aggregator_snapshot \<Rightarrow> 'r app \<Rightarrow> 'r app" where
  "streams_action kc rows snap app =
    (let i = selected_index app rows; on_row = (\<lambda>f. case elem_get rows i of Some row \<Rightarrow> f row app | None \<Rightarrow> app) in
     if kc \<in> {KeyUp, key CHR ''k''} then select_row rows (i - 1) app
     else if kc \<in> {KeyDown, key CHR ''j''} then select_row rows (i + 1) app
     else if kc = KeyPageUp then select_row rows (i - 10) app
     else if kc = KeyPageDown then select_row rows (i + 10) app
     else if kc \<in> {KeyHome, key CHR ''g''} then select_row rows 0 app
     else if kc \<in> {KeyEnd, key CHR ''G''} then select_row rows (length rows) app
     else if kc \<in> {KeyEnter, key CHR '' ''} then on_row toggle_fold
     else if kc \<in> {KeyRight, key CHR ''l''} then on_row unfold_row
     else if kc \<in> {KeyLeft, key CHR ''h''} then on_row (fold_left rows)
     else if kc = key CHR ''e'' then app\<lparr>ap_collapsed := {}\<rparr>
     else if kc = key CHR ''c'' then
       app\<lparr>ap_collapsed := set (map st_created_seq (filter (\<lambda>s. st_children s \<noteq> []) (sn_streams snap)))\<rparr>
     else if kc = key CHR ''s'' then app\<lparr>ap_sort := sort_next (ap_sort app)\<rparr>
     else if kc = key CHR ''J'' then app\<lparr>ap_detail_scroll := saturating_add_word (ap_detail_scroll app) 1\<rparr>
     else if kc = key CHR ''K'' then app\<lparr>ap_detail_scroll := saturating_sub_word (ap_detail_scroll app) 1\<rparr>
     else app)"

definition on_streams_key :: "view_env \<Rightarrow> 'r regex_env \<Rightarrow> key_code \<Rightarrow> 'r app \<Rightarrow> snapshot_index \<Rightarrow>
    query_fail + 'r app \<times> snapshot_index" where
  "on_streams_key ve env kc app idx =
    and_then (flatten ve env (ap_sort app) (ap_collapsed app) (active_query app) idx)
      (\<lambda>(rows, idx'). Inr (streams_action kc rows (si_snap idx') app, idx'))"

section \<open>The timeline tab\<close>

definition f64_clamp :: "f64 \<Rightarrow> f64 \<Rightarrow> f64 \<Rightarrow> f64" where
  "f64_clamp lo hi x = (if f64_less x lo then lo else if f64_less hi x then hi else x)"

definition scrub :: "f64 \<Rightarrow> 'r app \<Rightarrow> 'r app" where
  "scrub delta app =
    app\<lparr>ap_timeline_playing := False, ap_timeline_t := f64_clamp (Fin 0) (Fin 1) (f64_add (ap_timeline_t app) delta)\<rparr>"

definition toggle_play :: "'r app \<Rightarrow> 'r app" where
  "toggle_play app =
    (let app1 = (if \<not> ap_timeline_playing app \<and> f64_le (Fin 1) (ap_timeline_t app) then app\<lparr>ap_timeline_t := Fin 0\<rparr> else app)
     in app1\<lparr>ap_timeline_playing := \<not> ap_timeline_playing app1\<rparr>)"

definition timeline_action :: "key_code \<Rightarrow> tree_row list \<Rightarrow> 'r app \<Rightarrow> 'r app" where
  "timeline_action kc rows app =
    (let i = selected_index app rows in
     if kc \<in> {KeyLeft, key CHR ''h''} then scrub (round_f64 (- 2 / 100)) app
     else if kc \<in> {KeyRight, key CHR ''l''} then scrub (round_f64 (2 / 100)) app
     else if kc \<in> {key CHR ''['', KeyPageUp} then scrub (round_f64 (- 1 / 10)) app
     else if kc \<in> {key CHR '']'', KeyPageDown} then scrub (round_f64 (1 / 10)) app
     else if kc \<in> {KeyHome, key CHR ''g''} then scrub (Inf False) app
     else if kc \<in> {KeyEnd, key CHR ''G''} then scrub (Inf True) app
     else if kc = key CHR '' '' then toggle_play app
     else if kc \<in> {KeyUp, key CHR ''k''} then select_row rows (i - 1) app
     else if kc \<in> {KeyDown, key CHR ''j''} then select_row rows (i + 1) app
     else if kc = KeyEnter then app\<lparr>ap_tab := Streams\<rparr>
     else app)"

definition on_timeline_key :: "view_env \<Rightarrow> 'r regex_env \<Rightarrow> key_code \<Rightarrow> 'r app \<Rightarrow> snapshot_index \<Rightarrow>
    query_fail + 'r app \<times> snapshot_index" where
  "on_timeline_key ve env kc app idx =
    and_then (flatten ve env (ap_sort app) (ap_collapsed app) (active_query app) idx)
      (\<lambda>(rows, idx'). Inr (timeline_action kc rows app, idx'))"

definition tick :: "'r app \<Rightarrow> 'r app" where
  "tick app =
    (if ap_tab app = Timeline \<and> ap_timeline_playing app then
       let t = f64_add (ap_timeline_t app) (round_f64 (1 / 100)) in
       if f64_le (Fin 1) t then app\<lparr>ap_timeline_t := Fin 1, ap_timeline_playing := False\<rparr> else app\<lparr>ap_timeline_t := t\<rparr>
     else app)"

section \<open>The unknown tab and the whole handler\<close>

definition on_unknown_key :: "key_code \<Rightarrow> aggregator_snapshot \<Rightarrow> 'r app \<Rightarrow> 'r app" where
  "on_unknown_key kc snap app =
    (let total = length (sn_unknowns snap) in
     if kc \<in> {KeyUp, key CHR ''k''} then app\<lparr>ap_unknown_index := ap_unknown_index app - 1\<rparr>
     else if kc \<in> {KeyDown, key CHR ''j''} then app\<lparr>ap_unknown_index := min (ap_unknown_index app + 1) (total - 1)\<rparr>
     else if kc \<in> {KeyHome, key CHR ''g''} then app\<lparr>ap_unknown_index := 0\<rparr>
     else if kc \<in> {KeyEnd, key CHR ''G''} then app\<lparr>ap_unknown_index := total - 1\<rparr>
     else if kc = KeyEnter \<and> 0 < total then app\<lparr>ap_unknown_open := True, ap_popup_scroll := 0\<rparr>
     else app)"

definition edit_filter :: "key_code \<Rightarrow> 'r app \<Rightarrow> 'r app" where
  "edit_filter kc app =
    (case kc of
       KeyEsc \<Rightarrow> app\<lparr>ap_filter := [], ap_filter_editing := False\<rparr>
     | KeyEnter \<Rightarrow> app\<lparr>ap_filter_editing := False\<rparr>
     | KeyBackspace \<Rightarrow> app\<lparr>ap_filter := butlast (ap_filter app)\<rparr>
     | KeyChar c \<Rightarrow> app\<lparr>ap_filter := ap_filter app @ [c]\<rparr>
     | _ \<Rightarrow> app)"

definition popup_action :: "key_code \<Rightarrow> 'r app \<Rightarrow> 'r app" where
  "popup_action kc app =
    (if kc \<in> {KeyEsc, KeyEnter, key CHR ''q''} then app\<lparr>ap_unknown_open := False, ap_popup_scroll := 0\<rparr>
     else if kc \<in> {KeyUp, key CHR ''k''} then app\<lparr>ap_popup_scroll := saturating_sub_word (ap_popup_scroll app) 1\<rparr>
     else if kc \<in> {KeyDown, key CHR ''j''} then app\<lparr>ap_popup_scroll := saturating_add_word (ap_popup_scroll app) 1\<rparr>
     else if kc = KeyPageUp then app\<lparr>ap_popup_scroll := saturating_sub_word (ap_popup_scroll app) 16\<rparr>
     else if kc = KeyPageDown then app\<lparr>ap_popup_scroll := saturating_add_word (ap_popup_scroll app) 16\<rparr>
     else app)"

definition tab_key :: "view_env \<Rightarrow> 'r regex_env \<Rightarrow> key_code \<Rightarrow> 'r app \<Rightarrow> snapshot_index \<Rightarrow> query_fail + 'r app \<times> snapshot_index" where
  "tab_key ve env kc app idx =
    (case ap_tab app of
       Streams \<Rightarrow> on_streams_key ve env kc app idx
     | Timeline \<Rightarrow> on_timeline_key ve env kc app idx
     | Unknown \<Rightarrow> Inr (on_unknown_key kc (si_snap idx) app, idx)
     | Summary \<Rightarrow> Inr (app, idx))"

definition on_key :: "view_env \<Rightarrow> 'r regex_env \<Rightarrow> key_event \<Rightarrow> 'r app \<Rightarrow> snapshot_index \<Rightarrow> query_fail + 'r app \<times> snapshot_index" where
  "on_key ve env ev app idx =
    (let kc = ke_code ev in
     if ke_control ev \<and> kc = key CHR ''c'' then Inr (app\<lparr>ap_quit := True\<rparr>, idx)
     else if ap_filter_editing app then and_then (refresh_query ve env (edit_filter kc app)) (\<lambda>app'. Inr (app', idx))
     else if ap_help app then Inr (app\<lparr>ap_help := False\<rparr>, idx)
     else if ap_unknown_open app then Inr (popup_action kc app, idx)
     else if kc = key CHR ''q'' then Inr (app\<lparr>ap_quit := True\<rparr>, idx)
     else if kc = key CHR ''?'' then Inr (app\<lparr>ap_help := True\<rparr>, idx)
     else if kc = key CHR ''1'' then Inr (app\<lparr>ap_tab := Streams\<rparr>, idx)
     else if kc = key CHR ''2'' then Inr (app\<lparr>ap_tab := Timeline\<rparr>, idx)
     else if kc = key CHR ''3'' then Inr (app\<lparr>ap_tab := Unknown\<rparr>, idx)
     else if kc = key CHR ''4'' then Inr (app\<lparr>ap_tab := Summary\<rparr>, idx)
     else if kc = KeyTab then Inr (app\<lparr>ap_tab := tab_next (ap_tab app)\<rparr>, idx)
     else if kc = key CHR ''p'' then Inr (app\<lparr>ap_paused := \<not> ap_paused app\<rparr>, idx)
     else if kc = key CHR ''/'' \<and> ap_tab app \<in> {Streams, Timeline} then Inr (app\<lparr>ap_filter_editing := True\<rparr>, idx)
     else tab_key ve env kc app idx)"

section \<open>Drawing and the event loop\<close>

text \<open>What a frame writes back: the panes re-anchor the selection to the rows on screen, the unknown tab
  its cursor to the groups listed.\<close>

definition re_anchor :: "tree_row list \<Rightarrow> 'r app \<Rightarrow> 'r app" where
  "re_anchor rows app =
    (case elem_get rows (selected_index app rows) of
       Some row \<Rightarrow> app\<lparr>ap_selected := Some (st_created_seq (tr_stream row))\<rparr>
     | None \<Rightarrow> app)"

definition draw_streams :: "view_env \<Rightarrow> 'r regex_env \<Rightarrow> 'r app \<Rightarrow> snapshot_index \<Rightarrow> query_fail + 'r app \<times> snapshot_index" where
  "draw_streams ve env app idx =
    and_then (flatten ve env (ap_sort app) (ap_collapsed app) (active_query app) idx)
      (\<lambda>(rows, idx'). Inr (if rows = [] then app else re_anchor rows app, idx'))"

definition draw_timeline :: "view_env \<Rightarrow> 'r regex_env \<Rightarrow> 'r app \<Rightarrow> snapshot_index \<Rightarrow> query_fail + 'r app \<times> snapshot_index" where
  "draw_timeline ve env app idx =
    and_then (flatten ve env (ap_sort app) (ap_collapsed app) (active_query app) idx)
      (\<lambda>(rows, idx'). Inr (if capture_span (si_snap idx') = None \<or> rows = [] then app else re_anchor rows app, idx'))"

definition draw_unknown :: "aggregator_snapshot \<Rightarrow> 'r app \<Rightarrow> 'r app" where
  "draw_unknown snap app =
    (if sn_unknowns snap = [] then app
     else app\<lparr>ap_unknown_index := min (ap_unknown_index app) (length (sn_unknowns snap) - 1)\<rparr>)"

definition draw :: "view_env \<Rightarrow> 'r regex_env \<Rightarrow> 'r app \<Rightarrow> snapshot_index \<Rightarrow> query_fail + 'r app \<times> snapshot_index" where
  "draw ve env app idx =
    (case ap_tab app of
       Streams \<Rightarrow> draw_streams ve env app idx
     | Timeline \<Rightarrow> draw_timeline ve env app idx
     | Unknown \<Rightarrow> Inr (draw_unknown (si_snap idx) app, idx)
     | Summary \<Rightarrow> Inr (app, idx))"

record 'r session =
  ss_app :: "'r app"
  ss_seen :: u64
  ss_view :: snapshot_index

definition session_start :: "hub \<Rightarrow> 'r session" where
  "session_start h = \<lparr>ss_app = app_default, ss_seen = - 1, ss_view = snapshot_index_new (latest h)\<rparr>"

text \<open>The generation is loaded before the snapshot, so the two loads see two states of the hub.\<close>

definition refresh_view :: "hub \<Rightarrow> hub \<Rightarrow> 'r session \<Rightarrow> 'r session" where
  "refresh_view h h' s =
    (if ap_paused (ss_app s) \<or> generation h = ss_seen s then s
     else s\<lparr>ss_seen := generation h, ss_view := snapshot_index_new (latest h')\<rparr>)"

definition loop_body :: "view_env \<Rightarrow> 'r regex_env \<Rightarrow> hub \<Rightarrow> hub \<Rightarrow> key_event option \<Rightarrow> 'r session \<Rightarrow> query_fail + 'r session" where
  "loop_body ve env h h' ev s =
    (let s1 = refresh_view h h' s in
     and_then (draw ve env (ss_app s1) (ss_view s1)) (\<lambda>(app2, idx2).
     let app3 = tick app2 in
     and_then (case ev of None \<Rightarrow> Inr (app3, idx2) | Some k \<Rightarrow> on_key ve env k app3 idx2) (\<lambda>(app4, idx4).
     Inr (s1\<lparr>ss_app := app4, ss_view := idx4\<rparr>))))"

lemma snapshot_index_snap [simp]: "si_snap (snapshot_index_new snap) = snap"
  by (simp add: snapshot_index_new_def)

section \<open>The invariant of the state\<close>

text \<open>The part of the state that the invariant speaks of; moving the selection and folding leave it alone.\<close>

definition core :: "'r app \<Rightarrow> tab \<times> rune list \<times> bool \<times> 'r expr option \<times> string option \<times> bool \<times> bool \<times> f64 \<times> bool" where
  "core app = (ap_tab app, ap_filter app, ap_filter_editing app, ap_query app, ap_query_error app, ap_unknown_open app,
     ap_help app, ap_timeline_t app, ap_timeline_playing app)"

text \<open>The accepted query is the parse of the trimmed text of the filter box, and the error is its error.\<close>

definition query_synced :: "view_env \<Rightarrow> 'r regex_env \<Rightarrow> 'r app \<Rightarrow> bool" where
  "query_synced ve env app \<longleftrightarrow>
    (if trim (ap_filter app) = [] then ap_query app = None \<and> ap_query_error app = None
     else case stream_query_parse (ve_lower ve) env (as_str (trim (ap_filter app))) of
       Inr q \<Rightarrow> ap_query app = Some q \<and> ap_query_error app = None
     | Inl (QueryError m p) \<Rightarrow> ap_query app = None \<and> ap_query_error app = Some (show_query_error m p)
     | Inl f \<Rightarrow> False)"

text \<open>At most one of the modes that capture the keyboard is on, on a tab it belongs to.\<close>

definition modes_ok :: "'r app \<Rightarrow> bool" where
  "modes_ok app \<longleftrightarrow>
    \<not> (ap_filter_editing app \<and> ap_help app) \<and> \<not> (ap_filter_editing app \<and> ap_unknown_open app) \<and>
    \<not> (ap_help app \<and> ap_unknown_open app) \<and> (ap_unknown_open app \<longrightarrow> ap_tab app = Unknown) \<and>
    (ap_filter_editing app \<longrightarrow> ap_tab app \<in> {Streams, Timeline})"

definition playhead_ok :: "'r app \<Rightarrow> bool" where
  "playhead_ok app \<longleftrightarrow> (\<exists>x. ap_timeline_t app = Fin x \<and> 0 \<le> x \<and> x \<le> 1 \<and> (ap_timeline_playing app \<longrightarrow> x < 1))"

definition app_inv :: "view_env \<Rightarrow> 'r regex_env \<Rightarrow> 'r app \<Rightarrow> bool" where
  "app_inv ve env app \<longleftrightarrow> query_synced ve env app \<and> modes_ok app \<and> playhead_ok app"

lemma app_inv_core: "core app' = core app \<Longrightarrow> app_inv ve env app' = app_inv ve env app"
  by (simp add: core_def app_inv_def query_synced_def modes_ok_def playhead_ok_def split: sum.split query_fail.split)

lemma core_select_row [simp]: "core (select_row rows i app) = core app"
  by (simp add: select_row_def core_def Let_def split: option.split)

lemma core_fold_left [simp]: "core (fold_left rows row app) = core app"
  by (auto simp: fold_left_def core_def Let_def select_row_def split: option.split)

lemma core_toggle_fold [simp]: "core (toggle_fold row app) = core app"
  by (simp add: toggle_fold_def core_def Let_def)

lemma core_unfold_row [simp]: "core (unfold_row row app) = core app"
  by (simp add: unfold_row_def core_def)

lemma core_re_anchor [simp]: "core (re_anchor rows app) = core app"
  by (simp add: re_anchor_def core_def split: option.split)

lemma core_unrelated [simp]:
  "core (app\<lparr>ap_collapsed := c\<rparr>) = core app" "core (app\<lparr>ap_sort := srt\<rparr>) = core app"
  "core (app\<lparr>ap_detail_scroll := d\<rparr>) = core app" "core (app\<lparr>ap_unknown_index := u\<rparr>) = core app"
  "core (app\<lparr>ap_popup_scroll := d\<rparr>) = core app" "core (app\<lparr>ap_paused := b\<rparr>) = core app"
  "core (app\<lparr>ap_quit := b\<rparr>) = core app"
  by (simp_all add: core_def)

lemma core_if [simp]: "core (if b then x else y) = (if b then core x else core y)"
  by simp

lemma core_on_row: "(\<And>row. core (f row app) = core app) \<Longrightarrow> core (case r of Some row \<Rightarrow> f row app | None \<Rightarrow> app) = core app"
  by (simp split: option.split)

lemma core_streams_action [simp]: "core (streams_action kc rows snap app) = core app"
  unfolding streams_action_def Let_def
  by (simp only: core_if core_select_row core_fold_left core_toggle_fold core_unfold_row core_unrelated core_on_row if_cancel)

lemma core_draw: "draw ve env app idx = Inr (app', idx') \<Longrightarrow> core app' = core app"
  by (auto simp: draw_def draw_streams_def draw_timeline_def draw_unknown_def and_then_def
      split: tab.splits sum.splits if_splits)

text \<open>The playhead.\<close>

lemma pow_pos: "0 < pow 2 k"
  by (simp add: pow_def)

lemma round_even_bounds: "\<lfloor>r\<rfloor> \<le> round_even r" "of_int (round_even r) \<le> r + 1 / 2" "r - 1 / 2 \<le> of_int (round_even r)"
  unfolding round_even_def Let_def by (auto, linarith+)

lemma round_pos_nonneg: "0 \<le> x \<Longrightarrow> round_pos x = Fin y \<Longrightarrow> 0 \<le> y"
  using round_even_bounds(1)[of "x / pow 2 (max (exponent2 x - 52) (- 1074))"] pow_pos[of "max (exponent2 x - 52) (- 1074)"]
  by (auto simp: round_pos_def Let_def split: if_splits intro!: mult_nonneg_nonneg) (smt (verit) divide_nonneg_pos zero_le_floor)

lemma round_pos_not_neg_inf: "round_pos x \<noteq> Inf False"
  by (simp add: round_pos_def Let_def)

lemma clamp_unit: "\<exists>x. f64_clamp (Fin 0) (Fin 1) t = Fin x \<and> 0 \<le> x \<and> x \<le> 1"
  by (cases t) (auto simp: f64_clamp_def)

lemma playhead_scrub: "playhead_ok (scrub d app)"
  using clamp_unit by (simp add: playhead_ok_def scrub_def)

lemma playhead_toggle: "playhead_ok app \<Longrightarrow> playhead_ok (toggle_play app)"
  by (auto simp: playhead_ok_def toggle_play_def Let_def f64_le_def)

text \<open>The step of an animation tick: the double nearest to a hundredth.\<close>

definition tick_step :: rat where
  "tick_step = 5764607523034235 / 576460752303423488"

lemma tick_step: "round_f64 (1 / 100) = Fin tick_step"
proof -
  have l: "ilog2 (Suc 0) = 0" "ilog2 100 = 6" by (simp_all add: ilog2.simps)
  have q: "quotient_of (1 / 100) = (1, 100)" by code_simp
  have e: "exponent2 (1 / 100) = - 7" by (simp add: exponent2_def q l pow_def Let_def)
  have p: "pow 2 (max (exponent2 (1 / 100) - 52) (- 1074)) = 1 / 576460752303423488" by (simp add: e pow_def)
  have f: "\<lfloor>144115188075855872 / 25 :: rat\<rfloor> = 5764607523034234" by (rule floor_unique) simp_all
  have r: "round_even (144115188075855872 / 25) = 5764607523034235" by (simp add: round_even_def Let_def f)
  have "\<not> pow 2 1024 \<le> 5764607523034235 / 576460752303423488" by (simp add: pow_def)
  then show ?thesis by (simp add: round_f64_def round_pos_def p r Let_def tick_step_def)
qed

end
