(* ===== verification/App_Props.thy ===== *)
theory App_Props
  imports App
begin

text \<open>
  The properties of the terminal interface: the invariant of its state over every session, the selection
  on the rows of the screen, the end of a replay and the freshness of the view.
\<close>

section \<open>The invariant is kept\<close>

lemma query_synced_cong:
  assumes "ap_filter app' = ap_filter app" "ap_query app' = ap_query app" "ap_query_error app' = ap_query_error app"
  shows "query_synced ve env app' = query_synced ve env app"
  unfolding query_synced_def assms by (rule refl)

lemma query_synced_upd [simp]:
  "query_synced ve env (app\<lparr>ap_tab := a\<rparr>) = query_synced ve env app"
  "query_synced ve env (app\<lparr>ap_help := b\<rparr>) = query_synced ve env app"
  "query_synced ve env (app\<lparr>ap_filter_editing := b\<rparr>) = query_synced ve env app"
  "query_synced ve env (app\<lparr>ap_unknown_open := b\<rparr>) = query_synced ve env app"
  "query_synced ve env (app\<lparr>ap_unknown_open := b, ap_popup_scroll := w\<rparr>) = query_synced ve env app"
  "query_synced ve env (app\<lparr>ap_timeline_t := t\<rparr>) = query_synced ve env app"
  "query_synced ve env (app\<lparr>ap_timeline_t := t, ap_timeline_playing := b\<rparr>) = query_synced ve env app"
  by (rule query_synced_cong; simp)+

lemma tick_step_pos: "0 \<le> tick_step"
  by (simp add: tick_step_def)

lemma playhead_tick: "playhead_ok app \<Longrightarrow> playhead_ok (tick app)"
proof -
  assume p: "playhead_ok app"
  then obtain x where x: "ap_timeline_t app = Fin x" "0 \<le> x" "x \<le> 1" "ap_timeline_playing app \<longrightarrow> x < 1"
    by (auto simp: playhead_ok_def)
  have t: "f64_add (Fin x) (round_f64 (1 / 100)) = round_pos (x + tick_step)"
    using x(2) tick_step_pos unfolding tick_step by (simp add: round_f64_def)
  show ?thesis
  proof (cases "round_pos (x + tick_step)")
    case (Fin y)
    have "0 \<le> y" using round_pos_nonneg[OF _ Fin] x(2) tick_step_pos by simp
    then show ?thesis using p x Fin
      by (auto simp: tick_def playhead_ok_def Let_def t f64_le_def)
  next
    case (Inf b)
    then have "b" using round_pos_not_neg_inf by (cases b) auto
    then show ?thesis using p x Inf
      by (auto simp: tick_def playhead_ok_def Let_def t f64_le_def)
  qed
qed

lemma inv_tick: "app_inv ve env app \<Longrightarrow> app_inv ve env (tick app)"
  using playhead_tick[of app]
  by (auto simp: app_inv_def tick_def modes_ok_def Let_def)

lemma refresh_query_parts:
  assumes "refresh_query ve env app = Inr app'"
  shows "\<exists>q e. app' = app\<lparr>ap_query := q, ap_query_error := e\<rparr>" "query_synced ve env app'"
proof -
  let ?p = "stream_query_parse (ve_lower ve) env (as_str (trim (ap_filter app)))"
  have "(\<exists>q e. app' = app\<lparr>ap_query := q, ap_query_error := e\<rparr>) \<and> query_synced ve env app'"
  proof (cases "trim (ap_filter app) = []")
    case True
    then have "app' = app\<lparr>ap_query := None, ap_query_error := None\<rparr>" using assms by (simp add: refresh_query_def)
    then show ?thesis using True unfolding query_synced_def by auto
  next
    case False
    consider (ok) q where "?p = Inr q" | (err) m k where "?p = Inl (QueryError m k)" | (bad) f where "?p = Inl f" "f = Panic \<or> f = OutOfFuel"
      by (metis query_fail.exhaust sum.exhaust)
    then show ?thesis
    proof cases
      case ok
      then have "app' = app\<lparr>ap_query := Some q, ap_query_error := None\<rparr>" using assms False by (simp add: refresh_query_def)
      then show ?thesis using False ok unfolding query_synced_def by auto
    next
      case err
      then have "app' = app\<lparr>ap_query := None, ap_query_error := Some (show_query_error m k)\<rparr>"
        using assms False by (simp add: refresh_query_def)
      then show ?thesis using False err unfolding query_synced_def by auto
    next
      case bad
      then show ?thesis using assms False by (auto simp: refresh_query_def)
    qed
  qed
  then show "\<exists>q e. app' = app\<lparr>ap_query := q, ap_query_error := e\<rparr>" "query_synced ve env app'" by blast+
qed

lemma inv_refresh:
  assumes "refresh_query ve env app = Inr app'" "modes_ok app" "playhead_ok app"
  shows "app_inv ve env app'"
proof -
  obtain q e where a: "app' = app\<lparr>ap_query := q, ap_query_error := e\<rparr>" using refresh_query_parts(1)[OF assms(1)] by blast
  have "modes_ok app'" using assms(2) by (simp add: a modes_ok_def)
  moreover have "playhead_ok app'" using assms(3) by (simp add: a playhead_ok_def)
  ultimately show ?thesis using refresh_query_parts(2)[OF assms(1)] by (simp add: app_inv_def)
qed

lemma inv_edit: "modes_ok app \<Longrightarrow> modes_ok (edit_filter kc app)" "playhead_ok app \<Longrightarrow> playhead_ok (edit_filter kc app)"
  by (auto simp: edit_filter_def modes_ok_def playhead_ok_def split: key_code.split)

text \<open>Changing tab or overlay when no mode is on.\<close>

definition plain :: "'r app \<Rightarrow> bool" where
  "plain app \<longleftrightarrow> \<not> ap_filter_editing app \<and> \<not> ap_help app \<and> \<not> ap_unknown_open app"

lemma inv_plain:
  assumes "app_inv ve env app" "plain app"
  shows "app_inv ve env (app\<lparr>ap_tab := tb\<rparr>)" "app_inv ve env (app\<lparr>ap_help := True\<rparr>)"
    "ap_tab app \<in> {Streams, Timeline} \<Longrightarrow> app_inv ve env (app\<lparr>ap_filter_editing := True\<rparr>)"
    "ap_tab app = Unknown \<Longrightarrow> app_inv ve env (app\<lparr>ap_unknown_open := True, ap_popup_scroll := w\<rparr>)"
  using assms
  by (auto simp: app_inv_def modes_ok_def playhead_ok_def plain_def)

lemma inv_close:
  assumes "app_inv ve env app"
  shows "app_inv ve env (app\<lparr>ap_help := False\<rparr>)" "app_inv ve env (app\<lparr>ap_unknown_open := False, ap_popup_scroll := w\<rparr>)"
  using assms
  by (auto simp: app_inv_def modes_ok_def playhead_ok_def)

lemma inv_playhead:
  assumes "app_inv ve env app" "playhead_ok app'"
    "core (app'\<lparr>ap_timeline_t := Fin 0, ap_timeline_playing := False\<rparr>) = core (app\<lparr>ap_timeline_t := Fin 0, ap_timeline_playing := False\<rparr>)"
  shows "app_inv ve env app'"
  using assms query_synced_cong[of app' app ve env]
  by (auto simp: app_inv_def modes_ok_def core_def)

lemma inv_timeline_action:
  assumes "app_inv ve env app" "plain app"
  shows "app_inv ve env (timeline_action kc rows app)"
proof -
  have scrub: "app_inv ve env (scrub d app)" for d
    by (rule inv_playhead[OF assms(1) playhead_scrub]) (simp add: scrub_def core_def)
  have play: "app_inv ve env (toggle_play app)"
    by (rule inv_playhead[OF assms(1) playhead_toggle]) (use assms(1) in \<open>auto simp: toggle_play_def core_def app_inv_def Let_def\<close>)
  have sel: "app_inv ve env (select_row rows i app)" for i using assms(1) app_inv_core[OF core_select_row] by blast
  show ?thesis unfolding timeline_action_def Let_def using scrub play sel inv_plain(1)[OF assms] assms(1) by presburger
qed

lemma inv_unknown_key:
  assumes "app_inv ve env app" "plain app" "ap_tab app = Unknown"
  shows "app_inv ve env (on_unknown_key kc snap app)"
  using assms(1) inv_plain(4)[OF assms(1,2,3)] by (simp add: on_unknown_key_def Let_def app_inv_core[OF core_unrelated(4)])

lemma inv_tab_key:
  assumes "app_inv ve env app" "plain app" "tab_key ve env kc app idx = Inr (app', idx')"
  shows "app_inv ve env app'"
  using assms(3) inv_timeline_action[OF assms(1,2)] inv_unknown_key[OF assms(1,2)] assms(1)
  by (auto simp: app_inv_core[OF core_streams_action] tab_key_def on_streams_key_def on_timeline_key_def and_then_def split: tab.splits sum.splits)

lemma inv_popup:
  assumes "app_inv ve env app"
  shows "app_inv ve env (popup_action kc app)"
  using assms inv_close(2)[OF assms] by (simp add: popup_action_def app_inv_core[OF core_unrelated(5)])

lemma inv_on_key:
  assumes i: "app_inv ve env app" and k: "on_key ve env ev app idx = Inr (app', idx')"
  shows "app_inv ve env app'"
proof -
  note [simp] = app_inv_core[OF core_unrelated(6)] app_inv_core[OF core_unrelated(7)]
  consider (ctrl) "ke_control ev \<and> ke_code ev = key CHR ''c''" | (edit) "\<not> (ke_control ev \<and> ke_code ev = key CHR ''c'')" "ap_filter_editing app"
    | (overlay) "\<not> (ke_control ev \<and> ke_code ev = key CHR ''c'')" "\<not> ap_filter_editing app" "ap_help app"
    | (popup) "\<not> (ke_control ev \<and> ke_code ev = key CHR ''c'')" "\<not> ap_filter_editing app" "\<not> ap_help app" "ap_unknown_open app"
    | (plain) "\<not> (ke_control ev \<and> ke_code ev = key CHR ''c'')" "plain app"
    by (auto simp: plain_def)
  then show ?thesis
  proof cases
    case ctrl
    then show ?thesis using k i by (auto simp: on_key_def)
  next
    case edit
    then show ?thesis using k i inv_refresh[OF _ inv_edit(1) inv_edit(2)]
      by (auto simp: on_key_def Let_def and_then_def app_inv_def[of ve env app] split: sum.splits)
  next
    case overlay
    then show ?thesis using k inv_close(1)[OF i] by (auto simp: on_key_def Let_def)
  next
    case popup
    then show ?thesis using k inv_popup[OF i] by (auto simp: on_key_def Let_def)
  next
    case plain
    note p = inv_plain[OF i plain(2)] inv_tab_key[OF i plain(2)]
    show ?thesis using k i plain p(1,2,3,5) unfolding on_key_def Let_def plain_def
      by (simp split: if_splits) auto
  qed
qed

lemma inv_default: "app_inv ve env app_default"
  by (simp add: app_inv_def query_synced_def modes_ok_def playhead_ok_def app_default_def trim_def)

lemma inv_loop_body:
  assumes "app_inv ve env (ss_app s)" "loop_body ve env h h' ev s = Inr s'"
  shows "app_inv ve env (ss_app s')"
proof -
  define s1 where "s1 = refresh_view h h' s"
  have 1: "app_inv ve env (ss_app s1)" using assms(1) by (simp add: s1_def refresh_view_def)
  obtain app2 idx2 app4 idx4 where d: "draw ve env (ss_app s1) (ss_view s1) = Inr (app2, idx2)"
    and e: "(case ev of None \<Rightarrow> Inr (tick app2, idx2) | Some k \<Rightarrow> on_key ve env k (tick app2) idx2) = Inr (app4, idx4)"
    and s': "ss_app s' = app4"
    using assms(2) unfolding loop_body_def Let_def s1_def[symmetric]
    by (auto simp: and_then_def split: sum.splits prod.splits option.splits)
  have "app_inv ve env (tick app2)" using 1 app_inv_core[OF core_draw[OF d]] inv_tick by blast
  then show ?thesis using e s' inv_on_key by (cases ev) auto
qed

section \<open>Sessions\<close>

text \<open>A session of the event loop against a hub whose writer makes the calls \<open>calls\<close>: the loads of an
  iteration see the hub after \<open>n1\<close> and then \<open>n2\<close> of the writer's actions.\<close>

inductive session :: "view_env \<Rightarrow> 'r regex_env \<Rightarrow> hub \<Rightarrow> hub_call list \<Rightarrow> nat \<Rightarrow> 'r session \<Rightarrow> bool" for ve env h calls where
  session_first: "session ve env h calls n (session_start (hub_at h calls n))"
| session_step: "session ve env h calls n s \<Longrightarrow> \<not> ap_quit (ss_app s) \<Longrightarrow> n \<le> n1 \<Longrightarrow> n1 \<le> n2 \<Longrightarrow>
    loop_body ve env (hub_at h calls n1) (hub_at h calls n2) ev s = Inr s' \<Longrightarrow> session ve env h calls n2 s'"

text \<open>What the tree is filtered by: the text of the filter box, when the trimmed text is a query.\<close>

definition filters_by :: "view_env \<Rightarrow> 'r regex_env \<Rightarrow> 'r app \<Rightarrow> string option \<Rightarrow> bool" where
  "filters_by ve env app text \<longleftrightarrow>
    text = (if trim (ap_filter app) \<noteq> [] \<and> (\<exists>q. stream_query_parse (ve_lower ve) env (as_str (trim (ap_filter app))) = Inr q)
      then Some (as_str (ap_filter app)) else None)"

lemma synced_filters_by: "query_synced ve env app \<Longrightarrow> filters_by ve env app (active_query app)"
  by (auto simp: query_synced_def filters_by_def active_query_def split: if_splits sum.splits query_fail.splits)

text \<open>The white space around the text is ASCII.\<close>

definition ascii_margins :: "rune list \<Rightarrow> bool" where
  "ascii_margins cs \<longleftrightarrow> list_all (\<lambda>c. c < 0x80) (takeWhile white cs @ takeWhile white (rev cs))"

lemma trim_margins:
  assumes "ascii_margins cs" "trim cs \<noteq> []"
  shows "\<exists>u w. cs = u @ trim cs @ w \<and> list_all (\<lambda>c. white c \<and> c < 0x80) (u @ w)"
proof -
  let ?t = "dropWhile white cs"
  have ne: "?t \<noteq> []" using assms(2) unfolding trim_def by (metis dropWhile.simps(1) rev.simps(1))
  have "takeWhile white (rev cs) = takeWhile white (rev ?t)"
  proof -
    have "\<exists>x \<in> set (rev ?t). \<not> white x" using ne hd_dropWhile[OF ne] by (metis hd_in_set set_rev)
    then have "takeWhile white (rev ?t @ rev (takeWhile white cs)) = takeWhile white (rev ?t)" by (metis takeWhile_append1)
    then show ?thesis by (metis rev_append takeWhile_dropWhile_id)
  qed
  then have "list_all (\<lambda>c. white c \<and> c < 0x80) (takeWhile white cs @ rev (takeWhile white (rev ?t)))"
    using assms(1) by (auto simp: ascii_margins_def list_all_iff dest: set_takeWhileD)
  moreover have "cs = takeWhile white cs @ trim cs @ rev (takeWhile white (rev ?t))"
    unfolding trim_def by (metis rev_append rev_rev_ident takeWhile_dropWhile_id)
  ultimately show ?thesis by blast
qed

lemma as_str_append: "as_str (u @ v) = as_str u @ as_str v"
  by (simp add: as_str_def)

lemma as_str_blank: "list_all (\<lambda>c. white c \<and> c < 0x80) u \<Longrightarrow> list_all blank (as_str u)"
proof (induction u)
  case (Cons c u)
  have "code (char_of c) = c" using Cons.prems by (simp add: code_def of_char_of)
  then have "blank (char_of c)" using Cons.prems by (auto simp: blank_def is_whitespace_def white_def)
  then show ?case using Cons by (simp add: as_str_def utf8_encode_def)
qed (simp add: as_str_def)

lemma synced_same_query:
  assumes "query_synced ve env app" "ascii_margins (ap_filter app)" "ap_query app = Some q"
  shows "stream_query_parse (ve_lower ve) env (as_str (ap_filter app)) = Inr q"
proof -
  have t: "trim (ap_filter app) \<noteq> []" "stream_query_parse (ve_lower ve) env (as_str (trim (ap_filter app))) = Inr q"
    using assms(1,3) by (auto simp: query_synced_def split: if_splits sum.splits query_fail.splits)
  obtain u w where m: "ap_filter app = u @ trim (ap_filter app) @ w" "list_all (\<lambda>c. white c \<and> c < 0x80) (u @ w)"
    using trim_margins[OF assms(2) t(1)] by blast
  have "as_str (ap_filter app) = as_str u @ as_str (trim (ap_filter app)) @ as_str w" by (subst m(1)) (simp add: as_str_append)
  moreover have "list_all blank (as_str u)" "list_all blank (as_str w)" using m(2) by (simp_all add: as_str_blank)
  ultimately show ?thesis using parse_blank_margins[OF _ _ t(2)] by metis
qed

lemma synced_error:
  "query_synced ve env app \<Longrightarrow> ap_query_error app = Some t \<longleftrightarrow> trim (ap_filter app) \<noteq> [] \<and>
    (\<exists>m k. stream_query_parse (ve_lower ve) env (as_str (trim (ap_filter app))) = Inl (QueryError m k) \<and> t = show_query_error m k)"
  by (auto simp: query_synced_def split: if_splits sum.splits query_fail.splits)

text \<open>C34. In every state of every session the rows are filtered by the text of the filter box as it was typed, exactly if
  the text without the white space around it is a query (a blank or broken filter filters nothing), and an error is shown
  exactly if that text is neither blank nor a query, the error of its parse. The rows are filtered by the untrimmed text, parsed again: if the
  white space around it is ASCII, that is the query that was accepted (behind other white space it may be another one,
  or make the parser panic). At most one of the modes that capture the keyboard is on and only on a tab it belongs to,
  and the playhead is a fraction of the capture, at its end only when the replay is stopped.\<close>

theorem session_invariant:
  assumes "session ve env h calls n s"
  shows "filters_by ve env (ss_app s) (active_query (ss_app s)) \<and>
    (\<forall>q. ap_query (ss_app s) = Some q \<and> ascii_margins (ap_filter (ss_app s)) \<longrightarrow>
      stream_query_parse (ve_lower ve) env (as_str (ap_filter (ss_app s))) = Inr q) \<and>
    (\<forall>t. ap_query_error (ss_app s) = Some t \<longleftrightarrow> trim (ap_filter (ss_app s)) \<noteq> [] \<and>
      (\<exists>m k. stream_query_parse (ve_lower ve) env (as_str (trim (ap_filter (ss_app s)))) = Inl (QueryError m k) \<and> t = show_query_error m k)) \<and>
    modes_ok (ss_app s) \<and> playhead_ok (ss_app s)"
proof -
  have i: "app_inv ve env (ss_app s)" using assms
    by (induction rule: session.induct) (simp_all add: session_start_def inv_default inv_loop_body)
  then have q: "query_synced ve env (ss_app s)" by (simp add: app_inv_def)
  show ?thesis using i synced_filters_by[OF q] synced_same_query[OF q] synced_error[OF q] by (simp add: app_inv_def)
qed

text \<open>The first frame of a session on an empty capture, with a key press.\<close>

lemma flatten_empty:
  "flatten ve env srt c None (snapshot_index_new empty_snapshot) = Inr ([], snapshot_index_new empty_snapshot)"
  by (simp add: flatten_def sets_for_def siblings_def snapshot_index_new_def empty_snapshot_def sort_siblings_def split: tree_sort.split)

lemma first_frame:
  fixes env :: "'r regex_env"
  shows "loop_body ve env (hub_new src md) (hub_new src md) (Some \<lparr>ke_code = key CHR ''/'', ke_control = False\<rparr>)
      (session_start (hub_new src md)) =
    Inr \<lparr>ss_app = app_default\<lparr>ap_filter_editing := True\<rparr>, ss_seen = 0, ss_view = snapshot_index_new empty_snapshot\<rparr>"
proof -
  have "refresh_view (hub_new src md) (hub_new src md) (session_start (hub_new src md) :: 'r session) =
      \<lparr>ss_app = app_default, ss_seen = 0, ss_view = snapshot_index_new empty_snapshot\<rparr>"
    by (simp add: refresh_view_def session_start_def app_default_def hub_new_def generation_def latest_def)
  moreover have "draw ve env app_default (snapshot_index_new empty_snapshot) = Inr (app_default, snapshot_index_new empty_snapshot)"
    by (simp add: draw_def draw_streams_def app_default_def active_query_def flatten_empty)
  moreover have "tick app_default = (app_default :: 'r app)" by (simp add: tick_def app_default_def)
  moreover have "on_key ve env \<lparr>ke_code = key CHR ''/'', ke_control = False\<rparr> app_default idx =
      Inr (app_default\<lparr>ap_filter_editing := True\<rparr>, idx)" for idx
    by (simp add: on_key_def key_def app_default_def)
  ultimately show ?thesis by (simp add: loop_body_def Let_def)
qed

theorem session_invariant_witness:
  "filters_by plain_view no_regex (app_default\<lparr>ap_filter_editing := True\<rparr>) None \<and>
   modes_ok (app_default\<lparr>ap_filter_editing := True\<rparr> :: unit app) \<and>
   playhead_ok (app_default\<lparr>ap_filter_editing := True\<rparr> :: unit app)"
proof -
  have h: "hub_at (hub_new [] []) [] 0 = hub_new [] []" by (simp add: hub_at_def)
  have "session plain_view no_regex (hub_new [] []) [] 0
      \<lparr>ss_app = app_default\<lparr>ap_filter_editing := True\<rparr>, ss_seen = 0, ss_view = snapshot_index_new empty_snapshot\<rparr>"
    using session_step[OF session_first[of plain_view no_regex "hub_new [] []" "[]" 0] _ le_refl le_refl, unfolded h,
        OF _ first_frame]
    by (simp add: session_start_def app_default_def)
  from session_invariant[OF this] show ?thesis by (simp add: active_query_def app_default_def)
qed

section \<open>The view is current\<close>

lemma index_by_id_snap: "si_snap (snd (index_by_id h idx)) = si_snap idx"
  by (simp add: index_by_id_def positions_by_id_def Let_def split: prod.split)

lemma resolve_all_snap: "si_snap (snd (resolve_all hs idx)) = si_snap idx"
proof (induction hs arbitrary: idx)
  case (Cons h hs)
  then show ?case using index_by_id_snap[of h idx] by (simp add: case_prod_unfold)
qed simp

lemma siblings_snap: "si_snap (snd (siblings srt v hs idx)) = si_snap idx"
  by (simp add: siblings_def case_prod_unfold resolve_all_snap)

lemma push_snap:
  "si_snap (snd (push_subtree n srt c v prefix s st)) = si_snap (snd st)"
  "si_snap (snd (push_children n srt c v bare cs st)) = si_snap (snd st)"
proof (induction n srt c v prefix s st and n srt c v bare cs st rule: push_subtree_push_children.induct)
  case (2 n srt c v prefix s rows idx)
  obtain ks idx1 where k: "siblings srt v (st_children s) idx = (ks, idx1)" by fastforce
  have "si_snap idx1 = si_snap idx" using siblings_snap[of srt v "st_children s" idx] k by simp
  then show ?case using 2 k by (auto simp: Let_def)
qed auto

lemma push_roots_snap: "si_snap (snd (push_roots srt c v ss st)) = si_snap (snd st)"
  by (induction srt c v ss st rule: push_roots.induct) (auto simp: push_snap)

lemma sets_for_snap: "sets_for ve env q idx = Inr (r, idx') \<Longrightarrow> si_snap idx' = si_snap idx"
  by (auto simp: sets_for_def query_sets_def query_sets_miss_def index_id_map_def positions_by_id_def Let_def
      split: option.splits if_splits sum.splits query_fail.splits prod.splits)

lemma flatten_snap: "flatten ve env srt c q idx = Inr (rows, idx') \<Longrightarrow> si_snap idx' = si_snap idx"
proof -
  assume f: "flatten ve env srt c q idx = Inr (rows, idx')"
  then obtain sets idx1 where 1: "sets_for ve env q idx = Inr (sets, idx1)"
    by (auto simp: flatten_def and_then_def split: sum.splits)
  let ?t = "siblings srt (map_option snd sets) (sn_roots (si_snap idx1)) idx1"
  have "(rows, idx') = push_roots srt c (map_option snd sets) (fst ?t) ([], snd ?t)"
    using f 1 by (simp add: flatten_def Let_def case_prod_unfold)
  then have "si_snap idx' = si_snap (snd ?t)" by (metis push_roots_snap snd_conv)
  then show ?thesis using siblings_snap sets_for_snap[OF 1] by simp
qed

lemma draw_snap: "draw ve env app idx = Inr (app', idx') \<Longrightarrow> si_snap idx' = si_snap idx"
  by (auto simp: draw_def draw_streams_def draw_timeline_def and_then_def split: tab.splits sum.splits dest: flatten_snap)

lemma on_key_snap: "on_key ve env ev app idx = Inr (app', idx') \<Longrightarrow> si_snap idx' = si_snap idx"
  by (auto simp: on_key_def Let_def tab_key_def on_streams_key_def on_timeline_key_def and_then_def
      split: if_splits tab.splits sum.splits dest: flatten_snap)

lemma loop_body_view:
  assumes "loop_body ve env h h' ev s = Inr s'"
  shows "si_snap (ss_view s') = si_snap (ss_view (refresh_view h h' s))" "ss_seen s' = ss_seen (refresh_view h h' s)"
proof -
  define s1 where "s1 = refresh_view h h' s"
  obtain app2 idx2 app4 idx4 where d: "draw ve env (ss_app s1) (ss_view s1) = Inr (app2, idx2)"
    and e: "(case ev of None \<Rightarrow> Inr (tick app2, idx2) | Some k \<Rightarrow> on_key ve env k (tick app2) idx2) = Inr (app4, idx4)"
    and s': "s' = s1\<lparr>ss_app := app4, ss_view := idx4\<rparr>"
    using assms unfolding loop_body_def Let_def s1_def[symmetric]
    by (auto simp: and_then_def split: sum.splits prod.splits option.splits)
  have "si_snap idx4 = si_snap idx2" using e on_key_snap by (auto split: option.splits)
  then show "si_snap (ss_view s') = si_snap (ss_view (refresh_view h h' s))" "ss_seen s' = ss_seen (refresh_view h h' s)"
    using draw_snap[OF d] s' by (simp_all add: s1_def)
qed

text \<open>The snapshot on screen is one published at or after the generation last seen.\<close>

definition shows_seen :: "hub_call list \<Rightarrow> 'r session \<Rightarrow> bool" where
  "shows_seen calls s \<longleftrightarrow> ss_seen s = - 1 \<or>
    (\<exists>k. unat (ss_seen s) \<le> k \<and> k \<le> length (call_snaps calls) \<and> si_snap (ss_view s) = (empty_snapshot # call_snaps calls) ! k)"

lemma shows_seen_refresh:
  assumes "shows_seen calls s" "n1 \<le> n2" "length (call_snaps calls) < 2 ^ 64"
  shows "shows_seen calls (refresh_view (hub_at (hub_new source mode) calls n1) (hub_at (hub_new source mode) calls n2) s)"
  using assms(1) reader_index[OF assms(2,3), of source mode] by (auto simp: refresh_view_def shows_seen_def)

lemma shows_seen_body:
  assumes "shows_seen calls s" "n1 \<le> n2" "length (call_snaps calls) < 2 ^ 64"
    "loop_body ve env (hub_at (hub_new source mode) calls n1) (hub_at (hub_new source mode) calls n2) ev s = Inr s'"
  shows "shows_seen calls s'"
  using shows_seen_refresh[OF assms(1-3), of source mode] loop_body_view[OF assms(4)] by (simp add: shows_seen_def)

lemma session_shows_seen:
  assumes "session ve env (hub_new source mode) calls n s" "length (call_snaps calls) < 2 ^ 64"
  shows "shows_seen calls s"
  using assms
proof (induction rule: session.induct)
  case (session_first n)
  then show ?case by (simp add: shows_seen_def session_start_def)
next
  case (session_step n s n1 n2 ev s')
  then show ?case using shows_seen_body by blast
qed

text \<open>C35. The terminal never lags behind the hub: in an iteration of the event loop that is not paused, the
  snapshot drawn and acted on is that of the publish whose generation the iteration saw, or of a later one; while
  paused the screen keeps its snapshot.\<close>

theorem session_view_current:
  assumes "session ve env (hub_new source mode) calls n s" and "n1 \<le> n2" and "length (call_snaps calls) < 2 ^ 64 - 1"
    and "loop_body ve env (hub_at (hub_new source mode) calls n1) (hub_at (hub_new source mode) calls n2) ev s = Inr s'"
  shows "if ap_paused (ss_app s) then si_snap (ss_view s') = si_snap (ss_view s)
    else \<exists>k. unat (generation (hub_at (hub_new source mode) calls n1)) \<le> k \<and> k \<le> length (call_snaps calls) \<and>
      si_snap (ss_view s') = (empty_snapshot # call_snaps calls) ! k"
proof (cases "ap_paused (ss_app s)")
  case True
  then show ?thesis using loop_body_view(1)[OF assms(4)] by (simp add: refresh_view_def)
next
  case False
  let ?g = "generation (hub_at (hub_new source mode) calls n1)"
  have len: "length (call_snaps calls) < 2 ^ 64" using assms(3) by simp
  have seen: "ss_seen s' = ?g" using loop_body_view(2)[OF assms(4)] False by (simp add: refresh_view_def)
  have "unat ?g < 2 ^ 64 - 1" using reader_index[OF assms(2) len, of source mode] assms(3) by linarith
  then have "?g \<noteq> - 1" by (auto simp: unsigned_minus_1_eq_mask mask_eq_exp_minus_1)
  then show ?thesis using shows_seen_body[OF session_shows_seen[OF assms(1) len] assms(2) len assms(4)] seen False
    by (simp add: shows_seen_def)
qed

theorem session_view_current_witness:
  "\<exists>k. unat (generation (hub_at (hub_new [] []) [Publish empty_snapshot] 2)) \<le> k \<and> k \<le> 1 \<and>
     empty_snapshot = [empty_snapshot, empty_snapshot] ! k"
proof -
  let ?c = "[Publish empty_snapshot]" and ?h = "hub_new [] []" and ?ev = "None :: key_event option"
  have at: "hub_at ?h ?c 2 = ?h\<lparr>hb_generation := 1\<rparr>" by (simp add: hub_at_def publish_def hub_new_def)
  have b: "loop_body plain_view no_regex (hub_at ?h ?c 2) (hub_at ?h ?c 2) ?ev (session_start (hub_at ?h ?c 2)) =
      Inr \<lparr>ss_app = app_default, ss_seen = 1, ss_view = snapshot_index_new empty_snapshot\<rparr>"
    unfolding at
    by (simp add: loop_body_def refresh_view_def session_start_def app_default_def hub_new_def generation_def latest_def
        draw_def draw_streams_def active_query_def flatten_empty tick_def Let_def)
  show ?thesis using session_view_current[OF session_first le_refl _ b]
    by (simp add: session_start_def app_default_def call_snaps_def map_filter_simps)
qed

section \<open>The selection\<close>

lemma row_position_Some: "position p xs = Some i \<Longrightarrow> i < length xs \<and> p (xs ! i)"
proof (induction xs arbitrary: i)
  case (Cons x xs)
  then show ?case by (auto split: if_splits)
qed simp

lemma row_position_None: "position p xs = None \<longleftrightarrow> list_all (\<lambda>x. \<not> p x) xs"
  by (induction xs) auto

definition row_seqs :: "tree_row list \<Rightarrow> u64 list" where
  "row_seqs rows = map (\<lambda>r. st_created_seq (tr_stream r)) rows"

lemma selected_index_row:
  assumes "rows \<noteq> []"
  shows "selected_index app rows < length rows"
    "ap_selected app = Some seq \<Longrightarrow> seq \<in> set (row_seqs rows) \<Longrightarrow> row_seqs rows ! selected_index app rows = seq"
proof -
  show "selected_index app rows < length rows"
    using assms row_position_Some by (auto simp: selected_index_def split: option.split Option.bind_splits)
  assume s: "ap_selected app = Some seq" "seq \<in> set (row_seqs rows)"
  then obtain i where i: "position (\<lambda>r. st_created_seq (tr_stream r) = seq) rows = Some i"
    by (cases "position (\<lambda>r. st_created_seq (tr_stream r) = seq) rows") (auto simp: row_position_None list_all_iff row_seqs_def)
  then show "row_seqs rows ! selected_index app rows = seq"
    using s(1) row_position_Some[OF i] by (simp add: selected_index_def row_seqs_def)
qed

lemma re_anchor_selects:
  assumes "rows \<noteq> []"
  shows "ap_selected (re_anchor rows app) = Some (row_seqs rows ! selected_index app rows)"
  using selected_index_row(1)[OF assms, of app] by (simp add: re_anchor_def elem_get_def row_seqs_def)

lemma select_row_selects:
  assumes "rows \<noteq> []"
  shows "ap_selected (select_row rows i app) = Some (row_seqs rows ! min i (length rows - 1))"
  using assms by (simp add: select_row_def elem_get_def row_seqs_def Let_def min_less_iff_disj)

text \<open>The selection follows the screen: after a frame of the tree pane over the snapshot of a reachable
  store, if any stream is shown, the selected one is among them, and a selection that was visible before
  stays where it was.\<close>

theorem draw_selects_visible:
  assumes r: "reachable e cfg a" "plain_engine e" "index_state ve env (snapshot a) idx"
    and d: "draw_streams ve env app idx = Inr (app', idx')"
  shows "\<exists>shown. tree_ref ve env (ap_sort app) (ap_collapsed app) (active_query app) (snapshot a) = Inr shown \<and>
    (if shown = [] then app' = app
     else (\<exists>seq. ap_selected app' = Some seq \<and> seq \<in> set (map st_created_seq shown) \<and>
       (case ap_selected app of Some old \<Rightarrow> if old \<in> set (map st_created_seq shown) then seq = old else seq = st_created_seq (hd shown)
        | None \<Rightarrow> seq = st_created_seq (hd shown))))"
proof -
  obtain rows where f: "flatten ve env (ap_sort app) (ap_collapsed app) (active_query app) idx = Inr (rows, idx')"
    and a: "app' = (if rows = [] then app else re_anchor rows app)"
    using d by (auto simp: draw_streams_def and_then_def split: sum.splits)
  have t: "tree_ref ve env (ap_sort app) (ap_collapsed app) (active_query app) (snapshot a) = Inr (map tr_stream rows)"
    using flatten_ok[OF index_state_ok[OF r(3) snapshot_ok[OF r(1,2)]] snapshot_ok[OF r(1,2)],
        of "ap_sort app" "ap_collapsed app" "active_query app"] f by simp
  have seqs: "map st_created_seq (map tr_stream rows) = row_seqs rows" by (simp add: row_seqs_def)
  show ?thesis
  proof (cases "rows = []")
    case True
    then show ?thesis using t a by simp
  next
    case False
    let ?i = "selected_index app rows"
    have hd: "st_created_seq (hd (map tr_stream rows)) = row_seqs rows ! 0" using False by (cases rows) (simp_all add: row_seqs_def)
    have first: "?i = 0" if "\<And>old. ap_selected app = Some old \<Longrightarrow> old \<notin> set (row_seqs rows)"
    proof (cases "ap_selected app")
      case (Some old)
      have "position (\<lambda>r. st_created_seq (tr_stream r) = old) rows = None"
        using that[OF Some] by (auto simp: row_position_None list_all_iff row_seqs_def)
      then show ?thesis using Some by (simp add: selected_index_def)
    qed (simp add: selected_index_def)
    have len: "?i < length (row_seqs rows)" using selected_index_row(1)[OF False, of app] by (simp add: row_seqs_def)
    have case_old: "case ap_selected app of Some old \<Rightarrow> if old \<in> set (row_seqs rows) then row_seqs rows ! ?i = old else row_seqs rows ! ?i = row_seqs rows ! 0
        | None \<Rightarrow> row_seqs rows ! ?i = row_seqs rows ! 0"
      using selected_index_row(2)[OF False, of app] first by (auto split: option.split)
    have sel: "ap_selected app' = Some (row_seqs rows ! ?i)" using re_anchor_selects[OF False, of app] a False by simp
    show ?thesis unfolding t seqs[symmetric] using sel case_old len False seqs hd
      by (intro exI[of _ "map tr_stream rows"] conjI refl) (auto simp: nth_mem split: option.splits)
  qed
qed

theorem draw_selects_visible_witness:
  "\<exists>app' idx'. draw_streams plain_view no_regex app_default (snapshot_index_new (snapshot (pair_run live_config))) = Inr (app', idx') \<and>
    (\<exists>shown. tree_ref plain_view no_regex ByBytes {} None (snapshot (pair_run live_config)) = Inr shown \<and>
      (if shown = [] then app' = app_default
       else \<exists>seq. ap_selected app' = Some seq \<and> seq \<in> set (map st_created_seq shown) \<and> seq = st_created_seq (hd shown)))"
proof -
  let ?idx = "snapshot_index_new (snapshot (pair_run live_config))"
  have "\<exists>st. flatten plain_view no_regex ByBytes {} None ?idx = Inr st"
    by (simp add: flatten_def sets_for_def Let_def case_prod_unfold)
  then obtain app' idx' where d: "draw_streams plain_view no_regex app_default ?idx = Inr (app', idx')"
    by (auto simp: draw_streams_def active_query_def app_default_def)
  have v: "ap_sort (app_default :: unit app) = ByBytes" "ap_collapsed (app_default :: unit app) = {}"
    "active_query (app_default :: unit app) = None" "ap_selected (app_default :: unit app) = None"
    by (simp_all add: app_default_def active_query_def)
  show ?thesis
    by (intro exI[of _ app'] exI[of _ idx'] conjI d
        draw_selects_visible[OF pair_run_reachable pair_engine_plain index_new d, unfolded v option.case])
qed

section \<open>A replay ends\<close>

lemma ilog2_upper: "n < 2 ^ Suc (ilog2 n)"
proof (induction n rule: less_induct)
  case (less n)
  show ?case
  proof (cases "n < 2")
    case False
    have "n div 2 < 2 ^ Suc (ilog2 (n div 2))" using less[of "n div 2"] False by simp
    then have "n < 2 * 2 ^ Suc (ilog2 (n div 2))" by linarith
    then show ?thesis using False by (simp add: ilog2.simps[of n])
  qed (simp add: ilog2.simps)
qed

lemma exponent2_below_2:
  assumes "0 < x" "x < 2"
  shows "exponent2 x \<le> 0"
proof -
  obtain n d where q: "quotient_of x = (n, d)" by fastforce
  have d: "0 < d" using quotient_of_denom_pos[OF q] .
  have x: "x = of_int n / of_int d" using quotient_of_div[OF q] .
  have n: "0 < n" using assms(1) d x by (simp add: zero_less_divide_iff)
  have "of_int n < (2 * of_int d :: rat)" using assms(2) d x by (simp add: divide_less_eq)
  then have "n < 2 * d" by (metis of_int_less_iff of_int_mult of_int_numeral)
  then have "nat n < 2 * nat d" using n by linarith
  also have "\<dots> < 2 ^ (ilog2 (nat d) + 2)" using ilog2_upper[of "nat d"] by simp
  finally have l: "ilog2 (nat n) < ilog2 (nat d) + 2" using ilog2_less[of "ilog2 (nat d) + 2" "nat n"] by simp
  have "x < pow 2 1" using assms(2) by (simp add: pow_def)
  then show ?thesis using l q
    by (cases "int (ilog2 (nat n)) - int (ilog2 (nat d)) = 1") (auto simp: exponent2_def Let_def)
qed

lemma round_pos_near:
  assumes "0 < x" "x < 2" "round_pos x = Fin y"
  shows "x - 1 / 2 ^ 53 \<le> y"
proof -
  define q where "q = pow 2 (max (exponent2 x - 52) (- 1074))"
  define k where "k = max (exponent2 x - 52) (- 1074)"
  have k: "k \<le> - 52" using exponent2_below_2[OF assms(1,2)] by (simp add: k_def)
  have "(2::rat) ^ 52 \<le> 2 ^ nat (- k)" using k by (intro power_increasing) auto
  then have q: "0 < q" "q \<le> 1 / 2 ^ 52"
    using k by (auto simp: q_def k_def[symmetric] pow_def frac_le)
  have y: "y = of_int (round_even (x / q)) * q"
    using assms(1,3) by (auto simp: round_pos_def Let_def q_def split: if_splits)
  have "(x / q - 1 / 2) * q \<le> of_int (round_even (x / q)) * q"
    using round_even_bounds(3)[of "x / q"] q(1) by (intro mult_right_mono) auto
  then have "x - q / 2 \<le> y" using q(1) by (simp add: y algebra_simps)
  moreover have "q / 2 \<le> 1 / 2 ^ 53" using q(2) by simp
  ultimately show ?thesis by linarith
qed

definition replaying :: "'r app \<Rightarrow> rat \<Rightarrow> bool" where
  "replaying app x \<longleftrightarrow> ap_tab app = Timeline \<and> ap_timeline_playing app \<and> (\<exists>y. ap_timeline_t app = Fin y \<and> x \<le> y \<and> y < 1)"

definition replayed :: "'r app \<Rightarrow> bool" where
  "replayed app \<longleftrightarrow> \<not> ap_timeline_playing app \<and> ap_timeline_t app = Fin 1"

lemma tick_advances:
  assumes "replaying app x" "0 \<le> x"
  shows "replayed (tick app) \<or> replaying (tick app) (x + 99 / 10000)"
proof -
  obtain y where y: "ap_tab app = Timeline" "ap_timeline_playing app" "ap_timeline_t app = Fin y" "x \<le> y" "y < 1"
    using assms(1) by (auto simp: replaying_def)
  have s: "0 < y + tick_step" "y + tick_step < 2" using y assms(2) by (simp_all add: tick_step_def)
  have t: "f64_add (Fin y) (round_f64 (1 / 100)) = round_pos (y + tick_step)"
    using s unfolding tick_step by (simp add: round_f64_def)
  show ?thesis
  proof (cases "f64_le (Fin 1) (round_pos (y + tick_step))")
    case True
    then show ?thesis using y t by (simp add: tick_def replayed_def Let_def)
  next
    case False
    obtain z where z: "round_pos (y + tick_step) = Fin z" "z < 1"
      using False round_pos_not_neg_inf[of "y + tick_step"]
      by (cases "round_pos (y + tick_step)") (auto simp: f64_le_def)
    have "y + tick_step - 1 / 2 ^ 53 \<le> z" by (rule round_pos_near[OF s z(1)])
    then have "x + 99 / 10000 \<le> z" using y(4) by (simp add: tick_step_def)
    then show ?thesis using y t z False by (auto simp: tick_def replaying_def Let_def)
  qed
qed

lemma tick_replayed: "replayed app \<Longrightarrow> tick app = app"
  by (simp add: replayed_def tick_def)

lemma ticks_advance:
  assumes "replaying app x" "0 \<le> x"
  shows "replayed ((tick ^^ n) app) \<or> replaying ((tick ^^ n) app) (x + of_nat n * (99 / 10000))"
proof (induction n)
  case (Suc n)
  have next_step: "x + of_nat (Suc n) * (99 / 10000) = (x + of_nat n * (99 / 10000)) + 99 / 10000" by (simp add: algebra_simps)
  have "0 \<le> x + of_nat n * (99 / 10000)" using assms(2) by simp
  then show ?case unfolding next_step funpow.simps comp_apply
    using Suc.IH tick_replayed[of "(tick ^^ n) app"] tick_advances[of "(tick ^^ n) app"] by metis
qed (simp add: assms)

text \<open>A replay reaches the end: left alone on the timeline tab, a playing playhead is at the end of the
  capture and stopped after at most 102 ticks, from wherever it started and whatever the rounding of the
  steps.\<close>

theorem replay_ends:
  assumes "playhead_ok app" and "ap_tab app = Timeline" and "ap_timeline_playing app" and "102 \<le> n"
  shows "\<not> ap_timeline_playing ((tick ^^ n) app) \<and> ap_timeline_t ((tick ^^ n) app) = Fin 1"
proof -
  have "replaying app 0" using assms(1-3) by (auto simp: playhead_ok_def replaying_def)
  moreover have "\<not> replaying ((tick ^^ n) app) (of_nat n * (99 / 10000))"
  proof -
    have "(102::rat) \<le> of_nat n" using assms(4) by (metis of_nat_le_iff of_nat_numeral)
    then show ?thesis by (auto simp: replaying_def)
  qed
  ultimately show ?thesis using ticks_advance[of app 0 n] by (auto simp: replayed_def)
qed

theorem replay_ends_witness:
  "\<not> ap_timeline_playing ((tick ^^ 102) (app_default\<lparr>ap_tab := Timeline, ap_timeline_t := Fin 0, ap_timeline_playing := True\<rparr> :: unit app)) \<and>
   ap_timeline_t ((tick ^^ 102) (app_default\<lparr>ap_tab := Timeline, ap_timeline_t := Fin 0, ap_timeline_playing := True\<rparr> :: unit app)) = Fin 1"
  by (rule replay_ends) (simp_all add: playhead_ok_def)

section \<open>What the filter box can do\<close>

text \<open>Typing the letter a with a grave accent into an empty filter box ends the program: the parser that runs
  on every key press panics on it.\<close>

lemma typing_panics:
  assumes "ap_filter_editing app" "ap_filter app = []"
  shows "on_key ve env \<lparr>ke_code = KeyChar 0xE0, ke_control = False\<rparr> app idx = Inl Panic"
proof -
  have "lex [CHR 0xC3, CHR 0xA0] = Inl Panic" by code_simp
  then have "stream_query_parse (ve_lower ve) env [CHR 0xC3, CHR 0xA0] = Inl Panic" by (simp add: stream_query_parse_def)
  moreover have "as_str [0xE0] = [CHR 0xC3, CHR 0xA0]" "trim [0xE0] = [0xE0]"
    by (simp_all add: as_str_def utf8_encode_def trim_def white_def char_of_def bit_0)
  ultimately show ?thesis using assms by (simp add: on_key_def edit_filter_def refresh_query_def Let_def)
qed

text \<open>The query parsed is the trimmed filter but the one evaluated is the untrimmed text: behind an ideographic
  space the word \<open>live\<close> is accepted as the flag and evaluated as a search for text.\<close>

lemma filter_text_untrimmed:
  defines "typed \<equiv> 0x3000 # map of_char ''live''"
  shows "stream_query_parse id no_regex (as_str (trim typed)) = Inr (EFlag FLive)"
    "stream_query_parse id no_regex (as_str typed) = Inr (FreeText (as_str typed))"
proof -
  have "as_str (trim typed) = ''live''" "as_str typed = [CHR 0xE3, CHR 0x80, CHR 0x80] @ ''live''"
    by (simp_all add: typed_def as_str_def utf8_encode_def trim_def white_def char_of_def bit_0)
  moreover have "stream_query_parse id no_regex ''live'' = Inr (EFlag FLive)"
    "stream_query_parse id no_regex ([CHR 0xE3, CHR 0x80, CHR 0x80] @ ''live'') = Inr (FreeText ([CHR 0xE3, CHR 0x80, CHR 0x80] @ ''live''))"
    by code_simp+
  ultimately show "stream_query_parse id no_regex (as_str (trim typed)) = Inr (EFlag FLive)"
    "stream_query_parse id no_regex (as_str typed) = Inr (FreeText (as_str typed))" by simp_all
qed

end
