(* ===== verification/Capture.thy ===== *)
theory Capture
  imports Parser Text
begin

text \<open>
  \<open>pktflow-capture\<close>: the source abstraction and the producer loop (\<open>source.rs\<close>), capture errors (\<open>error.rs\<close>),
  replay of files (\<open>offline.rs\<close>) and live capture (\<open>live.rs\<close>). A \<open>PacketSource\<close> is the record of its methods
  over a state of its own; what \<open>pump\<close> relies on for a source that ends is the locale \<open>finite_source\<close>,
  interpreted for the in-memory source and for files. The capture library is the parameter \<open>pkttap\<close>, sending
  on the channel is the parameter \<open>send\<close> (\<open>None\<close> when the receiver is gone), and a loop that may
  not end is a partial function.
\<close>

section \<open>Errors\<close>

datatype io_error = IoError string string

datatype capture_error =
    DeviceNotFound string
  | PermissionDenied string
  | FileFormat string
  | CaptureIo io_error
  | Backend string

text \<open>The errors of the capture library, a nested error by the text it displays.\<close>

datatype pkttap_error =
    TapPermissionDenied
  | TapFilter string
  | TapPcap string
  | TapIo io_error
  | TapPlatform string
  | TapWouldBlock

fun io_text :: "io_error \<Rightarrow> string" where
  "io_text (IoError kind t) = t"

fun map_pkttap_error :: "(string \<Rightarrow> string) \<Rightarrow> string \<Rightarrow> pkttap_error \<Rightarrow> capture_error" where
  "map_pkttap_error lower subject TapPermissionDenied = PermissionDenied subject"
| "map_pkttap_error lower subject (TapFilter e) = Backend (''BPF filter error on '' @ subject @ '': '' @ e)"
| "map_pkttap_error lower subject (TapPcap e) = FileFormat (subject @ '': '' @ e)"
| "map_pkttap_error lower subject (TapIo e) = CaptureIo e"
| "map_pkttap_error lower subject (TapPlatform msg) =
    (let l = lower msg in
     if contains l ''no such device'' \<or> contains l (''doesn'' @ [CHR 0x27] @ ''t exist'') \<or> contains l ''not found''
     then DeviceNotFound subject else Backend (subject @ '': '' @ msg))"
| "map_pkttap_error lower subject TapWouldBlock = Backend (subject @ '': would block'')"

section \<open>Sources\<close>

record raw_packet =
  rp_bytes :: "byte list"
  rp_meta :: packet_meta

record capture_stats =
  cs_received :: u64
  cs_dropped_kernel :: u64
  cs_dropped_iface :: u64

definition stats_default :: capture_stats where
  "stats_default = \<lparr>cs_received = 0, cs_dropped_kernel = 0, cs_dropped_iface = 0\<rparr>"

record 's packet_source =
  src_next :: "'s \<Rightarrow> (capture_error + raw_packet option) \<times> 's"
  src_link_type :: "'s \<Rightarrow> u16"
  src_stats :: "'s \<Rightarrow> capture_stats"

section \<open>The producer loop\<close>

record pump_report =
  pr_packets :: u64
  pr_bytes :: u64
  pr_regressed :: u64
  pr_stats :: capture_stats

definition report_default :: pump_report where
  "report_default = \<lparr>pr_packets = 0, pr_bytes = 0, pr_regressed = 0, pr_stats = stats_default\<rparr>"

text \<open>How the loop ends; a dissection that panics (an unknown forced entry) ends the thread.\<close>

datatype pump_end = Pumped pump_report | PumpFailed capture_error | PumpPanicked

record 's pump_state =
  ps_src :: 's
  ps_report :: pump_report
  ps_last_ts :: "system_time option"

definition limit_open :: "u64 option \<Rightarrow> pump_report \<Rightarrow> bool" where
  "limit_open limit report \<longleftrightarrow> (case limit of None \<Rightarrow> True | Some l \<Rightarrow> pr_packets report < l)"

text \<open>The bookkeeping for one packet.\<close>

definition account :: "packet_meta \<Rightarrow> 's pump_state \<Rightarrow> 's pump_state" where
  "account meta st =
    (let report = ps_report st; ts = timestamp meta;
         late = (case ps_last_ts st of Some t \<Rightarrow> ts < t | None \<Rightarrow> False)
     in st\<lparr>ps_report := report\<lparr>pr_packets := pr_packets report + 1, pr_bytes := pr_bytes report + of_nat (origlen meta),
            pr_regressed := (if late then pr_regressed report + 1 else pr_regressed report)\<rparr>,
          ps_last_ts := Some (case ps_last_ts st of Some t \<Rightarrow> max t ts | None \<Rightarrow> ts)\<rparr>)"

definition close_report :: "'s packet_source \<Rightarrow> 's pump_state \<Rightarrow> pump_end" where
  "close_report src st = Pumped ((ps_report st)\<lparr>pr_stats := src_stats src (ps_src st)\<rparr>)"

text \<open>One turn of the loop up to the send: a packet to send, or the end.\<close>

datatype 's turn = Deliver dissected_packet "'s pump_state" | Halt pump_end "'s pump_state"

definition pump_turn :: "'s packet_source \<Rightarrow> engine \<Rightarrow> parse_opts \<Rightarrow> u64 option \<Rightarrow> 's pump_state \<Rightarrow> 's turn" where
  "pump_turn src e opts limit st =
    (if \<not> limit_open limit (ps_report st) then Halt (close_report src st) st
     else case src_next src (ps_src st) of
       (Inl err, s') \<Rightarrow> Halt (PumpFailed err) (st\<lparr>ps_src := s'\<rparr>)
     | (Inr None, s') \<Rightarrow> Halt (close_report src (st\<lparr>ps_src := s'\<rparr>)) (st\<lparr>ps_src := s'\<rparr>)
     | (Inr (Some raw), s') \<Rightarrow>
        (case dissect e (rp_bytes raw) (rp_meta raw) opts of
           None \<Rightarrow> Halt PumpPanicked (st\<lparr>ps_src := s'\<rparr>)
         | Some packet \<Rightarrow> Deliver packet (account (rp_meta raw) (st\<lparr>ps_src := s'\<rparr>))))"

partial_function (option) pump_loop ::
  "'s packet_source \<Rightarrow> engine \<Rightarrow> parse_opts \<Rightarrow> u64 option \<Rightarrow> ('c \<Rightarrow> dissected_packet \<Rightarrow> 'c option) \<Rightarrow> 's pump_state \<Rightarrow> 'c \<Rightarrow>
    (pump_end \<times> 'c \<times> 's pump_state) option" where
  "pump_loop src e opts limit send st ch =
    (case pump_turn src e opts limit st of
       Halt r st' \<Rightarrow> Some (r, ch, st')
     | Deliver packet st' \<Rightarrow>
        (case send ch packet of
           None \<Rightarrow> Some (PumpFailed (Backend ''aggregation channel closed''), ch, st')
         | Some ch' \<Rightarrow> pump_loop src e opts limit send st' ch'))"

definition pump_start :: "'s \<Rightarrow> 's pump_state" where
  "pump_start s = \<lparr>ps_src = s, ps_report = report_default, ps_last_ts = None\<rparr>"

definition pump :: "'s packet_source \<Rightarrow> engine \<Rightarrow> parse_opts \<Rightarrow> ('c \<Rightarrow> dissected_packet \<Rightarrow> 'c option) \<Rightarrow> u64 option \<Rightarrow> 's \<Rightarrow> 'c \<Rightarrow>
    (pump_end \<times> 'c \<times> 's pump_state) option" where
  "pump src e opts send limit s ch = pump_loop src e opts limit send (pump_start s) ch"

section \<open>The in-memory source\<close>

record mock_source =
  mk_packets :: "(system_time \<times> byte list) list"
  mk_link_type :: u16
  mk_cursor :: nat

definition mock_new :: "(system_time \<times> byte list) list \<Rightarrow> u16 \<Rightarrow> mock_source" where
  "mock_new packets lt = \<lparr>mk_packets = packets, mk_link_type = lt, mk_cursor = 0\<rparr>"

definition mock_raw :: "u16 \<Rightarrow> system_time \<times> byte list \<Rightarrow> raw_packet" where
  "mock_raw lt = (\<lambda>(ts, bytes). \<lparr>rp_bytes = bytes,
     rp_meta = \<lparr>timestamp = ts, caplen = length bytes, origlen = length bytes, link_type = lt\<rparr>\<rparr>)"

definition mock_next :: "mock_source \<Rightarrow> (capture_error + raw_packet option) \<times> mock_source" where
  "mock_next m =
    (case elem_get (mk_packets m) (mk_cursor m) of
       None \<Rightarrow> (Inr None, m)
     | Some p \<Rightarrow> (Inr (Some (mock_raw (mk_link_type m) p)), m\<lparr>mk_cursor := mk_cursor m + 1\<rparr>))"

definition mock_stats :: "mock_source \<Rightarrow> capture_stats" where
  "mock_stats m = \<lparr>cs_received = of_nat (mk_cursor m), cs_dropped_kernel = 0, cs_dropped_iface = 0\<rparr>"

definition mock :: "mock_source packet_source" where
  "mock = \<lparr>src_next = mock_next, src_link_type = mk_link_type, src_stats = mock_stats\<rparr>"

section \<open>Files\<close>

datatype tap_link = TapEthernet | TapRawIp | TapLinuxSll

record tap_packet =
  tp_data :: "byte list"
  tp_timestamp :: system_time
  tp_orig_len :: u32

record 'c pkttap =
  tap_open_file :: "string \<Rightarrow> string option \<Rightarrow> pkttap_error + 'c"
  tap_open_live :: "string \<Rightarrow> bool \<Rightarrow> u32 \<Rightarrow> duration \<Rightarrow> string option \<Rightarrow> pkttap_error + 'c"
  tap_interfaces :: "pkttap_error + string list"
  tap_next :: "'c \<Rightarrow> (pkttap_error + tap_packet option) \<times> 'c"
  tap_link_type :: "'c \<Rightarrow> tap_link"
  tap_stats :: "'c \<Rightarrow> (u64 \<times> u64) option"

fun to_core_link_type :: "tap_link \<Rightarrow> u16" where
  "to_core_link_type TapEthernet = 1"
| "to_core_link_type TapRawIp = 101"
| "to_core_link_type TapLinuxSll = 113"

record 'c file_source =
  fs_capture :: 'c
  fs_link_type :: u16
  fs_delivered :: u64

definition open_with_filter :: "(string \<Rightarrow> string) \<Rightarrow> 'c pkttap \<Rightarrow> string \<Rightarrow> string option \<Rightarrow> capture_error + 'c file_source" where
  "open_with_filter lower tap path flt =
    (case tap_open_file tap path flt of
       Inl (TapIo io) \<Rightarrow> Inl (FileFormat (path @ '': '' @ io_text io))
     | Inl e \<Rightarrow> Inl (map_pkttap_error lower path e)
     | Inr capture \<Rightarrow>
        Inr \<lparr>fs_capture = capture, fs_link_type = to_core_link_type (tap_link_type tap capture), fs_delivered = 0\<rparr>)"

definition tap_raw :: "u16 \<Rightarrow> tap_packet \<Rightarrow> raw_packet" where
  "tap_raw lt pkt = \<lparr>rp_bytes = tp_data pkt,
     rp_meta = \<lparr>timestamp = tp_timestamp pkt, caplen = length (tp_data pkt), origlen = unat (tp_orig_len pkt), link_type = lt\<rparr>\<rparr>"

definition file_next :: "(string \<Rightarrow> string) \<Rightarrow> 'c pkttap \<Rightarrow> 'c file_source \<Rightarrow> (capture_error + raw_packet option) \<times> 'c file_source" where
  "file_next lower tap f =
    (case tap_next tap (fs_capture f) of
       (Inr (Some pkt), c) \<Rightarrow>
        (Inr (Some (tap_raw (fs_link_type f) pkt)), f\<lparr>fs_capture := c, fs_delivered := fs_delivered f + 1\<rparr>)
     | (Inr None, c) \<Rightarrow> (Inr None, f\<lparr>fs_capture := c\<rparr>)
     | (Inl e, c) \<Rightarrow> (Inl (map_pkttap_error lower ''file capture'' e), f\<lparr>fs_capture := c\<rparr>))"

definition file_stats :: "'c file_source \<Rightarrow> capture_stats" where
  "file_stats f = \<lparr>cs_received = fs_delivered f, cs_dropped_kernel = 0, cs_dropped_iface = 0\<rparr>"

definition file_source_ops :: "(string \<Rightarrow> string) \<Rightarrow> 'c pkttap \<Rightarrow> 'c file_source packet_source" where
  "file_source_ops lower tap = \<lparr>src_next = file_next lower tap, src_link_type = fs_link_type, src_stats = file_stats\<rparr>"

section \<open>Live capture\<close>

text \<open>The stop flag is set by another thread: \<open>stop k\<close> is what the loop's \<open>k\<close>-th load of it sees.\<close>

record capture_config =
  lc_promiscuous :: bool
  lc_snaplen :: "32 word"
  lc_buffer_size :: usize
  lc_read_timeout :: duration
  lc_bpf :: "string option"

definition capture_config_default :: capture_config where
  "capture_config_default =
    \<lparr>lc_promiscuous = True, lc_snaplen = 65535, lc_buffer_size = 4 * 1024 * 1024, lc_read_timeout = 250 * 10 ^ 6, lc_bpf = None\<rparr>"

record 'c live_source =
  lv_capture :: 'c
  lv_link_type :: u16
  lv_loads :: nat
  lv_poll_interval :: duration
  lv_delivered :: u64
  lv_kernel_stats :: capture_stats
  lv_buf :: "byte list"

definition live_open :: "(string \<Rightarrow> string) \<Rightarrow> 'c pkttap \<Rightarrow> string \<Rightarrow> capture_config \<Rightarrow> capture_error + 'c live_source" where
  "live_open lower tap device cfg =
    (case tap_open_live tap device (lc_promiscuous cfg) (if 0 \<le> sint (lc_snaplen cfg) then lc_snaplen cfg else 65535)
        (lc_read_timeout cfg) (lc_bpf cfg) of
       Inl e \<Rightarrow>
        Inl (case (lc_bpf cfg, e) of
               (Some bpf, TapFilter _) \<Rightarrow> map_pkttap_error lower (device @ '' ('' @ bpf @ '')'') e
             | _ \<Rightarrow> map_pkttap_error lower device e)
     | Inr capture \<Rightarrow>
        Inr \<lparr>lv_capture = capture, lv_link_type = to_core_link_type (tap_link_type tap capture), lv_loads = 0,
          lv_poll_interval = min (50 * 10 ^ 6) (max (10 ^ 6) (lc_read_timeout cfg div 4)), lv_delivered = 0,
          lv_kernel_stats = stats_default, lv_buf = []\<rparr>)"

definition refresh_stats :: "'c pkttap \<Rightarrow> 'c live_source \<Rightarrow> 'c live_source" where
  "refresh_stats tap l =
    (case tap_stats tap (lv_capture l) of
       Some (dropped, if_dropped) \<Rightarrow>
        l\<lparr>lv_kernel_stats := \<lparr>cs_received = lv_delivered l, cs_dropped_kernel = dropped, cs_dropped_iface = if_dropped\<rparr>\<rparr>
     | None \<Rightarrow> l\<lparr>lv_kernel_stats := (lv_kernel_stats l)\<lparr>cs_received := lv_delivered l\<rparr>\<rparr>)"

partial_function (option) live_next ::
  "(nat \<Rightarrow> bool) \<Rightarrow> (string \<Rightarrow> string) \<Rightarrow> 'c pkttap \<Rightarrow> 'c live_source \<Rightarrow>
    ((capture_error + raw_packet option) \<times> 'c live_source) option" where
  "live_next stop lower tap l =
    (let l1 = l\<lparr>lv_loads := lv_loads l + 1\<rparr> in
     if stop (lv_loads l) then Some (Inr None, refresh_stats tap l1)
     else case tap_next tap (lv_capture l) of
       (r, c) \<Rightarrow>
        (let l2 = l1\<lparr>lv_capture := c\<rparr> in
         case r of
           Inr (Some pkt) \<Rightarrow>
            Some (Inr (Some (tap_raw (lv_link_type l) pkt)), l2\<lparr>lv_buf := tp_data pkt, lv_delivered := lv_delivered l + 1\<rparr>)
         | Inr None \<Rightarrow> live_next stop lower tap (refresh_stats tap l2)
         | Inl e \<Rightarrow>
            if e = TapWouldBlock then live_next stop lower tap (refresh_stats tap l2)
            else Some (Inl (map_pkttap_error lower ''live capture'' e), l2)))"

definition live_stats :: "'c live_source \<Rightarrow> capture_stats" where
  "live_stats l = (lv_kernel_stats l)\<lparr>cs_received := lv_delivered l\<rparr>"

record interface_info =
  if_name :: string
  if_description :: "string option"
  if_addrs :: "string list"
  if_up :: bool
  if_loopback :: bool

definition list_interfaces :: "(string \<Rightarrow> string) \<Rightarrow> 'c pkttap \<Rightarrow> capture_error + interface_info list" where
  "list_interfaces lower tap =
    (case tap_interfaces tap of
       Inl e \<Rightarrow> Inl (map_pkttap_error lower ''device list'' e)
     | Inr names \<Rightarrow> Inr (map (\<lambda>name. let l = lower name in
         \<lparr>if_name = name, if_description = None, if_addrs = [], if_up = True,
          if_loopback = (l = ''lo'' \<or> l = ''lo0'' \<or> contains l ''loopback'')\<rparr>) names))"

section \<open>The end of a live capture\<close>

lemma refresh_stats_loads [simp]:
  "lv_loads (refresh_stats tap l) = lv_loads l" "lv_delivered (refresh_stats tap l) = lv_delivered l"
  "lv_link_type (refresh_stats tap l) = lv_link_type l" "cs_received (lv_kernel_stats (refresh_stats tap l)) = lv_delivered l"
  by (simp_all add: refresh_stats_def split: option.split)

text \<open>What one call of \<open>next_packet\<close> guarantees about its answer, relative to the state it started in.\<close>

definition live_answer :: "(nat \<Rightarrow> bool) \<Rightarrow> 'c live_source \<Rightarrow> (capture_error + raw_packet option) \<times> 'c live_source \<Rightarrow> bool" where
  "live_answer stop l res \<longleftrightarrow>
    (case res of (r, l') \<Rightarrow> lv_loads l < lv_loads l' \<and> \<not> list_ex stop [lv_loads l..<lv_loads l' - 1] \<and>
      (case r of
         Inr None \<Rightarrow> stop (lv_loads l' - 1) \<and> lv_delivered l' = lv_delivered l \<and> cs_received (lv_kernel_stats l') = lv_delivered l
       | Inr (Some raw) \<Rightarrow> \<not> stop (lv_loads l' - 1) \<and> lv_delivered l' = lv_delivered l + 1 \<and> rp_bytes raw = lv_buf l' \<and>
          caplen (rp_meta raw) = length (lv_buf l') \<and> link_type (rp_meta raw) = lv_link_type l
       | Inl e \<Rightarrow> \<not> stop (lv_loads l' - 1) \<and> lv_delivered l' = lv_delivered l))"

lemma live_answer_retry:
  assumes "live_answer stop l2 res" "lv_loads l2 = lv_loads l + 1" "lv_delivered l2 = lv_delivered l" "lv_link_type l2 = lv_link_type l"
    "\<not> stop (lv_loads l)"
  shows "live_answer stop l res"
proof -
  obtain r l' where r: "res = (r, l')" by fastforce
  have "[lv_loads l..<lv_loads l' - 1] = lv_loads l # [lv_loads l + 1..<lv_loads l' - 1]" if "lv_loads l + 1 < lv_loads l'"
    using that by (simp add: upt_conv_Cons)
  then show ?thesis using assms r by (auto simp: live_answer_def split: sum.splits option.splits)
qed

lemma live_next_step:
  assumes "\<not> stop (lv_loads l)" "tap_next tap (lv_capture l) = (r, c)"
  shows "(\<exists>res. live_next stop lower tap l = Some res \<and> live_answer stop l res \<and> lv_loads (snd res) = lv_loads l + 1) \<or>
    live_next stop lower tap l = live_next stop lower tap (refresh_stats tap (l\<lparr>lv_loads := lv_loads l + 1, lv_capture := c\<rparr>))"
proof (cases r)
  case (Inl e)
  show ?thesis
  proof (cases "e = TapWouldBlock")
    case True
    then show ?thesis using assms Inl by (intro disjI2) (subst live_next.simps, simp add: Let_def)
  next
    case False
    then show ?thesis using assms Inl by (intro disjI1) (subst live_next.simps, simp add: Let_def live_answer_def)
  qed
next
  case (Inr got)
  show ?thesis
  proof (cases got)
    case None
    then show ?thesis using assms Inr by (intro disjI2) (subst live_next.simps, simp add: Let_def)
  next
    case (Some pkt)
    then show ?thesis using assms Inr by (intro disjI1) (subst live_next.simps, simp add: Let_def live_answer_def tap_raw_def)
  qed
qed

lemma live_next_stopped:
  assumes "stop (lv_loads l)"
  shows "\<exists>res. live_next stop lower tap l = Some res \<and> live_answer stop l res \<and> lv_loads (snd res) = lv_loads l + 1"
  using assms by (subst live_next.simps) (simp add: live_answer_def Let_def)

lemma live_next_returns:
  assumes "stop n" "lv_loads l \<le> n"
  shows "\<exists>res. live_next stop lower tap l = Some res \<and> live_answer stop l res \<and> lv_loads (snd res) \<le> n + 1"
  using assms(2)
proof (induction "n - lv_loads l" arbitrary: l rule: less_induct)
  case less
  show ?case
  proof (cases "stop (lv_loads l)")
    case True
    then show ?thesis using live_next_stopped[of stop l lower tap, OF True] less.prems by auto
  next
    case False
    then have lt: "lv_loads l < n" using less.prems assms(1) by (cases "lv_loads l = n") auto
    obtain r c where t: "tap_next tap (lv_capture l) = (r, c)" by fastforce
    let ?l2 = "refresh_stats tap (l\<lparr>lv_loads := lv_loads l + 1, lv_capture := c\<rparr>)"
    have "\<exists>res. live_next stop lower tap ?l2 = Some res \<and> live_answer stop ?l2 res \<and> lv_loads (snd res) \<le> n + 1"
      using lt by (intro less.hyps) auto
    then have "\<exists>res. live_next stop lower tap ?l2 = Some res \<and> live_answer stop l res \<and> lv_loads (snd res) \<le> n + 1"
      using live_answer_retry[of stop ?l2 _ l] False by auto
    then show ?thesis using live_next_step[of stop l tap r c lower, OF False t] less.prems by fastforce
  qed
qed
section \<open>The report\<close>

text \<open>The packets with an earlier timestamp than one before them.\<close>

definition regressions :: "system_time list \<Rightarrow> nat" where
  "regressions tss = length (filter (\<lambda>i. \<exists>j<i. tss ! i < tss ! j) [0..<length tss])"

lemma regressions_snoc: "regressions (tss @ [t]) = regressions tss + (if \<exists>u \<in> set tss. t < u then 1 else 0)"
proof -
  have "filter (\<lambda>i. \<exists>j<i. (tss @ [t]) ! i < (tss @ [t]) ! j) [0..<length tss] = filter (\<lambda>i. \<exists>j<i. tss ! i < tss ! j) [0..<length tss]"
  proof (rule filter_cong[OF refl])
    fix i assume "i \<in> set [0..<length tss]"
    then have i: "i < length tss" by simp
    have "(tss @ [t]) ! j = tss ! j" if "j \<le> i" for j using i that by (simp add: nth_append)
    then show "(\<exists>j<i. (tss @ [t]) ! i < (tss @ [t]) ! j) \<longleftrightarrow> (\<exists>j<i. tss ! i < tss ! j)" by (metis le_refl less_imp_le)
  qed
  moreover have "(\<exists>j<length tss. (tss @ [t]) ! length tss < (tss @ [t]) ! j) \<longleftrightarrow> (\<exists>u \<in> set tss. t < u)"
  proof -
    have "(\<exists>j<length tss. t < (tss @ [t]) ! j) \<longleftrightarrow> (\<exists>j<length tss. t < tss ! j)" by (simp add: nth_append cong: conj_cong)
    also have "\<dots> \<longleftrightarrow> (\<exists>u \<in> set tss. t < u)" by (metis in_set_conv_nth)
    finally show ?thesis by simp
  qed
  ultimately show ?thesis unfolding regressions_def by simp
qed

definition latest_ts :: "system_time list \<Rightarrow> system_time option" where
  "latest_ts tss = (if tss = [] then None else Some (Max (set tss)))"

lemma fold_account:
  fixes s :: 's
  defines "start \<equiv> pump_start s"
  shows "ps_report (fold account metas start) = \<lparr>pr_packets = of_nat (length metas), pr_bytes = of_nat (sum_list (map origlen metas)),
      pr_regressed = of_nat (regressions (map timestamp metas)), pr_stats = stats_default\<rparr> \<and>
    ps_last_ts (fold account metas start) = latest_ts (map timestamp metas)"
proof (induction metas rule: rev_induct)
  case Nil
  then show ?case by (simp add: start_def pump_start_def report_default_def latest_ts_def regressions_def)
next
  case (snoc m metas)
  have max: "(\<exists>u \<in> set (map timestamp metas). timestamp m < u) \<longleftrightarrow> metas \<noteq> [] \<and> timestamp m < Max (set (map timestamp metas))"
    by (cases "metas = []") (simp_all add: Max_gr_iff)
  have step: "Max (set (map timestamp (metas @ [m]))) = max (Max (set (map timestamp metas))) (timestamp m)" if "metas \<noteq> []"
    using that by (simp add: max.commute)
  show ?case
    using snoc max step by (auto simp: account_def Let_def latest_ts_def regressions_snoc add.commute)
qed

lemma account_src: "account m (st\<lparr>ps_src := s\<rparr>) = (account m st)\<lparr>ps_src := s\<rparr>"
  by (simp add: account_def Let_def)

lemma fold_account_src:
  "ps_report (fold account ms (st\<lparr>ps_src := s\<rparr>)) = ps_report (fold account ms st)"
  "ps_src (fold account ms st) = ps_src st"
proof -
  have "fold account ms (st\<lparr>ps_src := s\<rparr>) = (fold account ms st)\<lparr>ps_src := s\<rparr>" for s
    by (induction ms arbitrary: st) (simp_all add: account_src)
  then show "ps_report (fold account ms (st\<lparr>ps_src := s\<rparr>)) = ps_report (fold account ms st)" by simp
  show "ps_src (fold account ms st) = ps_src st" by (induction ms arbitrary: st) (simp_all add: account_def Let_def)
qed

section \<open>Sources that end\<close>

text \<open>How many of the remaining packets the limit admits.\<close>

definition admitted :: "u64 option \<Rightarrow> u64 \<Rightarrow> nat \<Rightarrow> nat" where
  "admitted limit done n = (case limit of None \<Rightarrow> n | Some l \<Rightarrow> min n (unat l - unat done))"

text \<open>Whether the limit is reached before the source is asked what comes after its last packet, and the error a
  run ends with when the source ends with \<open>f\<close>.\<close>

definition limit_hit :: "u64 option \<Rightarrow> u64 \<Rightarrow> nat \<Rightarrow> bool" where
  "limit_hit limit done n \<longleftrightarrow> (case limit of None \<Rightarrow> False | Some l \<Rightarrow> unat l - unat done \<le> n)"

definition ending :: "u64 option \<Rightarrow> u64 \<Rightarrow> nat \<Rightarrow> capture_error option \<Rightarrow> capture_error option" where
  "ending limit done n f = (if limit_hit limit done n then None else f)"

definition halt_with :: "'s packet_source \<Rightarrow> capture_error option \<Rightarrow> 's pump_state \<Rightarrow> pump_end" where
  "halt_with src f st = (case f of None \<Rightarrow> close_report src st | Some err \<Rightarrow> PumpFailed err)"

text \<open>A source that ends: it yields the packets of its feed and then the end, or an error.\<close>

locale finite_source =
  fixes src :: "'s packet_source" and ok :: "'s \<Rightarrow> bool" and feed :: "'s \<Rightarrow> raw_packet list"
    and final :: "'s \<Rightarrow> capture_error option"
  assumes next_end: "ok s \<Longrightarrow> feed s = [] \<Longrightarrow>
      \<exists>s'. src_next src s = (case final s of None \<Rightarrow> Inr None | Some err \<Rightarrow> Inl err, s') \<and> src_stats src s' = src_stats src s"
    and next_some: "ok s \<Longrightarrow> feed s = r # rs \<Longrightarrow>
      \<exists>s'. src_next src s = (Inr (Some r), s') \<and> ok s' \<and> feed s' = rs \<and> final s' = final s \<and>
        src_stats src s' = (src_stats src s)\<lparr>cs_received := cs_received (src_stats src s) + 1\<rparr>"
begin

lemma turn_end:
  assumes "ok (ps_src st)" "admitted limit (pr_packets (ps_report st)) (length (feed (ps_src st))) = 0"
  shows "\<exists>st'. pump_turn src e opts limit st =
      Halt (halt_with src (ending limit (pr_packets (ps_report st)) (length (feed (ps_src st))) (final (ps_src st))) st') st' \<and>
    ps_report st' = ps_report st \<and> src_stats src (ps_src st') = src_stats src (ps_src st)"
proof (cases "limit_open limit (ps_report st)")
  case True
  then have f: "feed (ps_src st) = []"
    using assms(2) by (auto simp: admitted_def limit_open_def word_less_nat_alt min_def split: option.splits if_splits)
  have "\<not> limit_hit limit (pr_packets (ps_report st)) 0"
    using True by (auto simp: limit_hit_def limit_open_def word_less_nat_alt split: option.splits)
  with next_end[OF assms(1) f] True f show ?thesis
    by (auto simp: pump_turn_def halt_with_def ending_def split: option.splits)
next
  case False
  then have "limit_hit limit (pr_packets (ps_report st)) n" for n
    by (auto simp: limit_hit_def limit_open_def word_less_nat_alt split: option.splits)
  with False show ?thesis by (auto simp: pump_turn_def halt_with_def ending_def)
qed

lemma turn_packet:
  assumes "ok (ps_src st)" "feed (ps_src st) = r # rs" "admitted limit (pr_packets (ps_report st)) (length (feed (ps_src st))) \<noteq> 0"
    "dissect e (rp_bytes r) (rp_meta r) opts = Some p"
  shows "\<exists>s'. pump_turn src e opts limit st = Deliver p (account (rp_meta r) (st\<lparr>ps_src := s'\<rparr>)) \<and> ok s' \<and> feed s' = rs \<and>
    final s' = final (ps_src st) \<and> src_stats src s' = (src_stats src (ps_src st))\<lparr>cs_received := cs_received (src_stats src (ps_src st)) + 1\<rparr>"
proof -
  have "limit_open limit (ps_report st)"
    using assms(2,3) by (auto simp: admitted_def limit_open_def word_less_nat_alt split: option.splits)
  then show ?thesis using next_some[OF assms(1,2)] assms(4) by (auto simp: pump_turn_def)
qed

text \<open>The loop over a source that ends, with a receiver that stays.\<close>

lemma pump_loop_feed:
  fixes limit :: "u64 option"
  assumes "ok (ps_src st)" and "map (\<lambda>r. dissect e (rp_bytes r) (rp_meta r) opts) (feed (ps_src st)) = map Some pkts"
    and "unat (pr_packets (ps_report st)) + length pkts < 2 ^ 64"
  defines "k \<equiv> admitted limit (pr_packets (ps_report st)) (length pkts)"
  defines "f \<equiv> ending limit (pr_packets (ps_report st)) (length pkts) (final (ps_src st))"
  shows "\<exists>st'. pump_loop src e opts limit (\<lambda>ch p. Some (ch @ [p])) st ch = Some (halt_with src f st', ch @ take k pkts, st') \<and>
    ps_report st' = ps_report (fold account (map rp_meta (take k (feed (ps_src st)))) st) \<and>
    src_stats src (ps_src st') = (src_stats src (ps_src st))\<lparr>cs_received := cs_received (src_stats src (ps_src st)) + of_nat k\<rparr>"
  using assms(1-3) unfolding k_def f_def
proof (induction pkts arbitrary: st ch)
  case Nil
  then have "admitted limit (pr_packets (ps_report st)) (length (feed (ps_src st))) = 0" by (auto simp: admitted_def split: option.splits)
  from turn_end[OF Nil(1) this] obtain st' where
    "pump_turn src e opts limit st =
      Halt (halt_with src (ending limit (pr_packets (ps_report st)) (length (feed (ps_src st))) (final (ps_src st))) st') st'"
    "ps_report st' = ps_report st" "src_stats src (ps_src st') = src_stats src (ps_src st)" by blast
  then show ?case using Nil by (subst pump_loop.simps) (simp add: admitted_def split: option.split)
next
  case (Cons p pkts)
  obtain r rs where feed: "feed (ps_src st) = r # rs" using Cons.prems(2) by (cases "feed (ps_src st)") auto
  have d: "dissect e (rp_bytes r) (rp_meta r) opts = Some p"
    "map (\<lambda>r. dissect e (rp_bytes r) (rp_meta r) opts) rs = map Some pkts" using Cons.prems(2) feed by auto
  have len: "length (feed (ps_src st)) = length (p # pkts)" using Cons.prems(2) by (metis length_map)
  let ?a = "admitted limit (pr_packets (ps_report st)) (length (p # pkts))"
  show ?case
  proof (cases "?a = 0")
    case True
    from turn_end[OF Cons.prems(1) True[folded len]] obtain st' where
      "pump_turn src e opts limit st =
        Halt (halt_with src (ending limit (pr_packets (ps_report st)) (length (p # pkts)) (final (ps_src st))) st') st'"
      "ps_report st' = ps_report st" "src_stats src (ps_src st') = src_stats src (ps_src st)" unfolding len by blast
    then show ?thesis unfolding True by (subst pump_loop.simps) simp
  next
    case False
    from turn_packet[OF Cons.prems(1) feed _ d(1)] False[folded len] obtain s' where
      t: "pump_turn src e opts limit st = Deliver p (account (rp_meta r) (st\<lparr>ps_src := s'\<rparr>))" "ok s'" "feed s' = rs"
      "final s' = final (ps_src st)"
      "src_stats src s' = (src_stats src (ps_src st))\<lparr>cs_received := cs_received (src_stats src (ps_src st)) + 1\<rparr>" by metis
    define st1 where "st1 = account (rp_meta r) (st\<lparr>ps_src := s'\<rparr>)"
    have st1: "ps_src st1 = s'" "pr_packets (ps_report st1) = pr_packets (ps_report st) + 1"
      by (simp_all add: st1_def account_def Let_def)
    have u: "unat (pr_packets (ps_report st1)) = unat (pr_packets (ps_report st)) + 1"
      using Cons.prems(3) st1(2) by (simp add: unat_word_ariths take_bit_eq_mod)
    have a: "?a = Suc (admitted limit (pr_packets (ps_report st1)) (length pkts))"
      using False u by (auto simp: admitted_def split: option.splits)
    have hit: "ending limit (pr_packets (ps_report st1)) (length pkts) f = ending limit (pr_packets (ps_report st)) (length (p # pkts)) f"
      for f using u by (auto simp: ending_def limit_hit_def split: option.splits)
    from Cons.IH[of st1 "ch @ [p]"] t(2,3) d(2) st1(1) u Cons.prems(3) obtain st' where
      l: "pump_loop src e opts limit (\<lambda>ch p. Some (ch @ [p])) st1 (ch @ [p]) =
        Some (halt_with src (ending limit (pr_packets (ps_report st1)) (length pkts) (final s')) st', (ch @ [p]) @ take (admitted limit (pr_packets (ps_report st1)) (length pkts)) pkts, st')"
      "ps_report st' = ps_report (fold account (map rp_meta (take (admitted limit (pr_packets (ps_report st1)) (length pkts)) rs)) st1)"
      "src_stats src (ps_src st') = (src_stats src s')\<lparr>cs_received := cs_received (src_stats src s') +
        of_nat (admitted limit (pr_packets (ps_report st1)) (length pkts))\<rparr>" by auto
    have "pump_loop src e opts limit (\<lambda>ch p. Some (ch @ [p])) st ch = pump_loop src e opts limit (\<lambda>ch p. Some (ch @ [p])) st1 (ch @ [p])"
      by (subst pump_loop.simps) (simp add: t(1) st1_def)
    moreover have "st1 = (account (rp_meta r) st)\<lparr>ps_src := s'\<rparr>" by (simp add: st1_def account_src)
    ultimately show ?thesis using l t(5) unfolding a feed hit t(4) by (auto simp: fold_account_src(1) algebra_simps)
  qed
qed

text \<open>A whole run from a fresh source: what was sent, in order, and the report.\<close>

lemma pump_all:
  fixes limit :: "u64 option"
  assumes "ok s" "src_stats src s = stats_default" and "map (\<lambda>r. dissect e (rp_bytes r) (rp_meta r) opts) (feed s) = map Some pkts"
    and "length pkts < 2 ^ 64"
  defines "k \<equiv> admitted limit 0 (length pkts)"
  defines "metas \<equiv> map rp_meta (take k (feed s))"
  shows "\<exists>st'. pump src e opts (\<lambda>ch p. Some (ch @ [p])) limit s [] =
    Some (case ending limit 0 (length pkts) (final s) of
        None \<Rightarrow> Pumped \<lparr>pr_packets = of_nat k, pr_bytes = of_nat (sum_list (map origlen metas)),
          pr_regressed = of_nat (regressions (map timestamp metas)),
          pr_stats = \<lparr>cs_received = of_nat k, cs_dropped_kernel = 0, cs_dropped_iface = 0\<rparr>\<rparr>
      | Some err \<Rightarrow> PumpFailed err, take k pkts, st')"
proof -
  have len: "length (feed s) = length pkts" using assms(3) by (metis length_map)
  have k: "k \<le> length pkts" by (auto simp: k_def admitted_def split: option.splits)
  have "\<exists>st'. pump_loop src e opts limit (\<lambda>ch p. Some (ch @ [p])) (pump_start s) [] =
      Some (halt_with src (ending limit 0 (length pkts) (final s)) st', [] @ take k pkts, st') \<and>
    ps_report st' = ps_report (fold account metas (pump_start s)) \<and>
    src_stats src (ps_src st') = (src_stats src s)\<lparr>cs_received := cs_received (src_stats src s) + of_nat k\<rparr>"
    using pump_loop_feed[of "pump_start s" e opts pkts limit "[]"] assms(1,3,4)
    by (simp add: pump_start_def report_default_def k_def metas_def)
  then show ?thesis using fold_account[of metas s] k len assms(2)
    by (auto simp: pump_def close_report_def halt_with_def stats_default_def metas_def split: option.splits)
qed

end

section \<open>The sources\<close>

definition mock_ok :: "mock_source \<Rightarrow> bool" where
  "mock_ok m \<longleftrightarrow> mk_cursor m \<le> length (mk_packets m)"

definition mock_feed :: "mock_source \<Rightarrow> raw_packet list" where
  "mock_feed m = map (mock_raw (mk_link_type m)) (drop (mk_cursor m) (mk_packets m))"

lemma mock_feed_Cons:
  assumes "mock_feed m = r # rs"
  shows "\<exists>p. elem_get (mk_packets m) (mk_cursor m) = Some p \<and> r = mock_raw (mk_link_type m) p \<and>
    rs = mock_feed (m\<lparr>mk_cursor := mk_cursor m + 1\<rparr>) \<and> mk_cursor m < length (mk_packets m)"
proof -
  have l: "mk_cursor m < length (mk_packets m)" by (rule ccontr) (use assms in \<open>simp add: mock_feed_def\<close>)
  then have "drop (mk_cursor m) (mk_packets m) = mk_packets m ! mk_cursor m # drop (Suc (mk_cursor m)) (mk_packets m)"
    by (simp add: Cons_nth_drop_Suc)
  then show ?thesis using assms l by (simp add: mock_feed_def elem_get_def)
qed

interpretation mock_run: finite_source mock mock_ok mock_feed "\<lambda>_. None"
proof unfold_locales
  fix s :: mock_source
  assume "mock_ok s" "mock_feed s = []"
  then show "\<exists>s'. src_next mock s = (case None of None \<Rightarrow> Inr None | Some err \<Rightarrow> Inl err, s') \<and> src_stats mock s' = src_stats mock s"
    by (simp add: mock_def mock_next_def mock_feed_def elem_get_def)
next
  fix s :: mock_source and r rs
  assume f: "mock_feed s = r # rs"
  from mock_feed_Cons[OF this] show "\<exists>s'. src_next mock s = (Inr (Some r), s') \<and> mock_ok s' \<and> mock_feed s' = rs \<and> None = None \<and>
      src_stats mock s' = (src_stats mock s)\<lparr>cs_received := cs_received (src_stats mock s) + 1\<rparr>"
    by (auto simp: mock_def mock_next_def mock_stats_def mock_ok_def)
qed

text \<open>What a replayed file relies on: the capture library yields finitely many frames in order, and then the end of
  the file or an error (a damaged record, a failed read).\<close>

definition tap_replays :: "'c pkttap \<Rightarrow> ('c \<Rightarrow> tap_packet list) \<Rightarrow> ('c \<Rightarrow> pkttap_error option) \<Rightarrow> bool" where
  "tap_replays tap frames damage \<longleftrightarrow> (\<forall>c.
    (frames c = [] \<longrightarrow> (\<exists>c'. tap_next tap c = (case damage c of None \<Rightarrow> Inr None | Some err \<Rightarrow> Inl err, c'))) \<and>
    (\<forall>p ps. frames c = p # ps \<longrightarrow> (\<exists>c'. tap_next tap c = (Inr (Some p), c') \<and> frames c' = ps \<and> damage c' = damage c)))"

definition file_feed :: "('c \<Rightarrow> tap_packet list) \<Rightarrow> 'c file_source \<Rightarrow> raw_packet list" where
  "file_feed frames f = map (tap_raw (fs_link_type f)) (frames (fs_capture f))"

definition file_final :: "(string \<Rightarrow> string) \<Rightarrow> ('c \<Rightarrow> pkttap_error option) \<Rightarrow> 'c file_source \<Rightarrow> capture_error option" where
  "file_final lower damage f = map_option (map_pkttap_error lower ''file capture'') (damage (fs_capture f))"

lemma file_finite:
  assumes "tap_replays tap frames damage"
  shows "finite_source (file_source_ops lower tap) (\<lambda>_. True) (file_feed frames) (file_final lower damage)"
proof
  fix f :: "'a file_source"
  assume "file_feed frames f = []"
  then obtain c' where "tap_next tap (fs_capture f) = (case damage (fs_capture f) of None \<Rightarrow> Inr None | Some err \<Rightarrow> Inl err, c')"
    using assms by (auto simp: tap_replays_def file_feed_def)
  then show "\<exists>s'. src_next (file_source_ops lower tap) f = (case file_final lower damage f of None \<Rightarrow> Inr None | Some err \<Rightarrow> Inl err, s') \<and>
      src_stats (file_source_ops lower tap) s' = src_stats (file_source_ops lower tap) f"
    by (auto simp: file_source_ops_def file_next_def file_stats_def file_final_def split: option.split)
next
  fix f :: "'a file_source" and r rs
  assume "file_feed frames f = r # rs"
  then obtain p ps where p: "frames (fs_capture f) = p # ps" "r = tap_raw (fs_link_type f) p" "rs = map (tap_raw (fs_link_type f)) ps"
    by (auto simp: file_feed_def)
  then obtain c' where "tap_next tap (fs_capture f) = (Inr (Some p), c')" "frames c' = ps" "damage c' = damage (fs_capture f)"
    using assms unfolding tap_replays_def by blast
  then show "\<exists>s'. src_next (file_source_ops lower tap) f = (Inr (Some r), s') \<and> True \<and> file_feed frames s' = rs \<and>
      file_final lower damage s' = file_final lower damage f \<and>
      src_stats (file_source_ops lower tap) s' =
        (src_stats (file_source_ops lower tap) f)\<lparr>cs_received := cs_received (src_stats (file_source_ops lower tap) f) + 1\<rparr>"
    using p by (simp add: file_source_ops_def file_next_def file_stats_def file_feed_def file_final_def)
qed

section \<open>A live capture stops\<close>

text \<open>The read loop of a live capture returns once the stop flag is seen set, at the latest at that load, and
  reports the end of the capture only when it saw the flag.\<close>

lemma live_next_stops:
  assumes "stop (lv_loads l + n)"
  shows "\<exists>r l'. live_next stop lower tap l = Some (r, l') \<and> lv_loads l' \<le> Suc (lv_loads l + n) \<and>
    (r = Inr None \<longrightarrow> stop (lv_loads l' - 1))"
  using assms
proof (induction n arbitrary: l)
  case 0
  then show ?case by (subst live_next.simps) (simp add: Let_def refresh_stats_def split: option.split prod.split)
next
  case (Suc n)
  obtain r c where t: "tap_next tap (lv_capture l) = (r, c)" by fastforce
  define l2 where "l2 = refresh_stats tap (l\<lparr>lv_loads := lv_loads l + 1, lv_capture := c\<rparr>)"
  have loads: "lv_loads l2 = Suc (lv_loads l)" by (simp add: l2_def refresh_stats_def split: option.split prod.split)
  then have again: "\<exists>r l'. live_next stop lower tap l2 = Some (r, l') \<and> lv_loads l' \<le> Suc (lv_loads l + Suc n) \<and>
    (r = Inr None \<longrightarrow> stop (lv_loads l' - 1))"
    using Suc.IH[of l2] Suc.prems by simp
  show ?case
  proof (cases "stop (lv_loads l)")
    case True
    then show ?thesis by (subst live_next.simps) (simp add: Let_def refresh_stats_def split: option.split prod.split)
  next
    case False
    then show ?thesis using again t l2_def
      by (subst live_next.simps) (auto simp: Let_def split: sum.split option.split)
  qed
qed

end
