(* ===== verification/Pipeline.thy ===== *)
theory Pipeline
  imports Capture Registry Hub
begin

text \<open>
  \<open>pktflow-cli/src/run.rs\<close> with the arguments of \<open>cli.rs\<close> and the errors of \<open>error.rs\<close>: the run pipeline. A
  producer thread pumps a source through the engine into a bounded channel, the consumer aggregates what
  arrives; the two are the rules of the step relation \<open>pipe_step\<close>, so a run is any interleaving of them. Every
  complete run has the result of pumping and aggregating in sequence, no run is stuck before it is complete, and
  over a source that ends every run completes. The pipeline behind the interactive front ends publishes
  snapshots into a hub; its clock is an argument. Messages of usage and lookup errors are values, not text.
\<close>

section \<open>Arguments\<close>

datatype depth_arg = ArgKeys | ArgStructural | ArgFull

fun to_depth :: "depth_arg \<Rightarrow> depth" where
  "to_depth ArgKeys = Keys"
| "to_depth ArgStructural = Structural"
| "to_depth ArgFull = Full"

record shared_args =
  sa_read :: "string option"
  sa_iface :: "string option"
  sa_filter :: "string option"
  sa_count :: "u64 option"
  sa_depth :: depth_arg
  sa_idle_timeout :: "u64 option"
  sa_max_streams :: "usize option"
  sa_series_cap :: "usize option"
  sa_no_condense :: bool
  sa_condense_threshold :: "usize option"
  sa_entry :: "string option"

definition wants_live_eviction :: "shared_args \<Rightarrow> bool" where
  "wants_live_eviction sa \<longleftrightarrow> sa_iface sa \<noteq> None \<or> sa_idle_timeout sa \<noteq> None \<or> sa_max_streams sa \<noteq> None"

definition from_secs :: "nat \<Rightarrow> duration" where
  "from_secs s = s * 10 ^ 9"

definition arg_idle_timeout :: "shared_args \<Rightarrow> duration" where
  "arg_idle_timeout sa = from_secs (case sa_idle_timeout sa of Some s \<Rightarrow> unat s | None \<Rightarrow> 300)"

definition arg_max_streams :: "shared_args \<Rightarrow> usize" where
  "arg_max_streams sa = (case sa_max_streams sa of Some n \<Rightarrow> n | None \<Rightarrow> 1000000)"

definition series_max_cap :: "shared_args \<Rightarrow> usize option" where
  "series_max_cap sa = (if sa_series_cap sa = Some 0 then None else sa_series_cap sa)"

definition arg_condense_threshold :: "shared_args \<Rightarrow> usize" where
  "arg_condense_threshold sa =
    (if sa_no_condense sa then 0
     else case sa_condense_threshold sa of Some k \<Rightarrow> k | None \<Rightarrow> DEFAULT_CONDENSE_THRESHOLD)"

text \<open>The messages of usage and lookup errors, as the data they are formatted from.\<close>

datatype usage_message =
    EntryNotRegistered string
  | InputRequired
  | BadSelectorId string
  | BadSelector string
  | BadGroupSelector string
  | BadGroupNumber string
  | TargetExists string

datatype lookup_message =
    NoStream u64
  | NoMatch string string string
  | Ambiguous string "string list"
  | NoGroup usize usize

datatype cli_error =
    Usage usage_message
  | CliCapture capture_error
  | CliIo io_error
  | Internal string
  | NotFound lookup_message

fun exit_code :: "cli_error \<Rightarrow> int" where
  "exit_code (Usage _) = 2"
| "exit_code _ = 1"

definition resolve_opts :: "shared_args \<Rightarrow> engine \<Rightarrow> bool \<Rightarrow> bool \<Rightarrow> cli_error + parse_opts" where
  "resolve_opts sa e aggregate diagnose =
    and_then
      (case sa_entry sa of
         Some name \<Rightarrow>
          (case plugin_by_name e name of
             Some p \<Rightarrow> Inr (Some (pg_name p))
           | None \<Rightarrow> Inl (Usage (EntryNotRegistered name)))
       | None \<Rightarrow> Inr None)
      (\<lambda>entry. Inr (default_opts\<lparr>po_depth := to_depth (sa_depth sa), po_aggregation := aggregate, po_entry := entry,
         po_diagnose_unknown := diagnose\<rparr>))"

definition aggregator_config_of :: "shared_args \<Rightarrow> aggregator_config" where
  "aggregator_config_of sa =
    default_config\<lparr>
      cf_eviction := (if wants_live_eviction sa
        then Live (arg_idle_timeout sa) (from_secs 15) (arg_max_streams sa) else EvictNone),
      cf_series_max_cap := series_max_cap sa,
      cf_condense_threshold := arg_condense_threshold sa\<rparr>"

section \<open>Sources with a stop flag\<close>

text \<open>\<open>StopWrap\<close>: what each load of the master flag sees is the list \<open>sw_stops\<close>, unset once it is used up.\<close>

record 's stop_wrap =
  sw_inner :: 's
  sw_stops :: "bool list"

definition stop_next :: "'s packet_source \<Rightarrow> 's stop_wrap \<Rightarrow> (capture_error + raw_packet option) \<times> 's stop_wrap" where
  "stop_next src w =
    (let w1 = w\<lparr>sw_stops := tl (sw_stops w)\<rparr> in
     if sw_stops w \<noteq> [] \<and> hd (sw_stops w) then (Inr None, w1)
     else case src_next src (sw_inner w) of (r, s') \<Rightarrow> (r, w1\<lparr>sw_inner := s'\<rparr>))"

definition stop_wrap_ops :: "'s packet_source \<Rightarrow> 's stop_wrap packet_source" where
  "stop_wrap_ops src =
    \<lparr>src_next = stop_next src, src_link_type = (\<lambda>w. src_link_type src (sw_inner w)), src_stats = (\<lambda>w. src_stats src (sw_inner w))\<rparr>"

text \<open>\<open>StopFlags\<close>: the flags are shared cells of a store, named by address.\<close>

type_synonym flag_store = "nat \<Rightarrow> bool"

record stop_flags =
  sf_master :: nat
  sf_extra :: "nat list"

definition trigger :: "stop_flags \<Rightarrow> flag_store \<Rightarrow> flag_store" where
  "trigger sf m = fold (\<lambda>f m. m(f := True)) (sf_extra sf) (m(sf_master sf := True))"

definition is_stopped :: "stop_flags \<Rightarrow> flag_store \<Rightarrow> bool" where
  "is_stopped sf m = m (sf_master sf)"

definition register_flag :: "nat \<Rightarrow> stop_flags \<Rightarrow> stop_flags" where
  "register_flag f sf = sf\<lparr>sf_extra := sf_extra sf @ [f]\<rparr>"

text \<open>A source comes with the address of the flag that stops it; \<open>fresh\<close> is the one a live source allocates.\<close>

datatype 'c opened = OpenedFile "'c file_source" nat | OpenedLive "'c live_source" nat

definition open_source :: "(string \<Rightarrow> string) \<Rightarrow> 'c pkttap \<Rightarrow> shared_args \<Rightarrow> nat \<Rightarrow> stop_flags \<Rightarrow> flag_store \<Rightarrow>
    (cli_error + 'c opened \<times> string \<times> string) \<times> stop_flags \<times> flag_store" where
  "open_source lower tap sa fresh sf m =
    (case sa_read sa of
       Some path \<Rightarrow>
        (case open_with_filter lower tap path (sa_filter sa) of
           Inl err \<Rightarrow> (Inl (CliCapture err), sf, m)
         | Inr src \<Rightarrow> (Inr (OpenedFile src (sf_master sf), ''offline'', path), sf, m))
     | None \<Rightarrow>
        (case sa_iface sa of
           Some iface \<Rightarrow>
            (case live_open lower tap iface (capture_config_default\<lparr>lc_bpf := sa_filter sa\<rparr>) of
               Inl err \<Rightarrow> (Inl (CliCapture err), sf, m)
             | Inr src \<Rightarrow> (Inr (OpenedLive src fresh, ''live'', iface), register_flag fresh sf, m(fresh := False)))
         | None \<Rightarrow> (Inl (Usage InputRequired), sf, m)))"

section \<open>The producer and the consumer\<close>

definition CHANNEL_CAPACITY :: nat where "CHANNEL_CAPACITY = 1024"

record 's pipe =
  pi_pump :: "'s pump_state"
  pi_pending :: "dissected_packet option"
  pi_done :: "pump_end option"
  pi_queue :: "dissected_packet list"
  pi_agg :: "aggregator option"
  pi_seen :: nat

definition pipe_start :: "'s \<Rightarrow> aggregator option \<Rightarrow> 's pipe" where
  "pipe_start s agg =
    \<lparr>pi_pump = pump_start s, pi_pending = None, pi_done = None, pi_queue = [], pi_agg = agg, pi_seen = 0\<rparr>"

inductive pipe_step :: "'s packet_source \<Rightarrow> engine \<Rightarrow> parse_opts \<Rightarrow> u64 option \<Rightarrow> 's pipe \<Rightarrow> 's pipe \<Rightarrow> bool" for src e opts limit where
  pipe_read: "pi_done p = None \<Longrightarrow> pi_pending p = None \<Longrightarrow> pump_turn src e opts limit (pi_pump p) = Deliver packet st \<Longrightarrow>
    pipe_step src e opts limit p (p\<lparr>pi_pump := st, pi_pending := Some packet\<rparr>)"
| pipe_halt: "pi_done p = None \<Longrightarrow> pi_pending p = None \<Longrightarrow> pump_turn src e opts limit (pi_pump p) = Halt r st \<Longrightarrow>
    pipe_step src e opts limit p (p\<lparr>pi_pump := st, pi_done := Some r\<rparr>)"
| pipe_send: "pi_pending p = Some packet \<Longrightarrow> length (pi_queue p) < CHANNEL_CAPACITY \<Longrightarrow>
    pipe_step src e opts limit p (p\<lparr>pi_pending := None, pi_queue := pi_queue p @ [packet]\<rparr>)"
| pipe_recv: "pi_queue p = packet # q \<Longrightarrow>
    pipe_step src e opts limit p (p\<lparr>pi_queue := q, pi_agg := map_option (ingest packet) (pi_agg p), pi_seen := pi_seen p + 1\<rparr>)"

definition pipe_final :: "'s pipe \<Rightarrow> bool" where
  "pipe_final p \<longleftrightarrow> pi_done p \<noteq> None \<and> pi_queue p = []"

record run_outcome =
  ro_snapshot :: "aggregator_snapshot option"
  ro_report :: pump_report

definition outcome_of :: "pump_end \<Rightarrow> aggregator option \<Rightarrow> cli_error + run_outcome" where
  "outcome_of r agg =
    (case r of
       Pumped report \<Rightarrow> Inr \<lparr>ro_snapshot = map_option (\<lambda>a. snapshot (finish a)) agg, ro_report = report\<rparr>
     | PumpFailed err \<Rightarrow> Inl (CliCapture err)
     | PumpPanicked \<Rightarrow> Inl (Internal ''pump thread panicked''))"

definition pipe_outcome :: "'s pipe \<Rightarrow> cli_error + run_outcome" where
  "pipe_outcome p = outcome_of (the (pi_done p)) (pi_agg p)"

section \<open>Packets mode\<close>

definition TAIL_SAMPLE_CAP :: nat where "TAIL_SAMPLE_CAP = 64"

record packet_event =
  pe_packet :: dissected_packet
  pe_heuristic :: "bool list"
  pe_tail_sample :: "byte list"

function layer_flags :: "layer_iter \<Rightarrow> bool list \<times> layer_iter" where
  "layer_flags it =
    (case next_layer it of
       (None, it') \<Rightarrow> ([], it')
     | (Some s, it') \<Rightarrow> (case layer_flags it' of (flags, fin) \<Rightarrow> (ls_via_heuristic s # flags, fin)))"
  by pat_completeness auto
termination
  by (relation "measure (\<lambda>it. po_max_layers (li_opts it) - length (li_records it))")
    (auto dest!: sym[of _ "next_layer _"] next_layer_grows)

declare layer_flags.simps [simp del]

text \<open>\<open>None\<close> is a panic: of \<open>layers\<close>, of the subtraction or of the slice.\<close>

definition packet_event_of :: "engine \<Rightarrow> parse_opts \<Rightarrow> raw_packet \<Rightarrow> packet_event option" where
  "packet_event_of e opts raw =
    Option.bind (layers e (rp_bytes raw) (rp_meta raw) opts) (\<lambda>it.
      case layer_flags it of (flags, fin) \<Rightarrow>
      let packet = into_packet fin (rp_meta raw) in
      if length (rp_bytes raw) < dp_opaque_len packet then None
      else let tail_start = length (rp_bytes raw) - dp_opaque_len packet;
               sample_len = min (dp_opaque_len packet) TAIL_SAMPLE_CAP in
        map_option (\<lambda>tail. \<lparr>pe_packet = packet, pe_heuristic = flags, pe_tail_sample = tail\<rparr>)
          (slice_get (rp_bytes raw) tail_start (tail_start + sample_len)))"

section \<open>Publishing into a hub\<close>

definition PUBLISH_INTERVAL :: duration where "PUBLISH_INTERVAL = 250 * 10 ^ 6"
definition ADAPTIVE_PUBLISH_FACTOR :: nat where "ADAPTIVE_PUBLISH_FACTOR = 8"
definition HUB_SERIES_CLAMP :: usize where "HUB_SERIES_CLAMP = 128"

definition hub_args :: "shared_args \<Rightarrow> shared_args" where
  "hub_args sa = (if sa_series_cap sa = None then sa\<lparr>sa_series_cap := Some HUB_SERIES_CLAMP\<rparr> else sa)"

definition hub_for :: "shared_args \<Rightarrow> hub" where
  "hub_for sa =
    (case (sa_read sa, sa_iface sa) of
       (Some path, _) \<Rightarrow> hub_new path ''offline''
     | (None, Some iface) \<Rightarrow> hub_new iface ''live''
     | (None, None) \<Rightarrow> hub_new [] ''offline'')"

text \<open>The observer after each ingest: when it is due, the progress of a file and the snapshot. The clock
  gives for each packet the time the observer reads and the time its publish takes.\<close>

definition publish_calls :: "u64 \<Rightarrow> aggregator \<Rightarrow> hub_call list" where
  "publish_calls file_size a =
    (if 0 < file_size then [SetProgress (24 + tt_bytes (ag_totals a) + 16 * tt_packets (ag_totals a)) file_size] else []) @
    [Publish (snapshot a)]"

fun observe :: "u64 \<Rightarrow> (nat \<times> nat) list \<Rightarrow> dissected_packet list \<Rightarrow> nat option \<Rightarrow> aggregator \<Rightarrow> hub_call list" where
  "observe file_size ((now, cost) # clock) (packet # packets) next_due a =
    (let a' = ingest packet a in
     if case next_due of None \<Rightarrow> True | Some t \<Rightarrow> t \<le> now
     then publish_calls file_size a' @
       observe file_size clock packets (Some (now + max PUBLISH_INTERVAL (cost * ADAPTIVE_PUBLISH_FACTOR))) a'
     else observe file_size clock packets next_due a')"
| "observe file_size clock packets next_due a = []"

text \<open>The text of an error is an argument.\<close>

definition end_calls :: "(cli_error \<Rightarrow> string) \<Rightarrow> u64 \<Rightarrow> cli_error + run_outcome \<Rightarrow> hub_call list" where
  "end_calls show_error file_size result =
    (case result of
       Inr outcome \<Rightarrow>
        (case ro_snapshot outcome of Some s \<Rightarrow> [Publish s] | None \<Rightarrow> []) @
        (if 0 < file_size then [SetProgress file_size file_size] else []) @ [MarkFinished]
     | Inl err \<Rightarrow> [SetError (show_error err)])"

definition hub_calls :: "(cli_error \<Rightarrow> string) \<Rightarrow> u64 \<Rightarrow> (nat \<times> nat) list \<Rightarrow> aggregator \<Rightarrow> pump_end \<Rightarrow> dissected_packet list \<Rightarrow> hub_call list" where
  "hub_calls show_error file_size clock a r sent =
    observe file_size clock sent None a @ end_calls show_error file_size (outcome_of r (Some (fold ingest sent a)))"

end
