(* ===== verification/Pipeline_Props.thy ===== *)
theory Pipeline_Props
  imports Pipeline
begin

text \<open>
  The properties of the run pipeline: every interleaving of producer and consumer gives the result of the
  sequential program, no run is stuck or endless over a source that ends, a validated forced entry never panics,
  packets mode loses nothing of the dissection, and a reader of the hub that sees the run finished sees its result.
\<close>

section \<open>Every run is the sequential one\<close>

abbreviation push_back :: "dissected_packet list \<Rightarrow> dissected_packet \<Rightarrow> dissected_packet list option" where
  "push_back ch packet \<equiv> Some (ch @ [packet])"

definition sent_so_far :: "dissected_packet list \<Rightarrow> 's pipe \<Rightarrow> dissected_packet list" where
  "sent_so_far got p = got @ pi_queue p @ (case pi_pending p of Some x \<Rightarrow> [x] | None \<Rightarrow> [])"

definition in_step :: "'s packet_source \<Rightarrow> engine \<Rightarrow> parse_opts \<Rightarrow> u64 option \<Rightarrow> 's \<Rightarrow> aggregator option \<Rightarrow> dissected_packet list \<Rightarrow> 's pipe \<Rightarrow> bool" where
  "in_step src e opts limit s agg got p \<longleftrightarrow>
    pi_agg p = map_option (fold ingest got) agg \<and> pi_seen p = length got \<and>
    (case pi_done p of
       None \<Rightarrow> pump src e opts push_back limit s [] = pump_loop src e opts limit push_back (pi_pump p) (sent_so_far got p)
     | Some r \<Rightarrow> pi_pending p = None \<and> pump src e opts push_back limit s [] = Some (r, sent_so_far got p, pi_pump p))"

lemma in_step_start: "in_step src e opts limit s agg [] (pipe_start s agg)"
  by (cases agg) (simp_all add: in_step_def pipe_start_def sent_so_far_def pump_def)

lemma pump_loop_turn:
  "pump_turn src e opts limit st = Deliver packet st' \<Longrightarrow>
    pump_loop src e opts limit push_back st ch = pump_loop src e opts limit push_back st' (ch @ [packet])"
  "pump_turn src e opts limit st = Halt r st' \<Longrightarrow> pump_loop src e opts limit push_back st ch = Some (r, ch, st')"
  by (subst pump_loop.simps, simp)+

lemma in_step_step:
  assumes "pipe_step src e opts limit p p'" "in_step src e opts limit s agg got p"
  shows "\<exists>got'. in_step src e opts limit s agg got' p'"
  using assms
proof (cases rule: pipe_step.cases)
  case (pipe_recv packet q)
  then have "in_step src e opts limit s agg (got @ [packet]) p'"
    using assms(2) by (cases agg) (auto simp: in_step_def sent_so_far_def split: option.splits)
  then show ?thesis ..
qed (auto simp: in_step_def sent_so_far_def pump_loop_turn split: option.splits)

lemma in_step_run:
  assumes "(pipe_step src e opts limit)\<^sup>*\<^sup>* (pipe_start s agg) p"
  shows "\<exists>got. in_step src e opts limit s agg got p"
  using assms by (induction rule: rtranclp_induct) (blast intro: in_step_start in_step_step)+

text \<open>The sequential program: pump everything, then aggregate it.\<close>

definition run_sequential :: "'s packet_source \<Rightarrow> engine \<Rightarrow> parse_opts \<Rightarrow> u64 option \<Rightarrow> 's \<Rightarrow> aggregator option \<Rightarrow> (cli_error + run_outcome) option" where
  "run_sequential src e opts limit s agg =
    map_option (\<lambda>(r, sent, _). outcome_of r (map_option (fold ingest sent) agg)) (pump src e opts push_back limit s [])"

text \<open>C10. However the two threads interleave, a run that completes has the result of the sequential program: the
  consumer aggregated exactly the packets the pump sent, in order, none lost in the channel, and an
  error or panic of the pump is the error of the run.\<close>

theorem pipeline_refines_sequential:
  assumes "(pipe_step src e opts limit)\<^sup>*\<^sup>* (pipe_start s agg) p" and "pipe_final p"
  shows "run_sequential src e opts limit s agg = Some (pipe_outcome p)"
proof -
  obtain got where "in_step src e opts limit s agg got p" using in_step_run[OF assms(1)] by blast
  then show ?thesis using assms(2)
    by (auto simp: in_step_def pipe_final_def pipe_outcome_def run_sequential_def sent_so_far_def)
qed

text \<open>No deadlock: a run that is not complete can go on, whatever the fill of the channel.\<close>

lemma pipeline_not_stuck: "\<not> pipe_final p \<Longrightarrow> \<exists>p'. pipe_step src e opts limit p p'"
proof -
  assume nf: "\<not> pipe_final p"
  show ?thesis
  proof (cases "pi_queue p")
    case (Cons packet q)
    then show ?thesis using pipe_recv by blast
  next
    case Nil
    then have d: "pi_done p = None" using nf by (simp add: pipe_final_def)
    show ?thesis
    proof (cases "pi_pending p")
      case None
      then show ?thesis using d pipe_read pipe_halt by (cases "pump_turn src e opts limit (pi_pump p)") blast+
    next
      case (Some packet)
      then show ?thesis using Nil pipe_send[of p packet] by (force simp: CHANNEL_CAPACITY_def)
    qed
  qed
qed

section \<open>Every run ends\<close>

context finite_source
begin

definition work_left :: "'s pipe \<Rightarrow> nat" where
  "work_left p = length (pi_queue p) + (if pi_pending p = None then 0 else 2) +
    (if pi_done p = None then 3 * length (feed (ps_src (pi_pump p))) + 1 else 0)"

definition source_ok :: "'s pipe \<Rightarrow> bool" where
  "source_ok p \<longleftrightarrow> (pi_done p = None \<longrightarrow> ok (ps_src (pi_pump p)))"

lemma turn_consumes:
  assumes "ok (ps_src st)" "pump_turn src e opts limit st = Deliver packet st'"
  shows "ok (ps_src st') \<and> length (feed (ps_src st)) = Suc (length (feed (ps_src st')))"
proof (cases "feed (ps_src st)")
  case Nil
  from next_end[OF assms(1) Nil] assms(2) show ?thesis by (auto simp: pump_turn_def split: if_splits option.splits)
next
  case (Cons r rs)
  from next_some[OF assms(1) Cons] assms(2) Cons show ?thesis
    by (auto simp: pump_turn_def account_def Let_def split: if_splits option.splits)
qed

lemma step_decreases:
  assumes "pipe_step src e opts limit p p'" "source_ok p"
  shows "source_ok p' \<and> work_left p' < work_left p"
  using assms
proof (cases rule: pipe_step.cases)
  case (pipe_read packet st)
  then show ?thesis using turn_consumes[of "pi_pump p" e opts limit packet st] assms(2)
    by (auto simp: source_ok_def work_left_def)
qed (auto simp: source_ok_def work_left_def)

lemma steps_bounded:
  assumes "(pipe_step src e opts limit ^^ k) p p'" "source_ok p"
  shows "source_ok p' \<and> k + work_left p' \<le> work_left p"
  using assms(1)
proof (induction k arbitrary: p')
  case 0
  then show ?case using assms(2) by simp
next
  case (Suc k)
  then obtain q where q: "(pipe_step src e opts limit ^^ k) p q" "pipe_step src e opts limit q p'" by auto
  from Suc.IH[OF q(1)] step_decreases[OF q(2)] show ?case by fastforce
qed

lemma run_bounded:
  assumes "ok s" "(pipe_step src e opts limit ^^ k) (pipe_start s agg) p"
  shows "k \<le> 3 * length (feed s) + 1"
  using steps_bounded[OF assms(2)] assms(1) by (simp add: source_ok_def work_left_def pipe_start_def pump_start_def)

lemma run_completes:
  assumes "source_ok p"
  shows "\<exists>p'. (pipe_step src e opts limit)\<^sup>*\<^sup>* p p' \<and> pipe_final p'"
  using assms
proof (induction "work_left p" arbitrary: p rule: less_induct)
  case less
  show ?case
  proof (cases "pipe_final p")
    case False
    then obtain q where q: "pipe_step src e opts limit p q" using pipeline_not_stuck by blast
    from step_decreases[OF q less.prems] less.hyps[of q] q show ?thesis by (meson converse_rtranclp_into_rtranclp)
  qed auto
qed

end

text \<open>The options that pass validation name a registered plugin or none.\<close>

definition entry_ok :: "engine \<Rightarrow> parse_opts \<Rightarrow> bool" where
  "entry_ok e opts \<longleftrightarrow> (case po_entry opts of Some n \<Rightarrow> plugin_by_name e n \<noteq> None | None \<Rightarrow> True)"

lemma dissect_total: "entry_ok e opts \<Longrightarrow> \<exists>pkt. dissect e bytes meta opts = Some pkt"
  by (auto simp: entry_ok_def dissect_def layers_def split: option.splits)

lemma dissect_all: "entry_ok e opts \<Longrightarrow> \<exists>pkts. map (\<lambda>r. dissect e (rp_bytes r) (rp_meta r) opts) raws = map Some pkts"
proof (induction raws)
  case (Cons r raws)
  obtain p where p: "dissect e (rp_bytes r) (rp_meta r) opts = Some p" using dissect_total[OF Cons.prems] by blast
  obtain pkts where "map (\<lambda>r. dissect e (rp_bytes r) (rp_meta r) opts) raws = map Some pkts" using Cons by blast
  with p have "map (\<lambda>r. dissect e (rp_bytes r) (rp_meta r) opts) (r # raws) = map Some (p # pkts)" by simp
  then show ?case by blast
qed simp

text \<open>C26. The forced entry is validated before it reaches the engine: an unregistered name is a usage error (exit
  code 2), and with the options of a registered one, or none, no packet makes the dissection panic.\<close>

theorem resolve_opts_guards_panic:
  assumes "default_engine = Inr e"
  shows "(case resolve_opts sa e aggregate diagnose of
      Inl err \<Rightarrow> exit_code err = 2 \<and> (\<exists>n. sa_entry sa = Some n \<and> n \<notin> pg_name ` set default_plugins)
    | Inr opts \<Rightarrow> (\<exists>pkt. dissect e bytes meta opts = Some pkt) \<and> po_entry opts = sa_entry sa)"
proof (cases "sa_entry sa")
  case None
  then show ?thesis using dissect_total[of e] by (simp add: resolve_opts_def entry_ok_def)
next
  case (Some n)
  show ?thesis
  proof (cases "plugin_by_name e n")
    case None
    then have "n \<notin> pg_name ` set default_plugins"
      using default_engine_sel(3)[OF assms, of n] by (auto simp: find_None_iff)
    then show ?thesis using Some None by (simp add: resolve_opts_def)
  next
    case p: (Some p)
    then have "pg_name p = n" using default_engine_sel(2)[OF assms] by (auto simp: engine_ok_def plugin_by_name_def)
    then show ?thesis using Some p dissect_total[of e] by (simp add: resolve_opts_def entry_ok_def)
  qed
qed

section \<open>The default engine and the store\<close>

text \<open>The default engine meets the condition the properties of the store put on an engine: its keys sort endpoints, so none
  begins like the key of a condensed node.\<close>

lemma default_engine_plain:
  assumes "default_engine = Inr e"
  shows "plain_engine e"
proof -
  have "plain_identity si" if "p \<in> set default_plugins" "pg_stream_identity p = Some si" for p si
    using default_canonicalize that by (auto simp: list_all_iff intro: endpoint_plain split: option.splits)
  then show ?thesis
    unfolding plain_engine_def default_engine_sel[OF assms] by (metis find_Some_iff nth_mem)
qed

section \<open>Packets mode\<close>

lemma next_layer_stops: "next_layer it = (None, it') \<Longrightarrow> li_stop it' \<noteq> None"
  by (auto simp: next_layer_def apply_outcome_def Let_def split: if_splits option.splits step_outcome.splits)

lemma layer_flags_drain:
  "snd (layer_flags it) = drain it \<and> li_stop (drain it) \<noteq> None \<and>
   length (li_records (drain it)) = length (li_records it) + length (fst (layer_flags it))"
proof (induction it rule: layer_flags.induct)
  case (1 it)
  obtain s it' where n: "next_layer it = (s, it')" by fastforce
  show ?case
  proof (cases s)
    case None
    then have "length (li_records it') = length (li_records it)" using n
      by (auto simp: next_layer_def apply_outcome_def Let_def split: if_splits option.splits step_outcome.splits)
    then show ?thesis using n None next_layer_stops[of it it'] by (simp add: layer_flags.simps[of it] drain.simps[of it])
  next
    case (Some x)
    note g = next_layer_grows[OF n[unfolded Some]]
    show ?thesis using 1[OF n[symmetric] Some] n Some g
      by (simp add: layer_flags.simps[of it] drain.simps[of it] case_prod_unfold)
  qed
qed

lemma drain_drained: "li_stop it \<noteq> None \<Longrightarrow> drain it = it"
  by (simp add: drain.simps[of it] next_layer_def)

text \<open>Packets mode shows what was dissected: the event of a packet never panics, carries the packet of the
  plain dissection with one heuristic flag per layer, and as its sample the first bytes of the part no layer
  claimed, at most 64.\<close>

theorem packet_event_faithful:
  assumes "entry_ok e opts"
  shows "\<exists>ev. packet_event_of e opts raw = Some ev \<and> dissect e (rp_bytes raw) (rp_meta raw) opts = Some (pe_packet ev) \<and>
    length (pe_heuristic ev) = length (dp_layers (pe_packet ev)) \<and>
    pe_tail_sample ev = take TAIL_SAMPLE_CAP (drop (Parser.consumed (dp_layers (pe_packet ev))) (rp_bytes raw))"
proof -
  obtain it where it: "layers e (rp_bytes raw) (rp_meta raw) opts = Some it"
    using assms by (auto simp: entry_ok_def layers_def split: option.splits)
  obtain flags fin where f: "layer_flags it = (flags, fin)" by fastforce
  have fin: "fin = drain it" "li_stop fin \<noteq> None" "length (li_records fin) = length flags"
    using layer_flags_drain[of it] f it by (auto simp: layers_def split: if_splits)
  have pkt: "into_packet fin (rp_meta raw) = into_packet it (rp_meta raw)"
    using drain_drained[OF fin(2)] by (simp add: into_packet_def fin(1))
  have d: "dissect e (rp_bytes raw) (rp_meta raw) opts = Some (into_packet it (rp_meta raw))" by (simp add: dissect_def it)
  from dissect_walkE[OF d] obtain recs h r where
    w: "walk e (rp_bytes raw) (rp_meta raw) opts recs h" "into_packet it (rp_meta raw) = packet_at e (rp_bytes raw) (rp_meta raw) opts recs h r" .
  have len: "Parser.consumed recs \<le> length (rp_bytes raw)" using walk_invariant[OF w(1)] by simp
  let ?p = "into_packet it (rp_meta raw)"
  have p: "dp_layers ?p = recs" "dp_opaque_len ?p = length (rp_bytes raw) - Parser.consumed recs" by (simp_all add: w(2) packet_at_def)
  have flags: "length flags = length recs" using fin(1,3) p(1) by (simp add: into_packet_def Let_def)
  have start: "length (rp_bytes raw) - dp_opaque_len ?p = Parser.consumed recs" using len p(2) by simp
  have slice: "slice_get (rp_bytes raw) (Parser.consumed recs) (Parser.consumed recs + min (dp_opaque_len ?p) TAIL_SAMPLE_CAP) =
      Some (take TAIL_SAMPLE_CAP (drop (Parser.consumed recs) (rp_bytes raw)))"
    using len p(2) by (auto simp: slice_get_def min_def)
  show ?thesis using it f pkt d p flags slice start
    by (simp add: packet_event_of_def Let_def)
qed

theorem packet_event_faithful_witness:
  "\<exists>ev. packet_event_of hop_engine hop_opts \<lparr>rp_bytes = [7, 7, 9, 5], rp_meta = hop_meta\<rparr> = Some ev \<and>
     dissect hop_engine [7, 7, 9, 5] hop_meta hop_opts = Some (pe_packet ev) \<and>
     length (pe_heuristic ev) = length (dp_layers (pe_packet ev)) \<and>
     pe_tail_sample ev = take TAIL_SAMPLE_CAP (drop (Parser.consumed (dp_layers (pe_packet ev))) [7, 7, 9, 5])"
  using packet_event_faithful[of hop_engine hop_opts "\<lparr>rp_bytes = [7, 7, 9, 5], rp_meta = hop_meta\<rparr>"]
  by (simp add: entry_ok_def hop_opts_def default_opts_def)

section \<open>Sources behind the stop flag\<close>

text \<open>The load of the stop flag that first sees it set, counted from zero; there is one load per call of
  \<open>next_packet\<close>, before the source is asked.\<close>

definition stop_at :: "bool list \<Rightarrow> nat option" where
  "stop_at stops = (if True \<in> set stops then Some (length (takeWhile Not stops)) else None)"

lemma stop_at_simps [simp]: "stop_at [] = None" "stop_at (True # bs) = Some 0" "stop_at (False # bs) = map_option Suc (stop_at bs)"
  by (auto simp: stop_at_def)

definition before_stop :: "bool list \<Rightarrow> 'a list \<Rightarrow> 'a list" where
  "before_stop stops xs = (case stop_at stops of None \<Rightarrow> xs | Some i \<Rightarrow> take i xs)"

text \<open>Whether the flag is seen before the source is asked what comes after its \<open>n\<close> packets.\<close>

definition stopped_by :: "bool list \<Rightarrow> nat \<Rightarrow> bool" where
  "stopped_by stops n \<longleftrightarrow> (case stop_at stops of None \<Rightarrow> False | Some i \<Rightarrow> i \<le> n)"

definition stop_feed :: "('s \<Rightarrow> raw_packet list) \<Rightarrow> 's stop_wrap \<Rightarrow> raw_packet list" where
  "stop_feed feed w = before_stop (sw_stops w) (feed (sw_inner w))"

definition stop_final :: "('s \<Rightarrow> raw_packet list) \<Rightarrow> ('s \<Rightarrow> capture_error option) \<Rightarrow> 's stop_wrap \<Rightarrow> capture_error option" where
  "stop_final feed final w = (if stopped_by (sw_stops w) (length (feed (sw_inner w))) then None else final (sw_inner w))"

lemma stop_next_cases:
  obtains (set_flag) bs where "sw_stops w = True # bs" "stop_next src w = (Inr None, w\<lparr>sw_stops := bs\<rparr>)"
  | (unset) r s' where "stop_at (sw_stops w) = map_option Suc (stop_at (tl (sw_stops w)))" "src_next src (sw_inner w) = (r, s')"
      "stop_next src w = (r, w\<lparr>sw_stops := tl (sw_stops w), sw_inner := s'\<rparr>)"
proof (cases "sw_stops w")
  case Nil
  then show ?thesis by (intro unset[OF _ surjective_pairing]) (simp_all add: stop_next_def case_prod_unfold)
next
  case (Cons b bs)
  show ?thesis
  proof (cases b)
    case True
    then show ?thesis using Cons by (intro set_flag[of bs]) (simp_all add: stop_next_def)
  next
    case False
    then show ?thesis using Cons by (intro unset[OF _ surjective_pairing]) (simp_all add: stop_next_def case_prod_unfold)
  qed
qed

context finite_source
begin

lemma stop_wrap_finite:
  "finite_source (stop_wrap_ops src) (\<lambda>w. ok (sw_inner w)) (stop_feed feed) (stop_final feed final)"
proof
  fix w :: "'s stop_wrap"
  assume ok: "ok (sw_inner w)" and f: "stop_feed feed w = []"
  show "\<exists>s'. src_next (stop_wrap_ops src) w = (case stop_final feed final w of None \<Rightarrow> Inr None | Some err \<Rightarrow> Inl err, s') \<and>
      src_stats (stop_wrap_ops src) s' = src_stats (stop_wrap_ops src) w"
  proof (cases rule: stop_next_cases[where w = w and src = src])
    case (set_flag bs)
    then show ?thesis by (simp add: stop_wrap_ops_def stop_final_def stopped_by_def)
  next
    case (unset r s')
    then have n: "feed (sw_inner w) = []" using f by (auto simp: stop_feed_def before_stop_def split: option.splits)
    have "\<not> stopped_by (sw_stops w) 0" using unset(1) by (auto simp: stopped_by_def split: option.splits)
    then show ?thesis using next_end[OF ok n] unset n by (auto simp: stop_wrap_ops_def stop_final_def)
  qed
next
  fix w :: "'s stop_wrap" and r rs
  assume ok: "ok (sw_inner w)" and f: "stop_feed feed w = r # rs"
  show "\<exists>s'. src_next (stop_wrap_ops src) w = (Inr (Some r), s') \<and> ok (sw_inner s') \<and> stop_feed feed s' = rs \<and>
      stop_final feed final s' = stop_final feed final w \<and> src_stats (stop_wrap_ops src) s' =
        (src_stats (stop_wrap_ops src) w)\<lparr>cs_received := cs_received (src_stats (stop_wrap_ops src) w) + 1\<rparr>"
  proof (cases rule: stop_next_cases[where w = w and src = src])
    case (set_flag bs)
    then show ?thesis using f by (simp add: stop_feed_def before_stop_def)
  next
    case (unset q s')
    obtain qs where c: "feed (sw_inner w) = r # qs"
      using f unset(1) by (cases "feed (sw_inner w)") (auto simp: stop_feed_def before_stop_def split: option.splits)
    from next_some[OF ok c] unset(2) have n: "q = Inr (Some r)" "ok s'" "feed s' = qs" "final s' = final (sw_inner w)"
      "src_stats src s' = (src_stats src (sw_inner w))\<lparr>cs_received := cs_received (src_stats src (sw_inner w)) + 1\<rparr>" by auto
    show ?thesis using f c n unset(1,3)
      by (auto simp: stop_wrap_ops_def stop_feed_def before_stop_def stop_final_def stopped_by_def split: option.splits)
  qed
qed

end

section \<open>Runs over files\<close>

text \<open>What a run over a file reads: the frames before the stop flag is seen, as far as the limit admits them; and the
  error it ends with, when neither the limit nor the flag ends it before the damage of the file.\<close>

definition frames_read :: "u64 option \<Rightarrow> bool list \<Rightarrow> raw_packet list \<Rightarrow> raw_packet list" where
  "frames_read limit stops raws =
    (let before = before_stop stops raws in take (admitted limit 0 (length before)) before)"

definition read_error :: "(string \<Rightarrow> string) \<Rightarrow> u64 option \<Rightarrow> bool list \<Rightarrow> nat \<Rightarrow> pkttap_error option \<Rightarrow> capture_error option" where
  "read_error lower limit stops n damage =
    (if limit_hit limit 0 n \<or> stopped_by stops n then None else map_option (map_pkttap_error lower ''file capture'') damage)"

definition file_report :: "packet_meta list \<Rightarrow> pump_report" where
  "file_report metas = \<lparr>pr_packets = of_nat (length metas), pr_bytes = of_nat (sum_list (map origlen metas)),
     pr_regressed = of_nat (regressions (map timestamp metas)),
     pr_stats = \<lparr>cs_received = of_nat (length metas), cs_dropped_kernel = 0, cs_dropped_iface = 0\<rparr>\<rparr>"

definition dissect_frames :: "engine \<Rightarrow> parse_opts \<Rightarrow> raw_packet list \<Rightarrow> dissected_packet list" where
  "dissect_frames e opts raws = map (\<lambda>r. the (dissect e (rp_bytes r) (rp_meta r) opts)) raws"

lemma before_stop_length: "length (before_stop stops xs) \<le> length xs"
  by (simp add: before_stop_def split: option.split)

lemma admitted_le: "admitted limit done n \<le> n"
  by (simp add: admitted_def split: option.split)

lemma read_error_ending:
  "ending limit 0 (length (stop_feed (file_feed frames) \<lparr>sw_inner = f, sw_stops = stops\<rparr>))
     (stop_final (file_feed frames) (file_final lower damage) \<lparr>sw_inner = f, sw_stops = stops\<rparr>) =
   read_error lower limit stops (length (frames (fs_capture f))) (damage (fs_capture f))"
  by (auto simp: read_error_def ending_def stop_final_def stop_feed_def before_stop_def stopped_by_def file_final_def file_feed_def
      min_def split: option.splits)

lemma file_pump:
  fixes limit :: "u64 option" and stops :: "bool list"
  assumes "tap_replays tap frames damage" "fs_delivered f = 0" "entry_ok e opts" "length (frames (fs_capture f)) < 2 ^ 64"
  defines "read \<equiv> frames_read limit stops (file_feed frames f)"
  shows "\<exists>st. pump (stop_wrap_ops (file_source_ops lower tap)) e opts push_back limit \<lparr>sw_inner = f, sw_stops = stops\<rparr> [] =
    Some (case read_error lower limit stops (length (frames (fs_capture f))) (damage (fs_capture f)) of
        None \<Rightarrow> Pumped (file_report (map rp_meta read)) | Some err \<Rightarrow> PumpFailed err, dissect_frames e opts read, st)"
proof -
  let ?w = "\<lparr>sw_inner = f, sw_stops = stops\<rparr>" and ?feed = "stop_feed (file_feed frames)"
  note fin = finite_source.stop_wrap_finite[OF file_finite[OF assms(1), of lower]]
  obtain pkts where p: "map (\<lambda>r. dissect e (rp_bytes r) (rp_meta r) opts) (?feed ?w) = map Some pkts"
    using dissect_all[OF assms(3)] by blast
  have len: "length (?feed ?w) = length pkts" using p by (metis length_map)
  then have small: "length pkts < 2 ^ 64"
    using assms(4) before_stop_length[of stops "file_feed frames f"] by (simp add: stop_feed_def file_feed_def)
  let ?k = "admitted limit 0 (length pkts)"
  have r: "take ?k (?feed ?w) = read" using len by (simp add: read_def frames_read_def stop_feed_def Let_def)
  have "pkts = map (\<lambda>r. the (dissect e (rp_bytes r) (rp_meta r) opts)) (?feed ?w)"
    using arg_cong[OF p, of "map the"] by (simp add: comp_def)
  then have t: "take ?k pkts = dissect_frames e opts read" unfolding dissect_frames_def r[symmetric] by (simp add: take_map)
  have k: "length (map rp_meta read) = ?k" using admitted_le[of limit 0 "length pkts"] len by (simp flip: r)
  have s: "src_stats (stop_wrap_ops (file_source_ops lower tap)) ?w = stats_default"
    using assms(2) by (simp add: stop_wrap_ops_def file_source_ops_def file_stats_def stats_default_def)
  show ?thesis
    using finite_source.pump_all[OF fin _ s p small, of limit] unfolding r t file_report_def k read_error_ending[symmetric] len by simp
qed

text \<open>C11. A run over a freshly opened capture file, with options that passed validation, completes, whatever the stop flag
  does and whether or not the file is damaged: every
  run has at most three steps per frame and one more, can be continued until it is complete, and then it has read
  the frames before the first load that sees the flag set, as far as the limit admits them. If the limit or the flag
  ended it, or the file ended, it reports these frames, with their bytes and the number that arrived with an
  earlier timestamp than one before, and the snapshot of exactly these packets; if it reached the damage of the
  file, the outcome is that error. The capture library is one that yields finitely many frames (fewer than
  \<open>2^64\<close>) and then the end or an error.\<close>

theorem file_run_completes:
  assumes "tap_replays tap frames damage" and "fs_delivered f = 0" and "entry_ok e opts" and "length (frames (fs_capture f)) < 2 ^ 64"
    and "(pipe_step (stop_wrap_ops (file_source_ops lower tap)) e opts limit ^^ n) (pipe_start \<lparr>sw_inner = f, sw_stops = stops\<rparr> agg) p"
  shows "n \<le> 3 * length (frames (fs_capture f)) + 1 \<and>
    (\<exists>p'. (pipe_step (stop_wrap_ops (file_source_ops lower tap)) e opts limit)\<^sup>*\<^sup>* p p' \<and> pipe_final p' \<and>
      (let read = frames_read limit stops (file_feed frames f) in
       pipe_outcome p' = (case read_error lower limit stops (length (frames (fs_capture f))) (damage (fs_capture f)) of
           Some err \<Rightarrow> Inl (CliCapture err)
         | None \<Rightarrow> Inr \<lparr>ro_snapshot = map_option (\<lambda>a. snapshot (finish (fold ingest (dissect_frames e opts read) a))) agg,
             ro_report = file_report (map rp_meta read)\<rparr>)))"
proof -
  let ?src = "stop_wrap_ops (file_source_ops lower tap)" and ?w = "\<lparr>sw_inner = f, sw_stops = stops\<rparr>"
  note fin = finite_source.stop_wrap_finite[OF file_finite[OF assms(1), of lower]]
  have ok: "finite_source.source_ok (\<lambda>w. True) p" by (simp add: finite_source.source_ok_def[OF fin])
  obtain p' where p': "(pipe_step ?src e opts limit)\<^sup>*\<^sup>* p p'" "pipe_final p'"
    using finite_source.run_completes[OF fin ok] by blast
  have "(pipe_step ?src e opts limit)\<^sup>*\<^sup>* (pipe_start ?w agg) p'"
    using relpowp_imp_rtranclp[OF assms(5)] p'(1) by simp
  from in_step_run[OF this] p'(2) obtain got r where
    got: "pi_done p' = Some r" "pi_agg p' = map_option (fold ingest got) agg"
      "pump ?src e opts push_back limit ?w [] = Some (r, got, pi_pump p')"
    by (auto simp: in_step_def pipe_final_def sent_so_far_def)
  have "n \<le> 3 * length (frames (fs_capture f)) + 1"
    using finite_source.run_bounded[OF fin TrueI assms(5)] before_stop_length[of stops "file_feed frames f"]
    by (simp add: stop_feed_def file_feed_def)
  then show ?thesis using p' got(1,2) file_pump[OF assms(1-4), of lower limit stops] got(3)
    by (auto simp: pipe_outcome_def outcome_of_def Let_def option.map_comp comp_def split: option.split intro!: exI[of _ p'])
qed

text \<open>A capture library that replays a list, for the instances below.\<close>

definition list_tap :: "tap_packet list pkttap" where
  "list_tap = \<lparr>tap_open_file = (\<lambda>_ _. Inr []), tap_open_live = (\<lambda>_ _ _ _ _. Inr []), tap_interfaces = Inr [],
     tap_next = (\<lambda>c. case c of [] \<Rightarrow> (Inr None, []) | p # ps \<Rightarrow> (Inr (Some p), ps)),
     tap_link_type = (\<lambda>_. TapEthernet), tap_stats = (\<lambda>_. None)\<rparr>"

definition demo_file :: "tap_packet list file_source" where
  "demo_file = \<lparr>fs_capture = [\<lparr>tp_data = [7, 7, 9, 5], tp_timestamp = 5, tp_orig_len = 60\<rparr>,
     \<lparr>tp_data = [9], tp_timestamp = 4, tp_orig_len = 60\<rparr>], fs_link_type = 1, fs_delivered = 0\<rparr>"

lemma hop_entry_ok: "entry_ok hop_engine hop_opts"
  by (simp add: entry_ok_def hop_opts_def default_opts_def)

text \<open>One whose file is damaged after the listed frames.\<close>

definition damaged_tap :: "tap_packet list pkttap" where
  "damaged_tap = list_tap\<lparr>tap_next := (\<lambda>c. case c of [] \<Rightarrow> (Inl (TapPcap ''truncated record''), []) | p # ps \<Rightarrow> (Inr (Some p), ps))\<rparr>"

lemma damaged_tap_replays: "tap_replays damaged_tap id (\<lambda>_. Some (TapPcap ''truncated record''))"
  by (simp add: tap_replays_def damaged_tap_def)

text \<open>A file of two frames: damaged at the end, the run fails; stopped after the first frame, it reports that one.\<close>

theorem file_run_completes_witness:
  "(\<exists>p'. (pipe_step (stop_wrap_ops (file_source_ops id damaged_tap)) hop_engine hop_opts None)\<^sup>*\<^sup>*
      (pipe_start \<lparr>sw_inner = demo_file, sw_stops = []\<rparr> None) p' \<and> pipe_final p' \<and>
      pipe_outcome p' = Inl (CliCapture (FileFormat ''file capture: truncated record''))) \<and>
   (\<exists>p'. (pipe_step (stop_wrap_ops (file_source_ops id damaged_tap)) hop_engine hop_opts None)\<^sup>*\<^sup>*
      (pipe_start \<lparr>sw_inner = demo_file, sw_stops = [False, True]\<rparr> None) p' \<and> pipe_final p' \<and>
      pipe_outcome p' = Inr \<lparr>ro_snapshot = None, ro_report = \<lparr>pr_packets = 1, pr_bytes = 60, pr_regressed = 0,
        pr_stats = \<lparr>cs_received = 1, cs_dropped_kernel = 0, cs_dropped_iface = 0\<rparr>\<rparr>\<rparr>)"
proof -
  have f: "fs_delivered demo_file = 0" "length (id (fs_capture demo_file)) < 2 ^ 64" by (simp_all add: demo_file_def)
  note run = file_run_completes[OF damaged_tap_replays f(1) hop_entry_ok f(2) relpowp_0_I, of id None _ None]
  from run[of "[]"] run[of "[False, True]"] show ?thesis
    by (simp add: file_feed_def demo_file_def tap_raw_def admitted_def Let_def frames_read_def before_stop_def read_error_def
        limit_hit_def stopped_by_def file_report_def regressions_def)
qed

theorem pipeline_refines_sequential_witness:
  "\<exists>p. (pipe_step mock hop_engine hop_opts None)\<^sup>*\<^sup>* (pipe_start (mock_new [(3, [7, 7, 9, 5])] 1) None) p \<and> pipe_final p \<and>
    run_sequential mock hop_engine hop_opts None (mock_new [(3, [7, 7, 9, 5])] 1) None = Some (pipe_outcome p)"
proof -
  have "mock_run.source_ok (pipe_start (mock_new [(3, [7, 7, 9, 5])] 1) None)"
    by (simp add: mock_run.source_ok_def pipe_start_def pump_start_def mock_ok_def mock_new_def)
  from mock_run.run_completes[OF this, of hop_engine hop_opts None] obtain p where
    p: "(pipe_step mock hop_engine hop_opts None)\<^sup>*\<^sup>* (pipe_start (mock_new [(3, [7, 7, 9, 5])] 1) None) p" "pipe_final p" by blast
  show ?thesis by (intro exI[of _ p] conjI p pipeline_refines_sequential[OF p])
qed

definition demo_args :: shared_args where
  "demo_args = \<lparr>sa_read = Some ''a.pcap'', sa_iface = None, sa_filter = None, sa_count = None, sa_depth = ArgFull, sa_idle_timeout = None,
     sa_max_streams = None, sa_series_cap = None, sa_no_condense = False, sa_condense_threshold = None, sa_entry = Some ''nope''\<rparr>"

theorem resolve_opts_guards_panic_witness:
  "\<exists>e. default_engine = Inr e \<and> (case resolve_opts demo_args e True False of
      Inl err \<Rightarrow> exit_code err = 2 \<and> (\<exists>n. sa_entry demo_args = Some n \<and> n \<notin> pg_name ` set default_plugins)
    | Inr opts \<Rightarrow> (\<exists>pkt. dissect e [] hop_meta opts = Some pkt) \<and> po_entry opts = sa_entry demo_args)"
proof -
  obtain e where "default_engine = Inr e" using default_engine_eq by blast
  then show ?thesis using resolve_opts_guards_panic[where sa = demo_args and aggregate = True and diagnose = False and bytes = "[]" and meta = hop_meta] by blast
qed

section \<open>What a reader of the hub sees in the end\<close>

lemma counters_finish: "counters (finish a) = counters a"
proof -
  have one: "counters (finish_one h a) = counters a" for h a
    by (simp add: finish_one_def counters_evict counters_frames split: eviction_policy.split option.split)
  have "counters (fold finish_one hs a) = counters a" for hs by (induction hs arbitrary: a) (simp_all add: one)
  then show ?thesis by (simp add: finish_def)
qed

lemma final_packets:
  "sm_packets (sn_summary (snapshot (finish (fold ingest pkts (aggregator_new H D e cfg))))) = of_nat (length pkts)"
  using counters_run[of pkts H D e cfg] counters_finish[of "fold ingest pkts (aggregator_new H D e cfg)"]
  by (simp add: snapshot_def summary_def counters_def)

lemma observe_running: "list_all (\<lambda>c. \<not> ends_run c) (observe file_size clock packets next_due a)"
  by (induction file_size clock packets next_due a rule: observe.induct) (auto simp: Let_def publish_calls_def ends_run_def)

lemma call_snaps_append: "call_snaps (xs @ ys) = call_snaps xs @ call_snaps ys"
  by (induction xs) (auto simp: call_snaps_def map_filter_simps split: option.split)

lemma hub_ends:
  assumes "is_finished (hub_at (hub_new source mode) (hub_calls show_error file_size clock a r sent) n)" "n \<le> m"
  defines "h \<equiv> hub_at (hub_new source mode) (hub_calls show_error file_size clock a r sent) m"
  shows "case outcome_of r (Some (fold ingest sent a)) of
      Inr _ \<Rightarrow> latest h = snapshot (finish (fold ingest sent a)) \<and> error h = None
    | Inl err \<Rightarrow> error h = Some (show_error err)"
proof -
  let ?run = "observe file_size clock sent None a" and ?o = "outcome_of r (Some (fold ingest sent a))"
  note run = observe_running[of file_size clock sent None a]
  show ?thesis
  proof (cases ?o)
    case (Inl err)
    have c: "hub_calls show_error file_size clock a r sent = ?run @ [SetError (show_error err)]"
      by (simp add: hub_calls_def Inl end_calls_def)
    show ?thesis using hub_finished_final[OF run, of "SetError (show_error err)" source mode n m] assms(1,2)
      unfolding h_def c Inl by (simp add: ends_run_def call_error_def)
  next
    case (Inr out)
    then have out: "ro_snapshot out = Some (snapshot (finish (fold ingest sent a)))"
      by (auto simp: outcome_of_def split: pump_end.splits)
    let ?tail = "[Publish (snapshot (finish (fold ingest sent a)))] @ (if 0 < file_size then [SetProgress file_size file_size] else [])"
    have c: "hub_calls show_error file_size clock a r sent = (?run @ ?tail) @ [MarkFinished]"
      by (simp add: hub_calls_def Inr end_calls_def out)
    have t: "list_all (\<lambda>c. \<not> ends_run c) (?run @ ?tail)" using run by (simp add: ends_run_def)
    have last: "last (empty_snapshot # call_snaps (?run @ ?tail)) = snapshot (finish (fold ingest sent a))"
      by (simp add: call_snaps_append) (simp add: call_snaps_def map_filter_simps)
    show ?thesis using hub_finished_final[OF t, of MarkFinished source mode n m] assms(1,2) last
      unfolding h_def c Inr by (simp add: ends_run_def call_error_def)
  qed
qed

text \<open>C17. A front end that sees the run finished sees its result: whenever a reader has seen the finished flag of
  a pipeline over a freshly opened capture file, with options that passed validation, every later load gives the same result, whatever snapshots were published on the way:
  if the run reached the damage of the file, the text of that error; otherwise (the file ended, the limit was reached
  or the run was stopped) no error and the snapshot, after the end of capture, of exactly the packets that were read,
  whose packet count is theirs. The capture library is one that yields finitely many frames (fewer than \<open>2^64\<close>) and
  then the end or an error.\<close>

theorem hub_run_final:
  assumes "tap_replays tap frames damage" and "fs_delivered f = 0" and "entry_ok e opts" and "length (frames (fs_capture f)) < 2 ^ 64"
    and "pump (stop_wrap_ops (file_source_ops lower tap)) e opts (\<lambda>ch packet. Some (ch @ [packet])) limit
      \<lparr>sw_inner = f, sw_stops = stops\<rparr> [] = Some (r, sent, st)"
    and "is_finished (hub_at (hub_new source mode) (hub_calls show_error file_size clock (aggregator_new H D e cfg) r sent) n)" and "n \<le> m"
  shows "let h = hub_at (hub_new source mode) (hub_calls show_error file_size clock (aggregator_new H D e cfg) r sent) m;
      read = frames_read limit stops (file_feed frames f) in
    case read_error lower limit stops (length (frames (fs_capture f))) (damage (fs_capture f)) of
      Some err \<Rightarrow> error h = Some (show_error (CliCapture err))
    | None \<Rightarrow> error h = None \<and> latest h = snapshot (finish (fold ingest (dissect_frames e opts read) (aggregator_new H D e cfg))) \<and>
        sm_packets (sn_summary (latest h)) = of_nat (length read)"
proof -
  let ?read = "frames_read limit stops (file_feed frames f)"
  have r: "r = (case read_error lower limit stops (length (frames (fs_capture f))) (damage (fs_capture f)) of
        None \<Rightarrow> Pumped (file_report (map rp_meta ?read)) | Some err \<Rightarrow> PumpFailed err)" and sent: "sent = dissect_frames e opts ?read"
    using file_pump[OF assms(1-4), of lower limit stops] assms(5) by auto
  have l: "length sent = length ?read" by (simp add: sent dissect_frames_def)
  show ?thesis using hub_ends[OF assms(6,7)] final_packets[of sent H D e cfg] l
    unfolding r sent by (simp add: outcome_of_def Let_def split: option.splits)
qed

lemma hub_finishes:
  "\<exists>n. is_finished (hub_at (hub_new source mode) (hub_calls show_error file_size clock a r sent) n)"
proof -
  let ?c = "hub_calls show_error file_size clock a r sent"
  obtain c where "c \<in> set ?c" "ends_run c"
  proof (cases "outcome_of r (Some (fold ingest sent a))")
    case (Inl err)
    then show ?thesis by (intro that[of "SetError (show_error err)"]) (simp_all add: hub_calls_def end_calls_def ends_run_def)
  next
    case (Inr out)
    then show ?thesis by (intro that[of MarkFinished]) (simp_all add: hub_calls_def end_calls_def ends_run_def)
  qed
  moreover from this(2) have "StoreFinished \<in> set (call_acts c)" by (cases c) (simp_all add: ends_run_def mark_finished_def set_error_def)
  ultimately have "StoreFinished \<in> set (concat (map call_acts ?c))" by auto
  then have "is_finished (hub_at (hub_new source mode) ?c (length (concat (map call_acts ?c))))"
    unfolding is_finished_def hub_at_def fold_act_finished by (metis order_refl take_all)
  then show ?thesis ..
qed

theorem hub_run_final_witness:
  "\<exists>r sent st n. pump (stop_wrap_ops (file_source_ops id damaged_tap)) hop_engine hop_opts (\<lambda>ch packet. Some (ch @ [packet])) None
      \<lparr>sw_inner = demo_file, sw_stops = []\<rparr> [] = Some (r, sent, st) \<and>
    is_finished (hub_at (hub_new [] ''offline'') (hub_calls (\<lambda>_. ''failed'') 100 [(0, 1)] (aggregator_new (\<lambda>_. 0) (\<lambda>_. 0) hop_engine default_config) r sent) n) \<and>
    error (hub_at (hub_new [] ''offline'')
      (hub_calls (\<lambda>_. ''failed'') 100 [(0, 1)] (aggregator_new (\<lambda>_. 0) (\<lambda>_. 0) hop_engine default_config) r sent) n) = Some ''failed''"
proof -
  let ?a = "aggregator_new (\<lambda>_. 0) (\<lambda>_. 0) hop_engine default_config"
  let ?d = "Some (TapPcap ''truncated record'')"
  have f: "fs_delivered demo_file = 0" "length (id (fs_capture demo_file)) < 2 ^ 64" by (simp_all add: demo_file_def)
  obtain r sent st where p: "pump (stop_wrap_ops (file_source_ops id damaged_tap)) hop_engine hop_opts push_back None
      \<lparr>sw_inner = demo_file, sw_stops = []\<rparr> [] = Some (r, sent, st)"
    using file_pump[OF damaged_tap_replays f(1) hop_entry_ok f(2), of id None "[]"] by blast
  obtain n where n: "is_finished (hub_at (hub_new [] ''offline'') (hub_calls (\<lambda>_. ''failed'') 100 [(0, 1)] ?a r sent) n)"
    using hub_finishes by blast
  have k: "read_error id None [] (length (id (fs_capture demo_file))) ?d = Some (FileFormat ''file capture: truncated record'')"
    by (simp add: read_error_def limit_hit_def stopped_by_def)
  show ?thesis
    using hub_run_final[OF damaged_tap_replays f(1) hop_entry_ok f(2) p n order_refl] p n unfolding k Let_def option.case by blast
qed

section \<open>Stopping a capture\<close>

text \<open>C25. A live source ends only when it is stopped: a read that finds nothing is retried, never reported as the end;
  once the flag is set the call returns at the next look at it, a packet it returns is the one in its buffer, and
  its statistics count what was delivered.\<close>

theorem live_next_ends:
  assumes "stop n" and "lv_loads l \<le> n"
  shows "\<exists>r l'. live_next stop lower tap l = Some (r, l') \<and> lv_loads l' \<le> n + 1 \<and> \<not> list_ex stop [lv_loads l..<lv_loads l' - 1] \<and>
    (stop (lv_loads l' - 1) \<longleftrightarrow> r = Inr None) \<and>
    cs_received (live_stats l') = lv_delivered l + (if \<exists>raw. r = Inr (Some raw) then 1 else 0) \<and>
    (case r of Inr (Some raw) \<Rightarrow> rp_bytes raw = lv_buf l' \<and> caplen (rp_meta raw) = length (lv_buf l') | _ \<Rightarrow> True)"
proof -
  obtain res where res: "live_next stop lower tap l = Some res" "live_answer stop l res" "lv_loads (snd res) \<le> n + 1"
    using live_next_returns[of stop n l lower tap, OF assms] by blast
  obtain r l' where r: "res = (r, l')" by fastforce
  show ?thesis
  proof (intro exI[of _ r] exI[of _ l'] conjI)
    show "live_next stop lower tap l = Some (r, l')" "lv_loads l' \<le> n + 1" using res r by simp_all
    show "\<not> list_ex stop [lv_loads l..<lv_loads l' - 1]" using res r by (simp add: live_answer_def)
    show "stop (lv_loads l' - 1) \<longleftrightarrow> r = Inr None" using res(2) r by (auto simp: live_answer_def split: sum.splits option.splits)
    show "cs_received (live_stats l') = lv_delivered l + (if \<exists>raw. r = Inr (Some raw) then 1 else 0)"
      using res(2) r by (auto simp: live_answer_def live_stats_def split: sum.splits option.splits)
    show "case r of Inr (Some raw) \<Rightarrow> rp_bytes raw = lv_buf l' \<and> caplen (rp_meta raw) = length (lv_buf l') | _ \<Rightarrow> True"
      using res(2) r by (auto simp: live_answer_def split: sum.splits option.splits)
  qed
qed

definition idle_live :: "tap_packet list live_source" where
  "idle_live = \<lparr>lv_capture = [], lv_link_type = 1, lv_loads = 0, lv_poll_interval = 50 * 10 ^ 6, lv_delivered = 0,
     lv_kernel_stats = stats_default, lv_buf = []\<rparr>"

theorem live_next_ends_witness:
  "\<exists>r l'. live_next (\<lambda>k. k = 3) id list_tap idle_live = Some (r, l') \<and> lv_loads l' \<le> 4 \<and> ((lv_loads l' - 1 = 3) \<longleftrightarrow> r = Inr None)"
proof -
  have "lv_loads idle_live \<le> 3" by (simp add: idle_live_def)
  from live_next_ends[of "\<lambda>k. k = 3", OF refl this, of id list_tap] show ?thesis by auto
qed

text \<open>The history of the stop flags of a run: triggers of the handler and registrations of sources.\<close>

datatype stop_op = DoTrigger | DoRegister nat

fun run_stop :: "stop_op list \<Rightarrow> stop_flags \<times> flag_store \<Rightarrow> stop_flags \<times> flag_store" where
  "run_stop [] s = s"
| "run_stop (DoTrigger # ops) (sf, m) = run_stop ops (sf, trigger sf m)"
| "run_stop (DoRegister f # ops) (sf, m) = run_stop ops (register_flag f sf, m)"

lemma fold_set_flags: "fold (\<lambda>f m. m(f := True)) fs m g \<longleftrightarrow> g \<in> set fs \<or> m g"
  by (induction fs arbitrary: m) auto

lemma trigger_sets: "trigger sf m g \<longleftrightarrow> g = sf_master sf \<or> g \<in> set (sf_extra sf) \<or> m g"
  by (auto simp: trigger_def fold_set_flags)

lemma run_stop_flag:
  assumes "f \<noteq> sf_master sf" "DoRegister f \<notin> set ops"
  shows "snd (run_stop ops (sf, m)) f \<longleftrightarrow> m f \<or> f \<in> set (sf_extra sf) \<and> DoTrigger \<in> set ops"
  using assms
proof (induction ops arbitrary: sf m)
  case (Cons op ops)
  then show ?case
    by (cases op) (auto simp: trigger_sets register_flag_def)
qed simp

text \<open>C39. A trigger reaches exactly the live sources opened before it: the flag of a source is set in the end if and only
  if some trigger came after its registration. A first Ctrl-C while the device is being opened is lost (the second one
  ends the process without a report).\<close>

theorem ctrl_c_reaches_registered:
  assumes "open_source lower tap sa fresh sf0 m0 = (Inr (OpenedLive src f, mode, name), sf, m)"
    and "fresh \<noteq> sf_master sf0" and "DoRegister fresh \<notin> set ops"
  shows "snd (run_stop ops (sf, m)) f \<longleftrightarrow> DoTrigger \<in> set ops"
proof -
  have o: "f = fresh" "sf = register_flag fresh sf0" "m = m0(fresh := False)"
    using assms(1) by (auto simp: open_source_def split: option.splits sum.splits)
  then have "f \<noteq> sf_master sf" using assms(2) by (simp add: register_flag_def)
  from run_stop_flag[OF this, of ops m] show ?thesis using o assms(3) by (auto simp: register_flag_def)
qed

theorem ctrl_c_reaches_registered_witness:
  "\<exists>src sf m. open_source id list_tap (demo_args\<lparr>sa_read := None, sa_iface := Some ''eth0''\<rparr>) 7
      \<lparr>sf_master = 0, sf_extra = []\<rparr> (trigger \<lparr>sf_master = 0, sf_extra = []\<rparr> (\<lambda>_. False)) =
      (Inr (OpenedLive src 7, ''live'', ''eth0''), sf, m) \<and> is_stopped sf m \<and> \<not> snd (run_stop [] (sf, m)) 7"
proof -
  let ?sa = "demo_args\<lparr>sa_read := None, sa_iface := Some ''eth0''\<rparr>"
  let ?sf = "\<lparr>sf_master = 0 :: nat, sf_extra = []\<rparr>"
  obtain src sf m where o: "open_source id list_tap ?sa 7 ?sf (trigger ?sf (\<lambda>_. False)) = (Inr (OpenedLive src 7, ''live'', ''eth0''), sf, m)"
      "is_stopped sf m"
    by (auto simp: open_source_def live_open_def list_tap_def is_stopped_def register_flag_def trigger_def)
  have "\<not> snd (run_stop [] (sf, m)) 7" using ctrl_c_reaches_registered[OF o(1), of "[]"] by simp
  then show ?thesis using o by blast
qed

end
