(* ===== verification/Web.thy ===== *)
theory Web
  imports App Json_View
begin

text \<open>
  \<open>pktflow-web\<close>: the JSON documents of the API (\<open>api.rs\<close>) and the state of the server with the capture upload
  (\<open>lib.rs\<close>). A document is a value of the JSON type; the handlers that answer from the index return it as their
  lookups leave it. The embedder's pipeline spawner, the file system's answers and the chunks of a request
  body are arguments. The HTTP framework is not modelled.
\<close>

section \<open>Documents about the hub\<close>

definition FULL_SNAPSHOT_MAX_STREAMS :: nat where "FULL_SNAPSHOT_MAX_STREAMS = 20000"
definition WINDOW_LIMIT_MAX :: nat where "WINDOW_LIMIT_MAX = 500"

fun stop_class_key :: "stop_class \<Rightarrow> string" where
  "stop_class_key Clean = ''clean''"
| "stop_class_key UnknownPayload = ''unknown_payload''"
| "stop_class_key MalformedClass = ''malformed''"
| "stop_class_key Suspicious = ''suspicious''"

definition meta_json :: "hub \<Rightarrow> json" where
  "meta_json h = JMap
    [(''pktflow'', JU64 1), (''source'', JStr (hb_source h)), (''mode'', JStr (hb_mode h)), (''finished'', JBool (is_finished h)),
     (''generation'', JU64 (generation h)), (''error'', json_opt JStr (error h))]"

definition tick_json :: "hub \<Rightarrow> json" where
  "tick_json h =
    (let s = sn_summary (latest h) in JMap
      [(''generation'', JU64 (generation h)), (''finished'', JBool (is_finished h)), (''error'', json_opt JStr (error h)),
       (''packets'', JU64 (sm_packets s)), (''bytes'', JU64 (sm_bytes s)), (''streams_live'', JU64 (sm_streams_live s)),
       (''progress'', json_opt (\<lambda>(rd, tot). JMap [(''read'', JU64 rd), (''total'', JU64 tot)]) (progress h h))])"

definition summary_json :: "aggregator_snapshot \<Rightarrow> json" where
  "summary_json snap =
    (let s = sn_summary snap in JMap
      [(''packets'', JU64 (sm_packets s)), (''bytes'', JU64 (sm_bytes s)), (''streams_created'', JU64 (sm_streams_created s)),
       (''streams_live'', JU64 (sm_streams_live s)), (''flows_condensed'', JU64 (sm_flows_condensed s)),
       (''key_errors'', JU64 (sm_key_errors s)),
       (''per_protocol'', JSeq (map (\<lambda>p. JMap [(''protocol'', JStr (pc_protocol p)), (''ever'', JU64 (pc_ever p)),
          (''live'', JU64 (pc_live p)), (''bytes'', JU64 (pc_bytes p))]) (sm_per_protocol s))),
       (''stop_classes'', JMap (fold (\<lambda>(c, n). hm_set (stop_class_key c) (JU64 n)) (sm_stop_classes s) []))])"

fun show_route :: "route_id \<Rightarrow> string" where
  "show_route (LinkType i) = ''link_type:'' @ show_nat (unat i)"
| "show_route (EtherType i) = ''ethertype:0x'' @ pad 4 (show_hex (unat i))"
| "show_route (IpProtocol i) = ''ip_protocol:'' @ show_nat (unat i)"
| "show_route (UdpPort i) = ''udp_port:'' @ show_nat (unat i)"
| "show_route (TcpPort i) = ''tcp_port:'' @ show_nat (unat i)"
| "show_route (Custom space i) = ''custom:'' @ space @ '':'' @ show_nat (unat i)"

definition unknown_json :: "(system_time \<Rightarrow> string) \<Rightarrow> nat \<Rightarrow> unknown_group \<Rightarrow> json" where
  "unknown_json rfc3339 i g = JMap
    [(''selector'', JU64 (of_nat (i + 1))),
     (''predecessor'', JStr (uk_predecessor (ug_key g))),
     (''route'', json_opt (\<lambda>r. JStr (show_route r)) (uk_route (ug_key g))),
     (''kind'', JStr (if uk_route (ug_key g) \<noteq> None then ''unclaimed_route'' else ''no_heuristic_winner'')),
     (''count'', JU64 (ug_count g)), (''bytes_total'', JU64 (ug_bytes_total g)),
     (''bytes_min'', JU64 (ucast (ug_bytes_min g))), (''bytes_max'', JU64 (ucast (ug_bytes_max g))),
     (''first_seen'', JStr (rfc3339 (ug_first_seen g))), (''last_seen'', JStr (rfc3339 (ug_last_seen g))),
     (''near_misses'', JSeq (map (\<lambda>(name, score). JMap [(''protocol'', JStr name), (''score'', JU64 (ucast (confidence_get score)))]) (ug_near_misses g))),
     (''endpoints'', JSeq (map (\<lambda>e. JMap [(''protocol'', JStr (ep_protocol e)), (''key'', JStr (hex_lower (ep_key e)))]) (ug_endpoints g))),
     (''endpoints_overflow'', JBool (ug_endpoints_overflow g)),
     (''samples'', JSeq (map (\<lambda>s. JStr (hex_lower s)) (ug_samples g)))]"

section \<open>Documents about streams\<close>

text \<open>\<open>index.by_id(id).map(|s| s.created_seq)\<close>, and the lookups a record makes.\<close>

definition index_seq_of :: "snapshot_index \<Rightarrow> stream_id \<Rightarrow> u64 option" where
  "index_seq_of idx h = map_option st_created_seq (fst (index_by_id h idx))"

definition relations :: "stream \<Rightarrow> stream_id list" where
  "relations s = (case st_parent s of Some p \<Rightarrow> [p] | None \<Rightarrow> []) @ st_children s"

definition records_json :: "view_env \<Rightarrow> (system_time \<Rightarrow> string) \<Rightarrow> stream list \<Rightarrow> snapshot_index \<Rightarrow> json list \<times> snapshot_index" where
  "records_json ve rfc3339 ss idx =
    (map (\<lambda>s. JMap (stream_record ve rfc3339 (index_seq_of idx) s)) ss, snd (resolve_all (concat (map relations ss)) idx))"

definition snapshot_json :: "view_env \<Rightarrow> (system_time \<Rightarrow> string) \<Rightarrow> hub \<Rightarrow> snapshot_index \<Rightarrow> json \<times> snapshot_index" where
  "snapshot_json ve rfc3339 h idx =
    (let snap = si_snap idx; windowed = FULL_SNAPSHOT_MAX_STREAMS < length (sn_streams snap);
         doc = [(''pktflow'', JU64 1), (''meta'', meta_json h), (''summary'', summary_json snap), (''windowed'', JBool windowed),
           (''unknowns'', JSeq (map (\<lambda>(i, g). unknown_json rfc3339 i g) (enumerate 0 (sn_unknowns snap))))]
     in if windowed then (JMap doc, idx)
        else case records_json ve rfc3339 (sn_streams snap) idx of (recs, idx1) \<Rightarrow>
          (JMap (doc @ [(''streams'', JSeq recs), (''roots'', JSeq (map JU64 (List.map_filter (index_seq_of idx1) (sn_roots snap))))]),
           snd (resolve_all (sn_roots snap) idx1)))"

text \<open>\<open>str::parse\<close> of an unsigned integer of 64 bits.\<close>

definition parse_unsigned :: "string \<Rightarrow> nat option" where
  "parse_unsigned s =
    (let ds = (case s of c # r \<Rightarrow> if c = CHR ''+'' then r else s | [] \<Rightarrow> []) in
     if ds \<noteq> [] \<and> list_all is_ascii_digit ds \<and> read_nat ds < 2 ^ 64 then Some (read_nat ds) else None)"

type_synonym params = "(string, string) hmap"

definition or_else :: "'a \<Rightarrow> 'a option \<Rightarrow> 'a" where
  "or_else d x = (case x of Some v \<Rightarrow> v | None \<Rightarrow> d)"

definition param_scope :: "params \<Rightarrow> string + scope" where
  "param_scope ps =
    (let sc = or_else ''roots'' (hm_get ps ''scope'') in
     if sc = ''flat'' then Inr Flat
     else if sc = ''children'' then
       (case hm_get ps ''of'' of
          Some n \<Rightarrow> (case parse_unsigned n of Some seq \<Rightarrow> Inr (ChildrenOf (of_nat seq)) | None \<Rightarrow> Inl ''children scope needs a numeric ?of='')
        | None \<Rightarrow> Inl ''children scope needs ?of=SEQ'')
     else Inr Roots)"

definition window_spec_of :: "scope \<Rightarrow> params \<Rightarrow> window_spec" where
  "window_spec_of sc ps =
    \<lparr>ws_scope = sc, ws_query = hm_get ps ''q'',
     ws_sort = or_else SortBytes (Option.bind (hm_get ps ''sort'') sort_key_parse),
     ws_descending = (hm_get ps ''order'' \<noteq> Some ''asc''),
     ws_offset = or_else 0 (Option.bind (hm_get ps ''offset'') parse_unsigned),
     ws_limit = min (or_else 200 (Option.bind (hm_get ps ''limit'') parse_unsigned)) WINDOW_LIMIT_MAX\<rparr>"

definition streams_json :: "view_env \<Rightarrow> 'r regex_env \<Rightarrow> (system_time \<Rightarrow> string) \<Rightarrow> hub \<Rightarrow> params \<Rightarrow> snapshot_index \<Rightarrow>
    query_fail + json \<times> snapshot_index" where
  "streams_json ve env rfc3339 h ps idx =
    (case param_scope ps of
       Inl msg \<Rightarrow> Inr (JMap [(''error'', JStr msg)], idx)
     | Inr sc \<Rightarrow>
        and_then (window ve env (window_spec_of sc ps) idx) (\<lambda>(w, idx1).
        case records_json ve rfc3339 (wr_rows w) idx1 of (recs, idx2) \<Rightarrow>
        Inr (JMap [(''pktflow'', JU64 1), (''generation'', JU64 (generation h)), (''total'', JU64 (of_nat (wr_total w))),
          (''match_total'', json_opt (\<lambda>n. JU64 (of_nat n)) (wr_match_total w)), (''rows'', JSeq recs)], idx2)))"

definition timeline_json :: "view_env \<Rightarrow> 'r regex_env \<Rightarrow> (system_time \<Rightarrow> string) \<Rightarrow> hub \<Rightarrow> params \<Rightarrow> snapshot_index \<Rightarrow>
    query_fail + json \<times> snapshot_index" where
  "timeline_json ve env rfc3339 h ps idx =
    (let spec = \<lparr>ts_bins = or_else 800 (Option.bind (hm_get ps ''bins'') parse_unsigned),
           ts_lanes = or_else 64 (Option.bind (hm_get ps ''lanes'') parse_unsigned), ts_query = hm_get ps ''q''\<rparr> in
     and_then (timeline ve env spec idx) (\<lambda>(t, idx1).
       Inr (JMap (case t of
          None \<Rightarrow> [(''pktflow'', JU64 1), (''generation'', JU64 (generation h)), (''lanes'', JNull)]
        | Some b \<Rightarrow> [(''pktflow'', JU64 1), (''generation'', JU64 (generation h)), (''start'', JStr (rfc3339 (tb_start b))),
            (''end'', JStr (rfc3339 (tb_end b))),
            (''lanes'', JSeq (map (\<lambda>l. JMap [(''seq'', json_opt JU64 (tl_seq l)),
               (''active'', JSeq (map (\<lambda>n. JU64 (ucast n)) (tl_active l)))]) (tb_lanes b)))]), idx1)))"

definition search_base :: "string \<Rightarrow> hub \<Rightarrow> json \<Rightarrow> json \<Rightarrow> json \<Rightarrow> json \<Rightarrow> json" where
  "search_base q h ms vs n err = JMap
    [(''pktflow'', JU64 1), (''query'', JStr q), (''generation'', JU64 (generation h)), (''matches'', ms), (''visible'', vs),
     (''match_total'', n), (''error'', err)]"

definition search_json :: "view_env \<Rightarrow> 'r regex_env \<Rightarrow> hub \<Rightarrow> string \<Rightarrow> snapshot_index \<Rightarrow> query_fail + json \<times> snapshot_index" where
  "search_json ve env h q idx =
    (if is_blank q then Inr (search_base q h JNull JNull JNull JNull, idx)
     else and_then (query_sets ve env q idx) (\<lambda>(sets, idx1).
       case sets of
         None \<Rightarrow>
          Inr (search_base q h JNull JNull JNull (JStr (case stream_query_parse (ve_lower ve) env q of
             Inl (QueryError m p) \<Rightarrow> show_query_error m p | _ \<Rightarrow> ''query error'')), idx1)
       | Some (ms, vs) \<Rightarrow>
          if FULL_SNAPSHOT_MAX_STREAMS < length (sn_streams (si_snap idx1))
          then Inr (search_base q h JNull JNull (JU64 (of_nat (card ms))) JNull, idx1)
          else Inr (search_base q h (JSeq (map JU64 (sorted_list_of_set ms))) (JSeq (map JU64 (sorted_list_of_set vs)))
             (JU64 (of_nat (card ms))) JNull, idx1)))"

definition stream_json :: "view_env \<Rightarrow> (system_time \<Rightarrow> string) \<Rightarrow> u64 \<Rightarrow> snapshot_index \<Rightarrow> json option \<times> snapshot_index" where
  "stream_json ve rfc3339 seq idx =
    (case index_by_seq seq idx of
       (None, idx1) \<Rightarrow> (None, idx1)
     | (Some s, idx1) \<Rightarrow>
        (case records_json ve rfc3339 [s] idx1 of (recs, idx2) \<Rightarrow> (Some (hd recs), idx2)))"

end
