(* ===== verification/Web_Server.thy ===== *)
theory Web_Server
  imports Web
begin

text \<open>
  \<open>pktflow-web/src/lib.rs\<close>: the state of the server, the memoised view index and the upload of a capture. Hubs are
  named by numbers, because an upload replaces the one served while pipelines keep writing into both; what
  a load of a hub sees is an argument. The temporary files are a map from paths to contents; which operations of
  the file system succeed is an argument too. A handler is atomic.
\<close>

section \<open>State\<close>

record web_state =
  ws_hub :: nat
  ws_uploads :: bool
  ws_last_upload :: "string option"
  ws_upload_seq :: u64
  ws_upload_ns :: u64
  ws_max_upload_bytes :: u64
  ws_index_memo :: "(u64 \<times> snapshot_index) option"

definition DEFAULT_MAX_UPLOAD_BYTES :: u64 where
  "DEFAULT_MAX_UPLOAD_BYTES = 8 * 1024 * 1024 * 1024"

definition web_state_new :: "u64 \<Rightarrow> nat \<Rightarrow> web_state" where
  "web_state_new ns h =
    \<lparr>ws_hub = h, ws_uploads = False, ws_last_upload = None, ws_upload_seq = 0, ws_upload_ns = ns,
     ws_max_upload_bytes = DEFAULT_MAX_UPLOAD_BYTES, ws_index_memo = None\<rparr>"

definition with_uploads :: "u64 \<Rightarrow> nat \<Rightarrow> web_state" where
  "with_uploads ns h = (web_state_new ns h)\<lparr>ws_uploads := True\<rparr>"

definition upload_cap :: "u64 \<Rightarrow> web_state \<Rightarrow> web_state" where
  "upload_cap bytes st = st\<lparr>ws_max_upload_bytes := bytes\<rparr>"

definition swap_hub :: "nat \<Rightarrow> web_state \<Rightarrow> web_state" where
  "swap_hub h st = st\<lparr>ws_hub := h\<rparr>"

text \<open>\<open>WebState::index\<close>: the load of the generation sees \<open>hubs\<close>, the later one of the snapshot \<open>hubs'\<close>.\<close>

definition web_index :: "(nat \<Rightarrow> hub) \<Rightarrow> (nat \<Rightarrow> hub) \<Rightarrow> web_state \<Rightarrow> snapshot_index \<times> web_state" where
  "web_index hubs hubs' st =
    (let gen = generation (hubs (ws_hub st));
         fresh = snapshot_index_new (latest (hubs' (ws_hub st)));
         miss = (fresh, st\<lparr>ws_index_memo := Some (gen, fresh)\<rparr>)
     in case ws_index_memo st of
          Some (cached_gen, idx) \<Rightarrow> if cached_gen = gen then (idx, st) else miss
        | None \<Rightarrow> miss)"

text \<open>A handler works on the shared index, whose lazily built parts stay in the memo.\<close>

definition keep_index :: "snapshot_index \<Rightarrow> web_state \<Rightarrow> web_state" where
  "keep_index idx st = st\<lparr>ws_index_memo := map_option (\<lambda>(g, _). (g, idx)) (ws_index_memo st)\<rparr>"

definition with_index :: "(nat \<Rightarrow> hub) \<Rightarrow> (nat \<Rightarrow> hub) \<Rightarrow> (snapshot_index \<Rightarrow> query_fail + 'a \<times> snapshot_index) \<Rightarrow> web_state \<Rightarrow>
    query_fail + 'a \<times> web_state" where
  "with_index hubs hubs' f st =
    (case web_index hubs hubs' st of (idx, st1) \<Rightarrow>
     and_then (f idx) (\<lambda>(doc, idx'). Inr (doc, keep_index idx' st1)))"

definition meta_with_uploads :: "(nat \<Rightarrow> hub) \<Rightarrow> web_state \<Rightarrow> json" where
  "meta_with_uploads hubs st =
    (case meta_json (hubs (ws_hub st)) of
       JMap m \<Rightarrow> JMap (hm_set ''uploads'' (JBool (ws_uploads st)) m)
     | d \<Rightarrow> d)"

text \<open>A document carries state of the hub that is loaded after the index was: the loads of the generation, of the
  snapshot and of what the document shows see the hubs as \<open>hubs\<close>, \<open>hubs'\<close> and \<open>hubs''\<close>.\<close>

definition streams_handler :: "view_env \<Rightarrow> 'r regex_env \<Rightarrow> (system_time \<Rightarrow> string) \<Rightarrow> (nat \<Rightarrow> hub) \<Rightarrow> (nat \<Rightarrow> hub) \<Rightarrow> (nat \<Rightarrow> hub) \<Rightarrow> params \<Rightarrow> web_state \<Rightarrow>
    query_fail + json \<times> web_state" where
  "streams_handler ve env rfc3339 hubs hubs' hubs'' ps st =
    with_index hubs hubs' (streams_json ve env rfc3339 (hubs'' (ws_hub st)) ps) st"

definition timeline_handler :: "view_env \<Rightarrow> 'r regex_env \<Rightarrow> (system_time \<Rightarrow> string) \<Rightarrow> (nat \<Rightarrow> hub) \<Rightarrow> (nat \<Rightarrow> hub) \<Rightarrow> (nat \<Rightarrow> hub) \<Rightarrow> params \<Rightarrow> web_state \<Rightarrow>
    query_fail + json \<times> web_state" where
  "timeline_handler ve env rfc3339 hubs hubs' hubs'' ps st =
    with_index hubs hubs' (timeline_json ve env rfc3339 (hubs'' (ws_hub st)) ps) st"

text \<open>\<open>doc["meta"]["uploads"] = \<dots>\<close> in the document of the whole snapshot.\<close>

definition set_uploads :: "bool \<Rightarrow> json \<Rightarrow> json" where
  "set_uploads b doc =
    (case doc of
       JMap m \<Rightarrow>
        (case hm_get m ''meta'' of
           Some (JMap mm) \<Rightarrow> JMap (hm_set ''meta'' (JMap (hm_set ''uploads'' (JBool b) mm)) m)
         | _ \<Rightarrow> doc)
     | _ \<Rightarrow> doc)"

definition snapshot_handler :: "view_env \<Rightarrow> (system_time \<Rightarrow> string) \<Rightarrow> (nat \<Rightarrow> hub) \<Rightarrow> (nat \<Rightarrow> hub) \<Rightarrow> (nat \<Rightarrow> hub) \<Rightarrow> web_state \<Rightarrow>
    query_fail + json \<times> web_state" where
  "snapshot_handler ve rfc3339 hubs hubs' hubs'' st =
    with_index hubs hubs' (\<lambda>idx. case snapshot_json ve rfc3339 (hubs'' (ws_hub st)) idx of
        (doc, idx') \<Rightarrow> Inr (set_uploads (ws_uploads st) doc, idx')) st"

definition search_handler :: "view_env \<Rightarrow> 'r regex_env \<Rightarrow> (nat \<Rightarrow> hub) \<Rightarrow> (nat \<Rightarrow> hub) \<Rightarrow> (nat \<Rightarrow> hub) \<Rightarrow> params \<Rightarrow> web_state \<Rightarrow> query_fail + json \<times> web_state" where
  "search_handler ve env hubs hubs' hubs'' ps st =
    with_index hubs hubs' (search_json ve env (hubs'' (ws_hub st)) (or_else [] (hm_get ps ''q''))) st"

definition stream_detail :: "view_env \<Rightarrow> (system_time \<Rightarrow> string) \<Rightarrow> (nat \<Rightarrow> hub) \<Rightarrow> (nat \<Rightarrow> hub) \<Rightarrow> u64 \<Rightarrow> web_state \<Rightarrow>
    query_fail + (nat \<times> json) \<times> web_state" where
  "stream_detail ve rfc3339 hubs hubs' seq st =
    with_index hubs hubs' (\<lambda>idx. case stream_json ve rfc3339 seq idx of
        (Some doc, idx') \<Rightarrow> Inr ((200, doc), idx')
      | (None, idx') \<Rightarrow> Inr ((404, JMap [(''error'', JStr (''no stream #'' @ show_nat (unat seq)))]), idx')) st"

section \<open>Uploads\<close>

definition capture_extension :: "byte list \<Rightarrow> string option" where
  "capture_extension bytes =
    (if length bytes < 4 then None
     else if take 4 bytes \<in> {[0xa1, 0xb2, 0xc3, 0xd4], [0xd4, 0xc3, 0xb2, 0xa1], [0xa1, 0xb2, 0x3c, 0x4d], [0x4d, 0x3c, 0xb2, 0xa1]}
     then Some ''pcap''
     else if take 4 bytes = [0x0a, 0x0d, 0x0d, 0x0a] then Some ''pcapng''
     else None)"

definition is_control :: "rune \<Rightarrow> bool" where
  "is_control c \<longleftrightarrow> c < 0x20 \<or> 0x7F \<le> c \<and> c < 0xA0"

definition sanitize_name :: "rune list \<Rightarrow> rune list" where
  "sanitize_name raw =
    (let base = trim (rev (takeWhile (\<lambda>c. c \<noteq> 0x2F \<and> c \<noteq> 0x5C) (rev raw)));
         clean = take 120 (filter (\<lambda>c. \<not> is_control c) base)
     in if clean = [] then map of_char ''uploaded capture'' else clean)"

type_synonym reply = "nat \<times> string"

definition not_a_capture :: string where
  "not_a_capture = ''not a capture file '' @ [CHR 0xE2, CHR 0x80, CHR 0x94] @ '' expected pcap or pcapng''"

text \<open>The body arrives in chunks, an \<open>Inl\<close> being a broken connection.\<close>

fun read_head :: "byte list \<Rightarrow> (unit + byte list) list \<Rightarrow> reply + string \<times> byte list \<times> (unit + byte list) list" where
  "read_head head [] = Inl (400, if head = [] then ''empty upload'' else not_a_capture)"
| "read_head head (Inl _ # body) = Inl (400, ''upload interrupted'')"
| "read_head head (Inr chunk # body) =
    (let head' = head @ chunk in
     if 4 \<le> length head' then
       (case capture_extension head' of Some ext \<Rightarrow> Inr (ext, head', body) | None \<Rightarrow> Inl (400, not_a_capture))
     else read_head head' body)"

text \<open>\<open>oks\<close> says which writes succeed (all, once it is used up), the last being the flush.\<close>

definition over_cap :: "u64 \<Rightarrow> nat \<Rightarrow> bool" where
  "over_cap cap written \<longleftrightarrow> 0 < cap \<and> unat cap < written"

definition ok_now :: "bool list \<Rightarrow> bool" where
  "ok_now oks \<longleftrightarrow> oks = [] \<or> hd oks"

fun spill_chunks :: "u64 \<Rightarrow> bool list \<Rightarrow> byte list \<Rightarrow> nat \<Rightarrow> (unit + byte list) list \<Rightarrow> reply + byte list" where
  "spill_chunks cap oks file written [] = (if ok_now oks then Inr file else Inl (500, ''could not store upload''))"
| "spill_chunks cap oks file written (Inl _ # body) = Inl (400, ''upload interrupted'')"
| "spill_chunks cap oks file written (Inr chunk # body) =
    (let written' = written + length chunk in
     if over_cap cap written' then Inl (413, ''upload exceeds the configured size cap'')
     else if \<not> ok_now oks then Inl (500, ''could not store upload'')
     else spill_chunks cap (tl oks) (file @ chunk) written' body)"

definition spill_upload :: "u64 \<Rightarrow> bool list \<Rightarrow> byte list \<Rightarrow> (unit + byte list) list \<Rightarrow> reply + byte list" where
  "spill_upload cap oks head body =
    (if \<not> ok_now oks \<or> \<not> ok_now (tl oks) then Inl (500, ''could not store upload'')
     else if over_cap cap (length head) then Inl (413, ''upload exceeds the configured size cap'')
     else spill_chunks cap (tl (tl oks)) head (length head) body)"

definition upload_path :: "string \<Rightarrow> string \<Rightarrow> web_state \<Rightarrow> string \<Rightarrow> string" where
  "upload_path tmp pid st ext =
    tmp @ ''/pktflow-upload-'' @ pid @ ''-'' @ show_nat (unat (ws_upload_ns st)) @ ''-'' @ show_nat (unat (ws_upload_seq st)) @ ''.'' @ ext"

type_synonym files = "string \<rightharpoonup> byte list"

definition remove_opt :: "string option \<Rightarrow> files \<Rightarrow> files" where
  "remove_opt p fs = (case p of Some path \<Rightarrow> fs(path := None) | None \<Rightarrow> fs)"

definition upload :: "(rune list \<Rightarrow> string \<Rightarrow> string + nat) \<Rightarrow> string \<Rightarrow> string \<Rightarrow> bool list \<Rightarrow> (string, rune list) hmap \<Rightarrow> (unit + byte list) list \<Rightarrow>
    web_state \<times> files \<Rightarrow> (reply + rune list) \<times> web_state \<times> files" where
  "upload spawner tmp pid oks ps body = (\<lambda>(st, fs).
    if \<not> ws_uploads st then (Inl (403, ''uploads are not enabled''), st, fs)
    else let name = sanitize_name (or_else [] (hm_get ps ''name'')) in
     case read_head [] body of
       Inl err \<Rightarrow> (Inl err, st, fs)
     | Inr (ext, head, body') \<Rightarrow>
        (let path = upload_path tmp pid st ext; st1 = st\<lparr>ws_upload_seq := ws_upload_seq st + 1\<rparr> in
         case spill_upload (ws_max_upload_bytes st) oks head body' of
           Inl err \<Rightarrow> (Inl err, st1, fs(path := None))
         | Inr content \<Rightarrow>
            (case spawner name path of
               Inr h \<Rightarrow>
                (Inr name, (swap_hub h st1)\<lparr>ws_last_upload := Some path\<rparr>, remove_opt (ws_last_upload st) (fs(path \<mapsto> content)))
             | Inl e \<Rightarrow> (Inl (500, e), st1, fs(path := None)))))"

end
