(* ===== verification/Web_Props.thy ===== *)
theory Web_Props
  imports Web_Server
begin

text \<open>
  The properties of the web front end: a window of streams is the page of the reference listing and bounded,
  an upload stores the body it received or nothing, the memoised index is current while one hub is
  served, and after an upload it can be that of the capture before.
\<close>

section \<open>Windows\<close>

lemma window_ref_rows: "window_ref ve env spec snap = Inr w \<Longrightarrow> length (wr_rows w) \<le> ws_limit spec"
  by (auto simp: window_ref_def and_then_def Let_def split: sum.splits)

lemma records_json_ok:
  assumes "cache_ok ve env snap idx" "snap_ok snap"
  shows "fst (records_json ve rfc3339 ss idx) = map (\<lambda>s. JMap (stream_record ve rfc3339 (\<lambda>h. map_option st_created_seq (look snap h)) s)) ss"
proof -
  have "index_seq_of idx = (\<lambda>h. map_option st_created_seq (look snap h))"
    using index_by_id_look(1)[OF assms] by (auto simp: index_seq_of_def)
  then show ?thesis by (simp add: records_json_def)
qed

text \<open>C20. One window of the API is one page of the reference listing, whatever the request and whatever the index was
  asked before, over the snapshot of any reachable store: the empty one of a new hub, one published on the way or the
  final one, published after the end of the capture. The rows are the records of the streams the window of the scope, query, order, offset and limit
  holds, at most 500, with parents and children given by the identifiers shown; a bad scope is an error
  document, and the handler fails only as the query's parser does. The engine is one whose keys
  never begin with the mark of a condensed node, as the default one's.\<close>

theorem streams_json_page:
  assumes "reachable e cfg a" and "plain_engine e" and "index_state ve env (snapshot a) idx"
  shows "case param_scope ps of
      Inl msg \<Rightarrow> streams_json ve env fmt_time h ps idx = Inr (JMap [(''error'', JStr msg)], idx)
    | Inr sc \<Rightarrow>
       (case window_ref ve env (window_spec_of sc ps) (snapshot a) of
          Inl f \<Rightarrow> streams_json ve env fmt_time h ps idx = Inl f
        | Inr w \<Rightarrow> length (wr_rows w) \<le> 500 \<and>
           map_sum id fst (streams_json ve env fmt_time h ps idx) =
             Inr (JMap [(''pktflow'', JU64 1), (''generation'', JU64 (generation h)), (''total'', JU64 (of_nat (wr_total w))),
               (''match_total'', json_opt (\<lambda>n. JU64 (of_nat n)) (wr_match_total w)),
               (''rows'', JSeq (map (\<lambda>s. JMap (stream_record ve fmt_time (\<lambda>h. map_option st_created_seq (look (snapshot a) h)) s)) (wr_rows w)))]))"
proof (cases "param_scope ps")
  case (Inl msg)
  then show ?thesis by (simp add: streams_json_def)
next
  case (Inr sc)
  let ?spec = "window_spec_of sc ps"
  have ok: "snap_ok (snapshot a)" by (rule snapshot_ok[OF assms(1,2)])
  have cache: "cache_ok ve env (snapshot a) idx" by (rule index_state_ok[OF assms(3) ok])
  note w = window_answer[OF assms, of ?spec]
  show ?thesis
  proof (cases "window ve env ?spec idx")
    case l: (Inl f)
    then have "window_ref ve env ?spec (snapshot a) = Inl f" using w by simp
    then show ?thesis using Inr l by (simp add: streams_json_def)
  next
    case r: (Inr x)
    obtain win idx1 where x: "x = (win, idx1)" by fastforce
    have win: "window_ref ve env ?spec (snapshot a) = Inr win" using w r x by simp
    have "cache_ok ve env (snapshot a) idx1" using index_state_ok[OF index_window[OF assms(3), of ?spec win idx1] ok] r x by simp
    note rec = records_json_ok[OF this ok, of fmt_time "wr_rows win"]
    have "length (wr_rows win) \<le> 500" using window_ref_rows[OF win] by (simp add: window_spec_of_def WINDOW_LIMIT_MAX_def)
    then show ?thesis using Inr r x win rec by (simp add: streams_json_def case_prod_unfold)
  qed
qed

theorem streams_json_page_witness:
  "\<exists>w. window_ref plain_view no_regex (window_spec_of Flat [(''scope'', ''flat''), (''limit'', ''9'')]) (snapshot (finish (pair_run default_config))) = Inr w \<and>
    length (wr_rows w) \<le> 500 \<and>
    map_sum id fst (streams_json plain_view no_regex (\<lambda>_. []) (hub_new [] []) [(''scope'', ''flat''), (''limit'', ''9'')]
        (snapshot_index_new (snapshot (finish (pair_run default_config))))) =
      Inr (JMap [(''pktflow'', JU64 1), (''generation'', JU64 0), (''total'', JU64 (of_nat (wr_total w))),
        (''match_total'', json_opt (\<lambda>n. JU64 (of_nat n)) (wr_match_total w)),
        (''rows'', JSeq (map (\<lambda>s. JMap (stream_record plain_view (\<lambda>_. []) (\<lambda>h. map_option st_created_seq (look (snapshot (finish (pair_run default_config))) h)) s)) (wr_rows w)))])"
proof -
  let ?ps = "[(''scope'', ''flat''), (''limit'', ''9'')]"
  have p: "param_scope ?ps = Inr Flat" by (simp add: param_scope_def or_else_def hm_get_def)
  have q: "ws_query (window_spec_of Flat ?ps) = None" by (simp add: window_spec_of_def hm_get_def)
  obtain w where w: "window_ref plain_view no_regex (window_spec_of Flat ?ps) (snapshot (finish (pair_run default_config))) = Inr w"
    by (simp add: window_ref_def q sets_for_ref_def Let_def)
  have g: "generation (hub_new [] []) = 0" by (simp add: generation_def hub_new_def)
  from streams_json_page[OF reach_finish[OF pair_run_reachable[of default_config]] pair_engine_plain index_new, where ps = ?ps and h = "hub_new [] []" and
      fmt_time = "\<lambda>_. []" and ve = plain_view and env = no_regex] w
  show ?thesis unfolding p by (simp add: g)
qed

section \<open>Names and uploads\<close>

lemma set_trim: "set (trim cs) \<subseteq> set cs"
  unfolding trim_def by (auto dest!: set_dropWhileD)

lemma sanitize_name_safe:
  "sanitize_name raw \<noteq> [] \<and> length (sanitize_name raw) \<le> 120 \<and>
   list_all (\<lambda>c. \<not> is_control c \<and> c \<noteq> 0x2F \<and> c \<noteq> 0x5C) (sanitize_name raw)"
proof -
  let ?base = "trim (rev (takeWhile (\<lambda>c. c \<noteq> 0x2F \<and> c \<noteq> 0x5C) (rev raw)))"
  have base: "c \<noteq> 0x2F \<and> c \<noteq> 0x5C" if "c \<in> set ?base" for c
  proof -
    have "c \<in> set (takeWhile (\<lambda>c. c \<noteq> 0x2F \<and> c \<noteq> 0x5C) (rev raw))" using that set_trim by (metis set_rev subsetD)
    from set_takeWhileD[OF this] show ?thesis by simp
  qed
  have "list_all (\<lambda>c. \<not> is_control c \<and> c \<noteq> 0x2F \<and> c \<noteq> 0x5C) (take 120 (filter (\<lambda>c. \<not> is_control c) ?base))"
    unfolding list_all_iff
  proof
    fix c assume "c \<in> set (take 120 (filter (\<lambda>c. \<not> is_control c) ?base))"
    then have "c \<in> set (filter (\<lambda>c. \<not> is_control c) ?base)" by (rule in_set_takeD)
    then show "\<not> is_control c \<and> c \<noteq> 0x2F \<and> c \<noteq> 0x5C" using base[of c] by simp
  qed
  moreover have "list_all (\<lambda>c. \<not> is_control c \<and> c \<noteq> 0x2F \<and> c \<noteq> 0x5C) (map of_char ''uploaded capture'')"
    by (simp add: is_control_def)
  ultimately show ?thesis unfolding sanitize_name_def Let_def by simp
qed

lemma capture_extension_append: "4 \<le> length bs \<Longrightarrow> capture_extension (bs @ cs) = capture_extension bs"
  by (simp add: capture_extension_def)

lemma read_head_ok:
  "read_head head body = Inr (ext, head', body') \<Longrightarrow>
    \<exists>chunks. body = map Inr chunks @ body' \<and> head' = head @ concat chunks \<and> capture_extension head' = Some ext \<and> 4 \<le> length head'"
proof (induction head body rule: read_head.induct)
  case (3 head chunk body)
  show ?case
  proof (cases "4 \<le> length (head @ chunk)")
    case True
    then show ?thesis using 3(2) by (auto simp: Let_def split: option.splits intro!: exI[of _ "[chunk]"])
  next
    case False
    from 3(1)[OF refl False] 3(2) False obtain chunks where "body = map Inr chunks @ body'" "head' = (head @ chunk) @ concat chunks"
      "capture_extension head' = Some ext" "4 \<le> length head'" by (auto simp: Let_def)
    then show ?thesis by (auto intro!: exI[of _ "chunk # chunks"])
  qed
qed auto

lemma spill_chunks_ok:
  "spill_chunks cap oks buf written body = Inr content \<Longrightarrow> written = length buf \<Longrightarrow> \<not> over_cap cap written \<Longrightarrow>
    \<exists>chunks. body = map Inr chunks \<and> content = buf @ concat chunks \<and> \<not> over_cap cap (length content)"
proof (induction cap oks buf written body rule: spill_chunks.induct)
  case (3 cap oks buf written chunk body)
  then obtain chunks where "body = map Inr chunks" "content = (buf @ chunk) @ concat chunks" "\<not> over_cap cap (length content)"
    by (auto simp: Let_def split: if_splits)
  then show ?case by (auto intro!: exI[of _ "chunk # chunks"])
qed (auto split: if_splits)

text \<open>C21. An upload is stored whole or not at all: if it is accepted, its body arrived unbroken, begins with the magic
  of a capture file and is within the cap, the file holds exactly its bytes, the hub served is the one the pipeline
  over that file was given, and of the other files only the previous upload is gone; if it is refused,
  no file is left or lost and the hub served is as before.\<close>

theorem upload_whole_or_nothing:
  assumes "upload spawner tmp pid oks ps body (st, fs) = (r, st', fs')" and "\<And>ext. fs (upload_path tmp pid st ext) = None"
  shows "case r of
      Inl _ \<Rightarrow> fs' = fs \<and> ws_hub st' = ws_hub st \<and> ws_last_upload st' = ws_last_upload st
    | Inr name \<Rightarrow> \<exists>chunks path. body = map Inr chunks \<and> capture_extension (concat chunks) \<noteq> None \<and>
        (ws_max_upload_bytes st = 0 \<or> length (concat chunks) \<le> unat (ws_max_upload_bytes st)) \<and>
        fs' = remove_opt (ws_last_upload st) (fs(path \<mapsto> concat chunks)) \<and> ws_last_upload st' = Some path \<and>
        spawner name path = Inr (ws_hub st')"
proof (cases r)
  case (Inl err)
  then show ?thesis using assms by (auto simp: upload_def Let_def fun_upd_idem split: if_splits sum.splits prod.splits)
next
  case (Inr name)
  obtain ext head body' content where
    h: "read_head [] body = Inr (ext, head, body')" and s: "spill_upload (ws_max_upload_bytes st) oks head body' = Inr content"
    and e: "spawner name (upload_path tmp pid st ext) = Inr (ws_hub st')" "ws_last_upload st' = Some (upload_path tmp pid st ext)"
      "fs' = remove_opt (ws_last_upload st) (fs(upload_path tmp pid st ext \<mapsto> content))"
    using assms(1) Inr by (auto simp: upload_def swap_hub_def Let_def split: if_splits sum.splits prod.splits)
  obtain cs where cs: "body = map Inr cs @ body'" "head = concat cs" "capture_extension head = Some ext" "4 \<le> length head"
    using read_head_ok[OF h] by auto
  have sp: "spill_chunks (ws_max_upload_bytes st) (tl (tl oks)) head (length head) body' = Inr content"
    "\<not> over_cap (ws_max_upload_bytes st) (length head)"
    using s by (auto simp: spill_upload_def split: if_splits)
  obtain ds where ds: "body' = map Inr ds" "content = head @ concat ds" "\<not> over_cap (ws_max_upload_bytes st) (length content)"
    using spill_chunks_ok[OF sp(1) refl sp(2)] by blast
  have "capture_extension content = Some ext" using cs(3,4) ds(2) by (simp add: capture_extension_append)
  moreover have "ws_max_upload_bytes st = 0 \<or> length content \<le> unat (ws_max_upload_bytes st)"
    using ds(3) by (auto simp: over_cap_def word_gt_0)
  ultimately show ?thesis unfolding Inr sum.case using cs(1,2) ds(1,2) e
    by (intro exI[of _ "cs @ ds"] exI[of _ "upload_path tmp pid st ext"]) simp
qed

theorem upload_whole_or_nothing_witness:
  "\<exists>st'. upload (\<lambda>_ _. Inr 1) ''/tmp'' ''9'' [] [] [Inr [0xa1, 0xb2], Inr [0xc3, 0xd4, 7]] (with_uploads 0 0, Map.empty) =
      (Inr (map of_char ''uploaded capture''), st', [''/tmp/pktflow-upload-9-0-0.pcap'' \<mapsto> [0xa1, 0xb2, 0xc3, 0xd4, 7]]) \<and>
    ws_last_upload st' \<noteq> None \<and> ws_hub st' = 1"
proof -
  have z: "show_nat 0 = ''0''" by code_simp
  have ext: "capture_extension [0xa1, 0xb2, 0xc3, 0xd4, 7] = Some ''pcap''" by (simp add: capture_extension_def)
  have cap: "unat DEFAULT_MAX_UPLOAD_BYTES = 8589934592" by (simp add: DEFAULT_MAX_UPLOAD_BYTES_def)
  have name: "sanitize_name [] = map of_char ''uploaded capture''" by (simp add: sanitize_name_def trim_def)
  obtain st' where u: "upload (\<lambda>_ _. Inr 1) ''/tmp'' ''9'' [] [] [Inr [0xa1, 0xb2], Inr [0xc3, 0xd4, 7]] (with_uploads 0 0, Map.empty) =
      (Inr (map of_char ''uploaded capture''), st', [''/tmp/pktflow-upload-9-0-0.pcap'' \<mapsto> [0xa1, 0xb2, 0xc3, 0xd4, 7]])"
    by (simp add: upload_def with_uploads_def web_state_new_def name ext Let_def spill_upload_def ok_now_def over_cap_def cap
        upload_path_def z remove_opt_def or_else_def)
  have "ws_last_upload st' \<noteq> None" "ws_hub st' = 1"
    using upload_whole_or_nothing[OF u refl, unfolded sum.case] by auto
  then show ?thesis using u by blast
qed

section \<open>The memoised index\<close>

text \<open>The memo holds a snapshot published at or after its generation.\<close>

definition published_since :: "hub_call list \<Rightarrow> u64 \<Rightarrow> aggregator_snapshot \<Rightarrow> bool" where
  "published_since calls g snap \<longleftrightarrow>
    (\<exists>k. unat g \<le> k \<and> k \<le> length (call_snaps calls) \<and> snap = (empty_snapshot # call_snaps calls) ! k)"

definition memo_ok :: "hub_call list \<Rightarrow> web_state \<Rightarrow> bool" where
  "memo_ok calls st \<longleftrightarrow> (case ws_index_memo st of None \<Rightarrow> True | Some (g, idx) \<Rightarrow> published_since calls g (si_snap idx))"

text \<open>Requests served from one hub: any handlers, answering with a status and a document, that work on the index they
  are given.\<close>

inductive served :: "hub \<Rightarrow> hub_call list \<Rightarrow> web_state \<Rightarrow> bool" for h calls where
  served_new: "ws_index_memo st = None \<Longrightarrow> served h calls st"
| served_request: "served h calls st \<Longrightarrow> n1 \<le> n2 \<Longrightarrow>
    with_index (\<lambda>_. hub_at h calls n1) (\<lambda>_. hub_at h calls n2) f st = Inr (doc :: nat \<times> json, st') \<Longrightarrow>
    (\<And>idx doc idx'. f idx = Inr (doc, idx') \<Longrightarrow> si_snap idx' = si_snap idx) \<Longrightarrow> served h calls st'"

lemma web_index_memo:
  assumes "memo_ok calls st" "n1 \<le> n2" "length (call_snaps calls) < 2 ^ 64"
    "web_index (\<lambda>_. hub_at (hub_new source mode) calls n1) (\<lambda>_. hub_at (hub_new source mode) calls n2) st = (idx, st')"
  shows "published_since calls (generation (hub_at (hub_new source mode) calls n1)) (si_snap idx) \<and>
    ws_index_memo st' = Some (generation (hub_at (hub_new source mode) calls n1), idx)"
proof -
  have "published_since calls (generation (hub_at (hub_new source mode) calls n1)) (latest (hub_at (hub_new source mode) calls n2))"
    using reader_index[OF assms(2,3), of source mode] by (simp add: published_since_def)
  then show ?thesis using assms(1,4) by (auto simp: web_index_def memo_ok_def Let_def split: option.splits if_splits)
qed

lemma served_memo:
  assumes "served (hub_new source mode) calls st" "length (call_snaps calls) < 2 ^ 64"
  shows "memo_ok calls st"
  using assms
proof (induction rule: served.induct)
  case (served_new st)
  then show ?case by (simp add: memo_ok_def)
next
  case (served_request st n1 n2 f doc st')
  obtain idx st1 where w: "web_index (\<lambda>_. hub_at (hub_new source mode) calls n1) (\<lambda>_. hub_at (hub_new source mode) calls n2) st = (idx, st1)"
    by fastforce
  note m = web_index_memo[OF served_request.IH[OF served_request.prems] served_request.hyps(2) served_request.prems w]
  obtain idx' where f: "f idx = Inr (doc, idx')" "st' = keep_index idx' st1"
    using served_request.hyps(3) w by (auto simp: with_index_def and_then_def split: sum.splits)
  then show ?case using m served_request.hyps(4)[OF f(1)] by (simp add: memo_ok_def keep_index_def)
qed

text \<open>C24. While one hub is served, no request is answered from an outdated snapshot: the index a handler gets is that of
  the publish whose generation the request saw, or of a later one, whichever requests filled the memo before.\<close>

theorem web_index_current:
  assumes "served (hub_new source mode) calls st" and "n1 \<le> n2" and "length (call_snaps calls) < 2 ^ 64"
  shows "\<exists>k. unat (generation (hub_at (hub_new source mode) calls n1)) \<le> k \<and> k \<le> length (call_snaps calls) \<and>
    si_snap (fst (web_index (\<lambda>_. hub_at (hub_new source mode) calls n1) (\<lambda>_. hub_at (hub_new source mode) calls n2) st)) =
      (empty_snapshot # call_snaps calls) ! k"
  using web_index_memo[OF served_memo[OF assms(1,3)] assms(2,3), of source mode] unfolding published_since_def by (metis prod.collapse)

theorem web_index_current_witness:
  "\<exists>k. unat (generation (hub_at (hub_new [] []) [Publish empty_snapshot] 2)) \<le> k \<and> k \<le> 1 \<and>
    si_snap (fst (web_index (\<lambda>_. hub_at (hub_new [] []) [Publish empty_snapshot] 2) (\<lambda>_. hub_at (hub_new [] []) [Publish empty_snapshot] 2)
      (web_state_new 0 0))) = [empty_snapshot, empty_snapshot] ! k"
proof -
  have s: "served (hub_new [] []) [Publish empty_snapshot] (web_state_new 0 0)" by (rule served_new) (simp add: web_state_new_def)
  show ?thesis using web_index_current[OF s le_refl] by (simp add: call_snaps_def map_filter_simps)
qed

text \<open>C40. The memo survives an upload and knows only the generation: when the hub of the uploaded capture has reached the
  generation of the last request before the upload, the server answers with the index of the capture before.\<close>

theorem upload_serves_old_capture:
  assumes "web_index hubs1 hubs2 st = (idx, st1)" and "upload spawner tmp pid oks ps body (st1, fs) = (Inr name, st2, fs2)"
    and "generation (hubs3 (ws_hub st2)) = generation (hubs1 (ws_hub st))"
  shows "fst (web_index hubs3 hubs4 st2) = idx"
proof -
  have "ws_index_memo st1 = Some (generation (hubs1 (ws_hub st)), idx)"
    using assms(1) by (auto simp: web_index_def Let_def split: option.splits if_splits)
  moreover have "ws_index_memo st2 = ws_index_memo st1"
    using assms(2) by (auto simp: upload_def swap_hub_def Let_def split: if_splits sum.splits prod.splits)
  ultimately show ?thesis using assms(3) by (simp add: web_index_def Let_def)
qed

definition demo_hubs :: "nat \<Rightarrow> hub" where
  "demo_hubs i = (hub_new [] [])\<lparr>hb_generation := 1, hb_snapshot := empty_snapshot\<lparr>sn_clock := int i\<rparr>\<rparr>"

theorem upload_serves_old_capture_witness:
  "\<exists>st2 fs2. upload (\<lambda>_ _. Inr 1) ''/tmp'' ''9'' [] [] [Inr [0xa1, 0xb2, 0xc3, 0xd4]]
      (snd (web_index demo_hubs demo_hubs (with_uploads 0 0)), Map.empty) = (Inr (map of_char ''uploaded capture''), st2, fs2) \<and>
    ws_hub st2 = 1 \<and> sn_clock (latest (demo_hubs 1)) = 1 \<and> sn_clock (si_snap (fst (web_index demo_hubs demo_hubs st2))) = 0"
proof -
  let ?st1 = "snd (web_index demo_hubs demo_hubs (with_uploads 0 0))"
  have w: "web_index demo_hubs demo_hubs (with_uploads 0 0) = (snapshot_index_new (latest (demo_hubs 0)), ?st1)"
    by (simp add: web_index_def with_uploads_def web_state_new_def Let_def)
  have st1: "ws_uploads ?st1" "ws_max_upload_bytes ?st1 = DEFAULT_MAX_UPLOAD_BYTES"
    by (simp_all add: web_index_def with_uploads_def web_state_new_def Let_def)
  have ext: "capture_extension [0xa1, 0xb2, 0xc3, 0xd4] = Some ''pcap''" by (simp add: capture_extension_def)
  have cap: "unat DEFAULT_MAX_UPLOAD_BYTES = 8589934592" by (simp add: DEFAULT_MAX_UPLOAD_BYTES_def)
  have name: "sanitize_name [] = map of_char ''uploaded capture''" by (simp add: sanitize_name_def trim_def)
  obtain st2 fs2 where u: "upload (\<lambda>_ _. Inr 1) ''/tmp'' ''9'' [] [] [Inr [0xa1, 0xb2, 0xc3, 0xd4]] (?st1, Map.empty) =
      (Inr (map of_char ''uploaded capture''), st2, fs2)" "ws_hub st2 = 1"
    by (simp add: upload_def name ext st1 Let_def spill_upload_def ok_now_def over_cap_def cap or_else_def swap_hub_def)
  have g: "generation (demo_hubs (ws_hub st2)) = generation (demo_hubs (ws_hub (with_uploads 0 0)))"
    by (simp add: demo_hubs_def generation_def)
  have "fst (web_index demo_hubs demo_hubs st2) = snapshot_index_new (latest (demo_hubs 0))"
    by (rule upload_serves_old_capture, rule w, rule u(1), rule g)
  then show ?thesis using u by (simp add: demo_hubs_def latest_def)
qed

end
