(* ===== verification/Cli_Views.thy ===== *)
theory Cli_Views
  imports Stream_Tree Pipeline Web
begin

text \<open>
  \<open>pktflow-cli/src/views.rs\<close> and \<open>summary.rs\<close>: the text and JSON views of the command line over a snapshot or
  a packet. Text is a list of UTF-8 bytes, a column's width counts characters. \<open>human_bytes\<close> (decimal rendering of
  a float) is the parameter \<open>hb\<close>, as are the renderings of the elapsed time and the rate. The tree is collected
  as streams with their prefixes before the rows are formatted, with fuel one above the number of streams; the
  properties show the fuel is enough.
\<close>

section \<open>Columns\<close>

definition is_continuation :: "char \<Rightarrow> bool" where
  "is_continuation c \<longleftrightarrow> code c div 64 = 2"

text \<open>\<open>chars().count()\<close>, and padding to a width with \<open>{:>w$}\<close> and \<open>{:<w$}\<close>.\<close>

definition char_count :: "string \<Rightarrow> nat" where
  "char_count s = length (filter (\<lambda>c. \<not> is_continuation c) s)"

definition pad_left :: "nat \<Rightarrow> string \<Rightarrow> string" where
  "pad_left w s = replicate (w - char_count s) (CHR '' '') @ s"

definition pad_right :: "nat \<Rightarrow> string \<Rightarrow> string" where
  "pad_right w s = s @ replicate (w - char_count s) (CHR '' '')"

definition widest :: "nat \<Rightarrow> string list \<Rightarrow> nat" where
  "widest least ss = fold max (map char_count ss) least"

definition newline :: string where "newline = [CHR 0x0A]"
definition em_dash :: string where "em_dash = [CHR 0xE2, CHR 0x80, CHR 0x94]"
definition middot :: string where "middot = [CHR 0x20, CHR 0xC2, CHR 0xB7, CHR 0x20]"
definition at_least :: string where "at_least = [CHR 0xE2, CHR 0x89, CHR 0xA5]"
definition right_arrow :: string where "right_arrow = [CHR 0x20, CHR 0xE2, CHR 0x86, CHR 0x92, CHR 0x20]"
definition up_mark :: string where "up_mark = [CHR 0xE2, CHR 0x96, CHR 0xB2]"
definition down_mark :: string where "down_mark = [CHR 0xE2, CHR 0x96, CHR 0xBC]"

definition show_u64 :: "u64 \<Rightarrow> string" where
  "show_u64 n = show_nat (unat n)"

section \<open>Rows\<close>

datatype sort_order = OrderBytes | OrderPackets | OrderFirstSeen | OrderDuration

definition cli_sort_siblings :: "sort_order \<Rightarrow> stream list \<Rightarrow> stream list" where
  "cli_sort_siblings srt ss =
    (case srt of
       OrderBytes \<Rightarrow> List.sort_key (\<lambda>s. - int (unat (total_bytes s))) ss
     | OrderPackets \<Rightarrow> List.sort_key (\<lambda>s. - int (unat (total_packets s))) ss
     | OrderFirstSeen \<Rightarrow> List.sort_key st_created_seq ss
     | OrderDuration \<Rightarrow> List.sort_key (\<lambda>s. - int (nat (st_last_seen s - st_first_seen s))) ss)"

record cli_row =
  cr_label :: string
  cr_pkts :: string
  cr_bytes :: string
  cr_tail :: string

definition state_tag :: "stream \<Rightarrow> string" where
  "state_tag s = (case st_state s of Some t \<Rightarrow> ''   ['' @ t @ '']'' | None \<Rightarrow> [])"

definition stream_row :: "(u64 \<Rightarrow> string) \<Rightarrow> string \<Rightarrow> stream \<Rightarrow> bool \<Rightarrow> cli_row" where
  "stream_row hb pre s first_seen_col =
    (let endpoints = endpoints_str s in
     \<lparr>cr_label = pre @ st_protocol s @ '' #'' @ show_u64 (st_created_seq s) @
        (if endpoints \<noteq> [] then ''  '' @ endpoints else []) @
        (case condensed_marker s of Some marker \<Rightarrow> ''  '' @ marker | None \<Rightarrow> []) @ state_tag s,
      cr_pkts = thousands (total_packets s) @ '' pkts'',
      cr_bytes = hb (total_bytes s),
      cr_tail = human_duration (nat (st_last_seen s - st_first_seen s)) @
        (if contains endpoints [CHR 0xE2, CHR 0x86, CHR 0x94]
         then ''   '' @ up_mark @ thousands (ds_packets (st_stats s ! 0)) @ ''/'' @ down_mark @ thousands (ds_packets (st_stats s ! 1)) else []) @
        (if first_seen_col then ''   first '' @ time_of_day (st_first_seen s) else [])\<rparr>)"

definition render_rows :: "cli_row list \<Rightarrow> string" where
  "render_rows rows =
    (let label_w = widest 0 (map cr_label rows); pkts_w = widest 0 (map cr_pkts rows); bytes_w = widest 0 (map cr_bytes rows) in
     concat (map (\<lambda>r. pad_right label_w (cr_label r) @ ''   '' @ pad_left pkts_w (cr_pkts r) @ ''   '' @
       pad_left bytes_w (cr_bytes r) @ ''   '' @ cr_tail r @ newline) rows))"

section \<open>The tree, the flat table and the merged table\<close>

definition kept_siblings :: "sort_order \<Rightarrow> u64 set option \<Rightarrow> id_map \<Rightarrow> stream_id list \<Rightarrow> stream list" where
  "kept_siblings srt keep ids hs = cli_sort_siblings srt (filter (kept keep) (List.map_filter (hm_get ids) hs))"

fun collect_subtree :: "nat \<Rightarrow> id_map \<Rightarrow> sort_order \<Rightarrow> u64 set option \<Rightarrow> string \<Rightarrow> stream \<Rightarrow> (string \<times> stream) list" where
  "collect_subtree 0 ids srt keep pre s = []"
| "collect_subtree (Suc n) ids srt keep pre s =
    (let kids = kept_siblings srt keep ids (st_children s); bare = bare_prefix pre in
     (pre, s) # concat (map (\<lambda>(i, c). collect_subtree n ids srt keep (bare @ (if i + 1 = length kids then last_glyph else branch_glyph)) c)
       (enumerate 0 kids)))"

definition tree_streams :: "view_env \<Rightarrow> 'r regex_env \<Rightarrow> aggregator_snapshot \<Rightarrow> sort_order \<Rightarrow> 'r expr option \<Rightarrow> (string \<times> stream) list" where
  "tree_streams ve env snap srt query =
    (let ids = by_id snap; keep = map_option (matching_with_ancestors ve env (sn_streams snap) ids) query in
     concat (map (collect_subtree (Suc (length ids)) ids srt keep []) (kept_siblings srt keep ids (sn_roots snap))))"

definition streams_tree :: "(u64 \<Rightarrow> string) \<Rightarrow> view_env \<Rightarrow> 'r regex_env \<Rightarrow> aggregator_snapshot \<Rightarrow> sort_order \<Rightarrow> 'r expr option \<Rightarrow> string" where
  "streams_tree hb ve env snap srt query =
    render_rows (map (\<lambda>(pre, s). stream_row hb pre s False) (tree_streams ve env snap srt query))"

definition selects :: "view_env \<Rightarrow> 'r regex_env \<Rightarrow> id_map \<Rightarrow> 'r expr option \<Rightarrow> stream \<Rightarrow> bool" where
  "selects ve env ids query s = (case query of Some q \<Rightarrow> eval ve env q s ids | None \<Rightarrow> True)"

definition layer_streams :: "view_env \<Rightarrow> 'r regex_env \<Rightarrow> aggregator_snapshot \<Rightarrow> string \<Rightarrow> 'r expr option \<Rightarrow> stream list" where
  "layer_streams ve env snap protocol query =
    filter (selects ve env (by_id snap) query) (filter (\<lambda>s. st_protocol s = protocol) (sn_streams snap))"

definition streams_flat :: "(u64 \<Rightarrow> string) \<Rightarrow> view_env \<Rightarrow> 'r regex_env \<Rightarrow> aggregator_snapshot \<Rightarrow> string \<Rightarrow> 'r expr option \<Rightarrow> string" where
  "streams_flat hb ve env snap protocol query =
    render_rows (map (\<lambda>s. stream_row hb [] s True) (layer_streams ve env snap protocol query))"

text \<open>The re-fold by key: the keys in order of their first stream, and the streams of each.\<close>

definition fold_by_key :: "stream \<Rightarrow> flow_key list \<times> (flow_key, stream list) hmap \<Rightarrow> flow_key list \<times> (flow_key, stream list) hmap" where
  "fold_by_key s = (\<lambda>(keys, groups).
    let slot = (case hm_get groups (st_key s) of Some ss \<Rightarrow> ss | None \<Rightarrow> []) in
    (if slot = [] then keys @ [st_key s] else keys, hm_set (st_key s) (slot @ [s]) groups))"

definition merged_row :: "(u64 \<Rightarrow> string) \<Rightarrow> stream list \<Rightarrow> cli_row" where
  "merged_row hb nodes =
    (let first = hd nodes; endpoints = endpoints_str first in
     \<lparr>cr_label = st_protocol first @ (if endpoints \<noteq> [] then ''  '' @ endpoints else []),
      cr_pkts = thousands (sum_list (map total_packets nodes)) @ '' pkts'',
      cr_bytes = hb (sum_list (map total_bytes nodes)),
      cr_tail = ''nodes '' @ join '','' (map (\<lambda>s. ''#'' @ show_u64 (st_created_seq s)) nodes)\<rparr>)"

definition streams_merged :: "(u64 \<Rightarrow> string) \<Rightarrow> view_env \<Rightarrow> 'r regex_env \<Rightarrow> aggregator_snapshot \<Rightarrow> string \<Rightarrow> 'r expr option \<Rightarrow> string" where
  "streams_merged hb ve env snap protocol query =
    (case fold fold_by_key (layer_streams ve env snap protocol query) ([], []) of
       (keys, groups) \<Rightarrow> render_rows (map (\<lambda>k. merged_row hb (case hm_get groups k of Some ss \<Rightarrow> ss | None \<Rightarrow> [])) keys))"

section \<open>The live frame\<close>

definition WATCH_CLEAR :: string where "WATCH_CLEAR = CHR 0x1B # ''[2J'' @ CHR 0x1B # ''[H''"
definition WATCH_MAX_ROWS :: nat where "WATCH_MAX_ROWS = 40"

text \<open>\<open>str::lines\<close>: the lines without their ends, a carriage return before the newline belonging to the end.\<close>

definition strip_cr :: "string \<Rightarrow> string" where
  "strip_cr l = (if l \<noteq> [] \<and> last l = CHR 0x0D then butlast l else l)"

fun str_lines :: "string \<Rightarrow> string \<Rightarrow> string list" where
  "str_lines acc [] = (if acc = [] then [] else [acc])"
| "str_lines acc (c # cs) = (if c = CHR 0x0A then strip_cr acc # str_lines [] cs else str_lines (acc @ [c]) cs)"

definition watch_body :: "string list \<Rightarrow> string" where
  "watch_body ls =
    concat (map (\<lambda>l. l @ newline) (take WATCH_MAX_ROWS ls)) @
    (if WATCH_MAX_ROWS < length ls then ellipsis @ '' and '' @ show_nat (length ls - WATCH_MAX_ROWS) @ '' more'' @ newline else [])"

definition watch_frame :: "(u64 \<Rightarrow> string) \<Rightarrow> view_env \<Rightarrow> 'r regex_env \<Rightarrow> aggregator_snapshot \<Rightarrow> sort_order \<Rightarrow> string \<Rightarrow> 'r expr option \<Rightarrow> string" where
  "watch_frame hb ve env snap srt source query =
    WATCH_CLEAR @ watch_body (str_lines [] (streams_tree hb ve env snap srt query)) @ newline @ ''watching '' @ source @ '' '' @ em_dash @
      '' packets '' @ thousands (sm_packets (sn_summary snap)) @ middot @ ''streams live '' @ show_u64 (sm_streams_live (sn_summary snap)) @ newline"

section \<open>Selecting a stream\<close>

definition ancestor_values :: "stream \<Rightarrow> id_map \<Rightarrow> string list" where
  "ancestor_values s ids = concat (map (\<lambda>p. case endpoint_sides p of (a, b, _) \<Rightarrow> [a, b]) (ancestors ids s))"

definition strip_colon :: "string \<Rightarrow> string" where
  "strip_colon t = (case strip_prefix t '':'' of Some r \<Rightarrow> r | None \<Rightarrow> t)"

definition rsplit_colon :: "string \<Rightarrow> (string \<times> string) option" where
  "rsplit_colon t =
    (if CHR '':'' \<in> set t
     then Some (rev (tl (dropWhile (\<lambda>c. c \<noteq> CHR '':'') (rev t))), rev (takeWhile (\<lambda>c. c \<noteq> CHR '':'') (rev t))) else None)"

definition token_matches :: "string \<Rightarrow> string \<Rightarrow> string list \<Rightarrow> bool" where
  "token_matches token side ancs =
    (strip_colon token = strip_colon side \<or>
     (case rsplit_colon (strip_colon token) of
        Some (addr, port) \<Rightarrow> port = strip_colon side \<and> addr \<in> set ancs
      | None \<Rightarrow> False))"

definition key_matches :: "id_map \<Rightarrow> string \<Rightarrow> string \<Rightarrow> stream \<Rightarrow> bool" where
  "key_matches ids ep1 ep2 s =
    (case endpoint_sides s of (a, b, _) \<Rightarrow>
     let ancs = ancestor_values s ids in
     token_matches ep1 a ancs \<and> token_matches ep2 b ancs \<or> token_matches ep1 b ancs \<and> token_matches ep2 a ancs)"

text \<open>\<open>split_whitespace\<close>: the length of the white space character a text begins with, and the words between.\<close>

definition space_bytes :: "nat list \<Rightarrow> nat" where
  "space_bytes s =
    (if s \<noteq> [] \<and> hd s \<in> {9, 10, 11, 12, 13, 32} then 1
     else if take 2 s \<in> {[0xC2, 0x85], [0xC2, 0xA0]} then 2
     else if take 3 s \<in> {[0xE1, 0x9A, 0x80], [0xE2, 0x80, 0xA8], [0xE2, 0x80, 0xA9], [0xE2, 0x80, 0xAF], [0xE2, 0x81, 0x9F], [0xE3, 0x80, 0x80]} \<or>
        take 2 s = [0xE2, 0x80] \<and> 2 < length s \<and> 0x80 \<le> s ! 2 \<and> s ! 2 \<le> 0x8A then 3
     else 0)"

function split_words :: "string \<Rightarrow> string \<Rightarrow> string list" where
  "split_words acc s =
    (if s = [] then (if acc = [] then [] else [acc])
     else case space_bytes (map code s) of
       0 \<Rightarrow> split_words (acc @ [hd s]) (tl s)
     | Suc k \<Rightarrow> (if acc = [] then [] else [acc]) @ split_words [] (drop (Suc k) s))"
  by auto
termination by (relation "measure (\<lambda>(acc, s). length s)") auto

declare split_words.simps [simp del]

definition resolve_selector :: "aggregator_snapshot \<Rightarrow> string \<Rightarrow> cli_error + stream" where
  "resolve_selector snap selector =
    (case strip_prefix selector ''#'' of
       Some n \<Rightarrow>
        (case parse_unsigned n of
           None \<Rightarrow> Inl (Usage (BadSelectorId selector))
         | Some seq \<Rightarrow>
            (case List.find (\<lambda>s. st_created_seq s = of_nat seq) (sn_streams snap) of
               Some s \<Rightarrow> Inr s
             | None \<Rightarrow> Inl (NotFound (NoStream (of_nat seq)))))
     | None \<Rightarrow>
        (case split_words [] selector of
           [proto, ep1, ep2] \<Rightarrow>
            (let ids = by_id snap;
                 candidates = filter (key_matches ids ep1 ep2) (filter (\<lambda>s. st_protocol s = proto) (sn_streams snap)) in
             case candidates of
               [] \<Rightarrow> Inl (NotFound (NoMatch proto ep1 ep2))
             | [one] \<Rightarrow> Inr one
             | many \<Rightarrow> Inl (NotFound (Ambiguous selector (map (\<lambda>s. ''#'' @ show_u64 (st_created_seq s) @ ''  '' @ st_protocol s @ '' '' @
                 endpoints_str s @ ''  (under '' @ lineage_str s ids @ '')'') many))))
         | _ \<Rightarrow> Inl (Usage (BadSelector selector))))"

section \<open>The detail of a stream\<close>

definition SERIES_ELISION :: nat where "SERIES_ELISION = 20"

definition series_text :: "view_env \<Rightarrow> system_time \<Rightarrow> string \<Rightarrow> string \<Rightarrow> series_point \<Rightarrow> string" where
  "series_text ve base protocol field p =
    time_of_day (sp_ts p base) @ '' '' @ (case sp_dir p of AtoB \<Rightarrow> up_mark | BtoA \<Rightarrow> down_mark) @ '' '' @
      field_value_str ve protocol field (sp_value p)"

definition elide :: "bool \<Rightarrow> 'a list \<Rightarrow> ('a \<Rightarrow> string) \<Rightarrow> string list" where
  "elide full ring f =
    (if full \<or> length ring \<le> SERIES_ELISION then map f ring
     else map f (take (SERIES_ELISION div 2) ring) @ [ellipsis @ '' '' @ show_nat (length ring - SERIES_ELISION) @ '' elided '' @ ellipsis] @
       map f (drop (length ring - SERIES_ELISION div 2) ring))"

definition rollup_line :: "view_env \<Rightarrow> system_time \<Rightarrow> string \<Rightarrow> string \<Rightarrow> rollup \<Rightarrow> bool \<Rightarrow> string" where
  "rollup_line ve base protocol field r full_series =
    (case r of
       RAccumulate vs n overflow \<Rightarrow>
        ''  '' @ field @ ''   {'' @ join '', '' (map (field_value_str ve protocol field) vs) @ ''}   (accumulate, '' @
          show_nat (length vs) @ '' distinct / '' @ thousands n @ '' obs'' @
          (if overflow then '', '' @ at_least @ show_nat (length vs) @ '' values'' else []) @ '')'' @ newline
     | RSample fst_v lst_v \<Rightarrow>
        (let render = (\<lambda>v. case v of Some x \<Rightarrow> field_value_str ve protocol field x | None \<Rightarrow> em_dash) in
         ''  '' @ field @ ''   '' @ render fst_v @ right_arrow @ render lst_v @ ''   (sample, first'' @ right_arrow @ ''last)'' @ newline)
     | RSeries ring _ truncated \<Rightarrow>
        ''  '' @ field @ ''   series: '' @ join middot (elide full_series ring (series_text ve base protocol field)) @
          (if truncated then ''   (truncated)'' else []) @ newline)"

definition totals_line :: "(u64 \<Rightarrow> string) \<Rightarrow> stream \<Rightarrow> string" where
  "totals_line hb s =
    (let part = (\<lambda>p b. thousands p @ '' pkts / '' @ hb b); a = st_stats s ! 0; b = st_stats s ! 1;
         to = [CHR 0xE2, CHR 0x86, CHR 0x92] in
     ''totals    '' @ part (total_packets s) (total_bytes s) @ ''    A'' @ to @ ''B '' @ part (ds_packets a) (ds_bytes a) @
       ''    B'' @ to @ ''A '' @ part (ds_packets b) (ds_bytes b) @ newline)"

definition initiator_line :: "stream \<Rightarrow> string" where
  "initiator_line s =
    (case endpoint_sides s of (a, b, _) \<Rightarrow>
     if a = [] then []
     else ''initiator '' @ (case st_initiator s of AtoB \<Rightarrow> ''A ('' @ a | BtoA \<Rightarrow> ''B ('' @ b) @ '')'' @ newline)"

definition detail_text :: "(u64 \<Rightarrow> string) \<Rightarrow> view_env \<Rightarrow> id_map \<Rightarrow> bool \<Rightarrow> stream \<Rightarrow> string" where
  "detail_text hb ve ids full_series s =
    (let endpoints = endpoints_str s; lineage = lineage_str s ids;
         kids = map (\<lambda>c. child_chain_str c ids) (List.map_filter (hm_get ids) (st_children s)) in
     st_protocol s @ '' #'' @ show_u64 (st_created_seq s) @ (if endpoints \<noteq> [] then ''   '' @ endpoints else []) @ state_tag s @ newline @
     (if lineage \<noteq> [] then ''lineage   '' @ lineage @ pointer @ ''this'' @ newline else []) @
     ''timing    first '' @ time_of_day (st_first_seen s) @ ''  last '' @ time_of_day (st_last_seen s) @ ''  duration '' @
       human_duration (nat (st_last_seen s - st_first_seen s)) @ newline @
     totals_line hb s @ initiator_line s @
     (case st_state s of
        Some t \<Rightarrow> ''state     '' @ t @ ''   (closed: '' @ (case st_closed s of Some r \<Rightarrow> close_reason_str r | None \<Rightarrow> em_dash) @ '')'' @ newline
      | None \<Rightarrow> []) @
     (if 0 < st_opaque_bytes s
      then ''opaque    '' @ thousands (st_opaque_bytes s) @ '' payload bytes beyond last parsed layer'' @ newline else []) @
     (if st_rollups s \<noteq> []
      then ''rollups'' @ newline @
        concat (map (\<lambda>(field, r). rollup_line ve (st_first_seen s) (st_protocol s) field r full_series) (st_rollups s)) else []) @
     (if kids \<noteq> [] then ''children  '' @ join '', '' kids @ newline else []))"

definition stream_detail_text :: "(u64 \<Rightarrow> string) \<Rightarrow> view_env \<Rightarrow> aggregator_snapshot \<Rightarrow> string \<Rightarrow> bool \<Rightarrow> cli_error + string" where
  "stream_detail_text hb ve snap selector full_series =
    and_then (resolve_selector snap selector) (\<lambda>s. Inr (detail_text hb ve (by_id snap) full_series s))"

section \<open>Packets\<close>

definition HEADLINE_FIELDS :: "(string \<times> string) list" where
  "HEADLINE_FIELDS = [(''dns'', ''qname''), (''arp'', ''opcode''), (''tcp'', ''flags''), (''icmpv4'', ''type''), (''dhcp'', ''msg_type''),
     (''igmp'', ''type''), (''ntp'', ''mode'')]"

definition layer_headline :: "view_env \<Rightarrow> layer_record \<Rightarrow> string option" where
  "layer_headline ve l =
    map_option (\<lambda>(_, field). field @ ''='' @ field_value_str ve (lr_protocol l) field (the (fm_get (lr_fields l) field)))
      (List.find (\<lambda>(proto, field). lr_protocol l = proto \<and> fm_get (lr_fields l) field \<noteq> None) HEADLINE_FIELDS)"

definition headline_str :: "view_env \<Rightarrow> dissected_packet \<Rightarrow> string option" where
  "headline_str ve pkt =
    (case List.map_filter (layer_headline ve) (rev (dp_layers pkt)) of [] \<Rightarrow> None | h # _ \<Rightarrow> Some h)"

definition pair_of :: "layer_record \<Rightarrow> string \<Rightarrow> string \<Rightarrow> (string \<times> string) option" where
  "pair_of l src dst =
    (case (fm_get (lr_fields l) src, fm_get (lr_fields l) dst) of
       (Some s, Some d) \<Rightarrow> Some (value_str src s, value_str dst d)
     | _ \<Rightarrow> None)"

type_synonym pair_opt = "(string \<times> string) option"

definition add_endpoints :: "layer_record \<Rightarrow> pair_opt \<times> pair_opt \<times> pair_opt \<Rightarrow> pair_opt \<times> pair_opt \<times> pair_opt" where
  "add_endpoints l = (\<lambda>(addrs, ports, macs).
    let (addrs, ports) = (case pair_of l ''src_addr'' ''dst_addr'' of Some p \<Rightarrow> (Some p, None) | None \<Rightarrow> (addrs, ports));
        ports = (case pair_of l ''src_port'' ''dst_port'' of Some p \<Rightarrow> Some p | None \<Rightarrow> ports);
        macs = (case pair_of l ''src_mac'' ''dst_mac'' of Some p \<Rightarrow> Some p | None \<Rightarrow> macs)
    in (addrs, ports, macs))"

definition packet_endpoints_str :: "dissected_packet \<Rightarrow> string option" where
  "packet_endpoints_str pkt =
    (case fold add_endpoints (dp_layers pkt) (None, None, None) of
       (Some (sa, da), Some (sp, dp), _) \<Rightarrow> Some (sa @ '':'' @ sp @ right_arrow @ da @ '':'' @ dp)
     | (Some (sa, da), None, _) \<Rightarrow> Some (sa @ right_arrow @ da)
     | (None, Some (sp, dp), _) \<Rightarrow> Some ('':'' @ sp @ right_arrow @ '':'' @ dp)
     | (None, None, Some (sm, dm)) \<Rightarrow> Some (sm @ right_arrow @ dm)
     | (None, None, None) \<Rightarrow> None)"

fun stop_str :: "stop_reason \<Rightarrow> string" where
  "stop_str Complete = ''complete''"
| "stop_str StopTerminal = ''terminal''"
| "stop_str (UnclaimedRoute i) = ''unclaimed: '' @ show_route i"
| "stop_str UnknownHint = ''unknown''"
| "stop_str (StopTruncated needed have_len) = ''truncated: needed '' @ show_nat (unat needed) @ '', have '' @ show_nat (unat have_len)"
| "stop_str PluginError = ''plugin-error''"
| "stop_str DepthCap = ''depth-cap''"

definition packet_line :: "(u64 \<Rightarrow> string) \<Rightarrow> view_env \<Rightarrow> u64 \<Rightarrow> dissected_packet \<Rightarrow> string" where
  "packet_line hb ve i pkt =
    show_u64 i @ ''  '' @ time_of_day (timestamp (dp_meta pkt)) @ ''  '' @ join pointer (map lr_protocol (dp_layers pkt)) @
    (case packet_endpoints_str pkt of Some e \<Rightarrow> ''  '' @ e | None \<Rightarrow> []) @
    (case headline_str ve pkt of Some h \<Rightarrow> ''  '' @ h | None \<Rightarrow> []) @
    ''  '' @ hb (of_nat (caplen (dp_meta pkt))) @ ''  ['' @ stop_str (dp_stop pkt) @ '']''"

definition layer_block :: "view_env \<Rightarrow> u8 \<Rightarrow> bool list \<Rightarrow> nat \<times> layer_record \<Rightarrow> string" where
  "layer_block ve verbosity heuristic = (\<lambda>(i, l).
    ''    '' @ lr_protocol l @ '' @'' @ show_nat (lr_offset l) @ '' hdr '' @ show_nat (lr_header_len l) @
    (if 2 \<le> verbosity \<and> i < length heuristic \<and> heuristic ! i then ''  (via heuristic)'' else []) @
    (if lr_fields l \<noteq> []
     then '': '' @ join '' '' (map (\<lambda>(name, v). name @ ''='' @ field_value_str ve (lr_protocol l) name v) (lr_fields l)) else []) @ newline)"

definition packet_block :: "(u64 \<Rightarrow> string) \<Rightarrow> view_env \<Rightarrow> u64 \<Rightarrow> dissected_packet \<Rightarrow> u8 \<Rightarrow> byte list \<Rightarrow> bool list \<Rightarrow> string" where
  "packet_block hb ve i pkt verbosity tail_sample heuristic =
    packet_line hb ve i pkt @ newline @
    (if verbosity = 0 then []
     else concat (map (layer_block ve verbosity heuristic) (enumerate 0 (dp_layers pkt))) @
       (if 2 \<le> verbosity \<and> 0 < dp_opaque_len pkt
        then ''    payload ('' @ show_nat (length tail_sample) @ '' of '' @ show_nat (dp_opaque_len pkt) @ '' unparsed bytes): '' @
          join '' '' (map hex2 tail_sample) @ newline else []))"

definition packet_json :: "u64 \<Rightarrow> dissected_packet \<Rightarrow> json" where
  "packet_json i pkt = JMap
    [(''index'', JU64 i), (''layers'', JSeq (map (\<lambda>l. JStr (lr_protocol l)) (dp_layers pkt))), (''stop'', JStr (stop_str (dp_stop pkt))),
     (''stop_class'', JStr (stop_class_key (stop_class_of (dp_stop pkt)))), (''caplen'', JU64 (of_nat (caplen (dp_meta pkt)))),
     (''opaque_len'', JU64 (of_nat (dp_opaque_len pkt)))]"

section \<open>Documents and summaries\<close>

definition cli_summary_json :: "run_outcome \<Rightarrow> aggregator_snapshot \<Rightarrow> json_map" where
  "cli_summary_json outcome snap =
    (let s = sn_summary snap; st = pr_stats (ro_report outcome) in
     [(''packets'', JU64 (sm_packets s)), (''bytes'', JU64 (sm_bytes s)),
      (''stop_classes'', JMap (fold (\<lambda>(c, n). if 0 < n then hm_set (stop_class_key c) (JU64 n) else id) (sm_stop_classes s) [])),
      (''streams'', JMap (fold (\<lambda>p. hm_set (pc_protocol p) (JU64 (pc_ever p))) (sm_per_protocol s) []))] @
     (if 0 < sm_flows_condensed s then [(''flows_condensed'', JU64 (sm_flows_condensed s))] else []) @
     [(''capture_drops'', JU64 (cs_dropped_kernel st + cs_dropped_iface st))])"

definition json_envelope :: "view_env \<Rightarrow> 'r regex_env \<Rightarrow> (system_time \<Rightarrow> string) \<Rightarrow> string \<Rightarrow> string \<Rightarrow> run_outcome \<Rightarrow> 'r expr option \<Rightarrow> json" where
  "json_envelope ve env rfc3339 mode source outcome query = JMap
    ([(''pktflow'', JU64 1), (''mode'', JStr mode), (''source'', JStr source)] @
     (case ro_snapshot outcome of
        Some snap \<Rightarrow>
         (let ids = by_id snap in
          [(''summary'', JMap (cli_summary_json outcome snap)),
           (''streams'', JSeq (map (\<lambda>s. JMap (stream_record ve rfc3339 (\<lambda>h. map_option st_created_seq (hm_get ids h)) s))
              (filter (selects ve env ids query) (sn_streams snap))))])
      | None \<Rightarrow> []))"

fun stop_class_label :: "stop_class \<Rightarrow> string" where
  "stop_class_label Clean = ''clean''"
| "stop_class_label UnknownPayload = ''unknown-payload''"
| "stop_class_label MalformedClass = ''malformed''"
| "stop_class_label Suspicious = ''suspicious''"

definition stops_line :: "aggregate_summary \<Rightarrow> string" where
  "stops_line s =
    (let parts = map (\<lambda>(c, n). stop_class_label c @ '' '' @ thousands n) (filter (\<lambda>(c, n). 0 < n) (sm_stop_classes s)) in
     if parts = [] then [] else ''stops     '' @ join middot parts @ newline)"

definition streams_line :: "aggregate_summary \<Rightarrow> string" where
  "streams_line s =
    (if sm_per_protocol s = [] then []
     else ''streams   '' @ join middot (map (\<lambda>p. pc_protocol p @ '' '' @ show_u64 (pc_ever p) @ ''/'' @ show_u64 (pc_live p)) (sm_per_protocol s)) @
       ''   (ever/live)'' @ (if 0 < sm_flows_condensed s then ''  '' @ middot @ thousands (sm_flows_condensed s) @ '' flows condensed (D16)'' else []) @ newline)"

definition summary_render :: "(u64 \<Rightarrow> string) \<Rightarrow> string \<Rightarrow> string \<Rightarrow> run_outcome \<Rightarrow> string" where
  "summary_render hb secs rate outcome =
    (let r = ro_report outcome; st = pr_stats r in
     ''processed '' @ thousands (pr_packets r) @ '' packets'' @ middot @ hb (pr_bytes r) @ '' in '' @ secs @ '' s ('' @ rate @ '' pkts/s)'' @ newline @
     (if 0 < pr_regressed r then ''timestamps out of order: '' @ thousands (pr_regressed r) @ newline else []) @
     (case ro_snapshot outcome of Some snap \<Rightarrow> stops_line (sn_summary snap) @ streams_line (sn_summary snap) | None \<Rightarrow> []) @
     (if 0 < cs_dropped_kernel st + cs_dropped_iface st
      then ''!! capture drops: '' @ thousands (cs_dropped_kernel st) @ '' kernel, '' @ thousands (cs_dropped_iface st) @ '' interface '' @ em_dash @
        '' stream stats may be incomplete'' @ newline else []))"

definition ifaces_text :: "interface_info list \<Rightarrow> string" where
  "ifaces_text ifs =
    concat (map (\<lambda>i. if_name i @ ''  ['' @ join '','' ((if if_up i then [''up''] else []) @ (if if_loopback i then [''loopback''] else [])) @
      '']  '' @ join '' '' (if_addrs i) @ ''  '' @ (case if_description i of Some d \<Rightarrow> d | None \<Rightarrow> []) @ newline) ifs)"

definition ifaces_json :: "interface_info list \<Rightarrow> json" where
  "ifaces_json ifs = JSeq (map (\<lambda>i. JMap
    [(''name'', JStr (if_name i)), (''description'', json_opt JStr (if_description i)), (''addrs'', JSeq (map JStr (if_addrs i))),
     (''up'', JBool (if_up i)), (''loopback'', JBool (if_loopback i))]) ifs)"

end
