(* ===== verification/Cli_Unknown.thy ===== *)
theory Cli_Unknown
  imports Cli_Views
begin

text \<open>
  \<open>pktflow-cli/src/unknown_view.rs\<close> and \<open>scaffold.rs\<close>: the lens on unknown payloads, its table, the detail of a
  group, the export of retained samples and the scaffolding of a plugin from one. The file system is a map from
  paths to contents with an oracle for the operations that fail; the pretty printer of \<open>serde_json\<close>, the debug
  rendering of a string and Unicode upper-casing are parameters.
\<close>

section \<open>The table\<close>

definition TABLE_NEAR_MISS_CAP :: nat where "TABLE_NEAR_MISS_CAP = 3"

definition context_str :: "unknown_key \<Rightarrow> string" where
  "context_str k = (case uk_route k of Some r \<Rightarrow> uk_predecessor k @ right_arrow @ show_route r | None \<Rightarrow> uk_predecessor k)"

definition kind_str :: "unknown_key \<Rightarrow> string" where
  "kind_str k = (if uk_route k \<noteq> None then ''unclaimed route'' else ''no heuristic winner'')"

definition kind_json_key :: "unknown_key \<Rightarrow> string" where
  "kind_json_key k = (if uk_route k \<noteq> None then ''unclaimed_route'' else ''no_heuristic_winner'')"

definition near_miss_str :: "protocol_name \<times> confidence \<Rightarrow> string" where
  "near_miss_str = (\<lambda>(name, score). name @ ''('' @ show_nat (unat (confidence_get score)) @ '')'')"

definition near_misses_str :: "(protocol_name \<times> confidence) list \<Rightarrow> nat \<Rightarrow> string" where
  "near_misses_str near_misses cap = join middot (map near_miss_str (take cap near_misses))"

definition visible_groups :: "aggregator_snapshot \<Rightarrow> usize \<Rightarrow> u64 \<Rightarrow> unknown_group list" where
  "visible_groups snap top_n min_count = take top_n (filter (\<lambda>g. min_count \<le> ug_count g) (sn_unknowns snap))"

definition resolve_group :: "aggregator_snapshot \<Rightarrow> string \<Rightarrow> usize \<Rightarrow> u64 \<Rightarrow> cli_error + unknown_group" where
  "resolve_group snap selector top_n min_count =
    (case strip_prefix selector ''#'' of
       None \<Rightarrow> Inl (Usage (BadGroupSelector selector))
     | Some r \<Rightarrow>
        (case parse_unsigned r of
           None \<Rightarrow> Inl (Usage (BadGroupNumber selector))
         | Some n \<Rightarrow>
            (let groups = visible_groups snap top_n min_count in
             if n = 0 \<or> length groups < n then Inl (NotFound (NoGroup n (length groups)))
             else Inr (groups ! (n - 1)))))"

record group_row =
  gr_n :: string
  gr_context :: string
  gr_kind :: string
  gr_count :: string
  gr_bytes :: string
  gr_span :: string
  gr_near :: string

definition group_row_of :: "(u64 \<Rightarrow> string) \<Rightarrow> nat \<times> unknown_group \<Rightarrow> group_row" where
  "group_row_of hb = (\<lambda>(i, g).
    \<lparr>gr_n = show_nat (i + 1), gr_context = context_str (ug_key g), gr_kind = kind_str (ug_key g), gr_count = thousands (ug_count g),
     gr_bytes = hb (ug_bytes_total g), gr_span = time_of_day (ug_first_seen g) @ right_arrow @ time_of_day (ug_last_seen g),
     gr_near = near_misses_str (ug_near_misses g) TABLE_NEAR_MISS_CAP\<rparr>)"

text \<open>The widths of the numeric and fixed columns are byte lengths, and so is the least width of the last column.\<close>

definition longest :: "nat \<Rightarrow> string list \<Rightarrow> nat" where
  "longest least ss = fold max (map length ss) least"

definition span_title :: string where "span_title = ''FIRST'' @ right_arrow @ ''LAST''"

definition table_line :: "group_row list \<Rightarrow> group_row \<Rightarrow> string" where
  "table_line rows r =
    pad_left (longest 1 (map gr_n rows)) (gr_n r) @ ''  '' @ pad_right (widest 7 (map gr_context rows)) (gr_context r) @ ''  '' @
    pad_right (longest 4 (map gr_kind rows)) (gr_kind r) @ ''  '' @ pad_left (longest 5 (map gr_count rows)) (gr_count r) @ ''  '' @
    pad_left (longest 5 (map gr_bytes rows)) (gr_bytes r) @ ''  '' @
    pad_right (widest (length span_title) (map gr_span rows)) (gr_span r) @ ''  '' @ gr_near r @ newline"

definition table_header :: group_row where
  "table_header = \<lparr>gr_n = ''#'', gr_context = ''CONTEXT'', gr_kind = ''KIND'', gr_count = ''COUNT'', gr_bytes = ''BYTES'',
     gr_span = span_title, gr_near = ''NEAR MISSES''\<rparr>"

definition table_text :: "(u64 \<Rightarrow> string) \<Rightarrow> aggregator_snapshot \<Rightarrow> usize \<Rightarrow> u64 \<Rightarrow> string" where
  "table_text hb snap top_n min_count =
    (let groups = visible_groups snap top_n min_count; rows = map (group_row_of hb) (enumerate 0 groups) in
     if groups = [] then ''no unknown protocols observed'' @ newline
     else ''UNKNOWN PROTOCOLS / STREAMS   ('' @ show_nat (length groups) @ '' groups, '' @ thousands (sum_list (map ug_count groups)) @
       '' packets, '' @ hb (sum_list (map ug_bytes_total groups)) @ '' unclassified)'' @ newline @ newline @
       concat (map (table_line rows) (table_header # rows)))"

definition group_json :: "(system_time \<Rightarrow> string) \<Rightarrow> usize \<Rightarrow> unknown_group \<Rightarrow> usize option \<Rightarrow> json" where
  "group_json rfc3339 selector g cap = JMap
    [(''selector'', JU64 (of_nat selector)), (''predecessor'', JStr (uk_predecessor (ug_key g))),
     (''route'', json_opt (\<lambda>r. JStr (show_route r)) (uk_route (ug_key g))), (''kind'', JStr (kind_json_key (ug_key g))),
     (''count'', JU64 (ug_count g)), (''bytes_total'', JU64 (ug_bytes_total g)), (''bytes_min'', JU64 (ucast (ug_bytes_min g))),
     (''bytes_max'', JU64 (ucast (ug_bytes_max g))), (''first_seen'', JStr (rfc3339 (ug_first_seen g))),
     (''last_seen'', JStr (rfc3339 (ug_last_seen g))),
     (''near_misses'', JSeq (map (\<lambda>(name, score). JMap [(''protocol'', JStr name), (''score'', JU64 (ucast (confidence_get score)))])
        (take (or_else (length (ug_near_misses g)) cap) (ug_near_misses g)))),
     (''endpoints_overflow'', JBool (ug_endpoints_overflow g))]"

definition table_json :: "(system_time \<Rightarrow> string) \<Rightarrow> aggregator_snapshot \<Rightarrow> usize \<Rightarrow> u64 \<Rightarrow> json" where
  "table_json rfc3339 snap top_n min_count = JMap
    [(''pktflow'', JU64 1), (''groups'', JSeq (map (\<lambda>(i, g). group_json rfc3339 (i + 1) g (Some TABLE_NEAR_MISS_CAP))
       (enumerate 0 (visible_groups snap top_n min_count))))]"

definition drilldown_json :: "(system_time \<Rightarrow> string) \<Rightarrow> usize \<Rightarrow> unknown_group \<Rightarrow> json" where
  "drilldown_json rfc3339 selector g = JMap [(''pktflow'', JU64 1), (''groups'', JSeq [group_json rfc3339 selector g None])]"

section \<open>The detail of a group\<close>

text \<open>\<open>{:x?}\<close> of a byte slice: hexadecimal numbers in brackets.\<close>

definition debug_hex :: "byte list \<Rightarrow> string" where
  "debug_hex bs = ''['' @ join '', '' (map (\<lambda>b. show_hex (unat b)) bs) @ '']''"

definition shown_samples :: "unknown_group \<Rightarrow> usize \<Rightarrow> bool \<Rightarrow> nat" where
  "shown_samples g samples full_samples = (if full_samples then length (ug_samples g) else min samples (length (ug_samples g)))"

definition sample_block :: "nat \<times> byte list \<Rightarrow> string" where
  "sample_block = (\<lambda>(i, sample). ''  sample '' @ show_nat (i + 1) @ '': '' @ show_nat (length sample) @ '' bytes'' @ newline @
     concat (map (\<lambda>l. ''    '' @ l @ newline) (hex_dump_lines sample)))"

definition samples_text :: "unknown_group \<Rightarrow> nat \<Rightarrow> string" where
  "samples_text g show_n =
    (if ug_samples g = [] then ''samples   (none retained)'' @ newline
     else ''samples   ('' @ show_nat show_n @ '' of '' @ show_nat (length (ug_samples g)) @ '' retained)'' @ newline @
       concat (map sample_block (enumerate 0 (take show_n (ug_samples g)))) @
       (if show_n < length (ug_samples g)
        then ''  '' @ ellipsis @ '' '' @ show_nat (length (ug_samples g) - show_n) @
          '' more retained sample(s) not shown (--full-samples to show all)'' @ newline else []))"

definition drilldown_text :: "(u64 \<Rightarrow> string) \<Rightarrow> (system_time \<Rightarrow> string) \<Rightarrow> usize \<Rightarrow> unknown_group \<Rightarrow> usize \<Rightarrow> bool \<Rightarrow> string" where
  "drilldown_text hb rfc3339 selector g samples full_samples =
    ''#'' @ show_nat selector @ ''  '' @ context_str (ug_key g) @ ''   '' @ kind_str (ug_key g) @ newline @
    ''count     '' @ thousands (ug_count g) @ newline @ ''bytes     total '' @ hb (ug_bytes_total g) @ ''  min '' @
      hb (ucast (ug_bytes_min g)) @ ''  max '' @ hb (ucast (ug_bytes_max g)) @ newline @
    ''seen      first '' @ rfc3339 (ug_first_seen g) @ ''  last '' @ rfc3339 (ug_last_seen g) @ newline @
    (if ug_endpoints g = [] then ''endpoints (none retained)'' @ newline
     else ''endpoints'' @ (if ug_endpoints_overflow g then '' ('' @ at_least @ ''64 distinct)'' else []) @ newline @
       concat (map (\<lambda>e. ''  '' @ ep_protocol e @ '' '' @ debug_hex (ep_key e) @ newline) (ug_endpoints g))) @
    (if ug_near_misses g = [] then ''near misses (none)'' @ newline
     else ''near misses'' @ newline @ concat (map (\<lambda>m. ''  '' @ near_miss_str m @ newline) (ug_near_misses g))) @
    samples_text g (shown_samples g samples full_samples)"

section \<open>Export\<close>

definition slug_char :: "char \<Rightarrow> char" where
  "slug_char c = (if is_ascii_alphabetic c \<or> is_ascii_digit c then c else CHR ''_'')"

text \<open>Characters, not bytes, are replaced: a character beyond ASCII becomes one underscore.\<close>

definition slug_for :: "unknown_key \<Rightarrow> string" where
  "slug_for k =
    (let route = (case uk_route k of Some r \<Rightarrow> show_route r | None \<Rightarrow> ''no_heuristic_winner'') in
     map slug_char (filter (\<lambda>c. \<not> is_continuation c) (uk_predecessor k @ ''-'' @ route)))"

text \<open>\<open>Path::join\<close>: an absolute name replaces the directory, and no separator is added to an empty directory or after one.\<close>

definition path_join :: "string \<Rightarrow> string \<Rightarrow> string" where
  "path_join dir name =
    (if name \<noteq> [] \<and> hd name = CHR ''/'' then name
     else if dir = [] \<or> last dir = CHR ''/'' then dir @ name else dir @ ''/'' @ name)"

definition sample_file :: "unknown_key \<Rightarrow> nat \<Rightarrow> string" where
  "sample_file k i = slug_for k @ ''-'' @ show_nat (i + 1) @ ''.bin''"

definition manifest_json :: "unknown_group \<Rightarrow> string \<Rightarrow> json" where
  "manifest_json g source = JMap
    [(''pktflow'', JU64 1),
     (''key'', JMap [(''predecessor'', JStr (uk_predecessor (ug_key g))), (''route'', json_opt (\<lambda>r. JStr (show_route r)) (uk_route (ug_key g)))]),
     (''source'', JStr source), (''count'', JU64 (ug_count g)), (''bytes_min'', JU64 (ucast (ug_bytes_min g))),
     (''bytes_max'', JU64 (ucast (ug_bytes_max g))),
     (''samples'', JSeq (map (\<lambda>(i, s). JMap [(''file'', JStr (sample_file (ug_key g) i)), (''bytes'', JU64 (of_nat (length s)))])
        (enumerate 0 (ug_samples g))))]"

text \<open>Files by path; \<open>io\<close> gives the error of a write to a path, if it fails, and \<open>mkdir\<close> that of creating the directory.\<close>

type_synonym disk = "string \<rightharpoonup> byte list"

fun write_samples :: "(string \<Rightarrow> io_error option) \<Rightarrow> string \<Rightarrow> unknown_key \<Rightarrow> nat \<Rightarrow> byte list list \<Rightarrow> disk \<Rightarrow> (cli_error + unit) \<times> disk" where
  "write_samples io dir k i [] d = (Inr (), d)"
| "write_samples io dir k i (s # ss) d =
    (let path = path_join dir (sample_file k i) in
     case io path of
       Some err \<Rightarrow> (Inl (CliIo err), d)
     | None \<Rightarrow> write_samples io dir k (Suc i) ss (d(path \<mapsto> s)))"

definition export_group :: "(json \<Rightarrow> byte list) \<Rightarrow> (string \<Rightarrow> io_error option) \<Rightarrow> io_error option \<Rightarrow> unknown_group \<Rightarrow> string \<Rightarrow> string \<Rightarrow> disk \<Rightarrow>
    (cli_error + string) \<times> disk" where
  "export_group pretty io mkdir g dir source d =
    (case mkdir of
       Some err \<Rightarrow> (Inl (CliIo err), d)
     | None \<Rightarrow>
        (case write_samples io dir (ug_key g) 0 (ug_samples g) d of
           (Inl err, d1) \<Rightarrow> (Inl err, d1)
         | (Inr _, d1) \<Rightarrow>
            (let manifest = path_join dir ''manifest.json'' in
             case io manifest of
               Some err \<Rightarrow> (Inl (CliIo err), d1)
             | None \<Rightarrow> (Inr manifest, d1(manifest \<mapsto> pretty (manifest_json g source))))))"

section \<open>Scaffolding a plugin\<close>

fun name_parts :: "string \<Rightarrow> string \<Rightarrow> string list" where
  "name_parts acc [] = [acc]"
| "name_parts acc (c # cs) = (if c = CHR ''_'' \<or> c = CHR ''-'' then acc # name_parts [] cs else name_parts (acc @ [c]) cs)"

text \<open>\<open>upper\<close> maps the first character (all its bytes) of a text to upper case.\<close>

definition pascal_case :: "(string \<Rightarrow> string) \<Rightarrow> string \<Rightarrow> string" where
  "pascal_case upper name =
    concat (map (\<lambda>part. upper (hd part # takeWhile is_continuation (tl part)) @ dropWhile is_continuation (tl part))
      (filter (\<lambda>p. p \<noteq> []) (name_parts [] name)))"

fun route_literal :: "(string \<Rightarrow> string) \<Rightarrow> route_id \<Rightarrow> string" where
  "route_literal dbg (LinkType i) = ''RouteId::LinkType('' @ show_nat (unat i) @ '')''"
| "route_literal dbg (EtherType i) = ''RouteId::EtherType(0x'' @ pad 4 (show_hex (unat i)) @ '')''"
| "route_literal dbg (IpProtocol i) = ''RouteId::IpProtocol('' @ show_nat (unat i) @ '')''"
| "route_literal dbg (UdpPort i) = ''RouteId::UdpPort('' @ show_nat (unat i) @ '')''"
| "route_literal dbg (TcpPort i) = ''RouteId::TcpPort('' @ show_nat (unat i) @ '')''"
| "route_literal dbg (Custom space i) = ''RouteId::Custom { space: '' @ dbg space @ '', id: '' @ show_nat (unat i) @ '' }''"

definition quoted :: "string \<Rightarrow> string" where
  "quoted s = CHR 0x22 # s @ [CHR 0x22]"

definition template_claim :: string where
  "template_claim = ''&[RouteId::Custom {'' @ newline @ ''            space: '' @ quoted ''pktt'' @ '','' @ newline @
     ''            id: 0,'' @ newline @ ''        }]''"

definition sample_comment :: "byte list \<Rightarrow> string" where
  "sample_comment sample =
    ''//! Scaffolded from an observed unknown occurrence (`pktflow unknown --scaffold`, 10.3). First retained sample:'' @ newline @
    join newline (map (\<lambda>l. ''//! `'' @ l @ ''`'') (hex_dump_lines sample)) @ newline @ ''//!'' @ newline"

definition render_plugin_source :: "(string \<Rightarrow> string) \<Rightarrow> (string \<Rightarrow> string) \<Rightarrow> string \<Rightarrow> string \<Rightarrow> unknown_group option \<Rightarrow> string" where
  "render_plugin_source upper dbg template_src name grp =
    (let out = str_replace (quoted ''template'') (dbg name) (str_replace ''Template'' (pascal_case upper name) template_src) in
     case grp of
       None \<Rightarrow> out
     | Some g \<Rightarrow>
        (let out1 = (case uk_route (ug_key g) of
               Some r \<Rightarrow> str_replace template_claim (''&['' @ route_literal dbg r @ '']'') out
             | None \<Rightarrow> out)
         in case ug_samples g of
              [] \<Rightarrow> out1
            | sample # _ \<Rightarrow> sample_comment sample @ out1))"

text \<open>The directory holds source texts here; \<open>missing\<close> is the message of a failed read.\<close>

type_synonym sources = "string \<rightharpoonup> string"

definition scaffold_plugin :: "(string \<Rightarrow> string) \<Rightarrow> (string \<Rightarrow> string) \<Rightarrow> string \<Rightarrow> (string \<Rightarrow> io_error option) \<Rightarrow> string \<Rightarrow> string \<Rightarrow> unknown_group option \<Rightarrow> sources \<Rightarrow>
    (cli_error + string) \<times> sources" where
  "scaffold_plugin upper dbg missing io dir name grp d =
    (case d (path_join dir ''template.rs'') of
       None \<Rightarrow> (Inl (Internal (''read '' @ path_join dir ''template.rs'' @ '': '' @ missing)), d)
     | Some template_src \<Rightarrow>
        (let target = path_join dir (name @ ''.rs'') in
         if d target \<noteq> None then (Inl (Usage (TargetExists target)), d)
         else case io target of
           Some err \<Rightarrow> (Inl (CliIo err), d)
         | None \<Rightarrow> (Inr target, d(target \<mapsto> render_plugin_source upper dbg template_src name grp))))"

end
