(* ===== verification/Cli_Events.thy ===== *)
theory Cli_Events
  imports Cli_Views
begin

text \<open>
  \<open>NdjsonTracker\<close> of \<open>pktflow-cli/src/views.rs\<close> and \<open>watch_json\<close> of \<open>lib.rs\<close>: the event stream of a run. The
  tracker is polled after every packet and told of every eviction; clock readings (nanoseconds) are arguments. What a
  poll announces is the list of its events as pairs of a kind and a stream, from which the JSON lines are made.
\<close>

section \<open>The tracker\<close>

record ndjson_tracker =
  nt_last_poll :: int
  nt_last_emitted :: "(stream_id, int) hmap"
  nt_seq_by_id :: "(stream_id, u64) hmap"

definition tracker_new :: "int \<Rightarrow> ndjson_tracker" where
  "tracker_new now = \<lparr>nt_last_poll = now - 2 * 10 ^ 9, nt_last_emitted = [], nt_seq_by_id = []\<rparr>"

text \<open>The kind of event due for a stream, by when it was last announced.\<close>

definition event_due :: "int \<Rightarrow> int option \<Rightarrow> string option" where
  "event_due now last_at =
    (case last_at of
       None \<Rightarrow> Some ''stream_new''
     | Some t \<Rightarrow> if 10 ^ 9 \<le> nat (now - t) then Some ''stream_update'' else None)"

definition poll_one :: "int \<Rightarrow> stream \<Rightarrow> (string \<times> stream) list \<times> (stream_id, int) hmap \<Rightarrow> (string \<times> stream) list \<times> (stream_id, int) hmap" where
  "poll_one now s = (\<lambda>(events, emitted).
    case event_due now (hm_get emitted (st_id s)) of
      Some kind \<Rightarrow> (events @ [(kind, s)], hm_set (st_id s) now emitted)
    | None \<Rightarrow> (events, emitted))"

text \<open>The clock is read three times: for the throttle, for the time of the poll, and for the events.\<close>

definition poll :: "int \<Rightarrow> int \<Rightarrow> int \<Rightarrow> aggregator \<Rightarrow> ndjson_tracker \<Rightarrow> (string \<times> stream) list \<times> ndjson_tracker" where
  "poll t1 t2 now agg tr =
    (if nat (t1 - nt_last_poll tr) < 100 * 10 ^ 6 then ([], tr)
     else
       let seqs' = fold (\<lambda>s. hm_set (st_id s) (st_created_seq s)) (streams agg) (nt_seq_by_id tr) in
       case fold (poll_one now) (streams agg) ([], nt_last_emitted tr) of
         (events, emitted) \<Rightarrow> (events, \<lparr>nt_last_poll = t2, nt_last_emitted = emitted, nt_seq_by_id = seqs'\<rparr>))"

definition poll_json :: "view_env \<Rightarrow> (system_time \<Rightarrow> string) \<Rightarrow> (string \<times> stream) list \<times> ndjson_tracker \<Rightarrow> json list" where
  "poll_json ve rfc3339 = (\<lambda>(events, tr).
    map (\<lambda>(kind, s). JMap (hm_set ''event'' (JStr kind) (stream_record ve rfc3339 (hm_get (nt_seq_by_id tr)) s))) events)"

definition close_tracked :: "evicted_stream \<Rightarrow> ndjson_tracker \<Rightarrow> ndjson_tracker" where
  "close_tracked ev tr = tr\<lparr>nt_last_emitted := hm_del (st_id (ev_stream ev)) (nt_last_emitted tr)\<rparr>"

definition on_evicted :: "view_env \<Rightarrow> (system_time \<Rightarrow> string) \<Rightarrow> evicted_stream \<Rightarrow> ndjson_tracker \<Rightarrow> json \<times> ndjson_tracker" where
  "on_evicted ve rfc3339 ev tr =
    (let tr' = close_tracked ev tr in
     (JMap (hm_set ''close_reason'' (JStr (close_reason_json (ev_reason ev))) (hm_set ''event'' (JStr ''stream_closed'')
        (stream_record ve rfc3339 (hm_get (nt_seq_by_id tr')) (ev_stream ev)))), tr'))"

definition summary_event :: "run_outcome \<Rightarrow> aggregator_snapshot \<Rightarrow> json" where
  "summary_event outcome snap = JMap (hm_set ''event'' (JStr ''summary'') (cli_summary_json outcome snap))"

section \<open>The event stream of a run\<close>

text \<open>What is printed, as the log of announcements and closures; \<open>watch_packet\<close> is one turn of the consumer: the sink is
  called for what the ingest evicted, then the tracker is polled.\<close>

datatype logged = LPoll int string stream | LClosed evicted_stream

definition forget :: "evicted_stream list \<Rightarrow> ndjson_tracker \<Rightarrow> ndjson_tracker" where
  "forget evs tr = fold close_tracked evs tr"

type_synonym watch = "aggregator \<times> ndjson_tracker \<times> logged list"

definition watch_packet :: "dissected_packet \<times> int \<times> int \<times> int \<Rightarrow> watch \<Rightarrow> watch" where
  "watch_packet = (\<lambda>(pkt, t1, t2, now) (a, tr, lg).
    let a' = ingest pkt a; evs = drop (length (ag_emitted a)) (ag_emitted a') in
    case poll t1 t2 now a' (forget evs tr) of
      (events, tr') \<Rightarrow> (a', tr', lg @ map LClosed evs @ map (\<lambda>(kind, s). LPoll now kind s) events))"

definition watch_end :: "watch \<Rightarrow> watch" where
  "watch_end = (\<lambda>(a, tr, lg).
    let a' = finish a; evs = drop (length (ag_emitted a)) (ag_emitted a') in (a', forget evs tr, lg @ map LClosed evs))"

definition watch_json :: "int \<Rightarrow> aggregator \<Rightarrow> (dissected_packet \<times> int \<times> int \<times> int) list \<Rightarrow> watch" where
  "watch_json start a turns = watch_end (fold watch_packet turns (a, tracker_new start, []))"

section \<open>The protocol of the events\<close>

text \<open>The reader's view of one stream: when it was last announced, since it was opened and not closed.\<close>

definition reader_step :: "stream_id \<Rightarrow> logged \<Rightarrow> int option \<Rightarrow> int option" where
  "reader_step h l st =
    (case l of
       LPoll now kind s \<Rightarrow> if st_id s = h then Some now else st
     | LClosed ev \<Rightarrow> if st_id (ev_stream ev) = h then None else st)"

definition reader :: "stream_id \<Rightarrow> logged list \<Rightarrow> int option" where
  "reader h lg = fold (reader_step h) lg None"

text \<open>An entry is in order if a stream is opened only while it is not open, and updated only while it is, a second or
  more after it was last announced.\<close>

definition event_ok :: "logged list \<Rightarrow> logged \<Rightarrow> bool" where
  "event_ok before l =
    (case l of
       LPoll now kind s \<Rightarrow>
        (case reader (st_id s) before of
           None \<Rightarrow> kind = ''stream_new''
         | Some t \<Rightarrow> kind = ''stream_update'' \<and> t + 10 ^ 9 \<le> now)
     | LClosed _ \<Rightarrow> True)"

definition log_ok :: "logged list \<Rightarrow> bool" where
  "log_ok lg \<longleftrightarrow> list_all (\<lambda>i. event_ok (take i lg) (lg ! i)) [0..<length lg]"

lemma log_ok_Nil [simp]: "log_ok []"
  by (simp add: log_ok_def)

lemma log_ok_snoc [simp]: "log_ok (lg @ [l]) \<longleftrightarrow> log_ok lg \<and> event_ok lg l"
  by (auto simp: log_ok_def list_all_iff nth_append)

lemma reader_Nil [simp]: "reader h [] = None"
  by (simp add: reader_def)

lemma reader_snoc [simp]: "reader h (lg @ [l]) = reader_step h l (reader h lg)"
  by (simp add: reader_def)

definition tracks :: "ndjson_tracker \<Rightarrow> logged list \<Rightarrow> bool" where
  "tracks tr lg \<longleftrightarrow> log_ok lg \<and> (\<forall>h. hm_get (nt_last_emitted tr) h = reader h lg)"

lemma tracks_forget: "tracks tr lg \<Longrightarrow> tracks (forget evs tr) (lg @ map LClosed evs)"
proof (induction evs arbitrary: tr lg)
  case (Cons ev evs)
  have "tracks (close_tracked ev tr) (lg @ [LClosed ev])"
    using Cons.prems by (auto simp: tracks_def close_tracked_def event_ok_def reader_step_def)
  from Cons.IH[OF this] show ?case by (simp add: forget_def)
qed (simp add: forget_def)

lemma poll_one_tracks:
  assumes "log_ok (lg @ map (\<lambda>(kind, s). LPoll now kind s) events)"
    "\<And>h. hm_get emitted h = reader h (lg @ map (\<lambda>(kind, s). LPoll now kind s) events)"
    "poll_one now s (events, emitted) = (events', emitted')"
  shows "log_ok (lg @ map (\<lambda>(kind, s). LPoll now kind s) events') \<and>
    (\<forall>h. hm_get emitted' h = reader h (lg @ map (\<lambda>(kind, s). LPoll now kind s) events'))"
proof (cases "event_due now (hm_get emitted (st_id s))")
  case None
  then show ?thesis using assms by (simp add: poll_one_def)
next
  case (Some kind)
  let ?lg = "lg @ map (\<lambda>(kind, s). LPoll now kind s) events"
  have e: "events' = events @ [(kind, s)]" "emitted' = hm_set (st_id s) now emitted"
    using assms(3) Some by (simp_all add: poll_one_def)
  have l: "lg @ map (\<lambda>(kind, s). LPoll now kind s) events' = ?lg @ [LPoll now kind s]" using e by simp
  have "event_ok ?lg (LPoll now kind s)"
    using Some assms(2)[of "st_id s"] by (auto simp: event_ok_def event_due_def split: option.splits if_splits)
  then show ?thesis using assms(1,2) e unfolding l log_ok_snoc reader_snoc by (simp add: reader_step_def)
qed

lemma poll_fold_tracks:
  assumes "log_ok (lg @ map (\<lambda>(kind, s). LPoll now kind s) events)"
    "\<And>h. hm_get emitted h = reader h (lg @ map (\<lambda>(kind, s). LPoll now kind s) events)"
    "fold (poll_one now) ss (events, emitted) = (events', emitted')"
  shows "log_ok (lg @ map (\<lambda>(kind, s). LPoll now kind s) events') \<and>
    (\<forall>h. hm_get emitted' h = reader h (lg @ map (\<lambda>(kind, s). LPoll now kind s) events'))"
  using assms
proof (induction ss arbitrary: events emitted)
  case (Cons s ss)
  obtain e1 m1 where p: "poll_one now s (events, emitted) = (e1, m1)" by fastforce
  note step = poll_one_tracks[OF Cons.prems(1,2) p]
  show ?case using step Cons.prems(3) p by (intro Cons.IH[of e1 m1]) auto
qed simp

lemma tracks_poll:
  assumes "tracks tr lg" "poll t1 t2 now a tr = (events, tr')"
  shows "tracks tr' (lg @ map (\<lambda>(kind, s). LPoll now kind s) events)"
proof (cases "nat (t1 - nt_last_poll tr) < 100 * 10 ^ 6")
  case True
  then show ?thesis using assms by (simp add: poll_def)
next
  case False
  obtain ev em where f: "fold (poll_one now) (streams a) ([], nt_last_emitted tr) = (ev, em)" by fastforce
  have "log_ok (lg @ map (\<lambda>(kind, s). LPoll now kind s) ev) \<and> (\<forall>h. hm_get em h = reader h (lg @ map (\<lambda>(kind, s). LPoll now kind s) ev))"
    using assms(1) by (intro poll_fold_tracks[OF _ _ f]) (simp_all add: tracks_def)
  then show ?thesis using assms(2) False f by (auto simp: poll_def tracks_def Let_def)
qed

lemma tracks_turn:
  assumes "tracks tr lg" "watch_packet turn (a, tr, lg) = (a', tr', lg')"
  shows "tracks tr' lg'"
proof -
  obtain pkt t1 t2 now where t: "turn = (pkt, t1, t2, now)" by (cases turn) auto
  let ?evs = "drop (length (ag_emitted a)) (ag_emitted (ingest pkt a))"
  obtain events tr1 where p: "poll t1 t2 now (ingest pkt a) (forget ?evs tr) = (events, tr1)" by fastforce
  from tracks_poll[OF tracks_forget[OF assms(1)] p] show ?thesis
    using assms(2) t p by (auto simp: watch_packet_def Let_def)
qed

lemma tracks_turns:
  "tracks tr lg \<Longrightarrow> fold watch_packet turns (a, tr, lg) = (a', tr', lg') \<Longrightarrow> tracks tr' lg'"
proof (induction turns arbitrary: a tr lg)
  case (Cons t turns)
  obtain a1 tr1 log1 where w: "watch_packet t (a, tr, lg) = (a1, tr1, log1)" by (metis prod_cases3)
  show ?case using Cons.IH[OF tracks_turn[OF Cons.prems(1) w]] Cons.prems(2) w by simp
qed simp

end
