(* ===== verification/Cli_Props.thy ===== *)
theory Cli_Props
  imports Cli_Unknown Cli_Events
begin

text \<open>
  Properties of the command-line views: the tree lists every stream it keeps exactly once, what a view numbers can be
  selected by that number, an export can be read back, and the event stream of a run follows its protocol.
\<close>

section \<open>Walks of a forest\<close>

lemma collect_preorder:
  "map snd (collect_subtree n ids srt keep pre s) = preorder n (\<lambda>_. True) (\<lambda>s. kept_siblings srt keep ids (st_children s)) s"
proof (induction n arbitrary: pre s)
  case (Suc n)
  let ?kids = "kept_siblings srt keep ids (st_children s)"
  have "concat (map (\<lambda>(i, c). map snd (collect_subtree n ids srt keep (f i) c)) (enumerate m cs)) =
      concat (map (preorder n (\<lambda>_. True) (\<lambda>s. kept_siblings srt keep ids (st_children s))) cs)" for f :: "nat \<Rightarrow> string" and m cs
    by (induction cs arbitrary: m) (simp_all add: Suc.IH)
  from this[of "\<lambda>i. bare_prefix pre @ (if i + 1 = length ?kids then last_glyph else branch_glyph)" 0 ?kids]
  show ?case by (simp add: map_concat Let_def comp_def case_prod_beta')
qed simp

text \<open>A family: the streams of \<open>A\<close> with duplicate-free lists of children, each with one parent, older than itself.\<close>

definition family :: "stream set \<Rightarrow> (stream \<Rightarrow> stream list) \<Rightarrow> bool" where
  "family A kids \<longleftrightarrow> (\<forall>x \<in> A. set (kids x) \<subseteq> A \<and> distinct (kids x) \<and> (\<forall>y \<in> set (kids x). st_created_seq x < st_created_seq y)) \<and>
    (\<forall>x \<in> A. \<forall>x' \<in> A. set (kids x) \<inter> set (kids x') \<noteq> {} \<longrightarrow> x = x')"

definition descends :: "stream set \<Rightarrow> (stream \<Rightarrow> stream list) \<Rightarrow> (stream \<times> stream) set" where
  "descends A kids = {(x, y). x \<in> A \<and> y \<in> set (kids x)}\<^sup>*"

lemma family_step:
  assumes "family A kids" "x \<in> A" "y \<in> set (kids x)"
  shows "y \<in> A" "st_created_seq x < st_created_seq y"
  using assms unfolding family_def by auto

lemma family_parent: "family A kids \<Longrightarrow> x \<in> A \<Longrightarrow> x' \<in> A \<Longrightarrow> y \<in> set (kids x) \<Longrightarrow> y \<in> set (kids x') \<Longrightarrow> x = x'"
  unfolding family_def by blast

lemma descends_in:
  assumes "family A kids" "(x, y) \<in> descends A kids" "x \<in> A"
  shows "y \<in> A \<and> st_created_seq x \<le> st_created_seq y"
  using assms(2,3) unfolding descends_def
proof (induction rule: rtrancl_induct)
  case (step y z)
  then show ?case using family_step[OF assms(1), of y z] by auto
qed simp

lemma preorder_descends:
  assumes "family A kids" "s \<in> A" "t \<in> set (preorder n p kids s)"
  shows "(s, t) \<in> descends A kids"
  using assms(2,3)
proof (induction n arbitrary: s)
  case (Suc n)
  show ?case
  proof (cases "t = s")
    case False
    then obtain c where c: "c \<in> set (kids s)" "t \<in> set (preorder n p kids c)" using Suc.prems(2) by (auto split: if_splits)
    have "(c, t) \<in> descends A kids" using Suc.IH[OF _ c(2)] family_step[OF assms(1) Suc.prems(1) c(1)] by simp
    then show ?thesis using c(1) Suc.prems(1) unfolding descends_def by (auto intro: converse_rtrancl_into_rtrancl)
  qed (simp add: descends_def)
qed simp

text \<open>Two streams with a common descendant are related.\<close>

lemma descends_common:
  assumes "family A kids" "(c, t) \<in> descends A kids" "(c', t) \<in> descends A kids"
  shows "(c, c') \<in> descends A kids \<or> (c', c) \<in> descends A kids"
  using assms(2,3) unfolding descends_def
proof (induction rule: rtrancl_induct)
  case (step y z)
  show ?case
  proof (cases "z = c'")
    case True
    then show ?thesis using step.hyps by (auto intro: rtrancl_into_rtrancl)
  next
    case False
    then obtain w where w: "(c', w) \<in> {(x, y). x \<in> A \<and> y \<in> set (kids x)}\<^sup>*" "w \<in> A" "z \<in> set (kids w)"
      using step.prems by (auto elim: rtranclE)
    then have "w = y" using family_parent[OF assms(1), of w y z] step.hyps(2) by simp
    then show ?thesis using step.IH w(1) by simp
  qed
qed simp

definition unrelated :: "stream set \<Rightarrow> (stream \<Rightarrow> stream list) \<Rightarrow> stream list \<Rightarrow> bool" where
  "unrelated A kids cs \<longleftrightarrow> set cs \<subseteq> A \<and> distinct cs \<and> (\<forall>c \<in> set cs. \<forall>c' \<in> set cs. (c, c') \<in> descends A kids \<longrightarrow> c = c')"

lemma siblings_unrelated:
  assumes f: "family A kids" and s: "s \<in> A"
  shows "unrelated A kids (kids s)"
proof -
  have "c = c'" if c: "c \<in> set (kids s)" "c' \<in> set (kids s)" and d: "(c, c') \<in> descends A kids" for c c'
  proof (rule ccontr)
    assume "c \<noteq> c'"
    with d obtain z where z: "(c, z) \<in> descends A kids" "z \<in> A" "c' \<in> set (kids z)"
      unfolding descends_def by (auto elim: rtranclE)
    then have "z = s" using family_parent[OF f z(2) s z(3) c(2)] by simp
    then show False
      using descends_in[OF f z(1)] family_step[OF f s c(1)] by auto
  qed
  then show ?thesis using f s unfolding unrelated_def family_def by blast
qed

lemma distinct_walks:
  assumes f: "family A kids" and d: "\<And>c. c \<in> A \<Longrightarrow> distinct (preorder n p kids c)"
  shows "unrelated A kids cs \<Longrightarrow> distinct (concat (map (preorder n p kids) cs))"
proof (induction cs)
  case (Cons c cs)
  have "\<not> (t \<in> set (preorder n p kids c) \<and> t \<in> set (preorder n p kids c'))" if "c' \<in> set cs" for t c'
    using descends_common[OF f preorder_descends[OF f] preorder_descends[OF f], of c t n p c' n p] that Cons.prems
    unfolding unrelated_def by auto
  moreover have "distinct (concat (map (preorder n p kids) cs))" using Cons unfolding unrelated_def by auto
  ultimately show ?case using d[of c] Cons.prems unfolding unrelated_def by auto
qed simp

lemma distinct_preorder:
  assumes f: "family A kids"
  shows "s \<in> A \<Longrightarrow> distinct (preorder n p kids s)"
proof (induction n arbitrary: s)
  case (Suc n)
  have "s \<notin> set (preorder n p kids c)" if "c \<in> set (kids s)" for c
    using preorder_descends[OF f, of c s n p] descends_in[OF f, of c s] family_step[OF f Suc.prems that] by auto
  moreover have "distinct (concat (map (preorder n p kids) (kids s)))"
    by (rule distinct_walks[OF f Suc.IH siblings_unrelated[OF f Suc.prems]])
  ultimately show ?case by auto
qed simp

section \<open>The forest of a snapshot\<close>

lemma set_cli_sort [simp]: "set (cli_sort_siblings srt ss) = set ss"
  by (cases srt) (simp_all add: cli_sort_siblings_def)

lemma distinct_cli_sort [simp]: "distinct (cli_sort_siblings srt ss) = distinct ss"
  by (cases srt) (simp_all add: cli_sort_siblings_def)

lemma set_kept_siblings:
  "set (kept_siblings srt keep ids hs) = {s. kept keep s \<and> (\<exists>h \<in> set hs. hm_get ids h = Some s)}"
  by (auto simp: kept_siblings_def set_map_filter)

lemma distinct_map_filter_ids:
  assumes "\<And>h s. f h = Some s \<Longrightarrow> st_id s = h"
  shows "distinct hs \<Longrightarrow> distinct (List.map_filter f hs)"
proof (induction hs)
  case (Cons h hs)
  then show ?case by (auto simp: map_filter_simps set_map_filter split: option.split dest: assms)
qed (simp add: map_filter_simps)

lemma distinct_kept_siblings:
  assumes "base_inv a" "distinct hs"
  shows "distinct (kept_siblings srt keep (by_id (snapshot a)) hs)"
proof -
  have "st_id s = h" if "get a h = Some s" for h s using assms(1) that by (simp add: base_inv_def handles_ok_def)
  then have "distinct (List.map_filter (hm_get (by_id (snapshot a))) hs)"
    by (intro distinct_map_filter_ids assms(2)) (simp add: snapshot_ids[OF assms(1)])
  then show ?thesis by (simp add: kept_siblings_def)
qed

lemma stream_child:
  assumes "base_inv a" "get a h = Some s" "c \<in> set (st_children s)"
  shows "\<exists>cs. get a c = Some cs \<and> st_parent cs = Some h"
proof -
  have "children_ok (abs_forest a)" using assms(1) by (simp add: base_inv_def forest_ok_def)
  then have "fo_nodes (abs_forest a) h = Some (node_of s) \<Longrightarrow> \<exists>cn. fo_nodes (abs_forest a) c = Some cn \<and> nd_parent cn = Some h"
    using assms(3) unfolding children_ok_def by fastforce
  then show ?thesis using assms(2) by (auto simp: abs_forest_def)
qed

lemma distinct_children:
  assumes "base_inv a" "get a h = Some s"
  shows "distinct (st_children s)"
proof -
  have "children_ok (abs_forest a)" using assms(1) by (simp add: base_inv_def forest_ok_def)
  moreover have "fo_nodes (abs_forest a) h = Some (node_of s)" using assms(2) by (simp add: abs_forest_def)
  ultimately have "in_order (abs_forest a) (nd_children (node_of s))" unfolding children_ok_def by blast
  then show ?thesis using in_order_distinct by simp
qed

lemma snapshot_roots:
  assumes "base_inv a"
  shows "h \<in> set (sn_roots (snapshot a)) \<longleftrightarrow> (\<exists>s. get a h = Some s \<and> st_parent s = None)" "distinct (sn_roots (snapshot a))"
proof -
  have r: "roots_ok (abs_forest a)" using assms by (simp add: base_inv_def forest_ok_def)
  then show "h \<in> set (sn_roots (snapshot a)) \<longleftrightarrow> (\<exists>s. get a h = Some s \<and> st_parent s = None)"
    by (auto simp: roots_ok_def abs_forest_def snapshot_def)
  show "distinct (sn_roots (snapshot a))"
    using r in_order_distinct[of "abs_forest a" "ag_roots a"] by (simp add: roots_ok_def abs_forest_def snapshot_def)
qed

lemma snapshot_family:
  assumes b: "base_inv a"
  shows "family {s. get a (st_id s) = Some s} (\<lambda>s. kept_siblings srt keep (by_id (snapshot a)) (st_children s))" (is "family ?A ?kids")
proof -
  have id: "st_id s = h" if "get a h = Some s" for h s using b that by (simp add: base_inv_def handles_ok_def)
  have kid: "y \<in> set (?kids x) \<Longrightarrow> st_id y \<in> set (st_children x) \<and> get a (st_id y) = Some y" for x y
    using id by (auto simp: set_kept_siblings snapshot_ids[OF b])
  have par: "st_parent y = Some (st_id x)" if "x \<in> ?A" "y \<in> set (?kids x)" for x y
    using stream_child[OF b _ conjunct1[OF kid[OF that(2)]]] kid[OF that(2)] that(1) by simp
  have "st_created_seq x < st_created_seq y" if x: "x \<in> ?A" "y \<in> set (?kids x)" for x y
  proof -
    obtain ps where "get a (st_id x) = Some ps" "st_created_seq ps < st_created_seq y"
      using parent_older[OF b conjunct2[OF kid[OF x(2)]] par[OF x]] .
    then show ?thesis using x(1) by simp
  qed
  moreover have "x = x'" if "x \<in> ?A" "x' \<in> ?A" "y \<in> set (?kids x)" "y \<in> set (?kids x')" for x x' y
    using par[OF that(1,3)] par[OF that(2,4)] that(1,2) by simp
  moreover have "distinct (?kids x)" if "x \<in> ?A" for x
    using distinct_kept_siblings[OF b distinct_children[OF b, of "st_id x"]] that by simp
  moreover have "set (?kids x) \<subseteq> ?A" for x using kid by blast
  ultimately show ?thesis unfolding family_def by blast
qed

lemma roots_unrelated:
  assumes b: "base_inv a"
  shows "unrelated {s. get a (st_id s) = Some s} (\<lambda>s. kept_siblings srt keep (by_id (snapshot a)) (st_children s))
    (kept_siblings srt keep (by_id (snapshot a)) (sn_roots (snapshot a)))" (is "unrelated ?A ?kids ?tops")
proof -
  have id: "st_id s = h" if "get a h = Some s" for h s using b that by (simp add: base_inv_def handles_ok_def)
  have top: "s \<in> ?A \<and> st_parent s = None" if s: "s \<in> set ?tops" for s
  proof -
    obtain h where "h \<in> set (sn_roots (snapshot a))" "get a h = Some s" using s by (auto simp: set_kept_siblings snapshot_ids[OF b])
    then show ?thesis using snapshot_roots(1)[OF b, of h] id by simp
  qed
  have "c = c'" if "c \<in> set ?tops" "c' \<in> set ?tops" "(c, c') \<in> descends ?A ?kids" for c c'
  proof (rule ccontr)
    assume "c \<noteq> c'"
    with that(3) obtain z where z: "z \<in> ?A" "c' \<in> set (?kids z)" unfolding descends_def by (auto elim: rtranclE)
    then have "st_id c' \<in> set (st_children z)" using id by (auto simp: set_kept_siblings snapshot_ids[OF b])
    then have "st_parent c' \<noteq> None" using stream_child[OF b, of "st_id z" z "st_id c'"] z(1) top[OF that(2)] by auto
    then show False using top[OF that(2)] by simp
  qed
  moreover have "distinct ?tops" by (rule distinct_kept_siblings[OF b snapshot_roots(2)[OF b]])
  ultimately show ?thesis using top unfolding unrelated_def by blast
qed

definition in_tree :: "view_env \<Rightarrow> 'r regex_env \<Rightarrow> 'r expr option \<Rightarrow> aggregator_snapshot \<Rightarrow> stream \<Rightarrow> bool" where
  "in_tree ve env query snap s \<longleftrightarrow> s \<in> set (sn_streams snap) \<and>
    (case query of
       None \<Rightarrow> True
     | Some q \<Rightarrow> \<exists>m \<in> set (sn_streams snap). eval ve env q m (by_id snap) \<and> (s = m \<or> s \<in> set (ancestors (by_id snap) m)))"

lemma kept_in_tree:
  assumes r: "reachable e cfg a" "plain_engine e" and s: "s \<in> set (sn_streams (snapshot a))"
  shows "kept (map_option (matching_with_ancestors ve env (sn_streams (snapshot a)) (by_id (snapshot a))) query) s \<longleftrightarrow>
    in_tree ve env query (snapshot a) s"
proof (cases query)
  case (Some q)
  let ?ids = "by_id (snapshot a)"
  have b: "base_inv a" using store_invD(2) reachable_inv[OF r] by blast
  have same: "t = s" if "t \<in> set (m # ancestors ?ids m)" "m \<in> set (sn_streams (snapshot a))" "st_created_seq t = st_created_seq s" for t m
  proof -
    have "\<exists>h. get a h = Some t"
      using that(1,2) chain_members[of t "length ?ids" ?ids "st_parent m"] snapshot_streams[OF b] snapshot_ids[OF b]
      by (auto simp: ancestors_def)
    then show ?thesis
      using snapshot_ids_ok(2)[OF b] s that(3) snapshot_streams[OF b] snapshot_ids[OF b] unfolding seqs_distinct_def by metis
  qed
  have "st_created_seq s \<in> matching_with_ancestors ve env (sn_streams (snapshot a)) ?ids q \<longleftrightarrow>
      (\<exists>m \<in> set (sn_streams (snapshot a)). eval ve env q m ?ids \<and> s \<in> set (m # ancestors ?ids m))"
    unfolding matching_set[OF r] mem_Collect_eq using same by metis
  then show ?thesis using s Some by (simp add: in_tree_def kept_def)
qed (simp add: in_tree_def kept_def s)

lemma kept_rooted:
  assumes r: "reachable e cfg a" "plain_engine e" and s: "s \<in> set (sn_streams (snapshot a))"
    and k: "kept (map_option (matching_with_ancestors ve env (sn_streams (snapshot a)) (by_id (snapshot a))) query) s" (is "kept ?keep s")
  shows "\<exists>t \<in> set (kept_siblings srt ?keep (by_id (snapshot a)) (sn_roots (snapshot a))).
    (t, s) \<in> {(x, y). y \<in> set (kept_siblings srt ?keep (by_id (snapshot a)) (st_children x))}\<^sup>*"
proof -
  let ?snap = "snapshot a"
  define K where "K = (case ?keep of Some k \<Rightarrow> k | None \<Rightarrow> UNIV)"
  have keep: "kept ?keep x \<longleftrightarrow> kept (Some K) x" for x by (auto simp: kept_def K_def split: option.split)
  have b: "base_inv a" using store_invD(2) reachable_inv[OF r] by blast
  have d: "distinct (map st_id (sn_streams ?snap))" using snapshot_ok[OF r] by (simp add: snap_ok_def)
  have look: "look ?snap h = hm_get (by_id ?snap) h" for h
  proof -
    have "look ?snap h = Some x \<longleftrightarrow> hm_get (by_id ?snap) h = Some x" for x
      using look_Some[OF d, of h x] snapshot_streams[OF b, of x] snapshot_ids[OF b, of h] snapshot_ids_ok(1)[OF b]
      unfolding ids_ok_def by auto
    then show ?thesis by (metis not_None_eq)
  qed
  have sib: "set (kids_ref ByBytes (Some K) ?snap hs) = set (kept_siblings srt ?keep (by_id ?snap) hs)" for hs
    by (simp add: set_kids_ref set_kept_siblings keep look)
  have up: "parents_in a K"
  proof (cases query)
    case None
    then show ?thesis by (simp add: K_def parents_in_def)
  next
    case (Some q)
    then show ?thesis using matches_closed[OF r, of _ _ _ ve env q] by (auto simp: K_def parents_in_def)
  qed
  have sK: "get a (st_id s) = Some s" "st_created_seq s \<in> K" using s k keep snapshot_streams[OF b] by (auto simp: kept_def)
  show ?thesis using rooted[OF b up sK, of ByBytes] unfolding sib .
qed

lemma rows_bounded:
  assumes "base_inv a" "distinct rows" "set rows \<subseteq> {s. get a (st_id s) = Some s}"
  shows "length rows \<le> length (by_id (snapshot a))"
proof -
  have row: "get a (st_id x) = Some x" if "x \<in> set rows" for x using assms(3) that by blast
  have "inj_on st_id (set rows)" by (rule inj_onI) (metis row option.inject)
  then have "length rows = card (st_id ` set rows)" using assms(2) by (simp add: card_image distinct_card)
  also have "\<dots> \<le> card (fst ` set (by_id (snapshot a)))"
  proof (rule card_mono)
    show "st_id ` set rows \<subseteq> fst ` set (by_id (snapshot a))"
      using row snapshot_ids[OF assms(1)] by (metis hm_get_None_iff image_subsetI option.distinct(1))
  qed simp
  also have "\<dots> \<le> length (by_id (snapshot a))" by (metis card_length length_map list.set_map)
  finally show ?thesis .
qed

text \<open>C19. The tree of the command line lists every stream it keeps exactly once: on the snapshot of a reachable store, in
  particular the last one, taken after the end of the capture, under any order, without a query the rows are all live streams, with a query the matching streams and their ancestors;
  no row is repeated and the walk is never cut short. The engine is one whose keys
  never begin with the mark of a condensed node, as the default one's.\<close>

theorem streams_tree_lists_once:
  assumes "reachable e cfg a" and "plain_engine e"
  shows "distinct (map snd (tree_streams ve env (snapshot a) srt query)) \<and>
    set (map snd (tree_streams ve env (snapshot a) srt query)) = {s. in_tree ve env query (snapshot a) s}"
proof -
  let ?snap = "snapshot a" and ?ids = "by_id (snapshot a)"
  let ?keep = "map_option (matching_with_ancestors ve env (sn_streams ?snap) ?ids) query"
  let ?kids = "\<lambda>s. kept_siblings srt ?keep ?ids (st_children s)" and ?A = "{s. get a (st_id s) = Some s}"
  let ?n = "Suc (length ?ids)" and ?tops = "kept_siblings srt ?keep ?ids (sn_roots ?snap)"
  have b: "base_inv a" using store_invD(2) reachable_inv[OF assms] by blast
  note f = snapshot_family[OF b, of srt ?keep]
  note u = roots_unrelated[OF b, of srt ?keep]
  have rows: "map snd (tree_streams ve env ?snap srt query) = concat (map (preorder ?n (\<lambda>_. True) ?kids) ?tops)"
    by (simp add: tree_streams_def Let_def map_concat comp_def collect_preorder del: preorder.simps collect_subtree.simps)
  have dist: "distinct (concat (map (preorder ?n (\<lambda>_. True) ?kids) ?tops))"
    by (rule distinct_walks[OF f distinct_preorder[OF f] u])
  have tops: "t \<in> ?A" if "t \<in> set ?tops" for t using u that unfolding unrelated_def by blast
  have mem: "s \<in> ?A \<and> kept ?keep s" if t: "t \<in> set ?tops" "s \<in> set (preorder ?n (\<lambda>_. True) ?kids t)" for s t
  proof -
    have "(t, s) \<in> descends ?A ?kids" by (rule preorder_descends[OF f tops[OF t(1)] t(2)])
    then show ?thesis using tops[OF t(1)] t(1) descends_in[OF f, of t s]
      unfolding descends_def by (auto elim!: rtranclE simp: set_kept_siblings)
  qed
  have full: "s \<in> set (concat (map (preorder ?n (\<lambda>_. True) ?kids) ?tops))" if s: "s \<in> set (sn_streams ?snap)" "kept ?keep s" for s
  proof -
    obtain t where t: "t \<in> set ?tops" "(t, s) \<in> {(x, y). y \<in> set (?kids x)}\<^sup>*" using kept_rooted[OF assms s, of srt] by blast
    have "length (preorder ?n (\<lambda>_. True) ?kids t) \<le> length ?ids"
      using mem[OF t(1)] by (intro rows_bounded[OF b distinct_preorder[OF f tops[OF t(1)]]]) blast
    then have "s \<in> set (preorder ?n (\<lambda>_. True) ?kids t)"
      using preorder_reaches[OF t(2), of "\<lambda>_. True" ?n, OF TrueI] by linarith
    then show ?thesis using t(1) by auto
  qed
  have "s \<in> set (concat (map (preorder ?n (\<lambda>_. True) ?kids) ?tops)) \<longleftrightarrow> in_tree ve env query ?snap s" for s
  proof
    assume "s \<in> set (concat (map (preorder ?n (\<lambda>_. True) ?kids) ?tops))"
    then have "s \<in> ?A \<and> kept ?keep s" using mem unfolding set_concat set_map by blast
    then show "in_tree ve env query ?snap s" using kept_in_tree[OF assms, of s ve env query] snapshot_streams[OF b] by simp
  next
    assume i: "in_tree ve env query ?snap s"
    then have "s \<in> set (sn_streams ?snap)" by (simp add: in_tree_def)
    then show "s \<in> set (concat (map (preorder ?n (\<lambda>_. True) ?kids) ?tops))" using full kept_in_tree[OF assms, of s ve env query] i by blast
  qed
  then show ?thesis unfolding rows using dist by blast
qed

theorem streams_tree_lists_once_witness:
  "distinct (map snd (tree_streams plain_view no_regex (snapshot (pair_run live_config)) OrderBytes (Some (EFlag FLive)))) \<and>
    set (map snd (tree_streams plain_view no_regex (snapshot (pair_run live_config)) OrderBytes (Some (EFlag FLive)))) =
      {s. in_tree plain_view no_regex (Some (EFlag FLive)) (snapshot (pair_run live_config)) s}"
  by (rule streams_tree_lists_once[OF pair_run_reachable pair_engine_plain])

section \<open>Selectors\<close>

lemma show_nat_nonempty: "show_nat n \<noteq> []"
  unfolding show_nat_def by (subst show_base.simps) simp

lemma digit_not_plus: "is_ascii_digit c \<Longrightarrow> c \<noteq> CHR ''+''"
  by (auto simp: is_ascii_digit_def code_def)

lemma parse_digits:
  assumes "ds \<noteq> []" "list_all is_ascii_digit ds" "read_nat ds < 2 ^ 64"
  shows "parse_unsigned ds = Some (read_nat ds)"
proof -
  obtain c r where "ds = c # r" using assms(1) by (cases ds) auto
  moreover have "c \<noteq> CHR ''+''" using assms(2) calculation digit_not_plus by simp
  ultimately show ?thesis using assms by (simp add: parse_unsigned_def)
qed

lemma parse_show_nat: "n < 2 ^ 64 \<Longrightarrow> parse_unsigned (show_nat n) = Some n"
proof -
  assume n: "n < 2 ^ 64"
  have "list_all is_ascii_digit (show_nat n)" unfolding list_all_iff using show_nat_digits by blast
  from parse_digits[OF show_nat_nonempty this] n show ?thesis unfolding read_show_nat by blast
qed

lemma find_only:
  assumes "x \<in> set xs" "P x" "\<And>y. y \<in> set xs \<Longrightarrow> P y \<Longrightarrow> y = x"
  shows "List.find P xs = Some x"
proof (cases "List.find P xs")
  case None
  then show ?thesis using assms(1,2) by (simp add: find_None_iff)
next
  case (Some y)
  then have "y \<in> set xs" "P y" by (auto simp: find_Some_iff)
  then show ?thesis using assms(3) Some by simp
qed

lemma show_nat_inject [simp]: "show_nat m = show_nat n \<longleftrightarrow> m = n"
  by (metis read_show_nat)

text \<open>C23. What a view numbers is selected by that number and nothing else is: on the snapshot of a reachable store, in
  particular the one taken after the end of the capture, which these commands see, the selector of a number resolves to a
  stream exactly if it is a stream of the snapshot that is shown under that number, and to a group of unknown payloads
  exactly if the table under the same limits prints that number in its row; a number nothing has is not found. The engine
  is one whose keys never begin with the mark of a condensed node, as the default one's.\<close>

theorem selectors_exact:
  assumes "reachable e cfg a" and "plain_engine e" and "n < 2 ^ 64"
  shows "(resolve_selector (snapshot a) (''#'' @ show_nat n) = Inr s \<longleftrightarrow>
      s \<in> set (sn_streams (snapshot a)) \<and> show_u64 (st_created_seq s) = show_nat n) \<and>
    (resolve_selector (snapshot a) (''#'' @ show_nat n) = Inl (NotFound (NoStream (of_nat n))) \<longleftrightarrow>
      show_nat n \<notin> (\<lambda>t. show_u64 (st_created_seq t)) ` set (sn_streams (snapshot a))) \<and>
    (let rows = enumerate 0 (visible_groups (snapshot a) top_n min_count) in
     (resolve_group (snapshot a) (''#'' @ show_nat n) top_n min_count = Inr g \<longleftrightarrow>
        (\<exists>i. (i, g) \<in> set rows \<and> gr_n (group_row_of hb (i, g)) = show_nat n)) \<and>
     (resolve_group (snapshot a) (''#'' @ show_nat n) top_n min_count = Inl (NotFound (NoGroup n (length rows))) \<longleftrightarrow>
        show_nat n \<notin> gr_n ` set (map (group_row_of hb) rows)))"
proof -
  have b: "base_inv a" using store_invD(2) reachable_inv[OF assms(1,2)] by blast
  note p = parse_show_nat[OF assms(3)]
  have num: "st_created_seq x = of_nat n \<longleftrightarrow> show_u64 (st_created_seq x) = show_nat n" for x :: stream
    using assms(3) by (auto simp: show_u64_def unsigned_of_nat take_bit_nat_eq_self)
  have sel: "resolve_selector (snapshot a) (''#'' @ show_nat n) =
      (case List.find (\<lambda>x. st_created_seq x = of_nat n) (sn_streams (snapshot a)) of
         Some x \<Rightarrow> Inr x | None \<Rightarrow> Inl (NotFound (NoStream (of_nat n))))"
    using p by (simp add: resolve_selector_def strip_prefix_def starts_with_def)
  have uniq: "y = x" if "y \<in> set (sn_streams (snapshot a))" "x \<in> set (sn_streams (snapshot a))" "st_created_seq y = st_created_seq x" for x y
    using snapshot_ids_ok(2)[OF b] that snapshot_streams[OF b] snapshot_ids[OF b] unfolding seqs_distinct_def by metis
  have found: "List.find (\<lambda>x. st_created_seq x = of_nat n) (sn_streams (snapshot a)) = Some s \<longleftrightarrow>
      s \<in> set (sn_streams (snapshot a)) \<and> st_created_seq s = of_nat n" for s
  proof
    assume s: "s \<in> set (sn_streams (snapshot a)) \<and> st_created_seq s = of_nat n"
    then show "List.find (\<lambda>x. st_created_seq x = of_nat n) (sn_streams (snapshot a)) = Some s"
      using uniq by (intro find_only) simp_all
  qed (auto simp: find_Some_iff)
  let ?groups = "visible_groups (snapshot a) top_n min_count"
  have grp: "resolve_group (snapshot a) (''#'' @ show_nat n) top_n min_count =
      (if n = 0 \<or> length ?groups < n then Inl (NotFound (NoGroup n (length ?groups))) else Inr (?groups ! (n - 1)))"
    using p by (simp add: resolve_group_def strip_prefix_def starts_with_def Let_def)
  have row: "gr_n (group_row_of hb (i, g)) = show_nat n \<longleftrightarrow> i + 1 = n" for i g by (simp add: group_row_of_def)
  have "resolve_selector (snapshot a) (''#'' @ show_nat n) = Inr s \<longleftrightarrow>
      s \<in> set (sn_streams (snapshot a)) \<and> show_u64 (st_created_seq s) = show_nat n"
    unfolding sel num[symmetric] using found[of s] by (auto split: option.splits)
  moreover have "resolve_selector (snapshot a) (''#'' @ show_nat n) = Inl (NotFound (NoStream (of_nat n))) \<longleftrightarrow>
      show_nat n \<notin> (\<lambda>t. show_u64 (st_created_seq t)) ` set (sn_streams (snapshot a))"
  proof -
    have "show_nat n \<in> (\<lambda>t. show_u64 (st_created_seq t)) ` set (sn_streams (snapshot a)) \<longleftrightarrow>
        (\<exists>t. t \<in> set (sn_streams (snapshot a)) \<and> st_created_seq t = of_nat n)"
      unfolding num image_iff by metis
    also have "\<dots> \<longleftrightarrow> List.find (\<lambda>x. st_created_seq x = of_nat n) (sn_streams (snapshot a)) \<noteq> None" using found by blast
    finally show ?thesis unfolding sel by (simp split: option.split)
  qed
  moreover have "resolve_group (snapshot a) (''#'' @ show_nat n) top_n min_count = Inr g \<longleftrightarrow>
      (\<exists>i. (i, g) \<in> set (enumerate 0 ?groups) \<and> gr_n (group_row_of hb (i, g)) = show_nat n)"
    unfolding grp row by (cases n) (auto simp: in_set_enumerate_eq)
  moreover have "resolve_group (snapshot a) (''#'' @ show_nat n) top_n min_count = Inl (NotFound (NoGroup n (length (enumerate 0 ?groups)))) \<longleftrightarrow>
      show_nat n \<notin> gr_n ` set (map (group_row_of hb) (enumerate 0 ?groups))"
  proof -
    have "map gr_n (map (group_row_of hb) (enumerate 0 ?groups)) = map (\<lambda>i. show_nat (i + 1)) [0..<length ?groups]"
      by (rule nth_equalityI) (simp_all add: nth_enumerate_eq group_row_of_def)
    from arg_cong[OF this, of set]
    have "show_nat n \<in> gr_n ` set (map (group_row_of hb) (enumerate 0 ?groups)) \<longleftrightarrow> (\<exists>i < length ?groups. i + 1 = n)"
      by (auto simp: image_image image_iff)
    moreover have "(\<exists>i < length ?groups. i + 1 = n) \<longleftrightarrow> 0 < n \<and> n \<le> length ?groups" by (cases n) auto
    ultimately show ?thesis unfolding grp by auto
  qed
  ultimately show ?thesis unfolding Let_def by blast
qed

theorem selectors_exact_witness:
  "\<forall>s. resolve_selector (snapshot (finish (pair_run live_config))) (''#'' @ show_nat 0) = Inr s \<longleftrightarrow>
    s \<in> set (sn_streams (snapshot (finish (pair_run live_config)))) \<and> show_u64 (st_created_seq s) = show_nat 0"
  using selectors_exact[OF reach_finish[OF pair_run_reachable] pair_engine_plain, of 0 live_config] by simp

section \<open>Export\<close>

lemma slug_safe: "c \<in> set (slug_for k) \<Longrightarrow> is_ascii_alphabetic c \<or> is_ascii_digit c \<or> c = CHR ''_''"
  by (auto simp: slug_for_def slug_char_def Let_def)

lemma slug_nonempty: "slug_for k \<noteq> []"
proof -
  have "\<not> is_continuation (CHR ''-'')" by (simp add: is_continuation_def code_def)
  then show ?thesis by (simp add: slug_for_def Let_def)
qed

lemma sample_file_inject: "sample_file k i = sample_file k j \<longleftrightarrow> i = j"
  by (simp add: sample_file_def)

lemma sample_file_plain: "CHR ''/'' \<notin> set (sample_file k i)"
proof -
  have "CHR ''/'' \<notin> set (slug_for k)" using slug_safe[of "CHR ''/''" k] by (auto simp: is_ascii_alphabetic_def is_ascii_digit_def code_def)
  moreover have "CHR ''/'' \<notin> set (show_nat (i + 1))"
    using show_nat_digits[of "CHR ''/''" "i + 1"] by (auto simp: is_ascii_digit_def code_def)
  ultimately show ?thesis by (simp add: sample_file_def)
qed

lemma path_join_inject:
  assumes "CHR ''/'' \<notin> set m" "CHR ''/'' \<notin> set n"
  shows "path_join dir m = path_join dir n \<longleftrightarrow> m = n"
proof -
  have "path_join dir x = (if dir = [] \<or> last dir = CHR ''/'' then dir else dir @ ''/'') @ x" if "CHR ''/'' \<notin> set x" for x
    using that by (cases x) (auto simp: path_join_def)
  then show ?thesis using assms by simp
qed

lemma sample_path_inject: "path_join dir (sample_file k i) = path_join dir (sample_file k j) \<longleftrightarrow> i = j"
  by (simp add: path_join_inject sample_file_plain sample_file_inject)

lemma sample_not_manifest: "path_join dir (sample_file k i) \<noteq> path_join dir ''manifest.json''"
proof
  assume "path_join dir (sample_file k i) = path_join dir ''manifest.json''"
  then have "slug_for k @ ''-'' @ show_nat (i + 1) @ ''.bin'' = ''manifest.json''"
    using path_join_inject[OF sample_file_plain[of k i], of "''manifest.json''" dir] by (simp add: sample_file_def)
  then have "CHR ''-'' \<in> set ''manifest.json''" by (metis Un_iff list.set_intros(1) set_append)
  then show False by simp
qed

lemma write_samples_ok:
  assumes "write_samples io dir k i ss d = (Inr u, d')"
  shows "(\<forall>j < length ss. d' (path_join dir (sample_file k (i + j))) = Some (ss ! j)) \<and>
    (\<forall>p. (\<forall>j < length ss. p \<noteq> path_join dir (sample_file k (i + j))) \<longrightarrow> d' p = d p)"
  using assms
proof (induction ss arbitrary: i d)
  case (Cons s ss)
  let ?d = "d(path_join dir (sample_file k i) \<mapsto> s)"
  have w: "write_samples io dir k (Suc i) ss ?d = (Inr u, d')" using Cons.prems by (simp add: Let_def split: option.splits)
  note IH = Cons.IH[OF w]
  have "path_join dir (sample_file k i) \<noteq> path_join dir (sample_file k (Suc i + j))" for j
    using sample_path_inject[of dir k i "Suc i + j"] by simp
  then have first: "d' (path_join dir (sample_file k i)) = Some s" using IH by simp
  have "d' (path_join dir (sample_file k (i + j))) = Some ((s # ss) ! j)" if "j < length (s # ss)" for j
    using that first IH by (cases j) auto
  moreover have "d' p = d p" if p: "\<forall>j < length (s # ss). p \<noteq> path_join dir (sample_file k (i + j))" for p
  proof -
    have "p \<noteq> path_join dir (sample_file k i)" using p by (metis add_0_right length_greater_0_conv list.distinct(1))
    moreover have "\<forall>j < length ss. p \<noteq> path_join dir (sample_file k (Suc i + j))" using p by (metis Suc_less_eq add_Suc_shift length_Cons)
    ultimately show ?thesis using IH by simp
  qed
  ultimately show ?case by blast
qed simp

text \<open>C22. An export can be read back: if it succeeds, the file of each retained sample holds exactly its bytes, the manifest
  is the file returned, no two samples share a file and none is the manifest's, and every other file is as it was; the name
  of the \<open>n\<close>-th sample is a slug of letters, digits and underscores, then \<open>-n.bin\<close>, so it never leaves the
  directory. Files are told apart by the path they are written to.\<close>

theorem export_roundtrip:
  assumes "export_group pretty io mkdir g dir source d = (Inr path, d')"
  shows "map (\<lambda>i. d' (path_join dir (sample_file (ug_key g) i))) [0..<length (ug_samples g)] = map Some (ug_samples g) \<and>
    path = path_join dir ''manifest.json'' \<and> d' path = Some (pretty (manifest_json g source)) \<and>
    distinct (path # map (\<lambda>i. path_join dir (sample_file (ug_key g) i)) [0..<length (ug_samples g)]) \<and>
    (\<forall>p. p \<noteq> path \<longrightarrow> p \<notin> (\<lambda>i. path_join dir (sample_file (ug_key g) i)) ` {0..<length (ug_samples g)} \<longrightarrow> d' p = d p) \<and>
    (\<forall>i. \<exists>slug. sample_file (ug_key g) i = slug @ ''-'' @ show_nat (i + 1) @ ''.bin'' \<and> slug \<noteq> [] \<and>
       list_all (\<lambda>c. is_ascii_alphabetic c \<or> is_ascii_digit c \<or> c = CHR ''_'') slug \<and> CHR ''/'' \<notin> set (sample_file (ug_key g) i))"
proof -
  obtain d1 u where w: "write_samples io dir (ug_key g) 0 (ug_samples g) d = (Inr u, d1)"
    and p: "path = path_join dir ''manifest.json''" "d' = d1(path \<mapsto> pretty (manifest_json g source))"
    using assms by (auto simp: export_group_def Let_def split: option.splits prod.splits sum.splits)
  note ok = write_samples_ok[OF w]
  have files: "map (\<lambda>i. d' (path_join dir (sample_file (ug_key g) i))) [0..<length (ug_samples g)] = map Some (ug_samples g)"
    using ok p sample_not_manifest[of dir "ug_key g"] by (intro nth_equalityI) simp_all
  have apart: "distinct (path # map (\<lambda>i. path_join dir (sample_file (ug_key g) i)) [0..<length (ug_samples g)])"
    using sample_not_manifest[of dir "ug_key g"]
    by (auto simp: p(1) distinct_map sample_path_inject intro!: inj_onI dest: sym)
  have others: "d' q = d q" if "q \<noteq> path" "q \<notin> (\<lambda>i. path_join dir (sample_file (ug_key g) i)) ` {0..<length (ug_samples g)}" for q
  proof -
    have "\<forall>j < length (ug_samples g). q \<noteq> path_join dir (sample_file (ug_key g) (0 + j))" using that(2) by auto
    then show ?thesis using ok p that(1) by simp
  qed
  have names: "\<exists>slug. sample_file (ug_key g) i = slug @ ''-'' @ show_nat (i + 1) @ ''.bin'' \<and> slug \<noteq> [] \<and>
      list_all (\<lambda>c. is_ascii_alphabetic c \<or> is_ascii_digit c \<or> c = CHR ''_'') slug \<and> CHR ''/'' \<notin> set (sample_file (ug_key g) i)" for i
    by (intro exI[of _ "slug_for (ug_key g)"] conjI sample_file_plain slug_nonempty)
      (simp_all add: sample_file_def list_all_iff slug_safe)
  show ?thesis
    by (intro conjI allI impI files p(1) apart others names) (simp_all add: p(2))
qed

definition demo_group :: unknown_group where
  "demo_group = \<lparr>ug_key = UnknownKey ''udp'' (Some (UdpPort 53)), ug_count = 3, ug_bytes_total = 5, ug_bytes_min = 2,
     ug_bytes_max = 3, ug_first_seen = 0, ug_last_seen = 5, ug_endpoints = [], ug_endpoints_overflow = False, ug_near_misses = [],
     ug_samples = [[0xDE, 0xAD], [0xBE, 0xEF, 1]]\<rparr>"

theorem export_roundtrip_witness:
  "\<exists>d'. export_group (\<lambda>_. []) (\<lambda>_. None) None demo_group ''out'' ''a.pcap'' Map.empty = (Inr ''out/manifest.json'', d') \<and>
    map (\<lambda>i. d' (path_join ''out'' (sample_file (ug_key demo_group) i))) [0..<2] = [Some [0xDE, 0xAD], Some [0xBE, 0xEF, 1]]"
proof -
  obtain d' where d: "export_group (\<lambda>_. []) (\<lambda>_. None) None demo_group ''out'' ''a.pcap'' Map.empty = (Inr ''out/manifest.json'', d')"
    by (simp add: export_group_def demo_group_def Let_def path_join_def)
  have samples: "ug_samples demo_group = [[0xDE, 0xAD], [0xBE, 0xEF, 1]]" by (simp add: demo_group_def)
  then have two: "length (ug_samples demo_group) = 2" by simp
  have "map (\<lambda>i. d' (path_join ''out'' (sample_file (ug_key demo_group) i))) [0..<2] = [Some [0xDE, 0xAD], Some [0xBE, 0xEF, 1]]"
    using conjunct1[OF export_roundtrip[OF d]] unfolding two unfolding samples by (simp only: list.map)
  with d show ?thesis by (intro exI[of _ d'] conjI)
qed

section \<open>The event stream\<close>

lemma watch_packets_agg: "fst (fold watch_packet turns (a, tr, lg)) = fold ingest (map fst turns) a"
proof (induction turns arbitrary: a tr lg)
  case (Cons t turns)
  obtain a1 tr1 lg1 where w: "watch_packet t (a, tr, lg) = (a1, tr1, lg1)" by (metis prod_cases3)
  have "a1 = ingest (fst t) a" using w by (cases t) (auto simp: watch_packet_def Let_def split: prod.splits)
  then show ?case using Cons.IH[of a1 tr1 lg1] w by simp
qed simp

lemma reader_closed:
  "reader h (lg @ map LClosed evs) = (if h \<in> set (map (\<lambda>x. st_id (ev_stream x)) evs) then None else reader h lg)"
proof (induction evs rule: rev_induct)
  case (snoc ev evs)
  have "lg @ map LClosed (evs @ [ev]) = (lg @ map LClosed evs) @ [LClosed ev]" by simp
  then show ?case using snoc by (simp only: reader_snoc) (auto simp: reader_step_def)
qed simp

text \<open>C18. The event stream of a live run follows its protocol, whatever the clock reads: for each stream, by its handle, a
  \<open>stream_new\<close> comes first or after a \<open>stream_closed\<close>, a \<open>stream_update\<close> only while the stream is open and a second or more after
  the last line about it, and at the end no stream that was still live is left open. The engine is one whose keys
  never begin with the mark of a condensed node, as the default one's.\<close>

theorem event_stream_protocol:
  assumes "watch_json start a turns = (a', tr, lg)" and "reachable e cfg (fold ingest (map fst turns) a)" and "plain_engine e"
    and "cf_eviction cfg = Live idle linger cap" and "cf_sink cfg"
  shows "log_ok lg \<and> (get (fold ingest (map fst turns) a) h \<noteq> None \<longrightarrow> reader h lg = None)"
proof -
  obtain a1 tr1 lg1 where f: "fold watch_packet turns (a, tracker_new start, []) = (a1, tr1, lg1)" by (metis prod_cases3)
  have a1: "a1 = fold ingest (map fst turns) a" using watch_packets_agg[of turns a "tracker_new start" "[]"] f by simp
  have t: "tracks tr1 lg1" by (rule tracks_turns[OF _ f]) (simp add: tracks_def tracker_new_def)
  from reachable_inv[OF assms(2,3)] a1 have inv: "store_inv a1" and cfg: "ag_config a1 = cfg" by simp_all
  note b = store_invD(2)[OF inv]
  obtain es where es: "ag_emitted (finish a1) = ag_emitted a1 @ es" "map (\<lambda>x. st_id (ev_stream x)) es = finish_order a1"
    using evict_all[OF inv finish_order_live(2,1)[OF b] finish_order_children_first[OF b]] cfg assms(4,5) by (auto simp: finish_def)
  have lg: "lg = lg1 @ map LClosed es" using assms(1) f es(1) by (simp add: watch_json_def watch_end_def Let_def)
  have "reader h lg = None" if "get a1 h \<noteq> None"
    using that finish_order_live(1)[OF b] es(2) unfolding lg reader_closed by auto
  moreover have "log_ok lg" using tracks_forget[OF t, of es] unfolding lg tracks_def by blast
  ultimately show ?thesis using a1 by blast
qed

theorem event_stream_protocol_witness:
  "\<exists>a' tr lg. watch_json 0 (aggregator_new (\<lambda>_. 0) (\<lambda>_. 0) pair_engine live_config) [(pair_packet 2 1, 5, 6, 7)] = (a', tr, lg) \<and> log_ok lg \<and>
    (\<nexists>h. get (pair_run live_config) h \<noteq> None \<and> reader h lg \<noteq> None)"
proof -
  let ?a = "aggregator_new (\<lambda>_. 0) (\<lambda>_. 0) pair_engine live_config" and ?turns = "[(pair_packet 2 1, 5 :: int, 6 :: int, 7 :: int)]"
  obtain a' tr lg where w: "watch_json 0 ?a ?turns = (a', tr, lg)" by (metis prod_cases3)
  have run: "fold ingest (map fst ?turns) ?a = pair_run live_config" by (simp add: pair_run_def)
  have r: "reachable pair_engine live_config (fold ingest (map fst ?turns) ?a)" unfolding run by (rule pair_run_reachable)
  have "cf_eviction live_config = Live 1000 10 1" "cf_sink live_config" by (simp_all add: live_config_def)
  note e = event_stream_protocol[OF w r pair_engine_plain this, unfolded run]
  have "\<nexists>h. get (pair_run live_config) h \<noteq> None \<and> reader h lg \<noteq> None" using e by metis
  moreover have "log_ok lg" using e by metis
  ultimately show ?thesis using w by (intro exI[of _ a'] exI[of _ tr] exI[of _ lg] conjI)
qed

end
