(* ===== verification/Spec2Isabelle.thy ===== *)
theory Spec2Isabelle
  imports Link Net Transport Tunnel Lan Overlay Naming Hosts Control Industrial Ber Lines Sessions Secure Messages Wireless Carrier Export Registry View_Index_Props Hub Json_View App_Props Pipeline_Props Web_Props Cli_Props
begin

text \<open>
  A verification development of pktflow, a packet dissector and stream aggregator written in Rust.

  \<^bold>\<open>The program.\<close> A capture source hands raw packets to the dissection core
  (\<open>crates/pktflow-core\<close>). An \<open>Engine\<close> holds the registered protocol plugins
  (\<open>crates/pktflow-plugins\<close>), the route table from protocol identifiers to plugins and the pool of
  plugins that can probe unknown bytes. \<open>Engine::dissect\<close> walks a packet layer by layer: the entry layer
  is resolved from the link type, every later one from the hint the previous plugin returned. The
  result, a \<open>DissectedPacket\<close>, goes to the \<open>Aggregator\<close> (\<open>crates/pktflow-flows\<close>), which derives a
  canonical flow key per layer, attributes the packet to a forest of streams, condenses fan-out,
  advances protocol lifecycles, keeps bounded field summaries and an evidence registry of unknown
  payloads, and evicts streams by idle timeout, protocol close and a hard cap. Presentation crates
  (view, CLI, TUI, web) read snapshots of it.

  \<^bold>\<open>Theories and sources.\<close>
  \<^item> \<open>Prelude\<close>: machine integers, the parts of the Rust standard library the crates use, hash maps as
    association lists. \<open>usize\<close> and durations are natural numbers, fixed-width integers are words.
  \<^item> \<open>Bytes\<close> (\<open>bytes.rs\<close>), \<open>Values\<close> (\<open>value.rs\<close>), \<open>Packet\<close> (\<open>route.rs\<close>, \<open>error.rs\<close>, \<open>depth.rs\<close>,
    \<open>packet.rs\<close>, \<open>context.rs\<close>), \<open>Plugin\<close> (\<open>stream.rs\<close>, \<open>plugin.rs\<close>): the data model. A plugin trait
    object is the record of its methods; the contract of the trait's documentation is the locale
    \<open>layer_plugin\<close>.
  \<^item> \<open>Engine\<close> (\<open>engine.rs\<close>): the builder with every validation of \<open>build\<close>, which succeeds exactly on
    collision-free, well-formed registrations and then yields the routes of a declarative specification.
  \<^item> \<open>Router\<close> (\<open>router.rs\<close>): resolution of a hint. A named but unclaimed route stops dissection and never
    reaches the heuristics; the fallback picks the best-scoring plugin that parses, ties by registration.
  \<^item> \<open>Parser\<close> (\<open>parser.rs\<close>, \<open>diagnostics.rs\<close>): the layer iterator. It refines an inductive walk relation,
    its layers are contiguous and account for every byte, and diagnostics never influence routing.
  \<^item> \<open>Flow_Key\<close> (\<open>key.rs\<close>), \<open>Rollup\<close> (\<open>rollup.rs\<close>), \<open>Unknown\<close> (\<open>unknown.rs\<close>): canonical keys identify
    conversations exactly, summaries keep what a list specification says, the registry keeps its
    invariant and its cap.
  \<^item> \<open>Arena\<close>, \<open>Min_Heap\<close>, \<open>Store\<close> (\<open>store.rs\<close>): the generational arena, the two lazy heaps and the
    aggregator. The locales \<open>handle_store\<close> and \<open>min_queue\<close> state what the store relies on.
  \<^item> \<open>Forest\<close>, \<open>Store_Inv\<close>, \<open>Finish\<close>, \<open>Store_Props\<close>: the abstract stream forest, the invariant every
    operation of the store preserves, the end of capture, and the properties of every reachable store: a fresh one,
    then any packets and ends of capture, so the final snapshot of a run is covered. They hold for an engine whose
    keys never begin with the mark of a condensed node (\<open>plain_engine\<close>); a lemma of \<open>Pipeline_Props\<close> shows that the
    default engine is one.
  \<^item> \<open>Reading\<close>, \<open>Walking\<close>, \<open>Utf8\<close>: what the protocol theories share: reads as facts about the buffer,
    recursion through reads, optional fields, reading back what was written, lossy decoding of text.
  \<^item> The 82 protocol plugins, one file of \<open>pktflow-plugins/src\<close> each, grouped into \<open>Link\<close>, \<open>Net\<close>,
    \<open>Transport\<close>, \<open>Tunnel\<close>, \<open>Lan\<close>, \<open>Overlay\<close>, \<open>Naming\<close>, \<open>Hosts\<close>, \<open>Control\<close>, \<open>Industrial\<close>,
    \<open>Ber\<close>, \<open>Lines\<close>, \<open>Sessions\<close>, \<open>Secure\<close>, \<open>Messages\<close>, \<open>Wireless\<close>, \<open>Carrier\<close>, \<open>Export\<close>. A plugin is
    a parse function named after the file, its identity and the record of its methods; each is an
    interpretation of \<open>layer_plugin\<close>, or of its first half \<open>framed_plugin\<close> where a header may lack a key
    field (L2TPv3, QUIC, 802.11). Beyond the contract the lemmas concern checksums, label stacks,
    compressed names, length encodings, text lines, extension blocks, masked addresses and the lifecycles
    of TCP and SCTP (locale \<open>lifecycle\<close>).
  \<^item> \<open>Registry\<close> (\<open>lib.rs\<close>): the registration list. It builds, and a layer the built engine reports has the
    fields its streams are keyed by exactly unless its first bytes make it one of three kinds of messages without
    them (L2TPv3 control messages, QUIC short headers, 802.11 control frames without a second address).
  \<^item> \<open>Text\<close>, \<open>F64\<close>: the string operations and the double-precision numbers the view crate uses (doubles
    as rational numbers rounded to 53 bits). \<open>Fmt\<close> (\<open>fmt.rs\<close>), \<open>Stream_View\<close> (\<open>stream_view.rs\<close>): how
    values and streams are shown.
  \<^item> \<open>Query\<close>, \<open>Query_Grammar\<close>, \<open>Query_Match\<close> (\<open>query.rs\<close>): the filter language. The parser accepts exactly
    the grammar of its documentation, always returns, ignores ASCII white space around a query, never panics on UTF-8 text without the
    bytes 0x85 and 0xA0 and panics on every query that holds one before any literal; the filter
    keeps exactly the matching streams and their ancestors.
  \<^item> \<open>View_Index\<close>, \<open>View_Index_Props\<close> (\<open>index.rs\<close>): the memoised index of a snapshot, whose windows refine
    a list specification whatever was asked before. \<open>Hub\<close> (\<open>hub.rs\<close>): the snapshot hub under any
    interleaving of its writer and readers. \<open>Json_View\<close> (\<open>json.rs\<close>): the JSON record of a stream.
  \<^item> \<open>Stream_Tree\<close> (\<open>pktflow-tui/src/tree.rs\<close>): the rows of the tree pane, the capped preorder of the visible
    forest. \<open>App\<close>, \<open>App_Props\<close> (\<open>app.rs\<close> and the event loop of \<open>lib.rs\<close>): the state of the terminal
    interface under keys, ticks and frames, with its invariant over every session against a hub, the freshness
    of what it shows, the selection on screen and the end of a replay.
  \<^item> \<open>Capture\<close> (\<open>pktflow-capture\<close>): sources, the producer loop, errors. The locale \<open>finite_source\<close> states what the loop
    needs of a source that ends; it is interpreted for the in-memory source, lemmas give it for files over a
    capture library that yields finitely many frames and then the end or an error, and for any such source behind
    the stop flag. A live source ends only when stopped.
  \<^item> \<open>Pipeline\<close>, \<open>Pipeline_Props\<close> (\<open>pktflow-cli/src/run.rs\<close>, \<open>cli.rs\<close>, \<open>error.rs\<close>): the producer and the consumer as the
    rules of a step relation over a bounded channel. Every complete run has the result of the sequential program, no run
    is stuck, runs over files complete whatever the stop flag does and end in the error of a damaged file, a reader of the hub that sees a run finished sees its result; validated options
    never panic the engine, and a trigger stops exactly the sources registered before it.
  \<^item> \<open>Web\<close>, \<open>Web_Server\<close>, \<open>Web_Props\<close> (\<open>pktflow-web\<close>): the documents of the API, the shared state with the memo of the
    index, the handlers and the upload: windows refine the list specification and are bounded, an upload is stored whole
    or not at all, the memo is current while one hub is served and stale after an upload.
  \<^item> \<open>Cli_Views\<close>, \<open>Cli_Unknown\<close>, \<open>Cli_Events\<close>, \<open>Cli_Props\<close> (\<open>pktflow-cli/src/views.rs\<close>, \<open>summary.rs\<close>, \<open>unknown_view.rs\<close>,
    \<open>scaffold.rs\<close> and \<open>watch_json\<close> of \<open>lib.rs\<close>): the views of the command line. The tree lists each stream it keeps once, selectors
    resolve exactly, exports read back, and the event stream of a live run follows its protocol.

  \<^bold>\<open>Loops and bounds.\<close> The candidate loop of the fallback shrinks its list; the walk is bounded by
  \<open>max_layers\<close>; the sweep and cap loops of the store terminate by a measure on stale heap entries and
  live streams; every loop of a protocol parser advances its reader. Fuel appears in five places: the
  parent-chain loop of \<open>finish\<close> (the number of arena slots plus one, enough because parents are created
  before their children), the ancestor walks of \<open>Stream_View\<close> (the number of streams, enough because a
  chain of a valid snapshot has no repetition), the rows of the terminal's tree (the row cap, which the rows
  reach first), the tree of the command line (one more than the streams, proved enough) and the query parser (six calls per
  token, proved enough by the grammar theorem). Properties of reachable stores assume
  room: fewer than \<open>2^32\<close> arena slots and creation numbers below \<open>2^64\<close>, the widths of the
  program's own counters. The producer loop and a live read may not end and are partial functions; that they
  return is proved for sources that end and once the stop flag is set. Parameters of the model: the hash functions of the store's index, the regular
  expression engine, Unicode case mapping, the registered route resolver, the time formatter, the capture library,
  the sending end of the channel, clock readings, the outcome of file operations that create or write, the pipeline an upload starts, and
  the decimal rendering of floats.

  \<^bold>\<open>Not modelled.\<close> What only calls a library: the grammar of the command line (clap), the dispatch of subcommands and
  printing, the widgets of the terminal, the route table, event stream and socket of the HTTP framework; the test kit;
  of \<open>fmt.rs\<close>, \<open>rfc3339\<close> (a call of the time crate) and \<open>human_bytes\<close> (decimal rendering of a float). Times and
  durations are unbounded: the panic of \<open>SystemTime + Duration\<close> beyond the range of the platform's clock
  (\<open>deadline_of\<close>, \<open>arm_new\<close>, \<open>attribute_layer\<close>, \<open>sp_ts\<close>) is not modelled. A handler of the server is atomic
  between the loads of the hub, and the removals of files in \<open>upload\<close>, whose results the code drops, take effect at
  once and succeed.
\<close>

end
